(* ===== verification/Prelude.thy ===== *)
theory Prelude
  imports Main "HOL-Library.Word" "HOL-Library.Monad_Syntax"
begin

text \<open>
  Shared vocabulary of the development.

  The kernel is C: unsigned machine integers are words of their C width (so \<open>+\<close>, \<open>-\<close>,
  shifts and masks wrap as in C); a signed \<open>int\<close> whose overflow would be undefined
  behaviour is a mathematical \<open>int\<close>.  Every kernel routine is a state transformer into
  \<open>option\<close>: \<open>None\<close> is a run that does not come back to its caller (a \<open>panic\<close>, or a
  wait that nobody can end), \<open>Some (result, state)\<close> is a return.  Routines are composed
  with the do-notation of the option monad.
\<close>

unbundle bit_operations_syntax

type_synonym u8 = "8 word"
type_synonym u16 = "16 word"
type_synonym u32 = "32 word"
type_synonym u64 = "64 word"

named_theorems kernel_simps \<open>unfolding rules for the straight-line parts of kernel routines\<close>

section \<open>Panic and guarded steps\<close>

definition panic :: "string \<Rightarrow> 'a option" where
  "panic msg = None"

lemma panic_None [simp]: "panic msg = None"
  by (simp add: panic_def)

lemma bind_Some_iff [kernel_simps]:
  "(Option.bind m f = Some r) = (\<exists>x. m = Some x \<and> f x = Some r)"
  by (cases m) auto

section \<open>Lists and functions\<close>

lemma fun_upd_None_same [simp]: "m l = None \<Longrightarrow> (m(l := v))(l := None) = m"
  by (auto simp: fun_eq_iff)

lemma take_half_length: "length (take (Suc n div 2) xs) + length (drop (Suc n div 2) xs) = length xs"
  by simp

section \<open>Words\<close>

lemma of_nat_lt_word [simp]:
  "n < 2 ^ LENGTH('a) \<Longrightarrow> unat (of_nat n :: 'a::len word) = n"
  by (simp add: unat_of_nat take_bit_nat_eq_self)

lemma unat_bound: "unat (x :: 'a::len word) < 2 ^ LENGTH('a)"
  by (rule unsigned_less)

lemma word_of_nat_inj_lt:
  "i < 2 ^ LENGTH('a) \<Longrightarrow> j < 2 ^ LENGTH('a) \<Longrightarrow> (of_nat i :: 'a::len word) = of_nat j \<Longrightarrow> i = j"
  by (metis of_nat_lt_word)

lemma word_diff_lt_imp:
  "unat (a - d :: 'a::len word) < n \<Longrightarrow> \<exists>i < n. a = d + of_nat i"
  by (intro exI [of _ "unat (a - d)"]) simp

lemma word_add_of_nat_diff [simp]:
  "i < 2 ^ LENGTH('a) \<Longrightarrow> unat ((d + of_nat i) - d :: 'a::len word) = i"
  by simp

lemma small_word_bits:
  assumes "unat (y :: 'a::len word) < 2 ^ k" "bit y n" shows "n < k"
proof -
  have "take_bit k y = y"
    using assms(1) by (simp add: word_unat_eq_iff unsigned_take_bit_eq take_bit_nat_eq_self)
  then have "bit (take_bit k y) n" using assms(2) by simp
  then show ?thesis by (simp add: bit_take_bit_iff)
qed

lemma unat_diff_Suc:
  assumes "(a :: 'a::len word) \<noteq> d" shows "unat (a - d) = Suc (unat (a - (d + 1)))"
proof -
  have ne: "a - d \<noteq> 0" using assms by simp
  then have "unat (a - d - 1) = unat (a - d) - 1" by (rule unat_minus_one)
  moreover have "unat (a - d) \<noteq> 0" using ne by (simp only: unat_eq_0 not_False_eq_True)
  moreover have "a - d - 1 = a - (d + 1)" by simp
  ultimately show ?thesis by (simp only:)
qed

lemma offset_lt_Suc:
  "unat ((a :: 'a::len word) - d) < Suc k \<longleftrightarrow> a = d \<or> unat (a - (d + 1)) < k"
  by (cases "a = d") (simp_all add: unat_diff_Suc del: diff_add_eq_diff_diff_swap)

end
