(* ===== verification/Spinlock.thy ===== *)
theory Spinlock
  imports Prelude
begin

text \<open>
  \<open>kernel/spinlock.c\<close> and \<open>kernel/sleeplock.c\<close>.

  First the locks themselves, at the granularity of the atomic memory operations: a step
  relation interleaves any number of CPUs running \<open>acquire\<close> and \<open>release\<close> on one
  \<open>struct spinlock\<close>, and mutual exclusion is an invariant of its reachable states.

  Then the view of a single CPU that runs a kernel routine to completion: \<open>kcpu\<close> holds
  its interrupt state and, for every lock, which CPU holds it.  All later theories use
  these \<open>acquire\<close>, \<open>release\<close>, \<open>push_off\<close> and \<open>pop_off\<close>.
\<close>

section \<open>The lock word under concurrent CPUs\<close>

record spinlock =
  locked :: u32
  lcpu :: "nat option"  \<comment> \<open>\<open>lk->cpu\<close>; \<open>None\<close> is the null pointer\<close>

datatype lock_pc = Outside | Spinning | GotWord | Inside | ClearedCpu

record lock_sys =
  spin :: spinlock
  lpc :: "nat \<Rightarrow> lock_pc"

definition initlock :: spinlock where
  "initlock = \<lparr>locked = 0, lcpu = None\<rparr>"

definition holding_lk :: "spinlock \<Rightarrow> nat \<Rightarrow> bool" where
  "holding_lk k c \<longleftrightarrow> locked k \<noteq> 0 \<and> lcpu k = Some c"

definition init_lock_sys :: lock_sys where
  "init_lock_sys = \<lparr>spin = initlock, lpc = (\<lambda>_. Outside)\<rparr>"

inductive lock_step :: "lock_sys \<Rightarrow> lock_sys \<Rightarrow> bool" where
  acquire_enter: \<comment> \<open>\<open>if(holding(lk)) panic\<close> passed\<close>
    "lpc s c = Outside \<Longrightarrow> \<not> holding_lk (spin s) c \<Longrightarrow>
     lock_step s (s\<lparr>lpc := (lpc s)(c := Spinning)\<rparr>)"
| test_and_set_fail: \<comment> \<open>the swap returned 1: spin again\<close>
    "lpc s c = Spinning \<Longrightarrow> locked (spin s) \<noteq> 0 \<Longrightarrow>
     lock_step s (s\<lparr>spin := (spin s)\<lparr>locked := 1\<rparr>\<rparr>)"
| test_and_set_ok:
    "lpc s c = Spinning \<Longrightarrow> locked (spin s) = 0 \<Longrightarrow>
     lock_step s (s\<lparr>spin := (spin s)\<lparr>locked := 1\<rparr>, lpc := (lpc s)(c := GotWord)\<rparr>)"
| record_cpu: \<comment> \<open>\<open>lk->cpu = mycpu()\<close>\<close>
    "lpc s c = GotWord \<Longrightarrow>
     lock_step s (s\<lparr>spin := (spin s)\<lparr>lcpu := Some c\<rparr>, lpc := (lpc s)(c := Inside)\<rparr>)"
| release_cpu: \<comment> \<open>\<open>if(!holding(lk)) panic\<close> passed, \<open>lk->cpu = 0\<close>\<close>
    "lpc s c = Inside \<Longrightarrow> holding_lk (spin s) c \<Longrightarrow>
     lock_step s (s\<lparr>spin := (spin s)\<lparr>lcpu := None\<rparr>, lpc := (lpc s)(c := ClearedCpu)\<rparr>)"
| release_word: \<comment> \<open>\<open>__sync_lock_release(&lk->locked)\<close>\<close>
    "lpc s c = ClearedCpu \<Longrightarrow>
     lock_step s (s\<lparr>spin := (spin s)\<lparr>locked := 0\<rparr>, lpc := (lpc s)(c := Outside)\<rparr>)"

inductive lock_reachable :: "lock_sys \<Rightarrow> bool" where
  lock_start: "lock_reachable init_lock_sys"
| lock_more: "lock_reachable s \<Longrightarrow> lock_step s t \<Longrightarrow> lock_reachable t"

definition owns :: "lock_pc \<Rightarrow> bool" where
  "owns p \<longleftrightarrow> p = GotWord \<or> p = Inside \<or> p = ClearedCpu"

definition spin_inv :: "lock_sys \<Rightarrow> bool" where
  "spin_inv s \<longleftrightarrow>
     (\<forall>c d. owns (lpc s c) \<longrightarrow> owns (lpc s d) \<longrightarrow> c = d) \<and>
     (locked (spin s) \<noteq> 0 \<longleftrightarrow> (\<exists>c. owns (lpc s c))) \<and>
     (\<forall>c. lcpu (spin s) = Some c \<longleftrightarrow> lpc s c = Inside)"

lemma owns_simps [simp]:
  "owns GotWord" "owns Inside" "owns ClearedCpu" "\<not> owns Outside" "\<not> owns Spinning"
  by (simp_all add: owns_def)

lemma spin_inv_init: "spin_inv init_lock_sys"
  by (simp add: spin_inv_def init_lock_sys_def initlock_def)

lemma lock_step_spin_inv: "lock_step s t \<Longrightarrow> spin_inv s \<Longrightarrow> spin_inv t"
proof (induction rule: lock_step.induct)
qed (simp add: spin_inv_def, (metis owns_def lock_pc.distinct)?)+

lemma lock_reachable_inv: "lock_reachable s \<Longrightarrow> spin_inv s"
  by (induction rule: lock_reachable.induct) (auto intro: spin_inv_init lock_step_spin_inv)

text \<open>The words the CPUs see determine mutual exclusion: at most one CPU is past the swap.\<close>

lemma spin_inv_owner_unique:
  "spin_inv s \<Longrightarrow> owns (lpc s c) \<Longrightarrow> owns (lpc s d) \<Longrightarrow> c = d"
  by (simp add: spin_inv_def)

lemma spin_inv_holding_iff: "spin_inv s \<Longrightarrow> holding_lk (spin s) c \<longleftrightarrow> lpc s c = Inside"
  unfolding spin_inv_def holding_lk_def by (metis owns_simps(2))

section \<open>One CPU running kernel code\<close>

datatype sleepid = BufSleep nat | InodeSleep nat | ThreadSleep nat

datatype lockid =
    RefLock | SupLock | KmemLock nat | SwapLock | PidLock | WaitLock | ProcLock nat | TLock nat
  | PipeLock nat | LogLock | ItableLock | FtableLock | TicksLock | SleepSpin sleepid
  | ConsLock | UartLock | PrLock | TcpLock | ArpLock | ArpqLock | SockLock nat | NicLock | VdiskLock

record kcpu =
  cpuid :: nat
  mypid :: int
  noff :: nat
  lk :: "lockid \<Rightarrow> nat option"   \<comment> \<open>the CPU that holds each spinlock\<close>
  sl :: "sleepid \<Rightarrow> int option"  \<comment> \<open>the pid that holds each sleeplock\<close>

definition push_off :: "'a kcpu_scheme \<Rightarrow> 'a kcpu_scheme" where
  "push_off s = s\<lparr>noff := Suc (noff s)\<rparr>"

definition pop_off :: "'a kcpu_scheme \<Rightarrow> 'a kcpu_scheme option" where
  "pop_off s = (if noff s < 1 then panic ''pop_off'' else Some (s\<lparr>noff := noff s - 1\<rparr>))"

definition holding :: "lockid \<Rightarrow> 'a kcpu_scheme \<Rightarrow> bool" where
  "holding l s \<longleftrightarrow> lk s l = Some (cpuid s)"

definition acquire :: "lockid \<Rightarrow> 'a kcpu_scheme \<Rightarrow> 'a kcpu_scheme option" where
  \<comment> \<open>\<open>None\<close>: a panic, or a spin on a lock that another CPU never releases\<close>
  "acquire l s =
     (let s = push_off s
      in if holding l s then panic ''acquire''
         else if lk s l \<noteq> None then None
         else Some (s\<lparr>lk := (lk s)(l \<mapsto> cpuid s)\<rparr>))"

definition release :: "lockid \<Rightarrow> 'a kcpu_scheme \<Rightarrow> 'a kcpu_scheme option" where
  "release l s =
     (if \<not> holding l s then panic ''release''
      else pop_off (s\<lparr>lk := (lk s)(l := None)\<rparr>))"

lemma acquire_free [kernel_simps]:
  "lk s l = None \<Longrightarrow> acquire l s = Some (s\<lparr>noff := Suc (noff s), lk := (lk s)(l \<mapsto> cpuid s)\<rparr>)"
  by (simp add: acquire_def push_off_def holding_def Let_def)

lemma acquire_taken: "lk s l \<noteq> None \<Longrightarrow> acquire l s = None"
  by (simp add: acquire_def push_off_def Let_def)

lemma release_held [kernel_simps]:
  "lk s l = Some (cpuid s) \<Longrightarrow> 0 < noff s \<Longrightarrow>
     release l s = Some (s\<lparr>noff := noff s - 1, lk := (lk s)(l := None)\<rparr>)"
  by (simp add: release_def holding_def pop_off_def)

lemma pop_off_pos [kernel_simps]: "0 < noff s \<Longrightarrow> pop_off s = Some (s\<lparr>noff := noff s - 1\<rparr>)"
  by (simp add: pop_off_def)

lemma kcpu_update_same [simp]:
  "lk s l = None \<Longrightarrow> s\<lparr>lk := (lk s)(l := None)\<rparr> = s"
  "lk s l = None \<Longrightarrow> s\<lparr>sl := x, lk := (lk s)(l := None)\<rparr> = s\<lparr>sl := x\<rparr>"
  by (simp_all add: fun_upd_idem)

lemmas push_off_unfold [kernel_simps] = push_off_def

subsection \<open>Sleeplocks\<close>

definition acquiresleep :: "sleepid \<Rightarrow> 'a kcpu_scheme \<Rightarrow> 'a kcpu_scheme option" where
  \<comment> \<open>\<open>None\<close> when the lock is taken: the caller sleeps until the holder runs\<close>
  "acquiresleep l s = do {
     s \<leftarrow> acquire (SleepSpin l) s;
     (if sl s l \<noteq> None then None
      else release (SleepSpin l) (s\<lparr>sl := (sl s)(l \<mapsto> mypid s)\<rparr>)) }"

text \<open>
  These locks lie below the process table, so \<open>acquiresleep\<close> does not call \<open>sleep\<close>: it returns only
  when the lock is free, and \<open>releasesleep\<close> leaves out its \<open>wakeup(lk)\<close>, which would have nobody to
  wake.  \<open>SleepWake\<close> treats \<open>sleep\<close> and \<open>wakeup\<close>.
\<close>

definition releasesleep :: "sleepid \<Rightarrow> 'a kcpu_scheme \<Rightarrow> 'a kcpu_scheme option" where
  "releasesleep l s = do {
     s \<leftarrow> acquire (SleepSpin l) s;
     release (SleepSpin l) (s\<lparr>sl := (sl s)(l := None)\<rparr>) }"

definition holdingsleep :: "sleepid \<Rightarrow> 'a kcpu_scheme \<Rightarrow> (bool \<times> 'a kcpu_scheme) option" where
  "holdingsleep l s = do {
     s \<leftarrow> acquire (SleepSpin l) s;
     let r = (sl s l = Some (mypid s));
     s \<leftarrow> release (SleepSpin l) s;
     Some (r, s) }"

lemma acquiresleep_free [kernel_simps]:
  "lk s (SleepSpin l) = None \<Longrightarrow> sl s l = None \<Longrightarrow>
     acquiresleep l s = Some (s\<lparr>sl := (sl s)(l \<mapsto> mypid s)\<rparr>)"
  by (simp add: acquiresleep_def kernel_simps)

lemma releasesleep_free [kernel_simps]:
  "lk s (SleepSpin l) = None \<Longrightarrow> releasesleep l s = Some (s\<lparr>sl := (sl s)(l := None)\<rparr>)"
  by (simp add: releasesleep_def kernel_simps)

lemma holdingsleep_free [kernel_simps]:
  "lk s (SleepSpin l) = None \<Longrightarrow> holdingsleep l s = Some (sl s l = Some (mypid s), s)"
  by (simp add: holdingsleep_def kernel_simps)

section \<open>The interrupt flag\<close>

text \<open>
  The full \<open>push_off\<close>/\<open>pop_off\<close> of \<open>spinlock.c\<close> also save and restore the
  interrupt-enable bit.  \<open>irq_ok\<close> is what the code keeps between them.
\<close>

record irq_cpu = kcpu +
  sie :: bool     \<comment> \<open>\<open>sstatus.SIE\<close>: what \<open>intr_get\<close> returns\<close>
  intena :: bool

definition push_off_irq :: "irq_cpu \<Rightarrow> irq_cpu" where
  "push_off_irq s =
     (let old = sie s;
          s = s\<lparr>sie := False\<rparr>;
          s = (if noff s = 0 then s\<lparr>intena := old\<rparr> else s)
      in s\<lparr>noff := noff s + 1\<rparr>)"

definition pop_off_irq :: "irq_cpu \<Rightarrow> irq_cpu option" where
  "pop_off_irq s =
     (if sie s then panic ''pop_off - interruptible''
      else if noff s < 1 then panic ''pop_off''
      else let s = s\<lparr>noff := noff s - 1\<rparr>
           in Some (if noff s = 0 \<and> intena s then s\<lparr>sie := True\<rparr> else s))"

definition acquire_irq :: "lockid \<Rightarrow> irq_cpu \<Rightarrow> irq_cpu option" where
  "acquire_irq l s =
     (let s = push_off_irq s
      in if holding l s then panic ''acquire''
         else if lk s l \<noteq> None then None
         else Some (s\<lparr>lk := (lk s)(l \<mapsto> cpuid s)\<rparr>))"

definition release_irq :: "lockid \<Rightarrow> irq_cpu \<Rightarrow> irq_cpu option" where
  "release_irq l s =
     (if \<not> holding l s then panic ''release''
      else pop_off_irq (s\<lparr>lk := (lk s)(l := None)\<rparr>))"

definition irq_ok :: "irq_cpu \<Rightarrow> bool" where
  "irq_ok s \<longleftrightarrow> (0 < noff s \<longrightarrow> \<not> sie s)"

fun nest :: "nat \<Rightarrow> irq_cpu \<Rightarrow> irq_cpu" where
  "nest 0 s = s"
| "nest (Suc n) s = push_off_irq (nest n s)"

fun unnest :: "nat \<Rightarrow> irq_cpu \<Rightarrow> irq_cpu option" where
  "unnest 0 s = Some s"
| "unnest (Suc n) s = do { s \<leftarrow> pop_off_irq s; unnest n s }"

lemma irq_ok_steps:
  "irq_ok (push_off_irq s)"
  "irq_ok s \<Longrightarrow> pop_off_irq s = Some t \<Longrightarrow> irq_ok t"
  by (auto simp: irq_ok_def push_off_irq_def pop_off_irq_def Let_def split: if_splits)

lemma pop_push_irq:
  "irq_ok s \<Longrightarrow> \<exists>t. pop_off_irq (push_off_irq s) = Some t \<and> sie t = sie s \<and> noff t = noff s \<and>
     lk t = lk s \<and> cpuid t = cpuid s \<and> (0 < noff s \<longrightarrow> t = s)"
  by (cases "noff s = 0") (auto simp: irq_ok_def push_off_irq_def pop_off_irq_def Let_def)

lemma nest_Suc: "nest (Suc n) s = nest n (push_off_irq s)"
  by (induction n) simp_all

lemma nest_irq_ok: "irq_ok s \<Longrightarrow> irq_ok (nest n s)"
  by (induction n) (simp_all add: irq_ok_steps)

lemma nest_noff: "noff (nest n s) = n + noff s"
  by (induction n) (simp_all add: push_off_irq_def Let_def)

lemma unnest_nest:
  "irq_ok s \<Longrightarrow> \<exists>t. unnest n (nest n s) = Some t \<and> sie t = sie s \<and> noff t = noff s"
proof (induction n)
  case (Suc n)
  obtain t where t: "pop_off_irq (nest (Suc n) s) = Some t" "noff t = noff (nest n s)"
      "sie t = sie (nest n s)" "0 < noff (nest n s) \<longrightarrow> t = nest n s"
    using pop_push_irq [OF nest_irq_ok [OF Suc.prems], of n] by auto
  show ?case
  proof (cases "0 < noff (nest n s)")
    case True
    then show ?thesis using t Suc by auto
  next
    case False
    then have "n = 0" "noff s = 0" by (simp_all add: nest_noff)
    then show ?thesis using t by simp
  qed
qed simp

text \<open>
  Forgetting the interrupt bit, \<open>acquire_irq\<close> and \<open>release_irq\<close> are \<open>acquire\<close> and
  \<open>release\<close>.
\<close>

lemma kcpu_truncate_irq [simp]:
  "kcpu.truncate s = \<lparr>cpuid = cpuid s, mypid = mypid s, noff = noff s, lk = lk s, sl = sl s\<rparr>"
  by (simp add: kcpu.defs)

lemma acquire_irq_refines:
  "map_option kcpu.truncate (acquire_irq l s) = acquire l (kcpu.truncate s)"
  by (simp add: acquire_irq_def acquire_def push_off_irq_def push_off_def holding_def Let_def)

lemma release_irq_refines:
  "irq_ok s \<Longrightarrow> map_option kcpu.truncate (release_irq l s) = release l (kcpu.truncate s)"
  by (auto simp: release_irq_def release_def pop_off_irq_def pop_off_def holding_def Let_def irq_ok_def)

end
