(* ===== verification/Cmem.thy ===== *)
theory Cmem
  imports Prelude
begin

text \<open>
  Byte-addressed memory, used both for physical memory (the kernel runs with physical
  memory direct-mapped, so a pointer is its \<open>u64\<close> address) and for the contents of a
  buffer or packet (then the address is the offset).  Multi-byte loads and stores are
  little-endian, as on RISC-V.  \<open>mem_set\<close> and \<open>mem_copy\<close> state the effect of C's
  \<open>memset\<close> and \<open>memmove\<close>; the theory \<open>CString\<close> proves that the loops of
  \<open>kernel/string.c\<close> have exactly this effect.
\<close>

type_synonym bytes = "u64 \<Rightarrow> u8"

section \<open>Loads and stores\<close>

primrec ldn :: "nat \<Rightarrow> bytes \<Rightarrow> u64 \<Rightarrow> nat" where
  "ldn 0 m a = 0"
| "ldn (Suc n) m a = unat (m a) + 256 * ldn n m (a + 1)"

primrec stn :: "nat \<Rightarrow> u64 \<Rightarrow> nat \<Rightarrow> bytes \<Rightarrow> bytes" where
  "stn 0 a v m = m"
| "stn (Suc n) a v m = (stn n (a + 1) (v div 256) m)(a := of_nat v)"

definition ld16 :: "bytes \<Rightarrow> u64 \<Rightarrow> u16" where "ld16 m a = of_nat (ldn 2 m a)"
definition ld32 :: "bytes \<Rightarrow> u64 \<Rightarrow> u32" where "ld32 m a = of_nat (ldn 4 m a)"
definition ld64 :: "bytes \<Rightarrow> u64 \<Rightarrow> u64" where "ld64 m a = of_nat (ldn 8 m a)"
definition st16 :: "u64 \<Rightarrow> u16 \<Rightarrow> bytes \<Rightarrow> bytes" where "st16 a v m = stn 2 a (unat v) m"
definition st32 :: "u64 \<Rightarrow> u32 \<Rightarrow> bytes \<Rightarrow> bytes" where "st32 a v m = stn 4 a (unat v) m"
definition st64 :: "u64 \<Rightarrow> u64 \<Rightarrow> bytes \<Rightarrow> bytes" where "st64 a v m = stn 8 a (unat v) m"

definition mem_set :: "u64 \<Rightarrow> u8 \<Rightarrow> nat \<Rightarrow> bytes \<Rightarrow> bytes" where
  "mem_set d c n m = (\<lambda>a. if unat (a - d) < n then c else m a)"

definition mem_copy :: "u64 \<Rightarrow> bytes \<Rightarrow> u64 \<Rightarrow> nat \<Rightarrow> bytes \<Rightarrow> bytes" where
  \<comment> \<open>copy \<open>n\<close> bytes from \<open>s\<close> in \<open>src\<close> to \<open>d\<close> in \<open>m\<close>\<close>
  "mem_copy d src s n m = (\<lambda>a. if unat (a - d) < n then src (s + (a - d)) else m a)"

definition in_range :: "u64 \<Rightarrow> u64 \<Rightarrow> nat \<Rightarrow> bool" where
  \<comment> \<open>address \<open>a\<close> is one of the \<open>n\<close> bytes from \<open>d\<close>\<close>
  "in_range a d n \<longleftrightarrow> unat (a - d) < n"

definition ranges_disjoint :: "u64 \<Rightarrow> nat \<Rightarrow> u64 \<Rightarrow> nat \<Rightarrow> bool" where
  "ranges_disjoint a n b k \<longleftrightarrow> (\<forall>i < n. \<forall>j < k. a + of_nat i \<noteq> b + of_nat j)"

lemma ldn_bound: "ldn n m a < 256 ^ n"
proof (induction n arbitrary: a)
  case (Suc n)
  have "ldn n m (a + 1) + 1 \<le> 256 ^ n" using Suc [of "a + 1"] by simp
  then have "256 * (ldn n m (a + 1) + 1) \<le> 256 * 256 ^ n" by (rule mult_le_mono2)
  moreover have "unat (m a) < 256" using unat_bound [of "m a"] by simp
  ultimately show ?case by simp
qed simp

lemma ldn_cong: "(\<And>i. i < n \<Longrightarrow> m (a + of_nat i) = m' (a + of_nat i)) \<Longrightarrow> ldn n m a = ldn n m' a"
proof (induction n arbitrary: a)
  case (Suc n)
  have "m a = m' a" using Suc.prems [of 0] by simp
  moreover have "ldn n m (a + 1) = ldn n m' (a + 1)"
    by (rule Suc.IH) (use Suc.prems [of "Suc _"] in \<open>simp add: algebra_simps\<close>)
  ultimately show ?case by simp
qed simp

lemma stn_other: "(\<And>i. i < n \<Longrightarrow> b \<noteq> a + of_nat i) \<Longrightarrow> stn n a v m b = m b"
proof (induction n arbitrary: a v)
  case (Suc n)
  have "b \<noteq> a" using Suc.prems [of 0] by simp
  moreover have "stn n (a + 1) (v div 256) m b = m b"
    by (rule Suc.IH) (use Suc.prems [of "Suc _"] in \<open>simp add: algebra_simps\<close>)
  ultimately show ?case by simp
qed simp

lemma ldn_fun_upd_other:
  "(\<And>i. i < n \<Longrightarrow> b \<noteq> a + of_nat i) \<Longrightarrow> ldn n (m(b := v)) a = ldn n m a"
  by (rule ldn_cong) auto

lemma word_no_wrap_neq:
  assumes "i < n" "n < 2 ^ 64" shows "(a :: u64) \<noteq> a + 1 + of_nat i"
proof
  assume "a = a + 1 + of_nat i"
  then have "(of_nat (Suc i) :: u64) = of_nat 0" by (simp add: algebra_simps)
  then show False using assms word_of_nat_inj_lt [of "Suc i" 0, where 'a = 64] by simp
qed

lemma ldn_stn: "n < 2 ^ 64 \<Longrightarrow> ldn n (stn n a v m) a = v mod 256 ^ n"
proof (induction n arbitrary: a v)
  case (Suc n)
  have ne: "\<And>i. i < n \<Longrightarrow> a \<noteq> a + 1 + of_nat i" using Suc.prems by (intro word_no_wrap_neq) auto
  have "ldn n ((stn n (a + 1) (v div 256) m)(a := of_nat v)) (a + 1) = (v div 256) mod 256 ^ n"
    using ne by (subst ldn_fun_upd_other) (use Suc in auto)
  moreover have "unat (of_nat v :: u8) = v mod 256" by (simp add: unat_of_nat)
  moreover have "v mod 256 ^ Suc n = v mod 256 + 256 * (v div 256 mod 256 ^ n)"
    by (simp only: power_Suc mod_mult2_eq)
  ultimately show ?case by (simp only: ldn.simps stn.simps fun_upd_same)
qed simp

lemma ldn_stn_disjoint: "ranges_disjoint a n b k \<Longrightarrow> ldn k (stn n a v m) b = ldn k m b"
  by (rule ldn_cong) (auto simp: ranges_disjoint_def intro!: stn_other dest: not_sym)

lemma unat_mod_id: "unat (v :: 'a::len word) mod 2 ^ LENGTH('a) = unat v"
  using unat_bound [of v] by simp

lemma ld_st_same [simp]:
  "ld16 (st16 a v m) a = v" "ld32 (st32 a x m) a = x" "ld64 (st64 a y m) a = y"
  using unat_mod_id [of v] unat_mod_id [of x] unat_mod_id [of y]
  by (simp_all add: ld16_def st16_def ld32_def st32_def ld64_def st64_def ldn_stn)

lemma ld_st_disjoint:
  "ranges_disjoint a 8 b 8 \<Longrightarrow> ld64 (st64 a v m) b = ld64 m b"
  "ranges_disjoint a 4 b 4 \<Longrightarrow> ld32 (st32 a x m) b = ld32 m b"
  by (simp_all only: ld64_def st64_def ld32_def st32_def ldn_stn_disjoint)

lemma mem_set_zero [simp]: "mem_set d c 0 m = m" "mem_copy d src s 0 m = m"
  by (simp_all add: mem_set_def mem_copy_def)

lemma ld64_mem_set_disjoint:
  assumes "ranges_disjoint d n a 8" shows "ld64 (mem_set d c n m) a = ld64 m a"
proof -
  have "mem_set d c n m (a + of_nat i) = m (a + of_nat i)" if "i < 8" for i
  proof -
    have "\<not> unat (a + of_nat i - d) < n"
      using assms that word_diff_lt_imp [of "a + of_nat i" d n] unfolding ranges_disjoint_def by metis
    then show ?thesis by (simp add: mem_set_def)
  qed
  then show ?thesis unfolding ld64_def by (intro arg_cong [where f = of_nat] ldn_cong) auto
qed

lemma ldn_all_zero: "(\<And>i. i < n \<Longrightarrow> m (a + of_nat i) = 0) \<Longrightarrow> ldn n m a = 0"
proof (induction n arbitrary: a)
  case (Suc n)
  have "m a = 0" using Suc.prems [of 0] by simp
  moreover have "ldn n m (a + 1) = 0"
    by (rule Suc.IH) (use Suc.prems [of "Suc _"] in \<open>simp add: algebra_simps\<close>)
  ultimately show ?case by simp
qed simp

section \<open>Pages\<close>

definition PGSIZE :: nat where "PGSIZE = 4096"
definition page_aligned :: "u64 \<Rightarrow> bool" where "page_aligned a \<longleftrightarrow> unat a mod PGSIZE = 0"

lemma page_aligned_ranges_disjoint:
  assumes "page_aligned a" "page_aligned b" "a \<noteq> b" "n \<le> PGSIZE" "k \<le> PGSIZE"
  shows "ranges_disjoint a n b k"
  unfolding ranges_disjoint_def
proof (intro allI impI notI)
  fix i j assume i: "i < n" and j: "j < k" and eq: "a + of_nat i = b + of_nat j"
  have page: "unat (c + of_nat l) div PGSIZE = unat c div PGSIZE"
    if c: "page_aligned c" and l: "l < PGSIZE" for c :: u64 and l
  proof -
    have cm: "unat c mod 4096 = 0" using c by (simp add: page_aligned_def PGSIZE_def)
    have cl: "unat c < 2 ^ 64" using unat_bound [of c] by simp
    obtain k where k: "unat c = 4096 * k" using cm by (metis mod_0_imp_dvd dvd_def)
    have "unat c + l < 2 ^ 64" using k cl l by (simp add: PGSIZE_def)
    then have "unat (c + of_nat l) = unat c + l"
      using l by (subst unat_add_lem [THEN iffD1]) (simp_all add: PGSIZE_def)
    then show ?thesis using k l by (simp add: PGSIZE_def)
  qed
  have "unat a div PGSIZE = unat b div PGSIZE"
    using page [of a i] page [of b j] assms i j eq by auto
  then have "unat a = unat b" using assms(1,2) unfolding page_aligned_def by (metis mod_div_decomp)
  then show False using assms(3) by (simp add: word_unat_eq_iff)
qed

end
