(* ===== verification/CString.thy ===== *)
theory CString
  imports Cmem
begin

text \<open>
  The string and memory routines of \<open>kernel/string.c\<close>, over byte memory.  A pointer is
  a \<open>u64\<close>; a loop that the C code bounds by its counter recurses on that counter; a
  loop that runs until a NUL byte is a \<open>partial_function\<close>, \<open>None\<close> when there is none.
\<close>

section \<open>The loops\<close>

fun memset_loop :: "u64 \<Rightarrow> u8 \<Rightarrow> nat \<Rightarrow> nat \<Rightarrow> bytes \<Rightarrow> bytes" where
  \<comment> \<open>\<open>k\<close> iterations left, next index \<open>i\<close>\<close>
  "memset_loop dst c i 0 m = m"
| "memset_loop dst c i (Suc k) m = memset_loop dst c (Suc i) k (m(dst + of_nat i := c))"

definition memset :: "u64 \<Rightarrow> int \<Rightarrow> u32 \<Rightarrow> bytes \<Rightarrow> u64 \<times> bytes" where
  "memset dst c n m = (dst, memset_loop dst (of_int c) 0 (unat n) m)"

fun memcmp_loop :: "bytes \<Rightarrow> u64 \<Rightarrow> u64 \<Rightarrow> nat \<Rightarrow> int" where
  "memcmp_loop m s1 s2 0 = 0"
| "memcmp_loop m s1 s2 (Suc k) =
     (if m s1 \<noteq> m s2 then uint (m s1) - uint (m s2) else memcmp_loop m (s1 + 1) (s2 + 1) k)"

definition memcmp :: "u64 \<Rightarrow> u64 \<Rightarrow> u32 \<Rightarrow> bytes \<Rightarrow> int" where
  "memcmp v1 v2 n m = memcmp_loop m v1 v2 (unat n)"

fun copy_forward :: "u64 \<Rightarrow> u64 \<Rightarrow> nat \<Rightarrow> bytes \<Rightarrow> bytes" where
  "copy_forward d s 0 m = m"
| "copy_forward d s (Suc k) m = copy_forward (d + 1) (s + 1) k (m(d := m s))"

fun copy_backward :: "u64 \<Rightarrow> u64 \<Rightarrow> nat \<Rightarrow> bytes \<Rightarrow> bytes" where
  \<comment> \<open>\<open>d\<close> and \<open>s\<close> are one past the bytes still to copy\<close>
  "copy_backward d s 0 m = m"
| "copy_backward d s (Suc k) m = copy_backward (d - 1) (s - 1) k (m(d - 1 := m (s - 1)))"

definition memmove :: "u64 \<Rightarrow> u64 \<Rightarrow> u32 \<Rightarrow> bytes \<Rightarrow> u64 \<times> bytes" where
  "memmove dst src n m =
     (if n = 0 then (dst, m)
      else if src < dst \<and> src + ucast n > dst
      then (dst, copy_backward (dst + ucast n) (src + ucast n) (unat n) m)
      else (dst, copy_forward dst src (unat n) m))"

definition memcpy :: "u64 \<Rightarrow> u64 \<Rightarrow> u32 \<Rightarrow> bytes \<Rightarrow> u64 \<times> bytes" where
  "memcpy dst src n m = memmove dst src n m"

fun strncmp_loop :: "bytes \<Rightarrow> u64 \<Rightarrow> u64 \<Rightarrow> nat \<Rightarrow> int" where
  "strncmp_loop m p q 0 = 0"
| "strncmp_loop m p q (Suc k) =
     (if m p \<noteq> 0 \<and> m p = m q then strncmp_loop m (p + 1) (q + 1) k
      else uint (m p) - uint (m q))"

definition strncmp :: "u64 \<Rightarrow> u64 \<Rightarrow> u32 \<Rightarrow> bytes \<Rightarrow> int" where
  "strncmp p q n m = strncmp_loop m p q (unat n)"

fun zero_fill :: "u64 \<Rightarrow> nat \<Rightarrow> bytes \<Rightarrow> bytes" where
  "zero_fill s 0 m = m"
| "zero_fill s (Suc k) m = zero_fill (s + 1) k (m(s := 0))"

fun strncpy_loop :: "u64 \<Rightarrow> u64 \<Rightarrow> nat \<Rightarrow> bytes \<Rightarrow> bytes" where
  "strncpy_loop s t 0 m = m"
| "strncpy_loop s t (Suc k) m =
     (let c = m t; m' = m(s := c)
      in if c \<noteq> 0 then strncpy_loop (s + 1) (t + 1) k m' else zero_fill (s + 1) k m')"

definition strncpy :: "u64 \<Rightarrow> u64 \<Rightarrow> int \<Rightarrow> bytes \<Rightarrow> u64 \<times> bytes" where
  "strncpy s t n m = (s, strncpy_loop s t (nat n) m)"

fun safestrcpy_loop :: "u64 \<Rightarrow> u64 \<Rightarrow> nat \<Rightarrow> bytes \<Rightarrow> bytes" where
  \<comment> \<open>\<open>while(--n > 0 && (*s++ = *t++) != 0); *s = 0;\<close> with \<open>n - 1\<close> copies left\<close>
  "safestrcpy_loop s t 0 m = m(s := 0)"
| "safestrcpy_loop s t (Suc k) m =
     (let c = m t; m' = m(s := c)
      in if c \<noteq> 0 then safestrcpy_loop (s + 1) (t + 1) k m' else m'(s + 1 := 0))"

definition safestrcpy :: "u64 \<Rightarrow> u64 \<Rightarrow> int \<Rightarrow> bytes \<Rightarrow> u64 \<times> bytes" where
  "safestrcpy s t n m = (if n \<le> 0 then (s, m) else (s, safestrcpy_loop s t (nat n - 1) m))"

partial_function (option) strlen_from :: "bytes \<Rightarrow> u64 \<Rightarrow> nat \<Rightarrow> nat option" where
  "strlen_from m s n = (if m (s + of_nat n) = 0 then Some n else strlen_from m s (Suc n))"

definition strlen :: "u64 \<Rightarrow> bytes \<Rightarrow> nat option" where
  "strlen s m = strlen_from m s 0"

section \<open>memset and memmove\<close>

lemma memset_loop_eq:
  "i + k < 2 ^ 64 \<Longrightarrow> memset_loop dst c i k m = mem_set (dst + of_nat i) c k m"
proof (induction k arbitrary: i m)
  case (Suc k)
  have "memset_loop dst c i (Suc k) m = mem_set (dst + of_nat i + 1) c k (m(dst + of_nat i := c))"
    using Suc.IH [of "Suc i" "m(dst + of_nat i := c)"] Suc.prems by (simp add: algebra_simps fun_upd_def)
  then show ?case by (auto simp: mem_set_def fun_eq_iff offset_lt_Suc)
qed simp

lemma unat_bound_32_64: "unat (n :: u32) < 2 ^ 64"
  using unat_bound [of n] by simp

lemma memset_eq_mem_set: "memset dst c n m = (dst, mem_set dst (of_int c) (unat n) m)"
  using memset_loop_eq [of 0 "unat n" dst "of_int c" m] unat_bound_32_64 [of n]
  by (simp add: memset_def)

lemma copy_forward_eq:
  "(\<And>i j. i < j \<Longrightarrow> j < k \<Longrightarrow> d + of_nat i \<noteq> s + of_nat j) \<Longrightarrow> k < 2 ^ 64 \<Longrightarrow>
    copy_forward d s k m = mem_copy d m s k m"
proof (induction k arbitrary: d s m)
  case (Suc k)
  have IH: "copy_forward d s (Suc k) m = mem_copy (d + 1) (m(d := m s)) (s + 1) k (m(d := m s))"
    using Suc.IH [of "d + 1" "s + 1" "m(d := m s)"] Suc.prems(1) [of "Suc _" "Suc _"] Suc.prems(2)
    by (simp add: algebra_simps fun_upd_def)
  show ?case
  proof
    fix a
    show "copy_forward d s (Suc k) m a = mem_copy d m s (Suc k) m a"
    proof (cases "a = d")
      case True
      then have "unat (a - (d + 1)) = 2 ^ 64 - 1" by (simp add: unsigned_minus_1_eq_mask mask_eq_exp_minus_1)
      then show ?thesis using True Suc.prems(2) unfolding IH mem_copy_def by simp
    next
      case False
      have off: "unat (a - d) = Suc (unat (a - (d + 1)))" using False by (rule unat_diff_Suc)
      have src: "(m(d := m s)) (s + 1 + (a - (d + 1))) = m (s + (a - d))" if "unat (a - d) < Suc k"
      proof -
        have "d + of_nat 0 \<noteq> s + of_nat (unat (a - d))"
          using that off by (intro Suc.prems(1)) linarith+
        moreover have "s + 1 + (a - (d + 1)) = s + (a - d)" by (simp add: algebra_simps)
        ultimately show ?thesis by simp
      qed
      have "(unat (a - (d + 1)) < k) = (unat (a - d) < Suc k)" using off by simp
      then show ?thesis unfolding IH mem_copy_def using src False
        by (cases "unat (a - d) < Suc k") (simp_all only: if_True if_False fun_upd_other not_False_eq_True)
    qed
  qed
qed simp

lemma offset_lt_Suc_end:
  assumes "Suc k < 2 ^ 64"
  shows "unat (a - d :: u64) < Suc k \<longleftrightarrow> a = d + of_nat k \<or> unat (a - d) < k"
proof -
  have "unat (a - d) = k \<longleftrightarrow> a = d + of_nat k"
  proof
    assume "unat (a - d) = k"
    then have "d + of_nat k = d + of_nat (unat (a - d))" by (simp only:)
    then show "a = d + of_nat k" by simp
  qed (use assms in simp)
  then show ?thesis by auto
qed

lemma copy_backward_eq:
  "(\<And>i j. i < j \<Longrightarrow> j < k \<Longrightarrow> s + of_nat i \<noteq> d + of_nat j) \<Longrightarrow> k < 2 ^ 64 \<Longrightarrow>
    copy_backward (d + of_nat k) (s + of_nat k) k m = mem_copy d m s k m"
proof (induction k arbitrary: m)
  case (Suc k)
  let ?m = "m(d + of_nat k := m (s + of_nat k))"
  have IH: "copy_backward (d + of_nat k) (s + of_nat k) k ?m = mem_copy d ?m s k ?m"
    by (rule Suc.IH) (use Suc.prems in auto)
  have step: "copy_backward (d + of_nat (Suc k)) (s + of_nat (Suc k)) (Suc k) m
      = copy_backward (d + of_nat k) (s + of_nat k) k ?m"
    by (simp add: algebra_simps fun_upd_def)
  show ?case
  proof
    fix a
    have src: "s + (a - d) \<noteq> d + of_nat k" if "unat (a - d) < k"
      using Suc.prems(1) [OF that] by simp
    have "\<not> unat (of_nat k :: u64) < k" using Suc.prems(2) by simp
    then show "copy_backward (d + of_nat (Suc k)) (s + of_nat (Suc k)) (Suc k) m a = mem_copy d m s (Suc k) m a"
      unfolding step IH mem_copy_def offset_lt_Suc_end [OF Suc.prems(2)] using src by auto
  qed
qed simp

lemma unat_add_of_nat:
  "unat (a :: u64) + i < 2 ^ 64 \<Longrightarrow> unat (a + of_nat i) = unat a + i"
  by (simp add: unat_word_ariths unat_of_nat take_bit_nat_def)

lemma word_neq_by_unat:
  assumes "unat (a :: u64) + i < 2 ^ 64" "unat (b :: u64) + j < 2 ^ 64" "unat a + i \<noteq> unat b + j"
  shows "a + of_nat i \<noteq> b + of_nat j"
  using assms unat_add_of_nat [of a i] unat_add_of_nat [of b j] by metis

lemma unat_add_ucast32:
  "unat (a :: u64) + unat (n :: u32) < 2 ^ 64 \<Longrightarrow> unat (a + ucast n) = unat a + unat n"
  using unat_add_of_nat [of a "unat n"] by (simp add: unsigned_ucast_eq)

text \<open>
  \<open>memmove\<close> copies correctly whatever the overlap of source and destination, as long as
  neither range reaches the top of the address space.
\<close>

lemma memmove_eq_mem_copy:
  assumes s: "unat src + unat n < 2 ^ 64" and d: "unat dst + unat n < 2 ^ 64"
  shows "memmove dst src n m = (dst, mem_copy dst m src (unat n) m)"
proof (cases "n = 0")
  case False
  have sn: "src + ucast n = src + of_nat (unat n)" "dst + ucast n = dst + of_nat (unat n)" by simp_all
  show ?thesis
  proof (cases "src < dst \<and> src + ucast n > dst")
    case True
    have "src + of_nat i \<noteq> dst + of_nat j" if "i < j" "j < unat n" for i j
      using True that s d unfolding word_less_nat_alt by (intro word_neq_by_unat) linarith+
    then have "copy_backward (dst + ucast n) (src + ucast n) (unat n) m = mem_copy dst m src (unat n) m"
      unfolding sn using unat_bound_32_64 [of n] by (rule copy_backward_eq)
    then show ?thesis using False True by (simp only: memmove_def if_True if_False simp_thms)
  next
    case apart: False
    then have "unat dst \<le> unat src \<or> unat src + unat n \<le> unat dst"
      unfolding word_less_nat_alt unat_add_ucast32 [OF s] by linarith
    then have "dst + of_nat i \<noteq> src + of_nat j" if "i < j" "j < unat n" for i j
      using that s d by (intro word_neq_by_unat) linarith+
    then have "copy_forward dst src (unat n) m = mem_copy dst m src (unat n) m"
      using unat_bound_32_64 [of n] by (rule copy_forward_eq)
    then show ?thesis using False apart by (simp only: memmove_def if_False simp_thms)
  qed
qed (simp add: memmove_def)

section \<open>Strings\<close>

text \<open>\<open>strncmp\<close> and \<open>memcmp\<close> decide agreement of the bytes they may look at.\<close>

definition agree_to_nul :: "bytes \<Rightarrow> u64 \<Rightarrow> u64 \<Rightarrow> nat \<Rightarrow> bool" where
  \<comment> \<open>the strings agree up to \<open>k\<close> bytes or up to and including a common NUL\<close>
  "agree_to_nul m p q k \<longleftrightarrow>
     (\<forall>i < k. (\<forall>j < i. m (p + of_nat j) \<noteq> 0) \<longrightarrow> m (p + of_nat i) = m (q + of_nat i))"

lemma all_less_Suc_shift: "(\<forall>i < Suc k. P i) \<longleftrightarrow> P 0 \<and> (\<forall>i < k. P (Suc i))"
  by (metis less_Suc_eq_0_disj Suc_less_eq not0_implies_Suc zero_less_Suc)

lemma strncmp_loop_zero_iff: "strncmp_loop m p q k = 0 \<longleftrightarrow> agree_to_nul m p q k"
proof (induction k arbitrary: p q)
  case (Suc k)
  have "agree_to_nul m p q (Suc k) \<longleftrightarrow>
      m p = m q \<and> (m p \<noteq> 0 \<longrightarrow> agree_to_nul m (p + 1) (q + 1) k)"
    unfolding agree_to_nul_def all_less_Suc_shift by (auto simp: algebra_simps all_less_Suc_shift)
  then show ?case using Suc.IH [of "p + 1" "q + 1"] by (auto simp: word_uint_eq_iff)
qed (simp add: agree_to_nul_def)

lemma memcmp_loop_zero_iff:
  "memcmp_loop m p q k = 0 \<longleftrightarrow> (\<forall>i < k. m (p + of_nat i) = m (q + of_nat i))"
proof (induction k arbitrary: p q)
  case (Suc k)
  show ?case unfolding all_less_Suc_shift using Suc.IH [of "p + 1" "q + 1"]
    by (auto simp: word_uint_eq_iff algebra_simps)
qed simp

lemma strlen_from_spec:
  "(\<And>i. i < k \<Longrightarrow> m (s + of_nat (n + i)) \<noteq> 0) \<Longrightarrow> m (s + of_nat (n + k)) = 0 \<Longrightarrow>
     strlen_from m s n = Some (n + k)"
proof (induction k arbitrary: n)
  case 0
  then show ?case by (subst strlen_from.simps) simp
next
  case (Suc k)
  have "m (s + of_nat n) \<noteq> 0" using Suc.prems(1) [of 0] by simp
  moreover have "strlen_from m s (Suc n) = Some (Suc n + k)"
    by (rule Suc.IH) (use Suc.prems(1) [of "Suc _"] Suc.prems(2) in simp_all)
  ultimately show ?case by (subst strlen_from.simps) simp
qed

text \<open>\<open>safestrcpy\<close> always leaves a NUL inside the \<open>n\<close> bytes of its destination.\<close>

lemma safestrcpy_loop_frame:
  "(\<And>i. i \<le> k \<Longrightarrow> b \<noteq> s + of_nat i) \<Longrightarrow> safestrcpy_loop s t k m b = m b"
proof (induction k arbitrary: s t m)
  case (Suc k)
  have "b \<noteq> s" "b \<noteq> s + 1" using Suc.prems [of 0] Suc.prems [of 1] by simp_all
  moreover have "safestrcpy_loop (s + 1) (t + 1) k (m(s := m t)) b = (m(s := m t)) b"
    by (rule Suc.IH) (use Suc.prems [of "Suc _"] in \<open>simp add: algebra_simps\<close>)
  ultimately show ?case by (simp add: Let_def)
qed simp

lemma safestrcpy_loop_terminates_string:
  assumes "\<And>i j. i \<le> k \<Longrightarrow> j \<le> k \<Longrightarrow> s + of_nat i \<noteq> t + of_nat j" "k < 2 ^ 63"
  shows "\<exists>l \<le> k. safestrcpy_loop s t k m (s + of_nat l) = 0 \<and>
     (\<forall>i < l. m (t + of_nat i) \<noteq> 0 \<and> safestrcpy_loop s t k m (s + of_nat i) = m (t + of_nat i))"
  using assms
proof (induction k arbitrary: s t m)
  case (Suc k)
  show ?case
  proof (cases "m t = 0")
    case True
    then show ?thesis using word_no_wrap_neq [of 0 1 s] by (intro exI [of _ 0]) (simp add: Let_def)
  next
    case False
    let ?m = "m(s := m t)"
    let ?r = "safestrcpy_loop (s + 1) (t + 1) k ?m"
    have src: "?m (t + 1 + of_nat i) = m (t + of_nat (Suc i))" if "i \<le> k" for i
      using Suc.prems(1) [of 0 "Suc i"] that by (simp add: algebra_simps)
    have "\<exists>l \<le> k. ?r (s + 1 + of_nat l) = 0 \<and>
       (\<forall>i < l. ?m (t + 1 + of_nat i) \<noteq> 0 \<and> ?r (s + 1 + of_nat i) = ?m (t + 1 + of_nat i))"
      by (rule Suc.IH) (use Suc.prems(1) [of "Suc _" "Suc _"] Suc.prems(2) in \<open>auto simp: algebra_simps\<close>)
    then obtain l where l: "l \<le> k" "?r (s + of_nat (Suc l)) = 0"
      "\<And>i. i < l \<Longrightarrow> m (t + of_nat (Suc i)) \<noteq> 0 \<and> ?r (s + of_nat (Suc i)) = m (t + of_nat (Suc i))"
      using src by (auto simp: algebra_simps)
    have "?r s = ?m s"
      by (rule safestrcpy_loop_frame, rule word_no_wrap_neq [where n = "Suc k"])
        (use Suc.prems(2) in simp_all)
    then have keep: "?r s = m t" by simp
    have step: "safestrcpy_loop s t (Suc k) m = ?r" using False by (simp add: Let_def)
    show ?thesis unfolding step
    proof (intro exI [of _ "Suc l"] conjI allI impI)
      fix i assume "i < Suc l"
      then show "m (t + of_nat i) \<noteq> 0" "?r (s + of_nat i) = m (t + of_nat i)"
        using l(3) keep False by (cases i; simp)+
    qed (use l in simp_all)
  qed
qed (simp add: exI [of _ 0])

end
