(* ===== verification/Riscv.thy ===== *)
theory Riscv
  imports Cmem
begin

text \<open>
  The address and page-table-entry arithmetic of \<open>kernel/riscv.h\<close> and the physical
  memory layout of \<open>kernel/memlayout.h\<close>.
\<close>

section \<open>Pages and physical memory\<close>

definition PGROUNDUP :: "u64 \<Rightarrow> u64" where "PGROUNDUP sz = (sz + 4096 - 1) AND NOT (4096 - 1)"
definition PGROUNDDOWN :: "u64 \<Rightarrow> u64" where "PGROUNDDOWN a = a AND NOT (4096 - 1)"
definition SUPPGSIZE :: nat where "SUPPGSIZE = 2097152"
definition SUPPGROUNDUP :: "u64 \<Rightarrow> u64" where
  "SUPPGROUNDUP sz = (sz + 2097152 - 1) AND NOT (2097152 - 1)"
definition SUPPGROUNDDOWN :: "u64 \<Rightarrow> u64" where
  "SUPPGROUNDDOWN a = a AND NOT (2097152 - 1)"

definition KERNBASE :: u64 where "KERNBASE = 0x80000000"
definition PHYSTOP :: u64 where "PHYSTOP = KERNBASE + 128*1024*1024"
definition PHYSTOP_INCLUDESUPPG :: u64 where "PHYSTOP_INCLUDESUPPG = PHYSTOP + 4*1024*1024"
definition PLIC :: u64 where "PLIC = 0x0c000000"
definition IS_SUPPG :: "u64 \<Rightarrow> bool" where "IS_SUPPG pa \<longleftrightarrow> pa \<ge> PHYSTOP \<or> pa = PLIC"

definition MAXVA :: u64 where "MAXVA = push_bit (9 + 9 + 9 + 12 - 1) 1"
definition TRAMPOLINE :: u64 where "TRAMPOLINE = MAXVA - 4096"
definition TRAPFRAME :: u64 where "TRAPFRAME = TRAMPOLINE - 4096"
definition USYSCALL :: u64 where "USYSCALL = TRAPFRAME - 4096"

section \<open>Page table entries\<close>

definition PTE_V :: u64 where "PTE_V = push_bit 0 1"
definition PTE_R :: u64 where "PTE_R = push_bit 1 1"
definition PTE_W :: u64 where "PTE_W = push_bit 2 1"
definition PTE_X :: u64 where "PTE_X = push_bit 3 1"
definition PTE_U :: u64 where "PTE_U = push_bit 4 1"
definition PTE_A :: u64 where "PTE_A = push_bit 6 1"
definition PTE_D :: u64 where "PTE_D = push_bit 7 1"
definition PTE_COW :: u64 where "PTE_COW = push_bit 8 1"
definition PTE_PG :: u64 where "PTE_PG = push_bit 9 1"

definition PA2PTE :: "u64 \<Rightarrow> u64" where "PA2PTE pa = push_bit 10 (drop_bit 12 pa)"
definition PTE2PA :: "u64 \<Rightarrow> u64" where "PTE2PA pte = push_bit 12 (drop_bit 10 pte)"
definition PTE_FLAGS :: "u64 \<Rightarrow> u64" where "PTE_FLAGS pte = pte AND 0x3FF"
definition PTE_ENCOW :: "u64 \<Rightarrow> u64" where "PTE_ENCOW pte = (pte AND NOT PTE_W) OR PTE_COW"
definition PTE_DECOW :: "u64 \<Rightarrow> u64" where "PTE_DECOW pte = (pte AND NOT PTE_COW) OR PTE_W"
definition PTE_PGOUT :: "u64 \<Rightarrow> u64 \<Rightarrow> u64" where
  "PTE_PGOUT idx flags = push_bit 10 idx OR ((flags AND NOT PTE_V) OR PTE_PG)"
definition PTE_PGIN :: "u64 \<Rightarrow> u64 \<Rightarrow> u64" where
  "PTE_PGIN pa flags = PA2PTE pa OR ((flags AND NOT PTE_PG) OR PTE_V)"
definition PTE2IDX :: "u64 \<Rightarrow> u64" where "PTE2IDX pte = drop_bit 10 pte"
definition COW_REFIDX :: "u64 \<Rightarrow> nat" where "COW_REFIDX pa = unat ((pa - KERNBASE) div 4096)"
definition PG_REFIDX :: "u64 \<Rightarrow> nat" where "PG_REFIDX pa = unat ((pa - KERNBASE) div 4096)"
definition PX :: "nat \<Rightarrow> u64 \<Rightarrow> u64" where "PX level va = drop_bit (12 + 9 * level) va AND 0x1FF"

lemmas pte_defs = PTE_V_def PTE_R_def PTE_W_def PTE_X_def PTE_U_def PTE_A_def PTE_D_def
  PTE_COW_def PTE_PG_def PA2PTE_def PTE2PA_def PTE_FLAGS_def PTE_ENCOW_def PTE_DECOW_def
  PTE_PGOUT_def PTE_PGIN_def PTE2IDX_def

subsection \<open>Round trips\<close>

definition pa_ok :: "u64 \<Rightarrow> bool" where
  \<comment> \<open>a page-aligned address of the 56-bit physical address space\<close>
  "pa_ok pa \<longleftrightarrow> take_bit 12 pa = 0 \<and> drop_bit 56 pa = 0"

definition flags_ok :: "u64 \<Rightarrow> bool" where
  \<comment> \<open>only the ten flag bits\<close>
  "flags_ok flags \<longleftrightarrow> drop_bit 10 flags = 0"

lemma bit_push_bit_1: "bit (push_bit k 1 :: u64) n \<longleftrightarrow> n = k \<and> k < 64"
  unfolding bit_push_bit_iff bit_1_iff by auto

lemma bit_PTE [simp]:
  "bit PTE_V n \<longleftrightarrow> n = 0" "bit PTE_R n \<longleftrightarrow> n = 1" "bit PTE_W n \<longleftrightarrow> n = 2"
  "bit PTE_X n \<longleftrightarrow> n = 3" "bit PTE_U n \<longleftrightarrow> n = 4" "bit PTE_A n \<longleftrightarrow> n = 6"
  "bit PTE_D n \<longleftrightarrow> n = 7" "bit PTE_COW n \<longleftrightarrow> n = 8" "bit PTE_PG n \<longleftrightarrow> n = 9"
  unfolding PTE_V_def PTE_R_def PTE_W_def PTE_X_def PTE_U_def PTE_A_def PTE_D_def PTE_COW_def
    PTE_PG_def bit_push_bit_1 by simp_all

lemma and_single_bit:
  assumes y: "\<And>n. bit (y :: u64) n \<longleftrightarrow> n = k"
  shows "x AND y = 0 \<longleftrightarrow> \<not> bit x k"
proof
  assume "x AND y = 0"
  moreover have "bit (x AND y) k = bit x k" using y by (simp only: bit_and_iff) simp
  ultimately show "\<not> bit x k" by simp
next
  assume "\<not> bit x k"
  then show "x AND y = 0" by (intro bit_word_eqI) (use y in \<open>auto simp: bit_and_iff\<close>)
qed

lemma pte_bit_iff:
  "pte AND PTE_V = 0 \<longleftrightarrow> \<not> bit pte 0" "pte AND PTE_R = 0 \<longleftrightarrow> \<not> bit pte 1"
  "pte AND PTE_W = 0 \<longleftrightarrow> \<not> bit pte 2" "pte AND PTE_X = 0 \<longleftrightarrow> \<not> bit pte 3"
  "pte AND PTE_U = 0 \<longleftrightarrow> \<not> bit pte 4" "pte AND PTE_A = 0 \<longleftrightarrow> \<not> bit pte 6"
  "pte AND PTE_D = 0 \<longleftrightarrow> \<not> bit pte 7" "pte AND PTE_COW = 0 \<longleftrightarrow> \<not> bit pte 8"
  "pte AND PTE_PG = 0 \<longleftrightarrow> \<not> bit pte 9"
  by (rule and_single_bit, simp)+

lemma mask_10: "(0x3FF :: u64) = mask 10"
  by (simp add: mask_eq_exp_minus_1)

lemma bit_PTE_FLAGS [simp]: "bit (PTE_FLAGS pte) n \<longleftrightarrow> bit pte n \<and> n < 10"
  unfolding PTE_FLAGS_def mask_10 by (auto simp: bit_and_iff bit_mask_iff)

lemma bit_PTE_conversions [simp]:
  "bit (PTE_ENCOW pte) n \<longleftrightarrow> n < 64 \<and> (bit pte n \<and> n \<noteq> 2 \<or> n = 8)"
  "bit (PTE_DECOW pte) n \<longleftrightarrow> n < 64 \<and> (bit pte n \<and> n \<noteq> 8 \<or> n = 2)"
  "bit (PTE2PA pte) n \<longleftrightarrow> n < 64 \<and> 12 \<le> n \<and> bit pte (n - 2)"
  "bit (PA2PTE pa) n \<longleftrightarrow> n < 64 \<and> 10 \<le> n \<and> bit pa (n + 2)"
  "bit (PTE2IDX pte) n \<longleftrightarrow> bit pte (10 + n)"
  "bit (PTE_PGOUT idx flags) n \<longleftrightarrow> n < 64 \<and> (10 \<le> n \<and> bit idx (n - 10) \<or> bit flags n \<and> n \<noteq> 0 \<or> n = 9)"
  "bit (PTE_PGIN pa flags) n \<longleftrightarrow> n < 64 \<and> (bit (PA2PTE pa) n \<or> bit flags n \<and> n \<noteq> 9 \<or> n = 0)"
  using bit_imp_le_length [of pte n]
  by (auto simp: PTE_ENCOW_def PTE_DECOW_def PTE2PA_def PA2PTE_def PTE2IDX_def PTE_PGOUT_def
      PTE_PGIN_def bit_and_iff bit_or_iff bit_not_iff bit_push_bit_iff bit_drop_bit_eq
      dest: bit_imp_le_length)

lemma drop_bit_0_bits: "drop_bit k (x :: u64) = 0 \<Longrightarrow> bit x n \<Longrightarrow> n < k"
proof (rule ccontr)
  assume x: "drop_bit k x = 0" "bit x n" "\<not> n < k"
  then have "bit x (k + (n - k))" by simp
  then have "bit (drop_bit k x) (n - k)" by (simp only: bit_drop_bit_eq o_apply)
  then show False unfolding x(1) by simp
qed

lemma pa_ok_bits: "pa_ok pa \<Longrightarrow> bit pa n \<Longrightarrow> 12 \<le> n \<and> n < 56"
proof
  assume ok: "pa_ok pa" and b: "bit pa n"
  show "n < 56" using ok b drop_bit_0_bits [of 56 pa n] by (simp only: pa_ok_def)
  have "\<not> bit (take_bit 12 pa) n" using ok unfolding pa_ok_def by (simp only: bit_0_eq bot_fun_def) simp
  then show "12 \<le> n" using b by (simp only: bit_take_bit_iff) simp
qed

lemma flags_ok_bits: "flags_ok flags \<Longrightarrow> bit flags n \<Longrightarrow> n < 10"
  unfolding flags_ok_def by (rule drop_bit_0_bits)

lemma Suc_Suc_minus_2 [simp]: "12 \<le> n \<Longrightarrow> Suc (Suc (n - 2)) = n"
  by simp

lemma flags_ok_PTE_FLAGS [simp]: "flags_ok (PTE_FLAGS pte)"
  unfolding flags_ok_def by (rule bit_word_eqI) (simp add: bit_drop_bit_eq)

lemma PTE2PA_PA2PTE_flags: "pa_ok pa \<Longrightarrow> flags_ok flags \<Longrightarrow> PTE2PA (PA2PTE pa OR flags) = pa"
  by (rule bit_word_eqI) (auto simp: bit_or_iff dest: pa_ok_bits flags_ok_bits)

lemma PTE_FLAGS_PA2PTE: "flags_ok flags \<Longrightarrow> PTE_FLAGS (PA2PTE pa OR flags) = flags"
  by (rule bit_word_eqI) (auto simp: bit_or_iff dest: flags_ok_bits)

lemma PTE_DECOW_ENCOW: "pte AND PTE_W \<noteq> 0 \<Longrightarrow> pte AND PTE_COW = 0 \<Longrightarrow> PTE_DECOW (PTE_ENCOW pte) = pte"
  unfolding pte_bit_iff by (rule bit_word_eqI) auto

lemma PTE2PA_ENCOW [simp]: "PTE2PA (PTE_ENCOW pte) = PTE2PA pte" "PTE2PA (PTE_DECOW pte) = PTE2PA pte"
  by (rule bit_word_eqI, force)+

text \<open>A swapped-out entry remembers its slot and its flags but for \<open>PTE_V\<close>.\<close>

lemma PTE_PGOUT_roundtrip:
  assumes "drop_bit 54 idx = 0" "flags_ok flags"
  shows "PTE2IDX (PTE_PGOUT idx flags) = idx"
    and "PTE_FLAGS (PTE_PGOUT idx flags) = (flags AND NOT PTE_V) OR PTE_PG"
proof -
  have idx: "n < 54" if "bit idx n" for n
    using assms(1) that by (rule drop_bit_0_bits)
  show "PTE2IDX (PTE_PGOUT idx flags) = idx"
    by (rule bit_word_eqI) (auto dest: idx flags_ok_bits [OF assms(2)])
  show "PTE_FLAGS (PTE_PGOUT idx flags) = (flags AND NOT PTE_V) OR PTE_PG"
    by (rule bit_word_eqI)
      (auto simp: bit_or_iff bit_and_iff bit_not_iff dest: flags_ok_bits [OF assms(2)])
qed

end
