(* ===== verification/Kalloc.thy ===== *)
theory Kalloc
  imports Spinlock CString Riscv
begin

text \<open>
  The physical page allocator, \<open>kernel/kalloc.c\<close>: one free list per CPU, threaded
  through the free pages themselves (\<open>r->next\<close> is the first word of the page), stealing
  half of another CPU's list when the own list is empty, a second list of 2 MB super
  pages, and a reference count per page for copy-on-write.  A page with count 0 is free.
\<close>

section \<open>State\<close>

definition NCPU :: nat where "NCPU = 8"
definition NREF :: nat where \<comment> \<open>length of \<open>ref_cnt[]\<close>\<close> "NREF = COW_REFIDX PHYSTOP"

record kmem = kcpu +
  mem :: bytes
  kend :: u64                     \<comment> \<open>the linker symbol \<open>end\<close>\<close>
  freelist :: "nat \<Rightarrow> u64"        \<comment> \<open>\<open>kmems[i].freelist\<close>\<close>
  super_freelist :: u64
  ref_cnt :: "nat \<Rightarrow> int"
  savedpg :: u32
  savedbyte :: u64

section \<open>Operations\<close>

definition kfree :: "u64 \<Rightarrow> 'a kmem_scheme \<Rightarrow> 'a kmem_scheme option" where
  "kfree pa s =
     (if pa mod 4096 \<noteq> 0 \<or> pa < kend s \<or> pa \<ge> PHYSTOP then panic ''kfree''
      else do {
        s \<leftarrow> acquire RefLock s;
        let idx = COW_REFIDX pa;
        (if ref_cnt s idx < 1 then panic ''kfree ref_cnt'' else do {
          let s = s\<lparr>ref_cnt := (ref_cnt s)(idx := ref_cnt s idx - 1)\<rparr>;
          let res = ref_cnt s idx;
          s \<leftarrow> release RefLock s;
          (if res > 0 then Some s else do {
            let s = s\<lparr>mem := mem_set pa 1 PGSIZE (mem s)\<rparr>;
            let s = push_off s;
            let i = cpuid s;
            s \<leftarrow> acquire (KmemLock i) s;
            let s = s\<lparr>mem := st64 pa (freelist s i) (mem s)\<rparr>;
            let s = s\<lparr>freelist := (freelist s)(i := pa)\<rparr>;
            s \<leftarrow> release (KmemLock i) s;
            pop_off s }) }) })"

definition kfree_suppage :: "u64 \<Rightarrow> 'a kmem_scheme \<Rightarrow> 'a kmem_scheme option" where
  "kfree_suppage pa s =
     (if pa mod 2097152 \<noteq> 0 \<or> pa < PHYSTOP \<or> pa \<ge> PHYSTOP_INCLUDESUPPG
      then panic ''kfree_suppage''
      else do {
        let s = s\<lparr>mem := mem_set pa 1 SUPPGSIZE (mem s)\<rparr>;
        s \<leftarrow> acquire SupLock s;
        let s = s\<lparr>mem := st64 pa (super_freelist s) (mem s)\<rparr>;
        let s = s\<lparr>super_freelist := pa\<rparr>;
        release SupLock s })"

partial_function (option) ksteal_loop :: "bytes \<Rightarrow> u64 \<Rightarrow> u64 \<Rightarrow> u64 option" where
  \<comment> \<open>the tortoise of \<open>ksteal\<close>; \<open>None\<close> on a cyclic list\<close>
  "ksteal_loop m slow fast =
     (if fast \<noteq> 0 \<and> ld64 m fast \<noteq> 0
      then ksteal_loop m (ld64 m slow) (ld64 m (ld64 m fast))
      else Some slow)"

definition ksteal :: "u64 \<Rightarrow> bytes \<Rightarrow> (u64 \<times> bytes) option" where
  "ksteal head m = do {
     slow \<leftarrow> ksteal_loop m head (ld64 m head);
     let fast = ld64 m slow;
     let m = st64 slow 0 m;
     Some (fast, m) }"

definition kincget :: "u64 \<Rightarrow> 'a kmem_scheme \<Rightarrow> (int \<times> 'a kmem_scheme) option" where
  "kincget pa s = do {
     s \<leftarrow> acquire RefLock s;
     let idx = COW_REFIDX pa;
     (if \<not> idx < NREF then None \<comment> \<open>outside the array\<close> else do {
        let s = s\<lparr>ref_cnt := (ref_cnt s)(idx := ref_cnt s idx + 1)\<rparr>;
        let res = ref_cnt s idx;
        s \<leftarrow> release RefLock s;
        Some (res, s) }) }"

fun kalloc_steal ::
  "nat \<Rightarrow> nat \<Rightarrow> nat \<Rightarrow> u64 \<Rightarrow> 'a kmem_scheme \<Rightarrow> (u64 \<times> 'a kmem_scheme) option" where
  \<comment> \<open>\<open>for (j = 0; j < NCPU && !r; j++)\<close>, \<open>k\<close> values of \<open>j\<close> left\<close>
  "kalloc_steal i 0 j r s = Some (r, s)"
| "kalloc_steal i (Suc k) j r s =
     (if r \<noteq> 0 then Some (r, s)
      else if j = i then kalloc_steal i k (Suc j) r s
      else do {
        s \<leftarrow> acquire (KmemLock j) s;
        (r, s) \<leftarrow> (if freelist s j \<noteq> 0 then do {
                     let r = freelist s j;
                     (rest, m) \<leftarrow> ksteal (freelist s j) (mem s);
                     Some (r, s\<lparr>mem := m, freelist := (freelist s)(j := rest)\<rparr>) }
                   else Some (r, s));
        s \<leftarrow> release (KmemLock j) s;
        kalloc_steal i k (Suc j) r s })"

definition kalloc_lists :: "'a kmem_scheme \<Rightarrow> (u64 \<times> 'a kmem_scheme) option" where
  \<comment> \<open>\<open>kalloc\<close> up to the outer \<open>pop_off()\<close>: a page from the free lists, or 0\<close>
  "kalloc_lists s = do {
     let s = push_off s;
     let i = cpuid s;
     s \<leftarrow> acquire (KmemLock i) s;
     let r = freelist s i;
     let s = (if r \<noteq> 0 then s\<lparr>freelist := (freelist s)(i := ld64 (mem s) r)\<rparr> else s);
     s \<leftarrow> release (KmemLock i) s;
     (r, s) \<leftarrow> (if r \<noteq> 0 then Some (r, s) else do {
        (r, s) \<leftarrow> kalloc_steal i NCPU 0 r s;
        (if r \<noteq> 0 then do {
           s \<leftarrow> acquire (KmemLock i) s;
           let s = s\<lparr>freelist := (freelist s)(i := ld64 (mem s) r)\<rparr>;
           s \<leftarrow> release (KmemLock i) s;
           Some (r, s) }
         else Some (r, s)) });
     s \<leftarrow> pop_off s;
     Some (r, s) }"

definition kalloc ::
  "('a kmem_scheme \<Rightarrow> (u64 \<times> 'a kmem_scheme) option) \<Rightarrow>
    'a kmem_scheme \<Rightarrow> (u64 \<times> 'a kmem_scheme) option" where
  \<comment> \<open>\<open>swapper\<close> is \<open>find_swapping_page\<close> of \<open>proc.c\<close>\<close>
  "kalloc swapper s = do {
     (r, s) \<leftarrow> kalloc_lists s;
     (r, s) \<leftarrow> (if r = 0 then swapper s else Some (r, s));
     (if r \<noteq> 0 then do {
        (n, s) \<leftarrow> kincget r s;
        (if n \<noteq> 1 then panic ''kalloc_ref_cnt''
         else Some (r, s\<lparr>mem := mem_set r 5 PGSIZE (mem s)\<rparr>)) }
      else Some (0, s)) }"

definition kalloc_suppage :: "'a kmem_scheme \<Rightarrow> (u64 \<times> 'a kmem_scheme) option" where
  "kalloc_suppage s = do {
     s \<leftarrow> acquire SupLock s;
     let r = super_freelist s;
     let s = (if r \<noteq> 0 then s\<lparr>super_freelist := ld64 (mem s) r\<rparr> else s);
     s \<leftarrow> release SupLock s;
     let s = (if r \<noteq> 0 then s\<lparr>mem := mem_set r 5 SUPPGSIZE (mem s)\<rparr> else s);
     Some (r, s) }"

definition saved_page :: "int \<Rightarrow> 'a kmem_scheme \<Rightarrow> (u32 \<times> 'a kmem_scheme) option" where
  "saved_page unit s = do {
     s \<leftarrow> acquire RefLock s;
     let s = s\<lparr>savedpg := savedpg s + of_int unit\<rparr>;
     let tmp = savedpg s;
     s \<leftarrow> release RefLock s;
     Some (tmp, s) }"

definition saved_byte :: "int \<Rightarrow> 'a kmem_scheme \<Rightarrow> (u64 \<times> 'a kmem_scheme) option" where
  "saved_byte unit s = do {
     s \<leftarrow> acquire RefLock s;
     let s = s\<lparr>savedbyte := savedbyte s + of_int unit\<rparr>;
     let tmp = savedbyte s;
     s \<leftarrow> release RefLock s;
     Some (tmp, s) }"

definition kalloc_cow ::
  "('a kmem_scheme \<Rightarrow> (u64 \<times> 'a kmem_scheme) option) \<Rightarrow>
    u64 \<Rightarrow> 'a kmem_scheme \<Rightarrow> (u64 \<times> 'a kmem_scheme) option" where
  \<comment> \<open>\<open>pte\<close> is the address of the page table entry\<close>
  "kalloc_cow swapper pte s = do {
     let pa = PTE2PA (ld64 (mem s) pte);
     let idx = COW_REFIDX pa;
     s \<leftarrow> acquire RefLock s;
     (if \<not> idx < NREF then None
      else if ref_cnt s idx < 1 then panic ''kalloc_cow ref_cnt''
      else if ref_cnt s idx = 1 then do {
        let s = s\<lparr>mem := st64 pte (PTE_DECOW (ld64 (mem s) pte)) (mem s)\<rparr>;
        s \<leftarrow> release RefLock s;
        Some (pa, s) }
      else do {
        let s = s\<lparr>ref_cnt := (ref_cnt s)(idx := ref_cnt s idx - 1)\<rparr>;
        (if ref_cnt s idx < 1 then panic ''kfree_cow ref_cnt'' else do {
          s \<leftarrow> release RefLock s;
          (res, s) \<leftarrow> kalloc swapper s;
          (if res = 0 then do {
             (n, s) \<leftarrow> kincget pa s;
             Some (res, s) }
           else Some (res, s)) }) }) }"

partial_function (option) freelist_length :: "bytes \<Rightarrow> u64 \<Rightarrow> nat \<Rightarrow> nat option" where
  "freelist_length m r n = (if r \<noteq> 0 then freelist_length m (ld64 m r) (Suc n) else Some n)"

fun acquire_kmems :: "nat \<Rightarrow> 'a kmem_scheme \<Rightarrow> 'a kmem_scheme option" where
  "acquire_kmems 0 s = Some s"
| "acquire_kmems (Suc j) s = do { s \<leftarrow> acquire_kmems j s; acquire (KmemLock j) s }"

fun release_kmems :: "nat \<Rightarrow> 'a kmem_scheme \<Rightarrow> 'a kmem_scheme option" where
  "release_kmems 0 s = Some s"
| "release_kmems (Suc j) s = do { s \<leftarrow> release_kmems j s; release (KmemLock j) s }"

fun count_kmems :: "nat \<Rightarrow> 'a kmem_scheme \<Rightarrow> nat option" where
  "count_kmems 0 s = Some 0"
| "count_kmems (Suc j) s = do { n \<leftarrow> count_kmems j s; freelist_length (mem s) (freelist s j) n }"

definition kcollect :: "'a kmem_scheme \<Rightarrow> (nat \<times> 'a kmem_scheme) option" where
  "kcollect s = do {
     s \<leftarrow> acquire_kmems NCPU s;
     n \<leftarrow> count_kmems NCPU s;
     s \<leftarrow> release_kmems NCPU s;
     Some (n * PGSIZE, s) }"

partial_function (option) freerange_loop ::
  "u64 \<Rightarrow> nat \<Rightarrow> u64 \<Rightarrow> 'a kmem_scheme \<Rightarrow> 'a kmem_scheme option" where
  "freerange_loop p i pa_end s =
     (if p + 4096 \<le> pa_end
      then do {
        let s = s\<lparr>ref_cnt := (ref_cnt s)(i := 1)\<rparr>;
        s \<leftarrow> kfree p s;
        freerange_loop (p + 4096) (Suc i) pa_end s }
      else Some s)"

definition freerange :: "u64 \<Rightarrow> u64 \<Rightarrow> 'a kmem_scheme \<Rightarrow> 'a kmem_scheme option" where
  "freerange pa_start pa_end s =
     (let p = PGROUNDUP pa_start in freerange_loop p (COW_REFIDX p) pa_end s)"

partial_function (option) freerange_suppage ::
  "u64 \<Rightarrow> u64 \<Rightarrow> 'a kmem_scheme \<Rightarrow> 'a kmem_scheme option" where
  "freerange_suppage p pa_end s =
     (if p + 2097152 \<le> pa_end
      then do { s \<leftarrow> kfree_suppage p s; freerange_suppage (p + 2097152) pa_end s }
      else Some s)"

definition kinit :: "'a kmem_scheme \<Rightarrow> 'a kmem_scheme option" where
  \<comment> \<open>the locks start out free, as \<open>initlock\<close> leaves them\<close>
  "kinit s = do {
     let s = s\<lparr>lk := (\<lambda>l. case l of RefLock \<Rightarrow> None | SupLock \<Rightarrow> None
                      | KmemLock i \<Rightarrow> if i < NCPU then None else lk s l | _ \<Rightarrow> lk s l)\<rparr>;
     s \<leftarrow> freerange (kend s) PHYSTOP s;
     freerange_suppage PHYSTOP PHYSTOP_INCLUDESUPPG s }"

section \<open>Free lists in memory\<close>

primrec flist :: "bytes \<Rightarrow> u64 \<Rightarrow> u64 list \<Rightarrow> bool" where
  "flist m p [] \<longleftrightarrow> p = 0"
| "flist m p (x # xs) \<longleftrightarrow> p = x \<and> x \<noteq> 0 \<and> flist m (ld64 m x) xs"

lemma flist_0 [simp]: "flist m 0 xs \<longleftrightarrow> xs = []"
  by (cases xs) auto

lemma flist_nonzero: "p \<noteq> 0 \<Longrightarrow> flist m p xs \<longleftrightarrow> (\<exists>ys. xs = p # ys \<and> flist m (ld64 m p) ys)"
  by (cases xs) auto

lemma flist_cong: "(\<And>x. x \<in> set xs \<Longrightarrow> ld64 m x = ld64 m' x) \<Longrightarrow> flist m p xs = flist m' p xs"
  by (induction xs arbitrary: p) auto

lemma flist_unique: "flist m p xs \<Longrightarrow> flist m p ys \<Longrightarrow> xs = ys"
proof (induction xs arbitrary: p ys)
  case (Cons x xs)
  then show ?case by (cases ys) auto
qed simp

lemma flist_append:
  "flist m p (xs @ ys) \<Longrightarrow> ys \<noteq> [] \<Longrightarrow> xs \<noteq> [] \<Longrightarrow> ld64 m (last xs) = hd ys \<and> flist m (hd ys) ys"
proof (induction xs arbitrary: p)
  case (Cons x xs)
  then show ?case by (cases xs; cases ys) auto
qed simp

lemma flist_take:
  "flist m p (xs @ ys) \<Longrightarrow> xs \<noteq> [] \<Longrightarrow> distinct xs \<Longrightarrow>
     (\<And>x. x \<in> set xs \<Longrightarrow> page_aligned x) \<Longrightarrow> flist (st64 (last xs) 0 m) p xs"
proof (induction xs arbitrary: p)
  case (Cons x xs)
  show ?case
  proof (cases "xs = []")
    case False
    have "ranges_disjoint (last xs) 8 x 8"
      using Cons.prems(3,4) False by (intro page_aligned_ranges_disjoint) (auto simp: PGSIZE_def)
    then show ?thesis using Cons False by (auto simp: ld_st_disjoint)
  qed (use Cons.prems in simp)
qed simp

lemma flist_nth:
  "flist m p xs \<Longrightarrow> i < length xs \<Longrightarrow>
     xs ! i \<noteq> 0 \<and> ld64 m (xs ! i) = (if Suc i < length xs then xs ! Suc i else 0)"
proof (induction xs arbitrary: p i)
  case (Cons x xs)
  then show ?case by (cases i; cases xs) auto
qed simp

subsection \<open>Splitting a list in two\<close>

lemma ksteal_loop_spec:
  assumes "flist m p xs" "2 * i < length xs"
  shows "ksteal_loop m (xs ! i) (if 2 * i + 1 < length xs then xs ! (2 * i + 1) else 0)
           = Some (xs ! ((length xs - 1) div 2))"
  using assms(2)
proof (induction "length xs - i" arbitrary: i rule: less_induct)
  case less
  let ?f = "\<lambda>i. if 2 * i + 1 < length xs then xs ! (2 * i + 1) else 0"
  show ?case
  proof (cases "2 * i + 2 < length xs")
    case True
    have "ksteal_loop m (xs ! Suc i) (?f (Suc i)) = Some (xs ! ((length xs - 1) div 2))"
      using less.prems True by (intro less.hyps) auto
    then show ?thesis using True flist_nth [OF assms(1), of i] flist_nth [OF assms(1), of "2 * i + 1"]
        flist_nth [OF assms(1), of "2 * i + 2"]
      by (subst ksteal_loop.simps) (auto split: if_splits)
  next
    case False
    then have "i = (length xs - 1) div 2" using less.prems by linarith
    moreover have "?f i = 0 \<or> ld64 m (?f i) = 0"
      using False flist_nth [OF assms(1), of "2 * i + 1"] by auto
    ultimately show ?thesis by (subst ksteal_loop.simps) auto
  qed
qed

lemma ksteal_spec:
  assumes fl: "flist m p xs" and ne: "xs \<noteq> []" and dist: "distinct xs"
    and al: "\<And>x. x \<in> set xs \<Longrightarrow> page_aligned x"
  defines "h \<equiv> (length xs + 1) div 2"
  shows "\<exists>rest m'. ksteal p m = Some (rest, m') \<and> flist m' p (take h xs) \<and> flist m' rest (drop h xs) \<and>
     m' = st64 (xs ! (h - 1)) 0 m"
proof -
  obtain n where n: "length xs = Suc n" using ne by (cases xs) auto
  have h: "0 < h" "h \<le> length xs" "h - 1 = (length xs - 1) div 2" by (auto simp: h_def n)
  have p: "p = xs ! 0" using fl ne by (cases xs) auto
  have ld0: "ld64 m p = (if 2 * 0 + 1 < length xs then xs ! (2 * 0 + 1) else 0)"
    using flist_nth [OF fl, of 0] p n by simp
  have slow: "ksteal_loop m p (ld64 m p) = Some (xs ! (h - 1))"
    unfolding ld0 unfolding p h(3) by (rule ksteal_loop_spec [OF fl]) (use ne in auto)
  let ?slow = "xs ! (h - 1)" and ?m = "st64 (xs ! (h - 1)) 0 m"
  have last: "last (take h xs) = ?slow" using h(1,2) by (cases h) (simp_all add: take_Suc_conv_app_nth)
  have fl2: "flist m p (take h xs @ drop h xs)" using fl by simp
  have ne': "take h xs \<noteq> []" using h(1) ne by simp
  have al': "page_aligned x" if "x \<in> set (take h xs)" for x using al that by (blast dest: in_set_takeD)
  have front: "flist ?m p (take h xs)"
    using flist_take [OF fl2 ne' distinct_take [OF dist] al'] unfolding last .
  have next_slow: "ld64 m ?slow = (if h < length xs then xs ! h else 0)"
    using flist_nth [OF fl, of "h - 1"] h(1,2) by auto
  have keep: "ld64 ?m x = ld64 m x" if "x \<in> set (drop h xs)" for x
  proof -
    have "?slow \<in> set (take h xs)" by (metis last last_in_set ne')
    then have "?slow \<noteq> x" using that dist by (metis append_take_drop_id disjoint_iff distinct_append)
    then show ?thesis using that al h(1,2)
      by (intro ld_st_disjoint page_aligned_ranges_disjoint) (auto simp: PGSIZE_def dest: in_set_dropD)
  qed
  have rear: "flist ?m (ld64 m ?slow) (drop h xs)"
  proof (cases "h < length xs")
    case True
    then have "flist m (xs ! h) (drop h xs)"
      using flist_append [OF fl2] h(1,2) ne by (simp add: hd_drop_conv_nth)
    then show ?thesis using keep next_slow True by (subst flist_cong [of _ _ m]) auto
  qed (use next_slow in simp)
  show ?thesis using slow front rear by (simp add: ksteal_def Let_def)
qed

section \<open>The allocator's invariant\<close>

definition page_ok :: "'a kmem_scheme \<Rightarrow> u64 \<Rightarrow> bool" where
  \<comment> \<open>a page that \<open>kfree\<close> accepts\<close>
  "page_ok s p \<longleftrightarrow> p mod 4096 = 0 \<and> kend s \<le> p \<and> p < PHYSTOP"

definition avail :: "'a kmem_scheme \<Rightarrow> u64 set" where
  "avail s = {p. page_ok s p \<and> ref_cnt s (COW_REFIDX p) = 0}"

definition listed :: "(nat \<Rightarrow> u64 list) \<Rightarrow> u64 set" where
  "listed F = (\<Union>i < NCPU. set (F i))"

definition lists_ok :: "'a kmem_scheme \<Rightarrow> (nat \<Rightarrow> u64 list) \<Rightarrow> bool" where
  \<comment> \<open>\<open>F i\<close> is the free list of CPU \<open>i\<close>; no page is on two lists\<close>
  "lists_ok s F \<longleftrightarrow>
     KERNBASE \<le> kend s \<and>
     (\<forall>i < NCPU. flist (mem s) (freelist s i) (F i) \<and> distinct (F i)) \<and>
     (\<forall>i < NCPU. \<forall>j < NCPU. i \<noteq> j \<longrightarrow> set (F i) \<inter> set (F j) = {}) \<and>
     (\<forall>p \<in> listed F. page_ok s p)"

definition kinv :: "'a kmem_scheme \<Rightarrow> bool" where
  \<comment> \<open>the pages on the lists are exactly those with reference count 0\<close>
  "kinv s \<longleftrightarrow> (\<exists>F. lists_ok s F \<and> listed F = avail s)"

definition cpu_idle :: "'a kmem_scheme \<Rightarrow> bool" where
  \<comment> \<open>none of the allocator's locks is held and this is one of the CPUs\<close>
  "cpu_idle s \<longleftrightarrow> cpuid s < NCPU \<and> lk s RefLock = None \<and> lk s SupLock = None \<and>
     (\<forall>i. lk s (KmemLock i) = None)"

definition same_cpu :: "'a kmem_scheme \<Rightarrow> 'a kmem_scheme \<Rightarrow> bool" where
  "same_cpu s t \<longleftrightarrow> lk t = lk s \<and> noff t = noff s \<and> cpuid t = cpuid s \<and> sl t = sl s \<and>
     mypid t = mypid s \<and> kend t = kend s"

lemma page_aligned_iff: "page_aligned p \<longleftrightarrow> p mod 4096 = 0"
  by (simp add: page_aligned_def PGSIZE_def word_unat_eq_iff unat_mod)

lemma page_ok_update [simp]:
  "page_ok (s\<lparr>mem := m\<rparr>) q = page_ok s q" "page_ok (s\<lparr>freelist := f\<rparr>) q = page_ok s q"
  "page_ok (s\<lparr>ref_cnt := r\<rparr>) q = page_ok s q" "page_ok (s\<lparr>super_freelist := x\<rparr>) q = page_ok s q"
  "page_ok (s\<lparr>lk := l\<rparr>) q = page_ok s q" "page_ok (s\<lparr>noff := n\<rparr>) q = page_ok s q"
  by (simp_all add: page_ok_def)

lemma page_ok_nonzero: "KERNBASE \<le> kend s \<Longrightarrow> page_ok s p \<Longrightarrow> p \<noteq> 0"
  by (auto simp: page_ok_def KERNBASE_def)

lemma PHYSTOP_eq: "PHYSTOP = 0x88000000" "KERNBASE = 0x80000000"
  by (simp_all add: PHYSTOP_def KERNBASE_def)

lemma NREF_eq: "NREF = 32768"
  by (simp add: NREF_def COW_REFIDX_def PHYSTOP_def KERNBASE_def)

lemma COW_REFIDX_eq:
  assumes "KERNBASE \<le> p" shows "COW_REFIDX p = (unat p - 2147483648) div 4096"
proof -
  have "unat (p - KERNBASE) = unat p - unat KERNBASE" using assms by (rule unat_sub)
  then show ?thesis by (simp add: COW_REFIDX_def unat_div KERNBASE_def)
qed

lemma page_ok_unat:
  assumes "KERNBASE \<le> kend s" "page_ok s p"
  shows "unat p mod 4096 = 0" "2147483648 \<le> unat p" "unat p < 2281701376"
proof -
  show "unat p mod 4096 = 0"
    using assms(2) page_aligned_iff [of p] by (simp add: page_ok_def page_aligned_def PGSIZE_def)
  have "unat KERNBASE \<le> unat p" "unat p < unat PHYSTOP"
    using assms by (auto simp: page_ok_def word_le_nat_alt word_less_nat_alt)
  then show "2147483648 \<le> unat p" "unat p < 2281701376" by (simp_all add: PHYSTOP_eq)
qed

lemma COW_REFIDX_inj:
  assumes "KERNBASE \<le> kend s" "page_ok s p" "page_ok s q" "COW_REFIDX p = COW_REFIDX q"
  shows "p = q"
proof -
  note up = page_ok_unat [OF assms(1,2)] and uq = page_ok_unat [OF assms(1,3)]
  have "KERNBASE \<le> p" "KERNBASE \<le> q" using assms(1-3) by (auto simp: page_ok_def)
  then have eq: "(unat p - 2147483648) div 4096 = (unat q - 2147483648) div 4096"
    using assms(4) by (simp add: COW_REFIDX_eq)
  obtain a b where "unat p = 4096 * a" "unat q = 4096 * b" using up(1) uq(1) by (metis mod_0_imp_dvd dvd_def)
  then show ?thesis using eq up uq by (simp add: word_unat_eq_iff)
qed

lemma COW_REFIDX_bound:
  assumes "KERNBASE \<le> kend s" "page_ok s p" shows "COW_REFIDX p < NREF"
proof -
  have "KERNBASE \<le> p" using assms by (auto simp: page_ok_def)
  then show ?thesis using page_ok_unat [OF assms] by (simp add: COW_REFIDX_eq NREF_eq)
qed

lemma lists_okD:
  assumes "lists_ok s F"
  shows "KERNBASE \<le> kend s"
    and "i < NCPU \<Longrightarrow> flist (mem s) (freelist s i) (F i)" and "i < NCPU \<Longrightarrow> distinct (F i)"
    and "i < NCPU \<Longrightarrow> x \<in> set (F i) \<Longrightarrow> page_ok s x"
    and "i < NCPU \<Longrightarrow> x \<in> set (F i) \<Longrightarrow> page_aligned x"
    and "i < NCPU \<Longrightarrow> j < NCPU \<Longrightarrow> i \<noteq> j \<Longrightarrow> x \<in> set (F i) \<Longrightarrow> x \<notin> set (F j)"
  using assms unfolding lists_ok_def listed_def page_aligned_iff page_ok_def by auto

lemma lists_okI:
  assumes "KERNBASE \<le> kend s"
    and "\<And>i. i < NCPU \<Longrightarrow> flist (mem s) (freelist s i) (F i)" "\<And>i. i < NCPU \<Longrightarrow> distinct (F i)"
    and "\<And>i j x. i < NCPU \<Longrightarrow> j < NCPU \<Longrightarrow> i \<noteq> j \<Longrightarrow> x \<in> set (F i) \<Longrightarrow> x \<in> set (F j) \<Longrightarrow> False"
    and "\<And>i x. i < NCPU \<Longrightarrow> x \<in> set (F i) \<Longrightarrow> page_ok s x"
  shows "lists_ok s F"
  unfolding lists_ok_def listed_def using assms by blast

definition others :: "nat set \<Rightarrow> (nat \<Rightarrow> u64 list) \<Rightarrow> u64 set" where
  "others I F = (\<Union>k \<in> {..<NCPU} - I. set (F k))"

lemma listed_upd1: "i < NCPU \<Longrightarrow> listed (F(i := xs)) = set xs \<union> others {i} F"
  by (auto simp: listed_def others_def split: if_splits)

lemma listed_upd2:
  assumes "i < NCPU" "v < NCPU" "v \<noteq> i"
  shows "listed (F(v := ys, i := xs)) = set xs \<union> (set ys \<union> others {i, v} F)"
proof -
  have "others {i} (F(v := ys)) = set ys \<union> others {i, v} F"
    using assms by (auto simp: others_def split: if_splits)
  then show ?thesis using assms(1) by (simp add: listed_upd1)
qed

lemma listed_split:
  "i < NCPU \<Longrightarrow> listed F = set (F i) \<union> others {i} F"
  "i < NCPU \<Longrightarrow> v < NCPU \<Longrightarrow> v \<noteq> i \<Longrightarrow> listed F = set (F i) \<union> (set (F v) \<union> others {i, v} F)"
  using listed_upd1 [of i F "F i"] listed_upd2 [of i v F "F v" "F i"] by simp_all

lemma cpu_idleD:
  "cpu_idle s \<Longrightarrow> cpuid s < NCPU" "cpu_idle s \<Longrightarrow> lk s RefLock = None"
  "cpu_idle s \<Longrightarrow> lk s SupLock = None" "cpu_idle s \<Longrightarrow> lk s (KmemLock i) = None"
  by (simp_all add: cpu_idle_def)

section \<open>\<open>kfree\<close>\<close>

definition freed :: "u64 \<Rightarrow> 'a kmem_scheme \<Rightarrow> 'a kmem_scheme" where
  "freed p s =
     (let s' = s\<lparr>ref_cnt := (ref_cnt s)(COW_REFIDX p := ref_cnt s (COW_REFIDX p) - 1)\<rparr>
      in if ref_cnt s (COW_REFIDX p) = 1
         then s'\<lparr>mem := st64 p (freelist s (cpuid s)) (mem_set p 1 PGSIZE (mem s)),
                 freelist := (freelist s)(cpuid s := p)\<rparr>
         else s')"

lemma kfree_eq:
  assumes "cpu_idle s" "page_ok s p" "1 \<le> ref_cnt s (COW_REFIDX p)"
  shows "kfree p s = Some (freed p s)"
  using assms
  by (auto simp: kfree_def freed_def Let_def kernel_simps cpu_idleD page_ok_def fun_upd_idem
      not_le [symmetric])

lemma kfree_bad_page:
  assumes "\<not> page_ok s p" shows "kfree p s = None"
proof -
  have c: "p mod 4096 \<noteq> 0 \<or> p < kend s \<or> p \<ge> PHYSTOP"
    using assms unfolding page_ok_def by (meson not_le)
  show ?thesis unfolding kfree_def if_P [OF c] by simp
qed

lemma kfree_double_free: "lk s RefLock = None \<Longrightarrow> ref_cnt s (COW_REFIDX p) < 1 \<Longrightarrow> kfree p s = None"
  by (simp add: kfree_def kernel_simps Let_def)

lemma ld64_page_write:
  assumes "page_aligned p" "page_aligned x" "p \<noteq> x"
    and m: "\<And>a. \<not> in_range a p PGSIZE \<Longrightarrow> m' a = m a"
  shows "ld64 m' x = ld64 m x"
proof -
  have "ranges_disjoint p PGSIZE x 8"
    using assms by (intro page_aligned_ranges_disjoint) (auto simp: PGSIZE_def)
  then have "m' (x + of_nat k) = m (x + of_nat k)" if "k < 8" for k
    using that m word_diff_lt_imp [of "x + of_nat k" p PGSIZE]
    unfolding in_range_def ranges_disjoint_def by metis
  then show ?thesis unfolding ld64_def by (intro arg_cong [where f = of_nat] ldn_cong) simp
qed

lemma flist_page_write:
  assumes "flist m x xs" "page_aligned p" "p \<notin> set xs" "\<And>y. y \<in> set xs \<Longrightarrow> page_aligned y"
    and "\<And>a. \<not> in_range a p PGSIZE \<Longrightarrow> m' a = m a"
  shows "flist m' x xs"
  using assms by (subst flist_cong [of _ _ m]) (auto intro!: ld64_page_write)

lemma page_ok_aligned: "page_ok s p \<Longrightarrow> page_aligned p"
  by (simp add: page_ok_def page_aligned_iff)

lemma lists_ok_page_write:
  assumes ok: "lists_ok s F" and p: "page_ok s p" "p \<notin> listed F"
    and m: "\<And>a. \<not> in_range a p PGSIZE \<Longrightarrow> m a = mem s a"
  shows "lists_ok (s\<lparr>mem := m\<rparr>) F"
proof -
  have "flist m (freelist s i) (F i)" if i: "i < NCPU" for i
    using p i lists_okD(5) [OF ok i] m
    by (intro flist_page_write [OF lists_okD(2) [OF ok i] page_ok_aligned [OF p(1)]])
      (auto simp: listed_def)
  then show ?thesis using ok by (simp add: lists_ok_def)
qed

lemma st64_frame: "\<not> in_range a p 8 \<Longrightarrow> st64 p v m a = m a"
  unfolding st64_def in_range_def by (rule stn_other) auto

lemma in_range_mono: "in_range a p n \<Longrightarrow> n \<le> k \<Longrightarrow> in_range a p k"
  by (simp add: in_range_def)

lemma lists_ok_push:
  assumes ok: "lists_ok s F" and p: "page_ok s p" "p \<notin> listed F" and i: "i < NCPU"
    and m: "ld64 (mem s) p = freelist s i"
  shows "lists_ok (s\<lparr>freelist := (freelist s)(i := p)\<rparr>) (F(i := p # F i))"
proof -
  have "p \<noteq> 0" using lists_okD(1) [OF ok] p(1) by (rule page_ok_nonzero)
  then show ?thesis
    using ok p i m unfolding lists_ok_def listed_def by (auto simp: page_ok_def)
qed

lemma listed_push: "i < NCPU \<Longrightarrow> listed (F(i := p # F i)) = insert p (listed F)"
  by (auto simp: listed_def split: if_splits)

lemma freed_simps [simp]:
  "kend (freed p s) = kend s" "same_cpu s (freed p s)"
  "ref_cnt (freed p s) = (ref_cnt s)(COW_REFIDX p := ref_cnt s (COW_REFIDX p) - 1)"
  by (simp_all add: freed_def same_cpu_def Let_def)

lemma freed_mem_frame:
  "\<not> in_range a p PGSIZE \<Longrightarrow> mem (freed p s) a = mem s a"
  "ref_cnt s (COW_REFIDX p) \<noteq> 1 \<Longrightarrow> mem (freed p s) = mem s"
  by (auto simp: freed_def Let_def st64_frame mem_set_def in_range_def PGSIZE_def)

lemma avail_freed:
  assumes "KERNBASE \<le> kend s" "page_ok s p"
  shows "avail (freed p s) =
    (if ref_cnt s (COW_REFIDX p) = 1 then insert p (avail s) else avail s - {p})"
proof -
  have ok: "page_ok (freed p s) q = page_ok s q" for q by (simp add: page_ok_def)
  show ?thesis using assms(2) COW_REFIDX_inj [OF assms(1) _ assms(2)] by (auto simp: avail_def ok)
qed

lemma lists_ok_freed:
  assumes ok: "lists_ok s F" and i: "cpuid s < NCPU" and p: "page_ok s p" "p \<notin> listed F"
  shows "lists_ok (freed p s)
    (if ref_cnt s (COW_REFIDX p) = 1 then F(cpuid s := p # F (cpuid s)) else F)"
proof (cases "ref_cnt s (COW_REFIDX p) = 1")
  case True
  let ?s = "s\<lparr>mem := st64 p (freelist s (cpuid s)) (mem_set p 1 PGSIZE (mem s))\<rparr>"
  have "lists_ok ?s F"
    using ok p by (rule lists_ok_page_write)
      (auto simp: st64_frame mem_set_def in_range_def PGSIZE_def)
  then have "lists_ok (?s\<lparr>freelist := (freelist ?s)(cpuid s := p)\<rparr>) (F(cpuid s := p # F (cpuid s)))"
    by (rule lists_ok_push) (use p i in \<open>simp_all add: page_ok_def\<close>)
  then show ?thesis using True by (simp add: freed_def Let_def lists_ok_def page_ok_def)
next
  case False
  then show ?thesis using ok by (simp add: freed_def Let_def lists_ok_def page_ok_def)
qed

lemma kinv_freed:
  assumes "kinv s" "cpuid s < NCPU" "page_ok s p" "1 \<le> ref_cnt s (COW_REFIDX p)"
  shows "kinv (freed p s)"
proof -
  obtain F where F: "lists_ok s F" "listed F = avail s" using assms(1) by (auto simp: kinv_def)
  have p: "p \<notin> listed F" using assms(4) by (auto simp: F avail_def)
  show ?thesis
    unfolding kinv_def
    by (rule exI, rule conjI [OF lists_ok_freed [OF F(1) assms(2,3) p]])
      (use p F assms(2) avail_freed [OF lists_okD(1) [OF F(1)] assms(3)] in \<open>simp add: listed_push\<close>)
qed

section \<open>\<open>kalloc\<close>\<close>

lemma kalloc_steal_nonzero: "r \<noteq> 0 \<Longrightarrow> kalloc_steal i k j r s = Some (r, s)"
  by (cases k) auto

lemma kalloc_steal_hit:
  assumes "j \<noteq> i" "lk s (KmemLock j) = None" "freelist s j \<noteq> 0"
    and "ksteal (freelist s j) (mem s) = Some (rest, m)"
  shows "kalloc_steal i (Suc k) j 0 s =
           Some (freelist s j, s\<lparr>mem := m, freelist := (freelist s)(j := rest)\<rparr>)"
  using assms
  apply (simp add: acquire_free kalloc_steal_nonzero)
  apply (simp add: release_held)
  apply (simp add: fun_upd_idem)
  apply (simp add: kalloc_steal_nonzero)
  done

definition steals_from :: "nat \<Rightarrow> nat \<Rightarrow> nat \<Rightarrow> (nat \<Rightarrow> u64 list) \<Rightarrow> 'a kmem_scheme \<Rightarrow> nat \<Rightarrow> bool" where
  \<comment> \<open>the search of CPU \<open>i\<close> over \<open>k\<close> lists from \<open>j\<close> ends with half of the list of CPU \<open>v\<close>\<close>
  "steals_from i k j F s v \<longleftrightarrow> v \<in> {j..<j + k} \<and> v \<noteq> i \<and> F v \<noteq> [] \<and>
     (\<exists>rest m. ksteal (freelist s v) (mem s) = Some (rest, m) \<and>
        kalloc_steal i k j 0 s = Some (hd (F v), s\<lparr>mem := m, freelist := (freelist s)(v := rest)\<rparr>))"

lemma steals_from_Suc:
  "kalloc_steal i (Suc k) j 0 s = kalloc_steal i k (Suc j) 0 s \<Longrightarrow> steals_from i k (Suc j) F s v \<Longrightarrow>
     steals_from i (Suc k) j F s v"
  unfolding steals_from_def by (metis atLeastLessThan_iff add_Suc add_Suc_right Suc_leD)

lemma kalloc_steal_spec:
  assumes ok: "lists_ok s F" and idle: "\<And>j. j \<noteq> i \<Longrightarrow> lk s (KmemLock j) = None" and jk: "j + k \<le> NCPU"
  shows "(\<exists>v. steals_from i k j F s v) \<or>
         (kalloc_steal i k j 0 s = Some (0, s) \<and> (\<forall>v \<in> {j..<j + k} - {i}. F v = []))"
  using jk
proof (induction k arbitrary: j)
  case (Suc k)
  have fl: "flist (mem s) (freelist s j) (F j)" using lists_okD(2) [OF ok] Suc.prems by simp
  have idx: "{j..<j + Suc k} - {i} \<subseteq> insert j ({Suc j..<Suc j + k} - {i})" by auto
  have "Suc j + k \<le> NCPU" using Suc.prems by simp
  note IH = Suc.IH [OF this]
  have skip: ?case
    if eq: "kalloc_steal i (Suc k) j 0 s = kalloc_steal i k (Suc j) 0 s" and e: "j \<noteq> i \<longrightarrow> F j = []"
  proof (cases "\<exists>v. steals_from i k (Suc j) F s v")
    case True
    then show ?thesis using steals_from_Suc [OF eq] by blast
  next
    case False
    then have none: "kalloc_steal i k (Suc j) 0 s = Some (0, s)"
        "\<forall>v \<in> {Suc j..<Suc j + k} - {i}. F v = []"
      using IH by blast+
    have "\<forall>v \<in> {j..<j + Suc k} - {i}. F v = []" using none(2) e idx by blast
    then show ?thesis unfolding eq none(1) by (intro disjI2 conjI refl)
  qed
  consider "j = i" | "j \<noteq> i" "F j = []" | "j \<noteq> i" "F j \<noteq> []" by blast
  then show ?case
  proof cases
    case 1
    then show ?thesis by (intro skip) simp_all
  next
    case 2
    then have "freelist s j = 0" using fl by simp
    then have "kalloc_steal i (Suc k) j 0 s = kalloc_steal i k (Suc j) 0 s"
      using 2(1) idle [OF 2(1)] by (simp add: kernel_simps fun_upd_idem)
    then show ?thesis using 2 by (intro skip) blast+
  next
    case 3
    then have f: "freelist s j \<noteq> 0" "freelist s j = hd (F j)" using fl by (cases "F j"; auto)+
    obtain rest m where st: "ksteal (freelist s j) (mem s) = Some (rest, m)"
      using ksteal_spec [OF fl 3(2)] lists_okD(3,5) [OF ok, of j] Suc.prems by auto
    have "kalloc_steal i (Suc k) j 0 s =
        Some (hd (F j), s\<lparr>mem := m, freelist := (freelist s)(j := rest)\<rparr>)"
      unfolding f(2) [symmetric] by (rule kalloc_steal_hit [OF 3(1) idle [OF 3(1)] f(1) st])
    then have "steals_from i (Suc k) j F s j"
      using 3 st unfolding steals_from_def by (intro conjI exI) simp_all
    then show ?thesis by blast
  qed
qed simp

lemma kalloc_lists_own:
  assumes "lk s (KmemLock (cpuid s)) = None" "freelist s (cpuid s) \<noteq> 0"
  shows "kalloc_lists s = Some (freelist s (cpuid s),
    s\<lparr>freelist := (freelist s)(cpuid s := ld64 (mem s) (freelist s (cpuid s)))\<rparr>)"
  using assms by (simp add: kalloc_lists_def Let_def kernel_simps fun_upd_idem)

lemma kalloc_lists_steal:
  assumes "lk s (KmemLock (cpuid s)) = None" "freelist s (cpuid s) = 0"
    and "kalloc_steal (cpuid s) NCPU 0 0 (push_off s) = Some (r, (push_off s)\<lparr>mem := m, freelist := f\<rparr>)"
  shows "r \<noteq> 0 \<Longrightarrow> kalloc_lists s = Some (r, s\<lparr>mem := m, freelist := f(cpuid s := ld64 m r)\<rparr>)"
    and "r = 0 \<Longrightarrow> kalloc_lists s = Some (0, s\<lparr>mem := m, freelist := f\<rparr>)"
  using assms by (simp_all add: kalloc_lists_def Let_def kernel_simps fun_upd_idem)

definition takes_page :: "'a kmem_scheme \<Rightarrow> (nat \<Rightarrow> u64 list) \<Rightarrow> u64 \<Rightarrow> 'a kmem_scheme \<Rightarrow> bool" where
  \<comment> \<open>\<open>t\<close> is \<open>s\<close> with the free page \<open>r\<close> taken off its list, possibly after a steal\<close>
  "takes_page s F r t \<longleftrightarrow> r \<in> listed F \<and>
     (\<exists>m f F'. t = s\<lparr>mem := m, freelist := f\<rparr> \<and> lists_ok t F' \<and> listed F' = listed F - {r} \<and>
        (\<forall>a. (\<forall>p \<in> listed F. \<not> in_range a p PGSIZE) \<longrightarrow> m a = mem s a))"

lemma push_off_simps [simp]:
  "mem (push_off s) = mem s" "freelist (push_off s) = freelist s" "kend (push_off s) = kend s"
  "cpuid (push_off s) = cpuid s" "lk (push_off s) = lk s" "ref_cnt (push_off s) = ref_cnt s"
  by (simp_all add: push_off_def)

lemma lists_ok_push_off [simp]: "lists_ok (push_off s) F = lists_ok s F"
  by (simp add: lists_ok_def page_ok_def)

lemma takes_own:
  assumes ok: "lists_ok s F" and idle: "cpu_idle s" and ne: "F (cpuid s) \<noteq> []"
  shows "\<exists>r t. kalloc_lists s = Some (r, t) \<and> takes_page s F r t"
proof -
  let ?i = "cpuid s"
  have i: "?i < NCPU" using idle by (rule cpu_idleD)
  obtain r xs where F: "F ?i = r # xs" using ne by (cases "F ?i") auto
  let ?f = "(freelist s)(?i := ld64 (mem s) r)"
  have fl: "freelist s ?i = r" "r \<noteq> 0" "flist (mem s) (ld64 (mem s) r) xs"
    using lists_okD(2) [OF ok i] F by auto
  have r: "r \<in> listed F" using F i by (force simp: listed_def)
  have "lists_ok (s\<lparr>freelist := ?f\<rparr>) (F(?i := xs))"
  proof (rule lists_okI)
    have sub: "x \<in> set ((F(?i := xs)) k) \<Longrightarrow> x \<in> set (F k)" for x k
      using F by (auto split: if_splits)
    show "False" if "k < NCPU" "l < NCPU" "k \<noteq> l" "x \<in> set ((F(?i := xs)) k)" "x \<in> set ((F(?i := xs)) l)"
      for k l x using lists_okD(6) [OF ok that(1-3)] that(4,5) sub by blast
    show "page_ok (s\<lparr>freelist := ?f\<rparr>) x" if "k < NCPU" "x \<in> set ((F(?i := xs)) k)" for k x
      using lists_okD(4) [OF ok that(1)] sub [OF that(2)] by simp
  qed (use lists_okD(1-3) [OF ok] lists_okD(3) [OF ok i] F fl in auto)
  moreover have "listed (F(?i := xs)) = listed F - {r}"
  proof -
    have "r \<notin> set xs" using lists_okD(3) [OF ok i] F by auto
    moreover have "r \<notin> others {?i} F" using lists_okD(6) [OF ok i, of _ r] F by (auto simp: others_def)
    ultimately show ?thesis unfolding listed_upd1 [OF i] listed_split(1) [OF i, of F] F by auto
  qed
  ultimately have "takes_page s F r (s\<lparr>freelist := ?f\<rparr>)"
    unfolding takes_page_def using r
    by (intro conjI exI [of _ "mem s"] exI [of _ ?f] exI [of _ "F(?i := xs)"]) simp_all
  then show ?thesis using kalloc_lists_own [of s] cpu_idleD(4) [OF idle] fl by auto
qed

lemma takes_steal:
  assumes ok: "lists_ok s F" and i: "i < NCPU" "F i = []" and v: "v < NCPU" "v \<noteq> i" "F v \<noteq> []"
    and st: "ksteal (freelist s v) (mem s) = Some (rest, m)"
  defines "f \<equiv> (freelist s)(v := rest, i := ld64 m (hd (F v)))"
  shows "takes_page s F (hd (F v)) (s\<lparr>mem := m, freelist := f\<rparr>)"
proof -
  let ?h = "(length (F v) + 1) div 2"
  let ?slow = "F v ! (?h - 1)"
  note al = lists_okD(5) [OF ok]
  have spl: "flist m (freelist s v) (take ?h (F v))" "flist m rest (drop ?h (F v))"
      "m = st64 ?slow 0 (mem s)"
    using ksteal_spec [OF lists_okD(2) [OF ok v(1)] v(3) lists_okD(3) [OF ok v(1)] al [OF v(1)]] st
    by auto
  obtain r xs where F: "F v = r # xs" using v(3) by (cases "F v") auto
  obtain ys where ys: "take ?h (F v) = r # ys" using F by auto
  have split: "r # ys @ drop ?h (F v) = F v" using append_take_drop_id [of ?h "F v"] by (simp only: ys append_Cons)
  have fl: "flist m (ld64 m r) ys" using spl(1) unfolding ys by simp
  have dist: "distinct (r # ys @ drop ?h (F v))" using lists_okD(3) [OF ok v(1)] by (simp only: split)
  have sets: "set (F v) = insert r (set ys \<union> set (drop ?h (F v)))" by (subst split [symmetric]) simp
  have slow: "?slow \<in> set (F v)" by (rule nth_mem) (use F in simp)
  have other: "flist m (freelist s k) (F k)" if k: "k < NCPU" "k \<noteq> v" for k
    using lists_okD(6) [OF ok v(1) k(1) _ slow] k al [OF k(1)] al [OF v(1) slow]
    by (intro flist_page_write [OF lists_okD(2) [OF ok k(1)], of ?slow])
      (auto simp: spl(3) in_range_def PGSIZE_def intro!: st64_frame)
  let ?F = "F(v := drop ?h (F v), i := ys)"
  have own: "x \<in> set (?F k) \<Longrightarrow> x \<in> set (F (if k = i then v else k))" for x k
    using sets v(2) by (auto split: if_splits)
  have "lists_ok (s\<lparr>mem := m, freelist := f\<rparr>) ?F"
  proof (rule lists_okI)
    show "flist (mem (s\<lparr>mem := m, freelist := f\<rparr>)) (freelist (s\<lparr>mem := m, freelist := f\<rparr>) k) (?F k)"
      if "k < NCPU" for k using that fl F spl(2) other v(2) by (simp add: f_def)
    show "distinct (?F k)" if "k < NCPU" for k using dist lists_okD(3) [OF ok that] by simp
    show False if "k < NCPU" "l < NCPU" "k \<noteq> l" "x \<in> set (?F k)" "x \<in> set (?F l)" for k l x
    proof (cases "(if k = i then v else k) = (if l = i then v else l)")
      case True
      then have "x \<in> set ys \<and> x \<in> set (drop ?h (F v))" using that(3-5) v(2) by (auto split: if_splits)
      then show ?thesis using dist by auto
    next
      case False
      then show ?thesis
        using lists_okD(6) [OF ok _ _ False own [OF that(4)]] own [OF that(5)] that(1,2) v(1)
        by (meson if_split)
    qed
    show "page_ok (s\<lparr>mem := m, freelist := f\<rparr>) x" if "k < NCPU" "x \<in> set (?F k)" for k x
      using own [OF that(2)] lists_okD(4) [OF ok] that(1) v(1) by (simp split: if_splits)
  qed (use lists_okD(1) [OF ok] in simp)
  moreover have "listed ?F = listed F - {r}"
  proof -
    have "r \<notin> others {i, v} F" using lists_okD(6) [OF ok v(1), of _ r] F by (auto simp: others_def)
    then show ?thesis
      unfolding listed_upd2 [OF i(1) v(1,2)] listed_split(2) [OF i(1) v(1,2), of F] i(2) sets
      using dist by auto
  qed
  moreover have "m a = mem s a" if "\<forall>p \<in> listed F. \<not> in_range a p PGSIZE" for a
  proof -
    have "\<not> in_range a ?slow PGSIZE" using that slow v(1) unfolding listed_def by blast
    then have "\<not> in_range a ?slow 8" using in_range_mono [of a ?slow 8 PGSIZE] by (auto simp: PGSIZE_def)
    then show ?thesis unfolding spl(3) by (rule st64_frame)
  qed
  moreover have "r \<in> listed F" using F v(1) by (force simp: listed_def)
  ultimately show ?thesis unfolding takes_page_def using F
    by (intro conjI exI [of _ m] exI [of _ f] exI [of _ ?F]) simp_all
qed

theorem kalloc_lists_spec:
  assumes ok: "lists_ok s F" and idle: "cpu_idle s"
  shows "(\<exists>r t. kalloc_lists s = Some (r, t) \<and> r \<noteq> 0 \<and> takes_page s F r t) \<or>
         (kalloc_lists s = Some (0, s) \<and> listed F = {})"
proof -
  let ?i = "cpuid s"
  have i: "?i < NCPU" and free: "lk s (KmemLock ?i) = None" using idle by (simp_all add: cpu_idleD)
  have nz: "r \<noteq> 0" if "takes_page s F r t" for r t
    using that lists_okD(1) [OF ok] ok unfolding takes_page_def lists_ok_def by (auto dest: page_ok_nonzero)
  show ?thesis
  proof (cases "F ?i = []")
    case False
    then show ?thesis using takes_own [OF ok idle] nz by blast
  next
    case True
    then have empty: "freelist s ?i = 0" using lists_okD(2) [OF ok i] by simp
    let ?s = "push_off s"
    have ok': "lists_ok ?s F" using ok by simp
    consider (hit) v where "steals_from ?i NCPU 0 F ?s v"
      | (none) "kalloc_steal ?i NCPU 0 0 ?s = Some (0, ?s)" "\<forall>v \<in> {0..<0 + NCPU} - {?i}. F v = []"
      using kalloc_steal_spec [OF ok', of ?i 0 NCPU] cpu_idleD(4) [OF idle] by auto
    then show ?thesis
    proof cases
      case hit
      then obtain rest m where v: "v < NCPU" "v \<noteq> ?i" "F v \<noteq> []" and st: "ksteal (freelist s v) (mem s) = Some (rest, m)"
        and al: "kalloc_steal ?i NCPU 0 0 ?s = Some (hd (F v), ?s\<lparr>mem := m, freelist := (freelist s)(v := rest)\<rparr>)"
        by (auto simp: steals_from_def)
      note tk = takes_steal [OF ok i True v st]
      show ?thesis using tk kalloc_lists_steal(1) [OF free empty al nz [OF tk]] nz [OF tk] by blast
    next
      case none
      then have "listed F = {}" using True by (auto simp: listed_def)
      moreover have "kalloc_lists s = Some (0, s)"
        using kalloc_lists_steal(2) [OF free empty, of 0 "freelist s" "mem s"] none(1) by simp
      ultimately show ?thesis by blast
    qed
  qed
qed

lemma avail_take:
  assumes "KERNBASE \<le> kend s" "r \<in> avail s" "0 < n"
  shows "avail (s\<lparr>mem := m, freelist := f, ref_cnt := (ref_cnt s)(COW_REFIDX r := n)\<rparr>) = avail s - {r}"
  using assms COW_REFIDX_inj [OF assms(1), of _ r] by (auto simp: avail_def)

definition page_grant :: "'a kmem_scheme \<Rightarrow> u64 \<Rightarrow> 'a kmem_scheme \<Rightarrow> bool" where
  \<comment> \<open>\<open>t\<close> is \<open>s\<close> after a free page \<open>r\<close> was handed out: its count is 1, it holds junk, and no
      byte outside the free pages has changed\<close>
  "page_grant s r t \<longleftrightarrow> r \<in> avail s \<and> avail t = avail s - {r} \<and> kinv t \<and>
     (\<exists>m f. t = s\<lparr>mem := m, freelist := f, ref_cnt := (ref_cnt s)(COW_REFIDX r := 1)\<rparr> \<and>
        (\<forall>a. in_range a r PGSIZE \<longrightarrow> m a = 5) \<and>
        (\<forall>a. (\<forall>p \<in> avail s. \<not> in_range a p PGSIZE) \<longrightarrow> m a = mem s a))"

lemma kincget_eq:
  "lk s RefLock = None \<Longrightarrow> COW_REFIDX p < NREF \<Longrightarrow>
     kincget p s = Some (ref_cnt s (COW_REFIDX p) + 1,
       s\<lparr>ref_cnt := (ref_cnt s)(COW_REFIDX p := ref_cnt s (COW_REFIDX p) + 1)\<rparr>)"
  by (simp add: kincget_def kernel_simps Let_def fun_upd_idem)

lemma kalloc_grants:
  assumes inv: "kinv s" and idle: "cpu_idle s" and ne: "avail s \<noteq> {}"
  shows "\<exists>r t. kalloc swapper s = Some (r, t) \<and> page_grant s r t"
proof -
  obtain F where F: "lists_ok s F" "listed F = avail s" using inv by (auto simp: kinv_def)
  obtain r t where al: "kalloc_lists s = Some (r, t)" "r \<noteq> 0" and tk: "takes_page s F r t"
    using kalloc_lists_spec [OF F(1) idle] ne F(2) by auto
  obtain m f F' where t: "t = s\<lparr>mem := m, freelist := f\<rparr>" and F': "lists_ok t F'" "listed F' = avail s - {r}"
      and fr: "\<And>a. \<forall>p \<in> avail s. \<not> in_range a p PGSIZE \<Longrightarrow> m a = mem s a"
      and r: "r \<in> avail s"
    using tk F(2) by (auto simp: takes_page_def)
  let ?m = "mem_set r 5 PGSIZE m"
  let ?u = "s\<lparr>mem := ?m, freelist := f, ref_cnt := (ref_cnt s)(COW_REFIDX r := 1)\<rparr>"
  have K: "KERNBASE \<le> kend s" using F(1) by (rule lists_okD)
  have rok: "page_ok s r" and r0: "ref_cnt s (COW_REFIDX r) = 0" using r by (auto simp: avail_def)
  have "kincget r t = Some (1, s\<lparr>mem := m, freelist := f, ref_cnt := (ref_cnt s)(COW_REFIDX r := 1)\<rparr>)"
    using kincget_eq [of t r] cpu_idleD(2) [OF idle] COW_REFIDX_bound [OF K rok] r0 by (simp add: t)
  then have "kalloc swapper s = Some (r, ?u)" using al by (simp add: kalloc_def)
  moreover have "lists_ok ?u F'"
  proof -
    have "lists_ok (t\<lparr>mem := ?m\<rparr>) F'"
      using F'(1) by (rule lists_ok_page_write) (use rok F'(2) in \<open>auto simp: t mem_set_def in_range_def\<close>)
    then show ?thesis by (simp add: t lists_ok_def page_ok_def)
  qed
  moreover have av: "avail ?u = avail s - {r}" using K r by (rule avail_take) simp
  ultimately have "kinv ?u" using F'(2) by (auto simp: kinv_def)
  moreover have "?m a = mem s a" if "\<forall>p \<in> avail s. \<not> in_range a p PGSIZE" for a
    using fr [OF that] that r by (auto simp: mem_set_def in_range_def)
  ultimately have "page_grant s r ?u" unfolding page_grant_def using r av
    by (intro conjI exI [of _ ?m] exI [of _ f]) (auto simp: mem_set_def in_range_def)
  then show ?thesis using \<open>kalloc swapper s = Some (r, ?u)\<close> by blast
qed

lemma kalloc_exhausted:
  assumes "kinv s" "cpu_idle s" "avail s = {}" "swapper s = Some (0, t)"
  shows "kalloc swapper s = Some (0, t)"
proof -
  obtain F where F: "lists_ok s F" "listed F = {}" using assms by (auto simp: kinv_def)
  have "kalloc_lists s = Some (0, s)"
    using kalloc_lists_spec [OF F(1) assms(2)] F(2) by (auto simp: takes_page_def)
  then show ?thesis using assms(4) by (simp add: kalloc_def)
qed

section \<open>Counting\<close>

lemma freelist_length_eq: "flist m p xs \<Longrightarrow> freelist_length m p n = Some (n + length xs)"
proof (induction xs arbitrary: p n)
  case Nil
  then show ?case by (subst freelist_length.simps) simp
next
  case (Cons x xs)
  then show ?case by (subst freelist_length.simps) simp
qed

lemma count_kmems_eq:
  "lists_ok s F \<Longrightarrow> j \<le> NCPU \<Longrightarrow> count_kmems j s = Some (\<Sum>i < j. length (F i))"
  by (induction j) (auto simp: freelist_length_eq lists_okD)

lemma listed_card:
  assumes ok: "lists_ok s F" and j: "j \<le> NCPU"
  shows "card (\<Union>i < j. set (F i)) = (\<Sum>i < j. length (F i))"
proof -
  have "card (\<Union>i < j. set (F i)) = (\<Sum>i < j. card (set (F i)))"
    using lists_okD(6) [OF ok] j by (intro card_UN_disjoint) (auto, meson less_le_trans)
  also have "\<dots> = (\<Sum>i < j. length (F i))"
    using lists_okD(3) [OF ok] j by (intro sum.cong) (auto simp: distinct_card)
  finally show ?thesis .
qed

lemma acquire_kmems_eq:
  assumes "\<And>i. lk s (KmemLock i) = None"
  shows "acquire_kmems n s = Some (s\<lparr>noff := n + noff s,
     lk := (\<lambda>l. case l of KmemLock i \<Rightarrow> if i < n then Some (cpuid s) else None | _ \<Rightarrow> lk s l)\<rparr>)"
proof (induction n)
  case 0
  have eq: "(\<lambda>l. case l of KmemLock i \<Rightarrow> if i < 0 then Some (cpuid s) else None | _ \<Rightarrow> lk s l) = lk s"
    using assms by (auto simp: fun_eq_iff split: lockid.splits)
  show ?case unfolding eq by simp
next
  case (Suc n)
  then show ?case by (simp add: acquire_free) (auto simp: fun_eq_iff split: lockid.splits)
qed

lemma release_kmems_eq:
  assumes "\<And>i. i < n \<Longrightarrow> lk s (KmemLock i) = Some (cpuid s)" "n \<le> noff s"
  shows "release_kmems n s = Some (s\<lparr>noff := noff s - n,
     lk := (\<lambda>l. case l of KmemLock i \<Rightarrow> if i < n then None else lk s l | _ \<Rightarrow> lk s l)\<rparr>)"
  using assms
proof (induction n)
  case 0
  have eq: "(\<lambda>l. case l of KmemLock i \<Rightarrow> if i < 0 then None else lk s l | _ \<Rightarrow> lk s l) = lk s"
    by (auto simp: fun_eq_iff split: lockid.splits)
  show ?case unfolding eq by simp
next
  case (Suc n)
  then show ?case by (simp add: release_held) (auto simp: fun_eq_iff split: lockid.splits)
qed

theorem kcollect_eq:
  assumes inv: "kinv s" and idle: "cpu_idle s"
  shows "kcollect s = Some (card (avail s) * PGSIZE, s)"
proof -
  obtain F where F: "lists_ok s F" "listed F = avail s" using inv by (auto simp: kinv_def)
  let ?s = "s\<lparr>noff := NCPU + noff s,
     lk := (\<lambda>l. case l of KmemLock i \<Rightarrow> if i < NCPU then Some (cpuid s) else None | _ \<Rightarrow> lk s l)\<rparr>"
  have a: "acquire_kmems NCPU s = Some ?s" using idle by (intro acquire_kmems_eq) (rule cpu_idleD)
  have "lists_ok ?s F" using F(1) by (simp add: lists_ok_def page_ok_def)
  then have c: "count_kmems NCPU ?s = Some (card (avail s))"
    using count_kmems_eq [of ?s F NCPU] listed_card [OF F(1), of NCPU] F(2)
    by (simp add: listed_def atLeast0LessThan)
  have "(\<lambda>l. case l of KmemLock i \<Rightarrow> if i < NCPU then None else lk ?s l | _ \<Rightarrow> lk ?s l) = lk s"
    using cpu_idleD(4) [OF idle] by (auto simp: fun_eq_iff split: lockid.splits)
  then have r: "release_kmems NCPU ?s = Some s" using release_kmems_eq [of NCPU ?s] by simp
  show ?thesis unfolding kcollect_def a using c r by simp
qed

section \<open>Copy on write\<close>

lemma kalloc_cow_last:
  assumes "lk s RefLock = None" "ref_cnt s (COW_REFIDX (PTE2PA (ld64 (mem s) pte))) = 1"
    and "COW_REFIDX (PTE2PA (ld64 (mem s) pte)) < NREF"
  shows "kalloc_cow swapper pte s =
    Some (PTE2PA (ld64 (mem s) pte), s\<lparr>mem := st64 pte (PTE_DECOW (ld64 (mem s) pte)) (mem s)\<rparr>)"
  using assms by (simp add: kalloc_cow_def kernel_simps Let_def fun_upd_idem)

lemma kalloc_cow_shared:
  assumes "lk s RefLock = None" "COW_REFIDX pa < NREF"
    and n: "ref_cnt s (COW_REFIDX pa) = n" "1 < n" and pa: "pa = PTE2PA (ld64 (mem s) pte)"
  shows "kalloc_cow swapper pte s = do {
     (r, t) \<leftarrow> kalloc swapper (s\<lparr>ref_cnt := (ref_cnt s)(COW_REFIDX pa := n - 1)\<rparr>);
     (if r = 0 then do { (k, t) \<leftarrow> kincget pa t; Some (r, t) } else Some (r, t)) }"
  unfolding pa using assms(1,2) n unfolding pa
  by (simp add: kalloc_cow_def kernel_simps Let_def fun_upd_idem)

end
