(* ===== verification/KallocProps.thy ===== *)
theory KallocProps
  imports Kalloc
begin

text \<open>
  Properties of the page allocator: booting (\<open>kinit\<close>), the super-page list, and the
  interface \<open>page_allocator\<close> that both the page lists and the super-page list provide.
\<close>

section \<open>Rounding\<close>

lemma and_not_4095: "(x :: u64) AND NOT (4096 - 1) = x - take_bit 12 x"
proof -
  have m: "(4096 - 1 :: u64) = mask 12" by (simp add: mask_eq_exp_minus_1)
  have "x AND NOT (4096 - 1) = push_bit 12 (drop_bit 12 x)"
  proof (rule bit_word_eqI)
    fix n assume "n < LENGTH(64)"
    then show "bit (x AND NOT (4096 - 1)) n \<longleftrightarrow> bit (push_bit 12 (drop_bit 12 x)) n"
      unfolding m bit_and_iff bit_not_iff bit_mask_iff bit_push_bit_iff bit_drop_bit_eq o_apply
      by (cases "12 \<le> n") auto
  qed
  moreover have "push_bit 12 (drop_bit 12 x) + take_bit 12 x = x" by (rule bits_ident)
  ultimately show ?thesis by (simp add: eq_diff_eq)
qed

lemma unat_PGROUNDDOWN: "unat (PGROUNDDOWN x) = unat x - unat x mod 4096"
proof -
  have tb: "unat (take_bit 12 x) = unat x mod 4096" 
    by (subst unsigned_take_bit_eq) (simp add: take_bit_eq_mod)
  then have "take_bit 12 x \<le> x" unfolding word_le_nat_alt by simp
  then show ?thesis unfolding PGROUNDDOWN_def and_not_4095 by (simp only: unat_sub tb)
qed

lemma PGROUNDUP_eq: "PGROUNDUP sz = PGROUNDDOWN (sz + 4095)"
proof -
  have "sz + 4096 - 1 = sz + 4095" by simp
  then show ?thesis unfolding PGROUNDUP_def PGROUNDDOWN_def by (rule arg_cong)
qed

lemma unat_PGROUNDUP:
  assumes "unat x + 4095 < 2 ^ 64"
  shows "unat (PGROUNDUP x) = (unat x + 4095) div 4096 * 4096"
proof -
  have "unat (x + 4095) = unat x + 4095" using assms by (subst unat_add_lem [THEN iffD1]) simp_all
  then show ?thesis by (simp add: PGROUNDUP_eq unat_PGROUNDDOWN minus_mod_eq_div_mult)
qed

section \<open>Booting\<close>

definition pages_between :: "'a kmem_scheme \<Rightarrow> u64 \<Rightarrow> u64 \<Rightarrow> u64 set" where
  "pages_between s p e = {q. page_ok s q \<and> p \<le> q \<and> q < e}"

lemma unat_add_4096: "unat (p :: u64) + 4096 < 2 ^ 64 \<Longrightarrow> unat (p + 4096) = unat p + 4096"
  by (subst unat_add_lem [THEN iffD1]) simp_all

lemma COW_REFIDX_next:
  assumes "KERNBASE \<le> p" "p < PHYSTOP"
  shows "COW_REFIDX (p + 4096) = Suc (COW_REFIDX p)"
proof -
  have u: "2147483648 \<le> unat p" "unat p < 2281701376"
    using assms by (simp_all add: PHYSTOP_eq word_le_nat_alt word_less_nat_alt)
  then have n: "unat (p + 4096) = unat p + 4096" by (intro unat_add_4096) simp
  then have "KERNBASE \<le> p + 4096" using u by (simp add: PHYSTOP_eq word_le_nat_alt)
  then show ?thesis using u assms(1) by (simp add: COW_REFIDX_eq n)
qed

lemma pages_between_step:
  assumes "page_ok s p" "KERNBASE \<le> kend s"
  shows "pages_between s p PHYSTOP = insert p (pages_between s (p + 4096) PHYSTOP)"
proof -
  note u = page_ok_unat [OF assms(2,1)]
  have n: "unat (p + 4096) = unat p + 4096" using u by (intro unat_add_4096) simp
  have "p = q \<or> p + 4096 \<le> q" if q: "page_ok s q" "p \<le> q" for q
  proof -
    note v = page_ok_unat [OF assms(2) q(1)]
    obtain a b where "unat p = 4096 * a" "unat q = 4096 * b" using u v by (metis mod_0_imp_dvd dvd_def)
    then show ?thesis using q(2) n by (auto simp: word_le_nat_alt word_unat_eq_iff)
  qed
  moreover have "p \<le> p + 4096" by (simp add: word_le_nat_alt n)
  moreover have "p < PHYSTOP" using assms(1) unfolding page_ok_def by blast
  ultimately show ?thesis using assms(1) unfolding pages_between_def by (auto intro: order_trans)
qed

lemma freerange_loop_spec:
  assumes "page_aligned p" "kend s \<le> p" "unat PHYSTOP - unat p = 4096 * n" "p \<le> PHYSTOP"
    and "cpu_idle s" "lists_ok s F" "\<And>q. q \<in> listed F \<Longrightarrow> q < p"
  shows "\<exists>t F'. freerange_loop p (COW_REFIDX p) PHYSTOP s = Some t \<and> lists_ok t F' \<and>
    listed F' = listed F \<union> pages_between s p PHYSTOP \<and> same_cpu s t \<and>
    super_freelist t = super_freelist s \<and>
    (\<forall>q. page_ok s q \<longrightarrow> ref_cnt t (COW_REFIDX q) =
       (if q \<in> pages_between s p PHYSTOP then 0 else ref_cnt s (COW_REFIDX q)))"
  using assms
proof (induction n arbitrary: p s F)
  case 0
  then have "p = PHYSTOP" by (simp add: word_le_nat_alt word_unat_eq_iff)
  moreover have "\<not> PHYSTOP + 4096 \<le> PHYSTOP" by (simp add: PHYSTOP_eq)
  moreover have "pages_between s PHYSTOP PHYSTOP = {}" by (auto simp: pages_between_def)
  ultimately show ?case using "0.prems"
    by (intro exI [of _ s] exI [of _ F]) (subst freerange_loop.simps, simp add: same_cpu_def)
next
  case (Suc n)
  note K = lists_okD(1) [OF Suc.prems(6)]
  have "4096 \<le> unat PHYSTOP - unat p" using Suc.prems(3) by simp
  then have "unat p + 4096 \<le> unat PHYSTOP" by linarith
  then have n: "unat (p + 4096) = unat p + 4096" and less: "p < PHYSTOP"
    by (auto simp: PHYSTOP_eq word_less_nat_alt intro: unat_add_4096)
  have le: "p + 4096 \<le> PHYSTOP" using Suc.prems(3) n by (simp add: word_le_nat_alt)
  have pok: "page_ok s p" using Suc.prems(1,2) less by (simp add: page_ok_def page_aligned_iff)
  let ?s = "s\<lparr>ref_cnt := (ref_cnt s)(COW_REFIDX p := 1)\<rparr>"
  let ?F = "F(cpuid s := p # F (cpuid s))"
  have idle: "cpu_idle ?s" using Suc.prems(5) by (simp add: cpu_idle_def)
  have free: "kfree p ?s = Some (freed p ?s)" using idle pok by (intro kfree_eq) simp_all
  have pn: "p \<notin> listed F" using Suc.prems(7) by blast
  have ok: "lists_ok (freed p ?s) ?F"
  proof -
    have "lists_ok ?s F" using Suc.prems(6) by (simp add: lists_ok_def)
    from lists_ok_freed [OF this _ _ pn] show ?thesis using pok cpu_idleD(1) [OF idle] by simp
  qed
  have listed: "listed ?F = insert p (listed F)" using Suc.prems(5) by (intro listed_push cpu_idleD(1))
  have same: "page_ok (freed p ?s) = page_ok s" by (simp add: page_ok_def fun_eq_iff)
  have "\<exists>t F'. freerange_loop (p + 4096) (COW_REFIDX (p + 4096)) PHYSTOP (freed p ?s) = Some t \<and> lists_ok t F' \<and>
    listed F' = listed ?F \<union> pages_between (freed p ?s) (p + 4096) PHYSTOP \<and> same_cpu (freed p ?s) t \<and>
    super_freelist t = super_freelist (freed p ?s) \<and>
    (\<forall>q. page_ok (freed p ?s) q \<longrightarrow> ref_cnt t (COW_REFIDX q) =
       (if q \<in> pages_between (freed p ?s) (p + 4096) PHYSTOP then 0 else ref_cnt (freed p ?s) (COW_REFIDX q)))"
  proof (rule Suc.IH)
    show "page_aligned (p + 4096)" using Suc.prems(1) n by (simp add: page_aligned_def PGSIZE_def)
    show "kend (freed p ?s) \<le> p + 4096" using Suc.prems(2) n by (simp add: word_le_nat_alt)
    show "unat PHYSTOP - unat (p + 4096) = 4096 * n" unfolding n using Suc.prems(3) by simp
    show "cpu_idle (freed p ?s)" using idle freed_simps(2) [of ?s p] by (simp add: cpu_idle_def same_cpu_def)
    show "q < p + 4096" if "q \<in> listed ?F" for q
      using that Suc.prems(7) [of q] n unfolding listed by (auto simp: word_less_nat_alt)
  qed (fact le ok)+
  then obtain t F' where t: "freerange_loop (p + 4096) (COW_REFIDX (p + 4096)) PHYSTOP (freed p ?s) = Some t"
    "lists_ok t F'" "listed F' = listed ?F \<union> pages_between s (p + 4096) PHYSTOP" "same_cpu (freed p ?s) t"
    "super_freelist t = super_freelist (freed p ?s)"
    "\<And>q. page_ok s q \<Longrightarrow> ref_cnt t (COW_REFIDX q) =
       (if q \<in> pages_between s (p + 4096) PHYSTOP then 0 else ref_cnt (freed p ?s) (COW_REFIDX q))"
    by (auto simp: same pages_between_def)
  have "freerange_loop p (COW_REFIDX p) PHYSTOP s = Some t"
    using le free t(1) COW_REFIDX_next [OF order_trans [OF K Suc.prems(2)] less]
    by (subst freerange_loop.simps) simp
  moreover have "listed F' = listed F \<union> pages_between s p PHYSTOP"
    by (simp add: t(3) listed pages_between_step [OF pok K])
  moreover have "same_cpu s t" "super_freelist t = super_freelist s"
    using t(4,5) by (simp_all add: same_cpu_def freed_def)
  moreover have "ref_cnt t (COW_REFIDX q) =
       (if q \<in> pages_between s p PHYSTOP then 0 else ref_cnt s (COW_REFIDX q))" if "page_ok s q" for q
    using t(6) [OF that] COW_REFIDX_inj [OF K that pok] by (auto simp: pages_between_step [OF pok K])
  ultimately show ?case using t(2) by blast
qed

section \<open>Super pages\<close>

definition suppage_ok :: "u64 \<Rightarrow> bool" where
  "suppage_ok p \<longleftrightarrow> p mod 2097152 = 0 \<and> PHYSTOP \<le> p \<and> p < PHYSTOP_INCLUDESUPPG"

lemma suppage_ok_iff: "suppage_ok p \<longleftrightarrow> p = PHYSTOP \<or> p = PHYSTOP + 2097152"
proof
  assume ok: "suppage_ok p"
  then have "unat p mod 2097152 = 0" by (simp add: suppage_ok_def word_unat_eq_iff unat_mod)
  then obtain k where k: "unat p = 2097152 * k" by (metis mod_0_imp_dvd dvd_def)
  have "unat PHYSTOP \<le> unat p" "unat p < unat PHYSTOP_INCLUDESUPPG"
    using ok by (simp_all add: suppage_ok_def word_le_nat_alt word_less_nat_alt)
  then have "k = 1088 \<or> k = 1089" using k by (auto simp: PHYSTOP_eq PHYSTOP_INCLUDESUPPG_def)
  then show "p = PHYSTOP \<or> p = PHYSTOP + 2097152" using k by (auto simp: PHYSTOP_eq word_unat_eq_iff)
qed (auto simp: suppage_ok_def PHYSTOP_eq PHYSTOP_INCLUDESUPPG_def)

definition sup_list :: "'a kmem_scheme \<Rightarrow> u64 list \<Rightarrow> bool" where
  "sup_list s ps \<longleftrightarrow> flist (mem s) (super_freelist s) ps \<and> distinct ps \<and> (\<forall>p \<in> set ps. suppage_ok p)"

definition sup_free :: "'a kmem_scheme \<Rightarrow> u64 set" where
  "sup_free s = {p. \<exists>ps. sup_list s ps \<and> p \<in> set ps}"

definition sup_inv :: "'a kmem_scheme \<Rightarrow> bool" where
  "sup_inv s \<longleftrightarrow> cpu_idle s \<and> (\<exists>ps. sup_list s ps)"

lemma sup_free_eq: "sup_list s ps \<Longrightarrow> sup_free s = set ps"
  unfolding sup_free_def sup_list_def using flist_unique by blast

lemma suppages_apart:
  assumes "suppage_ok p" "suppage_ok q" "p \<noteq> q"
  shows "ranges_disjoint p SUPPGSIZE q 8"
  unfolding ranges_disjoint_def
proof (intro allI impI notI)
  fix i j assume ij: "i < SUPPGSIZE" "j < (8 :: nat)" and eq: "p + of_nat i = q + of_nat j"
  have u: "unat (x + of_nat k) = unat x + k" if "suppage_ok x" "k < SUPPGSIZE" for x k
    using that by (auto simp: suppage_ok_iff PHYSTOP_eq SUPPGSIZE_def unat_word_ariths)
  have "unat p + i = unat q + j" using u [OF assms(1) ij(1)] u [OF assms(2), of j] ij eq by (simp add: SUPPGSIZE_def)
  then show False using assms ij by (auto simp: suppage_ok_iff PHYSTOP_eq SUPPGSIZE_def)
qed

lemma sup_list_write:
  assumes sl: "sup_list s ps" and p: "suppage_ok p" "p \<notin> set ps"
    and m: "\<And>a. \<not> in_range a p SUPPGSIZE \<Longrightarrow> m a = mem s a"
  shows "flist m (super_freelist s) ps"
proof (rule flist_cong [THEN iffD1])
  show "flist (mem s) (super_freelist s) ps" using sl by (simp add: sup_list_def)
  fix x assume x: "x \<in> set ps"
  have "ranges_disjoint p SUPPGSIZE x 8" using sl x p by (intro suppages_apart) (auto simp: sup_list_def)
  then have "m (x + of_nat k) = mem s (x + of_nat k)" if "k < 8" for k
    using that m word_diff_lt_imp [of "x + of_nat k" p SUPPGSIZE]
    unfolding in_range_def ranges_disjoint_def by metis
  then show "ld64 (mem s) x = ld64 m x"
    unfolding ld64_def by (intro arg_cong [where f = of_nat] ldn_cong) simp
qed

lemma suppage_nonzero: "suppage_ok p \<Longrightarrow> p \<noteq> 0"
  by (auto simp: suppage_ok_iff PHYSTOP_eq)

lemma kfree_suppage_spec:
  assumes idle: "cpu_idle s" and sl: "sup_list s ps" and p: "suppage_ok p" "p \<notin> set ps"
  shows "\<exists>m. kfree_suppage p s = Some (s\<lparr>mem := m, super_freelist := p\<rparr>) \<and>
     sup_list (s\<lparr>mem := m, super_freelist := p\<rparr>) (p # ps) \<and>
     (\<forall>a. \<not> in_range a p SUPPGSIZE \<longrightarrow> m a = mem s a)"
proof (intro exI conjI allI impI)
  let ?m = "st64 p (super_freelist s) (mem_set p 1 SUPPGSIZE (mem s))"
  have c: "\<not> (p mod 2097152 \<noteq> 0 \<or> p < PHYSTOP \<or> p \<ge> PHYSTOP_INCLUDESUPPG)"
    using p(1) unfolding suppage_ok_def by auto
  show "kfree_suppage p s = Some (s\<lparr>mem := ?m, super_freelist := p\<rparr>)"
    unfolding kfree_suppage_def if_not_P [OF c] using cpu_idleD(3) [OF idle]
    by (simp add: kernel_simps Let_def fun_upd_idem)
  show fr: "?m a = mem s a" if "\<not> in_range a p SUPPGSIZE" for a
    using that by (auto simp: st64_frame mem_set_def in_range_def SUPPGSIZE_def)
  show "sup_list (s\<lparr>mem := ?m, super_freelist := p\<rparr>) (p # ps)"
    using sup_list_write [OF sl p fr] sl p suppage_nonzero [OF p(1)] by (simp add: sup_list_def)
qed

lemma kalloc_suppage_spec:
  assumes idle: "cpu_idle s" and sl: "sup_list s ps"
  shows "ps = [] \<Longrightarrow> kalloc_suppage s = Some (0, s)"
    and "ps = p # qs \<Longrightarrow> \<exists>m f. kalloc_suppage s = Some (p, s\<lparr>mem := m, super_freelist := f\<rparr>) \<and>
           sup_list (s\<lparr>mem := m, super_freelist := f\<rparr>) qs \<and>
           (\<forall>a. \<not> in_range a p SUPPGSIZE \<longrightarrow> m a = mem s a)"
proof -
  show "kalloc_suppage s = Some (0, s)" if "ps = []"
    using that sl cpu_idleD(3) [OF idle]
    by (simp add: kalloc_suppage_def kernel_simps Let_def fun_upd_idem sup_list_def)
  assume ps: "ps = p # qs"
  let ?m = "mem_set p 5 SUPPGSIZE (mem s)" and ?f = "ld64 (mem s) p"
  have h: "super_freelist s = p" "p \<noteq> 0" using sl ps by (auto simp: sup_list_def)
  have qs: "sup_list (s\<lparr>super_freelist := ?f\<rparr>) qs" and p: "suppage_ok p" "p \<notin> set qs"
    using sl ps by (auto simp: sup_list_def)
  have fr: "?m a = mem (s\<lparr>super_freelist := ?f\<rparr>) a" if "\<not> in_range a p SUPPGSIZE" for a
    using that by (simp add: mem_set_def in_range_def)
  have "kalloc_suppage s = Some (p, s\<lparr>mem := ?m, super_freelist := ?f\<rparr>)"
    using h cpu_idleD(3) [OF idle] by (simp add: kalloc_suppage_def kernel_simps Let_def fun_upd_idem)
  moreover have "sup_list (s\<lparr>mem := ?m, super_freelist := ?f\<rparr>) qs"
    using sup_list_write [OF qs p fr] qs by (simp add: sup_list_def)
  ultimately show "\<exists>m f. kalloc_suppage s = Some (p, s\<lparr>mem := m, super_freelist := f\<rparr>) \<and>
           sup_list (s\<lparr>mem := m, super_freelist := f\<rparr>) qs \<and>
           (\<forall>a. \<not> in_range a p SUPPGSIZE \<longrightarrow> m a = mem s a)"
    using fr by (intro exI [of _ ?m] exI [of _ ?f]) simp
qed

section \<open>Boot\<close>

definition boot_state :: "'a kmem_scheme \<Rightarrow> bool" where
  \<comment> \<open>zeroed globals: no free list, no reference count\<close>
  "boot_state s \<longleftrightarrow> (\<forall>i. freelist s i = 0) \<and> super_freelist s = 0 \<and> (\<forall>i. ref_cnt s i = 0) \<and>
     (\<forall>l. lk s l = None) \<and> cpuid s < NCPU \<and> KERNBASE \<le> kend s \<and> kend s \<le> PHYSTOP"

lemma freerange_suppage_two:
  "freerange_suppage PHYSTOP PHYSTOP_INCLUDESUPPG (s :: 'a kmem_scheme) =
     do { s \<leftarrow> kfree_suppage PHYSTOP s; kfree_suppage (PHYSTOP + 2097152) s }"
proof -
  have "freerange_suppage (PHYSTOP + 2097152 + 2097152) PHYSTOP_INCLUDESUPPG =
      (Some :: 'a kmem_scheme \<Rightarrow> 'a kmem_scheme option)"
    by (intro ext, subst freerange_suppage.simps) (simp add: PHYSTOP_eq PHYSTOP_INCLUDESUPPG_def)
  moreover have le: "PHYSTOP + 2097152 \<le> PHYSTOP_INCLUDESUPPG" "PHYSTOP + 2097152 + 2097152 \<le> PHYSTOP_INCLUDESUPPG"
    by (simp_all add: PHYSTOP_eq PHYSTOP_INCLUDESUPPG_def)
  ultimately have "freerange_suppage (PHYSTOP + 2097152) PHYSTOP_INCLUDESUPPG =
      (kfree_suppage (PHYSTOP + 2097152) :: 'a kmem_scheme \<Rightarrow> 'a kmem_scheme option)"
    by (intro ext) (subst freerange_suppage.simps, simp only: if_True Let_def bind_runit)
  then show ?thesis using le(1) by (subst freerange_suppage.simps) (simp only: if_True)
qed

lemma kinv_super:
  assumes "\<And>p a. page_ok s p \<Longrightarrow> in_range a p PGSIZE \<Longrightarrow> m a = mem s a"
  shows "kinv s \<Longrightarrow> kinv (s\<lparr>mem := m, super_freelist := f\<rparr>)"
proof -
  assume "kinv s"
  then obtain F where F: "lists_ok s F" "listed F = avail s" by (auto simp: kinv_def)
  have "lists_ok (s\<lparr>mem := m, super_freelist := f\<rparr>) F"
  proof (rule lists_okI)
    fix i assume i: "i < NCPU"
    have "flist m (freelist s i) (F i)"
    proof (rule flist_cong [THEN iffD1, OF _ lists_okD(2) [OF F(1) i]])
      fix x assume x: "x \<in> set (F i)"
      have "m (x + of_nat k) = mem s (x + of_nat k)" if "k < 8" for k
        using that by (intro assms [OF lists_okD(4) [OF F(1) i x]]) (simp add: in_range_def PGSIZE_def)
      then show "ld64 (mem s) x = ld64 m x"
        unfolding ld64_def by (intro arg_cong [where f = of_nat] ldn_cong) simp
    qed
    then show "flist (mem (s\<lparr>mem := m, super_freelist := f\<rparr>)) (freelist (s\<lparr>mem := m, super_freelist := f\<rparr>) i) (F i)"
      by simp
    show "distinct (F i)" using F(1) i by (rule lists_okD)
  next
    show "KERNBASE \<le> kend (s\<lparr>mem := m, super_freelist := f\<rparr>)" using lists_okD(1) [OF F(1)] by simp
    show False if "i < NCPU" "j < NCPU" "i \<noteq> j" "x \<in> set (F i)" "x \<in> set (F j)" for i j x
      using lists_okD(6) [OF F(1) that(1-4)] that(5) by simp
    show "page_ok (s\<lparr>mem := m, super_freelist := f\<rparr>) x" if "i < NCPU" "x \<in> set (F i)" for i x
      using lists_okD(4) [OF F(1) that] by simp
  qed
  moreover have "avail (s\<lparr>mem := m, super_freelist := f\<rparr>) = avail s" by (simp add: avail_def)
  ultimately show ?thesis using F(2) unfolding kinv_def by metis
qed

lemma page_not_suppage:
  assumes "page_ok s p" "KERNBASE \<le> kend s" "suppage_ok q" "in_range a p PGSIZE"
  shows "\<not> in_range a q SUPPGSIZE"
proof
  assume "in_range a q SUPPGSIZE"
  then obtain i j where i: "a = p + of_nat i" "i < PGSIZE" and j: "a = q + of_nat j" "j < SUPPGSIZE"
    using assms(4) word_diff_lt_imp unfolding in_range_def by meson
  note u = page_ok_unat [OF assms(2,1)]
  have "unat (p + of_nat i) = unat p + i" using u i(2) by (simp add: PGSIZE_def unat_word_ariths)
  moreover have "unat (q + of_nat j) = unat q + j"
    using assms(3) j(2) by (auto simp: suppage_ok_iff PHYSTOP_eq SUPPGSIZE_def unat_word_ariths)
  moreover have "2281701376 \<le> unat q" using assms(3) by (auto simp: suppage_ok_iff PHYSTOP_eq)
  moreover obtain k where "unat p = 4096 * k" using u(1) by (metis mod_0_imp_dvd dvd_def)
  ultimately show False using i j u by (simp add: PGSIZE_def)
qed

lemma freerange_boot:
  assumes "boot_state s"
  shows "\<exists>t. freerange (kend s) PHYSTOP s = Some t \<and> kinv t \<and> same_cpu s t \<and> super_freelist t = 0 \<and>
    avail t = {p. page_ok s p}"
proof -
  note b = assms [unfolded boot_state_def]
  let ?p = "PGROUNDUP (kend s)"
  have ku: "2147483648 \<le> unat (kend s)" "unat (kend s) \<le> 2281701376"
    using b by (simp_all add: PHYSTOP_eq word_le_nat_alt)
  then have up: "unat ?p = (unat (kend s) + 4095) div 4096 * 4096" by (intro unat_PGROUNDUP) simp
  have le: "kend s \<le> ?p" and hi: "?p \<le> PHYSTOP" using ku up by (auto simp: word_le_nat_alt PHYSTOP_eq)
  have al: "page_aligned ?p" by (simp add: page_aligned_def PGSIZE_def up)
  obtain n where n: "unat PHYSTOP - unat ?p = 4096 * n"
  proof -
    have "unat PHYSTOP - unat ?p = 4096 * (557056 - (unat (kend s) + 4095) div 4096)"
      unfolding up by (simp add: PHYSTOP_eq diff_mult_distrib2)
    then show ?thesis by (rule that)
  qed
  have idle: "cpu_idle s" using b by (simp add: cpu_idle_def)
  have ok: "lists_ok s (\<lambda>_. [])" using b by (simp add: lists_ok_def listed_def)
  have none: "listed (\<lambda>_. []) = {}" by (simp add: listed_def)
  obtain t F' where t: "freerange_loop ?p (COW_REFIDX ?p) PHYSTOP s = Some t" "lists_ok t F'"
      "listed F' = listed (\<lambda>_. []) \<union> pages_between s ?p PHYSTOP" "same_cpu s t"
      "super_freelist t = super_freelist s"
      "\<And>q. page_ok s q \<Longrightarrow> ref_cnt t (COW_REFIDX q) = (if q \<in> pages_between s ?p PHYSTOP then 0 else ref_cnt s (COW_REFIDX q))"
    using freerange_loop_spec [OF al le n hi idle ok] none by auto
  have all: "pages_between s ?p PHYSTOP = {p. page_ok s p}"
  proof -
    have "?p \<le> q" if q: "page_ok s q" for q
    proof -
      obtain k where "unat q = 4096 * k"
        using page_ok_unat(1) [OF _ q] b by (metis mod_0_imp_dvd dvd_def)
      moreover have "unat (kend s) \<le> unat q" using q by (simp add: page_ok_def word_le_nat_alt)
      ultimately show ?thesis using up by (simp add: word_le_nat_alt)
    qed
    moreover have "q < PHYSTOP" if "page_ok s q" for q using that by (simp add: page_ok_def)
    ultimately show ?thesis unfolding pages_between_def by blast
  qed
  have "page_ok t = page_ok s" using t(4) by (simp add: same_cpu_def page_ok_def fun_eq_iff)
  then have av: "avail t = {p. page_ok s p}" using t(6) b by (auto simp: avail_def all)
  then have "kinv t" using t(2,3) all none unfolding kinv_def by auto
  then show ?thesis using t av b by (auto simp: freerange_def Let_def)
qed

definition kinit_locks :: "'a kmem_scheme \<Rightarrow> 'a kmem_scheme" where
  "kinit_locks s = s\<lparr>lk := (\<lambda>l. case l of RefLock \<Rightarrow> None | SupLock \<Rightarrow> None
     | KmemLock i \<Rightarrow> if i < NCPU then None else lk s l | _ \<Rightarrow> lk s l)\<rparr>"

lemma kinit_boot:
  assumes "boot_state s"
  shows "\<exists>t. kinit s = Some t \<and> kinv t \<and> same_cpu s t \<and> avail t = {p. page_ok s p} \<and>
    sup_inv t \<and> sup_free t = {p. suppage_ok p}"
proof -
  have "kinit_locks s = s"
    using assms by (simp add: kinit_locks_def boot_state_def fun_eq_iff split: lockid.splits)
  obtain t where t: "freerange (kend s) PHYSTOP s = Some t" "kinv t" "same_cpu s t" "super_freelist t = 0"
      "avail t = {p. page_ok s p}"
    using freerange_boot [OF assms] by auto
  have idle: "cpu_idle t" using assms t(3) by (simp add: boot_state_def cpu_idle_def same_cpu_def)
  have K: "KERNBASE \<le> kend t" using t(3) assms by (simp add: boot_state_def same_cpu_def)
  let ?a = "PHYSTOP" and ?b = "PHYSTOP + 2097152"
  have ab: "suppage_ok ?a" "suppage_ok ?b" "?b \<notin> set [?a]" by (auto simp: suppage_ok_iff)
  have "sup_list t []" using t(4) by (simp add: sup_list_def)
  from kfree_suppage_spec [OF idle this ab(1)] obtain m where
    m: "kfree_suppage ?a t = Some (t\<lparr>mem := m, super_freelist := ?a\<rparr>)" "sup_list (t\<lparr>mem := m, super_freelist := ?a\<rparr>) [?a]"
      "\<forall>x. \<not> in_range x ?a SUPPGSIZE \<longrightarrow> m x = mem t x" by auto
  let ?t = "t\<lparr>mem := m, super_freelist := ?a\<rparr>"
  have idle': "cpu_idle ?t" using idle by (simp add: cpu_idle_def)
  from kfree_suppage_spec [OF idle' m(2) ab(2,3)] obtain m' where
    m': "kfree_suppage ?b ?t = Some (t\<lparr>mem := m', super_freelist := ?b\<rparr>)" "sup_list (t\<lparr>mem := m', super_freelist := ?b\<rparr>) [?b, ?a]"
      "\<forall>x. \<not> in_range x ?b SUPPGSIZE \<longrightarrow> m' x = m x" by auto
  let ?u = "t\<lparr>mem := m', super_freelist := ?b\<rparr>"
  have "kinit s = Some ?u"
    using \<open>kinit_locks s = s\<close> t(1) m(1) m'(1) by (simp add: kinit_def kinit_locks_def freerange_suppage_two)
  moreover have "kinv ?u"
  proof (rule kinv_super [OF _ t(2)])
    fix p x assume px: "page_ok t p" "in_range x p PGSIZE"
    show "m' x = mem t x"
      using m(3) m'(3) page_not_suppage [OF px(1) K ab(1) px(2)] page_not_suppage [OF px(1) K ab(2) px(2)]
      by simp
  qed
  moreover have "same_cpu s ?u" using t(3) by (simp add: same_cpu_def)
  moreover have "avail ?u = {p. page_ok s p}" unfolding t(5) [symmetric] by (simp add: avail_def)
  moreover have "cpu_idle ?u" using idle by (simp add: cpu_idle_def)
  then have "sup_inv ?u" using m'(2) unfolding sup_inv_def by blast
  moreover have "sup_free ?u = {p. suppage_ok p}"
    unfolding sup_free_eq [OF m'(2)] by (auto simp: suppage_ok_iff)
  ultimately show ?thesis by blast
qed

section \<open>The interface both page pools provide\<close>

fun grab :: "('s \<Rightarrow> (u64 \<times> 's) option) \<Rightarrow> nat \<Rightarrow> 's \<Rightarrow> (u64 list \<times> 's) option" where
  \<comment> \<open>\<open>n\<close> allocations in a row\<close>
  "grab al 0 s = Some ([], s)"
| "grab al (Suc n) s = do { (p, s) \<leftarrow> al s; (ps, s) \<leftarrow> grab al n s; Some (p # ps, s) }"

fun give :: "(u64 \<Rightarrow> 's \<Rightarrow> 's option) \<Rightarrow> u64 list \<Rightarrow> 's \<Rightarrow> 's option" where
  "give fr [] s = Some s"
| "give fr (p # ps) s = do { s \<leftarrow> fr p s; give fr ps s }"

locale page_allocator =
  fixes inv :: "'s \<Rightarrow> bool"
    and alloc :: "'s \<Rightarrow> (u64 \<times> 's) option"
    and free :: "u64 \<Rightarrow> 's \<Rightarrow> 's option"
    and pool :: "'s \<Rightarrow> u64 set"
    and owned :: "'s \<Rightarrow> u64 set"
  assumes pool_finite: "inv s \<Longrightarrow> finite (pool s)"
    and alloc_some: "inv s \<Longrightarrow> pool s \<noteq> {} \<Longrightarrow>
      \<exists>r t. alloc s = Some (r, t) \<and> inv t \<and> r \<noteq> 0 \<and> r \<in> pool s \<and> pool t = pool s - {r} \<and> owned t = insert r (owned s)"
    and alloc_none: "inv s \<Longrightarrow> pool s = {} \<Longrightarrow> alloc s = Some (0, s)"
    and free_owned: "inv s \<Longrightarrow> p \<in> owned s \<Longrightarrow>
      \<exists>t. free p s = Some t \<and> inv t \<and> pool t = insert p (pool s) \<and> owned t = owned s - {p}"
begin

lemma grab_spec:
  "inv s \<Longrightarrow> n \<le> card (pool s) \<Longrightarrow>
    \<exists>ps t. grab alloc n s = Some (ps, t) \<and> inv t \<and> length ps = n \<and> distinct ps \<and> 0 \<notin> set ps \<and>
      set ps \<subseteq> pool s \<and> pool t = pool s - set ps \<and> owned t = owned s \<union> set ps"
proof (induction n arbitrary: s)
  case (Suc n)
  then obtain r t where r: "alloc s = Some (r, t)" "inv t" "r \<noteq> 0" "r \<in> pool s" "pool t = pool s - {r}"
      "owned t = insert r (owned s)"
    using alloc_some [OF Suc.prems(1)] by (metis card.empty not_less_eq_eq zero_le)
  have "n \<le> card (pool t)" using Suc.prems r pool_finite [OF Suc.prems(1)] by simp
  from Suc.IH [OF r(2) this] obtain ps u where
    "grab alloc n t = Some (ps, u)" "inv u" "length ps = n" "distinct ps" "0 \<notin> set ps"
      "set ps \<subseteq> pool t" "pool u = pool t - set ps" "owned u = owned t \<union> set ps" by blast
  then show ?case using r by (intro exI [of _ "r # ps"] exI [of _ u]) auto
qed simp

lemma give_spec:
  "inv s \<Longrightarrow> distinct ps \<Longrightarrow> set ps \<subseteq> owned s \<Longrightarrow>
    \<exists>t. give free ps s = Some t \<and> inv t \<and> pool t = pool s \<union> set ps \<and> owned t = owned s - set ps"
proof (induction ps arbitrary: s)
  case (Cons p ps)
  then obtain t where t: "free p s = Some t" "inv t" "pool t = insert p (pool s)" "owned t = owned s - {p}"
    using free_owned [of s p] by auto
  have "set ps \<subseteq> owned t" using Cons.prems t by auto
  from Cons.IH [OF t(2) _ this] obtain u where
    "give free ps t = Some u" "inv u" "pool u = pool t \<union> set ps" "owned u = owned t - set ps"
    using Cons.prems(2) by auto
  then show ?case using t by auto
qed simp

lemma grab_give:
  assumes "inv s" "n \<le> card (pool s)"
  shows "\<exists>ps t. grab alloc n s = Some (ps, t) \<and> length ps = n \<and> distinct ps \<and> set ps \<subseteq> pool s \<and>
    (\<forall>qs. distinct qs \<and> set qs = set ps \<longrightarrow> (\<exists>u. give free qs t = Some u \<and> inv u \<and> pool u = pool s))"
proof -
  obtain ps t where g: "grab alloc n s = Some (ps, t)" "inv t" "length ps = n" "distinct ps"
      "set ps \<subseteq> pool s" "pool t = pool s - set ps" "owned t = owned s \<union> set ps"
    using grab_spec [OF assms] by blast
  have "\<exists>u. give free qs t = Some u \<and> inv u \<and> pool u = pool s" if "distinct qs" "set qs = set ps" for qs
    using give_spec [OF g(2) that(1)] that(2) g(5-7) by auto
  then show ?thesis using g by blast
qed

lemma exhaustion:
  assumes "inv s"
  shows "\<exists>ps t. grab alloc (card (pool s)) s = Some (ps, t) \<and> set ps = pool s \<and> alloc t = Some (0, t)"
proof -
  obtain ps t where g: "grab alloc (card (pool s)) s = Some (ps, t)" "inv t" "length ps = card (pool s)"
      "distinct ps" "set ps \<subseteq> pool s" "pool t = pool s - set ps"
    using grab_spec [OF assms order_refl] by blast
  have "set ps = pool s"
    using g(3-5) pool_finite [OF assms] by (intro card_subset_eq) (simp_all add: distinct_card)
  then show ?thesis using g alloc_none [OF g(2)] by auto
qed

end

subsection \<open>The 4096-byte pages\<close>

definition page_inv :: "'a kmem_scheme \<Rightarrow> bool" where
  "page_inv s \<longleftrightarrow> kinv s \<and> cpu_idle s"

definition page_owned :: "'a kmem_scheme \<Rightarrow> u64 set" where
  \<comment> \<open>pages with one reference\<close>
  "page_owned s = {p. page_ok s p \<and> ref_cnt s (COW_REFIDX p) = 1}"

definition no_swap :: "'a kmem_scheme \<Rightarrow> (u64 \<times> 'a kmem_scheme) option" where
  \<comment> \<open>\<open>find_swapping_page\<close> when there is nothing to page out\<close>
  "no_swap s = Some (0, s)"

lemma kinvD: "kinv s \<Longrightarrow> KERNBASE \<le> kend s"
  by (auto simp: kinv_def lists_ok_def)

lemma cpu_idle_same: "same_cpu s t \<Longrightarrow> cpu_idle t = cpu_idle s"
  by (simp add: same_cpu_def cpu_idle_def)

lemma page_grant_same: "page_grant s r t \<Longrightarrow> same_cpu s t"
  by (auto simp: page_grant_def same_cpu_def)

lemma page_grant_owned:
  assumes g: "page_grant s r t" and K: "KERNBASE \<le> kend s"
  shows "page_owned t = insert r (page_owned s)"
proof -
  have r: "page_ok s r" "ref_cnt s (COW_REFIDX r) = 0" using g by (simp_all add: page_grant_def avail_def)
  obtain m f where t: "t = s\<lparr>mem := m, freelist := f, ref_cnt := (ref_cnt s)(COW_REFIDX r := 1)\<rparr>"
    using g by (auto simp: page_grant_def)
  show ?thesis using COW_REFIDX_inj [OF K _ r(1)] r by (auto simp: page_owned_def t)
qed

lemma freed_owned:
  assumes K: "KERNBASE \<le> kend s" and p: "p \<in> page_owned s"
  shows "page_owned (freed p s) = page_owned s - {p}"
proof -
  have ok: "page_ok (freed p s) q = page_ok s q" for q by (simp add: page_ok_def)
  show ?thesis using COW_REFIDX_inj [OF K, of _ p] p by (auto simp: page_owned_def ok)
qed

interpretation pages: page_allocator page_inv "kalloc no_swap" kfree avail page_owned
proof
  fix s :: "'a kmem_scheme"
  assume inv: "page_inv s"
  then have K: "KERNBASE \<le> kend s" and k: "kinv s" and i: "cpu_idle s" by (auto simp: page_inv_def kinvD)
  show "finite (avail s)" by simp
  show "kalloc no_swap s = Some (0, s)" if "avail s = {}"
    using that k i by (intro kalloc_exhausted) (simp_all add: no_swap_def)
  show "\<exists>r t. kalloc no_swap s = Some (r, t) \<and> page_inv t \<and> r \<noteq> 0 \<and> r \<in> avail s \<and>
      avail t = avail s - {r} \<and> page_owned t = insert r (page_owned s)" if ne: "avail s \<noteq> {}"
  proof -
    obtain r t where al: "kalloc no_swap s = Some (r, t)" and g: "page_grant s r t"
      using kalloc_grants [OF k i ne] by blast
    have "page_inv t" using g i cpu_idle_same [OF page_grant_same [OF g]]
      by (simp add: page_inv_def page_grant_def)
    moreover have "r \<noteq> 0" using g page_ok_nonzero [OF K] by (auto simp: page_grant_def avail_def)
    ultimately show ?thesis using al g page_grant_owned [OF g K] by (auto simp: page_grant_def)
  qed
  fix p assume p: "p \<in> page_owned s"
  then have ok: "page_ok s p" "ref_cnt s (COW_REFIDX p) = 1" by (auto simp: page_owned_def)
  have "page_inv (freed p s)"
    using kinv_freed [OF k cpu_idleD(1) [OF i] ok(1)] ok(2) i cpu_idle_same [OF freed_simps(2), of p s]
    by (simp add: page_inv_def)
  moreover have "avail (freed p s) = insert p (avail s)" using avail_freed [OF K ok(1)] ok(2) by simp
  ultimately show "\<exists>t. kfree p s = Some t \<and> page_inv t \<and> avail t = insert p (avail s) \<and>
      page_owned t = page_owned s - {p}"
    using kfree_eq [OF i ok(1)] ok(2) freed_owned [OF K p] by simp
qed

subsection \<open>The 2 MB super pages\<close>

definition sup_owned :: "'a kmem_scheme \<Rightarrow> u64 set" where
  "sup_owned s = {p. suppage_ok p} - sup_free s"

interpretation suppages: page_allocator sup_inv kalloc_suppage kfree_suppage sup_free sup_owned
proof
  fix s :: "'a kmem_scheme"
  assume inv: "sup_inv s"
  then obtain ps where sl: "sup_list s ps" and i: "cpu_idle s" by (auto simp: sup_inv_def)
  note fr = sup_free_eq [OF sl]
  show "finite (sup_free s)" by simp
  show "kalloc_suppage s = Some (0, s)" if "sup_free s = {}"
    using kalloc_suppage_spec(1) [OF i sl] that by (simp add: fr)
  show "\<exists>r t. kalloc_suppage s = Some (r, t) \<and> sup_inv t \<and> r \<noteq> 0 \<and> r \<in> sup_free s \<and>
      sup_free t = sup_free s - {r} \<and> sup_owned t = insert r (sup_owned s)" if ne: "sup_free s \<noteq> {}"
  proof -
    obtain p qs where ps: "ps = p # qs" using ne by (cases ps) (auto simp: fr)
    then obtain m f where al: "kalloc_suppage s = Some (p, s\<lparr>mem := m, super_freelist := f\<rparr>)"
        and sl': "sup_list (s\<lparr>mem := m, super_freelist := f\<rparr>) qs" (is "sup_list ?t qs")
      using kalloc_suppage_spec(2) [OF i sl] by blast
    have p: "suppage_ok p" "p \<notin> set qs" using sl ps by (auto simp: sup_list_def)
    have "sup_inv ?t" using sl' i by (auto simp: sup_inv_def cpu_idle_def)
    then show ?thesis
      using al p suppage_nonzero [OF p(1)] sup_free_eq [OF sl'] by (auto simp: fr ps sup_owned_def)
  qed
  fix p assume "p \<in> sup_owned s"
  then have p: "suppage_ok p" "p \<notin> set ps" by (auto simp: sup_owned_def fr)
  obtain m where al: "kfree_suppage p s = Some (s\<lparr>mem := m, super_freelist := p\<rparr>)"
      and sl': "sup_list (s\<lparr>mem := m, super_freelist := p\<rparr>) (p # ps)" (is "sup_list ?t _")
    using kfree_suppage_spec [OF i sl p] by blast
  have "sup_inv ?t" using sl' i by (auto simp: sup_inv_def cpu_idle_def)
  then show "\<exists>t. kfree_suppage p s = Some t \<and> sup_inv t \<and> sup_free t = insert p (sup_free s) \<and>
      sup_owned t = sup_owned s - {p}"
    using al sup_free_eq [OF sl'] by (auto simp: fr sup_owned_def)
qed

section \<open>A concrete machine\<close>

definition demo_page :: u64 where "demo_page = 0x87FFF000"

definition demo_boot :: kmem where
  "demo_boot = \<lparr>cpuid = 0, mypid = 0, noff = 0, lk = (\<lambda>_. None), sl = (\<lambda>_. None), mem = (\<lambda>_. 0),
     kend = demo_page, freelist = (\<lambda>_. 0), super_freelist = 0, ref_cnt = (\<lambda>_. 0),
     savedpg = 0, savedbyte = 0\<rparr>"

definition demo_mem :: kmem where
  \<comment> \<open>one page, on the list of CPU 0\<close>
  "demo_mem = demo_boot\<lparr>freelist := (\<lambda>i. if i = 0 then demo_page else 0)\<rparr>"

lemma demo_boot_state: "boot_state demo_boot"
  by (simp add: boot_state_def demo_boot_def demo_page_def PHYSTOP_eq NCPU_def)

lemma demo_page_ok: "page_ok demo_boot p \<longleftrightarrow> p = demo_page"
proof
  assume p: "page_ok demo_boot p"
  have K: "KERNBASE \<le> kend demo_boot" by (simp add: demo_boot_def demo_page_def PHYSTOP_eq)
  note u = page_ok_unat [OF K p]
  have "demo_page \<le> p" using p by (simp add: page_ok_def demo_boot_def)
  then have "2281697280 \<le> unat p" by (simp add: word_le_nat_alt demo_page_def)
  moreover obtain k where "unat p = 4096 * k" using u(1) by (metis mod_0_imp_dvd dvd_def)
  ultimately have "unat p = 2281697280" using u by simp
  then show "p = demo_page" by (simp add: word_unat_eq_iff demo_page_def)
qed (simp add: page_ok_def demo_boot_def demo_page_def PHYSTOP_eq)

lemma demo_mem_facts:
  "page_ok demo_mem p \<longleftrightarrow> p = demo_page" "avail demo_mem = {demo_page}" "kinv demo_mem" "cpu_idle demo_mem"
  "page_inv demo_mem"
proof -
  show ok: "page_ok demo_mem p \<longleftrightarrow> p = demo_page" for p
    using demo_page_ok [of p] by (simp add: demo_mem_def)
  have "ref_cnt demo_mem = (\<lambda>_. 0)" by (simp add: demo_mem_def demo_boot_def)
  then show av: "avail demo_mem = {demo_page}" by (auto simp: avail_def ok)
  have z: "ld64 (mem demo_mem) demo_page = 0"
    by (simp add: ld64_def demo_mem_def demo_boot_def ldn_all_zero)
  have "lists_ok demo_mem (\<lambda>i. if i = 0 then [demo_page] else [])"
  proof (rule lists_okI)
    show "KERNBASE \<le> kend demo_mem" by (simp add: demo_mem_def demo_boot_def demo_page_def PHYSTOP_eq)
    show "flist (mem demo_mem) (freelist demo_mem i) (if i = 0 then [demo_page] else [])" for i
      using z by (simp add: demo_mem_def) (simp add: demo_page_def demo_boot_def)
  qed (auto simp: ok split: if_splits)
  moreover have "listed (\<lambda>i. if i = 0 then [demo_page] else []) = {demo_page}"
    by (auto simp: listed_def NCPU_def split: if_splits)
  ultimately show k: "kinv demo_mem" unfolding kinv_def av by blast
  show i: "cpu_idle demo_mem" by (simp add: cpu_idle_def demo_mem_def demo_boot_def NCPU_def)
  show "page_inv demo_mem" using k i by (simp add: page_inv_def)
qed

definition demo_used :: kmem where
  \<comment> \<open>the page is in use with one reference\<close>
  "demo_used = demo_boot\<lparr>ref_cnt := (\<lambda>_. 1)\<rparr>"

lemma demo_used_facts:
  "page_ok demo_used demo_page" "ref_cnt demo_used i = 1" "avail demo_used = {}" "kinv demo_used"
  "cpu_idle demo_used" "page_inv demo_used"
proof -
  show r: "ref_cnt demo_used i = 1" for i by (simp add: demo_used_def)
  then show av: "avail demo_used = {}" by (simp add: avail_def)
  show "page_ok demo_used demo_page" using demo_page_ok [of demo_page] by (simp add: demo_used_def)
  have "lists_ok demo_used (\<lambda>_. [])"
    by (rule lists_okI) (simp_all add: demo_used_def demo_boot_def demo_page_def PHYSTOP_eq)
  then show k: "kinv demo_used" unfolding kinv_def av by (auto simp: listed_def)
  show i: "cpu_idle demo_used" by (simp add: cpu_idle_def demo_used_def demo_boot_def NCPU_def)
  show "page_inv demo_used" using k i by (simp add: page_inv_def)
qed

section \<open>Properties\<close>

text \<open>C1: booting the kernel terminates and leaves the allocator in its invariant: every page
  from \<open>end\<close> to \<open>PHYSTOP\<close> is free, on exactly one free list, and both super pages are free.\<close>
theorem kinit_establishes_pools:
  assumes "boot_state s"
  shows "\<exists>t. kinit s = Some t \<and> kinv t \<and> cpu_idle t \<and> avail t = {p. page_ok s p} \<and>
    sup_inv t \<and> sup_free t = {PHYSTOP, PHYSTOP + 2097152}"
  using kinit_boot [OF assms] by (auto simp: sup_inv_def suppage_ok_iff)

lemma kinit_establishes_pools_witness:
  "\<exists>t. kinit demo_boot = Some t \<and> kinv t \<and> avail t = {demo_page}"
  using kinit_establishes_pools [OF demo_boot_state] by (auto simp: demo_page_ok)

text \<open>C2: while a page is free, \<open>kalloc\<close> returns one, whichever CPU's list holds it: the page had
  no reference and now has exactly one, it holds the junk pattern, no byte outside the free pages
  changes, and the lists hold exactly the remaining free pages.\<close>
theorem kalloc_returns_free_page:
  assumes "kinv s" "cpu_idle s" "avail s \<noteq> {}"
  shows "\<exists>r t. kalloc swapper s = Some (r, t) \<and> r \<in> avail s \<and> kinv t \<and> avail t = avail s - {r} \<and>
    ref_cnt t = (ref_cnt s)(COW_REFIDX r := 1) \<and> same_cpu s t \<and>
    (\<forall>a. in_range a r PGSIZE \<longrightarrow> mem t a = 5) \<and>
    (\<forall>a. (\<forall>p \<in> avail s. \<not> in_range a p PGSIZE) \<longrightarrow> mem t a = mem s a)"
proof -
  obtain r t where "kalloc swapper s = Some (r, t)" "page_grant s r t" using kalloc_grants [OF assms] by blast
  then show ?thesis by (intro exI [of _ r] exI [of _ t]) (auto simp: page_grant_def same_cpu_def)
qed

lemma kalloc_returns_free_page_witness:
  "\<exists>t. kalloc no_swap demo_mem = Some (demo_page, t) \<and> avail t = {}"
  using kalloc_returns_free_page [OF demo_mem_facts(3,4), of no_swap] by (auto simp: demo_mem_facts(2))

text \<open>\<open>kfree\<close> panics exactly on an address that is not an allocatable page or has no
  reference; otherwise it drops one reference, and the page becomes free when that was the last
  one, with every other byte of memory untouched.\<close>
theorem kfree_drops_reference:
  assumes "kinv s" "cpu_idle s"
  shows "(kfree p s = None \<longleftrightarrow> \<not> page_ok s p \<or> ref_cnt s (COW_REFIDX p) < 1) \<and>
    (\<forall>t. kfree p s = Some t \<longrightarrow> kinv t \<and> same_cpu s t \<and>
       ref_cnt t = (ref_cnt s)(COW_REFIDX p := ref_cnt s (COW_REFIDX p) - 1) \<and>
       avail t = (if ref_cnt s (COW_REFIDX p) = 1 then insert p (avail s) else avail s) \<and>
       (\<forall>a. \<not> in_range a p PGSIZE \<or> ref_cnt s (COW_REFIDX p) \<noteq> 1 \<longrightarrow> mem t a = mem s a))"
proof (cases "page_ok s p \<and> 1 \<le> ref_cnt s (COW_REFIDX p)")
  case True
  have "avail (freed p s) = (if ref_cnt s (COW_REFIDX p) = 1 then insert p (avail s) else avail s)"
    using avail_freed [OF kinvD [OF assms(1)]] True by (auto simp: avail_def)
  then show ?thesis
    using kfree_eq [OF assms(2)] True kinv_freed [OF assms(1) cpu_idleD(1) [OF assms(2)]]
    by (auto simp: freed_mem_frame)
next
  case False
  then have "kfree p s = None"
    using kfree_bad_page kfree_double_free [OF cpu_idleD(2) [OF assms(2)]] by (meson not_le)
  then show ?thesis using False by auto
qed


text \<open>\<open>n\<close> calls of \<open>kalloc\<close>, as long as there are \<open>n\<close> free pages, return \<open>n\<close> different
  free pages, and freeing them in any order gives back the same set of free pages.\<close>
theorem kalloc_kfree_roundtrip:
  assumes "page_inv s" "n \<le> card (avail s)"
  shows "\<exists>ps t. grab (kalloc no_swap) n s = Some (ps, t) \<and> length ps = n \<and> distinct ps \<and>
    set ps \<subseteq> avail s \<and>
    (\<forall>qs. distinct qs \<and> set qs = set ps \<longrightarrow>
       (\<exists>u. give kfree qs t = Some u \<and> page_inv u \<and> avail u = avail s))"
  using assms by (rule pages.grab_give)


text \<open>the super-page pool hands out every super page it holds, each once, and then returns 0.\<close>
theorem kalloc_suppage_exhausts:
  assumes "sup_inv s"
  shows "\<exists>ps t. grab kalloc_suppage (card (sup_free s)) s = Some (ps, t) \<and> set ps = sup_free s \<and>
    kalloc_suppage t = Some (0, t)"
  using assms by (rule suppages.exhaustion)


text \<open>\<open>kcollect\<close> reports the number of bytes in free pages, and changes nothing.\<close>
theorem kcollect_counts_free_bytes:
  assumes "kinv s" "cpu_idle s"
  shows "kcollect s = Some (card {p. page_ok s p \<and> ref_cnt s (COW_REFIDX p) = 0} * PGSIZE, s)"
  using kcollect_eq [OF assms] by (simp add: avail_def)


text \<open>breaking a copy-on-write share. The last owner keeps its page, which becomes writable; when
  the page is shared, a free page is handed out, the shared page loses one reference, and neither
  page table nor shared page is written. The sum of references is kept.\<close>
theorem kalloc_cow_splits_share:
  assumes inv: "kinv s" and idle: "cpu_idle s" and pa: "pa = PTE2PA (ld64 (mem s) pte)"
    and ok: "page_ok s pa" "1 \<le> ref_cnt s (COW_REFIDX pa)"
  shows "(ref_cnt s (COW_REFIDX pa) = 1 \<longrightarrow> kalloc_cow swapper pte s =
            Some (pa, s\<lparr>mem := st64 pte (PTE_DECOW (ld64 (mem s) pte)) (mem s)\<rparr>)) \<and>
    (1 < ref_cnt s (COW_REFIDX pa) \<and> avail s \<noteq> {} \<longrightarrow>
       (\<exists>r t. kalloc_cow swapper pte s = Some (r, t) \<and> r \<in> avail s \<and> r \<noteq> pa \<and> kinv t \<and>
          ref_cnt t = (ref_cnt s)(COW_REFIDX pa := ref_cnt s (COW_REFIDX pa) - 1, COW_REFIDX r := 1) \<and>
          (\<forall>a. (\<forall>p \<in> avail s. \<not> in_range a p PGSIZE) \<longrightarrow> mem t a = mem s a))) \<and>
    (1 < ref_cnt s (COW_REFIDX pa) \<and> avail s = {} \<longrightarrow> kalloc_cow no_swap pte s = Some (0, s))"
proof (intro conjI impI)
  let ?n = "ref_cnt s (COW_REFIDX pa)"
  let ?s = "s\<lparr>ref_cnt := (ref_cnt s)(COW_REFIDX pa := ?n - 1)\<rparr>"
  note K = kinvD [OF inv] and free = cpu_idleD(2) [OF idle]
  have b: "COW_REFIDX pa < NREF" using K ok(1) by (rule COW_REFIDX_bound)
  show "kalloc_cow swapper pte s = Some (pa, s\<lparr>mem := st64 pte (PTE_DECOW (ld64 (mem s) pte)) (mem s)\<rparr>)"
    if "?n = 1" using kalloc_cow_last [OF free] that b unfolding pa by simp
  have av: "avail ?s = avail s" if "1 < ?n"
    using that COW_REFIDX_inj [OF K _ ok(1)] by (auto simp: avail_def)
  have inv': "kinv ?s" if n: "1 < ?n"
  proof -
    obtain F where F: "lists_ok s F" "listed F = avail s" using inv by (auto simp: kinv_def)
    have "lists_ok ?s F" using F(1) by (simp add: lists_ok_def)
    then show ?thesis using F(2) av [OF n] unfolding kinv_def by metis
  qed
  have idle': "cpu_idle ?s" using idle by (simp add: cpu_idle_def)
  show "kalloc_cow no_swap pte s = Some (0, s)" if n: "1 < ?n \<and> avail s = {}"
  proof -
    have "kalloc no_swap ?s = Some (0, ?s)"
      using n inv' idle' av by (intro kalloc_exhausted) (simp_all add: no_swap_def)
    then show ?thesis
      using kalloc_cow_shared [OF free b refl _ pa, of no_swap] n kincget_eq [of ?s pa] free b by simp
  qed
  assume n: "1 < ?n \<and> avail s \<noteq> {}"
  obtain r t where al: "kalloc swapper ?s = Some (r, t)" and g: "page_grant ?s r t"
    using kalloc_grants [OF inv' idle', of swapper] n av by auto
  have r: "r \<in> avail s" using g n av by (auto simp: page_grant_def)
  then have rp: "r \<noteq> pa" "r \<noteq> 0" using n page_ok_nonzero [OF K] by (auto simp: avail_def)
  have "kalloc_cow swapper pte s = Some (r, t)"
    using kalloc_cow_shared [OF free b refl _ pa, of swapper] n al rp by simp
  then show "\<exists>r t. kalloc_cow swapper pte s = Some (r, t) \<and> r \<in> avail s \<and> r \<noteq> pa \<and> kinv t \<and>
          ref_cnt t = (ref_cnt s)(COW_REFIDX pa := ?n - 1, COW_REFIDX r := 1) \<and>
          (\<forall>a. (\<forall>p \<in> avail s. \<not> in_range a p PGSIZE) \<longrightarrow> mem t a = mem s a)"
    using g r rp n av by (intro exI [of _ r] exI [of _ t]) (auto simp: page_grant_def)
qed

definition demo_cow :: kmem where
  "demo_cow = demo_used\<lparr>mem := st64 0 (PA2PTE demo_page OR PTE_COW) (mem demo_used)\<rparr>"

lemma demo_cow_facts:
  "kinv demo_cow" "cpu_idle demo_cow" "PTE2PA (ld64 (mem demo_cow) 0) = demo_page"
  "page_ok demo_cow demo_page" "ref_cnt demo_cow i = 1"
proof -
  have av: "avail demo_cow = {}" by (simp add: avail_def demo_cow_def demo_used_facts(2))
  have "lists_ok demo_cow (\<lambda>_. [])"
    by (rule lists_okI) (simp_all add: demo_cow_def demo_used_def demo_boot_def demo_page_def PHYSTOP_eq)
  then show "kinv demo_cow" unfolding kinv_def av by (auto simp: listed_def)
  show "cpu_idle demo_cow" using demo_used_facts(5) by (simp add: demo_cow_def cpu_idle_def)
  have "pa_ok demo_page" "flags_ok PTE_COW" by (simp_all add: pa_ok_def flags_ok_def demo_page_def PTE_COW_def)
  then show "PTE2PA (ld64 (mem demo_cow) 0) = demo_page"
    by (simp add: demo_cow_def PTE2PA_PA2PTE_flags)
  show "page_ok demo_cow demo_page" "ref_cnt demo_cow i = 1"
    using demo_used_facts(1,2) by (simp_all add: demo_cow_def)
qed


end
