(* ===== verification/BaseProps.thy ===== *)
theory BaseProps
  imports Kalloc
begin

text \<open>
  Properties of the lowest layer: the locks of \<open>kernel/spinlock.c\<close>, the string routines of
  \<open>kernel/string.c\<close> and the page table entries of \<open>kernel/riscv.h\<close>.
\<close>

section \<open>Locks\<close>

text \<open>C8: mutual exclusion. However the CPUs that run \<open>acquire\<close> and \<open>release\<close> on one spin
  lock interleave, at most one of them is past the test-and-set and not yet past the release of
  the lock word, and \<open>holding\<close> is true of exactly the CPU inside the critical section.\<close>
theorem spinlock_mutual_exclusion:
  assumes "lock_reachable s"
  shows "(owns (lpc s c) \<and> owns (lpc s d) \<longrightarrow> c = d) \<and> holding_lk (spin s) c = (lpc s c = Inside)"
  using lock_reachable_inv [OF assms] spin_inv_owner_unique spin_inv_holding_iff by blast

definition demo_lock :: lock_sys where
  \<comment> \<open>CPU 0 has been granted the lock, CPU 1 spins\<close>
  "demo_lock = \<lparr>spin = \<lparr>locked = 1, lcpu = Some 0\<rparr>,
     lpc = (\<lambda>_. Outside)(0 := Inside, 1 := Spinning)\<rparr>"

lemma demo_lock_reachable: "lock_reachable demo_lock"
proof -
  let ?s0 = "init_lock_sys" and ?I = "initlock"
  let ?s1 = "?s0\<lparr>lpc := (lpc ?s0)(0 := Spinning)\<rparr>"
  let ?s2 = "?s1\<lparr>spin := (spin ?s1)\<lparr>locked := 1\<rparr>, lpc := (lpc ?s1)(0 := GotWord)\<rparr>"
  let ?s3 = "?s2\<lparr>spin := (spin ?s2)\<lparr>lcpu := Some 0\<rparr>, lpc := (lpc ?s2)(0 := Inside)\<rparr>"
  let ?s4 = "?s3\<lparr>lpc := (lpc ?s3)(1 := Spinning)\<rparr>"
  note init = init_lock_sys_def initlock_def holding_lk_def
  have "lock_step ?s0 ?s1" by (rule acquire_enter) (simp_all add: init)
  moreover have "lock_step ?s1 ?s2" by (rule test_and_set_ok) (simp_all add: init)
  moreover have "lock_step ?s2 ?s3" by (rule record_cpu) (simp add: init)
  moreover have "lock_step ?s3 ?s4" by (rule acquire_enter) (simp_all add: init)
  ultimately have "lock_reachable ?s4" using lock_start lock_more by metis
  moreover have "?s4 = demo_lock" by (simp add: demo_lock_def init fun_eq_iff)
  ultimately show ?thesis by simp
qed

theorem spinlock_mutual_exclusion_witness:
  "lpc demo_lock 0 = Inside \<and> lpc demo_lock 1 = Spinning \<and> holding_lk (spin demo_lock) 0 \<and>
   \<not> holding_lk (spin demo_lock) 1"
  using spinlock_mutual_exclusion [OF demo_lock_reachable, of 0 1]
    spinlock_mutual_exclusion [OF demo_lock_reachable, of 1 0]
  by (simp add: demo_lock_def)

text \<open>nested critical sections keep interrupts off and the outermost one restores them: after
  any number of \<open>push_off\<close> and as many \<open>pop_off\<close> no panic has happened and the interrupt
  enable bit and the nesting depth are what they were; in between interrupts are off.\<close>
theorem push_pop_off_nest:
  assumes "irq_ok s"
  shows "\<exists>t. unnest n (nest n s) = Some t \<and> sie t = sie s \<and> noff t = noff s \<and>
    irq_ok (nest n s) \<and> noff (nest n s) = n + noff s"
  using unnest_nest [OF assms] nest_irq_ok [OF assms] nest_noff by blast

definition demo_irq :: irq_cpu where
  "demo_irq = \<lparr>cpuid = 0, mypid = 1, noff = 0, lk = (\<lambda>_. None), sl = (\<lambda>_. None), sie = True, intena = False\<rparr>"


text \<open>the locks with their interrupt handling refine the locks without: forgetting the
  interrupt bits, \<open>acquire\<close> and \<open>release\<close> return or panic exactly as the abstract ones and
  leave the same state.\<close>
theorem interrupt_locks_refine:
  assumes "irq_ok s"
  shows "map_option kcpu.truncate (acquire_irq l s) = acquire l (kcpu.truncate s) \<and>
    map_option kcpu.truncate (release_irq l s) = release l (kcpu.truncate s)"
  using acquire_irq_refines [of l s] release_irq_refines [OF assms, of l] by blast


section \<open>Strings\<close>

text \<open>\<open>memmove\<close> copies correctly whatever the overlap of its two ranges: afterwards the
  destination holds the bytes the source held before, and no other byte has changed.\<close>
theorem memmove_overlap_safe:
  assumes "unat src + unat n < 2 ^ 64" "unat dst + unat n < 2 ^ 64"
  shows "snd (memmove dst src n m) = mem_copy dst m src (unat n) m"
  by (simp add: memmove_eq_mem_copy [OF assms])


text \<open>\<open>strncmp\<close> returns 0 exactly when the two strings agree on the first \<open>n\<close> bytes or up
  to and including a common terminator.\<close>
theorem strncmp_zero_iff_agree:
  "strncmp p q n m = 0 \<longleftrightarrow> agree_to_nul m p q (unat n)"
  by (simp add: strncmp_def strncmp_loop_zero_iff)

text \<open>\<open>safestrcpy\<close> into a destination that does not overlap the source always leaves a
  terminated string inside its \<open>n\<close> bytes, a prefix of the source.\<close>
theorem safestrcpy_terminates:
  assumes "0 < n" "n < 2 ^ 63" "\<And>i j. i < nat n \<Longrightarrow> j < nat n \<Longrightarrow> s + of_nat i \<noteq> t + of_nat j"
  shows "\<exists>l < nat n. snd (safestrcpy s t n m) (s + of_nat l) = 0 \<and>
     (\<forall>i < l. m (t + of_nat i) \<noteq> 0 \<and> snd (safestrcpy s t n m) (s + of_nat i) = m (t + of_nat i))"
proof -
  have eq: "snd (safestrcpy s t n m) = safestrcpy_loop s t (nat n - 1) m"
    using assms(1) by (simp add: safestrcpy_def)
  have "\<exists>l \<le> nat n - 1. safestrcpy_loop s t (nat n - 1) m (s + of_nat l) = 0 \<and>
     (\<forall>i < l. m (t + of_nat i) \<noteq> 0 \<and> safestrcpy_loop s t (nat n - 1) m (s + of_nat i) = m (t + of_nat i))"
    by (rule safestrcpy_loop_terminates_string) (use assms in auto)
  then obtain l where "l \<le> nat n - 1" "safestrcpy_loop s t (nat n - 1) m (s + of_nat l) = 0"
      "\<forall>i < l. m (t + of_nat i) \<noteq> 0 \<and> safestrcpy_loop s t (nat n - 1) m (s + of_nat i) = m (t + of_nat i)"
    by blast
  then show ?thesis unfolding eq using assms(1) by (intro exI [of _ l]) auto
qed


section \<open>Page table entries\<close>

text \<open>C9: a page table entry survives swapping. The entry \<open>PTE_PGOUT\<close> makes of a mapped entry
  is not valid, is marked as swapped and remembers the swap block; \<open>PTE_PGIN\<close> with the new page
  gives a valid entry that maps this page with the permissions the entry had before.\<close>
theorem pte_swap_roundtrip:
  assumes "drop_bit 54 blk = 0" "pa_ok page" "bit entry 0" "\<not> bit entry 9"
  shows "PTE_PGOUT blk (PTE_FLAGS entry) AND PTE_V = 0 \<and> PTE_PGOUT blk (PTE_FLAGS entry) AND PTE_PG \<noteq> 0 \<and>
    PTE2IDX (PTE_PGOUT blk (PTE_FLAGS entry)) = blk \<and>
    PTE2PA (PTE_PGIN page (PTE_FLAGS (PTE_PGOUT blk (PTE_FLAGS entry)))) = page \<and>
    PTE_FLAGS (PTE_PGIN page (PTE_FLAGS (PTE_PGOUT blk (PTE_FLAGS entry)))) = PTE_FLAGS entry"
proof -
  let ?out = "PTE_PGOUT blk (PTE_FLAGS entry)" and ?restored = "PTE_PGIN page (PTE_FLAGS (PTE_PGOUT blk (PTE_FLAGS entry)))"
  note O = PTE_PGOUT_roundtrip [OF assms(1) flags_ok_PTE_FLAGS, of entry]
  have v: "?out AND PTE_V = 0" "?out AND PTE_PG \<noteq> 0" unfolding pte_bit_iff by simp_all
  let ?f = "(PTE_FLAGS ?out AND NOT PTE_PG) OR PTE_V"
  have f: "?f = PTE_FLAGS entry"
    unfolding O(2) by (rule bit_word_eqI) (use assms(3,4) in \<open>auto simp: bit_or_iff bit_and_iff bit_not_iff\<close>)
  have b: "?restored = PA2PTE page OR PTE_FLAGS entry" by (simp add: PTE_PGIN_def f)
  have "PTE2PA ?restored = page" "PTE_FLAGS ?restored = PTE_FLAGS entry"
    unfolding b using PTE2PA_PA2PTE_flags [OF assms(2)] PTE_FLAGS_PA2PTE by simp_all
  then show ?thesis using v O(1) by blast
qed

theorem pte_swap_roundtrip_witness:
  "PTE2IDX (PTE_PGOUT 5 (PTE_FLAGS 0x21FFFC17)) = 5 \<and>
    PTE2PA (PTE_PGIN 0x87FFE000 (PTE_FLAGS (PTE_PGOUT 5 (PTE_FLAGS 0x21FFFC17)))) = 0x87FFE000"
  using pte_swap_roundtrip [of 5 "0x87FFE000" "0x21FFFC17"] by (simp add: pa_ok_def)

end
