(* ===== verification/KProc.thy ===== *)
theory KProc
  imports Kalloc
begin

text \<open>
  The process table and the data processes hang off it: the structures of
  \<open>kernel/proc.h\<close>, and the kernel state extended with them.  The operations of
  \<open>kernel/proc.c\<close> are in the theories \<open>Proc\<close> and \<open>Swap\<close>; the state is here because the
  virtual memory and file system code below them reads the current process.

  A pointer to a process, open file or in-memory inode is its index in its table, with
  \<open>None\<close> for the null pointer; a pointer to a page is its address.  \<open>struct threadshared\<close>
  lies inside the trapframe page of the process that owns it, so \<open>tshareds\<close> is indexed by the
  address of that page.
\<close>

section \<open>Types\<close>

datatype procstate = UNUSED | USED | SLEEPING | RUNNABLE | RUNNING | ZOMBIE

datatype vmatype = EXEC | HEAP | FIX | DYNAMIC

record vma =
  v_used :: bool
  v_addr :: u64
  v_length :: u64
  v_prot :: u32
  v_flags :: u32
  v_file :: "nat option"
  v_ip :: "nat option"
  v_offset :: u64
  v_filesz :: u64
  v_type :: vmatype

record threadshared =
  ts_sz :: u64
  vm_areas :: "nat \<Rightarrow> vma"

record trapframe =
  tf_kernel_satp :: u64
  tf_kernel_sp :: u64
  tf_kernel_trap :: u64
  tf_epc :: u64
  tf_kernel_hartid :: u64
  tf_ra :: u64
  tf_sp :: u64
  tf_a :: "nat \<Rightarrow> u64"      \<comment> \<open>the argument registers \<open>a0\<close> to \<open>a7\<close>\<close>
  tf_rest :: "nat \<Rightarrow> u64"   \<comment> \<open>the other saved registers, in order\<close>

datatype chan = NoChan | OnProc nat | OnPipeRead nat | OnPipeWrite nat | OnLog | OnTicks | OnSleeplock sleepid
  | OnCons | OnUart | OnRxq nat | OnTcb nat | OnBuf nat | OnVdisk

record proc =
  pstate :: procstate
  pchan :: chan
  pkilled :: int
  pxstate :: int
  ppid :: int
  pparent :: "nat option"
  pkstack :: u64
  ptshared :: u64       \<comment> \<open>the page that holds it; 0 is the null pointer\<close>
  ppagetable :: u64
  ptrapframe :: u64
  pusyscall :: u64
  ctx_ra :: u64
  ctx_sp :: u64
  pofile :: "nat \<Rightarrow> nat option"
  pcwd :: "nat option"
  pname :: bytes
  ptrace_arg :: int
  ppending :: u32
  ptmp_sa_mask :: u32
  psa_mask :: u32
  psa_handler :: "nat \<Rightarrow> u64"
  psa_trapframe :: u64
  palarminterval :: int
  ptickspassed :: int
  ptrap_va :: u64
  pisthread :: bool
  ptstack :: u64

definition NPROC :: nat where "NPROC = 64"
definition NOFILE :: nat where "NOFILE = 16"
definition NUMSIG :: nat where "NUMSIG = 3"
definition MAX_DYN_VMA :: nat where "MAX_DYN_VMA = 8"
definition MAX_FIX_VMA :: nat where "MAX_FIX_VMA = 8"
definition FIX_START_ADDR :: nat where "FIX_START_ADDR = MAX_DYN_VMA"
definition MAX_VMA :: nat where "MAX_VMA = MAX_DYN_VMA + MAX_FIX_VMA"

record kproc = kmem +
  procs :: "nat \<Rightarrow> proc"
  curp :: nat                           \<comment> \<open>the process on this CPU\<close>
  tshareds :: "u64 \<Rightarrow> threadshared"
  trapframes :: "u64 \<Rightarrow> trapframe"
  usyspages :: "u64 \<Rightarrow> int"             \<comment> \<open>\<open>struct usyscall\<close>, by page\<close>
  nextpid :: int
  initproc :: "nat option"
  shproc :: "nat option"
  fgproc_mask :: u64
  trampoline :: u64                    \<comment> \<open>the address of \<open>trampoline.S\<close>\<close>
  forkret :: u64                       \<comment> \<open>the address of \<open>forkret\<close>\<close>

section \<open>Updates\<close>

definition set_proc :: "nat \<Rightarrow> (proc \<Rightarrow> proc) \<Rightarrow> 'a kproc_scheme \<Rightarrow> 'a kproc_scheme" where
  "set_proc p f s = s\<lparr>procs := (procs s)(p := f (procs s p))\<rparr>"

definition set_tsh :: "u64 \<Rightarrow> (threadshared \<Rightarrow> threadshared) \<Rightarrow> 'a kproc_scheme \<Rightarrow> 'a kproc_scheme" where
  "set_tsh a f s = s\<lparr>tshareds := (tshareds s)(a := f (tshareds s a))\<rparr>"

definition set_vma :: "u64 \<Rightarrow> nat \<Rightarrow> (vma \<Rightarrow> vma) \<Rightarrow> 'a kproc_scheme \<Rightarrow> 'a kproc_scheme" where
  "set_vma a i f = set_tsh a (\<lambda>t. t\<lparr>vm_areas := (vm_areas t)(i := f (vm_areas t i))\<rparr>)"

definition tlock :: "u64 \<Rightarrow> lockid" where "tlock a = TLock (unat a)"
definition slock :: "u64 \<Rightarrow> sleepid" where "slock a = ThreadSleep (unat a)"

lemma set_proc_simps [simp]:
  "procs (set_proc p f s) = (procs s)(p := f (procs s p))"
  "lk (set_proc p f s) = lk s" "noff (set_proc p f s) = noff s" "cpuid (set_proc p f s) = cpuid s"
  "mem (set_proc p f s) = mem s" "curp (set_proc p f s) = curp s" "sl (set_proc p f s) = sl s"
  "mypid (set_proc p f s) = mypid s" "nextpid (set_proc p f s) = nextpid s"
  "initproc (set_proc p f s) = initproc s" "kproc.more (set_proc p f s) = kproc.more s"
  by (simp_all add: set_proc_def)

text \<open>What the layers above, which only touch buffers, files and pipes, leave alone.\<close>

definition same_proc :: "'a kproc_scheme \<Rightarrow> 'b kproc_scheme \<Rightarrow> bool" where
  "same_proc s t \<longleftrightarrow> mem t = mem s \<and> kend t = kend s \<and> freelist t = freelist s \<and>
     super_freelist t = super_freelist s \<and> ref_cnt t = ref_cnt s \<and> savedpg t = savedpg s \<and>
     savedbyte t = savedbyte s \<and> procs t = procs s \<and> curp t = curp s \<and> tshareds t = tshareds s \<and>
     trapframes t = trapframes s \<and> usyspages t = usyspages s \<and> nextpid t = nextpid s \<and>
     initproc t = initproc s \<and> shproc t = shproc s \<and> fgproc_mask t = fgproc_mask s \<and>
     trampoline t = trampoline s \<and> forkret t = forkret s"

lemma same_proc_refl [simp]: "same_proc s s"
  by (simp add: same_proc_def)

lemma same_proc_trans: "same_proc s t \<Longrightarrow> same_proc t u \<Longrightarrow> same_proc s u"
  by (simp add: same_proc_def)

end
