(* ===== verification/Bio.thy ===== *)
theory Bio
  imports KProc
begin

text \<open>
  The buffer cache, \<open>kernel/bio.c\<close>: \<open>NBUF + 1\<close> buffers, a table that maps every disk
  block to the buffer that caches it together with its reference count (packed in one
  32-bit word so that one compare-and-swap changes both), and a Michael-Scott queue of
  buffers that may be recycled, linked by counted 64-bit pointers.  The compare-and-swap
  loops are executed here without interference from another CPU: every retry condition of
  the code is kept, evaluated on the same state.  The disk is modelled by the effect of
  \<open>virtio_disk_rw\<close>; \<open>writes\<close> records the order of the block writes.
\<close>

section \<open>Packed words\<close>

definition NBUF :: nat where "NBUF = 30"
definition FSSIZE :: nat where "FSSIZE = 41024"

definition CNT :: "u64 \<Rightarrow> u64" where "CNT x = drop_bit 32 x"
definition PTRNULL :: u64 where "PTRNULL = 0x00000000ffffffff"
definition PTR :: "u64 \<Rightarrow> u64" where "PTR x = x AND PTRNULL"
definition CNTPTR :: "u64 \<Rightarrow> u64 \<Rightarrow> u64" where "CNTPTR x y = push_bit 32 x OR y"

definition REFCNT :: "u32 \<Rightarrow> u32" where "REFCNT x = drop_bit 5 x"
definition NONE :: u32 where "NONE = 0x1f"
definition IDX :: "u32 \<Rightarrow> u32" where "IDX x = x AND NONE"
definition REFCNT_IDX :: "u32 \<Rightarrow> u32 \<Rightarrow> u32" where "REFCNT_IDX x y = push_bit 5 x OR y"
definition INC_REFCNT :: "u32 \<Rightarrow> u32" where "INC_REFCNT x = REFCNT_IDX (REFCNT x + 1) (IDX x)"
definition DEC_REFCNT :: "u32 \<Rightarrow> u32" where "DEC_REFCNT x = REFCNT_IDX (REFCNT x - 1) (IDX x)"

section \<open>State\<close>

record buf =
  b_valid :: bool
  b_dev :: u32
  b_blockno :: u32
  b_data :: bytes        \<comment> \<open>the \<open>BSIZE\<close> bytes \<open>data\<close> points to, by offset\<close>
  b_daddr :: u64         \<comment> \<open>the address \<open>data\<close>\<close>
  b_qnext :: u64
  b_in_q :: u32

record bcache = kproc +
  bufs :: "nat \<Rightarrow> buf"
  hashtable :: "nat \<Rightarrow> u32"
  bq_head :: u64
  bq_tail :: u64
  disk :: "nat \<Rightarrow> bytes"
  writes :: "(nat \<times> bytes) list"

definition set_buf :: "nat \<Rightarrow> (buf \<Rightarrow> buf) \<Rightarrow> 'a bcache_scheme \<Rightarrow> 'a bcache_scheme" where
  "set_buf i f s = s\<lparr>bufs := (bufs s)(i := f (bufs s i))\<rparr>"

section \<open>The queue\<close>

partial_function (option) enqueue_loop ::
  "u64 \<Rightarrow> 'a bcache_scheme \<Rightarrow> (u64 \<times> 'a bcache_scheme) option" where
  \<comment> \<open>returns \<open>tail\<close> as it was when \<open>idx\<close> was linked behind it\<close>
  "enqueue_loop idx s =
     (let tail = bq_tail s; next = b_qnext (bufs s (unat (PTR tail)))
      in if tail = bq_tail s
         then if PTR next = PTRNULL
              then if b_qnext (bufs s (unat (PTR tail))) = next
                   then Some (tail, set_buf (unat (PTR tail))
                                      (\<lambda>b. b\<lparr>b_qnext := CNTPTR (CNT next + 1) idx\<rparr>) s)
                   else enqueue_loop idx s
              else enqueue_loop idx
                     (if bq_tail s = tail then s\<lparr>bq_tail := CNTPTR (CNT tail + 1) (PTR next)\<rparr> else s)
         else enqueue_loop idx s)"

definition enqueue :: "nat \<Rightarrow> 'a bcache_scheme \<Rightarrow> 'a bcache_scheme option" where
  "enqueue b s =
     (if b_in_q (bufs s b) \<noteq> 0 then Some s
      else do {
        let s = set_buf b (\<lambda>b. b\<lparr>b_in_q := 1\<rparr>) s;
        let s = set_buf b (\<lambda>b. b\<lparr>b_qnext := CNTPTR 0 PTRNULL\<rparr>) s;
        (tail, s) \<leftarrow> enqueue_loop (of_nat b) s;
        Some (if bq_tail s = tail then s\<lparr>bq_tail := CNTPTR (CNT tail + 1) (of_nat b)\<rparr> else s) })"

partial_function (option) dequeue ::
  "'a bcache_scheme \<Rightarrow> (nat option \<times> 'a bcache_scheme) option" where
  \<comment> \<open>the null pointer is \<open>None\<close>\<close>
  "dequeue s =
     (let head = bq_head s; tail = bq_tail s; next = b_qnext (bufs s (unat (PTR head)))
      in if head = bq_head s
         then if PTR head = PTR tail
              then if PTR next = PTRNULL then Some (None, s)
                   else dequeue
                     (if bq_tail s = tail then s\<lparr>bq_tail := CNTPTR (CNT tail + 1) (PTR next)\<rparr> else s)
              else if bq_head s = head
                   then (let ret = unat (PTR head);
                             s = s\<lparr>bq_head := CNTPTR (CNT head + 1) (PTR next)\<rparr>
                         in Some (Some ret, set_buf ret (\<lambda>b. b\<lparr>b_in_q := 0\<rparr>) s))
                   else dequeue s
         else dequeue s)"

section \<open>Operations\<close>

fun binit_bufs :: "nat \<Rightarrow> nat \<Rightarrow> (nat \<Rightarrow> u64) \<Rightarrow> 'a bcache_scheme \<Rightarrow> 'a bcache_scheme option" where
  "binit_bufs 0 i page s = Some s"
| "binit_bufs (Suc k) i page s = do {
     let s = set_buf i (\<lambda>b. b\<lparr>b_daddr := page i\<rparr>) s;
     let s = set_buf i (\<lambda>b. b\<lparr>b_in_q := 0\<rparr>) s;
     s \<leftarrow> enqueue i s;
     let s = s\<lparr>lk := (lk s)(SleepSpin (BufSleep i) := None), sl := (sl s)(BufSleep i := None)\<rparr>;
     binit_bufs k (Suc i) page s }"

definition binit :: "(nat \<Rightarrow> u64) \<Rightarrow> 'a bcache_scheme \<Rightarrow> 'a bcache_scheme option" where
  \<comment> \<open>\<open>page i\<close> is what the \<open>kalloc()\<close> for buffer \<open>i\<close> returns\<close>
  "binit page s = do {
     let s = s\<lparr>hashtable := (\<lambda>i. if i < FSSIZE then REFCNT_IDX 0 NONE else hashtable s i)\<rparr>;
     let s = s\<lparr>bq_head := CNTPTR 0 (of_nat NBUF), bq_tail := CNTPTR 0 (of_nat NBUF)\<rparr>;
     let s = s\<lparr>lk := (lk s)(SleepSpin (BufSleep NBUF) := None), sl := (sl s)(BufSleep NBUF := None)\<rparr>;
     let s = set_buf NBUF (\<lambda>b. b\<lparr>b_daddr := page NBUF, b_qnext := CNTPTR 0 PTRNULL, b_in_q := 0\<rparr>) s;
     binit_bufs NBUF 0 page s }"

definition NBUFBUC :: int where "NBUFBUC = 13"

definition bhash :: "u32 \<Rightarrow> u32 \<Rightarrow> int" where
  \<comment> \<open>\<open>hash\<close> is a C \<open>int\<close>: the assignment converts the unsigned sum\<close>
  "bhash dev blockno =
     (let hash = dev XOR blockno;
          hash = sint (hash * 31 + blockno);
          hash = (if hash < 0 then - hash else hash)
      in hash mod NBUFBUC)"

partial_function (option) bget_recycle ::
  "'a bcache_scheme \<Rightarrow> (nat \<times> 'a bcache_scheme) option" where
  \<comment> \<open>the inner \<open>while (1)\<close> of \<open>bget\<close>: dequeue until an unused buffer comes up\<close>
  "bget_recycle s = do {
     (b, s) \<leftarrow> dequeue s;
     case b of None \<Rightarrow> panic ''bget: no buffers''
     | Some b \<Rightarrow>
         let blockno = unat (b_blockno (bufs s b));
             expect = REFCNT_IDX 0 (IDX (hashtable s blockno))
         in if hashtable s blockno = expect
            then Some (b, s\<lparr>hashtable := (hashtable s)(blockno := REFCNT_IDX 0 NONE)\<rparr>)
            else bget_recycle s }"

partial_function (option) bget_loop ::
  "nat option \<Rightarrow> u32 \<Rightarrow> u32 \<Rightarrow> 'a bcache_scheme \<Rightarrow> (nat \<times> 'a bcache_scheme) option" where
  \<comment> \<open>the outer \<open>while (1)\<close>; \<open>b\<close> is the buffer recycled in an earlier round\<close>
  "bget_loop b dev blockno s =
     (let refcnt_idx = hashtable s (unat blockno)
      in if IDX refcnt_idx \<noteq> NONE
         then if hashtable s (unat blockno) = refcnt_idx
              then do {
                let s = s\<lparr>hashtable := (hashtable s)(unat blockno := INC_REFCNT refcnt_idx)\<rparr>;
                s \<leftarrow> (case b of None \<Rightarrow> Some s | Some b \<Rightarrow> enqueue b s);
                s \<leftarrow> acquiresleep (BufSleep (unat (IDX refcnt_idx))) s;
                Some (unat (IDX refcnt_idx), s) }
              else bget_loop b dev blockno s
         else do {
           (b, s) \<leftarrow> (case b of None \<Rightarrow> bget_recycle s | Some b \<Rightarrow> Some (b, s));
           (if hashtable s (unat blockno) = refcnt_idx
            then do {
              let s = s\<lparr>hashtable := (hashtable s)(unat blockno := REFCNT_IDX 1 (of_nat b))\<rparr>;
              s \<leftarrow> acquiresleep (BufSleep b) s;
              Some (b, set_buf b (\<lambda>b. b\<lparr>b_valid := False, b_dev := dev, b_blockno := blockno\<rparr>) s) }
            else bget_loop (Some b) dev blockno s) })"

definition bget :: "u32 \<Rightarrow> u32 \<Rightarrow> 'a bcache_scheme \<Rightarrow> (nat \<times> 'a bcache_scheme) option" where
  "bget dev blockno s =
     (if dev \<noteq> 1 then panic ''bget''
      else if \<not> unat blockno < FSSIZE then None \<comment> \<open>outside \<open>hashtable[]\<close>\<close>
      else bget_loop None dev blockno s)"

definition virtio_disk_rw :: "nat \<Rightarrow> bool \<Rightarrow> 'a bcache_scheme \<Rightarrow> 'a bcache_scheme" where
  "virtio_disk_rw b write s =
     (let blk = unat (b_blockno (bufs s b))
      in if write
         then s\<lparr>disk := (disk s)(blk := b_data (bufs s b)), writes := writes s @ [(blk, b_data (bufs s b))]\<rparr>
         else set_buf b (\<lambda>b. b\<lparr>b_data := disk s blk\<rparr>) s)"

definition bread :: "u32 \<Rightarrow> u32 \<Rightarrow> 'a bcache_scheme \<Rightarrow> (nat \<times> 'a bcache_scheme) option" where
  "bread dev blockno s = do {
     (b, s) \<leftarrow> bget dev blockno s;
     let s = (if \<not> b_valid (bufs s b)
              then set_buf b (\<lambda>b. b\<lparr>b_valid := True\<rparr>) (virtio_disk_rw b False s)
              else s);
     Some (b, s) }"

definition bwrite :: "nat \<Rightarrow> 'a bcache_scheme \<Rightarrow> 'a bcache_scheme option" where
  "bwrite b s = do {
     (h, s) \<leftarrow> holdingsleep (BufSleep b) s;
     (if \<not> h then panic ''bwrite'' else Some (virtio_disk_rw b True s)) }"

definition brelse :: "nat \<Rightarrow> 'a bcache_scheme \<Rightarrow> 'a bcache_scheme option" where
  "brelse b s =
     (if b_dev (bufs s b) \<noteq> 1 then panic ''brelse''
      else do {
        (h, s) \<leftarrow> holdingsleep (BufSleep b) s;
        (if \<not> h then panic ''brelse'' else do {
           s \<leftarrow> releasesleep (BufSleep b) s;
           let blockno = unat (b_blockno (bufs s b));
           let refcnt_idx = hashtable s blockno;
           let new_refcnt = REFCNT refcnt_idx - 1;
           let s = s\<lparr>hashtable := (hashtable s)(blockno := REFCNT_IDX new_refcnt (IDX refcnt_idx))\<rparr>;
           (if new_refcnt = 0 then enqueue b s else Some s) }) })"

definition bpin :: "nat \<Rightarrow> 'a bcache_scheme \<Rightarrow> 'a bcache_scheme" where
  "bpin b s =
     (let blockno = unat (b_blockno (bufs s b))
      in s\<lparr>hashtable := (hashtable s)(blockno := INC_REFCNT (hashtable s blockno))\<rparr>)"

definition bunpin :: "nat \<Rightarrow> 'a bcache_scheme \<Rightarrow> 'a bcache_scheme" where
  "bunpin b s =
     (let blockno = unat (b_blockno (bufs s b))
      in s\<lparr>hashtable := (hashtable s)(blockno := DEC_REFCNT (hashtable s blockno))\<rparr>)"

fun bunpin2_from :: "nat \<Rightarrow> nat \<Rightarrow> u64 \<Rightarrow> 'a bcache_scheme \<Rightarrow> 'a bcache_scheme option" where
  "bunpin2_from i 0 addr s = panic ''bunpin2''"
| "bunpin2_from i (Suc k) addr s =
     (if b_daddr (bufs s i) = addr then Some (bunpin i s) else bunpin2_from (Suc i) k addr s)"

definition bunpin2 :: "u64 \<Rightarrow> 'a bcache_scheme \<Rightarrow> 'a bcache_scheme option" where
  "bunpin2 addr s = bunpin2_from 0 (NBUF + 1) addr s"

section \<open>Packed words\<close>

lemma bit_REFCNT_IDX:
  assumes "unat y < 32"
  shows "bit (REFCNT_IDX x y) n \<longleftrightarrow> n < 32 \<and> (if n < 5 then bit y n else bit x (n - 5))"
  using small_word_bits [of y 5 n] assms
  by (auto simp: REFCNT_IDX_def bit_or_iff bit_push_bit_iff dest: bit_imp_le_length)

lemma REFCNT_IDX_inverse:
  assumes y: "unat y < 32"
  shows "IDX (REFCNT_IDX x y) = y" and "unat x < 2 ^ 27 \<Longrightarrow> REFCNT (REFCNT_IDX x y) = x"
proof -
  have N: "NONE = mask 5" by (simp add: NONE_def mask_eq_exp_minus_1)
  show "IDX (REFCNT_IDX x y) = y"
    by (rule bit_word_eqI)
      (use bit_REFCNT_IDX [OF y] small_word_bits [of y 5] y in \<open>auto simp: IDX_def N bit_and_iff bit_mask_iff\<close>)
  assume "unat x < 2 ^ 27"
  then have x: "n < 27" if "bit x n" for n using that by (rule small_word_bits)
  show "REFCNT (REFCNT_IDX x y) = x"
    by (rule bit_word_eqI) (use bit_REFCNT_IDX [OF y] x in \<open>auto simp: REFCNT_def bit_drop_bit_eq\<close>)
qed

lemma IDX_lt: "unat (IDX x) < 32"
proof -
  have "IDX x = take_bit 5 x" by (simp add: IDX_def NONE_def take_bit_eq_mask mask_eq_exp_minus_1)
  then show ?thesis by (simp add: unsigned_take_bit_eq take_bit_nat_less_exp [of 5, simplified])
qed

lemma REFCNT_lt: "unat (REFCNT x) < 2 ^ 27"
proof -
  have "unat (drop_bit 5 x) = unat x div 2 ^ 5" using unat_bound [of x] by (subst unsigned_drop_bit_eq) (simp add: drop_bit_eq_div take_bit_nat_eq_self)
  then show ?thesis using unat_bound [of x] by (simp add: REFCNT_def)
qed

lemma REFCNT_IDX_collapse [simp]: "REFCNT_IDX (REFCNT x) (IDX x) = x"
proof (rule bit_word_eqI)
  have N: "NONE = mask 5" by (simp add: NONE_def mask_eq_exp_minus_1)
  fix n assume "n < LENGTH(32)"
  then show "bit (REFCNT_IDX (REFCNT x) (IDX x)) n = bit x n"
    unfolding bit_REFCNT_IDX [OF IDX_lt] by (auto simp: REFCNT_def IDX_def N bit_and_iff bit_mask_iff bit_drop_bit_eq)
qed

lemma PTR_CNTPTR: "unat p < 2 ^ 32 \<Longrightarrow> PTR (CNTPTR c p) = p"
proof -
  assume p: "unat p < 2 ^ 32"
  have P: "PTRNULL = mask 32" by (simp add: PTRNULL_def mask_eq_exp_minus_1)
  show ?thesis
    by (rule bit_word_eqI)
      (use small_word_bits [of p 32] p in
        \<open>auto simp: PTR_def CNTPTR_def P bit_and_iff bit_or_iff bit_mask_iff bit_push_bit_iff\<close>)
qed

section \<open>The queue as a list\<close>

text \<open>
  \<open>queue s L\<close>: the chain from \<open>head\<close> to \<open>tail\<close> is the list \<open>L\<close> of buffer numbers.  The first
  element is the one \<open>dequeue\<close> would return; the last one stays behind as the dummy node.
\<close>

definition bptr :: "u64 \<Rightarrow> nat" where "bptr x = unat (PTR x)"

fun chain :: "(nat \<Rightarrow> buf) \<Rightarrow> nat list \<Rightarrow> bool" where
  "chain B [] = False"
| "chain B [x] \<longleftrightarrow> PTR (b_qnext (B x)) = PTRNULL"
| "chain B (x # y # xs) \<longleftrightarrow> bptr (b_qnext (B x)) = y \<and> chain B (y # xs)"

definition queue :: "'a bcache_scheme \<Rightarrow> nat list \<Rightarrow> bool" where
  "queue s L \<longleftrightarrow> chain (bufs s) L \<and> distinct L \<and> set L \<subseteq> {..NBUF} \<and>
     bptr (bq_head s) = hd L \<and> bptr (bq_tail s) = last L"

lemma chain_cong: "(\<And>x. x \<in> set L \<Longrightarrow> b_qnext (B x) = b_qnext (B' x)) \<Longrightarrow> chain B L = chain B' L"
  by (induction B L rule: chain.induct) auto

lemma chain_last: "chain B L \<Longrightarrow> PTR (b_qnext (B (last L))) = PTRNULL"
  by (induction B L rule: chain.induct) auto

lemma chain_nonempty: "chain B L \<Longrightarrow> L \<noteq> []"
  by auto

lemma chain_append:
  "chain B L \<Longrightarrow> distinct L \<Longrightarrow> b \<notin> set L \<Longrightarrow> PTR (b_qnext (B b)) = PTRNULL \<Longrightarrow>
     chain (B(last L := (B (last L))\<lparr>b_qnext := q\<rparr>)) (L @ [b]) \<longleftrightarrow> bptr q = b"
  by (induction B L rule: chain.induct) auto

lemma bptr_small: "n \<le> NBUF \<Longrightarrow> bptr (CNTPTR c (of_nat n)) = n"
  by (simp add: bptr_def PTR_CNTPTR NBUF_def)

lemma bptr_PTR: "bptr (CNTPTR c (PTR x)) = bptr x"
proof -
  have "PTR x = take_bit 32 x" by (simp add: PTR_def PTRNULL_def take_bit_eq_mask mask_eq_exp_minus_1)
  then have "unat (PTR x) < 2 ^ 32" by (simp only: unsigned_take_bit_eq take_bit_nat_less_exp)
  then show ?thesis by (simp add: bptr_def PTR_CNTPTR)
qed

lemma PTR_eq_iff: "PTR x = PTR y \<longleftrightarrow> bptr x = bptr y"
  by (simp add: bptr_def word_unat_eq_iff)

lemma PTRNULL_unat: "unat PTRNULL = 4294967295" "PTR PTRNULL = PTRNULL"
  by (simp_all add: PTRNULL_def PTR_def)

lemma PTR_PTRNULL: "PTR (CNTPTR 0 PTRNULL) = PTRNULL"
  by (rule PTR_CNTPTR) (simp add: PTRNULL_unat)

lemma enqueue_queue:
  assumes q: "queue s L" and b: "b \<le> NBUF" "b \<notin> set L" "b_in_q (bufs s b) = 0"
  shows "\<exists>s' B' x. enqueue b s = Some s' \<and> queue s' (L @ [b]) \<and> s' = s\<lparr>bufs := B', bq_tail := x\<rparr> \<and>
     (\<forall>i. B' i = (bufs s i)\<lparr>b_qnext := b_qnext (B' i), b_in_q := (if i = b then 1 else b_in_q (bufs s i))\<rparr>)"
proof -
  note Q = q [unfolded queue_def]
  let ?l = "last L" and ?B0 = "(bufs s)(b := (bufs s b)\<lparr>b_in_q := 1, b_qnext := CNTPTR 0 PTRNULL\<rparr>)"
  have ne: "L \<noteq> []" using Q by (blast dest: chain_nonempty)
  then have lb: "?l \<noteq> b" using b(2) last_in_set by metis
  have null: "PTR (b_qnext (bufs s ?l)) = PTRNULL" using Q by (blast dest: chain_last)
  define B' where "B' = ?B0(?l := (?B0 ?l)\<lparr>b_qnext := CNTPTR (CNT (b_qnext (bufs s ?l)) + 1) (of_nat b)\<rparr>)"
  define x where "x = CNTPTR (CNT (bq_tail s) + 1) (of_nat b)"
  have t: "unat (PTR (bq_tail s)) = ?l" using Q by (simp add: bptr_def)
  have eq: "enqueue b s = Some (s\<lparr>bufs := B', bq_tail := x\<rparr>)"
    using b(3) lb null unfolding enqueue_def
    by (simp add: set_buf_def enqueue_loop.simps [of "of_nat b"] t Let_def) (simp add: B'_def x_def)
  have "chain ?B0 L" using Q b(2) by (subst chain_cong [of L _ "bufs s"]) auto
  then have "chain B' (L @ [b])"
    unfolding B'_def using Q b by (subst chain_append) (auto simp: PTR_PTRNULL bptr_small)
  then have "queue (s\<lparr>bufs := B', bq_tail := x\<rparr>) (L @ [b])"
    using Q b ne by (simp add: queue_def x_def bptr_small)
  moreover have "B' i = (bufs s i)\<lparr>b_qnext := b_qnext (B' i), b_in_q := (if i = b then 1 else b_in_q (bufs s i))\<rparr>" for i
    using lb by (auto simp: B'_def)
  ultimately show ?thesis using eq by blast
qed

lemma dequeue_empty:
  assumes "queue s [x]" shows "dequeue s = Some (None, s)"
  using assms by (subst dequeue.simps) (simp add: queue_def bptr_def Let_def PTR_eq_iff)

lemma dequeue_queue:
  assumes q: "queue s (x # y # L)"
  shows "\<exists>h. dequeue s = Some (Some x, s\<lparr>bq_head := h, bufs := (bufs s)(x := (bufs s x)\<lparr>b_in_q := 0\<rparr>)\<rparr>) \<and>
     queue (s\<lparr>bq_head := h, bufs := (bufs s)(x := (bufs s x)\<lparr>b_in_q := 0\<rparr>)\<rparr>) (y # L)"
proof -
  note Q = q [unfolded queue_def]
  have x: "unat (PTR (bq_head s)) = x" using Q by (simp add: bptr_def)
  have "last (y # L) \<in> set (y # L)" by (rule last_in_set) simp
  moreover have "x \<notin> set (y # L)" "bptr (bq_head s) = x" "bptr (bq_tail s) = last (y # L)" using Q by simp_all
  ultimately have ne: "PTR (bq_head s) \<noteq> PTR (bq_tail s)" unfolding PTR_eq_iff by metis
  let ?h = "CNTPTR (CNT (bq_head s) + 1) (PTR (b_qnext (bufs s x)))"
  let ?B = "(bufs s)(x := (bufs s x)\<lparr>b_in_q := 0\<rparr>)"
  have "dequeue s = Some (Some x, s\<lparr>bq_head := ?h, bufs := ?B\<rparr>)"
    using ne x by (subst dequeue.simps) (simp add: Let_def set_buf_def)
  moreover have "chain ?B (y # L)" using Q by (subst chain_cong [of _ _ "bufs s"]) auto
  then have "queue (s\<lparr>bq_head := ?h, bufs := ?B\<rparr>) (y # L)"
    using Q by (simp add: queue_def bptr_PTR)
  ultimately show ?thesis by blast
qed

end
