(* ===== verification/BioInv.thy ===== *)
theory BioInv
  imports Bio
begin

text \<open>
  The invariant of the buffer cache and the contract of its operations: what a client sees
  is one \<open>view\<close> of the disk (the cached copy of a block, or the block itself), the
  references it holds, and the blocks it has locked.
\<close>

section \<open>What a client sees\<close>

definition cached :: "'a bcache_scheme \<Rightarrow> nat \<Rightarrow> bool" where
  "cached s blk \<longleftrightarrow> blk < FSSIZE \<and> IDX (hashtable s blk) \<noteq> NONE"

definition bidx :: "'a bcache_scheme \<Rightarrow> nat \<Rightarrow> nat" where
  "bidx s blk = unat (IDX (hashtable s blk))"

definition refs :: "'a bcache_scheme \<Rightarrow> nat \<Rightarrow> nat" where
  "refs s blk = (if blk < FSSIZE then unat (REFCNT (hashtable s blk)) else 0)"

definition view :: "'a bcache_scheme \<Rightarrow> nat \<Rightarrow> bytes" where
  "view s blk = (if cached s blk \<and> b_valid (bufs s (bidx s blk)) then b_data (bufs s (bidx s blk))
                 else disk s blk)"

definition blocked :: "'a bcache_scheme \<Rightarrow> nat \<Rightarrow> bool" where
  "blocked s blk \<longleftrightarrow> cached s blk \<and> sl s (BufSleep (bidx s blk)) \<noteq> None"

definition held :: "'a bcache_scheme \<Rightarrow> nat \<Rightarrow> nat \<Rightarrow> bool" where
  \<comment> \<open>this process has block \<open>blk\<close> locked, in buffer \<open>i\<close>, with its contents\<close>
  "held s i blk \<longleftrightarrow> cached s blk \<and> bidx s blk = i \<and> b_valid (bufs s i) \<and> 0 < refs s blk \<and>
     sl s (BufSleep i) = Some (mypid s)"

definition mapped :: "'a bcache_scheme \<Rightarrow> nat \<Rightarrow> bool" where
  "mapped s i \<longleftrightarrow> (\<exists>blk. cached s blk \<and> bidx s blk = i)"

definition binvX :: "'a bcache_scheme \<Rightarrow> nat list \<Rightarrow> nat set \<Rightarrow> bool" where
  \<comment> \<open>the buffers in \<open>X\<close> are on their way from the queue to a block; block 0 is never in the cache, as
      its number marks a buffer that has not been used\<close>
  "binvX s L X \<longleftrightarrow>
     queue s L \<and> (\<forall>l. lk s (SleepSpin l) = None) \<and> \<not> cached s 0 \<and>
     (\<forall>blk. \<not> cached s blk \<longrightarrow> refs s blk = 0) \<and>
     (\<forall>blk. cached s blk \<longrightarrow> bidx s blk \<le> NBUF \<and> bidx s blk \<notin> X \<and>
        b_blockno (bufs s (bidx s blk)) = of_nat blk \<and> b_dev (bufs s (bidx s blk)) = 1 \<and>
        (b_in_q (bufs s (bidx s blk)) = 0 \<longleftrightarrow> bidx s blk \<notin> set L) \<and>
        (refs s blk = 0 \<longrightarrow> bidx s blk \<in> set L \<and> sl s (BufSleep (bidx s blk)) = None \<and>
           view s blk = disk s blk)) \<and>
     (\<forall>i \<le> NBUF. i \<notin> X \<and> \<not> mapped s i \<longrightarrow>
        i \<in> set L \<and> b_blockno (bufs s i) = 0 \<and> sl s (BufSleep i) = None) \<and>
     (\<forall>i \<in> X. i \<le> NBUF \<and> i \<notin> set L \<and> sl s (BufSleep i) = None \<and> b_in_q (bufs s i) = 0)"

definition binv :: "'a bcache_scheme \<Rightarrow> bool" where
  "binv s \<longleftrightarrow> (\<exists>L. binvX s L {})"

definition in_use :: "'a bcache_scheme \<Rightarrow> nat set" where
  "in_use s = {blk. 0 < refs s blk}"

definition bstep :: "'a bcache_scheme \<Rightarrow> 'a bcache_scheme \<Rightarrow> bool" where
  "bstep s t \<longleftrightarrow> lk t = lk s \<and> noff t = noff s \<and> cpuid t = cpuid s \<and> mypid t = mypid s \<and>
     same_proc s t \<and> bcache.more t = bcache.more s"

lemma same_proc_bcache [simp]:
  "same_proc s (t\<lparr>bufs := x1\<rparr>) = same_proc s t" "same_proc s (t\<lparr>hashtable := x2\<rparr>) = same_proc s t"
  "same_proc s (t\<lparr>bq_head := x3\<rparr>) = same_proc s t" "same_proc s (t\<lparr>bq_tail := x3\<rparr>) = same_proc s t"
  "same_proc s (t\<lparr>disk := x4\<rparr>) = same_proc s t" "same_proc s (t\<lparr>writes := x5\<rparr>) = same_proc s t"
  "same_proc s (t\<lparr>sl := x6\<rparr>) = same_proc s t" "same_proc s (t\<lparr>lk := x7\<rparr>) = same_proc s t"
  for t :: "'a bcache_scheme"
  by (simp_all add: same_proc_def)

lemma bstep_refl [simp]: "bstep s s"
  by (simp add: bstep_def)

lemma bstep_trans: "bstep s t \<Longrightarrow> bstep t u \<Longrightarrow> bstep s u"
  by (auto simp: bstep_def intro: same_proc_trans)

lemma binvXD:
  assumes "binvX s L X"
  shows "queue s L" "lk s (SleepSpin l) = None" "\<not> cached s 0"
    and "\<not> cached s blk \<Longrightarrow> refs s blk = 0"
    and "cached s blk \<Longrightarrow> bidx s blk \<le> NBUF" "cached s blk \<Longrightarrow> bidx s blk \<notin> X"
    and "cached s blk \<Longrightarrow> b_blockno (bufs s (bidx s blk)) = of_nat blk"
    and "cached s blk \<Longrightarrow> b_dev (bufs s (bidx s blk)) = 1"
    and "cached s blk \<Longrightarrow> b_in_q (bufs s (bidx s blk)) = 0 \<longleftrightarrow> bidx s blk \<notin> set L"
    and "cached s blk \<Longrightarrow> refs s blk = 0 \<Longrightarrow> bidx s blk \<in> set L"
    and "cached s blk \<Longrightarrow> refs s blk = 0 \<Longrightarrow> sl s (BufSleep (bidx s blk)) = None"
    and "cached s blk \<Longrightarrow> refs s blk = 0 \<Longrightarrow> view s blk = disk s blk"
    and "i \<le> NBUF \<Longrightarrow> i \<notin> X \<Longrightarrow> \<not> mapped s i \<Longrightarrow> i \<in> set L"
    and "i \<le> NBUF \<Longrightarrow> i \<notin> X \<Longrightarrow> \<not> mapped s i \<Longrightarrow> b_blockno (bufs s i) = 0"
    and "i \<le> NBUF \<Longrightarrow> i \<notin> X \<Longrightarrow> \<not> mapped s i \<Longrightarrow> sl s (BufSleep i) = None"
    and "i \<in> X \<Longrightarrow> i \<le> NBUF \<and> i \<notin> set L \<and> sl s (BufSleep i) = None \<and> b_in_q (bufs s i) = 0"
  using assms unfolding binvX_def by blast+

lemma cached_lt: "cached s blk \<Longrightarrow> blk < FSSIZE"
  by (simp add: cached_def)

lemma unat_blk: "blk < FSSIZE \<Longrightarrow> unat (of_nat blk :: u32) = blk"
  by (simp add: FSSIZE_def)

lemma bidx_inj:
  assumes "binvX s L X" "cached s a" "cached s b" "bidx s a = bidx s b"
  shows "a = b"
  using binvXD(7) [OF assms(1,2)] binvXD(7) [OF assms(1,3)] assms(4)
    unat_blk [OF cached_lt [OF assms(2)]] unat_blk [OF cached_lt [OF assms(3)]] by metis

lemma refs0_entry:
  assumes "blk < FSSIZE" "refs s blk = 0"
  shows "hashtable s blk = REFCNT_IDX 0 (IDX (hashtable s blk))"
proof -
  have "REFCNT (hashtable s blk) = 0" using assms by (simp add: refs_def unat_eq_0)
  then show ?thesis using REFCNT_IDX_collapse [of "hashtable s blk"] by simp
qed

lemma refs_pos_entry:
  assumes "0 < refs s blk"
  shows "hashtable s blk \<noteq> REFCNT_IDX 0 (IDX (hashtable s blk))"
proof
  assume eq: "hashtable s blk = REFCNT_IDX 0 (IDX (hashtable s blk))"
  have "REFCNT (REFCNT_IDX 0 (IDX (hashtable s blk))) = 0" by (intro REFCNT_IDX_inverse(2) IDX_lt) simp
  then show False using assms eq by (simp add: refs_def split: if_splits)
qed

lemma NONE_entry [simp]: "IDX (REFCNT_IDX x NONE) = NONE" "REFCNT (REFCNT_IDX 0 NONE) = 0"
  by (rule REFCNT_IDX_inverse; simp add: NONE_def)+

section \<open>Recycling a buffer\<close>

lemma evict:
  assumes inv: "binvX s (x # L) {}" and q: "queue s1 L"
    and s1: "s1 = s\<lparr>bq_head := h, bufs := (bufs s)(x := (bufs s x)\<lparr>b_in_q := 0\<rparr>)\<rparr>"
    and b0: "b0 < FSSIZE" "refs s b0 = 0" "\<And>blk. cached s blk \<Longrightarrow> bidx s blk = x \<longleftrightarrow> blk = b0"
  defines "s2 \<equiv> s1\<lparr>hashtable := (hashtable s)(b0 := REFCNT_IDX 0 NONE)\<rparr>"
  shows "binvX s2 L {x}" "view s2 = view s" "refs s2 = refs s"
    "cached s2 blk \<longleftrightarrow> cached s blk \<and> blk \<noteq> b0" "blk \<noteq> b0 \<Longrightarrow> bidx s2 blk = bidx s blk"
proof -
  note D = binvXD [OF inv]
  have ht: "hashtable s2 = (hashtable s)(b0 := REFCNT_IDX 0 NONE)" and sl: "sl s2 = sl s" "lk s2 = lk s"
    and B: "\<And>i. bufs s2 i = (bufs s i)\<lparr>b_in_q := (if i = x then 0 else b_in_q (bufs s i))\<rparr>"
    and dk: "disk s2 = disk s"
    by (auto simp: s2_def s1)
  show c: "cached s2 blk \<longleftrightarrow> cached s blk \<and> blk \<noteq> b0" for blk by (simp add: cached_def ht)
  show bi: "blk \<noteq> b0 \<Longrightarrow> bidx s2 blk = bidx s blk" for blk by (simp add: bidx_def ht)
  show rf: "refs s2 = refs s" using b0(2) by (auto simp: refs_def ht fun_eq_iff)
  have "view s2 blk = view s blk" for blk
  proof (cases "blk = b0")
    case True
    then have "view s2 blk = disk s blk" using c by (simp add: view_def dk)
    moreover have "view s blk = disk s blk"
      using D(12) [of b0] b0(2) True by (cases "cached s b0") (simp_all add: view_def)
    ultimately show ?thesis by simp
  qed (simp add: view_def c bi B dk)
  then show vw: "view s2 = view s" by blast
  have xN: "x \<le> NBUF" "x \<notin> set L" using D(1) by (simp_all add: queue_def)
  have slx: "sl s (BufSleep x) = None"
  proof (cases "mapped s x")
    case True
    then show ?thesis using D(11) b0(2,3) by (auto simp: mapped_def)
  qed (use D(15) xN in simp)
  have mp: "i \<noteq> x \<and> mapped s i \<longrightarrow> mapped s2 i" for i
    using b0(3) by (auto simp: mapped_def c) (metis bi)
  show "binvX s2 L {x}"
    unfolding binvX_def
  proof (intro conjI allI impI ballI)
    show "queue s2 L" using q by (simp add: s2_def queue_def)
    show "lk s2 (SleepSpin l) = None" for l using D(2) sl by simp
    show "\<not> cached s2 0" using D(3) c by simp
    show "refs s2 blk = 0" if "\<not> cached s2 blk" for blk
      using that D(4) [of blk] b0(2) unfolding rf c by auto
    fix blk assume "cached s2 blk"
    then have k: "cached s blk" "blk \<noteq> b0" "bidx s2 blk = bidx s blk" using c bi by auto
    then have ne: "bidx s blk \<noteq> x" using b0(3) by blast
    show "bidx s2 blk \<le> NBUF" "bidx s2 blk \<notin> {x}" using D(5) k ne by simp_all
    show "b_blockno (bufs s2 (bidx s2 blk)) = of_nat blk" "b_dev (bufs s2 (bidx s2 blk)) = 1"
      using D(7,8) k B by simp_all
    show "(b_in_q (bufs s2 (bidx s2 blk)) = 0) = (bidx s2 blk \<notin> set L)" using D(9) [OF k(1)] k B ne by simp
    show "bidx s2 blk \<in> set L" if "refs s2 blk = 0" using D(10) [OF k(1)] k ne that by (simp add: rf)
    show "sl s2 (BufSleep (bidx s2 blk)) = None" if "refs s2 blk = 0"
      using D(11) [OF k(1)] k that by (simp add: rf sl)
    show "view s2 blk = disk s2 blk" if "refs s2 blk = 0" using D(12) [OF k(1)] that by (simp add: vw rf dk)
  next
    fix i assume i: "i \<le> NBUF" "i \<notin> {x} \<and> \<not> mapped s2 i"
    then have nm: "\<not> mapped s i" using mp by blast
    show "i \<in> set L" "b_blockno (bufs s2 i) = 0" "sl s2 (BufSleep i) = None"
      using D(13-15) [of i, OF i(1) _ nm] i(2) B sl by auto
  next
    fix i assume "i \<in> {x}"
    then show "i \<le> NBUF" "i \<notin> set L" "sl s2 (BufSleep i) = None" "b_in_q (bufs s2 i) = 0"
      using xN slx B sl by auto
  qed
qed

lemma skip_used:
  assumes inv: "binvX s (x # L) {}" and q: "queue s1 L"
    and s1: "s1 = s\<lparr>bq_head := h, bufs := (bufs s)(x := (bufs s x)\<lparr>b_in_q := 0\<rparr>)\<rparr>"
    and used: "cached s blk0" "bidx s blk0 = x" "0 < refs s blk0"
  shows "binvX s1 L {}" "view s1 = view s" "refs s1 = refs s" "cached s1 = cached s" "bidx s1 = bidx s"
proof -
  note D = binvXD [OF inv]
  have B: "\<And>i. bufs s1 i = (bufs s i)\<lparr>b_in_q := (if i = x then 0 else b_in_q (bufs s i))\<rparr>"
    by (auto simp: s1)
  show c: "cached s1 = cached s" and bi: "bidx s1 = bidx s" and rf: "refs s1 = refs s"
    by (auto simp: cached_def bidx_def refs_def s1 fun_eq_iff)
  show vw: "view s1 = view s" by (auto simp: view_def c bi B fun_eq_iff) (simp_all add: s1)
  have xN: "x \<notin> set L" using D(1) by (simp add: queue_def)
  have same: "disk s1 = disk s" "sl s1 = sl s" "lk s1 = lk s" "mapped s1 = mapped s"
    by (auto simp: s1 mapped_def c bi fun_eq_iff)
      (auto simp: mapped_def cached_def bidx_def)
  have only: "bidx s blk \<noteq> x" if "cached s blk" "refs s blk = 0" for blk
    using bidx_inj [OF inv that(1) used(1)] used that by auto
  show "binvX s1 L {}"
    unfolding binvX_def c bi rf vw same
  proof (intro conjI allI impI ballI)
    show "queue s1 L" by fact
    fix blk assume k: "cached s blk"
    show "(b_in_q (bufs s1 (bidx s blk)) = 0) = (bidx s blk \<notin> set L)" using D(9) [OF k] B xN by auto
    show "bidx s blk \<in> set L" if "refs s blk = 0" using D(10) [OF k that] only [OF k that] by simp
  next
    fix i assume i: "i \<le> NBUF" "i \<notin> {} \<and> \<not> mapped s i"
    then show "i \<in> set L" using D(13) [OF i(1)] used by (auto simp: mapped_def)
  qed (use D B in auto)
qed

definition unused :: "'a bcache_scheme \<Rightarrow> nat \<Rightarrow> bool" where
  "unused s x \<longleftrightarrow> (\<forall>blk. cached s blk \<and> bidx s blk = x \<longrightarrow> refs s blk = 0)"

definition bsame :: "'a bcache_scheme \<Rightarrow> 'a bcache_scheme \<Rightarrow> bool" where
  \<comment> \<open>\<open>t\<close> differs from \<open>s\<close> at most in the queue and in blocks nobody refers to\<close>
  "bsame s t \<longleftrightarrow> bstep s t \<and> sl t = sl s \<and> disk t = disk s \<and> writes t = writes s \<and>
     view t = view s \<and> refs t = refs s \<and>
     (\<forall>i. b_valid (bufs t i) = b_valid (bufs s i) \<and> b_daddr (bufs t i) = b_daddr (bufs s i)) \<and>
     (\<forall>blk. cached t blk \<longrightarrow> cached s blk) \<and>
     (\<forall>blk. cached s blk \<and> (cached t blk \<or> 0 < refs s blk) \<longrightarrow> cached t blk \<and> bidx t blk = bidx s blk) \<and>
     (\<forall>blk. blk < FSSIZE \<and> \<not> cached s blk \<longrightarrow> hashtable t blk = hashtable s blk)"

lemma bsame_trans:
  assumes "bsame s t" "bsame t u" shows "bsame s u"
proof -
  note S = assms(1) [unfolded bsame_def] and T = assms(2) [unfolded bsame_def]
  have st: "refs t = refs s" "refs u = refs t" using S T by simp_all
  have "bstep s u" using S T bstep_trans by blast
  moreover have "cached u blk \<Longrightarrow> cached s blk" for blk using S T by blast
  moreover have "cached u blk \<and> bidx u blk = bidx s blk"
    if "cached s blk" "cached u blk \<or> 0 < refs s blk" for blk
  proof -
    have "cached t blk \<and> bidx t blk = bidx s blk" using S T that st by metis
    moreover have "cached u blk \<and> bidx u blk = bidx t blk" using T that st calculation by metis
    ultimately show ?thesis by simp
  qed
  moreover have "hashtable u blk = hashtable s blk" if "blk < FSSIZE" "\<not> cached s blk" for blk
    using S T that by metis
  moreover have "sl u = sl s \<and> disk u = disk s \<and> writes u = writes s \<and> view u = view s \<and> refs u = refs s"
    "\<forall>i. b_valid (bufs u i) = b_valid (bufs s i) \<and> b_daddr (bufs u i) = b_daddr (bufs s i)"
    using S T by simp_all
  ultimately show ?thesis unfolding bsame_def by blast
qed

lemma uncached_entry:
  assumes "binvX s L X" "blk < FSSIZE" "\<not> cached s blk"
  shows "hashtable s blk = REFCNT_IDX 0 NONE"
proof -
  have "IDX (hashtable s blk) = NONE" using assms(2,3) by (simp add: cached_def)
  then show ?thesis using refs0_entry [OF assms(2) binvXD(4) [OF assms(1,3)]] by simp
qed

lemma bget_recycle_spec:
  assumes "binvX s L {}" "\<exists>x \<in> set (butlast L). unused s x"
  shows "\<exists>b t L'. bget_recycle s = Some (b, t) \<and> binvX t L' {b} \<and> bsame s t"
  using assms
proof (induction L arbitrary: s)
  case (Cons x L)
  note inv = Cons.prems(1)
  note D = binvXD [OF inv]
  obtain y M where L: "L = y # M" using Cons.prems(2) by (cases L) auto
  obtain h where dq: "dequeue s = Some (Some x, s\<lparr>bq_head := h, bufs := (bufs s)(x := (bufs s x)\<lparr>b_in_q := 0\<rparr>)\<rparr>)"
      and q: "queue (s\<lparr>bq_head := h, bufs := (bufs s)(x := (bufs s x)\<lparr>b_in_q := 0\<rparr>)\<rparr>) L"
    using dequeue_queue [of s x y M] D(1) L by auto
  let ?s1 = "s\<lparr>bq_head := h, bufs := (bufs s)(x := (bufs s x)\<lparr>b_in_q := 0\<rparr>)\<rparr>"
  have q1: "queue ?s1 L" by (rule q)
  let ?b0 = "unat (b_blockno (bufs s x))"
  have xN: "x \<le> NBUF" using D(1) by (simp add: queue_def)
  show ?case
  proof (cases "unused s x")
    case True
    have b0: "?b0 < FSSIZE \<and> refs s ?b0 = 0 \<and> (\<forall>blk. cached s blk \<longrightarrow> bidx s blk = x \<longleftrightarrow> blk = ?b0)"
    proof (cases "mapped s x")
      case True
      then obtain blk where k: "cached s blk" "bidx s blk = x" by (auto simp: mapped_def)
      then have "?b0 = blk" using D(7) [OF k(1)] unat_blk [OF cached_lt [OF k(1)]] by simp
      moreover have "refs s blk = 0" using k \<open>unused s x\<close> unfolding unused_def by blast
      moreover have "bidx s c = x \<longleftrightarrow> c = blk" if "cached s c" for c
        using bidx_inj [OF inv that k(1)] k(2) by auto
      ultimately show ?thesis using cached_lt [OF k(1)] by simp
    next
      case False
      have "?b0 = 0" using D(14) [OF xN _ False] by simp
      moreover have "bidx s c = x \<longleftrightarrow> c = 0" if "cached s c" for c
        using False D(3) that unfolding mapped_def by metis
      ultimately show ?thesis using D(4) [OF D(3)] by (simp add: FSSIZE_def)
    qed
    let ?t = "?s1\<lparr>hashtable := (hashtable s)(?b0 := REFCNT_IDX 0 NONE)\<rparr>"
    have "bget_recycle s = Some (x, ?t)"
      using dq refs0_entry [of ?b0 s] b0 by (subst bget_recycle.simps) (simp add: Let_def)
    moreover have ev: "binvX ?t L {x}" "view ?t = view s" "refs ?t = refs s"
        "\<And>blk. cached ?t blk \<longleftrightarrow> cached s blk \<and> blk \<noteq> ?b0" "\<And>blk. blk \<noteq> ?b0 \<Longrightarrow> bidx ?t blk = bidx s blk"
      using evict [OF inv q1 refl, of ?b0] b0 by simp_all
    moreover have "bsame s ?t"
      unfolding bsame_def ev(2-4)
      using b0 ev(5) uncached_entry [OF inv, of ?b0] by (auto simp: bstep_def)
    ultimately show ?thesis by blast
  next
    case False
    then obtain blk where u: "cached s blk" "bidx s blk = x" "0 < refs s blk" by (auto simp: unused_def)
    note sk = skip_used [OF inv q1 refl u]
    have b0: "?b0 = blk" using D(7) [OF u(1)] u(2) unat_blk [OF cached_lt [OF u(1)]] by simp
    have eq: "bget_recycle s = bget_recycle ?s1"
      using dq refs_pos_entry [OF u(3)] b0 by (subst bget_recycle.simps) (simp add: Let_def)
    have "\<exists>z \<in> set (butlast L). unused ?s1 z"
      using Cons.prems(2) False L by (auto simp: unused_def sk split: if_splits)
    from Cons.IH [OF sk(1) this] obtain b t L' where
      t: "bget_recycle ?s1 = Some (b, t)" "binvX t L' {b}" "bsame ?s1 t" by blast
    moreover have "bsame s ?s1" unfolding bsame_def sk(2-5) by (auto simp: bstep_def)
    ultimately show ?thesis using eq bsame_trans by (metis (no_types))
  qed
qed simp

section \<open>Capacity\<close>

lemma unused_in_queue:
  assumes "binvX s L {}" "i \<le> NBUF" "unused s i" shows "i \<in> set L"
proof (cases "mapped s i")
  case True
  then obtain blk where k: "cached s blk" "bidx s blk = i" by (auto simp: mapped_def)
  then have "refs s blk = 0" using assms(3) unfolding unused_def by blast
  then show ?thesis using binvXD(10) [OF assms(1) k(1)] k(2) by simp
next
  case False
  then show ?thesis using binvXD(13) [OF assms(1,2)] by simp
qed

lemma in_use_finite: "finite (in_use s)"
  by (rule finite_subset [of _ "{..<FSSIZE}"]) (auto simp: in_use_def refs_def split: if_splits)

lemma room_to_recycle:
  assumes inv: "binvX s L {}" and room: "card (in_use s) < NBUF"
  shows "\<exists>x \<in> set (butlast L). unused s x"
proof (rule ccontr)
  assume none: "\<not> ?thesis"
  let ?U = "{i. i \<le> NBUF \<and> \<not> unused s i}"
  have ne: "L \<noteq> []" using binvXD(1) [OF inv] unfolding queue_def by (blast dest: chain_nonempty)
  have split: "set L = insert (last L) (set (butlast L))"
    using ne by (metis append_butlast_last_id list.simps(15) rotate1.simps(2) set_rotate1)
  have "{i. i \<le> NBUF \<and> unused s i} \<subseteq> {last L}"
    using unused_in_queue [OF inv] none split by blast
  then have "{..NBUF} \<subseteq> insert (last L) ?U" by blast
  then have "card {..NBUF} \<le> card (insert (last L) ?U)" by (intro card_mono) auto
  also have "\<dots> \<le> Suc (card ?U)" by (rule card_insert_le_m1) simp_all
  also have "card ?U \<le> card (bidx s ` in_use s)"
    by (intro card_mono finite_imageI in_use_finite) (auto simp: unused_def in_use_def)
  also have "\<dots> \<le> card (in_use s)" by (rule card_image_le [OF in_use_finite])
  finally show False using room by (simp add: NBUF_def)
qed

section \<open>Taking a block\<close>

lemma take_block:
  assumes inv: "binvX t L X" and blk: "0 < blk" "blk < FSSIZE" and lt: "refs t blk + 1 < 2 ^ 27"
    and b: "X = {b} \<and> \<not> cached t blk \<or> X = {} \<and> cached t blk \<and> bidx t blk = b"
    and free: "sl t (BufSleep b) = None"
    and B: "b_valid B" "b_data B = view t blk" "b_dev B = 1" "b_blockno B = of_nat blk"
      "b_in_q B = b_in_q (bufs t b)" "b_qnext B = b_qnext (bufs t b)"
  defines "u \<equiv> t\<lparr>hashtable := (hashtable t)(blk := REFCNT_IDX (of_nat (refs t blk + 1)) (of_nat b)),
                sl := (sl t)(BufSleep b \<mapsto> mypid t), bufs := (bufs t)(b := B)\<rparr>"
  shows "binvX u L {}" "view u = view t" "refs u = (refs t)(blk := refs t blk + 1)" "held u b blk"
    "cached u c \<longleftrightarrow> cached t c \<or> c = blk" "c \<noteq> blk \<Longrightarrow> bidx u c = bidx t c"
proof -
  note D = binvXD [OF inv]
  have bN: "b \<le> NBUF" using b D(5) D(16) by auto
  then have b32: "unat (of_nat b :: u32) = b" "unat (of_nat b :: u32) < 32" by (simp_all add: NBUF_def)
  have r27: "unat (of_nat (refs t blk + 1) :: u32) = refs t blk + 1" using lt by (intro of_nat_lt_word) simp
  have ent: "IDX (REFCNT_IDX (of_nat (refs t blk + 1)) (of_nat b)) = of_nat b"
      "REFCNT (REFCNT_IDX (of_nat (refs t blk + 1)) (of_nat b)) = of_nat (refs t blk + 1)"
    using b32 r27 lt by (intro REFCNT_IDX_inverse; simp)+
  have nN: "of_nat b \<noteq> NONE"
    using b32(1) bN by (auto simp: NONE_def NBUF_def word_unat_eq_iff)
  have ht: "hashtable u = (hashtable t)(blk := REFCNT_IDX (of_nat (refs t blk + 1)) (of_nat b))"
    and ub: "bufs u = (bufs t)(b := B)" and us: "sl u = (sl t)(BufSleep b \<mapsto> mypid t)"
    and ud: "disk u = disk t" "lk u = lk t" "mypid u = mypid t"
    by (simp_all add: u_def)
  show c: "cached u c \<longleftrightarrow> cached t c \<or> c = blk" for c using blk ent nN by (auto simp: cached_def ht)
  show bi: "c \<noteq> blk \<Longrightarrow> bidx u c = bidx t c" for c by (simp add: bidx_def ht)
  have bb: "bidx u blk = b" using ent b32 by (simp add: bidx_def ht)
  show rf: "refs u = (refs t)(blk := refs t blk + 1)"
    using ent r27 blk by (auto simp: refs_def ht fun_eq_iff)
  have other: "bidx t c \<noteq> b" if "cached t c" "c \<noteq> blk" for c
    using b D(6) [OF that(1)] bidx_inj [OF inv that(1)] that(2) by auto
  have "view u c = view t c" for c
  proof (cases "c = blk")
    case True
    then show ?thesis using c [of blk] bb B(1,2) by (simp add: view_def [of u] ub)
  next
    case False
    then show ?thesis using other [of c] c [of c] bi by (auto simp: view_def ub ud)
  qed
  then show vw: "view u = view t" by blast
  show "held u b blk" using c bb B(1) rf by (simp add: held_def ub us ud)
  have mp: "mapped u i" if "i = b \<or> mapped t i" for i
  proof (cases "i = b")
    case True
    then show ?thesis using c [of blk] bb unfolding mapped_def by blast
  next
    case False
    then have "mapped t i" using that by simp
    then obtain d where d: "cached t d" "bidx t d = i" unfolding mapped_def by blast
    then have "d \<noteq> blk" using False b by auto
    then show ?thesis using d c [of d] bi [of d] unfolding mapped_def by blast
  qed
  show "binvX u L {}"
    unfolding binvX_def vw ud
  proof (intro conjI allI impI ballI)
    have "b_qnext (bufs u i) = b_qnext (bufs t i)" for i by (simp add: ub B(6))
    then have "chain (bufs u) L = chain (bufs t) L" by (intro chain_cong)
    then show "queue u L" using D(1) by (simp add: queue_def u_def)
    show "lk t (SleepSpin l) = None" for l using D(2) .
    show "\<not> cached u 0" using D(3) blk c by simp
    show "refs u d = 0" if "\<not> cached u d" for d using that D(4) [of d] by (auto simp: c rf)
  next
    fix d assume k: "cached u d"
    have *: "bidx u d \<le> NBUF \<and> b_blockno (bufs u (bidx u d)) = of_nat d \<and> b_dev (bufs u (bidx u d)) = 1 \<and>
        (b_in_q (bufs u (bidx u d)) = 0 \<longleftrightarrow> bidx u d \<notin> set L) \<and>
        (refs u d = 0 \<longrightarrow> bidx u d \<in> set L \<and> sl u (BufSleep (bidx u d)) = None \<and> view t d = disk t d)"
    proof (cases "d = blk")
      case True
      have "b_in_q B = 0 \<longleftrightarrow> b \<notin> set L" using b D(9) [of blk] D(16) [of b] B(5) by auto
      then show ?thesis using True bN B bb by (simp add: ub rf)
    next
      case False
      then have kt: "cached t d" using k c by simp
      then show ?thesis using False other [OF kt False] bi [OF False] D(5,7-12) [OF kt] by (auto simp: ub rf us)
    qed
    show "bidx u d \<le> NBUF" "b_blockno (bufs u (bidx u d)) = of_nat d" "b_dev (bufs u (bidx u d)) = 1"
      "(b_in_q (bufs u (bidx u d)) = 0) = (bidx u d \<notin> set L)" "bidx u d \<notin> {}" using * by auto
    show "bidx u d \<in> set L" "sl u (BufSleep (bidx u d)) = None" "view t d = disk t d" if "refs u d = 0"
      using * that by auto
  next
    fix i assume i: "i \<le> NBUF" "i \<notin> {} \<and> \<not> mapped u i"
    then have "i \<noteq> b" "\<not> mapped t i" "i \<notin> X" using mp b by blast+
    then show "i \<in> set L" "b_blockno (bufs u i) = 0" "sl u (BufSleep i) = None"
      using D(13-15) [OF i(1)] by (simp_all add: ub us)
  qed simp_all
qed

definition bgot :: "'a bcache_scheme \<Rightarrow> nat \<Rightarrow> nat \<Rightarrow> 'a bcache_scheme \<Rightarrow> bool" where
  \<comment> \<open>block \<open>blk\<close> has been locked in buffer \<open>i\<close>\<close>
  "bgot s blk i t \<longleftrightarrow> binv t \<and> bstep s t \<and> disk t = disk s \<and> writes t = writes s \<and> view t = view s \<and>
     refs t = (refs s)(blk := refs s blk + 1) \<and> held t i blk \<and> \<not> blocked s blk \<and>
     (\<forall>j c. held s j c \<longrightarrow> held t j c) \<and> (\<forall>c. blocked t c \<longrightarrow> c = blk \<or> blocked s c)"

lemma binv_locks: "binv s \<Longrightarrow> lk s (SleepSpin l) = None"
  by (auto simp: binv_def dest: binvXD)

lemma REFCNT_of_refs:
  "blk < FSSIZE \<Longrightarrow> REFCNT (hashtable s blk) = of_nat (refs s blk)"
  by (simp add: refs_def)

lemma bgot_from:
  assumes same: "bsame s t" and tk: "binvX u L {}" "view u = view t" "refs u = (refs t)(blk := refs t blk + 1)"
      "held u b blk" "\<And>c. cached u c \<longleftrightarrow> cached t c \<or> c = blk" "\<And>c. c \<noteq> blk \<Longrightarrow> bidx u c = bidx t c"
    and u: "bstep t u" "disk u = disk t" "writes u = writes t" "sl u = (sl t)(BufSleep b \<mapsto> mypid t)"
      "\<And>i. i \<noteq> b \<Longrightarrow> b_valid (bufs u i) = b_valid (bufs t i)"
    and nb: "\<not> blocked s blk"
  shows "bgot s blk b u"
proof -
  note S = same [unfolded bsame_def]
  have bu: "bidx u blk = b" "cached u blk" using tk(4) by (simp_all add: held_def)
  have ne: "bidx u c \<noteq> b" if "cached u c" "c \<noteq> blk" for c using bidx_inj [OF tk(1) that(1) bu(2)] that(2) bu by auto
  have pid: "mypid u = mypid s" using S u(1) by (simp add: bstep_def)
  have "held u j c" if h: "held s j c" for j c
  proof -
    have k: "cached s c" "0 < refs s c" "bidx s c = j" "sl s (BufSleep j) = Some (mypid s)" "b_valid (bufs s j)"
      using h by (simp_all add: held_def)
    then have "c \<noteq> blk" using nb by (auto simp: blocked_def)
    moreover have "cached t c" "bidx t c = j" using S k by auto
    ultimately have "cached u c" "bidx u c = j" using tk(5,6) by auto
    then show ?thesis
      using k S tk(3) u(4,5) ne [of c] \<open>c \<noteq> blk\<close> pid by (simp add: held_def)
  qed
  moreover have "blocked s c" if "blocked u c" "c \<noteq> blk" for c
  proof -
    have k: "cached u c" "sl u (BufSleep (bidx u c)) \<noteq> None" using that by (simp_all add: blocked_def)
    then have "cached t c" "bidx t c = bidx u c" using tk(5,6) that(2) by auto
    then have "cached s c" "bidx s c = bidx u c" using S by auto
    then show ?thesis using k ne [OF k(1) that(2)] u(4) S by (simp add: blocked_def)
  qed
  ultimately show ?thesis
    unfolding bgot_def binv_def using S tk u nb bstep_trans by (auto simp: fun_upd_def)
qed

lemma bsame_refl [simp]: "bsame s s"
  by (simp add: bsame_def)

lemma bget_cached:
  assumes inv: "binvX s L {}" and k: "cached s blk" and nb: "\<not> blocked s blk"
  shows "bget 1 (of_nat blk) s = Some (bidx s blk, s\<lparr>sl := (sl s)(BufSleep (bidx s blk) \<mapsto> mypid s),
    hashtable := (hashtable s)(blk := REFCNT_IDX (of_nat (refs s blk + 1)) (of_nat (bidx s blk)))\<rparr>)"
proof -
  have lt: "blk < FSSIZE" using k by (rule cached_lt)
  have e: "INC_REFCNT (hashtable s blk) = REFCNT_IDX (of_nat (refs s blk + 1)) (of_nat (bidx s blk))"
    using REFCNT_of_refs [OF lt, of s] by (simp add: INC_REFCNT_def bidx_def add.commute)
  have "IDX (hashtable s blk) \<noteq> NONE" using k by (simp add: cached_def)
  then show ?thesis
    using lt nb k binvXD(2) [OF inv] unfolding bget_def
    by (subst bget_loop.simps)
      (simp add: unat_blk e Let_def acquiresleep_free blocked_def bidx_def [symmetric])
qed

lemma bread_cached:
  assumes inv: "binvX s L {}" and k: "cached s blk" and nb: "\<not> blocked s blk" and lt: "refs s blk + 1 < 2 ^ 27"
  shows "\<exists>i u. bread 1 (of_nat blk) s = Some (i, u) \<and> bgot s blk i u"
proof -
  let ?i = "bidx s blk"
  let ?h = "(hashtable s)(blk := REFCNT_IDX (of_nat (refs s blk + 1)) (of_nat ?i))"
  let ?B = "(bufs s ?i)\<lparr>b_valid := True, b_data := view s blk\<rparr>"
  let ?u = "s\<lparr>hashtable := ?h, sl := (sl s)(BufSleep ?i \<mapsto> mypid s), bufs := (bufs s)(?i := ?B)\<rparr>"
  note D = binvXD [OF inv]
  have b0: "0 < blk" "blk < FSSIZE" using D(3) k cached_lt [OF k] by (cases blk; auto)+
  have bn: "unat (b_blockno (bufs s ?i)) = blk" using D(7) [OF k] unat_blk [OF b0(2)] by simp
  have "bread 1 (of_nat blk) s = Some (?i, ?u)"
  proof (cases "b_valid (bufs s ?i)")
    case True
    then have "(bufs s)(?i := ?B) = bufs s" using k by (auto simp: view_def)
    then show ?thesis unfolding bread_def bget_cached [OF inv k nb] using True by simp
  next
    case False
    then have v: "view s blk = disk s blk" by (simp add: view_def)
    show ?thesis unfolding bread_def bget_cached [OF inv k nb] using False bn
      by (simp add: virtio_disk_rw_def set_buf_def Let_def v)
        (intro bcache.equality ext; simp)
  qed
  moreover have free: "sl s (BufSleep ?i) = None" using nb k by (simp add: blocked_def)
  note tk = take_block [OF inv b0 lt, of ?i ?B]
  have "bgot s blk ?i ?u"
    by (rule bgot_from [OF bsame_refl, of ?u L]; (rule tk)?)
      (use k D(7,8) [OF k] free nb in \<open>simp_all add: bstep_def\<close>)
  ultimately show ?thesis by blast
qed

lemma bget_uncached:
  assumes inv: "binvX s L {}" and k: "\<not> cached s blk" and b0: "0 < blk" "blk < FSSIZE"
    and room: "card (in_use s) < NBUF"
  shows "\<exists>b t L'. binvX t L' {b} \<and> bsame s t \<and> bget 1 (of_nat blk) s = Some (b,
    t\<lparr>hashtable := (hashtable t)(blk := REFCNT_IDX 1 (of_nat b)), sl := (sl t)(BufSleep b \<mapsto> mypid t),
      bufs := (bufs t)(b := (bufs t b)\<lparr>b_valid := False, b_dev := 1, b_blockno := of_nat blk\<rparr>)\<rparr>)"
proof -
  obtain b t L' where t: "bget_recycle s = Some (b, t)" "binvX t L' {b}" "bsame s t"
    using bget_recycle_spec [OF inv room_to_recycle [OF inv room]] by blast
  have e: "hashtable t blk = hashtable s blk" "IDX (hashtable s blk) = NONE"
    using t(3) k b0 by (auto simp: bsame_def cached_def)
  have "bget 1 (of_nat blk) s = Some (b,
    t\<lparr>hashtable := (hashtable t)(blk := REFCNT_IDX 1 (of_nat b)), sl := (sl t)(BufSleep b \<mapsto> mypid t),
      bufs := (bufs t)(b := (bufs t b)\<lparr>b_valid := False, b_dev := 1, b_blockno := of_nat blk\<rparr>)\<rparr>)"
    using b0 e t(1) binvXD(2,16) [OF t(2)] unfolding bget_def
    by (subst bget_loop.simps)
      (simp add: unat_blk Let_def acquiresleep_free set_buf_def)
  then show ?thesis using t by blast
qed

lemma bread_uncached:
  assumes inv: "binvX s L {}" and k: "\<not> cached s blk" and b0: "0 < blk" "blk < FSSIZE"
    and room: "card (in_use s) < NBUF"
  shows "\<exists>i u. bread 1 (of_nat blk) s = Some (i, u) \<and> bgot s blk i u"
proof -
  obtain b t L' where t: "binvX t L' {b}" "bsame s t" and g: "bget 1 (of_nat blk) s = Some (b,
    t\<lparr>hashtable := (hashtable t)(blk := REFCNT_IDX 1 (of_nat b)), sl := (sl t)(BufSleep b \<mapsto> mypid t),
      bufs := (bufs t)(b := (bufs t b)\<lparr>b_valid := False, b_dev := 1, b_blockno := of_nat blk\<rparr>)\<rparr>)"
    using bget_uncached [OF assms] by blast
  have kt: "\<not> cached t blk" using t(2) k by (auto simp: bsame_def)
  have r0: "refs t blk = 0" using binvXD(4) [OF t(1) kt] .
  have v: "view t blk = disk t blk" using kt by (simp add: view_def)
  let ?B = "(bufs t b)\<lparr>b_valid := True, b_data := view t blk, b_dev := 1, b_blockno := of_nat blk\<rparr>"
  let ?u = "t\<lparr>hashtable := (hashtable t)(blk := REFCNT_IDX (of_nat (refs t blk + 1)) (of_nat b)),
             sl := (sl t)(BufSleep b \<mapsto> mypid t), bufs := (bufs t)(b := ?B)\<rparr>"
  have "bread 1 (of_nat blk) s = Some (b, ?u)"
    unfolding bread_def g using b0
    by (simp add: virtio_disk_rw_def set_buf_def Let_def unat_blk r0 v) (intro bcache.equality ext; simp)
  moreover note tk = take_block [OF t(1) b0, of b ?B]
  have "bgot s blk b ?u"
    by (rule bgot_from [OF t(2), of ?u L']; (rule tk)?)
      (use kt r0 binvXD(16) [OF t(1)] k in \<open>simp_all add: bstep_def blocked_def\<close>)
  ultimately show ?thesis by blast
qed

lemma bread_ok:
  assumes "binv s" "\<not> blocked s blk" "0 < blk" "blk < FSSIZE" "refs s blk + 1 < 2 ^ 27"
    and "0 < refs s blk \<or> card (in_use s) < NBUF"
  shows "\<exists>i u. bread 1 (of_nat blk) s = Some (i, u) \<and> bgot s blk i u"
proof -
  obtain L where L: "binvX s L {}" using assms(1) by (auto simp: binv_def)
  show ?thesis
  proof (cases "cached s blk")
    case True
    then show ?thesis using bread_cached [OF L True] assms by blast
  next
    case False
    then have "refs s blk = 0" using binvXD(4) [OF L False] by simp
    then show ?thesis using bread_uncached [OF L False] assms by simp
  qed
qed

section \<open>Working on a locked block\<close>

lemma binv_transfer:
  assumes inv: "binvX s L {}" and same: "cached u = cached s" "bidx u = bidx s" "lk u = lk s"
      "\<And>i. b_blockno (bufs u i) = b_blockno (bufs s i)" "\<And>i. b_dev (bufs u i) = b_dev (bufs s i)"
    and q: "queue u L'" "set L \<subseteq> set L'"
    and zero: "\<And>blk. cached s blk \<Longrightarrow> refs u blk = 0 \<Longrightarrow>
        bidx s blk \<in> set L' \<and> sl u (BufSleep (bidx s blk)) = None \<and> view u blk = disk u blk"
    and unc: "\<And>blk. \<not> cached s blk \<Longrightarrow> refs u blk = refs s blk"
    and inq: "\<And>blk. cached s blk \<Longrightarrow> b_in_q (bufs u (bidx s blk)) = 0 \<longleftrightarrow> bidx s blk \<notin> set L'"
    and slk: "\<And>i. \<not> mapped s i \<Longrightarrow> sl u (BufSleep i) = sl s (BufSleep i)"
  shows "binvX u L' {}"
proof -
  note D = binvXD [OF inv]
  have mp: "mapped u = mapped s" by (simp add: mapped_def same fun_eq_iff)
  show ?thesis
    unfolding binvX_def same mp using D q zero unc inq slk by (intro conjI allI impI ballI) (simp_all, blast+)
qed

definition bmod :: "nat \<Rightarrow> bytes \<Rightarrow> 'a bcache_scheme \<Rightarrow> 'a bcache_scheme" where
  \<comment> \<open>the caller has changed \<open>b->data\<close>\<close>
  "bmod i d s = set_buf i (\<lambda>b. b\<lparr>b_data := d\<rparr>) s"

definition bset :: "'a bcache_scheme \<Rightarrow> nat \<Rightarrow> bytes \<Rightarrow> 'a bcache_scheme \<Rightarrow> bool" where
  \<comment> \<open>\<open>t\<close> is \<open>s\<close> with contents \<open>d\<close> for block \<open>blk\<close>, in the cache only\<close>
  "bset s blk d t \<longleftrightarrow> binv t \<and> bstep s t \<and> disk t = disk s \<and> writes t = writes s \<and>
     view t = (view s)(blk := d) \<and> refs t = refs s \<and>
     (\<forall>j c. held t j c \<longleftrightarrow> held s j c) \<and> (\<forall>c. blocked t c \<longleftrightarrow> blocked s c)"

lemma bmod_ok:
  assumes "binv s" "held s i blk" shows "bset s blk d (bmod i d s)"
proof -
  obtain L where inv: "binvX s L {}" using assms(1) by (auto simp: binv_def)
  let ?u = "bmod i d s"
  note D = binvXD [OF inv]
  have h: "cached s blk" "bidx s blk = i" "b_valid (bufs s i)" "0 < refs s blk" "sl s (BufSleep i) = Some (mypid s)"
    using assms(2) by (simp_all add: held_def)
  have same: "cached ?u = cached s" "bidx ?u = bidx s" "refs ?u = refs s" "lk ?u = lk s" "disk ?u = disk s"
      "sl ?u = sl s" "writes ?u = writes s" "mypid ?u = mypid s" "bstep s ?u"
    by (auto simp: bmod_def set_buf_def cached_def bidx_def refs_def bstep_def fun_eq_iff)
  have B: "bufs ?u j = (bufs s j)\<lparr>b_data := (if j = i then d else b_data (bufs s j))\<rparr>" for j
    by (simp add: bmod_def set_buf_def)
  have vw: "view ?u c = (if c = blk then d else view s c)" for c
  proof (cases "c = blk")
    case True
    then show ?thesis using h by (simp add: view_def same B)
  next
    case False
    have "bidx s c \<noteq> i" if "cached s c" using bidx_inj [OF inv that h(1)] False h(2) by metis
    then show ?thesis using False by (simp add: view_def same B)
  qed
  have "queue ?u L"
    using D(1) unfolding queue_def by (subst chain_cong [of L _ "bufs s"]) (auto simp: B, simp_all add: bmod_def set_buf_def)
  then have "binvX ?u L {}"
    by (intro binv_transfer [OF inv same(1,2,4)])
      (use D h in \<open>auto simp: B same vw split: if_splits\<close>)
  then have "binv ?u" unfolding binv_def by blast
  then show ?thesis
    unfolding bset_def using vw by (simp add: same held_def blocked_def B fun_eq_iff)
qed

definition bput :: "'a bcache_scheme \<Rightarrow> nat \<Rightarrow> 'a bcache_scheme \<Rightarrow> bool" where
  \<comment> \<open>\<open>t\<close> is \<open>s\<close> after block \<open>blk\<close> was written to the disk\<close>
  "bput s blk t \<longleftrightarrow> binv t \<and> bstep s t \<and> disk t = (disk s)(blk := view s blk) \<and>
     writes t = writes s @ [(blk, view s blk)] \<and> view t = view s \<and> refs t = refs s \<and>
     (\<forall>j c. held t j c \<longleftrightarrow> held s j c) \<and> (\<forall>c. blocked t c \<longleftrightarrow> blocked s c)"

lemma bwrite_ok:
  assumes "binv s" "held s i blk" shows "\<exists>t. bwrite i s = Some t \<and> bput s blk t"
proof -
  obtain L where inv: "binvX s L {}" using assms(1) by (auto simp: binv_def)
  note D = binvXD [OF inv]
  have h: "cached s blk" "bidx s blk = i" "b_valid (bufs s i)" "0 < refs s blk" "sl s (BufSleep i) = Some (mypid s)"
    using assms(2) by (simp_all add: held_def)
  have bn: "unat (b_blockno (bufs s i)) = blk" using D(7) [OF h(1)] h(2) unat_blk [OF cached_lt [OF h(1)]] by simp
  have v: "view s blk = b_data (bufs s i)" using h by (simp add: view_def)
  let ?u = "s\<lparr>disk := (disk s)(blk := view s blk), writes := writes s @ [(blk, view s blk)]\<rparr>"
  have eq: "bwrite i s = Some ?u"
    using h(5) D(2) bn by (simp add: bwrite_def holdingsleep_free virtio_disk_rw_def v)
  have same: "cached ?u = cached s" "bidx ?u = bidx s" "refs ?u = refs s"
    by (auto simp: cached_def bidx_def refs_def fun_eq_iff)
  have vw: "view ?u = view s" using h by (auto simp: view_def cached_def bidx_def fun_eq_iff)
  have "binvX ?u L {}"
  proof (rule binv_transfer [OF inv same(1,2)])
    show "queue ?u L" using D(1) by (simp add: queue_def)
    show "bidx s c \<in> set L \<and> sl ?u (BufSleep (bidx s c)) = None \<and> view ?u c = disk ?u c"
      if k: "cached s c" "refs ?u c = 0" for c
    proof -
      have "refs s c = 0" using k(2) same(3) by simp
      then show ?thesis using D(10-12) [OF k(1)] h(4) by (auto simp: vw)
    qed
  qed (use D same in auto)
  then have "binv ?u" unfolding binv_def by blast
  then have "bput s blk ?u"
    unfolding bput_def using vw same by (simp add: held_def blocked_def bstep_def)
  then show ?thesis using eq by blast
qed

section \<open>Reference counts\<close>

definition with_refs :: "nat \<Rightarrow> nat \<Rightarrow> 'a bcache_scheme \<Rightarrow> 'a bcache_scheme" where
  "with_refs blk n s =
     s\<lparr>hashtable := (hashtable s)(blk := REFCNT_IDX (of_nat n) (IDX (hashtable s blk)))\<rparr>"

lemma with_refs_facts:
  assumes k: "cached s blk" and n: "n < 2 ^ 27"
  shows "cached (with_refs blk n s) = cached s" "bidx (with_refs blk n s) = bidx s"
    "refs (with_refs blk n s) = (refs s)(blk := n)" "view (with_refs blk n s) = view s"
    "mapped (with_refs blk n s) = mapped s"
proof -
  have u: "unat (of_nat n :: u32) = n" using n by (intro of_nat_lt_word) simp
  have e: "IDX (REFCNT_IDX (of_nat n) (IDX (hashtable s blk))) = IDX (hashtable s blk)"
      "REFCNT (REFCNT_IDX (of_nat n) (IDX (hashtable s blk))) = of_nat n"
    using n u by (intro REFCNT_IDX_inverse IDX_lt; simp)+
  show c: "cached (with_refs blk n s) = cached s" "bidx (with_refs blk n s) = bidx s"
    by (auto simp: cached_def bidx_def with_refs_def e fun_eq_iff)
  show "refs (with_refs blk n s) = (refs s)(blk := n)"
    using cached_lt [OF k] by (auto simp: refs_def with_refs_def e u fun_eq_iff)
  show "view (with_refs blk n s) = view s" "mapped (with_refs blk n s) = mapped s"
    unfolding view_def mapped_def c by (simp_all add: with_refs_def cong: if_cong)
qed

lemma with_refs_same [simp]:
  "bufs (with_refs blk n s) = bufs s" "sl (with_refs blk n s) = sl s" "lk (with_refs blk n s) = lk s"
  "disk (with_refs blk n s) = disk s" "writes (with_refs blk n s) = writes s"
  "mypid (with_refs blk n s) = mypid s" "bstep s (with_refs blk n s)" "queue (with_refs blk n s) = queue s"
  by (simp_all add: with_refs_def bstep_def queue_def fun_eq_iff)

lemma INC_DEC_REFCNT:
  assumes "blk < FSSIZE"
  shows "INC_REFCNT (hashtable s blk) = REFCNT_IDX (of_nat (refs s blk + 1)) (IDX (hashtable s blk))"
    and "0 < refs s blk \<Longrightarrow>
      REFCNT_IDX (REFCNT (hashtable s blk) - 1) (IDX (hashtable s blk)) =
      REFCNT_IDX (of_nat (refs s blk - 1)) (IDX (hashtable s blk))"
  using REFCNT_of_refs [OF assms, of s] by (simp_all add: INC_REFCNT_def add.commute of_nat_diff)

definition bcount :: "'a bcache_scheme \<Rightarrow> nat \<Rightarrow> nat \<Rightarrow> 'a bcache_scheme \<Rightarrow> bool" where
  \<comment> \<open>\<open>t\<close> is \<open>s\<close> with \<open>n\<close> references to block \<open>blk\<close>\<close>
  "bcount s blk n t \<longleftrightarrow> binv t \<and> bstep s t \<and> disk t = disk s \<and> writes t = writes s \<and> view t = view s \<and>
     refs t = (refs s)(blk := n) \<and> (\<forall>j c. held t j c \<longleftrightarrow> held s j c) \<and> (\<forall>c. blocked t c \<longleftrightarrow> blocked s c)"

lemma with_refs_ok:
  assumes bi: "binv s" and k: "cached s blk" and n: "0 < n" "n < 2 ^ 27" and r: "0 < refs s blk"
  shows "bcount s blk n (with_refs blk n s)"
proof -
  obtain L where inv: "binvX s L {}" using bi by (auto simp: binv_def)
  note D = binvXD [OF inv] and W = with_refs_facts [OF k n(2)]
  have "binvX (with_refs blk n s) L {}"
    by (rule binv_transfer [OF inv W(1,2)]) (use D n k in \<open>auto simp: W split: if_splits\<close>)
  then have "binv (with_refs blk n s)" unfolding binv_def by blast
  then show ?thesis unfolding bcount_def using n r by (simp add: W held_def blocked_def)
qed

lemma held_blockno:
  assumes "binv s" "held s i blk"
  shows "unat (b_blockno (bufs s i)) = blk" "blk < FSSIZE" "cached s blk" "0 < refs s blk" "i \<le> NBUF"
    "bidx s blk = i" "b_dev (bufs s i) = 1" "sl s (BufSleep i) = Some (mypid s)"
proof -
  obtain L where inv: "binvX s L {}" using assms(1) by (auto simp: binv_def)
  have k: "cached s blk" "bidx s blk = i" using assms(2) by (simp_all add: held_def)
  show "unat (b_blockno (bufs s i)) = blk" "i \<le> NBUF" "b_dev (bufs s i) = 1"
    using binvXD(5,7,8) [OF inv k(1)] k(2) unat_blk [OF cached_lt [OF k(1)]] by simp_all
  show "blk < FSSIZE" "cached s blk" "0 < refs s blk" "bidx s blk = i" "sl s (BufSleep i) = Some (mypid s)"
    using assms(2) cached_lt [OF k(1)] by (simp_all add: held_def)
qed

lemma bpin_ok:
  assumes "binv s" "held s i blk" "refs s blk + 1 < 2 ^ 27"
  shows "bcount s blk (refs s blk + 1) (bpin i s)"
proof -
  note h = held_blockno [OF assms(1,2)]
  have "bpin i s = with_refs blk (refs s blk + 1) s"
    using h INC_DEC_REFCNT(1) [OF h(2), of s] by (simp add: bpin_def with_refs_def)
  then show ?thesis using with_refs_ok [OF assms(1) h(3) _ assms(3) h(4)] by simp
qed

lemma refs_lt: "refs s blk < 2 ^ 27"
  using REFCNT_lt by (simp add: refs_def)

lemma bunpin_ok:
  assumes "binv s" "held s i blk" "1 < refs s blk"
  shows "bcount s blk (refs s blk - 1) (bunpin i s)"
proof -
  note h = held_blockno [OF assms(1,2)]
  have "bunpin i s = with_refs blk (refs s blk - 1) s"
    using h INC_DEC_REFCNT(2) [OF h(2,4)] by (simp add: bunpin_def with_refs_def DEC_REFCNT_def)
  moreover have "refs s blk - 1 < 2 ^ 27" using refs_lt [of s blk] by simp
  ultimately show ?thesis using with_refs_ok [OF assms(1) h(3) _ _ h(4)] assms(3) by simp
qed

definition bfreed :: "'a bcache_scheme \<Rightarrow> nat \<Rightarrow> 'a bcache_scheme \<Rightarrow> bool" where
  \<comment> \<open>\<open>t\<close> is \<open>s\<close> after this process released its lock on block \<open>blk\<close>\<close>
  "bfreed s blk t \<longleftrightarrow> binv t \<and> bstep s t \<and> disk t = disk s \<and> writes t = writes s \<and> view t = view s \<and>
     refs t = (refs s)(blk := refs s blk - 1) \<and>
     (\<forall>j c. held t j c \<longleftrightarrow> held s j c \<and> c \<noteq> blk) \<and> (\<forall>c. blocked t c \<longleftrightarrow> blocked s c \<and> c \<noteq> blk)"

lemma brelse_ok:
  assumes bi: "binv s" and hd: "held s i blk" and clean: "1 < refs s blk \<or> view s blk = disk s blk"
  shows "\<exists>t. brelse i s = Some t \<and> bfreed s blk t"
proof -
  obtain L where inv: "binvX s L {}" using bi by (auto simp: binv_def)
  note D = binvXD [OF inv] and h = held_blockno [OF bi hd]
  define n where "n = refs s blk - 1"
  have n27: "n < 2 ^ 27" using refs_lt [of s blk] by (simp add: n_def)
  note W = with_refs_facts [OF h(3) n27]
  let ?w = "with_refs blk n s"
  let ?u = "with_refs blk n (s\<lparr>sl := (sl s)(BufSleep i := None)\<rparr>)"
  have cnt: "unat (REFCNT (hashtable s blk) - 1) = n"
    using h(2,4) by (subst unat_minus_one) (simp_all add: n_def refs_def unat_eq_0 [symmetric])
  have "REFCNT (hashtable s blk) - 1 = 0 \<longleftrightarrow> n = 0" unfolding word_unat_eq_iff cnt by simp
  then have br: "brelse i s = (if n = 0 then enqueue i ?u else Some ?u)"
    using h(1,7,8) D(2) INC_DEC_REFCNT(2) [OF h(2,4), folded n_def]
    by (simp add: brelse_def holdingsleep_free releasesleep_free Let_def with_refs_def)
  have other: "bidx s c \<noteq> i" if "cached s c" "c \<noteq> blk" for c
    using bidx_inj [OF inv that(1) h(3)] that(2) h(6) by metis
  have post: "bfreed s blk t"
    if t: "binv t" "cached t = cached s" "bidx t = bidx s" "refs t = refs ?w" "sl t = sl ?u" "view t = view s"
      "disk t = disk s" "writes t = writes s" "bstep s t" "\<And>j. b_valid (bufs t j) = b_valid (bufs s j)" for t
  proof -
    have pid: "mypid t = mypid s" using t(9) by (simp add: bstep_def)
    have "held t j c \<longleftrightarrow> held s j c \<and> c \<noteq> blk" for j c
      using other [of c] h(6) by (auto simp: held_def t(2-5,10) W(3) pid)
    moreover have "blocked t c \<longleftrightarrow> blocked s c \<and> c \<noteq> blk" for c
      using other [of c] h(6) by (auto simp: blocked_def t(2,3,5))
    ultimately show ?thesis unfolding bfreed_def n_def [symmetric] using t W(3) by simp
  qed
  have slu: "sl ?u (BufSleep j) = (if j = i then None else sl s (BufSleep j))" for j by simp
  have vd: "view s blk = disk s blk" if "n = 0" using clean that h(4) by (auto simp: n_def)
  have trans: "binvX t L' {}"
    if t: "cached t = cached s" "bidx t = bidx s" "refs t = refs ?w" "sl t = sl ?u" "view t = view s"
      "disk t = disk s" "lk t = lk s" "\<And>j. b_blockno (bufs t j) = b_blockno (bufs s j)"
      "\<And>j. b_dev (bufs t j) = b_dev (bufs s j)" and q: "queue t L'" "set L \<subseteq> set L'" "n = 0 \<longrightarrow> i \<in> set L'"
      and iq: "\<And>c. cached s c \<Longrightarrow> b_in_q (bufs t (bidx s c)) = 0 \<longleftrightarrow> bidx s c \<notin> set L'" for t L'
  proof (rule binv_transfer [OF inv t(1,2,7-9) q(1,2) _ _ iq])
    fix c assume k: "cached s c" "refs t c = 0"
    show "bidx s c \<in> set L' \<and> sl t (BufSleep (bidx s c)) = None \<and> view t c = disk t c"
    proof (cases "c = blk")
      case True
      then show ?thesis using k q(3) vd h(6) by (simp add: t(3-6) W(3))
    next
      case False
      then have "refs s c = 0" using k by (simp add: t(3) W(3))
      then show ?thesis using D(10-12) [OF k(1)] q(2) other [OF k(1) False] by (auto simp: t(4-6))
    qed
  next
    show "refs t c = refs s c" if "\<not> cached s c" for c using that h(3) by (auto simp: t(3) W(3))
    show "sl t (BufSleep j) = sl s (BufSleep j)" if "\<not> mapped s j" for j
      using that h(3,6) unfolding mapped_def by (auto simp: t(4))
  qed
  have u: "cached ?u = cached s" "bidx ?u = bidx s" "refs ?u = refs ?w" "view ?u = view s" "bstep s ?u"
      "queue ?u L" "bufs ?u = bufs s"
  proof -
    let ?s = "s\<lparr>sl := (sl s)(BufSleep i := None)\<rparr>"
    have s: "cached ?s = cached s" "bidx ?s = bidx s" "refs ?s = refs s" "queue ?s = queue s"
      by (simp_all add: cached_def bidx_def refs_def queue_def fun_eq_iff)
    have vs: "view ?s = view s" by (simp add: view_def s fun_eq_iff)
    have "cached ?s blk" using h(3) s by simp
    note W' = with_refs_facts [OF this n27]
    show "cached ?u = cached s" "bidx ?u = bidx s" "refs ?u = refs ?w" "view ?u = view s"
      using W W' s vs by simp_all
    show "bstep s ?u" "queue ?u L" "bufs ?u = bufs s" using D(1) s by (simp_all add: bstep_def) (simp add: with_refs_def)
  qed
  have iu: "b_in_q (bufs s i) = 0 \<longleftrightarrow> i \<notin> set L" using D(9) [OF h(3)] h(6) by simp
  show ?thesis
  proof (cases "n = 0 \<and> b_in_q (bufs s i) = 0")
    case False
    then have "n = 0 \<longrightarrow> i \<in> set L" using iu by blast
    then have "binvX ?u L {}" by (intro trans) (use u D(9) in auto)
    then have "binv ?u" unfolding binv_def by blast
    then have "bfreed s blk ?u" by (rule post) (use u in simp_all)
    moreover have "brelse i s = Some ?u" unfolding br using False by (auto simp: enqueue_def u(7))
    ultimately show ?thesis by blast
  next
    case True
    obtain t B' x where e: "enqueue i ?u = Some t" "queue t (L @ [i])" "t = ?u\<lparr>bufs := B', bq_tail := x\<rparr>"
        "\<And>j. B' j = (bufs ?u j)\<lparr>b_qnext := b_qnext (B' j), b_in_q := (if j = i then 1 else b_in_q (bufs ?u j))\<rparr>"
      using enqueue_queue [OF u(6) h(5)] True iu unfolding u(7) by blast
    have tB: "b_valid (B' j) = b_valid (bufs s j)" "b_data (B' j) = b_data (bufs s j)"
        "b_blockno (B' j) = b_blockno (bufs s j)" "b_dev (B' j) = b_dev (bufs s j)"
        "b_in_q (B' j) = (if j = i then 1 else b_in_q (bufs s j))" for j
      by (subst e(4), simp add: u(7))+
    have t: "cached t = cached s" "bidx t = bidx s" "refs t = refs ?w" "view t = view s" "bstep s t"
      "sl t = sl ?u" "disk t = disk s" "lk t = lk s" "writes t = writes s" "bufs t = B'"
    proof -
      have tu: "cached t = cached ?u" "bidx t = bidx ?u" "refs t = refs ?u"
        by (simp_all add: e(3) cached_def bidx_def refs_def fun_eq_iff)
      have "view t = view ?u" unfolding view_def tu by (simp add: e(3) tB u(7) cong: if_cong)
      then show "cached t = cached s" "bidx t = bidx s" "refs t = refs ?w" "view t = view s"
        using tu u(1-4) by simp_all
      show "bstep s t" using u(5) by (simp add: e(3) bstep_def)
      show "sl t = sl ?u" "disk t = disk s" "lk t = lk s" "writes t = writes s" "bufs t = B'"
        by (simp_all add: e(3))
    qed
    have "binvX t (L @ [i]) {}"
      by (rule trans) (use t e(2) tB D(9) True in \<open>auto split: if_splits\<close>)
    then have "binv t" unfolding binv_def by blast
    then have "bfreed s blk t" by (rule post) (use t tB in simp_all)
    moreover have "brelse i s = Some t" unfolding br using True e(1) by simp
    ultimately show ?thesis by blast
  qed
qed

section \<open>Clients' own state\<close>

definition same_cache :: "'a bcache_scheme \<Rightarrow> 'b bcache_scheme \<Rightarrow> bool" where
  \<comment> \<open>\<open>t\<close> differs from \<open>s\<close> only in state that the cache does not look at\<close>
  "same_cache s t \<longleftrightarrow> bufs t = bufs s \<and> hashtable t = hashtable s \<and> bq_head t = bq_head s \<and>
     bq_tail t = bq_tail s \<and> disk t = disk s \<and> writes t = writes s \<and> mypid t = mypid s \<and>
     (\<forall>i. sl t (BufSleep i) = sl s (BufSleep i)) \<and> (\<forall>l. lk t (SleepSpin l) = lk s (SleepSpin l))"

lemma same_cacheD:
  assumes "same_cache s t"
  shows "view t = view s" "refs t = refs s" "blocked t = blocked s" "held t = held s" "binv t = binv s"
    "disk t = disk s" "writes t = writes s" "in_use t = in_use s"
proof -
  note S = assms [unfolded same_cache_def]
  have c: "cached t = cached s" and i: "bidx t = bidx s" using S by (simp_all add: cached_def bidx_def fun_eq_iff)
  show r: "refs t = refs s" using S by (simp add: refs_def fun_eq_iff)
  show v: "view t = view s" and b: "blocked t = blocked s" and h: "held t = held s"
    using S by (simp_all add: view_def blocked_def held_def c i r fun_eq_iff cong: if_cong)
  have "mapped t = mapped s" by (simp add: mapped_def c i fun_eq_iff)
  then show "binv t = binv s" using S by (simp add: binv_def binvX_def c r i v queue_def)
  show "disk t = disk s" "writes t = writes s" using S by simp_all
  show "in_use t = in_use s" by (simp add: in_use_def r)
qed

end
