(* ===== verification/BlockCache.thy ===== *)
theory BlockCache
  imports BioInv
begin

text \<open>
  The interface of the buffer cache (\<open>bread\<close>, \<open>bwrite\<close>, \<open>brelse\<close> and changes of
  \<open>b->data\<close> in between) as a locale, the access patterns its clients use, and its
  interpretation on the model of \<open>kernel/bio.c\<close>.
\<close>

locale block_cache =
  fixes inv :: "'s \<Rightarrow> bool"
    and get :: "nat \<Rightarrow> 's \<Rightarrow> (nat \<times> 's) option"
    and upd :: "nat \<Rightarrow> bytes \<Rightarrow> 's \<Rightarrow> 's"
    and put :: "nat \<Rightarrow> 's \<Rightarrow> 's option"
    and rel :: "nat \<Rightarrow> 's \<Rightarrow> 's option"
    and pin :: "nat \<Rightarrow> 's \<Rightarrow> 's"
    and unpin :: "nat \<Rightarrow> 's \<Rightarrow> 's"
    and data :: "'s \<Rightarrow> nat \<Rightarrow> bytes"
    and vw :: "'s \<Rightarrow> nat \<Rightarrow> bytes"
    and dsk :: "'s \<Rightarrow> nat \<Rightarrow> bytes"
    and cnt :: "'s \<Rightarrow> nat \<Rightarrow> nat"
    and hold :: "'s \<Rightarrow> nat \<Rightarrow> nat \<Rightarrow> bool"
    and busy :: "'s \<Rightarrow> nat \<Rightarrow> bool"
    and wrs :: "'s \<Rightarrow> (nat \<times> bytes) list"
    and stp :: "'s \<Rightarrow> 's \<Rightarrow> bool"
    and ok :: "nat \<Rightarrow> bool"
    and lim :: nat
    and cap :: nat
  assumes stp_refl: "stp s s" and stp_trans: "stp s t \<Longrightarrow> stp t u \<Longrightarrow> stp s u"
    and get_law: "inv s \<Longrightarrow> \<not> busy s b \<Longrightarrow> ok b \<Longrightarrow> cnt s b < lim \<Longrightarrow>
      0 < cnt s b \<or> card {c. 0 < cnt s c} < cap \<Longrightarrow>
      \<exists>i t. get b s = Some (i, t) \<and> inv t \<and> stp s t \<and> dsk t = dsk s \<and> wrs t = wrs s \<and> vw t = vw s \<and>
        cnt t = (cnt s)(b := Suc (cnt s b)) \<and> hold t i b \<and>
        (\<forall>j c. hold s j c \<longrightarrow> hold t j c) \<and> (\<forall>c. busy t c \<longrightarrow> c = b \<or> busy s c)"
    and data_law: "inv s \<Longrightarrow> hold s i b \<Longrightarrow> data s i = vw s b"
    and upd_law: "inv s \<Longrightarrow> hold s i b \<Longrightarrow> inv (upd i d s) \<and> stp s (upd i d s) \<and> dsk (upd i d s) = dsk s \<and>
      wrs (upd i d s) = wrs s \<and> vw (upd i d s) = (vw s)(b := d) \<and> cnt (upd i d s) = cnt s \<and>
      (\<forall>j c. hold (upd i d s) j c \<longleftrightarrow> hold s j c) \<and> (\<forall>c. busy (upd i d s) c \<longleftrightarrow> busy s c)"
    and put_law: "inv s \<Longrightarrow> hold s i b \<Longrightarrow> \<exists>t. put i s = Some t \<and> inv t \<and> stp s t \<and>
      dsk t = (dsk s)(b := vw s b) \<and> wrs t = wrs s @ [(b, vw s b)] \<and> vw t = vw s \<and> cnt t = cnt s \<and>
      (\<forall>j c. hold t j c \<longleftrightarrow> hold s j c) \<and> (\<forall>c. busy t c \<longleftrightarrow> busy s c)"
    and rel_law: "inv s \<Longrightarrow> hold s i b \<Longrightarrow> 1 < cnt s b \<or> vw s b = dsk s b \<Longrightarrow> \<exists>t. rel i s = Some t \<and>
      inv t \<and> stp s t \<and> dsk t = dsk s \<and> wrs t = wrs s \<and> vw t = vw s \<and> cnt t = (cnt s)(b := cnt s b - 1) \<and>
      (\<forall>j c. hold t j c \<longleftrightarrow> hold s j c \<and> c \<noteq> b) \<and> (\<forall>c. busy t c \<longleftrightarrow> busy s c \<and> c \<noteq> b)"
    and pin_law: "inv s \<Longrightarrow> hold s i b \<Longrightarrow> cnt s b < lim \<Longrightarrow> inv (pin i s) \<and> stp s (pin i s) \<and>
      dsk (pin i s) = dsk s \<and> wrs (pin i s) = wrs s \<and> vw (pin i s) = vw s \<and>
      cnt (pin i s) = (cnt s)(b := Suc (cnt s b)) \<and>
      (\<forall>j c. hold (pin i s) j c \<longleftrightarrow> hold s j c) \<and> (\<forall>c. busy (pin i s) c \<longleftrightarrow> busy s c)"
    and unpin_law: "inv s \<Longrightarrow> hold s i b \<Longrightarrow> 1 < cnt s b \<Longrightarrow> inv (unpin i s) \<and> stp s (unpin i s) \<and>
      dsk (unpin i s) = dsk s \<and> wrs (unpin i s) = wrs s \<and> vw (unpin i s) = vw s \<and>
      cnt (unpin i s) = (cnt s)(b := cnt s b - 1) \<and>
      (\<forall>j c. hold (unpin i s) j c \<longleftrightarrow> hold s j c) \<and> (\<forall>c. busy (unpin i s) c \<longleftrightarrow> busy s c)"
    and clean_law: "inv s \<Longrightarrow> cnt s b = 0 \<Longrightarrow> vw s b = dsk s b"
    and hold_cnt: "hold s i b \<Longrightarrow> 0 < cnt s b"
    and hold_busy: "hold s i b \<Longrightarrow> busy s b"
begin

definition room :: "'s \<Rightarrow> nat \<Rightarrow> bool" where
  "room s b \<longleftrightarrow> ok b \<and> \<not> busy s b \<and> cnt s b < lim \<and> (0 < cnt s b \<or> card {c. 0 < cnt s c} < cap)"

definition effect ::
  "'s \<Rightarrow> (nat \<Rightarrow> bytes) \<Rightarrow> (nat \<Rightarrow> bytes) \<Rightarrow> (nat \<times> bytes) list \<Rightarrow> (nat \<Rightarrow> nat) \<Rightarrow> 's \<Rightarrow> bool" where
  \<comment> \<open>\<open>t\<close> is \<open>s\<close> with view \<open>v\<close>, disk \<open>d\<close>, counts \<open>c\<close> and writes \<open>w\<close> appended; no lock is kept\<close>
  "effect s v d w c t \<longleftrightarrow> inv t \<and> stp s t \<and> vw t = v \<and> dsk t = d \<and> wrs t = wrs s @ w \<and> cnt t = c \<and>
     (\<forall>j b. hold s j b \<longrightarrow> hold t j b) \<and> (\<forall>b. busy t b \<longrightarrow> busy s b)"

lemma effect_refl: "inv s \<Longrightarrow> effect s (vw s) (dsk s) [] (cnt s) s"
  by (simp add: effect_def stp_refl)

lemma effect_trans:
  "effect s v d w c t \<Longrightarrow> effect t v' d' w' c' u \<Longrightarrow> effect s v' d' (w @ w') c' u"
  unfolding effect_def using stp_trans by auto

lemma effectD:
  assumes "effect s v d w c t"
  shows "inv t" "stp s t" "vw t = v" "dsk t = d" "wrs t = wrs s @ w" "cnt t = c"
    "hold s j b \<Longrightarrow> hold t j b" "busy t b \<Longrightarrow> busy s b"
  using assms by (auto simp: effect_def)

lemma clean: "inv s \<Longrightarrow> 0 < cnt s b \<or> vw s b = dsk s b"
  using clean_law by blast

text \<open>A block that is only read.\<close>

lemma load:
  assumes inv: "inv s" and room: "room s b"
  shows "\<exists>i t u. get b s = Some (i, t) \<and> data t i = vw s b \<and> stp s t \<and> rel i t = Some u \<and>
    effect s (vw s) (dsk s) [] (cnt s) u"
proof -
  obtain i t where t: "get b s = Some (i, t)" "inv t" "stp s t" "dsk t = dsk s" "wrs t = wrs s" "vw t = vw s"
      "cnt t = (cnt s)(b := Suc (cnt s b))" "hold t i b" "\<forall>j c. hold s j c \<longrightarrow> hold t j c"
      "\<forall>c. busy t c \<longrightarrow> c = b \<or> busy s c"
    using get_law [OF inv] room unfolding room_def by blast
  obtain u where u: "rel i t = Some u" "inv u" "stp t u" "dsk u = dsk t" "wrs u = wrs t" "vw u = vw t"
      "cnt u = (cnt t)(b := cnt t b - 1)" "\<forall>j c. hold u j c \<longleftrightarrow> hold t j c \<and> c \<noteq> b"
      "\<forall>c. busy u c \<longleftrightarrow> busy t c \<and> c \<noteq> b"
    using rel_law [OF t(2,8)] clean [OF inv, of b] t(4,6,7) by auto
  have nb: "\<not> busy s b" using room by (simp add: room_def)
  have "effect s (vw s) (dsk s) [] (cnt s) u"
    unfolding effect_def using t u stp_trans hold_busy nb by (auto simp: fun_eq_iff)
  then show ?thesis using t u data_law [OF t(2,8)] by auto
qed

text \<open>The same, when the client changes state of its own before it lets go of the block.\<close>

definition seen :: "'s \<Rightarrow> 's \<Rightarrow> bool" where
  \<comment> \<open>\<open>t\<close> looks like \<open>s\<close> to the cache\<close>
  "seen s t \<longleftrightarrow> (inv s \<longrightarrow> inv t) \<and> vw t = vw s \<and> dsk t = dsk s \<and> wrs t = wrs s \<and> cnt t = cnt s \<and>
     hold t = hold s \<and> busy t = busy s"

definition got :: "'s \<Rightarrow> nat \<Rightarrow> nat \<Rightarrow> 's \<Rightarrow> bool" where
  "got s b i t \<longleftrightarrow> inv t \<and> stp s t \<and> dsk t = dsk s \<and> wrs t = wrs s \<and> vw t = vw s \<and>
     cnt t = (cnt s)(b := Suc (cnt s b)) \<and> hold t i b \<and> data t i = vw s b \<and>
     (\<forall>j c. hold s j c \<longrightarrow> hold t j c) \<and> (\<forall>c. busy t c \<longrightarrow> c = b \<or> busy s c) \<and>
     \<not> busy s b \<and> (0 < cnt s b \<or> vw s b = dsk s b)"

lemma fetch:
  assumes inv: "inv s" and room: "room s b"
  shows "\<exists>i t. get b s = Some (i, t) \<and> got s b i t"
proof -
  obtain i t where t: "get b s = Some (i, t)" "inv t" "stp s t" "dsk t = dsk s" "wrs t = wrs s" "vw t = vw s"
      "cnt t = (cnt s)(b := Suc (cnt s b))" "hold t i b" "\<forall>j c. hold s j c \<longrightarrow> hold t j c"
      "\<forall>c. busy t c \<longrightarrow> c = b \<or> busy s c"
    using get_law [OF inv] room unfolding room_def by blast
  then have "got s b i t"
    using data_law [OF t(2,8)] room clean [OF inv, of b] by (simp add: got_def room_def)
  then show ?thesis using t(1) by blast
qed

lemma letgo:
  assumes g: "got s b i t" and t': "seen t t'"
  shows "\<exists>u. rel i t' = Some u \<and> inv u \<and> stp t' u \<and> vw u = vw s \<and> dsk u = dsk s \<and> wrs u = wrs s \<and>
    cnt u = cnt s \<and> (\<forall>j c. hold s j c \<longrightarrow> hold u j c) \<and> (\<forall>c. busy u c \<longrightarrow> busy s c)"
proof -
  note G = g [unfolded got_def] and T = t' [unfolded seen_def]
  have cl: "1 < cnt t' b \<or> vw t' b = dsk t' b" using G T by auto
  obtain u where u: "rel i t' = Some u" "inv u" "stp t' u" "dsk u = dsk t'" "wrs u = wrs t'" "vw u = vw t'"
      "cnt u = (cnt t')(b := cnt t' b - 1)" "\<forall>j c. hold u j c \<longleftrightarrow> hold t' j c \<and> c \<noteq> b"
      "\<forall>c. busy u c \<longleftrightarrow> busy t' c \<and> c \<noteq> b"
    using rel_law [OF _ _ cl, of i] G T by auto
  have "hold u j c" if "hold s j c" for j c
  proof -
    have "c \<noteq> b" using hold_busy [OF that] G by blast
    then show ?thesis using u(8) G T that by simp
  qed
  then show ?thesis using u G T by (auto simp: fun_eq_iff)
qed

text \<open>A block that is changed and written through.\<close>

lemma store:
  assumes inv: "inv s" and room: "room s b"
  shows "\<exists>i t u x. get b s = Some (i, t) \<and> data t i = vw s b \<and> stp s t \<and> put i (upd i d t) = Some u \<and>
    stp s u \<and> rel i u = Some x \<and> effect s ((vw s)(b := d)) ((dsk s)(b := d)) [(b, d)] (cnt s) x"
proof -
  obtain i t where t: "get b s = Some (i, t)" "inv t" "stp s t" "dsk t = dsk s" "wrs t = wrs s" "vw t = vw s"
      "cnt t = (cnt s)(b := Suc (cnt s b))" "hold t i b" "\<forall>j c. hold s j c \<longrightarrow> hold t j c"
      "\<forall>c. busy t c \<longrightarrow> c = b \<or> busy s c"
    using get_law [OF inv] room unfolding room_def by blast
  note U = upd_law [OF t(2,8), of d]
  then have hu: "hold (upd i d t) i b" using t(8) by blast
  obtain u where u: "put i (upd i d t) = Some u" "inv u" "stp (upd i d t) u"
      "dsk u = (dsk (upd i d t))(b := vw (upd i d t) b)" "wrs u = wrs (upd i d t) @ [(b, vw (upd i d t) b)]"
      "vw u = vw (upd i d t)" "cnt u = cnt (upd i d t)" "\<forall>j c. hold u j c \<longleftrightarrow> hold (upd i d t) j c"
      "\<forall>c. busy u c \<longleftrightarrow> busy (upd i d t) c"
    using put_law [OF _ hu] U by blast
  have Uh: "hold (upd i d t) j c = hold t j c" "busy (upd i d t) c = busy t c" for j c using U by simp_all
  have hb: "hold u i b" using u(8) hu by blast
  have cl: "vw u b = dsk u b" using u(4,6) U by simp
  obtain x where x: "rel i u = Some x" "inv x" "stp u x" "dsk x = dsk u" "wrs x = wrs u" "vw x = vw u"
      "cnt x = (cnt u)(b := cnt u b - 1)" "\<forall>j c. hold x j c \<longleftrightarrow> hold u j c \<and> c \<noteq> b"
      "\<forall>c. busy x c \<longleftrightarrow> busy u c \<and> c \<noteq> b"
    using rel_law [OF u(2) hb disjI2, OF cl] by blast
  have nb: "\<not> busy s b" using room by (simp add: room_def)
  have su: "stp s u" using stp_trans [OF t(3)] stp_trans U u(3) by blast
  have "effect s ((vw s)(b := d)) ((dsk s)(b := d)) [(b, d)] (cnt s) x"
    unfolding effect_def
  proof (intro conjI allI impI)
    show "cnt x = cnt s" using t(7) U u(7) x(7) by simp
    show "hold x j c" if "hold s j c" for j c
      using t(9) u(8) x(8) that hold_busy [OF that] nb by (auto simp: Uh)
    show "busy s c" if "busy x c" for c using t(10) u(9) x(9) that by (auto simp: Uh)
  qed (use t(4-6) U u(4-6) x(2,4-6) stp_trans [OF su x(3)] in simp_all)
  then show ?thesis using t(1,3) u(1) x(1) su data_law [OF t(2,8)] t(6)
    by (intro exI [of _ i] exI [of _ t] exI [of _ u] exI [of _ x]) simp
qed

text \<open>Two blocks at a time.\<close>

definition room2 :: "'s \<Rightarrow> nat \<Rightarrow> nat \<Rightarrow> bool" where
  "room2 s a b \<longleftrightarrow> a \<noteq> b \<and> room s a \<and> ok b \<and> \<not> busy s b \<and> cnt s b < lim \<and>
     (0 < cnt s b \<or> card {c. 0 < cnt s c} + 1 < cap)"

definition got2 :: "'s \<Rightarrow> nat \<Rightarrow> nat \<Rightarrow> nat \<Rightarrow> nat \<Rightarrow> 's \<Rightarrow> bool" where
  "got2 s a i b j u \<longleftrightarrow> inv u \<and> stp s u \<and> dsk u = dsk s \<and> wrs u = wrs s \<and> vw u = vw s \<and>
     cnt u = (cnt s)(a := Suc (cnt s a), b := Suc (cnt s b)) \<and> hold u i a \<and> hold u j b \<and>
     (\<forall>k c. hold s k c \<longrightarrow> hold u k c) \<and> (\<forall>c. busy u c \<longrightarrow> c = a \<or> c = b \<or> busy s c)"

lemma get2:
  assumes inv: "inv s" and room: "room2 s a b"
  shows "\<exists>i t j u. get a s = Some (i, t) \<and> stp s t \<and> get b t = Some (j, u) \<and> got2 s a i b j u"
proof -
  have r: "room s a" "a \<noteq> b" "ok b" "\<not> busy s b" "cnt s b < lim" "0 < cnt s b \<or> card {c. 0 < cnt s c} + 1 < cap"
    using room by (simp_all add: room2_def)
  obtain i t where t: "get a s = Some (i, t)" "inv t" "stp s t" "dsk t = dsk s" "wrs t = wrs s" "vw t = vw s"
      "cnt t = (cnt s)(a := Suc (cnt s a))" "hold t i a" "\<forall>j c. hold s j c \<longrightarrow> hold t j c"
      "\<forall>c. busy t c \<longrightarrow> c = a \<or> busy s c"
    using get_law [OF inv] r(1) unfolding room_def by blast
  have "{c. 0 < cnt t c} = insert a {c. 0 < cnt s c}" by (auto simp: t(7))
  then have "card {c. 0 < cnt t c} \<le> card {c. 0 < cnt s c} + 1"
    using card_insert_le_m1 [of "card {c. 0 < cnt s c} + 1" "{c. 0 < cnt s c}" a] by simp
  moreover have "0 < cnt t b" if "0 < cnt s b" using that by (simp add: t(7))
  ultimately have "0 < cnt t b \<or> card {c. 0 < cnt t c} < cap" using r(6) by linarith
  moreover have "\<not> busy t b" "cnt t b < lim" using r t(7,10) by auto
  ultimately obtain j u where u: "get b t = Some (j, u)" "inv u" "stp t u" "dsk u = dsk t" "wrs u = wrs t" "vw u = vw t"
      "cnt u = (cnt t)(b := Suc (cnt t b))" "hold u j b" "\<forall>j c. hold t j c \<longrightarrow> hold u j c"
      "\<forall>c. busy u c \<longrightarrow> c = b \<or> busy t c"
    using get_law [OF t(2) _ r(3)] by blast
  have "got2 s a i b j u"
    unfolding got2_def
  proof (intro conjI allI impI)
    show "stp s u" using stp_trans [OF t(3) u(3)] .
    show "cnt u = (cnt s)(a := Suc (cnt s a), b := Suc (cnt s b))" using t(7) u(7) r(2) by simp
    show "c = a \<or> c = b \<or> busy s c" if "busy u c" for c using that t(10) u(10) by blast
  qed (use t u in simp_all)
  then show ?thesis using t u by blast
qed

definition freed2 :: "'s \<Rightarrow> nat \<Rightarrow> nat \<Rightarrow> 's \<Rightarrow> bool" where
  "freed2 s a b u \<longleftrightarrow> inv u \<and> stp s u \<and> dsk u = dsk s \<and> wrs u = wrs s \<and> vw u = vw s \<and>
     cnt u = (cnt s)(a := cnt s a - 1, b := cnt s b - 1) \<and>
     (\<forall>k c. hold u k c \<longleftrightarrow> hold s k c \<and> c \<noteq> a \<and> c \<noteq> b) \<and>
     (\<forall>c. busy u c \<longleftrightarrow> busy s c \<and> c \<noteq> a \<and> c \<noteq> b)"

lemma rel2:
  assumes inv: "inv s" and h: "hold s i a" "hold s j b" and ab: "a \<noteq> b"
    and c: "1 < cnt s a \<or> vw s a = dsk s a" "1 < cnt s b \<or> vw s b = dsk s b"
  shows "\<exists>t u. rel i s = Some t \<and> rel j t = Some u \<and> freed2 s a b u"
proof -
  obtain t where t: "rel i s = Some t" "inv t" "stp s t" "dsk t = dsk s" "wrs t = wrs s" "vw t = vw s"
      "cnt t = (cnt s)(a := cnt s a - 1)" "\<forall>j c. hold t j c \<longleftrightarrow> hold s j c \<and> c \<noteq> a"
      "\<forall>c. busy t c \<longleftrightarrow> busy s c \<and> c \<noteq> a"
    using rel_law [OF inv h(1) c(1)] by blast
  have "hold t j b" using t(8) h(2) ab by simp
  moreover have "1 < cnt t b \<or> vw t b = dsk t b" using c(2) ab t(4,6,7) by simp
  ultimately obtain u where u: "rel j t = Some u" "inv u" "stp t u" "dsk u = dsk t" "wrs u = wrs t" "vw u = vw t"
      "cnt u = (cnt t)(b := cnt t b - 1)" "\<forall>j c. hold u j c \<longleftrightarrow> hold t j c \<and> c \<noteq> b"
      "\<forall>c. busy u c \<longleftrightarrow> busy t c \<and> c \<noteq> b"
    using rel_law [OF t(2)] by blast
  have "freed2 s a b u"
    unfolding freed2_def
  proof (intro conjI allI)
    show "stp s u" using stp_trans [OF t(3) u(3)] .
    show "cnt u = (cnt s)(a := cnt s a - 1, b := cnt s b - 1)" using t(7) u(7) ab by simp
    show "hold u k c \<longleftrightarrow> hold s k c \<and> c \<noteq> a \<and> c \<noteq> b" for k c using t(8) u(8) by simp
    show "busy u c \<longleftrightarrow> busy s c \<and> c \<noteq> a \<and> c \<noteq> b" for c using t(9) u(9) by simp
  qed (use t u in simp_all)
  then show ?thesis using t u by blast
qed

text \<open>Copy block \<open>src\<close> over block \<open>dst\<close> and write \<open>dst\<close> to the disk.\<close>

lemma copy:
  assumes inv: "inv s" and room: "room2 s a b" and sd: "{src, dst} = {a, b}"
  shows "\<exists>i t j u v. get a s = Some (i, t) \<and> stp s t \<and> get b t = Some (j, u) \<and>
    (let h = (if dst = a then i else j); g = (if dst = a then j else i) in
      put h (upd h (data u g) u) = Some v \<and> hold v i a \<and> hold v j b \<and> inv v \<and> stp s v \<and>
      vw v = (vw s)(dst := vw s src) \<and> dsk v = (dsk s)(dst := vw s src) \<and>
      wrs v = wrs s @ [(dst, vw s src)] \<and> cnt v = (cnt s)(a := Suc (cnt s a), b := Suc (cnt s b)) \<and>
      (\<forall>k c. hold s k c \<longrightarrow> hold v k c) \<and> (\<forall>c. busy v c \<longrightarrow> c = a \<or> c = b \<or> busy s c))"
proof -
  obtain i t j u where t: "get a s = Some (i, t)" "stp s t" "get b t = Some (j, u)" and g: "got2 s a i b j u"
    using get2 [OF inv room] by blast
  note G = g [unfolded got2_def]
  define h where "h = (if dst = a then i else j)"
  define k where "k = (if dst = a then j else i)"
  have ab: "a \<noteq> b" using room by (simp add: room2_def)
  then have hh: "hold u h dst" "hold u k src" using G sd by (auto simp: h_def k_def doubleton_eq_iff)
  have dk: "data u k = vw s src" using data_law [OF _ hh(2)] G by simp
  have U: "inv (upd h (data u k) u)" "stp u (upd h (data u k) u)" "dsk (upd h (data u k) u) = dsk s"
      "wrs (upd h (data u k) u) = wrs s" "vw (upd h (data u k) u) = (vw s)(dst := vw s src)"
      "cnt (upd h (data u k) u) = cnt u" "\<And>j c. hold (upd h (data u k) u) j c = hold u j c"
      "\<And>c. busy (upd h (data u k) u) c = busy u c"
    using upd_law [OF _ hh(1), of "data u k"] G by (simp_all add: dk)
  obtain v where v: "put h (upd h (data u k) u) = Some v" "inv v" "stp (upd h (data u k) u) v"
      "dsk v = (dsk s)(dst := vw s src)" "wrs v = wrs s @ [(dst, vw s src)]" "vw v = (vw s)(dst := vw s src)"
      "cnt v = cnt u" "\<And>j c. hold v j c = hold u j c" "\<And>c. busy v c = busy u c"
    using put_law [OF U(1), of h dst] hh(1) by (auto simp: U)
  have st: "stp s v" using stp_trans [OF stp_trans [OF _ U(2)] v(3)] G by blast
  show ?thesis
    by (rule exI [of _ i], rule exI [of _ t], rule exI [of _ j], rule exI [of _ u], rule exI [of _ v])
      (use t v G st in \<open>simp add: Let_def h_def [symmetric] k_def [symmetric]\<close>)
qed

lemma after_copy:
  assumes v: "inv v" "hold v h dst" "hold v g src" "src \<noteq> dst" "stp s v"
      "vw v = (vw s)(dst := vw s src)" "dsk v = (dsk s)(dst := vw s src)" "wrs v = wrs s @ [(dst, vw s src)]"
      "cnt v = c(src := Suc (c src), dst := Suc (c dst))"
      "\<forall>k b. hold s k b \<longrightarrow> hold v k b" "\<forall>b. busy v b \<longrightarrow> b = src \<or> b = dst \<or> busy s b"
    and nb: "\<not> busy s src" "\<not> busy s dst" and cl: "0 < c src \<or> vw s src = dsk s src"
  shows "\<exists>x y. rel g v = Some x \<and> rel h x = Some y \<and>
    effect s ((vw s)(dst := vw s src)) ((dsk s)(dst := vw s src)) [(dst, vw s src)] c y"
proof -
  have c1: "1 < cnt v src \<or> vw v src = dsk v src" using cl v(4) by (auto simp: v(6,7,9))
  have c2: "1 < cnt v dst \<or> vw v dst = dsk v dst" by (simp add: v(6,7))
  obtain x y where r: "rel g v = Some x" "rel h x = Some y" and f: "freed2 v src dst y"
    using rel2 [OF v(1,3,2,4) c1 c2] by blast
  note F = f [unfolded freed2_def]
  have "effect s ((vw s)(dst := vw s src)) ((dsk s)(dst := vw s src)) [(dst, vw s src)] c y"
    unfolding effect_def
  proof (intro conjI allI impI)
    show "stp s y" using stp_trans [OF v(5)] F by blast
    show "cnt y = c" using F v(4) by (auto simp: v(9) fun_eq_iff)
    show "hold y k b" if "hold s k b" for k b
      using F v(10) that hold_busy [OF that] nb by auto
    show "busy s b" if "busy y b" for b using F v(11) that by auto
  qed (use F v in simp_all)
  then show ?thesis using r by blast
qed

lemma copy_rel:
  assumes inv: "inv s" and room: "room2 s a b" and sd: "{src, dst} = {a, b}"
  shows "\<exists>i t j u v x y. get a s = Some (i, t) \<and> stp s t \<and> get b t = Some (j, u) \<and>
    (let h = (if dst = a then i else j); g = (if dst = a then j else i) in
      put h (upd h (data u g) u) = Some v \<and> stp s v \<and> rel g v = Some x \<and> rel h x = Some y \<and>
      effect s ((vw s)(dst := vw s src)) ((dsk s)(dst := vw s src)) [(dst, vw s src)] (cnt s) y)"
proof -
  obtain i t j u v where c: "get a s = Some (i, t)" "stp s t" "get b t = Some (j, u)" and
    l: "let h = (if dst = a then i else j); g = (if dst = a then j else i) in
      put h (upd h (data u g) u) = Some v \<and> hold v i a \<and> hold v j b \<and> inv v \<and> stp s v \<and>
      vw v = (vw s)(dst := vw s src) \<and> dsk v = (dsk s)(dst := vw s src) \<and>
      wrs v = wrs s @ [(dst, vw s src)] \<and> cnt v = (cnt s)(a := Suc (cnt s a), b := Suc (cnt s b)) \<and>
      (\<forall>k c. hold s k c \<longrightarrow> hold v k c) \<and> (\<forall>c. busy v c \<longrightarrow> c = a \<or> c = b \<or> busy s c)"
    using copy [OF inv room sd] by blast
  define h where "h = (if dst = a then i else j)"
  define g where "g = (if dst = a then j else i)"
  note L = l [unfolded Let_def, folded h_def g_def]
  have ab: "a \<noteq> b" using room by (simp add: room2_def)
  have sne: "src \<noteq> dst" using sd ab by (auto simp: doubleton_eq_iff)
  have hg: "hold v h dst" "hold v g src" using L sd ab by (auto simp: h_def g_def doubleton_eq_iff)
  have nb: "\<not> busy s src" "\<not> busy s dst" using room sd by (auto simp: room2_def room_def doubleton_eq_iff)
  have cnt: "cnt v = (cnt s)(src := Suc (cnt s src), dst := Suc (cnt s dst))"
    using L sd ab by (auto simp: doubleton_eq_iff fun_eq_iff)
  have bz: "\<forall>c. busy v c \<longrightarrow> c = src \<or> c = dst \<or> busy s c" using L sd by (auto simp: doubleton_eq_iff)
  obtain x y where "rel g v = Some x" "rel h x = Some y"
      "effect s ((vw s)(dst := vw s src)) ((dsk s)(dst := vw s src)) [(dst, vw s src)] (cnt s) y"
    using after_copy [OF _ hg sne _ _ _ _ cnt _ bz nb clean [OF inv]] L by blast
  then show ?thesis using c L unfolding Let_def h_def [symmetric] g_def [symmetric]
    by (intro exI [of _ i] exI [of _ t] exI [of _ j] exI [of _ u] exI [of _ v] exI [of _ x] exI [of _ y])
      (simp add: h_def [symmetric] g_def [symmetric])
qed

lemma copy_unpin_rel:
  assumes inv: "inv s" and room: "room2 s a b" and pos: "0 < cnt s b"
  shows "\<exists>i t j u v x y. get a s = Some (i, t) \<and> stp s t \<and> get b t = Some (j, u) \<and>
      put j (upd j (data u i) u) = Some v \<and> stp s v \<and> rel i (unpin j v) = Some x \<and> rel j x = Some y \<and>
      effect s ((vw s)(b := vw s a)) ((dsk s)(b := vw s a)) [(b, vw s a)] ((cnt s)(b := cnt s b - 1)) y"
proof -
  have ab: "a \<noteq> b" using room by (simp add: room2_def)
  obtain i t j u v where c: "get a s = Some (i, t)" "stp s t" "get b t = Some (j, u)" and
    L: "put j (upd j (data u i) u) = Some v" "hold v i a" "hold v j b" "inv v" "stp s v"
      "vw v = (vw s)(b := vw s a)" "dsk v = (dsk s)(b := vw s a)"
      "wrs v = wrs s @ [(b, vw s a)]" "cnt v = (cnt s)(a := Suc (cnt s a), b := Suc (cnt s b))"
      "\<forall>k c. hold s k c \<longrightarrow> hold v k c" "\<forall>c. busy v c \<longrightarrow> c = a \<or> c = b \<or> busy s c"
    using copy [OF inv room, of a b] ab by (auto simp: Let_def)
  have nb: "\<not> busy s a" "\<not> busy s b" using room by (auto simp: room2_def room_def)
  note U = unpin_law [OF L(4,3)]
  let ?c = "(cnt s)(b := cnt s b - 1)"
  have "1 < cnt v b" using pos by (simp add: L(9))
  note U = unpin_law [OF L(4,3) this]
  have cnt: "cnt (unpin j v) = ?c(a := Suc (?c a), b := Suc (?c b))"
    using U pos ab by (simp add: L(9) fun_eq_iff)
  have ca: "0 < ?c a \<or> vw s a = dsk s a" using clean [OF inv, of a] ab by simp
  have "\<exists>x y. rel i (unpin j v) = Some x \<and> rel j x = Some y \<and>
      effect s ((vw s)(b := vw s a)) ((dsk s)(b := vw s a)) [(b, vw s a)] ?c y"
    by (rule after_copy [OF _ _ _ ab _ _ _ _ cnt _ _ nb ca])
      (use U L stp_trans [OF L(5)] in simp_all)
  then show ?thesis using c L(1,5) by blast
qed

end

section \<open>The cache of \<open>bio.c\<close> provides it\<close>

definition blk_ok :: "nat \<Rightarrow> bool" where
  "blk_ok b \<longleftrightarrow> 0 < b \<and> b < FSSIZE"

definition MAXREF :: nat where
  \<comment> \<open>a count that still fits the 27 bits above the buffer index\<close>
  "MAXREF = 2 ^ 27 - 1"

definition bdata :: "'a bcache_scheme \<Rightarrow> nat \<Rightarrow> bytes" where
  "bdata s i = b_data (bufs s i)"

interpretation bc: block_cache binv "\<lambda>b. bread 1 (of_nat b)" bmod bwrite brelse bpin bunpin bdata
  view disk refs held blocked writes bstep blk_ok MAXREF NBUF
proof
  fix s t u :: "'a bcache_scheme" and b i d
  show "bstep s s" by simp
  show "bstep s t \<Longrightarrow> bstep t u \<Longrightarrow> bstep s u" by (rule bstep_trans)
  show "view s b = disk s b" if z: "binv s" "refs s b = 0"
  proof (cases "cached s b")
    case True
    obtain L where "binvX s L {}" using z(1) by (auto simp: binv_def)
    then show ?thesis using z(2) True by (intro binvXD(12))
  qed (simp add: view_def)
  show "held s i b \<Longrightarrow> 0 < refs s b" "held s i b \<Longrightarrow> blocked s b" by (auto simp: held_def blocked_def)
  assume inv: "binv s"
  show "\<exists>i t. bread 1 (of_nat b) s = Some (i, t) \<and> binv t \<and> bstep s t \<and> disk t = disk s \<and> writes t = writes s \<and>
      view t = view s \<and> refs t = (refs s)(b := Suc (refs s b)) \<and> held t i b \<and>
      (\<forall>j c. held s j c \<longrightarrow> held t j c) \<and> (\<forall>c. blocked t c \<longrightarrow> c = b \<or> blocked s c)"
    if c: "\<not> blocked s b" "blk_ok b" "refs s b < MAXREF" "0 < refs s b \<or> card {c. 0 < refs s c} < NBUF"
  proof -
    obtain i u where "bread 1 (of_nat b) s = Some (i, u)" "bgot s b i u"
      using bread_ok [OF inv c(1)] c(2-4) by (auto simp: blk_ok_def in_use_def MAXREF_def)
    then show ?thesis by (intro exI [of _ i] exI [of _ u]) (simp add: bgot_def)
  qed
  show "bdata s i = view s b" if "held s i b" using that by (auto simp: bdata_def held_def view_def)
  show "binv (bmod i d s) \<and> bstep s (bmod i d s) \<and> disk (bmod i d s) = disk s \<and>
      writes (bmod i d s) = writes s \<and> view (bmod i d s) = (view s)(b := d) \<and> refs (bmod i d s) = refs s \<and>
      (\<forall>j c. held (bmod i d s) j c \<longleftrightarrow> held s j c) \<and> (\<forall>c. blocked (bmod i d s) c \<longleftrightarrow> blocked s c)"
    if "held s i b" using bmod_ok [OF inv that, of d] by (simp add: bset_def)
  show "\<exists>t. bwrite i s = Some t \<and> binv t \<and> bstep s t \<and> disk t = (disk s)(b := view s b) \<and>
      writes t = writes s @ [(b, view s b)] \<and> view t = view s \<and> refs t = refs s \<and>
      (\<forall>j c. held t j c \<longleftrightarrow> held s j c) \<and> (\<forall>c. blocked t c \<longleftrightarrow> blocked s c)"
    if "held s i b" using bwrite_ok [OF inv that] by (auto simp: bput_def)
  show "\<exists>t. brelse i s = Some t \<and> binv t \<and> bstep s t \<and> disk t = disk s \<and> writes t = writes s \<and>
      view t = view s \<and> refs t = (refs s)(b := refs s b - 1) \<and>
      (\<forall>j c. held t j c \<longleftrightarrow> held s j c \<and> c \<noteq> b) \<and> (\<forall>c. blocked t c \<longleftrightarrow> blocked s c \<and> c \<noteq> b)"
    if "held s i b" "1 < refs s b \<or> view s b = disk s b"
    using brelse_ok [OF inv that] by (auto simp: bfreed_def)
  show "binv (bpin i s) \<and> bstep s (bpin i s) \<and> disk (bpin i s) = disk s \<and> writes (bpin i s) = writes s \<and>
      view (bpin i s) = view s \<and> refs (bpin i s) = (refs s)(b := Suc (refs s b)) \<and>
      (\<forall>j c. held (bpin i s) j c \<longleftrightarrow> held s j c) \<and> (\<forall>c. blocked (bpin i s) c \<longleftrightarrow> blocked s c)"
    if "held s i b" "refs s b < MAXREF"
    using bpin_ok [OF inv that(1)] that(2) by (simp add: bcount_def MAXREF_def)
  show "binv (bunpin i s) \<and> bstep s (bunpin i s) \<and> disk (bunpin i s) = disk s \<and> writes (bunpin i s) = writes s \<and>
      view (bunpin i s) = view s \<and> refs (bunpin i s) = (refs s)(b := refs s b - 1) \<and>
      (\<forall>j c. held (bunpin i s) j c \<longleftrightarrow> held s j c) \<and> (\<forall>c. blocked (bunpin i s) c \<longleftrightarrow> blocked s c)"
    if "held s i b" "1 < refs s b"
    using bunpin_ok [OF inv that] by (simp add: bcount_def)
qed

lemma same_cache_seen: "same_cache s t \<Longrightarrow> bc.seen s t"
  by (simp add: bc.seen_def same_cacheD)

end
