(* ===== verification/PageTable.thy ===== *)
theory PageTable
  imports KProc
begin

text \<open>
  The Sv39 page tables of \<open>kernel/vm.c\<close>: the walk, address lookup and mapping.  A page table
  is the address of its page; its entries are 64-bit words in the model's memory.  Super pages
  of 2 MB end the walk one level early.  \<open>kal\<close> is the \<open>kalloc\<close> the walk calls for a missing
  page-table page (in the kernel it may swap out a page of some process).
\<close>

section \<open>Operations\<close>

definition pte_addr :: "u64 \<Rightarrow> nat \<Rightarrow> u64 \<Rightarrow> u64" where
  \<comment> \<open>\<open>&pagetable[PX(level, va)]\<close>\<close>
  "pte_addr pagetable level va = pagetable + 8 * PX level va"

fun walk_loop :: "('a kmem_scheme \<Rightarrow> (u64 \<times> 'a kmem_scheme) option) \<Rightarrow> nat \<Rightarrow> nat \<Rightarrow> u64 \<Rightarrow>
    u64 \<Rightarrow> nat \<Rightarrow> 'a kmem_scheme \<Rightarrow> (u64 \<times> 'a kmem_scheme) option" where
  "walk_loop kal level end_level pagetable va alloc s =
     (if level > end_level
      then let pte = pte_addr pagetable level va; e = ld64 (mem s) pte
           in if e AND PTE_V \<noteq> 0
              then if e AND PTE_R \<noteq> 0 \<or> e AND PTE_X \<noteq> 0
                   then if level \<noteq> 1 then panic ''walk_level'' else Some (pte, s)
                   else walk_loop kal (level - 1) end_level (PTE2PA e) va alloc s
              else if alloc = 0 then Some (0, s)
              else do {
                (pagetable, s) \<leftarrow> kal s;
                (if pagetable = 0 then Some (0, s) else do {
                  let s = s\<lparr>mem := mem_set pagetable 0 PGSIZE (mem s)\<rparr>;
                  let s = s\<lparr>mem := st64 pte (PA2PTE pagetable OR PTE_V) (mem s)\<rparr>;
                  walk_loop kal (level - 1) end_level pagetable va alloc s }) }
      else if level > 1 then panic ''walk_level''
      else Some (pte_addr pagetable level va, s))"

declare walk_loop.simps [simp del]

definition walk :: "('a kmem_scheme \<Rightarrow> (u64 \<times> 'a kmem_scheme) option) \<Rightarrow> u64 \<Rightarrow> u64 \<Rightarrow> nat \<Rightarrow>
    'a kmem_scheme \<Rightarrow> (u64 \<times> 'a kmem_scheme) option" where
  \<comment> \<open>\<open>alloc\<close>: 0 to look up only, else the size of the page to map\<close>
  "walk kal pagetable va alloc s =
     (if va \<ge> MAXVA then panic ''walk''
      else walk_loop kal 2 (if alloc = SUPPGSIZE then 1 else 0) pagetable va alloc s)"

definition walk_get :: "u64 \<Rightarrow> u64 \<Rightarrow> 'a kmem_scheme \<Rightarrow> u64 option" where
  \<comment> \<open>\<open>walk(pagetable, va, 0)\<close>, which allocates nothing and changes nothing\<close>
  "walk_get pagetable va s = map_option fst (walk (\<lambda>s. None) pagetable va 0 s)"

definition pte_at :: "'a kmem_scheme \<Rightarrow> u64 \<Rightarrow> u64" where "pte_at s pte = ld64 (mem s) pte"

definition set_pte :: "u64 \<Rightarrow> u64 \<Rightarrow> 'a kmem_scheme \<Rightarrow> 'a kmem_scheme" where
  "set_pte pte e s = s\<lparr>mem := st64 pte e (mem s)\<rparr>"

definition walkaddr :: "u64 \<Rightarrow> u64 \<Rightarrow> 'a kmem_scheme \<Rightarrow> u64 option" where
  "walkaddr pagetable va s =
     (if va \<ge> MAXVA then Some 0
      else do {
        pte \<leftarrow> walk_get pagetable va s;
        (if pte = 0 then Some 0
         else if pte_at s pte AND PTE_V = 0 then Some 0
         else if pte_at s pte AND PTE_U = 0 then Some 0
         else Some (PTE2PA (pte_at s pte))) })"

definition kwalkaddr :: "u64 \<Rightarrow> u64 \<Rightarrow> 'a kmem_scheme \<Rightarrow> u64 option" where
  "kwalkaddr pagetable va s =
     (if va \<ge> MAXVA then Some 0
      else do {
        pte \<leftarrow> walk_get pagetable va s;
        (if pte = 0 then Some 0
         else if pte_at s pte AND PTE_V = 0 then Some 0
         else Some (PTE2PA (pte_at s pte))) })"

partial_function (option) mappages_loop ::
  "('a kmem_scheme \<Rightarrow> (u64 \<times> 'a kmem_scheme) option) \<Rightarrow> u64 \<Rightarrow> u64 \<Rightarrow> u64 \<Rightarrow> u64 \<Rightarrow> u64 \<Rightarrow> nat \<Rightarrow>
    'a kmem_scheme \<Rightarrow> (int \<times> 'a kmem_scheme) option" where
  "mappages_loop kal pagetable a last_a pa perm pgsize s = do {
     (pte, s) \<leftarrow> walk kal pagetable a pgsize s;
     (if pte = 0 then Some (-1, s)
      else if pte_at s pte AND PTE_V \<noteq> 0 then panic ''mappages: remap''
      else let s = set_pte pte (PA2PTE pa OR perm OR PTE_V) s
           in if a = last_a then Some (0, s)
              else mappages_loop kal pagetable (a + of_nat pgsize) last_a (pa + of_nat pgsize)
                     perm pgsize s) }"

definition mappages :: "('a kmem_scheme \<Rightarrow> (u64 \<times> 'a kmem_scheme) option) \<Rightarrow> u64 \<Rightarrow> u64 \<Rightarrow> u64 \<Rightarrow>
    u64 \<Rightarrow> u64 \<Rightarrow> 'a kmem_scheme \<Rightarrow> (int \<times> 'a kmem_scheme) option" where
  "mappages kal pagetable va sz pa perm s =
     (let pgsize = if IS_SUPPG pa then SUPPGSIZE else PGSIZE
      in if va mod of_nat pgsize \<noteq> 0 then panic ''mappages: va not aligned''
         else if sz mod of_nat pgsize \<noteq> 0 then panic ''mappages: size not aligned''
         else if sz = 0 then panic ''mappages: size''
         else mappages_loop kal pagetable va (va + sz - of_nat pgsize) pa perm pgsize s)"

definition kvmmap :: "('a kmem_scheme \<Rightarrow> (u64 \<times> 'a kmem_scheme) option) \<Rightarrow> u64 \<Rightarrow> u64 \<Rightarrow> u64 \<Rightarrow>
    u64 \<Rightarrow> u64 \<Rightarrow> 'a kmem_scheme \<Rightarrow> 'a kmem_scheme option" where
  "kvmmap kal kpgtbl va pa sz perm s = do {
     (r, s) \<leftarrow> mappages kal kpgtbl va sz pa perm s;
     (if r \<noteq> 0 then panic ''kvmmap'' else Some s) }"

definition uvmcreate :: "('a kmem_scheme \<Rightarrow> (u64 \<times> 'a kmem_scheme) option) \<Rightarrow>
    'a kmem_scheme \<Rightarrow> (u64 \<times> 'a kmem_scheme) option" where
  "uvmcreate kal s = do {
     (pagetable, s) \<leftarrow> kal s;
     (if pagetable = 0 then Some (0, s)
      else Some (pagetable, s\<lparr>mem := mem_set pagetable 0 PGSIZE (mem s)\<rparr>)) }"

definition uvmfirst :: "('a kmem_scheme \<Rightarrow> (u64 \<times> 'a kmem_scheme) option) \<Rightarrow> u64 \<Rightarrow> bytes \<Rightarrow> u32 \<Rightarrow>
    'a kmem_scheme \<Rightarrow> 'a kmem_scheme option" where
  "uvmfirst kal pagetable src sz s =
     (if unat sz \<ge> PGSIZE then panic ''uvmfirst: more than a page''
      else do {
        (m, s) \<leftarrow> kal s;
        let s = s\<lparr>mem := mem_set m 0 PGSIZE (mem s)\<rparr>;
        (r, s) \<leftarrow> mappages kal pagetable 0 (of_nat PGSIZE) m (PTE_W OR PTE_R OR PTE_X OR PTE_U) s;
        Some (s\<lparr>mem := mem_copy m src 0 (unat sz) (mem s)\<rparr>) })"

fun freewalk_from :: "nat \<Rightarrow> nat \<Rightarrow> nat \<Rightarrow> u64 \<Rightarrow> 'a kmem_scheme \<Rightarrow> 'a kmem_scheme option"
  and freewalk :: "nat \<Rightarrow> u64 \<Rightarrow> 'a kmem_scheme \<Rightarrow> 'a kmem_scheme option" where
  \<comment> \<open>\<open>depth\<close> bounds the recursion: a page table has three levels, and a deeper or cyclic one
      would exhaust the kernel stack; \<open>k\<close> entries are left, \<open>i\<close> is the next\<close>
  "freewalk_from depth 0 i pagetable s = Some s"
| "freewalk_from depth (Suc k) i pagetable s =
     (let pte = ld64 (mem s) (pagetable + 8 * of_nat i)
      in if pte AND PTE_V \<noteq> 0 \<and> pte AND (PTE_R OR PTE_W OR PTE_X) = 0
         then do {
           s \<leftarrow> freewalk depth (PTE2PA pte) s;
           freewalk_from depth k (Suc i) pagetable (set_pte (pagetable + 8 * of_nat i) 0 s) }
         else if pte AND PTE_V \<noteq> 0 then panic ''freewalk: leaf''
         else freewalk_from depth k (Suc i) pagetable s)"
| "freewalk 0 pagetable s = None"
| "freewalk (Suc depth) pagetable s = do {
     s \<leftarrow> freewalk_from depth 512 0 pagetable s;
     kfree pagetable s }"

definition uvmclear :: "u64 \<Rightarrow> u64 \<Rightarrow> 'a kmem_scheme \<Rightarrow> 'a kmem_scheme option" where
  "uvmclear pagetable va s = do {
     pte \<leftarrow> walk_get pagetable va s;
     (if pte = 0 then panic ''uvmclear''
      else Some (set_pte pte (pte_at s pte AND NOT PTE_U) s)) }"

section \<open>Lookup changes nothing\<close>

lemma walk_loop_get:
  "walk_loop kal level e pagetable va 0 s =
     map_option (\<lambda>p. (p, s)) (map_option fst (walk_loop (\<lambda>s. None) level e pagetable va 0 s))"
proof (induction level arbitrary: pagetable)
  case 0
  show ?case unfolding walk_loop.simps [of _ 0] by simp
next
  case (Suc level)
  define lv where "lv = Suc level"
  have lv: "lv - 1 = level" by (simp add: lv_def)
  note IH = Suc [of "PTE2PA (ld64 (mem s) (pte_addr pagetable lv va))"]
  show ?case unfolding lv_def [symmetric] walk_loop.simps [of _ lv] Let_def lv using IH by (simp add: lv)
qed

lemma walk_get_walk: "walk kal pagetable va 0 s = map_option (\<lambda>p. (p, s)) (walk_get pagetable va s)"
  unfolding walk_def walk_get_def using walk_loop_get [of kal] by simp

end
