(* ===== verification/Swap.thy ===== *)
theory Swap
  imports BlockCache PageTable
begin

text \<open>
  Swapping: \<open>kernel/swap.c\<close>, and from \<open>kernel/proc.c\<close> the choice of the page to swap out
  (\<open>find_swapping_page\<close>, an ageing algorithm over the page tables of all processes).  A page
  that is swapped out keeps its page table entry: the valid bit is cleared, \<open>PTE_PG\<close> is set,
  and the index of the swap block takes the place of the physical page number.  \<open>kmalloc\<close> is
  \<open>kalloc\<close> with this victim search.
\<close>

section \<open>State\<close>

definition SWAP_SPACE_BLOCKS :: nat where "SWAP_SPACE_BLOCKS = 1024"
definition NPGAGE :: nat where "NPGAGE = PG_REFIDX PHYSTOP"
definition ROOTDEV :: u32 where "ROOTDEV = 1"

record swapst = bcache +
  swappg_refcnt :: "nat \<Rightarrow> int"
  pg_age :: "nat \<Rightarrow> u8"
  swapstart :: u32

section \<open>Swap blocks and page ages\<close>

definition initswap :: "u32 \<Rightarrow> 'a swapst_scheme \<Rightarrow> 'a swapst_scheme" where
  \<comment> \<open>the argument is the super block's \<open>swapstart\<close>\<close>
  "initswap sb_swapstart s =
     (let s = s\<lparr>swappg_refcnt := (\<lambda>i. if i < SWAP_SPACE_BLOCKS then 0 else swappg_refcnt s i)\<rparr>;
          s = s\<lparr>lk := (lk s)(SwapLock := None)\<rparr>;
          s = s\<lparr>pg_age := (\<lambda>i. if i < NPGAGE then 0 else pg_age s i)\<rparr>
      in s\<lparr>swapstart := sb_swapstart\<rparr>)"

definition pageage :: "u64 \<Rightarrow> 'a swapst_scheme \<Rightarrow> (u8 \<times> 'a swapst_scheme) option" where
  "pageage pte s = do {
     let pa = PTE2PA (pte_at s pte);
     s \<leftarrow> acquire SwapLock s;
     (if \<not> PG_REFIDX pa < NPGAGE then None \<comment> \<open>outside \<open>pg_age[]\<close>\<close> else do {
       let age = pg_age s (PG_REFIDX pa);
       let age = drop_bit 1 age;
       let (age, s) = (if pte_at s pte AND PTE_A \<noteq> 0
                       then (age OR push_bit 7 1, set_pte pte (pte_at s pte AND NOT PTE_A) s)
                       else (age, s));
       let s = s\<lparr>pg_age := (pg_age s)(PG_REFIDX pa := age)\<rparr>;
       s \<leftarrow> release SwapLock s;
       Some (age, s) }) }"

definition swappageclone :: "('a swapst_scheme \<Rightarrow> (u64 \<times> 'a swapst_scheme) option) \<Rightarrow>
    u64 \<Rightarrow> u64 \<Rightarrow> u64 \<Rightarrow> 'a swapst_scheme \<Rightarrow> (int \<times> 'a swapst_scheme) option" where
  "swappageclone kal pte new va s = do {
     let idx = unat (PTE2IDX (pte_at s pte));
     s \<leftarrow> acquire SwapLock s;
     (if \<not> idx < SWAP_SPACE_BLOCKS then None else do {
       let s = s\<lparr>swappg_refcnt := (swappg_refcnt s)(idx := swappg_refcnt s idx + 1)\<rparr>;
       s \<leftarrow> release SwapLock s;
       let va = signed (ucast va :: u32);  \<comment> \<open>\<open>int va\<close>\<close>
       (r, s) \<leftarrow> mappages kal new va (of_nat PGSIZE) (PTE2PA (pte_at s pte)) (PTE_FLAGS (pte_at s pte)) s;
       (if r \<noteq> 0 then Some (-1, s) else do {
         (pte, s) \<leftarrow> walk kal new va 0 s;
         Some (0, set_pte pte (pte_at s pte AND NOT PTE_V) s) }) }) }"

fun free_swap_block :: "nat \<Rightarrow> nat \<Rightarrow> 'a swapst_scheme \<Rightarrow> nat option" where
  \<comment> \<open>the first index the loop of \<open>pageout\<close> stops at\<close>
  "free_swap_block 0 i s = None"
| "free_swap_block (Suc k) i s = (if swappg_refcnt s i = 0 then Some i else free_swap_block k (Suc i) s)"

definition pageout :: "u64 \<Rightarrow> 'a swapst_scheme \<Rightarrow> (u64 \<times> 'a swapst_scheme) option" where
  "pageout pte s = do {
     s \<leftarrow> acquire SwapLock s;
     (pa, s) \<leftarrow>
       (if pte_at s pte AND PTE_V \<noteq> 0
        then case free_swap_block SWAP_SPACE_BLOCKS 0 s of
               None \<Rightarrow> Some (0, s)
             | Some i \<Rightarrow> do {
                 let pa = PTE2PA (pte_at s pte);
                 let s = s\<lparr>swappg_refcnt := (swappg_refcnt s)(i := 1)\<rparr>;
                 let s = set_pte pte (PTE_PGOUT (of_nat i) (PTE_FLAGS (pte_at s pte))) s;
                 s \<leftarrow> release SwapLock s;
                 (b, s) \<leftarrow> bread ROOTDEV (swapstart s + of_nat i) s;
                 let s = bmod b (mem_copy 0 (mem s) pa PGSIZE (bdata s b)) s;
                 s \<leftarrow> bwrite b s;
                 s \<leftarrow> brelse b s;
                 s \<leftarrow> acquire SwapLock s;
                 Some (pa, s) }
        else Some (-1, s));
     s \<leftarrow> release SwapLock s;
     Some (pa, s) }"

definition pagein :: "('a swapst_scheme \<Rightarrow> (u64 \<times> 'a swapst_scheme) option) \<Rightarrow>
    u64 \<Rightarrow> sleepid \<Rightarrow> 'a swapst_scheme \<Rightarrow> (int \<times> 'a swapst_scheme) option" where
  "pagein kal pte slk s = do {
     s \<leftarrow> acquiresleep slk s;
     (if pte_at s pte AND PTE_PG = 0
      then do { s \<leftarrow> releasesleep slk s; Some (0, s) }
      else do {
        let idx = unat (PTE2IDX (pte_at s pte));
        (m, s) \<leftarrow> kal s;
        (if m = 0 then do { s \<leftarrow> releasesleep slk s; Some (-1, s) }
         else do {
           s \<leftarrow> acquire SwapLock s;
           (if \<not> idx < SWAP_SPACE_BLOCKS then None
            else if swappg_refcnt s idx \<le> 0 then panic ''pagein'' else do {
             let s = s\<lparr>swappg_refcnt := (swappg_refcnt s)(idx := swappg_refcnt s idx - 1)\<rparr>;
             s \<leftarrow> release SwapLock s;
             (b, s) \<leftarrow> bread ROOTDEV (swapstart s + of_nat idx) s;
             let s = s\<lparr>mem := mem_copy m (bdata s b) 0 PGSIZE (mem s)\<rparr>;
             let s = set_pte pte (PTE_PGIN m (PTE_FLAGS (pte_at s pte))) s;
             s \<leftarrow> brelse b s;
             s \<leftarrow> releasesleep slk s;
             Some (0, s) }) }) }) }"

definition swapdecget :: "nat \<Rightarrow> 'a swapst_scheme \<Rightarrow> (int \<times> 'a swapst_scheme) option" where
  "swapdecget idx s = do {
     s \<leftarrow> acquire SwapLock s;
     (if \<not> idx < SWAP_SPACE_BLOCKS then None else do {
       let s = s\<lparr>swappg_refcnt := (swappg_refcnt s)(idx := swappg_refcnt s idx - 1)\<rparr>;
       let res = swappg_refcnt s idx;
       s \<leftarrow> release SwapLock s;
       Some (res, s) }) }"

fun count_free_swap :: "nat \<Rightarrow> 'a swapst_scheme \<Rightarrow> nat" where
  "count_free_swap 0 s = 0"
| "count_free_swap (Suc i) s = count_free_swap i s + (if swappg_refcnt s i = 0 then 1 else 0)"

definition swapcollect :: "'a swapst_scheme \<Rightarrow> (nat \<times> 'a swapst_scheme) option" where
  "swapcollect s = do {
     s \<leftarrow> acquire SwapLock s;
     let n = count_free_swap SWAP_SPACE_BLOCKS s;
     s \<leftarrow> release SwapLock s;
     Some (n * PGSIZE, s) }"

section \<open>The page to swap out\<close>

definition swappable :: "proc \<Rightarrow> bool" where
  "swappable p \<longleftrightarrow> (pstate p = RUNNING \<or> pstate p = RUNNABLE \<or> pstate p = SLEEPING) \<and> ppid p > 2"

definition npages :: "u64 \<Rightarrow> nat" where
  \<comment> \<open>the rounds of \<open>for (a = 0; a < sz; a += PGSIZE)\<close>\<close>
  "npages sz = (unat sz + (PGSIZE - 1)) div PGSIZE"

fun scan_pages :: "nat \<Rightarrow> u64 \<Rightarrow> u64 \<Rightarrow> u8 \<Rightarrow> u64 \<Rightarrow> 'a swapst_scheme \<Rightarrow>
    (u8 \<times> u64 \<times> 'a swapst_scheme) option" where
  "scan_pages 0 a pt minage ret s = Some (minage, ret, s)"
| "scan_pages (Suc k) a pt minage ret s = do {
     pte \<leftarrow> walk_get pt a s;
     (if pte = 0 \<or> pte_at s pte AND PTE_V = 0 \<or> pte_at s pte AND PTE_COW \<noteq> 0
      then scan_pages k (a + of_nat PGSIZE) pt minage ret s
      else if PTE_FLAGS (pte_at s pte) = PTE_V then panic ''find_nfup_proc: not a leaf''
      else do {
        (age, s) \<leftarrow> pageage pte s;
        let (minage, ret) =
          (if age < minage \<and> ref_cnt s (COW_REFIDX (PTE2PA (pte_at s pte))) = 1 then (age, pte)
           else (minage, ret));
        (if minage = 0 then Some (minage, ret, s)
         else scan_pages k (a + of_nat PGSIZE) pt minage ret s) }) }"

fun scan_procs :: "nat \<Rightarrow> nat \<Rightarrow> u8 \<Rightarrow> u64 \<Rightarrow> 'a swapst_scheme \<Rightarrow>
    (u8 \<times> u64 \<times> 'a swapst_scheme) option" where
  "scan_procs 0 p minage ret s = Some (minage, ret, s)"
| "scan_procs (Suc k) p minage ret s = do {
     s \<leftarrow> acquire (ProcLock p) s;
     (minage, ret, s) \<leftarrow>
       (if swappable (procs s p)
        then do {
          let ts = ptshared (procs s p);
          s \<leftarrow> acquire (tlock ts) s;
          s \<leftarrow> acquire RefLock s;
          (minage, ret, s) \<leftarrow>
            scan_pages (npages (ts_sz (tshareds s ts))) 0 (ppagetable (procs s p)) minage ret s;
          s \<leftarrow> release RefLock s;
          s \<leftarrow> release (tlock ts) s;
          Some (minage, ret, s) }
        else Some (minage, ret, s));
     s \<leftarrow> release (ProcLock p) s;
     (if minage = 0 then Some (minage, ret, s) else scan_procs k (Suc p) minage ret s) }"

definition find_swapping_page :: "'a swapst_scheme \<Rightarrow> (u64 \<times> 'a swapst_scheme) option" where
  \<comment> \<open>\<open>res < 0\<close> is never true of the \<open>uint64\<close> it tests, so there is no way back to \<open>begin\<close>\<close>
  "find_swapping_page s = do {
     (minage, ret, s) \<leftarrow> scan_procs NPROC 0 255 0 s;
     (if ret = 0 then Some (0, s) else do {
       s \<leftarrow> acquire RefLock s;
       let idx = COW_REFIDX (PTE2PA (pte_at s ret));
       (if ref_cnt s idx \<noteq> 1 then panic ''find_swapping_page 2'' else do {
         s \<leftarrow> release RefLock s;
         (res, s) \<leftarrow> pageout ret s;
         (if res > 0 then do {
            s \<leftarrow> acquire RefLock s;
            let s = s\<lparr>ref_cnt := (ref_cnt s)(idx := 0)\<rparr>;
            s \<leftarrow> release RefLock s;
            Some (res, s) }
          else Some (res, s)) }) }) }"

definition kmalloc :: "'a swapst_scheme \<Rightarrow> (u64 \<times> 'a swapst_scheme) option" where
  "kmalloc = kalloc find_swapping_page"

fun age_pages :: "nat \<Rightarrow> u64 \<Rightarrow> u64 \<Rightarrow> 'a swapst_scheme \<Rightarrow> 'a swapst_scheme option" where
  "age_pages 0 a pt s = Some s"
| "age_pages (Suc k) a pt s = do {
     pte \<leftarrow> walk_get pt a s;
     (if pte = 0 \<or> pte_at s pte AND PTE_V = 0 then age_pages k (a + of_nat PGSIZE) pt s
      else do { (age, s) \<leftarrow> pageage pte s; age_pages k (a + of_nat PGSIZE) pt s }) }"

fun age_procs :: "nat \<Rightarrow> nat \<Rightarrow> 'a swapst_scheme \<Rightarrow> 'a swapst_scheme option" where
  "age_procs 0 p s = Some s"
| "age_procs (Suc k) p s = do {
     s \<leftarrow> acquire (ProcLock p) s;
     s \<leftarrow> (if swappable (procs s p)
           then do {
             let ts = ptshared (procs s p);
             s \<leftarrow> acquire (tlock ts) s;
             s \<leftarrow> age_pages (npages (ts_sz (tshareds s ts))) 0 (ppagetable (procs s p)) s;
             release (tlock ts) s }
           else Some s);
     s \<leftarrow> release (ProcLock p) s;
     age_procs k (Suc p) s }"

definition update_page_age :: "'a swapst_scheme \<Rightarrow> 'a swapst_scheme option" where
  "update_page_age s = age_procs NPROC 0 s"

end
