(* ===== verification/Log.thy ===== *)
theory Log
  imports Swap
begin

text \<open>
  The redo log of \<open>kernel/log.c\<close>: transactions are collected in the buffer cache (pinned
  blocks), written to the log area, committed by one write of the header block, installed
  to their home locations and erased.  \<open>log.lh.block[i]\<close> is a C \<open>int\<close> that only ever
  moves between the disk, comparisons and block numbers, so it is kept as its 32-bit word;
  \<open>log.lh.n\<close> is compared as a signed integer and is an \<open>int\<close>.  Waiting in \<open>begin_op\<close>
  is \<open>None\<close>.
\<close>

section \<open>State\<close>

definition LOGSIZE :: int where "LOGSIZE = 30"
definition MAXOPBLOCKS :: int where "MAXOPBLOCKS = 10"

record logst = swapst +
  log_start :: int
  log_size :: int
  outstanding :: int
  committing :: bool
  log_dev :: u32
  lh_n :: int
  lh_block :: "nat \<Rightarrow> u32"

section \<open>Operations\<close>

fun install_loop :: "nat \<Rightarrow> int \<Rightarrow> bool \<Rightarrow> 'a logst_scheme \<Rightarrow> 'a logst_scheme option" where
  \<comment> \<open>\<open>for (tail = 0; tail < log.lh.n; tail++)\<close>, the first argument counts the rounds left\<close>
  "install_loop 0 tail recovering s = Some s"
| "install_loop (Suc k) tail recovering s = do {
     (lbuf, s) \<leftarrow> bread (log_dev s) (of_int (log_start s + tail + 1)) s;
     (dbuf, s) \<leftarrow> bread (log_dev s) (lh_block s (nat tail)) s;
     let s = bmod dbuf (bdata s lbuf) s;
     s \<leftarrow> bwrite dbuf s;
     let s = (if \<not> recovering then bunpin dbuf s else s);
     s \<leftarrow> brelse lbuf s;
     s \<leftarrow> brelse dbuf s;
     install_loop k (tail + 1) recovering s }"

definition install_trans :: "bool \<Rightarrow> 'a logst_scheme \<Rightarrow> 'a logst_scheme option" where
  "install_trans recovering s = install_loop (nat (lh_n s)) 0 recovering s"

fun read_blocks :: "nat \<Rightarrow> nat \<Rightarrow> bytes \<Rightarrow> (nat \<Rightarrow> u32) \<Rightarrow> nat \<Rightarrow> u32" where
  "read_blocks 0 i lh blk = blk"
| "read_blocks (Suc k) i lh blk = read_blocks k (Suc i) lh (blk(i := ld32 lh (of_nat (4 + 4 * i))))"

definition read_head :: "'a logst_scheme \<Rightarrow> 'a logst_scheme option" where
  "read_head s = do {
     (buf, s) \<leftarrow> bread (log_dev s) (of_int (log_start s)) s;
     let lh = bdata s buf;
     let s = s\<lparr>lh_n := sint (ld32 lh 0)\<rparr>;
     (if LOGSIZE < lh_n s then None \<comment> \<open>writes past \<open>log.lh.block[]\<close>\<close> else do {
       let s = s\<lparr>lh_block := read_blocks (nat (lh_n s)) 0 lh (lh_block s)\<rparr>;
       brelse buf s }) }"

fun write_blocks :: "nat \<Rightarrow> nat \<Rightarrow> (nat \<Rightarrow> u32) \<Rightarrow> bytes \<Rightarrow> bytes" where
  "write_blocks 0 i blk hb = hb"
| "write_blocks (Suc k) i blk hb = write_blocks k (Suc i) blk (st32 (of_nat (4 + 4 * i)) (blk i) hb)"

definition write_head :: "'a logst_scheme \<Rightarrow> 'a logst_scheme option" where
  "write_head s = do {
     (buf, s) \<leftarrow> bread (log_dev s) (of_int (log_start s)) s;
     let s = bmod buf (st32 0 (of_int (lh_n s)) (bdata s buf)) s;
     let s = bmod buf (write_blocks (nat (lh_n s)) 0 (lh_block s) (bdata s buf)) s;
     s \<leftarrow> bwrite buf s;
     brelse buf s }"

definition recover_from_log :: "'a logst_scheme \<Rightarrow> 'a logst_scheme option" where
  "recover_from_log s = do {
     s \<leftarrow> read_head s;
     s \<leftarrow> install_trans True s;
     let s = s\<lparr>lh_n := 0\<rparr>;
     write_head s }"

definition initlog :: "u32 \<Rightarrow> int \<Rightarrow> int \<Rightarrow> 'a logst_scheme \<Rightarrow> 'a logst_scheme option" where
  \<comment> \<open>\<open>logstart\<close> and \<open>nlog\<close> are the fields of the super block\<close>
  "initlog dev logstart nlog s = do {
     let s = s\<lparr>lk := (lk s)(LogLock := None)\<rparr>;
     let s = s\<lparr>log_start := logstart, log_size := nlog, log_dev := dev\<rparr>;
     recover_from_log s }"

definition begin_op :: "'a logst_scheme \<Rightarrow> 'a logst_scheme option" where
  "begin_op s = do {
     s \<leftarrow> acquire LogLock s;
     (if committing s then None
      else if lh_n s + (outstanding s + 1) * MAXOPBLOCKS > LOGSIZE then None
      else release LogLock (s\<lparr>outstanding := outstanding s + 1\<rparr>)) }"

fun write_log_loop :: "nat \<Rightarrow> int \<Rightarrow> 'a logst_scheme \<Rightarrow> 'a logst_scheme option" where
  "write_log_loop 0 tail s = Some s"
| "write_log_loop (Suc k) tail s = do {
     (to, s) \<leftarrow> bread (log_dev s) (of_int (log_start s + tail + 1)) s;
     (from, s) \<leftarrow> bread (log_dev s) (lh_block s (nat tail)) s;
     let s = bmod to (bdata s from) s;
     s \<leftarrow> bwrite to s;
     s \<leftarrow> brelse from s;
     s \<leftarrow> brelse to s;
     write_log_loop k (tail + 1) s }"

definition write_log :: "'a logst_scheme \<Rightarrow> 'a logst_scheme option" where
  "write_log s = write_log_loop (nat (lh_n s)) 0 s"

definition commit :: "'a logst_scheme \<Rightarrow> 'a logst_scheme option" where
  "commit s =
     (if lh_n s > 0
      then do {
        s \<leftarrow> write_log s;
        s \<leftarrow> write_head s;
        s \<leftarrow> install_trans False s;
        let s = s\<lparr>lh_n := 0\<rparr>;
        write_head s }
      else Some s)"

definition end_op :: "'a logst_scheme \<Rightarrow> 'a logst_scheme option" where
  \<comment> \<open>both \<open>wakeup(&log)\<close> are left out: they make processes runnable that wait in \<open>begin_op\<close>, and a
      \<open>begin_op\<close> that has to wait is \<open>None\<close> in this model\<close>
  "end_op s = do {
     s \<leftarrow> acquire LogLock s;
     let s = s\<lparr>outstanding := outstanding s - 1\<rparr>;
     (if committing s then panic ''log.committing''
      else do {
        let do_commit = (outstanding s = 0);
        let s = (if do_commit then s\<lparr>committing := True\<rparr> else s);
        s \<leftarrow> release LogLock s;
        (if do_commit
         then do {
           s \<leftarrow> commit s;
           s \<leftarrow> acquire LogLock s;
           let s = s\<lparr>committing := False\<rparr>;
           release LogLock s }
         else Some s) }) }"

fun find_block :: "nat \<Rightarrow> nat \<Rightarrow> (nat \<Rightarrow> u32) \<Rightarrow> u32 \<Rightarrow> nat" where
  \<comment> \<open>the first \<open>i\<close> with \<open>block[i] == b->blockno\<close>, or \<open>log.lh.n\<close>\<close>
  "find_block 0 i blk b = i"
| "find_block (Suc k) i blk b = (if blk i = b then i else find_block k (Suc i) blk b)"

definition log_write :: "nat \<Rightarrow> 'a logst_scheme \<Rightarrow> 'a logst_scheme option" where
  "log_write b s = do {
     s \<leftarrow> acquire LogLock s;
     (if lh_n s \<ge> LOGSIZE \<or> lh_n s \<ge> log_size s - 1 then panic ''too big a transaction''
      else if outstanding s < 1 then panic ''log_write outside of trans''
      else do {
        let i = find_block (nat (lh_n s)) 0 (lh_block s) (b_blockno (bufs s b));
        let s = s\<lparr>lh_block := (lh_block s)(i := b_blockno (bufs s b))\<rparr>;
        let s = (if int i = lh_n s then (bpin b s)\<lparr>lh_n := lh_n s + 1\<rparr> else s);
        release LogLock s }) }"

end
