(* ===== verification/LogProps.thy ===== *)
theory LogProps
  imports Log
begin

text \<open>
  What the log does to the disk: the block writes of \<open>commit\<close> in their order, recovery as
  a function of the disk alone, and the crash theorem that puts the two together.
\<close>

section \<open>The header block\<close>

lemma of_nat_ranges_disjoint:
  assumes "i + n \<le> j \<or> j + k \<le> i" "i + n < 2 ^ 32" "j + k < 2 ^ 32"
  shows "ranges_disjoint (of_nat i) n (of_nat j) k"
  unfolding ranges_disjoint_def
proof (intro allI impI notI)
  fix a b assume ab: "a < n" "b < k" and eq: "(of_nat i + of_nat a :: u64) = of_nat j + of_nat b"
  then have "(of_nat (i + a) :: u64) = of_nat (j + b)" by simp
  then have "i + a = j + b" by (rule word_of_nat_inj_lt [rotated 2]) (use assms ab in simp_all)
  then show False using assms(1) ab by auto
qed

definition hdr_off :: "nat \<Rightarrow> u64" where
  "hdr_off i = of_nat (4 + 4 * i)"

lemma hdr_off_disjoint:
  "i \<noteq> j \<Longrightarrow> i \<le> 40 \<Longrightarrow> j \<le> 40 \<Longrightarrow> ranges_disjoint (hdr_off i) 4 (hdr_off j) 4"
  "i \<le> 40 \<Longrightarrow> ranges_disjoint (hdr_off i) 4 0 4" "i \<le> 40 \<Longrightarrow> ranges_disjoint 0 4 (hdr_off i) 4"
proof -
  show "ranges_disjoint (hdr_off i) 4 (hdr_off j) 4" if "i \<noteq> j" "i \<le> 40" "j \<le> 40"
    unfolding hdr_off_def by (rule of_nat_ranges_disjoint) (use that in auto)
  show "ranges_disjoint (hdr_off i) 4 0 4" "ranges_disjoint 0 4 (hdr_off i) 4" if "i \<le> 40"
    using of_nat_ranges_disjoint [of "4 + 4 * i" 4 0 4] of_nat_ranges_disjoint [of 0 4 "4 + 4 * i" 4] that
    by (simp_all add: hdr_off_def)
qed

lemma write_blocks_ld:
  "i + k \<le> 40 \<Longrightarrow> j \<le> 40 \<Longrightarrow>
     ld32 (write_blocks k i blk hb) (hdr_off j) = (if i \<le> j \<and> j < i + k then blk j else ld32 hb (hdr_off j))"
proof (induction k arbitrary: i hb)
  case (Suc k)
  have eq: "write_blocks (Suc k) i blk hb = write_blocks k (Suc i) blk (st32 (hdr_off i) (blk i) hb)"
    by (simp add: hdr_off_def)
  show ?case
    unfolding eq using Suc.IH [of "Suc i" "st32 (hdr_off i) (blk i) hb"] Suc.prems
    by (cases "j = i") (auto simp: ld_st_disjoint(2) hdr_off_disjoint(1))
qed auto

lemma write_blocks_ld0: "i + k \<le> 40 \<Longrightarrow> ld32 (write_blocks k i blk hb) 0 = ld32 hb 0"
proof (induction k arbitrary: i hb)
  case (Suc k)
  have eq: "write_blocks (Suc k) i blk hb = write_blocks k (Suc i) blk (st32 (hdr_off i) (blk i) hb)"
    by (simp add: hdr_off_def)
  show ?case unfolding eq using Suc by (simp add: ld_st_disjoint(2) hdr_off_disjoint(2))
qed simp

lemma read_blocks_eq:
  "read_blocks k i lh blk j = (if i \<le> j \<and> j < i + k then ld32 lh (hdr_off j) else blk j)"
  by (induction k arbitrary: i blk) (auto simp: hdr_off_def)

definition hdr_n :: "bytes \<Rightarrow> int" where
  "hdr_n d = sint (ld32 d 0)"

definition hdr_block :: "bytes \<Rightarrow> nat \<Rightarrow> nat" where
  "hdr_block d i = unat (ld32 d (hdr_off i))"

definition header :: "int \<Rightarrow> (nat \<Rightarrow> u32) \<Rightarrow> bytes \<Rightarrow> bytes" where
  \<comment> \<open>what \<open>write_head\<close> makes of the old contents of the header block\<close>
  "header n blk d = write_blocks (nat n) 0 blk (st32 0 (of_int n) d)"

lemma header_roundtrip:
  assumes "0 \<le> n" "n \<le> LOGSIZE"
  shows "hdr_n (header n blk d) = n" and "i < nat n \<Longrightarrow> hdr_block (header n blk d) i = unat (blk i)"
proof -
  have k: "0 + nat n \<le> 40" using assms by (simp add: LOGSIZE_def)
  have "sint (of_int n :: u32) = n"
    using assms by (simp add: LOGSIZE_def int_word_sint)
  then show "hdr_n (header n blk d) = n"
    by (simp add: hdr_n_def header_def write_blocks_ld0 [OF k])
  show "hdr_block (header n blk d) i = unat (blk i)" if "i < nat n"
    using that k by (simp add: hdr_block_def header_def write_blocks_ld)
qed

section \<open>Sequences of block writes\<close>

definition apply_writes :: "(nat \<times> bytes) list \<Rightarrow> (nat \<Rightarrow> bytes) \<Rightarrow> nat \<Rightarrow> bytes" where
  "apply_writes ws D = foldl (\<lambda>D (b, d). D(b := d)) D ws"

lemma apply_writes_simps [simp]:
  "apply_writes [] D = D" "apply_writes ((b, d) # ws) D = apply_writes ws (D(b := d))"
  "apply_writes (ws @ vs) D = apply_writes vs (apply_writes ws D)"
  by (simp_all add: apply_writes_def)

lemma apply_writes_other: "b \<notin> fst ` set ws \<Longrightarrow> apply_writes ws D b = D b"
  by (induction ws arbitrary: D) auto

lemma apply_writes_last:
  "distinct (map fst ws) \<Longrightarrow> (b, d) \<in> set ws \<Longrightarrow> apply_writes ws D b = d"
proof (induction ws arbitrary: D)
  case (Cons w ws)
  obtain c e where w: "w = (c, e)" by (cases w)
  show ?case
  proof (cases "(b, d) \<in> set ws")
    case False
    then have "c = b" "e = d" using Cons.prems w by auto
    moreover have "b \<notin> fst ` set ws" using Cons.prems w calculation by auto
    ultimately show ?thesis by (simp add: w apply_writes_other)
  qed (use Cons w in simp)
qed simp

section \<open>The parts of \<open>commit\<close>\<close>

definition slot :: "'a logst_scheme \<Rightarrow> nat \<Rightarrow> nat" where
  \<comment> \<open>the block of the log area that holds the \<open>i\<close>-th logged block\<close>
  "slot s i = nat (log_start s) + i + 1"

definition home :: "'a logst_scheme \<Rightarrow> nat \<Rightarrow> nat" where
  "home s i = unat (lh_block s i)"

definition log_area :: "'a logst_scheme \<Rightarrow> nat set" where
  "log_area s = {nat (log_start s)..nat (log_start s) + 30}"

definition log_wf :: "'a logst_scheme \<Rightarrow> bool" where
  \<comment> \<open>the log is where \<open>initlog\<close> was told, and every logged block is a block outside it\<close>
  "log_wf s \<longleftrightarrow> log_dev s = 1 \<and> 0 < log_start s \<and> log_start s + 31 \<le> int FSSIZE \<and>
     0 \<le> lh_n s \<and> lh_n s \<le> LOGSIZE \<and>
     (\<forall>i < nat (lh_n s). blk_ok (home s i) \<and> home s i \<notin> log_area s)"

lemma bstep_log:
  assumes "bstep s t"
  shows "log_start t = log_start s" "log_size t = log_size s" "outstanding t = outstanding s"
    "committing t = committing s" "log_dev t = log_dev s" "lh_n t = lh_n s" "lh_block t = lh_block s"
proof -
  have m: "bcache.more t = bcache.more s" using assms by (simp add: bstep_def)
  show "log_start t = log_start s" "log_size t = log_size s" "outstanding t = outstanding s"
    "committing t = committing s" "log_dev t = log_dev s" "lh_n t = lh_n s" "lh_block t = lh_block s"
    using m by (cases s; cases t; simp)+
qed

lemma bstep_log_wf: "bstep s t \<Longrightarrow> log_wf t = log_wf s"
  by (simp add: log_wf_def log_area_def home_def bstep_log)

section \<open>Steps that leave everything but the log alone\<close>

definition lstep :: "'a logst_scheme \<Rightarrow> 'a logst_scheme \<Rightarrow> bool" where
  "lstep s t \<longleftrightarrow> lk t = lk s \<and> noff t = noff s \<and> cpuid t = cpuid s \<and> mypid t = mypid s \<and>
     same_proc s t \<and> swappg_refcnt t = swappg_refcnt s \<and> pg_age t = pg_age s \<and> swapstart t = swapstart s \<and>
     log_start t = log_start s \<and> log_size t = log_size s \<and> outstanding t = outstanding s \<and>
     committing t = committing s \<and> log_dev t = log_dev s \<and> logst.more t = logst.more s"

lemma lstep_refl [simp]: "lstep s s"
  by (simp add: lstep_def)

lemma lstep_trans: "lstep s t \<Longrightarrow> lstep t u \<Longrightarrow> lstep s u"
  by (auto simp: lstep_def intro: same_proc_trans)

lemma bstep_lstep: "bstep s t \<Longrightarrow> lstep s t"
proof -
  assume b: "bstep s t"
  then have m: "bcache.more t = bcache.more s" by (simp add: bstep_def)
  have "swappg_refcnt t = swappg_refcnt s" "pg_age t = pg_age s" "swapstart t = swapstart s"
      "logst.more t = logst.more s"
    using m by (cases s; cases t; simp)+
  then show ?thesis using b bstep_log [OF b] by (simp add: lstep_def bstep_def)
qed

lemma lstep_log:
  assumes "lstep s t"
  shows "log_start t = log_start s" "log_size t = log_size s" "outstanding t = outstanding s"
    "committing t = committing s" "log_dev t = log_dev s" "lk t = lk s" "log_area t = log_area s"
  using assms by (simp_all add: lstep_def log_area_def)

section \<open>Slots\<close>

lemma slot_word:
  assumes "log_wf s" "i < 30"
  shows "(of_int (log_start s + int i + 1) :: u32) = of_nat (slot s i)"
    and "blk_ok (slot s i)" "blk_ok (nat (log_start s))" "(of_int (log_start s) :: u32) = of_nat (nat (log_start s))"
proof -
  have p: "0 < log_start s" "log_start s + 31 \<le> int FSSIZE" using assms by (simp_all add: log_wf_def)
  then have "log_start s + int i + 1 = int (slot s i)" by (simp add: slot_def)
  then show "(of_int (log_start s + int i + 1) :: u32) = of_nat (slot s i)" by (metis of_int_of_nat_eq)
  have "log_start s = int (nat (log_start s))" using p by simp
  then show "(of_int (log_start s) :: u32) = of_nat (nat (log_start s))" by (metis of_int_of_nat_eq)
  show "blk_ok (slot s i)" "blk_ok (nat (log_start s))"
    using p assms(2) by (auto simp: blk_ok_def slot_def FSSIZE_def)
qed

lemma bmod_simps [simp]:
  "bmod i d' (bmod i d s) = bmod i d' s" "bdata (bmod i d s) i = d"
  "log_dev (bmod i d s) = log_dev s" "lh_n (bmod i d s) = lh_n s" "lh_block (bmod i d s) = lh_block s"
  "log_start (bmod i d s) = log_start s"
  by (simp_all add: bmod_def set_buf_def bdata_def)

definition calm :: "'a logst_scheme \<Rightarrow> bool" where
  \<comment> \<open>no buffer is locked, and the cache has room for one more block\<close>
  "calm s \<longleftrightarrow> binv s \<and> (\<forall>b. \<not> blocked s b) \<and> (\<forall>b. refs s b < MAXREF) \<and> card (in_use s) < NBUF"

lemma in_use_mono: "(\<And>b. refs t b \<le> refs s b) \<Longrightarrow> card (in_use t) \<le> card (in_use s)"
  by (rule card_mono [OF in_use_finite]) (auto simp: in_use_def intro: less_le_trans)

lemma calm_effect:
  assumes "calm s" "bc.effect s v d w c t" "\<And>b. c b \<le> refs s b"
  shows "calm t"
proof -
  note E = bc.effectD [OF assms(2)]
  have "card (in_use t) \<le> card (in_use s)" using assms(3) by (intro in_use_mono) (simp add: E(6))
  then show ?thesis
    using assms(1) E(1,6,8) assms(3) unfolding calm_def by (metis le_less_trans)
qed

lemma calm_room:
  assumes "calm s" "blk_ok b"
  shows "bc.room s b"
  using assms by (simp add: calm_def bc.room_def in_use_def)

lemma calm_room2:
  assumes "calm s" "blk_ok a" "blk_ok b" "a \<noteq> b" "0 < refs s b \<or> card (in_use s) + 1 < NBUF"
  shows "bc.room2 s a b"
  using assms calm_room [OF assms(1,2)] by (simp add: calm_def bc.room2_def in_use_def)

lemma write_head_spec:
  assumes wf: "log_wf s" and calm: "calm s"
  defines "S \<equiv> nat (log_start s)" and "H \<equiv> header (lh_n s) (lh_block s) (view s (nat (log_start s)))"
  shows "\<exists>t. write_head s = Some t \<and>
    bc.effect s ((view s)(S := H)) ((disk s)(S := H)) [(S, H)] (refs s) t"
proof -
  have w: "(of_int (log_start s) :: u32) = of_nat S" "blk_ok S" "log_dev s = 1"
    using slot_word(3,4) [OF wf, of 0] wf by (simp_all add: S_def log_wf_def)
  obtain i t u x where st: "bread 1 (of_nat S) s = Some (i, t)" "bdata t i = view s S" "bstep s t"
      "bwrite i (bmod i H t) = Some u" "brelse i u = Some x"
      "bc.effect s ((view s)(S := H)) ((disk s)(S := H)) [(S, H)] (refs s) x"
    using bc.store [OF _ calm_room [OF calm w(2)], of H] calm by (auto simp: calm_def)
  have "write_head s = Some x"
    unfolding write_head_def w(3) w(1) st(1)
    using st(2-5) by (simp add: bstep_log Let_def H_def header_def S_def)
  then show ?thesis using st(6) by blast
qed

text \<open>\<open>log_writes\<close> and \<open>home_writes\<close> are the block writes of \<open>write_log\<close> and
  \<open>install_trans\<close>.\<close>

definition log_writes :: "'a logst_scheme \<Rightarrow> nat \<Rightarrow> nat \<Rightarrow> (nat \<times> bytes) list" where
  "log_writes s i k = map (\<lambda>j. (slot s j, view s (home s j))) [i..<i + k]"

definition home_writes :: "'a logst_scheme \<Rightarrow> nat \<Rightarrow> nat \<Rightarrow> (nat \<times> bytes) list" where
  "home_writes s i k = map (\<lambda>j. (home s j, view s (slot s j))) [i..<i + k]"

lemma upt_Suc_conv: "[i..<i + Suc k] = i # [Suc i..<Suc i + k]"
  by (simp add: upt_conv_Cons del: upt_Suc)

lemma home_not_slot:
  assumes "log_wf s" "i < nat (lh_n s)" "j < 30" shows "home s i \<noteq> slot s j"
  using assms by (auto simp: log_wf_def log_area_def slot_def)

lemma lh_n_30: "log_wf s \<Longrightarrow> nat (lh_n s) \<le> 30"
  by (auto simp: log_wf_def LOGSIZE_def)

lemma write_log_loop_spec:
  assumes "log_wf s" "calm s" "\<And>j. j < nat (lh_n s) \<Longrightarrow> 0 < refs s (home s j)" "i + k \<le> nat (lh_n s)"
  shows "\<exists>t. write_log_loop k (int i) s = Some t \<and>
    bc.effect s (apply_writes (log_writes s i k) (view s)) (apply_writes (log_writes s i k) (disk s))
      (log_writes s i k) (refs s) t"
  using assms
proof (induction k arbitrary: i s)
  case 0
  then show ?case using bc.effect_refl [of s] by (simp add: log_writes_def calm_def)
next
  case (Suc k)
  note wf = Suc.prems(1) and calm = Suc.prems(2)
  have i30: "i < 30" and ihn: "i < nat (lh_n s)" using Suc.prems(4) lh_n_30 [OF wf] by auto
  let ?a = "slot s i" and ?b = "home s i"
  have ok: "blk_ok ?a" "blk_ok ?b" "?a \<noteq> ?b" "log_dev s = 1"
    using slot_word(2) [OF wf i30] wf ihn home_not_slot [OF wf ihn i30] by (auto simp: log_wf_def)
  have w: "(of_int (log_start s + int i + 1) :: u32) = of_nat ?a" "lh_block s i = of_nat ?b"
    using slot_word(1) [OF wf i30] by (simp_all add: home_def)
  have "binv s" "bc.room2 s ?a ?b"
    using calm calm_room2 [OF calm ok(1-3)] Suc.prems(3) [OF ihn] by (simp_all add: calm_def)
  from bc.copy_rel [OF this insert_commute [of ?b ?a "{}"]] ok(3) obtain p t q u v x y where
    c: "bread 1 (of_nat ?a) s = Some (p, t)" "bstep s t" "bread 1 (of_nat ?b) t = Some (q, u)"
      "bwrite p (bmod p (bdata u q) u) = Some v" "bstep s v" "brelse q v = Some x" "brelse p x = Some y"
      and e: "bc.effect s ((view s)(?a := view s ?b)) ((disk s)(?a := view s ?b)) [(?a, view s ?b)] (refs s) y"
    by (auto simp: Let_def)
  note E = bc.effectD [OF e]
  have same: "log_wf y" "lh_n y = lh_n s" "slot y = slot s" "home y = home s"
    using bstep_log_wf [OF E(2)] wf bstep_log [OF E(2)] by (simp_all add: slot_def home_def fun_eq_iff)
  have step: "write_log_loop (Suc k) (int i) s = write_log_loop k (int (Suc i)) y"
    unfolding write_log_loop.simps ok(4) w(1) c(1)
    using c by (simp add: ok(4) bstep_log(5,7) [OF c(2)] w(2) Let_def add.commute)
  have vh: "view y (home s j) = view s (home s j)" if "j < nat (lh_n s)" for j
    using home_not_slot [OF wf that i30] by (simp add: E(3))
  have lw: "log_writes y (Suc i) k = log_writes s (Suc i) k"
    unfolding log_writes_def same using vh Suc.prems(4) by (intro map_cong refl) (simp del: upt_Suc)
  have lws: "log_writes s i (Suc k) = (?a, view s ?b) # log_writes s (Suc i) k"
    unfolding log_writes_def upt_Suc_conv by simp
  have "\<exists>z. write_log_loop k (int (Suc i)) y = Some z \<and>
    bc.effect y (apply_writes (log_writes y (Suc i) k) (view y)) (apply_writes (log_writes y (Suc i) k) (disk y))
      (log_writes y (Suc i) k) (refs y) z"
    by (rule Suc.IH) (use same calm_effect [OF calm e] Suc.prems(3,4) in \<open>simp_all add: E(6)\<close>)
  then obtain z where z: "write_log_loop k (int (Suc i)) y = Some z" and
    ez: "bc.effect y (apply_writes (log_writes y (Suc i) k) (view y)) (apply_writes (log_writes y (Suc i) k) (disk y))
      (log_writes y (Suc i) k) (refs y) z" by blast
  show ?case using bc.effect_trans [OF e ez] unfolding step z lw lws E(3,4,6) by simp
qed

lemma install_loop_spec:
  assumes "log_wf s" "calm s" "i + k \<le> nat (lh_n s)"
    and "\<not> recovering \<Longrightarrow> distinct (map (home s) [i..<i + k]) \<and> (\<forall>j \<in> {i..<i + k}. 0 < refs s (home s j))"
    and "recovering \<Longrightarrow> card (in_use s) + 1 < NBUF"
  defines "c \<equiv> (if recovering then refs s else (\<lambda>b. refs s b - (if b \<in> home s ` {i..<i + k} then 1 else 0)))"
  shows "\<exists>t. install_loop k (int i) recovering s = Some t \<and>
    bc.effect s (apply_writes (home_writes s i k) (view s)) (apply_writes (home_writes s i k) (disk s))
      (home_writes s i k) c t"
  using assms(1-5) unfolding c_def
proof (induction k arbitrary: i s)
  case 0
  then show ?case using bc.effect_refl [of s] by (simp add: home_writes_def calm_def)
next
  case (Suc k)
  note wf = Suc.prems(1) and calm = Suc.prems(2)
  have i30: "i < 30" and ihn: "i < nat (lh_n s)" using Suc.prems(3) lh_n_30 [OF wf] by auto
  let ?a = "slot s i" and ?b = "home s i"
  let ?c1 = "if recovering then refs s else (refs s)(?b := refs s ?b - 1)"
  have ok: "blk_ok ?a" "blk_ok ?b" "?a \<noteq> ?b" "log_dev s = 1"
    using slot_word(2) [OF wf i30] wf ihn home_not_slot [OF wf ihn i30] by (auto simp: log_wf_def)
  have w: "(of_int (log_start s + int i + 1) :: u32) = of_nat ?a" "lh_block s i = of_nat ?b"
    using slot_word(1) [OF wf i30] by (simp_all add: home_def)
  have pos: "\<not> recovering \<Longrightarrow> 0 < refs s ?b" using Suc.prems(4) by simp
  have bi: "binv s" and room: "bc.room2 s ?a ?b"
    using calm calm_room2 [OF calm ok(1-3)] pos Suc.prems(5) by (auto simp: calm_def)
  obtain y where step: "install_loop (Suc k) (int i) recovering s = install_loop k (int (Suc i)) recovering y"
      and e: "bc.effect s ((view s)(?b := view s ?a)) ((disk s)(?b := view s ?a)) [(?b, view s ?a)] ?c1 y"
  proof (cases recovering)
    case True
    from bc.copy_rel [OF bi room, of ?a ?b] ok(3) obtain p t q u v x y where
      c: "bread 1 (of_nat ?a) s = Some (p, t)" "bstep s t" "bread 1 (of_nat ?b) t = Some (q, u)"
        "bwrite q (bmod q (bdata u p) u) = Some v" "bstep s v" "brelse p v = Some x" "brelse q x = Some y"
        and e: "bc.effect s ((view s)(?b := view s ?a)) ((disk s)(?b := view s ?a)) [(?b, view s ?a)] (refs s) y"
      by (auto simp: Let_def)
    have "install_loop (Suc k) (int i) recovering s = install_loop k (int (Suc i)) recovering y"
      unfolding install_loop.simps ok(4) w(1) c(1)
      using c True by (simp add: ok(4) bstep_log(5,7) [OF c(2)] w(2) Let_def add.commute)
    then show ?thesis using e True that by simp
  next
    case False
    from bc.copy_unpin_rel [OF bi room pos [OF False]] obtain p t q u v x y where
      c: "bread 1 (of_nat ?a) s = Some (p, t)" "bstep s t" "bread 1 (of_nat ?b) t = Some (q, u)"
        "bwrite q (bmod q (bdata u p) u) = Some v" "bstep s v" "brelse p (bunpin q v) = Some x" "brelse q x = Some y"
        and e: "bc.effect s ((view s)(?b := view s ?a)) ((disk s)(?b := view s ?a)) [(?b, view s ?a)]
          ((refs s)(?b := refs s ?b - 1)) y"
      by blast
    have "install_loop (Suc k) (int i) recovering s = install_loop k (int (Suc i)) recovering y"
      unfolding install_loop.simps ok(4) w(1) c(1)
      using c False by (simp add: ok(4) bstep_log(5,7) [OF c(2)] w(2) Let_def add.commute)
    then show ?thesis using e False that by simp
  qed
  note E = bc.effectD [OF e]
  have same: "log_wf y" "lh_n y = lh_n s" "slot y = slot s" "home y = home s"
    using bstep_log_wf [OF E(2)] wf bstep_log [OF E(2)] by (simp_all add: slot_def home_def fun_eq_iff)
  have vh: "view y (slot s j) = view s (slot s j)" if "j < nat (lh_n s)" for j
    using home_not_slot [OF wf ihn, of j] that lh_n_30 [OF wf] by (simp add: E(3))
  have lw: "home_writes y (Suc i) k = home_writes s (Suc i) k"
    unfolding home_writes_def same using vh Suc.prems(3) by (intro map_cong refl) (simp del: upt_Suc)
  have lws: "home_writes s i (Suc k) = (?b, view s ?a) # home_writes s (Suc i) k"
    unfolding home_writes_def upt_Suc_conv by simp
  have split: "{i..<i + Suc k} = insert i {Suc i..<Suc i + k}" by auto
  have fresh: "?b \<notin> home s ` {Suc i..<Suc i + k}" if "\<not> recovering"
    using Suc.prems(4) [OF that] unfolding upt_Suc_conv by (simp del: upt_Suc)
  have le: "?c1 b \<le> refs s b" for b by simp
  let ?cc = "\<lambda>s i k. if recovering then refs s else (\<lambda>b. refs s b - (if b \<in> home s ` {i..<i + k} then 1 else 0))"
  have "\<exists>z. install_loop k (int (Suc i)) recovering y = Some z \<and>
    bc.effect y (apply_writes (home_writes y (Suc i) k) (view y)) (apply_writes (home_writes y (Suc i) k) (disk y))
      (home_writes y (Suc i) k) (?cc y (Suc i) k) z"
  proof (rule Suc.IH)
    show "calm y" using calm e le by (rule calm_effect)
    show "Suc i + k \<le> nat (lh_n y)" using Suc.prems(3) same by simp
    show "distinct (map (home y) [Suc i..<Suc i + k]) \<and> (\<forall>j \<in> {Suc i..<Suc i + k}. 0 < refs y (home y j))"
      if nr: "\<not> recovering"
    proof -
      have "home s j \<noteq> ?b" if "j \<in> {Suc i..<Suc i + k}" for j using fresh [OF nr] that by (metis imageI)
      then show ?thesis using Suc.prems(4) [OF nr] nr unfolding upt_Suc_conv split same E(6)
        by (simp del: upt_Suc)
    qed
    show "card (in_use y) + 1 < NBUF" if "recovering" using Suc.prems(5) [OF that] that by (simp add: in_use_def E(6))
  qed (rule same(1))
  then obtain z where z: "install_loop k (int (Suc i)) recovering y = Some z" and
    ez: "bc.effect y (apply_writes (home_writes y (Suc i) k) (view y)) (apply_writes (home_writes y (Suc i) k) (disk y))
      (home_writes y (Suc i) k) (?cc y (Suc i) k) z" by blast
  have cc: "?cc y (Suc i) k = ?cc s i (Suc k)"
    using fresh unfolding split by (auto simp: E(6) same fun_eq_iff)
  show ?case using bc.effect_trans [OF e ez] unfolding step z lw lws E(3,4) cc by simp
qed

section \<open>Commit\<close>

lemma same_cache_calm: "same_cache s t \<Longrightarrow> calm t = calm s"
  by (simp add: calm_def same_cacheD)

lemma same_cache_lh_n [simp]: "same_cache s (s\<lparr>lh_n := x\<rparr>)"
  by (simp add: same_cache_def)

lemmas log_fields_bcache [simp] = same_cacheD [OF same_cache_lh_n] same_cache_calm [OF same_cache_lh_n]

definition txn :: "'a logst_scheme \<Rightarrow> bool" where
  \<comment> \<open>a transaction ready to commit: the logged blocks are distinct, pinned, and the only ones
      that differ from the disk; the log on the disk is empty\<close>
  "txn s \<longleftrightarrow> log_wf s \<and> calm s \<and> 0 < lh_n s \<and>
     distinct (map (home s) [0..<nat (lh_n s)]) \<and> (\<forall>j < nat (lh_n s). 0 < refs s (home s j)) \<and>
     (\<forall>b. b \<notin> home s ` {..<nat (lh_n s)} \<longrightarrow> view s b = disk s b) \<and>
     hdr_n (disk s (nat (log_start s))) = 0"

definition commit_writes :: "'a logst_scheme \<Rightarrow> (nat \<times> bytes) list" where
  "commit_writes s =
     (let n = nat (lh_n s); S = nat (log_start s); H = header (lh_n s) (lh_block s) (view s S)
      in map (\<lambda>j. (slot s j, view s (home s j))) [0..<n] @ [(S, H)] @
         map (\<lambda>j. (home s j, view s (home s j))) [0..<n] @ [(S, header 0 (lh_block s) H)])"

lemma start_not_slot: "nat (log_start s) \<noteq> slot s j"
  by (simp add: slot_def)

lemma start_not_home: "log_wf s \<Longrightarrow> j < nat (lh_n s) \<Longrightarrow> nat (log_start s) \<noteq> home s j"
  by (auto simp: log_wf_def log_area_def)

lemma slot_inj: "slot s i = slot s j \<longleftrightarrow> i = j"
  by (simp add: slot_def)

lemma commit_spec:
  assumes "txn s"
  shows "\<exists>t. commit s = Some t \<and> writes t = writes s @ commit_writes s \<and>
    disk t = apply_writes (commit_writes s) (disk s) \<and> view t = apply_writes (commit_writes s) (view s) \<and>
    lh_n t = 0 \<and> calm t \<and> lstep s t \<and>
    refs t = (\<lambda>b. refs s b - (if b \<in> home s ` {..<nat (lh_n s)} then 1 else 0))"
proof -
  let ?n = "nat (lh_n s)" and ?S = "nat (log_start s)"
  let ?H = "header (lh_n s) (lh_block s) (view s ?S)"
  have wf: "log_wf s" and calm: "calm s" and pos: "0 < lh_n s" and pin: "\<And>j. j < ?n \<Longrightarrow> 0 < refs s (home s j)"
      and dist: "distinct (map (home s) [0..<?n])"
    using assms by (simp_all add: txn_def)
  let ?lw = "log_writes s 0 ?n"
  obtain s1 where s1: "write_log s = Some s1" and
    e1: "bc.effect s (apply_writes ?lw (view s)) (apply_writes ?lw (disk s)) ?lw (refs s) s1"
    using write_log_loop_spec [OF wf calm pin, of 0 ?n] by (auto simp: write_log_def)
  note E1 = bc.effectD [OF e1] and L1 = bstep_log [OF bc.effectD(2) [OF e1]]
  have same1: "log_wf s1" "slot s1 = slot s" "home s1 = home s"
    using bstep_log_wf [OF E1(2)] wf L1 by (simp_all add: slot_def home_def fun_eq_iff)
  have calm1: "calm s1" using calm_effect [OF calm e1] by simp
  have vS: "view s1 ?S = view s ?S"
    unfolding E1(3) by (rule apply_writes_other) (auto simp: log_writes_def slot_def)
  have v1: "view s1 (slot s j) = view s (home s j)" if "j < ?n" for j
    unfolding E1(3) by (rule apply_writes_last)
      (use that in \<open>auto simp: log_writes_def distinct_map inj_on_def slot_inj\<close>)
  obtain s2 where s2: "write_head s1 = Some s2" and
    e2: "bc.effect s1 ((view s1)(?S := ?H)) ((disk s1)(?S := ?H)) [(?S, ?H)] (refs s1) s2"
    using write_head_spec [OF same1(1) calm1] by (auto simp: L1 vS)
  note E2 = bc.effectD [OF e2] and L2 = bstep_log [OF bc.effectD(2) [OF e2]]
  have same2: "log_wf s2" "slot s2 = slot s" "home s2 = home s" "lh_n s2 = lh_n s"
    using bstep_log_wf [OF E2(2)] same1 L2 L1 by (simp_all add: slot_def home_def fun_eq_iff)
  have calm2: "calm s2" using calm_effect [OF calm1 e2] by simp
  let ?hw = "map (\<lambda>j. (home s j, view s (home s j))) [0..<?n]"
  have hw: "home_writes s2 0 ?n = ?hw"
    unfolding home_writes_def same2 using v1 start_not_slot [of s, THEN not_sym] by (auto simp: E2(3))
  have refs2: "refs s2 = refs s" by (simp add: E2(6) E1(6))
  let ?c = "\<lambda>b. refs s b - (if b \<in> home s ` {..<?n} then 1 else 0)"
  obtain s3 where s3: "install_trans False s2 = Some s3" and
    e3: "bc.effect s2 (apply_writes ?hw (view s2)) (apply_writes ?hw (disk s2)) ?hw ?c s3"
    using install_loop_spec [OF same2(1) calm2, of 0 ?n False] dist pin
    unfolding same2 hw refs2 install_trans_def by (auto simp: atLeast0LessThan)
  note E3 = bc.effectD [OF e3] and L3 = bstep_log [OF bc.effectD(2) [OF e3]]
  have calm3: "calm s3" using calm_effect [OF calm2 e3] by (simp add: refs2)
  let ?s3 = "s3\<lparr>lh_n := 0\<rparr>"
  have wf3: "log_wf ?s3"
    using bstep_log_wf [OF E3(2)] same2(1) by (simp add: log_wf_def LOGSIZE_def)
  have v3S: "view s3 ?S = ?H"
  proof -
    have "view s3 ?S = view s2 ?S"
      unfolding E3(3) by (rule apply_writes_other) (use start_not_home [OF wf] in force)
    then show ?thesis by (simp add: E2(3))
  qed
  let ?HZ = "header 0 (lh_block s) ?H"
  obtain t where t: "write_head ?s3 = Some t" and
    e4: "bc.effect ?s3 ((view s3)(?S := ?HZ)) ((disk s3)(?S := ?HZ)) [(?S, ?HZ)] (refs s3) t"
    using write_head_spec [OF wf3] calm3 by (auto simp: L3 L2 L1 v3S)
  note E4 = bc.effectD [OF e4] and L4 = bstep_log [OF bc.effectD(2) [OF e4]]
  have "calm ?s3" using calm3 by simp
  then have "calm t" using e4 by (rule calm_effect) simp
  moreover have "commit s = Some t" using pos s1 s2 s3 t by (simp add: commit_def)
  moreover have cw: "commit_writes s = ?lw @ [(?S, ?H)] @ ?hw @ [(?S, ?HZ)]"
    unfolding commit_writes_def Let_def log_writes_def add_0 ..
  moreover have "writes t = writes s @ commit_writes s" unfolding cw by (simp add: E4(5) E3(5) E2(5) E1(5))
  moreover have "disk t = apply_writes (commit_writes s) (disk s)" unfolding cw by (simp add: E4(4) E3(4) E2(4) E1(4))
  moreover have "view t = apply_writes (commit_writes s) (view s)" unfolding cw by (simp add: E4(3) E3(3) E2(3) E1(3))
  moreover have "lstep s t"
  proof -
    have "lstep s s3" using bstep_lstep bstep_trans E1(2) E2(2) E3(2) by blast
    moreover have "lstep s3 ?s3" by (simp add: lstep_def same_proc_def)
    ultimately show ?thesis using lstep_trans bstep_lstep [OF E4(2)] by blast
  qed
  moreover have "lh_n t = 0" "refs t = ?c" by (simp_all add: L4 E4(6) E3(6))
  ultimately show ?thesis by blast
qed

section \<open>Recovery\<close>

definition recovered :: "nat \<Rightarrow> (nat \<Rightarrow> bytes) \<Rightarrow> nat \<Rightarrow> bytes" where
  \<comment> \<open>what recovery makes of the disk \<open>D\<close>, whose log starts at block \<open>S\<close>\<close>
  "recovered S D =
     (let D' = apply_writes (map (\<lambda>j. (hdr_block (D S) j, D (S + j + 1))) [0..<nat (hdr_n (D S))]) D
      in D'(S := header 0 (\<lambda>_. 0) (D' S)))"

definition sane_log :: "int \<Rightarrow> (nat \<Rightarrow> bytes) \<Rightarrow> bool" where
  "sane_log start D \<longleftrightarrow> 0 < start \<and> start + 31 \<le> int FSSIZE \<and>
     0 \<le> hdr_n (D (nat start)) \<and> hdr_n (D (nat start)) \<le> LOGSIZE \<and>
     (\<forall>i < nat (hdr_n (D (nat start))). blk_ok (hdr_block (D (nat start)) i) \<and>
        hdr_block (D (nat start)) i \<notin> {nat start..nat start + 30})"

definition fresh_cache :: "'a logst_scheme \<Rightarrow> bool" where
  "fresh_cache s \<longleftrightarrow> binv s \<and> (\<forall>b. refs s b = 0) \<and> (\<forall>b. \<not> blocked s b)"

lemma fresh_cache_view: "fresh_cache s \<Longrightarrow> view s = disk s"
  using bc.clean [of s] by (auto simp: fresh_cache_def)

lemma fresh_cache_calm: "fresh_cache s \<Longrightarrow> calm s"
  by (simp add: fresh_cache_def calm_def in_use_def MAXREF_def NBUF_def)

lemma header_0: "header 0 blk d = st32 0 0 d"
  by (simp add: header_def)

lemma read_head_spec:
  assumes calm: "calm s" and fields: "log_dev s = 1" "0 < log_start s" "log_start s + 31 \<le> int FSSIZE"
  defines "h \<equiv> view s (nat (log_start s))"
  assumes n: "hdr_n h \<le> LOGSIZE"
  shows "\<exists>u. read_head s = Some u \<and> calm u \<and> view u = view s \<and> disk u = disk s \<and> refs u = refs s \<and>
    (\<forall>b. \<not> blocked u b) \<and> lh_n u = hdr_n h \<and> log_start u = log_start s \<and> log_dev u = 1 \<and>
    lh_block u = read_blocks (nat (hdr_n h)) 0 h (lh_block s)"
proof -
  let ?S = "nat (log_start s)"
  have w: "(of_int (log_start s) :: u32) = of_nat ?S" using fields(2) by (metis of_int_of_nat_eq int_nat_eq order_less_imp_le)
  have ok: "blk_ok ?S" using fields by (auto simp: blk_ok_def FSSIZE_def)
  obtain i t where t: "bread 1 (of_nat ?S) s = Some (i, t)" and g: "bc.got s ?S i t"
    using bc.fetch [OF _ calm_room [OF calm ok]] calm by (auto simp: calm_def)
  note G = g [unfolded bc.got_def] and L = bstep_log [OF g [unfolded bc.got_def, THEN conjunct2, THEN conjunct1]]
  let ?t = "t\<lparr>lh_n := hdr_n h, lh_block := read_blocks (nat (hdr_n h)) 0 h (lh_block s)\<rparr>"
  have "same_cache t ?t" by (simp add: same_cache_def)
  from bc.letgo [OF g same_cache_seen [OF this]] obtain u where
    u: "brelse i ?t = Some u" "binv u" "bstep ?t u" "view u = view s" "disk u = disk s" "refs u = refs s"
      "\<forall>c. blocked u c \<longrightarrow> blocked s c" by blast
  note U = bstep_log [OF u(3)]
  have "read_head s = Some u"
    unfolding read_head_def fields(1) w t using G n u(1) L
    by (simp add: h_def [symmetric] hdr_n_def [symmetric] Let_def not_less)
  moreover have "calm u" using calm u(2,6,7) unfolding calm_def by (simp add: in_use_def)
  moreover have "\<forall>b. \<not> blocked u b" using u(7) calm by (auto simp: calm_def)
  ultimately show ?thesis using u U L fields(1) by auto
qed

lemma recover_spec:
  assumes fc: "fresh_cache s" and fields: "log_dev s = 1" and sane: "sane_log (log_start s) (disk s)"
  shows "\<exists>t. recover_from_log s = Some t \<and> disk t = recovered (nat (log_start s)) (disk s)"
proof -
  let ?S = "nat (log_start s)" and ?D = "disk s"
  let ?n = "hdr_n (?D ?S)"
  note sn = sane [unfolded sane_log_def]
  have vd: "view s = disk s" using fc by (rule fresh_cache_view)
  obtain u where u: "read_head s = Some u" "calm u" "view u = ?D" "disk u = ?D" "refs u = refs s"
      "lh_n u = ?n" "log_start u = log_start s" "log_dev u = 1"
      "lh_block u = read_blocks (nat ?n) 0 (?D ?S) (lh_block s)"
    using read_head_spec [OF fresh_cache_calm [OF fc] fields] sn by (auto simp: vd)
  have hm: "home u j = hdr_block (?D ?S) j" if "j < nat ?n" for j
    using that by (simp add: home_def u(9) read_blocks_eq hdr_block_def)
  have wf: "log_wf u" using sn u(6-8) hm by (auto simp: log_wf_def log_area_def)
  let ?hw = "map (\<lambda>j. (hdr_block (?D ?S) j, ?D (?S + j + 1))) [0..<nat ?n]"
  have hw: "home_writes u 0 (nat ?n) = ?hw"
    unfolding home_writes_def using hm by (auto simp: u(3,7) slot_def)
  have zero: "refs u b = 0" for b using fc by (simp add: u(5) fresh_cache_def)
  then have "in_use u = {}" by (simp add: in_use_def)
  then obtain v where v: "install_trans True u = Some v" and
    e: "bc.effect u (apply_writes ?hw (view u)) (apply_writes ?hw (disk u)) ?hw (refs u) v"
    using install_loop_spec [OF wf u(2), of 0 "nat ?n" True] by (auto simp: u(6) hw install_trans_def NBUF_def)
  note E = bc.effectD [OF e] and L = bstep_log [OF bc.effectD(2) [OF e]]
  let ?v = "v\<lparr>lh_n := 0\<rparr>"
  have wfv: "log_wf ?v" using bstep_log_wf [OF E(2)] wf by (simp add: log_wf_def LOGSIZE_def)
  have calmv: "calm ?v" using calm_effect [OF u(2) e] by simp
  obtain t where t: "write_head ?v = Some t" and
    et: "bc.effect ?v ((view v)(?S := header 0 (lh_block v) (view v ?S)))
      ((disk v)(?S := header 0 (lh_block v) (view v ?S)))
      [(?S, header 0 (lh_block v) (view v ?S))] (refs v) t"
    using write_head_spec [OF wfv calmv] by (auto simp: L u(7))
  have "disk t = recovered ?S ?D"
    unfolding bc.effectD(4) [OF et] recovered_def Let_def by (simp add: E(3,4) u(3,4) header_0)
  moreover have "recover_from_log s = Some t" using u(1) v t by (simp add: recover_from_log_def)
  ultimately show ?thesis by blast
qed

lemma initlog_spec:
  assumes fc: "fresh_cache s" and sane: "sane_log start (disk s)"
  shows "\<exists>t. initlog 1 start nlog s = Some t \<and> disk t = recovered (nat start) (disk s)"
proof -
  let ?t = "s\<lparr>lk := (lk s)(LogLock := None), log_start := start, log_size := nlog, log_dev := 1\<rparr>"
  have sc: "same_cache s ?t" by (simp add: same_cache_def)
  have "fresh_cache ?t" using fc by (simp add: fresh_cache_def same_cacheD [OF sc])
  then show ?thesis using recover_spec [of ?t] sane by (simp add: initlog_def Let_def)
qed

section \<open>Crashes\<close>

lemma recovered_unlogged:
  assumes "hdr_n (D S) = 0"
  shows "recovered S D = D(S := header 0 (\<lambda>_. 0) (D S))"
  using assms by (simp add: recovered_def Let_def)

lemma hdr_n_recovered: "hdr_n (recovered S D S) = 0"
  using header_roundtrip(1) [of 0] by (simp add: recovered_def Let_def LOGSIZE_def)

lemma recovered_logged:
  assumes n: "hdr_n (D S) = int n" and b: "b \<noteq> S"
    and blk: "\<And>j. j < n \<Longrightarrow> hdr_block (D S) j = h j" and dist: "distinct (map h [0..<n])"
  shows "recovered S D b = (if b \<in> h ` {..<n} then D (S + (THE j. j < n \<and> h j = b) + 1) else D b)"
proof -
  let ?ws = "map (\<lambda>j. (h j, D (S + j + 1))) [0..<n]"
  have ws: "map (\<lambda>j. (hdr_block (D S) j, D (S + j + 1))) [0..<nat (hdr_n (D S))] = ?ws"
    using blk n by (intro map_cong) simp_all
  have r: "recovered S D b = apply_writes ?ws D b" unfolding recovered_def ws using b by (simp add: Let_def)
  show ?thesis
  proof (cases "b \<in> h ` {..<n}")
    case True
    then obtain j where j: "j < n" "h j = b" by auto
    have "i = j" if "i < n" "h i = b" for i using dist that j by (auto simp: distinct_map inj_on_def)
    then have "(THE j. j < n \<and> h j = b) = j" using j by blast
    moreover have "apply_writes ?ws D b = D (S + j + 1)"
      by (rule apply_writes_last) (use dist j in \<open>auto simp: distinct_map o_def\<close>)
    ultimately show ?thesis using r True by simp
  next
    case False
    then have "apply_writes ?ws D b = D b" by (intro apply_writes_other) auto
    then show ?thesis using r False by simp
  qed
qed

definition torn_disk :: "'a logst_scheme \<Rightarrow> nat \<Rightarrow> nat \<Rightarrow> bytes" where
  \<comment> \<open>the disk after the first \<open>k\<close> block writes of the commit\<close>
  "torn_disk s k = apply_writes (take k (commit_writes s)) (disk s)"

lemma take_map_upt: "take k (map f [0..<n]) = map f [0..<min k n]"
  by (simp add: take_map min_def)

lemma torn_before:
  assumes "log_wf s" "k \<le> nat (lh_n s)" and b: "b \<notin> log_area s \<or> b = nat (log_start s)"
  shows "torn_disk s k b = disk s b"
proof -
  have k: "min k (nat (lh_n s)) = k" using assms(2) by simp
  have tk: "take k (commit_writes s) = map (\<lambda>j. (slot s j, view s (home s j))) [0..<k]"
    unfolding commit_writes_def Let_def take_append take_map_upt k using assms(2) by simp
  have "b \<noteq> slot s j" if "j < k" for j
    using b that assms(2) lh_n_30 [OF assms(1)] by (auto simp: log_area_def slot_def)
  then show ?thesis unfolding torn_disk_def tk by (intro apply_writes_other) force
qed

lemma torn_after:
  assumes "log_wf s" and dist: "distinct (map (home s) [0..<nat (lh_n s)])"
    and k: "nat (lh_n s) < k"
  defines "S \<equiv> nat (log_start s)" and "n \<equiv> nat (lh_n s)"
  shows "j < n \<Longrightarrow> torn_disk s k (slot s j) = view s (home s j)"
    and "k \<le> 2 * n + 1 \<Longrightarrow> torn_disk s k S = header (lh_n s) (lh_block s) (view s S)"
    and "2 * n + 1 < k \<Longrightarrow> hdr_n (torn_disk s k S) = 0"
    and "2 * n + 1 < k \<Longrightarrow> j < n \<Longrightarrow> torn_disk s k (home s j) = view s (home s j)"
    and "b \<notin> log_area s \<Longrightarrow> b \<notin> home s ` {..<n} \<Longrightarrow> torn_disk s k b = disk s b"
proof -
  let ?H = "header (lh_n s) (lh_block s) (view s S)"
  let ?lw = "map (\<lambda>j. (slot s j, view s (home s j))) [0..<n]"
  let ?hw = "map (\<lambda>j. (home s j, view s (home s j))) [0..<n]"
  let ?tl = "take (k - 2 * n - 1) [(S, header 0 (lh_block s) ?H)]"
  have cw: "commit_writes s = ?lw @ [(S, ?H)] @ ?hw @ [(S, header 0 (lh_block s) ?H)]"
    unfolding commit_writes_def Let_def n_def S_def ..
  have k1: "k - n - Suc 0 - n = k - 2 * n - 1" by simp
  have tk: "take k (commit_writes s) = ?lw @ [(S, ?H)] @ take (k - n - 1) ?hw @ ?tl"
    unfolding cw using k by (simp add: n_def [symmetric] take_Cons' k1 mult_2 split del: if_split)
  have td: "torn_disk s k = apply_writes ?tl (apply_writes (take (k - n - 1) ?hw) ((apply_writes ?lw (disk s))(S := ?H)))"
    unfolding torn_disk_def tk by simp
  have tl: "fst ` set ?tl \<subseteq> {S}" "k \<le> 2 * n + 1 \<Longrightarrow> ?tl = []"
      "2 * n + 1 < k \<Longrightarrow> ?tl = [(S, header 0 (lh_block s) ?H)]"
    by (auto dest!: in_set_takeD simp: take_Cons')
  have hs: "fst ` set (take i ?hw) \<subseteq> home s ` {..<n}" for i by (auto dest!: in_set_takeD)
  have hS: "S \<notin> home s ` {..<n}" using start_not_home [OF assms(1)] by (auto simp: S_def n_def)
  have lwS: "distinct (map fst ?lw)" by (simp add: distinct_map inj_on_def slot_inj o_def)
  have n30: "n \<le> 30" using lh_n_30 [OF assms(1)] by (simp add: n_def)
  have slS: "slot s j \<noteq> S" for j using start_not_slot [of s j] by (auto simp: S_def)
  show "torn_disk s k (slot s j) = view s (home s j)" if "j < n"
  proof -
    have "slot s j \<notin> home s ` {..<n}" 
    proof
      assume "slot s j \<in> home s ` {..<n}"
      then obtain x where "x < n" "home s x = slot s j" by force
      then show False using home_not_slot [OF assms(1), of x j] that n30 by (simp add: n_def)
    qed
    then have "torn_disk s k (slot s j) = apply_writes ?lw (disk s) (slot s j)"
    proof -
      have "slot s j \<notin> fst ` set ?tl" "slot s j \<notin> fst ` set (take (k - n - 1) ?hw)"
        using tl(1) hs slS \<open>slot s j \<notin> home s ` {..<n}\<close> by blast+
      note o = apply_writes_other [OF this(1)] apply_writes_other [OF this(2)]
      show ?thesis unfolding td o using slS [of j] by (rule fun_upd_other)
    qed
    also have "\<dots> = view s (home s j)" by (rule apply_writes_last [OF lwS]) (use that in auto)
    finally show ?thesis .
  qed
  show "torn_disk s k S = ?H" if "k \<le> 2 * n + 1"
  proof -
    have "S \<notin> fst ` set (take (k - n - 1) ?hw)" using hs hS by blast
    from apply_writes_other [OF this] show ?thesis
      unfolding td tl(2) [OF that] by (simp only: apply_writes_simps(1) fun_upd_same)
  qed
  show "hdr_n (torn_disk s k S) = 0" if "2 * n + 1 < k"
    unfolding td tl(3) [OF that] using header_roundtrip(1) [of 0] by (simp add: LOGSIZE_def)
  show "torn_disk s k (home s j) = view s (home s j)" if "2 * n + 1 < k" "j < n"
  proof -
    have "take (k - n - 1) ?hw = ?hw" using that(1) by simp
    then have "torn_disk s k (home s j) = apply_writes ?hw ((apply_writes ?lw (disk s))(S := ?H)) (home s j)"
      unfolding td tl(3) [OF that(1)] using hS that(2) by auto
    also have "\<dots> = view s (home s j)"
      by (rule apply_writes_last) (use dist that(2) in \<open>auto simp: n_def distinct_map o_def\<close>)
    finally show ?thesis .
  qed
  show "torn_disk s k b = disk s b" if "b \<notin> log_area s" "b \<notin> home s ` {..<n}"
  proof -
    have "b \<noteq> S" "b \<notin> fst ` set ?lw" using that(1) n30 by (auto simp: log_area_def S_def slot_def)
    moreover have "b \<notin> fst ` set ?tl" "b \<notin> fst ` set (take (k - n - 1) ?hw)"
      using tl(1) hs that(2) \<open>b \<noteq> S\<close> by blast+
    ultimately have bs: "b \<noteq> S" "b \<notin> fst ` set ?lw" "b \<notin> fst ` set ?tl" "b \<notin> fst ` set (take (k - n - 1) ?hw)"
      by blast+
    note o = apply_writes_other [OF bs(3)] apply_writes_other [OF bs(4)]
    show ?thesis unfolding td o fun_upd_other [OF bs(1)] by (rule apply_writes_other [OF bs(2)])
  qed
qed

lemma torn_recovers:
  assumes x: "txn s"
  defines "S \<equiv> nat (log_start s)"
  shows "sane_log (log_start s) (torn_disk s k)"
    and "k \<le> nat (lh_n s) \<Longrightarrow> b \<notin> log_area s \<Longrightarrow> recovered S (torn_disk s k) b = disk s b"
    and "nat (lh_n s) < k \<Longrightarrow> b \<notin> log_area s \<Longrightarrow> recovered S (torn_disk s k) b = view s b"
proof -
  let ?n = "nat (lh_n s)" and ?D = "torn_disk s k"
  have wf: "log_wf s" and dist: "distinct (map (home s) [0..<?n])" and h: "hdr_n (disk s S) = 0"
    and clean: "\<And>b. b \<notin> home s ` {..<?n} \<Longrightarrow> view s b = disk s b" and n0: "0 < lh_n s"
    using x by (auto simp: txn_def S_def)
  note W = wf [unfolded log_wf_def]
  have SA: "S \<in> log_area s" by (simp add: log_area_def S_def)
  have before: "?D S = disk s S" if "k \<le> ?n" using torn_before [OF wf that] by (simp add: S_def)
  note A = torn_after [OF wf dist, of k, folded S_def]
  have rt: "hdr_n (header (lh_n s) (lh_block s) d) = lh_n s"
      "j < ?n \<Longrightarrow> hdr_block (header (lh_n s) (lh_block s) d) j = home s j" for d j
    using header_roundtrip [of "lh_n s"] W by (simp_all add: home_def)
  consider (none) "hdr_n (?D S) = 0" | (all) "hdr_n (?D S) = lh_n s" "\<And>j. j < ?n \<Longrightarrow> hdr_block (?D S) j = home s j"
    using before h A(2,3) rt by (cases "k \<le> ?n"; cases "k \<le> 2 * ?n + 1"; force)
  then show "sane_log (log_start s) ?D"
    using W by cases (auto simp: sane_log_def LOGSIZE_def S_def log_area_def)
  have none: "recovered S ?D b = ?D b" if "hdr_n (?D S) = 0" "b \<notin> log_area s" for b
    using recovered_unlogged [of ?D S, OF that(1)] that(2) SA by auto
  show "recovered S ?D b = disk s b" if "k \<le> ?n" "b \<notin> log_area s"
    using none [of b] before [OF that(1)] h torn_before [OF wf that(1)] that(2) by simp
  show "recovered S ?D b = view s b" if k: "?n < k" and b: "b \<notin> log_area s"
  proof (cases "k \<le> 2 * ?n + 1")
    case True
    have D: "?D S = header (lh_n s) (lh_block s) (view s S)" using A(2) [OF k True] .
    have bS: "b \<noteq> S" using b SA by auto
    have r: "recovered S ?D b = (if b \<in> home s ` {..<?n} then ?D (S + (THE j. j < ?n \<and> home s j = b) + 1) else ?D b)"
      by (rule recovered_logged [OF _ bS _ dist]) (use n0 in \<open>simp_all add: D rt\<close>)
    show ?thesis
    proof (cases "b \<in> home s ` {..<?n}")
      case True
      then obtain j where j: "j < ?n" "home s j = b" by auto
      have "i = j" if "i < ?n" "home s i = b" for i using dist that j by (auto simp: distinct_map inj_on_def)
      then have "(THE j. j < ?n \<and> home s j = b) = j" using j by blast
      then have "recovered S ?D b = ?D (slot s j)" using r True by (simp add: slot_def S_def)
      then show ?thesis using A(1) [OF k j(1)] j(2) by simp
    next
      case False
      then show ?thesis using r A(5) [OF k b False] clean [OF False] by simp
    qed
  next
    case False
    then have k2: "2 * ?n + 1 < k" by simp
    have "recovered S ?D b = ?D b" using none [OF A(3) [OF k k2] b] .
    then show ?thesis using A(4) [OF k k2] A(5) [OF k b] clean [of b] by (cases "b \<in> home s ` {..<?n}") auto
  qed
qed

end
