(* ===== verification/Txn.thy ===== *)
theory Txn
  imports LogProps
begin

text \<open>
  What the file system sees of the log: a transaction in progress (\<open>in_txn\<close>), in which a
  block is changed by reading it, changing the buffer, \<open>log_write\<close> and \<open>brelse\<close>.  Nothing
  reaches the disk; the changed blocks are pinned and listed in the log header, once each.
  \<open>in_txn\<close> is kept by every such update, and at the end of the transaction it is \<open>txn\<close>,
  what \<open>commit\<close> asks for.
\<close>

section \<open>A transaction in progress\<close>

definition logged :: "'a logst_scheme \<Rightarrow> nat set" where
  "logged s = home s ` {..<nat (lh_n s)}"

definition txn_core :: "'a logst_scheme \<Rightarrow> nat set \<Rightarrow> bool" where
  \<comment> \<open>the blocks in \<open>X\<close> may differ from the disk without being logged yet\<close>
  "txn_core s X \<longleftrightarrow> log_wf s \<and> binv s \<and> distinct (map (home s) [0..<nat (lh_n s)]) \<and>
     (\<forall>b. b \<notin> logged s \<union> X \<longrightarrow> view s b = disk s b) \<and> hdr_n (disk s (nat (log_start s))) = 0 \<and>
     1 \<le> outstanding s \<and> \<not> committing s \<and> lk s LogLock = None"

definition in_txn :: "'a logst_scheme \<Rightarrow> bool" where
  \<comment> \<open>between the updates: nothing is locked and only the log pins blocks\<close>
  "in_txn s \<longleftrightarrow> txn_core s {} \<and> (\<forall>b. \<not> blocked s b) \<and>
     refs s = (\<lambda>b. if b \<in> logged s then 1 else 0)"

lemma card_logged:
  assumes "distinct (map (home s) [0..<nat (lh_n s)])" shows "card (logged s) = nat (lh_n s)"
proof -
  have "inj_on (home s) {..<nat (lh_n s)}" using assms by (simp add: distinct_map lessThan_atLeast0)
  then show ?thesis by (simp add: logged_def card_image)
qed

lemma in_txn_in_use: "in_txn s \<Longrightarrow> in_use s = logged s"
  by (auto simp: in_txn_def in_use_def split: if_splits)

lemma in_txn_room:
  assumes "in_txn s" "blk_ok b" "b \<in> logged s \<or> lh_n s < LOGSIZE"
  shows "bc.room s b"
proof -
  have d: "distinct (map (home s) [0..<nat (lh_n s)])" and r: "refs s = (\<lambda>b. if b \<in> logged s then 1 else 0)"
    and nb: "\<not> blocked s b"
    using assms(1) by (auto simp: in_txn_def txn_core_def)
  have "{c. 0 < refs s c} = logged s" by (auto simp: r)
  then have "card {c. 0 < refs s c} < NBUF" if "lh_n s < LOGSIZE"
    using card_logged [OF d] that by (simp add: NBUF_def LOGSIZE_def nat_less_iff)
  moreover have "refs s b < MAXREF" "b \<in> logged s \<Longrightarrow> 0 < refs s b" by (simp_all add: r MAXREF_def)
  ultimately show ?thesis unfolding bc.room_def using assms(2,3) nb by blast
qed

lemma in_txn_txn:
  assumes x: "in_txn s" and n: "0 < lh_n s" "lh_n s < LOGSIZE"
  shows "txn s"
proof -
  note T = x [unfolded in_txn_def txn_core_def]
  have "card (in_use s) < NBUF"
    using card_logged [of s] T n by (simp add: in_txn_in_use [OF x] NBUF_def LOGSIZE_def nat_less_iff)
  then have "calm s" using T by (simp add: calm_def MAXREF_def)
  moreover have "0 < refs s (home s j)" if "j < nat (lh_n s)" for j
    using T that by (auto simp: logged_def)
  ultimately show ?thesis using T n(1) by (simp add: txn_def logged_def)
qed

section \<open>log_write\<close>

lemma find_block_spec:
  "find_block k i blk b \<le> i + k"
  "find_block k i blk b < i + k \<Longrightarrow> blk (find_block k i blk b) = b"
  "i \<le> j \<Longrightarrow> j < i + k \<Longrightarrow> blk j = b \<Longrightarrow> find_block k i blk b < i + k"
proof (induction k arbitrary: i)
  case (Suc k)
  { case 1 then show ?case using Suc(1) [of "Suc i"] by simp }
  { case 2 then show ?case using Suc(2) [of "Suc i"] by (cases "blk i = b") simp_all }
  { case 3 then show ?case using Suc(3) [of "Suc i"] by (cases "i = j") auto }
qed simp_all

definition log_add :: "u32 \<Rightarrow> 'a logst_scheme \<Rightarrow> 'a logst_scheme" where
  \<comment> \<open>the header gets one more block\<close>
  "log_add b s = s\<lparr>lh_block := (lh_block s)(nat (lh_n s) := b), lh_n := lh_n s + 1\<rparr>"

lemma log_add_same_cache: "same_cache s (log_add b s)"
  by (simp add: same_cache_def log_add_def)

lemma log_write_absorb:
  assumes "lk s LogLock = None" "lh_n s < LOGSIZE" "lh_n s < log_size s - 1" "1 \<le> outstanding s"
    and b: "j < nat (lh_n s)" "lh_block s j = b_blockno (bufs s i)"
  shows "log_write i s = Some s"
proof -
  define r where "r = find_block (nat (lh_n s)) 0 (lh_block s) (b_blockno (bufs s i))"
  have r: "r < nat (lh_n s)" "lh_block s r = b_blockno (bufs s i)"
    using find_block_spec(2) [of "nat (lh_n s)" 0 "lh_block s" "b_blockno (bufs s i)"]
      find_block_spec(3) [of 0 j "nat (lh_n s)" "lh_block s" "b_blockno (bufs s i)"] b
    by (simp_all add: r_def)
  have "(lh_block s)(r := b_blockno (bufs s i)) = lh_block s" using r(2) by (simp add: fun_upd_idem)
  then show ?thesis
    using assms r(1) by (simp add: log_write_def kernel_simps Let_def r_def [symmetric])
qed

lemma log_write_new:
  assumes "lk s LogLock = None" "0 \<le> lh_n s" "lh_n s < LOGSIZE" "lh_n s < log_size s - 1" "1 \<le> outstanding s"
    and b: "\<And>j. j < nat (lh_n s) \<Longrightarrow> lh_block s j \<noteq> b_blockno (bufs s i)"
  shows "log_write i s = Some (log_add (b_blockno (bufs s i)) (bpin i s))"
proof -
  define r where "r = find_block (nat (lh_n s)) 0 (lh_block s) (b_blockno (bufs s i))"
  have "r = nat (lh_n s)"
    using find_block_spec(1,2) [of "nat (lh_n s)" 0 "lh_block s" "b_blockno (bufs s i)"] b
    by (metis add_0 le_neq_implies_less r_def)
  then have r: "find_block (nat (lh_n s)) 0 (lh_block s) (b_blockno (bufs s i)) = nat (lh_n s)"
    by (simp add: r_def)
  have lk: "(lk s)(LogLock := None) = lk s" using assms(1) by (simp add: fun_upd_idem)
  show ?thesis
    using assms(1-5) by (simp add: log_write_def kernel_simps Let_def r log_add_def bpin_def)
      (rule logst.equality; simp add: lk)
qed

lemma held_buffer_block:
  assumes "binv s" "held s i b"
  shows "b_blockno (bufs s i) = of_nat b" "b < FSSIZE"
proof -
  obtain L where "binvX s L {}" using assms(1) by (auto simp: binv_def)
  then show "b_blockno (bufs s i) = of_nat b" "b < FSSIZE"
    using assms(2) binvXD(7) [of s L "{}" b] by (auto simp: held_def cached_lt)
qed

lemma txn_coreD:
  assumes "txn_core s X"
  shows "log_wf s" "binv s" "distinct (map (home s) [0..<nat (lh_n s)])"
    and "b \<notin> logged s \<Longrightarrow> b \<notin> X \<Longrightarrow> view s b = disk s b" "hdr_n (disk s (nat (log_start s))) = 0"
    and "1 \<le> outstanding s" "\<not> committing s" "lk s LogLock = None" "0 \<le> lh_n s"
  using assms by (auto simp: txn_core_def log_wf_def)

lemma log_add_home:
  "home (log_add w s) j = (if j = nat (lh_n s) then unat w else home s j)"
  by (simp add: home_def log_add_def)

lemma log_add_logged:
  assumes "0 \<le> lh_n s" shows "logged (log_add w s) = insert (unat w) (logged s)"
proof -
  have "nat (lh_n (log_add w s)) = Suc (nat (lh_n s))" using assms by (simp add: log_add_def nat_add_distrib)
  then have "logged (log_add w s) = home (log_add w s) ` insert (nat (lh_n s)) {..<nat (lh_n s)}"
    unfolding logged_def by (simp add: lessThan_Suc)
  also have "\<dots> = insert (unat w) (home s ` {..<nat (lh_n s)})" by (auto simp: log_add_home)
  finally show ?thesis by (simp add: logged_def)
qed

lemma log_add_distinct:
  assumes "0 \<le> lh_n s" "distinct (map (home s) [0..<nat (lh_n s)])" "unat w \<notin> logged s"
  shows "distinct (map (home (log_add w s)) [0..<nat (lh_n (log_add w s))])"
proof -
  have n: "nat (lh_n (log_add w s)) = Suc (nat (lh_n s))" using assms(1) by (simp add: log_add_def nat_add_distrib)
  have "map (home (log_add w s)) [0..<nat (lh_n s)] = map (home s) [0..<nat (lh_n s)]"
    by (simp add: log_add_home)
  then have "map (home (log_add w s)) [0..<nat (lh_n (log_add w s))] = map (home s) [0..<nat (lh_n s)] @ [unat w]"
    by (simp add: n log_add_home)
  then show ?thesis using assms(2,3) by (auto simp: logged_def lessThan_atLeast0)
qed

lemma log_write_ok:
  assumes core: "txn_core s {b}" and h: "held s i b" and ok: "blk_ok b" "b \<notin> log_area s"
    and n: "lh_n s < LOGSIZE" "lh_n s < log_size s - 1" and r: "refs s b < MAXREF"
  shows "\<exists>t. log_write i s = Some t \<and> txn_core t {} \<and> lstep s t \<and> view t = view s \<and> disk t = disk s \<and>
    writes t = writes s \<and> logged t = insert b (logged s) \<and> held t = held s \<and> blocked t = blocked s \<and>
    refs t = (if b \<in> logged s then refs s else (refs s)(b := Suc (refs s b))) \<and>
    lh_n t = (if b \<in> logged s then lh_n s else lh_n s + 1)"
proof -
  note C = txn_coreD [OF core]
  have bn: "b_blockno (bufs s i) = of_nat b" and u: "unat (of_nat b :: u32) = b"
    using held_buffer_block [OF C(2) h] unat_blk by blast+
  show ?thesis
  proof (cases "b \<in> logged s")
    case True
    then obtain j where j: "j < nat (lh_n s)" "home s j = b" by (auto simp: logged_def)
    then have "lh_block s j = of_nat b" by (simp add: home_def) (metis j(2) home_def of_nat_unat ucast_id)
    then have "log_write i s = Some s" using log_write_absorb [OF C(8) n C(6) j(1)] bn by simp
    moreover have "txn_core s {}" using core True by (auto simp: txn_core_def)
    ultimately show ?thesis using True by (intro exI [of _ s]) auto
  next
    case False
    let ?t = "log_add (of_nat b) (bpin i s)"
    note P = bc.pin_law [OF C(2) h r]
    then have st: "bstep s (bpin i s)" and iP: "binv (bpin i s)" by blast+
    have L: "lh_n (bpin i s) = lh_n s" "lh_block (bpin i s) = lh_block s" using bstep_log [OF st] by simp_all
    then have hm: "home (bpin i s) = home s" "logged (bpin i s) = logged s"
      by (simp_all add: home_def logged_def fun_eq_iff)
    note S = same_cacheD [OF log_add_same_cache [of "bpin i s" "of_nat b"]]
    have "lh_block s j \<noteq> of_nat b" if j: "j < nat (lh_n s)" for j
    proof
      assume "lh_block s j = of_nat b"
      then have "home s j = b" using u by (simp add: home_def)
      then show False using False j by (auto simp: logged_def)
    qed
    then have eq: "log_write i s = Some ?t"
      using log_write_new [OF C(8,9) n C(6), of i] bn by simp
    have ls: "lstep s ?t"
      using lstep_trans [OF bstep_lstep [OF st], of ?t] by (simp add: lstep_def log_add_def same_proc_def)
    have lg: "logged ?t = insert b (logged s)"
      using log_add_logged [of "bpin i s" "of_nat b"] C(9) L hm u by simp
    have ln: "lh_n ?t = lh_n s + 1" by (simp add: log_add_def L)
    have wf: "log_wf ?t"
    proof -
      have "blk_ok (home ?t j) \<and> home ?t j \<notin> log_area s" if "j < nat (lh_n ?t)" for j
        using that C(1,9) ok u ln by (auto simp: log_add_home hm L log_wf_def nat_add_distrib)
      then show ?thesis
        using C(1) n(1) C(9) ln lstep_log [OF ls] by (simp add: log_wf_def LOGSIZE_def)
    qed
    have "txn_core ?t {}"
      unfolding txn_core_def
    proof (intro conjI allI impI)
      show "distinct (map (home ?t) [0..<nat (lh_n ?t)])"
        using log_add_distinct [of "bpin i s" "of_nat b"] C(3,9) False by (simp add: L hm u)
      show "view ?t c = disk ?t c" if "c \<notin> logged ?t \<union> {}" for c
        using that C(4) [of c] P lg by (simp add: S)
    qed (use wf iP C(5-8) P lstep_log [OF ls] in \<open>simp_all add: S\<close>)
    moreover have "held ?t = held s" "blocked ?t = blocked s" "view ?t = view s" "disk ?t = disk s"
        "writes ?t = writes s" "refs ?t = (refs s)(b := Suc (refs s b))"
      using P by (simp_all add: S fun_eq_iff)
    ultimately show ?thesis using eq ls lg ln False by (intro exI [of _ ?t]) simp
  qed
qed

section \<open>Updating a block\<close>

definition update_block :: "nat \<Rightarrow> (bytes \<Rightarrow> bytes) \<Rightarrow> 'a logst_scheme \<Rightarrow> 'a logst_scheme option" where
  \<comment> \<open>the pattern of all writes to the file system's own blocks\<close>
  "update_block b f s = do {
     (i, s) \<leftarrow> bread 1 (of_nat b) s;
     let s = bmod i (f (bdata s i)) s;
     s \<leftarrow> log_write i s;
     brelse i s }"

definition log_room :: "'a logst_scheme \<Rightarrow> nat \<Rightarrow> bool" where
  \<comment> \<open>\<open>log_write\<close> will not panic for the next \<open>k\<close> blocks\<close>
  "log_room s k \<longleftrightarrow> lh_n s + int k \<le> LOGSIZE \<and> lh_n s + int k \<le> log_size s - 1"

lemma update_block_spec:
  assumes x: "in_txn s" and ok: "blk_ok b" "b \<notin> log_area s" and room: "log_room s 1"
  shows "\<exists>t. update_block b f s = Some t \<and> in_txn t \<and> lstep s t \<and> view t = (view s)(b := f (view s b)) \<and>
    disk t = disk s \<and> writes t = writes s \<and> logged t = insert b (logged s) \<and>
    lh_n t = (if b \<in> logged s then lh_n s else lh_n s + 1)"
proof -
  have core: "txn_core s {}" and r: "refs s = (\<lambda>b. if b \<in> logged s then 1 else 0)"
    and nb: "\<And>b. \<not> blocked s b"
    using x by (auto simp: in_txn_def)
  note C = txn_coreD [OF core]
  have n: "lh_n s < LOGSIZE" "lh_n s < log_size s - 1" using room by (simp_all add: log_room_def)
  obtain i t where g: "bread 1 (of_nat b) s = Some (i, t)" "bc.got s b i t"
    using bc.fetch [OF C(2) in_txn_room [OF x ok(1)]] n by blast
  note G = g(2) [unfolded bc.got_def]
  define d where "d = f (bdata t i)"
  define u where "u = bmod i d t"
  have U: "binv u" "bstep t u" "disk u = disk t" "writes u = writes t" "view u = (view t)(b := d)"
      "refs u = refs t" "held u i b" "\<And>j c. held u j c = held t j c" "\<And>c. blocked u c = blocked t c"
    using bc.upd_law [of t i b d] G by (auto simp: u_def)
  have su: "bstep s u" using bstep_trans G U(2) by blast
  note L = bstep_log [OF su] lstep_log [OF bstep_lstep [OF su]]
  have hm: "home u = home s" "logged u = logged s" using L by (simp_all add: home_def logged_def fun_eq_iff)
  have bt: "blocked t c \<longleftrightarrow> c = b" for c using G nb bc.hold_busy by blast
  have "txn_core u {b}"
    using core G U(1,3,5) L bstep_log_wf [OF su] by (auto simp: txn_core_def hm)
  moreover have ru: "refs u b = (if b \<in> logged s then 2 else 1)" using G U(6) r by simp
  moreover have "b \<notin> log_area u" "lh_n u < LOGSIZE" "lh_n u < log_size u - 1" using ok(2) n L by simp_all
  moreover have "refs u b < MAXREF" by (simp add: ru MAXREF_def)
  ultimately obtain v where v: "log_write i u = Some v" "txn_core v {}" "lstep u v" "view v = view u"
      "disk v = disk u" "writes v = writes u" "logged v = insert b (logged u)" "held v = held u"
      "blocked v = blocked u" "refs v = (if b \<in> logged u then refs u else (refs u)(b := Suc (refs u b)))"
      "lh_n v = (if b \<in> logged u then lh_n u else lh_n u + 1)"
    using log_write_ok [of u b i] U(7) ok(1) by blast
  have rv: "refs v b = 2" using v(10) ru by (simp add: hm)
  obtain w where w: "brelse i v = Some w" "binv w" "bstep v w" "disk w = disk v" "writes w = writes v"
      "view w = view v" "refs w = (refs v)(b := refs v b - 1)" "\<And>c. blocked w c \<longleftrightarrow> blocked v c \<and> c \<noteq> b"
    using bc.rel_law [of v i b] txn_coreD(2) [OF v(2)] v(8) U(7) rv by auto
  note W = bstep_log [OF w(3)] lstep_log [OF bstep_lstep [OF w(3)]]
  have hw: "home w = home v" "logged w = logged v" using W by (simp_all add: home_def logged_def fun_eq_iff)
  have "txn_core w {}" using v(2) w(2,4,6) W bstep_log_wf [OF w(3)] by (auto simp: txn_core_def hw)
  moreover have "\<not> blocked w c" for c using w(8) v(9) U(9) bt by simp
  moreover have "refs w = (\<lambda>c. if c \<in> logged w then 1 else 0)"
    using w(7) v(10) U(6) G r by (auto simp: hw v(7) hm fun_eq_iff)
  ultimately have "in_txn w" by (simp add: in_txn_def)
  moreover have "lstep s w" using lstep_trans bstep_lstep su v(3) w(3) by blast
  moreover have "update_block b f s = Some w"
    by (simp add: update_block_def g(1) Let_def d_def [symmetric] u_def [symmetric] v(1) w(1))
  moreover have "d = f (view s b)" using G by (simp add: d_def)
  ultimately show ?thesis
    using v w U G L by (intro exI [of _ w]) (auto simp: hw hm W fun_upd_def)
qed

lemma read_block_spec:
  \<comment> \<open>a block that is only looked at; it needs no room in the log\<close>
  assumes x: "in_txn s" and ok: "blk_ok b" and room: "b \<in> logged s \<or> lh_n s < LOGSIZE"
  shows "\<exists>i t u. bread 1 (of_nat b) s = Some (i, t) \<and> bdata t i = view s b \<and> lstep s t \<and>
    brelse i t = Some u \<and> in_txn u \<and> lstep s u \<and> view u = view s \<and> disk u = disk s \<and> writes u = writes s \<and>
    logged u = logged s \<and> lh_n u = lh_n s"
proof -
  have core: "txn_core s {}" and r: "refs s = (\<lambda>b. if b \<in> logged s then 1 else 0)" and nb: "\<And>b. \<not> blocked s b"
    using x by (auto simp: in_txn_def)
  obtain i t u where g: "bread 1 (of_nat b) s = Some (i, t)" "bdata t i = view s b" "bstep s t"
      "brelse i t = Some u" and e: "bc.effect s (view s) (disk s) [] (refs s) u"
    using bc.load [OF txn_coreD(2) [OF core] in_txn_room [OF x ok room]] by blast
  note E = bc.effectD [OF e]
  note L = bstep_log [OF E(2)] lstep_log [OF bstep_lstep [OF E(2)]]
  have hm: "home u = home s" "logged u = logged s" using L by (simp_all add: home_def logged_def fun_eq_iff)
  have "txn_core u {}" using core E L bstep_log_wf [OF E(2)] by (auto simp: txn_core_def hm)
  then have "in_txn u" using E(6,8) r nb by (auto simp: in_txn_def hm)
  moreover have "lstep s t" "lstep s u" using bstep_lstep g(3) E(2) by blast+
  moreover have "writes u = writes s" using E(5) by simp
  ultimately show ?thesis using g(1,2,4) E(3,4) hm(2) L(6) by blast
qed

end
