(* ===== verification/BioProps.thy ===== *)
theory BioProps
  imports BlockCache
begin

text \<open>
  Start-up of the buffer cache, and the properties of \<open>kernel/bio.c\<close> stated for its
  operations one by one.
\<close>

section \<open>binit\<close>

definition initq :: "nat \<Rightarrow> nat list" where
  \<comment> \<open>the queue after the first \<open>i\<close> buffers: the last buffer is the dummy\<close>
  "initq i = NBUF # [0..<i]"

lemma binit_bufs_ok:
  assumes "queue s (initq i)" "i + k = NBUF" "\<And>l. lk s (SleepSpin l) = None"
  shows "\<exists>t. binit_bufs k i page s = Some t \<and> queue t (initq NBUF) \<and> (\<forall>l. lk t (SleepSpin l) = None) \<and>
    hashtable t = hashtable s \<and> disk t = disk s \<and> writes t = writes s \<and>
    (\<forall>j. b_blockno (bufs t j) = b_blockno (bufs s j)) \<and>
    (\<forall>j. sl t (BufSleep j) = (if i \<le> j \<and> j < NBUF then None else sl s (BufSleep j)))"
  using assms
proof (induction k arbitrary: i s)
  case 0
  then show ?case by auto
next
  case (Suc k)
  let ?s = "set_buf i (\<lambda>b. b\<lparr>b_in_q := 0\<rparr>) (set_buf i (\<lambda>b. b\<lparr>b_daddr := page i\<rparr>) s)"
  have i: "i < NBUF" using Suc.prems(2) by simp
  have ni: "i \<notin> set (initq i)" using i by (simp add: initq_def)
  have "queue ?s (initq i)"
    using Suc.prems(1) unfolding queue_def by (subst chain_cong [of _ _ "bufs s"]) (auto simp: set_buf_def)
  then obtain s' B' x where e: "enqueue i ?s = Some s'" "queue s' (initq i @ [i])"
      and s': "s' = ?s\<lparr>bufs := B', bq_tail := x\<rparr>"
      and B: "\<forall>j. B' j = (bufs ?s j)\<lparr>b_qnext := b_qnext (B' j), b_in_q := (if j = i then 1 else b_in_q (bufs ?s j))\<rparr>"
    using enqueue_queue [of ?s "initq i" i] i ni by (auto simp: set_buf_def)
  let ?t = "s'\<lparr>lk := (lk s')(SleepSpin (BufSleep i) := None), sl := (sl s')(BufSleep i := None)\<rparr>"
  have bn: "b_blockno (B' j) = b_blockno (bufs s j)" for j
  proof -
    have "b_blockno (B' j) = b_blockno (bufs ?s j)" by (subst B [rule_format]) simp
    then show ?thesis by (simp add: set_buf_def)
  qed
  have q: "queue ?t (initq (Suc i))" using e(2) by (simp add: queue_def initq_def)
  have "\<And>l. lk ?t (SleepSpin l) = None" using Suc.prems(3) by (simp add: s' set_buf_def)
  from Suc.IH [OF q _ this] obtain t where "binit_bufs k (Suc i) page ?t = Some t" "queue t (initq NBUF)"
      "\<forall>l. lk t (SleepSpin l) = None" "hashtable t = hashtable ?t" "disk t = disk ?t" "writes t = writes ?t"
      "\<forall>j. b_blockno (bufs t j) = b_blockno (bufs ?t j)"
      "\<forall>j. sl t (BufSleep j) = (if Suc i \<le> j \<and> j < NBUF then None else sl ?t (BufSleep j))"
    using Suc.prems(2) by auto
  then show ?case using e(1) i by (auto simp: s' bn set_buf_def Let_def)
qed

definition cache_boot :: "'a bcache_scheme \<Rightarrow> bool" where
  \<comment> \<open>memory at power-on: the sleep locks' spin locks are free and every \<open>blockno\<close> is 0\<close>
  "cache_boot s \<longleftrightarrow> (\<forall>l. lk s (SleepSpin l) = None) \<and> (\<forall>i. b_blockno (bufs s i) = 0)"

definition clean_cache :: "'a bcache_scheme \<Rightarrow> bool" where
  "clean_cache s \<longleftrightarrow> binv s \<and> (\<forall>b. refs s b = 0) \<and> (\<forall>b. \<not> blocked s b) \<and> view s = disk s"

lemma binit_clean:
  assumes "cache_boot s"
  shows "\<exists>t. binit page s = Some t \<and> clean_cache t \<and> disk t = disk s \<and> writes t = writes s"
proof -
  define a where "a = s\<lparr>hashtable := (\<lambda>i. if i < FSSIZE then REFCNT_IDX 0 NONE else hashtable s i)\<rparr>"
  define b where "b = a\<lparr>bq_head := CNTPTR 0 (of_nat NBUF), bq_tail := CNTPTR 0 (of_nat NBUF)\<rparr>"
  define c where "c = b\<lparr>lk := (lk b)(SleepSpin (BufSleep NBUF) := None), sl := (sl b)(BufSleep NBUF := None)\<rparr>"
  define d where "d = set_buf NBUF (\<lambda>b. b\<lparr>b_daddr := page NBUF, b_qnext := CNTPTR 0 PTRNULL, b_in_q := 0\<rparr>) c"
  note defs = a_def b_def c_def d_def set_buf_def
  have q: "queue d (initq 0)"
    by (simp add: queue_def initq_def defs bptr_small PTR_PTRNULL)
  have lkd: "\<And>l. lk d (SleepSpin l) = None" using assms by (simp add: defs cache_boot_def)
  obtain t where t: "binit_bufs NBUF 0 page d = Some t" "queue t (initq NBUF)" "\<forall>l. lk t (SleepSpin l) = None"
      "hashtable t = hashtable d" "disk t = disk d" "writes t = writes d"
      "\<forall>j. b_blockno (bufs t j) = b_blockno (bufs d j)"
      "\<forall>j. sl t (BufSleep j) = (if 0 \<le> j \<and> j < NBUF then None else sl d (BufSleep j))"
    using binit_bufs_ok [of d 0 NBUF page, OF q _ lkd] by auto
  have bt: "binit page s = Some t" using t(1) by (simp add: binit_def Let_def defs)
  have nc: "\<not> cached t blk" for blk by (simp add: cached_def t(4) defs)
  have rf: "refs t blk = 0" for blk by (simp add: refs_def t(4) defs)
  have "sl t (BufSleep i) = None" "b_blockno (bufs t i) = 0" if "i \<le> NBUF" for i
    using that t(7,8) assms by (auto simp: defs cache_boot_def)
  then have "binvX t (initq NBUF) {}"
    unfolding binvX_def using t(2,3) nc rf by (auto simp: initq_def)
  then have "clean_cache t"
    using nc rf unfolding clean_cache_def binv_def by (auto simp: blocked_def view_def fun_eq_iff)
  then show ?thesis using bt t(5,6) by (auto simp: defs)
qed

section \<open>A concrete cache\<close>

definition demo_cache :: bcache where
  \<comment> \<open>power-on: every disk block holds zeroes\<close>
  "demo_cache = \<lparr>cpuid = 0, mypid = 1, noff = 0, lk = (\<lambda>_. None), sl = (\<lambda>_. None), mem = (\<lambda>_. 0),
     kend = 0, freelist = (\<lambda>_. 0), super_freelist = 0, ref_cnt = (\<lambda>_. 0), savedpg = 0, savedbyte = 0,
     procs = (\<lambda>_. undefined), curp = 0, tshareds = (\<lambda>_. undefined), trapframes = (\<lambda>_. undefined),
     usyspages = (\<lambda>_. 0), nextpid = 1, initproc = None, shproc = None, fgproc_mask = 0,
     trampoline = 0, forkret = 0,
     bufs = (\<lambda>_. \<lparr>b_valid = False, b_dev = 0, b_blockno = 0, b_data = (\<lambda>_. 0), b_daddr = 0,
                b_qnext = 0, b_in_q = 0\<rparr>),
     hashtable = (\<lambda>_. 0), bq_head = 0, bq_tail = 0, disk = (\<lambda>_ _. 0), writes = []\<rparr>"

lemma demo_cache_boot: "cache_boot demo_cache"
  by (simp add: cache_boot_def demo_cache_def)

section \<open>Properties\<close>

text \<open>from the memory contents at power-on, \<open>binit\<close> returns and establishes the cache
  invariant with an empty cache: no block is cached in use or locked, every block reads as it is
  on the disk, and the disk is untouched.\<close>
theorem binit_starts_empty_cache:
  assumes "cache_boot s"
  shows "\<exists>t. binit page s = Some t \<and> binv t \<and> view t = disk s \<and> disk t = disk s \<and>
    (\<forall>b. refs t b = 0 \<and> \<not> blocked t b)"
  using binit_clean [OF assms, of page] by (auto simp: clean_cache_def)


text \<open>C5: \<open>bread\<close> of an unlocked block returns whenever fewer than \<open>NBUF\<close> blocks are in use
  (or the block already is): the buffer it returns is locked by this process and holds the
  block's newest contents, no other block's contents, count or lock changes whatever buffer had
  to be recycled, and the disk is not written.  Block 0 is left out: \<open>bget\<close> takes a buffer with block
  number 0 for one that has never been used.\<close>
theorem bread_returns_locked_newest:
  assumes "binv s" "\<not> blocked s b" "0 < b" "b < FSSIZE" "refs s b < 2 ^ 27 - 1"
    and "0 < refs s b \<or> card (in_use s) < NBUF"
  shows "\<exists>i t. bread 1 (of_nat b) s = Some (i, t) \<and> binv t \<and> held t i b \<and> b_data (bufs t i) = view s b \<and>
    view t = view s \<and> disk t = disk s \<and> writes t = writes s \<and>
    refs t = (refs s)(b := Suc (refs s b)) \<and> (\<forall>c. blocked t c \<longrightarrow> c = b \<or> blocked s c)"
proof -
  have "bc.room s b"
    unfolding bc.room_def using assms by (simp add: blk_ok_def MAXREF_def in_use_def)
  then obtain i t where "bread 1 (of_nat b) s = Some (i, t)" "bc.got s b i t"
    using bc.fetch [OF assms(1)] by blast
  then show ?thesis by (auto simp: bc.got_def bdata_def)
qed

lemma clean_room:
  assumes "clean_cache s" "0 < b" "b < FSSIZE"
  shows "binv s" "\<not> blocked s b" "refs s b < 2 ^ 27 - 1" "0 < refs s b \<or> card (in_use s) < NBUF"
  using assms by (auto simp: clean_cache_def in_use_def NBUF_def)

theorem bread_returns_locked_newest_witness:
  "\<exists>s i t. binit (\<lambda>_. 0) demo_cache = Some s \<and> bread 1 (of_nat 7) s = Some (i, t) \<and> held t i 7 \<and>
     b_data (bufs t i) = (\<lambda>_. 0)"
proof -
  obtain s where s: "binit (\<lambda>_. 0) demo_cache = Some s" "clean_cache s" "disk s = disk demo_cache"
    using binit_clean [OF demo_cache_boot] by blast
  note R = clean_room [OF s(2), of 7]
  have "view s 7 = (\<lambda>_. 0)" using s(2,3) by (simp add: clean_cache_def demo_cache_def)
  then show ?thesis
    using bread_returns_locked_newest [of s 7] R s(1) by (simp add: FSSIZE_def) metis
qed

text \<open>the lock-free queue refines a list: \<open>enqueue\<close> of a buffer that is not queued returns
  and appends it, \<open>enqueue\<close> of a queued buffer changes nothing, and \<open>dequeue\<close> returns the first
  element and removes it as long as one more stays behind; the last element is never handed
  out.\<close>
theorem queue_refines_list:
  assumes "queue s L" "b \<le> NBUF" "b \<notin> set L \<longrightarrow> b_in_q (bufs s b) = 0" "b \<in> set L \<longrightarrow> b_in_q (bufs s b) \<noteq> 0"
  shows "\<exists>t. enqueue b s = Some t \<and> queue t (if b \<in> set L then L else L @ [b]) \<and>
    (\<exists>u. dequeue s = Some (if length L = 1 then None else Some (hd L), u) \<and>
       queue u (if length L = 1 then L else tl L))"
proof -
  have e: "\<exists>t. enqueue b s = Some t \<and> queue t (if b \<in> set L then L else L @ [b])"
  proof (cases "b \<in> set L")
    case True
    then show ?thesis using assms by (simp add: enqueue_def)
  next
    case False
    then show ?thesis using enqueue_queue [OF assms(1,2)] assms(3) by auto
  qed
  have "L \<noteq> []" using assms(1) chain_nonempty by (auto simp: queue_def)
  then consider x where "L = [x]" | x y M where "L = x # y # M" by (metis neq_Nil_conv)
  then have "\<exists>u. dequeue s = Some (if length L = 1 then None else Some (hd L), u) \<and>
       queue u (if length L = 1 then L else tl L)"
  proof cases
    case 1
    then show ?thesis using dequeue_empty assms(1) by auto
  next
    case 2
    then show ?thesis using dequeue_queue assms(1) by fastforce
  qed
  then show ?thesis using e by blast
qed

definition demo_queue :: bcache where
  "demo_queue = demo_cache\<lparr>bq_head := 5, bq_tail := 5,
     bufs := (\<lambda>i. (bufs demo_cache i)\<lparr>b_qnext := PTRNULL, b_in_q := (if i = 5 then 1 else 0)\<rparr>)\<rparr>"


end
