(* ===== verification/TxnProps.thy ===== *)
theory TxnProps
  imports Txn BioProps
begin

text \<open>
  The properties of \<open>kernel/log.c\<close> that describe a transaction from \<open>begin_op\<close> to the last
  \<open>end_op\<close>, and a concrete transaction on which the properties of the log are applied.
\<close>

section \<open>A concrete transaction\<close>

definition demo_log :: logst where
  "demo_log = swapst.extend
     (bcache.extend demo_cache (swapst.fields (\<lambda>_. 0) (\<lambda>_. 0) 0))
     (logst.fields 2 31 0 False 1 0 (\<lambda>_. 0))"

lemma demo_log_simps [simp]:
  "disk demo_log = (\<lambda>_ _. 0)" "cache_boot (demo_log\<lparr>disk := D\<rparr>)" "cache_boot demo_log"
  using demo_cache_boot
  by (simp_all add: demo_log_def swapst.defs bcache.defs logst.defs demo_cache_def cache_boot_def)

definition demo_open :: "logst \<Rightarrow> logst" where
  \<comment> \<open>a log at block 2 with one operation in progress\<close>
  "demo_open s = s\<lparr>lk := (\<lambda>_. None), log_start := 2, log_size := 31, outstanding := 1,
     committing := False, log_dev := 1, lh_n := 0\<rparr>"

lemma demo_open_simps [simp]:
  "lk (demo_open s) = (\<lambda>_. None)" "log_start (demo_open s) = 2" "log_size (demo_open s) = 31"
  "outstanding (demo_open s) = 1" "\<not> committing (demo_open s)" "log_dev (demo_open s) = 1" "lh_n (demo_open s) = 0"
  by (simp_all add: demo_open_def)

lemma hdr_n_zero: "hdr_n (\<lambda>_. 0) = 0"
  by (simp add: hdr_n_def ld32_def ldn_all_zero)

lemma demo_in_txn:
  obtains s :: logst where "binit (\<lambda>_. 0) demo_log = Some s" "in_txn (demo_open s)" "disk (demo_open s) = (\<lambda>_ _. 0)"
    "lh_n (demo_open s) = 0" "log_room (demo_open s) 29" "log_area (demo_open s) = {2..32}"
    "logged (demo_open s) = {}" "outstanding (demo_open s) = 1" "log_start (demo_open s) = 2"
proof -
  obtain s :: logst where s: "binit (\<lambda>_. 0) demo_log = Some s" "clean_cache s" "disk s = disk demo_log"
    using binit_clean [of demo_log "\<lambda>_. 0"] by auto
  obtain L where "binvX s L {}" using s(2) by (auto simp: clean_cache_def binv_def)
  then have "same_cache s (demo_open s)"
    using binvXD(2) [of s L "{}"] by (simp add: same_cache_def demo_open_def)
  note S = same_cacheD [OF this]
  have "log_wf (demo_open s)" by (simp add: log_wf_def demo_open_def FSSIZE_def LOGSIZE_def)
  moreover have lg: "logged (demo_open s) = {}" by (simp add: logged_def demo_open_def)
  ultimately have "in_txn (demo_open s)"
    using s(2,3) unfolding in_txn_def txn_core_def
    by (auto simp: S clean_cache_def hdr_n_zero)
  then show thesis
    by (rule that [OF s(1)]) (use s(3) lg in \<open>auto simp: S log_room_def log_area_def LOGSIZE_def\<close>)
qed

lemma demo_txn:
  obtains s :: logst where "in_txn s" "txn s" "lh_n s = 1" "log_start s = 2" "view s = (\<lambda>b. if b = 100 then (\<lambda>_. 7) else (\<lambda>_. 0))"
    "disk s = (\<lambda>_ _. 0)" "logged s = {100}" "outstanding s = 1" "log_area s = {2..32}"
proof -
  obtain s :: logst where s: "in_txn (demo_open s)" "disk (demo_open s) = (\<lambda>_ _. 0)" "lh_n (demo_open s) = 0"
      "log_room (demo_open s) 29" "log_area (demo_open s) = {2..32}" "logged (demo_open s) = {}"
      "outstanding (demo_open s) = 1" "log_start (demo_open s) = 2"
    by (rule demo_in_txn)
  have "log_room (demo_open s) 1" using s(4) by (simp add: log_room_def)
  then obtain t where t: "in_txn t" "lstep (demo_open s) t"
      "view t = (view (demo_open s))(100 := (\<lambda>_. 7))" "disk t = disk (demo_open s)"
      "logged t = {100}" "lh_n t = 1"
    using update_block_spec [OF s(1), of 100 "\<lambda>_ _. 7"] s(3,5,6) by (auto simp: blk_ok_def FSSIZE_def)
  have "view (demo_open s) b = disk (demo_open s) b" for b
    using txn_coreD(4) [of "demo_open s" "{}" b] s(1,6) by (simp add: in_txn_def)
  then have "view t = (\<lambda>b. if b = 100 then (\<lambda>_. 7) else (\<lambda>_. 0))" using t(3) s(2) by (auto simp: fun_eq_iff)
  moreover have "txn t" using in_txn_txn [OF t(1)] t(6) by (simp add: LOGSIZE_def)
  ultimately show thesis
    using that t s lstep_log [OF t(2)] by simp
qed

section \<open>Properties\<close>

text \<open>C3: crash safety. Whatever prefix of the block writes of a commit reached the disk when the
  machine stopped, booting with that disk and running \<open>initlog\<close> returns, leaves an empty log, and
  outside the log area the disk is either entirely as before the transaction or entirely as after
  it: as before when at most the \<open>n\<close> log blocks were written, as after from the header write on.\<close>
theorem commit_is_atomic_across_crashes:
  assumes "txn s" and boot: "fresh_cache b" "disk b = torn_disk s k"
  shows "\<exists>t u. commit s = Some t \<and> writes t = writes s @ commit_writes s \<and>
    initlog 1 (log_start s) nlog b = Some u \<and> hdr_n (disk u (nat (log_start s))) = 0 \<and>
    (\<forall>c. c \<notin> log_area s \<longrightarrow> disk u c = (if k \<le> nat (lh_n s) then disk s c else view s c))"
proof -
  obtain t where t: "commit s = Some t" "writes t = writes s @ commit_writes s"
    using commit_spec [OF assms(1)] by blast
  note R = torn_recovers [OF assms(1), of k]
  obtain u where u: "initlog 1 (log_start s) nlog b = Some u" "disk u = recovered (nat (log_start s)) (disk b)"
    using initlog_spec [OF boot(1)] R(1) boot(2) by metis
  have "disk u c = (if k \<le> nat (lh_n s) then disk s c else view s c)" if "c \<notin> log_area s" for c
    using R(2,3) [OF _ that] u(2) boot(2) by (cases "k \<le> nat (lh_n s)") auto
  then show ?thesis using t u hdr_n_recovered by metis
qed

theorem commit_is_atomic_across_crashes_witness:
  "\<exists>(s :: logst) (b :: logst) t u. lh_n s = 1 \<and> view s 100 \<noteq> disk s 100 \<and> fresh_cache b \<and> disk b = torn_disk s 2 \<and>
     commit s = Some t \<and> initlog 1 (log_start s) 31 b = Some u \<and> disk u 100 = view s 100"
proof -
  obtain s :: logst where s: "txn s" "lh_n s = 1" "log_area s = {2..32}" "disk s = (\<lambda>_ _. 0)"
      "view s = (\<lambda>b. if b = 100 then (\<lambda>_. 7) else (\<lambda>_. 0))"
    by (rule demo_txn)
  obtain b :: logst where b: "clean_cache b" "disk b = torn_disk s 2"
    using binit_clean [of "demo_log\<lparr>disk := torn_disk s 2\<rparr>" "\<lambda>_. 0"] by auto
  then have "fresh_cache b" by (simp add: clean_cache_def fresh_cache_def)
  moreover have "view s 100 \<noteq> disk s 100" using s(4,5) by (auto simp: fun_eq_iff)
  moreover have "(100 :: nat) \<notin> log_area s" using s(3) by simp
  moreover obtain t u where "commit s = Some t" "initlog 1 (log_start s) 31 b = Some u"
      "\<And>c. c \<notin> log_area s \<Longrightarrow> disk u c = (if 2 \<le> nat (lh_n s) then disk s c else view s c)"
    using commit_is_atomic_across_crashes [OF s(1) calculation(1) b(2), of 31] by blast
  ultimately have "fresh_cache b" "view s 100 \<noteq> disk s 100" "commit s = Some t"
      "initlog 1 (log_start s) 31 b = Some u" "disk u 100 = view s 100"
    using s(2) by auto
  then show ?thesis using s(2) b(2) by blast
qed

text \<open>\<open>log_write\<close> of a block this process holds: it returns unless the transaction is full,
  leaves disk and contents alone, and afterwards the block is in the log header exactly once: a
  block that was there already is absorbed, a new one is appended and pinned by one more
  reference.\<close>
theorem log_write_absorbs:
  assumes "txn_core s {b}" "held s i b" "blk_ok b" "b \<notin> log_area s" "refs s b < MAXREF"
    and "lh_n s < LOGSIZE" "lh_n s < log_size s - 1"
  shows "\<exists>t. log_write i s = Some t \<and> txn_core t {} \<and> logged t = insert b (logged s) \<and>
    lh_n t = (if b \<in> logged s then lh_n s else lh_n s + 1) \<and>
    refs t = (if b \<in> logged s then refs s else (refs s)(b := Suc (refs s b))) \<and>
    view t = view s \<and> disk t = disk s \<and> writes t = writes s \<and> held t i b"
  using log_write_ok [OF assms(1-4,6,7,5)] assms(2) by auto


text \<open>\<open>begin_op\<close> admits an operation exactly when no commit is running and the log has room
  for \<open>MAXOPBLOCKS\<close> blocks for every operation in progress and this one on top of what is
  logged already; then it only counts the operation.  Otherwise it waits.\<close>
theorem begin_op_reserves_space:
  assumes "lk s LogLock = None"
  shows "begin_op s = (if committing s \<or> lh_n s + (outstanding s + 1) * 10 > 30 then None
                       else Some (s\<lparr>outstanding := outstanding s + 1\<rparr>))"
proof -
  have "(lk s)(LogLock := None) = lk s" using assms by (simp add: fun_upd_idem)
  then show ?thesis
    using assms by (simp add: begin_op_def kernel_simps LOGSIZE_def MAXOPBLOCKS_def)
qed


text \<open>C4: the last \<open>end_op\<close> of a transaction commits it: it returns with the log empty and no
  operation or commit in progress, and the disk holds, outside the log area, exactly what the
  processes saw through the cache.\<close>
theorem last_end_op_commits:
  assumes "txn s" "outstanding s = 1" "\<not> committing s" "lk s LogLock = None"
  shows "\<exists>t. end_op s = Some t \<and> lh_n t = 0 \<and> outstanding t = 0 \<and> \<not> committing t \<and> lk t LogLock = None \<and>
    writes t = writes s @ commit_writes s \<and> (\<forall>b. b \<notin> log_area s \<longrightarrow> disk t b = view s b)"
proof -
  let ?s = "s\<lparr>outstanding := 0, committing := True\<rparr>"
  have sc: "same_cache s ?s" by (simp add: same_cache_def)
  note S = same_cacheD [OF sc] same_cache_calm [OF sc]
  have fields: "log_wf ?s = log_wf s" "home ?s = home s" "log_area ?s = log_area s" "commit_writes ?s = commit_writes s"
    by (simp_all add: log_wf_def home_def log_area_def commit_writes_def slot_def S fun_eq_iff)
  have "txn ?s" using assms(1) by (simp add: txn_def S fields)
  then obtain t where t: "commit ?s = Some t" "writes t = writes s @ commit_writes s"
      "disk t = apply_writes (commit_writes s) (disk s)" "lh_n t = 0" "lstep ?s t"
    using commit_spec [of ?s] by (auto simp: S fields)
  have lt: "lk t LogLock = None" "outstanding t = 0" using lstep_log [OF t(5)] assms(4) by simp_all
  have lks: "(lk s)(LogLock := None) = lk s" using assms(4) by (simp add: fun_upd_idem)
  let ?t = "t\<lparr>committing := False, lk := (lk t)(LogLock := None)\<rparr>"
  have u: "\<exists>u. end_op s = Some u \<and> lh_n u = lh_n t \<and> outstanding u = 0 \<and> \<not> committing u \<and>
      lk u LogLock = None \<and> writes u = writes t \<and> disk u = disk t"
  proof -
    have e: "s\<lparr>outstanding := 0, committing := True, lk := lk s\<rparr> = ?s" by simp
    show ?thesis using assms t(1) lt by (simp add: end_op_def kernel_simps Let_def lks e)
  qed
  have "disk t b = view s b" if b: "b \<notin> log_area s" for b
  proof -
    have wf: "log_wf s" and k: "2 * nat (lh_n s) + 1 < 2 * nat (lh_n s) + 2"
        and dist: "distinct (map (home s) [0..<nat (lh_n s)])"
      using assms(1) by (simp_all add: txn_def)
    have len: "length (commit_writes s) = 2 * nat (lh_n s) + 2" by (simp add: commit_writes_def Let_def)
    then have "torn_disk s (2 * nat (lh_n s) + 2) = disk t" by (simp add: torn_disk_def t(3))
    then show ?thesis
      using torn_after(4) [OF wf dist _ k] torn_after(5) [OF wf dist _ b, of "2 * nat (lh_n s) + 2"] assms(1)
      by (cases "b \<in> home s ` {..<nat (lh_n s)}") (auto simp: txn_def)
  qed
  then show ?thesis using u t(2,4) by auto
qed

theorem last_end_op_commits_witness:
  "\<exists>(s :: logst) t. disk s 100 = (\<lambda>_. 0) \<and> end_op s = Some t \<and> lh_n t = 0 \<and> disk t 100 = (\<lambda>_. 7)"
proof -
  obtain s :: logst where s: "in_txn s" "txn s" "log_area s = {2..32}" "disk s = (\<lambda>_ _. 0)" "outstanding s = 1"
      "view s = (\<lambda>b. if b = 100 then (\<lambda>_. 7) else (\<lambda>_. 0))"
    by (rule demo_txn)
  have "\<not> committing s" "lk s LogLock = None" using s(1) by (auto simp: in_txn_def txn_core_def)
  then obtain t where "end_op s = Some t" "lh_n t = 0" "\<forall>b. b \<notin> log_area s \<longrightarrow> disk t b = view s b"
    using last_end_op_commits [OF s(2,5)] by blast
  then show ?thesis using s(3,4,6) by (intro exI [of _ s] exI [of _ t]) simp
qed

end
