(* ===== verification/Vm.thy ===== *)
theory Vm
  imports Swap
begin

text \<open>
  User memory, the rest of \<open>kernel/vm.c\<close>: growing, copying and freeing an address space,
  copy-on-write, and the copies between kernel and user memory.  \<open>fault\<close> is \<open>vma_handle\<close> of
  \<open>kernel/mmap.c\<close>, which maps a page on demand; its model is in the theory \<open>Mmap\<close>, which
  comes later because it reads files.
\<close>

definition FREE_BCACHE :: nat where "FREE_BCACHE = 2"

section \<open>Freeing\<close>

partial_function (option) uvmunmap_loop ::
  "u64 \<Rightarrow> u64 \<Rightarrow> u64 \<Rightarrow> u64 \<Rightarrow> nat \<Rightarrow> 'a swapst_scheme \<Rightarrow> 'a swapst_scheme option" where
  \<comment> \<open>\<open>step_pgsize\<close> keeps its value when a page is skipped\<close>
  "uvmunmap_loop pagetable a end_a step do_free s =
     (if \<not> a < end_a then Some s
      else do {
        pte \<leftarrow> walk_get pagetable a s;
        (if pte = 0 then uvmunmap_loop pagetable (a + step) end_a step do_free s
         else do {
           s \<leftarrow> (if pte_at s pte AND PTE_PG \<noteq> 0
                 then do {
                   let s = set_pte pte (pte_at s pte AND NOT PTE_PG) s;
                   (r, s) \<leftarrow> swapdecget (unat (PTE2IDX (pte_at s pte))) s;
                   Some s }
                 else Some s);
           (if pte_at s pte AND PTE_V = 0
            then uvmunmap_loop pagetable (a + step) end_a step do_free s
            else if PTE_FLAGS (pte_at s pte) = PTE_V then panic ''uvmunmap: not a leaf''
            else do {
              let pa = PTE2PA (pte_at s pte);
              let suppg = IS_SUPPG pa;
              let step = of_nat (if suppg then SUPPGSIZE else PGSIZE);
              s \<leftarrow> (if do_free \<noteq> 0
                    then do {
                      s \<leftarrow> (if bit do_free 1 then bunpin2 pa s else Some s);
                      (if bit do_free 0
                       then if suppg then kfree_suppage pa s else kfree pa s
                       else Some s) }
                    else Some s);
              uvmunmap_loop pagetable (a + step) end_a step do_free (set_pte pte 0 s) }) }) })"

definition uvmunmap :: "u64 \<Rightarrow> u64 \<Rightarrow> u64 \<Rightarrow> nat \<Rightarrow> 'a swapst_scheme \<Rightarrow> 'a swapst_scheme option" where
  "uvmunmap pagetable va np do_free s =
     (if va mod of_nat PGSIZE \<noteq> 0 then panic ''uvmunmap: not aligned''
      else uvmunmap_loop pagetable va (va + np * of_nat PGSIZE) (of_nat PGSIZE) do_free s)"

definition uvmdealloc :: "u64 \<Rightarrow> u64 \<Rightarrow> u64 \<Rightarrow> 'a swapst_scheme \<Rightarrow> (u64 \<times> 'a swapst_scheme) option" where
  "uvmdealloc pagetable oldsz newsz s =
     (if newsz \<ge> oldsz then Some (oldsz, s)
      else if PGROUNDUP newsz < PGROUNDUP oldsz
      then do {
        let np = (PGROUNDUP oldsz - PGROUNDUP newsz) div of_nat PGSIZE;
        let (newsz, np) = (if newsz = 0 then (of_nat PGSIZE, np - 1) else (newsz, np));
        s \<leftarrow> uvmunmap pagetable (PGROUNDUP newsz) (signed (ucast np :: u32)) 1 s;
        Some (newsz, s) }
      else Some (newsz, s))"

partial_function (option) uvmalloc_loop ::
  "u64 \<Rightarrow> u64 \<Rightarrow> u64 \<Rightarrow> u64 \<Rightarrow> u64 \<Rightarrow> 'a swapst_scheme \<Rightarrow> (u64 \<times> 'a swapst_scheme) option" where
  "uvmalloc_loop pagetable a oldsz newsz xperm s =
     (if \<not> a < newsz then Some (newsz, s)
      else do {
        (m, s) \<leftarrow> kmalloc s;
        (if m = 0 then do { (r, s) \<leftarrow> uvmdealloc pagetable a oldsz s; Some (0, s) }
         else do {
           let s = s\<lparr>mem := mem_set m 0 PGSIZE (mem s)\<rparr>;
           (r, s) \<leftarrow> mappages kmalloc pagetable a (of_nat PGSIZE) m (PTE_R OR PTE_U OR xperm) s;
           (if r \<noteq> 0 then do {
              s \<leftarrow> kfree m s;
              (r, s) \<leftarrow> uvmdealloc pagetable a oldsz s;
              Some (0, s) }
            else uvmalloc_loop pagetable (a + of_nat PGSIZE) oldsz newsz xperm s) }) })"

definition uvmalloc :: "u64 \<Rightarrow> u64 \<Rightarrow> u64 \<Rightarrow> u64 \<Rightarrow> 'a swapst_scheme \<Rightarrow> (u64 \<times> 'a swapst_scheme) option" where
  "uvmalloc pagetable oldsz newsz xperm s =
     (if newsz < oldsz then Some (oldsz, s)
      else uvmalloc_loop pagetable (PGROUNDUP oldsz) (PGROUNDUP oldsz) newsz xperm s)"

definition uvmfree :: "u64 \<Rightarrow> u64 \<Rightarrow> 'a swapst_scheme \<Rightarrow> 'a swapst_scheme option" where
  \<comment> \<open>a page table is three levels deep\<close>
  "uvmfree pagetable sz s = do {
     s \<leftarrow> (if sz > 0 then uvmunmap pagetable 0 (PGROUNDUP sz div of_nat PGSIZE) 1 s else Some s);
     freewalk 3 pagetable s }"

section \<open>Copying an address space\<close>

partial_function (option) uvmcopy_loop ::
  "u64 \<Rightarrow> u64 \<Rightarrow> u64 \<Rightarrow> u64 \<Rightarrow> 'a swapst_scheme \<Rightarrow> (int \<times> u64 \<times> 'a swapst_scheme) option" where
  \<comment> \<open>returns \<open>ret\<close> and the \<open>i\<close> the loop ended at\<close>
  "uvmcopy_loop old new i sz s =
     (if \<not> i < sz then Some (0, i, s)
      else do {
        pte \<leftarrow> walk_get old i s;
        (if pte = 0 then uvmcopy_loop old new (i + of_nat PGSIZE) sz s
         else do {
           (r, s) \<leftarrow> (if pte_at s pte AND PTE_PG \<noteq> 0 then swappageclone kmalloc pte new i s else Some (0, s));
           (if r < 0
            then do { s \<leftarrow> uvmunmap new 0 (i div of_nat PGSIZE) 1 s; Some (-1, i, s) }
            else if pte_at s pte AND PTE_V = 0 then uvmcopy_loop old new (i + of_nat PGSIZE) sz s
            else do {
              let pa = PTE2PA (pte_at s pte);
              (if IS_SUPPG pa
               then do {
                 (m, s) \<leftarrow> kalloc_suppage s;
                 (if m = 0
                  then do { s \<leftarrow> uvmunmap new 0 (i div of_nat PGSIZE) 1 s; Some (-1, i, s) }
                  else do {
                    let s = s\<lparr>mem := mem_copy m (mem s) pa SUPPGSIZE (mem s)\<rparr>;
                    (r, s) \<leftarrow> mappages kmalloc new i (of_nat SUPPGSIZE) m (PTE_FLAGS (pte_at s pte)) s;
                    (if r \<noteq> 0
                     then do {
                       s \<leftarrow> kfree_suppage m s;
                       s \<leftarrow> uvmunmap new 0 (i div of_nat PGSIZE) 1 s;
                       Some (-1, i, s) }
                     else uvmcopy_loop old new (i + of_nat (SUPPGSIZE - PGSIZE) + of_nat PGSIZE) sz s) }) }
               else do {
                 let s = (if pte_at s pte AND PTE_W \<noteq> 0
                          then set_pte pte (PTE_ENCOW (pte_at s pte)) s else s);
                 (n, s) \<leftarrow> kincget pa s;
                 (r, s) \<leftarrow> mappages kmalloc new i (of_nat PGSIZE) pa (PTE_FLAGS (pte_at s pte)) s;
                 (if r \<noteq> 0
                  then do { s \<leftarrow> uvmunmap new 0 (i div of_nat PGSIZE) 1 s; Some (-1, i, s) }
                  else uvmcopy_loop old new (i + of_nat PGSIZE) sz s) }) }) }) })"

definition uvmcopy :: "u64 \<Rightarrow> u64 \<Rightarrow> u64 \<Rightarrow> 'a swapst_scheme \<Rightarrow> (int \<times> 'a swapst_scheme) option" where
  "uvmcopy old new sz s = do {
     (ret, i, s) \<leftarrow> uvmcopy_loop old new 0 sz s;
     (r, s) \<leftarrow> saved_page (sint (ucast (i div of_nat PGSIZE) :: u32)) s;
     (r, s) \<leftarrow> saved_byte (sint (ucast i :: u32)) s;
     Some (ret, s) }"

section \<open>Copy on write\<close>

definition copyonwrite :: "u64 \<Rightarrow> 'a swapst_scheme \<Rightarrow> (int \<times> 'a swapst_scheme) option" where
  "copyonwrite pte s =
     (if pte_at s pte AND PTE_COW = 0 then Some (-1, s)
      else do {
        let ts = ptshared (procs s (curp s));
        s \<leftarrow> acquiresleep (slock ts) s;
        s \<leftarrow> acquire (tlock ts) s;
        (r, s) \<leftarrow>
          (if pte_at s pte AND PTE_W \<noteq> 0 then Some (None, s)
           else do {
             let pa = PTE2PA (pte_at s pte);
             (if IS_SUPPG pa then panic ''copyonwrite'' else do {
               let flags = PTE_FLAGS (pte_at s pte);
               s \<leftarrow> release (tlock ts) s;
               (m, s) \<leftarrow> kalloc_cow find_swapping_page pte s;
               (if m = 0 then do { s \<leftarrow> releasesleep (slock ts) s; Some (Some (-1), s) }
                else do {
                  s \<leftarrow> acquire (tlock ts) s;
                  (if m = pa then Some (None, s)
                   else do {
                     let s = set_pte pte (PA2PTE m OR PTE_DECOW flags) s;
                     let s = s\<lparr>mem := mem_copy m (mem s) pa PGSIZE (mem s)\<rparr>;
                     (x, s) \<leftarrow> saved_page (-1) s;
                     (x, s) \<leftarrow> saved_byte (- int PGSIZE) s;
                     Some (None, s) }) }) }) });
        (case r of Some r \<Rightarrow> Some (r, s)
         | None \<Rightarrow> do {
             s \<leftarrow> release (tlock ts) s;
             s \<leftarrow> releasesleep (slock ts) s;
             Some (0, s) }) })"

section \<open>Copies between kernel and user memory\<close>

type_synonym 's fault_handler = "nat \<Rightarrow> u64 \<Rightarrow> 's \<Rightarrow> (int \<times> 's) option"

definition page_part :: "u64 \<Rightarrow> u64 \<Rightarrow> u64 \<Rightarrow> u64 \<Rightarrow> u64 \<times> u64" where
  \<comment> \<open>\<open>pgsize\<close> and \<open>n\<close> for a copy of \<open>len\<close> bytes at \<open>va\<close>, in the page \<open>va0\<close> mapped to \<open>pa0\<close>\<close>
  "page_part va va0 pa0 len =
     (let pgsize = of_nat (if IS_SUPPG pa0 then SUPPGSIZE else PGSIZE);
          n = pgsize - (va - va0)
      in (pgsize, if n > len then len else n))"

partial_function (option) copyout ::
  "'a swapst_scheme fault_handler \<Rightarrow> u64 \<Rightarrow> u64 \<Rightarrow> bytes \<Rightarrow> u64 \<Rightarrow> u64 \<Rightarrow>
    'a swapst_scheme \<Rightarrow> (int \<times> 'a swapst_scheme) option" where
  \<comment> \<open>the kernel data to copy is \<open>len\<close> bytes from \<open>src\<close> in \<open>obj\<close>\<close>
  "copyout fault pt dstva obj src len s =
     (if len = 0 then Some (0, s)
      else do {
        let va0 = PGROUNDDOWN dstva;
        (if va0 \<ge> MAXVA then Some (-1, s)
         else do {
           pte \<leftarrow> walk_get pt va0 s;
           (err, pte, s) \<leftarrow>
             (if pte = 0 \<or> pte_at s pte AND PTE_V = 0
              then do {
                (suppg, s) \<leftarrow> fault (curp s) va0 s;
                (if suppg < 0 then Some (True, pte, s)
                 else do {
                   pte \<leftarrow> walk_get pt (if suppg \<noteq> 0 then SUPPGROUNDDOWN va0 else va0) s;
                   Some (False, pte, s) }) }
              else Some (False, pte, s));
           (if err then Some (-1, s)
            else if pte = 0 then None \<comment> \<open>null dereference\<close>
            else if pte_at s pte AND PTE_U = 0 then Some (-1, s)
            else do {
              (r, s) \<leftarrow> (if pte_at s pte AND PTE_W = 0 then copyonwrite pte s else Some (0, s));
              (if r \<noteq> 0 then Some (-1, s)
               else do {
                 let pa0 = PTE2PA (pte_at s pte);
                 let (pgsize, n) = page_part dstva va0 pa0 len;
                 let s = s\<lparr>mem := mem_copy (pa0 + (dstva - va0)) obj src (unat n) (mem s)\<rparr>;
                 copyout fault pt (va0 + pgsize) obj (src + n) (len - n) s }) }) }) })"

definition user_page :: "'a swapst_scheme fault_handler \<Rightarrow> u64 \<Rightarrow> u64 \<Rightarrow> 'a swapst_scheme \<Rightarrow>
    (u64 option \<times> 'a swapst_scheme) option" where
  \<comment> \<open>\<open>pa0\<close> in \<open>copyin\<close> and \<open>copyinstr\<close>, mapping the page at \<open>va0\<close> first if it is missing;
      \<open>None\<close> where they return -1\<close>
  "user_page fault pt va0 s = do {
     pa0 \<leftarrow> walkaddr pt va0 s;
     (if pa0 = 0
      then do {
        (suppg, s) \<leftarrow> fault (curp s) va0 s;
        (if suppg < 0 then Some (None, s)
         else do {
           pa0 \<leftarrow> walkaddr pt (if suppg \<noteq> 0 then SUPPGROUNDDOWN va0 else va0) s;
           (if pa0 = 0 then None \<comment> \<open>the kernel faults on physical page 0\<close> else Some (Some pa0, s)) }) }
      else Some (Some pa0, s)) }"

partial_function (option) copyin ::
  "'a swapst_scheme fault_handler \<Rightarrow> u64 \<Rightarrow> bytes \<Rightarrow> u64 \<Rightarrow> u64 \<Rightarrow> u64 \<Rightarrow>
    'a swapst_scheme \<Rightarrow> (int \<times> bytes \<times> 'a swapst_scheme) option" where
  \<comment> \<open>the kernel object \<open>obj\<close> is written from \<open>dst\<close> on and returned\<close>
  "copyin fault pt obj dst srcva len s =
     (if len = 0 then Some (0, obj, s)
      else do {
        let va0 = PGROUNDDOWN srcva;
        (pa0, s) \<leftarrow> user_page fault pt va0 s;
        (case pa0 of None \<Rightarrow> Some (-1, obj, s)
         | Some pa0 \<Rightarrow> do {
             let (pgsize, n) = page_part srcva va0 pa0 len;
             let obj = mem_copy dst (mem s) (pa0 + (srcva - va0)) (unat n) obj;
             copyin fault pt obj (dst + n) (va0 + pgsize) (len - n) s }) })"

fun copy_str :: "nat \<Rightarrow> bytes \<Rightarrow> u64 \<Rightarrow> bytes \<Rightarrow> u64 \<Rightarrow> bytes \<times> bool" where
  \<comment> \<open>the inner loop of \<open>copyinstr\<close>, at most \<open>n\<close> bytes; the flag is \<open>got_null\<close>\<close>
  "copy_str 0 m p obj dst = (obj, False)"
| "copy_str (Suc n) m p obj dst =
     (if m p = 0 then (obj(dst := 0), True) else copy_str n m (p + 1) (obj(dst := m p)) (dst + 1))"

partial_function (option) copyinstr ::
  "'a swapst_scheme fault_handler \<Rightarrow> u64 \<Rightarrow> bytes \<Rightarrow> u64 \<Rightarrow> u64 \<Rightarrow> u64 \<Rightarrow>
    'a swapst_scheme \<Rightarrow> (int \<times> bytes \<times> 'a swapst_scheme) option" where
  "copyinstr fault pt obj dst srcva max_n s =
     (if max_n = 0 then Some (-1, obj, s)
      else do {
        let va0 = PGROUNDDOWN srcva;
        (pa0, s) \<leftarrow> user_page fault pt va0 s;
        (case pa0 of None \<Rightarrow> Some (-1, obj, s)
         | Some pa0 \<Rightarrow> do {
             let (pgsize, n) = page_part srcva va0 pa0 max_n;
             let (obj, got_null) = copy_str (unat n) (mem s) (pa0 + (srcva - va0)) obj dst;
             (if got_null then Some (0, obj, s)
              else copyinstr fault pt obj (dst + n) (va0 + pgsize) (max_n - n) s) }) })"

definition either_copyout :: "'a swapst_scheme fault_handler \<Rightarrow> bool \<Rightarrow> u64 \<Rightarrow> bytes \<Rightarrow> u64 \<Rightarrow> u64 \<Rightarrow>
    'a swapst_scheme \<Rightarrow> (int \<times> 'a swapst_scheme) option" where
  "either_copyout fault user_dst dst obj src len s =
     (if user_dst then copyout fault (ppagetable (procs s (curp s))) dst obj src len s
      else Some (0, s\<lparr>mem := mem_copy dst obj src (unat len) (mem s)\<rparr>))"

definition either_copyin :: "'a swapst_scheme fault_handler \<Rightarrow> bytes \<Rightarrow> u64 \<Rightarrow> bool \<Rightarrow> u64 \<Rightarrow> u64 \<Rightarrow>
    'a swapst_scheme \<Rightarrow> (int \<times> bytes \<times> 'a swapst_scheme) option" where
  "either_copyin fault obj dst user_src src len s =
     (if user_src then copyin fault (ppagetable (procs s (curp s))) obj dst src len s
      else Some (0, mem_copy dst (mem s) src (unat len) obj, s))"

end
