(* ===== verification/Fs.thy ===== *)
theory Fs
  imports Log Vm
begin

text \<open>
  The file system of \<open>kernel/fs.c\<close>: the block allocator, inodes, file contents, directories
  and path names, on top of the buffer cache and the log.  An in-memory inode pointer is its
  index in \<open>itable\<close>.  The destination of \<open>readi\<close> (a user address or a kernel object) is
  a \<open>put\<close> routine that stores bytes at an offset from it, the source of \<open>writei\<close> a \<open>get\<close>
  routine; the devices \<open>devsw[]\<close>, a table of C function pointers, is the argument \<open>dv\<close>.
\<close>

section \<open>State\<close>

definition BSIZE :: nat where "BSIZE = 4096"
definition FSMAGIC :: u32 where "FSMAGIC = 0x10203040"
definition TOTBUF :: nat where "TOTBUF = 13"
definition INDIR_LAYERS :: nat where "INDIR_LAYERS = 2"
definition NDIRECT :: nat where "NDIRECT = TOTBUF - INDIR_LAYERS"
definition NINDIRECT :: nat where "NINDIRECT = 1024"
definition MAXFILE :: nat where "MAXFILE = NDIRECT + NINDIRECT + 10 * NINDIRECT"
definition IPB :: nat where "IPB = 64"
definition BPB :: nat where "BPB = BSIZE * 8"
definition DIRSIZ :: nat where "DIRSIZ = 14"
definition NINODE :: nat where "NINODE = 50"
definition ROOTINO :: u32 where "ROOTINO = 1"
definition T_DIR :: u16 where "T_DIR = 1"
definition T_FILE :: u16 where "T_FILE = 2"
definition T_DEVICE :: u16 where "T_DEVICE = 3"
definition T_SYMLINK :: u16 where "T_SYMLINK = 4"

record superblock =
  sb_magic :: u32
  sb_size :: u32
  sb_nblocks :: u32
  sb_ninodes :: u32
  sb_nlog :: u32
  sb_logstart :: u32
  sb_inodestart :: u32
  sb_bmapstart :: u32
  sb_swapstart :: u32

record inode =
  i_dev :: u32
  i_inum :: u32
  i_ref :: int
  i_valid :: bool
  i_type :: u16
  i_major :: u16
  i_minor :: u16
  i_nlink :: u16
  i_size :: u32
  i_addrs :: "nat \<Rightarrow> u32"

record fsst = logst +
  sb :: superblock
  itable :: "nat \<Rightarrow> inode"
  dirent_buf :: bytes   \<comment> \<open>the \<open>struct dirent de\<close> on the kernel stack\<close>

type_synonym 's put = "u64 \<Rightarrow> bytes \<Rightarrow> u64 \<Rightarrow> u64 \<Rightarrow> 's \<Rightarrow> (int \<times> 's) option"
type_synonym 's get = "bytes \<Rightarrow> u64 \<Rightarrow> u64 \<Rightarrow> u64 \<Rightarrow> 's \<Rightarrow> (int \<times> bytes \<times> 's) option"

record 's devops =
  dv_isdir :: "(nat \<Rightarrow> 's \<Rightarrow> bool) option"
  dv_iread :: "(nat \<Rightarrow> 's \<Rightarrow> 's) option"
  dv_read :: "(nat \<Rightarrow> 's put \<Rightarrow> u32 \<Rightarrow> u32 \<Rightarrow> 's \<Rightarrow> (int \<times> 's) option) option"
  dv_write :: "('s get \<Rightarrow> int \<Rightarrow> 's \<Rightarrow> (int \<times> 's) option) option"

definition set_inode :: "nat \<Rightarrow> (inode \<Rightarrow> inode) \<Rightarrow> 'a fsst_scheme \<Rightarrow> 'a fsst_scheme" where
  "set_inode ip f s = s\<lparr>itable := (itable s)(ip := f (itable s ip))\<rparr>"

definition IBLOCK :: "u32 \<Rightarrow> superblock \<Rightarrow> u32" where
  "IBLOCK i b = i div of_nat IPB + sb_inodestart b"

definition BBLOCK :: "u32 \<Rightarrow> superblock \<Rightarrow> u32" where
  "BBLOCK b x = b div of_nat BPB + sb_bmapstart x"

definition dinode_off :: "u32 \<Rightarrow> u64" where
  \<comment> \<open>\<open>(struct dinode*)bp->data + inum%IPB\<close>, 64 bytes each\<close>
  "dinode_off inum = 64 * ucast (inum mod of_nat IPB)"

definition IS_DEV_DIR :: "(nat \<Rightarrow> ('a fsst_scheme) devops) \<Rightarrow> nat \<Rightarrow> 'a fsst_scheme \<Rightarrow> bool" where
  "IS_DEV_DIR dv ip s \<longleftrightarrow> i_type (itable s ip) = T_DEVICE \<and>
     (case dv_isdir (dv (unat (i_major (itable s ip)))) of None \<Rightarrow> False | Some f \<Rightarrow> f ip s)"

section \<open>The super block\<close>

definition readsb :: "u32 \<Rightarrow> 'a fsst_scheme \<Rightarrow> 'a fsst_scheme option" where
  "readsb dev s = do {
     (b, s) \<leftarrow> bread dev 1 s;
     let d = bdata s b;
     let s = s\<lparr>sb := \<lparr>sb_magic = ld32 d 0, sb_size = ld32 d 4, sb_nblocks = ld32 d 8,
               sb_ninodes = ld32 d 12, sb_nlog = ld32 d 16, sb_logstart = ld32 d 20,
               sb_inodestart = ld32 d 24, sb_bmapstart = ld32 d 28, sb_swapstart = ld32 d 32\<rparr>\<rparr>;
     brelse b s }"

definition fsinit :: "u32 \<Rightarrow> 'a fsst_scheme \<Rightarrow> 'a fsst_scheme option" where
  "fsinit dev s = do {
     s \<leftarrow> readsb dev s;
     (if sb_magic (sb s) \<noteq> FSMAGIC then panic ''invalid file system'' else do {
       s \<leftarrow> initlog dev (sint (sb_logstart (sb s))) (sint (sb_nlog (sb s))) s;
       Some (initswap (sb_swapstart (sb s)) s) }) }"

section \<open>Blocks\<close>

definition bzero :: "u32 \<Rightarrow> u32 \<Rightarrow> 'a fsst_scheme \<Rightarrow> 'a fsst_scheme option" where
  "bzero dev bno s = do {
     (b, s) \<leftarrow> bread dev bno s;
     let s = bmod b (mem_set 0 0 BSIZE (bdata s b)) s;
     s \<leftarrow> log_write b s;
     brelse b s }"

definition bit_used :: "bytes \<Rightarrow> nat \<Rightarrow> bool" where
  \<comment> \<open>\<open>(bp->data[bi/8] & m) != 0\<close> with \<open>m = 1 << (bi % 8)\<close>\<close>
  "bit_used d bi \<longleftrightarrow> d (of_nat (bi div 8)) AND push_bit (bi mod 8) 1 \<noteq> 0"

fun find_free_bit :: "nat \<Rightarrow> nat \<Rightarrow> nat \<Rightarrow> nat \<Rightarrow> bytes \<Rightarrow> nat option" where
  \<comment> \<open>\<open>for(bi = 0; bi < BPB && b + bi < sb.size; bi++)\<close> with \<open>k\<close> values of \<open>bi\<close> left\<close>
  "find_free_bit 0 bi b sz d = None"
| "find_free_bit (Suc k) bi b sz d =
     (if \<not> b + bi < sz then None
      else if \<not> bit_used d bi then Some bi else find_free_bit k (Suc bi) b sz d)"

fun balloc_loop :: "nat \<Rightarrow> nat \<Rightarrow> u32 \<Rightarrow> 'a fsst_scheme \<Rightarrow> (u32 \<times> 'a fsst_scheme) option" where
  \<comment> \<open>\<open>for(b = 0; b < sb.size; b += BPB)\<close>, \<open>k\<close> bounds the rounds left\<close>
  "balloc_loop 0 b dev s = Some (0, s)"
| "balloc_loop (Suc k) b dev s =
     (if \<not> b < unat (sb_size (sb s)) then Some (0, s)
      else do {
        (bp, s) \<leftarrow> bread dev (BBLOCK (of_nat b) (sb s)) s;
        (case find_free_bit BPB 0 b (unat (sb_size (sb s))) (bdata s bp) of
           Some bi \<Rightarrow> do {
             let d = bdata s bp;
             let s = bmod bp (d(of_nat (bi div 8) := d (of_nat (bi div 8)) OR push_bit (bi mod 8) 1)) s;
             s \<leftarrow> log_write bp s;
             s \<leftarrow> brelse bp s;
             s \<leftarrow> bzero dev (of_nat (b + bi)) s;
             Some (of_nat (b + bi), s) }
         | None \<Rightarrow> do {
             s \<leftarrow> brelse bp s;
             balloc_loop k (b + BPB) dev s }) })"

definition balloc :: "u32 \<Rightarrow> 'a fsst_scheme \<Rightarrow> (u32 \<times> 'a fsst_scheme) option" where
  "balloc dev s = balloc_loop (unat (sb_size (sb s)) div BPB + 1) 0 dev s"

definition bfree :: "u32 \<Rightarrow> u32 \<Rightarrow> 'a fsst_scheme \<Rightarrow> 'a fsst_scheme option" where
  "bfree dev b s = do {
     (bp, s) \<leftarrow> bread dev (BBLOCK b (sb s)) s;
     let bi = unat (b mod of_nat BPB);
     (if \<not> bit_used (bdata s bp) bi then panic ''freeing free block'' else do {
       let d = bdata s bp;
       let s = bmod bp (d(of_nat (bi div 8) := d (of_nat (bi div 8)) AND NOT (push_bit (bi mod 8) 1))) s;
       s \<leftarrow> log_write bp s;
       brelse bp s }) }"

section \<open>Inodes\<close>

fun iinit_loop :: "nat \<Rightarrow> 'a fsst_scheme \<Rightarrow> 'a fsst_scheme" where
  "iinit_loop 0 s = s"
| "iinit_loop (Suc i) s =
     (let s = iinit_loop i s
      in s\<lparr>lk := (lk s)(SleepSpin (InodeSleep i) := None), sl := (sl s)(InodeSleep i := None)\<rparr>)"

definition iinit :: "'a fsst_scheme \<Rightarrow> 'a fsst_scheme" where
  "iinit s = iinit_loop NINODE (s\<lparr>lk := (lk s)(ItableLock := None)\<rparr>)"

fun iget_scan :: "nat \<Rightarrow> nat \<Rightarrow> nat option \<Rightarrow> u32 \<Rightarrow> u32 \<Rightarrow> (nat \<Rightarrow> inode) \<Rightarrow> nat + nat option" where
  \<comment> \<open>\<open>Inl\<close>: the entry that holds the inode; \<open>Inr\<close>: the first empty slot\<close>
  "iget_scan 0 i emp dev inum t = Inr emp"
| "iget_scan (Suc k) i emp dev inum t =
     (if i_ref (t i) > 0 \<and> i_dev (t i) = dev \<and> i_inum (t i) = inum then Inl i
      else iget_scan k (Suc i) (if emp = None \<and> i_ref (t i) = 0 then Some i else emp) dev inum t)"

definition iget :: "u32 \<Rightarrow> u32 \<Rightarrow> 'a fsst_scheme \<Rightarrow> (nat \<times> 'a fsst_scheme) option" where
  "iget dev inum s = do {
     s \<leftarrow> acquire ItableLock s;
     (case iget_scan NINODE 0 None dev inum (itable s) of
        Inl ip \<Rightarrow> do {
          let s = set_inode ip (\<lambda>i. i\<lparr>i_ref := i_ref i + 1\<rparr>) s;
          s \<leftarrow> release ItableLock s;
          Some (ip, s) }
      | Inr None \<Rightarrow> panic ''iget: no inodes''
      | Inr (Some ip) \<Rightarrow> do {
          let s = set_inode ip (\<lambda>i. i\<lparr>i_dev := dev, i_inum := inum, i_ref := 1, i_valid := False,
                                   i_addrs := (\<lambda>j. if j < TOTBUF then 0 else i_addrs i j)\<rparr>) s;
          s \<leftarrow> release ItableLock s;
          Some (ip, s) }) }"

fun ialloc_loop :: "nat \<Rightarrow> u32 \<Rightarrow> u32 \<Rightarrow> u16 \<Rightarrow> 'a fsst_scheme \<Rightarrow> (nat option \<times> 'a fsst_scheme) option" where
  "ialloc_loop 0 inum dev type s = Some (None, s)"
| "ialloc_loop (Suc k) inum dev type s =
     (if \<not> inum < sb_ninodes (sb s) then Some (None, s)
      else do {
        (bp, s) \<leftarrow> bread dev (IBLOCK inum (sb s)) s;
        let dip = dinode_off inum;
        (if ld16 (bdata s bp) dip = 0
         then do {
           let s = bmod bp (mem_set dip 0 64 (bdata s bp)) s;
           let s = bmod bp (st16 dip type (bdata s bp)) s;
           s \<leftarrow> log_write bp s;
           s \<leftarrow> brelse bp s;
           (ip, s) \<leftarrow> iget dev inum s;
           Some (Some ip, s) }
         else do { s \<leftarrow> brelse bp s; ialloc_loop k (inum + 1) dev type s }) })"

definition ialloc :: "u32 \<Rightarrow> u16 \<Rightarrow> 'a fsst_scheme \<Rightarrow> (nat option \<times> 'a fsst_scheme) option" where
  "ialloc dev type s = ialloc_loop (unat (sb_ninodes (sb s))) 1 dev type s"

fun st_addrs :: "nat \<Rightarrow> u64 \<Rightarrow> (nat \<Rightarrow> u32) \<Rightarrow> bytes \<Rightarrow> bytes" where
  "st_addrs 0 a addrs d = d"
| "st_addrs (Suc k) a addrs d = st32 (a + 4 * of_nat k) (addrs k) (st_addrs k a addrs d)"

definition put_dinode :: "inode \<Rightarrow> u64 \<Rightarrow> bytes \<Rightarrow> bytes" where
  \<comment> \<open>the assignments of \<open>iupdate\<close> to \<open>*dip\<close>\<close>
  "put_dinode i dip d =
     (let d = st16 dip (i_type i) d;
          d = st16 (dip + 2) (i_major i) d;
          d = st16 (dip + 4) (i_minor i) d;
          d = st16 (dip + 6) (i_nlink i) d;
          d = st32 (dip + 8) (i_size i) d
      in st_addrs TOTBUF (dip + 12) (i_addrs i) d)"

definition get_dinode :: "u64 \<Rightarrow> bytes \<Rightarrow> inode \<Rightarrow> inode" where
  \<comment> \<open>the assignments of \<open>ilock\<close> from \<open>*dip\<close>\<close>
  "get_dinode dip d i =
     i\<lparr>i_type := ld16 d dip, i_major := ld16 d (dip + 2), i_minor := ld16 d (dip + 4),
       i_nlink := ld16 d (dip + 6), i_size := ld32 d (dip + 8),
       i_addrs := (\<lambda>j. if j < TOTBUF then ld32 d (dip + 12 + 4 * of_nat j) else i_addrs i j)\<rparr>"

definition iupdate :: "nat \<Rightarrow> 'a fsst_scheme \<Rightarrow> 'a fsst_scheme option" where
  "iupdate ip s = do {
     (bp, s) \<leftarrow> bread (i_dev (itable s ip)) (IBLOCK (i_inum (itable s ip)) (sb s)) s;
     let dip = dinode_off (i_inum (itable s ip));
     let s = bmod bp (put_dinode (itable s ip) dip (bdata s bp)) s;
     s \<leftarrow> log_write bp s;
     brelse bp s }"

definition idup :: "nat \<Rightarrow> 'a fsst_scheme \<Rightarrow> (nat \<times> 'a fsst_scheme) option" where
  "idup ip s = do {
     s \<leftarrow> acquire ItableLock s;
     let s = set_inode ip (\<lambda>i. i\<lparr>i_ref := i_ref i + 1\<rparr>) s;
     s \<leftarrow> release ItableLock s;
     Some (ip, s) }"

definition ilock :: "nat \<Rightarrow> 'a fsst_scheme \<Rightarrow> 'a fsst_scheme option" where
  "ilock ip s =
     (if i_ref (itable s ip) < 1 then panic ''ilock''
      else do {
        s \<leftarrow> acquiresleep (InodeSleep ip) s;
        (if \<not> i_valid (itable s ip)
         then do {
           (bp, s) \<leftarrow> bread (i_dev (itable s ip)) (IBLOCK (i_inum (itable s ip)) (sb s)) s;
           let dip = dinode_off (i_inum (itable s ip));
           let s = set_inode ip (get_dinode dip (bdata s bp)) s;
           s \<leftarrow> brelse bp s;
           let s = set_inode ip (\<lambda>i. i\<lparr>i_valid := True\<rparr>) s;
           (if i_type (itable s ip) = 0 then panic ''ilock: no type'' else Some s) }
         else Some s) })"

definition iunlock :: "nat \<Rightarrow> 'a fsst_scheme \<Rightarrow> 'a fsst_scheme option" where
  "iunlock ip s = do {
     (h, s) \<leftarrow> holdingsleep (InodeSleep ip) s;
     (if \<not> h \<or> i_ref (itable s ip) < 1 then panic ''iunlock''
      else releasesleep (InodeSleep ip) s) }"

end
