(* ===== verification/FsIo.thy ===== *)
theory FsIo
  imports Fs
begin

text \<open>
  Inode contents, the middle part of \<open>kernel/fs.c\<close>: the block map with its indirect layers,
  truncation, reading and writing.
\<close>

section \<open>The block map\<close>

fun bmap_walk :: "nat \<Rightarrow> nat \<Rightarrow> u32 \<Rightarrow> u32 \<Rightarrow> u32 \<Rightarrow> 'a fsst_scheme \<Rightarrow> (u32 \<times> 'a fsst_scheme) option" where
  \<comment> \<open>the loop over \<open>j\<close>, \<open>k\<close> layers left; \<open>addr\<close> may be 0 after a failed \<open>balloc\<close>\<close>
  "bmap_walk ip 0 addr bn prev_base s = Some (addr, s)"
| "bmap_walk ip (Suc k) addr bn prev_base s = do {
     (bp, s) \<leftarrow> bread (i_dev (itable s ip)) addr s;
     let idx = bn div prev_base;
     let addr = ld32 (bdata s bp) (4 * ucast idx);
     (addr, s) \<leftarrow>
       (if addr = 0
        then do {
          (addr, s) \<leftarrow> balloc (i_dev (itable s ip)) s;
          (if addr \<noteq> 0
           then do {
             let s = bmod bp (st32 (4 * ucast idx) addr (bdata s bp)) s;
             s \<leftarrow> log_write bp s;
             Some (addr, s) }
           else Some (addr, s)) }
        else Some (addr, s));
     s \<leftarrow> brelse bp s;
     bmap_walk ip k addr (bn mod prev_base) (prev_base div of_nat NINDIRECT) s }"

fun bmap_layers :: "nat \<Rightarrow> nat \<Rightarrow> nat \<Rightarrow> u32 \<Rightarrow> u32 \<Rightarrow> u32 \<Rightarrow> 'a fsst_scheme \<Rightarrow>
    (u32 \<times> 'a fsst_scheme) option" where
  \<comment> \<open>the loop over \<open>in_layer\<close>, \<open>k\<close> layers left\<close>
  "bmap_layers ip 0 in_layer base bn prev_base s = panic ''bmap: out of range''"
| "bmap_layers ip (Suc k) in_layer base bn prev_base s =
     (if bn < base
      then do {
        let idx = NDIRECT + in_layer;
        let addr = i_addrs (itable s ip) idx;
        (addr, s) \<leftarrow>
          (if addr = 0
           then do {
             (addr, s) \<leftarrow> balloc (i_dev (itable s ip)) s;
             Some (addr, set_inode ip (\<lambda>i. i\<lparr>i_addrs := (i_addrs i)(idx := addr)\<rparr>) s) }
           else Some (addr, s));
        (if addr = 0 then Some (0, s)
         else bmap_walk ip (Suc in_layer) addr bn prev_base s) }
      else bmap_layers ip k (Suc in_layer) (base * of_nat NINDIRECT) (bn - base) base s)"

definition bmap :: "nat \<Rightarrow> u32 \<Rightarrow> 'a fsst_scheme \<Rightarrow> (u32 \<times> 'a fsst_scheme) option" where
  "bmap ip bn s =
     (if bn < of_nat NDIRECT
      then let addr = i_addrs (itable s ip) (unat bn)
           in if addr = 0
              then do {
                (addr, s) \<leftarrow> balloc (i_dev (itable s ip)) s;
                (if addr = 0 then Some (0, s)
                 else Some (addr, set_inode ip (\<lambda>i. i\<lparr>i_addrs := (i_addrs i)(unat bn := addr)\<rparr>) s)) }
              else Some (addr, s)
      else bmap_layers ip INDIR_LAYERS 0 (of_nat NINDIRECT) (bn - of_nat NDIRECT) 1 s)"

section \<open>Truncation\<close>

fun turnc_loop :: "nat \<Rightarrow> nat \<Rightarrow> nat \<Rightarrow> u32 \<Rightarrow> nat \<Rightarrow> 'a fsst_scheme \<Rightarrow> 'a fsst_scheme option"
  and turnc_recur :: "u32 \<Rightarrow> u32 \<Rightarrow> nat \<Rightarrow> 'a fsst_scheme \<Rightarrow> 'a fsst_scheme option" where
  \<comment> \<open>\<open>turnc_recur\<close> gets the value of \<open>*addr\<close>; its last assignment \<open>*addr = 0\<close> is done by
      the caller, in the buffer or the inode that \<open>addr\<close> points into\<close>
  "turnc_loop 0 j bp dev layer s = Some s"
| "turnc_loop (Suc k) j bp dev layer s =
     (let a = ld32 (bdata s bp) (4 * of_nat j)
      in if a = 0 then turnc_loop k (Suc j) bp dev layer s
         else if layer \<noteq> 0
         then do {
           s \<leftarrow> turnc_recur dev a (layer - 1) s;
           turnc_loop k (Suc j) bp dev layer (bmod bp (st32 (4 * of_nat j) 0 (bdata s bp)) s) }
         else do {
           s \<leftarrow> bfree dev a s;
           turnc_loop k (Suc j) bp dev layer s })"
| "turnc_recur dev addr layer s = do {
     (bp, s) \<leftarrow> bread dev addr s;
     s \<leftarrow> turnc_loop NINDIRECT 0 bp dev layer s;
     s \<leftarrow> brelse bp s;
     bfree dev addr s }"

fun itrunc_direct :: "nat \<Rightarrow> nat \<Rightarrow> nat \<Rightarrow> 'a fsst_scheme \<Rightarrow> 'a fsst_scheme option" where
  "itrunc_direct 0 i ip s = Some s"
| "itrunc_direct (Suc k) i ip s =
     (if i_addrs (itable s ip) i \<noteq> 0
      then do {
        s \<leftarrow> bfree (i_dev (itable s ip)) (i_addrs (itable s ip) i) s;
        itrunc_direct k (Suc i) ip (set_inode ip (\<lambda>x. x\<lparr>i_addrs := (i_addrs x)(i := 0)\<rparr>) s) }
      else itrunc_direct k (Suc i) ip s)"

fun itrunc_indirect :: "nat \<Rightarrow> nat \<Rightarrow> nat \<Rightarrow> 'a fsst_scheme \<Rightarrow> 'a fsst_scheme option" where
  "itrunc_indirect 0 in_layer ip s = Some s"
| "itrunc_indirect (Suc k) in_layer ip s =
     (let idx = NDIRECT + in_layer
      in if i_addrs (itable s ip) idx \<noteq> 0
         then do {
           s \<leftarrow> turnc_recur (i_dev (itable s ip)) (i_addrs (itable s ip) idx) in_layer s;
           itrunc_indirect k (Suc in_layer) ip (set_inode ip (\<lambda>x. x\<lparr>i_addrs := (i_addrs x)(idx := 0)\<rparr>) s) }
         else itrunc_indirect k (Suc in_layer) ip s)"

definition itrunc :: "nat \<Rightarrow> 'a fsst_scheme \<Rightarrow> 'a fsst_scheme option" where
  "itrunc ip s = do {
     s \<leftarrow> itrunc_direct NDIRECT 0 ip s;
     s \<leftarrow> itrunc_indirect INDIR_LAYERS 0 ip s;
     iupdate ip (set_inode ip (\<lambda>i. i\<lparr>i_size := 0\<rparr>) s) }"

definition iput :: "nat \<Rightarrow> 'a fsst_scheme \<Rightarrow> 'a fsst_scheme option" where
  "iput ip s = do {
     s \<leftarrow> acquire ItableLock s;
     s \<leftarrow> (if i_ref (itable s ip) = 1 \<and> i_valid (itable s ip) \<and> i_nlink (itable s ip) = 0
           then do {
             s \<leftarrow> acquiresleep (InodeSleep ip) s;
             s \<leftarrow> release ItableLock s;
             s \<leftarrow> itrunc ip s;
             let s = set_inode ip (\<lambda>i. i\<lparr>i_type := 0\<rparr>) s;
             s \<leftarrow> iupdate ip s;
             let s = set_inode ip (\<lambda>i. i\<lparr>i_valid := False\<rparr>) s;
             s \<leftarrow> releasesleep (InodeSleep ip) s;
             acquire ItableLock s }
           else Some s);
     let s = set_inode ip (\<lambda>i. i\<lparr>i_ref := i_ref i - 1\<rparr>) s;
     release ItableLock s }"

definition iunlockput :: "nat \<Rightarrow> 'a fsst_scheme \<Rightarrow> 'a fsst_scheme option" where
  "iunlockput ip s = do { s \<leftarrow> iunlock ip s; iput ip s }"

section \<open>Reading and writing\<close>

record istat =
  st_dev :: u32
  st_ino :: u32
  st_type :: u16
  st_nlink :: u16
  st_dev_dir :: bool
  st_size :: u64

definition stati :: "(nat \<Rightarrow> ('a fsst_scheme) devops) \<Rightarrow> nat \<Rightarrow> 'a fsst_scheme \<Rightarrow> istat" where
  "stati dv ip s =
     \<lparr>st_dev = i_dev (itable s ip), st_ino = i_inum (itable s ip), st_type = i_type (itable s ip),
      st_nlink = i_nlink (itable s ip), st_dev_dir = IS_DEV_DIR dv ip s,
      st_size = ucast (i_size (itable s ip))\<rparr>"

definition chunk :: "u32 \<Rightarrow> u32 \<Rightarrow> u32 \<Rightarrow> u32" where
  \<comment> \<open>\<open>min(n - tot, BSIZE - off%BSIZE)\<close>\<close>
  "chunk n tot off = min (n - tot) (of_nat BSIZE - off mod of_nat BSIZE)"

partial_function (option) readi_loop ::
  "'a fsst_scheme put \<Rightarrow> nat \<Rightarrow> u64 \<Rightarrow> u32 \<Rightarrow> u32 \<Rightarrow> u32 \<Rightarrow> 'a fsst_scheme \<Rightarrow> (u32 \<times> 'a fsst_scheme) option" where
  "readi_loop put ip dst off n tot s =
     (if \<not> tot < n then Some (tot, s)
      else do {
        (addr, s) \<leftarrow> bmap ip (off div of_nat BSIZE) s;
        (if addr = 0 then Some (tot, s)
         else do {
           (bp, s) \<leftarrow> bread (i_dev (itable s ip)) addr s;
           let m = chunk n tot off;
           (r, s) \<leftarrow> put dst (bdata s bp) (ucast (off mod of_nat BSIZE)) (ucast m) s;
           (if r = -1
            then do { s \<leftarrow> brelse bp s; Some (-1, s) }
            else do {
              s \<leftarrow> brelse bp s;
              readi_loop put ip (dst + ucast m) (off + m) n (tot + m) s }) }) })"

definition readi :: "'a fsst_scheme put \<Rightarrow> nat \<Rightarrow> u32 \<Rightarrow> u32 \<Rightarrow> 'a fsst_scheme \<Rightarrow> (int \<times> 'a fsst_scheme) option" where
  "readi put ip off n s =
     (let sz = i_size (itable s ip)
      in if off > sz \<or> off + n < off then Some (0, s)
         else do {
           let n = (if off + n > sz then sz - off else n);
           (tot, s) \<leftarrow> readi_loop put ip 0 off n 0 s;
           Some (sint tot, s) })"

definition readblock :: "nat \<Rightarrow> u32 \<Rightarrow> 'a fsst_scheme \<Rightarrow> (u64 \<times> 'a fsst_scheme) option" where
  "readblock ip off s =
     (if off mod of_nat BSIZE \<noteq> 0 then panic ''readblock''
      else if off \<ge> i_size (itable s ip) then Some (0, s)
      else do {
        (addr, s) \<leftarrow> bmap ip (off div of_nat BSIZE) s;
        (bp, s) \<leftarrow> bread (i_dev (itable s ip)) addr s;
        let s = bpin bp s;
        s \<leftarrow> brelse bp s;
        Some (b_daddr (bufs s bp), s) })"

partial_function (option) writei_loop ::
  "'a fsst_scheme get \<Rightarrow> nat \<Rightarrow> u64 \<Rightarrow> u32 \<Rightarrow> u32 \<Rightarrow> u32 \<Rightarrow> 'a fsst_scheme \<Rightarrow>
    (u32 \<times> u32 \<times> 'a fsst_scheme) option" where
  \<comment> \<open>returns \<open>tot\<close> and \<open>off\<close>\<close>
  "writei_loop get ip src off n tot s =
     (if \<not> tot < n then Some (tot, off, s)
      else do {
        (addr, s) \<leftarrow> bmap ip (off div of_nat BSIZE) s;
        (if addr = 0 then Some (tot, off, s)
         else do {
           (bp, s) \<leftarrow> bread (i_dev (itable s ip)) addr s;
           let m = chunk n tot off;
           (r, d, s) \<leftarrow> get (bdata s bp) (ucast (off mod of_nat BSIZE)) src (ucast m) s;
           let s = bmod bp d s;
           (if r = -1
            then do { s \<leftarrow> brelse bp s; Some (tot, off, s) }
            else do {
              s \<leftarrow> log_write bp s;
              s \<leftarrow> brelse bp s;
              writei_loop get ip (src + ucast m) (off + m) n (tot + m) s }) }) })"

definition writei :: "'a fsst_scheme get \<Rightarrow> nat \<Rightarrow> u32 \<Rightarrow> u32 \<Rightarrow> 'a fsst_scheme \<Rightarrow> (int \<times> 'a fsst_scheme) option" where
  "writei get ip off n s =
     (if off > i_size (itable s ip) \<or> off + n < off then Some (-1, s)
      else if unat (off + n) > MAXFILE * BSIZE then Some (-1, s)
      else do {
        (tot, off, s) \<leftarrow> writei_loop get ip 0 off n 0 s;
        let s = (if off > i_size (itable s ip) then set_inode ip (\<lambda>i. i\<lparr>i_size := off\<rparr>) s else s);
        s \<leftarrow> iupdate ip s;
        Some (sint tot, s) })"

end
