(* ===== verification/FsDir.thy ===== *)
theory FsDir
  imports FsIo
begin

text \<open>
  Directories and path names, the last part of \<open>kernel/fs.c\<close>.  A directory is a file of
  16-byte entries: an inode number and a name of up to 14 bytes.  A path is the list of its
  bytes before the terminating zero; \<open>name\<close>, a C array of 14 bytes, is a byte function.
\<close>

section \<open>Directory entries\<close>

definition put_dirent :: "'a fsst_scheme put" where
  \<comment> \<open>\<open>readi(dp, 0, (uint64)&de, ...)\<close>: copy into the variable \<open>de\<close>\<close>
  "put_dirent dst d src n s = Some (0, s\<lparr>dirent_buf := mem_copy dst d src (unat n) (dirent_buf s)\<rparr>)"

definition get_dirent :: "'a fsst_scheme get" where
  "get_dirent d dst src n s = Some (0, mem_copy dst (dirent_buf s) src (unat n) d, s)"

definition two_objects :: "bytes \<Rightarrow> bytes \<Rightarrow> bytes" where
  \<comment> \<open>one memory with the first object at 0 and the second at 64\<close>
  "two_objects x y = (\<lambda>a. if a < 64 then x a else y (a - 64))"

definition namecmp :: "bytes \<Rightarrow> bytes \<Rightarrow> int" where
  "namecmp x y = strncmp 0 64 (of_nat DIRSIZ) (two_objects x y)"

definition de_inum :: "bytes \<Rightarrow> u16" where "de_inum d = ld16 d 0"
definition de_name :: "bytes \<Rightarrow> bytes" where "de_name d = (\<lambda>a. d (a + 2))"

partial_function (option) dirlookup_loop ::
  "(nat \<Rightarrow> ('a fsst_scheme) devops) \<Rightarrow> bool \<Rightarrow> nat \<Rightarrow> bytes \<Rightarrow> u32 \<Rightarrow> 'a fsst_scheme \<Rightarrow>
    ((nat \<times> u32) option \<times> 'a fsst_scheme) option" where
  "dirlookup_loop dv dev_dir dp name off s =
     (if \<not> (off < i_size (itable s dp) \<or> dev_dir) then Some (None, s)
      else do {
        (r, s) \<leftarrow> (if dev_dir
                  then case dv_read (dv (unat (i_major (itable s dp)))) of
                         None \<Rightarrow> None | Some f \<Rightarrow> f dp put_dirent off 16 s
                  else readi put_dirent dp off 16 s);
        (if r \<noteq> 16 then if dev_dir then Some (None, s) else panic ''dirlookup read''
         else if de_inum (dirent_buf s) = 0 then dirlookup_loop dv dev_dir dp name (off + 16) s
         else if namecmp name (de_name (dirent_buf s)) = 0
         then do {
           (ip, s) \<leftarrow> iget (i_dev (itable s dp)) (ucast (de_inum (dirent_buf s))) s;
           let s = (if \<not> i_valid (itable s ip) \<and> dev_dir
                    then case dv_iread (dv (unat (i_major (itable s dp)))) of None \<Rightarrow> s | Some f \<Rightarrow> f ip s
                    else s);
           Some (Some (ip, off), s) }
         else dirlookup_loop dv dev_dir dp name (off + 16) s) })"

definition dirlookup :: "(nat \<Rightarrow> ('a fsst_scheme) devops) \<Rightarrow> nat \<Rightarrow> bytes \<Rightarrow> 'a fsst_scheme \<Rightarrow>
    ((nat \<times> u32) option \<times> 'a fsst_scheme) option" where
  \<comment> \<open>the inode and the offset of its entry, which the code stores through \<open>poff\<close> if that is
      not null\<close>
  "dirlookup dv dp name s =
     (let dev_dir = IS_DEV_DIR dv dp s
      in if i_type (itable s dp) \<noteq> T_DIR \<and> \<not> dev_dir then panic ''dirlookup not DIR''
         else dirlookup_loop dv dev_dir dp name 0 s)"

partial_function (option) dirlink_scan :: "nat \<Rightarrow> u32 \<Rightarrow> 'a fsst_scheme \<Rightarrow> (u32 \<times> 'a fsst_scheme) option" where
  "dirlink_scan dp off s =
     (if \<not> off < i_size (itable s dp) then Some (off, s)
      else do {
        (r, s) \<leftarrow> readi put_dirent dp off 16 s;
        (if r \<noteq> 16 then panic ''dirlink read''
         else if de_inum (dirent_buf s) = 0 then Some (off, s)
         else dirlink_scan dp (off + 16) s) })"

definition put_name :: "bytes \<Rightarrow> bytes \<Rightarrow> bytes" where
  \<comment> \<open>\<open>strncpy(de.name, name, DIRSIZ)\<close>\<close>
  "put_name de name =
     (\<lambda>a. if 2 \<le> a \<and> a < 16
          then snd (strncpy 0 64 (int DIRSIZ) (two_objects (de_name de) name)) (a - 2)
          else de a)"

definition dirlink :: "(nat \<Rightarrow> ('a fsst_scheme) devops) \<Rightarrow> nat \<Rightarrow> bytes \<Rightarrow> u32 \<Rightarrow> 'a fsst_scheme \<Rightarrow>
    (int \<times> 'a fsst_scheme) option" where
  "dirlink dv dp name inum s =
     (if i_type (itable s dp) = T_DEVICE then Some (-1, s)
      else do {
        (r, s) \<leftarrow> dirlookup dv dp name s;
        (case r of
           Some (ip, _) \<Rightarrow> do { s \<leftarrow> iput ip s; Some (-1, s) }
         | None \<Rightarrow> do {
             (off, s) \<leftarrow> dirlink_scan dp 0 s;
             let s = s\<lparr>dirent_buf := put_name (dirent_buf s) name\<rparr>;
             let s = s\<lparr>dirent_buf := st16 0 (ucast inum) (dirent_buf s)\<rparr>;
             (r, s) \<leftarrow> writei get_dirent dp off 16 s;
             Some (if r \<noteq> 16 then -1 else 0, s) }) })"

section \<open>Paths\<close>

definition SLASH :: u8 where "SLASH = 47"

fun skip_slashes :: "u8 list \<Rightarrow> u8 list" where
  "skip_slashes [] = []"
| "skip_slashes (c # path) = (if c = SLASH then skip_slashes path else c # path)"

fun elem_span :: "u8 list \<Rightarrow> u8 list \<times> u8 list" where
  \<comment> \<open>\<open>while(*path != '/' && *path != 0) path++\<close>: the element and the rest\<close>
  "elem_span [] = ([], [])"
| "elem_span (c # path) =
     (if c = SLASH then ([], c # path) else let (e, r) = elem_span path in (c # e, r))"

fun st_list :: "u64 \<Rightarrow> u8 list \<Rightarrow> bytes \<Rightarrow> bytes" where
  "st_list a [] m = m"
| "st_list a (c # cs) m = (st_list (a + 1) cs m)(a := c)"

definition skipelem :: "u8 list \<Rightarrow> bytes \<Rightarrow> (u8 list \<times> bytes) option" where
  \<comment> \<open>the rest of the path and the new \<open>name\<close>; \<open>None\<close> is the null pointer\<close>
  "skipelem path name =
     (let path = skip_slashes path
      in if path = [] then None
         else let (e, path) = elem_span path;
                  name = (if length e \<ge> DIRSIZ then st_list 0 (take DIRSIZ e) name
                          else (st_list 0 e name)(of_nat (length e) := 0))
              in Some (skip_slashes path, name))"

partial_function (option) namex_loop ::
  "(nat \<Rightarrow> ('a fsst_scheme) devops) \<Rightarrow> bool \<Rightarrow> nat \<Rightarrow> u8 list \<Rightarrow> bytes \<Rightarrow> 'a fsst_scheme \<Rightarrow>
    (nat option \<times> bytes \<times> 'a fsst_scheme) option" where
  "namex_loop dv nameiparent ip path name s =
     (case skipelem path name of
        None \<Rightarrow> if nameiparent then do { s \<leftarrow> iput ip s; Some (None, name, s) } else Some (Some ip, name, s)
      | Some (path, name) \<Rightarrow> do {
          s \<leftarrow> ilock ip s;
          (if i_type (itable s ip) \<noteq> T_DIR \<and> \<not> IS_DEV_DIR dv ip s
           then do { s \<leftarrow> iunlockput ip s; Some (None, name, s) }
           else if nameiparent \<and> path = []
           then do { s \<leftarrow> iunlock ip s; Some (Some ip, name, s) }
           else do {
             (r, s) \<leftarrow> dirlookup dv ip name s;
             (case r of
                None \<Rightarrow> do { s \<leftarrow> iunlockput ip s; Some (None, name, s) }
              | Some (next_ip, _) \<Rightarrow> do {
                  s \<leftarrow> iunlockput ip s;
                  namex_loop dv nameiparent next_ip path name s }) }) })"

definition namex :: "(nat \<Rightarrow> ('a fsst_scheme) devops) \<Rightarrow> u8 list \<Rightarrow> bool \<Rightarrow> bytes \<Rightarrow> 'a fsst_scheme \<Rightarrow>
    (nat option \<times> bytes \<times> 'a fsst_scheme) option" where
  "namex dv path nameiparent name s = do {
     (ip, s) \<leftarrow>
       (case path of
          c # _ \<Rightarrow> if c = SLASH then iget ROOTDEV ROOTINO s
                   else Option.bind (pcwd (procs s (curp s))) (\<lambda>ip. idup ip s)
        | [] \<Rightarrow> Option.bind (pcwd (procs s (curp s))) (\<lambda>ip. idup ip s));
     namex_loop dv nameiparent ip path name s }"

definition namei :: "(nat \<Rightarrow> ('a fsst_scheme) devops) \<Rightarrow> u8 list \<Rightarrow> 'a fsst_scheme \<Rightarrow>
    (nat option \<times> 'a fsst_scheme) option" where
  \<comment> \<open>\<open>name\<close> is a local array whose final contents nobody sees\<close>
  "namei dv path s = do { (ip, name, s) \<leftarrow> namex dv path False (\<lambda>_. 0) s; Some (ip, s) }"

definition nameiparent :: "(nat \<Rightarrow> ('a fsst_scheme) devops) \<Rightarrow> u8 list \<Rightarrow> bytes \<Rightarrow> 'a fsst_scheme \<Rightarrow>
    (nat option \<times> bytes \<times> 'a fsst_scheme) option" where
  "nameiparent dv path name s = namex dv path True name s"

end
