(* ===== verification/Proc.thy ===== *)
theory Proc
  imports KProc
begin

text \<open>
  Processes: the parts of \<open>kernel/proc.c\<close> that work on the process table alone (process ids,
  sleeping and waking, killing, signals sent to processes and process groups), and
  \<open>kernel/signal.c\<close>.  The loops over \<open>proc[NPROC]\<close> take each \<open>p->lock\<close> in turn.
  \<open>swtch\<close>, the context switch, is the argument \<open>world\<close>: what the rest of the machine does
  until the scheduler runs this process again.
\<close>

section \<open>Process ids and the table\<close>

definition SIG_DFL :: u64 where "SIG_DFL = 0"
definition SIG_IGN :: u64 where "SIG_IGN = 1"
definition SIG_KILL :: u64 where "SIG_KILL = 2"
definition SIGINT :: nat where "SIGINT = 0"
definition SIGALARM :: nat where "SIGALARM = 1"
definition SIGKILL :: nat where "SIGKILL = 2"
definition FG :: int where "FG = 0"

definition KSTACK :: "nat \<Rightarrow> u64" where
  "KSTACK p = TRAMPOLINE - of_nat (p + 1) * 2 * of_nat PGSIZE - of_nat PGSIZE"

fun procinit_loop :: "nat \<Rightarrow> 'a kproc_scheme \<Rightarrow> 'a kproc_scheme" where
  "procinit_loop 0 s = s"
| "procinit_loop (Suc p) s =
     (let s = procinit_loop p s;
          s = s\<lparr>lk := (lk s)(ProcLock p := None)\<rparr>
      in set_proc p (\<lambda>x. x\<lparr>pstate := UNUSED, pkstack := KSTACK p\<rparr>) s)"

definition procinit :: "'a kproc_scheme \<Rightarrow> 'a kproc_scheme" where
  "procinit s = procinit_loop NPROC (s\<lparr>lk := (lk s)(PidLock := None, WaitLock := None)\<rparr>)"

definition myproc :: "'a kproc_scheme \<Rightarrow> (nat \<times> 'a kproc_scheme) option" where
  "myproc s = do {
     let s = push_off s;
     let p = curp s;
     s \<leftarrow> pop_off s;
     Some (p, s) }"

definition allocpid :: "'a kproc_scheme \<Rightarrow> (int \<times> 'a kproc_scheme) option" where
  "allocpid s = do {
     s \<leftarrow> acquire PidLock s;
     let pid = nextpid s;
     let s = s\<lparr>nextpid := nextpid s + 1\<rparr>;
     s \<leftarrow> release PidLock s;
     Some (pid, s) }"

section \<open>Sleeping and waking\<close>

text \<open>
  The statements of \<open>sleep\<close> and of the body of \<open>wakeup\<close> are lists: here they run one after the
  other, in \<open>SleepWake\<close> with those of other processes in between.
\<close>

fun run_all :: "('s \<Rightarrow> 's option) list \<Rightarrow> 's \<Rightarrow> 's option" where
  "run_all [] s = Some s"
| "run_all (f # fs) s = do { s \<leftarrow> f s; run_all fs s }"

definition wakeup_one :: "nat \<Rightarrow> chan \<Rightarrow> ('a kproc_scheme \<Rightarrow> 'a kproc_scheme option) list" where
  "wakeup_one p ch =
     [acquire (ProcLock p),
      (\<lambda>s. Some (if pstate (procs s p) = SLEEPING \<and> pchan (procs s p) = ch
                 then set_proc p (\<lambda>x. x\<lparr>pstate := RUNNABLE\<rparr>) s else s)),
      release (ProcLock p)]"

fun wakeup_loop :: "nat \<Rightarrow> nat \<Rightarrow> chan \<Rightarrow> 'a kproc_scheme \<Rightarrow> 'a kproc_scheme option" where
  "wakeup_loop 0 p ch s = Some s"
| "wakeup_loop (Suc k) p ch s = do {
     (me, s) \<leftarrow> myproc s;
     s \<leftarrow> (if p \<noteq> me then run_all (wakeup_one p ch) s else Some s);
     wakeup_loop k (Suc p) ch s }"

definition wakeup :: "chan \<Rightarrow> 'a kproc_scheme \<Rightarrow> 'a kproc_scheme option" where
  "wakeup ch s = wakeup_loop NPROC 0 ch s"

fun kill_loop :: "nat \<Rightarrow> nat \<Rightarrow> int \<Rightarrow> 'a kproc_scheme \<Rightarrow> (int \<times> 'a kproc_scheme) option" where
  "kill_loop 0 p pid s = Some (-1, s)"
| "kill_loop (Suc k) p pid s = do {
     s \<leftarrow> acquire (ProcLock p) s;
     (if ppid (procs s p) = pid
      then do {
        let s = set_proc p (\<lambda>x. x\<lparr>pkilled := 1\<rparr>) s;
        let s = (if pstate (procs s p) = SLEEPING
                 then set_proc p (\<lambda>x. x\<lparr>pstate := RUNNABLE\<rparr>) s else s);
        s \<leftarrow> release (ProcLock p) s;
        Some (0, s) }
      else do {
        s \<leftarrow> release (ProcLock p) s;
        kill_loop k (Suc p) pid s }) }"

definition kill :: "int \<Rightarrow> 'a kproc_scheme \<Rightarrow> (int \<times> 'a kproc_scheme) option" where
  "kill pid s = kill_loop NPROC 0 pid s"

definition setkilled :: "nat \<Rightarrow> 'a kproc_scheme \<Rightarrow> 'a kproc_scheme option" where
  "setkilled p s = do {
     s \<leftarrow> acquire (ProcLock p) s;
     release (ProcLock p) (set_proc p (\<lambda>x. x\<lparr>pkilled := 1\<rparr>) s) }"

definition killed :: "nat \<Rightarrow> 'a kproc_scheme \<Rightarrow> (int \<times> 'a kproc_scheme) option" where
  "killed p s = do {
     s \<leftarrow> acquire (ProcLock p) s;
     let k = pkilled (procs s p);
     s \<leftarrow> release (ProcLock p) s;
     Some (k, s) }"

section \<open>Signals\<close>

definition sigbit :: "nat \<Rightarrow> u32" where "sigbit sig = push_bit sig 1"

definition copy_trapframe :: "u64 \<Rightarrow> u64 \<Rightarrow> 'a kproc_scheme \<Rightarrow> 'a kproc_scheme" where
  \<comment> \<open>\<open>*dst = *src\<close> for two trapframes: \<open>tshared\<close> is a member\<close>
  "copy_trapframe dst src s =
     s\<lparr>trapframes := (trapframes s)(dst := trapframes s src),
       tshareds := (tshareds s)(dst := tshareds s src)\<rparr>"

definition default_handler :: "nat \<Rightarrow> nat \<Rightarrow> 'a kproc_scheme \<Rightarrow> 'a kproc_scheme option" where
  "default_handler signum p s =
     (if signum = SIGINT then setkilled p s
      else if signum = SIGALARM then Some s
      else setkilled p s)"

fun signal_loop :: "nat \<Rightarrow> nat \<Rightarrow> nat \<Rightarrow> 'a kproc_scheme \<Rightarrow> 'a kproc_scheme option" where
  "signal_loop 0 sig p s = Some s"
| "signal_loop (Suc k) sig p s =
     (if ppending (procs s p) AND sigbit sig = 0 \<or> sigbit sig AND psa_mask (procs s p) \<noteq> 0
      then signal_loop k (Suc sig) p s
      else let s = set_proc p (\<lambda>x. x\<lparr>ppending := ppending x AND NOT (sigbit sig)\<rparr>) s;
               h = psa_handler (procs s p) sig
           in if h = SIG_DFL then default_handler sig p s
              else if h = SIG_IGN then signal_loop k (Suc sig) p s
              else if h = SIG_KILL then setkilled p s
              else let s = set_proc p (\<lambda>x. x\<lparr>ptmp_sa_mask := psa_mask x\<rparr>) s;
                       s = set_proc p (\<lambda>x. x\<lparr>psa_mask := psa_mask x OR sigbit sig\<rparr>) s;
                       s = copy_trapframe (psa_trapframe (procs s p)) (ptrapframe (procs s p)) s;
                       tf = ptrapframe (procs s p)
                   in Some (s\<lparr>trapframes := (trapframes s)(tf := (trapframes s tf)\<lparr>tf_epc := h\<rparr>)\<rparr>))"

definition signal_handle :: "nat \<Rightarrow> 'a kproc_scheme \<Rightarrow> 'a kproc_scheme option" where
  "signal_handle p s = (if pisthread (procs s p) then Some s else signal_loop NUMSIG 0 p s)"

definition signal_handler_clear :: "nat \<Rightarrow> 'a kproc_scheme \<Rightarrow> 'a kproc_scheme" where
  \<comment> \<open>the test \<open>!= SIG_DFL || != SIG_IGN\<close> holds of every handler\<close>
  "signal_handler_clear p s =
     set_proc p (\<lambda>x. x\<lparr>psa_handler := (\<lambda>i. if i < NUMSIG \<and> (psa_handler x i \<noteq> SIG_DFL \<or> psa_handler x i \<noteq> SIG_IGN)
                                           then SIG_DFL else psa_handler x i)\<rparr>) s"

definition alive :: "proc \<Rightarrow> bool" where
  "alive p \<longleftrightarrow> pstate p = RUNNING \<or> pstate p = RUNNABLE \<or> pstate p = SLEEPING"

definition fgbit :: "nat \<Rightarrow> u64" where
  \<comment> \<open>\<open>1 << i\<close> is an \<open>int\<close>: for \<open>i = 31\<close> it is negative and is sign-extended when it meets the
      64-bit mask; the hardware shifts by \<open>i mod 32\<close>\<close>
  "fgbit i = signed (push_bit (i mod 32) 1 :: u32)"

fun setfg_loop :: "nat \<Rightarrow> nat \<Rightarrow> nat \<Rightarrow> 'a kproc_scheme \<Rightarrow> 'a kproc_scheme option" where
  "setfg_loop 0 i sh s = Some s"
| "setfg_loop (Suc k) i sh s = do {
     s \<leftarrow> (if pparent (procs s i) = Some sh \<and> \<not> pisthread (procs s i)
           then do {
             s \<leftarrow> acquire (ProcLock i) s;
             let s = (if alive (procs s i) then s\<lparr>fgproc_mask := fgproc_mask s OR fgbit i\<rparr> else s);
             release (ProcLock i) s }
           else Some s);
     setfg_loop k (Suc i) sh s }"

definition setfg :: "nat \<Rightarrow> 'a kproc_scheme \<Rightarrow> 'a kproc_scheme option" where
  "setfg sh s = setfg_loop NPROC 0 sh s"

fun sendsignal_loop :: "nat \<Rightarrow> nat \<Rightarrow> int \<Rightarrow> nat \<Rightarrow> int \<Rightarrow> 'a kproc_scheme \<Rightarrow>
    (int \<times> bool \<times> 'a kproc_scheme) option" where
  \<comment> \<open>the flag tells a \<open>return 0\<close> from inside the loop\<close>
  "sendsignal_loop 0 i ret sig pid s = Some (ret, False, s)"
| "sendsignal_loop (Suc k) i ret sig pid s =
     (if pisthread (procs s i) then sendsignal_loop k (Suc i) ret sig pid s
      else do {
        s \<leftarrow> acquire (ProcLock i) s;
        (if alive (procs s i) \<and> pid = ppid (procs s i)
         then do {
           let s = set_proc i (\<lambda>x. x\<lparr>ppending := ppending x OR sigbit sig\<rparr>) s;
           s \<leftarrow> release (ProcLock i) s;
           Some (0, True, s) }
         else do {
           let (ret, s) =
             (if alive (procs s i) \<and> pid = FG \<and> fgbit i AND fgproc_mask s \<noteq> 0
              then let s = set_proc i (\<lambda>x. x\<lparr>ppending := ppending x OR sigbit sig\<rparr>) s
                   in (0, if pstate (procs s i) = SLEEPING
                          then set_proc i (\<lambda>x. x\<lparr>pstate := RUNNABLE\<rparr>) s else s)
              else (ret, s));
           s \<leftarrow> release (ProcLock i) s;
           sendsignal_loop k (Suc i) ret sig pid s }) })"

definition sendsignal :: "nat \<Rightarrow> int \<Rightarrow> 'a kproc_scheme \<Rightarrow> (int \<times> 'a kproc_scheme) option" where
  "sendsignal sig pid s = do {
     (ret, returned, s) \<leftarrow> sendsignal_loop NPROC 0 (-1) sig pid s;
     (if returned then Some (ret, s)
      else if ret < 0 \<and> pid = FG
      then (case shproc s of None \<Rightarrow> None \<comment> \<open>null dereference\<close>
            | Some sh \<Rightarrow> do {
                s \<leftarrow> acquire (ProcLock sh) s;
                let s = set_proc sh (\<lambda>x. x\<lparr>ppending := ppending x OR sigbit sig\<rparr>) s;
                let s = (if pstate (procs s sh) = SLEEPING
                         then set_proc sh (\<lambda>x. x\<lparr>pstate := RUNNABLE\<rparr>) s else s);
                s \<leftarrow> release (ProcLock sh) s;
                Some (ret, s) })
      else Some (ret, s)) }"

section \<open>The context switch\<close>

definition sched :: "('a kproc_scheme \<Rightarrow> 'a kproc_scheme option) \<Rightarrow> 'a kproc_scheme \<Rightarrow> 'a kproc_scheme option" where
  \<comment> \<open>a CPU that holds a lock has interrupts off, which is the last check of the code\<close>
  "sched world s =
     (if \<not> holding (ProcLock (curp s)) s then panic ''sched p->lock''
      else if noff s \<noteq> 1 then panic ''sched locks''
      else if pstate (procs s (curp s)) = RUNNING then panic ''sched running''
      else world s)"

definition yield :: "('a kproc_scheme \<Rightarrow> 'a kproc_scheme option) \<Rightarrow> 'a kproc_scheme \<Rightarrow> 'a kproc_scheme option" where
  "yield world s = do {
     let p = curp s;
     s \<leftarrow> acquire (ProcLock p) s;
     let s = set_proc p (\<lambda>x. x\<lparr>pstate := RUNNABLE\<rparr>) s;
     s \<leftarrow> sched world s;
     release (ProcLock p) s }"

definition sleep_prep :: "nat \<Rightarrow> chan \<Rightarrow> lockid \<Rightarrow> ('a kproc_scheme \<Rightarrow> 'a kproc_scheme option) list" where
  "sleep_prep p ch l =
     [acquire (ProcLock p),
      release l,
      (\<lambda>s. Some (set_proc p (\<lambda>x. x\<lparr>pchan := ch\<rparr>) s)),
      (\<lambda>s. Some (set_proc p (\<lambda>x. x\<lparr>pstate := SLEEPING\<rparr>) s))]"

definition sleep_tail :: "nat \<Rightarrow> lockid \<Rightarrow> ('a kproc_scheme \<Rightarrow> 'a kproc_scheme option) list" where
  "sleep_tail p l =
     [(\<lambda>s. Some (set_proc p (\<lambda>x. x\<lparr>pchan := NoChan\<rparr>) s)),
      release (ProcLock p),
      acquire l,
      signal_handle p]"

definition sleep :: "('a kproc_scheme \<Rightarrow> 'a kproc_scheme option) \<Rightarrow> chan \<Rightarrow> lockid \<Rightarrow>
    'a kproc_scheme \<Rightarrow> 'a kproc_scheme option" where
  "sleep world ch l s = do {
     let p = curp s;
     s \<leftarrow> run_all (sleep_prep p ch l) s;
     s \<leftarrow> sched world s;
     run_all (sleep_tail p l) s }"

section \<open>Parents and children\<close>

fun reparent_loop :: "nat \<Rightarrow> nat \<Rightarrow> nat \<Rightarrow> 'a kproc_scheme \<Rightarrow> 'a kproc_scheme option" where
  "reparent_loop 0 pp p s = Some s"
| "reparent_loop (Suc k) pp p s =
     (if pparent (procs s pp) = Some p \<and> \<not> pisthread (procs s pp)
      then do {
        let s = set_proc pp (\<lambda>x. x\<lparr>pparent := initproc s\<rparr>) s;
        s \<leftarrow> (case initproc s of None \<Rightarrow> wakeup NoChan s | Some i \<Rightarrow> wakeup (OnProc i) s);
        reparent_loop k (Suc pp) p s }
      else reparent_loop k (Suc pp) p s)"

definition reparent :: "nat \<Rightarrow> 'a kproc_scheme \<Rightarrow> 'a kproc_scheme option" where
  "reparent p s = reparent_loop NPROC 0 p s"

section \<open>Looking processes up\<close>

fun proc_number_loop :: "nat \<Rightarrow> 'a kproc_scheme \<Rightarrow> int" where
  "proc_number_loop 0 s = 0"
| "proc_number_loop (Suc p) s =
     proc_number_loop p s + (if pstate (procs s p) = UNUSED then 0 else 1)"

definition proc_number :: "'a kproc_scheme \<Rightarrow> int" where
  "proc_number s = proc_number_loop NPROC s"

fun by_pid_loop :: "nat \<Rightarrow> nat \<Rightarrow> int \<Rightarrow> 'a kproc_scheme \<Rightarrow> (nat option \<times> 'a kproc_scheme) option" where
  "by_pid_loop 0 p pid s = Some (None, s)"
| "by_pid_loop (Suc k) p pid s = do {
     s \<leftarrow> acquire (ProcLock p) s;
     let hit = (pstate (procs s p) \<noteq> UNUSED \<and> pstate (procs s p) \<noteq> USED \<and> ppid (procs s p) = pid);
     s \<leftarrow> release (ProcLock p) s;
     (if hit then Some (Some p, s) else by_pid_loop k (Suc p) pid s) }"

definition get_proc_by_pid :: "int \<Rightarrow> 'a kproc_scheme \<Rightarrow> (nat option \<times> 'a kproc_scheme) option" where
  "get_proc_by_pid pid s = by_pid_loop NPROC 0 pid s"

fun by_idx_loop :: "nat \<Rightarrow> nat \<Rightarrow> int \<Rightarrow> nat \<Rightarrow> 'a kproc_scheme \<Rightarrow> (nat option \<times> 'a kproc_scheme) option" where
  "by_idx_loop 0 p idx me s = Some (None, s)"
| "by_idx_loop (Suc k) p idx me s = do {
     s \<leftarrow> acquire (ProcLock p) s;
     let shown = (pstate (procs s p) \<noteq> UNUSED \<and> pstate (procs s p) \<noteq> USED \<and>
                  (Some me = shproc s \<or> ppid (procs s p) \<noteq> ppid (procs s me)));
     s \<leftarrow> release (ProcLock p) s;
     (if shown \<and> idx = 0 then Some (Some p, s)
      else by_idx_loop k (Suc p) (if shown then idx - 1 else idx) me s) }"

definition get_proc_by_idx :: "int \<Rightarrow> 'a kproc_scheme \<Rightarrow> (nat option \<times> 'a kproc_scheme) option" where
  "get_proc_by_idx idx s = (if idx < 0 then Some (None, s) else by_idx_loop NPROC 0 idx (curp s) s)"

end
