(* ===== verification/File.thy ===== *)
theory File
  imports FsDir Proc
begin

text \<open>
  Open files and pipes: \<open>kernel/file.c\<close> and \<open>kernel/pipe.c\<close>.  A \<open>struct file\<close> pointer is
  its index in the file table; a \<open>struct pipe\<close> is a page, named by its address.  The sockets
  of \<open>kernel/sysnet.c\<close> enter as the argument \<open>so\<close>, the devices as \<open>dv\<close>, the page fault
  handler as \<open>fault\<close>, and what other processes do while this one sleeps as \<open>world\<close>.
\<close>

section \<open>State\<close>

definition PIPESIZE :: nat where "PIPESIZE = 512"
definition NFILE :: nat where "NFILE = 100"
definition NDEV :: nat where "NDEV = 10"

record pipe =
  pi_data :: "nat \<Rightarrow> u8"
  pi_nread :: u32
  pi_nwrite :: u32
  pi_readopen :: bool
  pi_writeopen :: bool

datatype ftype = FD_NONE | FD_PIPE | FD_INODE | FD_DEVICE | FD_SOCK

record ofilerec =
  f_type :: ftype
  f_ref :: int
  f_readable :: bool
  f_writable :: bool
  f_pipe :: u64
  f_ip :: nat
  f_sock :: u64
  f_off :: u32
  f_major :: u16

record kfile = fsst +
  ftable :: "nat \<Rightarrow> ofilerec"
  pipes :: "u64 \<Rightarrow> pipe"

record 's sockops =
  so_close :: "u64 \<Rightarrow> 's \<Rightarrow> 's option"
  so_read :: "u64 \<Rightarrow> u64 \<Rightarrow> int \<Rightarrow> 's \<Rightarrow> (int \<times> 's) option"
  so_write :: "u64 \<Rightarrow> u64 \<Rightarrow> int \<Rightarrow> 's \<Rightarrow> (int \<times> 's) option"

definition set_file :: "nat \<Rightarrow> (ofilerec \<Rightarrow> ofilerec) \<Rightarrow> 'a kfile_scheme \<Rightarrow> 'a kfile_scheme" where
  "set_file f g s = s\<lparr>ftable := (ftable s)(f := g (ftable s f))\<rparr>"

definition set_pipe :: "u64 \<Rightarrow> (pipe \<Rightarrow> pipe) \<Rightarrow> 'a kfile_scheme \<Rightarrow> 'a kfile_scheme" where
  "set_pipe pi g s = s\<lparr>pipes := (pipes s)(pi := g (pipes s pi))\<rparr>"

definition pilock :: "u64 \<Rightarrow> lockid" where "pilock pi = PipeLock (unat pi)"
definition nread_chan :: "u64 \<Rightarrow> chan" where "nread_chan pi = OnPipeRead (unat pi)"
definition nwrite_chan :: "u64 \<Rightarrow> chan" where "nwrite_chan pi = OnPipeWrite (unat pi)"

section \<open>Pipes\<close>

definition pipeclose :: "u64 \<Rightarrow> bool \<Rightarrow> 'a kfile_scheme \<Rightarrow> 'a kfile_scheme option" where
  "pipeclose pi writable s = do {
     s \<leftarrow> acquire (pilock pi) s;
     s \<leftarrow> (if writable
           then wakeup (nread_chan pi) (set_pipe pi (\<lambda>p. p\<lparr>pi_writeopen := False\<rparr>) s)
           else wakeup (nwrite_chan pi) (set_pipe pi (\<lambda>p. p\<lparr>pi_readopen := False\<rparr>) s));
     (if \<not> pi_readopen (pipes s pi) \<and> \<not> pi_writeopen (pipes s pi)
      then do { s \<leftarrow> release (pilock pi) s; kfree pi s }
      else release (pilock pi) s) }"

definition pipe_put :: "u8 \<Rightarrow> pipe \<Rightarrow> pipe" where
  \<comment> \<open>\<open>pi->data[pi->nwrite++ % PIPESIZE] = ch\<close>\<close>
  "pipe_put ch p = p\<lparr>pi_data := (pi_data p)(unat (pi_nwrite p) mod PIPESIZE := ch),
                     pi_nwrite := pi_nwrite p + 1\<rparr>"

definition pipe_get :: "pipe \<Rightarrow> u8 \<times> pipe" where
  \<comment> \<open>\<open>ch = pi->data[pi->nread++ % PIPESIZE]\<close>\<close>
  "pipe_get p = (pi_data p (unat (pi_nread p) mod PIPESIZE), p\<lparr>pi_nread := pi_nread p + 1\<rparr>)"

definition pipe_full :: "pipe \<Rightarrow> bool" where
  "pipe_full p \<longleftrightarrow> pi_nwrite p = pi_nread p + of_nat PIPESIZE"

definition pipe_empty :: "pipe \<Rightarrow> bool" where
  "pipe_empty p \<longleftrightarrow> pi_nread p = pi_nwrite p"

partial_function (option) pipewrite_loop ::
  "('a kfile_scheme \<Rightarrow> 'a kfile_scheme option) \<Rightarrow> 'a kfile_scheme fault_handler \<Rightarrow> nat \<Rightarrow> u64 \<Rightarrow> u64 \<Rightarrow>
    int \<Rightarrow> int \<Rightarrow> 'a kfile_scheme \<Rightarrow> (int option \<times> 'a kfile_scheme) option" where
  \<comment> \<open>\<open>None\<close> in the result is the early \<open>return -1\<close>, else the \<open>i\<close> the loop ended at\<close>
  "pipewrite_loop world fault pr pi addr i n s =
     (if \<not> i < n then Some (Some i, s)
      else do {
        (k, s) \<leftarrow> (if \<not> pi_readopen (pipes s pi) then Some (1, s) else killed pr s);
        (if k \<noteq> 0 then do { s \<leftarrow> release (pilock pi) s; Some (None, s) }
         else if pipe_full (pipes s pi)
         then do {
           s \<leftarrow> wakeup (nread_chan pi) s;
           s \<leftarrow> sleep world (nwrite_chan pi) (pilock pi) s;
           pipewrite_loop world fault pr pi addr i n s }
         else do {
           s \<leftarrow> release (pilock pi) s;
           (r, d, s) \<leftarrow> copyin fault (ppagetable (procs s pr)) (\<lambda>_. 0) 0 (addr + of_int i) 1 s;
           s \<leftarrow> acquire (pilock pi) s;
           (if r = -1 then Some (Some i, s)
            else pipewrite_loop world fault pr pi addr (i + 1) n (set_pipe pi (pipe_put (d 0)) s)) }) })"

definition pipewrite :: "('a kfile_scheme \<Rightarrow> 'a kfile_scheme option) \<Rightarrow> 'a kfile_scheme fault_handler \<Rightarrow>
    u64 \<Rightarrow> u64 \<Rightarrow> int \<Rightarrow> 'a kfile_scheme \<Rightarrow> (int \<times> 'a kfile_scheme) option" where
  "pipewrite world fault pi addr n s = do {
     (pr, s) \<leftarrow> myproc s;
     s \<leftarrow> acquire (pilock pi) s;
     (i, s) \<leftarrow> pipewrite_loop world fault pr pi addr 0 n s;
     (case i of None \<Rightarrow> Some (-1, s)
      | Some i \<Rightarrow> do {
          s \<leftarrow> wakeup (nread_chan pi) s;
          s \<leftarrow> release (pilock pi) s;
          Some (i, s) }) }"

partial_function (option) piperead_wait ::
  "('a kfile_scheme \<Rightarrow> 'a kfile_scheme option) \<Rightarrow> nat \<Rightarrow> u64 \<Rightarrow> 'a kfile_scheme \<Rightarrow> (bool \<times> 'a kfile_scheme) option" where
  \<comment> \<open>the flag is the early \<open>return -1\<close>\<close>
  "piperead_wait world pr pi s =
     (if pipe_empty (pipes s pi) \<and> pi_writeopen (pipes s pi)
      then do {
        (k, s) \<leftarrow> killed pr s;
        (if k \<noteq> 0 then do { s \<leftarrow> release (pilock pi) s; Some (True, s) }
         else do {
           s \<leftarrow> sleep world (nread_chan pi) (pilock pi) s;
           piperead_wait world pr pi s }) }
      else Some (False, s))"

fun piperead_copy :: "'a kfile_scheme fault_handler \<Rightarrow> nat \<Rightarrow> u64 \<Rightarrow> u64 \<Rightarrow> nat \<Rightarrow> int \<Rightarrow> 'a kfile_scheme \<Rightarrow>
    (int \<times> 'a kfile_scheme) option" where
  \<comment> \<open>\<open>for(i = 0; i < n; i++)\<close> with \<open>k\<close> rounds left\<close>
  "piperead_copy fault pr pi addr 0 i s = Some (i, s)"
| "piperead_copy fault pr pi addr (Suc k) i s =
     (if pipe_empty (pipes s pi) then Some (i, s)
      else do {
        let (ch, p) = pipe_get (pipes s pi);
        let s = set_pipe pi (\<lambda>_. p) s;
        s \<leftarrow> release (pilock pi) s;
        (r, s) \<leftarrow> copyout fault (ppagetable (procs s pr)) (addr + of_int i) (\<lambda>_. ch) 0 1 s;
        s \<leftarrow> acquire (pilock pi) s;
        (if r = -1 then Some (i, s) else piperead_copy fault pr pi addr k (i + 1) s) })"

definition piperead :: "('a kfile_scheme \<Rightarrow> 'a kfile_scheme option) \<Rightarrow> 'a kfile_scheme fault_handler \<Rightarrow>
    u64 \<Rightarrow> u64 \<Rightarrow> int \<Rightarrow> 'a kfile_scheme \<Rightarrow> (int \<times> 'a kfile_scheme) option" where
  "piperead world fault pi addr n s = do {
     (pr, s) \<leftarrow> myproc s;
     s \<leftarrow> acquire (pilock pi) s;
     (stop, s) \<leftarrow> piperead_wait world pr pi s;
     (if stop then Some (-1, s) else do {
       (i, s) \<leftarrow> piperead_copy fault pr pi addr (nat n) 0 s;
       s \<leftarrow> wakeup (nwrite_chan pi) s;
       s \<leftarrow> release (pilock pi) s;
       Some (i, s) }) }"

section \<open>The file table\<close>

definition fileinit :: "'a kfile_scheme \<Rightarrow> 'a kfile_scheme" where
  "fileinit s = s\<lparr>lk := (lk s)(FtableLock := None)\<rparr>"

fun find_file :: "nat \<Rightarrow> nat \<Rightarrow> (nat \<Rightarrow> ofilerec) \<Rightarrow> nat option" where
  "find_file 0 f t = None"
| "find_file (Suc k) f t = (if f_ref (t f) = 0 then Some f else find_file k (Suc f) t)"

definition filealloc :: "'a kfile_scheme \<Rightarrow> (nat option \<times> 'a kfile_scheme) option" where
  "filealloc s = do {
     s \<leftarrow> acquire FtableLock s;
     (case find_file NFILE 0 (ftable s) of
        Some f \<Rightarrow> do {
          let s = set_file f (\<lambda>x. x\<lparr>f_ref := 1\<rparr>) s;
          s \<leftarrow> release FtableLock s;
          Some (Some f, s) }
      | None \<Rightarrow> do {
          s \<leftarrow> release FtableLock s;
          Some (None, s) }) }"

definition filedup :: "nat \<Rightarrow> 'a kfile_scheme \<Rightarrow> (nat \<times> 'a kfile_scheme) option" where
  "filedup f s = do {
     s \<leftarrow> acquire FtableLock s;
     (if f_ref (ftable s f) < 1 then panic ''filedup'' else do {
       let s = set_file f (\<lambda>x. x\<lparr>f_ref := f_ref x + 1\<rparr>) s;
       s \<leftarrow> release FtableLock s;
       Some (f, s) }) }"

definition fileclose :: "('a kfile_scheme) sockops \<Rightarrow> nat \<Rightarrow> 'a kfile_scheme \<Rightarrow> 'a kfile_scheme option" where
  "fileclose so f s = do {
     s \<leftarrow> acquire FtableLock s;
     (if f_ref (ftable s f) < 1 then panic ''fileclose'' else do {
       let s = set_file f (\<lambda>x. x\<lparr>f_ref := f_ref x - 1\<rparr>) s;
       (if f_ref (ftable s f) > 0 then release FtableLock s
        else do {
          let ff = ftable s f;
          let s = set_file f (\<lambda>x. x\<lparr>f_ref := 0\<rparr>) s;
          let s = set_file f (\<lambda>x. x\<lparr>f_type := FD_NONE\<rparr>) s;
          s \<leftarrow> release FtableLock s;
          (if f_type ff = FD_PIPE then pipeclose (f_pipe ff) (f_writable ff) s
           else if f_type ff = FD_INODE \<or> f_type ff = FD_DEVICE
           then do { s \<leftarrow> begin_op s; s \<leftarrow> iput (f_ip ff) s; end_op s }
           else if f_type ff = FD_SOCK then so_close so (f_sock ff) s
           else Some s) }) }) }"

definition pipealloc :: "('a kfile_scheme) sockops \<Rightarrow> 'a kfile_scheme \<Rightarrow>
    (int \<times> nat option \<times> nat option \<times> 'a kfile_scheme) option" where
  \<comment> \<open>returns with \<open>*f0\<close> and \<open>*f1\<close>; \<open>pi\<close> is null whenever the code goes to \<open>bad\<close>\<close>
  "pipealloc so s = do {
     (f0, s) \<leftarrow> filealloc s;
     (f1, s) \<leftarrow> (case f0 of None \<Rightarrow> Some (None, s) | Some _ \<Rightarrow> filealloc s);
     (pi, s) \<leftarrow> (case f1 of None \<Rightarrow> Some (0, s) | Some _ \<Rightarrow> kmalloc s);
     (case (f0, f1) of
        (Some f0, Some f1) \<Rightarrow>
          if pi = 0
          then do { s \<leftarrow> fileclose so f0 s; s \<leftarrow> fileclose so f1 s; Some (-1, Some f0, Some f1, s) }
          else let s = set_pipe pi (\<lambda>p. p\<lparr>pi_nread := 0, pi_nwrite := 0, pi_readopen := True, pi_writeopen := True\<rparr>) s;
                   s = s\<lparr>lk := (lk s)(pilock pi := None)\<rparr>;
                   s = set_file f0 (\<lambda>x. x\<lparr>f_type := FD_PIPE, f_readable := True, f_writable := False, f_pipe := pi\<rparr>) s;
                   s = set_file f1 (\<lambda>x. x\<lparr>f_type := FD_PIPE, f_readable := False, f_writable := True, f_pipe := pi\<rparr>) s
               in Some (0, Some f0, Some f1, s)
      | (Some f0, None) \<Rightarrow> do { s \<leftarrow> fileclose so f0 s; Some (-1, Some f0, None, s) }
      | _ \<Rightarrow> Some (-1, f0, f1, s)) }"

section \<open>Reading and writing\<close>

definition put_user :: "'a kfile_scheme fault_handler \<Rightarrow> u64 \<Rightarrow> 'a kfile_scheme put" where
  "put_user fault addr dst d src n s = either_copyout fault True (addr + dst) d src n s"

definition get_user :: "'a kfile_scheme fault_handler \<Rightarrow> u64 \<Rightarrow> 'a kfile_scheme get" where
  "get_user fault addr d dst src n s = either_copyin fault d dst True (addr + src) n s"

definition stat_bytes :: "istat \<Rightarrow> bytes \<Rightarrow> bytes" where
  \<comment> \<open>\<open>struct stat\<close> as it lies in memory, 24 bytes\<close>
  "stat_bytes st d =
     (let d = st32 0 (st_dev st) d; d = st32 4 (st_ino st) d;
          d = st16 8 (st_type st) d; d = st16 10 (st_nlink st) d;
          d = d(12 := (if st_dev_dir st then 1 else 0))
      in st64 16 (st_size st) d)"

definition filestat :: "'a kfile_scheme fault_handler \<Rightarrow> (nat \<Rightarrow> ('a kfile_scheme) devops) \<Rightarrow> nat \<Rightarrow> u64 \<Rightarrow>
    'a kfile_scheme \<Rightarrow> (int \<times> 'a kfile_scheme) option" where
  "filestat fault dv f addr s =
     (if f_type (ftable s f) = FD_INODE \<or> f_type (ftable s f) = FD_DEVICE
      then do {
        let ip = f_ip (ftable s f);
        s \<leftarrow> ilock ip s;
        let st = stati dv ip s;
        s \<leftarrow> iunlock ip s;
        (r, s) \<leftarrow> copyout fault (ppagetable (procs s (curp s))) addr (stat_bytes st (\<lambda>_. 0)) 0 24 s;
        Some (if r < 0 then -1 else 0, s) }
      else Some (-1, s))"

definition fileread :: "('a kfile_scheme \<Rightarrow> 'a kfile_scheme option) \<Rightarrow> 'a kfile_scheme fault_handler \<Rightarrow>
    (nat \<Rightarrow> ('a kfile_scheme) devops) \<Rightarrow> ('a kfile_scheme) sockops \<Rightarrow> nat \<Rightarrow> u64 \<Rightarrow> int \<Rightarrow>
    'a kfile_scheme \<Rightarrow> (int \<times> 'a kfile_scheme) option" where
  "fileread world fault dv so f addr n s =
     (let x = ftable s f in
      if \<not> f_readable x then Some (-1, s)
      else if f_type x = FD_PIPE then piperead world fault (f_pipe x) addr n s
      else if f_type x = FD_DEVICE
      then if sint (f_major x) < 0 \<or> sint (f_major x) \<ge> int NDEV then Some (-1, s)
           else (case dv_read (dv (unat (f_major x))) of
                   None \<Rightarrow> Some (-1, s)
                 | Some rd \<Rightarrow> do {
                     (r, s) \<leftarrow> rd (f_ip x) (put_user fault addr) (f_off x) (of_int n) s;
                     Some (r, if r > 0 then set_file f (\<lambda>y. y\<lparr>f_off := f_off y + of_int r\<rparr>) s else s) })
      else if f_type x = FD_INODE
      then do {
        s \<leftarrow> ilock (f_ip x) s;
        (r, s) \<leftarrow> readi (put_user fault addr) (f_ip x) (f_off x) (of_int n) s;
        let s = (if r > 0 then set_file f (\<lambda>y. y\<lparr>f_off := f_off y + of_int r\<rparr>) s else s);
        s \<leftarrow> iunlock (f_ip x) s;
        Some (r, s) }
      else if f_type x = FD_SOCK then so_read so (f_sock x) addr n s
      else panic ''fileread'')"

definition WMAX :: int where \<comment> \<open>\<open>max\<close> in \<open>filewrite\<close>\<close>
  "WMAX = ((MAXOPBLOCKS - 1 - 1 - 2) div 2) * int BSIZE"

partial_function (option) filewrite_loop ::
  "'a kfile_scheme fault_handler \<Rightarrow> nat \<Rightarrow> u64 \<Rightarrow> int \<Rightarrow> int \<Rightarrow> 'a kfile_scheme \<Rightarrow>
    (int \<times> 'a kfile_scheme) option" where
  "filewrite_loop fault f addr i n s =
     (if \<not> i < n then Some (i, s)
      else do {
        let n1 = (if n - i > WMAX then WMAX else n - i);
        s \<leftarrow> begin_op s;
        let ip = f_ip (ftable s f);
        s \<leftarrow> ilock ip s;
        (r, s) \<leftarrow> writei (get_user fault (addr + of_int i)) ip (f_off (ftable s f)) (of_int n1) s;
        let s = (if r > 0 then set_file f (\<lambda>y. y\<lparr>f_off := f_off y + of_int r\<rparr>) s else s);
        s \<leftarrow> iunlock ip s;
        s \<leftarrow> end_op s;
        (if r \<noteq> n1 then Some (i, s) else filewrite_loop fault f addr (i + r) n s) })"

definition filewrite :: "('a kfile_scheme \<Rightarrow> 'a kfile_scheme option) \<Rightarrow> 'a kfile_scheme fault_handler \<Rightarrow>
    (nat \<Rightarrow> ('a kfile_scheme) devops) \<Rightarrow> ('a kfile_scheme) sockops \<Rightarrow> nat \<Rightarrow> u64 \<Rightarrow> int \<Rightarrow>
    'a kfile_scheme \<Rightarrow> (int \<times> 'a kfile_scheme) option" where
  "filewrite world fault dv so f addr n s =
     (let x = ftable s f in
      if \<not> f_writable x then Some (-1, s)
      else if f_type x = FD_PIPE then pipewrite world fault (f_pipe x) addr n s
      else if f_type x = FD_DEVICE
      then if sint (f_major x) < 0 \<or> sint (f_major x) \<ge> int NDEV then Some (-1, s)
           else (case dv_write (dv (unat (f_major x))) of
                   None \<Rightarrow> Some (-1, s)
                 | Some wr \<Rightarrow> wr (get_user fault addr) n s)
      else if f_type x = FD_INODE
      then do {
        (i, s) \<leftarrow> filewrite_loop fault f addr 0 n s;
        Some (if i = n then n else -1, s) }
      else if f_type x = FD_SOCK then so_write so (f_sock x) addr n s
      else panic ''filewrite'')"

end
