(* ===== verification/Mmap.thy ===== *)
theory Mmap
  imports File
begin

text \<open>
  Memory areas, \<open>kernel/mmap.c\<close>: the table of areas of an address space, the page fault
  handler that fills them on demand (from a file, from swap, or with zeroes), \<open>mmap\<close>,
  \<open>munmap\<close> with its write-back, and \<open>sbrk\<close>.  Here the loop between file reads and page
  faults closes: \<open>vma_handle\<close> reads a file into a kernel page, which needs no fault handler.
  The buffer that \<open>readblock\<close> maps for a shared area is named by its address; that user
  stores to it show up in the buffer's data is not part of the model.
\<close>

definition PROT_READ :: u32 where "PROT_READ = 1"
definition PROT_WRITE :: u32 where "PROT_WRITE = 2"
definition PROT_EXEC :: u32 where "PROT_EXEC = 4"
definition MAP_SHARED :: u32 where "MAP_SHARED = 1"
definition MAP_PRIVATE :: u32 where "MAP_PRIVATE = 2"
definition MAP_SUPPG :: u32 where "MAP_SUPPG = 4"

abbreviation vma_at :: "'a kproc_scheme \<Rightarrow> u64 \<Rightarrow> nat \<Rightarrow> vma" where
  "vma_at s ts i \<equiv> vm_areas (tshareds s ts) i"

section \<open>Fork and exec\<close>

fun vma_fork_loop :: "nat \<Rightarrow> nat \<Rightarrow> u64 \<Rightarrow> u64 \<Rightarrow> 'a kfile_scheme \<Rightarrow> 'a kfile_scheme option" where
  "vma_fork_loop 0 i ts nts s = Some s"
| "vma_fork_loop (Suc k) i ts nts s = do {
     let s = set_vma nts i (\<lambda>_. vma_at s ts i) s;
     let v = vma_at s nts i;
     (if \<not> v_used v then vma_fork_loop k (Suc i) ts nts s
      else do {
        s \<leftarrow> (case v_file v of None \<Rightarrow> Some s | Some f \<Rightarrow> map_option snd (filedup f s));
        s \<leftarrow> (if v_type v = EXEC
              then case v_ip v of None \<Rightarrow> Some s | Some ip \<Rightarrow> map_option snd (idup ip s)
              else Some s);
        vma_fork_loop k (Suc i) ts nts s }) }"

definition vma_fork :: "nat \<Rightarrow> nat \<Rightarrow> 'a kfile_scheme \<Rightarrow> 'a kfile_scheme option" where
  "vma_fork p np s = do {
     let ts = ptshared (procs s p);
     s \<leftarrow> acquire (tlock ts) s;
     s \<leftarrow> vma_fork_loop MAX_VMA 0 ts (ptshared (procs s np)) s;
     release (tlock ts) s }"

fun vma_exec_clear_loop :: "nat \<Rightarrow> nat \<Rightarrow> u64 \<Rightarrow> 'a kfile_scheme \<Rightarrow> 'a kfile_scheme option" where
  "vma_exec_clear_loop 0 i ts s = Some s"
| "vma_exec_clear_loop (Suc k) i ts s =
     (let v = vma_at s ts i in
      if \<not> v_used v then vma_exec_clear_loop k (Suc i) ts s
      else if v_type v = EXEC
      then do {
        s \<leftarrow> (case v_ip v of None \<Rightarrow> Some s | Some ip \<Rightarrow> iput ip s);
        vma_exec_clear_loop k (Suc i) ts (set_vma ts i (\<lambda>v. v\<lparr>v_used := False\<rparr>) s) }
      else if v_type v = HEAP
      then vma_exec_clear_loop k (Suc i) ts (set_vma ts i (\<lambda>v. v\<lparr>v_used := False\<rparr>) s)
      else vma_exec_clear_loop k (Suc i) ts s)"

definition vma_exec_clear :: "nat \<Rightarrow> 'a kfile_scheme \<Rightarrow> 'a kfile_scheme option" where
  "vma_exec_clear p s = do {
     let ts = ptshared (procs s p);
     s \<leftarrow> acquire (tlock ts) s;
     s \<leftarrow> vma_exec_clear_loop (MAX_VMA - FIX_START_ADDR) FIX_START_ADDR ts s;
     release (tlock ts) s }"

section \<open>The page fault handler\<close>

definition put_page :: "u64 \<Rightarrow> 'a kfile_scheme put" where
  \<comment> \<open>\<open>readi(ip, 0, mem, ...)\<close>: copy to the kernel address \<open>mem\<close>\<close>
  "put_page m dst d src n s = Some (0, s\<lparr>mem := mem_copy (m + dst) d src (unat n) (mem s)\<rparr>)"

definition vma_covers :: "vma \<Rightarrow> u64 \<Rightarrow> bool" where
  "vma_covers v va \<longleftrightarrow> v_used v \<and> v_addr v \<le> va \<and> va < v_addr v + v_length v"

fun find_vma :: "nat \<Rightarrow> nat \<Rightarrow> u64 \<Rightarrow> (nat \<Rightarrow> vma) \<Rightarrow> nat option" where
  "find_vma 0 i va areas = None"
| "find_vma (Suc k) i va areas = (if vma_covers (areas i) va then Some i else find_vma k (Suc i) va areas)"

definition vma_alloc :: "vma \<Rightarrow> u64 \<Rightarrow> u64 \<Rightarrow> 'a kfile_scheme \<Rightarrow>
    ((u64 \<times> int \<times> nat \<times> u64) option \<times> 'a kfile_scheme) option" where
  \<comment> \<open>\<open>mem\<close>, \<open>ret\<close>, \<open>pgsize\<close> and \<open>va\<close> after the allocation for a private area;
      \<open>None\<close> goes to \<open>err\<close>\<close>
  "vma_alloc v ts va s =
     (if v_flags v AND MAP_PRIVATE = 0 then Some (Some (0, 0, PGSIZE, va), s)
      else if v_flags v AND MAP_SUPPG \<noteq> 0
      then do {
        (m, s) \<leftarrow> kalloc_suppage s;
        (if m = 0 then Some (None, s)
         else Some (Some (m, 1, SUPPGSIZE, SUPPGROUNDDOWN va),
                    s\<lparr>mem := mem_set m 0 SUPPGSIZE (mem s)\<rparr>)) }
      else do {
        s \<leftarrow> release (tlock ts) s;
        (m, s) \<leftarrow> kmalloc s;
        s \<leftarrow> acquire (tlock ts) s;
        (if m = 0 then Some (None, s)
         else Some (Some (m, 0, PGSIZE, va), s\<lparr>mem := mem_set m 0 PGSIZE (mem s)\<rparr>)) })"

definition vma_load :: "vma \<Rightarrow> u64 \<Rightarrow> u64 \<Rightarrow> u64 \<Rightarrow> nat \<Rightarrow> 'a kfile_scheme \<Rightarrow>
    (u64 option \<times> 'a kfile_scheme) option" where
  \<comment> \<open>fill the page from the file; \<open>None\<close> goes to \<open>err\<close>\<close>
  "vma_load v ts va m pgsize s =
     (case v_ip v of None \<Rightarrow> Some (Some m, s)
      | Some ip \<Rightarrow> do {
          (_, s) \<leftarrow> idup ip s;
          s \<leftarrow> release (tlock ts) s;
          s \<leftarrow> ilock ip s;
          let off = ucast (v_offset v + va - v_addr v);
          (if v_flags v AND MAP_PRIVATE \<noteq> 0
           then do {
             let sz = sint (ucast (v_addr v + v_filesz v - va) :: u32);
             let n = (if sz < int pgsize then sz else int pgsize);
             (r, s) \<leftarrow> readi (put_page m) ip off (of_int n) s;
             s \<leftarrow> iunlockput ip s;
             (if r < 0
              then do { s \<leftarrow> kfree m s; s \<leftarrow> acquire (tlock ts) s; Some (None, s) }
              else do { s \<leftarrow> acquire (tlock ts) s; Some (Some m, s) }) }
           else do {
             (m, s) \<leftarrow> readblock ip off s;
             s \<leftarrow> iunlockput ip s;
             s \<leftarrow> acquire (tlock ts) s;
             Some (if m = 0 then None else Some m, s) }) })"

definition vma_perm :: "u32 \<Rightarrow> u64" where
  "vma_perm prot =
     PTE_U OR (if prot AND PROT_READ \<noteq> 0 then PTE_R else 0)
       OR (if prot AND PROT_WRITE \<noteq> 0 then PTE_W else 0)
       OR (if prot AND PROT_EXEC \<noteq> 0 then PTE_X else 0)"

definition vma_handle :: "'a kfile_scheme fault_handler" where
  "vma_handle p va s =
     (if va > MAXVA then Some (-1, s)
      else do {
        let va = PGROUNDDOWN va;
        let pt = ppagetable (procs s p);
        let ts = ptshared (procs s p);
        pte \<leftarrow> walk_get pt va s;
        (if pte \<noteq> 0 \<and> pte_at s pte AND PTE_PG \<noteq> 0 then pagein kmalloc pte (slock ts) s
         else do {
           s \<leftarrow> acquiresleep (slock ts) s;
           s \<leftarrow> acquire (tlock ts) s;
           (case find_vma MAX_VMA 0 va (vm_areas (tshareds s ts)) of
              None \<Rightarrow> do { s \<leftarrow> release (tlock ts) s; s \<leftarrow> releasesleep (slock ts) s; Some (-1, s) }
            | Some i \<Rightarrow> do {
                let v = vma_at s ts i;
                super \<leftarrow> (if v_flags v AND MAP_SUPPG \<noteq> 0 then walkaddr pt (SUPPGROUNDDOWN va) s else Some 0);
                pa \<leftarrow> (if super \<noteq> 0 then Some 0 else walkaddr pt va s);
                (if super \<noteq> 0 then do { s \<leftarrow> releasesleep (slock ts) s; Some (1, s) }
                 else if pa \<noteq> 0 then do { s \<leftarrow> releasesleep (slock ts) s; Some (0, s) }
                 else do {
                   (a, s) \<leftarrow> vma_alloc v ts va s;
                   (r, s) \<leftarrow> (case a of None \<Rightarrow> Some (None, s)
                     | Some (m, ret, pgsize, va) \<Rightarrow> do {
                         (m, s) \<leftarrow> vma_load v ts va m pgsize s;
                         (case m of None \<Rightarrow> Some (None, s)
                          | Some m \<Rightarrow>
                              if m = 0 then panic ''vma_handle'' else do {
                                s \<leftarrow> release (tlock ts) s;
                                (r, s) \<leftarrow> mappages kmalloc pt va (of_nat pgsize) m (vma_perm (v_prot v)) s;
                                (if r \<noteq> 0
                                 then do {
                                   s \<leftarrow> (if v_flags v AND MAP_PRIVATE \<noteq> 0
                                         then if IS_SUPPG m then kfree_suppage m s else kfree m s
                                         else if v_file v \<noteq> None then bunpin2 m s else Some s);
                                   s \<leftarrow> acquire (tlock ts) s;
                                   Some (None, s) }
                                 else Some (Some ret, s)) }) });
                   (case r of
                      Some ret \<Rightarrow> do { s \<leftarrow> releasesleep (slock ts) s; Some (ret, s) }
                    | None \<Rightarrow> do { s \<leftarrow> release (tlock ts) s; s \<leftarrow> releasesleep (slock ts) s; Some (-1, s) }) }) }) }) })"

section \<open>Making an area\<close>

definition setup_vma :: "nat \<Rightarrow> nat \<Rightarrow> u64 \<Rightarrow> u64 \<Rightarrow> u32 \<Rightarrow> u32 \<Rightarrow> nat option \<Rightarrow> nat option \<Rightarrow> u64 \<Rightarrow> u64 \<Rightarrow>
    vmatype \<Rightarrow> 'a kfile_scheme \<Rightarrow> (u64 \<times> 'a kfile_scheme) option" where
  "setup_vma p i addr len prot flags f ip offset filesz type s =
     (case f of
        Some fl \<Rightarrow> if f_type (ftable s fl) \<noteq> FD_INODE then Some (None, s)
                   else map_option (\<lambda>(_, s). (Some (), s)) (filedup fl s)
      | None \<Rightarrow> Some (Some (), s)) \<bind>
     (\<lambda>(ok, s). case ok of None \<Rightarrow> Some (-1, s)
      | Some _ \<Rightarrow>
          Some (addr, set_vma (ptshared (procs s p)) i
            (\<lambda>_. \<lparr>v_used = True, v_addr = addr, v_length = len, v_prot = prot, v_flags = flags,
                 v_file = f, v_ip = ip, v_offset = offset, v_filesz = filesz, v_type = type\<rparr>) s))"

fun next_used :: "nat \<Rightarrow> nat \<Rightarrow> (nat \<Rightarrow> vma) \<Rightarrow> nat" where
  \<comment> \<open>\<open>for (; j < MAX_DYN_VMA; j++) if (used) break\<close>\<close>
  "next_used 0 j areas = j"
| "next_used (Suc k) j areas = (if v_used (areas j) then j else next_used k (Suc j) areas)"

lemma next_used_ge: "j \<le> next_used k j areas"
  by (induction k arbitrary: j) (auto intro: Suc_leD)

definition area_end :: "bool \<Rightarrow> threadshared \<Rightarrow> nat \<Rightarrow> u64" where
  \<comment> \<open>\<open>next_end\<close>, an \<open>int\<close>\<close>
  "area_end suppg t j =
     (let e = (if j = MAX_DYN_VMA then ts_sz t else v_addr (vm_areas t j) + v_length (vm_areas t j));
          e = (if suppg then SUPPGROUNDUP e else PGROUNDUP e)
      in signed (ucast e :: u32))"

function find_gap :: "nat \<Rightarrow> u64 \<Rightarrow> bool \<Rightarrow> u64 \<Rightarrow> threadshared \<Rightarrow> (nat \<times> u64) option" where
  \<comment> \<open>the search of the \<open>DYNAMIC\<close> case: the free slot and the \<open>end\<close> of the gap below it\<close>
  "find_gap i end_a suppg len t =
     (if \<not> i < MAX_DYN_VMA then None
      else if v_used (vm_areas t i)
      then find_gap (Suc i)
             (if suppg then SUPPGROUNDDOWN (v_addr (vm_areas t i)) else v_addr (vm_areas t i)) suppg len t
      else let j = next_used (MAX_DYN_VMA - Suc i) (Suc i) (vm_areas t)
           in if end_a - area_end suppg t j \<ge> len then Some (i, end_a) else find_gap j end_a suppg len t)"
  by auto

termination
  by (relation "measure (\<lambda>(i, _). MAX_DYN_VMA - i)")
    (auto simp: MAX_DYN_VMA_def dest: less_le_trans intro!: diff_less_mono2 Suc_le_lessD [OF next_used_ge])

fun heap_slot :: "nat \<Rightarrow> nat \<Rightarrow> nat option \<Rightarrow> (nat \<Rightarrow> vma) \<Rightarrow> nat + nat option" where
  \<comment> \<open>\<open>Inl\<close>: the heap area; \<open>Inr\<close>: the first empty slot\<close>
  "heap_slot 0 j emp areas = Inr emp"
| "heap_slot (Suc k) j emp areas =
     (if v_used (areas j) \<and> v_type (areas j) = HEAP then Inl j
      else heap_slot k (Suc j) (if \<not> v_used (areas j) \<and> emp = None then Some j else emp) areas)"

fun free_slot :: "nat \<Rightarrow> nat \<Rightarrow> (nat \<Rightarrow> vma) \<Rightarrow> nat option" where
  "free_slot 0 j areas = None"
| "free_slot (Suc k) j areas = (if v_used (areas j) then free_slot k (Suc j) areas else Some j)"

definition vma_create :: "u64 \<Rightarrow> u64 \<Rightarrow> u32 \<Rightarrow> u32 \<Rightarrow> nat option \<Rightarrow> nat option \<Rightarrow> u64 \<Rightarrow> u64 \<Rightarrow> vmatype \<Rightarrow>
    'a kfile_scheme \<Rightarrow> (u64 \<times> 'a kfile_scheme) option" where
  \<comment> \<open>\<open>v->length <= 0\<close> of the unsigned length is \<open>= 0\<close>\<close>
  "vma_create addr len prot flags f ip offset filesz type s =
     (if (case f of None \<Rightarrow> False | Some fl \<Rightarrow>
            \<not> f_readable (ftable s fl) \<and> prot AND PROT_READ \<noteq> 0 \<or>
            \<not> f_writable (ftable s fl) \<and> prot AND PROT_WRITE \<noteq> 0 \<and> flags AND MAP_PRIVATE = 0)
      then Some (-1, s)
      else do {
        let p = curp s;
        let ts = ptshared (procs s p);
        s \<leftarrow> (if type \<noteq> HEAP then acquire (tlock ts) s else Some s);
        let suppg = (flags AND MAP_SUPPG \<noteq> 0);
        let t = tshareds s ts;
        (ret, s) \<leftarrow>
          (if type = DYNAMIC
           then case find_gap 0 (if suppg then SUPPGROUNDDOWN USYSCALL else PGROUNDDOWN USYSCALL) suppg len t of
                  None \<Rightarrow> Some (-1, s)
                | Some (i, end_a) \<Rightarrow>
                    setup_vma p i (if suppg then SUPPGROUNDDOWN (end_a - len) else PGROUNDDOWN (end_a - len))
                      len prot flags f ip offset filesz type s
           else if type = HEAP
           then case heap_slot MAX_FIX_VMA FIX_START_ADDR None (vm_areas t) of
                  Inl j \<Rightarrow>
                    if addr \<noteq> v_addr (vm_areas t j) + v_length (vm_areas t j) then panic ''update_heap_vma''
                    else let s = set_vma ts j (\<lambda>v. v\<lparr>v_length := v_length v + len\<rparr>) s;
                             s = (if v_length (vma_at s ts j) = 0
                                  then set_vma ts j (\<lambda>v. v\<lparr>v_used := False\<rparr>) s else s)
                         in Some (addr, s)
                | Inr (Some j) \<Rightarrow>
                    if len > 0 then setup_vma p j addr len prot flags f ip offset filesz type s
                    else Some (-1, s)
                | Inr None \<Rightarrow> Some (-1, s)
           else case find_vma MAX_VMA 0 addr (vm_areas t) of
                  Some _ \<Rightarrow> Some (-1, s)
                | None \<Rightarrow>
                    (case free_slot MAX_FIX_VMA FIX_START_ADDR (vm_areas t) of
                       None \<Rightarrow> Some (-1, s)
                     | Some j \<Rightarrow> do {
                         s \<leftarrow> (case ip of None \<Rightarrow> Some s | Some ip \<Rightarrow> map_option snd (idup ip s));
                         setup_vma p j addr len prot flags f ip offset filesz type s }));
        s \<leftarrow> (if type \<noteq> HEAP then release (tlock ts) s else Some s);
        Some (ret, s) })"

section \<open>Unmapping\<close>

partial_function (option) writeback_loop ::
  "u64 \<Rightarrow> u64 \<Rightarrow> u32 \<Rightarrow> u64 \<Rightarrow> nat \<Rightarrow> 'a kfile_scheme \<Rightarrow> (int \<times> 'a kfile_scheme) option" where
  "writeback_loop addr end_a off pt ip s =
     (if \<not> addr < end_a then Some (0, s)
      else do {
        pte \<leftarrow> walk_get pt addr s;
        (if pte = 0 then None \<comment> \<open>null dereference\<close>
         else if pte_at s pte AND PTE_D \<noteq> 0 \<and> pte_at s pte AND PTE_W \<noteq> 0
         then do {
           s \<leftarrow> begin_op s;
           s \<leftarrow> ilock ip s;
           (r, s) \<leftarrow> writei (get_user vma_handle addr) ip off
                      (ucast (if of_nat PGSIZE > end_a - addr then end_a - addr else of_nat PGSIZE)) s;
           s \<leftarrow> iunlock ip s;
           s \<leftarrow> end_op s;
           (if r < 0 then Some (-1, s)
            else writeback_loop (addr + of_nat PGSIZE) end_a (off + of_nat PGSIZE) pt ip s) }
         else writeback_loop (addr + of_nat PGSIZE) end_a (off + of_nat PGSIZE) pt ip s) })"

definition writeback :: "u64 \<Rightarrow> u64 \<Rightarrow> nat \<Rightarrow> vma \<Rightarrow> 'a kfile_scheme \<Rightarrow> (int \<times> 'a kfile_scheme) option" where
  \<comment> \<open>the result is a \<open>uint64\<close>, so the callers' test \<open>< 0\<close> never fires\<close>
  "writeback addr len p v s =
     (if addr mod of_nat PGSIZE \<noteq> 0 then panic ''writeback''
      else do {
        let ts = ptshared (procs s p);
        s \<leftarrow> release (tlock ts) s;
        (r, s) \<leftarrow> (if addr < addr + len
                  then case v_file v of None \<Rightarrow> None
                       | Some f \<Rightarrow> writeback_loop addr (addr + len) 0 (ppagetable (procs s p)) (f_ip (ftable s f)) s
                  else Some (0, s));
        s \<leftarrow> acquire (tlock ts) s;
        Some (r, s) })"

fun find_mapped :: "nat \<Rightarrow> nat \<Rightarrow> u64 \<Rightarrow> (nat \<Rightarrow> vma) \<Rightarrow> nat option" where
  \<comment> \<open>the area \<open>munmap\<close> works on\<close>
  "find_mapped 0 i va areas = None"
| "find_mapped (Suc k) i va areas =
     (if vma_covers (areas i) va \<and> v_type (areas i) \<noteq> EXEC \<and> v_type (areas i) \<noteq> HEAP
      then Some i else find_mapped k (Suc i) va areas)"

definition unmap_kind :: "vma \<Rightarrow> nat" where
  "unmap_kind v = (if v_flags v AND MAP_SHARED \<noteq> 0 then FREE_BCACHE else 1)"

definition munmap :: "('a kfile_scheme) sockops \<Rightarrow> u64 \<Rightarrow> u64 \<Rightarrow> 'a kfile_scheme \<Rightarrow>
    (int \<times> 'a kfile_scheme) option" where
  "munmap so addr len s =
     (if addr mod of_nat PGSIZE \<noteq> 0 then Some (-1, s)
      else let len = PGROUNDDOWN len in
      if len = 0 then Some (0, s)
      else do {
        let p = curp s;
        let ts = ptshared (procs s p);
        s \<leftarrow> acquiresleep (slock ts) s;
        s \<leftarrow> acquire (tlock ts) s;
        (case find_mapped MAX_VMA 0 addr (vm_areas (tshareds s ts)) of
           None \<Rightarrow> do { s \<leftarrow> release (tlock ts) s; s \<leftarrow> releasesleep (slock ts) s; Some (-1, s) }
         | Some i \<Rightarrow> do {
             let v = vma_at s ts i;
             (_, s) \<leftarrow> (if v_flags v = MAP_SHARED \<and> v_file v \<noteq> None then writeback addr len p v s else Some (0, s));
             s \<leftarrow> (if v_length (vma_at s ts i) = len
                   then let s = set_vma ts i (\<lambda>v. v\<lparr>v_used := False\<rparr>) s in
                        (case v_file (vma_at s ts i) of None \<Rightarrow> Some s
                         | Some f \<Rightarrow> do {
                             s \<leftarrow> release (tlock ts) s;
                             s \<leftarrow> fileclose so f s;
                             acquire (tlock ts) s })
                   else let s = (if v_addr (vma_at s ts i) = addr
                                 then set_vma ts i (\<lambda>v. v\<lparr>v_addr := v_addr v + len\<rparr>) s else s)
                        in Some (set_vma ts i (\<lambda>v. v\<lparr>v_length := v_length v - len\<rparr>) s));
             s \<leftarrow> uvmunmap (ppagetable (procs s p)) addr (PGROUNDUP len div of_nat PGSIZE)
                   (unmap_kind (vma_at s ts i)) s;
             s \<leftarrow> release (tlock ts) s;
             s \<leftarrow> releasesleep (slock ts) s;
             Some (0, s) }) })"

fun mmap_clean_loop :: "nat \<Rightarrow> nat \<Rightarrow> nat \<Rightarrow> ('a kfile_scheme) sockops \<Rightarrow> 'a kfile_scheme \<Rightarrow>
    'a kfile_scheme option" where
  "mmap_clean_loop 0 i p so s = Some s"
| "mmap_clean_loop (Suc k) i p so s =
     (let ts = ptshared (procs s p) in
      if \<not> v_used (vma_at s ts i) then mmap_clean_loop k (Suc i) p so s
      else do {
        let v = vma_at s ts i;
        (_, s) \<leftarrow> (if v_flags v = MAP_SHARED then writeback (v_addr v) (v_length v) p v s else Some (0, s));
        s \<leftarrow> uvmunmap (ppagetable (procs s p)) (v_addr v) (PGROUNDUP (v_length v) div of_nat PGSIZE)
              (unmap_kind v) s;
        let s = set_vma ts i (\<lambda>v. v\<lparr>v_used := False\<rparr>) s;
        s \<leftarrow> (case v_file v of None \<Rightarrow> Some s
              | Some f \<Rightarrow> do { s \<leftarrow> release (tlock ts) s; s \<leftarrow> fileclose so f s; acquire (tlock ts) s });
        s \<leftarrow> (if v_type v = EXEC
              then case v_ip v of None \<Rightarrow> Some s | Some ip \<Rightarrow> iput ip s
              else Some s);
        mmap_clean_loop k (Suc i) p so s })"

definition mmap_clean :: "('a kfile_scheme) sockops \<Rightarrow> nat \<Rightarrow> 'a kfile_scheme \<Rightarrow> 'a kfile_scheme option" where
  "mmap_clean so p s =
     (if pisthread (procs s p) then Some s
      else do {
        let ts = ptshared (procs s p);
        s \<leftarrow> acquiresleep (slock ts) s;
        s \<leftarrow> acquire (tlock ts) s;
        s \<leftarrow> mmap_clean_loop MAX_VMA 0 p so s;
        s \<leftarrow> release (tlock ts) s;
        releasesleep (slock ts) s })"

section \<open>Growing the heap\<close>

fun fixed_clash :: "nat \<Rightarrow> nat \<Rightarrow> u64 \<Rightarrow> (nat \<Rightarrow> vma) \<Rightarrow> bool" where
  "fixed_clash 0 j addr areas = False"
| "fixed_clash (Suc k) j addr areas =
     (if vma_covers (areas j) addr \<and> v_type (areas j) \<noteq> HEAP then True else fixed_clash k (Suc j) addr areas)"

fun lowest_dyn :: "nat \<Rightarrow> (nat \<Rightarrow> vma) \<Rightarrow> nat option" where
  \<comment> \<open>the first used slot from the top index down\<close>
  "lowest_dyn 0 areas = None"
| "lowest_dyn (Suc i) areas = (if v_used (areas i) then Some i else lowest_dyn i areas)"

definition space_enough :: "nat \<Rightarrow> int \<Rightarrow> 'a kproc_scheme \<Rightarrow> bool" where
  \<comment> \<open>\<open>sz + n < 0\<close> is never true of the \<open>uint64\<close>\<close>
  "space_enough p n s =
     (let t = tshareds s (ptshared (procs s p)); addr = ts_sz t + of_int n
      in if fixed_clash MAX_FIX_VMA FIX_START_ADDR addr (vm_areas t) then False
         else case lowest_dyn MAX_DYN_VMA (vm_areas t) of
                Some i \<Rightarrow> \<not> addr > v_addr (vm_areas t i) \<and> addr \<le> USYSCALL
              | None \<Rightarrow> addr \<le> USYSCALL)"

definition update_heap_vma :: "nat \<Rightarrow> u64 \<Rightarrow> int \<Rightarrow> 'a kfile_scheme \<Rightarrow> (u64 \<times> 'a kfile_scheme) option" where
  "update_heap_vma p addr n s = do {
     (r, s) \<leftarrow> vma_create addr (of_int n) (PROT_READ OR PROT_WRITE) MAP_PRIVATE None None 0 0 HEAP s;
     Some (addr, set_tsh (ptshared (procs s p)) (\<lambda>t. t\<lparr>ts_sz := ts_sz t + of_int n\<rparr>) s) }"

definition vma_sbrk :: "nat \<Rightarrow> int \<Rightarrow> 'a kfile_scheme \<Rightarrow> (u64 \<times> 'a kfile_scheme) option" where
  "vma_sbrk p n s = do {
     let ts = ptshared (procs s p);
     s \<leftarrow> acquire (tlock ts) s;
     let addr = ts_sz (tshareds s ts);
     (if \<not> space_enough p n s then do { s \<leftarrow> release (tlock ts) s; Some (-1, s) }
      else do {
        s \<leftarrow> (if n < 0
              then map_option snd (uvmdealloc (ppagetable (procs s p)) addr (addr + of_int n) s)
              else map_option snd (saved_page (sint (ucast ((PGROUNDUP (addr + of_int n) - PGROUNDUP addr)
                                                          div of_nat PGSIZE) :: u32)) s));
        (_, s) \<leftarrow> update_heap_vma p addr n s;
        s \<leftarrow> release (tlock ts) s;
        Some (addr, s) }) }"

end
