(* ===== verification/ProcLife.thy ===== *)
theory ProcLife
  imports Mmap
begin

text \<open>
  The life of a process, the rest of \<open>kernel/proc.c\<close>: allocation with its pages, \<open>fork\<close> and
  \<open>clone\<close>, \<open>exit\<close>, \<open>wait\<close> and \<open>join\<close>, and one round of the scheduler.  \<open>exit\<close> never
  returns: its model ends in the state in which \<open>sched\<close> switches away.
\<close>

section \<open>Guard pages of threads\<close>

definition setguardpage :: "nat \<Rightarrow> 'a kfile_scheme \<Rightarrow> (int \<times> 'a kfile_scheme) option" where
  "setguardpage p s =
     (if \<not> pisthread (procs s p) then panic ''setguardpage''
      else do {
        let ts = ptshared (procs s p);
        let pt = ppagetable (procs s p);
        let va = ptstack (procs s p);
        s \<leftarrow> acquire (tlock ts) s;
        pte \<leftarrow> walk_get pt va s;
        (r, pte, s) \<leftarrow>
          (if pte = 0 \<or> pte_at s pte AND PTE_V = 0
           then do {
             s \<leftarrow> release (tlock ts) s;
             (r, s) \<leftarrow> vma_handle p va s;
             (if r < 0 then Some (-1, pte, s) else do {
               s \<leftarrow> acquire (tlock ts) s;
               pte \<leftarrow> walk_get pt va s;
               Some (0, pte, s) }) }
           else Some (0 :: int, pte, s));
        (if r < 0 then Some (-1, s)
         else if pte = 0 then None
         else if pte_at s pte AND PTE_V = 0 then panic ''setguardpage2'' else do {
           s \<leftarrow> release (tlock ts) (set_pte pte (pte_at s pte AND NOT PTE_U) s);
           Some (0, s) }) })"

definition rmguardpage :: "nat \<Rightarrow> 'a kfile_scheme \<Rightarrow> 'a kfile_scheme option" where
  "rmguardpage p s =
     (if \<not> pisthread (procs s p) then panic ''rmguardpage''
      else do {
        let ts = ptshared (procs s p);
        s \<leftarrow> acquire (tlock ts) s;
        pte \<leftarrow> walk_get (ppagetable (procs s p)) (ptstack (procs s p)) s;
        (if pte = 0 then None
         else release (tlock ts) (set_pte pte (pte_at s pte OR PTE_U) s)) })"

section \<open>Allocating and freeing a process\<close>

definition proc_pagetable :: "nat \<Rightarrow> 'a kfile_scheme \<Rightarrow> (u64 \<times> 'a kfile_scheme) option" where
  "proc_pagetable p s = do {
     (pt, s) \<leftarrow> uvmcreate kmalloc s;
     (if pt = 0 then Some (0, s) else do {
       (r, s) \<leftarrow> mappages kmalloc pt USYSCALL (of_nat PGSIZE) (pusyscall (procs s p)) (PTE_R OR PTE_U) s;
       (if r < 0 then do { s \<leftarrow> uvmfree pt 0 s; Some (0, s) } else do {
         (r, s) \<leftarrow> mappages kmalloc pt TRAMPOLINE (of_nat PGSIZE) (trampoline s) (PTE_R OR PTE_X) s;
         (if r < 0 then do {
            s \<leftarrow> uvmunmap pt USYSCALL 1 0 s;
            s \<leftarrow> uvmfree pt 0 s;
            Some (0, s) }
          else do {
            (r, s) \<leftarrow> mappages kmalloc pt TRAPFRAME (of_nat PGSIZE) (ptrapframe (procs s p)) (PTE_R OR PTE_W) s;
            (if r < 0 then do {
               s \<leftarrow> uvmunmap pt USYSCALL 1 0 s;
               s \<leftarrow> uvmunmap pt TRAMPOLINE 1 0 s;
               s \<leftarrow> uvmfree pt 0 s;
               Some (0, s) }
             else Some (pt, s)) }) }) }) }"

definition proc_freepagetable :: "u64 \<Rightarrow> u64 \<Rightarrow> 'a kfile_scheme \<Rightarrow> 'a kfile_scheme option" where
  "proc_freepagetable pt sz s = do {
     s \<leftarrow> uvmunmap pt USYSCALL 1 0 s;
     s \<leftarrow> uvmunmap pt TRAMPOLINE 1 0 s;
     s \<leftarrow> uvmunmap pt TRAPFRAME 1 0 s;
     s \<leftarrow> uvmunmap pt (of_nat PGSIZE) (PGROUNDUP sz div of_nat PGSIZE - 1) 1 s;
     uvmfree pt 0 s }"

definition proc_freepagetable_from_zero :: "u64 \<Rightarrow> u64 \<Rightarrow> 'a kfile_scheme \<Rightarrow> 'a kfile_scheme option" where
  "proc_freepagetable_from_zero pt sz s = do {
     s \<leftarrow> uvmunmap pt USYSCALL 1 0 s;
     s \<leftarrow> uvmunmap pt TRAMPOLINE 1 0 s;
     s \<leftarrow> uvmunmap pt TRAPFRAME 1 0 s;
     uvmfree pt sz s }"

definition proc_reset :: "proc \<Rightarrow> proc" where
  \<comment> \<open>the assignments at the end of \<open>freeproc\<close>\<close>
  "proc_reset p = p\<lparr>pstate := UNUSED, pchan := NoChan, pkilled := 0, pxstate := 0, ppid := 0,
     pparent := None, ptshared := 0, ppagetable := 0, ptrapframe := 0, pusyscall := 0,
     pname := (pname p)(0 := 0), ppending := 0, ptmp_sa_mask := 0, psa_mask := 0,
     psa_handler := (\<lambda>i. if i < NUMSIG then 0 else psa_handler p i), psa_trapframe := 0,
     palarminterval := 0, ptickspassed := 0, ptrap_va := 0, pisthread := False, ptstack := 0\<rparr>"

definition freeproc :: "nat \<Rightarrow> 'a kfile_scheme \<Rightarrow> 'a kfile_scheme option" where
  "freeproc p s = do {
     s \<leftarrow> (if ppagetable (procs s p) \<noteq> 0 \<and> \<not> pisthread (procs s p)
           then proc_freepagetable (ppagetable (procs s p)) (ts_sz (tshareds s (ptshared (procs s p)))) s
           else Some s);
     s \<leftarrow> (if ptrapframe (procs s p) \<noteq> 0 then kfree (ptrapframe (procs s p)) s else Some s);
     s \<leftarrow> (if pusyscall (procs s p) \<noteq> 0 \<and> \<not> pisthread (procs s p)
           then kfree (pusyscall (procs s p)) s else Some s);
     Some (set_proc p proc_reset s) }"

definition zero_vma :: vma where
  "zero_vma = \<lparr>v_used = False, v_addr = 0, v_length = 0, v_prot = 0, v_flags = 0, v_file = None,
     v_ip = None, v_offset = 0, v_filesz = 0, v_type = EXEC\<rparr>"

definition zero_trapframe :: trapframe where
  "zero_trapframe = \<lparr>tf_kernel_satp = 0, tf_kernel_sp = 0, tf_kernel_trap = 0, tf_epc = 0,
     tf_kernel_hartid = 0, tf_ra = 0, tf_sp = 0, tf_a = (\<lambda>_. 0), tf_rest = (\<lambda>_. 0)\<rparr>"

definition SIZEOF_TRAPFRAME :: u64 where "SIZEOF_TRAPFRAME = 1520"

fun find_unused :: "nat \<Rightarrow> nat \<Rightarrow> 'a kproc_scheme \<Rightarrow> (nat option \<times> 'a kproc_scheme) option" where
  \<comment> \<open>returns with the lock of the process it found\<close>
  "find_unused 0 p s = Some (None, s)"
| "find_unused (Suc k) p s = do {
     s \<leftarrow> acquire (ProcLock p) s;
     (if pstate (procs s p) = UNUSED then Some (Some p, s)
      else do { s \<leftarrow> release (ProcLock p) s; find_unused k (Suc p) s }) }"

definition alloc_fail :: "nat \<Rightarrow> 'a kfile_scheme \<Rightarrow> (nat option \<times> 'a kfile_scheme) option" where
  "alloc_fail p s = do { s \<leftarrow> freeproc p s; s \<leftarrow> release (ProcLock p) s; Some (None, s) }"

definition alloc_done :: "nat \<Rightarrow> bool \<Rightarrow> 'a kfile_scheme \<Rightarrow> (nat option \<times> 'a kfile_scheme) option" where
  \<comment> \<open>the end of \<open>allocproc\<close>, from \<open>memset(&p->context, ...)\<close> on\<close>
  "alloc_done p thread s =
     Some (Some p, set_proc p (\<lambda>x. x\<lparr>ptshared := ptrapframe x, ctx_ra := forkret s,
       ctx_sp := pkstack x + of_nat PGSIZE, ptmp_sa_mask := 0, palarminterval := 0,
       ptickspassed := 0, ptrap_va := TRAPFRAME, pisthread := thread\<rparr>) s)"

definition allocproc :: "bool \<Rightarrow> 'a kfile_scheme \<Rightarrow> (nat option \<times> 'a kfile_scheme) option" where
  \<comment> \<open>\<open>p->trapframe + TRAPFRAMESIZE\<close> is pointer arithmetic in units of the struct\<close>
  "allocproc thread s = do {
     (r, s) \<leftarrow> find_unused NPROC 0 s;
     (case r of None \<Rightarrow> Some (None, s)
      | Some p \<Rightarrow> do {
          (pid, s) \<leftarrow> allocpid s;
          let s = set_proc p (\<lambda>x. x\<lparr>ppid := pid\<rparr>) s;
          let s = set_proc p (\<lambda>x. x\<lparr>pstate := USED\<rparr>) s;
          (tf, s) \<leftarrow> kmalloc s;
          let s = set_proc p (\<lambda>x. x\<lparr>ptrapframe := tf\<rparr>) s;
          (if tf = 0 then alloc_fail p s else do {
            let s = s\<lparr>mem := mem_set tf 0 PGSIZE (mem s),
                      tshareds := (tshareds s)(tf := \<lparr>ts_sz = 0, vm_areas = (\<lambda>_. zero_vma)\<rparr>),
                      trapframes := (trapframes s)(tf := zero_trapframe)\<rparr>;
            let s = set_proc p (\<lambda>x. x\<lparr>psa_trapframe := tf + SIZEOF_TRAPFRAME * SIZEOF_TRAPFRAME\<rparr>) s;
            (if thread then alloc_done p thread s else do {
              (us, s) \<leftarrow> kmalloc s;
              let s = set_proc p (\<lambda>x. x\<lparr>pusyscall := us\<rparr>) s;
              (if us = 0 then alloc_fail p s else do {
                (pt, s) \<leftarrow> proc_pagetable p s;
                let s = set_proc p (\<lambda>x. x\<lparr>ppagetable := pt\<rparr>) s;
                (if pt = 0 then alloc_fail p s else do {
                  let s = s\<lparr>usyspages := (usyspages s)(us := ppid (procs s p))\<rparr>;
                  let s = s\<lparr>lk := (lk s)(tlock tf := None, SleepSpin (slock tf) := None),
                            sl := (sl s)(slock tf := None)\<rparr>;
                  alloc_done p thread s }) }) }) }) }) }"

definition proc_name :: "bytes \<Rightarrow> bytes \<Rightarrow> bytes" where
  \<comment> \<open>\<open>safestrcpy(dst, src, 16)\<close>\<close>
  "proc_name dst src = (\<lambda>a. if a < 16 then snd (safestrcpy 0 64 16 (two_objects dst src)) a else dst a)"

definition userinit :: "bytes \<Rightarrow> u32 \<Rightarrow> bytes \<Rightarrow> (nat \<Rightarrow> ('a kfile_scheme) devops) \<Rightarrow> 'a kfile_scheme \<Rightarrow>
    'a kfile_scheme option" where
  \<comment> \<open>\<open>initcode\<close>, its size and the name \<open>"initcode"\<close> are the first arguments\<close>
  "userinit initcode code_size init_name dv s = do {
     (r, s) \<leftarrow> allocproc False s;
     (case r of None \<Rightarrow> None
      | Some p \<Rightarrow> do {
          let s = s\<lparr>initproc := Some p\<rparr>;
          s \<leftarrow> uvmfirst kmalloc (ppagetable (procs s p)) initcode code_size s;
          let s = set_tsh (ptshared (procs s p)) (\<lambda>t. t\<lparr>ts_sz := of_nat PGSIZE\<rparr>) s;
          let tf = ptrapframe (procs s p);
          let s = s\<lparr>trapframes := (trapframes s)(tf := (trapframes s tf)\<lparr>tf_epc := 0, tf_sp := of_nat PGSIZE\<rparr>)\<rparr>;
          let s = s\<lparr>usyspages := (usyspages s)(pusyscall (procs s p) := ppid (procs s p))\<rparr>;
          let s = set_proc p (\<lambda>x. x\<lparr>pname := proc_name (pname x) init_name, ppending := 0, psa_mask := 0,
                     psa_handler := (\<lambda>i. if i < NUMSIG then SIG_DFL else psa_handler x i)\<rparr>) s;
          (ip, s) \<leftarrow> namei dv [SLASH] s;
          let s = set_proc p (\<lambda>x. x\<lparr>pcwd := ip\<rparr>) s;
          let s = set_proc p (\<lambda>x. x\<lparr>pstate := RUNNABLE\<rparr>) s;
          release (ProcLock p) s }) }"

definition growproc :: "int \<Rightarrow> 'a kfile_scheme \<Rightarrow> (int \<times> 'a kfile_scheme) option" where
  "growproc n s = do {
     let p = curp s;
     let ts = ptshared (procs s p);
     s \<leftarrow> acquiresleep (slock ts) s;
     s \<leftarrow> acquire (tlock ts) s;
     let sz = ts_sz (tshareds s ts);
     s \<leftarrow> release (tlock ts) s;
     (sz, s) \<leftarrow> (if n > 0 then uvmalloc (ppagetable (procs s p)) sz (sz + of_int n) PTE_W s
                else if n < 0 then uvmdealloc (ppagetable (procs s p)) sz (sz + of_int n) s
                else Some (sz, s));
     (if n > 0 \<and> sz = 0 then do { s \<leftarrow> releasesleep (slock ts) s; Some (-1, s) }
      else do {
        s \<leftarrow> acquire (tlock ts) s;
        let s = set_tsh ts (\<lambda>t. t\<lparr>ts_sz := sz\<rparr>) s;
        s \<leftarrow> release (tlock ts) s;
        s \<leftarrow> releasesleep (slock ts) s;
        Some (0, s) }) }"

section \<open>Fork and clone\<close>

fun dup_files :: "nat \<Rightarrow> nat \<Rightarrow> nat \<Rightarrow> nat \<Rightarrow> 'a kfile_scheme \<Rightarrow> 'a kfile_scheme option" where
  "dup_files 0 i p np s = Some s"
| "dup_files (Suc k) i p np s =
     (case pofile (procs s p) i of None \<Rightarrow> dup_files k (Suc i) p np s
      | Some f \<Rightarrow> do {
          (f, s) \<leftarrow> filedup f s;
          dup_files k (Suc i) p np (set_proc np (\<lambda>x. x\<lparr>pofile := (pofile x)(i := Some f)\<rparr>) s) })"

definition dup_cwd :: "nat \<Rightarrow> nat \<Rightarrow> 'a kfile_scheme \<Rightarrow> 'a kfile_scheme option" where
  "dup_cwd p np s =
     (case pcwd (procs s p) of None \<Rightarrow> None
      | Some ip \<Rightarrow> do { (ip, s) \<leftarrow> idup ip s; Some (set_proc np (\<lambda>x. x\<lparr>pcwd := Some ip\<rparr>) s) })"

definition set_tf :: "u64 \<Rightarrow> (trapframe \<Rightarrow> trapframe) \<Rightarrow> 'a kproc_scheme \<Rightarrow> 'a kproc_scheme" where
  "set_tf a f s = s\<lparr>trapframes := (trapframes s)(a := f (trapframes s a))\<rparr>"

definition fork :: "'a kfile_scheme \<Rightarrow> (int \<times> 'a kfile_scheme) option" where
  \<comment> \<open>\<open>*(np->sa_handler) = *(p->sa_handler)\<close> copies one handler\<close>
  "fork s = do {
     let p = curp s;
     (r, s) \<leftarrow> allocproc False s;
     (case r of None \<Rightarrow> Some (-1, s)
      | Some np \<Rightarrow> do {
          (r, s) \<leftarrow> uvmcopy (ppagetable (procs s p)) (ppagetable (procs s np))
                     (ts_sz (tshareds s (ptshared (procs s p)))) s;
          (if r < 0
           then do { s \<leftarrow> freeproc np s; s \<leftarrow> release (ProcLock np) s; Some (-1, s) }
           else do {
             let s = set_tsh (ptshared (procs s np)) (\<lambda>t. t\<lparr>ts_sz := ts_sz (tshareds s (ptshared (procs s p)))\<rparr>) s;
             let s = set_proc np (\<lambda>x. x\<lparr>psa_mask := psa_mask (procs s p),
                        psa_handler := (psa_handler x)(0 := psa_handler (procs s p) 0),
                        palarminterval := palarminterval (procs s p)\<rparr>) s;
             s \<leftarrow> vma_fork p np s;
             let s = copy_trapframe (ptrapframe (procs s np)) (ptrapframe (procs s p)) s;
             let s = set_tf (ptrapframe (procs s np)) (\<lambda>t. t\<lparr>tf_a := (tf_a t)(0 := 0)\<rparr>) s;
             s \<leftarrow> dup_files NOFILE 0 p np s;
             s \<leftarrow> dup_cwd p np s;
             let s = set_proc np (\<lambda>x. x\<lparr>pname := proc_name (pname x) (pname (procs s p)),
                        ptrace_arg := ptrace_arg (procs s p)\<rparr>) s;
             let pid = ppid (procs s np);
             let s = s\<lparr>usyspages := (usyspages s)(pusyscall (procs s np) := pid)\<rparr>;
             s \<leftarrow> release (ProcLock np) s;
             s \<leftarrow> acquire WaitLock s;
             let s = set_proc np (\<lambda>x. x\<lparr>pparent := Some p\<rparr>) s;
             let s = (if Some p = initproc s then s\<lparr>shproc := Some np\<rparr> else s);
             s \<leftarrow> release WaitLock s;
             s \<leftarrow> acquire (ProcLock np) s;
             let s = set_proc np (\<lambda>x. x\<lparr>pstate := RUNNABLE\<rparr>) s;
             s \<leftarrow> release (ProcLock np) s;
             Some (pid, s) }) }) }"

partial_function (option) find_trap_va :: "u64 \<Rightarrow> u64 \<Rightarrow> 'a kfile_scheme \<Rightarrow> u64 option option" where
  \<comment> \<open>the free page for the trapframe of a thread, \<open>Some None\<close> when there is none\<close>
  "find_trap_va pt va s =
     (if \<not> va < USYSCALL then Some None
      else do {
        pa \<leftarrow> kwalkaddr pt va s;
        (if pa = 0 then Some (Some va) else find_trap_va pt (va + of_nat PGSIZE) s) })"

definition clone :: "u64 \<Rightarrow> u64 \<Rightarrow> u64 \<Rightarrow> u64 \<Rightarrow> 'a kfile_scheme \<Rightarrow> (int \<times> 'a kfile_scheme) option" where
  \<comment> \<open>the lock of the new process is released early; \<open>err\<close> frees it without\<close>
  "clone fcn arg1 arg2 stack s =
     (if stack mod of_nat PGSIZE \<noteq> 0 then Some (-1, s)
      else do {
        let p = curp s;
        (r, s) \<leftarrow> allocproc True s;
        (case r of None \<Rightarrow> Some (-1, s)
         | Some np \<Rightarrow> do {
             let ts = ptshared (procs s p);
             let s = set_proc np (\<lambda>x. x\<lparr>pparent := Some p, ptshared := ts,
                        ppagetable := ppagetable (procs s p), pusyscall := pusyscall (procs s p)\<rparr>) s;
             s \<leftarrow> release (ProcLock np) s;
             s \<leftarrow> acquire (tlock ts) s;
             let tf = ptrapframe (procs s np);
             let s = copy_trapframe tf (ptrapframe (procs s p)) s;
             s \<leftarrow> release (tlock ts) s;
             let s = set_tf tf (\<lambda>t. t\<lparr>tf_epc := fcn, tf_ra := 0xffffffffffffffff,
                        tf_sp := stack + 2 * of_nat PGSIZE, tf_a := (tf_a t)(0 := arg1, 1 := arg2)\<rparr>) s;
             let s = set_proc np (\<lambda>x. x\<lparr>ptstack := stack\<rparr>) s;
             (r, s) \<leftarrow> setguardpage np s;
             (if r < 0 then do { s \<leftarrow> freeproc np s; Some (-1, s) } else do {
               va \<leftarrow> find_trap_va (ppagetable (procs s np)) PHYSTOP_INCLUDESUPPG s;
               (case va of None \<Rightarrow> do { s \<leftarrow> freeproc np s; Some (-1, s) }
                | Some va \<Rightarrow> do {
                    let s = set_proc np (\<lambda>x. x\<lparr>ptrap_va := va\<rparr>) s;
                    (r, s) \<leftarrow> mappages kmalloc (ppagetable (procs s np)) va (of_nat PGSIZE) tf (PTE_R OR PTE_W) s;
                    s \<leftarrow> dup_files NOFILE 0 p np s;
                    s \<leftarrow> dup_cwd p np s;
                    let s = set_proc np (\<lambda>x. x\<lparr>pname := proc_name (pname x) (pname (procs s p))\<rparr>) s;
                    let pid = ppid (procs s np);
                    let s = set_proc np (\<lambda>x. x\<lparr>pstate := RUNNABLE\<rparr>) s;
                    Some (pid, s) }) }) }) })"

section \<open>Exit\<close>

fun kill_threads :: "nat \<Rightarrow> nat \<Rightarrow> nat \<Rightarrow> 'a kfile_scheme \<Rightarrow> 'a kfile_scheme option" where
  "kill_threads 0 p me s = Some s"
| "kill_threads (Suc k) p me s =
     (if pparent (procs s p) = Some me \<and> pisthread (procs s p)
      then do {
        s \<leftarrow> acquire (ProcLock p) s;
        let s = set_proc p (\<lambda>x. x\<lparr>pkilled := 1\<rparr>) s;
        let s = (if pstate (procs s p) = SLEEPING then set_proc p (\<lambda>x. x\<lparr>pstate := RUNNABLE\<rparr>) s else s);
        s \<leftarrow> release (ProcLock p) s;
        kill_threads k (Suc p) me s }
      else kill_threads k (Suc p) me s)"

fun reap_threads :: "nat \<Rightarrow> nat \<Rightarrow> nat \<Rightarrow> 'a kfile_scheme \<Rightarrow> (bool \<times> 'a kfile_scheme) option" where
  \<comment> \<open>the result is \<open>havethreads\<close>\<close>
  "reap_threads 0 p me s = Some (False, s)"
| "reap_threads (Suc k) p me s =
     (if pparent (procs s p) \<noteq> Some me \<or> \<not> pisthread (procs s p) then reap_threads k (Suc p) me s
      else if pstate (procs s p) \<noteq> ZOMBIE then Some (True, s)
      else do {
        s \<leftarrow> acquire (ProcLock p) s;
        s \<leftarrow> freeproc p s;
        s \<leftarrow> release (ProcLock p) s;
        reap_threads k (Suc p) me s })"

partial_function (option) tpkill_wait ::
  "('a kfile_scheme \<Rightarrow> 'a kfile_scheme option) \<Rightarrow> nat \<Rightarrow> 'a kfile_scheme \<Rightarrow> 'a kfile_scheme option" where
  "tpkill_wait world me s = do {
     (have, s) \<leftarrow> reap_threads NPROC 0 me s;
     (if \<not> have then Some s
      else do { s \<leftarrow> sleep world (OnProc me) WaitLock s; tpkill_wait world me s }) }"

definition tpkill :: "('a kfile_scheme \<Rightarrow> 'a kfile_scheme option) \<Rightarrow> nat \<Rightarrow> 'a kfile_scheme \<Rightarrow>
    'a kfile_scheme option" where
  "tpkill world me s = do {
     s \<leftarrow> acquire WaitLock s;
     s \<leftarrow> kill_threads NPROC 0 me s;
     s \<leftarrow> tpkill_wait world me s;
     release WaitLock s }"

fun close_files :: "nat \<Rightarrow> nat \<Rightarrow> ('a kfile_scheme) sockops \<Rightarrow> nat \<Rightarrow> 'a kfile_scheme \<Rightarrow> 'a kfile_scheme option" where
  "close_files 0 fd so p s = Some s"
| "close_files (Suc k) fd so p s =
     (case pofile (procs s p) fd of None \<Rightarrow> close_files k (Suc fd) so p s
      | Some f \<Rightarrow> do {
          s \<leftarrow> fileclose so f s;
          close_files k (Suc fd) so p (set_proc p (\<lambda>x. x\<lparr>pofile := (pofile x)(fd := None)\<rparr>) s) })"

definition exit :: "('a kfile_scheme \<Rightarrow> 'a kfile_scheme option) \<Rightarrow> ('a kfile_scheme) sockops \<Rightarrow> int \<Rightarrow>
    'a kfile_scheme \<Rightarrow> 'a kfile_scheme option" where
  "exit world so status s = do {
     let p = curp s;
     (if Some p = initproc s then panic ''init exiting''
      else do {
        s \<leftarrow> close_files NOFILE 0 so p s;
        s \<leftarrow> begin_op s;
        s \<leftarrow> (case pcwd (procs s p) of None \<Rightarrow> None | Some ip \<Rightarrow> iput ip s);
        s \<leftarrow> end_op s;
        let s = set_proc p (\<lambda>x. x\<lparr>pcwd := None\<rparr>) s;
        s \<leftarrow> tpkill world p s;
        s \<leftarrow> (if \<not> pisthread (procs s p) then mmap_clean so p s else Some s);
        s \<leftarrow> acquire WaitLock s;
        s \<leftarrow> reparent p s;
        s \<leftarrow> (case pparent (procs s p) of None \<Rightarrow> wakeup NoChan s | Some q \<Rightarrow> wakeup (OnProc q) s);
        s \<leftarrow> acquire (ProcLock p) s;
        let s = s\<lparr>fgproc_mask := fgproc_mask s AND NOT (fgbit p)\<rparr>;
        let s = set_proc p (\<lambda>x. x\<lparr>pxstate := status\<rparr>) s;
        let s = set_proc p (\<lambda>x. x\<lparr>pstate := ZOMBIE\<rparr>) s;
        s \<leftarrow> (if pisthread (procs s p) then uvmunmap (ppagetable (procs s p)) (ptrap_va (procs s p)) 1 0 s
              else Some s);
        s \<leftarrow> release WaitLock s;
        sched Some s }) }"

section \<open>Wait and join\<close>

datatype wait_result = Returned int | NoZombie bool   \<comment> \<open>\<open>havekids\<close>\<close>

fun wait_scan :: "bool \<Rightarrow> nat \<Rightarrow> nat \<Rightarrow> nat \<Rightarrow> u64 \<Rightarrow> bool \<Rightarrow> 'a kfile_scheme \<Rightarrow>
    (wait_result \<times> 'a kfile_scheme) option" where
  \<comment> \<open>the scan of \<open>wait\<close> (\<open>thread\<close> false) or \<open>join\<close> (true) over the table\<close>
  "wait_scan thread 0 pp p addr havekids s = Some (NoZombie havekids, s)"
| "wait_scan thread (Suc k) pp p addr havekids s =
     (if \<not> (pparent (procs s pp) = Some p \<and> pisthread (procs s pp) = thread)
      then wait_scan thread k (Suc pp) p addr havekids s
      else do {
        s \<leftarrow> acquire (ProcLock pp) s;
        (if pstate (procs s pp) = ZOMBIE
         then do {
           s \<leftarrow> release (ProcLock pp) s;
           let pid = ppid (procs s pp);
           (r, s) \<leftarrow>
             (if addr = 0 then Some (0, s)
              else if thread
              then copyout vma_handle (ppagetable (procs s p)) addr
                     (st64 0 (ptstack (procs s pp)) (\<lambda>_. 0)) 0 8 s
              else copyout vma_handle (ppagetable (procs s p)) addr
                     (st32 0 (of_int (pxstate (procs s pp))) (\<lambda>_. 0)) 0 4 s);
           (if r < 0 then do { s \<leftarrow> release WaitLock s; Some (Returned (-1), s) }
            else do {
              s \<leftarrow> acquire (ProcLock pp) s;
              s \<leftarrow> (if thread then rmguardpage pp s else Some s);
              s \<leftarrow> freeproc pp s;
              s \<leftarrow> release (ProcLock pp) s;
              s \<leftarrow> release WaitLock s;
              Some (Returned pid, s) }) }
         else do {
           s \<leftarrow> release (ProcLock pp) s;
           wait_scan thread k (Suc pp) p addr True s }) })"

partial_function (option) wait_loop ::
  "('a kfile_scheme \<Rightarrow> 'a kfile_scheme option) \<Rightarrow> bool \<Rightarrow> nat \<Rightarrow> u64 \<Rightarrow> 'a kfile_scheme \<Rightarrow>
    (int \<times> 'a kfile_scheme) option" where
  "wait_loop world thread p addr s = do {
     (r, s) \<leftarrow> wait_scan thread NPROC 0 p addr False s;
     (case r of Returned v \<Rightarrow> Some (v, s)
      | NoZombie havekids \<Rightarrow> do {
          (k, s) \<leftarrow> (if \<not> havekids then Some (1, s)
                    else if thread then Some (pkilled (procs s p), s) else killed p s);
          (if k \<noteq> 0 then do { s \<leftarrow> release WaitLock s; Some (-1, s) }
           else do { s \<leftarrow> sleep world (OnProc p) WaitLock s; wait_loop world thread p addr s }) }) }"

definition wait :: "('a kfile_scheme \<Rightarrow> 'a kfile_scheme option) \<Rightarrow> u64 \<Rightarrow> 'a kfile_scheme \<Rightarrow>
    (int \<times> 'a kfile_scheme) option" where
  "wait world addr s = do {
     let p = curp s;
     s \<leftarrow> acquire WaitLock s;
     s \<leftarrow> (if Some p = shproc s then setfg p s else Some s);
     wait_loop world False p addr s }"

definition join :: "('a kfile_scheme \<Rightarrow> 'a kfile_scheme option) \<Rightarrow> u64 \<Rightarrow> 'a kfile_scheme \<Rightarrow>
    (int \<times> 'a kfile_scheme) option" where
  "join world stack s = do {
     let p = curp s;
     s \<leftarrow> acquire WaitLock s;
     wait_loop world True p stack s }"

section \<open>The scheduler\<close>

fun scheduler_round :: "('a kfile_scheme \<Rightarrow> 'a kfile_scheme option) \<Rightarrow> nat \<Rightarrow> nat \<Rightarrow> 'a kfile_scheme \<Rightarrow>
    'a kfile_scheme option" where
  \<comment> \<open>one pass of the inner loop; \<open>run\<close> is what the chosen process does until it switches back\<close>
  "scheduler_round run 0 p s = Some s"
| "scheduler_round run (Suc k) p s = do {
     s \<leftarrow> acquire (ProcLock p) s;
     s \<leftarrow> (if pstate (procs s p) = RUNNABLE
           then let s = set_proc p (\<lambda>x. x\<lparr>pstate := RUNNING\<rparr>) s
                in run (s\<lparr>curp := p, mypid := ppid (procs s p)\<rparr>)
           else Some s);
     s \<leftarrow> release (ProcLock p) s;
     scheduler_round run k (Suc p) s }"

end
