(* ===== verification/UserMem.thy ===== *)
theory UserMem
  imports Vm
begin

text \<open>
  Properties of the copies between kernel and user memory (\<open>copyin\<close>, \<open>copyinstr\<close>,
  \<open>copyout\<close> of \<open>kernel/vm.c\<close>): on mapped pages they are the byte-wise copy through the
  page table.
\<close>

section \<open>Pages and offsets\<close>

lemma unat_u64: "unat (a :: u64) < 2 ^ 64"
  using unat_bound [of a] by simp

lemma mask_12: "(4095 :: u64) = mask 12"
  by (simp add: mask_eq_exp_minus_1)

lemma PGROUNDDOWN_push: "PGROUNDDOWN a = push_bit 12 (drop_bit 12 a)"
  unfolding PGROUNDDOWN_def by (rule bit_word_eqI) (auto simp: bit_and_iff bit_not_iff mask_12 bit_mask_iff bit_push_bit_iff bit_drop_bit_eq)

lemma unat_PGROUNDDOWN_div: "unat (PGROUNDDOWN a) = unat a div 4096 * 4096"
proof -
  have "unat a div 4096 * 4096 \<le> unat a" by (rule div_times_less_eq_dividend)
  then have "unat a div 4096 * 4096 < 18446744073709551616" using unat_u64 [of a] by simp
  moreover have "unat (drop_bit 12 a) = unat a div 4096"
    using unat_u64 [of a] by (simp only: unsigned_drop_bit_eq) (simp add: drop_bit_eq_div take_bit_nat_eq_self)
  ultimately show ?thesis unfolding PGROUNDDOWN_push unsigned_push_bit_eq
    by (simp add: push_bit_eq_mult take_bit_nat_eq_self)
qed

lemma unat_page_offset: "unat (a - PGROUNDDOWN a) = unat a mod 4096"
proof -
  have "unat (PGROUNDDOWN a) \<le> unat a" by (simp add: unat_PGROUNDDOWN_div)
  then have "unat (a - PGROUNDDOWN a) = unat a - unat (PGROUNDDOWN a)"
    by (simp add: unat_sub_if')
  then show ?thesis by (simp add: unat_PGROUNDDOWN_div minus_div_mult_eq_mod)
qed

lemma PGROUNDDOWN_eqI: "unat a div 4096 = unat b div 4096 \<Longrightarrow> PGROUNDDOWN a = PGROUNDDOWN b"
  by (simp add: word_unat_eq_iff unat_PGROUNDDOWN_div)

lemma unat_diff_diff:
  assumes "n \<le> 2 ^ 64 - 1" shows "unat ((x :: u64) - of_nat n) = (if n \<le> unat x then unat x - n else 2 ^ 64 + unat x - n)"
proof -
  have "unat (of_nat n :: u64) = n" using assms by simp
  then show ?thesis by (auto simp: unat_sub_if')
qed

lemma unat_add_small: "unat (a :: u64) + n < 2 ^ 64 \<Longrightarrow> unat (a + of_nat n) = unat a + n"
  by (simp add: unat_word_ariths unat_of_nat)

lemma PGROUNDDOWN_same_page:
  assumes "unat a mod 4096 + i < 4096" shows "PGROUNDDOWN (a + of_nat i) = PGROUNDDOWN a"
proof (rule PGROUNDDOWN_eqI)
  define q where "q = unat a div 4096"
  define r where "r = unat a mod 4096"
  have a: "unat a = 4096 * q + r" by (simp add: q_def r_def)
  have r: "r + i < 4096" using assms by (simp add: r_def)
  have "4096 * q < 4096 * 4503599627370496" using unat_u64 [of a] a by simp
  then have "q + 1 \<le> 4503599627370496" by simp
  then have "unat a + i < 2 ^ 64" using a r by simp
  then have "unat (a + of_nat i) = 4096 * q + (r + i)" using unat_add_small a by simp
  then show "unat (a + of_nat i) div 4096 = unat a div 4096" using r a by simp
qed

section \<open>Mapped user addresses\<close>

definition user_mapped :: "u64 \<Rightarrow> u64 \<Rightarrow> 'a kmem_scheme \<Rightarrow> bool" where
  \<comment> \<open>a small page that the user may read is mapped at \<open>va\<close>\<close>
  "user_mapped pt va s \<longleftrightarrow>
     (case walkaddr pt (PGROUNDDOWN va) s of None \<Rightarrow> False | Some pa \<Rightarrow> pa \<noteq> 0 \<and> \<not> IS_SUPPG pa)"

definition user_phys :: "u64 \<Rightarrow> u64 \<Rightarrow> 'a kmem_scheme \<Rightarrow> u64" where
  \<comment> \<open>the physical address of a mapped user address\<close>
  "user_phys pt va s = the (walkaddr pt (PGROUNDDOWN va) s) + (va - PGROUNDDOWN va)"

definition user_byte :: "u64 \<Rightarrow> u64 \<Rightarrow> 'a kmem_scheme \<Rightarrow> u8" where
  "user_byte pt va s = mem s (user_phys pt va s)"

lemma user_mapped_page:
  "user_mapped pt va s \<Longrightarrow> \<exists>pa. walkaddr pt (PGROUNDDOWN va) s = Some pa \<and> pa \<noteq> 0 \<and> \<not> IS_SUPPG pa"
  unfolding user_mapped_def by (auto split: option.splits)

lemma user_page_mapped:
  "walkaddr pt va0 s = Some pa \<Longrightarrow> pa \<noteq> 0 \<Longrightarrow> user_page fault pt va0 s = Some (Some pa, s)"
  by (simp add: user_page_def)

definition page_chunk :: "u64 \<Rightarrow> nat \<Rightarrow> nat" where
  \<comment> \<open>the bytes of a copy of \<open>n\<close> bytes at \<open>va\<close> that lie in its first page\<close>
  "page_chunk va n = min n (4096 - unat va mod 4096)"

lemma page_chunk_pos: "0 < n \<Longrightarrow> 0 < page_chunk va n"
  by (simp add: page_chunk_def)

lemma page_part_small:
  assumes "\<not> IS_SUPPG pa"
  shows "page_part va (PGROUNDDOWN va) pa len = (4096, of_nat (page_chunk va (unat len)))"
proof -
  define k where "k = 4096 - unat va mod 4096"
  define d where "d = 4096 - (va - PGROUNDDOWN va)"
  have diff: "unat (4096 - x) = 4096 - unat x" if "unat x < 4096" for x :: u64
    using that by (simp add: unat_sub_if')
  have k: "unat d = k" unfolding d_def k_def
    using diff [of "va - PGROUNDDOWN va"] unfolding unat_page_offset by simp
  have "k < 2 ^ 64" by (simp add: k_def)
  then have "d = of_nat k" using k by (simp add: word_unat_eq_iff)
  then show ?thesis
    using assms k unfolding page_part_def Let_def d_def [symmetric] page_chunk_def k_def [symmetric]
    by (auto simp: PGSIZE_def d_def [symmetric] min_def word_less_nat_alt word_unat_eq_iff)
qed

section \<open>\<open>copyin\<close>\<close>

lemma copyin_step:
  assumes "user_mapped pt va s" "len \<noteq> 0"
  defines "n \<equiv> page_chunk va (unat len)"
  shows "copyin fault pt obj dst va len s =
    copyin fault pt (mem_copy dst (mem s) (user_phys pt va s) n obj) (dst + of_nat n)
      (PGROUNDDOWN va + 4096) (len - of_nat n) s"
proof -
  obtain pa where pa: "walkaddr pt (PGROUNDDOWN va) s = Some pa" "pa \<noteq> 0" "\<not> IS_SUPPG pa"
    using user_mapped_page [OF assms(1)] by blast
  have "n \<le> unat len" by (simp add: n_def page_chunk_def)
  then have "unat (of_nat n :: u64) = n" using unat_u64 [of len] by simp
  then show ?thesis
    unfolding copyin.simps [of fault pt obj dst va len]
    using assms(2) pa by (simp add: user_page_mapped page_part_small user_phys_def n_def [symmetric] Let_def)
qed

lemma page_chunk_walk:
  assumes "i < page_chunk va n"
  shows "PGROUNDDOWN (va + of_nat i) = PGROUNDDOWN va"
    and "user_phys pt (va + of_nat i) s = user_phys pt va s + of_nat i"
proof -
  show eq: "PGROUNDDOWN (va + of_nat i) = PGROUNDDOWN va"
    by (rule PGROUNDDOWN_same_page) (use assms in \<open>auto simp: page_chunk_def\<close>)
  show "user_phys pt (va + of_nat i) s = user_phys pt va s + of_nat i"
    unfolding user_phys_def eq by (simp add: algebra_simps)
qed

lemma page_chunk_next:
  assumes "page_chunk va n < n" shows "PGROUNDDOWN va + 4096 = va + of_nat (page_chunk va n)"
proof -
  have c: "page_chunk va n = 4096 - unat va mod 4096" using assms by (simp add: page_chunk_def min_def split: if_splits)
  have "of_nat (page_chunk va n) = (4096 :: u64) - of_nat (unat (va - PGROUNDDOWN va))"
    unfolding c unat_page_offset by (subst of_nat_diff) (simp_all add: order.strict_implies_order)
  then show ?thesis by (simp add: algebra_simps)
qed

lemma copyin_spec:
  assumes "\<And>i. i < unat len \<Longrightarrow> user_mapped pt (va + of_nat i) s"
  shows "copyin fault pt obj dst va len s =
    Some (0, \<lambda>a. if unat (a - dst) < unat len then user_byte pt (va + (a - dst)) s else obj a, s)"
  using assms
proof (induction "unat len" arbitrary: len obj dst va rule: less_induct)
  case less
  show ?case
  proof (cases "len = 0")
    case True
    then show ?thesis by (simp add: copyin.simps [of fault pt obj dst va 0])
  next
    case False
    define n where "n = page_chunk va (unat len)"
    have n: "0 < n" "n \<le> unat len" using False by (simp_all add: n_def page_chunk_def unat_gt_0)
    have un: "unat (of_nat n :: u64) = n" using n(2) unat_u64 [of len] by simp
    have ul: "unat (len - of_nat n) = unat len - n" using n(2) un by (simp add: unat_sub_if')
    have nx: "PGROUNDDOWN va + 4096 = va + of_nat n" if "n < unat len"
      using page_chunk_next that by (simp add: n_def)
    let ?obj = "mem_copy dst (mem s) (user_phys pt va s) n obj"
    have "copyin fault pt obj dst va len s =
        copyin fault pt ?obj (dst + of_nat n) (PGROUNDDOWN va + 4096) (len - of_nat n) s"
      unfolding n_def by (rule copyin_step) (use less.prems [of 0] False in \<open>simp_all add: unat_gt_0\<close>)
    also have "\<dots> = copyin fault pt ?obj (dst + of_nat n) (va + of_nat n) (len - of_nat n) s"
    proof (cases "n < unat len")
      case False
      then have "len - of_nat n = 0" using ul n by (simp add: word_unat_eq_iff)
      then show ?thesis by (simp add: copyin.simps [of _ _ _ _ _ 0])
    qed (simp add: nx)
    also have "\<dots> = Some (0, \<lambda>a. if unat (a - (dst + of_nat n)) < unat len - n
        then user_byte pt (va + of_nat n + (a - (dst + of_nat n))) s else ?obj a, s)"
      unfolding ul [symmetric]
    proof (rule less.hyps)
      show "unat (len - of_nat n) < unat len" using ul n by simp
      fix i assume "i < unat (len - of_nat n)"
      then show "user_mapped pt (va + of_nat n + of_nat i) s"
        using less.prems [of "n + i"] ul by (simp add: algebra_simps)
    qed
    also have "(\<lambda>a. if unat (a - (dst + of_nat n)) < unat len - n
        then user_byte pt (va + of_nat n + (a - (dst + of_nat n))) s else ?obj a) =
      (\<lambda>a. if unat (a - dst) < unat len then user_byte pt (va + (a - dst)) s else obj a)"
    proof
      fix a
      let ?i = "unat (a - dst)"
      show "(if unat (a - (dst + of_nat n)) < unat len - n
          then user_byte pt (va + of_nat n + (a - (dst + of_nat n))) s else ?obj a) =
        (if ?i < unat len then user_byte pt (va + (a - dst)) s else obj a)"
      proof (cases "?i < n")
        case True
        have "unat (a - (dst + of_nat n)) = 2 ^ 64 + ?i - n"
        proof -
          have "unat ((a - dst) - of_nat n) = 2 ^ 64 + ?i - n"
            using True n(2) unat_u64 [of len] by (subst unat_diff_diff) auto
          moreover have "a - (dst + of_nat n) = (a - dst) - of_nat n" by simp
          ultimately show ?thesis by (simp only:)
        qed
        then have "\<not> unat (a - (dst + of_nat n)) < unat len - n"
          using unat_u64 [of len] n True by linarith
        moreover have "user_byte pt (va + (a - dst)) s = mem s (user_phys pt va s + (a - dst))"
          using page_chunk_walk(2) [of ?i va "unat len" pt s] True by (simp add: user_byte_def n_def)
        ultimately show ?thesis using True n by (simp add: mem_copy_def)
      next
        case False
        have "unat ((a - dst) - of_nat n) = ?i - n"
          using False n(2) unat_u64 [of len] by (subst unat_diff_diff) auto
        moreover have eq: "a - (dst + of_nat n) = (a - dst) - of_nat n" by simp
        ultimately have "unat (a - (dst + of_nat n)) = ?i - n" by (simp only:)
        moreover have "va + of_nat n + (a - (dst + of_nat n)) = va + (a - dst)" by simp
        ultimately show ?thesis using False by (auto simp: mem_copy_def)
      qed
    qed
    finally show ?thesis .
  qed
qed

section \<open>The walk on a three-level table\<close>

definition table_pte :: "u64 \<Rightarrow> bool" where
  \<comment> \<open>an entry that points to the next level\<close>
  "table_pte e \<longleftrightarrow> e AND PTE_V \<noteq> 0 \<and> e AND PTE_R = 0 \<and> e AND PTE_X = 0"

lemma walk_get_levels:
  assumes "va < MAXVA" "ld64 (mem s) (pte_addr pt 2 va) = e2" "table_pte e2"
    and "ld64 (mem s) (pte_addr (PTE2PA e2) 1 va) = e1" "table_pte e1"
  shows "walk_get pt va s = Some (pte_addr (PTE2PA e1) 0 va)"
  using assms unfolding walk_get_def walk_def table_pte_def
  by (simp add: walk_loop.simps [of _ 2] walk_loop.simps [of _ 1] walk_loop.simps [of _ 0]
      walk_loop.simps [of _ "Suc 0"] Let_def SUPPGSIZE_def not_le)

lemma walk_get_super:
  assumes "va < MAXVA" "ld64 (mem s) (pte_addr pt 2 va) = e2" "table_pte e2"
    and "ld64 (mem s) (pte_addr (PTE2PA e2) 1 va) = e1" "e1 AND PTE_V \<noteq> 0" "e1 AND PTE_R \<noteq> 0"
  shows "walk_get pt va s = Some (pte_addr (PTE2PA e2) 1 va)"
  using assms unfolding walk_get_def walk_def table_pte_def
  by (simp add: walk_loop.simps [of _ 2] walk_loop.simps [of _ 1] walk_loop.simps [of _ "Suc 0"]
      Let_def SUPPGSIZE_def not_le)

lemma ranges_disjointI:
  assumes "n \<le> unat (b - a)" "k \<le> unat (a - b)" shows "ranges_disjoint a n b k"
  unfolding ranges_disjoint_def
proof (intro allI impI notI)
  fix i j assume i: "i < n" and j: "j < k" and eq: "a + of_nat i = b + of_nat j"
  have n: "n < 2 ^ 64" "k < 2 ^ 64" using assms unat_u64 [of "b - a"] unat_u64 [of "a - b"] by auto
  have ui: "unat (of_nat i :: u64) = i" "unat (of_nat j :: u64) = j" using i j n by auto
  show False
  proof (cases "j \<le> i")
    case True
    then have "b - a = of_nat (i - j)" using eq by (simp add: algebra_simps of_nat_diff)
    then have "unat (b - a) = i - j" using i n by simp
    then show False using assms(1) i by simp
  next
    case False
    then have "a - b = of_nat (j - i)" using eq by (simp add: algebra_simps of_nat_diff)
    then have "unat (a - b) = j - i" using j n by simp
    then show False using assms(2) j by simp
  qed
qed

lemma ld64_st64_apart:
  "8 \<le> unat (b - a) \<Longrightarrow> 8 \<le> unat (a - b) \<Longrightarrow> ld64 (st64 a v m) b = ld64 m b"
  by (intro ld_st_disjoint ranges_disjointI)

lemma st64_apart: "8 \<le> unat (b - a) \<Longrightarrow> st64 a v m b = m b"
proof -
  assume "8 \<le> unat (b - a)"
  then have "b \<noteq> a + of_nat i" if "i < 8" for i using that by auto
  then show ?thesis unfolding st64_def by (intro stn_other) auto
qed

end
