(* ===== verification/Machine.thy ===== *)
theory Machine
  imports ProcLife UserMem
begin

text \<open>
  A concrete machine for the examples: one process with a page table of three levels that maps
  the user pages 0x1000 and 0x2000 and the user super page 0x200000, at power-on otherwise.
\<close>

definition zero_proc :: proc where
  "zero_proc = \<lparr>pstate = UNUSED, pchan = NoChan, pkilled = 0, pxstate = 0, ppid = 0, pparent = None,
     pkstack = 0, ptshared = 0, ppagetable = 0, ptrapframe = 0, pusyscall = 0, ctx_ra = 0, ctx_sp = 0,
     pofile = (\<lambda>_. None), pcwd = None, pname = (\<lambda>_. 0), ptrace_arg = 0, ppending = 0, ptmp_sa_mask = 0,
     psa_mask = 0, psa_handler = (\<lambda>_. 0), psa_trapframe = 0, palarminterval = 0, ptickspassed = 0,
     ptrap_va = 0, pisthread = False, ptstack = 0\<rparr>"

definition zero_pipe :: pipe where
  "zero_pipe = \<lparr>pi_data = (\<lambda>_. 0), pi_nread = 0, pi_nwrite = 0, pi_readopen = False, pi_writeopen = False\<rparr>"

definition zero_file :: ofilerec where
  "zero_file = \<lparr>f_type = FD_NONE, f_ref = 0, f_readable = False, f_writable = False, f_pipe = 0, f_ip = 0,
     f_sock = 0, f_off = 0, f_major = 0\<rparr>"

definition zero_inode :: inode where
  "zero_inode = \<lparr>i_dev = 0, i_inum = 0, i_ref = 0, i_valid = False, i_type = 0, i_major = 0, i_minor = 0,
     i_nlink = 0, i_size = 0, i_addrs = (\<lambda>_. 0)\<rparr>"

definition machine_pt :: u64 where "machine_pt = 0x87000000"

definition machine_mem :: bytes where
  \<comment> \<open>every byte holds the low byte of its address plus its page number, but for the five page table entries\<close>
  "machine_mem = st64 0x87000000 (PA2PTE 0x87001000 OR PTE_V)
     (st64 0x87001000 (PA2PTE 0x87002000 OR PTE_V)
     (st64 0x87001008 (PA2PTE 0x88000000 OR 0x17)
     (st64 0x87002008 (PA2PTE 0x87003000 OR 0x17)
     (st64 0x87002010 (PA2PTE 0x87005000 OR 0x17) (\<lambda>a. of_nat (unat a + unat a div 4096))))))"

definition machine :: kfile where
  "machine = \<lparr>cpuid = 0, mypid = 1, noff = 0, lk = (\<lambda>_. None), sl = (\<lambda>_. None), mem = machine_mem,
     kend = 0x80100000, freelist = (\<lambda>_. 0), super_freelist = 0, ref_cnt = (\<lambda>_. 0), savedpg = 0, savedbyte = 0,
     procs = (\<lambda>_. zero_proc)(0 := zero_proc\<lparr>pstate := RUNNING, ppid := 1, ppagetable := machine_pt\<rparr>),
     curp = 0, tshareds = (\<lambda>_. \<lparr>ts_sz = 0, vm_areas = (\<lambda>_. zero_vma)\<rparr>), trapframes = (\<lambda>_. zero_trapframe),
     usyspages = (\<lambda>_. 0), nextpid = 2, initproc = None, shproc = None, fgproc_mask = 0,
     trampoline = 0x80000000, forkret = 0x80001000,
     bufs = (\<lambda>_. \<lparr>b_valid = False, b_dev = 0, b_blockno = 0, b_data = (\<lambda>_. 0), b_daddr = 0,
                b_qnext = 0, b_in_q = 0\<rparr>),
     hashtable = (\<lambda>_. 0), bq_head = 0, bq_tail = 0, disk = (\<lambda>_ _. 0), writes = [],
     swappg_refcnt = (\<lambda>_. 0), pg_age = (\<lambda>_. 0), swapstart = 0,
     log_start = 2, log_size = 31, outstanding = 0, committing = False, log_dev = 1, lh_n = 0, lh_block = (\<lambda>_. 0),
     sb = \<lparr>sb_magic = 0x10203040, sb_size = 2000, sb_nblocks = 1941, sb_ninodes = 200, sb_nlog = 30,
           sb_logstart = 2, sb_inodestart = 32, sb_bmapstart = 45, sb_swapstart = 46\<rparr>,
     itable = (\<lambda>_. zero_inode), dirent_buf = (\<lambda>_. 0),
     ftable = (\<lambda>_. zero_file), pipes = (\<lambda>_. zero_pipe)\<rparr>"

lemma machine_entries:
  "ld64 machine_mem 0x87000000 = PA2PTE 0x87001000 OR PTE_V"
  "ld64 machine_mem 0x87001000 = PA2PTE 0x87002000 OR PTE_V"
  "ld64 machine_mem 0x87002008 = PA2PTE 0x87003000 OR 0x17"
  "ld64 machine_mem 0x87001008 = PA2PTE 0x88000000 OR 0x17"
  "ld64 machine_mem 0x87002010 = PA2PTE 0x87005000 OR 0x17"
  unfolding machine_mem_def by (simp_all add: ld64_st64_apart)

lemma machine_entry_parts:
  "PTE2PA (PA2PTE 0x87001000 OR PTE_V) = 0x87001000" "PTE2PA (PA2PTE 0x87002000 OR PTE_V) = 0x87002000"
  "table_pte (PA2PTE 0x87001000 OR PTE_V)" "table_pte (PA2PTE 0x87002000 OR PTE_V)"
  "PTE2PA (PA2PTE 0x87003000 OR 0x17) = 0x87003000" "PTE2PA (PA2PTE 0x87005000 OR 0x17) = 0x87005000"
  "PTE2PA (PA2PTE 0x88000000 OR 0x17) = 0x88000000"
  "(PA2PTE 0x88000000 OR 0x17) AND PTE_V \<noteq> 0" "(PA2PTE 0x88000000 OR 0x17) AND PTE_R \<noteq> 0"
  by (simp_all add: pte_defs table_pte_def push_bit_eq_mult drop_bit_eq_div)

lemma machine_walk:
  "walk_get machine_pt 0x1000 machine = Some 0x87002008"
  "walk_get machine_pt 0x2000 machine = Some 0x87002010"
  by (subst walk_get_levels [where ?e2.0 = "PA2PTE 0x87001000 OR PTE_V" and ?e1.0 = "PA2PTE 0x87002000 OR PTE_V"];
      simp add: machine_def machine_entries machine_entry_parts pte_addr_def PX_def machine_pt_def MAXVA_def
        drop_bit_eq_div)+

lemma machine_walk_super: "walk_get machine_pt 0x201000 machine = Some 0x87001008"
  by (subst walk_get_super [where ?e2.0 = "PA2PTE 0x87001000 OR PTE_V" and ?e1.0 = "PA2PTE 0x88000000 OR 0x17"];
      simp add: machine_def machine_entries machine_entry_parts pte_addr_def PX_def machine_pt_def MAXVA_def
        drop_bit_eq_div)

lemma machine_walkaddr:
  "walkaddr machine_pt 0x1000 machine = Some 0x87003000"
  "walkaddr machine_pt 0x2000 machine = Some 0x87005000"
  "walkaddr machine_pt 0x201000 machine = Some 0x88000000"
  using machine_walk machine_walk_super
  by (simp_all add: walkaddr_def pte_at_def machine_def machine_entries machine_entry_parts MAXVA_def pte_defs)

lemma machine_byte: "a < 0x87000000 \<or> a \<ge> 0x87003000 \<Longrightarrow> mem machine a = of_nat (unat a + unat a div 4096)"
proof -
  assume a: "a < 0x87000000 \<or> a \<ge> 0x87003000"
  have far: "8 \<le> unat (a - b)" if b: "0x87000000 \<le> b" "b \<le> 0x87002010" for b :: u64
  proof -
    have B: "2264924160 \<le> unat b" "unat b \<le> 2264932368" using b by (simp_all add: word_le_nat_alt)
    have "unat a < 2264924160 \<or> 2264936448 \<le> unat a" using a by (simp add: word_le_nat_alt word_less_nat_alt)
    then show ?thesis
      using B by (cases "unat b \<le> unat a") (auto simp: unat_sub_if')
  qed
  show ?thesis unfolding machine_def machine_mem_def by (simp add: st64_apart far)
qed

end
