(* ===== verification/MemProps.thy ===== *)
theory MemProps
  imports Machine
begin

text \<open>
  Properties of the page tables and of the copies between kernel and user memory
  (\<open>kernel/vm.c\<close>).
\<close>

section \<open>What a walk reads\<close>

fun walk_reads :: "nat \<Rightarrow> u64 \<Rightarrow> u64 \<Rightarrow> 'a kmem_scheme \<Rightarrow> u64 list" where
  \<comment> \<open>the page table entries \<open>walk\<close> looks at on the way to the entry of \<open>va\<close>, this one included\<close>
  "walk_reads 0 pt va s = [pte_addr pt 0 va]"
| "walk_reads (Suc level) pt va s =
     pte_addr pt (Suc level) va #
       walk_reads level (PTE2PA (ld64 (mem s) (pte_addr pt (Suc level) va))) va s"

lemma walk_reads_2:
  "walk_reads 2 pt va s = (let a = pte_addr pt 2 va; b = pte_addr (PTE2PA (ld64 (mem s) a)) 1 va
     in [a, b, pte_addr (PTE2PA (ld64 (mem s) b)) 0 va])"
  by (simp add: numeral_2_eq_2 Let_def)

lemma walk_loop_cong:
  assumes "\<And>p. p \<in> set (walk_reads level pt va s) \<Longrightarrow> ld64 (mem t) p = ld64 (mem s) p"
  shows "map_option fst (walk_loop (\<lambda>s. None) level 0 pt va 0 t) =
    map_option fst (walk_loop (\<lambda>s. None) level 0 pt va 0 s)"
  using assms
proof (induction level arbitrary: pt)
  case 0
  show ?case unfolding walk_loop.simps [of _ 0] by simp
next
  case (Suc level)
  define lv where "lv = Suc level"
  have lv: "lv - 1 = level" "0 < lv" by (simp_all add: lv_def)
  have e: "ld64 (mem t) (pte_addr pt lv va) = ld64 (mem s) (pte_addr pt lv va)"
    using Suc.prems by (simp add: lv_def)
  have IH: "map_option fst (walk_loop (\<lambda>s. None) level 0 (PTE2PA (ld64 (mem s) (pte_addr pt lv va))) va 0 t) =
      map_option fst (walk_loop (\<lambda>s. None) level 0 (PTE2PA (ld64 (mem s) (pte_addr pt lv va))) va 0 s)"
    by (rule Suc.IH) (use Suc.prems in \<open>simp add: lv_def\<close>)
  show ?case
    unfolding lv_def [symmetric] walk_loop.simps [of _ lv] Let_def lv e using IH by (simp add: lv)
qed

lemma walk_get_cong:
  assumes "\<And>p. p \<in> set (walk_reads 2 pt va s) \<Longrightarrow> ld64 (mem t) p = ld64 (mem s) p"
  shows "walk_get pt va t = walk_get pt va s"
  unfolding walk_get_def walk_def using walk_loop_cong [of 2 pt va s t, OF assms]
  by (simp add: SUPPGSIZE_def)

lemma walk_get_read:
  assumes "walk_get pt va s = Some p" "p \<noteq> 0" shows "p \<in> set (walk_reads 2 pt va s)"
proof -
  have "p \<in> set (walk_reads level pt va s)"
    if "map_option fst (walk_loop (\<lambda>s. None) level 0 pt va 0 s) = Some p" for level pt
    using that
  proof (induction level arbitrary: pt)
    case 0
    then show ?case unfolding walk_loop.simps [of _ 0] by simp
  next
    case (Suc level)
    define lv where "lv = Suc level"
    have lv: "lv - 1 = level" "0 < lv" by (simp_all add: lv_def)
    have r: "walk_reads lv pt va s =
        pte_addr pt lv va # walk_reads level (PTE2PA (ld64 (mem s) (pte_addr pt lv va))) va s"
      by (simp add: lv_def)
    show ?case
      using Suc.prems Suc.IH [of "PTE2PA (ld64 (mem s) (pte_addr pt lv va))"] assms(2)
      unfolding lv_def [symmetric] r walk_loop.simps [of _ lv] Let_def lv
      by (auto simp: lv split: if_splits)
  qed
  then show ?thesis using assms(1) unfolding walk_get_def walk_def
    by (auto simp: SUPPGSIZE_def split: if_splits)
qed

section \<open>\<open>copyout\<close>\<close>

definition user_writable :: "u64 \<Rightarrow> u64 \<Rightarrow> 'a kmem_scheme \<Rightarrow> bool" where
  \<comment> \<open>a small page the user may write is mapped at \<open>va\<close>\<close>
  "user_writable pt va s \<longleftrightarrow> PGROUNDDOWN va < MAXVA \<and>
     (case walk_get pt (PGROUNDDOWN va) s of None \<Rightarrow> False
      | Some p \<Rightarrow> p \<noteq> 0 \<and> pte_at s p AND PTE_V \<noteq> 0 \<and> pte_at s p AND PTE_U \<noteq> 0 \<and>
                  pte_at s p AND PTE_W \<noteq> 0 \<and> PTE2PA (pte_at s p) \<noteq> 0 \<and> \<not> IS_SUPPG (PTE2PA (pte_at s p)))"

fun user_store :: "nat \<Rightarrow> u64 \<Rightarrow> u64 \<Rightarrow> bytes \<Rightarrow> u64 \<Rightarrow> 'a kmem_scheme \<Rightarrow> bytes \<Rightarrow> bytes" where
  \<comment> \<open>the byte-wise copy of \<open>n\<close> bytes through the page table of \<open>s\<close>, first byte first\<close>
  "user_store 0 pt va obj src s m = m"
| "user_store (Suc n) pt va obj src s m =
     user_store n pt (va + 1) obj (src + 1) s (m(user_phys pt va s := obj src))"

definition tables_apart :: "nat \<Rightarrow> u64 \<Rightarrow> u64 \<Rightarrow> 'a kmem_scheme \<Rightarrow> bool" where
  \<comment> \<open>no byte of the user range lies in a page table entry that maps the range\<close>
  "tables_apart n pt va s \<longleftrightarrow>
     (\<forall>i < n. \<forall>j < n. \<forall>p \<in> set (walk_reads 2 pt (PGROUNDDOWN (va + of_nat i)) s). \<forall>k < 8.
        user_phys pt (va + of_nat j) s \<noteq> p + of_nat k)"

lemma user_store_add:
  "user_store (a + b) pt va obj src s m =
     user_store b pt (va + of_nat a) obj (src + of_nat a) s (user_store a pt va obj src s m)"
  by (induction a arbitrary: va src m) (simp_all add: algebra_simps)

lemma user_store_other:
  "(\<And>i. i < n \<Longrightarrow> user_phys pt (va + of_nat i) s \<noteq> a) \<Longrightarrow> user_store n pt va obj src s m a = m a"
proof (induction n arbitrary: va src m)
  case (Suc n)
  have "user_store n pt (va + 1) obj (src + 1) s (m(user_phys pt va s := obj src)) a =
      (m(user_phys pt va s := obj src)) a"
    by (rule Suc.IH) (use Suc.prems [of "Suc _"] in \<open>simp add: algebra_simps\<close>)
  then show ?case using Suc.prems [of 0] by simp
qed simp

lemma user_store_contiguous:
  assumes "\<And>i. i < n \<Longrightarrow> user_phys pt (va + of_nat i) s = pa + of_nat i" "n < 2 ^ 64"
  shows "user_store n pt va obj src s m = mem_copy pa obj src n m"
  using assms
proof (induction n arbitrary: va src pa m)
  case (Suc n)
  have "user_phys pt va s = pa" using Suc.prems(1) [of 0] by simp
  moreover have "user_store n pt (va + 1) obj (src + 1) s (m(pa := obj src)) =
      mem_copy (pa + 1) obj (src + 1) n (m(pa := obj src))"
    by (rule Suc.IH) (use Suc.prems(1) [of "Suc _"] Suc.prems(2) in \<open>simp_all add: algebra_simps\<close>)
  moreover have "mem_copy (pa + 1) obj (src + 1) n (m(pa := obj src)) = mem_copy pa obj src (Suc n) m"
  proof
    fix a
    show "mem_copy (pa + 1) obj (src + 1) n (m(pa := obj src)) a = mem_copy pa obj src (Suc n) m a"
    proof (cases "a = pa")
      case True
      have "pa - (pa + 1) = - 1" by simp
      moreover have "unat (- 1 :: u64) = 2 ^ 64 - 1"
        unfolding unsigned_minus_1_eq_mask by (simp add: mask_eq_exp_minus_1)
      ultimately have "unat (pa - (pa + 1)) = 2 ^ 64 - 1" by (simp only:)
      then show ?thesis using True Suc.prems(2) by (simp add: mem_copy_def del: diff_add_eq_diff_diff_swap)
    next
      case False
      then show ?thesis by (simp add: mem_copy_def offset_lt_Suc algebra_simps)
    qed
  qed
  ultimately show ?case by simp
qed simp

lemma page_chunk_va_walk:
  "i < page_chunk va n \<Longrightarrow> PGROUNDDOWN (va + of_nat i) = PGROUNDDOWN va \<and>
     user_phys pt (va + of_nat i) s = user_phys pt va s + of_nat i"
  using page_chunk_walk by blast

lemma user_writable_phys:
  assumes "user_writable pt va s" "walk_get pt (PGROUNDDOWN va) s = Some p"
  shows "user_phys pt va s = PTE2PA (pte_at s p) + (va - PGROUNDDOWN va)"
  using assms by (auto simp: user_writable_def user_phys_def walkaddr_def)

lemma copyout_step:
  assumes "user_writable pt va s" "len \<noteq> 0"
  defines "n \<equiv> page_chunk va (unat len)"
  shows "copyout fault pt va obj src len s =
    copyout fault pt (PGROUNDDOWN va + 4096) obj (src + of_nat n) (len - of_nat n)
      (s\<lparr>mem := mem_copy (user_phys pt va s) obj src n (mem s)\<rparr>)"
proof -
  obtain p where p: "walk_get pt (PGROUNDDOWN va) s = Some p" "p \<noteq> 0" "pte_at s p AND PTE_V \<noteq> 0"
      "pte_at s p AND PTE_U \<noteq> 0" "pte_at s p AND PTE_W \<noteq> 0" "\<not> IS_SUPPG (PTE2PA (pte_at s p))"
      "\<not> MAXVA \<le> PGROUNDDOWN va"
    using assms(1) unfolding user_writable_def by (auto split: option.splits)
  have "n \<le> unat len" by (simp add: n_def page_chunk_def)
  then have "unat (of_nat n :: u64) = n" using unat_u64 [of len] by simp
  then show ?thesis
    unfolding copyout.simps [of fault pt va obj src len] user_writable_phys [OF assms(1) p(1)]
    using assms(2) p by (simp add: page_part_small n_def [symmetric] Let_def)
qed

definition stored :: "nat \<Rightarrow> u64 \<Rightarrow> u64 \<Rightarrow> bytes \<Rightarrow> u64 \<Rightarrow> 'a kmem_scheme \<Rightarrow> 'a kmem_scheme" where
  \<comment> \<open>the state after \<open>k\<close> bytes have been stored\<close>
  "stored k pt va obj src s = s\<lparr>mem := user_store k pt va obj src s (mem s)\<rparr>"

text \<open>Storing bytes of the range keeps the mapping of the range.\<close>

lemma stored_keeps:
  assumes "\<And>i. i < n \<Longrightarrow> user_writable pt (va + of_nat i) s" "tables_apart n pt va s" "k \<le> n" "i < n"
    and "mem t = mem (stored k pt va obj src s)"
  shows "user_writable pt (va + of_nat i) t"
    and "user_phys pt (va + of_nat i) t = user_phys pt (va + of_nat i) s"
    and "walk_reads 2 pt (PGROUNDDOWN (va + of_nat i)) t = walk_reads 2 pt (PGROUNDDOWN (va + of_nat i)) s"
proof -
  let ?a = "PGROUNDDOWN (va + of_nat i)"
  have keep: "ld64 (mem t) p = ld64 (mem s) p" if p: "p \<in> set (walk_reads 2 pt ?a s)" for p
  proof -
    have "mem t (p + of_nat j) = mem s (p + of_nat j)" if j: "j < 8" for j
      using assms(2-) p j by (auto simp: stored_def tables_apart_def intro!: user_store_other)
    then show ?thesis unfolding ld64_def by (intro arg_cong [where f = of_nat] ldn_cong) auto
  qed
  have walk: "walk_get pt ?a t = walk_get pt ?a s" by (rule walk_get_cong) (rule keep)
  obtain p where p: "walk_get pt ?a s = Some p" "p \<noteq> 0"
    using assms(1) [OF assms(4)] by (cases "walk_get pt ?a s") (auto simp: user_writable_def)
  have pte: "pte_at t p = pte_at s p" unfolding pte_at_def by (rule keep [OF walk_get_read [OF p]])
  show W: "user_writable pt (va + of_nat i) t"
    using assms(1) [OF assms(4)] p walk pte by (simp add: user_writable_def)
  show "user_phys pt (va + of_nat i) t = user_phys pt (va + of_nat i) s"
    using user_writable_phys [OF W] user_writable_phys [OF assms(1) [OF assms(4)]] walk p pte by simp
  show "walk_reads 2 pt ?a t = walk_reads 2 pt ?a s"
    using keep by (simp add: walk_reads_2 Let_def)
qed

lemma copyout_spec:
  assumes "\<And>i. i < unat len \<Longrightarrow> user_writable pt (va + of_nat i) s" "tables_apart (unat len) pt va s"
  shows "copyout fault pt va obj src len s = Some (0, s\<lparr>mem := user_store (unat len) pt va obj src s (mem s)\<rparr>)"
proof -
  define N where "N = unat len"
  define st where "st k = stored k pt va obj src s" for k
  have K: "user_writable pt (va + of_nat i) (st k)" "user_phys pt (va + of_nat i) (st k) = user_phys pt (va + of_nat i) s"
    if "k \<le> N" "i < N" for k i
    using stored_keeps(1,2) [OF assms(1)] assms(2) that unfolding N_def st_def by blast+
  have "copyout fault pt (va + of_nat k) obj (src + of_nat k) (len - of_nat k) (st k) = Some (0, st N)"
    if "k \<le> N" for k
    using that
  proof (induction "N - k" arbitrary: k rule: less_induct)
    case less
    have N: "N < 2 ^ 64" unfolding N_def by (rule unat_u64)
    have lk: "unat (len - of_nat k) = N - k" using less.prems N by (subst unat_diff_diff) (auto simp: N_def)
    show ?case
    proof (cases "k = N")
      case True
      then have "len - of_nat k = 0" by (simp add: N_def)
      then show ?thesis using True by (simp add: copyout.simps [of _ _ _ _ _ 0])
    next
      case False
      define n where "n = page_chunk (va + of_nat k) (N - k)"
      have n: "0 < n" "n \<le> N - k" "k + n \<le> N" using False less.prems by (auto simp: n_def page_chunk_def)
      have ne: "len - of_nat k \<noteq> 0" using lk False less.prems by (metis diff_is_0_eq le_antisym unat_eq_0)
      have "user_store n pt (va + of_nat k) obj (src + of_nat k) s (mem (st k)) =
          mem_copy (user_phys pt (va + of_nat k) s) obj (src + of_nat k) n (mem (st k))"
      proof (rule user_store_contiguous)
        fix i assume i: "i < n"
        show "user_phys pt (va + of_nat k + of_nat i) s = user_phys pt (va + of_nat k) s + of_nat i"
          by (rule page_chunk_walk(2) [of i _ "N - k"]) (use i in \<open>simp add: n_def\<close>)
      qed (use n N in simp)
      then have m: "mem_copy (user_phys pt (va + of_nat k) (st k)) obj (src + of_nat k) n (mem (st k)) = mem (st (k + n))"
        using K(2) [of k k] less.prems False by (simp add: st_def stored_def user_store_add)
      have "copyout fault pt (va + of_nat k) obj (src + of_nat k) (len - of_nat k) (st k) =
          copyout fault pt (PGROUNDDOWN (va + of_nat k) + 4096) obj (src + of_nat k + of_nat n)
            (len - of_nat k - of_nat n) ((st k)\<lparr>mem := mem (st (k + n))\<rparr>)"
        using copyout_step [OF K(1) [of k k] ne] less.prems False m by (simp add: lk n_def)
      also have "(st k)\<lparr>mem := mem (st (k + n))\<rparr> = st (k + n)" by (simp add: st_def stored_def)
      also have "copyout fault pt (PGROUNDDOWN (va + of_nat k) + 4096) obj (src + of_nat k + of_nat n)
            (len - of_nat k - of_nat n) (st (k + n)) =
          copyout fault pt (va + of_nat (k + n)) obj (src + of_nat (k + n)) (len - of_nat (k + n)) (st (k + n))"
      proof (cases "n < N - k")
        case True
        then show ?thesis using page_chunk_next [of "va + of_nat k" "N - k"] by (simp add: n_def algebra_simps)
      next
        case False
        then have "k + n = N" using n by simp
        then have "len - of_nat (k + n) = 0" by (simp add: N_def)
        moreover from this have "len - of_nat k - of_nat n = 0" by (simp add: algebra_simps)
        ultimately show ?thesis by (simp only: copyout.simps [of _ _ _ _ _ 0] simp_thms if_True)
      qed
      also have "\<dots> = Some (0, st N)" by (rule less.hyps) (use n False less.prems in auto)
      finally show ?thesis .
    qed
  qed
  from this [of 0] show ?thesis by (simp add: st_def stored_def N_def)
qed

text \<open>These notions depend on the memory only.\<close>

lemma walk_get_mem: "mem t = mem s \<Longrightarrow> walk_get pt va t = walk_get pt va s"
  by (rule walk_get_cong) simp

lemma user_same_mem:
  assumes "mem t = mem s"
  shows "user_mapped pt va t = user_mapped pt va s" "user_phys pt va t = user_phys pt va s"
    "user_byte pt va t = user_byte pt va s" "user_writable pt va t = user_writable pt va s"
    "walk_reads 2 pt va t = walk_reads 2 pt va s"
proof -
  have pte: "pte_at t = pte_at s" by (simp add: pte_at_def fun_eq_iff assms)
  have w: "walkaddr pt a t = walkaddr pt a s" for a
    unfolding walkaddr_def walk_get_mem [OF assms] pte by (rule refl)
  show "user_mapped pt va t = user_mapped pt va s" by (simp add: user_mapped_def w)
  show p: "user_phys pt va t = user_phys pt va s" by (simp add: user_phys_def w)
  show "user_byte pt va t = user_byte pt va s" by (simp add: user_byte_def p assms)
  show "user_writable pt va t = user_writable pt va s"
    unfolding user_writable_def walk_get_mem [OF assms] pte by (rule refl)
  show "walk_reads 2 pt va t = walk_reads 2 pt va s" by (simp add: walk_reads_2 assms)
qed

section \<open>The machine's pages\<close>

lemma machine_pages:
  "PGROUNDDOWN 0x1FFE = 0x1000" "PGROUNDDOWN 0x1FFF = 0x1000" "PGROUNDDOWN 0x2000 = 0x2000" "PGROUNDDOWN 0x2001 = 0x2000"
  by (simp_all add: PGROUNDDOWN_def)

lemma machine_user_phys:
  "user_phys machine_pt 0x1FFE machine = 0x87003FFE" "user_phys machine_pt 0x1FFF machine = 0x87003FFF"
  "user_phys machine_pt 0x2000 machine = 0x87005000" "user_phys machine_pt 0x2001 machine = 0x87005001"
  by (simp_all add: user_phys_def machine_pages machine_walkaddr)

lemma machine_user_mapped:
  "user_mapped machine_pt 0x1FFE machine" "user_mapped machine_pt 0x1FFF machine"
  "user_mapped machine_pt 0x2000 machine" "user_mapped machine_pt 0x2001 machine"
  by (simp_all add: user_mapped_def machine_pages machine_walkaddr IS_SUPPG_def PHYSTOP_def KERNBASE_def PLIC_def)

lemma machine_user_writable:
  "user_writable machine_pt 0x1FFE machine" "user_writable machine_pt 0x1FFF machine"
  "user_writable machine_pt 0x2000 machine" "user_writable machine_pt 0x2001 machine"
proof -
  have e: "PA2PTE 0x87003000 OR 0x17 = 0x21C00C17" "PA2PTE 0x87005000 OR 0x17 = 0x21C01417"
    by (simp_all add: PA2PTE_def push_bit_eq_mult drop_bit_eq_div)
  have p: "pte_at machine 0x87002008 = 0x21C00C17" "pte_at machine 0x87002010 = 0x21C01417"
    by (simp_all add: pte_at_def machine_def machine_entries e)
  have a: "PTE2PA 0x21C00C17 = 0x87003000" "PTE2PA 0x21C01417 = 0x87005000"
    by (simp_all add: PTE2PA_def drop_bit_eq_div push_bit_eq_mult)
  show "user_writable machine_pt 0x1FFE machine" "user_writable machine_pt 0x1FFF machine"
    "user_writable machine_pt 0x2000 machine" "user_writable machine_pt 0x2001 machine"
    unfolding user_writable_def machine_pages machine_walk
    by (simp_all add: p a MAXVA_def PTE_V_def PTE_U_def PTE_W_def IS_SUPPG_def PHYSTOP_def KERNBASE_def PLIC_def)
qed

lemma machine_walk_reads:
  "walk_reads 2 machine_pt 0x1000 machine = [0x87000000, 0x87001000, 0x87002008]"
  "walk_reads 2 machine_pt 0x2000 machine = [0x87000000, 0x87001000, 0x87002010]"
  by (simp_all add: walk_reads_2 Let_def machine_pt_def pte_addr_def PX_def drop_bit_eq_div machine_def
      machine_entries machine_entry_parts)

section \<open>Properties\<close>

text \<open>C10: \<open>copyin\<close> from mapped user pages returns 0 and copies exactly the bytes the page table
  maps, also across page boundaries and to physical pages that are not adjacent; it changes
  nothing else, neither in the kernel object nor in the machine.\<close>
theorem copyin_copies_user_bytes:
  assumes "\<And>i. i < unat len \<Longrightarrow> user_mapped pt (va + of_nat i) s"
  shows "copyin fault pt obj dst va len s =
    Some (0, \<lambda>a. if unat (a - dst) < unat len then user_byte pt (va + (a - dst)) s else obj a, s)"
  by (rule copyin_spec) (rule assms)

lemma less_4_cases: "i < unat (4 :: u64) \<Longrightarrow> i = 0 \<or> i = 1 \<or> i = 2 \<or> i = 3"
proof -
  assume "i < unat (4 :: u64)"
  then have "i < 4" by simp
  then show ?thesis by arith
qed

lemma user_store_4:
  "user_store 4 pt va obj src s m = m(user_phys pt va s := obj src, user_phys pt (va + 1) s := obj (src + 1),
     user_phys pt (va + 1 + 1) s := obj (src + 1 + 1), user_phys pt (va + 1 + 1 + 1) s := obj (src + 1 + 1 + 1))"
  by (simp add: eval_nat_numeral)

theorem copyin_copies_user_bytes_witness:
  "\<exists>obj. copyin (\<lambda>_ _ s. Some (-1, s)) machine_pt (\<lambda>_. 0) 10 0x1FFE 4 machine = Some (0, obj, machine) \<and>
    obj 9 = 0 \<and> obj 10 = 1 \<and> obj 11 = 2 \<and> obj 12 = 5 \<and> obj 13 = 6 \<and> obj 14 = 0"
proof -
  have "user_mapped machine_pt (0x1FFE + of_nat i) machine" if "i < unat (4 :: u64)" for i
    using less_4_cases [OF that] machine_user_mapped by auto
  note C = copyin_copies_user_bytes [where len = 4, OF this, where fault = "\<lambda>_ _ s. Some (-1, s)" and obj = "\<lambda>_. 0" and dst = 10]
  show ?thesis
    using C by (simp add: user_byte_def machine_user_phys machine_byte unsigned_minus_1_eq_mask mask_eq_exp_minus_1)
qed

text \<open>C11: \<open>copyout\<close> to mapped writable user pages returns 0 and has stored the bytes one by one
  through the page table, first byte first (which decides when two user pages share a frame);
  nothing but memory changes. The range must not contain the page table entries that map it.\<close>
theorem copyout_stores_user_bytes:
  assumes "\<And>i. i < unat len \<Longrightarrow> user_writable pt (va + of_nat i) s" "tables_apart (unat len) pt va s"
  shows "copyout fault pt va obj src len s = Some (0, s\<lparr>mem := user_store (unat len) pt va obj src s (mem s)\<rparr>)"
  by (rule copyout_spec) (rule assms, assumption, rule assms)

lemma machine_tables_apart: "tables_apart (unat (4 :: u64)) machine_pt 0x1FFE machine"
  unfolding tables_apart_def
proof (intro allI impI ballI notI)
  fix i j p k
  assume i: "i < unat (4 :: u64)" and j: "j < unat (4 :: u64)" and k: "k < (8 :: nat)"
    and p: "p \<in> set (walk_reads 2 machine_pt (PGROUNDDOWN (0x1FFE + of_nat i)) machine)"
    and eq: "user_phys machine_pt (0x1FFE + of_nat j) machine = p + of_nat k"
  have "p \<in> {0x87000000, 0x87001000, 0x87002008, 0x87002010}"
    using p less_4_cases [OF i] by (auto simp: machine_pages machine_walk_reads)
  then have "unat (p + of_nat k) < 0x87003000"
    using k by (auto simp: unat_add_small)
  moreover have "0x87003000 \<le> unat (user_phys machine_pt (0x1FFE + of_nat j) machine)"
    using less_4_cases [OF j] by (auto simp: machine_user_phys)
  ultimately show False unfolding eq by simp
qed

theorem copyout_stores_user_bytes_witness:
  "\<exists>t. copyout (\<lambda>_ _ s. Some (-1, s)) machine_pt 0x1FFE (\<lambda>a. of_nat (unat a) + 7) 0 4 machine = Some (0, t) \<and>
    mem t 0x87003FFD = 0 \<and> mem t 0x87003FFE = 7 \<and> mem t 0x87003FFF = 8 \<and> mem t 0x87005000 = 9 \<and>
    mem t 0x87005001 = 10 \<and> mem t 0x87005002 = 7 \<and> mem t 0x87004000 = 4"
proof -
  have "user_writable machine_pt (0x1FFE + of_nat i) machine" if "i < unat (4 :: u64)" for i
    using less_4_cases [OF that] machine_user_writable by auto
  note C = copyout_stores_user_bytes [where len = 4, OF this machine_tables_apart,
      where fault = "\<lambda>_ _ s. Some (-1, s)" and obj = "\<lambda>a. of_nat (unat a) + 7" and src = 0]
  have "user_store (unat (4 :: u64)) machine_pt 0x1FFE (\<lambda>a. of_nat (unat a) + 7) 0 machine (mem machine) =
     (mem machine)(0x87003FFE := 7, 0x87003FFF := 8, 0x87005000 := 9, 0x87005001 := 10)"
    by (simp add: user_store_4 machine_user_phys)
  then show ?thesis using C by (simp add: machine_byte)
qed

text \<open>C12: \<open>copyin\<close> reads a user super page at the wrong place: for an address beyond the first
  4096 bytes of a mapped 2 MB page it takes the byte at the address's offset in its small page,
  not at its offset in the super page.\<close>
theorem copyin_superpage_wrong_offset:
  assumes "walkaddr pt (PGROUNDDOWN va) s = Some pa" "pa \<noteq> 0" "IS_SUPPG pa"
  shows "copyin fault pt obj dst va 1 s = Some (0, obj(dst := mem s (pa + (va - PGROUNDDOWN va))), s)"
proof -
  have o: "unat (va - PGROUNDDOWN va) < 4096" unfolding unat_page_offset by simp
  then have "unat (0x200000 - (va - PGROUNDDOWN va)) = 0x200000 - unat (va - PGROUNDDOWN va)"
    by (simp add: unat_sub_if')
  then have "1 \<le> 0x200000 - (va - PGROUNDDOWN va)" using o by (simp add: word_le_nat_alt)
  then have pp: "page_part va (PGROUNDDOWN va) pa 1 = (0x200000, 1)"
    using assms(3) by (auto simp: page_part_def Let_def SUPPGSIZE_def intro: antisym)
  have "mem_copy dst (mem s) b 1 obj = obj(dst := mem s b)" for b
    by (auto simp: mem_copy_def fun_eq_iff unat_eq_0)
  then show ?thesis
    unfolding copyin.simps [of fault pt obj dst va 1]
    by (simp add: user_page_mapped [OF assms(1,2)] pp Let_def copyin.simps [of _ _ _ _ _ 0])
qed

theorem copyin_superpage_wrong_offset_witness:
  "\<exists>obj. copyin (\<lambda>_ _ s. Some (-1, s)) machine_pt (\<lambda>_. 0) 0 0x201108 1 machine = Some (0, obj, machine) \<and>
    obj 0 = mem machine 0x88000108 \<and> obj 0 \<noteq> mem machine 0x88001108"
proof -
  have p: "PGROUNDDOWN 0x201108 = 0x201000" by (simp add: PGROUNDDOWN_def)
  have "walkaddr machine_pt (PGROUNDDOWN 0x201108) machine = Some 0x88000000"
    unfolding p by (rule machine_walkaddr)
  note C = copyin_superpage_wrong_offset [OF this, where fault = "\<lambda>_ _ s. Some (-1, s)" and obj = "\<lambda>_. 0" and dst = 0]
  show ?thesis
    using C by (simp add: p IS_SUPPG_def PHYSTOP_def KERNBASE_def machine_byte)
qed

end
