(* ===== verification/ProcProps.thy ===== *)
theory ProcProps
  imports Machine
begin

text \<open>
  Properties of processes: sleeping and waking, killing, and the delivery of signals
  (\<open>kernel/proc.c\<close>, \<open>kernel/signal.c\<close>).
\<close>

section \<open>Locks around one process\<close>

lemma myproc_simp [kernel_simps, simp]: "myproc s = Some (curp s, s)"
  by (simp add: myproc_def push_off_def pop_off_def)

lemma lock_roundtrip:
  assumes "lk s l = None" "cpuid (f (s\<lparr>noff := Suc (noff s), lk := (lk s)(l \<mapsto> cpuid s)\<rparr>)) = cpuid s"
    "noff (f (s\<lparr>noff := Suc (noff s), lk := (lk s)(l \<mapsto> cpuid s)\<rparr>)) = Suc (noff s)"
    "lk (f (s\<lparr>noff := Suc (noff s), lk := (lk s)(l \<mapsto> cpuid s)\<rparr>)) = (lk s)(l \<mapsto> cpuid s)"
  shows "Option.bind (acquire l s) (\<lambda>s. release l (f s)) =
    Some ((f (s\<lparr>noff := Suc (noff s), lk := (lk s)(l \<mapsto> cpuid s)\<rparr>))\<lparr>noff := noff s, lk := lk s\<rparr>)"
  using assms by (simp add: acquire_free release_held fun_upd_idem)

definition upd_procs :: "(nat \<Rightarrow> proc) \<Rightarrow> 'a kproc_scheme \<Rightarrow> 'a kproc_scheme" where
  "upd_procs P s = s\<lparr>procs := P\<rparr>"

lemma upd_procs_simps [simp]:
  "procs (upd_procs P s) = P" "lk (upd_procs P s) = lk s" "noff (upd_procs P s) = noff s"
  "cpuid (upd_procs P s) = cpuid s" "curp (upd_procs P s) = curp s" "mem (upd_procs P s) = mem s"
  "upd_procs P (upd_procs Q s) = upd_procs P s" "upd_procs (procs s) s = s"
  by (simp_all add: upd_procs_def)

lemma set_proc_upd: "set_proc p f s = upd_procs ((procs s)(p := f (procs s p))) s"
  by (simp add: set_proc_def upd_procs_def)

lemma with_proc_lock:
  assumes "lk s (ProcLock p) = None"
  shows "acquire (ProcLock p) s = Some (s\<lparr>noff := Suc (noff s), lk := (lk s)(ProcLock p \<mapsto> cpuid s)\<rparr>)"
    and "release (ProcLock p) (upd_procs P (s\<lparr>noff := Suc (noff s), lk := (lk s)(ProcLock p \<mapsto> cpuid s)\<rparr>)) =
      Some (upd_procs P s)"
  using assms by (simp_all add: acquire_free release_held upd_procs_def fun_upd_idem)

section \<open>Waking up\<close>

definition wakes :: "chan \<Rightarrow> nat \<Rightarrow> nat \<Rightarrow> proc \<Rightarrow> bool" where
  \<comment> \<open>process \<open>p\<close> sleeps on \<open>ch\<close> and is not the caller\<close>
  "wakes ch me p x \<longleftrightarrow> p < NPROC \<and> p \<noteq> me \<and> pstate x = SLEEPING \<and> pchan x = ch"

definition wake :: "chan \<Rightarrow> nat \<Rightarrow> (nat \<Rightarrow> proc) \<Rightarrow> nat \<Rightarrow> proc" where
  "wake ch me P = (\<lambda>p. if wakes ch me p (P p) then (P p)\<lparr>pstate := RUNNABLE\<rparr> else P p)"

lemma wakeup_loop_spec:
  assumes "\<And>q. p \<le> q \<Longrightarrow> q < p + k \<Longrightarrow> q \<noteq> curp s \<Longrightarrow> lk s (ProcLock q) = None" "p + k \<le> NPROC"
  shows "wakeup_loop k p ch s =
    Some (upd_procs (\<lambda>q. if p \<le> q \<and> q < p + k then wake ch (curp s) (procs s) q else procs s q) s)"
  using assms
proof (induction k arbitrary: p s)
  case 0
  have "(\<lambda>q. if p \<le> q \<and> q < p + 0 then wake ch (curp s) (procs s) q else procs s q) = procs s" by (auto simp: fun_eq_iff)
  then show ?case by simp
next
  case (Suc k)
  let ?t = "upd_procs ((procs s)(p := wake ch (curp s) (procs s) p)) s"
  have "wakeup_loop (Suc k) p ch s = wakeup_loop k (Suc p) ch ?t"
  proof (cases "p = curp s")
    case True
    then have "wake ch (curp s) (procs s) p = procs s p" by (simp add: wake_def wakes_def)
    then show ?thesis using True by simp
  next
    case False
    then have l: "lk s (ProcLock p) = None" using Suc.prems(1) [of p] by simp
    let ?a = "s\<lparr>noff := Suc (noff s), lk := (lk s)(ProcLock p \<mapsto> cpuid s)\<rparr>"
    have w: "wakes ch (curp s) p (procs s p) \<longleftrightarrow> pstate (procs s p) = SLEEPING \<and> pchan (procs s p) = ch"
      using False Suc.prems(2) by (simp add: wakes_def)
    have "(if pstate (procs ?a p) = SLEEPING \<and> pchan (procs ?a p) = ch
           then set_proc p (\<lambda>x. x\<lparr>pstate := RUNNABLE\<rparr>) ?a else ?a) =
        upd_procs ((procs s)(p := wake ch (curp s) (procs s) p)) ?a"
      using w by (auto simp: wake_def upd_procs_def set_proc_def)
    then show ?thesis using False by (simp add: wakeup_one_def with_proc_lock [OF l])
  qed
  also have "\<dots> = Some (upd_procs (\<lambda>q. if Suc p \<le> q \<and> q < Suc p + k then wake ch (curp ?t) (procs ?t) q else procs ?t q) ?t)"
    by (rule Suc.IH) (use Suc.prems in auto)
  also have "(\<lambda>q. if Suc p \<le> q \<and> q < Suc p + k then wake ch (curp ?t) (procs ?t) q else procs ?t q) =
      (\<lambda>q. if p \<le> q \<and> q < p + Suc k then wake ch (curp s) (procs s) q else procs s q)"
    by (auto simp: fun_eq_iff wake_def)
  finally show ?case by simp
qed

definition proc_locks_free :: "'a kproc_scheme \<Rightarrow> bool" where
  "proc_locks_free s \<longleftrightarrow> (\<forall>q < NPROC. lk s (ProcLock q) = None)"

lemma wakeup_spec:
  assumes "\<And>q. q < NPROC \<Longrightarrow> q \<noteq> curp s \<Longrightarrow> lk s (ProcLock q) = None"
  shows "wakeup ch s = Some (upd_procs (wake ch (curp s) (procs s)) s)"
proof -
  have "(\<lambda>q. if 0 \<le> q \<and> q < 0 + NPROC then wake ch (curp s) (procs s) q else procs s q) = wake ch (curp s) (procs s)"
    by (auto simp: wake_def wakes_def fun_eq_iff)
  then show ?thesis unfolding wakeup_def using wakeup_loop_spec [of 0 NPROC s ch] assms by simp
qed

section \<open>Killing\<close>

definition kill_one :: "proc \<Rightarrow> proc" where
  "kill_one x = x\<lparr>pkilled := 1, pstate := (if pstate x = SLEEPING then RUNNABLE else pstate x)\<rparr>"

lemma kill_loop_spec:
  assumes "\<And>q. p \<le> q \<Longrightarrow> q < p + k \<Longrightarrow> lk s (ProcLock q) = None"
  shows "kill_loop k p pid s =
    (case filter (\<lambda>q. ppid (procs s q) = pid) [p..<p + k] of
       [] \<Rightarrow> Some (-1, s)
     | q # _ \<Rightarrow> Some (0, upd_procs ((procs s)(q := kill_one (procs s q))) s))"
  using assms
proof (induction k arbitrary: p)
  case (Suc k)
  have l: "lk s (ProcLock p) = None" using Suc.prems [of p] by simp
  let ?a = "s\<lparr>noff := Suc (noff s), lk := (lk s)(ProcLock p \<mapsto> cpuid s)\<rparr>"
  have up: "[p..<p + Suc k] = p # [Suc p..<Suc p + k]" by (simp add: upt_rec)
  show ?case
  proof (cases "ppid (procs s p) = pid")
    case True
    have "(let s = set_proc p (\<lambda>x. x\<lparr>pkilled := 1\<rparr>) ?a
           in if pstate (procs s p) = SLEEPING then set_proc p (\<lambda>x. x\<lparr>pstate := RUNNABLE\<rparr>) s else s) =
        upd_procs ((procs s)(p := kill_one (procs s p))) ?a"
      by (auto simp: Let_def kill_one_def upd_procs_def set_proc_def)
    then show ?thesis using True up by (simp add: with_proc_lock [OF l] Let_def)
  next
    case False
    have "release (ProcLock p) ?a = Some s"
      using with_proc_lock(2) [OF l, of "procs s"] by (simp add: upd_procs_def)
    then show ?thesis using False up Suc by (simp add: with_proc_lock(1) [OF l] Let_def)
  qed
qed simp

lemma killed_spec: "lk s (ProcLock p) = None \<Longrightarrow> killed p s = Some (pkilled (procs s p), s)"
  by (simp add: killed_def acquire_free release_held fun_upd_idem Let_def)

section \<open>Signals\<close>

lemma sigbit_iff:
  "ppending x AND sigbit sig = 0 \<longleftrightarrow> \<not> bit (ppending x) sig \<or> 32 \<le> sig"
  "sigbit sig AND m = 0 \<longleftrightarrow> \<not> bit m sig \<or> 32 \<le> sig" for m :: u32
proof -
  have b: "bit (sigbit sig) n \<longleftrightarrow> n = sig \<and> n < 32" for n
    unfolding sigbit_def bit_push_bit_iff bit_1_iff by auto
  have *: "y AND sigbit sig = 0 \<longleftrightarrow> \<not> bit y sig \<or> 32 \<le> sig" for y :: u32
  proof
    assume "y AND sigbit sig = 0"
    moreover have "bit (y AND sigbit sig) sig \<longleftrightarrow> bit y sig \<and> sig < 32" using b by (auto simp: bit_and_iff)
    ultimately show "\<not> bit y sig \<or> 32 \<le> sig" by (auto simp: not_less)
  next
    assume y: "\<not> bit y sig \<or> 32 \<le> sig"
    show "y AND sigbit sig = 0"
    proof (rule bit_word_eqI)
      fix n
      show "bit (y AND sigbit sig) n = bit 0 n" unfolding bit_and_iff b using y by auto
    qed
  qed
  show "ppending x AND sigbit sig = 0 \<longleftrightarrow> \<not> bit (ppending x) sig \<or> 32 \<le> sig" by (rule *)
  show "sigbit sig AND m = 0 \<longleftrightarrow> \<not> bit m sig \<or> 32 \<le> sig"
    unfolding and.commute [of "sigbit sig"] by (rule *)
qed

definition deliverable :: "proc \<Rightarrow> nat \<Rightarrow> bool" where
  "deliverable x sig \<longleftrightarrow> bit (ppending x) sig \<and> \<not> bit (psa_mask x) sig"

lemma signal_loop_skip:
  "\<not> deliverable (procs s p) sig \<Longrightarrow> signal_loop (Suc k) sig p s = signal_loop k (Suc sig) p s"
  by (auto simp: deliverable_def sigbit_iff)

lemma signal_loop_skip_to:
  "\<forall>j. sig \<le> j \<and> j < sig + d \<longrightarrow> \<not> deliverable (procs s p) j \<Longrightarrow>
     signal_loop (d + k) sig p s = signal_loop k (sig + d) p s"
proof (induction d arbitrary: sig)
  case (Suc d)
  have "signal_loop (Suc d + k) sig p s = signal_loop (d + k) (Suc sig) p s"
    unfolding add_Suc by (rule signal_loop_skip) (use Suc.prems in simp)
  also have "\<dots> = signal_loop k (Suc sig + d) p s" by (rule Suc.IH) (use Suc.prems in auto)
  finally show ?case by simp
qed simp

definition deliver :: "nat \<Rightarrow> nat \<Rightarrow> 'a kproc_scheme \<Rightarrow> 'a kproc_scheme" where
  \<comment> \<open>the state in which the handler of \<open>sig\<close> will start\<close>
  "deliver sig p s =
     (let x = procs s p; tf = ptrapframe x; sv = psa_trapframe x
      in upd_procs ((procs s)(p := x\<lparr>ppending := ppending x AND NOT (sigbit sig), ptmp_sa_mask := psa_mask x,
             psa_mask := psa_mask x OR sigbit sig\<rparr>))
           (s\<lparr>trapframes := (trapframes s)(sv := trapframes s tf, tf := (trapframes s tf)\<lparr>tf_epc := psa_handler x sig\<rparr>),
              tshareds := (tshareds s)(sv := tshareds s tf)\<rparr>))"

definition unpend :: "nat \<Rightarrow> proc \<Rightarrow> proc" where
  "unpend sig x = x\<lparr>ppending := ppending x AND NOT (sigbit sig)\<rparr>"

lemma bit_sigbit: "sig < 32 \<Longrightarrow> bit (sigbit sig) j \<longleftrightarrow> j = sig"
  unfolding sigbit_def bit_push_bit_iff bit_1_iff by auto

lemma setkilled_spec:
  "lk s (ProcLock p) = None \<Longrightarrow> setkilled p s = Some (upd_procs ((procs s)(p := (procs s p)\<lparr>pkilled := 1\<rparr>)) s)"
  by (simp add: setkilled_def set_proc_upd with_proc_lock)

lemma signal_loop_take:
  assumes "deliverable (procs s p) sig" "sig < 32" "psa_trapframe (procs s p) \<noteq> ptrapframe (procs s p)"
  shows "signal_loop (Suc k) sig p s =
    (let t = upd_procs ((procs s)(p := unpend sig (procs s p))) s; h = psa_handler (procs s p) sig in
     if h = SIG_DFL then default_handler sig p t
     else if h = SIG_IGN then signal_loop k (Suc sig) p t
     else if h = SIG_KILL then setkilled p t
     else Some (deliver sig p s))"
proof -
  have g: "\<not> (ppending (procs s p) AND sigbit sig = 0 \<or> sigbit sig AND psa_mask (procs s p) \<noteq> 0)"
    using assms(1,2) by (simp add: sigbit_iff deliverable_def)
  have t: "set_proc p (\<lambda>x. x\<lparr>ppending := ppending x AND NOT (sigbit sig)\<rparr>) s =
      upd_procs ((procs s)(p := unpend sig (procs s p))) s"
    by (simp add: set_proc_upd unpend_def)
  have h: "psa_handler (unpend sig x) = psa_handler x" for x by (simp add: unpend_def)
  show ?thesis
    unfolding signal_loop.simps(2) if_not_P [OF g] t
    using assms(3)
    by (simp add: Let_def h) (simp add: Let_def deliver_def upd_procs_def set_proc_def copy_trapframe_def unpend_def fun_upd_twist)
qed

lemma lowest_signal:
  assumes "\<not> pisthread (procs s p)" "sig < NUMSIG" "\<forall>j < sig. \<not> deliverable (procs s p) j"
  shows "signal_handle p s = signal_loop (Suc (NUMSIG - Suc sig)) sig p s"
proof -
  have "NUMSIG = sig + Suc (NUMSIG - Suc sig)" using assms(2) by simp
  then have "signal_handle p s = signal_loop (sig + Suc (NUMSIG - Suc sig)) 0 p s"
    using assms(1) by (simp add: signal_handle_def)
  also have "\<dots> = signal_loop (Suc (NUMSIG - Suc sig)) sig p s"
    using signal_loop_skip_to [of 0 sig s p "Suc (NUMSIG - Suc sig)"] assms(3) unfolding add_0 by blast
  finally show ?thesis .
qed

lemma deliverable_unpend:
  assumes "sig < 32"
  shows "deliverable (unpend sig x) j \<longleftrightarrow> deliverable x j \<and> j \<noteq> sig"
  using bit_sigbit [OF assms, of j] bit_imp_le_length [of "ppending x" j]
  by (auto simp: deliverable_def unpend_def bit_and_iff bit_not_iff)

lemma deliver_masks:
  assumes "sig < 32"
  shows "bit (psa_mask (procs (deliver sig p s) p)) j \<longleftrightarrow> bit (psa_mask (procs s p)) j \<or> j = sig"
    "bit (ppending (procs (deliver sig p s) p)) j \<longleftrightarrow> bit (ppending (procs s p)) j \<and> j \<noteq> sig"
proof -
  show "bit (psa_mask (procs (deliver sig p s) p)) j \<longleftrightarrow> bit (psa_mask (procs s p)) j \<or> j = sig"
    by (simp add: deliver_def Let_def upd_procs_def bit_or_iff bit_sigbit [OF assms])
  show "bit (ppending (procs (deliver sig p s) p)) j \<longleftrightarrow> bit (ppending (procs s p)) j \<and> j \<noteq> sig"
    using bit_imp_le_length [of "ppending (procs s p)" j]
    by (auto simp: deliver_def Let_def upd_procs_def bit_and_iff bit_not_iff bit_sigbit [OF assms])
qed

lemma deliver_frame:
  assumes "psa_trapframe (procs s p) \<noteq> ptrapframe (procs s p)"
  shows "ptmp_sa_mask (procs (deliver sig p s) p) = psa_mask (procs s p) \<and>
    pkilled (procs (deliver sig p s) p) = pkilled (procs s p) \<and> pstate (procs (deliver sig p s) p) = pstate (procs s p) \<and>
    trapframes (deliver sig p s) (psa_trapframe (procs s p)) = trapframes s (ptrapframe (procs s p)) \<and>
    trapframes (deliver sig p s) (ptrapframe (procs s p)) =
      (trapframes s (ptrapframe (procs s p)))\<lparr>tf_epc := psa_handler (procs s p) sig\<rparr> \<and>
    (\<forall>q. q \<noteq> p \<longrightarrow> procs (deliver sig p s) q = procs s q)"
  using assms by (simp add: deliver_def Let_def upd_procs_def)

lemma ignored_signal:
  assumes "\<not> pisthread (procs s p)" "sig < NUMSIG" "deliverable (procs s p) sig" "\<forall>j < sig. \<not> deliverable (procs s p) j"
    and "psa_handler (procs s p) sig = SIG_IGN" "psa_trapframe (procs s p) \<noteq> ptrapframe (procs s p)"
  shows "signal_handle p s = signal_handle p (upd_procs ((procs s)(p := unpend sig (procs s p))) s)"
proof -
  let ?t = "upd_procs ((procs s)(p := unpend sig (procs s p))) s"
  have n: "sig < 32" using assms(2) by (simp add: NUMSIG_def)
  have d: "deliverable (procs ?t p) j \<longleftrightarrow> deliverable (procs s p) j \<and> j \<noteq> sig" for j
    using deliverable_unpend [OF n] by simp
  have "signal_handle p s = signal_loop (NUMSIG - Suc sig) (Suc sig) p ?t"
    unfolding lowest_signal [OF assms(1,2,4)]
    using signal_loop_take [OF assms(3) n assms(6)] assms(5) by (simp add: Let_def SIG_DFL_def SIG_IGN_def)
  also have "\<dots> = signal_loop (Suc (NUMSIG - Suc sig)) sig p ?t"
    using signal_loop_skip [of ?t p sig] d by simp
  also have "\<dots> = signal_handle p ?t"
    by (rule lowest_signal [symmetric]) (use assms(1,2,4) d in \<open>auto simp: unpend_def\<close>)
  finally show ?thesis .
qed

section \<open>Properties\<close>

text \<open>\<open>wakeup\<close> makes runnable exactly the processes other than the caller that sleep on the
  channel, and changes nothing else.\<close>
theorem wakeup_wakes_exactly_sleepers:
  assumes "\<And>q. q < NPROC \<Longrightarrow> q \<noteq> curp s \<Longrightarrow> lk s (ProcLock q) = None"
  shows "wakeup ch s = Some (s\<lparr>procs := \<lambda>q. if q < NPROC \<and> q \<noteq> curp s \<and> pstate (procs s q) = SLEEPING \<and> pchan (procs s q) = ch
      then (procs s q)\<lparr>pstate := RUNNABLE\<rparr> else procs s q\<rparr>)"
  using wakeup_spec [OF assms, where ch = ch] by (simp add: upd_procs_def wake_def [abs_def] wakes_def)


text \<open>\<open>kill\<close> marks the first process with the given id as killed, makes it runnable if it
  sleeps so that it notices, and returns 0; if no process has the id it returns -1 and changes
  nothing.\<close>
theorem kill_marks_process:
  assumes "\<And>q. q < NPROC \<Longrightarrow> lk s (ProcLock q) = None"
  shows "kill pid s =
    (case filter (\<lambda>q. ppid (procs s q) = pid) [0..<NPROC] of
       [] \<Rightarrow> Some (-1, s)
     | q # _ \<Rightarrow> Some (0, s\<lparr>procs := (procs s)(q := (procs s q)\<lparr>pkilled := 1,
           pstate := (if pstate (procs s q) = SLEEPING then RUNNABLE else pstate (procs s q))\<rparr>)\<rparr>))"
  using kill_loop_spec [of 0 NPROC s pid] assms
  by (simp add: kill_def upd_procs_def kill_one_def cong: list.case_cong)


text \<open>C14: on the way back to user mode the pending signal with the lowest number that is not
  blocked is taken and no other.  If it has a handler, the process will resume at the handler: the
  signal is no longer pending, the mask has this signal added to it, so that it is blocked while the
  handler runs, and the old mask and the interrupted registers are saved.  An ignored signal is
  forgotten and the next one is looked at; a signal whose action is to kill, by choice or by default,
  marks the process as killed, except \<open>SIGALARM\<close>, whose default is to do nothing.  With no such signal
  nothing changes.\<close>
theorem signal_delivers_lowest:
  assumes "\<not> pisthread (procs s p)" "psa_trapframe (procs s p) \<noteq> ptrapframe (procs s p)" "lk s (ProcLock p) = None"
  shows "(sig < NUMSIG \<and> deliverable (procs s p) sig \<and> (\<forall>j < sig. \<not> deliverable (procs s p) j) \<longrightarrow>
      (psa_handler (procs s p) sig > SIG_KILL \<longrightarrow>
        (\<exists>t. signal_handle p s = Some t \<and> \<not> deliverable (procs t p) sig \<and>
          (\<forall>j. j \<noteq> sig \<longrightarrow> deliverable (procs t p) j = deliverable (procs s p) j) \<and>
          (\<forall>j. bit (psa_mask (procs t p)) j = (bit (psa_mask (procs s p)) j \<or> j = sig)) \<and>
          (\<forall>j. bit (ppending (procs t p)) j = (bit (ppending (procs s p)) j \<and> j \<noteq> sig)) \<and>
          ptmp_sa_mask (procs t p) = psa_mask (procs s p) \<and>
          pkilled (procs t p) = pkilled (procs s p) \<and> pstate (procs t p) = pstate (procs s p) \<and>
          trapframes t (psa_trapframe (procs s p)) = trapframes s (ptrapframe (procs s p)) \<and>
          trapframes t (ptrapframe (procs s p)) =
            (trapframes s (ptrapframe (procs s p)))\<lparr>tf_epc := psa_handler (procs s p) sig\<rparr> \<and>
          (\<forall>q. q \<noteq> p \<longrightarrow> procs t q = procs s q))) \<and>
      (psa_handler (procs s p) sig = SIG_IGN \<longrightarrow>
        signal_handle p s = signal_handle p (s\<lparr>procs := (procs s)(p := unpend sig (procs s p))\<rparr>)) \<and>
      (psa_handler (procs s p) sig = SIG_KILL \<or> psa_handler (procs s p) sig = SIG_DFL \<and> sig \<noteq> SIGALARM \<longrightarrow>
        signal_handle p s = Some (s\<lparr>procs := (procs s)(p := (unpend sig (procs s p))\<lparr>pkilled := 1\<rparr>)\<rparr>)) \<and>
      (psa_handler (procs s p) sig = SIG_DFL \<and> sig = SIGALARM \<longrightarrow>
        signal_handle p s = Some (s\<lparr>procs := (procs s)(p := unpend sig (procs s p))\<rparr>))) \<and>
    ((\<forall>j < NUMSIG. \<not> deliverable (procs s p) j) \<longrightarrow> signal_handle p s = Some s)"
proof (intro conjI impI)
  assume "\<forall>j < NUMSIG. \<not> deliverable (procs s p) j"
  then show "signal_handle p s = Some s"
    using signal_loop_skip_to [of 0 NUMSIG s p 0] assms(1) by (simp add: signal_handle_def)
next
  assume d: "sig < NUMSIG \<and> deliverable (procs s p) sig \<and> (\<forall>j < sig. \<not> deliverable (procs s p) j)"
  let ?h = "psa_handler (procs s p) sig"
  have n: "sig < 32" using d by (simp add: NUMSIG_def)
  let ?t = "upd_procs ((procs s)(p := unpend sig (procs s p))) s"
  have r: "signal_handle p s = (if ?h = SIG_DFL then default_handler sig p ?t
      else if ?h = SIG_IGN then signal_loop (NUMSIG - Suc sig) (Suc sig) p ?t
      else if ?h = SIG_KILL then setkilled p ?t else Some (deliver sig p s))"
  proof -
    have "signal_handle p s = signal_loop (Suc (NUMSIG - Suc sig)) sig p s" using lowest_signal [of s p sig] assms(1) d by blast
    also have "\<dots> = (let t = ?t; h = ?h in
      if h = SIG_DFL then default_handler sig p t
      else if h = SIG_IGN then signal_loop (NUMSIG - Suc sig) (Suc sig) p t
      else if h = SIG_KILL then setkilled p t else Some (deliver sig p s))"
      by (rule signal_loop_take [OF _ n assms(2)]) (use d in blast)
    finally show ?thesis unfolding Let_def .
  qed
  have def: "default_handler sig p ?t = (if sig = SIGALARM then Some ?t else setkilled p ?t)"
    by (simp add: default_handler_def SIGALARM_def SIGINT_def)
  note kinds = SIG_DFL_def SIG_IGN_def SIG_KILL_def
  have k: "setkilled p (upd_procs ((procs s)(p := unpend sig (procs s p))) s) =
      Some (s\<lparr>procs := (procs s)(p := (unpend sig (procs s p))\<lparr>pkilled := 1\<rparr>)\<rparr>)"
    using setkilled_spec [of "upd_procs ((procs s)(p := unpend sig (procs s p))) s" p] assms(3) by (simp add: upd_procs_def)
  {
    assume h: "?h > SIG_KILL"
    then have "?h \<noteq> SIG_DFL \<and> ?h \<noteq> SIG_IGN \<and> ?h \<noteq> SIG_KILL" by (auto simp: kinds)
    then have "signal_handle p s = Some (deliver sig p s)" unfolding r by simp
    then show "\<exists>t. signal_handle p s = Some t \<and> \<not> deliverable (procs t p) sig \<and>
          (\<forall>j. j \<noteq> sig \<longrightarrow> deliverable (procs t p) j = deliverable (procs s p) j) \<and>
          (\<forall>j. bit (psa_mask (procs t p)) j = (bit (psa_mask (procs s p)) j \<or> j = sig)) \<and>
          (\<forall>j. bit (ppending (procs t p)) j = (bit (ppending (procs s p)) j \<and> j \<noteq> sig)) \<and>
          ptmp_sa_mask (procs t p) = psa_mask (procs s p) \<and>
          pkilled (procs t p) = pkilled (procs s p) \<and> pstate (procs t p) = pstate (procs s p) \<and>
          trapframes t (psa_trapframe (procs s p)) = trapframes s (ptrapframe (procs s p)) \<and>
          trapframes t (ptrapframe (procs s p)) = (trapframes s (ptrapframe (procs s p)))\<lparr>tf_epc := ?h\<rparr> \<and>
          (\<forall>q. q \<noteq> p \<longrightarrow> procs t q = procs s q)"
      using deliver_masks [OF n, of p s] deliver_frame [OF assms(2), of sig]
      by (intro exI [of _ "deliver sig p s"]) (simp add: deliverable_def)
  next
    assume "?h = SIG_IGN"
    then show "signal_handle p s = signal_handle p (s\<lparr>procs := (procs s)(p := unpend sig (procs s p))\<rparr>)"
      using ignored_signal [OF assms(1) _ _ _ _ assms(2), of sig] d unfolding upd_procs_def by blast
  next
    assume "?h = SIG_KILL \<or> ?h = SIG_DFL \<and> sig \<noteq> SIGALARM"
    then show "signal_handle p s = Some (s\<lparr>procs := (procs s)(p := (unpend sig (procs s p))\<lparr>pkilled := 1\<rparr>)\<rparr>)"
      unfolding r def k by (auto simp: kinds)
  next
    assume "?h = SIG_DFL \<and> sig = SIGALARM"
    then have a: "?h = SIG_DFL" "sig = SIGALARM" by blast+
    show "signal_handle p s = Some (s\<lparr>procs := (procs s)(p := unpend sig (procs s p))\<rparr>)"
      unfolding r if_P [OF a(1)] unfolding def if_P [OF a(2)] unfolding upd_procs_def by (rule refl)
  }
qed

definition signalled :: kfile where
  \<comment> \<open>signals 0 and 1 are pending, signal 0 is blocked, signal 1 has the handler 0x4000\<close>
  "signalled = upd_procs ((procs machine)(0 := (procs machine 0)\<lparr>ppending := 3, psa_mask := 1,
     psa_handler := (\<lambda>_. 0x4000), ptrapframe := 0x87006000, psa_trapframe := 0x87007000\<rparr>)) machine"

theorem signal_delivers_lowest_witness:
  "\<exists>t. signal_handle 0 signalled = Some t \<and> tf_epc (trapframes t 0x87006000) = 0x4000 \<and>
     trapframes t 0x87007000 = trapframes signalled 0x87006000 \<and> ptmp_sa_mask (procs t 0) = 1 \<and>
     bit (psa_mask (procs t 0)) 1"
proof -
  have p: "procs signalled 0 = zero_proc\<lparr>pstate := RUNNING, ppid := 1, ppagetable := machine_pt, ppending := 3,
      psa_mask := 1, psa_handler := (\<lambda>_. 0x4000), ptrapframe := 0x87006000, psa_trapframe := 0x87007000\<rparr>"
    by (simp add: signalled_def machine_def upd_procs_def)
  have l: "lk signalled (ProcLock 0) = None" by (simp add: signalled_def machine_def)
  have b: "bit (3 :: u32) 1" "\<not> bit (1 :: u32) 1" "bit (1 :: u32) 0" by (simp_all add: bit_numeral_rec bit_1_iff)
  have d: "1 < NUMSIG \<and> deliverable (procs signalled 0) 1 \<and> (\<forall>j < 1. \<not> deliverable (procs signalled 0) j)"
    using b by (simp add: p NUMSIG_def deliverable_def)
  have h: "psa_handler (procs signalled 0) 1 > SIG_KILL" by (simp add: p SIG_KILL_def)
  have f: "\<not> pisthread (procs signalled 0)" "psa_trapframe (procs signalled 0) \<noteq> ptrapframe (procs signalled 0)"
    by (simp_all add: p zero_proc_def)
  have "\<exists>t. signal_handle 0 signalled = Some t \<and> bit (psa_mask (procs t 0)) 1 \<and>
      ptmp_sa_mask (procs t 0) = psa_mask (procs signalled 0) \<and>
      trapframes t (psa_trapframe (procs signalled 0)) = trapframes signalled (ptrapframe (procs signalled 0)) \<and>
      trapframes t (ptrapframe (procs signalled 0)) =
        (trapframes signalled (ptrapframe (procs signalled 0)))\<lparr>tf_epc := psa_handler (procs signalled 0) 1\<rparr>"
    using signal_delivers_lowest [OF f l, THEN conjunct1, THEN mp, OF d, THEN conjunct1, THEN mp, OF h] by blast
  then obtain t where t: "signal_handle 0 signalled = Some t" "bit (psa_mask (procs t 0)) 1"
      "ptmp_sa_mask (procs t 0) = psa_mask (procs signalled 0)"
      "trapframes t (psa_trapframe (procs signalled 0)) = trapframes signalled (ptrapframe (procs signalled 0))"
      "trapframes t (ptrapframe (procs signalled 0)) =
        (trapframes signalled (ptrapframe (procs signalled 0)))\<lparr>tf_epc := psa_handler (procs signalled 0) 1\<rparr>"
    by blast
  have "tf_epc (trapframes t 0x87006000) = 0x4000" using t(5) by (simp add: p)
  moreover have "trapframes t 0x87007000 = trapframes signalled 0x87006000" "ptmp_sa_mask (procs t 0) = 1"
    using t(3,4) by (simp_all add: p)
  ultimately show ?thesis using t(1,2) by blast
qed

end
