(* ===== verification/PipeProps.thy ===== *)
theory PipeProps
  imports MemProps ProcProps
begin

text \<open>
  Properties of pipes (\<open>kernel/pipe.c\<close>): the ring buffer refines a bounded queue of bytes, and
  \<open>pipewrite\<close> and \<open>piperead\<close> move bytes between user memory and this queue.
\<close>

section \<open>Bounded byte queues\<close>

locale byte_fifo =
  fixes ok :: "'p \<Rightarrow> bool"
    and put :: "u8 \<Rightarrow> 'p \<Rightarrow> 'p"
    and get :: "'p \<Rightarrow> u8 \<times> 'p"
    and full :: "'p \<Rightarrow> bool"
    and empty :: "'p \<Rightarrow> bool"
    and contents :: "'p \<Rightarrow> u8 list"
    and cap :: nat
  assumes cap_pos: "0 < cap"
    and bounded: "ok p \<Longrightarrow> length (contents p) \<le> cap"
    and full_iff: "ok p \<Longrightarrow> full p \<longleftrightarrow> length (contents p) = cap"
    and empty_iff: "ok p \<Longrightarrow> empty p \<longleftrightarrow> contents p = []"
    and put_spec: "ok p \<Longrightarrow> \<not> full p \<Longrightarrow> ok (put c p) \<and> contents (put c p) = contents p @ [c]"
    and get_spec: "ok p \<Longrightarrow> \<not> empty p \<Longrightarrow>
      fst (get p) = hd (contents p) \<and> ok (snd (get p)) \<and> contents (snd (get p)) = tl (contents p)"
begin

lemma puts_contents:
  "ok p \<Longrightarrow> length (contents p) + length cs \<le> cap \<Longrightarrow>
     ok (fold put cs p) \<and> contents (fold put cs p) = contents p @ cs"
proof (induction cs arbitrary: p)
  case (Cons c cs)
  have nf: "\<not> full p" using Cons.prems by (simp add: full_iff)
  show ?case using put_spec [OF Cons.prems(1) nf, of c] Cons.IH [of "put c p"] Cons.prems by simp
qed simp

lemma gets_contents:
  "ok p \<Longrightarrow> k \<le> length (contents p) \<Longrightarrow>
     ok (((\<lambda>p. snd (get p)) ^^ k) p) \<and> contents (((\<lambda>p. snd (get p)) ^^ k) p) = drop k (contents p)"
proof (induction k)
  case (Suc k)
  let ?q = "((\<lambda>p. snd (get p)) ^^ k) p"
  have q: "ok ?q" "contents ?q = drop k (contents p)"
    using Suc.IH [OF Suc.prems(1) Suc_leD [OF Suc.prems(2)]] by blast+
  then have "\<not> empty ?q" using Suc.prems by (simp add: empty_iff)
  then show ?case using get_spec [OF q(1)] q(2) by (simp add: tl_drop drop_Suc)
qed simp

lemma get_nth:
  "ok p \<Longrightarrow> k < length (contents p) \<Longrightarrow> fst (get (((\<lambda>p. snd (get p)) ^^ k) p)) = contents p ! k"
proof -
  assume p: "ok p" "k < length (contents p)"
  let ?q = "((\<lambda>p. snd (get p)) ^^ k) p"
  have q: "ok ?q" "contents ?q = drop k (contents p)" using gets_contents [of p k] p by auto
  then have "\<not> empty ?q" using p(2) by (simp add: empty_iff)
  then show ?thesis using get_spec [OF q(1)] q(2) p(2) by (simp add: hd_drop_conv_nth)
qed

lemma puts_then_gets:
  assumes "ok p" "contents p = []" "length cs \<le> cap" "k < length cs"
  shows "fst (get (((\<lambda>p. snd (get p)) ^^ k) (fold put cs p))) = cs ! k"
  using puts_contents [OF assms(1), of cs] get_nth [of "fold put cs p" k] assms by simp

end

section \<open>The pipe's ring buffer\<close>

definition pipe_level :: "pipe \<Rightarrow> nat" where
  \<comment> \<open>the bytes in the pipe; the counters wrap at \<open>2 ^ 32\<close>\<close>
  "pipe_level p = unat (pi_nwrite p - pi_nread p)"

definition pipe_ok :: "pipe \<Rightarrow> bool" where "pipe_ok p \<longleftrightarrow> pipe_level p \<le> PIPESIZE"

definition pipe_bytes :: "pipe \<Rightarrow> u8 list" where
  "pipe_bytes p = map (\<lambda>i. pi_data p ((unat (pi_nread p) + i) mod PIPESIZE)) [0..<pipe_level p]"

lemma length_pipe_bytes [simp]: "length (pipe_bytes p) = pipe_level p"
  by (simp add: pipe_bytes_def)

lemma unat_mod_PIPESIZE: "unat (a + of_nat i :: u32) mod PIPESIZE = (unat a + i) mod PIPESIZE"
proof -
  have "unat (a + of_nat i) = (unat a + i) mod 2 ^ 32"
    by (simp add: unat_word_ariths unat_of_nat mod_simps)
  moreover have "PIPESIZE dvd 2 ^ 32" by (simp add: PIPESIZE_def)
  ultimately show ?thesis by (simp only: mod_mod_cancel)
qed

lemma pipe_level_put: "pipe_level p < 2 ^ 32 - 1 \<Longrightarrow> pipe_level (pipe_put c p) = Suc (pipe_level p)"
proof -
  assume l: "pipe_level p < 2 ^ 32 - 1"
  have "pi_nwrite p + 1 - pi_nread p = (pi_nwrite p - pi_nread p) + 1" by simp
  then have "unat (pi_nwrite p + 1 - pi_nread p) = unat (pi_nwrite p - pi_nread p) + 1"
    using l by (simp only: pipe_level_def unat_word_ariths) simp
  then show ?thesis by (simp add: pipe_level_def pipe_put_def)
qed

lemma pipe_full_level: "pipe_full p \<longleftrightarrow> pipe_level p = PIPESIZE"
proof
  assume "pipe_full p"
  then show "pipe_level p = PIPESIZE" by (simp add: pipe_full_def pipe_level_def PIPESIZE_def)
next
  assume "pipe_level p = PIPESIZE"
  then have "pi_nwrite p - pi_nread p = of_nat PIPESIZE"
    unfolding pipe_level_def by (simp add: word_unat_eq_iff PIPESIZE_def)
  then show "pipe_full p" unfolding pipe_full_def by (simp add: algebra_simps)
qed

interpretation pf: byte_fifo pipe_ok pipe_put pipe_get pipe_full pipe_empty pipe_bytes PIPESIZE
proof
  fix p c
  assume ok: "pipe_ok p"
  show "length (pipe_bytes p) \<le> PIPESIZE" using ok by (simp add: pipe_ok_def)
  show "pipe_full p \<longleftrightarrow> length (pipe_bytes p) = PIPESIZE" by (simp add: pipe_full_level)
  show "pipe_empty p \<longleftrightarrow> pipe_bytes p = []"
    by (auto simp: pipe_empty_def pipe_bytes_def pipe_level_def unat_eq_0)
  show "pipe_ok (pipe_put c p) \<and> pipe_bytes (pipe_put c p) = pipe_bytes p @ [c]" if nf: "\<not> pipe_full p"
  proof -
    have l: "pipe_level p < PIPESIZE" using ok nf by (simp add: pipe_ok_def pipe_full_level)
    have lp: "pipe_level (pipe_put c p) = Suc (pipe_level p)"
      by (rule pipe_level_put) (use l in \<open>simp add: PIPESIZE_def\<close>)
    have w: "unat (pi_nwrite p) mod PIPESIZE = (unat (pi_nread p) + pipe_level p) mod PIPESIZE"
      using unat_mod_PIPESIZE [of "pi_nread p" "pipe_level p"] by (simp add: pipe_level_def)
    have "(unat (pi_nread p) + i) mod PIPESIZE \<noteq> (unat (pi_nread p) + pipe_level p) mod PIPESIZE"
      if i: "i < pipe_level p" for i
    proof
      assume "(unat (pi_nread p) + i) mod PIPESIZE = (unat (pi_nread p) + pipe_level p) mod PIPESIZE"
      then have "PIPESIZE dvd (unat (pi_nread p) + pipe_level p) - (unat (pi_nread p) + i)"
        by (metis mod_eq_dvd_iff_nat add_le_mono le_refl less_imp_le i)
      then have "PIPESIZE dvd pipe_level p - i" by simp
      then show False using i l by (auto dest: dvd_imp_le)
    qed
    then have "pipe_bytes (pipe_put c p) = pipe_bytes p @ [c]"
      unfolding pipe_bytes_def lp by (simp add: pipe_put_def w)
    then show ?thesis using lp l by (simp add: pipe_ok_def)
  qed
  show "fst (pipe_get p) = hd (pipe_bytes p) \<and> pipe_ok (snd (pipe_get p)) \<and>
      pipe_bytes (snd (pipe_get p)) = tl (pipe_bytes p)" if ne: "\<not> pipe_empty p"
  proof -
    have d: "pi_nwrite p - pi_nread p \<noteq> 0" using ne by (simp add: pipe_empty_def)
    then have pos: "0 < pipe_level p" by (simp add: pipe_level_def unat_gt_0)
    have "pi_nwrite p - (pi_nread p + 1) = (pi_nwrite p - pi_nread p) - 1" by simp
    moreover have "pi_nwrite (snd (pipe_get p)) = pi_nwrite p" "pi_nread (snd (pipe_get p)) = pi_nread p + 1"
      by (simp_all add: pipe_get_def)
    ultimately have lg: "pipe_level (snd (pipe_get p)) = pipe_level p - 1"
      using unat_minus_one [OF d] by (simp only: pipe_level_def)
    have n: "unat (pi_nread p + 1) mod PIPESIZE = (unat (pi_nread p) + 1) mod PIPESIZE"
      using unat_mod_PIPESIZE [of "pi_nread p" 1] by simp
    have "(unat (pi_nread p + 1) + i) mod PIPESIZE = (unat (pi_nread p) + Suc i) mod PIPESIZE" for i
      by (metis n mod_add_left_eq add.assoc plus_1_eq_Suc)
    then have "pipe_bytes (snd (pipe_get p)) = map (\<lambda>i. pi_data p ((unat (pi_nread p) + Suc i) mod PIPESIZE)) [0..<pipe_level p - 1]"
      unfolding pipe_bytes_def lg by (simp add: pipe_get_def)
    also have "\<dots> = tl (pipe_bytes p)"
      unfolding pipe_bytes_def map_tl [symmetric] using pos
      by (cases "pipe_level p") (simp_all add: upt_rec [of 0] map_Suc_upt [symmetric] del: upt_Suc)
    finally have "pipe_bytes (snd (pipe_get p)) = tl (pipe_bytes p)" .
    moreover have "fst (pipe_get p) = hd (pipe_bytes p)"
      using pos by (simp add: pipe_get_def pipe_bytes_def hd_map upt_conv_Cons)
    ultimately show ?thesis using lg ok by (simp add: pipe_ok_def)
  qed
qed (simp add: PIPESIZE_def)

section \<open>States with the pipe's lock held\<close>

definition locked_by_us :: "lockid \<Rightarrow> 'a kcpu_scheme \<Rightarrow> 'a kcpu_scheme" where
  "locked_by_us l s = s\<lparr>noff := Suc (noff s), lk := (lk s)(l \<mapsto> cpuid s)\<rparr>"

lemma locked_by_us_steps:
  assumes "lk s l = None"
  shows "acquire l s = Some (locked_by_us l s)" "release l (locked_by_us l s) = Some s"
  using assms by (simp_all add: locked_by_us_def acquire_free release_held fun_upd_idem)

lemma locked_by_us_simps [simp]:
  "pipes (locked_by_us l k) = pipes k" "procs (locked_by_us l k) = procs k" "curp (locked_by_us l k) = curp k"
  "mem (locked_by_us l k) = mem k" "l \<noteq> l' \<Longrightarrow> lk (locked_by_us l k) l' = lk k l'"
  "set_pipe pi f (locked_by_us l k) = locked_by_us l (set_pipe pi f k)"
  "upd_procs P (locked_by_us l k) = locked_by_us l (upd_procs P k)"
  by (simp_all add: locked_by_us_def set_pipe_def upd_procs_def)

lemma set_pipe_simps [simp]:
  "pipes (set_pipe pi f s) = (pipes s)(pi := f (pipes s pi))" "procs (set_pipe pi f s) = procs s"
  "curp (set_pipe pi f s) = curp s" "mem (set_pipe pi f s) = mem s" "lk (set_pipe pi f s) = lk s"
  "set_pipe pi g (set_pipe pi f s) = set_pipe pi (\<lambda>p. g (f p)) s" "set_pipe pi (\<lambda>p. p) s = s" "set_pipe pi id s = s"
  by (simp_all add: set_pipe_def)

definition pipe_idle :: "u64 \<Rightarrow> 'a kfile_scheme \<Rightarrow> bool" where
  \<comment> \<open>nobody holds the pipe's lock or a process lock, and the caller has not been killed\<close>
  "pipe_idle pi s \<longleftrightarrow> lk s (pilock pi) = None \<and> proc_locks_free s \<and> curp s < NPROC \<and>
     pkilled (procs s (curp s)) = 0 \<and> pipe_ok (pipes s pi)"

lemma pipe_idleD:
  "pipe_idle pi s \<Longrightarrow> lk s (pilock pi) = None" "pipe_idle pi s \<Longrightarrow> lk s (ProcLock (curp s)) = None"
  "pipe_idle pi s \<Longrightarrow> pipe_ok (pipes s pi)" "pipe_idle pi s \<Longrightarrow> pkilled (procs s (curp s)) = 0"
  by (auto simp: pipe_idle_def proc_locks_free_def)

lemma pilock_not_proc [simp]: "pilock pi \<noteq> ProcLock q" "ProcLock q \<noteq> pilock pi"
  by (simp_all add: pilock_def)

lemma pipe_idle_wakeup:
  assumes "pipe_idle pi s"
  shows "wakeup ch (locked_by_us (pilock pi) s) = Some (locked_by_us (pilock pi) (upd_procs (wake ch (curp s) (procs s)) s))"
  using assms wakeup_spec [of "locked_by_us (pilock pi) s" ch] by (simp add: pipe_idle_def proc_locks_free_def)

section \<open>Writing\<close>

lemma copyin_1:
  assumes "user_mapped pt va s"
  shows "\<exists>d. copyin fault pt (\<lambda>_. 0) 0 va 1 s = Some (0, d, s) \<and> d 0 = user_byte pt va s"
  using copyin_spec [of 1 pt va s fault "\<lambda>_. 0" 0] assms by simp

lemma pipewrite_loop_spec:
  assumes "pipe_idle pi s" "pi_readopen (pipes s pi)" "0 \<le> i" "i \<le> n"
    and "pipe_level (pipes s pi) + nat (n - i) \<le> PIPESIZE"
    and "\<And>k. i \<le> int k \<Longrightarrow> int k < n \<Longrightarrow> user_mapped (ppagetable (procs s (curp s))) (addr + of_nat k) s"
  shows "pipewrite_loop world fault (curp s) pi addr i n (locked_by_us (pilock pi) s) =
    Some (Some n, locked_by_us (pilock pi) (set_pipe pi
      (fold pipe_put (map (\<lambda>k. user_byte (ppagetable (procs s (curp s))) (addr + of_nat k) s) [nat i..<nat n])) s))"
  using assms
proof (induction "nat (n - i)" arbitrary: i s)
  case 0
  then show ?case by (subst pipewrite_loop.simps) simp
next
  case (Suc m)
  let ?l = "pilock pi" and ?pt = "ppagetable (procs s (curp s))"
  have lt: "i < n" using Suc.hyps(2) by simp
  note I = pipe_idleD [OF Suc.prems(1)]
  have nf: "\<not> pipe_full (pipes s pi)"
    unfolding pipe_full_level using Suc.prems(5) lt by simp
  obtain d where d: "copyin fault ?pt (\<lambda>_. 0) 0 (addr + of_int i) 1 s = Some (0, d, s)"
      "d 0 = user_byte ?pt (addr + of_int i) s"
    using copyin_1 [of ?pt "addr + of_nat (nat i)" s fault] Suc.prems(6) [of "nat i"] Suc.prems(3) lt by auto
  let ?t = "set_pipe pi (pipe_put (d 0)) s"
  have ok: "pipe_ok (pipe_put (d 0) (pipes s pi))" "pipe_bytes (pipe_put (d 0) (pipes s pi)) = pipe_bytes (pipes s pi) @ [d 0]"
    using pf.put_spec [OF I(3) nf] by auto
  then have lvl: "pipe_level (pipe_put (d 0) (pipes s pi)) = Suc (pipe_level (pipes s pi))"
    by (metis length_pipe_bytes length_append_singleton)
  have idle: "pipe_idle pi ?t" using Suc.prems(1) ok(1) by (simp add: pipe_idle_def proc_locks_free_def)
  have step: "pipewrite_loop world fault (curp s) pi addr i n (locked_by_us ?l s) =
      pipewrite_loop world fault (curp s) pi addr (i + 1) n (locked_by_us ?l ?t)"
    by (subst pipewrite_loop.simps) (use lt I nf d Suc.prems(2) in \<open>simp add: killed_spec locked_by_us_steps\<close>)
  have up: "[nat i..<nat n] = nat i # [nat (i + 1)..<nat n]"
    using lt Suc.prems(3) by (simp add: upt_conv_Cons nat_add_distrib)
  have "pipewrite_loop world fault (curp ?t) pi addr (i + 1) n (locked_by_us ?l ?t) =
    Some (Some n, locked_by_us ?l (set_pipe pi
      (fold pipe_put (map (\<lambda>k. user_byte (ppagetable (procs ?t (curp ?t))) (addr + of_nat k) ?t) [nat (i + 1)..<nat n])) ?t))"
  proof (rule Suc.hyps(1))
    show "m = nat (n - (i + 1))" using Suc.hyps(2) by simp
    show "pi_readopen (pipes ?t pi)" using Suc.prems(2) by (simp add: pipe_put_def)
    show "pipe_level (pipes ?t pi) + nat (n - (i + 1)) \<le> PIPESIZE" using Suc.prems(5) lvl lt by simp
    show "user_mapped (ppagetable (procs ?t (curp ?t))) (addr + of_nat k) ?t" if "i + 1 \<le> int k" "int k < n" for k
      using Suc.prems(6) [of k] that user_same_mem(1) [of ?t s] by simp
  qed (use idle lt Suc.prems(3) in simp_all)
  moreover have "of_int i = (of_nat (nat i) :: u64)" using Suc.prems(3) by simp
  moreover have "user_byte pt a ?t = user_byte pt a s" for pt a by (rule user_same_mem) simp
  ultimately show ?case unfolding step up using d(2) by (simp add: comp_def)
qed

lemma pipewrite_spec:
  assumes "pipe_idle pi s" "pi_readopen (pipes s pi)" "0 \<le> n" "pipe_level (pipes s pi) + nat n \<le> PIPESIZE"
    and "\<And>k. k < nat n \<Longrightarrow> user_mapped (ppagetable (procs s (curp s))) (addr + of_nat k) s"
  defines "bs \<equiv> map (\<lambda>k. user_byte (ppagetable (procs s (curp s))) (addr + of_nat k) s) [0..<nat n]"
  shows "pipewrite world fault pi addr n s =
    Some (n, upd_procs (wake (nread_chan pi) (curp s) (procs s)) (set_pipe pi (fold pipe_put bs) s))"
proof -
  let ?l = "pilock pi"
  let ?t = "set_pipe pi (fold pipe_put bs) s"
  note I = pipe_idleD [OF assms(1)]
  have "length bs = nat n" by (simp add: bs_def)
  then have "pipe_ok (fold pipe_put bs (pipes s pi))"
    using pf.puts_contents [OF I(3), of bs] assms(4) by simp
  then have idle: "pipe_idle pi ?t" using assms(1) by (simp add: pipe_idle_def proc_locks_free_def)
  have "pipewrite_loop world fault (curp s) pi addr 0 n (locked_by_us ?l s) = Some (Some n, locked_by_us ?l ?t)"
    using pipewrite_loop_spec [OF assms(1,2), of 0 n addr world fault] assms(3-5) by (simp add: bs_def)
  moreover have "wakeup (nread_chan pi) (locked_by_us ?l ?t) =
      Some (locked_by_us ?l (upd_procs (wake (nread_chan pi) (curp ?t) (procs ?t)) ?t))"
    by (rule pipe_idle_wakeup [OF idle])
  ultimately show ?thesis
    using I by (simp add: pipewrite_def locked_by_us_steps)
qed

section \<open>Reading\<close>

definition pipe_after :: "nat \<Rightarrow> pipe \<Rightarrow> pipe" where
  "pipe_after k p = ((\<lambda>p. snd (pipe_get p)) ^^ k) p"

lemma pipe_after_spec:
  assumes "pipe_ok p" "k \<le> pipe_level p"
  shows "pipe_ok (pipe_after k p)" "pipe_bytes (pipe_after k p) = drop k (pipe_bytes p)"
    and "pipe_level (pipe_after k p) = pipe_level p - k"
proof -
  show b: "pipe_ok (pipe_after k p)" "pipe_bytes (pipe_after k p) = drop k (pipe_bytes p)"
    using pf.gets_contents [OF assms(1), of k] assms(2) by (simp_all add: pipe_after_def)
  then have "length (pipe_bytes (pipe_after k p)) = length (drop k (pipe_bytes p))" by simp
  then show "pipe_level (pipe_after k p) = pipe_level p - k" by simp
qed

definition read_state :: "u64 \<Rightarrow> u64 \<Rightarrow> nat \<Rightarrow> 'a kfile_scheme \<Rightarrow> 'a kfile_scheme" where
  \<comment> \<open>after \<open>j\<close> bytes of the pipe have gone to user memory at \<open>addr\<close>\<close>
  "read_state pi addr j s = set_pipe pi (pipe_after j)
     (stored j (ppagetable (procs s (curp s))) addr (\<lambda>a. pipe_bytes (pipes s pi) ! unat a) 0 s)"

lemma read_state_simps [simp]:
  "procs (read_state pi addr j s) = procs s" "curp (read_state pi addr j s) = curp s"
  "lk (read_state pi addr j s) = lk s" "pipes (read_state pi addr j s) pi = pipe_after j (pipes s pi)"
  "mem (read_state pi addr j s) =
     mem (stored j (ppagetable (procs s (curp s))) addr (\<lambda>a. pipe_bytes (pipes s pi) ! unat a) 0 s)"
  by (simp_all add: read_state_def stored_def)

lemma copyout_one:
  assumes "\<And>i. i < n \<Longrightarrow> user_writable pt (va + of_nat i) s" "tables_apart n pt va s" "j < n"
    and "mem t = mem (stored j pt va obj 0 s)" "n < 2 ^ 64"
  shows "copyout fault pt (va + of_nat j) (\<lambda>_. obj (of_nat j)) 0 1 t =
    Some (0, t\<lparr>mem := mem (stored (Suc j) pt va obj 0 s)\<rparr>)"
proof -
  note K = stored_keeps [OF assms(1,2) _ assms(3), of j t obj 0]
  have w: "user_writable pt (va + of_nat j) t" using K(1) assms by simp
  have p: "user_phys pt (va + of_nat j) t = user_phys pt (va + of_nat j) s" using K(2) assms by simp
  have "tables_apart 1 pt (va + of_nat j) t"
    using assms(2,3) K(3) assms(4) p by (auto simp: tables_apart_def)
  then have "copyout fault pt (va + of_nat j) (\<lambda>_. obj (of_nat j)) 0 1 t =
      Some (0, t\<lparr>mem := user_store 1 pt (va + of_nat j) (\<lambda>_. obj (of_nat j)) 0 t (mem t)\<rparr>)"
    using copyout_spec [of 1 pt "va + of_nat j" t fault "\<lambda>_. obj (of_nat j)" 0] w by simp
  also have "user_store 1 pt (va + of_nat j) (\<lambda>_. obj (of_nat j)) 0 t (mem t) = mem (stored (Suc j) pt va obj 0 s)"
    using user_store_add [of j 1 pt va obj 0 s "mem s"] assms(4) p by (simp add: stored_def)
  finally show ?thesis .
qed

lemma piperead_copy_spec:
  assumes "pipe_idle pi s" "N = min n (pipe_level (pipes s pi))" "j \<le> N"
    and "\<And>i. i < N \<Longrightarrow> user_writable (ppagetable (procs s (curp s))) (addr + of_nat i) s"
    and "tables_apart N (ppagetable (procs s (curp s))) addr s"
  shows "piperead_copy fault (curp s) pi addr (n - j) (int j) (locked_by_us (pilock pi) (read_state pi addr j s)) =
    Some (int N, locked_by_us (pilock pi) (read_state pi addr N s))"
  using assms(3)
proof (induction "N - j" arbitrary: j rule: less_induct)
  case less
  let ?l = "pilock pi" and ?pt = "ppagetable (procs s (curp s))" and ?P = "pipes s pi"
  let ?bs = "\<lambda>a :: u64. pipe_bytes ?P ! unat a"
  note I = pipe_idleD [OF assms(1)]
  have L: "pipe_level ?P \<le> PIPESIZE" using I(3) by (simp add: pipe_ok_def)
  have N: "N < 2 ^ 64" "N \<le> pipe_level ?P" using L by (auto simp: assms(2) PIPESIZE_def)
  note A = pipe_after_spec [OF I(3)]
  show ?case
  proof (cases "j = N")
    case True
    show ?thesis
    proof (cases "n - j")
      case 0
      then show ?thesis using True by simp
    next
      case (Suc k)
      then have "pipe_level (pipe_after j ?P) = 0" using True A(3) [of j] N by (simp add: assms(2))
      then have "pipe_empty (pipe_after j ?P)" by (simp add: pipe_empty_def pipe_level_def unat_eq_0)
      then show ?thesis using True Suc by simp
    qed
  next
    case False
    then have j: "j < N" using less.prems by simp
    then obtain k where k: "n - j = Suc k" "n - Suc j = k" by (metis Suc_diff_Suc assms(2) min_less_iff_conj)
    let ?S = "read_state pi addr j s"
    have jl: "j < pipe_level ?P" using j N by simp
    have ne: "\<not> pipe_empty (pipe_after j ?P)"
      using A(3) [of j] jl by (auto simp: pipe_empty_def pipe_level_def)
    have uj: "unat (of_nat j :: u64) = j" using j N(1) by (intro of_nat_lt_word) simp
    have byte: "fst (pipe_get (pipe_after j ?P)) = ?bs (of_nat j)"
      using pf.get_nth [OF I(3), of j] jl uj by (simp add: pipe_after_def)
    have next_pipe: "snd (pipe_get (pipe_after j ?P)) = pipe_after (Suc j) ?P"
      by (simp add: pipe_after_def)
    let ?T = "set_pipe pi (\<lambda>_. pipe_after (Suc j) ?P) ?S"
    have "copyout fault ?pt (addr + of_nat j) (\<lambda>_. ?bs (of_nat j)) 0 1 ?T =
        Some (0, ?T\<lparr>mem := mem (stored (Suc j) ?pt addr ?bs 0 s)\<rparr>)"
      by (rule copyout_one [OF assms(4,5) j _ N(1)]) simp_all
    also have "?T\<lparr>mem := mem (stored (Suc j) ?pt addr ?bs 0 s)\<rparr> = read_state pi addr (Suc j) s"
      by (simp add: read_state_def set_pipe_def stored_def)
    finally have co: "copyout fault ?pt (addr + of_nat j) (\<lambda>_. ?bs (of_nat j)) 0 1 ?T =
        Some (0, read_state pi addr (Suc j) s)" .
    have g: "pipe_get (pipe_after j ?P) = (?bs (of_nat j), pipe_after (Suc j) ?P)"
      using byte next_pipe by (simp add: prod_eq_iff)
    have st: "piperead_copy fault (curp s) pi addr (Suc k) (int j) (locked_by_us ?l ?S) =
        piperead_copy fault (curp s) pi addr k (int (Suc j)) (locked_by_us ?l (read_state pi addr (Suc j) s))"
    proof -
      have e: "int j + 1 = int (Suc j)" by simp
      show ?thesis using ne g co I(1) by (simp add: locked_by_us_steps e del: of_nat_Suc)
    qed
    have "piperead_copy fault (curp s) pi addr (n - Suc j) (int (Suc j)) (locked_by_us ?l (read_state pi addr (Suc j) s)) =
        Some (int N, locked_by_us ?l (read_state pi addr N s))"
      by (rule less.hyps) (use j in auto)
    then show ?thesis unfolding k st [unfolded k] by (simp only: st k)
  qed
qed

lemma piperead_spec:
  assumes "pipe_idle pi s" "pipe_level (pipes s pi) \<noteq> 0 \<or> \<not> pi_writeopen (pipes s pi)"
    and "N = min (nat n) (pipe_level (pipes s pi))"
    and "\<And>i. i < N \<Longrightarrow> user_writable (ppagetable (procs s (curp s))) (addr + of_nat i) s"
    and "tables_apart N (ppagetable (procs s (curp s))) addr s"
  shows "piperead world fault pi addr n s =
    Some (int N, upd_procs (wake (nwrite_chan pi) (curp s) (procs s)) (read_state pi addr N s))"
proof -
  let ?l = "pilock pi"
  note I = pipe_idleD [OF assms(1)]
  have "\<not> (pipe_empty (pipes s pi) \<and> pi_writeopen (pipes s pi))"
    using assms(2) by (auto simp: pipe_empty_def pipe_level_def)
  then have w: "piperead_wait world (curp s) pi (locked_by_us ?l s) = Some (False, locked_by_us ?l s)"
    by (subst piperead_wait.simps) auto
  have s0: "read_state pi addr 0 s = s" by (simp add: read_state_def pipe_after_def [abs_def] stored_def)
  have c: "piperead_copy fault (curp s) pi addr (nat n) 0 (locked_by_us ?l s) =
      Some (int N, locked_by_us ?l (read_state pi addr N s))"
    using piperead_copy_spec [OF assms(1,3) _ assms(4,5), of 0 fault] by (simp add: s0)
  have "pipe_idle pi (read_state pi addr N s)"
    using assms(1) pipe_after_spec(1) [OF I(3), of N] assms(3) by (simp add: pipe_idle_def proc_locks_free_def)
  note W = pipe_idle_wakeup [OF this, of "nwrite_chan pi"]
  show ?thesis
    using I w c W by (simp add: piperead_def locked_by_us_steps)
qed

section \<open>Properties\<close>

text \<open>the ring buffer of a pipe refines a queue of at most 512 bytes, however often its two
  32-bit counters have wrapped: it is full and empty exactly when the queue is, storing a byte
  appends it and fetching one removes the oldest.\<close>
theorem pipe_refines_queue:
  assumes "pipe_ok p"
  shows "(pipe_full p \<longleftrightarrow> length (pipe_bytes p) = PIPESIZE) \<and> (pipe_empty p \<longleftrightarrow> pipe_bytes p = []) \<and>
    (\<not> pipe_full p \<longrightarrow> pipe_ok (pipe_put c p) \<and> pipe_bytes (pipe_put c p) = pipe_bytes p @ [c]) \<and>
    (\<not> pipe_empty p \<longrightarrow> fst (pipe_get p) = hd (pipe_bytes p) \<and> pipe_ok (snd (pipe_get p)) \<and>
       pipe_bytes (snd (pipe_get p)) = tl (pipe_bytes p))"
  using pf.full_iff [OF assms] pf.empty_iff [OF assms] pf.put_spec [OF assms] pf.get_spec [OF assms] by blast

definition old_pipe :: pipe where
  \<comment> \<open>four billion bytes later: the next byte wraps the write counter to 0\<close>
  "old_pipe = \<lparr>pi_data = (\<lambda>i. of_nat (i + 1)), pi_nread = 0xFFFFFFFE, pi_nwrite = 0xFFFFFFFF,
     pi_readopen = True, pi_writeopen = True\<rparr>"

lemma old_pipe_facts: "pipe_level old_pipe = 1" "pipe_ok old_pipe" "pipe_bytes old_pipe = [255]"
  by (simp_all add: old_pipe_def pipe_level_def pipe_ok_def PIPESIZE_def pipe_bytes_def)


text \<open>C15: when the reader is there and the pipe has room, \<open>pipewrite\<close> of \<open>n\<close> mapped user bytes
  returns \<open>n\<close>, has appended exactly these bytes in order to the pipe, and has made runnable the
  processes that wait to read.\<close>
theorem pipewrite_appends_user_bytes:
  assumes "pipe_idle pi s" "pi_readopen (pipes s pi)" "0 \<le> n" "pipe_level (pipes s pi) + nat n \<le> PIPESIZE"
    and "\<And>k. k < nat n \<Longrightarrow> user_mapped (ppagetable (procs s (curp s))) (addr + of_nat k) s"
  shows "\<exists>t. pipewrite world fault pi addr n s = Some (n, t) \<and> pipe_ok (pipes t pi) \<and>
    pipe_bytes (pipes t pi) = pipe_bytes (pipes s pi) @
      map (\<lambda>k. user_byte (ppagetable (procs s (curp s))) (addr + of_nat k) s) [0..<nat n] \<and>
    procs t = wake (nread_chan pi) (curp s) (procs s) \<and> mem t = mem s"
proof -
  let ?bs = "map (\<lambda>k. user_byte (ppagetable (procs s (curp s))) (addr + of_nat k) s) [0..<nat n]"
  have "pipe_ok (fold pipe_put ?bs (pipes s pi)) \<and> pipe_bytes (fold pipe_put ?bs (pipes s pi)) = pipe_bytes (pipes s pi) @ ?bs"
    by (rule pf.puts_contents) (use assms(4) pipe_idleD(3) [OF assms(1)] in simp_all)
  moreover have "pipes (upd_procs P u) = pipes u" for P and u :: "'a kfile_scheme" by (simp add: upd_procs_def)
  ultimately show ?thesis using pipewrite_spec [OF assms] by simp
qed

definition piped :: kfile where
  \<comment> \<open>the machine with the worn pipe in page 0x87009000\<close>
  "piped = machine\<lparr>pipes := (\<lambda>_. zero_pipe)(0x87009000 := old_pipe)\<rparr>"

lemma piped_facts:
  "pipe_idle 0x87009000 piped" "pipes piped 0x87009000 = old_pipe" "mem piped = mem machine" "curp piped = 0"
  "ppagetable (procs piped 0) = machine_pt"
  using old_pipe_facts by (simp_all add: pipe_idle_def piped_def machine_def proc_locks_free_def NPROC_def zero_proc_def)

lemma piped_user:
  assumes "k < 4"
  shows "user_mapped machine_pt (0x1FFE + of_nat k) piped" "user_writable machine_pt (0x1FFE + of_nat k) piped"
proof -
  have "k = 0 \<or> k = 1 \<or> k = 2 \<or> k = 3" using assms by arith
  then show "user_mapped machine_pt (0x1FFE + of_nat k) piped" "user_writable machine_pt (0x1FFE + of_nat k) piped"
    using machine_user_mapped machine_user_writable
    by (auto simp: user_same_mem(1,4) [OF piped_facts(3)])
qed

theorem pipewrite_appends_user_bytes_witness:
  "\<exists>t. pipewrite (\<lambda>_. None) (\<lambda>_ _ _. None) 0x87009000 0x1FFE 4 piped = Some (4, t) \<and>
     pipe_bytes (pipes t 0x87009000) = [255, 1, 2, 5, 6]"
proof -
  have "pi_readopen (pipes piped 0x87009000)" by (simp add: piped_facts old_pipe_def)
  moreover have "pipe_level (pipes piped 0x87009000) + nat 4 \<le> PIPESIZE"
    by (simp add: piped_facts old_pipe_facts PIPESIZE_def)
  moreover have "user_mapped (ppagetable (procs piped (curp piped))) (0x1FFE + of_nat k) piped" if "k < nat 4" for k
    using piped_user(1) [of k] that by (simp add: piped_facts)
  ultimately obtain t where "pipewrite (\<lambda>_. None) (\<lambda>_ _ _. None) 0x87009000 0x1FFE 4 piped = Some (4, t)"
      "pipe_bytes (pipes t 0x87009000) = pipe_bytes (pipes piped 0x87009000) @
        map (\<lambda>k. user_byte (ppagetable (procs piped (curp piped))) (0x1FFE + of_nat k) piped) [0..<nat 4]"
    using pipewrite_appends_user_bytes [OF piped_facts(1), where n = 4 and addr = "0x1FFE" and world = "\<lambda>_. None"
        and fault = "\<lambda>_ _ _. None"] by auto
  moreover have "[0..<nat 4] = [0, 1, 2, 3]" by (simp add: upt_rec)
  ultimately show ?thesis
    by (simp add: piped_facts old_pipe_facts user_byte_def user_same_mem(2) [OF piped_facts(3)] machine_user_phys machine_byte)
qed

text \<open>C16: \<open>piperead\<close> from a pipe that holds bytes (or whose writer is gone) returns the smaller of
  \<open>n\<close> and the number of bytes, has stored that many of the oldest bytes in order to the mapped user
  memory and removed exactly them, and has made runnable the processes that wait to write.\<close>
theorem piperead_delivers_in_order:
  assumes "pipe_idle pi s" "pipe_bytes (pipes s pi) \<noteq> [] \<or> \<not> pi_writeopen (pipes s pi)"
    and "N = min (nat n) (length (pipe_bytes (pipes s pi)))"
    and "\<And>i. i < N \<Longrightarrow> user_writable (ppagetable (procs s (curp s))) (addr + of_nat i) s"
    and "tables_apart N (ppagetable (procs s (curp s))) addr s"
  shows "\<exists>t. piperead world fault pi addr n s = Some (int N, t) \<and>
    pipe_bytes (pipes t pi) = drop N (pipe_bytes (pipes s pi)) \<and>
    mem t = user_store N (ppagetable (procs s (curp s))) addr (\<lambda>a. pipe_bytes (pipes s pi) ! unat a) 0 s (mem s) \<and>
    procs t = wake (nwrite_chan pi) (curp s) (procs s)"
proof -
  have e: "pipe_level (pipes s pi) \<noteq> 0 \<or> \<not> pi_writeopen (pipes s pi)"
    using assms(2) by (metis length_0_conv length_pipe_bytes)
  have u: "pipes (upd_procs P u) = pipes u" for P and u :: "'a kfile_scheme" by (simp add: upd_procs_def)
  show ?thesis
    using piperead_spec [OF assms(1) e _ assms(4,5), of n world fault] assms(3)
      pipe_after_spec(2) [OF pipe_idleD(3) [OF assms(1)], of N] by (simp add: u stored_def)
qed

theorem piperead_delivers_in_order_witness:
  "\<exists>t. piperead (\<lambda>_. None) (\<lambda>_ _ _. None) 0x87009000 0x1FFE 4 piped = Some (1, t) \<and>
     mem t 0x87003FFE = 255 \<and> pipe_bytes (pipes t 0x87009000) = []"
proof -
  have N: "1 = min (nat 4) (length (pipe_bytes (pipes piped 0x87009000)))"
    by (simp add: piped_facts old_pipe_facts)
  have "tables_apart 1 machine_pt 0x1FFE piped"
    unfolding tables_apart_def user_same_mem(2,5) [OF piped_facts(3)]
    using machine_tables_apart [unfolded tables_apart_def, rule_format, of 0 0] by auto
  then show ?thesis
    using piperead_delivers_in_order [OF piped_facts(1) _ N, of "0x1FFE" "\<lambda>_. None" "\<lambda>_ _ _. None"] piped_user(2) [of 0]
    by (auto simp: piped_facts old_pipe_facts user_same_mem(2) [OF piped_facts(3)] machine_user_phys)
qed

text \<open>C17: when the destination is not a user address, \<open>piperead\<close> returns 0, but the oldest byte is
  gone from the pipe: it was taken out before the copy failed.\<close>
theorem piperead_loses_byte_on_bad_address:
  assumes "pipe_idle pi s" "pipe_bytes (pipes s pi) \<noteq> []" "0 < n" "MAXVA \<le> PGROUNDDOWN addr"
  shows "\<exists>t. piperead world fault pi addr n s = Some (0, t) \<and>
    pipe_bytes (pipes t pi) = tl (pipe_bytes (pipes s pi)) \<and> mem t = mem s"
proof -
  let ?l = "pilock pi" and ?P = "pipes s pi"
  let ?t = "set_pipe pi (\<lambda>_. snd (pipe_get ?P)) s"
  note I = pipe_idleD [OF assms(1)]
  have ne: "\<not> pipe_empty ?P" using pf.empty_iff [OF I(3)] assms(2) by simp
  note G = pf.get_spec [OF I(3) ne]
  have idle: "pipe_idle pi ?t" using assms(1) G by (simp add: pipe_idle_def proc_locks_free_def)
  have w: "piperead_wait world (curp s) pi (locked_by_us ?l s) = Some (False, locked_by_us ?l s)"
    by (subst piperead_wait.simps) (use ne in simp)
  obtain k where k: "nat n = Suc k" using assms(3) by (metis gr0_conv_Suc zero_less_nat_eq)
  have co: "copyout fault pt addr obj src 1 u = Some (-1, u)" for pt obj src and u :: "'a kfile_scheme"
    using assms(4) by (subst copyout.simps) (simp add: Let_def)
  obtain c q where g: "pipe_get ?P = (c, q)" by (cases "pipe_get ?P")
  have c: "piperead_copy fault (curp s) pi addr (nat n) 0 (locked_by_us ?l s) = Some (0, locked_by_us ?l ?t)"
    unfolding k using ne I g by (simp add: locked_by_us_steps co)
  have u: "pipes (upd_procs P u) = pipes u" for P and u :: "'a kfile_scheme" by (simp add: upd_procs_def)
  show ?thesis
    using I w c pipe_idle_wakeup [OF idle, of "nwrite_chan pi"] G by (simp add: piperead_def locked_by_us_steps u)
qed

theorem piperead_loses_byte_on_bad_address_witness:
  "\<exists>t. piperead (\<lambda>_. None) (\<lambda>_ _ _. None) 0x87009000 0xFFFFFFFFFFFF0000 1 piped = Some (0, t) \<and>
     pipe_bytes (pipes t 0x87009000) = []"
  using piperead_loses_byte_on_bad_address [OF piped_facts(1), of 1 "0xFFFFFFFFFFFF0000" "\<lambda>_. None" "\<lambda>_ _ _. None"]
  by (auto simp: piped_facts old_pipe_facts MAXVA_def PGROUNDDOWN_def)

end
