(* ===== verification/FsProps.thy ===== *)
theory FsProps
  imports Machine TxnProps
begin

text \<open>
  Properties of the file system (\<open>kernel/fs.c\<close>): the block allocator and the inodes, on top of
  a log transaction in progress.
\<close>

section \<open>What a transaction step keeps\<close>

lemma lstep_fs:
  assumes "lstep s t"
  shows "sb t = sb s" "itable t = itable s" "dirent_buf t = dirent_buf s"
proof -
  have m: "logst.more t = logst.more s" using assms by (simp add: lstep_def)
  show "sb t = sb s" "itable t = itable s" "dirent_buf t = dirent_buf s"
    using m by (cases s; cases t; simp)+
qed

lemma bzero_update: "bzero 1 bno s = update_block (unat bno) (mem_set 0 0 BSIZE) s"
  by (simp add: bzero_def update_block_def Let_def)

section \<open>The block bitmap\<close>

definition bitmap_block :: "superblock \<Rightarrow> nat \<Rightarrow> nat" where
  \<comment> \<open>the block of the bitmap that holds the bit of block \<open>b\<close>\<close>
  "bitmap_block x b = unat (BBLOCK (of_nat b) x)"

definition used :: "'a fsst_scheme \<Rightarrow> nat \<Rightarrow> bool" where
  "used s b \<longleftrightarrow> bit_used (view s (bitmap_block (sb s) b)) (b mod BPB)"

definition set_bit_used :: "nat \<Rightarrow> bytes \<Rightarrow> bytes" where
  "set_bit_used bi d = d(of_nat (bi div 8) := d (of_nat (bi div 8)) OR push_bit (bi mod 8) 1)"

definition clear_bit_used :: "nat \<Rightarrow> bytes \<Rightarrow> bytes" where
  "clear_bit_used bi d = d(of_nat (bi div 8) := d (of_nat (bi div 8)) AND NOT (push_bit (bi mod 8) 1))"

definition fs_geometry :: "'a fsst_scheme \<Rightarrow> bool" where
  \<comment> \<open>the bitmap lies outside the log, and so does every block that is not in use\<close>
  "fs_geometry s \<longleftrightarrow> unat (sb_size (sb s)) \<le> FSSIZE \<and>
     (\<forall>b < unat (sb_size (sb s)). blk_ok (bitmap_block (sb s) b) \<and> bitmap_block (sb s) b \<notin> log_area s \<and>
        (\<not> used s b \<longrightarrow> blk_ok b \<and> b \<notin> log_area s))"

lemma find_free_bit_Some:
  "find_free_bit k bi b sz d = Some r \<Longrightarrow>
     bi \<le> r \<and> r < bi + k \<and> b + r < sz \<and> \<not> bit_used d r \<and> (\<forall>j. bi \<le> j \<and> j < r \<longrightarrow> bit_used d j)"
proof (induction k arbitrary: bi)
  case (Suc k)
  show ?case
  proof (cases "b + bi < sz \<and> bit_used d bi")
    case True
    then have "find_free_bit k (Suc bi) b sz d = Some r" using Suc.prems by simp
    note I = Suc.IH [OF this]
    have "bit_used d j" if "bi \<le> j" "j < r" for j
      using that I True by (cases "j = bi") auto
    then show ?thesis using I by auto
  qed (use Suc.prems in \<open>auto split: if_splits\<close>)
qed simp

lemma find_free_bit_None:
  "find_free_bit k bi b sz d = None \<Longrightarrow> bi \<le> j \<Longrightarrow> j < bi + k \<Longrightarrow> b + j < sz \<Longrightarrow> bit_used d j"
proof (induction k arbitrary: bi)
  case (Suc k)
  then show ?case by (cases "j = bi") (auto split: if_splits)
qed simp

lemma BPB_eq: "BPB = 32768"
  by (simp add: BPB_def BSIZE_def)

lemma bitmap_block_group:
  assumes "b mod BPB = 0" "j < BPB" "b + j < 2 ^ 32"
  shows "bitmap_block x (b + j) = unat (BBLOCK (of_nat b) x)" "(b + j) mod BPB = j"
proof -
  obtain q where q: "b = BPB * q" using assms(1) by (metis mod_0_imp_dvd dvd_def)
  have d: "(b + j) div BPB = b div BPB" using assms(2) by (simp add: q)
  have w: "(of_nat c :: u32) div of_nat BPB = of_nat (c div BPB)" if "c < 2 ^ 32" for c
  proof -
    have "unat ((of_nat c :: u32) div of_nat BPB) = c div BPB"
      using that by (simp only: unat_div_distrib) (simp add: BPB_eq)
    moreover have "c div BPB < 2 ^ 32" using that by (meson div_le_dividend le_less_trans)
    ultimately show ?thesis by (simp add: word_unat_eq_iff)
  qed
  show "bitmap_block x (b + j) = unat (BBLOCK (of_nat b) x)"
    unfolding bitmap_block_def BBLOCK_def using w [of "b + j"] w [of b] assms(3) d by simp
  show "(b + j) mod BPB = j" using assms(2) by (simp add: q)
qed

lemma balloc_step:
  \<comment> \<open>one round of the outer loop\<close>
  assumes "b < unat (sb_size (sb s))"
  shows "balloc_loop (Suc k) b 1 s = do {
      (bp, t) \<leftarrow> bread 1 (BBLOCK (of_nat b) (sb s)) s;
      (case find_free_bit BPB 0 b (unat (sb_size (sb t))) (bdata t bp) of
         Some bi \<Rightarrow> do {
           t \<leftarrow> log_write bp (bmod bp (set_bit_used bi (bdata t bp)) t);
           t \<leftarrow> brelse bp t;
           t \<leftarrow> bzero 1 (of_nat (b + bi)) t;
           Some (of_nat (b + bi), t) }
       | None \<Rightarrow> do { t \<leftarrow> brelse bp t; balloc_loop k (b + BPB) 1 t }) }"
  using assms by (simp add: set_bit_used_def Let_def cong: option.case_cong)

definition ballocated :: "'a fsst_scheme \<Rightarrow> nat \<Rightarrow> 'a fsst_scheme \<Rightarrow> bool" where
  \<comment> \<open>block \<open>b\<close> has been allocated: its bit is set and it holds zeroes\<close>
  "ballocated s b t \<longleftrightarrow> in_txn t \<and> lstep s t \<and> disk t = disk s \<and> lh_n t \<le> lh_n s + 2 \<and>
     view t = (let m = bitmap_block (sb s) b; v = (view s)(m := set_bit_used (b mod BPB) (view s m))
               in v(b := mem_set 0 0 BSIZE (v b)))"

definition balloc_result :: "'a fsst_scheme \<Rightarrow> nat \<Rightarrow> u32 \<Rightarrow> 'a fsst_scheme \<Rightarrow> bool" where
  \<comment> \<open>the outcome of \<open>balloc\<close> when the blocks below \<open>b0\<close> are known to be in use\<close>
  "balloc_result s b0 r t \<longleftrightarrow>
     (\<exists>b. b0 \<le> b \<and> b < unat (sb_size (sb s)) \<and> \<not> used s b \<and> (\<forall>j. b0 \<le> j \<and> j < b \<longrightarrow> used s j) \<and>
        r = of_nat b \<and> ballocated s b t) \<or>
     (\<forall>b. b0 \<le> b \<and> b < unat (sb_size (sb s)) \<longrightarrow> used s b) \<and> r = 0 \<and>
       in_txn t \<and> lstep s t \<and> view t = view s \<and> disk t = disk s \<and> lh_n t = lh_n s"

lemma balloc_found:
  assumes x: "in_txn s" and g: "fs_geometry s" and room: "log_room s 2"
    and b: "b mod BPB = 0" "b + bi < unat (sb_size (sb s))" "\<not> used s (b + bi)" "bi < BPB"
  shows "\<exists>t u. update_block (unat (BBLOCK (of_nat b) (sb s))) (set_bit_used bi) s = Some t \<and>
    bzero 1 (of_nat (b + bi)) t = Some u \<and> ballocated s (b + bi) u"
proof -
  have lt: "b + bi < 2 ^ 32" using g b(2) by (simp add: fs_geometry_def FSSIZE_def)
  note B = bitmap_block_group(1) [OF b(1,4) lt, of "sb s"] bitmap_block_group(2) [OF b(1,4) lt]
  let ?m = "bitmap_block (sb s) (b + bi)"
  have G: "blk_ok ?m" "?m \<notin> log_area s" "blk_ok (b + bi)" "b + bi \<notin> log_area s"
    using g b(2,3) by (auto simp: fs_geometry_def)
  have r1: "log_room s 1" using room by (simp add: log_room_def)
  obtain t where t: "update_block ?m (set_bit_used bi) s = Some t" "in_txn t" "lstep s t"
      "view t = (view s)(?m := set_bit_used bi (view s ?m))" "disk t = disk s"
      "lh_n t = (if ?m \<in> logged s then lh_n s else lh_n s + 1)"
    using update_block_spec [OF x G(1,2) r1, of "set_bit_used bi"] by blast
  have "log_room t 1" using room t(6) lstep_log [OF t(3)] by (simp add: log_room_def)
  moreover have "b + bi \<notin> log_area t" using G(4) lstep_log [OF t(3)] by simp
  ultimately obtain u where u: "update_block (b + bi) (mem_set 0 0 BSIZE) t = Some u" "in_txn u" "lstep t u"
      "view u = (view t)(b + bi := mem_set 0 0 BSIZE (view t (b + bi)))" "disk u = disk t"
      "lh_n u = (if b + bi \<in> logged t then lh_n t else lh_n t + 1)"
    using update_block_spec [OF t(2) G(3), of "mem_set 0 0 BSIZE"] by blast
  have "bzero 1 (of_nat (b + bi)) t = Some u"
    unfolding bzero_update using u(1) lt by (simp add: of_nat_lt_word del: of_nat_add)
  moreover have "ballocated s (b + bi) u"
    unfolding ballocated_def Let_def B(2) using u t lstep_trans [OF t(3) u(3)] by simp
  ultimately show ?thesis using t(1) B(1) by auto
qed

lemma balloc_loop_spec:
  assumes "in_txn s" "fs_geometry s" "log_room s 2" "b mod BPB = 0"
    and "unat (sb_size (sb s)) < b + k * BPB"
  shows "\<exists>r t. balloc_loop k b 1 s = Some (r, t) \<and> balloc_result s b r t"
  using assms
proof (induction k arbitrary: b s)
  case 0
  then have "balloc_result s b 0 s" unfolding balloc_result_def by (intro disjI2) auto
  then show ?case by simp
next
  case (Suc k)
  note x = Suc.prems(1) and g = Suc.prems(2)
  let ?sz = "unat (sb_size (sb s))" and ?m = "unat (BBLOCK (of_nat b) (sb s))"
  show ?case
  proof (cases "b < ?sz")
    case False
    then have "balloc_result s b 0 s" unfolding balloc_result_def using x by (intro disjI2) auto
    then show ?thesis using False by simp
  next
    case True
    have sz: "?sz < 2 ^ 32" using g by (simp add: fs_geometry_def FSSIZE_def)
    have grp: "bitmap_block (sb s) (b + j) = ?m" "(b + j) mod BPB = j" if "j < BPB" "b + j < ?sz" for j
      using bitmap_block_group [OF Suc.prems(4) that(1)] that(2) sz by auto
    have us: "used s (b + j) \<longleftrightarrow> bit_used (view s ?m) j" if "j < BPB" "b + j < ?sz" for j
      using grp [OF that] by (simp add: used_def)
    have "blk_ok (bitmap_block (sb s) b)" using g True unfolding fs_geometry_def by blast
    then have okm: "blk_ok ?m" using True grp(1) [of 0] by (simp add: BPB_eq)
    have rm: "?m \<in> logged s \<or> lh_n s < LOGSIZE" using Suc.prems(3) by (simp add: log_room_def)
    obtain i t u where rd: "bread 1 (of_nat ?m) s = Some (i, t)" "bdata t i = view s ?m" "lstep s t"
        "brelse i t = Some u" "in_txn u" "lstep s u" "view u = view s" "disk u = disk s" "logged u = logged s" "lh_n u = lh_n s"
      using read_block_spec [OF x okm rm] by blast
    have rd1: "bread 1 (BBLOCK (of_nat b) (sb s)) s = Some (i, t)" using rd(1) by simp
    note L = lstep_fs [OF rd(3)] lstep_fs [OF rd(6)]
    show ?thesis
    proof (cases "find_free_bit BPB 0 b ?sz (view s ?m)")
      case (Some bi)
      note F = find_free_bit_Some [OF Some]
      have nb: "\<not> used s (b + bi)" using F us [of bi] by simp
      obtain v w where v: "update_block ?m (set_bit_used bi) s = Some v"
          "bzero 1 (of_nat (b + bi)) v = Some w" "ballocated s (b + bi) w"
        using balloc_found [OF x g Suc.prems(3,4) _ nb] F by auto
      have "balloc_loop (Suc k) b 1 s =
          Option.bind (update_block ?m (set_bit_used bi) s) (\<lambda>t. Option.bind (bzero 1 (of_nat (b + bi)) t)
            (\<lambda>t. Some (of_nat (b + bi), t)))"
        unfolding balloc_step [OF True] using rd1 rd(1,2) L Some by (simp add: update_block_def Let_def)
      then have "balloc_loop (Suc k) b 1 s = Some (of_nat (b + bi), w)" using v by simp
      moreover have "used s j" if "b \<le> j" "j < b + bi" for j
      proof -
        have "j - b < bi" "b + (j - b) = j" using that by auto
        then show ?thesis using F us [of "j - b"] by auto
      qed
      ultimately show ?thesis using F nb v(3) unfolding balloc_result_def
        by (intro exI [of _ "of_nat (b + bi)"] exI [of _ w]) (auto intro!: exI [of _ "b + bi"])
    next
      case None
      have used0: "used s (b + j)" if "j < BPB" "b + j < ?sz" for j
        using find_free_bit_None [OF None, of j] us [OF that] that by simp
      have ueq: "used u c = used s c" for c using L rd(7) by (simp add: used_def)
      have "fs_geometry u" using g ueq L rd(6) lstep_log [OF rd(6)] by (simp add: fs_geometry_def)
      moreover have "log_room u 2" using Suc.prems(3) rd(10) lstep_log [OF rd(6)] by (simp add: log_room_def)
      moreover have "(b + BPB) mod BPB = 0" using Suc.prems(4) by simp
      moreover have "unat (sb_size (sb u)) < b + BPB + k * BPB" using Suc.prems(5) L by simp
      ultimately have "\<exists>r w. balloc_loop k (b + BPB) 1 u = Some (r, w) \<and> balloc_result u (b + BPB) r w"
        by (intro Suc.IH [OF rd(5)])
      then obtain r w where w: "balloc_loop k (b + BPB) 1 u = Some (r, w)" "balloc_result u (b + BPB) r w"
        by (elim exE conjE)
      have "balloc_loop (Suc k) b 1 s = Some (r, w)"
        unfolding balloc_step [OF True] using rd1 rd(2,4) L None w(1) by simp
      moreover have split: "b \<le> j \<and> j < ?sz \<longleftrightarrow> b + BPB \<le> j \<and> j < ?sz \<or> b \<le> j \<and> j < ?sz \<and> j < b + BPB" for j
        by auto
      have low: "used s j" if "b \<le> j" "j < b + BPB" "j < ?sz" for j
        using used0 [of "j - b"] that by auto
      have "balloc_result s b r w"
        using w(2) unfolding balloc_result_def ueq L
      proof (elim disjE exE conjE)
        fix c assume c: "b + BPB \<le> c" "c < ?sz" "\<not> used s c" "\<forall>j. b + BPB \<le> j \<and> j < c \<longrightarrow> used s j" "r = of_nat c"
          and a: "ballocated u c w"
        have "ballocated s c w"
          using a lstep_trans [OF rd(6), of w] rd by (simp add: ballocated_def L)
        moreover have "\<forall>j. b \<le> j \<and> j < c \<longrightarrow> used s j" using c low by (metis le_less_trans not_le less_trans)
        ultimately show "(\<exists>b'. b \<le> b' \<and> b' < ?sz \<and> \<not> used s b' \<and> (\<forall>j. b \<le> j \<and> j < b' \<longrightarrow> used s j) \<and>
            r = of_nat b' \<and> ballocated s b' w) \<or> (\<forall>b'. b \<le> b' \<and> b' < ?sz \<longrightarrow> used s b') \<and> r = 0 \<and>
            in_txn w \<and> lstep s w \<and> view w = view s \<and> disk w = disk s \<and> lh_n w = lh_n s"
          using c by (intro disjI1 exI [of _ c]) auto
      next
        assume hi: "\<forall>c. b + BPB \<le> c \<and> c < ?sz \<longrightarrow> used s c" and o: "r = 0" "in_txn w" "lstep u w" "view w = view u"
          "disk w = disk u" "lh_n w = lh_n u"
        have "\<forall>b'. b \<le> b' \<and> b' < ?sz \<longrightarrow> used s b'" using hi low by (meson not_le)
        then show "(\<exists>b'. b \<le> b' \<and> b' < ?sz \<and> \<not> used s b' \<and> (\<forall>j. b \<le> j \<and> j < b' \<longrightarrow> used s j) \<and>
            r = of_nat b' \<and> ballocated s b' w) \<or> (\<forall>b'. b \<le> b' \<and> b' < ?sz \<longrightarrow> used s b') \<and> r = 0 \<and>
            in_txn w \<and> lstep s w \<and> view w = view s \<and> disk w = disk s \<and> lh_n w = lh_n s"
          using o lstep_trans [OF rd(6)] rd by (intro disjI2) simp
      qed
      ultimately show ?thesis by blast
    qed
  qed
qed

lemma bfree_update:
  assumes "in_txn s" "fs_geometry s" "log_room s 1" "b < unat (sb_size (sb s))" "used s b"
  shows "\<exists>t. bfree 1 (of_nat b) s = Some t \<and> in_txn t \<and> lstep s t \<and> disk t = disk s \<and> lh_n t \<le> lh_n s + 1 \<and>
    view t = (view s)(bitmap_block (sb s) b := clear_bit_used (b mod BPB) (view s (bitmap_block (sb s) b)))"
proof -
  let ?m = "bitmap_block (sb s) b"
  have m: "blk_ok ?m" "?m \<notin> log_area s" using assms(2,4) unfolding fs_geometry_def by blast+
  have lt: "b < 2 ^ 32" using assms(2,4) by (simp add: fs_geometry_def FSSIZE_def)
  have bi: "unat ((of_nat b :: u32) mod of_nat BPB) = b mod BPB"
    using lt by (simp only: unat_mod_distrib) (simp add: BPB_eq)
  obtain i t u where rd: "bread 1 (of_nat ?m) s = Some (i, t)" "bdata t i = view s ?m"
    using read_block_spec [OF assms(1) m(1)] assms(3) by (auto simp: log_room_def)
  have "bfree 1 (of_nat b) s = update_block ?m (clear_bit_used (b mod BPB)) s"
    using rd assms(5)
    by (simp add: bfree_def update_block_def bitmap_block_def used_def bi clear_bit_used_def Let_def)
  then show ?thesis
    using update_block_spec [OF assms(1) m assms(3), of "clear_bit_used (b mod BPB)"] by auto
qed

lemma bfree_panics:
  assumes "in_txn s" "fs_geometry s" "log_room s 1" "b < unat (sb_size (sb s))" "\<not> used s b"
  shows "bfree 1 (of_nat b) s = None"
proof -
  let ?m = "bitmap_block (sb s) b"
  have m: "blk_ok ?m" using assms(2,4) unfolding fs_geometry_def by blast
  have lt: "b < 2 ^ 32" using assms(2,4) by (simp add: fs_geometry_def FSSIZE_def)
  have bi: "unat ((of_nat b :: u32) mod of_nat BPB) = b mod BPB"
    using lt by (simp only: unat_mod_distrib) (simp add: BPB_eq)
  obtain i t where rd: "bread 1 (of_nat ?m) s = Some (i, t)" "bdata t i = view s ?m"
    using read_block_spec [OF assms(1) m] assms(3) by (auto simp: log_room_def)
  then show ?thesis
    using assms(5) by (simp add: bfree_def bitmap_block_def used_def bi Let_def)
qed

lemma bits_roundtrip:
  assumes "\<not> bit_used d bi"
  shows "bit_used (set_bit_used bi d) bi" "clear_bit_used bi (set_bit_used bi d) = d"
proof -
  let ?m = "push_bit (bi mod 8) 1 :: u8"
  have b: "bit ?m n \<longleftrightarrow> n = bi mod 8" for n
    unfolding bit_push_bit_iff bit_1_iff by (auto simp: order.strict_trans2 [OF mod_less_divisor])
  have z: "d (of_nat (bi div 8)) AND ?m = 0" using assms by (simp add: bit_used_def)
  have nb: "\<not> bit (d (of_nat (bi div 8))) (bi mod 8)"
  proof
    assume "bit (d (of_nat (bi div 8))) (bi mod 8)"
    then have "bit (d (of_nat (bi div 8)) AND ?m) (bi mod 8)" unfolding bit_and_iff b by simp
    then show False unfolding z by simp
  qed
  have "bit ((d (of_nat (bi div 8)) OR ?m) AND ?m) (bi mod 8)" unfolding bit_and_iff bit_or_iff b by simp
  then have "(d (of_nat (bi div 8)) OR ?m) AND ?m \<noteq> 0" by (metis bit_0_eq bot_apply bot_bool_def)
  then show "bit_used (set_bit_used bi d) bi" by (simp add: bit_used_def set_bit_used_def)
  have "(d (of_nat (bi div 8)) OR ?m) AND NOT ?m = d (of_nat (bi div 8))"
  proof (rule bit_word_eqI)
    fix n assume "n < LENGTH(8)"
    then show "bit ((d (of_nat (bi div 8)) OR ?m) AND NOT ?m) n = bit (d (of_nat (bi div 8))) n"
      unfolding bit_and_iff bit_or_iff bit_not_iff b using nb by auto
  qed
  then show "clear_bit_used bi (set_bit_used bi d) = d"
    by (simp add: clear_bit_used_def set_bit_used_def)
qed

lemma bit_used_iff: "bit_used d bi \<longleftrightarrow> bit (d (of_nat (bi div 8))) (bi mod 8)"
proof -
  let ?m = "push_bit (bi mod 8) 1 :: u8" and ?w = "d (of_nat (bi div 8))"
  have b: "bit ?m n \<longleftrightarrow> n = bi mod 8" for n
    unfolding bit_push_bit_iff bit_1_iff by (auto simp: order.strict_trans2 [OF mod_less_divisor])
  have "?w AND ?m \<noteq> 0 \<longleftrightarrow> (\<exists>n. bit (?w AND ?m) n)"
    by (metis bit_0_eq bot_apply bot_bool_def bit_eq_iff)
  then show ?thesis unfolding bit_used_def bit_and_iff b by auto
qed

lemma bit_used_set_mono: "bit_used d j \<Longrightarrow> bit_used (set_bit_used bi d) j"
  by (auto simp: bit_used_iff set_bit_used_def bit_or_iff)

section \<open>On-disk inodes\<close>

definition off :: "u64 \<Rightarrow> nat \<Rightarrow> u64" where
  \<comment> \<open>the address \<open>x\<close> bytes into a structure\<close>
  "off a x = a + of_nat x"

lemma off_disjoint:
  assumes "x + n \<le> y \<or> y + k \<le> x" "x + n < 2 ^ 32" "y + k < 2 ^ 32"
  shows "ranges_disjoint (off a x) n (off a y) k"
  using of_nat_ranges_disjoint [OF assms] by (simp add: ranges_disjoint_def off_def add.assoc)

lemma ld_st_off:
  assumes "x < 2 ^ 31" "y < 2 ^ 31"
  shows "x + 2 \<le> y \<or> y + 2 \<le> x \<Longrightarrow> ld16 (st16 (off a x) v m) (off a y) = ld16 m (off a y)"
    and "x + 4 \<le> y \<or> y + 2 \<le> x \<Longrightarrow> ld16 (st32 (off a x) w m) (off a y) = ld16 m (off a y)"
    and "x + 2 \<le> y \<or> y + 4 \<le> x \<Longrightarrow> ld32 (st16 (off a x) v m) (off a y) = ld32 m (off a y)"
    and "x + 4 \<le> y \<or> y + 4 \<le> x \<Longrightarrow> ld32 (st32 (off a x) w m) (off a y) = ld32 m (off a y)"
proof -
  have d: "ldn k (stn n (off a x) z m) (off a y) = ldn k m (off a y)"
    if "x + n \<le> y \<or> y + k \<le> x" "n \<le> 4" "k \<le> 4" for n k z
    by (rule ldn_stn_disjoint, rule off_disjoint) (use assms that in auto)
  show "x + 2 \<le> y \<or> y + 2 \<le> x \<Longrightarrow> ld16 (st16 (off a x) v m) (off a y) = ld16 m (off a y)"
    "x + 4 \<le> y \<or> y + 2 \<le> x \<Longrightarrow> ld16 (st32 (off a x) w m) (off a y) = ld16 m (off a y)"
    "x + 2 \<le> y \<or> y + 4 \<le> x \<Longrightarrow> ld32 (st16 (off a x) v m) (off a y) = ld32 m (off a y)"
    "x + 4 \<le> y \<or> y + 4 \<le> x \<Longrightarrow> ld32 (st32 (off a x) w m) (off a y) = ld32 m (off a y)"
    unfolding ld16_def ld32_def st16_def st32_def by (simp_all add: d)
qed

lemma st_addrs_off: "st_addrs (Suc k) (dip + 12) addrs d = st32 (off dip (12 + 4 * k)) (addrs k) (st_addrs k (dip + 12) addrs d)"
  by (simp add: off_def add.assoc)

lemma st_addrs_ld32:
  "j < k \<Longrightarrow> k < 2 ^ 16 \<Longrightarrow> ld32 (st_addrs k (dip + 12) addrs d) (off dip (12 + 4 * j)) = addrs j"
proof (induction k)
  case (Suc k)
  then show ?case by (cases "j = k") (simp_all only: st_addrs_off ld_st_same, simp add: ld_st_off)
qed simp

lemma st_addrs_other:
  assumes "k < 2 ^ 16"
  shows "y + 2 \<le> 12 \<Longrightarrow> ld16 (st_addrs k (dip + 12) addrs d) (off dip y) = ld16 d (off dip y)"
    and "y + 4 \<le> 12 \<Longrightarrow> ld32 (st_addrs k (dip + 12) addrs d) (off dip y) = ld32 d (off dip y)"
  using assms
proof (induction k)
  case (Suc k)
  { case 1 then show ?case using Suc by (simp only: st_addrs_off) (simp add: ld_st_off) }
  { case 2 then show ?case using Suc by (simp only: st_addrs_off) (simp add: ld_st_off) }
qed simp_all

lemma put_dinode_off:
  "put_dinode i dip d =
     st_addrs TOTBUF (dip + 12) (i_addrs i) (st32 (off dip 8) (i_size i) (st16 (off dip 6) (i_nlink i)
       (st16 (off dip 4) (i_minor i) (st16 (off dip 2) (i_major i) (st16 (off dip 0) (i_type i) d)))))"
  by (simp add: put_dinode_def Let_def off_def)

definition on_disk :: "inode \<Rightarrow> inode \<Rightarrow> bool" where
  \<comment> \<open>the two agree in the fields of \<open>struct dinode\<close>\<close>
  "on_disk i j \<longleftrightarrow> i_type i = i_type j \<and> i_major i = i_major j \<and> i_minor i = i_minor j \<and>
     i_nlink i = i_nlink j \<and> i_size i = i_size j \<and> (\<forall>k < TOTBUF. i_addrs i k = i_addrs j k)"

lemma dinode_roundtrip: "on_disk (get_dinode dip (put_dinode i dip d) j) i"
proof -
  have T: "TOTBUF < 2 ^ 16" by (simp add: TOTBUF_def)
  let ?d = "put_dinode i dip d"
  have a: "ld32 ?d (off dip (12 + 4 * k)) = i_addrs i k" if "k < TOTBUF" for k
    unfolding put_dinode_off by (rule st_addrs_ld32 [OF that T])
  have f: "ld16 ?d (off dip 0) = i_type i" "ld16 ?d (off dip 2) = i_major i"
    "ld16 ?d (off dip 4) = i_minor i" "ld16 ?d (off dip 6) = i_nlink i" "ld32 ?d (off dip 8) = i_size i"
    unfolding put_dinode_off by (simp_all add: st_addrs_other [OF T] ld_st_off)
  show ?thesis
    using f a by (simp add: on_disk_def get_dinode_def off_def add.assoc)
qed

section \<open>Writing an inode back and reading it again\<close>

definition inode_block :: "'a fsst_scheme \<Rightarrow> u32 \<Rightarrow> nat" where
  "inode_block s inum = unat (IBLOCK inum (sb s))"

lemma iupdate_update:
  assumes "i_dev (itable s ip) = 1" "bread 1 (IBLOCK (i_inum (itable s ip)) (sb s)) s = Some (b, t)"
    "itable t = itable s"
  shows "iupdate ip s = update_block (inode_block s (i_inum (itable s ip)))
    (put_dinode (itable s ip) (dinode_off (i_inum (itable s ip)))) s"
  using assms by (simp add: iupdate_def update_block_def inode_block_def Let_def)

lemma iupdate_spec:
  assumes x: "in_txn s" and room: "log_room s 1" and d: "i_dev (itable s ip) = 1"
  defines "m \<equiv> inode_block s (i_inum (itable s ip))"
  assumes m: "blk_ok m" "m \<notin> log_area s"
  shows "\<exists>t. iupdate ip s = Some t \<and> in_txn t \<and> lstep s t \<and> disk t = disk s \<and> lh_n t \<le> lh_n s + 1 \<and>
    view t = (view s)(m := put_dinode (itable s ip) (dinode_off (i_inum (itable s ip))) (view s m))"
proof -
  have rm: "m \<in> logged s \<or> lh_n s < LOGSIZE" using room by (simp add: log_room_def)
  obtain i t where rd: "bread 1 (of_nat m) s = Some (i, t)" "lstep s t"
    using read_block_spec [OF x m(1) rm] by blast
  have "iupdate ip s = update_block m (put_dinode (itable s ip) (dinode_off (i_inum (itable s ip)))) s"
    unfolding m_def by (rule iupdate_update [OF d, where b = i and t = t]) (use rd lstep_fs(2) [OF rd(2)] in \<open>simp_all add: m_def inode_block_def\<close>)
  then show ?thesis
    using update_block_spec [OF x m room, of "put_dinode (itable s ip) (dinode_off (i_inum (itable s ip)))"] by auto
qed

lemma put_dinode_frame:
  assumes "64 \<le> unat (a - dip)" shows "put_dinode i dip d a = d a"
proof -
  have ne: "a \<noteq> off (off dip y) k" if "y + k < 64" for y k
  proof
    assume "a = off (off dip y) k"
    then have "a - dip = of_nat (y + k)" by (simp add: off_def)
    then show False using assms that by (simp add: of_nat_lt_word del: of_nat_add)
  qed
  have s: "st16 (off dip y) v m a = m a" "y + 4 \<le> 64 \<Longrightarrow> st32 (off dip y) w m a = m a" if "y + 2 \<le> 64" for y v w m
    unfolding st16_def st32_def by (rule stn_other; use ne [of y] that in \<open>simp add: off_def\<close>)+
  have "st_addrs k (dip + 12) f m a = m a" if "k \<le> 13" for k f m
    using that by (induction k) (simp_all only: st_addrs_off, simp_all add: s)
  then show ?thesis by (simp add: put_dinode_off s TOTBUF_def)
qed

lemma in_txn_same:
  assumes "in_txn s" "same_cache s t" "log_wf t = log_wf s" "lh_n t = lh_n s" "lh_block t = lh_block s"
    "log_start t = log_start s" "outstanding t = outstanding s" "committing t = committing s" "lk t LogLock = lk s LogLock"
  shows "in_txn t"
proof -
  have h: "home t = home s" using assms(5) by (simp add: home_def fun_eq_iff)
  then have "logged t = logged s" using assms(4) by (simp add: logged_def)
  then show ?thesis
    using assms h by (simp add: in_txn_def txn_core_def same_cacheD [OF assms(2)])
qed

lemma iupd_log_wf [simp]:
  "log_wf (set_inode ip f s) = log_wf s" "log_wf (s\<lparr>itable := y\<rparr>) = log_wf s" "log_wf (s\<lparr>sl := x\<rparr>) = log_wf s"
  by (simp_all add: log_wf_def set_inode_def log_area_def home_def)

lemma ilock_spec:
  assumes x: "in_txn s" and d: "i_dev (itable s ip) = 1" and v: "\<not> i_valid (itable s ip)" "1 \<le> i_ref (itable s ip)"
    and k: "sl s (InodeSleep ip) = None" "lk s (SleepSpin (InodeSleep ip)) = None"
  defines "m \<equiv> inode_block s (i_inum (itable s ip))"
  assumes m: "blk_ok m" "m \<in> logged s \<or> lh_n s < LOGSIZE"
  defines "j \<equiv> get_dinode (dinode_off (i_inum (itable s ip))) (view s m) (itable s ip)"
  shows "if i_type j = 0 then ilock ip s = None
    else \<exists>u. ilock ip s = Some u \<and> in_txn u \<and> view u = view s \<and> disk u = disk s \<and>
      itable u = (itable s)(ip := j\<lparr>i_valid := True\<rparr>)"
proof -
  let ?s = "s\<lparr>sl := (sl s)(InodeSleep ip \<mapsto> mypid s)\<rparr>"
  have sc: "same_cache s ?s" by (simp add: same_cache_def)
  have x1: "in_txn ?s" by (rule in_txn_same [OF x sc]) simp_all
  have lg: "logged ?s = logged s" by (simp add: logged_def home_def)
  have rm: "bc.room ?s m" by (rule in_txn_room [OF x1 m(1)]) (use m(2) lg in simp)
  have bi: "binv ?s" using x1 txn_coreD(2) [of ?s "{}"] by (simp add: in_txn_def)
  obtain i t where t: "bread 1 (of_nat m) ?s = Some (i, t)" and g: "bc.got ?s m i t"
    using bc.fetch [OF bi rm] by blast
  note G = g [unfolded bc.got_def]
  have t': "lstep ?s t" using G bstep_lstep by blast
  note F = lstep_fs [OF t']
  let ?t = "set_inode ip (get_dinode (dinode_off (i_inum (itable s ip))) (view s m)) t"
  have bd: "bdata t i = view s m" using G same_cacheD(1) [OF sc] by simp
  have sct: "same_cache t ?t" by (simp add: same_cache_def set_inode_def)
  obtain u where u: "brelse i ?t = Some u" "binv u" "bstep ?t u" "view u = view s" "disk u = disk s" "refs u = refs s"
      "\<forall>c. blocked u c \<longrightarrow> blocked s c"
    using bc.letgo [OF g same_cache_seen [OF sct]] same_cacheD [OF sc] by auto
  have tu: "lstep ?t u" using u(3) bstep_lstep by blast
  note U = bstep_log [OF u(3)] lstep_fs [OF tu] lstep_log [OF tu]
  have T: "bstep ?s t" using G by blast
  note TL = bstep_log [OF T]
  have lku: "lk u = lk s" using u(3) T by (simp add: bstep_def set_inode_def)
  let ?u = "set_inode ip (\<lambda>i. i\<lparr>i_valid := True\<rparr>) u"
  have scu: "same_cache u ?u" by (simp add: same_cache_def set_inode_def)
  have hu: "home u = home s" "lh_n u = lh_n s" "log_start u = log_start s"
    using U TL by (simp_all add: home_def set_inode_def fun_eq_iff)
  then have lgu: "logged u = logged s" by (simp add: logged_def)
  have wf: "log_wf u = log_wf s" using bstep_log_wf [OF u(3)] bstep_log_wf [OF T] by simp
  have "in_txn u"
    using x u hu lgu wf lku U TL by (simp add: in_txn_def txn_core_def set_inode_def)
  then have "in_txn ?u" by (rule in_txn_same [OF _ scu]) (simp_all add: set_inode_def)
  moreover have "itable ?u = (itable s)(ip := j\<lparr>i_valid := True\<rparr>)"
    using F U by (simp add: set_inode_def j_def)
  moreover have "view ?u = view s" "disk ?u = disk s" using same_cacheD [OF scu] u by auto
  moreover have "ilock ip s = (if i_type j = 0 then None else Some ?u)"
    using v k d t bd u(1) F U(8-10)
    by (simp add: ilock_def kernel_simps m_def inode_block_def Let_def set_inode_def j_def)
  ultimately show ?thesis by (auto split: if_splits)
qed

section \<open>A concrete file system\<close>

definition demo_bits :: bytes where
  \<comment> \<open>a bitmap in which only block 100 is free\<close>
  "demo_bits = (\<lambda>a. if a = 12 then 0xEF else 0xFF)"

definition demo_inode :: inode where
  "demo_inode = zero_inode\<lparr>i_dev := 1, i_inum := 80, i_ref := 1, i_valid := True, i_type := 2, i_nlink := 1, i_size := 5\<rparr>"

definition demo_fs :: "kfile \<Rightarrow> kfile" where
  \<comment> \<open>an operation is in progress; slots 0 and 1 of the inode table name inode 80\<close>
  "demo_fs s = s\<lparr>lk := (\<lambda>_. None), log_start := 2, log_size := 31, outstanding := 1, committing := False,
     log_dev := 1, lh_n := 0, sb := sb machine,
     itable := (\<lambda>_. zero_inode)(0 := demo_inode, 1 := demo_inode\<lparr>i_valid := False, i_type := 0, i_size := 0\<rparr>)\<rparr>"

lemma demo_fs_simps [simp]:
  "lk (demo_fs s) = (\<lambda>_. None)" "log_start (demo_fs s) = 2" "log_size (demo_fs s) = 31"
  "outstanding (demo_fs s) = 1" "\<not> committing (demo_fs s)" "log_dev (demo_fs s) = 1" "lh_n (demo_fs s) = 0"
  "sb (demo_fs s) = sb machine"
  "itable (demo_fs s) = (\<lambda>_. zero_inode)(0 := demo_inode, 1 := demo_inode\<lparr>i_valid := False, i_type := 0, i_size := 0\<rparr>)"
  by (simp_all add: demo_fs_def)

lemma demo_bits_used: "bi < BPB \<Longrightarrow> bit_used demo_bits bi \<longleftrightarrow> bi \<noteq> 100"
proof -
  assume "bi < BPB"
  then have lt: "bi div 8 < 2 ^ 12" by (simp add: BPB_eq less_mult_imp_div_less)
  have n8: "m = 0 \<or> m = 1 \<or> m = 2 \<or> m = 3 \<or> m = 4 \<or> m = 5 \<or> m = 6 \<or> m = 7" if "m < 8" for m :: nat
    using that by linarith
  have "bit (0xFF :: u8) (bi mod 8)" "bit (0xEF :: u8) (bi mod 8) \<longleftrightarrow> bi mod 8 \<noteq> 4"
    using n8 [of "bi mod 8"] by (auto simp: bit_numeral_rec)
  moreover have "(of_nat (bi div 8) :: u64) = 12 \<longleftrightarrow> bi div 8 = 12"
    using lt by (simp add: word_unat_eq_iff)
  moreover have "bi = 100 \<longleftrightarrow> bi div 8 = 12 \<and> bi mod 8 = 4" by presburger
  ultimately show ?thesis by (auto simp: bit_used_iff demo_bits_def)
qed

lemma demo_bitmap_block: "b < 2000 \<Longrightarrow> bitmap_block (sb machine) b = 45"
proof -
  assume b: "b < 2000"
  have "unat ((of_nat b :: u32) div of_nat BPB) = b div BPB"
    using b by (simp only: unat_div_distrib) (simp add: BPB_eq)
  then have "(of_nat b :: u32) div of_nat BPB = 0" using b by (simp add: BPB_eq word_unat_eq_iff)
  then show ?thesis by (simp add: bitmap_block_def BBLOCK_def machine_def)
qed

lemma demo_fs_in_txn:
  obtains s :: kfile where "in_txn (demo_fs s)" "fs_geometry (demo_fs s)" "log_room (demo_fs s) 29"
    "log_area (demo_fs s) = {2..32}" "view (demo_fs s) 45 = demo_bits" "logged (demo_fs s) = {}"
    "\<forall>b < 2000. used (demo_fs s) b = (b \<noteq> 100)"
proof -
  let ?D = "(\<lambda>_ _. 0)(45 := demo_bits)"
  have "cache_boot (machine\<lparr>disk := ?D\<rparr>)" by (simp add: cache_boot_def machine_def)
  then obtain s :: kfile where s: "clean_cache s" "disk s = ?D"
    using binit_clean [of "machine\<lparr>disk := ?D\<rparr>" "\<lambda>_. 0"] by auto
  obtain L where "binvX s L {}" using s(1) by (auto simp: clean_cache_def binv_def)
  then have "same_cache s (demo_fs s)"
    using binvXD(2) [of s L "{}"] by (simp add: same_cache_def demo_fs_def)
  note S = same_cacheD [OF this]
  have "log_wf (demo_fs s)" by (simp add: log_wf_def FSSIZE_def LOGSIZE_def)
  moreover have lg: "logged (demo_fs s) = {}" by (simp add: logged_def)
  ultimately have x: "in_txn (demo_fs s)"
    using s unfolding in_txn_def txn_core_def by (auto simp: S clean_cache_def hdr_n_zero)
  have v: "view (demo_fs s) 45 = demo_bits" using s by (simp add: S clean_cache_def)
  have u: "used (demo_fs s) b \<longleftrightarrow> b \<noteq> 100" if "b < 2000" for b
    using that demo_bits_used [of "b mod BPB"] by (simp add: used_def demo_bitmap_block v BPB_eq)
  have la: "log_area (demo_fs s) = {2..32}" by (auto simp: log_area_def)
  have "sb_size (sb machine) = 2000" by (simp add: machine_def)
  then have "fs_geometry (demo_fs s)"
    by (auto simp: fs_geometry_def demo_bitmap_block u la blk_ok_def FSSIZE_def)
  moreover have "log_room (demo_fs s) 29" by (simp add: log_room_def LOGSIZE_def)
  ultimately show thesis using that [of s] x v u la lg by blast
qed

section \<open>Properties\<close>

text \<open>C18: inside a transaction \<open>balloc\<close> allocates the lowest free block: it sets exactly that
  bit of the bitmap and hands the block out zeroed, all through the log and with nothing written
  to the disk; when every block is in use it returns 0 and changes nothing that can be read.\<close>
theorem balloc_takes_lowest_free:
  assumes "in_txn s" "fs_geometry s" "log_room s 2"
  shows "\<exists>r t. balloc 1 s = Some (r, t) \<and> in_txn t \<and> disk t = disk s \<and>
    ((\<exists>b < unat (sb_size (sb s)). \<not> used s b \<and> (\<forall>j < b. used s j) \<and> r = of_nat b \<and>
        (let m = bitmap_block (sb s) b; v = (view s)(m := set_bit_used (b mod BPB) (view s m))
         in view t = v(b := mem_set 0 0 BSIZE (v b)))) \<or>
     (\<forall>b < unat (sb_size (sb s)). used s b) \<and> r = 0 \<and> view t = view s)"
proof -
  let ?k = "unat (sb_size (sb s)) div BPB + 1"
  have "unat (sb_size (sb s)) < 0 + ?k * BPB"
    using div_mult_mod_eq [of "unat (sb_size (sb s))" BPB] by (simp add: BPB_eq)
  then obtain r t where t: "balloc_loop ?k 0 1 s = Some (r, t)" "balloc_result s 0 r t"
    using balloc_loop_spec [OF assms, of 0 ?k] by auto
  have "balloc 1 s = Some (r, t)" using t(1) by (simp add: balloc_def)
  then show ?thesis
    using t(2) unfolding balloc_result_def ballocated_def Let_def by fastforce
qed

theorem balloc_takes_lowest_free_witness:
  "\<exists>(s :: kfile) t. in_txn s \<and> balloc 1 s = Some (100, t) \<and> view t 100 0 = 0"
proof -
  obtain s :: kfile where s: "in_txn (demo_fs s)" "fs_geometry (demo_fs s)" "log_room (demo_fs s) 29"
      "\<forall>b < 2000. used (demo_fs s) b = (b \<noteq> 100)" by (rule demo_fs_in_txn)
  let ?s = "demo_fs s"
  have sz: "unat (sb_size (sb ?s)) = 2000" by (simp add: machine_def)
  have r: "log_room ?s 2" using s(3) by (simp add: log_room_def)
  obtain q t where t: "balloc 1 ?s = Some (q, t)"
    and d: "(\<exists>b < 2000. \<not> used ?s b \<and> (\<forall>j < b. used ?s j) \<and> q = of_nat b \<and>
        (let m = bitmap_block (sb ?s) b; v = (view ?s)(m := set_bit_used (b mod BPB) (view ?s m))
         in view t = v(b := mem_set 0 0 BSIZE (v b)))) \<or> (\<forall>b < 2000. used ?s b) \<and> q = 0 \<and> view t = view ?s"
    using balloc_takes_lowest_free [OF s(1,2) r] unfolding sz by blast
  have "\<not> (\<forall>b < 2000. used ?s b)" using s(4) by auto
  then obtain b where b: "b < 2000" "\<not> used ?s b" "q = of_nat b" "view t b 0 = 0"
    using d by (auto simp: Let_def mem_set_def BSIZE_def)
  then have "b = 100" using s(4) by blast
  then show ?thesis using t b s(1) by auto
qed

text \<open>\<open>bfree\<close> undoes \<open>balloc\<close>: after a block was allocated, freeing it makes every block
  of the file system read as before but for the block itself, which stays zeroed, and the same
  blocks are free again; freeing it once more panics.\<close>
theorem bfree_undoes_balloc:
  assumes "in_txn s" "fs_geometry s" "log_room s 4" "balloc 1 s = Some (r, t)"
    and "b < unat (sb_size (sb s))" "\<not> used s b" "\<forall>j < b. used s j"
    and "\<forall>c < unat (sb_size (sb s)). b \<noteq> bitmap_block (sb s) c"
  shows "r = of_nat b \<and> (\<exists>u. bfree 1 r t = Some u \<and> view u = (view s)(b := mem_set 0 0 BSIZE (view s b)) \<and>
    (\<forall>c < unat (sb_size (sb s)). used u c = used s c) \<and> bfree 1 r u = None)"
proof -
  let ?k = "unat (sb_size (sb s)) div BPB + 1" and ?m = "bitmap_block (sb s) b"
  have rm: "log_room s 2" using assms(3) by (simp add: log_room_def)
  have "unat (sb_size (sb s)) < 0 + ?k * BPB"
    using div_mult_mod_eq [of "unat (sb_size (sb s))" BPB] by (simp add: BPB_eq)
  then have "balloc_result s 0 r t"
    using balloc_loop_spec [OF assms(1,2) rm, of 0 ?k] assms(4) by (auto simp: balloc_def)
  then obtain b' where b': "\<not> used s b'" "\<forall>j < b'. used s j" "r = of_nat b'" "ballocated s b' t"
    unfolding balloc_result_def using assms(5,6) by auto
  have "b' = b" using b'(1,2) assms(6,7) by (meson linorder_neqE_nat)
  then have r: "r = of_nat b" and a: "ballocated s b t" using b' by simp_all
  have nb: "b \<noteq> bitmap_block (sb s) c" if "c < unat (sb_size (sb s))" for c using assms(8) that by blast
  have t: "in_txn t" "lstep s t" "lh_n t \<le> lh_n s + 2"
    "view t = (view s)(?m := set_bit_used (b mod BPB) (view s ?m), b := mem_set 0 0 BSIZE (view s b))"
    using a nb [OF assms(5)] by (simp_all add: ballocated_def Let_def)
  note F = lstep_fs [OF t(2)] lstep_log [OF t(2)]
  have bits: "bit_used (view s ?m) (b mod BPB) = False" using assms(6) by (simp add: used_def)
  note R = bits_roundtrip [of "view s ?m" "b mod BPB"]
  have ub: "used t b" using bits R(1) nb [OF assms(5)] by (simp add: used_def F t(4))
  have up: "used t c" if "c < unat (sb_size (sb s))" "used s c" for c
    using that nb [OF that(1)] by (auto simp: used_def F t(4) bit_used_set_mono)
  have "fs_geometry t" using assms(2) up by (auto simp: fs_geometry_def F)
  moreover have "log_room t 1" using assms(3) t(3) F by (simp add: log_room_def)
  ultimately obtain u where u: "bfree 1 r t = Some u" "in_txn u" "lstep t u" "lh_n u \<le> lh_n t + 1"
      "view u = (view t)(?m := clear_bit_used (b mod BPB) (view t ?m))"
    using bfree_update [OF t(1) _ _ _ ub] assms(5) unfolding r F by blast
  note U = lstep_fs [OF u(3)] lstep_log [OF u(3)]
  have vu: "view u = (view s)(b := mem_set 0 0 BSIZE (view s b))"
    unfolding u(5) t(4) using nb [OF assms(5)] R(2) bits by (auto simp: fun_eq_iff)
  have us: "used u c = used s c" if "c < unat (sb_size (sb s))" for c
    using nb [OF that] by (simp add: used_def U F vu)
  have "fs_geometry u" using assms(2) us by (simp add: fs_geometry_def U F)
  moreover have "log_room u 1" using assms(3) t(3) u(4) U F by (simp add: log_room_def)
  ultimately have "bfree 1 r u = None"
    unfolding r using bfree_panics [OF u(2), of b] us assms(5,6) by (simp add: U F)
  then show ?thesis using r u(1) vu us by blast
qed


text \<open>C19: an inode written by \<open>iupdate\<close> is what \<open>ilock\<close> reads back: \<open>iupdate\<close> logs the
  inode's block with the inode's fields in its 64-byte slot and every other byte as it was; in any later
  state in which that block is unchanged, locking an entry for the same inode that was not read yet
  yields those fields, or panics when the inode was written with type 0.\<close>
theorem inode_survives_iupdate_ilock:
  assumes "in_txn s" "log_room s 1" "i_dev (itable s ip) = 1"
    and "blk_ok (unat (IBLOCK (i_inum (itable s ip)) (sb s)))" "unat (IBLOCK (i_inum (itable s ip)) (sb s)) \<notin> log_area s"
  shows "\<exists>t. iupdate ip s = Some t \<and> in_txn t \<and> disk t = disk s \<and>
    (let n = i_inum (itable s ip); m = unat (IBLOCK n (sb s)) in
      (\<forall>c. c \<noteq> m \<longrightarrow> view t c = view s c) \<and>
      (\<forall>a. 64 \<le> unat (a - dinode_off n) \<longrightarrow> view t m a = view s m a) \<and>
      (\<forall>(u :: 'a fsst_scheme) jp. in_txn u \<and> view u m = view t m \<and> sb u = sb s \<and> lh_n u < LOGSIZE \<and>
          i_dev (itable u jp) = 1 \<and> i_inum (itable u jp) = n \<and> \<not> i_valid (itable u jp) \<and> 1 \<le> i_ref (itable u jp) \<and>
          sl u (InodeSleep jp) = None \<and> lk u (SleepSpin (InodeSleep jp)) = None \<longrightarrow>
        (if i_type (itable s ip) = 0 then ilock jp u = None
         else \<exists>w. ilock jp u = Some w \<and> i_valid (itable w jp) \<and> on_disk (itable w jp) (itable s ip) \<and>
           view w = view u \<and> (\<forall>kp. kp \<noteq> jp \<longrightarrow> itable w kp = itable u kp))))"
proof -
  let ?n = "i_inum (itable s ip)" and ?m = "inode_block s (i_inum (itable s ip))"
  have m: "unat (IBLOCK ?n (sb s)) = ?m" by (simp add: inode_block_def)
  obtain t where t: "iupdate ip s = Some t" "in_txn t" "disk t = disk s"
      "view t = (view s)(?m := put_dinode (itable s ip) (dinode_off ?n) (view s ?m))"
    using iupdate_spec [OF assms(1-3)] assms(4,5) unfolding m by blast
  have "if i_type (itable s ip) = 0 then ilock jp u = None
      else \<exists>w. ilock jp u = Some w \<and> i_valid (itable w jp) \<and> on_disk (itable w jp) (itable s ip) \<and>
        view w = view u \<and> (\<forall>kp. kp \<noteq> jp \<longrightarrow> itable w kp = itable u kp)"
    if u: "in_txn u" "view u ?m = view t ?m" "sb u = sb s" "lh_n u < LOGSIZE" "i_dev (itable u jp) = 1"
      "i_inum (itable u jp) = ?n" "\<not> i_valid (itable u jp)" "1 \<le> i_ref (itable u jp)"
      "sl u (InodeSleep jp) = None" "lk u (SleepSpin (InodeSleep jp)) = None" for u :: "'a fsst_scheme" and jp
  proof -
    let ?j = "get_dinode (dinode_off ?n) (view u ?m) (itable u jp)"
    have j: "on_disk ?j (itable s ip)" unfolding u(2) t(4) by (simp add: dinode_roundtrip)
    have b: "inode_block u ?n = ?m" using u(3,6) by (simp add: inode_block_def)
    have o: "on_disk (?j\<lparr>i_valid := True\<rparr>) (itable s ip)" "i_type ?j = i_type (itable s ip)"
      using j by (simp_all add: on_disk_def)
    show ?thesis
      using ilock_spec [OF u(1,5,7-10)] assms(4) u(4) o unfolding m u(6) b by auto
  qed
  then show ?thesis
    using t by (intro exI [of _ t]) (auto simp: Let_def m put_dinode_frame)
qed

theorem inode_survives_iupdate_ilock_witness:
  "\<exists>(s :: kfile) t u. \<not> i_valid (itable s 1) \<and> i_size (itable s 1) = 0 \<and> iupdate 0 s = Some t \<and>
     ilock 1 (t\<lparr>sl := (sl t)(InodeSleep 1 := None)\<rparr>) = Some u \<and> i_size (itable u 1) = 5"
proof -
  obtain s :: kfile where s: "in_txn (demo_fs s)" "log_room (demo_fs s) 29" "log_area (demo_fs s) = {2..32}"
    by (rule demo_fs_in_txn)
  let ?s = "demo_fs s"
  have m: "unat (IBLOCK 80 (sb machine)) = 33" by (simp add: IBLOCK_def machine_def IPB_def BSIZE_def)
  have r: "log_room ?s 1" using s(2) by (simp add: log_room_def)
  have n: "i_inum (itable ?s 0) = 80" "i_dev (itable ?s 0) = 1" by (simp_all add: demo_inode_def)
  have ok: "blk_ok (unat (IBLOCK (i_inum (itable ?s 0)) (sb ?s)))"
    "unat (IBLOCK (i_inum (itable ?s 0)) (sb ?s)) \<notin> log_area ?s"
    using s(3) m n by (simp_all add: blk_ok_def FSSIZE_def)
  note P = inode_survives_iupdate_ilock [OF s(1) r n(2) ok]
  obtain t where t: "iupdate 0 ?s = Some t" "lstep ?s t" "in_txn t" "lh_n t \<le> 1"
    using iupdate_spec [OF s(1) r n(2)] ok by (auto simp: inode_block_def)
  note F = lstep_fs [OF t(2)]
  let ?u = "t\<lparr>sl := (sl t)(InodeSleep 1 := None)\<rparr>"
  have sc: "same_cache t ?u" by (simp add: same_cache_def)
  have lk: "lk ?u = (\<lambda>_. None)" using t(2) by (simp add: lstep_def)
  have xu: "in_txn ?u" by (rule in_txn_same [OF t(3) sc]) simp_all
  let ?H = "\<lambda>(u :: kfile) jp. in_txn u \<and> view u 33 = view t 33 \<and> sb u = sb ?s \<and> lh_n u < LOGSIZE \<and>
      i_dev (itable u jp) = 1 \<and> i_inum (itable u jp) = 80 \<and> \<not> i_valid (itable u jp) \<and> 1 \<le> i_ref (itable u jp) \<and>
      sl u (InodeSleep jp) = None \<and> lk u (SleepSpin (InodeSleep jp)) = None"
  have "i_type (itable ?s 0) \<noteq> 0" by (simp add: demo_inode_def)
  then have "\<forall>u jp. ?H u jp \<longrightarrow> (\<exists>w. ilock jp u = Some w \<and> i_valid (itable w jp) \<and> on_disk (itable w jp) (itable ?s 0) \<and>
      view w = view u \<and> (\<forall>kp. kp \<noteq> jp \<longrightarrow> itable w kp = itable u kp))"
    using P t(1) unfolding Let_def n(1) m demo_fs_simps(8) by (elim exE conjE) simp
  moreover have "?H ?u 1"
    using t(4) lk F same_cacheD(1) [OF sc] xu by (simp add: demo_inode_def LOGSIZE_def)
  ultimately have "\<exists>w. ilock 1 ?u = Some w \<and> on_disk (itable w 1) (itable ?s 0)" by blast
  then obtain w where "ilock 1 ?u = Some w" "i_size (itable w 1) = 5"
    by (auto simp: on_disk_def demo_inode_def)
  then show ?thesis using t(1) by (intro exI [of _ ?s] exI [of _ t] exI [of _ w]) (simp add: demo_inode_def)
qed

end
