(* ===== verification/Grep.thy ===== *)
theory Grep
  imports Prelude
begin

text \<open>
  The user program \<open>user/grep.c\<close>: the Kernighan and Pike matcher, and the loop that cuts
  the input into lines in a 1024 byte buffer.  A C string is the list of its characters
  before the terminating zero, so \<open>re[0] == 0\<close> is the empty list and \<open>re+1\<close> its tail.
  The matcher is proved equal to the language its pattern denotes, and the buffered loop
  to a filter on the lines of the input.
\<close>

section \<open>The matcher\<close>

function (sequential) matchhere :: "string \<Rightarrow> string \<Rightarrow> bool"
  and matchstar :: "char \<Rightarrow> string \<Rightarrow> string \<Rightarrow> bool" where
  "matchhere re tx =
     (case re of [] \<Rightarrow> True
      | c # re1 \<Rightarrow>
          if re1 \<noteq> [] \<and> hd re1 = CHR ''*'' then matchstar c (tl re1) tx
          else if c = CHR ''$'' \<and> re1 = [] then tx = []
          else if tx \<noteq> [] \<and> (c = CHR ''.'' \<or> c = hd tx) then matchhere re1 (tl tx)
          else False)"
| "matchstar c re tx =
     (if matchhere re tx then True
      else if tx \<noteq> [] \<and> (hd tx = c \<or> c = CHR ''.'') then matchstar c re (tl tx)
      else False)"
  by pat_completeness auto
termination
  by (relation "measures [\<lambda>x. case x of Inl (re, t) \<Rightarrow> length re | Inr (c, re, t) \<Rightarrow> length re,
                          \<lambda>x. case x of Inl (re, t) \<Rightarrow> length t | Inr (c, re, t) \<Rightarrow> length t,
                          \<lambda>x. case x of Inl (re, t) \<Rightarrow> 0 | Inr (c, re, t) \<Rightarrow> 1]") auto

fun match_from :: "string \<Rightarrow> string \<Rightarrow> bool" where
  \<comment> \<open>\<open>do ... while(*tx++ != 0)\<close>\<close>
  "match_from re tx =
     (if matchhere re tx then True
      else case tx of [] \<Rightarrow> False | c # tx1 \<Rightarrow> match_from re tx1)"

definition match :: "string \<Rightarrow> string \<Rightarrow> bool" where
  "match re tx =
     (if re \<noteq> [] \<and> hd re = CHR ''^'' then matchhere (tl re) tx else match_from re tx)"

declare matchhere.simps [simp del] matchstar.simps [simp del] match_from.simps [simp del]

section \<open>Lines\<close>

definition BUFSZ :: nat where "BUFSZ = 1024"
definition NL :: char where "NL = CHR 0x0A"
definition NUL :: char where "NUL = CHR 0x00"

fun ustrchr :: "string \<Rightarrow> char \<Rightarrow> nat option" where
  \<comment> \<open>\<open>strchr\<close> of \<open>user/ulib.c\<close>: an index into the string, \<open>None\<close> for the null pointer\<close>
  "ustrchr [] c = None"
| "ustrchr (x # s) c =
     (if x = NUL then None else if x = c then Some 0 else map_option Suc (ustrchr s c))"

lemma ustrchr_lt: "ustrchr s c = Some q \<Longrightarrow> q < length s"
  by (induction s arbitrary: q) (auto split: if_splits)

function grep_lines :: "string \<Rightarrow> string \<Rightarrow> string \<Rightarrow> string \<times> string" where
  \<comment> \<open>the inner loop from \<open>p\<close>; returns the last \<open>p\<close> and what was written to fd 1\<close>
  "grep_lines pattern p out =
     (case ustrchr p NL of None \<Rightarrow> (p, out)
      | Some q \<Rightarrow> grep_lines pattern (drop (Suc q) p)
                   (if match pattern (take q p) then out @ take q p @ [NL] else out))"
  by auto
termination by (relation "measure (\<lambda>(a, p, b). length p)") (auto dest: ustrchr_lt)

definition readf :: "nat \<Rightarrow> nat list \<Rightarrow> string \<Rightarrow> string" where
  \<comment> \<open>what \<open>read(fd, _, n)\<close> returns: at most \<open>n\<close> of the remaining bytes, and of these only
     as many as are available now; \<open>avail\<close> lists what successive reads find, less one\<close>
  "readf n avail inp = (case avail of [] \<Rightarrow> take n inp | k # _ \<Rightarrow> take (min n (Suc k)) inp)"

function grep :: "string \<Rightarrow> string \<Rightarrow> nat list \<Rightarrow> string \<Rightarrow> string \<Rightarrow> string" where
  \<comment> \<open>\<open>buf\<close>: the first \<open>m\<close> bytes of the buffer; \<open>inp\<close>: the unread input\<close>
  "grep pattern buf avail inp out =
     (let r = readf (BUFSZ - length buf - 1) avail inp
      in if r = [] then out
         else let (p, out) = grep_lines pattern (buf @ r) out
              in grep pattern p (tl avail) (drop (length r) inp) out)"
  by auto
termination
proof (relation "measure (\<lambda>(a, b, c, inp, d). length inp)", goal_cases)
  case (2 pattern buf avail inp out r x p y)
  then have "0 < length r" "r = readf (BUFSZ - length buf - 1) avail inp" by auto
  then have "0 < length inp" by (auto simp: readf_def split: list.splits)
  then show ?case using 2 by auto
qed simp

declare grep_lines.simps [simp del] grep.simps [simp del]

section \<open>The language of a pattern\<close>

datatype item = One char | Rep char

fun items :: "string \<Rightarrow> item list" where
  "items [] = []"
| "items [c] = (if c = CHR ''$'' then [] else [One c])"
| "items (c # d # re) = (if d = CHR ''*'' then Rep c # items re else One c # items (d # re))"

fun dollar :: "string \<Rightarrow> bool" where
  "dollar [] = False"
| "dollar [c] = (c = CHR ''$'')"
| "dollar (c # d # re) = (if d = CHR ''*'' then dollar re else dollar (d # re))"

definition char_ok :: "char \<Rightarrow> char \<Rightarrow> bool" where
  "char_ok c x \<longleftrightarrow> c = CHR ''.'' \<or> x = c"

fun lang :: "item list \<Rightarrow> string set" where
  "lang [] = {[]}"
| "lang (One c # is) = {x # s | x s. char_ok c x \<and> s \<in> lang is}"
| "lang (Rep c # is) = {r @ s | r s. (\<forall>x \<in> set r. char_ok c x) \<and> s \<in> lang is}"

definition here :: "string \<Rightarrow> string \<Rightarrow> bool" where
  \<comment> \<open>some prefix of \<open>tx\<close> is a word of the pattern, all of \<open>tx\<close> when it ends in \<open>$\<close>\<close>
  "here re tx \<longleftrightarrow> (\<exists>s t. tx = s @ t \<and> s \<in> lang (items re) \<and> (dollar re \<longrightarrow> t = []))"

lemma here_simps:
  "here [] tx"
  "here (c # CHR ''*'' # re) tx \<longleftrightarrow> (\<exists>r t. tx = r @ t \<and> (\<forall>x \<in> set r. char_ok c x) \<and> here re t)"
  "here ''$'' tx \<longleftrightarrow> tx = []"
  "re = [] \<or> hd re \<noteq> CHR ''*'' \<Longrightarrow> c \<noteq> CHR ''$'' \<or> re \<noteq> [] \<Longrightarrow>
     here (c # re) tx \<longleftrightarrow> tx \<noteq> [] \<and> char_ok c (hd tx) \<and> here re (tl tx)"
proof -
  show "here (c # CHR ''*'' # re) tx \<longleftrightarrow> (\<exists>r t. tx = r @ t \<and> (\<forall>x \<in> set r. char_ok c x) \<and> here re t)" (is "?l \<longleftrightarrow> ?r")
  proof
    assume ?l
    then obtain r s t where "tx = (r @ s) @ t" "\<forall>x \<in> set r. char_ok c x" "s \<in> lang (items re)"
        "dollar re \<longrightarrow> t = []"
      unfolding here_def by (simp only: items.simps dollar.simps lang.simps if_True simp_thms) blast
    then show ?r unfolding here_def by (intro exI [of _ r] exI [of _ "s @ t"]) auto
  next
    assume ?r
    then obtain r s t where "tx = (r @ s) @ t" "\<forall>x \<in> set r. char_ok c x" "s \<in> lang (items re)"
        "dollar re \<longrightarrow> t = []"
      unfolding here_def by (metis append_assoc)
    then show ?l unfolding here_def by (intro exI [of _ "r @ s"] exI [of _ t]) auto
  qed
  assume A: "re = [] \<or> hd re \<noteq> CHR ''*''" "c \<noteq> CHR ''$'' \<or> re \<noteq> []"
  have "items (c # re) = One c # items re" "dollar (c # re) = dollar re"
    using A by (cases re; simp)+
  then have h: "here (c # re) tx \<longleftrightarrow> (\<exists>s t. tx = s @ t \<and> s \<in> lang (One c # items re) \<and> (dollar re \<longrightarrow> t = []))"
    by (simp only: here_def)
  show "here (c # re) tx \<longleftrightarrow> tx \<noteq> [] \<and> char_ok c (hd tx) \<and> here re (tl tx)" (is "?l \<longleftrightarrow> ?r")
  proof
    assume ?l
    then obtain w t where w: "tx = w @ t" "w \<in> lang (One c # items re)" "dollar re \<longrightarrow> t = []"
      unfolding h by blast
    obtain x s where s: "w = x # s" "char_ok c x" "s \<in> lang (items re)" using w(2) by auto
    have "here re (s @ t)" unfolding here_def using s(3) w(3) by blast
    then show ?r using s w(1) by simp
  next
    assume r: ?r
    then obtain s t where st: "tl tx = s @ t" "s \<in> lang (items re)" "dollar re \<longrightarrow> t = []"
      unfolding here_def by blast
    have "hd tx # s \<in> lang (One c # items re)" "tx = (hd tx # s) @ t"
      using r st(1,2) by (cases tx; simp)+
    then show ?l unfolding h using st(3) by blast
  qed
qed (simp_all add: here_def)

lemma star_split:
  "(\<exists>r t. tx = r @ t \<and> (\<forall>x \<in> set r. char_ok c x) \<and> P t) \<longleftrightarrow>
     P tx \<or> (tx \<noteq> [] \<and> char_ok c (hd tx) \<and>
       (\<exists>r t. tl tx = r @ t \<and> (\<forall>x \<in> set r. char_ok c x) \<and> P t))" (is "?L \<longleftrightarrow> ?R")
proof
  assume ?L
  then obtain r t where rt: "tx = r @ t" "\<forall>x \<in> set r. char_ok c x" "P t" by blast
  then show ?R by (cases r) auto
next
  assume ?R
  then show ?L
  proof
    assume "P tx"
    then show ?L by (intro exI [of _ "[]"] exI [of _ tx]) simp
  next
    assume R: "tx \<noteq> [] \<and> char_ok c (hd tx) \<and>
       (\<exists>r t. tl tx = r @ t \<and> (\<forall>x \<in> set r. char_ok c x) \<and> P t)"
    then obtain r t where "tl tx = r @ t" "\<forall>x \<in> set r. char_ok c x" "P t" by blast
    then show ?L using R by (intro exI [of _ "hd tx # r"] exI [of _ t]) (cases tx; auto)
  qed
qed

lemma matcher_eq:
  "matchhere re tx = here re tx"
  "matchstar c re' tx' = (\<exists>r t. tx' = r @ t \<and> (\<forall>x \<in> set r. char_ok c x) \<and> here re' t)"
proof (induction re tx and c re' tx' rule: matchhere_matchstar.induct)
  case (1 re tx)
  show ?case
  proof (cases re)
    case (Cons c re1)
    consider (star) r where "re1 = CHR ''*'' # r" | (other) "re1 = [] \<or> hd re1 \<noteq> CHR ''*''"
      by (cases re1) auto
    then show ?thesis
    proof cases
      case star
      then show ?thesis using 1(1) [OF Cons] Cons by (simp add: matchhere.simps here_simps)
    next
      case other
      then have o: "\<not> (re1 \<noteq> [] \<and> hd re1 = CHR ''*'')" by auto
      show ?thesis
      proof (cases "c = CHR ''$'' \<and> re1 = []")
        case True
        then show ?thesis using Cons by (simp add: matchhere.simps here_simps)
      next
        case False
        then have "here re tx \<longleftrightarrow> tx \<noteq> [] \<and> char_ok c (hd tx) \<and> here re1 (tl tx)"
          unfolding Cons using other by (intro here_simps(4)) auto
        moreover have "matchhere re tx \<longleftrightarrow> tx \<noteq> [] \<and> char_ok c (hd tx) \<and> matchhere re1 (tl tx)"
          using o False Cons by (subst matchhere.simps) (auto simp: char_ok_def)
        moreover have "char_ok c (hd tx) \<Longrightarrow> tx \<noteq> [] \<Longrightarrow> matchhere re1 (tl tx) = here re1 (tl tx)"
          using 1(2) [OF Cons o False] by (auto simp: char_ok_def)
        ultimately show ?thesis by blast
      qed
    qed
  qed (simp add: matchhere.simps here_simps)
next
  case (2 c re tx)
  show ?case
    by (subst matchstar.simps, subst star_split) (use 2 in \<open>auto simp: char_ok_def\<close>)
qed

lemma match_from_eq: "match_from re tx = (\<exists>p t. tx = p @ t \<and> here re t)"
proof (induction tx)
  case (Cons c tx)
  show ?case
  proof
    assume "match_from re (c # tx)"
    then consider "here re (c # tx)" | "match_from re tx"
      by (subst (asm) match_from.simps) (auto simp: matcher_eq split: if_splits)
    then show "\<exists>p t. c # tx = p @ t \<and> here re t"
    proof cases
      case 2
      then obtain p t where "tx = p @ t" "here re t" using Cons by blast
      then show ?thesis by (intro exI [of _ "c # p"] exI [of _ t]) simp
    qed (metis append_Nil)
  next
    assume "\<exists>p t. c # tx = p @ t \<and> here re t"
    then obtain p t where "c # tx = p @ t" "here re t" by blast
    then have "here re (c # tx) \<or> (\<exists>p t. tx = p @ t \<and> here re t)"
      by (cases p) auto
    then show "match_from re (c # tx)" using Cons by (subst match_from.simps) (auto simp: matcher_eq)
  qed
qed (subst match_from.simps, simp add: matcher_eq)

section \<open>The lines of the input\<close>

function input_lines :: "string \<Rightarrow> string list" where
  \<comment> \<open>the lines that end in a newline\<close>
  "input_lines s = (let l = takeWhile (\<lambda>x. x \<noteq> NL) s
                    in if l = s then [] else l # input_lines (drop (Suc (length l)) s))"
  by auto
termination
proof (relation "measure length", goal_cases)
  case (2 s x)
  then show ?case by (cases s) auto
qed simp

declare input_lines.simps [simp del]

definition grep_spec :: "string \<Rightarrow> string \<Rightarrow> string" where
  "grep_spec pattern s = concat (map (\<lambda>l. l @ [NL]) (filter (match pattern) (input_lines s)))"

definition lines_fit :: "string \<Rightarrow> bool" where
  \<comment> \<open>every piece without a newline fits into the buffer\<close>
  "lines_fit s \<longleftrightarrow> (\<forall>p l r. s = p @ l @ r \<longrightarrow> NL \<notin> set l \<longrightarrow> length l < BUFSZ - 1)"

fun last_line :: "string \<Rightarrow> string" where
  \<comment> \<open>what follows the last newline\<close>
  "last_line [] = []"
| "last_line (c # s) = (if NL \<in> set (c # s) then last_line s else c # s)"

lemma ustrchr_NL:
  "NUL \<notin> set s \<Longrightarrow> ustrchr s NL = (if NL \<in> set s then Some (length (takeWhile (\<lambda>x. x \<noteq> NL) s)) else None)"
  by (induction s) (auto simp: NL_def NUL_def)

lemma last_line_free: "NL \<notin> set s \<Longrightarrow> last_line s = s"
  by (cases s) auto

lemma NL_last_line: "NL \<notin> set (last_line s)"
  by (induction s) auto

lemma last_line_suffix: "\<exists>p. s = p @ last_line s"
proof (induction s)
  case (Cons c s)
  then obtain p where p: "s = p @ last_line s" by blast
  show ?case
  proof (cases "NL \<in> set (c # s)")
    case True
    then show ?thesis using p by (intro exI [of _ "c # p"]) simp
  qed auto
qed simp

lemma last_line_append_NL: "last_line (l @ NL # s) = last_line s"
  by (induction l) auto

lemma input_lines_free: "NL \<notin> set s \<Longrightarrow> input_lines s = []"
  by (subst input_lines.simps) (auto simp: Let_def)

lemma split_at_NL:
  assumes "NL \<in> set s"
  obtains l r where "s = l @ NL # r" "NL \<notin> set l" "takeWhile (\<lambda>x. x \<noteq> NL) s = l"
proof -
  obtain l r where lr: "s = l @ NL # r" "NL \<notin> set l" using split_list_first [OF assms] by blast
  have "takeWhile (\<lambda>x. x \<noteq> NL) s = l" unfolding lr(1) using lr(2) by (induction l) auto
  then show thesis using that lr by blast
qed

lemma input_lines_NL: "NL \<notin> set l \<Longrightarrow> input_lines (l @ NL # r) = l # input_lines r"
proof -
  assume l: "NL \<notin> set l"
  then have "takeWhile (\<lambda>x. x \<noteq> NL) (l @ NL # r) = l" by (induction l) auto
  then show ?thesis by (subst input_lines.simps) (simp add: Let_def)
qed

lemma input_lines_append: "input_lines (s @ t) = input_lines s @ input_lines (last_line s @ t)"
proof (induction "length s" arbitrary: s rule: less_induct)
  case less
  show ?case
  proof (cases "NL \<in> set s")
    case True
    then obtain l r where s: "s = l @ NL # r" "NL \<notin> set l" by (rule split_at_NL)
    then have "input_lines (r @ t) = input_lines r @ input_lines (last_line r @ t)" using less by simp
    then show ?thesis unfolding s(1) using s(2) by (simp add: input_lines_NL last_line_append_NL)
  qed (simp add: last_line_free input_lines_free)
qed

lemma grep_lines_spec:
  "NUL \<notin> set p \<Longrightarrow> grep_lines pattern p out = (last_line p, out @ grep_spec pattern p)"
proof (induction "length p" arbitrary: p out rule: less_induct)
  case less
  show ?case
  proof (cases "NL \<in> set p")
    case True
    then obtain l r where p: "p = l @ NL # r" "NL \<notin> set l" "takeWhile (\<lambda>x. x \<noteq> NL) p = l"
      by (rule split_at_NL)
    have "ustrchr p NL = Some (length l)" using ustrchr_NL [OF less(2)] True p(3) by simp
    moreover have "grep_lines pattern r out' = (last_line r, out' @ grep_spec pattern r)" for out'
      using less p(1) by simp
    ultimately show ?thesis using p(1,2)
      by (subst grep_lines.simps) (simp add: grep_spec_def input_lines_NL last_line_append_NL)
  next
    case False
    then show ?thesis using ustrchr_NL [OF less(2)]
      by (subst grep_lines.simps) (simp add: grep_spec_def input_lines_free last_line_free)
  qed
qed

lemma grep_spec_append: "grep_spec pattern (s @ t) = grep_spec pattern s @ grep_spec pattern (last_line s @ t)"
  by (subst grep_spec_def, subst input_lines_append) (simp add: grep_spec_def)

lemma grep_loop_spec:
  assumes "NUL \<notin> set (buf @ inp)" "NL \<notin> set buf" "lines_fit (buf @ inp)"
  shows "grep pattern buf avail inp out = out @ grep_spec pattern (buf @ inp)"
  using assms
proof (induction "length inp" arbitrary: buf avail inp out rule: less_induct)
  case less
  have "length buf < BUFSZ - 1" using less(3,4) unfolding lines_fit_def by (metis append_Nil)
  then have room: "0 < BUFSZ - length buf - 1" by (simp add: BUFSZ_def)
  define r where "r = readf (BUFSZ - length buf - 1) avail inp"
  have r: "r = [] \<longleftrightarrow> inp = []" using room by (auto simp: r_def readf_def split: list.splits)
  have inp: "inp = r @ drop (length r) inp"
    by (auto simp: r_def readf_def min_def split: list.splits)
  show ?case
  proof (cases "inp = []")
    case True
    then show ?thesis using r less(3)
      by (subst grep.simps) (simp add: grep_spec_def input_lines_free r_def Let_def)
  next
    case False
    define rest where "rest = drop (length r) inp"
    have len: "length rest < length inp" using False r by (cases inp; cases r; simp add: rest_def)
    have inp': "inp = r @ rest" using inp by (simp add: rest_def)
    have nul: "NUL \<notin> set (buf @ r)" "NUL \<notin> set (last_line (buf @ r) @ rest)"
      using less(2) last_line_suffix [of "buf @ r"] unfolding inp'
      by (simp_all, metis Un_iff set_append)
    have fit: "lines_fit (last_line (buf @ r) @ rest)"
    proof -
      obtain p where "buf @ r = p @ last_line (buf @ r)" using last_line_suffix by blast
      then have "buf @ inp = p @ last_line (buf @ r) @ rest" unfolding inp' by (metis append_assoc)
      then show ?thesis using less(4) unfolding lines_fit_def by (metis append_assoc)
    qed
    have "grep pattern buf avail inp out =
        grep pattern (last_line (buf @ r)) (tl avail) rest (out @ grep_spec pattern (buf @ r))"
      unfolding grep.simps [of pattern buf] r_def [symmetric] rest_def
      using False r grep_lines_spec [OF nul(1)] by (simp add: Let_def)
    also have "\<dots> = (out @ grep_spec pattern (buf @ r)) @ grep_spec pattern (last_line (buf @ r) @ rest)"
      by (rule less(1) [OF len nul(2) NL_last_line fit])
    also have "\<dots> = out @ grep_spec pattern (buf @ inp)"
      unfolding inp' using grep_spec_append [of pattern "buf @ r" rest] by simp
    finally show ?thesis .
  qed
qed

section \<open>Properties\<close>

text \<open>C6: \<open>match\<close> decides membership in the language the pattern denotes: with a leading
  \<open>^\<close> some prefix of the text is a word of the rest of the pattern, without it some factor of
  the text is a word of the pattern; \<open>$\<close> at the end asks for the end of the text, \<open>.\<close> stands
  for any character and \<open>*\<close> for any number of the character before it.\<close>
theorem match_denotes:
  "match re tx = (if re \<noteq> [] \<and> hd re = CHR ''^'' then here (tl re) tx
                  else \<exists>p t. tx = p @ t \<and> here re t)"
  by (simp add: match_def matcher_eq match_from_eq)

text \<open>C7: however the input arrives in pieces, \<open>grep\<close> writes exactly the input lines that
  match, in order, each with its newline, when the input has no zero byte and every line is
  shorter than the buffer; it returns after the end of the input.\<close>
theorem grep_prints_matching_lines:
  assumes "NUL \<notin> set inp" "lines_fit inp"
  shows "grep pattern [] avail inp [] = grep_spec pattern inp"
  using grep_loop_spec [of "[]" inp] assms by simp

lemma lines_fit_short: "length s < BUFSZ - 1 \<Longrightarrow> lines_fit s"
  by (auto simp: lines_fit_def)

theorem grep_prints_matching_lines_witness:
  "grep ''^a.*b$'' [] [2, 0, 5] (''axxb'' @ [NL] @ ''ba'' @ [NL] @ ''ab'' @ [NL] @ ''a'') [] =
     ''axxb'' @ [NL] @ ''ab'' @ [NL]"
proof -
  let ?i = "''axxb'' @ [NL] @ ''ba'' @ [NL] @ ''ab'' @ [NL] @ ''a''"
  have "grep_spec ''^a.*b$'' ?i = ''axxb'' @ [NL] @ ''ab'' @ [NL]"
    by (simp add: grep_spec_def NL_def input_lines.simps match_def matchhere.simps matchstar.simps)
  then show ?thesis
    using grep_prints_matching_lines [of ?i "''^a.*b$''" "[2, 0, 5]"]
    by (simp add: NUL_def NL_def lines_fit_short BUFSZ_def)
qed

end
