(* ===== verification/Sh.thy ===== *)
theory Sh
  imports Grep
begin

text \<open>
  The shell \<open>user/sh.c\<close>: the tokenizer, the recursive-descent parser and
  \<open>nulterminate\<close>, and the command history.  The line is the list \<open>b\<close> of its characters
  before the terminating zero; a pointer into it is an index, \<open>es\<close> is \<open>length b\<close>.  A token is
  the pair of its \<open>argv\<close> and \<open>eargv\<close> pointers.  A panic of the parser, which ends the shell, is
  \<open>Inl (Panic msg)\<close>.
\<close>

section \<open>Commands\<close>

datatype 'w cmd =
    EXEC "'w list"
  | REDIR "'w cmd" 'w int int   \<comment> \<open>sub-command, file, mode, fd\<close>
  | PIPE "'w cmd" "'w cmd"
  | LIST "'w cmd" "'w cmd"
  | BACK "'w cmd"

type_synonym tok = "nat \<times> nat"

datatype parse_error = Panic string | NoFuel

type_synonym 'a parse = "parse_error + 'a"

definition MAXARGS :: nat where "MAXARGS = 10"

definition O_RDONLY :: int where "O_RDONLY = 0x000"
definition O_WRONLY :: int where "O_WRONLY = 0x001"
definition O_CREATE :: int where "O_CREATE = 0x200"
definition O_TRUNC :: int where "O_TRUNC = 0x400"

section \<open>The tokenizer\<close>

definition whitespace :: string where
  "whitespace = [CHR '' '', CHR 0x09, CHR 0x0D, CHR 0x0A, CHR 0x0B]"

definition symbols :: string where "symbols = ''<|>&;()''"

definition is_in :: "char \<Rightarrow> string \<Rightarrow> bool" where
  \<comment> \<open>\<open>strchr(toks, c)\<close> is not null\<close>
  "is_in c toks \<longleftrightarrow> ustrchr toks c \<noteq> None"

definition deref :: "string \<Rightarrow> nat \<Rightarrow> char" where
  "deref b s = (if s < length b then b ! s else NUL)"

function skip_ws :: "string \<Rightarrow> nat \<Rightarrow> nat" where
  \<comment> \<open>\<open>while(s < es && strchr(whitespace, *s)) s++;\<close>\<close>
  "skip_ws b s = (if s < length b \<and> is_in (deref b s) whitespace then skip_ws b (Suc s) else s)"
  by auto
termination by (relation "measure (\<lambda>(b, s). length b - s)") auto

function skip_word :: "string \<Rightarrow> nat \<Rightarrow> nat" where
  "skip_word b s =
     (if s < length b \<and> \<not> is_in (deref b s) whitespace \<and> \<not> is_in (deref b s) symbols
      then skip_word b (Suc s) else s)"
  by auto
termination by (relation "measure (\<lambda>(b, s). length b - s)") auto

declare skip_ws.simps [simp del] skip_word.simps [simp del]

definition gettoken :: "string \<Rightarrow> nat \<Rightarrow> char \<times> nat \<times> nat \<times> nat" where
  \<comment> \<open>the token's kind, \<open>*q\<close>, \<open>*eq\<close> and the new \<open>*ps\<close>\<close>
  "gettoken b s =
     (let s = skip_ws b s;
          q = s;
          c = deref b s;
          (ret, s) =
            (if c = NUL then (c, s)
             else if c = CHR ''|'' \<or> c = CHR ''('' \<or> c = CHR '')'' \<or> c = CHR '';'' \<or> c = CHR ''&'' \<or> c = CHR ''<''
             then (c, Suc s)
             else if c = CHR ''>''
             then (if deref b (Suc s) = CHR ''>'' then (CHR ''+'', Suc (Suc s)) else (c, Suc s))
             else (CHR ''a'', skip_word b s));
          eq = s;
          s = skip_ws b s
      in (ret, q, eq, s))"

definition peek :: "string \<Rightarrow> nat \<Rightarrow> string \<Rightarrow> nat \<times> bool" where
  "peek b s toks =
     (let s = skip_ws b s in (s, deref b s \<noteq> NUL \<and> is_in (deref b s) toks))"

lemma skip_ws_stop: "\<not> (s < length b \<and> is_in (deref b s) whitespace) \<Longrightarrow> skip_ws b s = s"
  by (subst skip_ws.simps) (rule if_not_P)

lemma skip_ws_step: "s < length b \<Longrightarrow> is_in (deref b s) whitespace \<Longrightarrow> skip_ws b s = skip_ws b (Suc s)"
  by (subst skip_ws.simps) simp

lemma skip_word_stop:
  "\<not> (s < length b \<and> \<not> is_in (deref b s) whitespace \<and> \<not> is_in (deref b s) symbols) \<Longrightarrow> skip_word b s = s"
  by (subst skip_word.simps) (rule if_not_P)

lemma skip_word_step:
  "s < length b \<Longrightarrow> \<not> is_in (deref b s) whitespace \<Longrightarrow> \<not> is_in (deref b s) symbols \<Longrightarrow>
    skip_word b s = skip_word b (Suc s)"
  by (subst skip_word.simps) simp

lemma skip_ws_bounds: "s \<le> skip_ws b s" "s \<le> length b \<Longrightarrow> skip_ws b s \<le> length b"
  "\<not> (skip_ws b s < length b \<and> is_in (deref b (skip_ws b s)) whitespace)"
proof (induction b s rule: skip_ws.induct)
  case (1 b s)
  show "s \<le> skip_ws b s" "s \<le> length b \<Longrightarrow> skip_ws b s \<le> length b"
    "\<not> (skip_ws b s < length b \<and> is_in (deref b (skip_ws b s)) whitespace)"
    using 1 by (cases "s < length b \<and> is_in (deref b s) whitespace"; force simp: skip_ws_step skip_ws_stop)+
qed

lemma skip_word_bounds: "s \<le> skip_word b s" "s \<le> length b \<Longrightarrow> skip_word b s \<le> length b"
proof (induction b s rule: skip_word.induct)
  case (1 b s)
  show "s \<le> skip_word b s" "s \<le> length b \<Longrightarrow> skip_word b s \<le> length b"
    using 1 by (cases "s < length b \<and> \<not> is_in (deref b s) whitespace \<and> \<not> is_in (deref b s) symbols";
      force simp: skip_word_step skip_word_stop)+
qed

lemma skip_ws_idem: "skip_ws b (skip_ws b s) = skip_ws b s"
  using skip_ws_bounds(3) by (rule skip_ws_stop)

lemma is_in_set: "NUL \<notin> set cs \<Longrightarrow> is_in c cs \<longleftrightarrow> c \<in> set cs"
  unfolding is_in_def by (induction cs) auto

lemma NUL_not_special: "NUL \<notin> set whitespace" "NUL \<notin> set symbols"
  by (simp_all add: whitespace_def symbols_def NUL_def)

lemma peek_ge: "peek b s toks = (t, r) \<Longrightarrow> s \<le> t"
  using skip_ws_bounds(1) [of s b] by (auto simp: peek_def Let_def)

lemma peek_True:
  assumes "peek b s toks = (t, True)"
  shows "t < length b" "deref b t \<noteq> NUL" "is_in (deref b t) toks" "t = skip_ws b s"
  using assms by (auto simp: peek_def Let_def deref_def split: if_splits)

definition tok_len :: "string \<Rightarrow> nat \<Rightarrow> nat" where
  \<comment> \<open>where the token that starts at \<open>q\<close> ends\<close>
  "tok_len b q = (if deref b q \<in> {CHR ''|'', CHR ''('', CHR '')'', CHR '';'', CHR ''&'', CHR ''<''} then Suc q
     else if deref b q = CHR ''>'' then (if deref b (Suc q) = CHR ''>'' then Suc (Suc q) else Suc q)
     else skip_word b q)"

lemma gettoken_form:
  assumes "gettoken b s = (ret, q, eq, t)"
  shows "q = skip_ws b s" "t = skip_ws b eq" "ret = NUL \<longleftrightarrow> deref b q = NUL"
    "eq = (if deref b q = NUL then q else tok_len b q)"
  using assms unfolding gettoken_def Let_def tok_len_def by (auto simp: NUL_def split: if_splits)

lemma tok_len_gt:
  assumes "q < length b" "\<not> is_in (deref b q) whitespace"
  shows "q < tok_len b q"
proof (cases "is_in (deref b q) symbols")
  case True
  then have "deref b q \<in> set symbols" using NUL_not_special by (simp add: is_in_set)
  then show ?thesis by (auto simp: symbols_def tok_len_def)
next
  case False
  then have "deref b q \<notin> set symbols" using NUL_not_special by (simp add: is_in_set)
  then have "tok_len b q = skip_word b (Suc q)"
    using assms False by (simp add: symbols_def tok_len_def skip_word_step)
  then show ?thesis using skip_word_bounds(1) [of "Suc q" b] by simp
qed

lemma gettoken_ge:
  assumes "gettoken b s = (ret, q, eq, t)"
  shows "s \<le> q" "q \<le> eq" "eq \<le> t" "ret \<noteq> NUL \<Longrightarrow> s < t"
proof -
  note G = gettoken_form [OF assms]
  show "s \<le> q" "eq \<le> t" unfolding G(1,2) by (rule skip_ws_bounds)+
  have q: "\<not> (q < length b \<and> is_in (deref b q) whitespace)" unfolding G(1) by (rule skip_ws_bounds)
  have lt: "q < eq" if "deref b q \<noteq> NUL"
    using that tok_len_gt [of q b] q G(4) by (auto simp: deref_def split: if_splits)
  then show "q \<le> eq" using G(4) by (cases "deref b q = NUL") auto
  show "s < t" if "ret \<noteq> NUL" using lt G(3) that \<open>s \<le> q\<close> \<open>eq \<le> t\<close> by auto
qed

lemma token_progress:
  assumes "peek b s toks = (t, True)" "gettoken b t = (tok, q, eq, u)"
  shows "length b - u < length b - s" "s < u"
proof -
  note P = peek_True [OF assms(1)] and G = gettoken_form [OF assms(2)]
  have "q = t" unfolding G(1) P(4) by (rule skip_ws_idem)
  then have "t < u" using gettoken_ge(4) [OF assms(2)] G(3) P(2) by simp
  then show "length b - u < length b - s" "s < u" using peek_ge [OF assms(1)] P(1) by linarith+
qed

lemma back_progress:
  "(t, True) = peek b s toks \<Longrightarrow> (tok, q, eq, u) = gettoken b t \<Longrightarrow> length b - u < length b - s"
  using token_progress(1) by metis

lemma redir_progress:
  assumes "(t, True) = peek b s toks" "(tok, x, y, u) = gettoken b t" "(ret, q, eq, v) = gettoken b u"
  shows "length b - v < length b - s"
  using token_progress [OF assms(1,2) [symmetric]] gettoken_ge(1-3) [OF assms(3) [symmetric]] by linarith

section \<open>The parser\<close>

function parseredirs :: "tok cmd \<Rightarrow> string \<Rightarrow> nat \<Rightarrow> (tok cmd \<times> nat) parse" where
  "parseredirs cmd b s =
     (let (s, r) = peek b s ''<>'' in
      if r then
        (let (tok, _, _, s) = gettoken b s;
             (ret, q, eq, s) = gettoken b s
         in if ret \<noteq> CHR ''a'' then Inl (Panic ''missing file for redirection'')
            else if tok = CHR ''<'' then parseredirs (REDIR cmd (q, eq) O_RDONLY 0) b s
            else if tok = CHR ''>'' then parseredirs (REDIR cmd (q, eq) (O_WRONLY + O_CREATE + O_TRUNC) 1) b s
            else if tok = CHR ''+'' then parseredirs (REDIR cmd (q, eq) (O_WRONLY + O_CREATE) 1) b s
            else parseredirs cmd b s)
      else Inr (cmd, s))"
  by auto
termination by (relation "measure (\<lambda>(c, b, s). length b - s)") (simp, (auto dest: redir_progress) [4])

primrec add_arg :: "'w \<Rightarrow> 'w cmd \<Rightarrow> 'w cmd" where
  \<comment> \<open>\<open>cmd->argv[argc] = q\<close> where \<open>cmd\<close> is the innermost command of \<open>ret\<close>\<close>
  "add_arg w (EXEC ws) = EXEC (ws @ [w])"
| "add_arg w (REDIR c f m fd) = REDIR (add_arg w c) f m fd"
| "add_arg w (PIPE l r) = PIPE l r"
| "add_arg w (LIST l r) = LIST l r"
| "add_arg w (BACK c) = BACK c"

function parseargs :: "nat \<Rightarrow> tok cmd \<Rightarrow> string \<Rightarrow> nat \<Rightarrow> (tok cmd \<times> nat) parse" where
  \<comment> \<open>the loop of \<open>parseexec\<close>\<close>
  "parseargs argc ret b s =
     (let (s, stop) = peek b s ''|)&;'' in
      if stop then Inr (ret, s)
      else
        (let (tok, q, eq, s) = gettoken b s in
         if tok = NUL then Inr (ret, s)
         else if tok \<noteq> CHR ''a'' then Inl (Panic ''syntax'')
         else if argc + 1 \<ge> MAXARGS then Inl (Panic ''too many args'')
         else (case parseredirs (add_arg (q, eq) ret) b s of
                 Inl e \<Rightarrow> Inl e
               | Inr (ret, s) \<Rightarrow> parseargs (argc + 1) ret b s)))"
  by auto
termination by (relation "measure (\<lambda>(argc, _). MAXARGS - argc)") auto

function parsebacks :: "tok cmd \<Rightarrow> string \<Rightarrow> nat \<Rightarrow> tok cmd \<times> nat" where
  \<comment> \<open>\<open>while(peek(ps, es, "&"))\<close> of \<open>parseline\<close>\<close>
  "parsebacks cmd b s =
     (let (s, r) = peek b s ''&'' in
      if r then (let (_, _, _, s) = gettoken b s in parsebacks (BACK cmd) b s) else (cmd, s))"
  by auto
termination by (relation "measure (\<lambda>(c, b, s). length b - s)") (auto dest: back_progress)

declare parseredirs.simps [simp del] parseargs.simps [simp del] parsebacks.simps [simp del]

type_synonym parser = "string \<Rightarrow> nat \<Rightarrow> (tok cmd \<times> nat) parse"

definition parseblock :: "parser \<Rightarrow> parser" where
  \<comment> \<open>the first argument is \<open>parseline\<close>\<close>
  "parseblock pl b s =
     (let (s, r) = peek b s ''('' in
      if \<not> r then Inl (Panic ''parseblock'')
      else
        (let (_, _, _, s) = gettoken b s in
         (case pl b s of
            Inl e \<Rightarrow> Inl e
          | Inr (cmd, s) \<Rightarrow>
              (let (s, r) = peek b s '')'' in
               if \<not> r then Inl (Panic ''syntax - missing )'')
               else (let (_, _, _, s) = gettoken b s in parseredirs cmd b s)))))"

definition parseexec :: "parser \<Rightarrow> parser" where
  "parseexec pl b s =
     (let (s, r) = peek b s ''('' in
      if r then parseblock pl b s
      else (case parseredirs (EXEC []) b s of
              Inl e \<Rightarrow> Inl e
            | Inr (ret, s) \<Rightarrow> parseargs 0 ret b s))"

fun parsepipe :: "nat \<Rightarrow> parser \<Rightarrow> parser" where
  \<comment> \<open>the first argument bounds the number of recursive calls\<close>
  "parsepipe 0 pl b s = Inl NoFuel"
| "parsepipe (Suc k) pl b s =
     (case parseexec pl b s of
        Inl e \<Rightarrow> Inl e
      | Inr (cmd, s) \<Rightarrow>
          (let (s, r) = peek b s ''|'' in
           if r then
             (let (_, _, _, s) = gettoken b s in
              (case parsepipe k pl b s of Inl e \<Rightarrow> Inl e | Inr (right, s) \<Rightarrow> Inr (PIPE cmd right, s)))
           else Inr (cmd, s)))"

fun parseline :: "nat \<Rightarrow> parser" where
  \<comment> \<open>the first argument bounds the depth of the recursion\<close>
  "parseline 0 b s = Inl NoFuel"
| "parseline (Suc k) b s =
     (case parsepipe (Suc k) (parseline k) b s of
        Inl e \<Rightarrow> Inl e
      | Inr (cmd, s) \<Rightarrow>
          (let (cmd, s) = parsebacks cmd b s;
               (s, r) = peek b s '';''
           in if r then
                (let (_, _, _, s) = gettoken b s in
                 (case parseline k b s of Inl e \<Rightarrow> Inl e | Inr (right, s) \<Rightarrow> Inr (LIST cmd right, s)))
              else Inr (cmd, s)))"

declare parsepipe.simps(2) [simp del]

fun zero_args :: "tok list \<Rightarrow> string \<Rightarrow> string" where
  \<comment> \<open>\<open>for(i=0; ecmd->argv[i]; i++) *ecmd->eargv[i] = 0;\<close>\<close>
  "zero_args [] b = b"
| "zero_args (t # ts) b = zero_args ts (b[snd t := NUL])"

primrec nulterminate :: "tok cmd \<Rightarrow> string \<Rightarrow> string" where
  "nulterminate (EXEC ts) b = zero_args ts b"
| "nulterminate (REDIR c f m fd) b = (nulterminate c b)[snd f := NUL]"
| "nulterminate (PIPE l r) b = nulterminate r (nulterminate l b)"
| "nulterminate (LIST l r) b = nulterminate r (nulterminate l b)"
| "nulterminate (BACK c) b = nulterminate c b"

definition parsecmd :: "string \<Rightarrow> (tok cmd \<times> string) parse" where
  \<comment> \<open>the command and the line after \<open>nulterminate\<close>\<close>
  "parsecmd b =
     (case parseline (length b + 1) b 0 of
        Inl e \<Rightarrow> Inl e
      | Inr (cmd, s) \<Rightarrow>
          (let (s, _) = peek b s [] in
           if s \<noteq> length b then Inl (Panic ''syntax'') else Inr (cmd, nulterminate cmd b)))"

definition cstring :: "string \<Rightarrow> nat \<Rightarrow> string" where
  \<comment> \<open>the C string at \<open>q\<close>\<close>
  "cstring b q = takeWhile (\<lambda>c. c \<noteq> NUL) (drop q b)"

end
