(* ===== verification/ShProps.thy ===== *)
theory ShProps
  imports Sh
begin

text \<open>
  Properties of the shell's parser: it returns on every line with all its pointers inside the
  line, and it inverts a printer of command lines.
\<close>

section \<open>The parser returns\<close>

definition tok_ok :: "string \<Rightarrow> tok \<Rightarrow> bool" where
  "tok_ok b t \<longleftrightarrow> fst t < snd t \<and> snd t \<le> length b"

primrec max_args :: "'w cmd \<Rightarrow> nat" where
  "max_args (EXEC ws) = length ws"
| "max_args (REDIR c f m fd) = max_args c"
| "max_args (PIPE l r) = max (max_args l) (max_args r)"
| "max_args (LIST l r) = max (max_args l) (max_args r)"
| "max_args (BACK c) = max_args c"

definition good :: "string \<Rightarrow> nat \<Rightarrow> tok cmd \<Rightarrow> bool" where
  "good b n c \<longleftrightarrow> (\<forall>t \<in> set_cmd c. tok_ok b t) \<and> max_args c \<le> n"

definition outcome :: "string \<Rightarrow> nat \<Rightarrow> (tok cmd \<times> nat) parse \<Rightarrow> bool" where
  \<comment> \<open>the parse ended, and with success only past \<open>s\<close> and with a good command\<close>
  "outcome b s r \<longleftrightarrow> r \<noteq> Inl NoFuel \<and> (\<forall>c t. r = Inr (c, t) \<longrightarrow> s \<le> t \<and> good b 9 c)"

lemma outcomeI:
  "(\<And>e. r = Inl e \<Longrightarrow> e \<noteq> NoFuel) \<Longrightarrow> (\<And>c t. r = Inr (c, t) \<Longrightarrow> s \<le> t \<and> good b 9 c) \<Longrightarrow> outcome b s r"
  by (auto simp: outcome_def)

lemma outcome_mono: "outcome b t r \<Longrightarrow> s \<le> t \<Longrightarrow> outcome b s r"
  by (auto simp: outcome_def)

lemma outcome_Inr: "outcome b s (Inr (c, t)) \<longleftrightarrow> s \<le> t \<and> good b 9 c"
  by (simp add: outcome_def)

lemma outcome_Panic [simp]: "outcome b s (Inl (Panic m))"
  by (simp add: outcome_def)

lemma good_cmds:
  "good b n (EXEC []) "
  "good b n (REDIR c f m fd) \<longleftrightarrow> tok_ok b f \<and> good b n c"
  "good b n (PIPE l r) \<longleftrightarrow> good b n l \<and> good b n r"
  "good b n (LIST l r) \<longleftrightarrow> good b n l \<and> good b n r"
  "good b n (BACK c) \<longleftrightarrow> good b n c"
  by (auto simp: good_def)

lemma good_mono: "good b n c \<Longrightarrow> good b (Suc n) c"
  by (simp add: good_def)

lemma good_add_arg: "good b n c \<Longrightarrow> tok_ok b t \<Longrightarrow> good b (Suc n) (add_arg t c)"
proof (induction c)
  case (EXEC ws)
  then show ?case by (simp add: good_def ball_Un)
qed (simp_all add: good_cmds good_mono)

lemma tok_len_le:
  assumes "q < length b" shows "tok_len b q \<le> length b"
proof -
  have "Suc q < length b" if "deref b (Suc q) = CHR ''>''"
    using that by (simp add: deref_def NUL_def split: if_splits)
  then show ?thesis
    using assms skip_word_bounds(2) [of q b] by (auto simp: tok_len_def)
qed

lemma word_token_ok:
  assumes "gettoken b s = (ret, q, eq, t)" "ret \<noteq> NUL"
  shows "tok_ok b (q, eq)"
proof -
  note G = gettoken_form [OF assms(1)]
  have d: "deref b q \<noteq> NUL" using G(3) assms(2) by simp
  then have l: "q < length b" by (auto simp: deref_def split: if_splits)
  have w: "\<not> is_in (deref b q) whitespace" using skip_ws_bounds(3) [of b s] l by (simp add: G(1))
  show ?thesis
    using tok_len_gt [OF l w] tok_len_le [OF l] G(4) d by (simp add: tok_ok_def)
qed

definition redir_mode :: "char \<Rightarrow> (int \<times> int) option" where
  "redir_mode tok = (if tok = CHR ''<'' then Some (O_RDONLY, 0)
     else if tok = CHR ''>'' then Some (O_WRONLY + O_CREATE + O_TRUNC, 1)
     else if tok = CHR ''+'' then Some (O_WRONLY + O_CREATE, 1) else None)"

lemma parseredirs_stop: "peek b s ''<>'' = (t, False) \<Longrightarrow> parseredirs c b s = Inr (c, t)"
  by (subst parseredirs.simps) simp

lemma parseredirs_step:
  assumes "peek b s ''<>'' = (t, True)" "gettoken b t = (tok, x, y, u)" "gettoken b u = (ret, q, eq, v)"
  shows "parseredirs c b s = (if ret \<noteq> CHR ''a'' then Inl (Panic ''missing file for redirection'')
    else parseredirs (case redir_mode tok of None \<Rightarrow> c | Some (m, fd) \<Rightarrow> REDIR c (q, eq) m fd) b v)"
  by (subst parseredirs.simps) (simp add: assms redir_mode_def)

lemma parseredirs_outcome:
  "good b n c \<Longrightarrow>
   parseredirs c b s \<noteq> Inl NoFuel \<and> (\<forall>c' t. parseredirs c b s = Inr (c', t) \<longrightarrow> s \<le> t \<and> good b n c')"
proof (induction "length b - s" arbitrary: c s rule: less_induct)
  case less
  obtain t r where p: "peek b s ''<>'' = (t, r)" by fastforce
  show ?case
  proof (cases r)
    case False
    then show ?thesis using p peek_ge [OF p] less.prems by (simp add: parseredirs_stop)
  next
    case True
    obtain tok x y u where g: "gettoken b t = (tok, x, y, u)" by (metis prod_cases4)
    obtain ret q eq v where h: "gettoken b u = (ret, q, eq, v)" by (metis prod_cases4)
    have pt: "peek b s ''<>'' = (t, True)" using p True by simp
    note step = parseredirs_step [OF pt g h]
    have sv: "length b - v < length b - s" "s \<le> v"
      using token_progress [OF pt g] gettoken_ge(1-3) [OF h] by linarith+
    show ?thesis
    proof (cases "ret = CHR ''a''")
      case ret: True
      define c' where "c' = (case redir_mode tok of None \<Rightarrow> c | Some (m, fd) \<Rightarrow> REDIR c (q, eq) m fd)"
      have "good b n c'"
        using word_token_ok [OF h] ret less.prems by (auto simp: c'_def good_cmds NUL_def split: option.split)
      from less.hyps [OF sv(1) this] sv(2) show ?thesis
        unfolding step ret c'_def [symmetric] by auto
    qed (simp add: step)
  qed
qed

lemma good_le: "good b n c \<Longrightarrow> n \<le> m \<Longrightarrow> good b m c"
  by (simp add: good_def)

lemma parseargs_outcome:
  "good b argc c \<Longrightarrow> argc \<le> 9 \<Longrightarrow> outcome b s (parseargs argc c b s)"
proof (induction "9 - argc" arbitrary: argc c s rule: less_induct)
  case less
  obtain t stop where p: "peek b s ''|)&;'' = (t, stop)" by fastforce
  obtain tok q eq u where g: "gettoken b t = (tok, q, eq, u)" by (metis prod_cases4)
  have st: "s \<le> t" "t \<le> u" using peek_ge [OF p] gettoken_ge(1-3) [OF g] by linarith+
  have g9: "good b 9 c" using less.prems good_le by blast
  have eq1: "parseargs argc c b s = (if stop then Inr (c, t) else if tok = NUL then Inr (c, u)
      else if tok \<noteq> CHR ''a'' then Inl (Panic ''syntax'')
      else if argc + 1 \<ge> MAXARGS then Inl (Panic ''too many args'')
      else case parseredirs (add_arg (q, eq) c) b u of Inl e \<Rightarrow> Inl e | Inr (r, v) \<Rightarrow> parseargs (argc + 1) r b v)"
    by (subst parseargs.simps) (simp add: p g)
  show ?case
  proof (cases "stop \<or> tok = NUL \<or> tok \<noteq> CHR ''a'' \<or> argc + 1 \<ge> MAXARGS")
    case True
    then show ?thesis using st g9 unfolding eq1 by (auto simp: outcome_Inr)
  next
    case False
    then have argc: "argc < 9" by (simp add: MAXARGS_def)
    have a: "good b (Suc argc) (add_arg (q, eq) c)"
      using good_add_arg [OF less.prems(1) word_token_ok [OF g]] False by simp
    show ?thesis
    proof (cases "parseredirs (add_arg (q, eq) c) b u")
      case (Inl e)
      then show ?thesis
        using False parseredirs_outcome [OF a, of u] unfolding eq1 by (simp add: outcome_def)
    next
      case (Inr cv)
      obtain c' v where cv: "cv = (c', v)" by fastforce
      have R: "u \<le> v" "good b (Suc argc) c'" using parseredirs_outcome [OF a, of u] Inr cv by auto
      have "outcome b v (parseargs (Suc argc) c' b v)"
        using less.hyps [OF _ R(2)] argc by simp
      then show ?thesis
        unfolding eq1 using False Inr cv st R(1) outcome_mono by simp
    qed
  qed
qed

lemma parsebacks_outcome: "good b n c \<Longrightarrow> parsebacks c b s = (c', t) \<Longrightarrow> s \<le> t \<and> good b n c'"
proof (induction "length b - s" arbitrary: c s rule: less_induct)
  case less
  obtain u r where p: "peek b s ''&'' = (u, r)" by fastforce
  obtain tok q eq v where g: "gettoken b u = (tok, q, eq, v)" by (metis prod_cases4)
  have eq1: "parsebacks c b s = (if r then parsebacks (BACK c) b v else (c, u))"
    by (subst parsebacks.simps) (simp add: p g)
  show ?case
  proof (cases r)
    case True
    have pt: "peek b s ''&'' = (u, True)" using p True by simp
    have "v \<le> t \<and> good b n c'"
      using less.hyps [OF token_progress(1) [OF pt g], of "BACK c"] less.prems eq1 True by (simp add: good_cmds)
    then show ?thesis using token_progress(2) [OF pt g] by simp
  next
    case False
    then show ?thesis using less.prems eq1 peek_ge [OF p] by simp
  qed
qed

lemma peek_token:
  assumes "peek b s toks = (t, True)" "gettoken b t = (tok, q, eq, u)"
  shows "s < u" "u \<le> length b" "length b - u < length b - s"
proof -
  show "s < u" "length b - u < length b - s" using token_progress [OF assms] by simp_all
  note P = peek_True [OF assms(1)] and G = gettoken_form [OF assms(2)]
  have "q = t" unfolding G(1) P(4) by (rule skip_ws_idem)
  then have "eq \<le> length b" using G(4) P(1) tok_len_le [of t b] by auto
  then show "u \<le> length b" unfolding G(2) by (rule skip_ws_bounds)
qed

definition good_parser :: "string \<Rightarrow> nat \<Rightarrow> parser \<Rightarrow> bool" where
  \<comment> \<open>what the parser of a smaller line gives\<close>
  "good_parser b s pl \<longleftrightarrow> (\<forall>v. s < v \<and> v \<le> length b \<longrightarrow> outcome b v (pl b v))"

lemma good_parser_mono: "good_parser b s pl \<Longrightarrow> s \<le> t \<Longrightarrow> good_parser b t pl"
  by (auto simp: good_parser_def)

lemma parseblock_outcome:
  assumes "good_parser b s pl" shows "outcome b s (parseblock pl b s)"
proof -
  obtain u w where p: "peek b s ''('' = (u, w)" by fastforce
  obtain tok q eq v where g: "gettoken b u = (tok, q, eq, v)" by (metis prod_cases4)
  show ?thesis
  proof (cases w)
    case True
    have pt: "peek b s ''('' = (u, True)" using p True by simp
    note P = peek_token [OF pt g]
    have r: "outcome b v (pl b v)" using assms P by (simp add: good_parser_def)
    show ?thesis
    proof (cases "pl b v")
      case (Inr ct)
      obtain c t where ct: "ct = (c, t)" by fastforce
      have c: "v \<le> t" "good b 9 c" using r Inr ct by (simp_all add: outcome_Inr)
      obtain x y where p2: "peek b t '')'' = (x, y)" by fastforce
      obtain tok' q' eq' z where g2: "gettoken b x = (tok', q', eq', z)" by (metis prod_cases4)
      have "s \<le> z" using P c(1) peek_ge [OF p2] gettoken_ge(1-3) [OF g2] by linarith
      then have "outcome b s (parseredirs c b z)"
        using parseredirs_outcome [OF c(2), of z] by (auto simp: outcome_def)
      then show ?thesis using pt g Inr ct p2 g2 by (simp add: parseblock_def)
    qed (use r pt g in \<open>auto simp: outcome_def parseblock_def\<close>)
  qed (use p g in \<open>simp add: parseblock_def\<close>)
qed

lemma parseexec_outcome:
  assumes "good_parser b s pl" shows "outcome b s (parseexec pl b s)"
proof -
  obtain u w where p: "peek b s ''('' = (u, w)" by fastforce
  note G = peek_ge [OF p]
  have b: "outcome b s (parseblock pl b u)"
    using parseblock_outcome [OF good_parser_mono [OF assms G]] G outcome_mono by blast
  have e0: "good b 0 (EXEC [])" by (rule good_cmds)
  have "outcome b s (case parseredirs (EXEC []) b u of Inl e \<Rightarrow> Inl e | Inr (ret, s) \<Rightarrow> parseargs 0 ret b s)"
  proof (cases "parseredirs (EXEC []) b u")
    case (Inl e)
    then show ?thesis using parseredirs_outcome [OF e0, of u] by (simp add: outcome_def)
  next
    case (Inr ct)
    obtain c t where ct: "ct = (c, t)" by fastforce
    then have "u \<le> t" "good b 0 c" using parseredirs_outcome [OF e0, of u] Inr by auto
    then show ?thesis using parseargs_outcome [of b 0 c t] Inr ct G outcome_mono by simp
  qed
  then show ?thesis using p b by (simp add: parseexec_def)
qed

lemma parsepipe_outcome:
  "good_parser b s pl \<Longrightarrow> length b - s < k \<Longrightarrow> outcome b s (parsepipe k pl b s)"
proof (induction k arbitrary: s)
  case (Suc k)
  have r: "outcome b s (parseexec pl b s)" by (rule parseexec_outcome [OF Suc.prems(1)])
  show ?case
  proof (cases "parseexec pl b s")
    case (Inr ct)
    obtain c u where ct: "ct = (c, u)" by fastforce
    have c: "s \<le> u" "good b 9 c" using r Inr ct by (simp_all add: outcome_Inr)
    obtain v w where p: "peek b u ''|'' = (v, w)" by fastforce
    obtain tok q eq x where g: "gettoken b v = (tok, q, eq, x)" by (metis prod_cases4)
    have eq1: "parsepipe (Suc k) pl b s = (if w then
        (case parsepipe k pl b x of Inl e \<Rightarrow> Inl e | Inr (right, s) \<Rightarrow> Inr (PIPE c right, s)) else Inr (c, v))"
      by (simp add: parsepipe.simps(2) Inr ct p g)
    show ?thesis
    proof (cases w)
      case True
      have pt: "peek b u ''|'' = (v, True)" using p True by simp
      note P = peek_token [OF pt g]
      have sx: "s \<le> x" "length b - x < k" using P c(1) Suc.prems(2) by linarith+
      have "outcome b x (parsepipe k pl b x)"
        by (rule Suc.IH [OF good_parser_mono [OF Suc.prems(1) sx(1)] sx(2)])
      then show ?thesis
        unfolding eq1 using True P c by (auto simp: outcome_def good_cmds split: sum.split)
    next
      case False
      then show ?thesis unfolding eq1 using peek_ge [OF p] c by (simp add: outcome_Inr)
    qed
  qed (use r in \<open>auto simp: outcome_def parsepipe.simps(2)\<close>)
qed simp

lemma parseline_outcome: "length b - s < k \<Longrightarrow> outcome b s (parseline k b s)"
proof (induction k arbitrary: s)
  case (Suc k)
  have sub: "good_parser b s (parseline k)"
    unfolding good_parser_def
  proof (intro allI impI)
    fix v assume "s < v \<and> v \<le> length b"
    then have "length b - v < k" using Suc.prems by linarith
    then show "outcome b v (parseline k b v)" by (rule Suc.IH)
  qed
  have r: "outcome b s (parsepipe (Suc k) (parseline k) b s)" by (rule parsepipe_outcome [OF sub Suc.prems])
  show ?case
  proof (cases "parsepipe (Suc k) (parseline k) b s")
    case (Inr ct)
    obtain c t where ct: "ct = (c, t)" by fastforce
    have c: "s \<le> t" "good b 9 c" using r Inr ct by (simp_all add: outcome_Inr)
    obtain c' u where bk: "parsebacks c b t = (c', u)" by fastforce
    note B = parsebacks_outcome [OF c(2) bk]
    obtain v w where p: "peek b u '';'' = (v, w)" by fastforce
    obtain tok q eq x where g: "gettoken b v = (tok, q, eq, x)" by (metis prod_cases4)
    have eq1: "parseline (Suc k) b s = (if w then
        (case parseline k b x of Inl e \<Rightarrow> Inl e | Inr (right, s) \<Rightarrow> Inr (LIST c' right, s)) else Inr (c', v))"
      by (simp add: Inr ct bk p g)
    show ?thesis
    proof (cases w)
      case True
      have pt: "peek b u '';'' = (v, True)" using p True by simp
      note P = peek_token [OF pt g]
      have sx: "s < x \<and> x \<le> length b" using P B c(1) by linarith
      then have "outcome b x (parseline k b x)" using sub by (simp add: good_parser_def)
      then show ?thesis
        unfolding eq1 using True P B c(1) by (auto simp: outcome_def good_cmds split: sum.split)
    next
      case False
      then show ?thesis unfolding eq1 using peek_ge [OF p] B c(1) by (simp add: outcome_Inr)
    qed
  qed (use r in \<open>auto simp: outcome_def\<close>)
qed simp

section \<open>Printed lines\<close>

datatype rkind = Rin | Rout | Rapp

datatype item = Arg string | Red rkind string

datatype sexec = Simple "item list" | Group sline "(rkind \<times> string) list"
  and spipe = One sexec | Piped sexec spipe
  and sline = Line spipe nat | Seq spipe nat sline   \<comment> \<open>\<open>n\<close> times \<open>&\<close> after the pipeline\<close>

primrec rtok :: "rkind \<Rightarrow> string" where
  "rtok Rin = ''<''" | "rtok Rout = ''>''" | "rtok Rapp = ''>>''"

primrec redir :: "rkind \<Rightarrow> 'w cmd \<Rightarrow> 'w \<Rightarrow> 'w cmd" where
  "redir Rin c f = REDIR c f O_RDONLY 0"
| "redir Rout c f = REDIR c f (O_WRONLY + O_CREATE + O_TRUNC) 1"
| "redir Rapp c f = REDIR c f (O_WRONLY + O_CREATE) 1"

fun item_toks :: "item \<Rightarrow> string list" where
  "item_toks (Arg w) = [w]" | "item_toks (Red k f) = [rtok k, f]"

fun item_step :: "string cmd \<Rightarrow> item \<Rightarrow> string cmd" where
  "item_step c (Arg w) = add_arg w c" | "item_step c (Red k f) = redir k c f"

primrec exec_toks :: "sexec \<Rightarrow> string list"
  and pipe_toks :: "spipe \<Rightarrow> string list"
  and line_toks :: "sline \<Rightarrow> string list" where
  "exec_toks (Simple is) = concat (map item_toks is)"
| "exec_toks (Group l rs) = [''(''] @ line_toks l @ ['')''] @ concat (map (\<lambda>(k, f). [rtok k, f]) rs)"
| "pipe_toks (One x) = exec_toks x"
| "pipe_toks (Piped x p) = exec_toks x @ [''|''] @ pipe_toks p"
| "line_toks (Line p n) = pipe_toks p @ replicate n ''&''"
| "line_toks (Seq p n l) = pipe_toks p @ replicate n ''&'' @ ['';''] @ line_toks l"

primrec exec_tree :: "sexec \<Rightarrow> string cmd"
  and pipe_tree :: "spipe \<Rightarrow> string cmd"
  and line_tree :: "sline \<Rightarrow> string cmd" where
  "exec_tree (Simple is) = foldl item_step (EXEC []) is"
| "exec_tree (Group l rs) = foldl (\<lambda>c (k, f). redir k c f) (line_tree l) rs"
| "pipe_tree (One x) = exec_tree x"
| "pipe_tree (Piped x p) = PIPE (exec_tree x) (pipe_tree p)"
| "line_tree (Line p n) = (BACK ^^ n) (pipe_tree p)"
| "line_tree (Seq p n l) = LIST ((BACK ^^ n) (pipe_tree p)) (line_tree l)"

definition word_char :: "char \<Rightarrow> bool" where
  "word_char c \<longleftrightarrow> c \<noteq> NUL \<and> c \<notin> set whitespace \<and> c \<notin> set symbols"

definition word_ok :: "string \<Rightarrow> bool" where
  "word_ok w \<longleftrightarrow> w \<noteq> [] \<and> (\<forall>c \<in> set w. word_char c)"

fun item_ok :: "item \<Rightarrow> bool" where
  "item_ok (Arg w) = word_ok w" | "item_ok (Red k f) = word_ok f"

primrec is_arg :: "item \<Rightarrow> bool" where
  "is_arg (Arg w) = True" | "is_arg (Red k f) = False"

primrec exec_ok :: "sexec \<Rightarrow> bool"
  and pipe_ok :: "spipe \<Rightarrow> bool"
  and line_ok :: "sline \<Rightarrow> bool" where
  "exec_ok (Simple is) = (list_all item_ok is \<and> length (filter is_arg is) < MAXARGS)"
| "exec_ok (Group l rs) = (line_ok l \<and> list_all (\<lambda>(k, f). word_ok f) rs)"
| "pipe_ok (One x) = exec_ok x"
| "pipe_ok (Piped x p) = (exec_ok x \<and> pipe_ok p)"
| "line_ok (Line p n) = pipe_ok p"
| "line_ok (Seq p n l) = (pipe_ok p \<and> line_ok l)"

definition render :: "string list \<Rightarrow> string" where
  "render ts = concat (map (\<lambda>t. t @ '' '') ts)"

section \<open>Tokenizing a printed line\<close>

definition sym_toks :: "string list" where
  "sym_toks = [''|'', ''('', '')'', '';'', ''&'', ''<'', ''>'', ''>>'']"

definition tok_valid :: "string \<Rightarrow> bool" where
  "tok_valid t \<longleftrightarrow> t \<in> set sym_toks \<or> word_ok t"

definition kind :: "string \<Rightarrow> char" where
  "kind t = (if t = ''>>'' then CHR ''+'' else if t \<in> set sym_toks then hd t else CHR ''a'')"

definition here :: "string \<Rightarrow> nat \<Rightarrow> string list \<Rightarrow> bool" where
  \<comment> \<open>the rest of the line from \<open>s\<close> is the rendering of \<open>ts\<close> and white space\<close>
  "here b s ts \<longleftrightarrow> (\<exists>tail. set tail \<subseteq> set whitespace \<and> drop s b = render ts @ tail) \<and>
     (\<forall>t \<in> set ts. tok_valid t) \<and> s \<le> length b"

lemma drop_Suc_of: "drop s b = c # r \<Longrightarrow> drop (Suc s) b = r \<and> s < length b \<and> deref b s = c"
  by (metis deref_def drop_eq_Nil list.distinct(1) list.inject not_le Cons_nth_drop_Suc)

lemma is_ws [simp]: "is_in c whitespace \<longleftrightarrow> c \<in> set whitespace"
  and is_sym [simp]: "is_in c symbols \<longleftrightarrow> c \<in> set symbols"
  using NUL_not_special by (simp_all add: is_in_set)

lemma ws_space [simp]: "CHR '' '' \<in> set whitespace"
  by (simp add: whitespace_def)

lemma skip_ws_tail:
  "set w \<subseteq> set whitespace \<Longrightarrow> drop s b = w @ r \<Longrightarrow> s \<le> length b \<Longrightarrow> r = [] \<or> hd r \<notin> set whitespace \<Longrightarrow>
    skip_ws b s = s + length w"
proof (induction w arbitrary: s)
  case Nil
  then show ?case
    by (cases r) (auto dest!: drop_Suc_of simp: skip_ws_stop)
next
  case (Cons c w)
  have d: "drop (Suc s) b = w @ r \<and> s < length b \<and> deref b s = c" using Cons.prems(2) by (intro drop_Suc_of) simp
  then show ?case using Cons.IH [of "Suc s"] Cons.prems by (simp add: skip_ws_step)
qed

lemma skip_word_run:
  "(\<forall>c \<in> set w. word_char c) \<Longrightarrow> drop s b = w @ CHR '' '' # r \<Longrightarrow> skip_word b s = s + length w"
proof (induction w arbitrary: s)
  case Nil
  then have "deref b s = CHR '' ''" using drop_Suc_of [of s b "CHR '' ''" r] by simp
  then have "skip_word b s = s" by (intro skip_word_stop) simp
  then show ?case by simp
next
  case (Cons c w)
  have d: "drop (Suc s) b = w @ CHR '' '' # r \<and> s < length b \<and> deref b s = c"
    using Cons.prems(2) by (intro drop_Suc_of) simp
  then show ?case using Cons.IH [of "Suc s"] Cons.prems by (simp add: skip_word_step word_char_def)
qed

lemma tok_valid_hd:
  assumes "tok_valid t" shows "t \<noteq> []" "hd t \<notin> set whitespace" "hd t \<noteq> NUL"
proof -
  have "list_all (\<lambda>t. t \<noteq> [] \<and> hd t \<notin> set whitespace \<and> hd t \<noteq> NUL) sym_toks" by code_simp
  moreover have "t \<noteq> [] \<and> hd t \<notin> set whitespace \<and> hd t \<noteq> NUL" if "word_ok t"
    using that by (cases t) (auto simp: word_ok_def word_char_def)
  ultimately show "t \<noteq> []" "hd t \<notin> set whitespace" "hd t \<noteq> NUL"
    using assms by (auto simp: tok_valid_def list_all_iff)
qed

lemma render_Cons: "render (t # ts) = t @ CHR '' '' # render ts"
  by (simp add: render_def)

lemma render_hd: "\<forall>t \<in> set ts. tok_valid t \<Longrightarrow> ts = [] \<or> (\<exists>c r. render ts = c # r \<and> c \<notin> set whitespace)"
proof (cases ts)
  case (Cons t ts')
  assume "\<forall>t \<in> set ts. tok_valid t"
  then have "tok_valid t" using Cons by simp
  note h = tok_valid_hd [OF this]
  then have "render ts = hd t # tl t @ CHR '' '' # render ts'" using Cons by (simp add: render_Cons)
  then show ?thesis using h(2) by blast
qed simp

lemma here_skip:
  assumes "here b s ts"
  shows "skip_ws b s = (if ts = [] then length b else s)"
proof -
  obtain tail where t: "set tail \<subseteq> set whitespace" "drop s b = render ts @ tail" "\<forall>t \<in> set ts. tok_valid t" "s \<le> length b"
    using assms by (auto simp: here_def)
  show ?thesis
  proof (cases "ts = []")
    case True
    then have "drop s b = tail @ []" using t(2) by (simp add: render_def)
    then have "skip_ws b s = s + length tail" using skip_ws_tail [OF t(1) _ t(4)] by blast
    moreover have "length b - s = length tail" using \<open>drop s b = tail @ []\<close> by (metis append_Nil2 length_drop)
    ultimately show ?thesis using True t(4) by simp
  next
    case False
    then obtain c r where "render ts = c # r" "c \<notin> set whitespace" using render_hd [OF t(3)] by blast
    then show ?thesis using skip_ws_tail [of "[]" s b "c # r @ tail"] t False by simp
  qed
qed

lemma here_deref:
  "here b s (t # ts) \<Longrightarrow> deref b s = hd t"
  using drop_Suc_of [of s b "hd t"] tok_valid_hd(1) [of t]
  by (cases t) (auto simp: here_def render_Cons)

lemma here_peek:
  "here b s (t # ts) \<Longrightarrow> NUL \<notin> set cs \<Longrightarrow> peek b s cs = (s, hd t \<in> set cs)"
  "here b s [] \<Longrightarrow> peek b s cs = (length b, False)"
  using here_skip [of b s "t # ts"] here_skip [of b s "[]"] here_deref [of b s t ts] tok_valid_hd(3) [of t]
  by (auto simp: peek_def is_in_set here_def deref_def)

lemma here_end: "here b s [] \<Longrightarrow> gettoken b s = (NUL, length b, length b, length b) \<and> here b (length b) []"
  using here_skip [of b s "[]"] by (simp add: gettoken_def Let_def deref_def here_def render_def skip_ws_stop)

lemma here_next:
  assumes "here b s (t # ts)"
  shows "skip_ws b (s + length t) = (if ts = [] then length b else Suc (s + length t))"
    and "here b (skip_ws b (s + length t)) ts" and "s + length t < length b"
    and "drop s b = t @ CHR '' '' # drop (Suc (s + length t)) b"
proof -
  obtain tail where t: "set tail \<subseteq> set whitespace" "drop s b = t @ CHR '' '' # render ts @ tail"
      "\<forall>t \<in> set ts. tok_valid t" "s \<le> length b"
    using assms by (auto simp: here_def render_Cons)
  have d0: "drop (s + length t) b = CHR '' '' # render ts @ tail" using t(2) by (metis append_eq_conv_conj drop_drop add.commute)
  then have d: "s + length t < length b" "drop (Suc (s + length t)) b = render ts @ tail" "deref b (s + length t) = CHR '' ''"
    using drop_Suc_of by blast+
  have h: "here b (Suc (s + length t)) ts" using t(1,3) d by (auto simp: here_def)
  have "skip_ws b (s + length t) = skip_ws b (Suc (s + length t))"
    using d(1,3) by (intro skip_ws_step) simp_all
  then show sk: "skip_ws b (s + length t) = (if ts = [] then length b else Suc (s + length t))"
    using here_skip [OF h] by simp
  show "here b (skip_ws b (s + length t)) ts"
    unfolding sk using h by (auto simp: here_def render_def)
  show "s + length t < length b" "drop s b = t @ CHR '' '' # drop (Suc (s + length t)) b"
    using d t(2) by simp_all
qed

lemma sym_tok_cases:
  assumes "t \<in> set sym_toks"
  obtains c where "t = [c]" "c \<in> {CHR ''|'', CHR ''('', CHR '')'', CHR '';'', CHR ''&'', CHR ''<''}"
  | "t = ''>''" | "t = ''>>''"
  using assms that by (auto simp: sym_toks_def)

lemma deref_after:
  assumes "drop s b = t @ CHR '' '' # r" "t = x # y"
  shows "deref b (Suc s) = (if y = [] then CHR '' '' else hd y)"
  using drop_Suc_of [of s b x "y @ CHR '' '' # r"] drop_Suc_of [of "Suc s" b] assms by (cases y) auto

lemma here_gettoken:
  assumes h: "here b s (t # ts)"
  shows "gettoken b s = (kind t, s, s + length t, skip_ws b (s + length t))"
proof -
  note N = here_next [OF h]
  have s0: "skip_ws b s = s" using here_skip [OF h] by simp
  have d: "deref b s = hd t" by (rule here_deref [OF h])
  have v: "tok_valid t" using h by (simp add: here_def)
  note v' = tok_valid_hd [OF v]
  consider "t \<in> set sym_toks" | "word_ok t" using v by (auto simp: tok_valid_def)
  then show ?thesis
  proof cases
    case 1
    then show ?thesis
    proof (cases rule: sym_tok_cases)
      case (1 c)
      then show ?thesis using s0 d v'(3) 1 \<open>t \<in> set sym_toks\<close>
        by (auto simp: gettoken_def Let_def kind_def)
    next
      case 2
      then have "deref b (Suc s) = CHR '' ''" using deref_after [OF N(4), of "CHR ''>''" "[]"] by simp
      then show ?thesis using s0 d 2 \<open>t \<in> set sym_toks\<close> by (simp add: gettoken_def Let_def kind_def NUL_def)
    next
      case 3
      then have "deref b (Suc s) = CHR ''>''" using deref_after [OF N(4), of "CHR ''>''" "''>''"] by simp
      then show ?thesis using s0 d 3 by (simp add: gettoken_def Let_def kind_def NUL_def)
    qed
  next
    case 2
    have w: "skip_word b s = s + length t" using skip_word_run [OF _ N(4)] 2 by (simp add: word_ok_def)
    have "word_char (hd t)" using 2 v'(1) by (simp add: word_ok_def)
    then have ns: "hd t \<notin> {CHR ''|'', CHR ''('', CHR '')'', CHR '';'', CHR ''&'', CHR ''<'', CHR ''>''}" "hd t \<noteq> NUL"
      by (auto simp: word_char_def symbols_def)
    have "t \<notin> set sym_toks" using ns(1) by (auto simp: sym_toks_def)
    then have k: "kind t = CHR ''a''" using ns(1) by (auto simp: kind_def sym_toks_def)
    show ?thesis unfolding gettoken_def Let_def s0 d k using ns w by auto
  qed
qed

definition text_of :: "string \<Rightarrow> tok \<Rightarrow> string" where
  "text_of b t = take (snd t - fst t) (drop (fst t) b)"

definition word_at :: "string \<Rightarrow> tok \<Rightarrow> bool" where
  \<comment> \<open>a word, and a space behind it\<close>
  "word_at b t \<longleftrightarrow> fst t < snd t \<and> snd t < length b \<and> b ! snd t = CHR '' '' \<and> (\<forall>c \<in> set (text_of b t). word_char c)"

definition made :: "string \<Rightarrow> tok cmd \<Rightarrow> string cmd \<Rightarrow> bool" where
  \<comment> \<open>the parsed command stands for the tree\<close>
  "made b c T \<longleftrightarrow> (\<forall>t \<in> set_cmd c. word_at b t) \<and> map_cmd (text_of b) c = T"

lemma here_word:
  assumes "here b s (w # ts)" "word_ok w"
  shows "text_of b (s, s + length w) = w" "word_at b (s, s + length w)"
proof -
  note N = here_next [OF assms(1)]
  obtain r where "drop s b = w @ CHR '' '' # r" using N(4) by blast
  then show t: "text_of b (s, s + length w) = w" by (simp add: text_of_def)
  have "drop (s + length w) b = CHR '' '' # drop (Suc (s + length w)) b"
    using N(4) by (metis append_eq_conv_conj drop_drop add.commute)
  then have "b ! (s + length w) = CHR '' ''" using N(3) by (metis Cons_nth_drop_Suc list.inject)
  then show "word_at b (s, s + length w)" using t N(3) assms(2) by (auto simp: word_at_def word_ok_def)
qed

section \<open>Parsing a printed line\<close>

definition before :: "string list \<Rightarrow> string list \<Rightarrow> bool" where
  \<comment> \<open>the line ends or goes on with one of \<open>F\<close>\<close>
  "before ts F \<longleftrightarrow> ts = [] \<or> hd ts \<in> set F"

definition settled :: "string \<Rightarrow> nat \<Rightarrow> string list \<Rightarrow> nat" where
  \<comment> \<open>where \<open>peek\<close> leaves the pointer\<close>
  "settled b s ts = (if ts = [] then length b else s)"

lemma before_end: "before [] F"
  by (simp add: before_def)

lemma here_settled: "here b s ts \<Longrightarrow> here b (settled b s ts) ts"
  by (auto simp: settled_def here_def render_def)

lemma peek_sym:
  assumes "here b s ts" "NUL \<notin> set cs"
  shows "peek b s cs = (settled b s ts, ts \<noteq> [] \<and> hd (hd ts) \<in> set cs)"
  using here_peek(1) [of b s "hd ts" "tl ts" cs] here_peek(2) [of b s cs] assms by (cases ts) (auto simp: settled_def)

lemma kind_word: "word_ok w \<Longrightarrow> kind w = CHR ''a''"
  by (cases w) (auto simp: kind_def word_ok_def word_char_def sym_toks_def symbols_def)

lemma kind_rtok [simp]: "kind (rtok k) = (case k of Rin \<Rightarrow> CHR ''<'' | Rout \<Rightarrow> CHR ''>'' | Rapp \<Rightarrow> CHR ''+'')"
  by (cases k) (simp_all add: kind_def sym_toks_def)

lemma rtok_hd [simp]: "hd (rtok k) \<in> {CHR ''<'', CHR ''>''}"
  by (cases k) simp_all

lemma redir_mode_kind:
  "(case redir_mode (kind (rtok k)) of None \<Rightarrow> c | Some (m, fd) \<Rightarrow> REDIR c f m fd) = redir k c f"
  by (cases k) (simp_all add: redir_mode_def kind_def sym_toks_def)

lemma word_hd: "word_ok w \<Longrightarrow> hd w \<notin> set symbols \<and> hd w \<noteq> NUL"
  by (cases w) (auto simp: word_ok_def word_char_def)

lemma made_redir: "made b c T \<Longrightarrow> word_at b t \<Longrightarrow> text_of b t = f \<Longrightarrow> made b (redir k c t) (redir k T f)"
  by (cases k) (auto simp: made_def)

lemma map_add_arg: "map_cmd f (add_arg t c) = add_arg (f t) (map_cmd f c)"
  by (induction c) simp_all

lemma set_add_arg: "set_cmd (add_arg t c) \<subseteq> insert t (set_cmd c)"
  by (induction c) auto

lemma made_add_arg: "made b c T \<Longrightarrow> word_at b t \<Longrightarrow> text_of b t = w \<Longrightarrow> made b (add_arg t c) (add_arg w T)"
  using set_add_arg [of t c] by (auto simp: made_def map_add_arg)

definition rtoks :: "(rkind \<times> string) list \<Rightarrow> string list" where
  "rtoks rs = concat (map (\<lambda>(k, f). [rtok k, f]) rs)"

lemma parse_redirs:
  "here b s (rtoks rs @ ts) \<Longrightarrow> list_all (\<lambda>(k, f). word_ok f) rs \<Longrightarrow>
   ts = [] \<or> hd (hd ts) \<notin> {CHR ''<'', CHR ''>''} \<Longrightarrow> made b c T \<Longrightarrow>
   \<exists>c' s'. parseredirs c b s = Inr (c', s') \<and> here b s' ts \<and> made b c' (foldl (\<lambda>c (k, f). redir k c f) T rs)"
proof (induction rs arbitrary: c T s)
  case Nil
  then have "peek b s ''<>'' = (settled b s ts, False)" using peek_sym [of b s ts "''<>''"] by (auto simp: rtoks_def NUL_def)
  then show ?case using Nil here_settled by (auto simp: parseredirs_stop rtoks_def)
next
  case (Cons kf rs)
  obtain k f where kf: "kf = (k, f)" by fastforce
  have h: "here b s (rtok k # f # rtoks rs @ ts)" using Cons.prems(1) by (simp add: rtoks_def kf)
  have f: "word_ok f" using Cons.prems(2) kf by simp
  have p: "peek b s ''<>'' = (s, True)" using peek_sym [OF h, of "''<>''"] rtok_hd [of k] by (simp add: settled_def NUL_def)
  let ?u = "skip_ws b (s + length (rtok k))"
  have h2: "here b ?u (f # rtoks rs @ ts)" by (rule here_next(2) [OF h])
  let ?v = "skip_ws b (?u + length f)"
  have h3: "here b ?v (rtoks rs @ ts)" by (rule here_next(2) [OF h2])
  have "parseredirs c b s = parseredirs (redir k c (?u, ?u + length f)) b ?v"
    unfolding parseredirs_step [OF p here_gettoken [OF h] here_gettoken [OF h2]] kind_word [OF f] redir_mode_kind by simp
  moreover have "made b (redir k c (?u, ?u + length f)) (redir k T f)"
    using made_redir [OF Cons.prems(4)] here_word [OF h2 f] by blast
  ultimately show ?case using Cons.IH [OF h3 _ Cons.prems(3)] Cons.prems(2) kf by simp
qed

lemma items_split:
  "\<exists>rs is2. is = map (\<lambda>(k, f). Red k f) rs @ is2 \<and> (is2 = [] \<or> is_arg (hd is2))"
proof (induction "is")
  case Nil
  show ?case by (intro exI [of _ "[]"]) simp
next
  case (Cons i "is")
  then obtain rs is2 where I: "is = map (\<lambda>(k, f). Red k f) rs @ is2" "is2 = [] \<or> is_arg (hd is2)" by blast
  show ?case
  proof (cases i)
    case (Arg w)
    then show ?thesis by (intro exI [of _ "[]"] exI [of _ "i # is"]) simp
  next
    case (Red k f)
    then show ?thesis using I by (intro exI [of _ "(k, f) # rs"] exI [of _ is2]) simp
  qed
qed

lemma red_items:
  "concat (map item_toks (map (\<lambda>(k, f). Red k f) rs)) = rtoks rs"
  "foldl item_step T (map (\<lambda>(k, f). Red k f) rs) = foldl (\<lambda>c (k, f). redir k c f) T rs"
  "list_all item_ok (map (\<lambda>(k, f). Red k f) rs) = list_all (\<lambda>(k, f). word_ok f) rs"
  "filter is_arg (map (\<lambda>(k, f). Red k f) rs) = []"
  by (induction rs arbitrary: T) (auto simp: rtoks_def)

lemma parse_leading:
  \<comment> \<open>redirections, then an argument or the end of the command\<close>
  assumes "here b s (concat (map item_toks is) @ ts)" "list_all item_ok is" "before ts [''|'', '')'', ''&'', '';'']"
    "made b c T"
  obtains c' s' is2 rs where "parseredirs c b s = Inr (c', s')" "here b s' (concat (map item_toks is2) @ ts)"
    "made b c' (foldl item_step T (map (\<lambda>(k, f). Red k f) rs))" "is = map (\<lambda>(k, f). Red k f) rs @ is2"
    "is2 = [] \<or> is_arg (hd is2)"
proof -
  obtain rs is2 where I: "is = map (\<lambda>(k, f). Red k f) rs @ is2" "is2 = [] \<or> is_arg (hd is2)"
    using items_split by blast
  let ?ts = "concat (map item_toks is2) @ ts"
  have h: "here b s (rtoks rs @ ?ts)" using assms(1) I(1) red_items(1) [of rs] by simp
  have "?ts = [] \<or> hd (hd ?ts) \<notin> {CHR ''<'', CHR ''>''}"
  proof (cases is2)
    case Nil
    then show ?thesis using assms(3) by (auto simp: before_def)
  next
    case (Cons i is3)
    then obtain w where "i = Arg w" using I(2) by (cases i) auto
    then show ?thesis using Cons assms(2) I(1) word_hd [of w] by (auto simp: symbols_def)
  qed
  then show thesis
    using that [OF _ _ _ I] parse_redirs [OF h _ _ assms(4)] assms(2) I(1) red_items(2) [of T rs] red_items(3) [of rs] by auto
qed

lemma parse_args:
  "here b s (concat (map item_toks is) @ ts) \<Longrightarrow> list_all item_ok is \<Longrightarrow> is = [] \<or> is_arg (hd is) \<Longrightarrow>
   before ts [''|'', '')'', ''&'', '';''] \<Longrightarrow> argc + length (filter is_arg is) < MAXARGS \<Longrightarrow> made b c T \<Longrightarrow>
   \<exists>c' s'. parseargs argc c b s = Inr (c', s') \<and> here b s' ts \<and> made b c' (foldl item_step T is)"
proof (induction "length is" arbitrary: "is" argc c T s rule: less_induct)
  case less
  show ?case
  proof (cases "is")
    case Nil
    then have h: "here b s ts" using less.prems(1) by simp
    show ?thesis
    proof (cases ts)
      case Nil
      have "peek b s ''|)&;'' = (length b, False)" using here_peek(2) h Nil by simp
      moreover have "here b (length b) []" by (simp add: here_def render_def)
      ultimately show ?thesis
        using here_end [of b "length b"] \<open>is = []\<close> less.prems(6) Nil by (subst parseargs.simps) simp
    next
      case (Cons t ts')
      then have "hd (hd ts) \<in> set ''|)&;''" using less.prems(4) by (auto simp: before_def)
      then have "peek b s ''|)&;'' = (s, True)" using peek_sym [OF h, of "''|)&;''"] Cons by (auto simp: settled_def NUL_def)
      then show ?thesis using h \<open>is = []\<close> less.prems(6) by (subst parseargs.simps) simp
    qed
  next
    case (Cons i is1)
    then obtain w where i: "i = Arg w" using less.prems(3) by (cases i) auto
    have w: "word_ok w" using less.prems(2) Cons i by simp
    have h: "here b s (w # concat (map item_toks is1) @ ts)" using less.prems(1) Cons i by simp
    have "peek b s ''|)&;'' = (s, False)"
      using peek_sym [OF h, of "''|)&;''"] word_hd [OF w] by (auto simp: settled_def NUL_def symbols_def)
    note step = this here_gettoken [OF h]
    let ?u = "skip_ws b (s + length w)"
    have h2: "here b ?u (concat (map item_toks is1) @ ts)" by (rule here_next(2) [OF h])
    have m: "made b (add_arg (s, s + length w) c) (add_arg w T)"
      using made_add_arg [OF less.prems(6)] here_word [OF h w] by blast
    have ok1: "list_all item_ok is1" using less.prems(2) Cons by simp
    obtain c' s' is2 rs where R: "parseredirs (add_arg (s, s + length w) c) b ?u = Inr (c', s')"
        "here b s' (concat (map item_toks is2) @ ts)" "made b c' (foldl item_step (add_arg w T) (map (\<lambda>(k, f). Red k f) rs))"
        "is1 = map (\<lambda>(k, f). Red k f) rs @ is2" "is2 = [] \<or> is_arg (hd is2)"
      by (rule parse_leading [OF h2 ok1 less.prems(4) m])
    have n: "Suc argc + length (filter is_arg is2) < MAXARGS"
      using less.prems(5) Cons i R(4) red_items(4) [of rs] by simp
    have "parseargs argc c b s = parseargs (Suc argc) c' b s'"
      using step kind_word [OF w] n R(1) by (subst parseargs.simps) (simp add: NUL_def)
    moreover have "foldl item_step T is = foldl item_step (foldl item_step (add_arg w T) (map (\<lambda>(k, f). Red k f) rs)) is2"
      using Cons i R(4) by simp
    ultimately show ?thesis
      using less.hyps [OF _ R(2) _ R(5) less.prems(4) n R(3)] ok1 R(4) Cons by simp
  qed
qed

definition rlen :: "string list \<Rightarrow> nat" where "rlen ts = length (render ts)"

lemma rlen_simps [simp]: "rlen [] = 0" "rlen (t # ts) = Suc (length t) + rlen ts" "rlen (ts @ us) = rlen ts + rlen us"
  by (simp_all add: rlen_def render_def)

lemma here_rlen: "here b s ts \<Longrightarrow> rlen ts \<le> length b"
  unfolding here_def rlen_def by (metis drop_eq_Nil le_add1 length_append length_drop le_trans diff_le_self)

lemma parse_backs:
  "here b s (replicate n ''&'' @ ts) \<Longrightarrow> before ts ['';'', '')''] \<Longrightarrow> made b c T \<Longrightarrow>
   \<exists>c' s'. parsebacks c b s = (c', s') \<and> here b s' ts \<and> made b c' ((BACK ^^ n) T)"
proof (induction n arbitrary: c T s)
  case 0
  then have "peek b s ''&'' = (settled b s ts, False)" using peek_sym [of b s ts "''&''"] by (auto simp: before_def NUL_def)
  then show ?case using 0 here_settled by (subst parsebacks.simps) simp
next
  case (Suc n)
  have h: "here b s (''&'' # replicate n ''&'' @ ts)" using Suc.prems(1) by simp
  have p: "peek b s ''&'' = (s, True)" using peek_sym [OF h, of "''&''"] by (simp add: settled_def NUL_def)
  have "parsebacks c b s = parsebacks (BACK c) b (skip_ws b (s + length ''&''))"
    using p here_gettoken [OF h] by (subst parsebacks.simps) simp
  moreover have "made b (BACK c) (BACK T)" using Suc.prems(3) by (simp add: made_def)
  ultimately show ?case
    using Suc.IH [OF here_next(2) [OF h] Suc.prems(2)] by (simp add: funpow_swap1)
qed

lemma made_cmds:
  "made b (EXEC []) (EXEC [])"
  "made b l L \<Longrightarrow> made b r R \<Longrightarrow> made b (PIPE l r) (PIPE L R) \<and> made b (LIST l r) (LIST L R)"
  by (auto simp: made_def)

lemma rtok_hd_neq: "hd (rtok k) \<noteq> CHR ''(''"
  by (cases k) simp_all

lemma step_sym:
  \<comment> \<open>\<open>peek\<close> finds the one-character token \<open>t\<close> and \<open>gettoken\<close> takes it\<close>
  assumes "here b s ([c] # ts)" "c \<in> set symbols"
  shows "peek b s [c] = (s, True)" "\<exists>k q e s'. gettoken b s = (k, q, e, s') \<and> here b s' ts"
  using peek_sym [OF assms(1), of "[c]"] here_gettoken [OF assms(1)] here_next(2) [OF assms(1)] assms(2) NUL_not_special(2)
  by (auto simp: settled_def)

lemma parse_printed:
  "here b s (exec_toks x @ ts) \<Longrightarrow> before ts [''|'', '')'', ''&'', '';''] \<Longrightarrow> exec_ok x \<Longrightarrow>
    rlen (exec_toks x @ ts) \<le> k \<Longrightarrow>
    \<exists>c s'. parseexec (parseline k) b s = Inr (c, s') \<and> here b s' ts \<and> made b c (exec_tree x)"
  "here b s (pipe_toks p @ ts) \<Longrightarrow> before ts ['')'', ''&'', '';''] \<Longrightarrow> pipe_ok p \<Longrightarrow>
    rlen (pipe_toks p @ ts) < n \<Longrightarrow> rlen (pipe_toks p @ ts) \<le> k \<Longrightarrow>
    \<exists>c s'. parsepipe n (parseline k) b s = Inr (c, s') \<and> here b s' ts \<and> made b c (pipe_tree p)"
  "here b s (line_toks l @ ts) \<Longrightarrow> before ts ['')''] \<Longrightarrow> line_ok l \<Longrightarrow>
    rlen (line_toks l @ ts) < k \<Longrightarrow>
    \<exists>c s'. parseline k b s = Inr (c, s') \<and> here b s' ts \<and> made b c (line_tree l)"
proof (induction x and p and l arbitrary: s ts k and s ts n k and s ts k)
  case (Simple "is")
  let ?ts = "concat (map item_toks is) @ ts"
  have h: "here b s ?ts" using Simple.prems(1) by simp
  have np: "?ts \<noteq> [] \<Longrightarrow> hd (hd ?ts) \<noteq> CHR ''(''"
  proof (cases "is")
    case Nil
    then show "?ts \<noteq> [] \<Longrightarrow> hd (hd ?ts) \<noteq> CHR ''(''" using Simple.prems(2) by (auto simp: before_def)
  next
    case (Cons i is1)
    then show "hd (hd ?ts) \<noteq> CHR ''(''"
      using Simple.prems(3) rtok_hd_neq word_hd by (cases i) (auto simp: symbols_def)
  qed
  have p: "peek b s ''('' = (settled b s ?ts, False)" using peek_sym [OF h, of "''(''"] np by (auto simp: NUL_def)
  have lok: "list_all item_ok is" using Simple.prems(3) by simp
  obtain c' s' is2 rs where R: "parseredirs (EXEC []) b (settled b s ?ts) = Inr (c', s')"
      "here b s' (concat (map item_toks is2) @ ts)" "made b c' (foldl item_step (EXEC []) (map (\<lambda>(k, f). Red k f) rs))"
      "is = map (\<lambda>(k, f). Red k f) rs @ is2" "is2 = [] \<or> is_arg (hd is2)"
    by (rule parse_leading [OF here_settled [OF h] lok Simple.prems(2) made_cmds(1)])
  have "0 + length (filter is_arg is2) < MAXARGS" using Simple.prems(3) R(4) red_items(4) [of rs] by simp
  moreover have "list_all item_ok is2" using Simple.prems(3) R(4) by simp
  ultimately show ?case
    using parse_args [OF R(2) _ R(5) Simple.prems(2) _ R(3)] R(1,4) p by (simp add: parseexec_def)
next
  case (Group l rs)
  let ?R = "rtoks rs @ ts"
  have rt: "concat (map (\<lambda>(k, f). [rtok k, f]) rs) = rtoks rs" by (simp add: rtoks_def)
  have h: "here b s ([CHR ''(''] # line_toks l @ [CHR '')''] # ?R)" using Group.prems(1) by (simp add: rt)
  obtain a q e u where g: "gettoken b s = (a, q, e, u)" "here b u (line_toks l @ [CHR '')''] # ?R)"
    using step_sym(2) [OF h] by (auto simp: symbols_def)
  have p: "peek b s ''('' = (s, True)" using step_sym(1) [OF h] by (simp add: symbols_def)
  have "rlen (line_toks l @ [CHR '')''] # ?R) < k" using Group.prems(4) by (simp add: rt)
  moreover have "line_ok l" "before ([CHR '')''] # ?R) ['')'']" using Group.prems(3) by (simp_all add: before_def)
  ultimately obtain c v where L: "parseline k b u = Inr (c, v)" "here b v ([CHR '')''] # ?R)" "made b c (line_tree l)"
    using Group.IH [OF g(2)] by blast
  obtain a' q' e' w where g2: "gettoken b v = (a', q', e', w)" "here b w ?R"
    using step_sym(2) [OF L(2)] by (auto simp: symbols_def)
  have p2: "peek b v '')'' = (v, True)" using step_sym(1) [OF L(2)] by (simp add: symbols_def)
  have "ts = [] \<or> hd (hd ts) \<notin> {CHR ''<'', CHR ''>''}" using Group.prems(2) by (auto simp: before_def)
  then have "\<exists>c' s'. parseredirs c b w = Inr (c', s') \<and> here b s' ts \<and> made b c' (foldl (\<lambda>c (k, f). redir k c f) (line_tree l) rs)"
    using parse_redirs [OF g2(2) _ _ L(3)] Group.prems(3) by simp
  then show ?case using p g(1) L(1) p2 g2(1) by (simp add: parseexec_def parseblock_def)
next
  case (One x)
  obtain j where n: "n = Suc j" using One.prems(4) by (cases n) auto
  have "before ts [''|'', '')'', ''&'', '';'']" using One.prems(2) by (auto simp: before_def)
  then obtain c u where X: "parseexec (parseline k) b s = Inr (c, u)" "here b u ts" "made b c (exec_tree x)"
    using One.IH [of s ts k] One.prems by auto
  have "peek b u ''|'' = (settled b u ts, False)" using peek_sym [OF X(2), of "''|''"] One.prems(2) by (auto simp: before_def NUL_def)
  then show ?case using X here_settled by (simp add: n parsepipe.simps(2))
next
  case (Piped x p)
  obtain j where n: "n = Suc j" using Piped.prems(4) by (cases n) auto
  have h: "here b s (exec_toks x @ ''|'' # pipe_toks p @ ts)" using Piped.prems(1) by simp
  obtain c u where X: "parseexec (parseline k) b s = Inr (c, u)" "here b u ([CHR ''|''] # pipe_toks p @ ts)" "made b c (exec_tree x)"
    using Piped.IH(1) [OF h, of k] Piped.prems by (auto simp: before_def)
  obtain a q e v where g: "gettoken b u = (a, q, e, v)" "here b v (pipe_toks p @ ts)"
    using step_sym(2) [OF X(2)] by (auto simp: symbols_def)
  have pk: "peek b u ''|'' = (u, True)" using step_sym(1) [OF X(2)] by (simp add: symbols_def)
  obtain d w where P: "parsepipe j (parseline k) b v = Inr (d, w)" "here b w ts" "made b d (pipe_tree p)"
    using Piped.IH(2) [OF g(2) Piped.prems(2), of j k] Piped.prems n by auto
  then show ?case using X(1,3) pk g(1) made_cmds(2) by (simp add: n parsepipe.simps(2))
next
  case (Line p n)
  obtain j where k: "k = Suc j" using Line.prems(4) by (cases k) auto
  have h: "here b s (pipe_toks p @ replicate n ''&'' @ ts)" using Line.prems(1) by simp
  have "before (replicate n ''&'' @ ts) ['')'', ''&'', '';'']" using Line.prems(2) by (cases n) (auto simp: before_def)
  then obtain c u where X: "parsepipe (Suc j) (parseline j) b s = Inr (c, u)" "here b u (replicate n ''&'' @ ts)" "made b c (pipe_tree p)"
    using Line.IH [OF h, of "Suc j" j] Line.prems k by auto
  have "before ts ['';'', '')'']" using Line.prems(2) by (auto simp: before_def)
  then obtain d v where B: "parsebacks c b u = (d, v)" "here b v ts" "made b d ((BACK ^^ n) (pipe_tree p))"
    using parse_backs [OF X(2) _ X(3)] by blast
  have "peek b v '';'' = (settled b v ts, False)" using peek_sym [OF B(2), of "'';''"] Line.prems(2) by (auto simp: before_def NUL_def)
  then show ?case using X(1) B here_settled by (simp add: k)
next
  case (Seq p n l)
  obtain j where k: "k = Suc j" using Seq.prems(4) by (cases k) auto
  let ?r = "[CHR '';''] # line_toks l @ ts"
  have h: "here b s (pipe_toks p @ replicate n ''&'' @ ?r)" using Seq.prems(1) by simp
  have "before (replicate n ''&'' @ ?r) ['')'', ''&'', '';'']" by (cases n) (auto simp: before_def)
  then obtain c u where X: "parsepipe (Suc j) (parseline j) b s = Inr (c, u)" "here b u (replicate n ''&'' @ ?r)" "made b c (pipe_tree p)"
    using Seq.IH(1) [OF h, of "Suc j" j] Seq.prems k by auto
  have "before ?r ['';'', '')'']" by (simp add: before_def)
  then obtain d v where B: "parsebacks c b u = (d, v)" "here b v ?r" "made b d ((BACK ^^ n) (pipe_tree p))"
    using parse_backs [OF X(2) _ X(3)] by blast
  obtain a q e w where g: "gettoken b v = (a, q, e, w)" "here b w (line_toks l @ ts)"
    using step_sym(2) [OF B(2)] by (auto simp: symbols_def)
  have pk: "peek b v '';'' = (v, True)" using step_sym(1) [OF B(2)] by (simp add: symbols_def)
  obtain m z where L: "parseline j b w = Inr (m, z)" "here b z ts" "made b m (line_tree l)"
    using Seq.IH(2) [OF g(2) Seq.prems(2), of j] Seq.prems k by auto
  then show ?case using X(1) B(1,3) pk g(1) made_cmds(2) by (simp add: k)
qed

section \<open>Terminating the strings\<close>

lemma put_NUL_nth: "j < length b \<Longrightarrow> b[e := NUL] ! j = (if j = e then NUL else b ! j)"
  by (cases "e < length b") (auto simp: nth_list_update list_update_beyond)

lemma zero_args_nth:
  "length (zero_args ts b) = length b"
  "j < length b \<Longrightarrow> zero_args ts b ! j = (if j \<in> snd ` set ts then NUL else b ! j)"
  by (induction ts arbitrary: b) (auto simp: put_NUL_nth)

lemma nulterminate_length [simp]: "length (nulterminate c b) = length b"
  by (induction c arbitrary: b) (simp_all add: zero_args_nth)

lemma nulterminate_nth:
  "j < length b \<Longrightarrow> nulterminate c b ! j = (if j \<in> snd ` set_cmd c then NUL else b ! j)"
  by (induction c arbitrary: b) (auto simp: zero_args_nth put_NUL_nth)

lemma sym_valid:
  "tok_valid ''|''" "tok_valid ''(''" "tok_valid '')''" "tok_valid '';''" "tok_valid ''&''" "tok_valid (rtok k)"
  by (simp_all add: tok_valid_def sym_toks_def) (cases k; simp)

lemma word_valid: "word_ok w \<Longrightarrow> tok_valid w"
  by (simp add: tok_valid_def)

lemma item_valid: "item_ok i \<Longrightarrow> \<forall>t \<in> set (item_toks i). tok_valid t"
  by (cases i) (simp_all add: sym_valid word_valid)

lemma toks_valid:
  "exec_ok x \<Longrightarrow> \<forall>t \<in> set (exec_toks x). tok_valid t"
  "pipe_ok p \<Longrightarrow> \<forall>t \<in> set (pipe_toks p). tok_valid t"
  "line_ok l \<Longrightarrow> \<forall>t \<in> set (line_toks l). tok_valid t"
proof (induction x and p and l)
  case (Simple "is")
  then show ?case using item_valid by (auto simp: list_all_iff)
next
  case (Group l rs)
  then show ?case by (auto simp: sym_valid word_valid list_all_iff)
qed (auto simp: sym_valid)

lemma text_nth:
  assumes "word_at b t" "fst t \<le> j" "j < snd t"
  shows "word_char (b ! j)" "text_of b t ! (j - fst t) = b ! j"
proof -
  have "j - fst t < length (text_of b t)" using assms by (auto simp: word_at_def text_of_def)
  moreover show e: "text_of b t ! (j - fst t) = b ! j" using assms by (auto simp: text_of_def word_at_def)
  ultimately show "word_char (b ! j)" using assms(1) unfolding word_at_def by (metis nth_mem)
qed

lemma nulterminate_text:
  assumes w: "\<forall>t \<in> set_cmd c. word_at b t" and t: "t \<in> set_cmd c"
  shows "cstring (nulterminate c b) (fst t) = text_of b t"
proof -
  let ?n = "nulterminate c b"
  have wt: "word_at b t" using w t by blast
  have lt: "fst t < snd t" "snd t < length b" using wt by (auto simp: word_at_def)
  have z: "\<not> word_char (b ! e)" if "e \<in> snd ` set_cmd c" for e
    using that w by (auto simp: word_at_def word_char_def)
  have keep: "?n ! j = b ! j \<and> word_char (b ! j)" if "fst t \<le> j" "j < snd t" for j
    using nulterminate_nth [of j b c] z [of j] text_nth(1) [OF wt that] that lt by auto
  have n: "?n ! snd t = NUL" using nulterminate_nth [of "snd t" b c] t lt by auto
  have l: "length ?n = length b" by simp
  let ?w = "text_of b t"
  have lw: "length ?w = snd t - fst t" using lt by (simp add: text_of_def)
  have "take (snd t - fst t) (drop (fst t) ?n) = ?w"
    by (rule nth_equalityI) (use lw l lt keep in \<open>auto simp: text_of_def\<close>)
  then have "drop (fst t) ?n = ?w @ drop (snd t) ?n"
    using lt append_take_drop_id [of "snd t - fst t" "drop (fst t) ?n"] by simp
  moreover have "drop (snd t) ?n = NUL # drop (Suc (snd t)) ?n"
    using n lt l by (metis Cons_nth_drop_Suc)
  moreover have "\<forall>x \<in> set ?w. x \<noteq> NUL" using wt by (auto simp: word_at_def word_char_def)
  ultimately show ?thesis by (simp add: cstring_def takeWhile_append)
qed

section \<open>Properties\<close>

text \<open>C20: the shell's parser returns on every line, and whatever it accepts is safe to use:
  every argument and file name it points to is a non-empty part of the line, so
  \<open>nulterminate\<close> writes only into the line and its terminating zero, and no command has more
  than 9 arguments, so the null pointer at the end fits into \<open>argv\<close>.\<close>
theorem parser_terminates_within_line:
  "(\<exists>m. parsecmd b = Inl (Panic m)) \<or>
   (\<exists>c b'. parsecmd b = Inr (c, b') \<and> length b' = length b \<and> max_args c < MAXARGS \<and>
      (\<forall>(q, eq) \<in> set_cmd c. q < eq \<and> eq \<le> length b))"
proof -
  have o: "outcome b 0 (parseline (length b + 1) b 0)" by (rule parseline_outcome) simp
  show ?thesis
  proof (cases "parseline (length b + 1) b 0")
    case (Inl e)
    then show ?thesis using o by (cases e) (auto simp: outcome_def parsecmd_def)
  next
    case (Inr ct)
    obtain c t where ct: "ct = (c, t)" by fastforce
    have "good b 9 c" using o Inr ct by (simp add: outcome_Inr)
    then show ?thesis
      using Inr ct by (auto simp: parsecmd_def good_def tok_ok_def MAXARGS_def split: prod.split)
  qed
qed

theorem parser_terminates_within_line_witness:
  "\<exists>c b'. parsecmd ''ls -l|wc >> out'' = Inr (c, b') \<and> length b' = 15 \<and> max_args c < MAXARGS"
proof -
  have "\<not> isl (parsecmd ''ls -l|wc >> out'')" by code_simp
  then show ?thesis using parser_terminates_within_line [of "''ls -l|wc >> out''"] by auto
qed

text \<open>C21: the parser inverts the printing of command lines: a line made of words,
  redirections, pipes, \<open>&\<close>, \<open>;\<close> and parentheses, with its tokens separated by spaces and
  white space at the end, is parsed into the tree it denotes, and after \<open>nulterminate\<close> every
  pointer of the tree is the C string of its word.\<close>
theorem parser_inverts_printer:
  assumes "line_ok l" "set tail \<subseteq> set whitespace"
  shows "\<exists>c b'. parsecmd (render (line_toks l) @ tail) = Inr (c, b') \<and>
    map_cmd (\<lambda>t. cstring b' (fst t)) c = line_tree l"
proof -
  let ?b = "render (line_toks l) @ tail"
  have h: "here ?b 0 (line_toks l @ [])" using assms(2) toks_valid(3) [OF assms(1)] by (auto simp: here_def)
  have "rlen (line_toks l @ []) < length ?b + 1" by (simp add: rlen_def)
  then obtain c s where P: "parseline (length ?b + 1) ?b 0 = Inr (c, s)" "here ?b s []" "made ?b c (line_tree l)"
    using parse_printed(3) [OF h before_end assms(1)] by blast
  have "peek ?b s [] = (length ?b, False)" by (rule here_peek(2) [OF P(2)])
  then have "parsecmd ?b = Inr (c, nulterminate c ?b)" using P(1) by (simp add: parsecmd_def)
  moreover have "map_cmd (\<lambda>t. cstring (nulterminate c ?b) (fst t)) c = map_cmd (text_of ?b) c"
    by (rule cmd.map_cong0) (rule nulterminate_text, use P(3) in \<open>auto simp: made_def\<close>)
  ultimately show ?thesis using P(3) by (auto simp: made_def)
qed

theorem parser_inverts_printer_witness:
  "\<exists>c b'. parsecmd ''( ls -l | wc > out & ) ; echo hi >> log '' = Inr (c, b') \<and>
     map_cmd (\<lambda>t. cstring b' (fst t)) c =
       LIST (BACK (PIPE (EXEC [''ls'', ''-l'']) (REDIR (EXEC [''wc'']) ''out'' 0x601 1)))
            (REDIR (EXEC [''echo'', ''hi'']) ''log'' 0x201 1)"
proof -
  let ?l = "Seq (One (Group (Line (Piped (Simple [Arg ''ls'', Arg ''-l'']) (One (Simple [Arg ''wc'', Red Rout ''out'']))) 1) [])) 0
    (Line (One (Simple [Arg ''echo'', Arg ''hi'', Red Rapp ''log''])) 0)"
  have w: "list_all word_ok [''ls'', ''-l'', ''wc'', ''out'', ''echo'', ''hi'', ''log'']" by code_simp
  then have ok: "line_ok ?l" by (simp add: MAXARGS_def)
  show ?thesis
    using parser_inverts_printer [OF ok, of "[]"]
    by (simp add: render_def O_WRONLY_def O_CREATE_def O_TRUNC_def)
qed

end
