(* ===== verification/ShLine.thy ===== *)
theory ShLine
  imports ShProps
begin

text \<open>
  The rest of \<open>user/sh.c\<close>: reading a line with completion and history, the command loop of
  \<open>main\<close>, and the system calls \<open>runcmd\<close> makes for a command.  What the shell reads is the list of
  the characters that \<open>read(0, &c, 1)\<close> returns; what it writes to the console is a string.
\<close>

section \<open>Strings of the user library\<close>

definition cstr :: "string \<Rightarrow> string" where
  \<comment> \<open>the C string in a buffer\<close>
  "cstr b = takeWhile (\<lambda>c. c \<noteq> NUL) b"

fun strrchr_from :: "string \<Rightarrow> char \<Rightarrow> nat \<Rightarrow> nat option \<Rightarrow> nat option" where
  "strrchr_from [] c i r = r"
| "strrchr_from (x # s) c i r = strrchr_from s c (Suc i) (if x = c then Some i else r)"

definition ustrrchr :: "string \<Rightarrow> char \<Rightarrow> nat option" where
  \<comment> \<open>\<open>strrchr\<close> for a character other than the terminator\<close>
  "ustrrchr s c = strrchr_from s c 0 None"

definition ustrncmp_eq :: "string \<Rightarrow> string \<Rightarrow> nat \<Rightarrow> bool" where
  \<comment> \<open>\<open>!strncmp(p, q, n)\<close>\<close>
  "ustrncmp_eq p q n \<longleftrightarrow> take n (p @ [NUL]) = take n (q @ [NUL])"

section \<open>Completion\<close>

definition knowncommands :: "string list" where
  "knowncommands = [''ls'', ''cat'', ''echo'', ''history'', ''cd'', ''wait'', ''sleep'', ''pingpong'', ''primes'', ''find'',
    ''xargs'', ''uptime'', ''wc'', ''zombie'', ''grind'', ''usertests'', ''stressfs'', ''sh'', ''rm'', ''mkdir'', ''ln'',
    ''kill'', ''init'', ''grep'', ''forktest'', ''trace'', ''sysinfo'', ''sysinfotest'', ''nulltest'', ''dirtypages'',
    ''suppgtest'', ''vmprint'', ''pgtbltest'', ''alarmtest'', ''bttest'', ''threadtest'', ''kthreadtest'', ''uthreadtest'',
    ''udpserver'', ''tcpclient'', ''wget'', ''tcpechoserver'', ''ping'', ''symlinktest'', ''signaltest'', ''kalloctest'',
    ''bcachetest'', ''bigfile'', ''nettests'', ''mmaptest'', ''swaptest'', ''procfstest'']"

fun common_longest_prefix :: "string \<Rightarrow> string \<Rightarrow> string" where
  "common_longest_prefix (a # as) (b # bs) = (if a = b then a # common_longest_prefix as bs else [])"
| "common_longest_prefix as bs = []"

fun matches :: "string list \<Rightarrow> string \<Rightarrow> nat \<Rightarrow> string \<Rightarrow> string \<Rightarrow> nat \<times> string \<times> string" where
  \<comment> \<open>the loop over the candidates: \<open>matchcount\<close>, \<open>match\<close> and the outp\<close>
  "matches [] pre cnt m out = (cnt, m, out)"
| "matches (n # ns) pre cnt m out =
     (if \<not> ustrncmp_eq n pre (length pre) then matches ns pre cnt m out
      else if cnt > 0
      then matches ns pre (Suc cnt) (common_longest_prefix m n)
             (out @ (if cnt = 1 then [NL] @ m else []) @ [NL] @ n)
      else matches ns pre 1 n out)"

definition TAB :: char where "TAB = CHR 0x09"

definition completecmd :: "(nat \<times> string) list option \<Rightarrow> string \<Rightarrow> nat \<times> string" where
  \<comment> \<open>\<open>ents\<close>: the entries of the current directory, \<open>None\<close> when it cannot be opened;
      the characters consumed and what is written\<close>
  "completecmd ents buf =
     (if buf = [] then (0, [])
      else
        (let fileidx = map_option (\<lambda>i. drop (Suc i) buf) (ustrrchr buf CHR '' '');
             (cnt, m, out) =
               (case fileidx of
                  Some f \<Rightarrow> (case ents of None \<Rightarrow> (0, [], [])
                             | Some es \<Rightarrow> matches (map snd (filter (\<lambda>e. fst e \<noteq> 0) es)) f 0 [] [])
                | None \<Rightarrow> matches knowncommands buf 0 [] []);
             rest = (case fileidx of Some f \<Rightarrow> drop (length f) m | None \<Rightarrow> drop (length buf) m);
             res = (if cnt = 1 then [TAB] @ buf @ [TAB] @ rest
                    else if cnt > 1 then [TAB, TAB] @ buf @ rest
                    else [TAB] @ buf);
             out = (if cnt > 1 then out @ [NL] @ ''$ '' else out)
         in (length buf, out @ res)))"

section \<open>History and line input\<close>

definition HISTSIZE :: nat where "HISTSIZE = 21"

record shell =
  history :: "nat \<Rightarrow> string"
  historySt :: nat
  historyEnd :: nat
  historyPos :: nat
  input :: string
  outp :: string

definition write_shell_stdin :: "string \<Rightarrow> shell \<Rightarrow> shell" where
  "write_shell_stdin b s = s\<lparr>outp := outp s @ [TAB, TAB] @ b\<rparr>"

definition show_history :: "shell \<Rightarrow> shell option" where
  \<comment> \<open>\<open>write_shell_stdin(history[historyPos])\<close>; \<open>None\<close>: outside the array\<close>
  "show_history s =
     (if historyPos s \<ge> HISTSIZE then None else Some (write_shell_stdin (history s (historyPos s)) s))"

definition history_up :: "shell \<Rightarrow> shell option" where
  "history_up s =
     show_history (if historyPos s > historySt s then s\<lparr>historyPos := historyPos s - 1\<rparr> else s)"

definition history_down :: "shell \<Rightarrow> shell option" where
  "history_down s =
     show_history (if historyPos s < historyEnd s then s\<lparr>historyPos := historyPos s + 1\<rparr> else s)"

definition read1 :: "shell \<Rightarrow> char \<times> shell" where
  \<comment> \<open>\<open>char d = 0; read(0, &d, 1)\<close>\<close>
  "read1 s = (case input s of [] \<Rightarrow> (NUL, s) | c # r \<Rightarrow> (c, s\<lparr>input := r\<rparr>))"

definition NBUF_SH :: nat where "NBUF_SH = 100"

definition ESC :: char where "ESC = CHR 0x1B"

definition escape :: "shell \<Rightarrow> shell option" where
  "escape s =
     (let (d, s) = read1 s;
          (e, s) = read1 s
      in if d = CHR ''['' \<and> e = CHR ''A'' then history_up s
         else if d = CHR ''['' \<and> e = CHR ''B'' then history_down s
         else Some s)"

lemma read1_input: "length (input (snd (read1 s))) \<le> length (input s)"
  by (auto simp: read1_def split: list.split)

lemma show_history_input: "show_history s = Some t \<Longrightarrow> input t = input s"
  by (auto simp: show_history_def write_shell_stdin_def split: if_splits)

lemma escape_input: "escape s = Some t \<Longrightarrow> length (input t) \<le> length (input s)"
  using read1_input [of s] read1_input [of "snd (read1 s)"]
  by (auto simp: escape_def history_up_def history_down_def split: prod.splits if_splits dest!: show_history_input)

function getline :: "(nat \<times> string) list option \<Rightarrow> string \<Rightarrow> nat \<Rightarrow> shell \<Rightarrow> (string \<times> nat \<times> shell) option" where
  \<comment> \<open>the loop of \<open>getcmd\<close>; \<open>buf\<close> is the array\<close>
  "getline ents buf idx s =
     (if \<not> idx + 1 < NBUF_SH then Some (buf, idx, s)
      else case input s of [] \<Rightarrow> Some (buf, idx, s)
      | c # r \<Rightarrow>
          let s = s\<lparr>input := r\<rparr> in
          if c = TAB
          then (let buf = buf[idx := NUL];
                    (n, out) = completecmd ents (cstr buf)
                in getline ents buf (idx - n) (s\<lparr>outp := outp s @ out\<rparr>))
          else if c = ESC
          then (case escape s of None \<Rightarrow> None | Some s \<Rightarrow> getline ents buf idx s)
          else (let buf = buf[idx := c] in
                if c = NL \<or> c = CHR 0x0D then Some (buf, Suc idx, s)
                else getline ents buf (Suc idx) s))"
  by auto
termination
  by (relation "measure (\<lambda>(_, _, _, s). length (input s))") (auto dest!: escape_input)

declare getline.simps [simp del]

definition getcmd :: "bool \<Rightarrow> (nat \<times> string) list option \<Rightarrow> shell \<Rightarrow> (string option \<times> shell) option" where
  \<comment> \<open>\<open>None\<close> inside: end of file; \<open>tty\<close>: \<open>isatty(0)\<close>\<close>
  "getcmd tty ents s =
     (let s = (if tty then s\<lparr>outp := outp s @ ''$ ''\<rparr> else s) in
      case getline ents (replicate NBUF_SH NUL) 0 s of
        None \<Rightarrow> None
      | Some (buf, idx, s) \<Rightarrow>
          let buf = cstr (buf[idx := NUL]) in
          Some (if buf = [] then None else Some buf, s))"

definition add_history :: "string \<Rightarrow> shell \<Rightarrow> shell" where
  "add_history cmd s =
     (let size = int (historyEnd s) - int (historySt s);
          size = (if size < 0 then size + int HISTSIZE else size);
          s = s\<lparr>history := (history s)(historyEnd s := butlast cmd)\<rparr>;
          s = s\<lparr>historyEnd := historyEnd s + 1\<rparr>;
          s = s\<lparr>historyPos := historyEnd s\<rparr>;
          s = (if historyEnd s = HISTSIZE then s\<lparr>historyEnd := 0\<rparr> else s)
      in if size = int HISTSIZE - 1
         then (let s = s\<lparr>historySt := historySt s + 1\<rparr>
               in if historySt s = HISTSIZE then s\<lparr>historySt := 0\<rparr> else s)
         else s)"

section \<open>The command loop\<close>

datatype action =
    Chdir string
  | WaitAll
  | ShowHistory
  | Run "string cmd"
  | Leave string      \<comment> \<open>\<open>panic\<close>: the shell prints and exits\<close>

definition command_of :: "string \<Rightarrow> action" where
  "command_of buf =
     (if take 3 buf = ''cd '' then Chdir (drop 3 (butlast buf))
      else if buf = ''wait'' @ [NL] then WaitAll
      else if buf = ''history'' @ [NL] then ShowHistory
      else (case parsecmd buf of
              Inl (Panic m) \<Rightarrow> Leave m
            | Inl NoFuel \<Rightarrow> Leave []
            | Inr (c, b) \<Rightarrow> Run (map_cmd (\<lambda>t. cstring b (fst t)) c)))"

fun sh_loop :: "string list \<Rightarrow> action list" where
  \<comment> \<open>what \<open>main\<close> does for the lines that \<open>getcmd\<close> returns\<close>
  "sh_loop [] = []"
| "sh_loop (buf # bufs) =
     (case command_of buf of Leave m \<Rightarrow> [Leave m] | a \<Rightarrow> a # sh_loop bufs)"

section \<open>Running a command\<close>

datatype prog =
    Exit int
  | Exec "string list" prog                 \<comment> \<open>goes on when \<open>exec\<close> fails\<close>
  | Close int prog
  | Dup int prog
  | Open string int "bool \<Rightarrow> prog"          \<comment> \<open>whether it failed\<close>
  | PipeCall "(int \<times> int) option \<Rightarrow> prog"
  | Fork prog prog prog                     \<comment> \<open>the child, the parent, and \<open>panic\<close> when it fails\<close>
  | Wait prog
  | Print string prog

definition panic_sh :: "string \<Rightarrow> prog" where
  "panic_sh m = Print (m @ [NL]) (Exit 1)"

primrec runcmd :: "string cmd \<Rightarrow> prog" where
  "runcmd (EXEC argv) =
     (case argv of [] \<Rightarrow> Exit 1
      | a # as \<Rightarrow> Exec argv (Print (''exec '' @ a @ '' failed'' @ [NL]) (Exit 0)))"
| "runcmd (REDIR c f mode fd) =
     Close fd (Open f mode (\<lambda>failed.
       if failed then Print (''open '' @ f @ '' failed'' @ [NL]) (Exit 1) else runcmd c))"
| "runcmd (LIST l r) = Fork (runcmd l) (Wait (runcmd r)) (panic_sh ''fork'')"
| "runcmd (PIPE l r) =
     PipeCall (\<lambda>p. case p of None \<Rightarrow> panic_sh ''pipe''
       | Some (p0, p1) \<Rightarrow>
           Fork (Close 1 (Dup p1 (Close p0 (Close p1 (runcmd l)))))
             (Fork (Close 0 (Dup p0 (Close p0 (Close p1 (runcmd r)))))
                (Close p0 (Close p1 (Wait (Wait (Exit 0)))))
                (panic_sh ''fork''))
             (panic_sh ''fork''))"
| "runcmd (BACK c) = Fork (runcmd c) (Wait (Exit 0)) (panic_sh ''fork'')"

lemma add_history_end:
  "historyEnd s < HISTSIZE \<Longrightarrow>
    historyEnd (add_history cmd s) = (if historyEnd s = HISTSIZE - 1 then 0 else historyEnd s + 1)"
  by (auto simp: add_history_def Let_def HISTSIZE_def)

section \<open>Properties\<close>

text \<open>C22: when the ring of 21 history entries wraps around, \<open>add_history\<close> leaves
  \<open>historyPos\<close> one past the end of the array: the next arrow-down reads outside
  \<open>history\<close>, while at every other fill level the index stays inside.\<close>
theorem history_position_leaves_array:
  assumes "historyEnd s < HISTSIZE"
  shows "historyEnd (add_history cmd s) < HISTSIZE \<and> historyPos (add_history cmd s) = historyEnd s + 1 \<and>
    (history_down (add_history cmd s) = None \<longleftrightarrow> historyEnd s = HISTSIZE - 1)"
proof -
  have e: "historyEnd (add_history cmd s) < HISTSIZE" and p: "historyPos (add_history cmd s) = historyEnd s + 1"
    using assms by (auto simp: add_history_def Let_def HISTSIZE_def)
  note n = add_history_end [OF assms]
  have "history_down (add_history cmd s) = None \<longleftrightarrow> historyEnd s = HISTSIZE - 1"
    using assms by (auto simp: history_down_def show_history_def p n HISTSIZE_def)
  then show ?thesis using e p by simp
qed

theorem history_position_leaves_array_witness:
  "history_down ((add_history (''ls'' @ [NL]) ^^ 21)
     \<lparr>history = \<lambda>_. [], historySt = 0, historyEnd = 0, historyPos = 0, input = [], outp = []\<rparr>) = None"
proof -
  let ?s = "\<lparr>history = \<lambda>_. [], historySt = 0, historyEnd = 0, historyPos = 0, input = [], outp = []\<rparr>"
  let ?f = "add_history (''ls'' @ [NL])"
  have step: "historyEnd ((?f ^^ n) ?s) = n" if "n \<le> 20" for n
    using that by (induction n) (simp_all add: add_history_end HISTSIZE_def)
  let ?t = "(?f ^^ 20) ?s"
  have "historyEnd ?t = 20" by (rule step) simp
  then have "history_down (add_history (''ls'' @ [NL]) ?t) = None"
    using history_position_leaves_array [of ?t "''ls'' @ [NL]"] by (simp add: HISTSIZE_def)
  moreover have "(?f ^^ Suc 20) ?s = ?f ?t" by (simp only: funpow.simps comp_apply)
  moreover have "(21 :: nat) = Suc 20" by simp
  ultimately show ?thesis by metis
qed

end
