(* ===== verification/SysFile.thy ===== *)
theory SysFile
  imports ProcLife
begin

text \<open>
  The arguments of system calls, from \<open>kernel/syscall.c\<close>, and the file system calls of
  \<open>kernel/sysfile.c\<close> but \<open>sys_exec\<close>.  A handler returns the value of \<open>a0\<close>.  What the kernel
  cannot see from here is in the argument \<open>en\<close>: what other processes do during a sleep, the device
  switch, the sockets, and the contents of the arrays on a fresh stack frame.
\<close>

record 's env =
  en_world :: "'s \<Rightarrow> 's option"
  en_dv :: "nat \<Rightarrow> 's devops"
  en_so :: "'s sockops"
  en_stack :: bytes

definition MAXPATH :: nat where "MAXPATH = 128"
definition MAXSYMLINKDEPTH :: nat where "MAXSYMLINKDEPTH = 10"
definition KO_WRONLY :: int where "KO_WRONLY = 0x001"
definition KO_RDWR :: int where "KO_RDWR = 0x002"
definition KO_NOFOLLOW :: int where "KO_NOFOLLOW = 0x004"
definition KO_CREATE :: int where "KO_CREATE = 0x200"
definition KO_TRUNC :: int where "KO_TRUNC = 0x400"

section \<open>Arguments\<close>

definition argraw :: "nat \<Rightarrow> 'a kproc_scheme \<Rightarrow> u64 option" where
  "argraw n s = (if n \<le> 5 then Some (tf_a (trapframes s (ptrapframe (procs s (curp s)))) n) else panic ''argraw'')"

definition argaddr :: "nat \<Rightarrow> 'a kproc_scheme \<Rightarrow> u64 option" where
  "argaddr n s = argraw n s"

definition argint :: "nat \<Rightarrow> 'a kproc_scheme \<Rightarrow> int option" where
  "argint n s = map_option (\<lambda>a. sint (ucast a :: u32)) (argraw n s)"

definition fetchaddr :: "u64 \<Rightarrow> 'a kfile_scheme \<Rightarrow> (int \<times> u64 \<times> 'a kfile_scheme) option" where
  \<comment> \<open>the result and \<open>*ip\<close>\<close>
  "fetchaddr addr s =
     (let p = curp s; sz = ts_sz (tshareds s (ptshared (procs s p)))
      in if addr \<ge> sz \<or> addr + 8 > sz then Some (-1, 0, s)
         else do {
           (r, d, s) \<leftarrow> copyin vma_handle (ppagetable (procs s p)) (\<lambda>_. 0) 0 addr 8 s;
           Some (if r \<noteq> 0 then -1 else 0, ld64 d 0, s) })"

definition fetchstr :: "u64 \<Rightarrow> bytes \<Rightarrow> nat \<Rightarrow> 'a kfile_scheme \<Rightarrow> (int \<times> bytes \<times> 'a kfile_scheme) option" where
  \<comment> \<open>the result and the buffer\<close>
  "fetchstr addr buf mx s = do {
     (r, buf, s) \<leftarrow> copyinstr vma_handle (ppagetable (procs s (curp s))) buf 0 addr (of_nat mx) s;
     (if r < 0 then Some (-1, buf, s)
      else do { n \<leftarrow> strlen 0 buf; Some (int n, buf, s) }) }"

definition argstr :: "nat \<Rightarrow> bytes \<Rightarrow> nat \<Rightarrow> 'a kfile_scheme \<Rightarrow> (int \<times> bytes \<times> 'a kfile_scheme) option" where
  "argstr n buf mx s = do { addr \<leftarrow> argaddr n s; fetchstr addr buf mx s }"

definition argfd :: "nat \<Rightarrow> 'a kproc_scheme \<Rightarrow> (nat \<times> nat) option option" where
  \<comment> \<open>\<open>Some None\<close>: the call returns -1; else the descriptor and the file\<close>
  "argfd n s = do {
     fd \<leftarrow> argint n s;
     Some (if fd < 0 \<or> fd \<ge> int NOFILE then None
           else map_option (\<lambda>f. (nat fd, f)) (pofile (procs s (curp s)) (nat fd))) }"

definition cpath :: "bytes \<Rightarrow> u8 list option" where
  \<comment> \<open>the C string in a \<open>char[MAXPATH]\<close>; \<open>None\<close>: it runs past the end\<close>
  "cpath buf = do {
     n \<leftarrow> strlen 0 buf;
     (if n < MAXPATH then Some (map (\<lambda>i. buf (of_nat i)) [0..<n]) else None) }"

definition set_ofile :: "nat \<Rightarrow> nat option \<Rightarrow> 'a kproc_scheme \<Rightarrow> 'a kproc_scheme" where
  "set_ofile fd f s = set_proc (curp s) (\<lambda>x. x\<lparr>pofile := (pofile x)(fd := f)\<rparr>) s"

section \<open>Descriptors\<close>

fun free_fd :: "nat \<Rightarrow> nat \<Rightarrow> (nat \<Rightarrow> nat option) \<Rightarrow> nat option" where
  "free_fd 0 fd ofile = None"
| "free_fd (Suc k) fd ofile = (if ofile fd = None then Some fd else free_fd k (Suc fd) ofile)"

definition fdalloc :: "nat \<Rightarrow> 'a kproc_scheme \<Rightarrow> int \<times> 'a kproc_scheme" where
  "fdalloc f s =
     (case free_fd NOFILE 0 (pofile (procs s (curp s))) of
        Some fd \<Rightarrow> (int fd, set_ofile fd (Some f) s)
      | None \<Rightarrow> (-1, s))"

definition sys_dup :: "'a kfile_scheme \<Rightarrow> (int \<times> 'a kfile_scheme) option" where
  "sys_dup s = do {
     a \<leftarrow> argfd 0 s;
     (case a of None \<Rightarrow> Some (-1, s)
      | Some (_, f) \<Rightarrow>
          let (fd, s) = fdalloc f s
          in if fd < 0 then Some (-1, s)
             else do { (_, s) \<leftarrow> filedup f s; Some (fd, s) }) }"

definition sys_read :: "('a kfile_scheme) env \<Rightarrow> 'a kfile_scheme \<Rightarrow> (int \<times> 'a kfile_scheme) option" where
  "sys_read en s = do {
     p \<leftarrow> argaddr 1 s;
     n \<leftarrow> argint 2 s;
     a \<leftarrow> argfd 0 s;
     (case a of None \<Rightarrow> Some (-1, s)
      | Some (_, f) \<Rightarrow> fileread (en_world en) vma_handle (en_dv en) (en_so en) f p n s) }"

definition sys_write :: "('a kfile_scheme) env \<Rightarrow> 'a kfile_scheme \<Rightarrow> (int \<times> 'a kfile_scheme) option" where
  "sys_write en s = do {
     p \<leftarrow> argaddr 1 s;
     n \<leftarrow> argint 2 s;
     a \<leftarrow> argfd 0 s;
     (case a of None \<Rightarrow> Some (-1, s)
      | Some (_, f) \<Rightarrow> filewrite (en_world en) vma_handle (en_dv en) (en_so en) f p n s) }"

definition sys_close :: "('a kfile_scheme) env \<Rightarrow> 'a kfile_scheme \<Rightarrow> (int \<times> 'a kfile_scheme) option" where
  "sys_close en s = do {
     a \<leftarrow> argfd 0 s;
     (case a of None \<Rightarrow> Some (-1, s)
      | Some (fd, f) \<Rightarrow> do {
          s \<leftarrow> fileclose (en_so en) f (set_ofile fd None s);
          Some (0, s) }) }"

definition sys_fstat :: "('a kfile_scheme) env \<Rightarrow> 'a kfile_scheme \<Rightarrow> (int \<times> 'a kfile_scheme) option" where
  "sys_fstat en s = do {
     st \<leftarrow> argaddr 1 s;
     a \<leftarrow> argfd 0 s;
     (case a of None \<Rightarrow> Some (-1, s)
      | Some (_, f) \<Rightarrow> filestat vma_handle (en_dv en) f st s) }"

definition drop_pipe :: "('a kfile_scheme) env \<Rightarrow> nat \<Rightarrow> nat \<Rightarrow> 'a kfile_scheme \<Rightarrow> (int \<times> 'a kfile_scheme) option" where
  "drop_pipe en rfile wfile s = do {
     s \<leftarrow> fileclose (en_so en) rfile s;
     s \<leftarrow> fileclose (en_so en) wfile s;
     Some (-1, s) }"

definition pipe_fds :: "('a kfile_scheme) env \<Rightarrow> u64 \<Rightarrow> nat \<Rightarrow> nat \<Rightarrow> 'a kfile_scheme \<Rightarrow>
    (int \<times> 'a kfile_scheme) option" where
  \<comment> \<open>\<open>sys_pipe\<close> after \<open>pipealloc\<close>\<close>
  "pipe_fds en fdarray rfile wfile s =
     (let (fd0, s) = fdalloc rfile s;
          (fd1, s) = (if fd0 < 0 then (-1, s) else fdalloc wfile s)
      in if fd0 < 0 \<or> fd1 < 0
         then drop_pipe en rfile wfile (if 0 \<le> fd0 then set_ofile (nat fd0) None s else s)
         else do {
           (r, s) \<leftarrow> copyout vma_handle (ppagetable (procs s (curp s))) fdarray (st32 0 (of_int fd0) (\<lambda>_. 0)) 0 4 s;
           (r, s) \<leftarrow> (if r < 0 then Some (r, s)
                     else copyout vma_handle (ppagetable (procs s (curp s))) (fdarray + 4)
                            (st32 0 (of_int fd1) (\<lambda>_. 0)) 0 4 s);
           (if r < 0 then drop_pipe en rfile wfile (set_ofile (nat fd1) None (set_ofile (nat fd0) None s))
            else Some (0, s)) })"

definition sys_pipe :: "('a kfile_scheme) env \<Rightarrow> 'a kfile_scheme \<Rightarrow> (int \<times> 'a kfile_scheme) option" where
  "sys_pipe en s = do {
     fdarray \<leftarrow> argaddr 0 s;
     (r, rfile, wfile, s) \<leftarrow> pipealloc (en_so en) s;
     (if r < 0 then Some (-1, s)
      else (case (rfile, wfile) of
              (Some rfile, Some wfile) \<Rightarrow> pipe_fds en fdarray rfile wfile s
            | _ \<Rightarrow> None)) }"

section \<open>Links\<close>

definition end_fail :: "'a kfile_scheme \<Rightarrow> (int \<times> 'a kfile_scheme) option" where
  "end_fail s = do { s \<leftarrow> end_op s; Some (-1, s) }"

definition link_bad :: "nat \<Rightarrow> 'a kfile_scheme \<Rightarrow> (int \<times> 'a kfile_scheme) option" where
  \<comment> \<open>the label \<open>bad\<close> of \<open>sys_link\<close>\<close>
  "link_bad ip s = do {
     s \<leftarrow> ilock ip s;
     let s = set_inode ip (\<lambda>i. i\<lparr>i_nlink := i_nlink i - 1\<rparr>) s;
     s \<leftarrow> iupdate ip s;
     s \<leftarrow> iunlockput ip s;
     end_fail s }"

definition sys_link :: "('a kfile_scheme) env \<Rightarrow> 'a kfile_scheme \<Rightarrow> (int \<times> 'a kfile_scheme) option" where
  "sys_link en s = do {
     (r, old, s) \<leftarrow> argstr 0 (en_stack en) MAXPATH s;
     (r, new, s) \<leftarrow> (if r < 0 then Some (r, en_stack en, s) else argstr 1 (en_stack en) MAXPATH s);
     (if r < 0 then Some (-1, s)
      else do {
        s \<leftarrow> begin_op s;
        path \<leftarrow> cpath old;
        (ip, s) \<leftarrow> namei (en_dv en) path s;
        (case ip of None \<Rightarrow> end_fail s
         | Some ip \<Rightarrow> do {
             s \<leftarrow> ilock ip s;
             (if i_type (itable s ip) = T_DIR
              then do { s \<leftarrow> iunlockput ip s; end_fail s }
              else do {
                let s = set_inode ip (\<lambda>i. i\<lparr>i_nlink := i_nlink i + 1\<rparr>) s;
                s \<leftarrow> iupdate ip s;
                s \<leftarrow> iunlock ip s;
                path \<leftarrow> cpath new;
                (dp, name, s) \<leftarrow> nameiparent (en_dv en) path (en_stack en) s;
                (case dp of None \<Rightarrow> link_bad ip s
                 | Some dp \<Rightarrow> do {
                     s \<leftarrow> ilock dp s;
                     (r, s) \<leftarrow> (if i_dev (itable s dp) \<noteq> i_dev (itable s ip) then Some (-1, s)
                               else dirlink (en_dv en) dp name (i_inum (itable s ip)) s);
                     (if r < 0
                      then do { s \<leftarrow> iunlockput dp s; link_bad ip s }
                      else do {
                        s \<leftarrow> iunlockput dp s;
                        s \<leftarrow> iput ip s;
                        s \<leftarrow> end_op s;
                        Some (0, s) }) }) }) }) }) }"

partial_function (option) isdirempty_loop :: "nat \<Rightarrow> u32 \<Rightarrow> 'a fsst_scheme \<Rightarrow> (bool \<times> 'a fsst_scheme) option" where
  "isdirempty_loop dp off s =
     (if \<not> off < i_size (itable s dp) then Some (True, s)
      else do {
        (r, s) \<leftarrow> readi put_dirent dp off 16 s;
        (if r \<noteq> 16 then panic ''isdirempty: readi''
         else if de_inum (dirent_buf s) \<noteq> 0 then Some (False, s)
         else isdirempty_loop dp (off + 16) s) })"

definition isdirempty :: "nat \<Rightarrow> 'a fsst_scheme \<Rightarrow> (bool \<times> 'a fsst_scheme) option" where
  "isdirempty dp s = isdirempty_loop dp 32 s"

definition unlink_bad :: "nat \<Rightarrow> 'a kfile_scheme \<Rightarrow> (int \<times> 'a kfile_scheme) option" where
  "unlink_bad dp s = do { s \<leftarrow> iunlockput dp s; end_fail s }"

definition name_bytes :: "u8 list \<Rightarrow> bytes" where
  \<comment> \<open>a string constant\<close>
  "name_bytes cs = st_list 0 cs (\<lambda>_. 0)"

definition DOT :: bytes where "DOT = name_bytes [46]"
definition DOTDOT :: bytes where "DOTDOT = name_bytes [46, 46]"

definition sys_unlink :: "('a kfile_scheme) env \<Rightarrow> 'a kfile_scheme \<Rightarrow> (int \<times> 'a kfile_scheme) option" where
  "sys_unlink en s = do {
     (r, buf, s) \<leftarrow> argstr 0 (en_stack en) MAXPATH s;
     (if r < 0 then Some (-1, s)
      else do {
        s \<leftarrow> begin_op s;
        path \<leftarrow> cpath buf;
        (dp, name, s) \<leftarrow> nameiparent (en_dv en) path (en_stack en) s;
        (case dp of None \<Rightarrow> end_fail s
         | Some dp \<Rightarrow> do {
             s \<leftarrow> ilock dp s;
             (if namecmp name DOT = 0 \<or> namecmp name DOTDOT = 0 then unlink_bad dp s
              else do {
                (e, s) \<leftarrow> dirlookup (en_dv en) dp name s;
                (case e of None \<Rightarrow> unlink_bad dp s
                 | Some (ip, off) \<Rightarrow> do {
                     s \<leftarrow> ilock ip s;
                     (if sint (i_nlink (itable s ip)) < 1 then panic ''unlink: nlink < 1''
                      else do {
                        (empty, s) \<leftarrow> (if i_type (itable s ip) = T_DIR then isdirempty ip s else Some (True, s));
                        (if \<not> empty then do { s \<leftarrow> iunlockput ip s; unlink_bad dp s }
                         else do {
                           let s = s\<lparr>dirent_buf := mem_set 0 0 16 (dirent_buf s)\<rparr>;
                           (r, s) \<leftarrow> writei get_dirent dp off 16 s;
                           (if r \<noteq> 16 then panic ''unlink: writei''
                            else do {
                              s \<leftarrow> (if i_type (itable s ip) = T_DIR
                                    then iupdate dp (set_inode dp (\<lambda>i. i\<lparr>i_nlink := i_nlink i - 1\<rparr>) s)
                                    else Some s);
                              s \<leftarrow> iunlockput dp s;
                              let s = set_inode ip (\<lambda>i. i\<lparr>i_nlink := i_nlink i - 1\<rparr>) s;
                              s \<leftarrow> iupdate ip s;
                              s \<leftarrow> iunlockput ip s;
                              s \<leftarrow> end_op s;
                              Some (0, s) }) }) }) }) }) }) }) }"

section \<open>Creating and opening\<close>

definition create_fail :: "nat \<Rightarrow> nat \<Rightarrow> 'a kfile_scheme \<Rightarrow> (nat option \<times> 'a kfile_scheme) option" where
  \<comment> \<open>the label \<open>fail\<close> of \<open>create\<close>\<close>
  "create_fail ip dp s = do {
     s \<leftarrow> iupdate ip (set_inode ip (\<lambda>i. i\<lparr>i_nlink := 0\<rparr>) s);
     s \<leftarrow> iunlockput ip s;
     s \<leftarrow> iunlockput dp s;
     Some (None, s) }"

definition create_new :: "(nat \<Rightarrow> ('a kfile_scheme) devops) \<Rightarrow> nat \<Rightarrow> bytes \<Rightarrow> u16 \<Rightarrow> u16 \<Rightarrow> u16 \<Rightarrow> nat \<Rightarrow>
    'a kfile_scheme \<Rightarrow> (nat option \<times> 'a kfile_scheme) option" where
  \<comment> \<open>\<open>create\<close> from the \<open>ilock\<close> of the inode \<open>ialloc\<close> returned\<close>
  "create_new dv dp name type major minor ip s = do {
     s \<leftarrow> ilock ip s;
     let s = set_inode ip (\<lambda>i. i\<lparr>i_major := major, i_minor := minor, i_nlink := 1\<rparr>) s;
     s \<leftarrow> iupdate ip s;
     (r, s) \<leftarrow> (if type = T_DIR
               then do {
                 (r, s) \<leftarrow> dirlink dv ip DOT (i_inum (itable s ip)) s;
                 (if r < 0 then Some (r, s) else dirlink dv ip DOTDOT (i_inum (itable s dp)) s) }
               else Some (0, s));
     (if r < 0 then create_fail ip dp s
      else do {
        (r, s) \<leftarrow> dirlink dv dp name (i_inum (itable s ip)) s;
        (if r < 0 then create_fail ip dp s
         else do {
           s \<leftarrow> (if type = T_DIR
                 then iupdate dp (set_inode dp (\<lambda>i. i\<lparr>i_nlink := i_nlink i + 1\<rparr>) s)
                 else Some s);
           s \<leftarrow> iunlockput dp s;
           Some (Some ip, s) }) }) }"

definition create :: "('a kfile_scheme) env \<Rightarrow> u8 list \<Rightarrow> u16 \<Rightarrow> u16 \<Rightarrow> u16 \<Rightarrow> 'a kfile_scheme \<Rightarrow>
    (nat option \<times> 'a kfile_scheme) option" where
  "create en path type major minor s = do {
     (dp, name, s) \<leftarrow> nameiparent (en_dv en) path (en_stack en) s;
     (case dp of None \<Rightarrow> Some (None, s)
      | Some dp \<Rightarrow> do {
          s \<leftarrow> ilock dp s;
          (e, s) \<leftarrow> dirlookup (en_dv en) dp name s;
          (case e of
             Some (ip, _) \<Rightarrow> do {
               s \<leftarrow> iunlockput dp s;
               s \<leftarrow> ilock ip s;
               let t = i_type (itable s ip);
               (if type = T_FILE \<and> (t = T_FILE \<or> t = T_DEVICE) then Some (Some ip, s)
                else if type = T_SYMLINK \<and> (t = T_SYMLINK \<or> t = T_DEVICE) then Some (Some ip, s)
                else do { s \<leftarrow> iunlockput ip s; Some (None, s) }) }
           | None \<Rightarrow> do {
               (ip, s) \<leftarrow> ialloc (i_dev (itable s dp)) type s;
               (case ip of
                  None \<Rightarrow> do { s \<leftarrow> iunlockput dp s; Some (None, s) }
                | Some ip \<Rightarrow> create_new (en_dv en) dp name type major minor ip s) }) }) }"

definition read_local :: "nat \<Rightarrow> bytes \<Rightarrow> u32 \<Rightarrow> u32 \<Rightarrow> 'a fsst_scheme \<Rightarrow> (int \<times> bytes \<times> 'a fsst_scheme) option" where
  \<comment> \<open>\<open>readi(ip, 0, (uint64)&x, off, n)\<close> into a variable of the kernel stack, which takes the
      place of \<open>de\<close>\<close>
  "read_local ip x off n s = do {
     (r, s) \<leftarrow> readi put_dirent ip off n (s\<lparr>dirent_buf := x\<rparr>);
     Some (r, dirent_buf s, s) }"

definition write_local :: "nat \<Rightarrow> bytes \<Rightarrow> u32 \<Rightarrow> u32 \<Rightarrow> 'a fsst_scheme \<Rightarrow> (int \<times> 'a fsst_scheme) option" where
  "write_local ip x off n s = writei get_dirent ip off n (s\<lparr>dirent_buf := x\<rparr>)"

fun follow_links :: "nat \<Rightarrow> (nat \<Rightarrow> ('a kfile_scheme) devops) \<Rightarrow> nat \<Rightarrow> bytes \<Rightarrow> 'a kfile_scheme \<Rightarrow>
    (nat option \<times> 'a kfile_scheme) option" where
  \<comment> \<open>\<open>while (ip->type == T_SYMLINK)\<close> with \<open>k = MAXSYMLINKDEPTH - i\<close>; the inode of the last
      \<open>namei\<close> is not put when the depth is exceeded\<close>
  "follow_links k dv ip path s =
     (if i_type (itable s ip) \<noteq> T_SYMLINK then Some (Some ip, s)
      else do {
        (r, path, s) \<leftarrow> read_local ip path 0 (of_nat MAXPATH) s;
        (if r \<le> 0 then panic ''open: readi''
         else do {
           s \<leftarrow> iunlockput ip s;
           p \<leftarrow> cpath path;
           (ip, s) \<leftarrow> namei dv p s;
           (case (ip, k) of
              (Some ip, Suc k) \<Rightarrow> do { s \<leftarrow> ilock ip s; follow_links k dv ip path s }
            | _ \<Rightarrow> Some (None, s)) }) })"

definition open_file :: "('a kfile_scheme) env \<Rightarrow> int \<Rightarrow> nat \<Rightarrow> 'a kfile_scheme \<Rightarrow>
    (int \<times> 'a kfile_scheme) option" where
  \<comment> \<open>\<open>sys_open\<close> once the inode is found and locked\<close>
  "open_file en omode ip s =
     (if i_type (itable s ip) = T_DEVICE \<and>
         (sint (i_major (itable s ip)) < 0 \<or> sint (i_major (itable s ip)) \<ge> int NDEV)
      then do { s \<leftarrow> iunlockput ip s; end_fail s }
      else do {
        (f, s) \<leftarrow> filealloc s;
        (case f of
           None \<Rightarrow> do { s \<leftarrow> iunlockput ip s; end_fail s }
         | Some f \<Rightarrow>
             (let (fd, s) = fdalloc f s in
              if fd < 0
              then do { s \<leftarrow> fileclose (en_so en) f s; s \<leftarrow> iunlockput ip s; end_fail s }
              else do {
                let s = (if i_type (itable s ip) = T_DEVICE
                         then set_file f (\<lambda>x. x\<lparr>f_type := FD_DEVICE, f_major := i_major (itable s ip), f_off := 0\<rparr>) s
                         else set_file f (\<lambda>x. x\<lparr>f_type := FD_INODE, f_off := 0\<rparr>) s);
                let s = set_file f (\<lambda>x. x\<lparr>f_ip := ip, f_readable := (and omode KO_WRONLY = 0),
                           f_writable := (and omode KO_WRONLY \<noteq> 0 \<or> and omode KO_RDWR \<noteq> 0)\<rparr>) s;
                s \<leftarrow> (if and omode KO_TRUNC \<noteq> 0 \<and> i_type (itable s ip) = T_FILE then itrunc ip s else Some s);
                s \<leftarrow> iunlock ip s;
                s \<leftarrow> end_op s;
                Some (fd, s) })) })"

definition sys_open :: "('a kfile_scheme) env \<Rightarrow> 'a kfile_scheme \<Rightarrow> (int \<times> 'a kfile_scheme) option" where
  "sys_open en s = do {
     omode \<leftarrow> argint 1 s;
     (n, path, s) \<leftarrow> argstr 0 (en_stack en) MAXPATH s;
     (if n < 0 then Some (-1, s)
      else do {
        s \<leftarrow> begin_op s;
        p \<leftarrow> cpath path;
        (ip, s) \<leftarrow>
          (if and omode KO_CREATE \<noteq> 0 then create en p T_FILE 0 0 s
           else do {
             (ip, s) \<leftarrow> namei (en_dv en) p s;
             (case ip of None \<Rightarrow> Some (None, s)
              | Some ip \<Rightarrow> do {
                  s \<leftarrow> ilock ip s;
                  (if i_type (itable s ip) = T_DIR \<and> omode \<noteq> 0
                   then do { s \<leftarrow> iunlockput ip s; Some (None, s) }
                   else if and omode KO_NOFOLLOW = 0
                   then follow_links MAXSYMLINKDEPTH (en_dv en) ip path s
                   else Some (Some ip, s)) }) });
        (case ip of None \<Rightarrow> end_fail s | Some ip \<Rightarrow> open_file en omode ip s) }) }"

definition make_node :: "('a kfile_scheme) env \<Rightarrow> u16 \<Rightarrow> u16 \<Rightarrow> u16 \<Rightarrow> 'a kfile_scheme \<Rightarrow>
    (int \<times> 'a kfile_scheme) option" where
  \<comment> \<open>the body that \<open>sys_mkdir\<close> and \<open>sys_mknod\<close> share\<close>
  "make_node en type major minor s = do {
     (r, path, s) \<leftarrow> argstr 0 (en_stack en) MAXPATH s;
     (if r < 0 then end_fail s
      else do {
        p \<leftarrow> cpath path;
        (ip, s) \<leftarrow> create en p type major minor s;
        (case ip of None \<Rightarrow> end_fail s
         | Some ip \<Rightarrow> do {
             s \<leftarrow> iunlockput ip s;
             s \<leftarrow> end_op s;
             Some (0, s) }) }) }"

definition sys_mkdir :: "('a kfile_scheme) env \<Rightarrow> 'a kfile_scheme \<Rightarrow> (int \<times> 'a kfile_scheme) option" where
  "sys_mkdir en s = do { s \<leftarrow> begin_op s; make_node en T_DIR 0 0 s }"

definition sys_mknod :: "('a kfile_scheme) env \<Rightarrow> 'a kfile_scheme \<Rightarrow> (int \<times> 'a kfile_scheme) option" where
  "sys_mknod en s = do {
     s \<leftarrow> begin_op s;
     major \<leftarrow> argint 1 s;
     minor \<leftarrow> argint 2 s;
     make_node en T_DEVICE (of_int major) (of_int minor) s }"

definition sys_chdir :: "('a kfile_scheme) env \<Rightarrow> 'a kfile_scheme \<Rightarrow> (int \<times> 'a kfile_scheme) option" where
  "sys_chdir en s = do {
     let p = curp s;
     s \<leftarrow> begin_op s;
     (r, path, s) \<leftarrow> argstr 0 (en_stack en) MAXPATH s;
     (ip, s) \<leftarrow> (if r < 0 then Some (None, s) else do { q \<leftarrow> cpath path; namei (en_dv en) q s });
     (case ip of None \<Rightarrow> end_fail s
      | Some ip \<Rightarrow> do {
          s \<leftarrow> ilock ip s;
          (if i_type (itable s ip) \<noteq> T_DIR \<and> \<not> IS_DEV_DIR (en_dv en) ip s
           then do { s \<leftarrow> iunlockput ip s; end_fail s }
           else do {
             s \<leftarrow> iunlock ip s;
             s \<leftarrow> (case pcwd (procs s p) of None \<Rightarrow> None | Some cwd \<Rightarrow> iput cwd s);
             s \<leftarrow> end_op s;
             Some (0, set_proc p (\<lambda>x. x\<lparr>pcwd := Some ip\<rparr>) s) }) }) }"

definition sys_symlink :: "('a kfile_scheme) env \<Rightarrow> 'a kfile_scheme \<Rightarrow> (int \<times> 'a kfile_scheme) option" where
  "sys_symlink en s = do {
     (len, old, s) \<leftarrow> argstr 0 (en_stack en) MAXPATH s;
     (r, new, s) \<leftarrow> (if len < 0 then Some (len, en_stack en, s) else argstr 1 (en_stack en) MAXPATH s);
     (if r < 0 then Some (-1, s)
      else do {
        s \<leftarrow> begin_op s;
        p \<leftarrow> cpath new;
        (ip, s) \<leftarrow> create en p T_SYMLINK 0 0 s;
        (case ip of None \<Rightarrow> end_fail s
         | Some ip \<Rightarrow> do {
             (r, s) \<leftarrow> write_local ip old 0 (of_int len) s;
             (if r \<noteq> len then panic ''sys_symlink: writei''
              else do {
                s \<leftarrow> iunlockput ip s;
                s \<leftarrow> end_op s;
                Some (0, s) }) }) }) }"

section \<open>Memory mapping\<close>

definition sys_mmap :: "'a kfile_scheme \<Rightarrow> (u64 \<times> 'a kfile_scheme) option" where
  \<comment> \<open>the descriptor is not checked: \<open>None\<close> is the access outside \<open>ofile\<close> or to a null file\<close>
  "sys_mmap s = do {
     addr \<leftarrow> argaddr 0 s;
     len \<leftarrow> argint 1 s;
     prot \<leftarrow> argint 2 s;
     flags \<leftarrow> argint 3 s;
     fd \<leftarrow> argint 4 s;
     offset \<leftarrow> argint 5 s;
     let type = (if addr = 0 then DYNAMIC else FIX);
     (if fd = -1 then vma_create addr (of_int len) (of_int prot) (of_int flags) None None 0 0 type s
      else if fd < 0 \<or> fd \<ge> int NOFILE then None
      else case pofile (procs s (curp s)) (nat fd) of None \<Rightarrow> None
      | Some f \<Rightarrow>
          vma_create addr (of_int len) (of_int prot) (of_int flags) (Some f) (Some (f_ip (ftable s f)))
            (of_int offset) (of_int len) type s) }"

definition sys_munmap :: "('a kfile_scheme) env \<Rightarrow> 'a kfile_scheme \<Rightarrow> (int \<times> 'a kfile_scheme) option" where
  "sys_munmap en s = do {
     addr \<leftarrow> argaddr 0 s;
     len \<leftarrow> argint 1 s;
     munmap (en_so en) addr (of_int len) s }"

end
