(* ===== verification/ExecLoad.thy ===== *)
theory ExecLoad
  imports SysFile
begin

text \<open>
  Program loading: \<open>kernel/exec.c\<close> and \<open>sys_exec\<close>.  An element of \<open>argv\<close> is the address of
  the kernel page that holds the string.  The debug table that \<open>exec\<close> loads for the first process is
  the argument \<open>dbg\<close>.
\<close>

definition MAXARG :: nat where "MAXARG = 32"
definition ELF_MAGIC :: u32 where "ELF_MAGIC = 0x464C457F"
definition ELF_PROG_LOAD :: u32 where "ELF_PROG_LOAD = 1"

section \<open>The ELF headers\<close>

record elfhdr =
  e_magic :: u32
  e_entry :: u64
  e_phoff :: u64
  e_phnum :: u16

record proghdr =
  ph_type :: u32
  ph_flags :: u32
  ph_off :: u64
  ph_vaddr :: u64
  ph_filesz :: u64
  ph_memsz :: u64

definition get_elfhdr :: "bytes \<Rightarrow> elfhdr" where
  \<comment> \<open>the fields \<open>exec\<close> reads, at their offsets in the 64 bytes\<close>
  "get_elfhdr d = \<lparr>e_magic = ld32 d 0, e_entry = ld64 d 24, e_phoff = ld64 d 32, e_phnum = ld16 d 56\<rparr>"

definition get_proghdr :: "bytes \<Rightarrow> proghdr" where
  "get_proghdr d = \<lparr>ph_type = ld32 d 0, ph_flags = ld32 d 4, ph_off = ld64 d 8, ph_vaddr = ld64 d 16,
     ph_filesz = ld64 d 32, ph_memsz = ld64 d 40\<rparr>"

definition flags2perm :: "u32 \<Rightarrow> u64" where
  "flags2perm flags =
     (let perm = 0;
          perm = (if flags AND 1 \<noteq> 0 then PTE_X else perm);
          perm = (if flags AND 2 \<noteq> 0 then perm OR PTE_W else perm)
      in perm)"

definition flags2prot :: "u32 \<Rightarrow> u32" where
  "flags2prot flags =
     (let perm = PROT_READ;
          perm = (if flags AND 1 \<noteq> 0 then perm OR PROT_EXEC else perm);
          perm = (if flags AND 2 \<noteq> 0 then perm OR PROT_WRITE else perm)
      in perm)"

section \<open>Segments\<close>

partial_function (option) loadseg ::
  "u64 \<Rightarrow> u64 \<Rightarrow> nat \<Rightarrow> u32 \<Rightarrow> u32 \<Rightarrow> u32 \<Rightarrow> 'a kfile_scheme \<Rightarrow> (int \<times> 'a kfile_scheme) option" where
  \<comment> \<open>\<open>i\<close> is the loop variable, 0 at the call\<close>
  "loadseg pt va ip offset sz i s =
     (if \<not> i < sz then Some (0, s)
      else do {
        pa \<leftarrow> walkaddr pt (va + ucast i) s;
        (if pa = 0 then panic ''loadseg: address should exist''
         else do {
           let n = (if sz - i < of_nat PGSIZE then sz - i else of_nat PGSIZE);
           (r, s) \<leftarrow> readi (put_page pa) ip (offset + i) n s;
           (if r \<noteq> uint n then Some (-1, s)
            else loadseg pt va ip offset sz (i + of_nat PGSIZE) s) }) })"

definition load_program :: "nat \<Rightarrow> u64 \<Rightarrow> proghdr \<Rightarrow> u64 \<Rightarrow> 'a kfile_scheme \<Rightarrow>
    (bool \<times> u64 \<times> 'a kfile_scheme) option" where
  \<comment> \<open>one loadable header: whether it succeeded, and \<open>sz\<close>.  \<open>vma_create\<close> returns a \<open>uint64\<close>, so
      the code's test \<open>< 0\<close> of its result never holds\<close>
  "load_program ip pt ph sz s =
     (if ph_memsz ph < ph_filesz ph then Some (False, sz, s)
      else if ph_vaddr ph + ph_memsz ph < ph_vaddr ph then Some (False, sz, s)
      else if ph_vaddr ph mod of_nat PGSIZE \<noteq> 0 then Some (False, sz, s)
      else if ppid (procs s (curp s)) < 0
      then do {
        (sz1, s) \<leftarrow> uvmalloc pt sz (ph_vaddr ph + ph_memsz ph) (flags2perm (ph_flags ph)) s;
        (if sz1 = 0 then Some (False, sz, s)
         else do {
           (r, s) \<leftarrow> loadseg pt (ph_vaddr ph) ip (ucast (ph_off ph)) (ucast (ph_filesz ph)) 0 s;
           Some (\<not> r < 0, sz1, s) }) }
      else do {
        (_, s) \<leftarrow> vma_create (ph_vaddr ph) (ph_memsz ph) (flags2prot (ph_flags ph)) MAP_PRIVATE None
                    (if ph_filesz ph \<noteq> 0 then Some ip else None) (ph_off ph) (ph_filesz ph) EXEC s;
        Some (True, ph_vaddr ph + ph_memsz ph, s) })"

fun load_segments :: "nat \<Rightarrow> nat \<Rightarrow> u32 \<Rightarrow> u64 \<Rightarrow> u64 \<Rightarrow> 'a kfile_scheme \<Rightarrow>
    (bool \<times> u64 \<times> 'a kfile_scheme) option" where
  \<comment> \<open>\<open>k\<close> program headers left, the next at \<open>off\<close>\<close>
  "load_segments 0 ip off pt sz s = Some (True, sz, s)"
| "load_segments (Suc k) ip off pt sz s = do {
     (r, d, s) \<leftarrow> read_local ip (\<lambda>_. 0) off 56 s;
     (if r \<noteq> 56 then Some (False, sz, s)
      else if ph_type (get_proghdr d) \<noteq> ELF_PROG_LOAD then load_segments k ip (off + 56) pt sz s
      else do {
        (ok, sz, s) \<leftarrow> load_program ip pt (get_proghdr d) sz s;
        (if ok then load_segments k ip (off + 56) pt sz s else Some (False, sz, s)) }) }"

section \<open>The stack\<close>

definition push_size :: "u64 \<Rightarrow> nat \<Rightarrow> u64" where
  \<comment> \<open>\<open>sp -= n; sp -= sp % 16\<close>\<close>
  "push_size sp n = (let sp = sp - of_nat n in sp - sp mod 16)"

fun push_args :: "u64 list \<Rightarrow> nat \<Rightarrow> u64 \<Rightarrow> u64 \<Rightarrow> u64 \<Rightarrow> bytes \<Rightarrow> 'a kfile_scheme \<Rightarrow>
    ((nat \<times> u64 \<times> bytes) option \<times> 'a kfile_scheme) option" where
  \<comment> \<open>the loop over the rest of \<open>argv\<close>: \<open>argc\<close>, \<open>sp\<close> and \<open>ustack\<close>; \<open>None\<close> goes to \<open>bad\<close>\<close>
  "push_args [] argc sp stackbase pt ustack s = Some (Some (argc, sp, ustack), s)"
| "push_args (a # argv) argc sp stackbase pt ustack s =
     (if argc \<ge> MAXARG then Some (None, s)
      else do {
        n \<leftarrow> strlen a (mem s);
        let sp = push_size sp (n + 1);
        (if sp < stackbase then Some (None, s)
         else do {
           (r, s) \<leftarrow> copyout vma_handle pt sp (mem s) a (of_nat (n + 1)) s;
           (if r < 0 then Some (None, s)
            else push_args argv (argc + 1) sp stackbase pt (st64 (8 * of_nat argc) sp ustack) s) }) })"

definition setup_stack :: "u64 list \<Rightarrow> u64 \<Rightarrow> u64 \<Rightarrow> 'a kfile_scheme \<Rightarrow>
    ((nat \<times> u64) option \<times> 'a kfile_scheme) option" where
  \<comment> \<open>the arguments and the array of pointers to them: \<open>argc\<close> and \<open>sp\<close>\<close>
  "setup_stack argv pt sz s = do {
     let stackbase = sz - of_nat PGSIZE;
     (r, s) \<leftarrow> push_args argv 0 sz stackbase pt (\<lambda>_. 0) s;
     (case r of None \<Rightarrow> Some (None, s)
      | Some (argc, sp, ustack) \<Rightarrow>
          let ustack = st64 (8 * of_nat argc) 0 ustack;
              sp = push_size sp ((argc + 1) * 8)
          in if sp < stackbase then Some (None, s)
             else do {
               (r, s) \<leftarrow> copyout vma_handle pt sp ustack 0 (of_nat ((argc + 1) * 8)) s;
               Some (if r < 0 then None else Some (argc, sp), s) }) }"

definition last_elem :: "u8 list \<Rightarrow> u8 list" where
  \<comment> \<open>what follows the last slash\<close>
  "last_elem path = rev (takeWhile (\<lambda>c. c \<noteq> SLASH) (rev path))"

section \<open>exec\<close>

definition exec_bad :: "u64 \<Rightarrow> u64 \<Rightarrow> nat option \<Rightarrow> 'a kfile_scheme \<Rightarrow> (int \<times> 'a kfile_scheme) option" where
  "exec_bad pt sz ip s = do {
     s \<leftarrow> (if pt \<noteq> 0 then proc_freepagetable_from_zero pt sz s else Some s);
     s \<leftarrow> (case ip of None \<Rightarrow> Some s | Some ip \<Rightarrow> do { s \<leftarrow> iunlockput ip s; end_op s });
     Some (-1, s) }"

definition exec_commit :: "u8 list \<Rightarrow> u64 \<Rightarrow> u64 \<Rightarrow> u64 \<Rightarrow> u64 \<Rightarrow> u64 \<Rightarrow> 'a kfile_scheme \<Rightarrow>
    'a kfile_scheme option" where
  "exec_commit path pt sz oldsz sp entry s = do {
     let p = curp s;
     let tf = ptrapframe (procs s p);
     let s = set_tf tf (\<lambda>t. t\<lparr>tf_a := (tf_a t)(1 := sp)\<rparr>) s;
     let s = set_proc p (\<lambda>x. x\<lparr>pname := proc_name (pname x) (name_bytes (last_elem path))\<rparr>) s;
     let oldpagetable = ppagetable (procs s p);
     let s = set_proc p (\<lambda>x. x\<lparr>ppagetable := pt\<rparr>) s;
     let s = set_tsh (ptshared (procs s p)) (\<lambda>t. t\<lparr>ts_sz := sz\<rparr>) s;
     let s = set_tf tf (\<lambda>t. t\<lparr>tf_epc := entry, tf_sp := sp\<rparr>) s;
     (if ppid (procs s p) = 1 then proc_freepagetable_from_zero oldpagetable oldsz s
      else do {
        s \<leftarrow> uvmunmap (ppagetable (procs s p)) 0 1 1 s;
        proc_freepagetable oldpagetable oldsz s }) }"

definition exec_image :: "u8 list \<Rightarrow> u64 list \<Rightarrow> elfhdr \<Rightarrow> nat \<Rightarrow> u64 \<Rightarrow> 'a kfile_scheme \<Rightarrow>
    (int \<times> 'a kfile_scheme) option" where
  \<comment> \<open>\<open>exec\<close> once it has the new page table \<open>pt\<close>\<close>
  "exec_image path argv elf ip pt s = do {
     let p = curp s;
     s \<leftarrow> vma_exec_clear p s;
     let s = signal_handler_clear p s;
     (ok, sz, s) \<leftarrow> load_segments (unat (e_phnum elf)) ip (ucast (e_phoff elf)) pt 0 s;
     (if \<not> ok then exec_bad pt sz (Some ip) s
      else do {
        s \<leftarrow> iunlockput ip s;
        s \<leftarrow> end_op s;
        let oldsz = ts_sz (tshareds s (ptshared (procs s p)));
        let sz = PGROUNDUP sz;
        (sz1, s) \<leftarrow> uvmalloc pt sz (sz + 2 * of_nat PGSIZE) PTE_W s;
        (if sz1 = 0 then exec_bad pt sz None s
         else do {
           s \<leftarrow> uvmclear pt (sz1 - 2 * of_nat PGSIZE) s;
           (r, s) \<leftarrow> setup_stack argv pt sz1 s;
           (case r of None \<Rightarrow> exec_bad pt sz1 None s
            | Some (argc, sp) \<Rightarrow> do {
                s \<leftarrow> exec_commit path pt sz1 oldsz sp (e_entry elf) s;
                Some (int argc, s) }) }) }) }"

definition exec :: "('a kfile_scheme \<Rightarrow> 'a kfile_scheme option) \<Rightarrow> (nat \<Rightarrow> ('a kfile_scheme) devops) \<Rightarrow>
    u8 list \<Rightarrow> u64 list \<Rightarrow> 'a kfile_scheme \<Rightarrow> (int \<times> 'a kfile_scheme) option" where
  "exec dbg dv path argv s = do {
     s \<leftarrow> (if ppid (procs s (curp s)) = 1 then dbg s else Some s);
     s \<leftarrow> begin_op s;
     (ip, s) \<leftarrow> namei dv path s;
     (case ip of None \<Rightarrow> end_fail s
      | Some ip \<Rightarrow> do {
          s \<leftarrow> ilock ip s;
          (r, d, s) \<leftarrow> read_local ip (\<lambda>_. 0) 0 64 s;
          (if r \<noteq> 64 \<or> e_magic (get_elfhdr d) \<noteq> ELF_MAGIC then exec_bad 0 0 (Some ip) s
           else do {
             (pt, s) \<leftarrow> proc_pagetable (curp s) s;
             (if pt = 0 then exec_bad 0 0 (Some ip) s
              else exec_image path argv (get_elfhdr d) ip pt s) }) }) }"

section \<open>sys\_exec\<close>

fun fetch_args :: "nat \<Rightarrow> nat \<Rightarrow> u64 \<Rightarrow> u64 list \<Rightarrow> 'a kfile_scheme \<Rightarrow>
    (bool \<times> u64 list \<times> 'a kfile_scheme) option" where
  \<comment> \<open>the first loop of \<open>sys_exec\<close> with \<open>k\<close> free elements of \<open>argv\<close>: whether it ended at a null
      pointer, and the pages allocated\<close>
  "fetch_args 0 i uargv argv s = Some (False, argv, s)"
| "fetch_args (Suc k) i uargv argv s = do {
     (r, uarg, s) \<leftarrow> fetchaddr (uargv + 8 * of_nat i) s;
     (if r < 0 then Some (False, argv, s)
      else if uarg = 0 then Some (True, argv, s)
      else do {
        (m, s) \<leftarrow> kmalloc s;
        (if m = 0 then Some (False, argv, s)
         else do {
           (r, d, s) \<leftarrow> fetchstr uarg (\<lambda>a. mem s (m + a)) PGSIZE s;
           let s = s\<lparr>mem := mem_copy m d 0 PGSIZE (mem s)\<rparr>;
           (if r < 0 then Some (False, argv @ [m], s)
            else fetch_args k (Suc i) uargv (argv @ [m]) s) }) }) }"

fun free_args :: "u64 list \<Rightarrow> 'a kfile_scheme \<Rightarrow> 'a kfile_scheme option" where
  "free_args [] s = Some s"
| "free_args (a # argv) s = do { s \<leftarrow> kfree a s; free_args argv s }"

definition sys_exec :: "('a kfile_scheme \<Rightarrow> 'a kfile_scheme option) \<Rightarrow> ('a kfile_scheme) env \<Rightarrow>
    'a kfile_scheme \<Rightarrow> (int \<times> 'a kfile_scheme) option" where
  "sys_exec dbg en s = do {
     uargv \<leftarrow> argaddr 1 s;
     (pathlen, path, s) \<leftarrow> argstr 0 (en_stack en) MAXPATH s;
     (if pathlen < 0 then Some (-1, s)
      else do {
        (ok, argv, s) \<leftarrow> fetch_args MAXARG 0 uargv [] s;
        (if \<not> ok then do { s \<leftarrow> free_args argv s; Some (-1, s) }
         else do {
           p \<leftarrow> cpath path;
           (ret, s) \<leftarrow> exec dbg (en_dv en) p argv s;
           (ret, s) \<leftarrow>
             (if ret < 0 \<and> (case pcwd (procs s (curp s)) of None \<Rightarrow> False
                            | Some cwd \<Rightarrow> i_inum (itable s cwd) \<noteq> ROOTINO) \<and> pathlen + 1 < int MAXPATH
              then exec dbg (en_dv en) (SLASH # p) argv s
              else Some (ret, s));
           s \<leftarrow> free_args argv s;
           Some (ret, s) }) }) }"

end
