(* ===== verification/Uart.thy ===== *)
theory Uart
  imports ProcLife
begin

text \<open>
  \<open>kernel/uart.c\<close>, with the state of the console layer above it.  The device is what the CPU sees of
  it: \<open>uart_in n\<close> is the answer to the \<open>n\<close>-th register read, any sequence at all, and
  \<open>uart_out\<close> records the register writes, newest last.
\<close>

datatype instate = NORMAL | ESCAPE_SEEN | BRACKET_SEEN

record kcons = kfile +
  uart_in :: "nat \<Rightarrow> u8"
  uart_reads :: nat
  uart_out :: "(nat \<times> u8) list"
  uart_tx_buf :: "nat \<Rightarrow> u8"
  uart_tx_w :: u64
  uart_tx_r :: u64
  panicked :: bool
  pr_locking :: bool
  cons_buf :: "nat \<Rightarrow> u8"
  cons_r :: u32
  cons_w :: u32
  cons_e :: u32
  input_state :: instate
  ticks :: u32

definition THR :: nat where "THR = 0"
definition IER :: nat where "IER = 1"
definition FCR :: nat where "FCR = 2"
definition LCR :: nat where "LCR = 3"
definition LSR_TX_IDLE :: u8 where "LSR_TX_IDLE = 0x20"
definition UART_TX_BUF_SIZE :: nat where "UART_TX_BUF_SIZE = 32"

definition ReadReg :: "'a kcons_scheme \<Rightarrow> u8 \<times> 'a kcons_scheme" where
  "ReadReg s = (uart_in s (uart_reads s), s\<lparr>uart_reads := Suc (uart_reads s)\<rparr>)"

definition WriteReg :: "nat \<Rightarrow> u8 \<Rightarrow> 'a kcons_scheme \<Rightarrow> 'a kcons_scheme" where
  "WriteReg r v s = s\<lparr>uart_out := uart_out s @ [(r, v)]\<rparr>"

definition uartinit :: "'a kcons_scheme \<Rightarrow> 'a kcons_scheme" where
  "uartinit s =
     (let s = WriteReg IER 0 s; s = WriteReg LCR 0x80 s; s = WriteReg 0 3 s; s = WriteReg 1 0 s;
          s = WriteReg LCR 3 s; s = WriteReg FCR (1 OR 6) s; s = WriteReg IER (2 OR 1) s
      in s\<lparr>lk := (lk s)(UartLock := None)\<rparr>)"

partial_function (option) uartstart :: "'a kcons_scheme \<Rightarrow> 'a kcons_scheme option" where
  "uartstart s =
     (if uart_tx_w s = uart_tx_r s then Some s
      else let (v, s) = ReadReg s in
        if v AND LSR_TX_IDLE = 0 then Some s
        else do {
          let c = uart_tx_buf s (unat (uart_tx_r s) mod UART_TX_BUF_SIZE);
          s \<leftarrow> wakeup OnUart (s\<lparr>uart_tx_r := uart_tx_r s + 1\<rparr>);
          uartstart (WriteReg THR c s) })"

partial_function (option) uart_wait_room ::
  "('a kcons_scheme \<Rightarrow> 'a kcons_scheme option) \<Rightarrow> 'a kcons_scheme \<Rightarrow> 'a kcons_scheme option" where
  "uart_wait_room world s =
     (if uart_tx_w s = uart_tx_r s + of_nat UART_TX_BUF_SIZE
      then do { s \<leftarrow> sleep world OnUart UartLock s; uart_wait_room world s }
      else Some s)"

definition uartputc :: "('a kcons_scheme \<Rightarrow> 'a kcons_scheme option) \<Rightarrow> u32 \<Rightarrow> 'a kcons_scheme \<Rightarrow>
    'a kcons_scheme option" where
  "uartputc world c s = do {
     s \<leftarrow> acquire UartLock s;
     (if panicked s then None
      else do {
        s \<leftarrow> uart_wait_room world s;
        let s = s\<lparr>uart_tx_buf := (uart_tx_buf s)(unat (uart_tx_w s) mod UART_TX_BUF_SIZE := ucast c),
                   uart_tx_w := uart_tx_w s + 1\<rparr>;
        s \<leftarrow> uartstart s;
        release UartLock s }) }"

partial_function (option) uart_wait_idle :: "'a kcons_scheme \<Rightarrow> 'a kcons_scheme option" where
  "uart_wait_idle s =
     (let (v, s) = ReadReg s in if v AND LSR_TX_IDLE = 0 then uart_wait_idle s else Some s)"

definition uartputc_sync :: "u32 \<Rightarrow> 'a kcons_scheme \<Rightarrow> 'a kcons_scheme option" where
  "uartputc_sync c s = do {
     let s = push_off s;
     (if panicked s then None
      else do {
        s \<leftarrow> uart_wait_idle s;
        pop_off (WriteReg THR (ucast c) s) }) }"

definition uartgetc :: "'a kcons_scheme \<Rightarrow> int \<times> 'a kcons_scheme" where
  "uartgetc s =
     (let (v, s) = ReadReg s in
      if v AND 1 \<noteq> 0 then let (c, s) = ReadReg s in (uint c, s) else (-1, s))"

section \<open>The transmit ring\<close>

definition tx_pending :: "'a kcons_scheme \<Rightarrow> u8 list" where
  \<comment> \<open>the bytes in the ring, oldest first\<close>
  "tx_pending s = map (\<lambda>i. uart_tx_buf s ((unat (uart_tx_r s + of_nat i)) mod UART_TX_BUF_SIZE))
     [0..<unat (uart_tx_w s - uart_tx_r s)]"

end
