(* ===== verification/Printf.thy ===== *)
theory Printf
  imports Uart
begin

text \<open>
  Formatted output: \<open>kernel/printf.c\<close>, \<open>kernel/sprintf.c\<close> and \<open>consputc\<close> of
  \<open>kernel/console.c\<close>.  A format and a string are the bytes up to the NUL; the variable arguments
  are a list, and taking an argument that is not there or has another type is \<open>None\<close>.
\<close>

definition asc :: "string \<Rightarrow> u8 list" where "asc = map of_char"

datatype varg = VInt u32 | VPtr u64 | VStr "u8 list option"

definition BACKSPACE :: u32 where "BACKSPACE = 0x100"

definition consputc :: "u32 \<Rightarrow> 'a kcons_scheme \<Rightarrow> 'a kcons_scheme option" where
  "consputc c s =
     (if c = BACKSPACE
      then do { s \<leftarrow> uartputc_sync 8 s; s \<leftarrow> uartputc_sync 32 s; uartputc_sync 8 s }
      else uartputc_sync c s)"

fun consputs :: "u8 list \<Rightarrow> 'a kcons_scheme \<Rightarrow> 'a kcons_scheme option" where
  "consputs [] s = Some s"
| "consputs (c # cs) s = do { s \<leftarrow> consputc (ucast c) s; consputs cs s }"

section \<open>Numbers\<close>

definition digits :: "u8 list" where
  "digits = [48, 49, 50, 51, 52, 53, 54, 55, 56, 57, 97, 98, 99, 100, 101, 102]"

fun put_digits :: "nat \<Rightarrow> u32 \<Rightarrow> u32 \<Rightarrow> u8 list option" where
  \<comment> \<open>the \<open>do\<close> loop: the bytes it stores, least digit first; \<open>None\<close> is a store past the
      \<open>k\<close> bytes left of the buffer\<close>
  "put_digits 0 base x = None"
| "put_digits (Suc k) base x = do {
     let d = digits ! unat (x mod base);
     (if x div base \<noteq> 0 then do { ds \<leftarrow> put_digits k base (x div base); Some (d # ds) } else Some [d]) }"

definition int_chars :: "u32 \<Rightarrow> u32 \<Rightarrow> bool \<Rightarrow> u8 list option" where
  \<comment> \<open>\<open>buf[16]\<close> of \<open>printint\<close> and \<open>sprintint\<close>, in the order it is sent\<close>
  "int_chars xx base sign = do {
     let neg = (sign \<and> sint xx < 0);
     ds \<leftarrow> put_digits 16 base (if neg then - xx else xx);
     (if neg \<and> length ds = 16 then None else Some (rev (if neg then ds @ [45] else ds))) }"

definition printint :: "u32 \<Rightarrow> u32 \<Rightarrow> bool \<Rightarrow> 'a kcons_scheme \<Rightarrow> 'a kcons_scheme option" where
  "printint xx base sign s = do { cs \<leftarrow> int_chars xx base sign; consputs cs s }"

fun put_nibbles :: "nat \<Rightarrow> u64 \<Rightarrow> 'a kcons_scheme \<Rightarrow> 'a kcons_scheme option" where
  "put_nibbles 0 x s = Some s"
| "put_nibbles (Suc k) x s = do {
     s \<leftarrow> consputc (ucast (digits ! unat (drop_bit 60 x))) s;
     put_nibbles k (push_bit 4 x) s }"

definition printptr :: "u64 \<Rightarrow> 'a kcons_scheme \<Rightarrow> 'a kcons_scheme option" where
  "printptr x s = do { s \<leftarrow> consputc 48 s; s \<leftarrow> consputc 120 s; put_nibbles 16 x s }"

section \<open>printf\<close>

definition null_str :: "u8 list option \<Rightarrow> u8 list" where
  "null_str p = (case p of None \<Rightarrow> asc ''(null)'' | Some cs \<Rightarrow> cs)"

definition print_conv :: "u8 \<Rightarrow> varg list \<Rightarrow> 'a kcons_scheme \<Rightarrow> (varg list \<times> 'a kcons_scheme) option" where
  \<comment> \<open>the switch on the character after the percent sign; the arguments left\<close>
  "print_conv c args s =
     (if c = of_char CHR ''d''
      then (case args of VInt x # args \<Rightarrow> do { s \<leftarrow> printint x 10 True s; Some (args, s) } | _ \<Rightarrow> None)
      else if c = of_char CHR ''x''
      then (case args of VInt x # args \<Rightarrow> do { s \<leftarrow> printint x 16 True s; Some (args, s) } | _ \<Rightarrow> None)
      else if c = of_char CHR ''p''
      then (case args of VPtr x # args \<Rightarrow> do { s \<leftarrow> printptr x s; Some (args, s) } | _ \<Rightarrow> None)
      else if c = of_char CHR ''s''
      then (case args of VStr p # args \<Rightarrow> do { s \<leftarrow> consputs (null_str p) s; Some (args, s) } | _ \<Rightarrow> None)
      else if c = of_char CHR ''%'' then do { s \<leftarrow> consputc (ucast c) s; Some (args, s) }
      else do { s \<leftarrow> consputc 37 s; s \<leftarrow> consputc (ucast c) s; Some (args, s) })"

fun printf_loop :: "u8 list \<Rightarrow> varg list \<Rightarrow> 'a kcons_scheme \<Rightarrow> 'a kcons_scheme option" where
  "printf_loop [] args s = Some s"
| "printf_loop (c # fmt) args s =
     (if c \<noteq> 37 then do { s \<leftarrow> consputc (ucast c) s; printf_loop fmt args s }
      else case fmt of [] \<Rightarrow> Some s
           | d # fmt \<Rightarrow> do { (args, s) \<leftarrow> print_conv d args s; printf_loop fmt args s })"

definition printf :: "u8 list \<Rightarrow> varg list \<Rightarrow> 'a kcons_scheme \<Rightarrow> 'a kcons_scheme option" where
  "printf fmt args s = do {
     let locking = pr_locking s;
     s \<leftarrow> (if locking then acquire PrLock s else Some s);
     s \<leftarrow> printf_loop fmt args s;
     (if locking then release PrLock s else Some s) }"

definition printfinit :: "'a kcons_scheme \<Rightarrow> 'a kcons_scheme" where
  "printfinit s = s\<lparr>lk := (lk s)(PrLock := None), pr_locking := True\<rparr>"

section \<open>snprintf\<close>

fun sputs :: "u8 list \<Rightarrow> u64 \<Rightarrow> bytes \<Rightarrow> bytes" where
  \<comment> \<open>\<open>sputc\<close> at successive addresses\<close>
  "sputs [] a m = m"
| "sputs (c # cs) a m = sputs cs (a + 1) (m(a := c))"

definition sprintint :: "u64 \<Rightarrow> u32 \<Rightarrow> u32 \<Rightarrow> bool \<Rightarrow> bytes \<Rightarrow> (int \<times> bytes) option" where
  "sprintint a xx base sign m = do { cs \<leftarrow> int_chars xx base sign; Some (int (length cs), sputs cs a m) }"

definition sprint_conv :: "u8 \<Rightarrow> varg list \<Rightarrow> u64 \<Rightarrow> int \<Rightarrow> int \<Rightarrow> bytes \<Rightarrow> (varg list \<times> int \<times> bytes) option" where
  "sprint_conv c args buf off sz m =
     (if c = of_char CHR ''d''
      then (case args of VInt x # args \<Rightarrow> do { (n, m) \<leftarrow> sprintint (buf + of_int off) x 10 True m; Some (args, off + n, m) } | _ \<Rightarrow> None)
      else if c = of_char CHR ''x''
      then (case args of VInt x # args \<Rightarrow> do { (n, m) \<leftarrow> sprintint (buf + of_int off) x 16 True m; Some (args, off + n, m) } | _ \<Rightarrow> None)
      else if c = of_char CHR ''s''
      then (case args of
              VStr p # args \<Rightarrow>
                let cs = take (nat (sz - off)) (null_str p)
                in Some (args, off + int (length cs), sputs cs (buf + of_int off) m)
            | _ \<Rightarrow> None)
      else if c = of_char CHR ''%'' then Some (args, off + 1, m(buf + of_int off := c))
      else Some (args, off + 2, m(buf + of_int off := 37, buf + of_int (off + 1) := c)))"

fun snprintf_loop :: "u8 list \<Rightarrow> varg list \<Rightarrow> u64 \<Rightarrow> int \<Rightarrow> int \<Rightarrow> bytes \<Rightarrow> (int \<times> bytes) option" where
  "snprintf_loop [] args buf off sz m = Some (off, m)"
| "snprintf_loop (c # fmt) args buf off sz m =
     (if \<not> off < sz then Some (off, m)
      else if c \<noteq> 37 then snprintf_loop fmt args buf (off + 1) sz (m(buf + of_int off := c))
      else case fmt of [] \<Rightarrow> Some (off, m)
           | d # fmt \<Rightarrow> do {
               (args, off, m) \<leftarrow> sprint_conv d args buf off sz m;
               snprintf_loop fmt args buf off sz m })"

definition snprintf :: "u64 \<Rightarrow> int \<Rightarrow> u8 list \<Rightarrow> varg list \<Rightarrow> bytes \<Rightarrow> (int \<times> bytes) option" where
  "snprintf buf sz fmt args m = snprintf_loop fmt args buf 0 sz m"

end
