(* ===== verification/Console.thy ===== *)
theory Console
  imports Printf
begin

text \<open>
  \<open>kernel/console.c\<close>: the line discipline between the UART interrupt and \<open>read\<close> on the
  console, and \<open>procdump\<close> of \<open>kernel/proc.c\<close>, which it calls for control-P.  The editor's
  position is three free-running indices into \<open>cons_buf\<close>.
\<close>

definition INPUT_BUF_SIZE :: nat where "INPUT_BUF_SIZE = 128"

definition cons_slot :: "u32 \<Rightarrow> nat" where
  \<comment> \<open>\<open>i % INPUT_BUF_SIZE\<close>\<close>
  "cons_slot i = unat i mod INPUT_BUF_SIZE"

definition cons_put :: "u8 \<Rightarrow> 'a kcons_scheme \<Rightarrow> 'a kcons_scheme" where
  \<comment> \<open>\<open>cons.buf[cons.e++ % INPUT_BUF_SIZE] = c\<close>\<close>
  "cons_put c s = s\<lparr>cons_buf := (cons_buf s)(cons_slot (cons_e s) := c), cons_e := cons_e s + 1\<rparr>"

definition cons_commit :: "'a kcons_scheme \<Rightarrow> 'a kcons_scheme option" where
  \<comment> \<open>\<open>cons.w = cons.e; wakeup(&cons.r)\<close>\<close>
  "cons_commit s = wakeup OnCons (s\<lparr>cons_w := cons_e s\<rparr>)"

section \<open>procdump\<close>

definition state_name :: "procstate \<Rightarrow> string" where
  "state_name st = (case st of UNUSED \<Rightarrow> ''unused'' | USED \<Rightarrow> ''used'' | SLEEPING \<Rightarrow> ''sleep ''
     | RUNNABLE \<Rightarrow> ''runble'' | RUNNING \<Rightarrow> ''run   '' | ZOMBIE \<Rightarrow> ''zombie'')"

definition c_string :: "nat \<Rightarrow> bytes \<Rightarrow> u8 list option" where
  \<comment> \<open>the bytes of \<open>char[n]\<close> up to its NUL; \<open>None\<close> when there is none\<close>
  "c_string n b = (let cs = map (\<lambda>i. b (of_nat i)) [0..<n] in
     if 0 \<in> set cs then Some (takeWhile (\<lambda>c. c \<noteq> 0) cs) else None)"

fun procdump_loop :: "nat \<Rightarrow> nat \<Rightarrow> 'a kcons_scheme \<Rightarrow> 'a kcons_scheme option" where
  "procdump_loop 0 p s = Some s"
| "procdump_loop (Suc k) p s =
     (let x = procs s p in
      if pstate x = UNUSED then procdump_loop k (Suc p) s
      else do {
        name \<leftarrow> c_string 16 (pname x);
        s \<leftarrow> printf (asc ''%d %s %s'')
               [VInt (of_int (ppid x)), VStr (Some (asc (state_name (pstate x)))), VStr (Some name)] s;
        s \<leftarrow> printf [10] [] s;
        procdump_loop k (Suc p) s })"

definition procdump :: "'a kcons_scheme \<Rightarrow> 'a kcons_scheme option" where
  "procdump s = do { s \<leftarrow> printf [10] [] s; procdump_loop NPROC 0 s }"

section \<open>Input\<close>

partial_function (option) kill_line :: "bool \<Rightarrow> 'a kcons_scheme \<Rightarrow> 'a kcons_scheme option" where
  \<comment> \<open>the loop of control-U (\<open>nl\<close>: stop at a newline) and of the arrow keys\<close>
  "kill_line nl s =
     (if cons_e s \<noteq> cons_w s \<and> (nl \<longrightarrow> cons_buf s (cons_slot (cons_e s - 1)) \<noteq> 10)
      then do {
        s \<leftarrow> consputc BACKSPACE (s\<lparr>cons_e := cons_e s - 1\<rparr>);
        kill_line nl s }
      else Some s)"

definition normalintr :: "u8 \<Rightarrow> 'a kcons_scheme \<Rightarrow> 'a kcons_scheme option" where
  "normalintr c s =
     (if c = 16 then procdump s
      else if c = 21 then kill_line True s
      else if c = 8 \<or> c = 127
      then (if cons_e s \<noteq> cons_w s then consputc BACKSPACE (s\<lparr>cons_e := cons_e s - 1\<rparr>) else Some s)
      else if c = 9 then cons_commit (cons_put c s)
      else if c \<noteq> 0 \<and> cons_e s - cons_r s < of_nat INPUT_BUF_SIZE
      then do {
        let c = (if c = 13 then 10 else c);
        s \<leftarrow> consputc (ucast c) s;
        let s = cons_put c s;
        (if c = 10 \<or> c = 4 \<or> cons_e s - cons_r s = of_nat INPUT_BUF_SIZE then cons_commit s
         else Some s) }
      else Some s)"

definition dirintr :: "u8 \<Rightarrow> 'a kcons_scheme \<Rightarrow> 'a kcons_scheme option" where
  "dirintr c s =
     (if c = of_char CHR ''A'' \<or> c = of_char CHR ''B''
      then do { s \<leftarrow> kill_line False s; cons_commit (cons_put c (cons_put 91 (cons_put 27 s))) }
      else Some s)"

definition console_char :: "u8 \<Rightarrow> 'a kcons_scheme \<Rightarrow> 'a kcons_scheme option" where
  \<comment> \<open>the body of the loop of \<open>consoleintr\<close>\<close>
  "console_char c s =
     (case input_state s of
        NORMAL \<Rightarrow>
          (if c = 27 then Some (s\<lparr>input_state := ESCAPE_SEEN\<rparr>)
           else if c = 3 then do { (_, s) \<leftarrow> sendsignal SIGINT FG s; Some s }
           else normalintr c s)
      | ESCAPE_SEEN \<Rightarrow> Some (s\<lparr>input_state := (if c = 91 then BRACKET_SEEN else NORMAL)\<rparr>)
      | BRACKET_SEEN \<Rightarrow> dirintr c (s\<lparr>input_state := NORMAL\<rparr>))"

partial_function (option) consoleintr_loop :: "'a kcons_scheme \<Rightarrow> 'a kcons_scheme option" where
  "consoleintr_loop s =
     (let (c, s) = uartgetc s in
      if c \<ge> 0 then do { s \<leftarrow> console_char (of_int c) s; consoleintr_loop s } else Some s)"

definition consoleintr :: "'a kcons_scheme \<Rightarrow> 'a kcons_scheme option" where
  "consoleintr s = do { s \<leftarrow> acquire ConsLock s; s \<leftarrow> consoleintr_loop s; release ConsLock s }"

definition uartintr :: "'a kcons_scheme \<Rightarrow> 'a kcons_scheme option" where
  "uartintr s = do {
     s \<leftarrow> consoleintr s;
     s \<leftarrow> acquire UartLock s;
     s \<leftarrow> uartstart s;
     release UartLock s }"

section \<open>read and write\<close>

partial_function (option) cons_wait ::
  "('a kcons_scheme \<Rightarrow> 'a kcons_scheme option) \<Rightarrow> 'a kcons_scheme \<Rightarrow> (bool \<times> 'a kcons_scheme) option" where
  \<comment> \<open>the inner loop of \<open>consoleread\<close>; \<open>False\<close>: killed, with the lock released\<close>
  "cons_wait world s =
     (if cons_r s = cons_w s
      then do {
        (k, s) \<leftarrow> killed (curp s) s;
        (if k \<noteq> 0 then do { s \<leftarrow> release ConsLock s; Some (False, s) }
         else do { s \<leftarrow> sleep world OnCons ConsLock s; cons_wait world s }) }
      else Some (True, s))"

partial_function (option) consoleread_loop ::
  "('a kcons_scheme \<Rightarrow> 'a kcons_scheme option) \<Rightarrow> 'a kcons_scheme put \<Rightarrow> u32 \<Rightarrow> u64 \<Rightarrow> int \<Rightarrow> 'a kcons_scheme \<Rightarrow>
    (int option \<times> 'a kcons_scheme) option" where
  \<comment> \<open>\<open>n\<close> bytes are still wanted, the next for offset \<open>d\<close>; the result is the final \<open>n\<close>, or
      \<open>None\<close> for the early return\<close>
  "consoleread_loop world put target d n s =
     (if \<not> n > 0 then Some (Some n, s)
      else do {
        (ok, s) \<leftarrow> cons_wait world s;
        (if \<not> ok then Some (None, s)
         else do {
           let c = cons_buf s (cons_slot (cons_r s));
           let s = s\<lparr>cons_r := cons_r s + 1\<rparr>;
           (if c = 4
            then Some (Some n, if of_int n < target then s\<lparr>cons_r := cons_r s - 1\<rparr> else s)
            else do {
              (r, s) \<leftarrow> put d (\<lambda>_. c) 0 1 s;
              (if r = -1 then Some (Some n, s)
               else if c = 10 then Some (Some (n - 1), s)
               else consoleread_loop world put target (d + 1) (n - 1) s) }) }) })"

definition consoleread :: "('a kcons_scheme \<Rightarrow> 'a kcons_scheme option) \<Rightarrow> 'a kcons_scheme put \<Rightarrow> int \<Rightarrow>
    'a kcons_scheme \<Rightarrow> (int \<times> 'a kcons_scheme) option" where
  "consoleread world put n s = do {
     let target = (of_int n :: u32);
     s \<leftarrow> acquire ConsLock s;
     (n', s) \<leftarrow> consoleread_loop world put target 0 n s;
     (case n' of
        None \<Rightarrow> Some (-1, s)
      | Some n' \<Rightarrow> do { s \<leftarrow> release ConsLock s; Some (sint (target - of_int n'), s) }) }"

fun consolewrite_loop ::
  "('a kcons_scheme \<Rightarrow> 'a kcons_scheme option) \<Rightarrow> 'a kcons_scheme get \<Rightarrow> nat \<Rightarrow> nat \<Rightarrow> bool \<Rightarrow> bool \<Rightarrow>
    'a kcons_scheme \<Rightarrow> (nat \<times> 'a kcons_scheme) option" where
  \<comment> \<open>\<open>k\<close> bytes left, \<open>i\<close> done\<close>
  "consolewrite_loop world get 0 i tab wstdin s = Some (i, s)"
| "consolewrite_loop world get (Suc k) i tab wstdin s = do {
     (r, b, s) \<leftarrow> get (\<lambda>_. 0) 0 (of_nat i) 1 s;
     (if r = -1 then Some (i, s)
      else let c = b 0 in
        if i = 0 \<and> c = 9 then consolewrite_loop world get k (Suc i) True wstdin s
        else if tab
        then (if c = 9 then consolewrite_loop world get k (Suc i) tab True s
              else do {
                s \<leftarrow> (if wstdin then consputc (ucast c) s else Some s);
                consolewrite_loop world get k (Suc i) tab wstdin (cons_put c s) })
        else do {
          s \<leftarrow> uartputc world (ucast c) s;
          consolewrite_loop world get k (Suc i) tab wstdin s }) }"

definition consolewrite :: "('a kcons_scheme \<Rightarrow> 'a kcons_scheme option) \<Rightarrow> 'a kcons_scheme get \<Rightarrow> int \<Rightarrow>
    'a kcons_scheme \<Rightarrow> (int \<times> 'a kcons_scheme) option" where
  "consolewrite world get n s = do {
     (i, s) \<leftarrow> consolewrite_loop world get (nat n) 0 False False s;
     Some (int i, s) }"

definition console_dev :: "('a kcons_scheme \<Rightarrow> 'a kcons_scheme option) \<Rightarrow> ('a kcons_scheme) devops" where
  \<comment> \<open>\<open>devsw[CONSOLE]\<close>\<close>
  "console_dev world = \<lparr>dv_isdir = None, dv_iread = None,
     dv_read = Some (\<lambda>ip put off n. consoleread world put (sint n)),
     dv_write = Some (consolewrite world)\<rparr>"

definition consoleinit :: "'a kcons_scheme \<Rightarrow> 'a kcons_scheme" where
  \<comment> \<open>the entry of \<open>devsw\<close> is \<open>console_dev\<close>\<close>
  "consoleinit s = uartinit (s\<lparr>lk := (lk s)(ConsLock := None)\<rparr>)"

end
