(* ===== verification/ConsoleProps.thy ===== *)
theory ConsoleProps
  imports Console ProcProps
begin

text \<open>
  Properties of the console: what the line discipline does to the input ring, and what formatted
  output sends to the UART.
\<close>

section \<open>Output\<close>

definition uart_ready :: "'a kcons_scheme \<Rightarrow> bool" where
  \<comment> \<open>the transmitter becomes idle again after any number of reads\<close>
  "uart_ready s \<longleftrightarrow> \<not> panicked s \<and> (\<forall>n. \<exists>m \<ge> n. uart_in s m AND LSR_TX_IDLE \<noteq> 0)"

definition sent :: "nat \<Rightarrow> u8 list \<Rightarrow> 'a kcons_scheme \<Rightarrow> 'a kcons_scheme" where
  \<comment> \<open>the state after the bytes \<open>cs\<close> have been sent, with \<open>m\<close> register reads in all\<close>
  "sent m cs s = s\<lparr>uart_reads := m, uart_out := uart_out s @ map (Pair THR) cs\<rparr>"

lemma sent_simps [simp]:
  "uart_in (sent m cs s) = uart_in s" "panicked (sent m cs s) = panicked s" "noff (sent m cs s) = noff s"
  "lk (sent m cs s) = lk s" "procs (sent m cs s) = procs s" "curp (sent m cs s) = curp s"
  "cons_buf (sent m cs s) = cons_buf s" "cons_r (sent m cs s) = cons_r s" "cons_w (sent m cs s) = cons_w s"
  "cons_e (sent m cs s) = cons_e s" "uart_ready (sent m cs s) = uart_ready s" "cpuid (sent m cs s) = cpuid s"
  "pr_locking (sent m cs s) = pr_locking s"
  "sent m' ds (sent m cs s) = sent m' (cs @ ds) s"
  by (simp_all add: sent_def uart_ready_def)

lemma sent_nil: "sent (uart_reads s) [] s = s"
  by (simp add: sent_def)

lemma sent_nothing: "\<exists>m. Some s = Some (sent m [] s)"
  using sent_nil [of s, symmetric] by blast

lemma uart_wait_idle_spec:
  assumes "uart_ready s"
  shows "\<exists>m. uart_wait_idle s = Some (s\<lparr>uart_reads := m\<rparr>)"
proof -
  have "uart_reads s \<le> k \<Longrightarrow> uart_in s k AND LSR_TX_IDLE \<noteq> 0 \<Longrightarrow> \<exists>m. uart_wait_idle s = Some (s\<lparr>uart_reads := m\<rparr>)" for k
  proof (induction "k - uart_reads s" arbitrary: s)
    case 0
    then have "uart_wait_idle s = Some (s\<lparr>uart_reads := Suc (uart_reads s)\<rparr>)"
      by (subst uart_wait_idle.simps) (simp add: ReadReg_def)
    then show ?case by blast
  next
    case (Suc d)
    let ?t = "s\<lparr>uart_reads := Suc (uart_reads s)\<rparr>"
    have "\<exists>m. uart_wait_idle ?t = Some (?t\<lparr>uart_reads := m\<rparr>)"
      by (rule Suc.hyps(1)) (use Suc.hyps(2) Suc.prems in simp_all)
    then obtain m where "uart_wait_idle ?t = Some (s\<lparr>uart_reads := m\<rparr>)" by auto
    moreover have "uart_wait_idle s = (if uart_in s (uart_reads s) AND LSR_TX_IDLE = 0 then uart_wait_idle ?t else Some ?t)"
      by (subst uart_wait_idle.simps) (simp add: ReadReg_def)
    ultimately show ?case by (cases "uart_in s (uart_reads s) AND LSR_TX_IDLE = 0") auto
  qed
  moreover obtain k where "uart_reads s \<le> k" "uart_in s k AND LSR_TX_IDLE \<noteq> 0"
    using assms unfolding uart_ready_def by blast
  ultimately show ?thesis by blast
qed

lemma uartputc_sync_spec:
  assumes "uart_ready s"
  shows "\<exists>m. uartputc_sync c s = Some (sent m [ucast c] s)"
proof -
  have "uart_ready (push_off s)" using assms by (simp add: uart_ready_def push_off_def)
  then obtain m where "uart_wait_idle (push_off s) = Some ((push_off s)\<lparr>uart_reads := m\<rparr>)"
    using uart_wait_idle_spec by blast
  then show ?thesis
    using assms by (auto simp: uartputc_sync_def uart_ready_def sent_def WriteReg_def pop_off_def push_off_def)
qed

definition echo :: "u32 \<Rightarrow> u8 list" where
  "echo c = (if c = BACKSPACE then [8, 32, 8] else [ucast c])"

lemma consputc_spec:
  assumes "uart_ready s"
  shows "\<exists>m. consputc c s = Some (sent m (echo c) s)"
proof (cases "c = BACKSPACE")
  case True
  obtain m1 where 1: "uartputc_sync 8 s = Some (sent m1 [8] s)" using uartputc_sync_spec [OF assms, of 8] by auto
  obtain m2 where 2: "uartputc_sync 32 (sent m1 [8] s) = Some (sent m2 [8, 32] s)"
    using uartputc_sync_spec [of "sent m1 [8] s" 32] assms by auto
  obtain m3 where "uartputc_sync 8 (sent m2 [8, 32] s) = Some (sent m3 [8, 32, 8] s)"
    using uartputc_sync_spec [of "sent m2 [8, 32] s" 8] assms by auto
  then have "consputc c s = Some (sent m3 (echo c) s)" using True 1 2 by (simp add: consputc_def echo_def)
  then show ?thesis by blast
next
  case False
  then show ?thesis using uartputc_sync_spec [OF assms] by (simp add: consputc_def echo_def)
qed

lemma echo_byte [simp]: "echo (ucast (c :: u8)) = [c]"
proof -
  have "(ucast c :: u32) \<noteq> BACKSPACE"
  proof
    assume "(ucast c :: u32) = BACKSPACE"
    then have "unat (ucast c :: u32) = unat BACKSPACE" by simp
    then show False using unat_bound [of c] by (simp add: BACKSPACE_def unsigned_ucast_eq take_bit_nat_eq_self)
  qed
  moreover have "(ucast (ucast c :: u32) :: u8) = c" by (rule bit_word_eqI) (simp add: bit_simps)
  ultimately show ?thesis by (simp add: echo_def)
qed

lemma consputs_spec:
  "uart_ready s \<Longrightarrow> \<exists>m. consputs cs s = Some (sent m cs s)"
proof (induction cs arbitrary: s)
  case Nil
  then show ?case using sent_nothing by simp
next
  case (Cons c cs)
  obtain m where m: "consputc (ucast c) s = Some (sent m [c] s)" using consputc_spec [OF Cons.prems, of "ucast c"] by auto
  obtain n where "consputs cs (sent m [c] s) = Some (sent n ([c] @ cs) s)"
    using Cons.IH [of "sent m [c] s"] Cons.prems by auto
  then show ?case using m by auto
qed

section \<open>The input ring\<close>

definition ring :: "'a kcons_scheme \<Rightarrow> u32 \<Rightarrow> u32 \<Rightarrow> u8 list" where
  \<comment> \<open>the bytes at the indices from \<open>a\<close> up to \<open>b\<close>\<close>
  "ring s a b = map (\<lambda>i. cons_buf s (cons_slot (a + of_nat i))) [0..<unat (b - a)]"

definition cons_ok :: "'a kcons_scheme \<Rightarrow> bool" where
  \<comment> \<open>\<open>r\<close>, \<open>w\<close>, \<open>e\<close> in this order, at most a buffer apart\<close>
  "cons_ok s \<longleftrightarrow> cons_w s - cons_r s \<le> cons_e s - cons_r s \<and> cons_e s - cons_r s \<le> of_nat INPUT_BUF_SIZE"

lemma slot_add: "cons_slot (a + of_nat i) = (unat a + i) mod INPUT_BUF_SIZE"
proof -
  have "unat (a + of_nat i) = (unat a + i) mod 2 ^ 32"
    by (simp add: unat_word_ariths unat_of_nat mod_simps)
  moreover have "(x mod 2 ^ 32) mod INPUT_BUF_SIZE = x mod INPUT_BUF_SIZE" for x :: nat
    by (simp add: INPUT_BUF_SIZE_def mod_mod_cancel)
  ultimately show ?thesis by (simp add: cons_slot_def)
qed

lemma slot_distinct:
  "i < j \<Longrightarrow> j - i < INPUT_BUF_SIZE \<Longrightarrow> cons_slot (a + of_nat i) \<noteq> cons_slot (a + of_nat j)"
  by (auto simp: slot_add nat_mod_eq_iff INPUT_BUF_SIZE_def) presburger

lemma unat_word_gap: "unat (w - r) \<le> unat (e - r) \<Longrightarrow> unat (e - w) = unat (e - r) - unat (w - (r :: u32))"
proof -
  assume "unat (w - r) \<le> unat (e - r)"
  then have "unat ((e - r) - (w - r)) = unat (e - r) - unat (w - r)"
    by (intro unat_sub) (simp add: word_le_nat_alt)
  then show ?thesis by (simp add: algebra_simps)
qed

lemma unat_next: "unat (x :: u32) < 2 ^ 31 \<Longrightarrow> unat (x + 1) = Suc (unat x)"
  by (simp add: unat_word_ariths)

lemma ring_length [simp]: "length (ring s a b) = unat (b - a)"
  by (simp add: ring_def)

lemma ring_append:
  assumes "unat (w - r) \<le> unat (e - r)"
  shows "ring s r w @ ring s w e = ring s r e"
proof (rule nth_equalityI)
  show "length (ring s r w @ ring s w e) = length (ring s r e)" using assms unat_word_gap [OF assms] by simp
  fix i assume "i < length (ring s r w @ ring s w e)"
  then have i: "i < unat (e - r)" using assms unat_word_gap [OF assms] by simp
  show "(ring s r w @ ring s w e) ! i = ring s r e ! i"
  proof (cases "i < unat (w - r)")
    case True
    then show ?thesis using i by (simp add: ring_def nth_append)
  next
    case False
    then have "w + of_nat (i - unat (w - r)) = r + of_nat i" by (simp add: of_nat_diff)
    then show ?thesis using False i unat_word_gap [OF assms] by (simp add: ring_def nth_append add.commute)
  qed
qed

lemma ring_put_old:
  assumes "unat (b - a) \<le> unat (cons_e s - a)" "unat (cons_e s - a) < INPUT_BUF_SIZE"
  shows "ring (cons_put c s) a b = ring s a b"
proof -
  have "cons_slot (a + of_nat i) \<noteq> cons_slot (cons_e s)" if "i < unat (b - a)" for i
    using slot_distinct [of i "unat (cons_e s - a)" a] that assms by simp
  then show ?thesis by (simp add: ring_def cons_put_def)
qed

lemma ring_put_new:
  assumes "unat (cons_e s - a) < INPUT_BUF_SIZE"
  shows "ring (cons_put c s) a (cons_e s + 1) = ring s a (cons_e s) @ [c]"
proof -
  have n: "unat (cons_e s + 1 - a) = Suc (unat (cons_e s - a))"
    using unat_next [of "cons_e s - a"] assms by (simp add: INPUT_BUF_SIZE_def diff_add_eq)
  have "ring (cons_put c s) a (cons_e s) = ring s a (cons_e s)" by (rule ring_put_old) (use assms in simp_all)
  then show ?thesis by (simp add: ring_def n cons_put_def)
qed

section \<open>The line editor\<close>

definition cons_view :: "'a kcons_scheme \<Rightarrow> u8 list \<times> u8 list" where
  \<comment> \<open>what a reader may take, and the line being edited\<close>
  "cons_view s = (ring s (cons_r s) (cons_w s), ring s (cons_w s) (cons_e s))"

fun line_edit :: "u8 \<Rightarrow> u8 list \<times> u8 list \<Rightarrow> u8 list \<times> u8 list" where
  \<comment> \<open>what a key does: control-U, backspace or delete, tab, any other\<close>
  "line_edit c (q, l) =
     (if c = 21 then (q, rev (dropWhile (\<lambda>x. x \<noteq> 10) (rev l)))
      else if c = 8 \<or> c = 127 then (q, butlast l)
      else if c = 9 then (q @ l @ [9], [])
      else if c \<noteq> 0 \<and> length q + length l < INPUT_BUF_SIZE
      then let c = (if c = 13 then 10 else c); l = l @ [c]
           in if c = 10 \<or> c = 4 \<or> length q + length l = INPUT_BUF_SIZE then (q @ l, []) else (q, l)
      else (q, l))"

definition wakeable :: "'a kproc_scheme \<Rightarrow> bool" where
  "wakeable s \<longleftrightarrow> (\<forall>q < NPROC. q \<noteq> curp s \<longrightarrow> lk s (ProcLock q) = None)"

lemma upd_procs_cons [simp]:
  "cons_buf (upd_procs P s) = cons_buf s" "cons_r (upd_procs P s) = cons_r s" "cons_w (upd_procs P s) = cons_w s"
  "cons_e (upd_procs P s) = cons_e s" "uart_in (upd_procs P s) = uart_in s" "panicked (upd_procs P s) = panicked s"
  "input_state (upd_procs P s) = input_state s" "uart_out (upd_procs P s) = uart_out s"
  by (simp_all add: upd_procs_def)

lemma cons_put_simps [simp]:
  "cons_r (cons_put c s) = cons_r s" "cons_w (cons_put c s) = cons_w s" "cons_e (cons_put c s) = cons_e s + 1"
  "lk (cons_put c s) = lk s" "curp (cons_put c s) = curp s" "procs (cons_put c s) = procs s"
  by (simp_all add: cons_put_def)

lemma wakeable_frame [simp]: "wakeable (sent m cs s) = wakeable s" "wakeable (cons_put c s) = wakeable s"
  "wakeable (s\<lparr>cons_e := e\<rparr>) = wakeable s"
  by (simp_all add: wakeable_def)

lemma ring_frame [simp]:
  "ring (sent m cs s) = ring s" "ring (upd_procs P s) = ring s" "ring (s\<lparr>cons_w := x\<rparr>) = ring s"
  "ring (s\<lparr>cons_e := x\<rparr>) = ring s" "ring (s\<lparr>cons_r := x\<rparr>) = ring s"
  by (simp_all add: ring_def fun_eq_iff)

lemma cons_okD:
  assumes "cons_ok s"
  shows "unat (cons_w s - cons_r s) \<le> unat (cons_e s - cons_r s)" "unat (cons_e s - cons_r s) \<le> INPUT_BUF_SIZE"
    "unat (cons_e s - cons_w s) = unat (cons_e s - cons_r s) - unat (cons_w s - cons_r s)"
proof -
  show 1: "unat (cons_w s - cons_r s) \<le> unat (cons_e s - cons_r s)" and "unat (cons_e s - cons_r s) \<le> INPUT_BUF_SIZE"
    using assms by (simp_all add: cons_ok_def word_le_nat_alt INPUT_BUF_SIZE_def)
  show "unat (cons_e s - cons_w s) = unat (cons_e s - cons_r s) - unat (cons_w s - cons_r s)"
    by (rule unat_word_gap [OF 1])
qed

lemma cons_ok_iff:
  "cons_ok s \<longleftrightarrow> unat (cons_w s - cons_r s) \<le> unat (cons_e s - cons_r s) \<and>
     unat (cons_e s - cons_r s) \<le> INPUT_BUF_SIZE"
  by (simp add: cons_ok_def word_le_nat_alt INPUT_BUF_SIZE_def)

lemma cons_commit_view:
  assumes "wakeable s" "cons_ok s"
  shows "\<exists>t. cons_commit s = Some t \<and> cons_ok t \<and>
    cons_view t = (fst (cons_view s) @ snd (cons_view s), [])"
proof -
  let ?t = "s\<lparr>cons_w := cons_e s\<rparr>"
  have "cons_commit s = Some (upd_procs (wake OnCons (curp ?t) (procs ?t)) ?t)"
    unfolding cons_commit_def by (rule wakeup_spec) (use assms in \<open>simp add: wakeable_def\<close>)
  moreover have "ring s (cons_r s) (cons_e s) = ring s (cons_r s) (cons_w s) @ ring s (cons_w s) (cons_e s)"
    using ring_append cons_okD(1) [OF assms(2)] by metis
  ultimately show ?thesis using cons_okD(2) [OF assms(2)] by (auto simp: cons_view_def cons_ok_iff ring_def)
qed

lemma cons_put_view:
  assumes "cons_ok s" "unat (cons_e s - cons_r s) < INPUT_BUF_SIZE"
  shows "cons_ok (cons_put c s)" "cons_view (cons_put c s) = (fst (cons_view s), snd (cons_view s) @ [c])"
    "unat (cons_e s + 1 - cons_r s) = Suc (unat (cons_e s - cons_r s))"
proof -
  note ok = cons_okD [OF assms(1)]
  show n: "unat (cons_e s + 1 - cons_r s) = Suc (unat (cons_e s - cons_r s))"
    using unat_next [of "cons_e s - cons_r s"] assms(2) by (simp add: INPUT_BUF_SIZE_def diff_add_eq)
  show "cons_ok (cons_put c s)" using ok assms(2) by (simp add: cons_ok_iff n)
  show "cons_view (cons_put c s) = (fst (cons_view s), snd (cons_view s) @ [c])"
    using ring_put_old [of "cons_w s" "cons_r s" s c] ring_put_new [of s "cons_w s" c] ok assms(2)
    by (simp add: cons_view_def)
qed

lemma cons_erase_view:
  assumes "cons_ok s" "cons_e s \<noteq> cons_w s"
  shows "cons_ok (s\<lparr>cons_e := cons_e s - 1\<rparr>)"
    "cons_view (s\<lparr>cons_e := cons_e s - 1\<rparr>) = (fst (cons_view s), butlast (snd (cons_view s)))"
    "snd (cons_view s) \<noteq> [] \<and> last (snd (cons_view s)) = cons_buf s (cons_slot (cons_e s - 1))"
proof -
  note ok = cons_okD [OF assms(1)]
  have "unat (cons_e s - cons_w s) \<noteq> 0" using assms(2) by (simp add: unat_eq_0)
  then obtain k where k: "unat (cons_e s - cons_w s) = Suc k" by (cases "unat (cons_e s - cons_w s)") auto
  have pred: "unat (x - 1) = unat x - 1" if "unat x \<noteq> 0" for x :: u32
    using unat_sub [of 1 x] that by (simp add: word_le_nat_alt)
  have e: "unat (cons_e s - 1 - cons_w s) = k" using pred [of "cons_e s - cons_w s"] k by (simp add: diff_right_commute)
  have r: "unat (cons_e s - 1 - cons_r s) = unat (cons_e s - cons_r s) - 1"
    using pred [of "cons_e s - cons_r s"] k ok(3) by (simp add: diff_right_commute)
  show "cons_ok (s\<lparr>cons_e := cons_e s - 1\<rparr>)" 
    using ok k by (simp add: cons_ok_iff r) arith
  have "cons_w s + of_nat (unat (cons_e s - 1 - cons_w s)) = cons_e s - 1" by simp
  then have at: "cons_w s + of_nat k = cons_e s - 1" by (simp add: e)
  have "ring s (cons_w s) (cons_e s) = ring s (cons_w s) (cons_e s - 1) @ [cons_buf s (cons_slot (cons_e s - 1))]"
    by (simp add: ring_def e k at)
  then show "cons_view (s\<lparr>cons_e := cons_e s - 1\<rparr>) = (fst (cons_view s), butlast (snd (cons_view s)))"
    and "snd (cons_view s) \<noteq> [] \<and> last (snd (cons_view s)) = cons_buf s (cons_slot (cons_e s - 1))"
    by (simp_all add: cons_view_def)
qed

lemma rev_dropWhile_snoc:
  "l \<noteq> [] \<Longrightarrow> rev (dropWhile P (rev l)) = (if P (last l) then rev (dropWhile P (rev (butlast l))) else l)"
  by (cases l rule: rev_cases) simp_all

definition erased :: "bool \<Rightarrow> u8 list \<Rightarrow> u8 list" where
  "erased nl l = rev (dropWhile (\<lambda>x. nl \<longrightarrow> x \<noteq> 10) (rev l))"

lemma kill_line_view:
  assumes "uart_ready s" "cons_ok s"
  shows "\<exists>t. kill_line nl s = Some t \<and> cons_ok t \<and> wakeable t = wakeable s \<and>
    cons_r t = cons_r s \<and> cons_w t = cons_w s \<and>
    cons_view t = (fst (cons_view s), erased nl (snd (cons_view s)))"
  using assms
proof (induction "length (snd (cons_view s))" arbitrary: s)
  case 0
  then have "cons_e s = cons_w s" "snd (cons_view s) = []" by (simp_all add: cons_view_def ring_def unat_eq_0)
  then show ?case using 0 by (subst kill_line.simps) (auto simp: erased_def prod_eq_iff ring_def cons_view_def)
next
  case (Suc k)
  have ne: "cons_e s \<noteq> cons_w s" using Suc.hyps(2) by (auto simp: cons_view_def)
  note er = cons_erase_view [OF Suc.prems(2) ne]
  let ?s = "s\<lparr>cons_e := cons_e s - 1\<rparr>"
  have step: "erased nl (snd (cons_view s)) =
      (if nl \<longrightarrow> cons_buf s (cons_slot (cons_e s - 1)) \<noteq> 10 then erased nl (butlast (snd (cons_view s))) else snd (cons_view s))"
    using rev_dropWhile_snoc [of "snd (cons_view s)"] er(3) by (simp add: erased_def)
  show ?case
  proof (cases "nl \<longrightarrow> cons_buf s (cons_slot (cons_e s - 1)) \<noteq> 10")
    case True
    have "uart_ready ?s" using Suc.prems(1) by (simp add: uart_ready_def)
    then obtain m where m: "consputc BACKSPACE ?s = Some (sent m (echo BACKSPACE) ?s)" using consputc_spec by blast
    let ?u = "sent m (echo BACKSPACE) ?s"
    have view: "cons_view ?u = cons_view ?s" and ok: "cons_ok ?u" using er(1) by (simp_all add: cons_view_def cons_ok_iff)
    have "\<exists>t. kill_line nl ?u = Some t \<and> cons_ok t \<and> wakeable t = wakeable ?u \<and> cons_r t = cons_r ?u \<and> cons_w t = cons_w ?u \<and>
        cons_view t = (fst (cons_view ?u), erased nl (snd (cons_view ?u)))"
      by (rule Suc.hyps(1)) (use Suc.hyps(2) er(2) ok view \<open>uart_ready ?s\<close> in simp_all)
    moreover have "kill_line nl s = kill_line nl ?u" using ne True m by (subst kill_line.simps) simp
    ultimately show ?thesis using step True view er(2) by auto
  next
    case False
    then have "kill_line nl s = Some s" by (subst kill_line.simps) auto
    then show ?thesis using step False Suc.prems by (auto simp: prod_eq_iff)
  qed
qed

lemma length_view: "cons_ok s \<Longrightarrow> length (fst (cons_view s)) + length (snd (cons_view s)) = unat (cons_e s - cons_r s)"
  using cons_okD [of s] by (simp add: cons_view_def)

lemma sent_view [simp]: "cons_view (sent m cs s) = cons_view s" "cons_ok (sent m cs s) = cons_ok s"
  by (simp_all add: cons_view_def cons_ok_iff)

lemma normalintr_default:
  assumes "uart_ready s" "cons_ok s" "wakeable s" "c \<noteq> 16" "c \<noteq> 21" "c \<noteq> 8" "c \<noteq> 127" "c \<noteq> 9" "c \<noteq> 0"
    "unat (cons_e s - cons_r s) < INPUT_BUF_SIZE"
  shows "\<exists>t. normalintr c s = Some t \<and> cons_ok t \<and> cons_view t = line_edit c (cons_view s)"
proof -
  define d where "d = (if c = 13 then 10 else c)"
  obtain m where m: "consputc (ucast d) s = Some (sent m [d] s)" using consputc_spec [OF assms(1), of "ucast d"] by auto
  let ?u = "sent m [d] s" and ?p = "cons_put d (sent m [d] s)"
  have put: "cons_ok ?p" "cons_view ?p = (fst (cons_view s), snd (cons_view s) @ [d])"
    "unat (cons_e s + 1 - cons_r s) = Suc (unat (cons_e s - cons_r s))"
    using cons_put_view(1,2) [of ?u d] cons_put_view(3) [of ?u] assms(2,10) by simp_all
  have room: "cons_e s - cons_r s < of_nat INPUT_BUF_SIZE" using assms(10) by (simp add: word_less_nat_alt INPUT_BUF_SIZE_def)
  have full: "cons_e s + 1 - cons_r s = of_nat INPUT_BUF_SIZE \<longleftrightarrow> Suc (unat (cons_e s - cons_r s)) = INPUT_BUF_SIZE"
    unfolding put(3) [symmetric] by (simp add: INPUT_BUF_SIZE_def word_unat_eq_iff)
  have run: "normalintr c s = (if d = 10 \<or> d = 4 \<or> Suc (unat (cons_e s - cons_r s)) = INPUT_BUF_SIZE then cons_commit ?p else Some ?p)"
    using assms(4-9) room m full by (simp add: normalintr_def d_def [symmetric])
  have spec: "line_edit c (cons_view s) = (if d = 10 \<or> d = 4 \<or> Suc (unat (cons_e s - cons_r s)) = INPUT_BUF_SIZE
      then (fst (cons_view s) @ snd (cons_view s) @ [d], []) else (fst (cons_view s), snd (cons_view s) @ [d]))"
    using assms(4-9) assms(10) length_view [OF assms(2)]
    by (cases "cons_view s") (simp add: d_def [symmetric] Let_def)
  show ?thesis
    using run spec put cons_commit_view [of ?p] assms(3) by (auto simp: fst_def snd_def split: if_splits)
qed

text \<open>C23: A key pressed at the console does to the pair of the committed bytes and the line being
  edited exactly what the line editor specifies - append (a carriage return as a newline), erase one
  character, kill the line back to a newline, commit at a newline, control-D or when 128 bytes are held,
  drop at 128 bytes - and keeps the three indices in order and at most 128 apart; the handler returns
  whenever the transmitter becomes idle again and the process locks are free.  A tab needs room, which
  the code does not check.\<close>
theorem normalintr_edits_line:
  assumes "uart_ready s" "cons_ok s" "wakeable s" "c \<noteq> 16"
    and "c = 9 \<longrightarrow> unat (cons_e s - cons_r s) < INPUT_BUF_SIZE"
  shows "\<exists>t. normalintr c s = Some t \<and> cons_ok t \<and> cons_view t = line_edit c (cons_view s)"
proof -
  obtain q l where v: "cons_view s = (q, l)" by (cases "cons_view s")
  consider "c = 21" | "c = 8 \<or> c = 127" | "c = 9"
    | "c \<noteq> 21" "c \<noteq> 8" "c \<noteq> 127" "c \<noteq> 9" "c = 0 \<or> \<not> unat (cons_e s - cons_r s) < INPUT_BUF_SIZE"
    | "c \<noteq> 21" "c \<noteq> 8" "c \<noteq> 127" "c \<noteq> 9" "c \<noteq> 0" "unat (cons_e s - cons_r s) < INPUT_BUF_SIZE" by blast
  then show ?thesis
  proof cases
    case 1
    then show ?thesis using kill_line_view [OF assms(1,2), of True] v by (auto simp: normalintr_def erased_def)
  next
    case 2
    show ?thesis
    proof (cases "cons_e s = cons_w s")
      case True
      then have "l = []" using v by (auto simp: cons_view_def ring_def)
      then show ?thesis using 2 True v assms(2) by (auto simp: normalintr_def)
    next
      case False
      have "uart_ready (s\<lparr>cons_e := cons_e s - 1\<rparr>)" using assms(1) by (simp add: uart_ready_def)
      then obtain m cs where "consputc BACKSPACE (s\<lparr>cons_e := cons_e s - 1\<rparr>) = Some (sent m cs (s\<lparr>cons_e := cons_e s - 1\<rparr>))"
        using consputc_spec by blast
      then show ?thesis using 2 False v cons_erase_view [OF assms(2) False] by (auto simp: normalintr_def)
    qed
  next
    case 3
    have "cons_ok (cons_put 9 s)" "cons_view (cons_put 9 s) = (q, l @ [9])"
      using cons_put_view(1,2) [of s 9] assms(2,5) 3 v by simp_all
    then show ?thesis using 3 v cons_commit_view [of "cons_put 9 s"] assms(3) by (auto simp: normalintr_def)
  next
    case 4
    have "\<not> cons_e s - cons_r s < of_nat INPUT_BUF_SIZE \<or> c = 0" using 4 by (auto simp: word_less_nat_alt INPUT_BUF_SIZE_def)
    then show ?thesis using 4 v assms(2,4) length_view [OF assms(2)] by (auto simp: normalintr_def)
  next
    case 5
    then show ?thesis using normalintr_default [OF assms(1-4)] by blast
  qed
qed

definition console_machine :: kcons where
  \<comment> \<open>an idle console: the transmitter is always ready\<close>
  "console_machine = kfile.extend machine
     (kcons.fields (\<lambda>_. 0x20) 0 [] (\<lambda>_. 0) 0 0 False True (\<lambda>_. 0) 0 0 0 NORMAL 0)"

lemma console_machine_simps [simp]:
  "uart_in console_machine = (\<lambda>_. 0x20)" "panicked console_machine = False" "pr_locking console_machine = True"
  "lk console_machine = (\<lambda>_. None)" "curp console_machine = 0" "cons_buf console_machine = (\<lambda>_. 0)"
  "cons_r console_machine = 0" "cons_w console_machine = 0" "cons_e console_machine = 0" "noff console_machine = 0"
  by (simp_all add: console_machine_def machine_def kcons.defs kfile.defs)

definition typing :: kcons where
  \<comment> \<open>the two letters of a command typed so far\<close>
  "typing = console_machine\<lparr>cons_buf := (\<lambda>i. [108, 115] ! i), cons_e := 2\<rparr>"

theorem normalintr_edits_line_witness:
  "\<exists>t. normalintr 10 typing = Some t \<and> cons_ok t \<and> cons_view t = ([108, 115, 10], [])"
proof -
  have v: "cons_view typing = ([], [108, 115])"
    by (simp add: typing_def cons_view_def ring_def cons_slot_def INPUT_BUF_SIZE_def upt_rec)
  have r: "uart_ready typing" by (simp add: typing_def uart_ready_def LSR_TX_IDLE_def) blast
  have "cons_ok typing" "wakeable typing" by (simp_all add: typing_def cons_ok_iff wakeable_def INPUT_BUF_SIZE_def)
  then show ?thesis using normalintr_edits_line [of typing 10] v r by (simp add: INPUT_BUF_SIZE_def)
qed

text \<open>A tab typed when the buffer holds 128 bytes that nobody has read yet is stored all the
  same: the reader then finds the tab in the place of its oldest byte, and the indices are 129
  apart.\<close>
theorem tab_overwrites_unread:
  assumes "wakeable s" "cons_e s = cons_r s + of_nat INPUT_BUF_SIZE"
  shows "\<exists>t. normalintr 9 s = Some t \<and> cons_r t = cons_r s \<and>
    cons_buf t (cons_slot (cons_r t)) = 9 \<and> \<not> cons_ok t \<and> unat (cons_w t - cons_r t) = 129"
proof -
  let ?u = "(cons_put 9 s)\<lparr>cons_w := cons_e s + 1\<rparr>"
  have "wakeable ?u" using assms(1) by (simp add: wakeable_def)
  then have "normalintr 9 s = Some (upd_procs (wake OnCons (curp ?u) (procs ?u)) ?u)"
    using wakeup_spec [of ?u OnCons] by (simp add: normalintr_def cons_commit_def wakeable_def)
  moreover have "cons_slot (cons_e s) = cons_slot (cons_r s)"
    using slot_add [of "cons_r s" INPUT_BUF_SIZE] slot_add [of "cons_r s" 0] assms(2) by simp
  ultimately show ?thesis using assms(2) by (auto simp: cons_ok_iff INPUT_BUF_SIZE_def cons_put_def)
qed


section \<open>Numbers\<close>

fun digit_value :: "u8 \<Rightarrow> nat" where
  "digit_value d = (if d \<ge> 97 then unat d - 87 else unat d - 48)"

definition number_value :: "nat \<Rightarrow> u8 list \<Rightarrow> nat" where
  \<comment> \<open>the number the digits denote, least digit first\<close>
  "number_value base ds = foldr (\<lambda>d n. digit_value d + base * n) ds 0"

definition signed_value :: "nat \<Rightarrow> u8 list \<Rightarrow> int" where
  "signed_value base cs =
     (if cs \<noteq> [] \<and> hd cs = 45 then - int (number_value base (rev (tl cs))) else int (number_value base (rev cs)))"

lemma digits_value: "d < 16 \<Longrightarrow> digit_value (digits ! d) = d"
proof -
  have "\<forall>d \<in> set [0..<16]. digit_value (digits ! d) = d" by code_simp
  then show "d < 16 \<Longrightarrow> digit_value (digits ! d) = d" by simp
qed

lemma digits_not_minus: "d < 16 \<Longrightarrow> digits ! d \<noteq> 45"
proof -
  have "\<forall>d \<in> set [0..<16]. digits ! d \<noteq> 45" by code_simp
  then show "d < 16 \<Longrightarrow> digits ! d \<noteq> 45" by simp
qed

lemma put_digits_value:
  assumes "2 \<le> unat base" "unat base \<le> 16" "unat x < unat base ^ j" "0 < j" "j \<le> k"
  shows "\<exists>ds. put_digits k base x = Some ds \<and> number_value (unat base) ds = unat x \<and> length ds \<le> j \<and> 45 \<notin> set ds"
  using assms(3-5)
proof (induction k arbitrary: x j)
  case (Suc k)
  let ?d = "digits ! unat (x mod base)"
  have "unat x mod unat base < unat base" using assms(1) by (intro mod_less_divisor) simp
  then have m: "unat (x mod base) < 16" using assms(2) unat_mod [of x base] by linarith
  have split: "unat x = unat (x mod base) + unat base * unat (x div base)" by (simp add: unat_mod unat_div)
  show ?case
  proof (cases "x div base = 0")
    case True
    then show ?thesis using m split digits_value digits_not_minus [of "unat (x mod base)"] Suc.prems(2)
      by (auto simp: number_value_def)
  next
    case False
    have ne: "unat (x div base) \<noteq> 0" using False by (simp add: unat_eq_0)
    obtain i where i: "j = Suc i" using Suc.prems(2) by (cases j) auto
    have lt: "unat (x div base) < unat base ^ i"
      using Suc.prems(1) assms(1) i by (simp add: unat_div less_mult_imp_div_less mult.commute)
    with ne have "0 < i" by (cases i) auto
    then obtain ds where ds: "put_digits k base (x div base) = Some ds" "number_value (unat base) ds = unat (x div base)"
        "length ds \<le> i" "45 \<notin> set ds" using Suc.IH [OF lt] Suc.prems(3) i by auto
    then show ?thesis using False m split digits_value digits_not_minus [of "unat (x mod base)"] i
      by (auto simp: number_value_def)
  qed
qed simp

lemma sint_32: "sint (x :: u32) = (if bit (uint x) 31 then uint x - 2 ^ 32 else uint x)"
proof -
  have "take_bit 32 (uint x) = uint x" using uint_ge_0 [of x] uint_bounded [of x] by (intro take_bit_int_eq_self) simp_all
  then show ?thesis by (simp add: sint_uint signed_take_bit_eq_take_bit_minus)
qed

text \<open>For every 32-bit argument the conversions %d and %x fit the buffer of 16 bytes (at most 11
  characters in decimal, 9 in hexadecimal) and the characters read back as the signed value of the
  argument, the most negative one included.\<close>
theorem printint_denotes:
  assumes "base = 10 \<and> n = 10 \<or> base = 16 \<and> n = 8"
  shows "\<exists>cs. int_chars xx base True = Some cs \<and> signed_value (unat base) cs = sint xx \<and> length cs \<le> Suc n"
proof -
  define x where "x = (if sint xx < 0 then - xx else xx)"
  have b: "2 \<le> unat base" "unat base \<le> 16" "0 < n" "n < 16" using assms by auto
  have "unat x < unat base ^ n" using unat_bound [of x] assms by auto
  then obtain ds where ds: "put_digits 16 base x = Some ds" "number_value (unat base) ds = unat x" "length ds \<le> n" "45 \<notin> set ds"
    using put_digits_value [of base x n 16] b by auto
  have neg: "int (unat x) = - sint xx" if "sint xx < 0"
  proof -
    have "xx \<noteq> 0" using that by auto
    then have "uint xx \<noteq> 0" using word_eq_iff_unsigned [of xx 0, where 'a = int] by simp
    then have range: "0 < uint xx" "uint xx < 2 ^ 32"
      using uint_ge_0 [of xx] uint_bounded [of xx] by (simp_all add: less_le)
    have "uint xx = sint xx + 2 ^ 32" using that range by (auto simp: sint_32 split: if_splits)
    moreover have "int (unat (- xx)) = (- uint xx) mod 2 ^ 32" by (simp add: uint_word_ariths)
    moreover have "(- uint xx) mod 2 ^ 32 = 2 ^ 32 - uint xx"
      using that calculation(1) range
      by (subst mod_pos_pos_trivial [of "2 ^ 32 - uint xx" "2 ^ 32", symmetric]) (auto simp: mod_simps)
    ultimately show ?thesis using that by (simp add: x_def)
  qed
  have pos: "int (unat x) = sint xx" if "\<not> sint xx < 0"
    using that uint_bounded [of xx] by (auto simp: x_def sint_32 split: if_splits)
  show ?thesis
  proof (cases "sint xx < 0")
    case True
    then have "int_chars xx base True = Some (45 # rev ds)" using ds b by (simp add: int_chars_def x_def)
    then show ?thesis using True neg ds by (simp add: signed_value_def)
  next
    case False
    then have "int_chars xx base True = Some (rev ds)" using ds by (simp add: int_chars_def x_def)
    moreover have "rev ds \<noteq> [] \<longrightarrow> hd (rev ds) \<noteq> 45" using ds(4) by (metis hd_in_set set_rev)
    ultimately show ?thesis using False pos ds by (auto simp: signed_value_def)
  qed
qed


section \<open>Formats\<close>

fun nibbles :: "nat \<Rightarrow> u64 \<Rightarrow> u8 list" where
  "nibbles 0 x = []"
| "nibbles (Suc k) x = digits ! unat (drop_bit 60 x) # nibbles k (push_bit 4 x)"

definition conv_chars :: "u8 \<Rightarrow> varg list \<Rightarrow> (varg list \<times> u8 list) option" where
  "conv_chars c args =
     (if c = of_char CHR ''d''
      then (case args of VInt x # args \<Rightarrow> do { cs \<leftarrow> int_chars x 10 True; Some (args, cs) } | _ \<Rightarrow> None)
      else if c = of_char CHR ''x''
      then (case args of VInt x # args \<Rightarrow> do { cs \<leftarrow> int_chars x 16 True; Some (args, cs) } | _ \<Rightarrow> None)
      else if c = of_char CHR ''p''
      then (case args of VPtr x # args \<Rightarrow> Some (args, 48 # 120 # nibbles 16 x) | _ \<Rightarrow> None)
      else if c = of_char CHR ''s''
      then (case args of VStr p # args \<Rightarrow> Some (args, null_str p) | _ \<Rightarrow> None)
      else if c = of_char CHR ''%'' then Some (args, [c])
      else Some (args, [37, c]))"

fun format_chars :: "u8 list \<Rightarrow> varg list \<Rightarrow> u8 list option" where
  \<comment> \<open>the characters a format denotes\<close>
  "format_chars [] args = Some []"
| "format_chars (c # fmt) args =
     (if c \<noteq> 37 then do { cs \<leftarrow> format_chars fmt args; Some (c # cs) }
      else case fmt of [] \<Rightarrow> Some []
           | d # fmt \<Rightarrow> do {
               (args, cs) \<leftarrow> conv_chars d args;
               ds \<leftarrow> format_chars fmt args;
               Some (cs @ ds) })"

lemma put_nibbles_spec: "uart_ready s \<Longrightarrow> \<exists>m. put_nibbles k x s = Some (sent m (nibbles k x) s)"
proof (induction k arbitrary: x s)
  case 0
  then show ?case using sent_nothing by simp
next
  case (Suc k)
  let ?d = "digits ! unat (drop_bit 60 x)"
  obtain m where m: "consputc (ucast ?d) s = Some (sent m [?d] s)"
    using consputc_spec [OF Suc.prems, of "ucast ?d"] by (auto simp only: echo_byte)
  obtain n where "put_nibbles k (push_bit 4 x) (sent m [?d] s) = Some (sent n ([?d] @ nibbles k (push_bit 4 x)) s)"
    using Suc.IH [of "sent m [?d] s" "push_bit 4 x"] Suc.prems by auto
  then show ?case using m by auto
qed

lemma consputc_char: "uart_ready s \<Longrightarrow> c < 256 \<Longrightarrow> \<exists>m. consputc c s = Some (sent m [ucast c] s)"
  using consputc_spec [of s c] by (auto simp: echo_def BACKSPACE_def)

lemma printptr_spec:
  assumes "uart_ready s"
  shows "\<exists>m. printptr x s = Some (sent m (48 # 120 # nibbles 16 x) s)"
proof -
  obtain m1 where 1: "consputc 48 s = Some (sent m1 [48] s)" using consputc_char [OF assms, of 48] by auto
  obtain m2 where 2: "consputc 120 (sent m1 [48] s) = Some (sent m2 [48, 120] s)"
    using consputc_char [of "sent m1 [48] s" 120] assms by auto
  obtain m3 where "put_nibbles 16 x (sent m2 [48, 120] s) = Some (sent m3 ([48, 120] @ nibbles 16 x) s)"
    using put_nibbles_spec [of "sent m2 [48, 120] s" 16 x] assms by auto
  then show ?thesis using 1 2 by (auto simp: printptr_def)
qed

lemma print_conv_spec:
  assumes "uart_ready s" "conv_chars c args = Some (args', cs)"
  shows "\<exists>m. print_conv c args s = Some (args', sent m cs s)"
proof -
  have int: "\<exists>m. printint x b sg s = Some (sent m cs s)" if "int_chars x b sg = Some cs" for x b sg
    using that consputs_spec [OF assms(1), of cs] by (simp add: printint_def)
  obtain m1 where 1: "consputc 37 s = Some (sent m1 [37] s)" using consputc_char [OF assms(1), of 37] by auto
  obtain m2 where "consputc (ucast c) (sent m1 [37] s) = Some (sent m2 [37, c] s)"
    using consputc_spec [of "sent m1 [37] s" "ucast c"] assms(1) by auto
  with 1 have other: "\<exists>m. do { s \<leftarrow> consputc 37 s; s \<leftarrow> consputc (ucast c) s; Some (args, s) } = Some (args, sent m [37, c] s)"
    by auto
  have one: "\<exists>m. consputc (ucast c) s = Some (sent m [c] s)" using consputc_spec [OF assms(1), of "ucast c"] by simp
  consider "c = of_char CHR ''d''" | "c = of_char CHR ''x''" | "c = of_char CHR ''p''" | "c = of_char CHR ''s''"
    | "c = of_char CHR ''%''"
    | "c \<noteq> of_char CHR ''d''" "c \<noteq> of_char CHR ''x''" "c \<noteq> of_char CHR ''p''" "c \<noteq> of_char CHR ''s''" "c \<noteq> of_char CHR ''%''"
    by blast
  then show ?thesis
  proof cases
    case 1
    then obtain x where "args = VInt x # args'" "int_chars x 10 True = Some cs"
      using assms(2) by (auto simp: conv_chars_def bind_Some_iff split: list.splits varg.splits)
    then show ?thesis using 1 int by (fastforce simp: print_conv_def)
  next
    case 2
    then obtain x where "args = VInt x # args'" "int_chars x 16 True = Some cs"
      using assms(2) by (auto simp: conv_chars_def bind_Some_iff split: list.splits varg.splits)
    then show ?thesis using 2 int by (fastforce simp: print_conv_def)
  next
    case 3
    then obtain x where "args = VPtr x # args'" "cs = 48 # 120 # nibbles 16 x"
      using assms(2) by (auto simp: conv_chars_def split: list.splits varg.splits)
    then show ?thesis using 3 printptr_spec [OF assms(1), of x] by (auto simp: print_conv_def)
  next
    case 4
    then obtain p where "args = VStr p # args'" "cs = null_str p"
      using assms(2) by (auto simp: conv_chars_def split: list.splits varg.splits)
    then show ?thesis using 4 consputs_spec [OF assms(1), of cs] by (auto simp: print_conv_def)
  next
    case 5
    then show ?thesis using assms(2) one by (auto simp: print_conv_def conv_chars_def)
  next
    case 6
    then show ?thesis using assms(2) other by (simp add: print_conv_def conv_chars_def)
  qed
qed

lemma printf_loop_spec:
  "uart_ready s \<Longrightarrow> format_chars fmt args = Some cs \<Longrightarrow> \<exists>m. printf_loop fmt args s = Some (sent m cs s)"
proof (induction fmt args arbitrary: s cs rule: format_chars.induct)
  case (1 args)
  then show ?case using sent_nothing by simp
next
  case (2 c fmt args)
  show ?case
  proof (cases "c = 37")
    case False
    then obtain ds where ds: "format_chars fmt args = Some ds" "cs = c # ds"
      using "2.prems"(2) by (auto simp: bind_Some_iff)
    obtain m where m: "consputc (ucast c) s = Some (sent m [c] s)" using consputc_spec [OF "2.prems"(1), of "ucast c"] by auto
    obtain n where "printf_loop fmt args (sent m [c] s) = Some (sent n ([c] @ ds) s)"
      using "2.IH"(1) [OF False, of "sent m [c] s" ds] "2.prems"(1) ds(1) by auto
    then show ?thesis using False m ds by auto
  next
    case True
    show ?thesis
    proof (cases fmt)
      case Nil
      then have "cs = []" "printf_loop (c # fmt) args s = Some s" using True "2.prems"(2) by simp_all
      then show ?thesis using sent_nothing by simp
    next
      case (Cons d fmt')
      then obtain args' as ds where cv: "conv_chars d args = Some (args', as)" "format_chars fmt' args' = Some ds" "cs = as @ ds"
        using True "2.prems"(2) by (auto simp: bind_Some_iff)
      obtain m where m: "print_conv d args s = Some (args', sent m as s)" using print_conv_spec [OF "2.prems"(1) cv(1)] by auto
      obtain n where "printf_loop fmt' args' (sent m as s) = Some (sent n (as @ ds) s)"
        using "2.IH"(2) [of d fmt' "(args', as)" args' as "sent m as s" ds] True Cons "2.prems"(1) cv(1,2) by auto
      then show ?thesis using True Cons m cv by auto
    qed
  qed
qed

lemma sputs_append: "sputs (as @ ds) a m = sputs ds (a + of_nat (length as)) (sputs as a m)"
  by (induction as arbitrary: a m) (simp_all add: algebra_simps)

definition no_ptr :: "varg list \<Rightarrow> bool" where
  "no_ptr args \<longleftrightarrow> (\<forall>a \<in> set args. \<forall>x. a \<noteq> VPtr x)"

lemma sprint_conv_spec:
  assumes "conv_chars c args = Some (args', cs)" "no_ptr args" "off + int (length cs) \<le> sz" "off < sz"
  shows "sprint_conv c args buf off sz m = Some (args', off + int (length cs), sputs cs (buf + of_int off) m)"
    and "no_ptr args'"
  using assms
  by (auto simp: conv_chars_def sprint_conv_def sprintint_def bind_Some_iff no_ptr_def add.assoc
      split: if_splits list.splits varg.splits)

lemma snprintf_loop_spec:
  "format_chars fmt args = Some cs \<Longrightarrow> no_ptr args \<Longrightarrow> off + int (length cs) \<le> sz \<Longrightarrow>
   snprintf_loop fmt args buf off sz m = Some (off + int (length cs), sputs cs (buf + of_int off) m)"
proof (induction fmt args arbitrary: cs off m rule: format_chars.induct)
  case (2 c fmt args)
  show ?case
  proof (cases "off < sz")
    case False
    then have "cs = []" using "2.prems"(3) by (cases cs) auto
    then show ?thesis using False by simp
  next
    case lt: True
    show ?thesis
    proof (cases "c = 37")
      case False
      then obtain ds where ds: "format_chars fmt args = Some ds" "cs = c # ds"
        using "2.prems"(1) by (auto simp: bind_Some_iff)
      then show ?thesis using False lt "2.prems" "2.IH"(1) [OF False, of ds "off + 1"] by (simp add: add.assoc)
    next
      case True
      show ?thesis
      proof (cases fmt)
        case Nil
        then have "cs = []" using True "2.prems"(1) by simp
        then show ?thesis using True Nil lt by simp
      next
        case (Cons d fmt')
        then obtain args' as ds where cv: "conv_chars d args = Some (args', as)" "format_chars fmt' args' = Some ds" "cs = as @ ds"
          using True "2.prems"(1) by (auto simp: bind_Some_iff)
        have len: "off + int (length as) \<le> sz" using "2.prems"(3) cv(3) by simp
        note sc = sprint_conv_spec(1) [OF cv(1) "2.prems"(2) len lt] sprint_conv_spec(2) [OF cv(1) "2.prems"(2) len lt]
        have "snprintf_loop fmt' args' buf (off + int (length as)) sz (sputs as (buf + of_int off) m) =
            Some (off + int (length as) + int (length ds), sputs ds (buf + of_int (off + int (length as))) (sputs as (buf + of_int off) m))"
          using "2.IH"(2) [of d fmt' "(args', as)" args' as ds "off + int (length as)"] True Cons cv sc(2) "2.prems"(3) by simp
        then show ?thesis using True Cons lt cv sc(1) by (simp add: sputs_append add.assoc)
      qed
    qed
  qed
qed simp

text \<open>C24: The kernel's two formatters agree: whatever characters a format without pointer arguments denotes,
  \<open>printf\<close> sends exactly these to the UART, returning with its lock released, and \<open>snprintf\<close> stores
  exactly these at the buffer and returns their number, provided they fit.\<close>
theorem printf_snprintf_agree:
  assumes "format_chars fmt args = Some cs" "no_ptr args" "int (length cs) \<le> sz"
    and "uart_ready s" "lk s PrLock = None"
  shows "(\<exists>n. printf fmt args s = Some (sent n cs s)) \<and>
    snprintf buf sz fmt args m = Some (int (length cs), sputs cs buf m)"
proof
  show "snprintf buf sz fmt args m = Some (int (length cs), sputs cs buf m)"
    using snprintf_loop_spec [OF assms(1,2), of 0 sz buf m] assms(3) by (simp add: snprintf_def)
  show "\<exists>n. printf fmt args s = Some (sent n cs s)"
  proof (cases "pr_locking s")
    case False
    then show ?thesis using printf_loop_spec [OF assms(4,1)] by (auto simp: printf_def)
  next
    case True
    let ?s = "s\<lparr>noff := Suc (noff s), lk := (lk s)(PrLock \<mapsto> cpuid s)\<rparr>"
    have "uart_ready ?s" using assms(4) by (simp add: uart_ready_def)
    then obtain n where n: "printf_loop fmt args ?s = Some (sent n cs ?s)" using printf_loop_spec [OF _ assms(1)] by blast
    have "release PrLock (sent n cs ?s) = Some (sent n cs s)"
      using assms(5) by (simp add: release_held fun_upd_idem) (simp add: sent_def)
    then show ?thesis using True n assms(5) by (auto simp: printf_def acquire_free)
  qed
qed

theorem printf_snprintf_agree_witness:
  "(\<exists>n. printf (asc ''pid %d'') [VInt (- 7)] console_machine = Some (sent n (asc ''pid -7'') console_machine)) \<and>
   snprintf 0x1000 16 (asc ''pid %d'') [VInt (- 7)] (\<lambda>_. 0) = Some (6, sputs (asc ''pid -7'') 0x1000 (\<lambda>_. 0))"
proof -
  have "format_chars (asc ''pid %d'') [VInt (- 7)] = Some (asc ''pid -7'')" by code_simp
  moreover have "uart_ready console_machine" by (simp add: uart_ready_def LSR_TX_IDLE_def) blast
  ultimately show ?thesis
    using printf_snprintf_agree [of "asc ''pid %d''" "[VInt (- 7)]" "asc ''pid -7''" 16 console_machine "0x1000" "\<lambda>_. 0"]
    by (simp add: no_ptr_def asc_def)
qed

end
