(* ===== verification/Mbuf.thy ===== *)
theory Mbuf
  imports Uart
begin

text \<open>
  The state of the network stack, packet buffers (\<open>struct mbuf\<close>) and queues of them from
  \<open>kernel/net.c\<close>, and the random numbers of \<open>kernel/rand.c\<close>.

  A packet buffer is a page of kernel memory and its fields lie there at their C offsets, so that a
  write past the end of the 2048 data bytes hits what really lies behind them.  The structures of the
  layers above (queue heads, cached addresses, sockets, pending address lookups, device rings) are
  records found by address or index.
\<close>

section \<open>State\<close>

record mbufq =
  q_head :: u64
  q_tail :: u64

record arp_entry =
  ae_ip :: u32
  ae_mac :: "u8 list"

record arpq =
  aq_next :: u64
  aq_ip :: u32
  aq_txq :: mbufq

record tcp_cb =
  cb_state :: u8
  cb_iss :: u32
  cb_irs :: u32
  snd_nxt :: u32
  snd_una :: u32
  rcv_nxt :: u32
  rcv_wnd :: u16
  cb_parent :: u64

record sock =
  sk_next :: u64
  sk_type :: u8
  sk_raddr :: u32
  sk_lport :: u16
  sk_rport :: u16
  sk_rxq :: mbufq
  sk_cb :: tcp_cb

record tx_desc =
  td_addr :: u64
  td_length :: u16
  td_cso :: u8
  td_cmd :: u8
  td_status :: u8
  td_css :: u8
  td_special :: u16

record rx_desc =
  rd_addr :: u64
  rd_length :: u16
  rd_status :: u8

record knet = kcons +
  rand_next :: u64
  arp_cache :: "nat \<Rightarrow> arp_entry"
  free_arp_idx :: int
  arpqs :: u64
  arpq_at :: "u64 \<Rightarrow> arpq"
  socks :: "u64 \<Rightarrow> sock"
  sockets :: "nat \<Rightarrow> u64"
  nic_txq :: mbufq
  tx_ring :: "nat \<Rightarrow> tx_desc"
  tx_mbufs :: "nat \<Rightarrow> u64"
  rx_ring :: "nat \<Rightarrow> rx_desc"
  rx_mbufs :: "nat \<Rightarrow> u64"
  nic_regs :: "nat \<Rightarrow> u32"

definition set_sock :: "u64 \<Rightarrow> (sock \<Rightarrow> sock) \<Rightarrow> 'a knet_scheme \<Rightarrow> 'a knet_scheme" where
  "set_sock si f s = s\<lparr>socks := (socks s)(si := f (socks s si))\<rparr>"

definition set_cb :: "u64 \<Rightarrow> (tcp_cb \<Rightarrow> tcp_cb) \<Rightarrow> 'a knet_scheme \<Rightarrow> 'a knet_scheme" where
  "set_cb si f = set_sock si (\<lambda>k. k\<lparr>sk_cb := f (sk_cb k)\<rparr>)"

definition upd_mem :: "(bytes \<Rightarrow> bytes) \<Rightarrow> 'a kmem_scheme \<Rightarrow> 'a kmem_scheme" where
  "upd_mem f s = s\<lparr>mem := f (mem s)\<rparr>"

section \<open>Random numbers\<close>

definition do_rand :: "u64 \<Rightarrow> int" where
  \<comment> \<open>the value returned and stored in \<open>*ctx\<close>; \<open>long\<close> arithmetic stays in range\<close>
  "do_rand ctx =
     (let x = int (unat ctx mod 0x7ffffffe) + 1;
          hi = x div 127773;
          lo = x mod 127773;
          x = 16807 * lo - 2836 * hi;
          x = (if x < 0 then x + 0x7fffffff else x)
      in x - 1)"

definition rand :: "'a knet_scheme \<Rightarrow> int \<times> 'a knet_scheme" where
  "rand s = (let x = do_rand (rand_next s) in (x, s\<lparr>rand_next := of_int x\<rparr>))"

definition srand :: "int \<Rightarrow> 'a knet_scheme \<Rightarrow> 'a knet_scheme" where
  "srand seed s = s\<lparr>rand_next := of_int seed\<rparr>"

section \<open>Packet buffers\<close>

definition MBUF_SIZE :: nat where "MBUF_SIZE = 2048"
definition MBUF_DEFAULT_HEADROOM :: u32 where "MBUF_DEFAULT_HEADROOM = 128"
definition MBUF_CSUM_OFLD_ENABLE :: u8 where "MBUF_CSUM_OFLD_ENABLE = 1"
definition MBUF_CSUM_OFLD_TCP :: u8 where "MBUF_CSUM_OFLD_TCP = 2"

text \<open>The fields, with their offsets in the 2080 bytes of the structure.\<close>

definition mb_next :: "u64 \<Rightarrow> bytes \<Rightarrow> u64" where "mb_next m d = ld64 d m"
definition mb_head :: "u64 \<Rightarrow> bytes \<Rightarrow> u64" where "mb_head m d = ld64 d (m + 8)"
definition mb_len :: "u64 \<Rightarrow> bytes \<Rightarrow> u32" where "mb_len m d = ld32 d (m + 16)"
definition mb_buf :: "u64 \<Rightarrow> u64" where "mb_buf m = m + 20"
definition mb_sip :: "u64 \<Rightarrow> bytes \<Rightarrow> u32" where "mb_sip m d = ld32 d (m + 2068)"
definition mb_sport :: "u64 \<Rightarrow> bytes \<Rightarrow> u16" where "mb_sport m d = ld16 d (m + 2072)"
definition mb_offload :: "u64 \<Rightarrow> bytes \<Rightarrow> u8" where "mb_offload m d = d (m + 2074)"

definition set_mb_next :: "u64 \<Rightarrow> u64 \<Rightarrow> bytes \<Rightarrow> bytes" where "set_mb_next m v = st64 m v"
definition set_mb_head :: "u64 \<Rightarrow> u64 \<Rightarrow> bytes \<Rightarrow> bytes" where "set_mb_head m v = st64 (m + 8) v"
definition set_mb_len :: "u64 \<Rightarrow> u32 \<Rightarrow> bytes \<Rightarrow> bytes" where "set_mb_len m v = st32 (m + 16) v"
definition set_mb_sip :: "u64 \<Rightarrow> u32 \<Rightarrow> bytes \<Rightarrow> bytes" where "set_mb_sip m v = st32 (m + 2068) v"
definition set_mb_sport :: "u64 \<Rightarrow> u16 \<Rightarrow> bytes \<Rightarrow> bytes" where "set_mb_sport m v = st16 (m + 2072) v"
definition or_mb_offload :: "u64 \<Rightarrow> u8 \<Rightarrow> bytes \<Rightarrow> bytes" where
  "or_mb_offload m v d = d(m + 2074 := d (m + 2074) OR v)"

definition mbufpull :: "u64 \<Rightarrow> u32 \<Rightarrow> bytes \<Rightarrow> u64 \<times> bytes" where
  "mbufpull m len d =
     (let tmp = mb_head m d in
      if mb_len m d < len then (0, d)
      else (tmp, set_mb_head m (tmp + ucast len) (set_mb_len m (mb_len m d - len) d)))"

definition mbufpush :: "u64 \<Rightarrow> u32 \<Rightarrow> bytes \<Rightarrow> (u64 \<times> bytes) option" where
  "mbufpush m len d =
     (let d = set_mb_head m (mb_head m d - ucast len) d in
      if mb_head m d < mb_buf m then panic ''mbufpush''
      else Some (mb_head m d, set_mb_len m (mb_len m d + len) d))"

definition mbufput :: "u64 \<Rightarrow> u32 \<Rightarrow> bytes \<Rightarrow> (u64 \<times> bytes) option" where
  "mbufput m len d =
     (let tmp = mb_head m d + ucast (mb_len m d);
          d = set_mb_len m (mb_len m d + len) d in
      if mb_len m d > of_nat MBUF_SIZE then panic ''mbufput'' else Some (tmp, d))"

definition mbuftrim :: "u64 \<Rightarrow> u32 \<Rightarrow> bytes \<Rightarrow> u64 \<times> bytes" where
  "mbuftrim m len d =
     (if len > mb_len m d then (0, d)
      else let d = set_mb_len m (mb_len m d - len) d in (mb_head m d + ucast (mb_len m d), d))"

definition mbuf_init :: "u64 \<Rightarrow> u32 \<Rightarrow> bytes \<Rightarrow> bytes" where
  \<comment> \<open>the assignments of \<open>mbufalloc\<close>\<close>
  "mbuf_init m headroom d =
     (let d = set_mb_next m 0 d; d = set_mb_head m (mb_buf m + ucast headroom) d; d = set_mb_len m 0 d;
          d = mem_set (mb_buf m) 0 MBUF_SIZE d; d = set_mb_sip m 0 d; d = set_mb_sport m 0 d
      in d(m + 2074 := 0))"

definition mbufalloc :: "u32 \<Rightarrow> 'a swapst_scheme \<Rightarrow> (u64 \<times> 'a swapst_scheme) option" where
  "mbufalloc headroom s =
     (if headroom > of_nat MBUF_SIZE then Some (0, s)
      else do {
        (m, s) \<leftarrow> kmalloc s;
        (if m = 0 then Some (0, s) else Some (m, upd_mem (mbuf_init m headroom) s)) })"

definition mbuffree :: "u64 \<Rightarrow> 'a kmem_scheme \<Rightarrow> 'a kmem_scheme option" where
  "mbuffree m s = kfree m s"

section \<open>Queues of packet buffers\<close>

definition mbufq_pushtail :: "mbufq \<Rightarrow> u64 \<Rightarrow> bytes \<Rightarrow> mbufq \<times> bytes" where
  "mbufq_pushtail q m d =
     (let d = set_mb_next m 0 d in
      if q_head q = 0 then (\<lparr>q_head = m, q_tail = m\<rparr>, d)
      else (q\<lparr>q_tail := m\<rparr>, set_mb_next (q_tail q) m d))"

definition mbufq_pophead :: "mbufq \<Rightarrow> bytes \<Rightarrow> u64 \<times> mbufq" where
  "mbufq_pophead q d = (let h = q_head q in if h = 0 then (0, q) else (h, q\<lparr>q_head := mb_next h d\<rparr>))"

definition mbufq_empty :: "mbufq \<Rightarrow> bool" where
  "mbufq_empty q \<longleftrightarrow> q_head q = 0"

definition mbufq_init :: "mbufq \<Rightarrow> mbufq" where
  "mbufq_init q = q\<lparr>q_head := 0\<rparr>"

end
