(* ===== verification/NetTx.thy ===== *)
theory NetTx
  imports Mbuf
begin

text \<open>
  Sending: byte order, the address resolution cache and queue, and the Ethernet, IP, UDP and ARP
  layers of \<open>kernel/net.c\<close>, down to the software queue in front of the network card
  (\<open>e1000_cache\<close> of \<open>kernel/e1000.c\<close>).  Header fields are stored at their offsets in the packet.
\<close>

section \<open>Byte order\<close>

definition bswaps :: "u16 \<Rightarrow> u16" where
  "bswaps v = push_bit 8 (v AND 0x00ff) OR drop_bit 8 (v AND 0xff00)"

definition bswapl :: "u32 \<Rightarrow> u32" where
  "bswapl v = push_bit 24 (v AND 0x000000ff) OR push_bit 8 (v AND 0x0000ff00) OR
     drop_bit 8 (v AND 0x00ff0000) OR drop_bit 24 (v AND 0xff000000)"

section \<open>Addresses\<close>

definition MAKE_IP_ADDR :: "u8 \<Rightarrow> u8 \<Rightarrow> u8 \<Rightarrow> u8 \<Rightarrow> u32" where
  "MAKE_IP_ADDR a b c d = push_bit 24 (ucast a) OR push_bit 16 (ucast b) OR push_bit 8 (ucast c) OR ucast d"

definition local_ip :: u32 where "local_ip = MAKE_IP_ADDR 10 0 2 15"
definition local_mac :: "u8 list" where "local_mac = [0x52, 0x54, 0x00, 0x12, 0x34, 0x56]"
definition broadcast_mac :: "u8 list" where "broadcast_mac = [0xFF, 0xFF, 0xFF, 0xFF, 0xFF, 0xFF]"

definition ETHADDR_LEN :: nat where "ETHADDR_LEN = 6"
definition ARP_MAX_ENTRIES :: nat where "ARP_MAX_ENTRIES = 64"
definition ETHTYPE_IP :: u16 where "ETHTYPE_IP = 0x0800"
definition ETHTYPE_ARP :: u16 where "ETHTYPE_ARP = 0x0806"
definition IPPROTO_ICMP :: u8 where "IPPROTO_ICMP = 1"
definition IPPROTO_TCP :: u8 where "IPPROTO_TCP = 6"
definition IPPROTO_UDP :: u8 where "IPPROTO_UDP = 17"
definition ARP_OP_REQUEST :: u16 where "ARP_OP_REQUEST = 1"
definition ARP_OP_REPLY :: u16 where "ARP_OP_REPLY = 2"

fun put_list :: "u64 \<Rightarrow> u8 list \<Rightarrow> bytes \<Rightarrow> bytes" where
  \<comment> \<open>\<open>memmove\<close> of an address into a header\<close>
  "put_list a [] d = d"
| "put_list a (x # xs) d = put_list (a + 1) xs (d(a := x))"

definition get_list :: "u64 \<Rightarrow> nat \<Rightarrow> bytes \<Rightarrow> u8 list" where
  "get_list a n d = map (\<lambda>i. d (a + of_nat i)) [0..<n]"

definition netinit :: "'a knet_scheme \<Rightarrow> 'a knet_scheme" where
  "netinit s = s\<lparr>lk := (lk s)(ArpLock := None, ArpqLock := None)\<rparr>"

section \<open>The ARP cache\<close>

definition arp_entries :: "'a knet_scheme \<Rightarrow> nat" where
  \<comment> \<open>\<open>min(free_arp_idx, ARP_MAX_ENTRIES)\<close>\<close>
  "arp_entries s = nat (min (free_arp_idx s) (int ARP_MAX_ENTRIES))"

fun arp_find :: "nat \<Rightarrow> nat \<Rightarrow> u32 \<Rightarrow> (nat \<Rightarrow> arp_entry) \<Rightarrow> nat option" where
  "arp_find 0 i ip c = None"
| "arp_find (Suc k) i ip c = (if ae_ip (c i) = ip then Some i else arp_find k (Suc i) ip c)"

definition arp_lookup :: "u32 \<Rightarrow> 'a knet_scheme \<Rightarrow> (u8 list option \<times> 'a knet_scheme) option" where
  "arp_lookup ip s = do {
     s \<leftarrow> acquire ArpLock s;
     let res = map_option (\<lambda>i. ae_mac (arp_cache s i)) (arp_find (arp_entries s) 0 ip (arp_cache s));
     s \<leftarrow> release ArpLock s;
     Some (res, s) }"

definition update_arp :: "u32 \<Rightarrow> u8 list \<Rightarrow> 'a knet_scheme \<Rightarrow> (bool \<times> 'a knet_scheme) option" where
  "update_arp ip mac s = do {
     s \<leftarrow> acquire ArpLock s;
     let (res, s) =
       (case arp_find (arp_entries s) 0 ip (arp_cache s) of None \<Rightarrow> (False, s)
        | Some i \<Rightarrow> (True, s\<lparr>arp_cache := (arp_cache s)(i := (arp_cache s i)\<lparr>ae_mac := mac\<rparr>)\<rparr>));
     s \<leftarrow> release ArpLock s;
     Some (res, s) }"

definition add_arp :: "u32 \<Rightarrow> u8 list \<Rightarrow> 'a knet_scheme \<Rightarrow> 'a knet_scheme option" where
  \<comment> \<open>\<open>None\<close> also where \<open>free_arp_idx++\<close> overflows the \<open>int\<close>, which C leaves undefined\<close>
  "add_arp ip mac s = do {
     s \<leftarrow> acquire ArpLock s;
     (if free_arp_idx s = 2 ^ 31 - 1 then None
      else do {
        let s = s\<lparr>free_arp_idx := free_arp_idx s + 1\<rparr>;
        let k = nat ((free_arp_idx s - 1) mod int ARP_MAX_ENTRIES);
        release ArpLock (s\<lparr>arp_cache := (arp_cache s)(k := \<lparr>ae_ip = ip, ae_mac = mac\<rparr>)\<rparr>) }) }"

section \<open>Packets that wait for an address\<close>

partial_function (option) arpq_find :: "u64 \<Rightarrow> u32 \<Rightarrow> (u64 \<Rightarrow> arpq) \<Rightarrow> u64 option" where
  \<comment> \<open>the first entry for the address from \<open>pos\<close> on, 0 if there is none\<close>
  "arpq_find pos ip q =
     (if pos = 0 then Some 0 else if aq_ip (q pos) = ip then Some pos else arpq_find (aq_next (q pos)) ip q)"

definition arpq_push :: "u64 \<Rightarrow> u64 \<Rightarrow> 'a knet_scheme \<Rightarrow> 'a knet_scheme" where
  "arpq_push pos m s =
     (let a = arpq_at s pos; (q, d) = mbufq_pushtail (aq_txq a) m (mem s)
      in s\<lparr>arpq_at := (arpq_at s)(pos := a\<lparr>aq_txq := q\<rparr>), mem := d\<rparr>)"

definition add_arpq :: "u64 \<Rightarrow> u32 \<Rightarrow> 'a knet_scheme \<Rightarrow> 'a knet_scheme option" where
  \<comment> \<open>the new entry is linked to the head read before the lock is taken again\<close>
  "add_arpq m dip s = do {
     s \<leftarrow> acquire ArpqLock s;
     pos \<leftarrow> arpq_find (arpqs s) dip (arpq_at s);
     (if pos \<noteq> 0 then release ArpqLock (arpq_push pos m s)
      else do {
        s \<leftarrow> release ArpqLock s;
        (new, s) \<leftarrow> kmalloc s;
        (if new = 0 then Some s
         else do {
           let s = s\<lparr>arpq_at := (arpq_at s)(new := \<lparr>aq_next = arpqs s, aq_ip = dip,
                       aq_txq = mbufq_init (aq_txq (arpq_at s new))\<rparr>)\<rparr>;
           let s = arpq_push new m s;
           s \<leftarrow> acquire ArpqLock s;
           release ArpqLock (s\<lparr>arpqs := new\<rparr>) }) }) }"

section \<open>The card's software queue\<close>

definition E1000_ICS :: nat where "E1000_ICS = 0x000C8 div 4"
definition E1000_TDH :: nat where "E1000_TDH = 0x03810 div 4"
definition E1000_TDT :: nat where "E1000_TDT = 0x03818 div 4"
definition E1000_TXDW :: u32 where "E1000_TXDW = 1"

definition e1000_cache :: "u64 \<Rightarrow> 'a knet_scheme \<Rightarrow> 'a knet_scheme option" where
  "e1000_cache m s = do {
     s \<leftarrow> acquire NicLock s;
     let (q, d) = mbufq_pushtail (nic_txq s) m (mem s);
     s \<leftarrow> release NicLock (s\<lparr>nic_txq := q, mem := d\<rparr>);
     Some (if nic_regs s E1000_TDT = nic_regs s E1000_TDH
           then s\<lparr>nic_regs := (nic_regs s)(E1000_ICS := E1000_TXDW)\<rparr> else s) }"

section \<open>Ethernet and ARP\<close>

definition eth_header :: "u64 \<Rightarrow> u8 list \<Rightarrow> u16 \<Rightarrow> bytes \<Rightarrow> bytes" where
  \<comment> \<open>destination, source and type at 0, 6 and 12\<close>
  "eth_header h mac ethtype d = st16 (h + 12) (bswaps ethtype) (put_list h mac (put_list (h + 6) local_mac d))"

definition arp_header :: "u64 \<Rightarrow> u16 \<Rightarrow> u8 list \<Rightarrow> u32 \<Rightarrow> bytes \<Rightarrow> bytes" where
  \<comment> \<open>the 28 bytes of \<open>struct arp\<close>\<close>
  "arp_header h op dmac dip d =
     (let d = st16 h (bswaps 1) d; d = st16 (h + 2) (bswaps ETHTYPE_IP) d;
          d = d(h + 4 := of_nat ETHADDR_LEN, h + 5 := 4); d = st16 (h + 6) (bswaps op) d;
          d = put_list (h + 8) local_mac d; d = st32 (h + 14) (bswapl local_ip) d;
          d = put_list (h + 18) dmac d
      in st32 (h + 24) (bswapl dip) d)"

definition net_tx_arp :: "(u64 \<Rightarrow> u16 \<Rightarrow> u32 \<Rightarrow> u16 \<Rightarrow> 'a knet_scheme \<Rightarrow> 'a knet_scheme option) \<Rightarrow>
    u16 \<Rightarrow> u8 list \<Rightarrow> u32 \<Rightarrow> 'a knet_scheme \<Rightarrow> (int \<times> 'a knet_scheme) option" where
  \<comment> \<open>the first argument is \<open>net_tx_eth\<close>, which calls back\<close>
  "net_tx_arp eth op dmac dip s = do {
     (m, s) \<leftarrow> mbufalloc MBUF_DEFAULT_HEADROOM s;
     (if m = 0 then Some (-1, s)
      else do {
        (h, d) \<leftarrow> mbufput m 28 (mem s);
        s \<leftarrow> eth m ETHTYPE_ARP dip op (s\<lparr>mem := arp_header h op dmac dip d\<rparr>);
        Some (0, s) }) }"

fun net_tx_eth_fuel :: "nat \<Rightarrow> u64 \<Rightarrow> u16 \<Rightarrow> u32 \<Rightarrow> u16 \<Rightarrow> 'a knet_scheme \<Rightarrow> 'a knet_scheme option" where
  "net_tx_eth_fuel 0 m ethtype dip op s = None"
| "net_tx_eth_fuel (Suc k) m ethtype dip op s = do {
     (dest, s) \<leftarrow> (if op = ARP_OP_REQUEST then Some (Some broadcast_mac, s) else arp_lookup dip s);
     (case dest of
        Some mac \<Rightarrow> do {
          (h, d) \<leftarrow> mbufpush m 14 (mem s);
          e1000_cache m (s\<lparr>mem := eth_header h mac ethtype d\<rparr>) }
      | None \<Rightarrow> do {
          s \<leftarrow> add_arpq m dip s;
          (_, s) \<leftarrow> net_tx_arp (net_tx_eth_fuel k) ARP_OP_REQUEST broadcast_mac dip s;
          Some s }) }"

definition net_tx_eth :: "u64 \<Rightarrow> u16 \<Rightarrow> u32 \<Rightarrow> u16 \<Rightarrow> 'a knet_scheme \<Rightarrow> 'a knet_scheme option" where
  "net_tx_eth = net_tx_eth_fuel 2"

lemma net_tx_eth_request:
  "0 < k \<Longrightarrow> net_tx_eth_fuel k m ethtype dip ARP_OP_REQUEST s =
     net_tx_eth_fuel 1 m ethtype dip ARP_OP_REQUEST s"
  by (cases k) simp_all

lemma net_tx_eth_fuel_enough:
  assumes "2 \<le> k"
  shows "net_tx_eth_fuel k = net_tx_eth_fuel 2"
proof -
  obtain j where j: "k = Suc j" "0 < j" using assms by (cases k) auto
  have e: "net_tx_arp (net_tx_eth_fuel j) ARP_OP_REQUEST mac dip = net_tx_arp (net_tx_eth_fuel 1) ARP_OP_REQUEST mac dip" for mac dip
    unfolding net_tx_arp_def net_tx_eth_request [OF j(2)] by (rule refl)
  have "net_tx_eth_fuel (Suc j) = net_tx_eth_fuel (Suc 1)"
    unfolding fun_eq_iff net_tx_eth_fuel.simps e by blast
  then show ?thesis using j by (simp only: numeral_2_eq_2 One_nat_def)
qed

section \<open>IP and UDP\<close>

definition ip_header :: "u64 \<Rightarrow> u8 \<Rightarrow> u32 \<Rightarrow> u16 \<Rightarrow> bytes \<Rightarrow> bytes" where
  \<comment> \<open>the 20 bytes of \<open>struct ip\<close>; the card fills in the checksum\<close>
  "ip_header h proto dip len d =
     (let d = mem_set h 0 20 d; d = d(h := 0x45, h + 9 := proto); d = st32 (h + 12) (bswapl local_ip) d;
          d = st32 (h + 16) (bswapl dip) d; d = st16 (h + 2) (bswaps len) d; d = d(h + 8 := 100)
      in st16 (h + 10) 0 d)"

definition net_ip_route :: "u32 \<Rightarrow> u32" where
  "net_ip_route dip = MAKE_IP_ADDR 10 0 2 2"

definition net_tx_ip :: "u64 \<Rightarrow> u8 \<Rightarrow> u32 \<Rightarrow> 'a knet_scheme \<Rightarrow> 'a knet_scheme option" where
  "net_tx_ip m proto dip s = do {
     (h, d) \<leftarrow> mbufpush m 20 (mem s);
     let d = ip_header h proto dip (ucast (mb_len m d)) d;
     net_tx_eth m ETHTYPE_IP (net_ip_route dip) 0 (s\<lparr>mem := or_mb_offload m MBUF_CSUM_OFLD_ENABLE d\<rparr>) }"

definition udp_header :: "u64 \<Rightarrow> u16 \<Rightarrow> u16 \<Rightarrow> u16 \<Rightarrow> bytes \<Rightarrow> bytes" where
  "udp_header h sport dport len d =
     st16 (h + 6) 0 (st16 (h + 4) (bswaps len) (st16 (h + 2) (bswaps dport) (st16 h (bswaps sport) d)))"

definition net_tx_udp :: "u64 \<Rightarrow> u32 \<Rightarrow> u16 \<Rightarrow> u16 \<Rightarrow> 'a knet_scheme \<Rightarrow> 'a knet_scheme option" where
  "net_tx_udp m dip sport dport s = do {
     (h, d) \<leftarrow> mbufpush m 8 (mem s);
     net_tx_ip m IPPROTO_UDP dip (s\<lparr>mem := udp_header h sport dport (ucast (mb_len m d)) d\<rparr>) }"

definition net_tx_icmp :: "u64 \<Rightarrow> u32 \<Rightarrow> 'a knet_scheme \<Rightarrow> 'a knet_scheme option" where
  "net_tx_icmp m rip s = net_tx_ip m IPPROTO_ICMP rip s"

section \<open>An address has arrived\<close>

partial_function (option) arpq_flush :: "u64 \<Rightarrow> u32 \<Rightarrow> 'a knet_scheme \<Rightarrow> 'a knet_scheme option" where
  "arpq_flush pos dip s =
     (let (m, q) = mbufq_pophead (aq_txq (arpq_at s pos)) (mem s) in
      if m = 0 then Some s
      else do {
        s \<leftarrow> net_tx_eth m ETHTYPE_IP dip 0
              (s\<lparr>arpq_at := (arpq_at s)(pos := (arpq_at s pos)\<lparr>aq_txq := q\<rparr>)\<rparr>);
        arpq_flush pos dip s })"

partial_function (option) arpq_remove :: "u64 \<Rightarrow> u64 \<Rightarrow> u32 \<Rightarrow> 'a knet_scheme \<Rightarrow> 'a knet_scheme option" where
  "arpq_remove pre pos dip s =
     (if pos = 0 then Some s
      else if aq_ip (arpq_at s pos) = dip
      then do {
        s \<leftarrow> arpq_flush pos dip s;
        let s = (if pre = 0 then s\<lparr>arpqs := aq_next (arpq_at s (arpqs s))\<rparr>
                 else s\<lparr>arpq_at := (arpq_at s)(pre := (arpq_at s pre)\<lparr>aq_next := aq_next (arpq_at s pos)\<rparr>)\<rparr>);
        kfree pos s }
      else arpq_remove pos (aq_next (arpq_at s pos)) dip s)"

definition send_remove_arpq :: "u32 \<Rightarrow> 'a knet_scheme \<Rightarrow> 'a knet_scheme option" where
  "send_remove_arpq dip s = do {
     s \<leftarrow> acquire ArpqLock s;
     s \<leftarrow> arpq_remove 0 (arpqs s) dip s;
     release ArpqLock s }"

end
