(* ===== verification/Socktab.thy ===== *)
theory Socktab
  imports NetTx
begin

text \<open>
  The hash table of sockets in \<open>kernel/sysnet.c\<close>.  Every operation copies its bucket's
  \<open>struct spinlock\<close> into a local variable and locks the copy, so nobody is ever excluded: what is
  left of the lock is the nesting of \<open>push_off\<close> and \<open>pop_off\<close>.
\<close>

definition SOCK_HASHTABLE_SIZE :: nat where "SOCK_HASHTABLE_SIZE = 128"
definition SOCK_STREAM :: u8 where "SOCK_STREAM = 1"
definition SOCK_DGRAM :: u8 where "SOCK_DGRAM = 2"

definition hash :: "u16 \<Rightarrow> nat" where "hash i = unat i mod SOCK_HASHTABLE_SIZE"

fun sockinit_loop :: "nat \<Rightarrow> 'a knet_scheme \<Rightarrow> 'a knet_scheme" where
  "sockinit_loop 0 s = s"
| "sockinit_loop (Suc k) s = sockinit_loop k (s\<lparr>sockets := (sockets s)(k := 0)\<rparr>)"

definition sockinit :: "'a knet_scheme \<Rightarrow> 'a knet_scheme" where
  "sockinit = sockinit_loop SOCK_HASHTABLE_SIZE"

definition local_acquire :: "'a kcpu_scheme \<Rightarrow> 'a kcpu_scheme option" where
  "local_acquire s = Some (push_off s)"

definition local_release :: "'a kcpu_scheme \<Rightarrow> 'a kcpu_scheme option" where
  "local_release s = pop_off s"

partial_function (option) add_clash :: "(u64 \<Rightarrow> sock) \<Rightarrow> u64 \<Rightarrow> u16 \<Rightarrow> u32 \<Rightarrow> u16 \<Rightarrow> u64 \<Rightarrow> bool option" where
  \<comment> \<open>whether the loop of \<open>sock_hashtable_add\<close> returns -1; the remote address compared is
      that of the new socket \<open>si\<close> itself\<close>
  "add_clash k si lport raddr rport pos =
     (if pos = 0 then Some False
      else if sk_lport (k pos) = lport \<and> sk_raddr (k si) = raddr \<and> sk_rport (k si) = rport \<and>
              \<not> (raddr = 0 \<and> rport = 0 \<and> cb_parent (sk_cb (k si)) \<noteq> 0)
      then Some True
      else add_clash k si lport raddr rport (sk_next (k pos)))"

definition sock_hashtable_add :: "u16 \<Rightarrow> u32 \<Rightarrow> u16 \<Rightarrow> u64 \<Rightarrow> 'a knet_scheme \<Rightarrow> (int \<times> 'a knet_scheme) option" where
  "sock_hashtable_add lport raddr rport si s = do {
     let key = hash (sk_lport (socks s si));
     s \<leftarrow> local_acquire s;
     clash \<leftarrow> add_clash (socks s) si lport raddr rport (sockets s key);
     (if clash then do { s \<leftarrow> local_release s; Some (-1, s) }
      else do {
        let s = set_sock si (\<lambda>k. k\<lparr>sk_next := sockets s key\<rparr>) s;
        s \<leftarrow> local_release (s\<lparr>sockets := (sockets s)(key := si)\<rparr>);
        Some (0, s) }) }"

partial_function (option) remove_from :: "(u64 \<Rightarrow> sock) \<Rightarrow> u64 \<Rightarrow> u64 \<Rightarrow> u64 \<Rightarrow> ((u64 \<Rightarrow> sock) \<times> bool) option" where
  \<comment> \<open>\<open>pos\<close> is the \<open>next\<close> field of \<open>pre\<close>: unlink the first \<open>si\<close> behind it\<close>
  "remove_from k si pre pos =
     (if pos = 0 then Some (k, False)
      else if pos = si then Some (k(pre := (k pre)\<lparr>sk_next := sk_next (k si)\<rparr>), True)
      else remove_from k si pos (sk_next (k pos)))"

definition sock_hashtable_remove :: "u64 \<Rightarrow> 'a knet_scheme \<Rightarrow> (int \<times> 'a knet_scheme) option" where
  "sock_hashtable_remove si s = do {
     let key = hash (sk_lport (socks s si));
     s \<leftarrow> local_acquire s;
     let p = sockets s key;
     (r, s) \<leftarrow>
       (if p = 0 then Some (-1, s)
        else if p = si then Some (0, s\<lparr>sockets := (sockets s)(key := sk_next (socks s si))\<rparr>)
        else do {
          (k, found) \<leftarrow> remove_from (socks s) si p (sk_next (socks s p));
          Some (if found then 0 else -1, s\<lparr>socks := k\<rparr>) });
     s \<leftarrow> local_release s;
     Some (r, s) }"

partial_function (option) on_chain :: "(u64 \<Rightarrow> sock) \<Rightarrow> u64 \<Rightarrow> u64 \<Rightarrow> bool option" where
  "on_chain k si pos =
     (if pos = 0 then Some False else if pos = si then Some True else on_chain k si (sk_next (k pos)))"

definition sock_hashtable_update :: "u64 \<Rightarrow> u32 \<Rightarrow> u16 \<Rightarrow> 'a knet_scheme \<Rightarrow> (int \<times> 'a knet_scheme) option" where
  "sock_hashtable_update si raddr rport s = do {
     let key = hash (sk_lport (socks s si));
     s \<leftarrow> local_acquire s;
     found \<leftarrow> on_chain (socks s) si (sockets s key);
     let s = (if found then set_sock si (\<lambda>k. k\<lparr>sk_raddr := raddr, sk_rport := rport\<rparr>) s else s);
     s \<leftarrow> local_release s;
     Some (if found then 0 else -1, s) }"

partial_function (option) get_from :: "(u64 \<Rightarrow> sock) \<Rightarrow> u16 \<Rightarrow> u32 \<Rightarrow> u16 \<Rightarrow> u64 option \<Rightarrow> u64 \<Rightarrow> u64 option option" where
  \<comment> \<open>\<open>backup\<close> is the first socket of the port that is not connected\<close>
  "get_from k lport raddr rport backup si =
     (if si = 0 then Some backup
      else if sk_lport (k si) = lport
      then (if sk_raddr (k si) = raddr \<and> sk_rport (k si) = rport then Some (Some si)
            else get_from k lport raddr rport
                   (if backup = None \<and> sk_raddr (k si) = 0 \<and> sk_rport (k si) = 0 then Some si else backup)
                   (sk_next (k si)))
      else get_from k lport raddr rport backup (sk_next (k si)))"

definition sock_hashtable_get :: "u16 \<Rightarrow> u32 \<Rightarrow> u16 \<Rightarrow> 'a knet_scheme \<Rightarrow> (u64 option \<times> 'a knet_scheme) option" where
  \<comment> \<open>\<open>None\<close> in the pair for a result of -1\<close>
  "sock_hashtable_get lport raddr rport s = do {
     s \<leftarrow> local_acquire s;
     r \<leftarrow> get_from (socks s) lport raddr rport None (sockets s (hash lport));
     s \<leftarrow> local_release s;
     Some (r, s) }"

section \<open>Delivery\<close>

definition rxq_push :: "u64 \<Rightarrow> u64 \<Rightarrow> 'a knet_scheme \<Rightarrow> 'a knet_scheme" where
  "rxq_push si m s =
     (let (q, d) = mbufq_pushtail (sk_rxq (socks s si)) m (mem s)
      in set_sock si (\<lambda>k. k\<lparr>sk_rxq := q\<rparr>) (s\<lparr>mem := d\<rparr>))"

definition rxq_pop :: "u64 \<Rightarrow> 'a knet_scheme \<Rightarrow> u64 \<times> 'a knet_scheme" where
  "rxq_pop si s =
     (let (m, q) = mbufq_pophead (sk_rxq (socks s si)) (mem s) in (m, set_sock si (\<lambda>k. k\<lparr>sk_rxq := q\<rparr>) s))"

definition sklock :: "u64 \<Rightarrow> lockid" where "sklock si = SockLock (unat si)"
definition rxq_chan :: "u64 \<Rightarrow> chan" where "rxq_chan si = OnRxq (unat si)"
definition tcb_chan :: "u64 \<Rightarrow> chan" where "tcb_chan si = OnTcb (unat si)"

definition sockrecvudp :: "u64 \<Rightarrow> u32 \<Rightarrow> u16 \<Rightarrow> u16 \<Rightarrow> 'a knet_scheme \<Rightarrow> 'a knet_scheme option" where
  "sockrecvudp m raddr lport rport s = do {
     (r, s) \<leftarrow> sock_hashtable_get lport raddr rport s;
     (case r of None \<Rightarrow> mbuffree m s
      | Some si \<Rightarrow> do {
          s \<leftarrow> acquire (sklock si) s;
          let s = upd_mem (set_mb_sport m rport) (upd_mem (set_mb_sip m raddr) s);
          s \<leftarrow> wakeup (rxq_chan si) (rxq_push si m s);
          release (sklock si) s }) }"

definition sockrecvicmp :: "u64 \<Rightarrow> u32 \<Rightarrow> 'a knet_scheme \<Rightarrow> 'a knet_scheme option" where
  "sockrecvicmp m raddr s = do {
     (r, s) \<leftarrow> sock_hashtable_get 0 raddr 0 s;
     (case r of None \<Rightarrow> mbuffree m s
      | Some si \<Rightarrow> do {
          s \<leftarrow> acquire (sklock si) s;
          s \<leftarrow> wakeup (rxq_chan si) (rxq_push si m s);
          release (sklock si) s }) }"

definition sockrecvtcp :: "u64 \<Rightarrow> u32 \<Rightarrow> u16 \<Rightarrow> u16 \<Rightarrow> bool \<Rightarrow> 'a knet_scheme \<Rightarrow> 'a knet_scheme option" where
  "sockrecvtcp m raddr lport rport ispush s = do {
     (r, s) \<leftarrow> sock_hashtable_get lport raddr rport s;
     (case r of
        Some si \<Rightarrow>
          if sk_raddr (socks s si) \<noteq> 0 \<and> sk_rport (socks s si) \<noteq> 0
          then let s = upd_mem (set_mb_sport m rport) (upd_mem (set_mb_sip m raddr) s);
                   s = rxq_push si m s
               in if ispush then wakeup (rxq_chan si) s else Some s
          else mbuffree m s
      | None \<Rightarrow> mbuffree m s) }"

end
