(* ===== verification/Tcp.thy ===== *)
theory Tcp
  imports Socktab
begin

text \<open>
  TCP: \<open>kernel/tcp.c\<close> with the control block of \<open>kernel/tcp.h\<close>.  A segment is handled as the code
  does it, with the fields of its header read from the packet when they are used; \<open>h\<close> is the address of
  the header.  Sequence numbers are compared as unsigned numbers.
\<close>

section \<open>States and flags\<close>

definition CLOSED :: u8 where "CLOSED = 0"
definition LISTEN :: u8 where "LISTEN = 1"
definition SYN_SENT :: u8 where "SYN_SENT = 2"
definition SYN_RCVD :: u8 where "SYN_RCVD = 3"
definition ESTABLISHED :: u8 where "ESTABLISHED = 4"
definition FIN_WAIT1 :: u8 where "FIN_WAIT1 = 5"
definition FIN_WAIT2 :: u8 where "FIN_WAIT2 = 6"
definition CLOSING :: u8 where "CLOSING = 7"
definition TIME_WAIT :: u8 where "TIME_WAIT = 8"
definition CLOSE_WAIT :: u8 where "CLOSE_WAIT = 9"
definition LAST_ACK :: u8 where "LAST_ACK = 10"

definition FIN :: u8 where "FIN = 0x01"
definition SYN :: u8 where "SYN = 0x02"
definition RST :: u8 where "RST = 0x04"
definition PSH :: u8 where "PSH = 0x08"
definition ACK :: u8 where "ACK = 0x10"

definition TCP_CB_WND_SIZE :: u16 where "TCP_CB_WND_SIZE = 2048"

definition flag_set :: "u64 \<Rightarrow> u8 \<Rightarrow> 'a kmem_scheme \<Rightarrow> bool" where
  \<comment> \<open>\<open>TCP_FLG_ISSET(hdr->flags, f)\<close>\<close>
  "flag_set h f s \<longleftrightarrow> (mem s (h + 13) AND 0x3f) AND f \<noteq> 0"

definition cb_of :: "u64 \<Rightarrow> 'a knet_scheme \<Rightarrow> tcp_cb" where "cb_of si s = sk_cb (socks s si)"

definition set_state :: "u64 \<Rightarrow> u8 \<Rightarrow> 'a knet_scheme \<Rightarrow> 'a knet_scheme" where
  "set_state si st = set_cb si (\<lambda>c. c\<lparr>cb_state := st\<rparr>)"

definition tcpinit :: "'a knet_scheme \<Rightarrow> 'a knet_scheme" where
  "tcpinit s = srand (sint (ticks s)) (s\<lparr>lk := (lk s)(TcpLock := None)\<rparr>)"

section \<open>Sending a segment\<close>

definition tcp_partial_checksum :: "u32 \<Rightarrow> u32 \<Rightarrow> u8 \<Rightarrow> u16" where
  "tcp_partial_checksum ip_src ip_dst ip_p =
     (let pseudo = ucast (bswaps (ucast (drop_bit 16 ip_src AND 0xffff))) + ucast (bswaps (ucast (ip_src AND 0xffff)))
            + ucast (bswaps (ucast (drop_bit 16 ip_dst AND 0xffff))) + ucast (bswaps (ucast (ip_dst AND 0xffff)))
            + ucast ip_p :: u32;
          pseudo = drop_bit 16 pseudo + (pseudo AND 0xffff)
      in bswaps (ucast pseudo))"

definition tcp_header :: "u64 \<Rightarrow> sock \<Rightarrow> u32 \<Rightarrow> u32 \<Rightarrow> u8 \<Rightarrow> bytes \<Rightarrow> bytes" where
  \<comment> \<open>the 20 bytes of \<open>struct tcp\<close>; the window is stored without \<open>htons\<close>\<close>
  "tcp_header h k seq ack flags d =
     (let d = st16 h (bswaps (sk_lport k)) d; d = st16 (h + 2) (bswaps (sk_rport k)) d;
          d = st32 (h + 4) (bswapl seq) d; d = st32 (h + 8) (bswapl ack) d;
          d = d(h + 12 := 0x50, h + 13 := flags); d = st16 (h + 14) (rcv_wnd (sk_cb k)) d;
          d = st16 (h + 16) (tcp_partial_checksum (bswapl local_ip) (bswapl (sk_raddr k)) IPPROTO_TCP) d
      in st16 (h + 18) 0 d)"

definition net_tx_tcp_content :: "u64 \<Rightarrow> u64 \<Rightarrow> u32 \<Rightarrow> u32 \<Rightarrow> u8 \<Rightarrow> 'a knet_scheme \<Rightarrow> (int \<times> 'a knet_scheme) option" where
  "net_tx_tcp_content m si seq ack flags s =
     (if m = 0 then Some (-1, s)
      else do {
        (h, d) \<leftarrow> mbufpush m 20 (mem s);
        let d = or_mb_offload m MBUF_CSUM_OFLD_TCP (tcp_header h (socks s si) seq ack flags d);
        s \<leftarrow> net_tx_ip m IPPROTO_TCP (sk_raddr (socks s si)) (s\<lparr>mem := d\<rparr>);
        Some (0, s) })"

definition net_tx_tcp_signal :: "u64 \<Rightarrow> u32 \<Rightarrow> u32 \<Rightarrow> u8 \<Rightarrow> 'a knet_scheme \<Rightarrow> 'a knet_scheme option" where
  \<comment> \<open>its callers ignore the result\<close>
  "net_tx_tcp_signal si seq ack flags s = do {
     (m, s) \<leftarrow> mbufalloc MBUF_DEFAULT_HEADROOM s;
     (_, s) \<leftarrow> net_tx_tcp_content m si seq ack flags s;
     Some s }"

section \<open>A segment arrives\<close>

definition tcp_listen :: "u64 \<Rightarrow> u64 \<Rightarrow> u32 \<Rightarrow> u32 \<Rightarrow> 'a knet_scheme \<Rightarrow> 'a knet_scheme option" where
  "tcp_listen si h seq ack s =
     (if flag_set h RST s then Some s
      else if flag_set h ACK s then net_tx_tcp_signal si ack 0 RST s
      else if flag_set h SYN s
      then do {
        let s = set_cb si (\<lambda>c. c\<lparr>rcv_nxt := seq + 1, cb_irs := seq\<rparr>) s;
        let (r, s) = rand s;
        let s = set_cb si (\<lambda>c. c\<lparr>cb_iss := of_int r\<rparr>) s;
        s \<leftarrow> net_tx_tcp_signal si (cb_iss (cb_of si s)) (rcv_nxt (cb_of si s)) (SYN OR ACK) s;
        Some (set_cb si (\<lambda>c. c\<lparr>snd_nxt := cb_iss c + 1, snd_una := cb_iss c, cb_state := SYN_RCVD\<rparr>) s) }
      else Some s)"

definition tcp_closed :: "u64 \<Rightarrow> u64 \<Rightarrow> u32 \<Rightarrow> u32 \<Rightarrow> u32 \<Rightarrow> 'a knet_scheme \<Rightarrow> 'a knet_scheme option" where
  \<comment> \<open>there is no \<open>return\<close> at the end of the case: it goes on with the case for \<open>LISTEN\<close>\<close>
  "tcp_closed si h seq ack len s = do {
     s \<leftarrow> (if flag_set h RST s then Some s
           else if \<not> flag_set h ACK s then net_tx_tcp_signal si 0 (seq + len) (RST OR ACK) s
           else net_tx_tcp_signal si ack 0 RST s);
     tcp_listen si h seq ack s }"

definition tcp_syn_sent :: "u64 \<Rightarrow> u64 \<Rightarrow> u32 \<Rightarrow> u32 \<Rightarrow> 'a knet_scheme \<Rightarrow> 'a knet_scheme option" where
  "tcp_syn_sent si h seq ack s =
     (let c = cb_of si s; is_ack = flag_set h ACK s; is_rst = flag_set h RST s;
          ok = (is_ack \<and> snd_una c \<le> ack \<and> ack \<le> snd_nxt c) in
      if is_ack \<and> (ack \<le> cb_iss c \<or> ack > snd_nxt c)
      then (if is_rst then Some s else net_tx_tcp_signal si ack 0 RST s)
      else if is_rst then Some (if ok then set_state si CLOSED s else s)
      else if \<not> ok \<and> \<not> (\<not> is_ack \<and> \<not> is_rst) then panic ''TCP_CB_STATE_SYN_SENT error''
      else if flag_set h SYN s
      then do {
        let s = set_cb si (\<lambda>c. c\<lparr>rcv_nxt := seq + 1, cb_irs := seq\<rparr>) s;
        let s = (if ok then set_cb si (\<lambda>c. c\<lparr>snd_una := ack\<rparr>) s else s);
        let c = cb_of si s;
        (if snd_una c > cb_iss c
         then do {
           s \<leftarrow> net_tx_tcp_signal si (snd_nxt c) (rcv_nxt c) ACK (set_state si ESTABLISHED s);
           wakeup (tcb_chan si) s }
         else net_tx_tcp_signal si (cb_iss c) (rcv_nxt c) (SYN OR ACK) (set_state si SYN_RCVD s)) }
      else Some s)"

definition in_window :: "tcp_cb \<Rightarrow> u32 \<Rightarrow> bool" where
  "in_window c x \<longleftrightarrow> rcv_nxt c \<le> x \<and> x < rcv_nxt c + ucast (rcv_wnd c)"

definition acceptable :: "tcp_cb \<Rightarrow> u32 \<Rightarrow> u32 \<Rightarrow> bool" where
  "acceptable c seq len \<longleftrightarrow>
     len = 0 \<and> rcv_wnd c = 0 \<and> seq = rcv_nxt c \<or>
     len = 0 \<and> rcv_wnd c > 0 \<and> in_window c seq \<or>
     len > 0 \<and> rcv_wnd c > 0 \<and> (in_window c seq \<or> in_window c (seq + len - 1))"

definition tcp_ack_data :: "u64 \<Rightarrow> u32 \<Rightarrow> 'a knet_scheme \<Rightarrow> (bool \<times> 'a knet_scheme) option" where
  \<comment> \<open>the case shared by the synchronized states; \<open>False\<close>: return\<close>
  "tcp_ack_data si ack s =
     (let c = cb_of si s in
      if \<not> (snd_una c < ack \<and> ack \<le> snd_nxt c) \<and> ack > snd_nxt c
      then do { s \<leftarrow> net_tx_tcp_signal si (snd_nxt c) (rcv_nxt c) ACK s; Some (False, s) }
      else
        let s = (if snd_una c < ack then set_cb si (\<lambda>c. c\<lparr>snd_una := ack\<rparr>) s else s);
            st = cb_state c in
        if st = FIN_WAIT1 then Some (True, if ack = snd_nxt c then set_state si FIN_WAIT2 s else s)
        else if st = FIN_WAIT2 then Some (True, s)
        else if st = CLOSING
        then (if ack = snd_nxt c
              then do { s \<leftarrow> wakeup (tcb_chan si) (set_state si TIME_WAIT s); Some (False, s) }
              else Some (False, s))
        else Some (True, s))"

definition tcp_ack :: "u64 \<Rightarrow> u32 \<Rightarrow> 'a knet_scheme \<Rightarrow> (bool \<times> 'a knet_scheme) option" where
  "tcp_ack si ack s =
     (let c = cb_of si s; st = cb_state c in
      if st = SYN_RCVD
      then (if snd_una c \<le> ack \<and> ack \<le> snd_nxt c
            then do { s \<leftarrow> wakeup (tcb_chan si) (set_state si ESTABLISHED s); tcp_ack_data si ack s }
            else do { s \<leftarrow> net_tx_tcp_signal si ack 0 RST s; Some (True, s) })
      else if st = ESTABLISHED \<or> st = FIN_WAIT1 \<or> st = FIN_WAIT2 \<or> st = CLOSE_WAIT \<or> st = CLOSING
      then tcp_ack_data si ack s
      else if st = LAST_ACK
      then do {
        s \<leftarrow> wakeup (tcb_chan si) s;
        Some (False, if ack = snd_nxt c then set_state si CLOSED s else s) }
      else Some (True, s))"

definition tcp_text :: "u64 \<Rightarrow> u64 \<Rightarrow> u64 \<Rightarrow> u32 \<Rightarrow> u16 \<Rightarrow> u16 \<Rightarrow> u32 \<Rightarrow> u32 \<Rightarrow> 'a knet_scheme \<Rightarrow> 'a knet_scheme option" where
  "tcp_text si h m raddr lport rport seq len s =
     (let st = cb_state (cb_of si s) in
      if len \<noteq> 0 \<and> (st = ESTABLISHED \<or> st = FIN_WAIT1 \<or> st = FIN_WAIT2)
      then do {
        s \<leftarrow> sockrecvtcp m raddr lport rport (flag_set h PSH s) s;
        let s = set_cb si (\<lambda>c. c\<lparr>rcv_nxt := seq + len, rcv_wnd := rcv_wnd c - ucast len\<rparr>) s;
        net_tx_tcp_signal si (snd_nxt (cb_of si s)) (rcv_nxt (cb_of si s)) ACK s }
      else Some s)"

definition tcp_fin :: "u64 \<Rightarrow> u64 \<Rightarrow> 'a knet_scheme \<Rightarrow> 'a knet_scheme option" where
  "tcp_fin si h s =
     (let st = cb_state (cb_of si s) in
      if \<not> flag_set h FIN s \<or> st = CLOSED \<or> st = LISTEN \<or> st = SYN_SENT then Some s
      else do {
        let s = set_cb si (\<lambda>c. c\<lparr>rcv_nxt := rcv_nxt c + 1\<rparr>) s;
        s \<leftarrow> net_tx_tcp_signal si (snd_nxt (cb_of si s)) (rcv_nxt (cb_of si s)) ACK s;
        (if st = SYN_RCVD \<or> st = ESTABLISHED
         then do {
           s \<leftarrow> acquire (sklock si) s;
           s \<leftarrow> wakeup (rxq_chan si) (set_state si CLOSE_WAIT s);
           release (sklock si) s }
         else if st = FIN_WAIT1 then Some (set_state si CLOSING s)
         else if st = FIN_WAIT2 then wakeup (tcb_chan si) (set_state si TIME_WAIT s)
         else Some s) })"

definition tcp_synchronized :: "u64 \<Rightarrow> u64 \<Rightarrow> u64 \<Rightarrow> u32 \<Rightarrow> u16 \<Rightarrow> u16 \<Rightarrow> u32 \<Rightarrow> u32 \<Rightarrow> u32 \<Rightarrow> 'a knet_scheme \<Rightarrow>
    'a knet_scheme option" where
  \<comment> \<open>what follows the first switch\<close>
  "tcp_synchronized si h m raddr lport rport seq ack len s =
     (let c = cb_of si s in
      if \<not> acceptable c seq len then net_tx_tcp_signal si (snd_nxt c) (rcv_nxt c) ACK s
      else if flag_set h RST s then Some (set_state si CLOSED s)
      else if flag_set h SYN s
      then do { s \<leftarrow> net_tx_tcp_signal si ack 0 RST s; Some (set_state si CLOSED s) }
      else if \<not> flag_set h ACK s then Some s
      else do {
        (go_on, s) \<leftarrow> tcp_ack si ack s;
        (if \<not> go_on then Some s
         else do {
           s \<leftarrow> tcp_text si h m raddr lport rport seq len s;
           tcp_fin si h s }) })"

definition tcp_segments_arrives :: "u64 \<Rightarrow> u64 \<Rightarrow> u64 \<Rightarrow> u32 \<Rightarrow> u16 \<Rightarrow> u16 \<Rightarrow> u32 \<Rightarrow> 'a knet_scheme \<Rightarrow> 'a knet_scheme option" where
  "tcp_segments_arrives si h m raddr lport rport len s =
     (let s = set_cb si (\<lambda>c. c\<lparr>rcv_wnd := bswaps (ld16 (mem s) (h + 14))\<rparr>) s;
          ack = bswapl (ld32 (mem s) (h + 8)); seq = bswapl (ld32 (mem s) (h + 4));
          st = cb_state (cb_of si s) in
      if st = CLOSED then tcp_closed si h seq ack len s
      else if st = LISTEN then tcp_listen si h seq ack s
      else if st = SYN_SENT then tcp_syn_sent si h seq ack s
      else tcp_synchronized si h m raddr lport rport seq ack len s)"

definition net_rx_tcp :: "u64 \<Rightarrow> u16 \<Rightarrow> u64 \<Rightarrow> 'a knet_scheme \<Rightarrow> 'a knet_scheme option" where
  "net_rx_tcp m len iphdr s =
     (let (h, d) = mbufpull m 20 (mem s); s = s\<lparr>mem := d\<rparr>; len = len - 20 in
      if h = 0 \<or> ucast len > mb_len m d then mbuffree m s
      else do {
        let s = upd_mem (\<lambda>d. snd (mbuftrim m (mb_len m d - ucast len) d)) s;
        let sip = bswapl (ld32 (mem s) (iphdr + 12));
        let dport = bswaps (ld16 (mem s) (h + 2));
        let sport = bswaps (ld16 (mem s) h);
        (r, s) \<leftarrow> sock_hashtable_get dport sip sport s;
        (case r of None \<Rightarrow> mbuffree m s
         | Some si \<Rightarrow>
             let k = socks s si; fresh = (sk_raddr k = 0 \<or> sk_rport k = 0) in
             if fresh \<and> cb_parent (sk_cb k) = 0 then mbuffree m s
             else do {
               s \<leftarrow> (if fresh
                     then if cb_state (sk_cb k) \<noteq> LISTEN then panic ''tcp accept1''
                          else do {
                            (r, s) \<leftarrow> sock_hashtable_update si sip sport s;
                            (if r < 0 then panic ''tcp accept2'' else Some s) }
                     else Some s);
               s \<leftarrow> acquire TcpLock s;
               s \<leftarrow> tcp_segments_arrives si h m sip dport sport (ucast len) s;
               release TcpLock s }) })"

section \<open>The calls of the socket layer\<close>

partial_function (option) wait_while_state ::
  "('a knet_scheme \<Rightarrow> 'a knet_scheme option) \<Rightarrow> u8 \<Rightarrow> nat \<Rightarrow> u64 \<Rightarrow> 'a knet_scheme \<Rightarrow> 'a knet_scheme option" where
  \<comment> \<open>the loops of \<open>tcp_api_accept\<close> and \<open>tcp_init_client\<close>\<close>
  "wait_while_state world st p si s =
     (if cb_state (cb_of si s) = st \<and> pkilled (procs s p) = 0
      then do { s \<leftarrow> sleep world (tcb_chan si) TcpLock s; wait_while_state world st p si s }
      else Some s)"

definition tcp_api_accept :: "('a knet_scheme \<Rightarrow> 'a knet_scheme option) \<Rightarrow> u64 \<Rightarrow> 'a knet_scheme \<Rightarrow> (int \<times> 'a knet_scheme) option" where
  "tcp_api_accept world si s = do {
     s \<leftarrow> acquire TcpLock s;
     (if cb_state (cb_of si s) \<noteq> LISTEN then do { s \<leftarrow> release TcpLock s; Some (-1, s) }
      else do {
        let p = curp s;
        s \<leftarrow> wait_while_state world LISTEN p si s;
        s \<leftarrow> release TcpLock s;
        Some (if pkilled (procs s p) \<noteq> 0 then -1 else 0, s) }) }"

definition tcp_init_server :: "u64 \<Rightarrow> 'a knet_scheme \<Rightarrow> (int \<times> 'a knet_scheme) option" where
  "tcp_init_server si s = do {
     s \<leftarrow> acquire TcpLock s;
     s \<leftarrow> release TcpLock (set_state si LISTEN s);
     Some (0, s) }"

definition tcp_init_client :: "('a knet_scheme \<Rightarrow> 'a knet_scheme option) \<Rightarrow> u64 \<Rightarrow> 'a knet_scheme \<Rightarrow> (int \<times> 'a knet_scheme) option" where
  "tcp_init_client world si s = do {
     s \<leftarrow> acquire TcpLock s;
     let (r, s) = rand (set_cb si (\<lambda>c. c\<lparr>rcv_wnd := TCP_CB_WND_SIZE\<rparr>) s);
     let s = set_cb si (\<lambda>c. c\<lparr>cb_iss := of_int r\<rparr>) s;
     s \<leftarrow> net_tx_tcp_signal si (cb_iss (cb_of si s)) 0 SYN s;
     let s = set_cb si (\<lambda>c. c\<lparr>snd_una := cb_iss c, snd_nxt := cb_iss c + 1, cb_state := SYN_SENT\<rparr>) s;
     let p = curp s;
     s \<leftarrow> wait_while_state world SYN_SENT p si s;
     s \<leftarrow> release TcpLock s;
     Some (if pkilled (procs s p) \<noteq> 0 then -1 else 0, s) }"

definition send_fin :: "('a knet_scheme \<Rightarrow> 'a knet_scheme option) \<Rightarrow> u8 \<Rightarrow> u64 \<Rightarrow> 'a knet_scheme \<Rightarrow> 'a knet_scheme option" where
  \<comment> \<open>the two closing cases of \<open>tcp_api_close\<close>\<close>
  "send_fin world st si s = do {
     let c = cb_of si s;
     s \<leftarrow> net_tx_tcp_signal si (snd_nxt c) (rcv_nxt c) (FIN OR ACK) s;
     sleep world (tcb_chan si) TcpLock (set_cb si (\<lambda>c. c\<lparr>cb_state := st, snd_nxt := snd_nxt c + 1\<rparr>) s) }"

definition tcp_api_close :: "('a knet_scheme \<Rightarrow> 'a knet_scheme option) \<Rightarrow> u64 \<Rightarrow> 'a knet_scheme \<Rightarrow> (int \<times> 'a knet_scheme) option" where
  "tcp_api_close world si s = do {
     s \<leftarrow> acquire TcpLock s;
     let st = cb_state (cb_of si s);
     (r, s) \<leftarrow>
       (if st = SYN_RCVD \<or> st = ESTABLISHED then do { s \<leftarrow> send_fin world FIN_WAIT1 si s; Some (0, s) }
        else if st = CLOSE_WAIT then do { s \<leftarrow> send_fin world LAST_ACK si s; Some (0, s) }
        else Some (-1, s));
     s \<leftarrow> release TcpLock s;
     Some (r, s) }"

definition tcp_api_send :: "u64 \<Rightarrow> u64 \<Rightarrow> u8 \<Rightarrow> int \<Rightarrow> 'a knet_scheme \<Rightarrow> (int \<times> 'a knet_scheme) option" where
  "tcp_api_send m si flag len s =
     (if m = 0 then Some (-1, s)
      else do {
        s \<leftarrow> acquire TcpLock s;
        let c = cb_of si s;
        (r, s) \<leftarrow>
          (if cb_state c = LISTEN
           then if sk_raddr (socks s si) \<noteq> 0
                then do {
                  let (x, s) = rand s;
                  let s = set_cb si (\<lambda>c. c\<lparr>cb_iss := of_int x\<rparr>) s;
                  s \<leftarrow> net_tx_tcp_signal si (cb_iss (cb_of si s)) 0 SYN s;
                  Some (0, set_cb si (\<lambda>c. c\<lparr>cb_state := SYN_SENT, snd_una := cb_iss c, snd_nxt := cb_iss c + 1\<rparr>) s) }
                else Some (-1, s)
           else if cb_state c = ESTABLISHED
           then do {
             (_, s) \<leftarrow> net_tx_tcp_content m si (snd_nxt c) (rcv_nxt c) flag s;
             Some (0, set_cb si (\<lambda>c. c\<lparr>snd_nxt := snd_nxt c + of_int len\<rparr>) s) }
           else Some (-1, s));
        s \<leftarrow> release TcpLock s;
        Some (r, s) })"

partial_function (option) recv_wait ::
  "('a knet_scheme \<Rightarrow> 'a knet_scheme option) \<Rightarrow> nat \<Rightarrow> u64 \<Rightarrow> 'a knet_scheme \<Rightarrow> (bool \<times> 'a knet_scheme) option" where
  \<comment> \<open>the waiting loop of \<open>tcp_api_receive\<close>; \<open>True\<close>: the peer has closed\<close>
  "recv_wait world p si s =
     (if mbufq_empty (sk_rxq (socks s si)) \<and> pkilled (procs s p) = 0
      then do {
        s \<leftarrow> sleep world (rxq_chan si) TcpLock s;
        (if cb_state (cb_of si s) = CLOSE_WAIT then Some (True, s) else recv_wait world p si s) }
      else Some (False, s))"

partial_function (option) recv_copy ::
  "nat \<Rightarrow> u64 \<Rightarrow> u64 \<Rightarrow> int \<Rightarrow> int \<Rightarrow> 'a knet_scheme \<Rightarrow> (int \<times> 'a knet_scheme) option" where
  \<comment> \<open>the copying loop: \<open>n\<close> bytes wanted, \<open>len\<close> delivered\<close>
  "recv_copy p si addr n len s =
     (let (m, s) = rxq_pop si s;
          mlen = mb_len m (mem s);
          recv_sz = (if of_int n > mlen then mlen else of_int n) in
      do {
        (r, s) \<leftarrow> copyout vma_handle (ppagetable (procs s p)) addr (mem s) (mb_head m (mem s)) (ucast recv_sz) s;
        (if r \<noteq> 0 then do { s \<leftarrow> mbuffree m s; Some (-1, s) }
         else do {
           let s = set_cb si (\<lambda>c. c\<lparr>rcv_wnd := rcv_wnd c + ucast recv_sz\<rparr>) s;
           s \<leftarrow> (if of_int n < mlen
                 then let s = upd_mem (\<lambda>d. snd (mbufpull m (of_int n) d)) s;
                          s = upd_mem (set_mb_next m (q_head (sk_rxq (socks s si)))) s
                      in Some (set_sock si (\<lambda>k. k\<lparr>sk_rxq := (sk_rxq k)\<lparr>q_head := m\<rparr>\<rparr>) s)
                 else mbuffree m s);
           let n = n - uint recv_sz;
           let len = len + uint recv_sz;
           (if n = 0 \<or> mbufq_empty (sk_rxq (socks s si)) then Some (len, s)
            else recv_copy p si (addr + ucast recv_sz) n len s) }) })"

definition tcp_api_receive :: "('a knet_scheme \<Rightarrow> 'a knet_scheme option) \<Rightarrow> u64 \<Rightarrow> u64 \<Rightarrow> int \<Rightarrow> nat \<Rightarrow> 'a knet_scheme \<Rightarrow>
    (int \<times> 'a knet_scheme) option" where
  "tcp_api_receive world si addr n p s = do {
     s \<leftarrow> acquire TcpLock s;
     (closed, s) \<leftarrow>
       (if mbufq_empty (sk_rxq (socks s si)) \<and> cb_state (cb_of si s) = CLOSE_WAIT then Some (True, s)
        else recv_wait world p si s);
     (r, s) \<leftarrow>
       (if closed then Some (0, s)
        else if pkilled (procs s p) \<noteq> 0 then Some (-1, s)
        else recv_copy p si addr n 0 s);
     s \<leftarrow> release TcpLock s;
     Some (r, s) }"

end
