(* ===== verification/NetRx.thy ===== *)
theory NetRx
  imports Tcp
begin

text \<open>
  Receiving: the Internet checksum, ARP, UDP, ICMP, IP and Ethernet of \<open>kernel/net.c\<close> and
  \<open>kernel/icmp.c\<close>, and the rings of the network card (\<open>kernel/e1000.c\<close>).  The card writes its
  registers and descriptors between the handlers, so inside one they change only by what it stores.
\<close>

section \<open>The Internet checksum\<close>

fun sum16 :: "nat \<Rightarrow> u64 \<Rightarrow> bytes \<Rightarrow> u32" where
  \<comment> \<open>\<open>k\<close> 16-bit words from \<open>a\<close>, added from the first to the last\<close>
  "sum16 0 a d = 0"
| "sum16 (Suc k) a d = ucast (ld16 d a) + sum16 k (a + 2) d"

definition in_cksum :: "u64 \<Rightarrow> nat \<Rightarrow> bytes \<Rightarrow> u16" where
  "in_cksum addr len d =
     (let sum = sum16 (len div 2) addr d;
          sum = (if len mod 2 = 1 then sum + ucast (d (addr + of_nat (len - 1))) else sum);
          sum = (sum AND 0xffff) + drop_bit 16 sum;
          sum = sum + drop_bit 16 sum
      in ucast (NOT sum))"

section \<open>ARP, UDP and ICMP\<close>

definition net_rx_arp :: "u64 \<Rightarrow> 'a knet_scheme \<Rightarrow> 'a knet_scheme option" where
  "net_rx_arp m s =
     (let (h, d) = mbufpull m 28 (mem s); s = s\<lparr>mem := d\<rparr> in
      if h = 0 \<or> bswaps (ld16 d h) \<noteq> 1 \<or> bswaps (ld16 d (h + 2)) \<noteq> ETHTYPE_IP \<or>
         d (h + 4) \<noteq> of_nat ETHADDR_LEN \<or> d (h + 5) \<noteq> 4
      then mbuffree m s
      else do {
        let smac = get_list (h + 8) ETHADDR_LEN d;
        let sip = bswapl (ld32 d (h + 14));
        (merge_flag, s) \<leftarrow> update_arp sip smac s;
        (if bswapl (ld32 (mem s) (h + 24)) \<noteq> local_ip then mbuffree m s
         else do {
           s \<leftarrow> (if merge_flag then Some s else add_arp sip smac s);
           s \<leftarrow> (if bswaps (ld16 (mem s) (h + 6)) = ARP_OP_REQUEST
                 then do { (_, s) \<leftarrow> net_tx_arp net_tx_eth ARP_OP_REPLY smac sip s; Some s }
                 else send_remove_arpq sip s);
           mbuffree m s }) })"

definition net_rx_udp :: "u64 \<Rightarrow> u16 \<Rightarrow> u64 \<Rightarrow> 'a knet_scheme \<Rightarrow> 'a knet_scheme option" where
  "net_rx_udp m len iphdr s =
     (let (h, d) = mbufpull m 8 (mem s); s = s\<lparr>mem := d\<rparr> in
      if h = 0 \<or> bswaps (ld16 d (h + 4)) \<noteq> len \<or> ucast (len - 8) > mb_len m d then mbuffree m s
      else
        let s = upd_mem (\<lambda>d. snd (mbuftrim m (mb_len m d - ucast (len - 8)) d)) s;
            sip = bswapl (ld32 (mem s) (iphdr + 12));
            sport = bswaps (ld16 (mem s) h);
            dport = bswaps (ld16 (mem s) (h + 2))
        in sockrecvudp m sip dport sport s)"

definition ICMP_ECHOREPLY :: u8 where "ICMP_ECHOREPLY = 0"

definition icmp_type :: "u64 \<Rightarrow> bytes \<Rightarrow> u8" where
  \<comment> \<open>\<open>uint8 type = ntohs(icmphdr->type)\<close>: the byte is widened, swapped and cut back to 8 bits\<close>
  "icmp_type h d = ucast (bswaps (ucast (d h)))"

definition net_rx_icmp :: "u64 \<Rightarrow> u16 \<Rightarrow> u64 \<Rightarrow> 'a knet_scheme \<Rightarrow> 'a knet_scheme option" where
  "net_rx_icmp m len iphdr s =
     (let (h, d) = mbufpull m 8 (mem s); s = s\<lparr>mem := d\<rparr>; len = len - 8 in
      if h = 0 \<or> ucast len > mb_len m d then mbuffree m s
      else
        let padding = ucast (mb_len m d - ucast len) :: u16;
            s = upd_mem (\<lambda>d. snd (mbuftrim m (ucast padding) d)) s in
        if icmp_type h (mem s) = ICMP_ECHOREPLY
        then do {
          (p, d) \<leftarrow> mbufput m 2 (mem s);
          (q, d) \<leftarrow> mbufput m 1 (st16 p (padding + 20 + 14 + 8) d);
          let s = s\<lparr>mem := d(q := d (iphdr + 8))\<rparr>;
          sockrecvicmp m (bswapl (ld32 (mem s) (iphdr + 12))) s }
        else panic ''net_rx_icmp'')"

section \<open>IP and Ethernet\<close>

definition net_rx_ip :: "u64 \<Rightarrow> 'a knet_scheme \<Rightarrow> 'a knet_scheme option" where
  "net_rx_ip m s =
     (let (h, d) = mbufpull m 20 (mem s); s = s\<lparr>mem := d\<rparr> in
      if h = 0 \<or> d h \<noteq> 0x45 \<or> in_cksum h 20 d \<noteq> 0 \<or> bswaps (ld16 d (h + 6)) \<noteq> 0 \<or>
         bswapl (ld32 d (h + 16)) \<noteq> local_ip
      then mbuffree m s
      else
        let len = bswaps (ld16 d (h + 2)) - 20; proto = d (h + 9) in
        if proto = IPPROTO_UDP then net_rx_udp m len h s
        else if proto = IPPROTO_TCP then net_rx_tcp m len h s
        else if proto = IPPROTO_ICMP then net_rx_icmp m len h s
        else mbuffree m s)"

definition net_rx :: "u64 \<Rightarrow> 'a knet_scheme \<Rightarrow> 'a knet_scheme option" where
  "net_rx m s =
     (let (h, d) = mbufpull m 14 (mem s); s = s\<lparr>mem := d\<rparr> in
      if h = 0 then mbuffree m s
      else
        let ty = bswaps (ld16 d (h + 12)) in
        if ty = ETHTYPE_IP then net_rx_ip m s
        else if ty = ETHTYPE_ARP then net_rx_arp m s
        else mbuffree m s)"

section \<open>The card\<close>

definition TX_RING_SIZE :: nat where "TX_RING_SIZE = 16"
definition RX_RING_SIZE :: nat where "RX_RING_SIZE = 16"
definition E1000_ICR :: nat where "E1000_ICR = 0x000C0 div 4"
definition E1000_IMS :: nat where "E1000_IMS = 0x000D0 div 4"
definition E1000_IMC :: nat where "E1000_IMC = 0x000D8 div 4"
definition E1000_RDT :: nat where "E1000_RDT = 0x02818 div 4"
definition E1000_RXDW :: u32 where "E1000_RXDW = 128"
definition STAT_DD :: u8 where "STAT_DD = 1"
definition CMD_EOP :: u8 where "CMD_EOP = 0x01"
definition CMD_TSE :: u8 where "CMD_TSE = 0x04"
definition CMD_RS :: u8 where "CMD_RS = 0x08"
definition CMD_DEXT :: u8 where "CMD_DEXT = 0x20"
definition CMD_IDE :: u8 where "CMD_IDE = 0x80"
definition DTYP_D :: u8 where "DTYP_D = 0x10"
definition POPTS_IXSM :: u8 where "POPTS_IXSM = 1"
definition POPTS_TXSM :: u8 where "POPTS_TXSM = 2"

definition set_reg :: "nat \<Rightarrow> u32 \<Rightarrow> 'a knet_scheme \<Rightarrow> 'a knet_scheme" where
  "set_reg r v s = s\<lparr>nic_regs := (nic_regs s)(r := v)\<rparr>"

definition set_desc :: "nat \<Rightarrow> (tx_desc \<Rightarrow> tx_desc) \<Rightarrow> 'a knet_scheme \<Rightarrow> 'a knet_scheme" where
  "set_desc i f s = s\<lparr>tx_ring := (tx_ring s)(i := f (tx_ring s i))\<rparr>"

definition tdt :: "'a knet_scheme \<Rightarrow> nat" where "tdt s = unat (nic_regs s E1000_TDT)"
definition tdh :: "'a knet_scheme \<Rightarrow> nat" where "tdh s = unat (nic_regs s E1000_TDH)"

definition tx_full :: "'a knet_scheme \<Rightarrow> bool" where
  \<comment> \<open>the test at the start of both transmit functions\<close>
  "tx_full s \<longleftrightarrow> (tdt s + 1) mod TX_RING_SIZE = tdh s \<or> td_status (tx_ring s (tdt s)) AND STAT_DD = 0"

definition advance_tdt :: "'a knet_scheme \<Rightarrow> 'a knet_scheme" where
  "advance_tdt s = set_reg E1000_TDT (of_nat ((tdt s + 1) mod TX_RING_SIZE)) s"

definition e1000_context_desc_transmit :: "u64 \<Rightarrow> 'a knet_scheme \<Rightarrow> (int \<times> 'a knet_scheme) option" where
  \<comment> \<open>a full ring releases the caller's lock\<close>
  "e1000_context_desc_transmit m s =
     (if tx_full s then do { s \<leftarrow> release NicLock s; Some (-1, s) }
      else
        let i = tdt s;
            s = set_desc i (\<lambda>t. t\<lparr>td_addr := push_bit 16 33 OR push_bit 8 24 OR 14,
                                  td_cmd := CMD_DEXT OR CMD_RS OR CMD_IDE OR 2\<rparr>) s;
            s = (if mb_offload m (mem s) AND MBUF_CSUM_OFLD_TCP \<noteq> 0
                 then set_desc i (\<lambda>t. t\<lparr>td_addr := td_addr t OR (push_bit 40 50 OR push_bit 32 34),
                        td_length := ucast (mb_len m (mem s)), td_cmd := td_cmd t OR (1 OR CMD_TSE),
                        td_special := TCP_CB_WND_SIZE, td_css := 50 + 4\<rparr>) s
                 else s)
        in Some (0, advance_tdt s))"

definition e1000_transmit :: "u64 \<Rightarrow> 'a knet_scheme \<Rightarrow> (int \<times> 'a knet_scheme) option" where
  "e1000_transmit m s = do {
     let offload = (mb_offload m (mem s) AND MBUF_CSUM_OFLD_ENABLE \<noteq> 0);
     (r, s) \<leftarrow> (if offload then e1000_context_desc_transmit m s else Some (0, s));
     (if r < 0 then Some (-1, s)
      else if tx_full s then do { s \<leftarrow> release NicLock s; Some (-1, s) }
      else do {
        let i = tdt s;
        s \<leftarrow> (if tx_mbufs s i \<noteq> 0 then mbuffree (tx_mbufs s i) s else Some s);
        let s = set_desc i (\<lambda>t. t\<lparr>td_addr := mb_head m (mem s), td_length := ucast (mb_len m (mem s)),
                              td_cmd := CMD_RS OR CMD_EOP OR CMD_IDE\<rparr>) s;
        let s = (if offload
                 then let s = set_desc i (\<lambda>t. t\<lparr>td_cmd := td_cmd t OR CMD_DEXT, td_cso := DTYP_D, td_css := POPTS_IXSM\<rparr>) s
                      in if mb_offload m (mem s) AND MBUF_CSUM_OFLD_TCP \<noteq> 0
                         then set_desc i (\<lambda>t. t\<lparr>td_cmd := td_cmd t OR CMD_TSE, td_css := td_css t OR POPTS_TXSM\<rparr>) s
                         else s
                 else s);
        Some (0, advance_tdt (s\<lparr>tx_mbufs := (tx_mbufs s)(i := m)\<rparr>)) }) }"

partial_function (option) e1000_send_loop :: "'a knet_scheme \<Rightarrow> 'a knet_scheme option" where
  "e1000_send_loop s =
     (if mbufq_empty (nic_txq s) then Some s
      else do {
        let (m, q) = mbufq_pophead (nic_txq s) (mem s);
        (r, s) \<leftarrow> e1000_transmit m (s\<lparr>nic_txq := q\<rparr>);
        s \<leftarrow> (if r \<noteq> 0 then mbuffree m s else Some s);
        e1000_send_loop s })"

definition e1000_send :: "'a knet_scheme \<Rightarrow> 'a knet_scheme option" where
  "e1000_send s = do { s \<leftarrow> acquire NicLock s; s \<leftarrow> e1000_send_loop s; release NicLock s }"

partial_function (option) e1000_recv_loop :: "nat \<Rightarrow> 'a knet_scheme \<Rightarrow> (nat \<times> 'a knet_scheme) option" where
  "e1000_recv_loop rdt s =
     (let i = (rdt + 1) mod RX_RING_SIZE in
      if rd_status (rx_ring s i) AND STAT_DD = 0 then Some (rdt, s)
      else do {
        s \<leftarrow> net_rx (rx_mbufs s i) (upd_mem (set_mb_len (rx_mbufs s i) (ucast (rd_length (rx_ring s i)))) s);
        (m, s) \<leftarrow> mbufalloc 0 s;
        (if m = 0 then None \<comment> \<open>null dereference\<close>
         else e1000_recv_loop i
           (s\<lparr>rx_mbufs := (rx_mbufs s)(i := m),
              rx_ring := (rx_ring s)(i := (rx_ring s i)\<lparr>rd_addr := mb_head m (mem s), rd_status := 0\<rparr>)\<rparr>)) })"

definition e1000_recv :: "'a knet_scheme \<Rightarrow> 'a knet_scheme option" where
  "e1000_recv s = do {
     (rdt, s) \<leftarrow> e1000_recv_loop (unat (nic_regs s E1000_RDT)) s;
     Some (set_reg E1000_RDT (of_nat rdt) s) }"

definition e1000_intr :: "'a knet_scheme \<Rightarrow> 'a knet_scheme option" where
  "e1000_intr s = do {
     let s = set_reg E1000_IMC E1000_RXDW s;
     let reg = nic_regs s E1000_ICR;
     let s = set_reg E1000_ICR reg s;
     s \<leftarrow> (if reg AND E1000_TXDW \<noteq> 0 then e1000_send s else Some s);
     s \<leftarrow> (if reg AND E1000_RXDW \<noteq> 0 then e1000_recv s else Some s);
     Some (set_reg E1000_IMS (E1000_RXDW OR E1000_TXDW) s) }"

end
