(* ===== verification/Sockets.thy ===== *)
theory Sockets
  imports NetRx ExecLoad Printf
begin

text \<open>
  Sockets as files: the rest of \<open>kernel/sysnet.c\<close> and the system calls of \<open>kernel/syssock.c\<close>.
  \<open>world\<close> is what the other processes and the devices do while this one sleeps.
\<close>

section \<open>Closing, reading and writing\<close>

partial_function (option) drop_rxq :: "u64 \<Rightarrow> 'a knet_scheme \<Rightarrow> 'a knet_scheme option" where
  "drop_rxq si s =
     (if mbufq_empty (sk_rxq (socks s si)) then Some s
      else do {
        s \<leftarrow> printf (asc ''close mbufq_pophead'' @ [10]) [] s;
        let (m, s) = rxq_pop si s;
        s \<leftarrow> mbuffree m s;
        drop_rxq si s })"

definition sockclose :: "('a knet_scheme \<Rightarrow> 'a knet_scheme option) \<Rightarrow> u64 \<Rightarrow> 'a knet_scheme \<Rightarrow> 'a knet_scheme option" where
  "sockclose world si s = do {
     (_, s) \<leftarrow> (if sk_type (socks s si) = SOCK_STREAM then tcp_api_close world si s else Some (0, s));
     (_, s) \<leftarrow> sock_hashtable_remove si s;
     s \<leftarrow> drop_rxq si s;
     kfree si s }"

partial_function (option) rxq_wait ::
  "('a knet_scheme \<Rightarrow> 'a knet_scheme option) \<Rightarrow> nat \<Rightarrow> u64 \<Rightarrow> 'a knet_scheme \<Rightarrow> 'a knet_scheme option" where
  "rxq_wait world p si s =
     (if mbufq_empty (sk_rxq (socks s si)) \<and> pkilled (procs s p) = 0
      then do { s \<leftarrow> sleep world (rxq_chan si) (sklock si) s; rxq_wait world p si s }
      else Some s)"

definition copy_field :: "nat \<Rightarrow> u64 \<Rightarrow> u64 \<Rightarrow> u64 \<Rightarrow> 'a knet_scheme \<Rightarrow> (bool \<times> 'a knet_scheme) option" where
  \<comment> \<open>\<open>copyout\<close> of a field of the packet, unless the user's pointer is null; \<open>False\<close> goes to
      \<open>bad\<close>\<close>
  "copy_field p dst src n s =
     (if dst = 0 then Some (True, s)
      else do {
        (r, s) \<leftarrow> copyout vma_handle (ppagetable (procs s p)) dst (mem s) src n s;
        Some (r = 0, s) })"

definition sockread1 :: "('a knet_scheme \<Rightarrow> 'a knet_scheme option) \<Rightarrow> u64 \<Rightarrow> u64 \<Rightarrow> int \<Rightarrow> u64 \<Rightarrow> u64 \<Rightarrow> 'a knet_scheme \<Rightarrow>
    (int \<times> 'a knet_scheme) option" where
  \<comment> \<open>\<open>bad\<close> frees the packet but leaves the socket locked when a field could not be copied\<close>
  "sockread1 world si addr n sip sport s = do {
     let p = curp s;
     (if sk_type (socks s si) = SOCK_STREAM then tcp_api_receive world si addr n p s
      else do {
        s \<leftarrow> acquire (sklock si) s;
        s \<leftarrow> rxq_wait world p si s;
        (if pkilled (procs s p) \<noteq> 0 then do { s \<leftarrow> release (sklock si) s; Some (-1, s) }
         else do {
           let (m, s) = rxq_pop si s;
           (ok, s) \<leftarrow> copy_field p sip (m + 2068) 4 s;
           (ok, s) \<leftarrow> (if ok then copy_field p sport (m + 2072) 2 s else Some (False, s));
           (if \<not> ok then do { s \<leftarrow> mbuffree m s; Some (-1, s) }
            else do {
              s \<leftarrow> release (sklock si) s;
              let len = sint (mb_len m (mem s));
              let len = (if len > n then n else len);
              (r, s) \<leftarrow> copyout vma_handle (ppagetable (procs s p)) addr (mem s) (mb_head m (mem s)) (of_int len) s;
              s \<leftarrow> mbuffree m s;
              Some (if r \<noteq> 0 then -1 else len, s) }) }) }) }"

definition sockread :: "('a knet_scheme \<Rightarrow> 'a knet_scheme option) \<Rightarrow> u64 \<Rightarrow> u64 \<Rightarrow> int \<Rightarrow> 'a knet_scheme \<Rightarrow>
    (int \<times> 'a knet_scheme) option" where
  "sockread world si addr n s = sockread1 world si addr n 0 0 s"

definition sockwrite1 :: "u64 \<Rightarrow> u64 \<Rightarrow> int \<Rightarrow> u32 \<Rightarrow> u32 \<Rightarrow> 'a knet_scheme \<Rightarrow> (int \<times> 'a knet_scheme) option" where
  "sockwrite1 si addr n rip rport s = do {
     let p = curp s;
     (m, s) \<leftarrow> mbufalloc MBUF_DEFAULT_HEADROOM s;
     (if m = 0 then Some (-1, s)
      else do {
        (h, d) \<leftarrow> mbufput m (of_int n) (mem s);
        (r, d, s) \<leftarrow> copyin vma_handle (ppagetable (procs s p)) d h addr (of_int n) (s\<lparr>mem := d\<rparr>);
        let s = upd_mem (mem_copy h d h (nat n)) s;
        (if r = -1 then do { s \<leftarrow> mbuffree m s; Some (-1, s) }
         else if sk_type (socks s si) = SOCK_STREAM then tcp_api_send m si (PSH OR ACK) n s
         else if sk_type (socks s si) = SOCK_DGRAM
         then do { s \<leftarrow> net_tx_udp m rip (sk_lport (socks s si)) (ucast rport) s; Some (n, s) }
         else do { s \<leftarrow> net_tx_icmp m rip s; Some (n, s) }) }) }"

definition sockwrite :: "u64 \<Rightarrow> u64 \<Rightarrow> int \<Rightarrow> 'a knet_scheme \<Rightarrow> (int \<times> 'a knet_scheme) option" where
  "sockwrite si addr n s = sockwrite1 si addr n (sk_raddr (socks s si)) (ucast (sk_rport (socks s si))) s"

definition sock_ops :: "('a knet_scheme \<Rightarrow> 'a knet_scheme option) \<Rightarrow> ('a knet_scheme) sockops" where
  "sock_ops world = \<lparr>so_close = sockclose world, so_read = sockread world, so_write = sockwrite\<rparr>"

section \<open>Opening\<close>

definition sock_file :: "nat \<Rightarrow> u64 \<Rightarrow> 'a knet_scheme \<Rightarrow> 'a knet_scheme" where
  "sock_file f si = set_file f (\<lambda>x. x\<lparr>f_type := FD_SOCK, f_readable := True, f_writable := True, f_sock := si\<rparr>)"

definition sock_bad :: "('a knet_scheme \<Rightarrow> 'a knet_scheme option) \<Rightarrow> u64 \<Rightarrow> nat \<Rightarrow> 'a knet_scheme \<Rightarrow>
    (int \<times> nat option \<times> 'a knet_scheme) option" where
  \<comment> \<open>\<open>bad\<close> with a file: the socket is freed first; closing the file closes it once more when it was
      already connected to the file\<close>
  "sock_bad world si f s = do {
     s \<leftarrow> (if si \<noteq> 0 then kfree si s else Some s);
     s \<leftarrow> fileclose (sock_ops world) f s;
     Some (-1, Some f, s) }"

definition sockalloc :: "('a knet_scheme \<Rightarrow> 'a knet_scheme option) \<Rightarrow> u32 \<Rightarrow> u16 \<Rightarrow> u16 \<Rightarrow> u8 \<Rightarrow> bool \<Rightarrow> 'a knet_scheme \<Rightarrow>
    (int \<times> nat option \<times> 'a knet_scheme) option" where
  "sockalloc world raddr lport rport sock_type is_client s = do {
     (fo, s) \<leftarrow> filealloc s;
     (case fo of None \<Rightarrow> Some (-1, None, s)
      | Some f \<Rightarrow> do {
          (si, s) \<leftarrow> kmalloc s;
          (if si = 0 then sock_bad world 0 f s
           else do {
             let s = set_sock si (\<lambda>k. k\<lparr>sk_raddr := raddr, sk_lport := lport, sk_rport := rport, sk_type := sock_type,
                       sk_cb := (sk_cb k)\<lparr>cb_parent := 0\<rparr>, sk_rxq := mbufq_init (sk_rxq k)\<rparr>) s;
             let s = sock_file f si (s\<lparr>lk := (lk s)(sklock si := None)\<rparr>);
             (r, s) \<leftarrow> sock_hashtable_add lport raddr rport si s;
             (if r < 0 then sock_bad world si f s
              else do {
                (_, s) \<leftarrow> (if sock_type = SOCK_STREAM
                          then if is_client then tcp_init_client world si s else tcp_init_server si s
                          else Some (0, s));
                Some (0, Some f, s) }) }) }) }"

definition sockaccept :: "('a knet_scheme \<Rightarrow> 'a knet_scheme option) \<Rightarrow> u64 \<Rightarrow> 'a knet_scheme \<Rightarrow>
    (int \<times> nat option \<times> 'a knet_scheme) option" where
  \<comment> \<open>the control block of the new socket is a copy; its \<open>parent\<close> is the address of the listener's\<close>
  "sockaccept world osi s =
     (let ok = socks s osi in
      if sk_type ok \<noteq> SOCK_STREAM then Some (-1, None, s)
      else if sk_rport ok \<noteq> 0 \<or> sk_raddr ok \<noteq> 0 \<or> cb_parent (sk_cb ok) \<noteq> 0 then Some (-1, None, s)
      else do {
        (fo, s) \<leftarrow> filealloc s;
        (case fo of None \<Rightarrow> Some (-1, None, s)
         | Some f \<Rightarrow> do {
             (si, s) \<leftarrow> kmalloc s;
             (if si = 0 then sock_bad world 0 f s
              else do {
                let ok = socks s osi;
                let s = set_sock si (\<lambda>k. k\<lparr>sk_raddr := 0, sk_lport := sk_lport ok, sk_rport := 0, sk_type := sk_type ok,
                          sk_cb := (sk_cb ok)\<lparr>cb_parent := osi\<rparr>, sk_rxq := mbufq_init (sk_rxq k)\<rparr>) s;
                let s = sock_file f si (s\<lparr>lk := (lk s)(sklock si := None)\<rparr>);
                (r, s) \<leftarrow> sock_hashtable_add (sk_lport (socks s si)) 0 0 si s;
                (if r < 0 then sock_bad world si f s
                 else do { (r, s) \<leftarrow> tcp_api_accept world si s; Some (r, Some f, s) }) }) }) })"

section \<open>System calls\<close>

definition install_file :: "('a knet_scheme \<Rightarrow> 'a knet_scheme option) \<Rightarrow> nat \<Rightarrow> 'a knet_scheme \<Rightarrow> (int \<times> 'a knet_scheme) option" where
  "install_file world f s =
     (let (fd, s) = fdalloc f s in
      if fd < 0 then do { s \<leftarrow> fileclose (sock_ops world) f s; Some (-1, s) } else Some (fd, s))"

definition sys_connect :: "('a knet_scheme \<Rightarrow> 'a knet_scheme option) \<Rightarrow> 'a knet_scheme \<Rightarrow> (int \<times> 'a knet_scheme) option" where
  "sys_connect world s = do {
     raddr \<leftarrow> argint 0 s; lport \<leftarrow> argint 1 s; rport \<leftarrow> argint 2 s; sock_type \<leftarrow> argint 3 s; is_client \<leftarrow> argint 4 s;
     (r, f, s) \<leftarrow> sockalloc world (of_int raddr) (of_int lport) (of_int rport) (of_int sock_type) (is_client \<noteq> 0) s;
     (if r < 0 then Some (-1, s)
      else case f of None \<Rightarrow> None | Some f \<Rightarrow> install_file world f s) }"

definition sys_accept :: "('a knet_scheme \<Rightarrow> 'a knet_scheme option) \<Rightarrow> 'a knet_scheme \<Rightarrow> (int \<times> 'a knet_scheme) option" where
  "sys_accept world s = do {
     r \<leftarrow> argfd 0 s;
     (case r of None \<Rightarrow> Some (-1, s)
      | Some (_, f) \<Rightarrow> do {
          (r, nf, s) \<leftarrow> sockaccept world (f_sock (ftable s f)) s;
          (if r < 0 then Some (-1, s)
           else case nf of None \<Rightarrow> None | Some nf \<Rightarrow> install_file world nf s) }) }"

definition sys_recvfrom :: "('a knet_scheme \<Rightarrow> 'a knet_scheme option) \<Rightarrow> 'a knet_scheme \<Rightarrow> (int \<times> 'a knet_scheme) option" where
  "sys_recvfrom world s = do {
     buf \<leftarrow> argaddr 1 s;
     buflen \<leftarrow> argint 2 s;
     r \<leftarrow> argfd 0 s;
     (case r of None \<Rightarrow> Some (-1, s)
      | Some (_, f) \<Rightarrow> do {
          ip \<leftarrow> argaddr 3 s;
          port \<leftarrow> argaddr 4 s;
          (if \<not> f_readable (ftable s f) \<or> f_type (ftable s f) \<noteq> FD_SOCK then Some (-1, s)
           else sockread1 world (f_sock (ftable s f)) buf buflen ip port s) }) }"

definition sys_sendto :: "('a knet_scheme \<Rightarrow> 'a knet_scheme option) \<Rightarrow> 'a knet_scheme \<Rightarrow> (int \<times> 'a knet_scheme) option" where
  "sys_sendto world s = do {
     buf \<leftarrow> argaddr 1 s;
     buflen \<leftarrow> argint 2 s;
     r \<leftarrow> argfd 0 s;
     (case r of None \<Rightarrow> Some (-1, s)
      | Some (_, f) \<Rightarrow> do {
          ip \<leftarrow> argint 3 s;
          port \<leftarrow> argint 4 s;
          (if \<not> f_writable (ftable s f) \<or> f_type (ftable s f) \<noteq> FD_SOCK then Some (-1, s)
           else sockwrite1 (f_sock (ftable s f)) buf buflen (of_int ip) (of_int port) s) }) }"

end
