(* ===== verification/Procfs.thy ===== *)
theory Procfs
  imports Sockets Console
begin

text \<open>
  \<open>kernel/procfs.c\<close>: the directory of processes.  The record adds what the remaining theories need:
  the inode of the directory, the load average and the supervisor registers.  \<open>stk\<close> stands for the
  bytes that happen to be on the kernel stack under an uninitialised array.
\<close>

record ksys = knet +
  main_dir_inum :: u32
  loadavg :: u32          \<comment> \<open>the bits of the \<open>float\<close>\<close>
  scause :: u64
  sepc :: u64
  sstatus :: u64
  stval :: u64
  stvec :: u64
  satp :: u64
  sip :: u64

definition PROCFS :: u16 where "PROCFS = 3"
definition INODE_BASE :: u32 where "INODE_BASE = 10000"
definition FNUM_IN_MAIN_DIR :: nat where "FNUM_IN_MAIN_DIR = 1"
definition PROC_BASE :: u32 where "PROC_BASE = of_nat FNUM_IN_MAIN_DIR + INODE_BASE"
definition INUMS_PER_PROC :: u32 where "INUMS_PER_PROC = 2"

definition IS_MAIN_DIR :: "u32 \<Rightarrow> u16 \<Rightarrow> bool" where
  "IS_MAIN_DIR inum major \<longleftrightarrow> inum < INODE_BASE \<and> major = PROCFS"

definition procfsisdir :: "nat \<Rightarrow> 'a fsst_scheme \<Rightarrow> bool" where
  "procfsisdir ip s \<longleftrightarrow>
     (let x = itable s ip in
      IS_MAIN_DIR (i_inum x) (i_major x) \<or>
      i_inum x \<ge> PROC_BASE \<and> (i_inum x - PROC_BASE) mod INUMS_PER_PROC = 0)"

definition procfsiread :: "nat \<Rightarrow> 'a fsst_scheme \<Rightarrow> 'a fsst_scheme" where
  "procfsiread ip = set_inode ip (\<lambda>x. x\<lparr>i_valid := True, i_nlink := 1, i_type := T_DEVICE, i_major := PROCFS\<rparr>)"

section \<open>Directories\<close>

definition file_name :: "string \<Rightarrow> u8 list" where
  \<comment> \<open>a \<open>char[DIRSIZ]\<close> member of the handler tables\<close>
  "file_name n = take DIRSIZ (asc n @ replicate DIRSIZ 0)"

definition dirent_of :: "u16 \<Rightarrow> u8 list \<Rightarrow> bytes \<Rightarrow> bytes" where
  \<comment> \<open>a \<open>struct dirent\<close> whose name starts with the given bytes, the rest as on the stack\<close>
  "dirent_of inum name d = st16 0 inum (put_list 2 name d)"

definition DIRENT_SIZE :: u32 where "DIRENT_SIZE = 16"

definition put_dirent :: "'a ksys_scheme put \<Rightarrow> bytes \<Rightarrow> 'a ksys_scheme \<Rightarrow> (int \<times> 'a ksys_scheme) option" where
  \<comment> \<open>the end of both directory functions, from \<open>ret\<close>\<close>
  "put_dirent put de s = do {
     (r, s) \<leftarrow> put 0 de 0 16 s;
     Some (if r < 0 then -1 else 16, s) }"

definition read_main_dir :: "bytes \<Rightarrow> nat \<Rightarrow> 'a ksys_scheme put \<Rightarrow> u32 \<Rightarrow> 'a ksys_scheme \<Rightarrow> (int \<times> 'a ksys_scheme) option" where
  "read_main_dir stk ip put off s =
     (let idx = off div DIRENT_SIZE in
      if idx = 0 then put_dirent put (dirent_of (ucast (i_inum (itable s ip))) [46, 0] stk) s
      else if idx = 1 then put_dirent put (dirent_of (ucast ROOTINO) [46, 46, 0] stk) s
      else let idx = unat (idx - 2) in
        if idx < FNUM_IN_MAIN_DIR
        then put_dirent put (dirent_of (ucast (INODE_BASE + of_nat idx)) (file_name ''uptime'') stk) s
        else do {
          (p, s) \<leftarrow> get_proc_by_idx (int (idx - FNUM_IN_MAIN_DIR)) s;
          (case p of None \<Rightarrow> Some (0, s)
           | Some p \<Rightarrow> do {
               let pid = (of_int (ppid (procs s p)) :: u32);
               (n, d) \<leftarrow> snprintf 2 (int DIRSIZ - 1) (asc ''%d'') [VInt pid]
                          (st16 0 (ucast (INUMS_PER_PROC * pid + PROC_BASE)) stk);
               put_dirent put (d(2 + of_int n := 0)) s }) })"

definition read_proc_dir :: "bytes \<Rightarrow> nat \<Rightarrow> 'a ksys_scheme put \<Rightarrow> u32 \<Rightarrow> 'a ksys_scheme \<Rightarrow> (int \<times> 'a ksys_scheme) option" where
  "read_proc_dir stk ip put off s =
     (let idx = off div DIRENT_SIZE; inum = i_inum (itable s ip) in
      if idx = 0 then put_dirent put (dirent_of (ucast inum) [46, 0] stk) s
      else if idx = 1
      then if main_dir_inum s = 0 then panic ''read_proc_dir''
           else put_dirent put (dirent_of (ucast (main_dir_inum s)) [46, 46, 0] stk) s
      else if idx - 2 < INUMS_PER_PROC - 1
      then put_dirent put (dirent_of (ucast (inum + (idx - 2) + 1)) (file_name ''status'') stk) s
      else Some (0, s))"

section \<open>Files\<close>

definition status_name :: "procstate \<Rightarrow> string" where
  "status_name st = (case st of UNUSED \<Rightarrow> ''unused'' | USED \<Rightarrow> ''used  '' | SLEEPING \<Rightarrow> ''sleep ''
     | RUNNABLE \<Rightarrow> ''runble'' | RUNNING \<Rightarrow> ''run   '' | ZOMBIE \<Rightarrow> ''zombie'')"

definition write_proc_status :: "nat option \<Rightarrow> bytes \<Rightarrow> 'a ksys_scheme \<Rightarrow> (int \<times> bytes) option" where
  \<comment> \<open>a null \<open>p\<close> is dereferenced\<close>
  "write_proc_status p data s =
     (case p of None \<Rightarrow> None
      | Some p \<Rightarrow> do {
          let x = procs s p;
          (len, d) \<leftarrow> snprintf 0 100
             (asc ''proc pid: %d'' @ 10 # asc ''state: %s'' @ 10 # asc ''heap size: %d'' @ [10])
             [VInt (of_int (ppid x)), VStr (Some (asc (status_name (pstate x)))),
              VInt (ucast (ts_sz (tshareds s (ptshared x))))] data;
          Some (len, d(of_int len := 0)) })"

definition write_uptime :: "bytes \<Rightarrow> 'a ksys_scheme \<Rightarrow> (int \<times> bytes) option" where
  "write_uptime data s = do {
     (len, d) \<leftarrow> snprintf 0 20 (asc ''uptime: %d ticks'' @ [10]) [VInt (ticks s)] data;
     Some (len, d(of_int len := 0)) }"

definition procfs_copy :: "'a ksys_scheme put \<Rightarrow> bytes \<Rightarrow> int \<Rightarrow> int \<Rightarrow> int \<Rightarrow> 'a ksys_scheme \<Rightarrow> (int \<times> 'a ksys_scheme) option" where
  \<comment> \<open>the end of \<open>procfsread\<close>: \<open>len\<close> bytes and the NUL are in \<open>data\<close>\<close>
  "procfs_copy put data len off n s =
     (let n = min n (1 + len - off) in
      if n \<le> 0 then Some (0, s)
      else do {
        (r, s) \<leftarrow> put 0 data (of_int off) (of_int n) s;
        Some (if r < 0 then -1 else n, s) })"

definition procfsread :: "bytes \<Rightarrow> nat \<Rightarrow> 'a ksys_scheme put \<Rightarrow> u32 \<Rightarrow> u32 \<Rightarrow> 'a ksys_scheme \<Rightarrow>
    (int \<times> 'a ksys_scheme) option" where
  "procfsread stk ip put off n s =
     (let inum = i_inum (itable s ip) in
      if IS_MAIN_DIR inum (i_major (itable s ip))
      then read_main_dir stk ip put off (if main_dir_inum s = 0 then s\<lparr>main_dir_inum := inum\<rparr> else s)
      else if inum \<ge> PROC_BASE
      then if (inum - PROC_BASE) mod INUMS_PER_PROC = 0 then read_proc_dir stk ip put off s
           else do {
             (p, s) \<leftarrow> get_proc_by_pid (sint ((inum - PROC_BASE) div INUMS_PER_PROC)) s;
             (len, data) \<leftarrow> write_proc_status p stk s;
             (if len < 0 then Some (-1, s) else procfs_copy put data len (sint off) (sint n) s) }
      else if inum - INODE_BASE = 0
      then do {
        (len, data) \<leftarrow> write_uptime stk s;
        (if len < 0 then Some (-1, s) else procfs_copy put data len (sint off) (sint n) s) }
      else None) \<comment> \<open>past the end of \<open>maindir\<close>\<close>"

definition procfswrite :: "'a ksys_scheme get \<Rightarrow> int \<Rightarrow> 'a ksys_scheme \<Rightarrow> (int \<times> 'a ksys_scheme) option" where
  "procfswrite get n s = Some (-1, s)"

definition procfs_dev :: "bytes \<Rightarrow> ('a ksys_scheme) devops" where
  \<comment> \<open>what \<open>procfsinit\<close> stores in \<open>devsw[PROCFS]\<close>\<close>
  "procfs_dev stk = \<lparr>dv_isdir = Some procfsisdir, dv_iread = Some procfsiread,
     dv_read = Some (procfsread stk), dv_write = Some procfswrite\<rparr>"

end
