(* ===== verification/SysProc.thy ===== *)
theory SysProc
  imports Procfs
begin

text \<open>
  The system calls on processes (\<open>kernel/sysproc.c\<close>), the printers of page tables they use
  (\<open>vmprint\<close> of \<open>kernel/vm.c\<close>) and the load average of \<open>kernel/proc.c\<close>.  The arithmetic on
  \<open>float\<close> is the argument \<open>avg\<close>; handlers that fork, exec or sleep take the environment of
  \<open>SysFile\<close>.
\<close>

section \<open>The load average\<close>

definition calculate_load_1m :: "(int \<Rightarrow> u32 \<Rightarrow> u32) \<Rightarrow> 'a ksys_scheme \<Rightarrow> 'a ksys_scheme" where
  \<comment> \<open>\<open>avg count l\<close> is \<open>alpha1m * count + (1 - alpha1m) * l\<close>\<close>
  "calculate_load_1m avg s = s\<lparr>loadavg := avg (proc_number s) (loadavg s)\<rparr>"

definition get_avgload_1m :: "'a ksys_scheme \<Rightarrow> u32" where
  "get_avgload_1m s = loadavg s"

section \<open>Printing page tables\<close>

fun print_dots :: "nat \<Rightarrow> 'a kcons_scheme \<Rightarrow> 'a kcons_scheme option" where
  "print_dots 0 s = Some s"
| "print_dots (Suc k) s = do { s \<leftarrow> printf (asc ''.. '') [] s; print_dots k s }"

definition print_pte :: "nat \<Rightarrow> nat \<Rightarrow> u64 \<Rightarrow> 'a kcons_scheme \<Rightarrow> 'a kcons_scheme option" where
  "print_pte depth i pte s = do {
     s \<leftarrow> print_dots depth s;
     printf (asc ''%d: pte %p pa %p'' @ [10]) [VInt (of_nat i), VPtr pte, VPtr (PTE2PA pte)] s }"

definition is_table :: "u64 \<Rightarrow> bool" where
  "is_table pte \<longleftrightarrow> pte AND PTE_V \<noteq> 0 \<and> pte AND (PTE_R OR PTE_W OR PTE_X) = 0"

fun vmprint_from :: "nat \<Rightarrow> nat \<Rightarrow> u64 \<Rightarrow> nat \<Rightarrow> bool \<Rightarrow> nat \<Rightarrow> 'a kcons_scheme \<Rightarrow> 'a kcons_scheme option" where
  \<comment> \<open>\<open>lv\<close> levels below this table may still be entered, \<open>k\<close> entries are left, \<open>cnt\<close> is
      \<open>count_dp3\<close>\<close>
  "vmprint_from lv 0 pt depth abbr cnt s =
     (if abbr \<and> cnt > 0 \<and> depth = 3
      then do { s \<leftarrow> print_dots depth s; printf (asc ''%d'' @ [10]) [VInt (of_nat cnt)] s }
      else Some s)"
| "vmprint_from 0 (Suc k) pt depth abbr cnt s =
     (let i = 511 - k; pte = ld64 (mem s) (pt + 8 * of_nat i) in
      if is_table pte then None
      else if pte AND PTE_V \<noteq> 0
      then if abbr \<and> depth = 3 then vmprint_from 0 k pt depth abbr (cnt + 1) s
           else do { s \<leftarrow> print_pte depth i pte s; vmprint_from 0 k pt depth abbr cnt s }
      else vmprint_from 0 k pt depth abbr cnt s)"
| "vmprint_from (Suc lv) (Suc k) pt depth abbr cnt s =
     (let i = 511 - k; pte = ld64 (mem s) (pt + 8 * of_nat i) in
      if is_table pte
      then do {
        s \<leftarrow> print_pte depth i pte s;
        s \<leftarrow> vmprint_from lv 512 (PTE2PA pte) (depth + 1) abbr 0 s;
        vmprint_from (Suc lv) k pt depth abbr cnt s }
      else if pte AND PTE_V \<noteq> 0
      then if abbr \<and> depth = 3 then vmprint_from (Suc lv) k pt depth abbr (cnt + 1) s
           else do { s \<leftarrow> print_pte depth i pte s; vmprint_from (Suc lv) k pt depth abbr cnt s }
      else vmprint_from (Suc lv) k pt depth abbr cnt s)"

definition vmprint :: "bool \<Rightarrow> u64 \<Rightarrow> 'a kcons_scheme \<Rightarrow> 'a kcons_scheme option" where
  \<comment> \<open>\<open>vmprint\<close> and \<open>vmprint_abbr\<close>; a page table has two levels below its root\<close>
  "vmprint abbr pt s = do {
     s \<leftarrow> printf (asc ''page table %p'' @ [10]) [VPtr pt] s;
     vmprint_from 2 512 pt 1 abbr 0 s }"

fun dirty_print_from :: "nat \<Rightarrow> nat \<Rightarrow> u64 \<Rightarrow> 'a kcons_scheme \<Rightarrow> 'a kcons_scheme option" where
  "dirty_print_from lv 0 pt s = Some s"
| "dirty_print_from 0 (Suc k) pt s =
     (let i = 511 - k; pte = ld64 (mem s) (pt + 8 * of_nat i) in
      if is_table pte then None
      else do {
        s \<leftarrow> (if pte AND PTE_V \<noteq> 0 \<and> pte AND PTE_D \<noteq> 0 then print_pte 0 i pte s else Some s);
        dirty_print_from 0 k pt s })"
| "dirty_print_from (Suc lv) (Suc k) pt s =
     (let i = 511 - k; pte = ld64 (mem s) (pt + 8 * of_nat i) in
      if is_table pte
      then do { s \<leftarrow> dirty_print_from lv 512 (PTE2PA pte) s; dirty_print_from (Suc lv) k pt s }
      else do {
        s \<leftarrow> (if pte AND PTE_V \<noteq> 0 \<and> pte AND PTE_D \<noteq> 0 then print_pte 0 i pte s else Some s);
        dirty_print_from (Suc lv) k pt s })"

definition dirty_page_print :: "u64 \<Rightarrow> 'a kcons_scheme \<Rightarrow> 'a kcons_scheme option" where
  "dirty_page_print pt s = do {
     s \<leftarrow> printf (asc ''dirty pages :'' @ [10]) [VPtr pt] s;
     dirty_print_from 2 512 pt s }"

section \<open>Identity, memory and time\<close>

definition sys_exit :: "('a ksys_scheme) env \<Rightarrow> 'a ksys_scheme \<Rightarrow> (int \<times> 'a ksys_scheme) option" where
  \<comment> \<open>the scheduler never comes back to a process that has exited\<close>
  "sys_exit en s = do {
     n \<leftarrow> argint 0 s;
     _ \<leftarrow> exit (en_world en) (en_so en) n s;
     None }"

definition sys_getpid :: "'a ksys_scheme \<Rightarrow> (int \<times> 'a ksys_scheme) option" where
  "sys_getpid s = Some (ppid (procs s (curp s)), s)"

definition sys_fork :: "'a ksys_scheme \<Rightarrow> (int \<times> 'a ksys_scheme) option" where
  "sys_fork s = fork s"

definition sys_wait :: "('a ksys_scheme) env \<Rightarrow> 'a ksys_scheme \<Rightarrow> (int \<times> 'a ksys_scheme) option" where
  "sys_wait en s = do { p \<leftarrow> argaddr 0 s; wait (en_world en) p s }"

definition sys_sbrk :: "'a ksys_scheme \<Rightarrow> (u64 \<times> 'a ksys_scheme) option" where
  "sys_sbrk s = do { n \<leftarrow> argint 0 s; vma_sbrk (curp s) n s }"

definition sys_sbrknaive :: "'a ksys_scheme \<Rightarrow> (u64 \<times> 'a ksys_scheme) option" where
  "sys_sbrknaive s = do {
     n \<leftarrow> argint 0 s;
     let addr = ts_sz (tshareds s (ptshared (procs s (curp s))));
     (r, s) \<leftarrow> growproc n s;
     Some (if r < 0 then -1 else addr, s) }"

partial_function (option) ticks_wait ::
  "('a ksys_scheme \<Rightarrow> 'a ksys_scheme option) \<Rightarrow> u32 \<Rightarrow> u32 \<Rightarrow> 'a ksys_scheme \<Rightarrow> (bool \<times> 'a ksys_scheme) option" where
  \<comment> \<open>the loop of \<open>sys_sleep\<close>; \<open>False\<close>: killed\<close>
  "ticks_wait world ticks0 n s =
     (if ticks s - ticks0 < n
      then do {
        (k, s) \<leftarrow> killed (curp s) s;
        (if k \<noteq> 0 then Some (False, s)
         else do { s \<leftarrow> sleep world OnTicks TicksLock s; ticks_wait world ticks0 n s }) }
      else Some (True, s))"

definition sys_sleep :: "('a ksys_scheme) env \<Rightarrow> 'a ksys_scheme \<Rightarrow> (int \<times> 'a ksys_scheme) option" where
  "sys_sleep en s = do {
     n \<leftarrow> argint 0 s;
     let n = (if n < 0 then 0 else n);
     s \<leftarrow> acquire TicksLock s;
     (ok, s) \<leftarrow> ticks_wait (en_world en) (ticks s) (of_int n) s;
     s \<leftarrow> release TicksLock s;
     Some (if ok then 0 else -1, s) }"

definition sys_uptime :: "'a ksys_scheme \<Rightarrow> (u32 \<times> 'a ksys_scheme) option" where
  "sys_uptime s = do {
     s \<leftarrow> acquire TicksLock s;
     let xticks = ticks s;
     s \<leftarrow> release TicksLock s;
     Some (xticks, s) }"

section \<open>Page inspection\<close>

fun pgaccess_loop :: "nat \<Rightarrow> nat \<Rightarrow> u64 \<Rightarrow> u64 \<Rightarrow> u64 \<Rightarrow> u32 \<Rightarrow> 'a ksys_scheme \<Rightarrow> (u32 \<times> 'a ksys_scheme) option" where
  \<comment> \<open>\<open>k\<close> pages left, the \<open>i\<close>-th at \<open>buf\<close>; \<open>pgsize\<close> stays at 2 MB once a super page has been seen\<close>
  "pgaccess_loop 0 i pt buf pgsize abits s = Some (abits, s)"
| "pgaccess_loop (Suc k) i pt buf pgsize abits s = do {
     pte \<leftarrow> walk_get pt buf s;
     (if pte = 0 \<or> pte_at s pte AND PTE_V = 0 \<or> pte_at s pte AND PTE_U = 0
      then pgaccess_loop k (Suc i) pt (buf + pgsize) pgsize abits s
      else let pgsize = (if PTE2PA (pte_at s pte) \<ge> PHYSTOP then of_nat SUPPGSIZE else pgsize) in
        if pte_at s pte AND PTE_A = 0 then pgaccess_loop k (Suc i) pt (buf + pgsize) pgsize abits s
        else pgaccess_loop k (Suc i) pt (buf + pgsize) pgsize (abits OR push_bit i 1)
               (set_pte pte (pte_at s pte AND NOT PTE_A) s)) }"

definition sys_pgaccess :: "'a ksys_scheme \<Rightarrow> (int \<times> 'a ksys_scheme) option" where
  "sys_pgaccess s = do {
     buf \<leftarrow> argaddr 0 s;
     page_nums \<leftarrow> argint 1 s;
     (if page_nums > 32 then Some (-1, s)
      else do {
        bit \<leftarrow> argaddr 2 s;
        let pt = ppagetable (procs s (curp s));
        (abits, s) \<leftarrow> pgaccess_loop (nat page_nums) 0 pt buf (of_nat PGSIZE) 0 s;
        (r, s) \<leftarrow> copyout vma_handle pt bit (st32 0 abits (\<lambda>_. 0)) 0 4 s;
        Some (if r < 0 then -1 else 0, s) }) }"

definition sys_dirtypages :: "'a ksys_scheme \<Rightarrow> (int \<times> 'a ksys_scheme) option" where
  "sys_dirtypages s = do { s \<leftarrow> dirty_page_print (ppagetable (procs s (curp s))) s; Some (0, s) }"

definition sys_vmprint :: "'a ksys_scheme \<Rightarrow> (int \<times> 'a ksys_scheme) option" where
  "sys_vmprint s = do {
     abbr \<leftarrow> argint 0 s;
     let p = procs s (curp s);
     s \<leftarrow> acquire (tlock (ptshared p)) s;
     s \<leftarrow> printf (asc ''proc memory sz:%d'' @ [10]) [VInt (ucast (ts_sz (tshareds s (ptshared p))))] s;
     s \<leftarrow> release (tlock (ptshared p)) s;
     s \<leftarrow> vmprint (abbr \<noteq> 0) (ppagetable p) s;
     Some (0, s) }"

definition sys_svprint :: "'a ksys_scheme \<Rightarrow> (int \<times> 'a ksys_scheme) option" where
  "sys_svprint s = do {
     (pages, s) \<leftarrow> saved_page 0 s;
     (nbytes, s) \<leftarrow> saved_byte 0 s;
     s \<leftarrow> printf (asc ''saved bytes: %d, saved pages: %d'' @ [10]) [VInt (ucast nbytes), VInt pages] s;
     Some (0, s) }"

definition sysinfo_bytes :: "u64 \<Rightarrow> u64 \<Rightarrow> u32 \<Rightarrow> bytes \<Rightarrow> bytes" where
  \<comment> \<open>\<open>struct sysinfo\<close>, 24 bytes; the last four are padding\<close>
  "sysinfo_bytes freemem nproc load d = st32 16 load (st64 8 nproc (st64 0 freemem d))"

definition sys_sysinfo :: "('a ksys_scheme) env \<Rightarrow> 'a ksys_scheme \<Rightarrow> (int \<times> 'a ksys_scheme) option" where
  "sys_sysinfo en s = do {
     addr \<leftarrow> argaddr 0 s;
     (n, s) \<leftarrow> kcollect s;
     (k, s) \<leftarrow> swapcollect s;
     (r, s) \<leftarrow> copyout vma_handle (ppagetable (procs s (curp s))) addr
                (sysinfo_bytes (of_nat (n + k)) (of_int (proc_number s)) (get_avgload_1m s) (en_stack en)) 0 24 s;
     Some (if r < 0 then -1 else 0, s) }"

section \<open>Processes and signals\<close>

definition sys_kill :: "'a ksys_scheme \<Rightarrow> (int \<times> 'a ksys_scheme) option" where
  "sys_kill s = do { pid \<leftarrow> argint 0 s; kill pid s }"

definition sys_trace :: "'a ksys_scheme \<Rightarrow> (int \<times> 'a ksys_scheme) option" where
  "sys_trace s = do {
     n \<leftarrow> argint 0 s;
     Some (0, set_proc (curp s) (\<lambda>p. p\<lparr>ptrace_arg := n\<rparr>) s) }"

definition sys_sigreturn :: "'a ksys_scheme \<Rightarrow> (u64 \<times> 'a ksys_scheme) option" where
  "sys_sigreturn s = do {
     let p = curp s;
     let s = set_proc p (\<lambda>x. x\<lparr>psa_mask := ptmp_sa_mask x, ptmp_sa_mask := 0\<rparr>) s;
     let s = copy_trapframe (ptrapframe (procs s p)) (psa_trapframe (procs s p)) s;
     Some (tf_a (trapframes s (ptrapframe (procs s p))) 0, s) }"

definition sys_sigalarm :: "'a ksys_scheme \<Rightarrow> (int \<times> 'a ksys_scheme) option" where
  "sys_sigalarm s = do {
     n \<leftarrow> argint 0 s;
     func \<leftarrow> argaddr 1 s;
     Some (0, set_proc (curp s) (\<lambda>x. x\<lparr>palarminterval := n, psa_handler := (psa_handler x)(SIGALARM := func)\<rparr>) s) }"

definition sys_clone :: "'a ksys_scheme \<Rightarrow> (int \<times> 'a ksys_scheme) option" where
  "sys_clone s = do {
     fcn \<leftarrow> argaddr 0 s; arg1 \<leftarrow> argaddr 1 s; arg2 \<leftarrow> argaddr 2 s; stack \<leftarrow> argaddr 3 s;
     clone fcn arg1 arg2 stack s }"

definition sys_join :: "('a ksys_scheme) env \<Rightarrow> 'a ksys_scheme \<Rightarrow> (int \<times> 'a ksys_scheme) option" where
  "sys_join en s = do { stack \<leftarrow> argaddr 0 s; join (en_world en) stack s }"

definition sys_sigsend :: "'a ksys_scheme \<Rightarrow> (int \<times> 'a ksys_scheme) option" where
  "sys_sigsend s = do {
     pid \<leftarrow> argint 0 s;
     signum \<leftarrow> argint 1 s;
     (if pid < 0 \<or> signum < 0 \<or> signum \<ge> int NUMSIG then Some (-1, s) else sendsignal (nat signum) pid s) }"

definition sys_signal :: "'a ksys_scheme \<Rightarrow> (int \<times> 'a ksys_scheme) option" where
  "sys_signal s = do {
     signum \<leftarrow> argint 0 s;
     func \<leftarrow> argaddr 1 s;
     (if signum < 0 \<or> signum \<ge> int NUMSIG \<or> signum = int SIGKILL then Some (-1, s)
      else Some (0, set_proc (curp s) (\<lambda>x. x\<lparr>psa_handler := (psa_handler x)(nat signum := func)\<rparr>) s)) }"

definition sys_sigprocmask :: "'a ksys_scheme \<Rightarrow> (int \<times> 'a ksys_scheme) option" where
  "sys_sigprocmask s = do {
     mask \<leftarrow> argint 0 s;
     let old = psa_mask (procs s (curp s));
     Some (sint old, set_proc (curp s) (\<lambda>x. x\<lparr>psa_mask := of_int mask\<rparr>) s) }"

end
