(* ===== verification/Virtio.thy ===== *)
theory Virtio
  imports SysProc
begin

text \<open>
  The disk driver, \<open>kernel/virtio_disk.c\<close>.  The queue's three arrays, which the driver and the
  device share, are fields of the state; a pointer stored in a descriptor is the object it points
  to.  The device itself, which reads \<open>avail\<close> and writes \<open>used\<close>, is no part of the model:
  \<open>react\<close> is what it makes of a write to one of its registers, \<open>world\<close> what happens while the
  caller sleeps.
\<close>

datatype dptr = DNull | OpsPtr nat | DataPtr nat | StatusPtr nat

record virtq_desc =
  vd_addr :: dptr
  vd_len :: u32
  vd_flags :: u16
  vd_next :: u16

record virtio_blk_req =
  rq_type :: u32
  rq_reserved :: u32
  rq_sector :: u64

record kdisk = ksys +
  vq_desc :: "nat \<Rightarrow> virtq_desc"
  avail_idx :: u16
  avail_ring :: "nat \<Rightarrow> u16"
  used_idx :: u16               \<comment> \<open>\<open>disk.used->idx\<close>, which the device increments\<close>
  used_ring :: "nat \<Rightarrow> u32"
  vfree :: "nat \<Rightarrow> bool"
  used_seen :: u16              \<comment> \<open>\<open>disk.used_idx\<close>\<close>
  vinfo_b :: "nat \<Rightarrow> nat option"
  vinfo_status :: "nat \<Rightarrow> u8"
  vops :: "nat \<Rightarrow> virtio_blk_req"
  b_disk :: "nat \<Rightarrow> int"        \<comment> \<open>\<open>b->disk\<close>, by buffer\<close>
  vregs :: "nat \<Rightarrow> u32"
  vpages :: "u64 \<times> u64 \<times> u64"   \<comment> \<open>the pages of \<open>desc\<close>, \<open>avail\<close> and \<open>used\<close>\<close>

definition VNUM :: nat where "VNUM = 8"
definition VRING_DESC_F_NEXT :: u16 where "VRING_DESC_F_NEXT = 1"
definition VRING_DESC_F_WRITE :: u16 where "VRING_DESC_F_WRITE = 2"
definition VIRTIO_BLK_T_IN :: u32 where "VIRTIO_BLK_T_IN = 0"
definition VIRTIO_BLK_T_OUT :: u32 where "VIRTIO_BLK_T_OUT = 1"
definition MMIO_MAGIC_VALUE :: nat where "MMIO_MAGIC_VALUE = 0x000"
definition MMIO_VERSION :: nat where "MMIO_VERSION = 0x004"
definition MMIO_DEVICE_ID :: nat where "MMIO_DEVICE_ID = 0x008"
definition MMIO_VENDOR_ID :: nat where "MMIO_VENDOR_ID = 0x00c"
definition MMIO_DEVICE_FEATURES :: nat where "MMIO_DEVICE_FEATURES = 0x010"
definition MMIO_DRIVER_FEATURES :: nat where "MMIO_DRIVER_FEATURES = 0x020"
definition MMIO_QUEUE_SEL :: nat where "MMIO_QUEUE_SEL = 0x030"
definition MMIO_QUEUE_NUM_MAX :: nat where "MMIO_QUEUE_NUM_MAX = 0x034"
definition MMIO_QUEUE_NUM :: nat where "MMIO_QUEUE_NUM = 0x038"
definition MMIO_QUEUE_READY :: nat where "MMIO_QUEUE_READY = 0x044"
definition MMIO_QUEUE_NOTIFY :: nat where "MMIO_QUEUE_NOTIFY = 0x050"
definition MMIO_INTERRUPT_STATUS :: nat where "MMIO_INTERRUPT_STATUS = 0x060"
definition MMIO_INTERRUPT_ACK :: nat where "MMIO_INTERRUPT_ACK = 0x064"
definition MMIO_STATUS :: nat where "MMIO_STATUS = 0x070"
definition MMIO_QUEUE_DESC_LOW :: nat where "MMIO_QUEUE_DESC_LOW = 0x080"
definition MMIO_QUEUE_DESC_HIGH :: nat where "MMIO_QUEUE_DESC_HIGH = 0x084"
definition MMIO_DRIVER_DESC_LOW :: nat where "MMIO_DRIVER_DESC_LOW = 0x090"
definition MMIO_DRIVER_DESC_HIGH :: nat where "MMIO_DRIVER_DESC_HIGH = 0x094"
definition MMIO_DEVICE_DESC_LOW :: nat where "MMIO_DEVICE_DESC_LOW = 0x0a0"
definition MMIO_DEVICE_DESC_HIGH :: nat where "MMIO_DEVICE_DESC_HIGH = 0x0a4"
definition S_ACKNOWLEDGE :: u32 where "S_ACKNOWLEDGE = 1"
definition S_DRIVER :: u32 where "S_DRIVER = 2"
definition S_DRIVER_OK :: u32 where "S_DRIVER_OK = 4"
definition S_FEATURES_OK :: u32 where "S_FEATURES_OK = 8"

type_synonym reaction = "nat \<Rightarrow> u32 \<Rightarrow> (nat \<Rightarrow> u32) \<Rightarrow> nat \<Rightarrow> u32"

definition vwrite :: "reaction \<Rightarrow> nat \<Rightarrow> u32 \<Rightarrow> 'a kdisk_scheme \<Rightarrow> 'a kdisk_scheme" where
  "vwrite react r v s = s\<lparr>vregs := react r v (vregs s)\<rparr>"

definition zero_desc :: virtq_desc where
  "zero_desc = \<lparr>vd_addr = DNull, vd_len = 0, vd_flags = 0, vd_next = 0\<rparr>"

definition set_vdesc :: "nat \<Rightarrow> virtq_desc \<Rightarrow> 'a kdisk_scheme \<Rightarrow> 'a kdisk_scheme" where
  "set_vdesc i d s = s\<lparr>vq_desc := (vq_desc s)(i := d)\<rparr>"

section \<open>Setting the device up\<close>

definition negotiate :: "u64 \<Rightarrow> u64" where
  \<comment> \<open>RO, SCSI, CONFIG_WCE, MQ, ANY_LAYOUT, EVENT_IDX and INDIRECT_DESC are switched off\<close>
  "negotiate features =
     (let f = features AND NOT (push_bit 5 1);
          f = f AND NOT (push_bit 7 1);
          f = f AND NOT (push_bit 11 1);
          f = f AND NOT (push_bit 12 1);
          f = f AND NOT (push_bit 27 1);
          f = f AND NOT (push_bit 29 1);
          f = f AND NOT (push_bit 28 1)
      in f)"

definition virtio_queue_init :: "reaction \<Rightarrow> u32 \<Rightarrow> 'a kdisk_scheme \<Rightarrow> 'a kdisk_scheme option" where
  \<comment> \<open>queue 0, with the status register as negotiated\<close>
  "virtio_queue_init react status s = do {
     let s = vwrite react MMIO_QUEUE_SEL 0 s;
     (if vregs s MMIO_QUEUE_READY \<noteq> 0 then panic ''virtio disk should not be ready''
      else if vregs s MMIO_QUEUE_NUM_MAX = 0 then panic ''virtio disk has no queue 0''
      else if vregs s MMIO_QUEUE_NUM_MAX < of_nat VNUM then panic ''virtio disk max queue too short''
      else do {
        (d, s) \<leftarrow> kmalloc s;
        (a, s) \<leftarrow> kmalloc s;
        (u, s) \<leftarrow> kmalloc s;
        (if d = 0 \<or> a = 0 \<or> u = 0 then panic ''virtio disk kalloc''
         else
           let s = s\<lparr>vpages := (d, a, u), vq_desc := (\<lambda>_. zero_desc), avail_idx := 0, avail_ring := (\<lambda>_. 0),
                 used_idx := 0, used_ring := (\<lambda>_. 0)\<rparr>;
               s = vwrite react MMIO_QUEUE_NUM (of_nat VNUM) s;
               s = vwrite react MMIO_QUEUE_DESC_LOW (ucast d) s;
               s = vwrite react MMIO_QUEUE_DESC_HIGH (ucast (drop_bit 32 d)) s;
               s = vwrite react MMIO_DRIVER_DESC_LOW (ucast a) s;
               s = vwrite react MMIO_DRIVER_DESC_HIGH (ucast (drop_bit 32 a)) s;
               s = vwrite react MMIO_DEVICE_DESC_LOW (ucast u) s;
               s = vwrite react MMIO_DEVICE_DESC_HIGH (ucast (drop_bit 32 u)) s;
               s = vwrite react MMIO_QUEUE_READY 1 s;
               s = s\<lparr>vfree := (\<lambda>i. if i < VNUM then True else vfree s i)\<rparr>
           in Some (vwrite react MMIO_STATUS (status OR S_DRIVER_OK) s)) }) }"

definition virtio_disk_init :: "reaction \<Rightarrow> 'a kdisk_scheme \<Rightarrow> 'a kdisk_scheme option" where
  "virtio_disk_init react s =
     (let s = s\<lparr>lk := (lk s)(VdiskLock := None)\<rparr> in
      if vregs s MMIO_MAGIC_VALUE \<noteq> 0x74726976 \<or> vregs s MMIO_VERSION \<noteq> 2 \<or>
         vregs s MMIO_DEVICE_ID \<noteq> 2 \<or> vregs s MMIO_VENDOR_ID \<noteq> 0x554d4551
      then panic ''could not find virtio disk''
      else
        let status = 0;
            s = vwrite react MMIO_STATUS status s;
            status = status OR S_ACKNOWLEDGE;
            s = vwrite react MMIO_STATUS status s;
            status = status OR S_DRIVER;
            s = vwrite react MMIO_STATUS status s;
            features = negotiate (ucast (vregs s MMIO_DEVICE_FEATURES));
            s = vwrite react MMIO_DRIVER_FEATURES (ucast features) s;
            status = status OR S_FEATURES_OK;
            s = vwrite react MMIO_STATUS status s;
            status = vregs s MMIO_STATUS
        in if status AND S_FEATURES_OK = 0 then panic ''virtio disk FEATURES_OK unset''
           else virtio_queue_init react status s)"

section \<open>Descriptors\<close>

fun find_desc :: "nat \<Rightarrow> nat \<Rightarrow> (nat \<Rightarrow> bool) \<Rightarrow> nat option" where
  "find_desc 0 i fr = None"
| "find_desc (Suc k) i fr = (if fr i then Some i else find_desc k (Suc i) fr)"

definition alloc_desc :: "'a kdisk_scheme \<Rightarrow> nat option \<times> 'a kdisk_scheme" where
  \<comment> \<open>\<open>None\<close> is -1\<close>
  "alloc_desc s =
     (case find_desc VNUM 0 (vfree s) of
        Some i \<Rightarrow> (Some i, s\<lparr>vfree := (vfree s)(i := False)\<rparr>)
      | None \<Rightarrow> (None, s))"

definition free_desc :: "nat \<Rightarrow> 'a kdisk_scheme \<Rightarrow> 'a kdisk_scheme option" where
  "free_desc i s =
     (if i \<ge> VNUM then panic ''free_desc 1''
      else if vfree s i then panic ''free_desc 2''
      else wakeup OnVdisk ((set_vdesc i zero_desc s)\<lparr>vfree := (vfree s)(i := True)\<rparr>))"

partial_function (option) free_chain :: "nat \<Rightarrow> 'a kdisk_scheme \<Rightarrow> 'a kdisk_scheme option" where
  "free_chain i s =
     (if i \<ge> VNUM then panic ''free_desc 1''
      else do {
        let flag = vd_flags (vq_desc s i);
        let nxt = vd_next (vq_desc s i);
        s \<leftarrow> free_desc i s;
        (if flag AND VRING_DESC_F_NEXT \<noteq> 0 then free_chain (unat nxt) s else Some s) })"

fun free_list :: "nat list \<Rightarrow> 'a kdisk_scheme \<Rightarrow> 'a kdisk_scheme option" where
  "free_list [] s = Some s"
| "free_list (i # idx) s = do { s \<leftarrow> free_desc i s; free_list idx s }"

fun alloc_descs :: "nat \<Rightarrow> nat list \<Rightarrow> 'a kdisk_scheme \<Rightarrow> (nat list option \<times> 'a kdisk_scheme) option" where
  \<comment> \<open>\<open>k\<close> more descriptors, after those of \<open>idx\<close>; \<open>None\<close>: -1, everything given back\<close>
  "alloc_descs 0 idx s = Some (Some idx, s)"
| "alloc_descs (Suc k) idx s =
     (let (i, s) = alloc_desc s in
      case i of
        None \<Rightarrow> do { s \<leftarrow> free_list idx s; Some (None, s) }
      | Some i \<Rightarrow> alloc_descs k (idx @ [i]) s)"

definition alloc3_desc :: "'a kdisk_scheme \<Rightarrow> (nat list option \<times> 'a kdisk_scheme) option" where
  "alloc3_desc s = alloc_descs 3 [] s"

section \<open>Requests\<close>

partial_function (option) vdisk_alloc ::
  "('a kdisk_scheme \<Rightarrow> 'a kdisk_scheme option) \<Rightarrow> 'a kdisk_scheme \<Rightarrow> (nat list \<times> 'a kdisk_scheme) option" where
  "vdisk_alloc world s = do {
     (r, s) \<leftarrow> alloc3_desc s;
     (case r of
        Some idx \<Rightarrow> Some (idx, s)
      | None \<Rightarrow> do { s \<leftarrow> sleep world OnVdisk VdiskLock s; vdisk_alloc world s }) }"

definition vdisk_format :: "nat \<Rightarrow> nat \<Rightarrow> nat \<Rightarrow> nat \<Rightarrow> bool \<Rightarrow> 'a kdisk_scheme \<Rightarrow> 'a kdisk_scheme" where
  "vdisk_format i0 i1 i2 b write s =
     (let sector = ucast (b_blockno (bufs s b) * of_nat (BSIZE div 512));
          s = s\<lparr>vops := (vops s)(i0 := \<lparr>rq_type = if write then VIRTIO_BLK_T_OUT else VIRTIO_BLK_T_IN,
                rq_reserved = 0, rq_sector = sector\<rparr>)\<rparr>;
          s = set_vdesc i0 \<lparr>vd_addr = OpsPtr i0, vd_len = 16, vd_flags = VRING_DESC_F_NEXT, vd_next = of_nat i1\<rparr> s;
          s = set_vdesc i1 \<lparr>vd_addr = DataPtr b, vd_len = of_nat BSIZE,
                vd_flags = (if write then 0 else VRING_DESC_F_WRITE) OR VRING_DESC_F_NEXT, vd_next = of_nat i2\<rparr> s;
          s = s\<lparr>vinfo_status := (vinfo_status s)(i0 := 0xff)\<rparr>
      in set_vdesc i2 \<lparr>vd_addr = StatusPtr i0, vd_len = 1, vd_flags = VRING_DESC_F_WRITE, vd_next = 0\<rparr> s)"

definition vdisk_publish :: "reaction \<Rightarrow> nat \<Rightarrow> nat \<Rightarrow> 'a kdisk_scheme \<Rightarrow> 'a kdisk_scheme" where
  "vdisk_publish react i0 b s =
     (let s = s\<lparr>b_disk := (b_disk s)(b := 1), vinfo_b := (vinfo_b s)(i0 \<mapsto> b)\<rparr>;
          s = s\<lparr>avail_ring := (avail_ring s)(unat (avail_idx s) mod VNUM := of_nat i0)\<rparr>;
          s = s\<lparr>avail_idx := avail_idx s + 1\<rparr>
      in vwrite react MMIO_QUEUE_NOTIFY 0 s)"

partial_function (option) vdisk_wait ::
  "('a kdisk_scheme \<Rightarrow> 'a kdisk_scheme option) \<Rightarrow> nat \<Rightarrow> 'a kdisk_scheme \<Rightarrow> 'a kdisk_scheme option" where
  "vdisk_wait world b s =
     (if b_disk s b = 1
      then do { s \<leftarrow> sleep world (OnBuf b) VdiskLock s; vdisk_wait world b s }
      else Some s)"

definition vdisk_rw :: "reaction \<Rightarrow> ('a kdisk_scheme \<Rightarrow> 'a kdisk_scheme option) \<Rightarrow> nat \<Rightarrow> bool \<Rightarrow>
    'a kdisk_scheme \<Rightarrow> 'a kdisk_scheme option" where
  \<comment> \<open>\<open>virtio_disk_rw\<close>; \<open>virtio_disk_rw\<close> of \<open>Bio\<close> is its effect on the buffer and the disk\<close>
  "vdisk_rw react world b write s = do {
     s \<leftarrow> acquire VdiskLock s;
     (idx, s) \<leftarrow> vdisk_alloc world s;
     let i0 = idx ! 0;
     let s = vdisk_format i0 (idx ! 1) (idx ! 2) b write s;
     let s = vdisk_publish react i0 b s;
     s \<leftarrow> vdisk_wait world b s;
     s \<leftarrow> free_chain i0 (s\<lparr>vinfo_b := (vinfo_b s)(i0 := None)\<rparr>);
     release VdiskLock s }"

partial_function (option) vintr_loop :: "'a kdisk_scheme \<Rightarrow> 'a kdisk_scheme option" where
  \<comment> \<open>\<open>None\<close> also where the device names a chain that is not in flight\<close>
  "vintr_loop s =
     (if used_seen s = used_idx s then Some s
      else
        let id = unat (used_ring s (unat (used_seen s) mod VNUM)) in
        if vinfo_status s id \<noteq> 0 then panic ''virtio_disk_intr status''
        else case vinfo_b s id of
          None \<Rightarrow> None
        | Some b \<Rightarrow> do {
            s \<leftarrow> wakeup (OnBuf b) (s\<lparr>b_disk := (b_disk s)(b := 0)\<rparr>);
            vintr_loop (s\<lparr>used_seen := used_seen s + 1\<rparr>) })"

definition virtio_disk_intr :: "reaction \<Rightarrow> 'a kdisk_scheme \<Rightarrow> 'a kdisk_scheme option" where
  "virtio_disk_intr react s = do {
     s \<leftarrow> acquire VdiskLock s;
     let s = vwrite react MMIO_INTERRUPT_ACK (vregs s MMIO_INTERRUPT_STATUS AND 3) s;
     s \<leftarrow> vintr_loop s;
     release VdiskLock s }"

end
