(* ===== verification/SysMachine.thy ===== *)
theory SysMachine
  imports Virtio ConsoleProps
begin

text \<open>
  Concrete states of the larger records, on which the theorems about the network, the traps and the
  disk driver are applied: the machine of \<open>Machine\<close> with an idle console, an empty network stack
  and an idle disk.
\<close>

definition zero_cb :: tcp_cb where
  "zero_cb = \<lparr>cb_state = 0, cb_iss = 0, cb_irs = 0, snd_nxt = 0, snd_una = 0, rcv_nxt = 0, rcv_wnd = 0, cb_parent = 0\<rparr>"

definition zero_sock :: sock where
  "zero_sock = \<lparr>sk_next = 0, sk_type = 0, sk_raddr = 0, sk_lport = 0, sk_rport = 0,
     sk_rxq = \<lparr>q_head = 0, q_tail = 0\<rparr>, sk_cb = zero_cb\<rparr>"

definition zero_tx_desc :: tx_desc where
  "zero_tx_desc = \<lparr>td_addr = 0, td_length = 0, td_cso = 0, td_cmd = 0, td_status = 1, td_css = 0, td_special = 0\<rparr>"

definition zero_rx_desc :: rx_desc where
  "zero_rx_desc = \<lparr>rd_addr = 0, rd_length = 0, rd_status = 0\<rparr>"

definition net_machine :: knet where
  "net_machine = kcons.extend console_machine
     (knet.fields 1 (\<lambda>_. \<lparr>ae_ip = 0, ae_mac = []\<rparr>) 0 0
        (\<lambda>_. \<lparr>aq_next = 0, aq_ip = 0, aq_txq = \<lparr>q_head = 0, q_tail = 0\<rparr>\<rparr>) (\<lambda>_. zero_sock) (\<lambda>_. 0)
        \<lparr>q_head = 0, q_tail = 0\<rparr> (\<lambda>_. zero_tx_desc) (\<lambda>_. 0) (\<lambda>_. zero_rx_desc) (\<lambda>_. 0) (\<lambda>_. 0))"

definition sys_machine :: ksys where
  "sys_machine = knet.extend net_machine (ksys.fields 0 0 0 0 0 0 0 0 0)"

definition disk_machine :: kdisk where
  "disk_machine = ksys.extend sys_machine
     (kdisk.fields (\<lambda>_. zero_desc) 0 (\<lambda>_. 0) 0 (\<lambda>_. 0) (\<lambda>i. i < VNUM) 0 (\<lambda>_. None) (\<lambda>_. 0)
        (\<lambda>_. \<lparr>rq_type = 0, rq_reserved = 0, rq_sector = 0\<rparr>) (\<lambda>_. 0) (\<lambda>_. 0) (0, 0, 0))"

lemmas machine_extends = disk_machine_def sys_machine_def net_machine_def console_machine_def machine_def
  kfile.defs kcons.defs knet.defs ksys.defs kdisk.defs

lemma disk_machine_simps [simp]:
  "lk disk_machine = (\<lambda>_. None)" "curp disk_machine = 0" "noff disk_machine = 0" "cpuid disk_machine = 0"
  "vfree disk_machine = (\<lambda>i. i < VNUM)" "vq_desc disk_machine = (\<lambda>_. zero_desc)" "used_seen disk_machine = 0"
  "used_idx disk_machine = 0" "used_ring disk_machine = (\<lambda>_. 0)" "b_disk disk_machine = (\<lambda>_. 0)"
  "vinfo_b disk_machine = (\<lambda>_. None)" "vinfo_status disk_machine = (\<lambda>_. 0)"
  "vops disk_machine = (\<lambda>_. \<lparr>rq_type = 0, rq_reserved = 0, rq_sector = 0\<rparr>)" "mem disk_machine = machine_mem"
  "trapframes disk_machine = (\<lambda>_. zero_trapframe)" "panicked disk_machine = False"
  by (simp_all add: machine_extends)

lemma net_machine_simps [simp]:
  "lk net_machine = (\<lambda>_. None)" "curp net_machine = 0" "noff net_machine = 0" "cpuid net_machine = 0"
  "mem net_machine = machine_mem" "nic_regs net_machine = (\<lambda>_. 0)" "tx_ring net_machine = (\<lambda>_. zero_tx_desc)"
  "sockets net_machine = (\<lambda>_. 0)" "socks net_machine = (\<lambda>_. zero_sock)" "arpqs net_machine = 0"
  by (simp_all add: machine_extends)

end
