(* ===== verification/VirtioProps.thy ===== *)
theory VirtioProps
  imports SysMachine
begin

text \<open>
  Properties of the disk driver: what the device reads in a formatted chain is the request, a
  request gives back the descriptors it took, and the interrupt handler completes exactly the
  requests the device has put on the used ring.
\<close>

section \<open>What the device reads\<close>

definition chain_of :: "virtq_desc \<Rightarrow> virtq_desc \<Rightarrow> virtq_desc \<Rightarrow> (nat \<Rightarrow> virtio_blk_req) \<Rightarrow>
    (bool \<times> u64 \<times> nat \<times> nat) option" where
  "chain_of d0 d1 d2 ops =
     (case (vd_addr d0, vd_addr d1, vd_addr d2) of
        (OpsPtr k, DataPtr b, StatusPtr j) \<Rightarrow>
          let wr = (rq_type (ops k) = VIRTIO_BLK_T_OUT) in
          if vd_len d0 = 16 \<and> vd_len d1 = 4096 \<and> vd_len d2 = 1 \<and>
             vd_flags d0 = VRING_DESC_F_NEXT \<and> vd_flags d2 = VRING_DESC_F_WRITE \<and>
             vd_flags d1 = (if wr then VRING_DESC_F_NEXT else VRING_DESC_F_NEXT OR VRING_DESC_F_WRITE)
          then Some (wr, rq_sector (ops k), b, j) else None
      | _ \<Rightarrow> None)"

definition chain_req :: "'a kdisk_scheme \<Rightarrow> nat \<Rightarrow> (bool \<times> u64 \<times> nat \<times> nat) option" where
  \<comment> \<open>the request of the chain at \<open>i\<close> in the reading of the virtio specification: a header, a block
      and a status byte; whether it writes the disk, the sector, the buffer and the status byte\<close>
  "chain_req s i =
     (let d0 = vq_desc s i; d1 = vq_desc s (unat (vd_next d0)); d2 = vq_desc s (unat (vd_next d1))
      in chain_of d0 d1 d2 (vops s))"

lemma chain_of_cong:
  "(\<And>k. vd_addr d0 = OpsPtr k \<Longrightarrow> ops k = ops' k) \<Longrightarrow> chain_of d0 d1 d2 ops = chain_of d0 d1 d2 ops'"
  by (cases "vd_addr d0"; cases "vd_addr d1"; cases "vd_addr d2") (simp_all add: chain_of_def Let_def)

definition chain_slots :: "'a kdisk_scheme \<Rightarrow> nat \<Rightarrow> nat set" where
  "chain_slots s i =
     (let j = unat (vd_next (vq_desc s i)) in {i, j, unat (vd_next (vq_desc s j))})"

lemmas vring_defs = VRING_DESC_F_NEXT_def VRING_DESC_F_WRITE_def VIRTIO_BLK_T_IN_def VIRTIO_BLK_T_OUT_def

lemma vdisk_format_fields [simp]:
  "vfree (vdisk_format i0 i1 i2 b w s) = vfree s" "procs (vdisk_format i0 i1 i2 b w s) = procs s"
  "lk (vdisk_format i0 i1 i2 b w s) = lk s" "curp (vdisk_format i0 i1 i2 b w s) = curp s"
  "vops (vdisk_format i0 i1 i2 b w s) = (vops s)(i0 := \<lparr>rq_type = if w then VIRTIO_BLK_T_OUT else VIRTIO_BLK_T_IN,
     rq_reserved = 0, rq_sector = ucast (b_blockno (bufs s b) * 8)\<rparr>)"
  by (simp_all add: vdisk_format_def set_vdesc_def BSIZE_def)

lemma vdisk_format_desc:
  "vq_desc (vdisk_format i0 i1 i2 b w s) = (vq_desc s)
     (i0 := \<lparr>vd_addr = OpsPtr i0, vd_len = 16, vd_flags = VRING_DESC_F_NEXT, vd_next = of_nat i1\<rparr>,
      i1 := \<lparr>vd_addr = DataPtr b, vd_len = 4096,
             vd_flags = (if w then 0 else VRING_DESC_F_WRITE) OR VRING_DESC_F_NEXT, vd_next = of_nat i2\<rparr>,
      i2 := \<lparr>vd_addr = StatusPtr i0, vd_len = 1, vd_flags = VRING_DESC_F_WRITE, vd_next = 0\<rparr>)"
  by (simp add: vdisk_format_def set_vdesc_def BSIZE_def)

text \<open>C26: What the device reads at the head of the chain that \<open>virtio_disk_rw\<close> formats is the
  request it was asked for: direction, sector (eight per block), buffer and the status byte of the
  head.  A chain that uses none of the three descriptors and another header is read as before.\<close>
theorem vdisk_format_decodes:
  assumes "distinct [i0, i1, i2]" "set [i0, i1, i2] \<subseteq> {..<VNUM}"
  shows "chain_req (vdisk_format i0 i1 i2 b w s) i0 = Some (w, ucast (b_blockno (bufs s b) * 8), b, i0) \<and>
    (\<forall>j. chain_slots s j \<inter> {i0, i1, i2} = {} \<longrightarrow> vd_addr (vq_desc s j) \<noteq> OpsPtr i0 \<longrightarrow>
      chain_req (vdisk_format i0 i1 i2 b w s) j = chain_req s j)"
proof -
  have n: "unat (of_nat i1 :: u16) = i1" "unat (of_nat i2 :: u16) = i2"
    using assms(2) by (simp_all add: VNUM_def)
  have "chain_req (vdisk_format i0 i1 i2 b w s) i0 = Some (w, ucast (b_blockno (bufs s b) * 8), b, i0)"
    using assms(1) by (simp add: chain_req_def chain_of_def vdisk_format_desc n vring_defs Let_def)
  moreover have "chain_req (vdisk_format i0 i1 i2 b w s) j = chain_req s j"
    if a: "chain_slots s j \<inter> {i0, i1, i2} = {}" "vd_addr (vq_desc s j) \<noteq> OpsPtr i0" for j
  proof -
    let ?t = "vdisk_format i0 i1 i2 b w s"
    have same: "vq_desc ?t k = vq_desc s k" if "k \<in> chain_slots s j" for k
    proof -
      have "k \<noteq> i0" "k \<noteq> i1" "k \<noteq> i2" using that a(1) by blast+
      then show ?thesis by (simp only: vdisk_format_desc fun_upd_apply if_False)
    qed
    define k1 where "k1 = unat (vd_next (vq_desc s j))"
    define k2 where "k2 = unat (vd_next (vq_desc s k1))"
    have e: "vq_desc ?t j = vq_desc s j" "vq_desc ?t k1 = vq_desc s k1" "vq_desc ?t k2 = vq_desc s k2"
      by (rule same; simp add: chain_slots_def k1_def k2_def Let_def)+
    have o: "vops ?t k = vops s k" if "vd_addr (vq_desc s j) = OpsPtr k" for k
      using that a(2) by auto
    show ?thesis
      unfolding chain_req_def Let_def e(1) k1_def [symmetric] e(2) k2_def [symmetric] e(3)
      by (rule chain_of_cong) (rule o)
  qed
  ultimately show ?thesis by blast
qed

theorem vdisk_format_decodes_witness:
  "chain_req (vdisk_format 5 2 7 3 True (disk_machine\<lparr>bufs := (bufs disk_machine)(3 := (bufs disk_machine 3)\<lparr>b_blockno := 11\<rparr>)\<rparr>)) 5
     = Some (True, 88, 3, 5)"
  using vdisk_format_decodes [of 5 2 7 3 True "disk_machine\<lparr>bufs := (bufs disk_machine)(3 := (bufs disk_machine 3)\<lparr>b_blockno := 11\<rparr>)\<rparr>"]
  by (simp add: VNUM_def)

section \<open>Descriptors\<close>

lemma find_desc_Some:
  "find_desc k i fr = Some j \<Longrightarrow> i \<le> j \<and> j < i + k \<and> fr j \<and> (\<forall>m. i \<le> m \<and> m < j \<longrightarrow> \<not> fr m)"
proof (induction k i fr rule: find_desc.induct)
  case (2 k i fr)
  show ?case
  proof (cases "fr i")
    case True
    then show ?thesis using 2(2) by auto
  next
    case False
    then have j: "Suc i \<le> j" "j < i + Suc k" "fr j" "\<forall>m. Suc i \<le> m \<and> m < j \<longrightarrow> \<not> fr m" using 2 by auto
    have "\<not> fr m" if "i \<le> m" "m < j" for m
      using that j(4) False by (cases "m = i") auto
    then show ?thesis using j by auto
  qed
qed simp

lemma find_desc_None: "find_desc k i fr = None \<Longrightarrow> i \<le> m \<Longrightarrow> m < i + k \<Longrightarrow> \<not> fr m"
proof (induction k i fr rule: find_desc.induct)
  case (2 k i fr)
  then show ?case by (cases "m = i") (auto split: if_splits)
qed simp

lemma alloc_desc_cases:
  "alloc_desc s = (None, s) \<and> (\<forall>i < VNUM. \<not> vfree s i) \<or>
   (\<exists>i < VNUM. vfree s i \<and> alloc_desc s = (Some i, s\<lparr>vfree := (vfree s)(i := False)\<rparr>))"
proof (cases "find_desc VNUM 0 (vfree s)")
  case None
  then show ?thesis using find_desc_None [OF None] by (simp add: alloc_desc_def)
next
  case (Some i)
  then show ?thesis using find_desc_Some [OF Some] by (auto simp: alloc_desc_def)
qed

lemma wakeable_upd [simp]:
  "wakeable (s\<lparr>vfree := f\<rparr>) = wakeable s" "wakeable (set_vdesc i d s) = wakeable s"
  "wakeable (upd_procs P s) = wakeable s" "wakeable (s\<lparr>vq_desc := q\<rparr>) = wakeable s"
  "wakeable (s\<lparr>b_disk := g\<rparr>) = wakeable s" "wakeable (s\<lparr>used_seen := u\<rparr>) = wakeable s"
  by (simp_all add: wakeable_def set_vdesc_def)

lemma upd_procs_disk [simp]:
  "vfree (upd_procs P s) = vfree s" "vq_desc (upd_procs P s) = vq_desc s" "used_seen (upd_procs P s) = used_seen s"
  "used_idx (upd_procs P s) = used_idx s" "used_ring (upd_procs P s) = used_ring s" "vinfo_b (upd_procs P s) = vinfo_b s"
  "vinfo_status (upd_procs P s) = vinfo_status s" "b_disk (upd_procs P s) = b_disk s"
  by (simp_all add: upd_procs_def)

lemma free_desc_frees:
  assumes "wakeable s" "i < VNUM" "\<not> vfree s i"
  shows "\<exists>t. free_desc i s = Some t \<and> wakeable t \<and> vfree t = (vfree s)(i := True) \<and>
    vq_desc t = (vq_desc s)(i := zero_desc) \<and> lk t = lk s \<and> noff t = noff s \<and> cpuid t = cpuid s"
proof -
  let ?u = "(set_vdesc i zero_desc s)\<lparr>vfree := (vfree s)(i := True)\<rparr>"
  have w: "wakeable ?u" using assms(1) by simp
  then have "wakeup OnVdisk ?u = Some (upd_procs (wake OnVdisk (curp ?u) (procs ?u)) ?u)"
    by (intro wakeup_spec) (simp add: wakeable_def)
  then show ?thesis using assms w by (simp add: free_desc_def set_vdesc_def)
qed

lemma free_list_frees:
  assumes "wakeable s" "set is \<subseteq> {..<VNUM}" "distinct is" "\<forall>i \<in> set is. \<not> vfree s i"
  shows "\<exists>t. free_list is s = Some t \<and> vfree t = (\<lambda>i. i \<in> set is \<or> vfree s i)"
  using assms
proof (induction "is" arbitrary: s)
  case (Cons i idx)
  then obtain t where t: "free_desc i s = Some t" "wakeable t" "vfree t = (vfree s)(i := True)"
    using free_desc_frees [of s i] by auto
  have "\<forall>j \<in> set idx. \<not> vfree t j" using Cons.prems t(3) by auto
  then obtain u where "free_list idx t = Some u" "vfree u = (\<lambda>i. i \<in> set idx \<or> vfree t i)"
    using Cons.IH [of t] Cons.prems t(2) by auto
  then show ?case using t by (auto simp: fun_eq_iff)
qed (simp add: fun_eq_iff)

definition took :: "nat list \<Rightarrow> (nat \<Rightarrow> bool) \<Rightarrow> nat \<Rightarrow> bool" where
  "took is f = (\<lambda>i. i \<notin> set is \<and> f i)"

lemma alloc_descs_all_or_nothing:
  assumes "wakeable s" "vfree s = took is f" "set is \<subseteq> {..<VNUM}" "distinct is" "\<forall>i \<in> set is. f i"
  shows "(\<exists>t. alloc_descs k is s = Some (None, t) \<and> vfree t = f \<and> card {i. i < VNUM \<and> f i} < length is + k) \<or>
    (\<exists>js. alloc_descs k is s = Some (Some js, s\<lparr>vfree := took js f\<rparr>) \<and> length js = length is + k \<and>
      set js \<subseteq> {..<VNUM} \<and> distinct js \<and> (\<forall>i \<in> set js. f i))"
  using assms
proof (induction k arbitrary: "is" s)
  case 0
  have "s\<lparr>vfree := vfree s\<rparr> = s" by simp
  then have "alloc_descs 0 is s = Some (Some is, s\<lparr>vfree := took is f\<rparr>)" by (simp only: 0(2) alloc_descs.simps)
  then show ?case using 0(3-5) by (intro disjI2 exI [of _ "is"]) simp
next
  case (Suc k)
  note P = Suc.prems
  consider "alloc_desc s = (None, s)" "\<forall>i < VNUM. \<not> vfree s i"
    | i where "i < VNUM" "vfree s i" "alloc_desc s = (Some i, s\<lparr>vfree := (vfree s)(i := False)\<rparr>)"
    using alloc_desc_cases by blast
  then show ?case
  proof cases
    case 1
    have "\<forall>i \<in> set is. \<not> vfree s i" using P(2) by (simp add: took_def)
    then obtain t where t: "free_list is s = Some t" "vfree t = (\<lambda>i. i \<in> set is \<or> vfree s i)"
      using free_list_frees [of s "is"] P(1,3,4) by blast
    have "vfree t = f" using t(2) P(2,5) by (auto simp: took_def fun_eq_iff)
    moreover have "{i. i < VNUM \<and> f i} \<subseteq> set is" using 1(2) P(2) by (auto simp: took_def)
    then have "card {i. i < VNUM \<and> f i} \<le> length is" by (metis List.finite_set card_length card_mono le_trans)
    ultimately show ?thesis using 1 t(1) by simp
  next
    case (2 i)
    let ?s = "s\<lparr>vfree := (vfree s)(i := False)\<rparr>"
    have "vfree ?s = took (is @ [i]) f" using P(2) by (auto simp: took_def fun_eq_iff)
    moreover have "i \<notin> set is" "f i" using 2(2) P(2) by (simp_all add: took_def)
    ultimately have "(\<exists>t. alloc_descs k (is @ [i]) ?s = Some (None, t) \<and> vfree t = f \<and> card {i. i < VNUM \<and> f i} < length (is @ [i]) + k) \<or>
    (\<exists>js. alloc_descs k (is @ [i]) ?s = Some (Some js, ?s\<lparr>vfree := took js f\<rparr>) \<and> length js = length (is @ [i]) + k \<and>
      set js \<subseteq> {..<VNUM} \<and> distinct js \<and> (\<forall>i \<in> set js. f i))"
      using Suc.IH [of ?s "is @ [i]"] P(1,3-5) 2(1) by simp
    then show ?thesis using 2(3) by simp
  qed
qed

lemma alloc3_desc_cases:
  assumes "wakeable s"
  shows "(\<exists>t. alloc3_desc s = Some (None, t) \<and> vfree t = vfree s \<and> card {i. i < VNUM \<and> vfree s i} < 3) \<or>
    (\<exists>js. alloc3_desc s = Some (Some js, s\<lparr>vfree := (\<lambda>i. i \<notin> set js \<and> vfree s i)\<rparr>) \<and> length js = 3 \<and> distinct js \<and>
      (\<forall>i \<in> set js. i < VNUM \<and> vfree s i))"
proof -
  have "took [] (vfree s) = vfree s" by (simp add: took_def)
  then show ?thesis
    using alloc_descs_all_or_nothing [of s "[]" "vfree s" 3] assms
    unfolding alloc3_desc_def took_def by (auto simp: subset_eq)
qed

text \<open>\<open>alloc3_desc\<close> takes three different free descriptors or none: when fewer than three are free it
  gives back what it had taken, so two callers that wait cannot hold each other up.\<close>
theorem alloc3_desc_all_or_nothing:
  assumes "wakeable s"
  shows "(\<exists>t. alloc3_desc s = Some (None, t) \<and> vfree t = vfree s \<and> card {i. i < VNUM \<and> vfree s i} < 3) \<or>
    (\<exists>js. alloc3_desc s = Some (Some js, s\<lparr>vfree := (\<lambda>i. i \<notin> set js \<and> vfree s i)\<rparr>) \<and> length js = 3 \<and> distinct js \<and>
      (\<forall>i \<in> set js. i < VNUM \<and> vfree s i))"
  by (rule alloc3_desc_cases [OF assms])


section \<open>A request gives back its descriptors\<close>

lemma free_chain_step:
  assumes "wakeable s" "i < VNUM" "\<not> vfree s i"
  shows "\<exists>t. free_chain i s = (if vd_flags (vq_desc s i) AND VRING_DESC_F_NEXT \<noteq> 0
      then free_chain (unat (vd_next (vq_desc s i))) t else Some t) \<and> wakeable t \<and>
    vfree t = (vfree s)(i := True) \<and> vq_desc t = (vq_desc s)(i := zero_desc) \<and> lk t = lk s"
  using free_desc_frees [OF assms] assms(2) by (subst free_chain.simps) auto

text \<open>C25: The chain that \<open>virtio_disk_rw\<close> formats from the three descriptors it took is freed by
  \<open>free_chain\<close> as exactly these three, whatever the device did to the status, the buffers and the
  used ring in between: the descriptors in flight are conserved.\<close>
theorem request_conserves_descriptors:
  assumes "wakeable s" "alloc3_desc s = Some (Some idx, t)"
    and "u = vdisk_publish react (idx ! 0) b (vdisk_format (idx ! 0) (idx ! 1) (idx ! 2) b w t)"
    and "vq_desc v = vq_desc u" "vfree v = vfree u" "wakeable v"
  shows "\<exists>x. free_chain (idx ! 0) v = Some x \<and> vfree x = vfree s"
proof -
  have a: "length idx = 3" "distinct idx" "\<forall>i \<in> set idx. i < VNUM \<and> vfree s i"
      "t = s\<lparr>vfree := (\<lambda>i. i \<notin> set idx \<and> vfree s i)\<rparr>"
    using alloc3_desc_cases [OF assms(1)] assms(2) by auto
  from a(1) obtain i0 i1 i2 where idx: "idx = [i0, i1, i2]"
    by (auto simp: numeral_3_eq_3 length_Suc_conv)
  have n: "unat (of_nat i1 :: u16) = i1" "unat (of_nat i2 :: u16) = i2"
    using a(3) idx by (simp_all add: VNUM_def)
  have d: "vq_desc v = vq_desc (vdisk_format i0 i1 i2 b w t)" and f: "vfree v = vfree t"
    using assms(3-5) idx by (simp_all add: vdisk_publish_def vwrite_def Let_def)
  have q: "vd_flags (vq_desc v i0) AND VRING_DESC_F_NEXT \<noteq> 0" "unat (vd_next (vq_desc v i0)) = i1"
      "vd_flags (vq_desc v i1) AND VRING_DESC_F_NEXT \<noteq> 0" "unat (vd_next (vq_desc v i1)) = i2"
      "vd_flags (vq_desc v i2) AND VRING_DESC_F_NEXT = 0"
    using a(2) idx n by (simp_all add: d vdisk_format_desc vring_defs)
  have b: "i0 < VNUM" "i1 < VNUM" "i2 < VNUM" "\<not> vfree v i0" "\<not> vfree v i1" "\<not> vfree v i2"
      "i0 \<noteq> i1" "i0 \<noteq> i2" "i1 \<noteq> i2"
    using a idx f by auto
  obtain x0 where x0: "free_chain i0 v = free_chain i1 x0" "wakeable x0" "vfree x0 = (vfree v)(i0 := True)"
      "vq_desc x0 = (vq_desc v)(i0 := zero_desc)"
    using free_chain_step [OF assms(6) b(1,4)] q(1,2) by auto
  have x0': "\<not> vfree x0 i1" "vq_desc x0 i1 = vq_desc v i1" using b x0(3,4) by simp_all
  obtain x1 where x1: "free_chain i1 x0 = free_chain i2 x1" "wakeable x1" "vfree x1 = (vfree x0)(i1 := True)"
      "vq_desc x1 = (vq_desc x0)(i1 := zero_desc)"
    using free_chain_step [OF x0(2) b(2) x0'(1)] q(3,4) x0'(2) by auto
  have x1': "\<not> vfree x1 i2" "vq_desc x1 i2 = vq_desc v i2" using b x0(3,4) x1(3,4) by simp_all
  obtain x2 where x2: "free_chain i2 x1 = Some x2" "vfree x2 = (vfree x1)(i2 := True)"
    using free_chain_step [OF x1(2) b(3) x1'(1)] q(5) x1'(2) by auto
  have "vfree x2 = vfree s" using x0(3) x1(3) x2(2) f a(3,4) idx by (auto simp: fun_eq_iff)
  then show ?thesis using x0(1) x1(1) x2(1) idx by auto
qed

theorem request_conserves_descriptors_witness:
  "\<exists>x. free_chain 0 (vdisk_publish (\<lambda>_ _ r. r) 0 4 (vdisk_format 0 1 2 4 False
      (disk_machine\<lparr>vfree := (\<lambda>i. i \<notin> {0, 1, 2} \<and> i < VNUM)\<rparr>))) = Some x \<and> vfree x = (\<lambda>i. i < VNUM)"
proof -
  have v: "[0 :: nat, 1, 2] ! 1 = 1" "[0 :: nat, 1, 2] ! 2 = 2" by simp_all
  have a: "alloc3_desc disk_machine = Some (Some [0, 1, 2], disk_machine\<lparr>vfree := (\<lambda>i. i \<notin> {0, 1, 2} \<and> i < VNUM)\<rparr>)"
    by (simp add: alloc3_desc_def alloc_desc_def VNUM_def numeral_3_eq_3 eval_nat_numeral fun_upd_def)
       (rule arg_cong [where f = "\<lambda>f. vfree_update f disk_machine"]; auto simp: fun_eq_iff)
  have "wakeable disk_machine" by (simp add: wakeable_def)
  from request_conserves_descriptors [OF this a refl refl refl, of "\<lambda>_ _ r. r" 4 False]
  show ?thesis by (simp add: vdisk_publish_def vwrite_def wakeable_def v)
qed

section \<open>Completions\<close>

definition completed :: "'a kdisk_scheme \<Rightarrow> nat set" where
  \<comment> \<open>the chains on the used ring that the driver has not looked at\<close>
  "completed s = (\<lambda>k. unat (used_ring s (unat (used_seen s + of_nat k) mod VNUM))) ` {..<unat (used_idx s - used_seen s)}"

lemma completed_step:
  assumes "used_seen s \<noteq> used_idx s"
  shows "completed s = insert (unat (used_ring s (unat (used_seen s) mod VNUM))) (completed (s\<lparr>used_seen := used_seen s + 1\<rparr>))"
proof -
  have "unat (used_idx s - used_seen s) = Suc (unat (used_idx s - (used_seen s + 1)))"
    using unat_diff_Suc [of "used_idx s" "used_seen s"] assms by auto
  then show ?thesis by (simp add: completed_def lessThan_Suc_eq_insert_0 image_image algebra_simps)
qed

definition owners :: "'a kdisk_scheme \<Rightarrow> nat set" where
  "owners s = {b. \<exists>i \<in> completed s. vinfo_b s i = Some b}"

text \<open>\<open>virtio_disk_intr\<close>'s loop ends, whatever the 16-bit counter of the used ring has wrapped to: it
  catches up with the device, and exactly the buffers of the chains the device has put there stop
  being owned by the disk.\<close>
theorem vintr_completes:
  assumes "wakeable s" "\<forall>i \<in> completed s. vinfo_status s i = 0 \<and> vinfo_b s i \<noteq> None"
  shows "\<exists>t. vintr_loop s = Some t \<and> used_seen t = used_idx s \<and>
    b_disk t = (\<lambda>b. if b \<in> owners s then 0 else b_disk s b) \<and> lk t = lk s"
  using assms
proof (induction "unat (used_idx s - used_seen s)" arbitrary: s)
  case 0
  then have "used_seen s = used_idx s" by (simp add: unat_eq_0)
  then show ?case by (subst vintr_loop.simps) (simp add: owners_def completed_def)
next
  case (Suc n)
  then have ne: "used_seen s \<noteq> used_idx s" by auto
  let ?id = "unat (used_ring s (unat (used_seen s) mod VNUM))"
  obtain b where b: "vinfo_b s ?id = Some b" "vinfo_status s ?id = 0"
    using Suc.prems(2) completed_step [OF ne] by auto
  let ?u = "s\<lparr>b_disk := (b_disk s)(b := 0)\<rparr>"
  let ?v = "(upd_procs (wake (OnBuf b) (curp ?u) (procs ?u)) ?u)\<lparr>used_seen := used_seen s + 1\<rparr>"
  have "wakeable ?u" using Suc.prems(1) by simp
  then have "wakeup (OnBuf b) ?u = Some (upd_procs (wake (OnBuf b) (curp ?u) (procs ?u)) ?u)"
    by (intro wakeup_spec) (simp add: wakeable_def)
  then have l: "vintr_loop s = vintr_loop ?v"
    using ne b by (subst vintr_loop.simps) (simp add: Let_def)
  have c: "completed ?v = completed (s\<lparr>used_seen := used_seen s + 1\<rparr>)" by (simp add: completed_def)
  have "n = unat (used_idx ?v - used_seen ?v)"
    using Suc.hyps(2) unat_diff_Suc [of "used_idx s" "used_seen s"] ne by simp
  moreover have "\<forall>i \<in> completed ?v. vinfo_status ?v i = 0 \<and> vinfo_b ?v i \<noteq> None"
    using Suc.prems(2) completed_step [OF ne] c by auto
  ultimately obtain t where t: "vintr_loop ?v = Some t" "used_seen t = used_idx s"
      "b_disk t = (\<lambda>c. if c \<in> owners ?v then 0 else b_disk ?v c)" "lk t = lk ?v"
    using Suc.hyps(1) [of ?v] Suc.prems(1) by auto
  have "owners s = insert b (owners ?v)"
    using b(1) c completed_step [OF ne] by (auto simp: owners_def)
  then show ?case using t l by (auto simp: fun_eq_iff)
qed


end
