(* ===== verification/NetProps.thy ===== *)
theory NetProps
  imports NetRx SysMachine
begin

text \<open>
  Properties of the network layers below TCP: the random numbers that TCP starts from, the Internet
  checksum, the queues of packet buffers and the address resolution cache.
\<close>

section \<open>Random numbers\<close>

definition park_miller :: "int \<Rightarrow> int" where
  "park_miller x = 16807 * x mod 2147483647"

lemma schrage:
  assumes "1 \<le> x" "x \<le> 2147483646"
  defines "r \<equiv> 16807 * (x mod 127773) - 2836 * (x div 127773)"
  shows "(if r < 0 then r + 2147483647 else r) = park_miller x"
proof -
  have lo: "0 \<le> x mod 127773" "x mod 127773 \<le> 127772" by simp_all
  have hi: "0 \<le> x div 127773" "x div 127773 \<le> 16807"
    using assms zdiv_mono1 [of x 2147483646 127773] by simp_all
  have "x = 127773 * (x div 127773) + x mod 127773" by simp
  then have "16807 * x = r + 2147483647 * (x div 127773)" unfolding r_def by linarith
  then have m: "16807 * x mod 2147483647 = r mod 2147483647" by simp
  have r: "- 2147483647 < r" "r < 2147483647" using lo hi by (simp_all add: r_def)
  show ?thesis
  proof (cases "r < 0")
    case True
    have "(r + 2147483647) mod 2147483647 = r + 2147483647" using r True by (intro mod_pos_pos_trivial) auto
    then show ?thesis using True m by (simp add: park_miller_def)
  next
    case False
    then show ?thesis using r m by (simp add: park_miller_def mod_pos_pos_trivial)
  qed
qed

lemma park_miller_inverse:
  \<comment> \<open>1407677000 is the inverse of 16807\<close>
  assumes "0 \<le> x" "x < 2147483647"
  shows "1407677000 * park_miller x mod 2147483647 = x"
proof -
  have "1407677000 * park_miller x mod 2147483647 = (1407677000 * (16807 * x)) mod 2147483647"
    unfolding park_miller_def by (simp only: mod_mult_right_eq)
  also have "\<dots> = (x + 2147483647 * (11017 * x)) mod 2147483647"
    by (rule arg_cong [where f = "\<lambda>y. y mod 2147483647"]) simp
  also have "\<dots> = x" using assms by (simp only: mod_mult_self2 mod_pos_pos_trivial)
  finally show ?thesis .
qed

lemma park_miller_range:
  assumes "1 \<le> x" "x \<le> 2147483646" shows "1 \<le> park_miller x" "park_miller x \<le> 2147483646"
proof -
  have "park_miller x \<noteq> 0" using park_miller_inverse [of x] assms by auto
  moreover have "0 \<le> park_miller x" "park_miller x < 2147483647" by (simp_all add: park_miller_def)
  ultimately show "1 \<le> park_miller x" "park_miller x \<le> 2147483646" by linarith+
qed

lemma do_rand_eq: "do_rand c = park_miller (int (unat c mod 0x7ffffffe) + 1) - 1"
proof -
  have "int (unat c mod 0x7ffffffe) + 1 \<le> 2147483646" by simp
  then show ?thesis
    using schrage [of "int (unat c mod 0x7ffffffe) + 1"] by (simp add: do_rand_def Let_def)
qed

lemma do_rand_range: "0 \<le> do_rand c" "do_rand c \<le> 0x7ffffffd"
proof -
  have "unat c mod 0x7ffffffe < 0x7ffffffe" by simp
  then have "1 \<le> int (unat c mod 0x7ffffffe) + 1" "int (unat c mod 0x7ffffffe) + 1 \<le> 2147483646" by linarith+
  from park_miller_range [OF this] show "0 \<le> do_rand c" "do_rand c \<le> 0x7ffffffd" by (simp_all add: do_rand_eq)
qed

text \<open>\<open>do_rand\<close> computes the generator of Park and Miller, \<open>7 ^ 5 x mod (2 ^ 31 - 1)\<close>, although no
  intermediate result exceeds 31 bits; its results are in the documented range, and on that range it
  is a permutation, so no state is a dead end.\<close>
theorem do_rand_is_park_miller:
  "do_rand c = (7 ^ 5 * (int (unat c mod 0x7ffffffe) + 1)) mod (2 ^ 31 - 1) - 1 \<and>
   do_rand c \<in> {0..0x7ffffffd} \<and> inj_on (\<lambda>n. do_rand (of_nat n)) {..<0x7ffffffe}"
proof -
  have "inj_on (\<lambda>n. do_rand (of_nat n)) {..<0x7ffffffe}"
  proof (rule inj_on_inverseI)
    fix n :: nat assume "n \<in> {..<0x7ffffffe}"
    then have n: "n < 2147483646" by simp
    then have "unat (of_nat n :: u64) mod 0x7ffffffe = n" by (simp add: unat_of_nat)
    then show "nat (1407677000 * (do_rand (of_nat n) + 1) mod 2147483647 - 1) = n"
      using n park_miller_inverse [of "int n + 1"] by (simp add: do_rand_eq)
  qed
  moreover have "do_rand c = (7 ^ 5 * (int (unat c mod 0x7ffffffe) + 1)) mod (2 ^ 31 - 1) - 1"
    by (simp add: do_rand_eq park_miller_def)
  ultimately show ?thesis using do_rand_range [of c] by simp
qed

section \<open>The Internet checksum\<close>

lemma ld16_st16_other:
  assumes "ranges_disjoint p 2 q 2" shows "ld16 (st16 p v d) q = ld16 d q"
  using assms by (simp only: ld16_def st16_def ldn_stn_disjoint)

definition fold16 :: "nat \<Rightarrow> nat" where
  \<comment> \<open>the low 16 bits of the folded sum\<close>
  "fold16 n = (let f = n mod 65536 + n div 65536 in (f + f div 65536) mod 65536)"

lemma fold16_mod:
  assumes "n < 2 ^ 32" shows "fold16 n < 65536" "fold16 n mod 65535 = n mod 65535" "0 < n \<Longrightarrow> 0 < fold16 n"
proof -
  define f where "f = n mod 65536 + n div 65536"
  have "n div 65536 \<le> 65535" using assms by simp
  moreover have "n mod 65536 \<le> 65535" by simp
  ultimately have f: "f \<le> 131070" by (simp add: f_def)
  have "n = f + 65535 * (n div 65536)" by (simp add: f_def)
  then have m: "n mod 65535 = f mod 65535" by (metis mod_mult_self2)
  show "fold16 n < 65536" by (simp add: fold16_def Let_def)
  have c: "fold16 n = (if f < 65536 then f else f - 65535)"
  proof (cases "f < 65536")
    case True then show ?thesis by (simp add: fold16_def f_def [symmetric])
  next
    case False
    then have "f div 65536 = 1" using f by simp
    then have "fold16 n = (f + 1) mod 65536" by (simp add: fold16_def f_def [symmetric])
    also have "f + 1 = (f - 65535) + 65536" using False by simp
    also have "((f - 65535) + 65536) mod 65536 = f - 65535" using f by (simp only: mod_add_self2) simp
    finally show ?thesis using False by simp
  qed
  then show "fold16 n mod 65535 = n mod 65535" using m by (simp add: le_mod_geq)
  assume "0 < n"
  then have "0 < f" using div_mult_mod_eq [of n 65536] by (auto simp: f_def intro: ccontr)
  then show "0 < fold16 n" using c by simp
qed

lemma cksum_fold:
  fixes s :: u32
  defines "f \<equiv> (s AND 0xffff) + drop_bit 16 s"
  shows "unat (ucast (NOT (f + drop_bit 16 f)) :: u16) = 65535 - fold16 (unat s)"
proof -
  have a: "unat (s AND 0xffff) = unat s mod 65536"
  proof -
    have "s AND 0xffff = take_bit 16 s" by (simp add: take_bit_eq_mask mask_numeral)
    then show ?thesis by (simp add: unsigned_take_bit_eq take_bit_nat_def)
  qed
  have b: "unat (drop_bit 16 w) = unat w div 65536" for w :: u32 by (simp add: drop_bit_eq_div unat_div)
  have d: "unat s div 65536 \<le> 65535" using unat_bound [of s] by simp
  have f: "unat f = unat s mod 65536 + unat s div 65536" (is "_ = ?f")
    using d by (simp add: f_def unat_word_ariths a b mod_less)
  have "?f \<le> 131070" using d by (simp add: add_mono_thms_linordered_semiring(1) [of "unat s mod 65536" 65535])
  then have "unat (f + drop_bit 16 f) = ?f + ?f div 65536"
    by (simp add: unat_word_ariths b f mod_less)
  then have g: "unat (ucast (f + drop_bit 16 f) :: u16) = fold16 (unat s)"
    by (simp add: unsigned_ucast_eq take_bit_nat_def fold16_def Let_def)
  have n: "ucast (NOT w) = (NOT (ucast w) :: u16)" for w :: u32
    by (rule bit_word_eqI) (simp add: bit_ucast_iff bit_not_iff)
  have "unat (NOT v) = 65535 - unat v" for v :: u16
  proof -
    have "NOT v = 65535 - v" by (simp add: not_eq_complement)
    then show ?thesis using unat_bound [of v] by (simp add: unat_sub word_le_nat_alt)
  qed
  then show ?thesis using g by (simp add: n)
qed

lemma in_cksum_even:
  "even n \<Longrightarrow> unat (in_cksum a n d) = 65535 - fold16 (unat (sum16 (n div 2) a d))"
  using cksum_fold [of "sum16 (n div 2) a d"] by (simp add: in_cksum_def Let_def even_iff_mod_2_eq_zero)

lemma sum16_bound: "k \<le> 65536 \<Longrightarrow> unat (sum16 k a d) \<le> k * 65535"
proof (induction k arbitrary: a)
  case (Suc k)
  have "unat (ld16 d a) \<le> 65535" using unat_bound [of "ld16 d a"] by simp
  then have "unat (ucast (ld16 d a) :: u32) \<le> 65535" by (simp add: unsigned_ucast_eq take_bit_nat_eq_self)
  then show ?case using Suc.IH [of "a + 2"] Suc.prems by (simp add: unat_word_ariths mod_less)
qed simp

lemma sum16_numeral: "sum16 (numeral k) a d = ucast (ld16 d a) + sum16 (pred_numeral k) (a + 2) d"
  by (simp add: numeral_eq_Suc)

lemma fold16_max:
  assumes "n < 2 ^ 32" shows "fold16 n = 65535 \<longleftrightarrow> 0 < n \<and> n mod 65535 = 0"
proof
  assume f: "fold16 n = 65535"
  moreover have "fold16 0 = 0" by (simp add: fold16_def)
  ultimately show "0 < n \<and> n mod 65535 = 0" using fold16_mod(2) [OF assms] by (cases "n = 0") auto
next
  assume "0 < n \<and> n mod 65535 = 0"
  then have f: "0 < fold16 n" "fold16 n mod 65535 = 0" "fold16 n < 65536" using fold16_mod [OF assms] by auto
  then obtain k where "fold16 n = 65535 * k" by (meson mod_0_imp_dvd dvdE)
  then show "fold16 n = 65535" using f by (cases k) simp_all
qed

lemma cksum_fixed:
  assumes "s \<le> 655350" shows "fold16 (s + (65535 - fold16 s)) = 65535"
proof -
  have s: "s < 2 ^ 32" using assms by simp
  have f: "fold16 s \<le> 65535" "fold16 s mod 65535 = s mod 65535" using fold16_mod [OF s] by simp_all
  have "(s + (65535 - fold16 s)) mod 65535 = (s mod 65535 + (65535 - fold16 s)) mod 65535" by (simp add: mod_simps)
  also have "\<dots> = (fold16 s mod 65535 + (65535 - fold16 s)) mod 65535" by (simp only: f(2))
  also have "\<dots> = (fold16 s + (65535 - fold16 s)) mod 65535" by (simp only: mod_add_left_eq)
  also have "\<dots> = 0" using f(1) by simp
  finally have "(s + (65535 - fold16 s)) mod 65535 = 0" .
  moreover have "0 < s + (65535 - fold16 s)"
  proof (cases "s = 0")
    case True then show ?thesis by (simp add: fold16_def)
  qed simp
  ultimately show ?thesis using fold16_max [of "s + (65535 - fold16 s)"] assms by simp
qed

text \<open>C37: The checksum field makes the check of the receiver succeed: storing the checksum of a 20-byte
  IP header, computed with the field zero, gives a header that \<open>net_rx_ip\<close> takes for undamaged; and the
  check depends on the sum of the words modulo \<open>65535\<close> alone.\<close>
theorem ip_checksum_verifies:
  assumes "ld16 d (h + 10) = 0"
  shows "in_cksum h 20 (st16 (h + 10) (in_cksum h 20 d) d) = 0 \<and>
    (in_cksum h 20 e = 0 \<longleftrightarrow> sum16 10 h e \<noteq> 0 \<and> unat (sum16 10 h e) mod 65535 = 0)"
proof -
  let ?c = "in_cksum h 20 d"
  let ?d = "st16 (h + 10) ?c d"
  let ?s = "unat (sum16 10 h d)"
  have other: "ld16 ?d (h + k) = ld16 d (h + k)" if "k \<in> {0, 2, 4, 6, 8, 12, 14, 16, 18}" for k
    by (rule ld16_st16_other) (use that in \<open>auto simp: ranges_disjoint_def less_2_cases_iff\<close>)
  have "sum16 10 h ?d = sum16 10 h d + ucast ?c"
    using assms other [of 0] other [of 2] other [of 4] other [of 6] other [of 8] other [of 12] other [of 14]
      other [of 16] other [of 18] by (simp add: sum16_numeral algebra_simps)
  moreover have C: "unat ?c = 65535 - fold16 ?s" using in_cksum_even [of 20 h d] by simp
  moreover have b: "?s \<le> 655350" using sum16_bound [of 10 h d] by simp
  ultimately have "unat (sum16 10 h ?d) = ?s + (65535 - fold16 ?s)"
    by (simp add: unat_word_ariths unsigned_ucast_eq take_bit_nat_eq_self mod_less)
  then have "unat (in_cksum h 20 ?d) = 0" using in_cksum_even [of 20 h ?d] cksum_fixed [OF b] by simp
  moreover have "unat (in_cksum h 20 e) = 0 \<longleftrightarrow> 0 < unat (sum16 10 h e) \<and> unat (sum16 10 h e) mod 65535 = 0"
  proof -
    have n: "unat (sum16 10 h e) < 2 ^ 32" using unat_bound [of "sum16 10 h e"] by simp
    then have "unat (in_cksum h 20 e) = 0 \<longleftrightarrow> fold16 (unat (sum16 10 h e)) = 65535"
      using in_cksum_even [of 20 h e] fold16_mod(1) [OF n] by auto
    then show ?thesis using fold16_max [OF n] by simp
  qed
  ultimately show ?thesis by (simp add: unat_eq_zero unat_gt_0)
qed

theorem ip_checksum_verifies_witness:
  "let d = (\<lambda>a :: u64. if a = 0 then 0x45 else 0) in in_cksum 0 20 (st16 10 (in_cksum 0 20 d) d) = 0"
proof -
  have "ld16 (\<lambda>a :: u64. if a = 0 then 0x45 else 0) (0 + 10) = 0"
    unfolding ld16_def by (subst ldn_all_zero) (auto simp: less_2_cases_iff)
  from ip_checksum_verifies [OF this, THEN conjunct1] show ?thesis unfolding Let_def add_0_left .
qed

section \<open>Queues of packets\<close>

locale packet_queue =
  fixes holds :: "'q \<Rightarrow> bytes \<Rightarrow> u64 list \<Rightarrow> bool"
    and push :: "'q \<Rightarrow> u64 \<Rightarrow> bytes \<Rightarrow> 'q \<times> bytes"
    and pop :: "'q \<Rightarrow> bytes \<Rightarrow> u64 \<times> 'q"
    and fits :: "u64 \<Rightarrow> u64 list \<Rightarrow> bool"
  assumes push_holds: "holds q d xs \<Longrightarrow> fits m xs \<Longrightarrow> holds (fst (push q m d)) (snd (push q m d)) (xs @ [m])"
    and pop_holds: "holds q d (x # xs) \<Longrightarrow> fst (pop q d) = x \<and> holds (snd (pop q d)) d xs"
    and pop_none: "holds q d [] \<Longrightarrow> pop q d = (0, q)"
begin

definition enqueue_packets :: "u64 list \<Rightarrow> 'q \<times> bytes \<Rightarrow> 'q \<times> bytes" where
  "enqueue_packets ms s = fold (\<lambda>m (q, d). push q m d) ms s"

lemma enqueue_packets_holds:
  assumes "holds q d xs" "\<And>ps m qs. ms = ps @ m # qs \<Longrightarrow> fits m (xs @ ps)"
  shows "case enqueue_packets ms (q, d) of (q', d') \<Rightarrow> holds q' d' (xs @ ms)"
  using assms
proof (induction ms arbitrary: q d xs)
  case Nil
  then show ?case by (simp add: enqueue_packets_def)
next
  case (Cons m ms)
  have "holds (fst (push q m d)) (snd (push q m d)) (xs @ [m])"
    using push_holds [OF Cons.prems(1)] Cons.prems(2) [of "[]" m ms] by simp
  from Cons.IH [OF this] Cons.prems(2) [of "m # _"] show ?case by (simp add: enqueue_packets_def)
qed

lemma popped_nth:
  "holds q d xs \<Longrightarrow> fst (pop (((\<lambda>q. snd (pop q d)) ^^ k) q) d) = (if k < length xs then xs ! k else 0)"
proof (induction xs arbitrary: q k)
  case Nil
  then have "((\<lambda>q. snd (pop q d)) ^^ k) q = q" by (induction k) (simp_all add: pop_none)
  then show ?case using pop_none [OF Nil] by simp
next
  case (Cons x xs)
  then show ?case using pop_holds [OF Cons.prems] by (cases k) (simp_all add: funpow_Suc_right del: funpow.simps)
qed

end

fun packet_chain :: "bytes \<Rightarrow> u64 \<Rightarrow> u64 list \<Rightarrow> bool" where
  "packet_chain d p [] = (p = 0)"
| "packet_chain d p (x # xs) = (p = x \<and> x \<noteq> 0 \<and> packet_chain d (mb_next x d) xs)"

definition apart_from :: "u64 \<Rightarrow> u64 list \<Rightarrow> bool" where
  \<comment> \<open>the link of \<open>m\<close> shares no byte with those of the packets \<open>xs\<close>\<close>
  "apart_from m xs \<longleftrightarrow> m \<noteq> 0 \<and> (\<forall>x \<in> set xs. ranges_disjoint m 8 x 8 \<and> ranges_disjoint x 8 m 8)"

fun all_apart :: "u64 list \<Rightarrow> bool" where
  "all_apart [] = True"
| "all_apart (x # xs) = (apart_from x xs \<and> all_apart xs)"

definition holds_packets :: "mbufq \<Rightarrow> bytes \<Rightarrow> u64 list \<Rightarrow> bool" where
  "holds_packets q d xs \<longleftrightarrow> packet_chain d (q_head q) xs \<and> all_apart xs \<and> (xs \<noteq> [] \<longrightarrow> q_tail q = last xs)"

lemma mb_next_set_other: "ranges_disjoint m 8 x 8 \<Longrightarrow> mb_next x (set_mb_next m v d) = mb_next x d"
  by (simp add: mb_next_def set_mb_next_def ld_st_disjoint)

lemma mb_next_set_same [simp]: "mb_next m (set_mb_next m v d) = v"
  by (simp add: mb_next_def set_mb_next_def)

lemma packet_chain_frame:
  "(\<And>x. x \<in> set xs \<Longrightarrow> mb_next x e = mb_next x d) \<Longrightarrow> packet_chain e p xs = packet_chain d p xs"
  by (induction xs arbitrary: p) auto

lemma packet_chain_snoc:
  assumes "packet_chain d p (xs @ [y])" "all_apart (xs @ [y])" "m \<noteq> 0" "mb_next m d = 0" "apart_from m (xs @ [y])"
  shows "packet_chain (set_mb_next y m d) p (xs @ [y, m])"
  using assms
proof (induction xs arbitrary: p)
  case Nil
  then show ?case by (simp add: apart_from_def mb_next_set_other)
next
  case (Cons x xs)
  then have "mb_next x (set_mb_next y m d) = mb_next x d"
    by (intro mb_next_set_other) (simp add: apart_from_def)
  then show ?case using Cons by (simp add: apart_from_def)
qed

lemma all_apart_snoc: "all_apart xs \<Longrightarrow> apart_from m xs \<Longrightarrow> all_apart (xs @ [m])"
proof (induction xs)
  case (Cons x xs)
  then show ?case by (cases xs) (auto simp: apart_from_def)
qed (simp add: apart_from_def)

lemma all_apart_mid: "all_apart (ps @ m # qs) \<Longrightarrow> apart_from m ps"
  by (induction ps) (auto simp: apart_from_def elim: all_apart.elims)

interpretation mq: packet_queue holds_packets mbufq_pushtail mbufq_pophead apart_from
proof
  fix q d xs m
  assume h: "holds_packets q d xs" and a: "apart_from m xs"
  let ?d = "set_mb_next m 0 d"
  have c: "packet_chain ?d (q_head q) xs"
    using h a by (subst packet_chain_frame [of xs ?d d]) (auto simp: holds_packets_def apart_from_def mb_next_set_other)
  show "holds_packets (fst (mbufq_pushtail q m d)) (snd (mbufq_pushtail q m d)) (xs @ [m])"
  proof (cases xs rule: rev_cases)
    case Nil
    then show ?thesis using h a by (simp add: holds_packets_def mbufq_pushtail_def apart_from_def)
  next
    case (snoc ys y)
    have "q_head q \<noteq> 0" using h snoc by (cases ys) (auto simp: holds_packets_def)
    moreover have "packet_chain (set_mb_next y m ?d) (q_head q) (ys @ [y, m])"
      using c h a snoc by (intro packet_chain_snoc) (auto simp: holds_packets_def apart_from_def)
    moreover have "all_apart (xs @ [m])" using h a all_apart_snoc by (simp add: holds_packets_def)
    ultimately show ?thesis using h snoc by (simp add: holds_packets_def mbufq_pushtail_def)
  qed
next
  fix q d x xs
  assume "holds_packets q d (x # xs)"
  then show "fst (mbufq_pophead q d) = x \<and> holds_packets (snd (mbufq_pophead q d)) d xs"
    by (auto simp: holds_packets_def mbufq_pophead_def Let_def)
next
  fix q d
  assume "holds_packets q d []"
  then show "mbufq_pophead q d = (0, q)" by (simp add: holds_packets_def mbufq_pophead_def Let_def)
qed

definition pop_k :: "nat \<Rightarrow> mbufq \<Rightarrow> bytes \<Rightarrow> u64" where
  \<comment> \<open>the result of the pop that follows \<open>k\<close> others\<close>
  "pop_k k q d = fst (mbufq_pophead (((\<lambda>q. snd (mbufq_pophead q d)) ^^ k) q) d)"

text \<open>C38: A queue of packet buffers is first in, first out: after any number of packets whose buffers do
  not overlap have been pushed behind the packets \<open>xs\<close> that it holds, popping yields \<open>xs\<close>, then the
  new packets in the order of the calls, and then 0 for ever.\<close>
theorem mbufq_is_fifo:
  assumes "holds_packets q d xs" "all_apart (xs @ ms)" "fold (\<lambda>m (q, d). mbufq_pushtail q m d) ms (q, d) = (q', d')"
  shows "pop_k k q' d' = (if k < length (xs @ ms) then (xs @ ms) ! k else 0) \<and> (mbufq_empty q' \<longleftrightarrow> xs @ ms = [])"
proof -
  have "apart_from m (xs @ ps)" if "ms = ps @ m # qs" for ps m qs
    using all_apart_mid [of "xs @ ps" m qs] assms(2) that by simp
  then have "case mq.enqueue_packets ms (q, d) of (q', d') \<Rightarrow> holds_packets q' d' (xs @ ms)"
    by (rule mq.enqueue_packets_holds [OF assms(1)])
  then have h: "holds_packets q' d' (xs @ ms)" using assms(3) by (simp add: mq.enqueue_packets_def)
  then have "mbufq_empty q' \<longleftrightarrow> xs @ ms = []" by (cases "xs @ ms") (auto simp: holds_packets_def mbufq_empty_def)
  then show ?thesis using mq.popped_nth [OF h] by (simp add: pop_k_def)
qed

theorem mbufq_is_fifo_witness:
  "case fold (\<lambda>m (q, d). mbufq_pushtail q m d) [0x81000000, 0x81005000, 0x81002000] (\<lparr>q_head = 0, q_tail = 0\<rparr>, \<lambda>_. 0) of
     (q, d) \<Rightarrow> pop_k 1 q d = 0x81005000"
proof -
  have p: "page_aligned 0x81000000" "page_aligned 0x81005000" "page_aligned 0x81002000"
    by (simp_all add: page_aligned_def PGSIZE_def)
  have "all_apart ([] @ [0x81000000, 0x81005000, 0x81002000])"
    by (simp add: apart_from_def page_aligned_ranges_disjoint p PGSIZE_def)
  then show ?thesis
    using mbufq_is_fifo [of "\<lparr>q_head = 0, q_tail = 0\<rparr>" "\<lambda>_. 0" "[]" "[0x81000000, 0x81005000, 0x81002000]" _ _ 1]
    by (simp add: holds_packets_def split: prod.split)
qed

section \<open>The address resolution cache\<close>

lemma arp_find_eq: "arp_find k i ip c = find (\<lambda>l. ae_ip (c l) = ip) [i..<i + k]"
  by (induction k arbitrary: i) (simp_all add: upt_conv_Cons del: upt_Suc)

lemma arp_entries_upd [simp]:
  "arp_entries (s\<lparr>noff := n\<rparr>) = arp_entries s" "arp_entries (s\<lparr>lk := l\<rparr>) = arp_entries s"
  "arp_entries (s\<lparr>arp_cache := c\<rparr>) = arp_entries s"
  by (simp_all add: arp_entries_def)

definition arp_map :: "'a knet_scheme \<Rightarrow> u32 \<Rightarrow> u8 list option" where
  \<comment> \<open>the cache as a map\<close>
  "arp_map s ip = map_option (\<lambda>i. ae_mac (arp_cache s i)) (find (\<lambda>l. ae_ip (arp_cache s l) = ip) [0..<arp_entries s])"

lemma arp_lookup_eq: "lk s ArpLock = None \<Longrightarrow> arp_lookup ip s = Some (arp_map s ip, s)"
  by (simp add: arp_lookup_def arp_map_def arp_find_eq kernel_simps Let_def fun_upd_idem)

lemma find_index:
  "find P [0..<n] = Some i \<longleftrightarrow> i < n \<and> P i \<and> (\<forall>j < i. \<not> P j)"
  by (auto simp: find_Some_iff intro!: exI [of _ i])

lemma find_snoc: "find P (xs @ [x]) = (case find P xs of None \<Rightarrow> if P x then Some x else None | Some y \<Rightarrow> Some y)"
  by (induction xs) auto

lemma arp_map_cong:
  assumes "arp_entries t = arp_entries s"
    and "\<And>l. l < arp_entries s \<Longrightarrow> (ae_ip (arp_cache t l) = ip) = (ae_ip (arp_cache s l) = ip)"
    and "\<And>l. l < arp_entries s \<Longrightarrow> ae_ip (arp_cache s l) = ip \<Longrightarrow> ae_mac (arp_cache t l) = ae_mac (arp_cache s l)"
  shows "arp_map t ip = arp_map s ip"
proof -
  have e: "find (\<lambda>l. ae_ip (arp_cache t l) = ip) [0..<arp_entries s] = find (\<lambda>l. ae_ip (arp_cache s l) = ip) [0..<arp_entries s]"
    using assms(2) by (intro find_cong) auto
  show ?thesis
  proof (cases "find (\<lambda>l. ae_ip (arp_cache s l) = ip) [0..<arp_entries s]")
    case (Some i)
    then have "i < arp_entries s" "ae_ip (arp_cache s i) = ip" by (simp_all add: find_index)
    then show ?thesis using assms(3) [of i] unfolding arp_map_def assms(1) e Some by simp
  qed (simp add: arp_map_def assms(1) e)
qed

lemma update_arp_known:
  assumes "lk s ArpLock = None" "arp_map s ip \<noteq> None"
  shows "\<exists>C. update_arp ip mac s = Some (True, s\<lparr>arp_cache := C\<rparr>) \<and> arp_map (s\<lparr>arp_cache := C\<rparr>) = (arp_map s)(ip \<mapsto> mac)"
proof -
  obtain i where i: "find (\<lambda>l. ae_ip (arp_cache s l) = ip) [0..<arp_entries s] = Some i"
    using assms(2) by (auto simp: arp_map_def)
  let ?t = "s\<lparr>arp_cache := (arp_cache s)(i := (arp_cache s i)\<lparr>ae_mac := mac\<rparr>)\<rparr>"
  have "update_arp ip mac s = Some (True, ?t)"
    using assms(1) i by (simp add: update_arp_def kernel_simps Let_def arp_find_eq arp_entries_def fun_upd_idem)
  moreover have "arp_map ?t x = ((arp_map s)(ip \<mapsto> mac)) x" for x
  proof (cases "x = ip")
    case True
    have "find (\<lambda>l. ae_ip (arp_cache ?t l) = ip) [0..<arp_entries ?t] = Some i"
      using i by (simp add: find_index arp_entries_def)
    then show ?thesis using True by (simp add: arp_map_def)
  next
    case False
    have "arp_map ?t x = arp_map s x"
      using i False by (intro arp_map_cong) (auto simp: arp_entries_def find_index)
    then show ?thesis using False by simp
  qed
  ultimately show ?thesis
    by (intro exI [of _ "(arp_cache s)(i := (arp_cache s i)\<lparr>ae_mac := mac\<rparr>)"]) (simp add: fun_eq_iff)
qed

lemma update_arp_unknown: "lk s ArpLock = None \<Longrightarrow> arp_map s ip = None \<Longrightarrow> update_arp ip mac s = Some (False, s)"
  by (simp add: arp_map_def update_arp_def kernel_simps Let_def arp_find_eq fun_upd_idem)

lemma add_arp_adds:
  assumes "lk s ArpLock = None" "arp_map s ip = None" "0 \<le> free_arp_idx s" "free_arp_idx s < 2 ^ 31 - 1"
  defines "k \<equiv> nat (free_arp_idx s mod int ARP_MAX_ENTRIES)"
  shows "\<exists>C I t. t = s\<lparr>free_arp_idx := I, arp_cache := C\<rparr> \<and> add_arp ip mac s = Some t \<and> arp_map t ip = Some mac \<and>
    (\<forall>x. x \<noteq> ip \<and> (free_arp_idx s < int ARP_MAX_ENTRIES \<or> x \<noteq> ae_ip (arp_cache s k)) \<longrightarrow> arp_map t x = arp_map s x)"
proof -
  let ?t = "s\<lparr>free_arp_idx := free_arp_idx s + 1, arp_cache := (arp_cache s)(k := \<lparr>ae_ip = ip, ae_mac = mac\<rparr>)\<rparr>"
  have t: "add_arp ip mac s = Some ?t"
    using assms(1,4) by (simp add: add_arp_def kernel_simps Let_def k_def fun_upd_idem)
  have none: "\<And>l. l < arp_entries s \<Longrightarrow> ae_ip (arp_cache s l) \<noteq> ip"
    using assms(2) by (auto simp: arp_map_def find_None_iff)
  show ?thesis
  proof (cases "free_arp_idx s < int ARP_MAX_ENTRIES")
    case True
    then have k: "k = arp_entries s" "arp_entries ?t = Suc k"
      using assms(3) by (auto simp: k_def arp_entries_def min_def ARP_MAX_ENTRIES_def)
    have f: "find (\<lambda>l. ae_ip (arp_cache ?t l) = x) [0..<k] = find (\<lambda>l. ae_ip (arp_cache s l) = x) [0..<k]" for x
      by (rule find_cong) auto
    have g: "find P [0..<Suc k] = (case find P [0..<k] of None \<Rightarrow> if P k then Some k else None | Some i \<Rightarrow> Some i)" for P
      by (simp add: find_snoc)
    have "arp_map ?t ip = Some mac"
    proof -
      have "find (\<lambda>l. ae_ip (arp_cache s l) = ip) [0..<k] = None" using none k(1) by (simp add: find_None_iff)
      then show ?thesis unfolding arp_map_def k(2) g f by simp
    qed
    moreover have "arp_map ?t x = arp_map s x" if "x \<noteq> ip" for x
    proof (cases "find (\<lambda>l. ae_ip (arp_cache s l) = x) [0..<k]")
      case (Some i)
      then have "i < k" by (simp add: find_index)
      then show ?thesis unfolding arp_map_def k(2) g f k(1) [symmetric] Some by simp
    next
      case None
      show ?thesis unfolding arp_map_def k(2) g f k(1) [symmetric] None using that by simp
    qed
    ultimately show ?thesis using t by blast
  next
    case False
    then have k: "arp_entries s = ARP_MAX_ENTRIES" "arp_entries ?t = ARP_MAX_ENTRIES" "k < ARP_MAX_ENTRIES"
      by (auto simp: k_def arp_entries_def ARP_MAX_ENTRIES_def)
    have "find (\<lambda>l. ae_ip (arp_cache ?t l) = ip) [0..<arp_entries ?t] = Some k"
      using none k by (simp add: find_index)
    then have "arp_map ?t ip = Some mac" by (simp add: arp_map_def)
    moreover have "arp_map ?t x = arp_map s x" if "x \<noteq> ip" "x \<noteq> ae_ip (arp_cache s k)" for x
      by (rule arp_map_cong) (use that k in auto)
    ultimately show ?thesis using t False by blast
  qed
qed

end
