(* ===== verification/TcpProps.thy ===== *)
theory TcpProps
  imports NetProps KallocProps
begin

text \<open>
  Properties of the network layers from TCP down to the queue of the card: what a header that is sent
  says to the code that receives it, that a segment can always be sent when a page is free and the
  hardware address of the gateway is known, and the opening of a connection.
\<close>

section \<open>Header fields\<close>

lemma byte_masks:
  "(0x00ff :: u16) = mask 8" "(0xff00 :: u16) = push_bit 8 (mask 8)"
  "(0x000000ff :: u32) = mask 8" "(0x0000ff00 :: u32) = push_bit 8 (mask 8)"
  "(0x00ff0000 :: u32) = push_bit 16 (mask 8)" "(0xff000000 :: u32) = push_bit 24 (mask 8)"
  by (simp_all add: mask_eq_exp_minus_1)

lemma bit_bswaps: "bit (bswaps v) n \<longleftrightarrow> n < 16 \<and> (if n < 8 then bit v (n + 8) else bit v (n - 8))"
  unfolding bswaps_def byte_masks by (auto simp: bit_simps add.commute)

lemma bit_bswapl:
  "bit (bswapl v) n \<longleftrightarrow> n < 32 \<and> (if n < 8 then bit v (n + 24) else if n < 16 then bit v (n + 8)
     else if n < 24 then bit v (n - 8) else bit v (n - 24))"
  unfolding bswapl_def byte_masks by (auto simp: bit_simps add.commute)

lemma bswaps_bswaps [simp]: "bswaps (bswaps x) = x"
  by (rule bit_word_eqI) (auto simp: bit_bswaps)

lemma bswapl_bswapl [simp]: "bswapl (bswapl x) = x"
  by (rule bit_word_eqI) (auto simp: bit_bswapl)

lemma unat_plus_small:
  assumes "unat (c :: u64) + i < 2 ^ 64" shows "unat (c + of_nat i) = unat c + i"
proof -
  have "unat (of_nat i :: u64) = i" using assms by (simp add: unsigned_of_nat take_bit_nat_eq_self)
  then show ?thesis using assms by (simp only: unat_word_ariths) (simp add: mod_less)
qed

lemma disjoint_offsets:
  assumes "unat c + n \<le> unat c'" "unat c' + k \<le> 2 ^ 64"
  shows "ranges_disjoint ((m :: u64) + c) n (m + c') k" "ranges_disjoint (m + c') k (m + c) n"
proof -
  have "m + c + of_nat i \<noteq> m + c' + of_nat j" if "i < n" "j < k" for i j
  proof
    assume "m + c + of_nat i = m + c' + of_nat j"
    then have "c + of_nat i = c' + of_nat j" by (simp only: add.assoc add_left_cancel)
    moreover have "unat (c + of_nat i) = unat c + i" "unat (c' + of_nat j) = unat c' + j"
      using that assms by (intro unat_plus_small; linarith)+
    ultimately have "unat c + i = unat c' + j" by simp
    then show False using that assms by linarith
  qed
  then show "ranges_disjoint (m + c) n (m + c') k" "ranges_disjoint (m + c') k (m + c) n"
    by (force simp: ranges_disjoint_def)+
qed

definition offs_apart :: "u64 \<Rightarrow> nat \<Rightarrow> u64 \<Rightarrow> nat \<Rightarrow> bool" where
  \<comment> \<open>\<open>n\<close> bytes from offset \<open>c\<close> and \<open>k\<close> bytes from offset \<open>c'\<close>\<close>
  "offs_apart c n c' k \<longleftrightarrow> unat c + n \<le> unat c' \<and> unat c' + k \<le> 2 ^ 64 \<or> unat c' + k \<le> unat c \<and> unat c + n \<le> 2 ^ 64"

lemma offs_apart_disjoint: "offs_apart c n c' k \<Longrightarrow> ranges_disjoint ((m :: u64) + c) n (m + c') k"
  using disjoint_offsets [of c n c' k m] disjoint_offsets [of c' k c n m] by (auto simp: offs_apart_def)

lemma ldn_upd_apart: "offs_apart c 1 c' k \<Longrightarrow> ldn k (d(m + c := x)) (m + c') = ldn k d (m + c')"
  using offs_apart_disjoint [of c 1 c' k m] by (intro ldn_fun_upd_other) (auto simp: ranges_disjoint_def)

lemma ldn_set_apart:
  assumes "offs_apart c n c' k" shows "ldn k (mem_set (m + c) x n d) (m + c') = ldn k d (m + c')"
proof (rule ldn_cong)
  fix j assume j: "j < k"
  have "ranges_disjoint (m + c) n (m + c') k" by (rule offs_apart_disjoint [OF assms])
  then have "\<not> unat (m + c' + of_nat j - (m + c)) < n"
    using j word_diff_lt_imp [of "m + c' + of_nat j" "m + c" n] unfolding ranges_disjoint_def by metis
  then show "mem_set (m + c) x n d (m + c' + of_nat j) = d (m + c' + of_nat j)" by (simp add: mem_set_def)
qed

lemma read_apart:
  "offs_apart c 2 c' 2 \<Longrightarrow> ld16 (st16 (m + c) v2 d) (m + c') = ld16 d (m + c')"
  "offs_apart c 4 c' 2 \<Longrightarrow> ld16 (st32 (m + c) v4 d) (m + c') = ld16 d (m + c')"
  "offs_apart c 1 c' 2 \<Longrightarrow> ld16 (d(m + c := v1)) (m + c') = ld16 d (m + c')"
  "offs_apart c 2 c' 4 \<Longrightarrow> ld32 (st16 (m + c) v2 d) (m + c') = ld32 d (m + c')"
  "offs_apart c 4 c' 4 \<Longrightarrow> ld32 (st32 (m + c) v4 d) (m + c') = ld32 d (m + c')"
  "offs_apart c 1 c' 4 \<Longrightarrow> ld32 (d(m + c := v1)) (m + c') = ld32 d (m + c')"
  "offs_apart c 2 c' 8 \<Longrightarrow> ld64 (st16 (m + c) v2 d) (m + c') = ld64 d (m + c')"
  "offs_apart c 4 c' 8 \<Longrightarrow> ld64 (st32 (m + c) v4 d) (m + c') = ld64 d (m + c')"
  "offs_apart c 8 c' 8 \<Longrightarrow> ld64 (st64 (m + c) v8 d) (m + c') = ld64 d (m + c')"
  "offs_apart c 1 c' 8 \<Longrightarrow> ld64 (d(m + c := v1)) (m + c') = ld64 d (m + c')"
  "offs_apart c n c' 8 \<Longrightarrow> ld64 (mem_set (m + c) x n d) (m + c') = ld64 d (m + c')"
  by (simp_all only: ld16_def ld32_def ld64_def st16_def st32_def st64_def ldn_stn_disjoint offs_apart_disjoint
      ldn_upd_apart ldn_set_apart)

lemma stn_byte: "offs_apart c n c' 1 \<Longrightarrow> stn n (m + c) v d (m + c') = d (m + c')"
  using offs_apart_disjoint [of c n c' 1 m] by (intro stn_other) (force simp: ranges_disjoint_def)

lemma byte_apart:
  "offs_apart c 2 c' 1 \<Longrightarrow> st16 (m + c) v2 d (m + c') = d (m + c')"
  "offs_apart c 4 c' 1 \<Longrightarrow> st32 (m + c) v4 d (m + c') = d (m + c')"
  by (simp_all only: st16_def st32_def stn_byte)

lemma put_list_other:
  "(\<And>i. i < length xs \<Longrightarrow> a + of_nat i \<noteq> b) \<Longrightarrow> put_list a xs d b = d b"
proof (induction xs arbitrary: a d)
  case (Cons x xs)
  have "a + 1 + of_nat i \<noteq> b" if "i < length xs" for i using Cons.prems [of "Suc i"] that by (simp add: add.assoc)
  then have "put_list (a + 1) xs (d(a := x)) b = (d(a := x)) b" by (rule Cons.IH)
  then show ?case using Cons.prems [of 0] by simp
qed simp

lemma put_list_apart:
  assumes "offs_apart c (length xs) c' k" "j < k"
  shows "put_list (m + c) xs d (m + c' + of_nat j) = d (m + c' + of_nat j)"
  using offs_apart_disjoint [OF assms(1), of m] assms(2) by (intro put_list_other) (auto simp: ranges_disjoint_def)

lemma read_apart_list:
  "offs_apart c (length xs) c' 2 \<Longrightarrow> ld16 (put_list (m + c) xs d) (m + c') = ld16 d (m + c')"
  "offs_apart c (length xs) c' 4 \<Longrightarrow> ld32 (put_list (m + c) xs d) (m + c') = ld32 d (m + c')"
  "offs_apart c (length xs) c' 8 \<Longrightarrow> ld64 (put_list (m + c) xs d) (m + c') = ld64 d (m + c')"
  "offs_apart c (length xs) c' 1 \<Longrightarrow> put_list (m + c) xs d (m + c') = d (m + c')"
  unfolding ld16_def ld32_def ld64_def using put_list_apart [of c xs c' 1 0 m d]
  by (simp_all add: put_list_apart cong: ldn_cong)

lemma read_apart_more:
  "offs_apart c 8 c' 2 \<Longrightarrow> ld16 (st64 (m + c) v8 d) (m + c') = ld16 d (m + c')"
  "offs_apart c 8 c' 4 \<Longrightarrow> ld32 (st64 (m + c) v8 d) (m + c') = ld32 d (m + c')"
  "offs_apart c 8 c' 1 \<Longrightarrow> st64 (m + c) v8 d (m + c') = d (m + c')"
  "offs_apart c n c' 2 \<Longrightarrow> ld16 (mem_set (m + c) x n d) (m + c') = ld16 d (m + c')"
  "offs_apart c n c' 4 \<Longrightarrow> ld32 (mem_set (m + c) x n d) (m + c') = ld32 d (m + c')"
  "offs_apart c n c' 1 \<Longrightarrow> mem_set (m + c) x n d (m + c') = d (m + c')"
  using ldn_set_apart [of c n c' 1 m x d]
  by (simp_all add: ld16_def ld32_def ld64_def st64_def ldn_stn_disjoint offs_apart_disjoint ldn_set_apart stn_byte
      word_unat_eq_iff)

lemmas packet_reads = read_apart read_apart_list read_apart_more byte_apart

lemma tcp_header_reads:
  "bswaps (ld16 (tcp_header h k seq ack flags d) h) = sk_lport k"
  "bswaps (ld16 (tcp_header h k seq ack flags d) (h + 2)) = sk_rport k"
  "bswapl (ld32 (tcp_header h k seq ack flags d) (h + 4)) = seq"
  "bswapl (ld32 (tcp_header h k seq ack flags d) (h + 8)) = ack"
  "tcp_header h k seq ack flags d (h + 13) = flags"
  "ld16 (tcp_header h k seq ack flags d) (h + 14) = rcv_wnd (sk_cb k)"
  by (simp_all add: tcp_header_def Let_def read_apart byte_apart offs_apart_def read_apart [where c' = 0, simplified])

text \<open>C36: The header of a segment says to the receiver, who reads it as this code does, what the sender
  put in: ports, sequence and acknowledgement numbers and flags.  The window alone arrives with its
  bytes exchanged.\<close>
theorem tcp_header_roundtrip:
  fixes k d h seq ack flags
  defines "e \<equiv> tcp_header h k seq ack flags d"
  shows "bswaps (ld16 e h) = sk_lport k \<and> bswaps (ld16 e (h + 2)) = sk_rport k \<and> bswapl (ld32 e (h + 4)) = seq \<and>
    bswapl (ld32 e (h + 8)) = ack \<and> e (h + 13) = flags \<and> bswaps (ld16 e (h + 14)) = bswaps (rcv_wnd (sk_cb k))"
  unfolding e_def by (simp add: tcp_header_reads)

section \<open>A segment can be sent\<close>

definition can_queue :: "'a knet_scheme \<Rightarrow> bool" where
  \<comment> \<open>the locks below TCP are free, and the hardware address of the gateway is known\<close>
  "can_queue s \<longleftrightarrow> lk s ArpLock = None \<and> lk s NicLock = None \<and>
     (\<exists>mac. arp_map s (MAKE_IP_ADDR 10 0 2 2) = Some mac \<and> length mac = ETHADDR_LEN)"

definition can_send :: "'a knet_scheme \<Rightarrow> bool" where
  "can_send s \<longleftrightarrow> kinv s \<and> cpu_idle s \<and> avail s \<noteq> {} \<and> KERNBASE \<le> kend s \<and> can_queue s"

definition only_sent :: "'a knet_scheme \<Rightarrow> 'a knet_scheme \<Rightarrow> bool" where
  \<comment> \<open>sending touches neither sockets nor processes nor locks\<close>
  "only_sent s t \<longleftrightarrow> socks t = socks s \<and> sockets t = sockets s \<and> procs t = procs s \<and> curp t = curp s \<and>
     lk t = lk s \<and> noff t = noff s \<and> cpuid t = cpuid s \<and> rand_next t = rand_next s"

definition queued :: "u64 \<Rightarrow> bytes \<Rightarrow> 'a knet_scheme \<Rightarrow> 'a knet_scheme \<Rightarrow> bool" where
  \<comment> \<open>the buffer \<open>m\<close>, with the memory \<open>d\<close>, has joined the end of the card's queue\<close>
  "queued m d s t \<longleftrightarrow> mbufq_pushtail (nic_txq s) m d = (nic_txq t, mem t)"

definition segment_to :: "u64 \<Rightarrow> sock \<Rightarrow> u32 \<Rightarrow> u32 \<Rightarrow> u8 \<Rightarrow> bytes \<Rightarrow> bool" where
  \<comment> \<open>the packet of the buffer \<open>m\<close> is an IP packet to the peer of the socket, with this TCP header\<close>
  "segment_to m k seq ack flags d \<longleftrightarrow> mb_head m d = m + 94 \<and> bswaps (ld16 d (m + 106)) = ETHTYPE_IP \<and>
     d (m + 117) = IPPROTO_TCP \<and> bswapl (ld32 d (m + 124)) = sk_raddr k \<and>
     bswaps (ld16 d (m + 128)) = sk_lport k \<and> bswaps (ld16 d (m + 130)) = sk_rport k \<and>
     bswapl (ld32 d (m + 132)) = seq \<and> bswapl (ld32 d (m + 136)) = ack \<and> d (m + 141) = flags"

definition segment_queued :: "sock \<Rightarrow> u32 \<Rightarrow> u32 \<Rightarrow> u8 \<Rightarrow> 'a knet_scheme \<Rightarrow> 'a knet_scheme \<Rightarrow> bool" where
  \<comment> \<open>between \<open>s\<close> and \<open>t\<close> such a packet, in a page that was free, has been given to the card\<close>
  "segment_queued k seq ack flags s t \<longleftrightarrow> (\<exists>m d. m \<in> avail s \<and> segment_to m k seq ack flags d \<and> queued m d s t)"

lemma only_sentD:
  "only_sent s t \<Longrightarrow> socks t = socks s" "only_sent s t \<Longrightarrow> lk t = lk s" "only_sent s t \<Longrightarrow> procs t = procs s"
  "only_sent s t \<Longrightarrow> curp t = curp s"
  by (simp_all add: only_sent_def)

lemma mbufpush_eq:
  assumes "mb_head m d = m + c" "m < PHYSTOP" "20 + unat len \<le> unat c" "unat c < 4096"
  defines "d' \<equiv> set_mb_head m (m + (c - ucast len)) d"
  shows "mbufpush m len d = Some (m + (c - ucast len), set_mb_len m (mb_len m d' + len) d')"
proof -
  have l: "unat (ucast len :: u64) = unat len"
    using unat_bound [of len] by (simp add: unsigned_ucast_eq take_bit_nat_eq_self)
  then have x: "unat (c - ucast len) = unat c - unat len" using assms(3) by (simp add: unat_sub word_le_nat_alt)
  have p: "unat m < 2 ^ 32" using assms(2) by (simp add: word_less_nat_alt PHYSTOP_def KERNBASE_def)
  have "unat (m + (c - ucast len)) = unat m + unat (c - ucast len)" "unat (m + 20) = unat m + 20"
    using p x assms(4) by (simp_all add: unat_word_ariths mod_less)
  then have "\<not> m + (c - ucast len) < m + 20" using x assms(3) by (simp add: word_less_nat_alt)
  then show ?thesis
    using assms(1) by (simp add: mbufpush_def Let_def mb_head_def set_mb_head_def mb_buf_def d'_def add_diff_eq)
qed

lemma mb_head_writes [simp]:
  "mb_head m (set_mb_head m v d) = v"
  "16 \<le> unat c \<Longrightarrow> unat c < 4096 \<Longrightarrow> mb_head m (st16 (m + c) v2 d) = mb_head m d"
  "16 \<le> unat c \<Longrightarrow> unat c < 4096 \<Longrightarrow> mb_head m (st32 (m + c) v4 d) = mb_head m d"
  "16 \<le> unat c \<Longrightarrow> unat c < 4096 \<Longrightarrow> mb_head m (d(m + c := v1)) = mb_head m d"
  "16 \<le> unat c \<Longrightarrow> unat c < 4096 \<Longrightarrow> n < 4096 \<Longrightarrow> mb_head m (mem_set (m + c) x n d) = mb_head m d"
  "mb_head m (set_mb_len m l d) = mb_head m d" "mb_head m (or_mb_offload m o' d) = mb_head m d"
  by (simp_all add: mb_head_def set_mb_head_def set_mb_len_def or_mb_offload_def read_apart offs_apart_def)

lemma mbufalloc_grants:
  assumes "kinv s" "cpu_idle s" "avail s \<noteq> {}" "KERNBASE \<le> kend s"
  shows "\<exists>m M F R. mbufalloc MBUF_DEFAULT_HEADROOM s = Some (m, s\<lparr>mem := M, freelist := F, ref_cnt := R\<rparr>) \<and>
    m \<noteq> 0 \<and> m < PHYSTOP \<and> m \<in> avail s \<and> mb_head m M = m + 148 \<and> mb_len m M = 0 \<and>
    R = (ref_cnt s)(COW_REFIDX m := 1)"
proof -
  obtain m t where k: "kmalloc s = Some (m, t)" "page_grant s m t"
    using kalloc_grants [OF assms(1-3)] unfolding kmalloc_def by blast
  then obtain M F where t: "t = s\<lparr>mem := M, freelist := F, ref_cnt := (ref_cnt s)(COW_REFIDX m := 1)\<rparr>" and a: "m \<in> avail s"
    by (auto simp: page_grant_def)
  have m: "m \<noteq> 0" "m < PHYSTOP" using a page_ok_nonzero [OF assms(4)] by (auto simp: avail_def page_ok_def)
  have "mb_head m (mbuf_init m MBUF_DEFAULT_HEADROOM M) = m + 148"
    by (simp add: mbuf_init_def Let_def set_mb_sip_def set_mb_sport_def mb_buf_def MBUF_SIZE_def MBUF_DEFAULT_HEADROOM_def)
  moreover have "mb_len m (mbuf_init m MBUF_DEFAULT_HEADROOM M) = 0"
    by (simp add: mbuf_init_def Let_def mb_len_def set_mb_len_def set_mb_sip_def set_mb_sport_def mb_buf_def MBUF_SIZE_def
        packet_reads offs_apart_def)
  moreover have "mbufalloc MBUF_DEFAULT_HEADROOM s =
      Some (m, s\<lparr>mem := mbuf_init m MBUF_DEFAULT_HEADROOM M, freelist := F, ref_cnt := (ref_cnt s)(COW_REFIDX m := 1)\<rparr>)"
    using k(1) m t by (simp add: mbufalloc_def MBUF_DEFAULT_HEADROOM_def MBUF_SIZE_def upd_mem_def)
  ultimately show ?thesis using m a by blast
qed

lemma e1000_cache_only_sent:
  assumes "lk s NicLock = None" shows "\<exists>t. e1000_cache m s = Some t \<and> only_sent s t \<and> queued m (mem s) s t"
proof -
  obtain q d where "mbufq_pushtail (nic_txq s) m (mem s) = (q, d)" by fastforce
  then show ?thesis
    using assms by (auto simp: e1000_cache_def kernel_simps only_sent_def queued_def fun_upd_idem Let_def)
qed

lemma tcp_header_head: "mb_head m (tcp_header (m + 128) k seq ack flags d) = mb_head m d"
  by (simp add: tcp_header_def Let_def add.assoc)

lemma ip_header_head: "mb_head m (ip_header (m + 108) proto dip len d) = mb_head m d"
  by (simp add: ip_header_def Let_def add.assoc)

definition push_hdr :: "u64 \<Rightarrow> u64 \<Rightarrow> u32 \<Rightarrow> bytes \<Rightarrow> bytes" where
  \<comment> \<open>\<open>mbufpush\<close> to the address \<open>h\<close>\<close>
  "push_hdr m h len d = (let d = set_mb_head m h d in set_mb_len m (mb_len m d + len) d)"

definition ip_packet :: "u64 \<Rightarrow> u8 \<Rightarrow> u32 \<Rightarrow> u8 list \<Rightarrow> bytes \<Rightarrow> bytes" where
  \<comment> \<open>what the IP and Ethernet layers make of a buffer with a transport header\<close>
  "ip_packet m proto dip mac d =
     (let d = push_hdr m (m + 108) 20 d in
      eth_header (m + 94) mac ETHTYPE_IP
        (push_hdr m (m + 94) 14 (or_mb_offload m MBUF_CSUM_OFLD_ENABLE (ip_header (m + 108) proto dip (ucast (mb_len m d)) d))))"

lemma ip_packet_fields:
  assumes "length mac = ETHADDR_LEN"
  shows "mb_head m (ip_packet m proto dip mac d) = m + 94" "bswaps (ld16 (ip_packet m proto dip mac d) (m + 106)) = ETHTYPE_IP"
    "ip_packet m proto dip mac d (m + 117) = proto" "bswapl (ld32 (ip_packet m proto dip mac d) (m + 124)) = dip"
proof -
  note defs = ip_packet_def push_hdr_def eth_header_def ip_header_def Let_def set_mb_len_def set_mb_head_def or_mb_offload_def
    mb_head_def local_mac_def
  have l: "length mac = 6" using assms by (simp add: ETHADDR_LEN_def)
  show "mb_head m (ip_packet m proto dip mac d) = m + 94" "bswaps (ld16 (ip_packet m proto dip mac d) (m + 106)) = ETHTYPE_IP"
    "ip_packet m proto dip mac d (m + 117) = proto" "bswapl (ld32 (ip_packet m proto dip mac d) (m + 124)) = dip"
    by (simp_all add: defs l packet_reads offs_apart_def add.assoc)
qed

lemma ip_packet_keeps:
  assumes "length mac = ETHADDR_LEN" "128 \<le> unat c" "unat c < 145"
  shows "ld16 (ip_packet m proto dip mac d) (m + c) = ld16 d (m + c)" "ld32 (ip_packet m proto dip mac d) (m + c) = ld32 d (m + c)"
    "ip_packet m proto dip mac d (m + c) = d (m + c)"
proof -
  note defs = ip_packet_def push_hdr_def eth_header_def ip_header_def Let_def set_mb_len_def set_mb_head_def or_mb_offload_def
    local_mac_def
  have l: "length mac = 6" using assms(1) by (simp add: ETHADDR_LEN_def)
  show "ld16 (ip_packet m proto dip mac d) (m + c) = ld16 d (m + c)" "ld32 (ip_packet m proto dip mac d) (m + c) = ld32 d (m + c)"
    "ip_packet m proto dip mac d (m + c) = d (m + c)"
    using assms(2,3) by (auto simp: defs l packet_reads offs_apart_def add.assoc)
qed

lemma net_tx_ip_only_sent:
  assumes "can_queue s" "mb_head m (mem s) = m + 128" "m < PHYSTOP"
  shows "\<exists>t mac. net_tx_ip m proto dip s = Some t \<and> only_sent s t \<and> length mac = ETHADDR_LEN \<and>
    queued m (ip_packet m proto dip mac (mem s)) s t"
proof -
  let ?d = "push_hdr m (m + 108) 20 (mem s)"
  have d: "mbufpush m 20 (mem s) = Some (m + 108, ?d)" "mb_head m ?d = m + 108"
    using mbufpush_eq [OF assms(2,3), of 20] by (simp_all add: push_hdr_def Let_def)
  let ?i = "or_mb_offload m MBUF_CSUM_OFLD_ENABLE (ip_header (m + 108) proto dip (ucast (mb_len m ?d)) ?d)"
  let ?s = "s\<lparr>mem := ?i\<rparr>"
  have h: "mb_head m ?i = m + 108" using d(2) by (simp add: ip_header_head)
  let ?e = "push_hdr m (m + 94) 14 ?i"
  have e: "mbufpush m 14 ?i = Some (m + 94, ?e)"
    using mbufpush_eq [OF h assms(3), of 14] by (simp add: push_hdr_def Let_def)
  obtain mac where mac: "arp_map s (MAKE_IP_ADDR 10 0 2 2) = Some mac" "length mac = ETHADDR_LEN"
    using assms(1) by (auto simp: can_queue_def)
  have "arp_map ?s = arp_map s" by (simp add: arp_map_def arp_entries_def fun_eq_iff)
  then have "arp_lookup (net_ip_route dip) ?s = Some (Some mac, ?s)"
    using assms(1) mac arp_lookup_eq [of ?s] by (simp add: can_queue_def net_ip_route_def)
  moreover obtain t where "e1000_cache m (?s\<lparr>mem := eth_header (m + 94) mac ETHTYPE_IP ?e\<rparr>) = Some t"
    "only_sent (?s\<lparr>mem := eth_header (m + 94) mac ETHTYPE_IP ?e\<rparr>) t"
    "queued m (eth_header (m + 94) mac ETHTYPE_IP ?e) (?s\<lparr>mem := eth_header (m + 94) mac ETHTYPE_IP ?e\<rparr>) t"
    using e1000_cache_only_sent [of "?s\<lparr>mem := eth_header (m + 94) mac ETHTYPE_IP ?e\<rparr>" m] assms(1)
    by (auto simp: can_queue_def)
  ultimately have "net_tx_eth m ETHTYPE_IP (net_ip_route dip) 0 ?s = Some t" "only_sent s t"
    "queued m (ip_packet m proto dip mac (mem s)) s t"
    using e by (auto simp: net_tx_eth_def numeral_2_eq_2 ARP_OP_REQUEST_def only_sent_def queued_def ip_packet_def Let_def)
  then show ?thesis using d(1) mac(2) by (auto simp: net_tx_ip_def Let_def)
qed

lemma net_tx_tcp_signal_only_sent:
  assumes "can_send s"
  shows "\<exists>t. net_tx_tcp_signal si seq ack flags s = Some t \<and> only_sent s t \<and> segment_queued (socks s si) seq ack flags s t"
proof -
  obtain m M F R where a: "mbufalloc MBUF_DEFAULT_HEADROOM s = Some (m, s\<lparr>mem := M, freelist := F, ref_cnt := R\<rparr>)"
    "m \<noteq> 0" "m < PHYSTOP" "m \<in> avail s" "mb_head m M = m + 148"
    using mbufalloc_grants [of s] assms by (auto simp: can_send_def)
  let ?s = "s\<lparr>mem := M, freelist := F, ref_cnt := R\<rparr>" and ?k = "socks s si"
  let ?h = "tcp_header (m + 128) ?k seq ack flags"
  obtain d where d: "mbufpush m 20 M = Some (m + 128, d)" "mb_head m d = m + 128"
    using mbufpush_eq [OF a(5,3), of 20] by simp
  let ?d = "or_mb_offload m MBUF_CSUM_OFLD_TCP (?h d)"
  have "arp_map (?s\<lparr>mem := ?d\<rparr>) = arp_map s" by (simp add: arp_map_def arp_entries_def fun_eq_iff)
  then have "can_queue (?s\<lparr>mem := ?d\<rparr>)" using assms by (simp add: can_send_def can_queue_def)
  moreover have h: "mb_head m (mem (?s\<lparr>mem := ?d\<rparr>)) = m + 128" using d(2) by (simp add: tcp_header_head)
  ultimately obtain t mac where t: "net_tx_ip m IPPROTO_TCP (sk_raddr ?k) (?s\<lparr>mem := ?d\<rparr>) = Some t" "only_sent (?s\<lparr>mem := ?d\<rparr>) t"
      "length mac = ETHADDR_LEN" "queued m (ip_packet m IPPROTO_TCP (sk_raddr ?k) mac ?d) (?s\<lparr>mem := ?d\<rparr>) t"
    using net_tx_ip_only_sent [of "?s\<lparr>mem := ?d\<rparr>" m IPPROTO_TCP "sk_raddr ?k", OF _ _ a(3)] h by auto
  have o: "ld16 ?d (m + c) = ld16 (?h d) (m + c)" "ld32 ?d (m + c) = ld32 (?h d) (m + c)" "?d (m + c) = ?h d (m + c)"
    if "unat c < 145" for c
    using that by (auto simp: or_mb_offload_def read_apart offs_apart_def)
  have "segment_to m ?k seq ack flags (ip_packet m IPPROTO_TCP (sk_raddr ?k) mac ?d)"
    using tcp_header_reads [of "m + 128" ?k seq ack flags d]
    by (simp add: segment_to_def ip_packet_fields [OF t(3)] ip_packet_keeps [OF t(3)] o add.assoc)
  then have "segment_queued ?k seq ack flags s t"
    using t(4) a(4) by (auto simp: segment_queued_def queued_def)
  then show ?thesis
    using a(1,2) d(1) t(1,2) by (auto simp: net_tx_tcp_signal_def net_tx_tcp_content_def only_sent_def)
qed

section \<open>Opening a connection\<close>

definition seg_seq :: "u64 \<Rightarrow> 'a kmem_scheme \<Rightarrow> u32" where "seg_seq h s = bswapl (ld32 (mem s) (h + 4))"
definition seg_ack :: "u64 \<Rightarrow> 'a kmem_scheme \<Rightarrow> u32" where "seg_ack h s = bswapl (ld32 (mem s) (h + 8))"
definition seg_win :: "u64 \<Rightarrow> 'a kmem_scheme \<Rightarrow> u16" where "seg_win h s = bswaps (ld16 (mem s) (h + 14))"

definition bare_ack :: "u64 \<Rightarrow> tcp_cb \<Rightarrow> 'a kmem_scheme \<Rightarrow> bool" where
  \<comment> \<open>the segment at \<open>h\<close> carries the flag \<open>ACK\<close> alone, acknowledges all that the block \<open>c\<close> has sent, comes
      next in sequence and announces an open window\<close>
  "bare_ack h c s \<longleftrightarrow> flag_set h ACK s \<and> \<not> flag_set h SYN s \<and> \<not> flag_set h RST s \<and> \<not> flag_set h FIN s \<and>
     seg_ack h s = snd_nxt c \<and> seg_seq h s = rcv_nxt c \<and> 0 < seg_win h s"

lemma set_cb_simps [simp]:
  "cb_of si (set_cb si f s) = f (cb_of si s)" "x \<noteq> si \<Longrightarrow> socks (set_cb si f s) x = socks s x"
  "mem (set_cb si f s) = mem s" "lk (set_cb si f s) = lk s" "procs (set_cb si f s) = procs s" "curp (set_cb si f s) = curp s"
  "flag_set h b (set_cb si f s) = flag_set h b s" "wakeable (set_cb si f s) = wakeable s"
  "set_cb si f (set_cb si g s) = set_cb si (\<lambda>c. f (g c)) s" "rand_next (set_cb si f s) = rand_next s"
  by (simp_all add: set_cb_def set_sock_def cb_of_def flag_set_def wakeable_def)

lemma can_send_upd [simp]: "can_send (set_cb si f s) = can_send s" "can_send (s\<lparr>rand_next := r\<rparr>) = can_send s"
proof -
  show "can_send (set_cb si f s) = can_send s"
    unfolding can_send_def kinv_def lists_ok_def cpu_idle_def avail_def page_ok_def can_queue_def arp_map_def arp_entries_def
    by (simp add: set_cb_def set_sock_def)
  show "can_send (s\<lparr>rand_next := r\<rparr>) = can_send s"
    unfolding can_send_def kinv_def lists_ok_def cpu_idle_def avail_def page_ok_def can_queue_def arp_map_def arp_entries_def
    by simp
qed

lemma segment_queued_upd:
  "segment_queued k seq ack flags (set_cb si f s) t = segment_queued k seq ack flags s t"
  "segment_queued k seq ack flags (s\<lparr>rand_next := r\<rparr>) t = segment_queued k seq ack flags s t"
  "segment_queued k seq ack flags s (set_cb si f t) = segment_queued k seq ack flags s t"
  by (simp_all add: segment_queued_def queued_def avail_def page_ok_def set_cb_def set_sock_def)

lemma segment_queued_cong:
  "sk_raddr k = sk_raddr j \<Longrightarrow> sk_lport k = sk_lport j \<Longrightarrow> sk_rport k = sk_rport j \<Longrightarrow>
     segment_queued k seq ack flags s t = segment_queued j seq ack flags s t"
  by (simp add: segment_queued_def segment_to_def)

lemma listen_syn:
  assumes "can_send s" "cb_state (cb_of si s) = LISTEN" "flag_set h SYN s" "\<not> flag_set h ACK s" "\<not> flag_set h RST s"
  defines "iss \<equiv> of_int (do_rand (rand_next s)) :: u32"
  shows "\<exists>t. tcp_segments_arrives si h m ra lp rp len s = Some t \<and>
    cb_of si t = (cb_of si s)\<lparr>cb_state := SYN_RCVD, cb_irs := seg_seq h s, rcv_nxt := seg_seq h s + 1, cb_iss := iss,
      snd_una := iss, snd_nxt := iss + 1, rcv_wnd := seg_win h s\<rparr> \<and> (\<forall>x. x \<noteq> si \<longrightarrow> socks t x = socks s x) \<and>
    lk t = lk s \<and> curp t = curp s \<and> segment_queued (socks s si) iss (seg_seq h s + 1) (SYN OR ACK) s t"
proof -
  let ?r = "do_rand (rand_next s)"
  let ?s = "set_cb si (\<lambda>c. c\<lparr>rcv_wnd := seg_win h s, rcv_nxt := seg_seq h s + 1, cb_irs := seg_seq h s\<rparr>) s"
  let ?a = "set_cb si (\<lambda>c. c\<lparr>cb_iss := iss\<rparr>) (?s\<lparr>rand_next := of_int ?r\<rparr>)"
  have "can_send ?a" using assms(1) by simp
  then obtain t where t: "net_tx_tcp_signal si iss (seg_seq h s + 1) (SYN OR ACK) ?a = Some t" "only_sent ?a t"
    "segment_queued (socks ?a si) iss (seg_seq h s + 1) (SYN OR ACK) ?a t"
    using net_tx_tcp_signal_only_sent by blast
  let ?u = "set_cb si (\<lambda>c. c\<lparr>snd_nxt := cb_iss c + 1, snd_una := cb_iss c, cb_state := SYN_RCVD\<rparr>) t"
  have c: "cb_of si t = (cb_of si s)\<lparr>rcv_wnd := seg_win h s, rcv_nxt := seg_seq h s + 1, cb_irs := seg_seq h s, cb_iss := iss\<rparr>"
    using only_sentD(1) [OF t(2)] by (simp add: cb_of_def set_cb_def set_sock_def)
  have "tcp_segments_arrives si h m ra lp rp len s = Some ?u"
    using assms(2-5) t(1)
    by (simp add: tcp_segments_arrives_def tcp_listen_def Let_def CLOSED_def LISTEN_def rand_def iss_def
        seg_seq_def seg_win_def cong: if_cong)
       (simp add: cb_of_def set_cb_def set_sock_def)
  moreover have "socks ?u x = socks s x" if "x \<noteq> si" for x
    using only_sentD(1) [OF t(2)] that by (simp add: set_cb_def set_sock_def)
  moreover have "lk ?u = lk s \<and> curp ?u = curp s" using only_sentD(2,4) [OF t(2)] by simp
  moreover have "segment_queued (socks s si) iss (seg_seq h s + 1) (SYN OR ACK) s ?u"
  proof (rule segment_queued_cong [THEN iffD1])
    show "segment_queued (socks ?a si) iss (seg_seq h s + 1) (SYN OR ACK) s ?u"
      using t(3) by (simp add: segment_queued_upd)
  qed (simp_all add: set_cb_def set_sock_def)
  ultimately show ?thesis using c by (intro exI [of _ ?u]) simp
qed

lemma upd_procs_net [simp]:
  "cb_of si (upd_procs P s) = cb_of si s" "set_cb si f (upd_procs P s) = upd_procs P (set_cb si f s)"
  "flag_set h b (upd_procs P s) = flag_set h b s"
  by (simp_all add: cb_of_def set_cb_def set_sock_def upd_procs_def flag_set_def)

lemma synrcvd_ack:
  assumes "wakeable s" "cb_state (cb_of si s) = SYN_RCVD" "bare_ack h (cb_of si s) s"
    and "snd_una (cb_of si s) < snd_nxt (cb_of si s)" "unat (rcv_nxt (cb_of si s)) + unat (seg_win h s) < 2 ^ 32"
  shows "\<exists>t. tcp_segments_arrives si h m ra lp rp 0 s = Some t \<and>
    cb_of si t = (cb_of si s)\<lparr>cb_state := ESTABLISHED, snd_una := snd_nxt (cb_of si s), rcv_wnd := seg_win h s\<rparr> \<and>
    procs t = wake (tcb_chan si) (curp s) (procs s)"
proof -
  let ?s = "set_cb si (\<lambda>c. c\<lparr>rcv_wnd := seg_win h s\<rparr>) s"
  have b: "flag_set h ACK s" "\<not> flag_set h SYN s" "\<not> flag_set h RST s" "\<not> flag_set h FIN s"
      "seg_ack h s = snd_nxt (cb_of si s)" "seg_seq h s = rcv_nxt (cb_of si s)" "0 < seg_win h s"
      "unat (rcv_nxt (cb_of si s)) + unat (seg_win h s) < 2 ^ 32"
    using assms(3,5) by (simp_all add: bare_ack_def)
  have w: "unat (ucast (seg_win h s) :: u32) = unat (seg_win h s)"
    using unat_bound [of "seg_win h s"] by (simp add: unsigned_ucast_eq take_bit_nat_eq_self)
  have "rcv_nxt (cb_of si s) < rcv_nxt (cb_of si s) + ucast (seg_win h s)"
    using b(7,8) w by (simp add: word_less_nat_alt unat_word_ariths mod_less)
  then have acc: "acceptable (cb_of si ?s) (seg_seq h s) 0" using b(6,7) by (simp add: acceptable_def in_window_def)
  have wk: "wakeup (tcb_chan si) (set_state si ESTABLISHED ?s) =
      Some (upd_procs (wake (tcb_chan si) (curp s) (procs s)) (set_state si ESTABLISHED ?s))"
    using wakeup_spec [of "set_state si ESTABLISHED ?s" "tcb_chan si"] assms(1) by (simp add: wakeable_def set_state_def)
  have "tcp_segments_arrives si h m ra lp rp 0 s = tcp_synchronized si h m ra lp rp (seg_seq h s) (seg_ack h s) 0 ?s"
    using assms(2) by (simp add: tcp_segments_arrives_def Let_def SYN_RCVD_def CLOSED_def LISTEN_def SYN_SENT_def
        seg_seq_def seg_ack_def seg_win_def)
  then show ?thesis
    using acc b assms(2,4) wk
    by (simp add: tcp_synchronized_def Let_def tcp_ack_def tcp_ack_data_def tcp_text_def tcp_fin_def set_state_def
        SYN_RCVD_def ESTABLISHED_def FIN_WAIT1_def FIN_WAIT2_def CLOSING_def order.strict_implies_order)
qed

text \<open>C35: A listening socket that gets a \<open>SYN\<close> answers, whenever a page is free and the gateway is known:
  a segment to the peer with the flags \<open>SYN\<close> and \<open>ACK\<close>, a fresh sequence number and the acknowledgement
  of the \<open>SYN\<close> joins the queue of the card, and the socket waits with the sequence number of the peer
  plus one.  The \<open>ACK\<close> of this answer, whatever has happened to other sockets meanwhile, completes the
  connection and wakes the process that waits in \<open>accept\<close>, provided the window it announces does not
  carry the sequence number past \<open>2 ^ 32\<close>: the code compares both ends of the window as plain numbers.\<close>
theorem passive_open_establishes:
  fixes s :: "'a knet_scheme"
  assumes "can_send s" "cb_state (cb_of si s) = LISTEN" "flag_set h SYN s" "\<not> flag_set h ACK s" "\<not> flag_set h RST s"
  shows "\<exists>t. tcp_segments_arrives si h m ra lp rp len s = Some t \<and>
    segment_queued (socks s si) (cb_iss (cb_of si t)) (seg_seq h s + 1) (SYN OR ACK) s t \<and>
    snd_una (cb_of si t) = cb_iss (cb_of si t) \<and> snd_nxt (cb_of si t) = cb_iss (cb_of si t) + 1 \<and>
    cb_state (cb_of si t) = SYN_RCVD \<and>
    rcv_nxt (cb_of si t) = seg_seq h s + 1 \<and> (\<forall>x. x \<noteq> si \<longrightarrow> socks t x = socks s x) \<and>
    lk t = lk s \<and> curp t = curp s \<and>
    (\<forall>(u :: 'a knet_scheme) h' m'. cb_of si u = cb_of si t \<and> wakeable u \<and> bare_ack h' (cb_of si t) u \<and>
        unat (seg_seq h s + 1) + unat (seg_win h' u) < 2 ^ 32 \<longrightarrow>
      (\<exists>v. tcp_segments_arrives si h' m' ra lp rp 0 u = Some v \<and> cb_state (cb_of si v) = ESTABLISHED \<and>
         snd_una (cb_of si v) = snd_nxt (cb_of si v) \<and> rcv_nxt (cb_of si v) = seg_seq h s + 1 \<and>
         procs v = wake (tcb_chan si) (curp u) (procs u)))"
proof -
  define iss :: u32 where "iss = of_int (do_rand (rand_next s))"
  obtain t where t: "tcp_segments_arrives si h m ra lp rp len s = Some t"
    "cb_of si t = (cb_of si s)\<lparr>cb_state := SYN_RCVD, cb_irs := seg_seq h s, rcv_nxt := seg_seq h s + 1, cb_iss := iss,
      snd_una := iss, snd_nxt := iss + 1, rcv_wnd := seg_win h s\<rparr>" "\<forall>x. x \<noteq> si \<longrightarrow> socks t x = socks s x"
    "lk t = lk s" "curp t = curp s" "segment_queued (socks s si) iss (seg_seq h s + 1) (SYN OR ACK) s t"
    using listen_syn [OF assms, of m ra lp rp len] unfolding iss_def by blast
  have "unat iss \<le> 0x7ffffffd"
    using do_rand_range [of "rand_next s"] by (simp add: iss_def unat_eq_nat_uint uint_word_of_int nat_le_iff mod_pos_pos_trivial)
  then have "iss < iss + 1" by (simp add: word_less_nat_alt unat_word_ariths mod_less)
  then show ?thesis using t synrcvd_ack [of _ si] by (intro exI [of _ t]) force
qed

definition peer :: sock where
  "peer = zero_sock\<lparr>sk_cb := zero_cb\<lparr>rcv_wnd := 8\<rparr>\<rparr>"

definition listening :: knet where
  \<comment> \<open>one free page, a known gateway, every socket listening, and a \<open>SYN\<close> segment at address \<open>0x1000\<close>\<close>
  "listening = net_machine\<lparr>kend := demo_page, freelist := (\<lambda>i. if i = 0 then demo_page else 0), ref_cnt := (\<lambda>_. 0),
     mem := tcp_header 0x1000 peer 1000 0 SYN (\<lambda>_. 0), free_arp_idx := 1,
     arp_cache := (\<lambda>_. \<lparr>ae_ip = MAKE_IP_ADDR 10 0 2 2, ae_mac = [0x52, 0x55, 0x0a, 0, 2, 2]\<rparr>),
     socks := (\<lambda>_. zero_sock\<lparr>sk_cb := zero_cb\<lparr>cb_state := LISTEN\<rparr>\<rparr>)\<rparr>"

lemma listening_simps:
  "kend listening = demo_page" "freelist listening = (\<lambda>i. if i = 0 then demo_page else 0)" "ref_cnt listening = (\<lambda>_. 0)"
  "mem listening = tcp_header 0x1000 peer 1000 0 SYN (\<lambda>_. 0)" "lk listening = (\<lambda>_. None)" "cpuid listening = 0"
  "cb_of si listening = zero_cb\<lparr>cb_state := LISTEN\<rparr>" "arp_entries listening = 1" "curp listening = 0"
  "ae_ip (arp_cache listening i) = MAKE_IP_ADDR 10 0 2 2" "length (ae_mac (arp_cache listening i)) = ETHADDR_LEN"
  by (simp_all add: listening_def cb_of_def arp_entries_def ARP_MAX_ENTRIES_def ETHADDR_LEN_def)

lemma listening_can_send: "can_send listening"
proof -
  have ok: "page_ok listening p \<longleftrightarrow> p = demo_page" for p
    using demo_mem_facts(1) [of p] by (simp add: page_ok_def listening_simps demo_mem_def demo_boot_def)
  then have av: "avail listening = {demo_page}" by (auto simp: avail_def listening_simps)
  have "ld64 (mem listening) demo_page = ld64 (\<lambda>_. 0) demo_page"
    unfolding listening_simps tcp_header_def Let_def
    by (simp add: read_apart [where m = 0, simplified] offs_apart_def demo_page_def)
  then have z: "ld64 (mem listening) demo_page = 0" by (simp add: ld64_def ldn_all_zero)
  have "lists_ok listening (\<lambda>i. if i = 0 then [demo_page] else [])"
  proof (rule lists_okI)
    show "flist (mem listening) (freelist listening i) (if i = 0 then [demo_page] else [])" for i
      using z by (simp add: listening_simps(2)) (simp add: demo_page_def)
  qed (auto simp: ok listening_simps demo_page_def PHYSTOP_eq split: if_splits)
  moreover have "listed (\<lambda>i. if i = 0 then [demo_page] else []) = {demo_page}"
    by (auto simp: listed_def NCPU_def split: if_splits)
  ultimately have "kinv listening" unfolding kinv_def av by blast
  then show ?thesis
    using av by (simp add: can_send_def can_queue_def cpu_idle_def listening_simps arp_map_def NCPU_def demo_page_def PHYSTOP_eq)
qed

lemma ack_segment:
  assumes "snd_nxt c = a" "rcv_nxt c = 1001"
  shows "bare_ack 0x1000 c (s\<lparr>mem := tcp_header 0x1000 peer 1001 a ACK d\<rparr>) \<and>
    unat (seg_win 0x1000 (s\<lparr>mem := tcp_header 0x1000 peer 1001 a ACK d\<rparr>)) < 65536"
  using tcp_header_reads(3-6) [of "0x1000" peer 1001 a ACK d]
    unat_bound [of "seg_win 0x1000 (s\<lparr>mem := tcp_header 0x1000 peer 1001 a ACK d\<rparr>)"]
  by (simp add: bare_ack_def flag_set_def seg_ack_def seg_seq_def seg_win_def assms ACK_def SYN_def RST_def FIN_def
      peer_def bswaps_def)

theorem passive_open_establishes_witness:
  "\<exists>t v. tcp_segments_arrives 0x81000000 0x1000 0x81001000 0 0 0 0 listening = Some t \<and>
     tcp_segments_arrives 0x81000000 0x1000 0x81001000 0 0 0 0
       (t\<lparr>mem := tcp_header 0x1000 peer 1001 (snd_nxt (cb_of 0x81000000 t)) ACK (mem t)\<rparr>) = Some v \<and>
     cb_state (cb_of 0x81000000 v) = ESTABLISHED \<and>
     segment_queued zero_sock (cb_iss (cb_of 0x81000000 t)) 1001 (SYN OR ACK) listening t"
proof -
  have f: "flag_set 0x1000 SYN listening" "\<not> flag_set 0x1000 ACK listening" "\<not> flag_set 0x1000 RST listening"
    using tcp_header_reads(5) [of "0x1000" peer 1000 0 SYN "\<lambda>_. 0"]
    by (simp_all add: flag_set_def listening_simps SYN_def ACK_def RST_def)
  have q: "seg_seq 0x1000 listening = 1000"
    using tcp_header_reads(3) [of "0x1000" peer 1000 0 SYN "\<lambda>_. 0"] by (simp add: seg_seq_def listening_simps)
  have "cb_state (cb_of 0x81000000 listening) = LISTEN" by (simp add: listening_simps)
  from passive_open_establishes [OF listening_can_send this f, of "0x81001000" 0 0 0 0]
  obtain t where t: "tcp_segments_arrives 0x81000000 0x1000 0x81001000 0 0 0 0 listening = Some t"
    "rcv_nxt (cb_of 0x81000000 t) = 1001" "lk t = lk listening"
    "segment_queued (socks listening 0x81000000) (cb_iss (cb_of 0x81000000 t)) 1001 (SYN OR ACK) listening t"
    and est: "\<forall>(u :: knet) h' m'. cb_of 0x81000000 u = cb_of 0x81000000 t \<and> wakeable u \<and> bare_ack h' (cb_of 0x81000000 t) u \<and>
        unat (1000 + 1 :: u32) + unat (seg_win h' u) < 2 ^ 32 \<longrightarrow>
      (\<exists>v. tcp_segments_arrives 0x81000000 h' m' 0 0 0 0 u = Some v \<and> cb_state (cb_of 0x81000000 v) = ESTABLISHED \<and>
         snd_una (cb_of 0x81000000 v) = snd_nxt (cb_of 0x81000000 v) \<and> rcv_nxt (cb_of 0x81000000 v) = 1000 + 1 \<and>
         procs v = wake (tcb_chan 0x81000000) (curp u) (procs u))"
    unfolding q by auto
  let ?u = "t\<lparr>mem := tcp_header 0x1000 peer 1001 (snd_nxt (cb_of 0x81000000 t)) ACK (mem t)\<rparr>"
  have "cb_of 0x81000000 ?u = cb_of 0x81000000 t" by (simp add: cb_of_def)
  moreover have "wakeable ?u" using t(3) by (simp add: wakeable_def listening_simps)
  moreover have "bare_ack 0x1000 (cb_of 0x81000000 t) ?u \<and> unat (seg_win 0x1000 ?u) < 65536"
    by (rule ack_segment [OF refl t(2)])
  then have "bare_ack 0x1000 (cb_of 0x81000000 t) ?u \<and> unat (1000 + 1 :: u32) + unat (seg_win 0x1000 ?u) < 2 ^ 32" by simp
  ultimately obtain v where "tcp_segments_arrives 0x81000000 0x1000 0x81001000 0 0 0 0 ?u = Some v"
      "cb_state (cb_of 0x81000000 v) = ESTABLISHED"
    using est [rule_format, of ?u "0x1000" "0x81001000"] by blast
  moreover have "segment_queued zero_sock (cb_iss (cb_of 0x81000000 t)) 1001 (SYN OR ACK) listening t"
    by (rule segment_queued_cong [THEN iffD1, OF _ _ _ t(4)]) (simp_all add: listening_def)
  ultimately show ?thesis using t(1) by blast
qed

end
