(* ===== verification/ArpProps.thy ===== *)
theory ArpProps
  imports TcpProps
begin

text \<open>
  Properties of the handler for ARP packets (\<open>net_rx_arp\<close> of \<open>kernel/net.c\<close>): what it learns about the
  sender, what it leaves of the cache, and the reply to a request for this host.
\<close>

section \<open>The packet\<close>

definition arp_valid :: "u64 \<Rightarrow> bytes \<Rightarrow> bool" where
  \<comment> \<open>the buffer \<open>m\<close> stands behind its Ethernet header, as \<open>net_rx\<close> leaves it, and the ARP header is one for IP\<close>
  "arp_valid m d \<longleftrightarrow> mb_head m d = m + 34 \<and> 28 \<le> mb_len m d \<and> bswaps (ld16 d (m + 34)) = 1 \<and>
     bswaps (ld16 d (m + 36)) = ETHTYPE_IP \<and> d (m + 38) = of_nat ETHADDR_LEN \<and> d (m + 39) = 4"

definition arp_oper :: "u64 \<Rightarrow> bytes \<Rightarrow> u16" where "arp_oper m d = bswaps (ld16 d (m + 40))"
definition arp_smac :: "u64 \<Rightarrow> bytes \<Rightarrow> u8 list" where "arp_smac m d = get_list (m + 42) ETHADDR_LEN d"
definition arp_sip :: "u64 \<Rightarrow> bytes \<Rightarrow> u32" where "arp_sip m d = bswapl (ld32 d (m + 48))"
definition arp_tip :: "u64 \<Rightarrow> bytes \<Rightarrow> u32" where "arp_tip m d = bswapl (ld32 d (m + 58))"

definition arp_pulled :: "u64 \<Rightarrow> bytes \<Rightarrow> bytes" where
  \<comment> \<open>after the header has been taken off the buffer\<close>
  "arp_pulled m d = set_mb_head m (m + 34 + 28) (set_mb_len m (mb_len m d - 28) d)"

lemma arp_pull:
  assumes "arp_valid m d" shows "mbufpull m 28 d = (m + 34, arp_pulled m d)"
  using assms by (auto simp: arp_valid_def mbufpull_def arp_pulled_def Let_def not_less)

lemma get_list_6: "get_list a ETHADDR_LEN d = [d a, d (a + 1), d (a + 2), d (a + 3), d (a + 4), d (a + 5)]"
  by (simp add: get_list_def ETHADDR_LEN_def upt_rec)

lemma length_6: "length xs = ETHADDR_LEN \<Longrightarrow> \<exists>a b c d e f. xs = [a, b, c, d, e, f]"
  by (auto simp: ETHADDR_LEN_def numeral_eq_Suc length_Suc_conv)

lemma arp_pulled_reads:
  "ld16 (arp_pulled m d) (m + 34) = ld16 d (m + 34)" "ld16 (arp_pulled m d) (m + 36) = ld16 d (m + 36)"
  "ld16 (arp_pulled m d) (m + 40) = ld16 d (m + 40)" "ld32 (arp_pulled m d) (m + 48) = ld32 d (m + 48)"
  "ld32 (arp_pulled m d) (m + 58) = ld32 d (m + 58)" "arp_pulled m d (m + 38) = d (m + 38)"
  "arp_pulled m d (m + 39) = d (m + 39)" "get_list (m + 42) ETHADDR_LEN (arp_pulled m d) = get_list (m + 42) ETHADDR_LEN d"
  by (simp_all add: arp_pulled_def set_mb_head_def set_mb_len_def get_list_6 packet_reads offs_apart_def add.assoc)

section \<open>Sending a reply\<close>

definition arp_frame :: "u64 \<Rightarrow> u16 \<Rightarrow> u8 list \<Rightarrow> u32 \<Rightarrow> bytes \<Rightarrow> bool" where
  \<comment> \<open>the buffer \<open>m\<close> holds an Ethernet frame to \<open>mac\<close> with an ARP packet of this host for \<open>mac\<close> and \<open>ip\<close>\<close>
  "arp_frame m op mac ip d \<longleftrightarrow> mb_head m d = m + 134 \<and> mb_len m d = 42 \<and>
     get_list (m + 134) ETHADDR_LEN d = mac \<and> bswaps (ld16 d (m + 146)) = ETHTYPE_ARP \<and>
     bswaps (ld16 d (m + 154)) = op \<and> get_list (m + 156) ETHADDR_LEN d = local_mac \<and>
     bswapl (ld32 d (m + 162)) = local_ip \<and> get_list (m + 166) ETHADDR_LEN d = mac \<and> bswapl (ld32 d (m + 172)) = ip"

definition arp_bytes :: "u64 \<Rightarrow> u16 \<Rightarrow> u8 list \<Rightarrow> u32 \<Rightarrow> bytes \<Rightarrow> bytes" where
  "arp_bytes m op mac ip d =
     eth_header (m + 134) mac ETHTYPE_ARP
       (push_hdr m (m + 134) 14 (arp_header (m + 148) op mac ip (set_mb_len m 28 d)))"

lemma arp_bytes_frame:
  assumes "length mac = ETHADDR_LEN" shows "arp_frame m op mac ip (arp_bytes m op mac ip d)"
proof -
  obtain a b c d' e f where mac: "mac = [a, b, c, d', e, f]" using length_6 [OF assms] by blast
  note defs = arp_bytes_def push_hdr_def eth_header_def arp_header_def Let_def set_mb_len_def set_mb_head_def
    mb_head_def mb_len_def local_mac_def get_list_6
  show ?thesis
    unfolding arp_frame_def
    by (intro conjI; simp add: defs mac packet_reads offs_apart_def add.assoc)
qed

lemma mb_head_arp_header:
  assumes "length mac = ETHADDR_LEN" shows "mb_head m (arp_header (m + 148) op mac ip d) = mb_head m d"
proof -
  obtain a b c d' e f where mac: "mac = [a, b, c, d', e, f]" using length_6 [OF assms] by blast
  show ?thesis
    by (simp add: arp_header_def Let_def mb_head_def local_mac_def mac packet_reads offs_apart_def add.assoc)
qed

definition learns_only :: "'a knet_scheme \<Rightarrow> 'a knet_scheme \<Rightarrow> bool" where
  \<comment> \<open>what the transmission of a packet leaves alone\<close>
  "learns_only s t \<longleftrightarrow> lk t = lk s \<and> cpuid t = cpuid s \<and> kend t = kend s \<and> arp_cache t = arp_cache s \<and>
     free_arp_idx t = free_arp_idx s \<and> (\<forall>x. 1 \<le> ref_cnt s x \<longrightarrow> 1 \<le> ref_cnt t x)"

lemma e1000_cache_queues:
  assumes "lk s NicLock = None"
  shows "\<exists>t. e1000_cache m s = Some t \<and> learns_only s t \<and> queued m (mem s) s t"
proof -
  obtain q d where "mbufq_pushtail (nic_txq s) m (mem s) = (q, d)" by fastforce
  then show ?thesis
    using assms by (auto simp: e1000_cache_def kernel_simps learns_only_def queued_def fun_upd_idem Let_def)
qed

lemma net_tx_eth_reply:
  assumes "lk s ArpLock = None" "lk s NicLock = None" "arp_map s ip = Some mac" "mb_head m (mem s) = m + 148" "m < PHYSTOP"
  shows "\<exists>t. net_tx_eth m ETHTYPE_ARP ip ARP_OP_REPLY s = Some t \<and> learns_only s t \<and>
    queued m (eth_header (m + 134) mac ETHTYPE_ARP (push_hdr m (m + 134) 14 (mem s))) s t"
proof -
  let ?d = "push_hdr m (m + 134) 14 (mem s)"
  have d: "mbufpush m 14 (mem s) = Some (m + 134, ?d)"
    using mbufpush_eq [OF assms(4,5), of 14] by (simp add: push_hdr_def Let_def)
  let ?s = "s\<lparr>mem := eth_header (m + 134) mac ETHTYPE_ARP ?d\<rparr>"
  obtain t where "e1000_cache m ?s = Some t" "learns_only ?s t" "queued m (mem ?s) ?s t"
    using e1000_cache_queues [of ?s m] assms(2) by auto
  then show ?thesis
    using d arp_lookup_eq [OF assms(1), of ip] assms(3)
    by (auto simp: net_tx_eth_def numeral_2_eq_2 ARP_OP_REQUEST_def ARP_OP_REPLY_def learns_only_def queued_def)
qed

lemma net_tx_arp_reply:
  assumes "kinv s" "cpu_idle s" "avail s \<noteq> {}" "KERNBASE \<le> kend s" "lk s ArpLock = None" "lk s NicLock = None"
    and "arp_map s ip = Some mac" "length mac = ETHADDR_LEN"
  shows "\<exists>t m d. net_tx_arp net_tx_eth ARP_OP_REPLY mac ip s = Some (0, t) \<and> m \<in> avail s \<and>
    arp_frame m ARP_OP_REPLY mac ip d \<and> queued m d s t \<and> learns_only s t"
proof -
  obtain m M F R where a: "mbufalloc MBUF_DEFAULT_HEADROOM s = Some (m, s\<lparr>mem := M, freelist := F, ref_cnt := R\<rparr>)"
    "m \<noteq> 0" "m < PHYSTOP" "m \<in> avail s" "mb_head m M = m + 148" "mb_len m M = 0" "R = (ref_cnt s)(COW_REFIDX m := 1)"
    using mbufalloc_grants [OF assms(1-4)] by auto
  let ?d = "set_mb_len m 28 M"
  have d: "mbufput m 28 M = Some (m + 148, ?d)"
    using a(5,6) by (simp add: mbufput_def Let_def mb_len_def set_mb_len_def MBUF_SIZE_def)
  let ?s = "s\<lparr>freelist := F, ref_cnt := R, mem := arp_header (m + 148) ARP_OP_REPLY mac ip ?d\<rparr>"
  have "arp_map ?s ip = Some mac" using assms(7) by (simp add: arp_map_def arp_entries_def)
  moreover have "mb_head m (mem ?s) = m + 148" using a(5) by (simp add: mb_head_arp_header [OF assms(8)])
  ultimately obtain t where t: "net_tx_eth m ETHTYPE_ARP ip ARP_OP_REPLY ?s = Some t" "learns_only ?s t"
      "queued m (arp_bytes m ARP_OP_REPLY mac ip M) ?s t"
    using net_tx_eth_reply [of ?s ip mac m] assms(5,6) a(3) by (auto simp: arp_bytes_def)
  have "net_tx_arp net_tx_eth ARP_OP_REPLY mac ip s = Some (0, t)"
    using a(1,2) d t(1) by (simp add: net_tx_arp_def)
  moreover have "learns_only s t" using t(2) a(7) by (auto simp: learns_only_def)
  moreover have "queued m (arp_bytes m ARP_OP_REPLY mac ip M) s t" using t(3) by (simp add: queued_def)
  ultimately show ?thesis using a(4) arp_bytes_frame [OF assms(8)] by blast
qed

section \<open>The handler\<close>

lemma arpq_remove_none:
  assumes "arpq_find pos ip (arpq_at s) = Some 0" shows "arpq_remove pre pos ip s = Some s"
proof -
  have "r = 0 \<longrightarrow> q = arpq_at s \<longrightarrow> (\<forall>pre. arpq_remove pre pos ip s = Some s)" if "arpq_find pos ip q = Some r" for q r
  proof (rule arpq_find.raw_induct [where P = "\<lambda>pos ip q r. r = 0 \<longrightarrow> q = arpq_at s \<longrightarrow> (\<forall>pre. arpq_remove pre pos ip s = Some s)", OF _ that])
    fix find :: "u64 \<Rightarrow> u32 \<Rightarrow> (u64 \<Rightarrow> arpq) \<Rightarrow> u64 option" and pos ip q r
    assume IH: "\<And>pos ip q r. find pos ip q = Some r \<Longrightarrow>
        r = 0 \<longrightarrow> q = arpq_at s \<longrightarrow> (\<forall>pre. arpq_remove pre pos ip s = Some s)"
      and step: "(if pos = 0 then Some 0 else if aq_ip (q pos) = ip then Some pos else find (aq_next (q pos)) ip q) = Some r"
    show "r = 0 \<longrightarrow> q = arpq_at s \<longrightarrow> (\<forall>pre. arpq_remove pre pos ip s = Some s)"
    proof (intro impI allI)
      fix pre assume z: "r = 0" "q = arpq_at s"
      consider "pos = 0" | "pos \<noteq> 0" "aq_ip (q pos) \<noteq> ip" "find (aq_next (q pos)) ip q = Some r"
        using step z(1) by (auto split: if_splits)
      then show "arpq_remove pre pos ip s = Some s"
      proof cases
        case 2
        then have "arpq_remove pos (aq_next (q pos)) ip s = Some s" using IH [OF 2(3)] z by blast
        then show ?thesis using 2 z by (subst arpq_remove.simps) simp
      qed (subst arpq_remove.simps, simp)
    qed
  qed
  then show ?thesis using assms by blast
qed

definition arp_reply_queued :: "u8 list \<Rightarrow> u32 \<Rightarrow> 'a knet_scheme \<Rightarrow> 'a knet_scheme \<Rightarrow> bool" where
  \<comment> \<open>between \<open>s\<close> and \<open>u\<close> a reply to this sender, in a page that was free, has been given to the card\<close>
  "arp_reply_queued mac ip s u \<longleftrightarrow> (\<exists>m d. m \<in> avail s \<and> arp_frame m ARP_OP_REPLY mac ip d \<and> queued m d s u)"

lemma arp_map_freed [simp]: "arp_map (freed m s) = arp_map s" "lk (freed m s) = lk s"
  by (simp_all add: arp_map_def arp_entries_def freed_def Let_def fun_eq_iff)

lemma buffer_freed:
  assumes "learns_only s u" "cpu_idle s" "page_ok s m" "1 \<le> ref_cnt s (COW_REFIDX m)"
  shows "mbuffree m u = Some (freed m u)" "arp_map (freed m u) = arp_map s" "lk (freed m u) = lk s"
proof -
  have "cpu_idle u" "page_ok u m" "1 \<le> ref_cnt u (COW_REFIDX m)" "lk u = lk s" "arp_map u = arp_map s"
    using assms by (simp_all add: learns_only_def cpu_idle_def page_ok_def arp_map_def arp_entries_def fun_eq_iff)
  then show "mbuffree m u = Some (freed m u)" "arp_map (freed m u) = arp_map s" "lk (freed m u) = lk s"
    using kfree_eq [of u m] by (simp_all add: mbuffree_def)
qed

definition arp_ready :: "u64 \<Rightarrow> 'a knet_scheme \<Rightarrow> bool" where
  \<comment> \<open>what the handler needs to answer or to record the packet of the buffer \<open>m\<close>, when it is for this host\<close>
  "arp_ready m s \<longleftrightarrow> (if arp_oper m (mem s) = ARP_OP_REQUEST then kinv s \<and> avail s \<noteq> {} \<and> lk s NicLock = None
     else lk s ArpqLock = None \<and> arpq_find (arpqs s) (arp_sip m (mem s)) (arpq_at s) = Some 0)"

lemma arp_answer:
  assumes "cpu_idle s" "KERNBASE \<le> kend s" "lk s ArpLock = None" "page_ok s m" "1 \<le> ref_cnt s (COW_REFIDX m)"
    and "arp_map s ip = Some mac" "length mac = ETHADDR_LEN"
    and "if req then kinv s \<and> avail s \<noteq> {} \<and> lk s NicLock = None
      else lk s ArpqLock = None \<and> arpq_find (arpqs s) ip (arpq_at s) = Some 0"
  shows "\<exists>u. (if req then do { (_, s) \<leftarrow> net_tx_arp net_tx_eth ARP_OP_REPLY mac ip s; Some s } else send_remove_arpq ip s) = Some u \<and>
    mbuffree m u = Some (freed m u) \<and> arp_map (freed m u) = arp_map s \<and> lk (freed m u) = lk s \<and>
    (req \<longrightarrow> arp_reply_queued mac ip s u)"
proof (cases req)
  case True
  then obtain t m' d where "net_tx_arp net_tx_eth ARP_OP_REPLY mac ip s = Some (0, t)" "m' \<in> avail s"
      "arp_frame m' ARP_OP_REPLY mac ip d" "queued m' d s t" "learns_only s t"
    using net_tx_arp_reply [of s ip mac] assms by auto
  then show ?thesis using True buffer_freed [of s t m] assms by (auto simp: arp_reply_queued_def)
next
  case False
  let ?a = "s\<lparr>noff := Suc (noff s), lk := (lk s)(ArpqLock \<mapsto> cpuid s)\<rparr>"
  have f: "lk s ArpqLock = None" "arpq_find (arpqs ?a) ip (arpq_at ?a) = Some 0" using False assms(8) by simp_all
  have "send_remove_arpq ip s = Some s"
    using f(1) arpq_remove_none [OF f(2), of 0] by (simp add: send_remove_arpq_def kernel_simps fun_upd_idem)
  then show ?thesis using False buffer_freed [of s s m] assms by (simp add: learns_only_def)
qed

definition arp_slot :: "'a knet_scheme \<Rightarrow> nat" where
  \<comment> \<open>the entry that the next new sender takes\<close>
  "arp_slot s = nat (free_arp_idx s mod int ARP_MAX_ENTRIES)"

lemma arp_merge:
  assumes "lk s ArpLock = None" "0 \<le> free_arp_idx s" "free_arp_idx s < 2 ^ 31 - 1"
  shows "\<exists>f C u C' I. update_arp ip mac s = Some (f, s\<lparr>arp_cache := C\<rparr>) \<and>
    arp_map (s\<lparr>arp_cache := C\<rparr>) = (if arp_map s ip = None then arp_map s else (arp_map s)(ip \<mapsto> mac)) \<and>
    (if f then Some (s\<lparr>arp_cache := C\<rparr>) else add_arp ip mac (s\<lparr>arp_cache := C\<rparr>)) = Some u \<and>
    u = s\<lparr>free_arp_idx := I, arp_cache := C'\<rparr> \<and> arp_map u ip = Some mac \<and>
    (\<forall>x. x \<noteq> ip \<and> (arp_map s ip \<noteq> None \<or> free_arp_idx s < int ARP_MAX_ENTRIES \<or> x \<noteq> ae_ip (arp_cache s (arp_slot s))) \<longrightarrow>
       arp_map u x = arp_map s x)"
proof (cases "arp_map s ip = None")
  case True
  from add_arp_adds [OF assms(1) True assms(2,3), of mac, folded arp_slot_def]
  obtain C I u where u: "u = s\<lparr>free_arp_idx := I, arp_cache := C\<rparr>" "add_arp ip mac s = Some u" "arp_map u ip = Some mac"
    "\<forall>x. x \<noteq> ip \<and> (free_arp_idx s < int ARP_MAX_ENTRIES \<or> x \<noteq> ae_ip (arp_cache s (arp_slot s))) \<longrightarrow> arp_map u x = arp_map s x"
    by blast
  then show ?thesis using True update_arp_unknown [OF assms(1) True, of mac]
    by (intro exI [of _ False] exI [of _ "arp_cache s"] exI [of _ u] exI [of _ C] exI [of _ I]) simp
next
  case False
  from update_arp_known [OF assms(1) False, of mac]
  obtain C where C: "update_arp ip mac s = Some (True, s\<lparr>arp_cache := C\<rparr>)" "arp_map (s\<lparr>arp_cache := C\<rparr>) = (arp_map s)(ip \<mapsto> mac)"
    by blast
  then show ?thesis using False
    by (intro exI [of _ True] exI [of _ C] exI [of _ "s\<lparr>arp_cache := C\<rparr>"] exI [of _ C] exI [of _ "free_arp_idx s"]) auto
qed

lemma kinv_own_page:
  assumes "kinv s" "page_ok s m" "1 \<le> ref_cnt s (COW_REFIDX m)" "\<And>a. \<not> in_range a m PGSIZE \<Longrightarrow> M a = mem s a"
  shows "kinv (s\<lparr>mem := M\<rparr>)"
proof -
  obtain F where F: "lists_ok s F" "listed F = avail s" using assms(1) by (auto simp: kinv_def)
  have "m \<notin> listed F" using assms(3) F(2) by (auto simp: avail_def)
  then have "lists_ok (s\<lparr>mem := M\<rparr>) F" by (rule lists_ok_page_write [OF F(1) assms(2) _ assms(4)])
  then show ?thesis using F(2) by (auto simp: kinv_def avail_def page_ok_def)
qed

lemma arp_pulled_own_page: "\<not> in_range a m PGSIZE \<Longrightarrow> arp_pulled m d a = d a"
proof -
  assume o: "\<not> in_range a m PGSIZE"
  have "m + c + of_nat i \<noteq> a" if "unat c + i < 4096" for c i
  proof
    assume "m + c + of_nat i = a"
    then have "a - m = c + of_nat i" by auto
    moreover have "unat (c + of_nat i) = unat c + i" using that by (intro unat_plus_small) simp
    ultimately show False using o that by (simp add: in_range_def PGSIZE_def)
  qed
  then show ?thesis
    unfolding arp_pulled_def set_mb_head_def set_mb_len_def st64_def st32_def
    by (subst stn_other, force simp: add.assoc)+ simp
qed

lemma net_rx_arp_eq:
  assumes valid: "arp_valid m (mem s)" and K: "KERNBASE \<le> kend s" "page_ok s m"
  defines "t \<equiv> s\<lparr>mem := arp_pulled m (mem s)\<rparr>" and "ip \<equiv> arp_sip m (mem s)" and "mac \<equiv> arp_smac m (mem s)"
  assumes merge: "update_arp ip mac t = Some (f, t\<lparr>arp_cache := C\<rparr>)"
    "(if f then Some (t\<lparr>arp_cache := C\<rparr>) else add_arp ip mac (t\<lparr>arp_cache := C\<rparr>)) = Some u" "mem u = mem t"
  shows "net_rx_arp m s =
    (if arp_tip m (mem s) \<noteq> local_ip then mbuffree m (t\<lparr>arp_cache := C\<rparr>)
     else do {
       s \<leftarrow> (if arp_oper m (mem s) = ARP_OP_REQUEST then do { (_, s) \<leftarrow> net_tx_arp net_tx_eth ARP_OP_REPLY mac ip u; Some s }
             else send_remove_arpq ip u);
       mbuffree m s })"
proof -
  have "unat (m + 34) = unat m + 34"
    using K unat_plus_small [of m 34] by (simp add: page_ok_def word_less_nat_alt PHYSTOP_eq)
  then have h: "m + 34 \<noteq> 0" by (metis add_is_0 unat_0 zero_neq_numeral)
  have v: "bswaps (ld16 (arp_pulled m (mem s)) (m + 34)) = 1" "bswaps (ld16 (arp_pulled m (mem s)) (m + 36)) = ETHTYPE_IP"
    "arp_pulled m (mem s) (m + 38) = of_nat ETHADDR_LEN" "arp_pulled m (mem s) (m + 39) = 4"
    using valid by (simp_all add: arp_valid_def arp_pulled_reads)
  have m: "update_arp ip mac (s\<lparr>mem := arp_pulled m (mem s)\<rparr>) = Some (f, s\<lparr>mem := arp_pulled m (mem s), arp_cache := C\<rparr>)"
    "(if f then Some (s\<lparr>mem := arp_pulled m (mem s), arp_cache := C\<rparr>)
      else add_arp ip mac (s\<lparr>mem := arp_pulled m (mem s), arp_cache := C\<rparr>)) = Some u" "mem u = arp_pulled m (mem s)"
    using merge unfolding t_def by simp_all
  show ?thesis
    using m h v
    unfolding net_rx_arp_def arp_pull [OF valid] Let_def ip_def mac_def t_def arp_smac_def arp_sip_def arp_tip_def arp_oper_def
    by (cases f) (simp_all add: arp_pulled_reads add.assoc)
qed

text \<open>C39: The handler of ARP packets learns from what it is sent.  It returns and frees the buffer.  A
  sender the cache knows gets the hardware address of the packet, whomever the packet is for; an unknown
  sender is entered when the packet is for this host, and not otherwise.  Every other address keeps its
  entry, but for the one whose slot a new sender takes in a full cache.  A request for this host is
  answered: a reply with the addresses of this host, sent to the hardware address of the sender, joins
  the queue of the card, whenever a page is free.  The hypotheses are about the packet, the locks and
  the index of the cache, which must be below its last \<open>int\<close>; for a reply, that no packet waits for the
  sender.\<close>
theorem net_rx_arp_learns:
  fixes s :: "'a knet_scheme" and m ip mac
  defines "ip \<equiv> arp_sip m (mem s)" and "mac \<equiv> arp_smac m (mem s)"
  assumes valid: "arp_valid m (mem s)" and idle: "cpu_idle s" "KERNBASE \<le> kend s" "lk s ArpLock = None"
    and buf: "page_ok s m" "1 \<le> ref_cnt s (COW_REFIDX m)"
    and idx: "0 \<le> free_arp_idx s" "free_arp_idx s < 2 ^ 31 - 1"
    and ready: "arp_tip m (mem s) = local_ip \<Longrightarrow> arp_ready m s"
  shows "\<exists>u t. net_rx_arp m s = Some t \<and> mbuffree m u = Some t \<and>
    arp_lookup ip t = Some (if arp_tip m (mem s) = local_ip \<or> arp_map s ip \<noteq> None then Some mac else None, t) \<and>
    (\<forall>x. x \<noteq> ip \<and> (arp_tip m (mem s) \<noteq> local_ip \<or> arp_map s ip \<noteq> None \<or>
          free_arp_idx s < int ARP_MAX_ENTRIES \<or> x \<noteq> ae_ip (arp_cache s (arp_slot s))) \<longrightarrow>
       arp_lookup x t = Some (arp_map s x, t)) \<and>
    (arp_tip m (mem s) = local_ip \<and> arp_oper m (mem s) = ARP_OP_REQUEST \<longrightarrow> arp_reply_queued mac ip s u)"
proof -
  let ?d = "arp_pulled m (mem s)"
  let ?s = "s\<lparr>mem := ?d\<rparr>" and ?req = "arp_oper m (mem s) = ARP_OP_REQUEST"
  have am: "arp_map ?s = arp_map s" by (simp add: arp_map_def arp_entries_def fun_eq_iff)
  have same: "lk ?s = lk s" "free_arp_idx ?s = free_arp_idx s" "arp_cache ?s = arp_cache s" "arp_slot ?s = arp_slot s"
    by (simp_all add: arp_slot_def)
  obtain f C u C' I where mg: "update_arp ip mac ?s = Some (f, ?s\<lparr>arp_cache := C\<rparr>)"
    "arp_map (?s\<lparr>arp_cache := C\<rparr>) = (if arp_map s ip = None then arp_map s else (arp_map s)(ip \<mapsto> mac))"
    "(if f then Some (?s\<lparr>arp_cache := C\<rparr>) else add_arp ip mac (?s\<lparr>arp_cache := C\<rparr>)) = Some u"
    "u = ?s\<lparr>free_arp_idx := I, arp_cache := C'\<rparr>" "arp_map u ip = Some mac"
    "\<forall>x. x \<noteq> ip \<and> (arp_map s ip \<noteq> None \<or> free_arp_idx s < int ARP_MAX_ENTRIES \<or> x \<noteq> ae_ip (arp_cache s (arp_slot s))) \<longrightarrow>
       arp_map u x = arp_map s x"
    using arp_merge [of ?s ip mac] idle(3) idx unfolding am same by blast
  have "mem u = mem ?s" using mg(4) by simp
  note eq = net_rx_arp_eq [OF valid idle(2) buf(1) mg(1,3) [unfolded ip_def mac_def] this, folded ip_def mac_def]
  show ?thesis
  proof (cases "arp_tip m (mem s) = local_ip")
    case False
    let ?u = "?s\<lparr>arp_cache := C\<rparr>"
    have f: "mbuffree m ?u = Some (freed m ?u)" "arp_map (freed m ?u) = arp_map ?u" "lk (freed m ?u) = lk s"
      using buffer_freed [of ?u ?u m] idle buf by (simp_all add: learns_only_def cpu_idle_def page_ok_def)
    have "net_rx_arp m s = Some (freed m ?u)" using False f(1) by (simp add: eq)
    then show ?thesis
      using False f mg(2) idle(3) by (intro exI [of _ ?u] exI [of _ "freed m ?u"]) (simp add: arp_lookup_eq)
  next
    case True
    have r: "if ?req then kinv s \<and> avail s \<noteq> {} \<and> lk s NicLock = None
        else lk s ArpqLock = None \<and> arpq_find (arpqs s) ip (arpq_at s) = Some 0"
      using ready [OF True] by (simp add: arp_ready_def ip_def)
    have k: "kinv ?s" if "kinv s" by (rule kinv_own_page [OF that buf]) (rule arp_pulled_own_page)
    have u: "kinv u = kinv ?s" "avail u = avail s" "lk u = lk s" "arpqs u = arpqs s" "arpq_at u = arpq_at s"
        "cpu_idle u = cpu_idle s" "kend u = kend s" "page_ok u m = page_ok s m" "ref_cnt u = ref_cnt s"
      by (simp_all add: mg(4) kinv_def avail_def page_ok_def lists_ok_def cpu_idle_def)
    have r': "if ?req then kinv u \<and> avail u \<noteq> {} \<and> lk u NicLock = None
        else lk u ArpqLock = None \<and> arpq_find (arpqs u) ip (arpq_at u) = Some 0"
      using r k by (simp add: u split: if_splits)
    have l: "length mac = ETHADDR_LEN" by (simp add: mac_def arp_smac_def get_list_def)
    have idle': "cpu_idle u" "KERNBASE \<le> kend u" "lk u ArpLock = None" "page_ok u m" "1 \<le> ref_cnt u (COW_REFIDX m)"
      using idle buf by (simp_all add: u)
    obtain v where v: "(if ?req then do { (_, s) \<leftarrow> net_tx_arp net_tx_eth ARP_OP_REPLY mac ip u; Some s }
        else send_remove_arpq ip u) = Some v"
      "mbuffree m v = Some (freed m v)" "arp_map (freed m v) = arp_map u" "lk (freed m v) = lk u"
      "?req \<longrightarrow> arp_reply_queued mac ip u v"
      using arp_answer [OF idle' mg(5) l r'] by blast
    have "net_rx_arp m s = Some (freed m v)" using True v(1,2) by (simp add: eq)
    moreover have "arp_lookup x (freed m v) = Some (arp_map u x, freed m v)" for x
      using v(3,4) idle(3) by (simp add: u arp_lookup_eq)
    moreover have "arp_reply_queued mac ip u v = arp_reply_queued mac ip s v"
      by (simp add: arp_reply_queued_def u queued_def) (simp add: mg(4))
    ultimately show ?thesis
      using True v(2,5) mg(5,6) by (intro exI [of _ v] exI [of _ "freed m v"]) simp
  qed
qed

definition asker_mac :: "u8 list" where "asker_mac = [0x52, 0x55, 0x0a, 0, 2, 2]"

definition arp_request :: "u64 \<Rightarrow> bytes" where
  \<comment> \<open>a request of 10.0.2.2 for this host in the buffer \<open>m\<close>\<close>
  "arp_request m =
     st32 (m + 48) (bswapl (MAKE_IP_ADDR 10 0 2 2)) (put_list (m + 42) asker_mac
       (arp_header (m + 34) ARP_OP_REQUEST broadcast_mac local_ip (set_mb_head m (m + 34) (set_mb_len m 28 (\<lambda>_. 0)))))"

lemma arp_request_facts:
  "arp_valid m (arp_request m)" "arp_oper m (arp_request m) = ARP_OP_REQUEST" "arp_smac m (arp_request m) = asker_mac"
  "arp_sip m (arp_request m) = MAKE_IP_ADDR 10 0 2 2" "arp_tip m (arp_request m) = local_ip"
  "ld64 (arp_request m) (m + 4096) = 0"
proof -
  note defs = arp_request_def arp_header_def Let_def set_mb_len_def set_mb_head_def mb_head_def mb_len_def local_mac_def
    get_list_6 broadcast_mac_def asker_mac_def
  show "arp_valid m (arp_request m)"
    unfolding arp_valid_def by (intro conjI; simp add: defs packet_reads offs_apart_def add.assoc)
  show "arp_oper m (arp_request m) = ARP_OP_REQUEST" "arp_smac m (arp_request m) = asker_mac"
    "arp_sip m (arp_request m) = MAKE_IP_ADDR 10 0 2 2" "arp_tip m (arp_request m) = local_ip"
    by (simp_all add: arp_oper_def arp_smac_def arp_sip_def arp_tip_def defs packet_reads offs_apart_def add.assoc)
  have "ld64 (arp_request m) (m + 4096) = ld64 (\<lambda>_. 0) (m + 4096)"
    by (simp add: defs packet_reads offs_apart_def add.assoc)
  then show "ld64 (arp_request m) (m + 4096) = 0" by (simp add: ld64_def ldn_all_zero)
qed

definition arp_buf :: u64 where "arp_buf = 0x87FFE000"

definition arp_machine :: knet where
  \<comment> \<open>two pages: the one with the packet, and a free one; an empty cache\<close>
  "arp_machine = net_machine\<lparr>kend := arp_buf, freelist := (\<lambda>i. if i = 0 then demo_page else 0),
     ref_cnt := (\<lambda>_. 0)(COW_REFIDX arp_buf := 1), free_arp_idx := 0, mem := arp_request arp_buf\<rparr>"

lemma arp_machine_simps:
  "kend arp_machine = arp_buf" "freelist arp_machine = (\<lambda>i. if i = 0 then demo_page else 0)"
  "ref_cnt arp_machine = (\<lambda>_. 0)(COW_REFIDX arp_buf := 1)" "mem arp_machine = arp_request arp_buf"
  "lk arp_machine = (\<lambda>_. None)" "cpuid arp_machine = 0" "free_arp_idx arp_machine = 0"
  by (simp_all add: arp_machine_def)

lemma arp_machine_page: "page_ok arp_machine p \<longleftrightarrow> p = arp_buf \<or> p = demo_page"
proof
  assume p: "page_ok arp_machine p"
  have K: "KERNBASE \<le> kend arp_machine" by (simp add: arp_machine_simps arp_buf_def PHYSTOP_eq)
  note u = page_ok_unat [OF K p]
  have "arp_buf \<le> p" using p by (simp add: page_ok_def arp_machine_simps)
  then have "2281693184 \<le> unat p" by (simp add: word_le_nat_alt arp_buf_def)
  moreover obtain k where k: "unat p = 4096 * k" using u(1) by (metis mod_0_imp_dvd dvd_def)
  ultimately have "557054 \<le> k" "k < 557056" using u by simp_all
  then have "k = 557054 \<or> k = 557055" by linarith
  then have "unat p = 2281693184 \<or> unat p = 2281697280" using k by auto
  then show "p = arp_buf \<or> p = demo_page" by (auto simp: word_unat_eq_iff arp_buf_def demo_page_def)
qed (auto simp: page_ok_def arp_machine_simps arp_buf_def demo_page_def PHYSTOP_eq)

lemma arp_machine_ready: "kinv arp_machine" "cpu_idle arp_machine" "avail arp_machine = {demo_page}"
proof -
  have "COW_REFIDX demo_page \<noteq> COW_REFIDX arp_buf"
    by (simp add: COW_REFIDX_eq demo_page_def arp_buf_def PHYSTOP_eq)
  then show av: "avail arp_machine = {demo_page}"
    by (auto simp: avail_def arp_machine_page arp_machine_simps)
  have "arp_buf + 4096 = demo_page" by (simp add: arp_buf_def demo_page_def)
  then have z: "ld64 (mem arp_machine) demo_page = 0" using arp_request_facts(6) [of arp_buf] by (simp add: arp_machine_simps)
  have "lists_ok arp_machine (\<lambda>i. if i = 0 then [demo_page] else [])"
  proof (rule lists_okI)
    show "flist (mem arp_machine) (freelist arp_machine i) (if i = 0 then [demo_page] else [])" for i
      using z by (simp add: arp_machine_simps(2)) (simp add: demo_page_def)
  qed (auto simp: arp_machine_page arp_machine_simps arp_buf_def PHYSTOP_eq split: if_splits)
  moreover have "listed (\<lambda>i. if i = 0 then [demo_page] else []) = {demo_page}"
    by (auto simp: listed_def NCPU_def split: if_splits)
  ultimately show "kinv arp_machine" unfolding kinv_def av by blast
  show "cpu_idle arp_machine" by (simp add: cpu_idle_def arp_machine_simps NCPU_def)
qed

theorem net_rx_arp_learns_witness:
  "\<exists>u t. net_rx_arp arp_buf arp_machine = Some t \<and> arp_lookup (MAKE_IP_ADDR 10 0 2 2) t = Some (Some asker_mac, t) \<and>
     arp_reply_queued asker_mac (MAKE_IP_ADDR 10 0 2 2) arp_machine u"
  using net_rx_arp_learns [of arp_buf arp_machine] arp_machine_ready
  by (simp add: arp_machine_simps arp_request_facts arp_machine_page arp_ready_def) (auto simp: arp_buf_def PHYSTOP_eq)

end
