(* ===== verification/SleepWake.thy ===== *)
theory SleepWake
  imports ProcProps
begin

text \<open>
  \<open>sleep\<close> and \<open>wakeup\<close> of \<open>kernel/proc.c\<close> under concurrency.  Up to \<open>NPROC\<close> processes run the monitor
  that the kernel uses \<open>sleep\<close> for: under a lock \<open>l\<close> one waits in a loop for a condition, another
  makes the condition true and wakes the sleepers.  Every statement of \<open>sleep\<close> and \<open>wakeup\<close> is a step of
  its own, taken from the lists by which \<open>Proc\<close> defines these functions, and the steps of the
  processes and of the scheduler interleave in any order.  Each process counts as one CPU: with fewer
  CPUs there are fewer interleavings.
\<close>

section \<open>Processes that sleep and wake\<close>

datatype swpc =
    Out | Crit | Leave   \<comment> \<open>without the lock, with it, about to release it\<close>
  | Prep nat             \<comment> \<open>at a statement of \<open>sleep\<close> before \<open>sched\<close>\<close>
  | Sched                \<comment> \<open>at \<open>sched\<close>\<close>
  | Parked | Picked      \<comment> \<open>switched out; the scheduler looks at it\<close>
  | Tail nat             \<comment> \<open>at a statement of \<open>sleep\<close> after \<open>sched\<close>\<close>
  | Wake nat nat         \<comment> \<open>in \<open>wakeup\<close>: the process it has come to, the statement of the body\<close>

record sw_sys =
  shared :: kproc
  nofs :: "nat \<Rightarrow> nat"     \<comment> \<open>\<open>noff\<close> of the CPU on which a process runs\<close>
  ready :: bool            \<comment> \<open>the condition\<close>
  swpc :: "nat \<Rightarrow> swpc"

definition goto :: "nat \<Rightarrow> swpc \<Rightarrow> sw_sys \<Rightarrow> sw_sys" where
  "goto p pc c = c\<lparr>swpc := (swpc c)(p := pc)\<rparr>"

definition on_cpu :: "nat \<Rightarrow> (kproc \<Rightarrow> kproc option) \<Rightarrow> sw_sys \<Rightarrow> sw_sys option" where
  \<comment> \<open>process \<open>p\<close>, or the scheduler on its CPU, executes a statement\<close>
  "on_cpu p f c =
     map_option (\<lambda>s. c\<lparr>shared := s, nofs := (nofs c)(p := noff s)\<rparr>) (f ((shared c)\<lparr>curp := p, cpuid := p, noff := nofs c p\<rparr>))"

inductive sw_step :: "chan \<Rightarrow> lockid \<Rightarrow> nat \<Rightarrow> nat \<Rightarrow> sw_sys \<Rightarrow> sw_sys \<Rightarrow> bool" for ch l n p where
  enter: "p < n \<Longrightarrow> swpc c p = Out \<Longrightarrow> on_cpu p (acquire l) c = Some d \<Longrightarrow> sw_step ch l n p c (goto p Crit d)"
| must_wait: \<comment> \<open>\<open>while(!ready) sleep(ch, l)\<close>\<close>
    "p < n \<Longrightarrow> swpc c p = Crit \<Longrightarrow> \<not> ready c \<Longrightarrow> sw_step ch l n p c (goto p (Prep 0) c)"
| consume: "p < n \<Longrightarrow> swpc c p = Crit \<Longrightarrow> ready c \<Longrightarrow> sw_step ch l n p c (goto p Leave (c\<lparr>ready := False\<rparr>))"
| produce: "p < n \<Longrightarrow> swpc c p = Crit \<Longrightarrow> sw_step ch l n p c (goto p (Wake 0 0) (c\<lparr>ready := True\<rparr>))"
| leave: "p < n \<Longrightarrow> swpc c p = Leave \<Longrightarrow> on_cpu p (release l) c = Some d \<Longrightarrow> sw_step ch l n p c (goto p Out d)"
| prep:
    "p < n \<Longrightarrow> swpc c p = Prep i \<Longrightarrow> on_cpu p (sleep_prep p ch l ! i) c = Some d \<Longrightarrow>
     sw_step ch l n p c (goto p (if Suc i < length (sleep_prep p ch l :: (kproc \<Rightarrow> kproc option) list) then Prep (Suc i) else Sched) d)"
| switch: \<comment> \<open>\<open>sched\<close>; the scheduler, which has come back from \<open>swtch\<close>, releases \<open>p->lock\<close>\<close>
    "p < n \<Longrightarrow> swpc c p = Sched \<Longrightarrow> on_cpu p (sched (release (ProcLock p))) c = Some d \<Longrightarrow> sw_step ch l n p c (goto p Parked d)"
| pick: "p < n \<Longrightarrow> swpc c p = Parked \<Longrightarrow> on_cpu p (acquire (ProcLock p)) c = Some d \<Longrightarrow> sw_step ch l n p c (goto p Picked d)"
| dispatch:
    "p < n \<Longrightarrow> swpc c p = Picked \<Longrightarrow> pstate (procs (shared c) p) = RUNNABLE \<Longrightarrow>
     on_cpu p (\<lambda>s. Some (set_proc p (\<lambda>x. x\<lparr>pstate := RUNNING\<rparr>) s)) c = Some d \<Longrightarrow> sw_step ch l n p c (goto p (Tail 0) d)"
| pass_over:
    "p < n \<Longrightarrow> swpc c p = Picked \<Longrightarrow> pstate (procs (shared c) p) \<noteq> RUNNABLE \<Longrightarrow>
     on_cpu p (release (ProcLock p)) c = Some d \<Longrightarrow> sw_step ch l n p c (goto p Parked d)"
| tail: \<comment> \<open>back to the test of the loop\<close>
    "p < n \<Longrightarrow> swpc c p = Tail i \<Longrightarrow> on_cpu p (sleep_tail p l ! i) c = Some d \<Longrightarrow>
     sw_step ch l n p c (goto p (if Suc i < length (sleep_tail p l :: (kproc \<Rightarrow> kproc option) list) then Tail (Suc i) else Crit) d)"
| wake:
    "p < n \<Longrightarrow> swpc c p = Wake q i \<Longrightarrow> q < NPROC \<Longrightarrow> q \<noteq> p \<Longrightarrow> on_cpu p (wakeup_one q ch ! i) c = Some d \<Longrightarrow>
     sw_step ch l n p c
       (goto p (if Suc i < length (wakeup_one q ch :: (kproc \<Rightarrow> kproc option) list) then Wake q (Suc i) else Wake (Suc q) 0) d)"
| wake_self: \<comment> \<open>\<open>p != myproc()\<close> fails\<close>
    "p < n \<Longrightarrow> swpc c p = Wake p 0 \<Longrightarrow> p < NPROC \<Longrightarrow> sw_step ch l n p c (goto p (Wake (Suc p) 0) c)"
| wake_done: "p < n \<Longrightarrow> swpc c p = Wake NPROC 0 \<Longrightarrow> sw_step ch l n p c (goto p Leave c)"

inductive_cases sw_stepE: "sw_step ch l n p c d"

definition sw_start :: "nat \<Rightarrow> sw_sys \<Rightarrow> bool" where
  "sw_start n c \<longleftrightarrow> lk (shared c) = (\<lambda>_. None) \<and> (\<forall>p < n. pstate (procs (shared c) p) = RUNNING) \<and>
     nofs c = (\<lambda>_. 0) \<and> (\<forall>p. swpc c p = Out)"

inductive sw_reach :: "chan \<Rightarrow> lockid \<Rightarrow> nat \<Rightarrow> sw_sys \<Rightarrow> bool" for ch l n where
  sw_begin: "sw_start n c \<Longrightarrow> sw_reach ch l n c"
| sw_more: "sw_reach ch l n c \<Longrightarrow> sw_step ch l n p c d \<Longrightarrow> sw_reach ch l n d"

section \<open>What a statement does\<close>

abbreviation slk :: "sw_sys \<Rightarrow> lockid \<Rightarrow> nat option" where "slk c \<equiv> lk (shared c)"
abbreviation sprocs :: "sw_sys \<Rightarrow> nat \<Rightarrow> proc" where "sprocs c \<equiv> procs (shared c)"

lemma goto_simps [simp]:
  "swpc (goto p pc c) = (swpc c)(p := pc)" "shared (goto p pc c) = shared c" "nofs (goto p pc c) = nofs c"
  "ready (goto p pc c) = ready c"
  by (simp_all add: goto_def)

definition same_rest :: "sw_sys \<Rightarrow> sw_sys \<Rightarrow> bool" where
  "same_rest c d \<longleftrightarrow> ready d = ready c \<and> swpc d = swpc c"

lemma on_cpu_acquire:
  "on_cpu p (acquire k) c = Some d \<Longrightarrow>
     slk c k = None \<and> slk d = (slk c)(k \<mapsto> p) \<and> nofs d = (nofs c)(p := Suc (nofs c p)) \<and> sprocs d = sprocs c \<and> same_rest c d"
  by (auto simp: on_cpu_def acquire_def push_off_def holding_def same_rest_def Let_def split: if_splits)

lemma on_cpu_release:
  "on_cpu p (release k) c = Some d \<Longrightarrow>
     slk c k = Some p \<and> slk d = (slk c)(k := None) \<and> nofs d = (nofs c)(p := nofs c p - 1) \<and> sprocs d = sprocs c \<and> same_rest c d"
  by (auto simp: on_cpu_def release_def pop_off_def holding_def same_rest_def split: if_splits)

lemma on_cpu_some:
  "on_cpu p (\<lambda>s. Some (f s)) c = Some d \<Longrightarrow> (\<And>s. lk (f s) = lk s) \<Longrightarrow> (\<And>s. noff (f s) = noff s) \<Longrightarrow>
     slk d = slk c \<and> nofs d = nofs c \<and> sprocs d = procs (f ((shared c)\<lparr>curp := p, cpuid := p, noff := nofs c p\<rparr>)) \<and> same_rest c d"
  by (auto simp: on_cpu_def same_rest_def)

lemma on_cpu_sched:
  "on_cpu p (sched (release (ProcLock p))) c = Some d \<Longrightarrow> on_cpu p (release (ProcLock p)) c = Some d"
  by (auto simp: on_cpu_def sched_def split: if_splits)

definition keeps_sleep :: "'a kproc_scheme \<Rightarrow> 'a kproc_scheme \<Rightarrow> bool" where
  "keeps_sleep s t \<longleftrightarrow> lk t = lk s \<and> noff t = noff s \<and>
     (\<forall>q. pstate (procs t q) = pstate (procs s q) \<and> pchan (procs t q) = pchan (procs s q))"

lemma keeps_sleep_pending:
  "keeps_sleep (set_proc p (\<lambda>x. x\<lparr>ppending := f x\<rparr>) s) t = keeps_sleep s t"
  by (auto simp: keeps_sleep_def)

lemma setkilled_keeps: "setkilled p s = Some t \<Longrightarrow> keeps_sleep s t"
proof (cases "lk s (ProcLock p) = None")
  case False
  then have "setkilled p s = None" by (simp add: setkilled_def acquire_taken)
  then show "setkilled p s = Some t \<Longrightarrow> keeps_sleep s t" by simp
qed (auto simp: setkilled_spec keeps_sleep_def)

lemma default_handler_keeps: "default_handler sig p s = Some t \<Longrightarrow> keeps_sleep s t"
  by (auto simp: default_handler_def dest!: setkilled_keeps split: if_splits) (simp add: keeps_sleep_def)

lemma signal_loop_keeps: "signal_loop k sig p s = Some t \<Longrightarrow> keeps_sleep s t"
proof (induction k sig p s rule: signal_loop.induct)
  case (2 k sig p s)
  let ?s = "set_proc p (\<lambda>x. x\<lparr>ppending := ppending x AND NOT (sigbit sig)\<rparr>) s" and ?h = "psa_handler (procs s p) sig"
  show ?case
  proof (cases "ppending (procs s p) AND sigbit sig = 0 \<or> sigbit sig AND psa_mask (procs s p) \<noteq> 0")
    case True
    then show ?thesis using 2 by simp
  next
    case False
    have h: "psa_handler (procs ?s p) sig = ?h" by simp
    note e = "2.prems" [unfolded signal_loop.simps if_not_P [OF False] Let_def h]
    consider "?h = SIG_DFL" | "?h \<noteq> SIG_DFL" "?h = SIG_IGN" | "?h \<noteq> SIG_DFL" "?h \<noteq> SIG_IGN" "?h = SIG_KILL"
      | "?h \<noteq> SIG_DFL" "?h \<noteq> SIG_IGN" "?h \<noteq> SIG_KILL" by blast
    then show ?thesis
    proof cases
      case 1
      then have "default_handler sig p ?s = Some t" using e by simp
      from default_handler_keeps [OF this] show ?thesis by (simp add: keeps_sleep_pending)
    next
      case 2
      have "keeps_sleep ?s t" using "2.IH"(2) [OF False refl refl] 2 e h by simp
      then show ?thesis by (simp add: keeps_sleep_pending)
    next
      case 3
      then have "setkilled p ?s = Some t" using e by simp
      from setkilled_keeps [OF this] show ?thesis by (simp add: keeps_sleep_pending)
    next
      case 4
      then show ?thesis using e by (auto simp: keeps_sleep_def copy_trapframe_def)
    qed
  qed
qed (simp add: keeps_sleep_def)

lemma signal_handle_keeps: "signal_handle p s = Some t \<Longrightarrow> keeps_sleep s t"
  using signal_loop_keeps [of NUMSIG 0 p s t] by (auto simp: signal_handle_def keeps_sleep_def split: if_splits)

lemma on_cpu_signal:
  "on_cpu p (signal_handle p) c = Some d \<Longrightarrow>
     slk d = slk c \<and> nofs d = nofs c \<and> same_rest c d \<and>
     (\<forall>q. pstate (sprocs d q) = pstate (sprocs c q) \<and> pchan (sprocs d q) = pchan (sprocs c q))"
  by (auto simp: on_cpu_def same_rest_def keeps_sleep_def dest!: signal_handle_keeps)

section \<open>The invariant\<close>

fun locks_at :: "lockid \<Rightarrow> nat \<Rightarrow> swpc \<Rightarrow> lockid list" where
  \<comment> \<open>the locks that process \<open>p\<close> holds\<close>
  "locks_at l p Out = []"
| "locks_at l p Crit = [l]"
| "locks_at l p Leave = [l]"
| "locks_at l p (Prep i) = (if i = 0 then [l] else if i = 1 then [ProcLock p, l] else [ProcLock p])"
| "locks_at l p Sched = [ProcLock p]"
| "locks_at l p Parked = []"
| "locks_at l p Picked = [ProcLock p]"
| "locks_at l p (Tail i) = (if i \<le> 1 then [ProcLock p] else if i = 2 then [] else [l])"
| "locks_at l p (Wake q i) = (if i = 0 then [l] else [ProcLock q, l])"

fun pc_ok :: "nat \<Rightarrow> swpc \<Rightarrow> bool" where
  "pc_ok p (Prep i) = (i < 4)"
| "pc_ok p (Tail i) = (i < 4)"
| "pc_ok p (Wake q i) = (i < 3 \<and> q \<le> NPROC \<and> (0 < i \<longrightarrow> q \<noteq> p \<and> q < NPROC))"
| "pc_ok p _ = True"

fun state_at :: "chan \<Rightarrow> swpc \<Rightarrow> proc \<Rightarrow> bool" where
  "state_at ch (Prep i) x = (pstate x = RUNNING \<and> (i = 3 \<longrightarrow> pchan x = ch))"
| "state_at ch Sched x = (pstate x = SLEEPING \<and> pchan x = ch)"
| "state_at ch Parked x = (pstate x = RUNNABLE \<or> pstate x = SLEEPING \<and> pchan x = ch)"
| "state_at ch Picked x = (pstate x = RUNNABLE \<or> pstate x = SLEEPING \<and> pchan x = ch)"
| "state_at ch _ x = (pstate x = RUNNING)"

fun waits :: "swpc \<Rightarrow> proc \<Rightarrow> bool" where
  \<comment> \<open>has released \<open>l\<close> to sleep and has not been woken\<close>
  "waits (Prep i) x = (2 \<le> i)"
| "waits Sched x = True"
| "waits Parked x = (pstate x = SLEEPING)"
| "waits Picked x = (pstate x = SLEEPING)"
| "waits _ x = False"

fun pending :: "swpc \<Rightarrow> nat \<Rightarrow> bool" where
  \<comment> \<open>this call of \<open>wakeup\<close> has still to come to process \<open>p\<close>\<close>
  "pending (Wake q i) p = (q < p \<or> q = p \<and> i \<le> 1)"
| "pending _ p = False"

definition locks_inv :: "lockid \<Rightarrow> nat \<Rightarrow> sw_sys \<Rightarrow> bool" where
  "locks_inv l n c \<longleftrightarrow> (\<forall>k p. slk c k = Some p \<longleftrightarrow> p < n \<and> k \<in> set (locks_at l p (swpc c p))) \<and>
     (\<forall>p < n. nofs c p = length (locks_at l p (swpc c p)) \<and> pc_ok p (swpc c p))"

definition states_inv :: "chan \<Rightarrow> nat \<Rightarrow> sw_sys \<Rightarrow> bool" where
  "states_inv ch n c \<longleftrightarrow> (\<forall>p < n. state_at ch (swpc c p) (sprocs c p))"

definition wake_inv :: "nat \<Rightarrow> sw_sys \<Rightarrow> bool" where
  "wake_inv n c \<longleftrightarrow> (ready c \<longrightarrow> (\<forall>p < n. waits (swpc c p) (sprocs c p) \<longrightarrow> (\<exists>w < n. pending (swpc c w) p)) \<and>
     (\<forall>p < n. swpc c p \<noteq> Prep 0 \<and> swpc c p \<noteq> Prep 1))"

lemmas sw_inv_defs = locks_inv_def states_inv_def wake_inv_def

subsection \<open>Locks\<close>

lemma locks_move:
  assumes "locks_inv l n c" "p < n" "swpc d = (swpc c)(p := pc)" "pc_ok p pc"
    and "nofs d = (nofs c)(p := length (locks_at l p pc))"
    and "\<And>k. slk d k = (if k \<in> set (locks_at l p pc) then Some p else if slk c k = Some p then None else slk c k)"
    and "\<And>k. k \<in> set (locks_at l p pc) \<Longrightarrow> slk c k = None \<or> slk c k = Some p"
  shows "locks_inv l n d"
proof -
  have A: "slk c k = Some x \<longleftrightarrow> x < n \<and> k \<in> set (locks_at l x (swpc c x))" for k x
    using assms(1) by (simp add: locks_inv_def)
  have "slk d k = Some x \<longleftrightarrow> x < n \<and> k \<in> set (locks_at l x (swpc d x))" for k x
  proof (cases "x = p")
    case True
    then show ?thesis using assms(2,3,6) by simp
  next
    case False
    then have "slk d k = Some x \<longleftrightarrow> slk c k = Some x" using assms(6,7) [of k] by auto
    then show ?thesis using A False assms(3) by simp
  qed
  then show ?thesis using assms(1,3,4,5) by (auto simp: locks_inv_def)
qed

lemma locks_acquire:
  assumes "locks_inv l n c" "p < n" "on_cpu p (acquire k) c = Some d" "pc_ok p pc"
    and "set (locks_at l p pc) = insert k (set (locks_at l p (swpc c p)))"
    and "length (locks_at l p pc) = Suc (length (locks_at l p (swpc c p)))"
  shows "locks_inv l n (goto p pc d)"
proof -
  have D: "slk c k = None" "slk d = (slk c)(k \<mapsto> p)" "nofs d = (nofs c)(p := Suc (nofs c p))" "swpc d = swpc c"
    using on_cpu_acquire [OF assms(3)] by (simp_all add: same_rest_def)
  have "slk c x = Some p \<longleftrightarrow> x \<in> set (locks_at l p (swpc c p))" for x using assms(1,2) by (simp add: locks_inv_def)
  moreover have "nofs c p = length (locks_at l p (swpc c p))" using assms(1,2) by (simp add: locks_inv_def)
  ultimately show ?thesis
    using D assms(5,6) by (intro locks_move [OF assms(1,2) _ assms(4)]) auto
qed

lemma locks_release:
  assumes "locks_inv l n c" "p < n" "on_cpu p (release k) c = Some d" "pc_ok p pc"
    and "set (locks_at l p pc) = set (locks_at l p (swpc c p)) - {k}"
    and "length (locks_at l p pc) = length (locks_at l p (swpc c p)) - 1"
  shows "locks_inv l n (goto p pc d)"
proof -
  have D: "slk c k = Some p" "slk d = (slk c)(k := None)" "nofs d = (nofs c)(p := nofs c p - 1)" "swpc d = swpc c"
    using on_cpu_release [OF assms(3)] by (simp_all add: same_rest_def)
  have "slk c x = Some p \<longleftrightarrow> x \<in> set (locks_at l p (swpc c p))" for x using assms(1,2) by (simp add: locks_inv_def)
  moreover have "nofs c p = length (locks_at l p (swpc c p))" using assms(1,2) by (simp add: locks_inv_def)
  ultimately show ?thesis
    using D assms(5,6) by (intro locks_move [OF assms(1,2) _ assms(4)]) auto
qed

lemma locks_same:
  assumes "locks_inv l n c" "p < n" "slk d = slk c" "nofs d = nofs c" "swpc d = swpc c" "pc_ok p pc"
    and "locks_at l p pc = locks_at l p (swpc c p)"
  shows "locks_inv l n (goto p pc d)"
proof -
  have "slk c x = Some p \<longleftrightarrow> x \<in> set (locks_at l p (swpc c p))" for x using assms(1,2) by (simp add: locks_inv_def)
  moreover have "nofs c p = length (locks_at l p (swpc c p))" using assms(1,2) by (simp add: locks_inv_def)
  ultimately show ?thesis
    using assms(3-5,7) by (intro locks_move [OF assms(1,2) _ assms(6)]) (auto simp: fun_upd_idem)
qed

lemma less_4: "i < 4 \<longleftrightarrow> i = 0 \<or> i = 1 \<or> i = 2 \<or> i = (3 :: nat)" by auto
lemma less_3: "i < 3 \<longleftrightarrow> i = 0 \<or> i = 1 \<or> i = (2 :: nat)" by auto

lemma sw_step_locks:
  assumes "sw_step ch l n p c d" "locks_inv l n c" "\<forall>q. l \<noteq> ProcLock q"
  shows "locks_inv l n d"
proof -
  have pc: "p < n \<Longrightarrow> pc_ok p (swpc c p)" using assms(2) by (simp add: locks_inv_def)
  have ne: "ProcLock q \<noteq> l" "l \<noteq> ProcLock q" for q using assms(3) by metis+
  show ?thesis
    using assms(1)
  proof cases
    case (enter e)
    then show ?thesis using locks_acquire [OF assms(2) enter(2,4), of Crit] by simp
  next
    case must_wait
    then show ?thesis using locks_same [OF assms(2), of p c "Prep 0"] by simp
  next
    case consume
    then show ?thesis using locks_same [OF assms(2), of p "c\<lparr>ready := False\<rparr>" Leave] by simp
  next
    case produce
    then show ?thesis using locks_same [OF assms(2), of p "c\<lparr>ready := True\<rparr>" "Wake 0 0"] by simp
  next
    case (leave e)
    then show ?thesis using locks_release [OF assms(2) leave(2,4), of Out] by simp
  next
    case (prep i e)
    have "i < 4" using pc prep(2,3) by simp
    then consider "i = 0" | "i = 1" | "i = 2" | "i = 3" unfolding less_4 by blast
    then show ?thesis
    proof cases
      case 1
      then show ?thesis
        using prep locks_acquire [OF assms(2) prep(2), of "ProcLock p" e "Prep 1"] by (simp add: sleep_prep_def)
    next
      case 2
      then show ?thesis
        using prep locks_release [OF assms(2) prep(2), of l e "Prep 2"] ne by (auto simp: sleep_prep_def numeral_2_eq_2)
    next
      case 3
      then have "slk e = slk c \<and> nofs e = nofs c \<and> same_rest c e"
        using prep(4) on_cpu_some [of p "\<lambda>s. set_proc p (\<lambda>x. x\<lparr>pchan := ch\<rparr>) s" c e] by (simp add: sleep_prep_def)
      then show ?thesis
        using prep 3 locks_same [OF assms(2) prep(2), of e "Prep 3"] by (simp add: sleep_prep_def same_rest_def)
    next
      case 4
      then have "slk e = slk c \<and> nofs e = nofs c \<and> same_rest c e"
        using prep(4) on_cpu_some [of p "\<lambda>s. set_proc p (\<lambda>x. x\<lparr>pstate := SLEEPING\<rparr>) s" c e] by (simp add: sleep_prep_def)
      then show ?thesis
        using prep 4 locks_same [OF assms(2) prep(2), of e Sched] by (simp add: sleep_prep_def same_rest_def)
    qed
  next
    case (switch e)
    then show ?thesis using locks_release [OF assms(2) switch(2) on_cpu_sched [OF switch(4)], of Parked] by simp
  next
    case (pick e)
    then show ?thesis using locks_acquire [OF assms(2) pick(2,4), of Picked] by simp
  next
    case (dispatch e)
    then have "slk e = slk c \<and> nofs e = nofs c \<and> same_rest c e"
      using on_cpu_some [of p "\<lambda>s. set_proc p (\<lambda>x. x\<lparr>pstate := RUNNING\<rparr>) s" c e] by simp
    then show ?thesis
      using dispatch locks_same [OF assms(2) dispatch(2), of e "Tail 0"] by (simp add: same_rest_def)
  next
    case (pass_over e)
    then show ?thesis using locks_release [OF assms(2) pass_over(2,5), of Parked] by simp
  next
    case (tail i e)
    have "i < 4" using pc tail(2,3) by simp
    then consider "i = 0" | "i = 1" | "i = 2" | "i = 3" unfolding less_4 by blast
    then show ?thesis
    proof cases
      case 1
      then have "slk e = slk c \<and> nofs e = nofs c \<and> same_rest c e"
        using tail(4) on_cpu_some [of p "\<lambda>s. set_proc p (\<lambda>x. x\<lparr>pchan := NoChan\<rparr>) s" c e] by (simp add: sleep_tail_def)
      then show ?thesis
        using tail 1 locks_same [OF assms(2) tail(2), of e "Tail 1"] by (simp add: sleep_tail_def same_rest_def)
    next
      case 2
      then show ?thesis
        using tail locks_release [OF assms(2) tail(2), of "ProcLock p" e "Tail 2"] by (simp add: sleep_tail_def numeral_2_eq_2)
    next
      case 3
      then show ?thesis
        using tail locks_acquire [OF assms(2) tail(2), of l e "Tail 3"] by (simp add: sleep_tail_def)
    next
      case 4
      then show ?thesis
        using tail on_cpu_signal [of p c e] locks_same [OF assms(2) tail(2), of e Crit]
        by (simp add: sleep_tail_def same_rest_def)
    qed
  next
    case (wake q i e)
    have "i < 3" using pc wake(2,3) by simp
    then consider "i = 0" | "i = 1" | "i = 2" unfolding less_3 by blast
    then show ?thesis
    proof cases
      case 1
      then show ?thesis
        using wake locks_acquire [OF assms(2) wake(2), of "ProcLock q" e "Wake q 1"] by (simp add: wakeup_one_def)
    next
      case 2
      let ?f = "\<lambda>s :: kproc. if pstate (procs s q) = SLEEPING \<and> pchan (procs s q) = ch
                 then set_proc q (\<lambda>x. x\<lparr>pstate := RUNNABLE\<rparr>) s else s"
      have "slk e = slk c \<and> nofs e = nofs c \<and> same_rest c e"
        using wake(6) on_cpu_some [of p ?f c e] 2 by (simp add: wakeup_one_def)
      then show ?thesis
        using wake 2 locks_same [OF assms(2) wake(2), of e "Wake q 2"] by (simp add: wakeup_one_def same_rest_def numeral_2_eq_2)
    next
      case 3
      then show ?thesis
        using wake locks_release [OF assms(2) wake(2), of "ProcLock q" e "Wake (Suc q) 0"] ne by (auto simp: wakeup_one_def)
    qed
  next
    case wake_self
    then show ?thesis using locks_same [OF assms(2), of p c "Wake (Suc p) 0"] by simp
  next
    case wake_done
    then show ?thesis using locks_same [OF assms(2), of p c Leave] by simp
  qed
qed

subsection \<open>States and wakeups\<close>

lemma state_at_cong: "pstate y = pstate x \<Longrightarrow> pchan y = pchan x \<Longrightarrow> state_at ch pc y = state_at ch pc x"
  by (cases pc) simp_all

lemma waits_cong: "pstate y = pstate x \<Longrightarrow> waits pc y = waits pc x"
  by (cases pc) simp_all

lemma wake_move:
  assumes "wake_inv n c" "swpc d = (swpc c)(p := pc)" "ready d = ready c"
    and "\<And>x. x < n \<Longrightarrow> x \<noteq> p \<Longrightarrow> waits (swpc c x) (sprocs d x) \<Longrightarrow> waits (swpc c x) (sprocs c x)"
    and "waits pc (sprocs d p) \<Longrightarrow> waits (swpc c p) (sprocs c p) \<or> \<not> ready c"
    and "\<And>x. x < n \<Longrightarrow> pending (swpc c p) x \<Longrightarrow> waits (swpc d x) (sprocs d x) \<Longrightarrow> pending pc x"
    and "pc = Prep 0 \<or> pc = Prep 1 \<Longrightarrow> \<not> ready c"
  shows "wake_inv n d"
proof (cases "ready c")
  case True
  have W: "\<exists>w < n. pending (swpc c w) x" if "x < n" "waits (swpc c x) (sprocs c x)" for x
    using assms(1) True that by (simp add: wake_inv_def)
  have "\<exists>w < n. pending (swpc d w) x" if x: "x < n" "waits (swpc d x) (sprocs d x)" for x
  proof -
    have "waits (swpc c x) (sprocs c x)"
      using x assms(2) assms(4) [of x] assms(5) True by (cases "x = p") auto
    then obtain w where w: "w < n" "pending (swpc c w) x" using W [OF x(1)] by blast
    then have "pending (swpc d w) x" using assms(2) assms(6) [of x] x by (cases "w = p") auto
    then show ?thesis using w(1) by blast
  qed
  moreover have "swpc d x \<noteq> Prep 0 \<and> swpc d x \<noteq> Prep 1" if "x < n" for x
    using assms(1,2,7) True that by (cases "x = p") (auto simp: wake_inv_def)
  ultimately show ?thesis by (simp add: wake_inv_def)
next
  case False
  then show ?thesis using assms(3) by (simp add: wake_inv_def)
qed

lemma states_move:
  assumes "states_inv ch n c" "swpc d = (swpc c)(p := pc)" "state_at ch pc (sprocs d p)"
    and "\<And>x. x < n \<Longrightarrow> x \<noteq> p \<Longrightarrow> state_at ch (swpc c x) (sprocs d x)"
  shows "states_inv ch n d"
  using assms by (auto simp: states_inv_def)

definition quiet_move :: "sw_sys \<Rightarrow> sw_sys \<Rightarrow> bool" where
  \<comment> \<open>no process changes its state or its channel\<close>
  "quiet_move c d \<longleftrightarrow> ready d = ready c \<and> swpc d = swpc c \<and>
     (\<forall>q. pstate (sprocs d q) = pstate (sprocs c q) \<and> pchan (sprocs d q) = pchan (sprocs c q))"

lemma quiet_moves:
  "on_cpu p (acquire k) c = Some d \<Longrightarrow> quiet_move c d" "on_cpu p (release k) c = Some d \<Longrightarrow> quiet_move c d"
  "on_cpu p (signal_handle p) c = Some d \<Longrightarrow> quiet_move c d" "quiet_move c c"
  using on_cpu_acquire [of p k c d] on_cpu_release [of p k c d] on_cpu_signal [of p c d]
  by (simp_all add: quiet_move_def same_rest_def)

lemma quiet_step:
  assumes "quiet_move c e" "states_inv ch n c" "wake_inv n c" "p < n"
    and "\<And>x. state_at ch (swpc c p) x \<Longrightarrow> state_at ch pc x" "\<And>x. state_at ch (swpc c p) x \<Longrightarrow> waits pc x \<Longrightarrow> waits (swpc c p) x \<or> \<not> ready c"
    and "\<And>x. pending (swpc c p) x \<Longrightarrow> x < n \<Longrightarrow> x = p \<and> \<not> waits pc (sprocs c p) \<or> pending pc x" "pc = Prep 0 \<or> pc = Prep 1 \<Longrightarrow> \<not> ready c"
  shows "states_inv ch n (goto p pc e) \<and> wake_inv n (goto p pc e)"
proof -
  have st: "pstate (sprocs e x) = pstate (sprocs c x)" "pchan (sprocs e x) = pchan (sprocs c x)" for x
    using assms(1) by (simp_all add: quiet_move_def)
  have q: "state_at ch pc' (sprocs e x) = state_at ch pc' (sprocs c x)" "waits pc' (sprocs e x) = waits pc' (sprocs c x)" for pc' x
    by (rule state_at_cong [OF st], rule waits_cong [OF st(1)])
  have r: "swpc e = swpc c" "ready e = ready c" using assms(1) by (simp_all add: quiet_move_def)
  have s: "state_at ch (swpc c x) (sprocs c x)" if "x < n" for x using assms(2) that by (simp add: states_inv_def)
  have "states_inv ch n (goto p pc e)"
    by (rule states_move [OF assms(2), of _ p pc]) (simp_all add: q r s assms(5) [OF s [OF assms(4)]])
  moreover have "wake_inv n (goto p pc e)"
  proof (rule wake_move [OF assms(3), of _ p pc])
    show "waits (swpc c p) (sprocs c p) \<or> \<not> ready c" if "waits pc (sprocs (goto p pc e) p)"
      using assms(6) [OF s [OF assms(4)]] that by (simp add: q)
    show "pending pc x" if "x < n" "pending (swpc c p) x" "waits (swpc (goto p pc e) x) (sprocs (goto p pc e) x)" for x
      using assms(7) [OF that(2,1)] that(3) by (auto simp: q r)
    show "\<not> ready c" if "pc = Prep 0 \<or> pc = Prep 1" using assms(8) that by blast
  qed (simp_all add: q r)
  ultimately show ?thesis by blast
qed

lemma own_step:
  assumes "same_rest c e" "\<forall>x. x \<noteq> p \<longrightarrow> sprocs e x = sprocs c x" "states_inv ch n c" "wake_inv n c"
    and "state_at ch pc (sprocs e p)" "waits pc (sprocs e p) \<Longrightarrow> waits (swpc c p) (sprocs c p)"
    and "\<And>x. \<not> pending (swpc c p) x" "pc \<noteq> Prep 0" "pc \<noteq> Prep 1"
  shows "states_inv ch n (goto p pc e) \<and> wake_inv n (goto p pc e)"
proof -
  have r: "swpc e = swpc c" "ready e = ready c" using assms(1) by (simp_all add: same_rest_def)
  have "states_inv ch n (goto p pc e)"
    by (rule states_move [OF assms(3), of _ p pc]) (use r assms(2,3,5) in \<open>auto simp: states_inv_def\<close>)
  moreover have "wake_inv n (goto p pc e)"
    by (rule wake_move [OF assms(4), of _ p pc]) (use r assms(2,6-9) in auto)
  ultimately show ?thesis by blast
qed

lemma prep_step:
  assumes "states_inv ch n c" "wake_inv n c" "p < n" "swpc c p = Prep i" "i < 4" "on_cpu p (sleep_prep p ch l ! i) c = Some e"
  defines "pc \<equiv> if Suc i < 4 then Prep (Suc i) else Sched"
  shows "states_inv ch n (goto p pc e) \<and> wake_inv n (goto p pc e)"
proof -
  have st: "state_at ch (swpc c p) (sprocs c p)" using assms(1,3) by (simp add: states_inv_def)
  have nr: "i \<le> 1 \<Longrightarrow> \<not> ready c" using assms(2,3,4) by (cases i) (auto simp: wake_inv_def)
  consider "i = 0" | "i = 1" | "i = 2" | "i = 3" using assms(5) unfolding less_4 by blast
  then show ?thesis
  proof cases
    case 1
    then have "quiet_move c e" using assms(6) quiet_moves(1) [of p "ProcLock p" c e] by (simp add: sleep_prep_def)
    then show ?thesis
      by (rule quiet_step [OF _ assms(1-3)]) (use 1 assms(4) nr in \<open>simp_all add: pc_def\<close>)
  next
    case 2
    then have "quiet_move c e" using assms(6) quiet_moves(2) [of p l c e] by (simp add: sleep_prep_def)
    then show ?thesis
      by (rule quiet_step [OF _ assms(1-3)]) (use 2 assms(4) nr in \<open>simp_all add: pc_def\<close>)
  next
    case 3
    then have e: "same_rest c e" "sprocs e = (sprocs c)(p := (sprocs c p)\<lparr>pchan := ch\<rparr>)"
      using assms(6) on_cpu_some [of p "\<lambda>s. set_proc p (\<lambda>x. x\<lparr>pchan := ch\<rparr>) s" c e] by (simp_all add: sleep_prep_def)
    show ?thesis
      by (rule own_step [OF e(1) _ assms(1,2)]) (use 3 st assms(4) e(2) in \<open>simp_all add: pc_def\<close>)
  next
    case 4
    then have e: "same_rest c e" "sprocs e = (sprocs c)(p := (sprocs c p)\<lparr>pstate := SLEEPING\<rparr>)"
      using assms(6) on_cpu_some [of p "\<lambda>s. set_proc p (\<lambda>x. x\<lparr>pstate := SLEEPING\<rparr>) s" c e] by (simp_all add: sleep_prep_def)
    show ?thesis
      by (rule own_step [OF e(1) _ assms(1,2)]) (use 4 st assms(4) e(2) in \<open>simp_all add: pc_def\<close>)
  qed
qed

lemma tail_step:
  assumes "states_inv ch n c" "wake_inv n c" "p < n" "swpc c p = Tail i" "i < 4" "on_cpu p (sleep_tail p l ! i) c = Some e"
  defines "pc \<equiv> if Suc i < 4 then Tail (Suc i) else Crit"
  shows "states_inv ch n (goto p pc e) \<and> wake_inv n (goto p pc e)"
proof -
  have st: "state_at ch (swpc c p) (sprocs c p)" using assms(1,3) by (simp add: states_inv_def)
  show ?thesis
  proof (cases "i = 0")
    case True
    then have e: "same_rest c e" "sprocs e = (sprocs c)(p := (sprocs c p)\<lparr>pchan := NoChan\<rparr>)"
      using assms(6) on_cpu_some [of p "\<lambda>s. set_proc p (\<lambda>x. x\<lparr>pchan := NoChan\<rparr>) s" c e] by (simp_all add: sleep_tail_def)
    show ?thesis
      by (rule own_step [OF e(1) _ assms(1,2)]) (use True st assms(4) e(2) in \<open>simp_all add: pc_def\<close>)
  next
    case False
    then have "i = 1 \<or> i = 2 \<or> i = 3" using assms(5) by auto
    then have "quiet_move c e"
      using assms(6) quiet_moves(2) [of p "ProcLock p" c e] quiet_moves(1) [of p l c e] quiet_moves(3) [of p c e]
      by (auto simp: sleep_tail_def)
    then show ?thesis
      by (rule quiet_step [OF _ assms(1-3)]) (use False assms(4,5) in \<open>auto simp: pc_def split: if_splits\<close>)
  qed
qed

lemma lock_owner:
  assumes "locks_inv l n c" "k \<in> set (locks_at l p (swpc c p))" "k \<in> set (locks_at l x (swpc c x))" "p < n" "x < n"
  shows "x = p"
proof -
  have "slk c k = Some p" "slk c k = Some x" using assms by (simp_all add: locks_inv_def)
  then show ?thesis by simp
qed

lemma wake_step:
  assumes "states_inv ch n c" "wake_inv n c" "locks_inv l n c" "p < n" "swpc c p = Wake q i" "i < 3" "q \<noteq> p"
    and "on_cpu p (wakeup_one q ch ! i) c = Some e"
  defines "pc \<equiv> if Suc i < 3 then Wake q (Suc i) else Wake (Suc q) 0"
  shows "states_inv ch n (goto p pc e) \<and> wake_inv n (goto p pc e)"
proof (cases "i = 1")
  case False
  then have i: "i = 0 \<or> i = 2" using assms(6) by auto
  then have "quiet_move c e"
    using assms(8) quiet_moves(1) [of p "ProcLock q" c e] quiet_moves(2) [of p "ProcLock q" c e]
    by (auto simp: wakeup_one_def)
  then show ?thesis
    by (rule quiet_step [OF _ assms(1,2,4)]) (use i assms(5) in \<open>auto simp: pc_def\<close>)
next
  case True
  let ?f = "\<lambda>s :: kproc. if pstate (procs s q) = SLEEPING \<and> pchan (procs s q) = ch
             then set_proc q (\<lambda>x. x\<lparr>pstate := RUNNABLE\<rparr>) s else s"
  have e: "same_rest c e" "sprocs e = (if pstate (sprocs c q) = SLEEPING \<and> pchan (sprocs c q) = ch
      then (sprocs c)(q := (sprocs c q)\<lparr>pstate := RUNNABLE\<rparr>) else sprocs c)"
    using assms(8) on_cpu_some [of p ?f c e] True by (auto simp: wakeup_one_def)
  have r: "swpc e = swpc c" "ready e = ready c" using e(1) by (simp_all add: same_rest_def)
  have st: "state_at ch (swpc c x) (sprocs c x)" if "x < n" for x using assms(1) that by (simp add: states_inv_def)
  have own: "ProcLock q \<notin> set (locks_at l q (swpc c q))" if "q < n"
    using lock_owner [OF assms(3), of "ProcLock q" p q] assms(4,5,7) that True by auto
  have sleeps: "swpc c q = Parked" if "q < n" "pstate (sprocs c q) = SLEEPING"
    using st [OF that(1)] own [OF that(1)] that(2) by (cases "swpc c q") auto
  have woken: "\<not> waits (swpc c q) (sprocs e q)" if "q < n"
  proof (cases "pstate (sprocs c q) = SLEEPING")
    case True
    then show ?thesis using sleeps [OF that] st [OF that] e(2) by auto
  next
    case False
    then show ?thesis using st [OF that] own [OF that] e(2) by (cases "swpc c q") auto
  qed
  have "states_inv ch n (goto p pc e)"
  proof (rule states_move [OF assms(1), of _ p pc])
    show "state_at ch (swpc c x) (sprocs (goto p pc e) x)" if "x < n" "x \<noteq> p" for x
      using st [OF that(1)] sleeps that e(2) by (cases "x = q") auto
    show "state_at ch pc (sprocs (goto p pc e) p)" using st [OF assms(4)] assms(5,7) True e(2) by (simp add: pc_def)
  qed (simp add: r)
  moreover have "wake_inv n (goto p pc e)"
  proof (rule wake_move [OF assms(2), of _ p pc])
    show "waits (swpc c x) (sprocs c x)" if "x < n" "x \<noteq> p" "waits (swpc c x) (sprocs (goto p pc e) x)" for x
      using that woken e(2) by (cases "x = q") (auto split: if_splits)
    show "pending pc x" if "x < n" "pending (swpc c p) x" "waits (swpc (goto p pc e) x) (sprocs (goto p pc e) x)" for x
      using that woken assms(5,7) True r by (cases "x = q") (auto simp: pc_def)
  qed (use r assms(5) True in \<open>simp_all add: pc_def\<close>)
  ultimately show ?thesis by blast
qed

lemma lengths [simp]: "length (sleep_prep p ch l) = 4" "length (sleep_tail p l) = 4" "length (wakeup_one q ch) = 3"
  by (simp_all add: sleep_prep_def sleep_tail_def wakeup_one_def)

lemma sw_step_inv:
  assumes "sw_step ch l n p c d" "locks_inv l n c" "states_inv ch n c" "wake_inv n c" "n \<le> NPROC"
  shows "states_inv ch n d \<and> wake_inv n d"
proof -
  have st: "x < n \<Longrightarrow> state_at ch (swpc c x) (sprocs c x)" for x using assms(3) by (simp add: states_inv_def)
  have pc: "p < n \<Longrightarrow> pc_ok p (swpc c p)" using assms(2) by (simp add: locks_inv_def)
  note Q = quiet_step [OF _ assms(3,4)]
  show ?thesis
    using assms(1)
  proof cases
    case (enter e)
    show ?thesis
      unfolding enter(1) by (rule Q [OF quiet_moves(1) [OF enter(4)] enter(2)]) (simp_all add: enter(3))
  next
    case must_wait
    show ?thesis
      unfolding must_wait(1) by (rule Q [OF quiet_moves(4) must_wait(2)]) (simp_all add: must_wait(3,4))
  next
    case consume
    have "states_inv ch n d"
      by (rule states_move [OF assms(3), of _ p Leave]) (use consume st [of p] in \<open>simp_all add: st\<close>)
    then show ?thesis using consume by (simp add: wake_inv_def)
  next
    case produce
    have "states_inv ch n d"
      by (rule states_move [OF assms(3), of _ p "Wake 0 0"]) (use produce st [of p] in \<open>simp_all add: st\<close>)
    moreover have "\<not> (swpc d x = Prep 0 \<or> swpc d x = Prep 1)" if "x < n" for x
      using lock_owner [OF assms(2), of l p x] produce(1-3) that by (cases "x = p") auto
    moreover have "pending (swpc d p) x" for x using produce(1) by (cases x) simp_all
    ultimately show ?thesis using produce(2) unfolding wake_inv_def by blast
  next
    case (leave e)
    show ?thesis
      unfolding leave(1) by (rule Q [OF quiet_moves(2) [OF leave(4)] leave(2)]) (simp_all add: leave(3))
  next
    case (prep i e)
    then show ?thesis using prep_step [OF assms(3,4), of p i l e] pc by simp
  next
    case (switch e)
    show ?thesis
      unfolding switch(1)
      by (rule Q [OF quiet_moves(2) [OF on_cpu_sched [OF switch(4)]] switch(2)]) (simp_all add: switch(3))
  next
    case (pick e)
    show ?thesis
      unfolding pick(1) by (rule Q [OF quiet_moves(1) [OF pick(4)] pick(2)]) (simp_all add: pick(3))
  next
    case (dispatch e)
    then have e: "same_rest c e" "sprocs e = (sprocs c)(p := (sprocs c p)\<lparr>pstate := RUNNING\<rparr>)"
      using on_cpu_some [of p "\<lambda>s. set_proc p (\<lambda>x. x\<lparr>pstate := RUNNING\<rparr>) s" c e] by simp_all
    show ?thesis
      unfolding dispatch(1) by (rule own_step [OF e(1) _ assms(3,4)]) (use e(2) in \<open>simp_all add: dispatch(3)\<close>)
  next
    case (pass_over e)
    show ?thesis
      unfolding pass_over(1) by (rule Q [OF quiet_moves(2) [OF pass_over(5)] pass_over(2)]) (simp_all add: pass_over(3))
  next
    case (tail i e)
    then show ?thesis using tail_step [OF assms(3,4), of p i l e] pc by simp
  next
    case (wake q i e)
    then show ?thesis using wake_step [OF assms(3,4,2), of p q i e] pc by simp
  next
    case wake_self
    show ?thesis
      unfolding wake_self(1) by (rule Q [OF quiet_moves(4) wake_self(2)]) (auto simp: wake_self(3))
  next
    case wake_done
    show ?thesis
      unfolding wake_done(1)
      by (rule Q [OF quiet_moves(4) wake_done(2)]) (use assms(5) in \<open>auto simp: wake_done(3)\<close>)
  qed
qed

definition sw_inv :: "chan \<Rightarrow> lockid \<Rightarrow> nat \<Rightarrow> sw_sys \<Rightarrow> bool" where
  "sw_inv ch l n c \<longleftrightarrow> locks_inv l n c \<and> states_inv ch n c \<and> wake_inv n c"

lemma sw_inv_start: "sw_start n c \<Longrightarrow> sw_inv ch l n c"
  by (simp add: sw_start_def sw_inv_def sw_inv_defs)

lemma sw_inv_reach: "sw_reach ch l n c \<Longrightarrow> n \<le> NPROC \<Longrightarrow> \<forall>q. l \<noteq> ProcLock q \<Longrightarrow> sw_inv ch l n c"
proof (induction rule: sw_reach.induct)
  case (sw_more c p d)
  then show ?case using sw_step_locks sw_step_inv unfolding sw_inv_def by blast
qed (rule sw_inv_start)

section \<open>Progress\<close>

lemma can_acquire: "slk c k = None \<Longrightarrow> \<exists>d. on_cpu p (acquire k) c = Some d"
  by (simp add: on_cpu_def acquire_free)

lemma can_release: "slk c k = Some p \<Longrightarrow> 0 < nofs c p \<Longrightarrow> \<exists>d. on_cpu p (release k) c = Some d"
  by (simp add: on_cpu_def release_held)

lemma can_sched:
  "slk c (ProcLock p) = Some p \<Longrightarrow> nofs c p = 1 \<Longrightarrow> pstate (sprocs c p) \<noteq> RUNNING \<Longrightarrow>
     \<exists>d. on_cpu p (sched (release (ProcLock p))) c = Some d"
  by (simp add: on_cpu_def sched_def holding_def release_held)

lemma can_some: "\<exists>d. on_cpu p (\<lambda>s. Some (f s)) c = Some d"
  by (simp add: on_cpu_def)

lemma setkilled_returns: "lk s (ProcLock p) = None \<Longrightarrow> \<exists>t. setkilled p s = Some t"
  by (simp add: setkilled_spec)

lemma default_handler_returns: "lk s (ProcLock p) = None \<Longrightarrow> \<exists>t. default_handler sig p s = Some t"
  by (simp add: default_handler_def setkilled_spec)

lemma signal_loop_returns: "lk s (ProcLock p) = None \<Longrightarrow> \<exists>t. signal_loop k sig p s = Some t"
proof (induction k sig p s rule: signal_loop.induct)
  case (2 k sig p s)
  let ?s = "set_proc p (\<lambda>x. x\<lparr>ppending := ppending x AND NOT (sigbit sig)\<rparr>) s"
  show ?case
  proof (cases "ppending (procs s p) AND sigbit sig = 0 \<or> sigbit sig AND psa_mask (procs s p) \<noteq> 0")
    case True
    then show ?thesis using 2 by simp
  next
    case False
    have l: "lk ?s (ProcLock p) = None" using 2(3) by simp
    obtain t u where t: "setkilled p ?s = Some t" "default_handler sig p ?s = Some u"
      using setkilled_returns [OF l] default_handler_returns [OF l] by blast
    have h: "psa_handler (procs ?s p) sig = psa_handler (procs s p) sig" by simp
    show ?thesis
    proof (cases "psa_handler (procs s p) sig \<noteq> SIG_DFL \<and> psa_handler (procs s p) sig = SIG_IGN")
      case True
      then have "signal_loop (Suc k) sig p s = signal_loop k (Suc sig) p ?s"
        unfolding signal_loop.simps if_not_P [OF False] Let_def h by (simp add: SIG_DFL_def SIG_IGN_def)
      moreover have "\<exists>t. signal_loop k (Suc sig) p ?s = Some t"
        by (rule 2(2) [OF False refl refl]) (use True l h in \<open>simp_all add: SIG_DFL_def SIG_IGN_def\<close>)
      ultimately show ?thesis by simp
    next
      case no: False
      then show ?thesis
        unfolding signal_loop.simps if_not_P [OF False] Let_def h t by auto
    qed
  qed
qed simp

lemma can_signal: "slk c (ProcLock p) = None \<Longrightarrow> \<exists>d. on_cpu p (signal_handle p) c = Some d"
  using signal_loop_returns [of "(shared c)\<lparr>curp := p, cpuid := p, noff := nofs c p\<rparr>" p NUMSIG 0]
  by (auto simp: on_cpu_def signal_handle_def)

definition can_step :: "chan \<Rightarrow> lockid \<Rightarrow> nat \<Rightarrow> nat \<Rightarrow> sw_sys \<Rightarrow> bool" where
  "can_step ch l n p c \<longleftrightarrow> (\<exists>d. sw_step ch l n p c d)"

lemma held_lock:
  assumes "locks_inv l n c" "p < n" "k \<in> set (locks_at l p (swpc c p))"
  shows "slk c k = Some p \<and> 0 < nofs c p"
  using assms by (auto simp: locks_inv_def)

lemma free_steps:
  \<comment> \<open>a process that needs no further lock goes on\<close>
  assumes "sw_inv ch l n c" "p < n"
    and "swpc c p \<in> {Crit, Leave, Prep 1, Prep 2, Prep 3, Sched, Picked, Tail 0, Tail 1}"
  shows "can_step ch l n p c"
proof -
  have L: "locks_inv l n c" "state_at ch (swpc c p) (sprocs c p)"
    using assms(1,2) by (simp_all add: sw_inv_def states_inv_def)
  note H = held_lock [OF L(1) assms(2)]
  consider "swpc c p = Crit" | "swpc c p = Leave" | "swpc c p = Prep 1" | "swpc c p = Prep 2" | "swpc c p = Prep 3"
    | "swpc c p = Sched" | "swpc c p = Picked" | "swpc c p = Tail 0" | "swpc c p = Tail 1" using assms(3) by blast
  then show ?thesis
  proof cases
    case 1
    then show ?thesis using produce [OF assms(2)] by (auto simp: can_step_def)
  next
    case 2
    then show ?thesis using leave [OF assms(2)] can_release [of c l p] H by (fastforce simp: can_step_def)
  next
    case 3
    then obtain d where "on_cpu p (sleep_prep p ch l ! 1) c = Some d"
      using can_release [of c l p] H by (fastforce simp: sleep_prep_def)
    then show ?thesis using prep [OF assms(2) 3] by (auto simp: can_step_def)
  next
    case 4
    obtain d where "on_cpu p (sleep_prep p ch l ! 2) c = Some d"
      using can_some [of p "set_proc p (\<lambda>x. x\<lparr>pchan := ch\<rparr>)" c] by (auto simp: sleep_prep_def)
    then show ?thesis using prep [OF assms(2) 4] by (auto simp: can_step_def)
  next
    case 5
    obtain d where "on_cpu p (sleep_prep p ch l ! 3) c = Some d"
      using can_some [of p "set_proc p (\<lambda>x. x\<lparr>pstate := SLEEPING\<rparr>)" c] by (auto simp: sleep_prep_def)
    then show ?thesis using prep [OF assms(2) 5] by (auto simp: can_step_def)
  next
    case 6
    have "nofs c p = 1" using L(1) assms(2) 6 by (auto simp: locks_inv_def)
    then have "\<exists>d. on_cpu p (sched (release (ProcLock p))) c = Some d"
      using can_sched [of c p] H 6 L(2) by auto
    then show ?thesis using switch [OF assms(2) 6] by (auto simp: can_step_def)
  next
    case 7
    show ?thesis
    proof (cases "pstate (sprocs c p) = RUNNABLE")
      case True
      then show ?thesis
        using dispatch [OF assms(2) 7] can_some [of p "set_proc p (\<lambda>x. x\<lparr>pstate := RUNNING\<rparr>)" c]
        by (auto simp: can_step_def)
    next
      case False
      then show ?thesis using pass_over [OF assms(2) 7] can_release [of c "ProcLock p" p] H 7 by (fastforce simp: can_step_def)
    qed
  next
    case 8
    obtain d where "on_cpu p (sleep_tail p l ! 0) c = Some d"
      using can_some [of p "set_proc p (\<lambda>x. x\<lparr>pchan := NoChan\<rparr>)" c] by (auto simp: sleep_tail_def)
    then show ?thesis using tail [OF assms(2) 8] by (auto simp: can_step_def)
  next
    case 9
    then obtain d where "on_cpu p (sleep_tail p l ! 1) c = Some d"
      using can_release [of c "ProcLock p" p] H by (fastforce simp: sleep_tail_def)
    then show ?thesis using tail [OF assms(2) 9] by (auto simp: can_step_def)
  qed
qed

lemma holder_steps:
  \<comment> \<open>whoever holds \<open>l\<close>, or a process in its way, goes on\<close>
  assumes "sw_inv ch l n c" "slk c l = Some h" "\<forall>q. l \<noteq> ProcLock q" "n \<le> NPROC"
  shows "\<exists>p < n. swpc c p \<noteq> Parked \<and> can_step ch l n p c"
proof -
  have L: "locks_inv l n c" using assms(1) by (simp add: sw_inv_def)
  have ne: "ProcLock q \<noteq> l" "l \<noteq> ProcLock q" for q using assms(3) by metis+
  have h: "h < n" "l \<in> set (locks_at l h (swpc c h))" using L assms(2) by (simp_all add: locks_inv_def)
  have pc: "pc_ok h (swpc c h)" using L h(1) by (simp add: locks_inv_def)
  have only: "x = h" if "x < n" "l \<in> set (locks_at l x (swpc c x))" for x
    using lock_owner [OF L h(2) that(2) h(1) that(1)] .
  have own: "slk c (ProcLock q) = None \<or> (\<exists>x. slk c (ProcLock q) = Some x \<and> x < n \<and> (x = h \<or> x = q) \<and>
      ProcLock q \<in> set (locks_at l x (swpc c x)))" for q
  proof (cases "slk c (ProcLock q)")
    case (Some x)
    then have x: "x < n" "ProcLock q \<in> set (locks_at l x (swpc c x))" using L by (simp_all add: locks_inv_def)
    have "x = h \<or> x = q" using x only [OF x(1)] ne by (cases "swpc c x") (auto split: if_splits)
    then show ?thesis using Some x by blast
  qed simp
  have self: "can_step ch l n h c \<and> swpc c h \<noteq> Parked" if "swpc c h \<in> {Crit, Leave, Prep 1}"
    using free_steps [OF assms(1) h(1)] that by auto
  consider "swpc c h \<in> {Crit, Leave, Prep 1}" | "swpc c h = Prep 0" | "swpc c h = Tail 3" | q i where "swpc c h = Wake q i"
    using h(2) pc ne by (cases "swpc c h") (auto split: if_splits simp: less_4)
  then show ?thesis
  proof cases
    case 1
    then show ?thesis using self h(1) by blast
  next
    case 2
    then have "slk c (ProcLock h) = None" using own [of h] ne by auto
    then obtain d where "on_cpu h (sleep_prep h ch l ! 0) c = Some d" using can_acquire by (fastforce simp: sleep_prep_def)
    then have "can_step ch l n h c" using prep [OF h(1) 2] unfolding can_step_def by blast
    then show ?thesis using 2 h(1) by auto
  next
    case 3
    then have "slk c (ProcLock h) = None" using own [of h] ne by auto
    then obtain d where "on_cpu h (sleep_tail h l ! 3) c = Some d" using can_signal by (fastforce simp: sleep_tail_def)
    then have "can_step ch l n h c" using tail [OF h(1) 3] unfolding can_step_def by blast
    then show ?thesis using 3 h(1) by auto
  next
    case (4 q i)
    have W: "i < 3" "q \<le> NPROC" "0 < i \<longrightarrow> q \<noteq> h \<and> q < NPROC" using pc 4 by simp_all
    note w = wake [OF h(1) 4]
    consider "q = NPROC" "i = 0" | "q = h" "i = 0" | "q < NPROC" "q \<noteq> h" "i = 0" | "q < NPROC" "q \<noteq> h" "i = 1"
      | "q < NPROC" "q \<noteq> h" "i = 2"
      using W unfolding less_3 by (cases "q = NPROC"; cases "q = h") auto
    then show ?thesis
    proof cases
      case 1
      then show ?thesis using wake_done [OF h(1)] 4 h(1) unfolding can_step_def by (intro exI [of _ h]) auto
    next
      case 2
      then show ?thesis using wake_self [OF h(1)] 4 h(1) assms(4) unfolding can_step_def by (intro exI [of _ h]) auto
    next
      case 3
      show ?thesis
      proof (cases "slk c (ProcLock q) = None")
        case True
        then obtain d where "on_cpu h (wakeup_one q ch ! i) c = Some d"
          using can_acquire [of c "ProcLock q" h] 3 by (auto simp: wakeup_one_def)
        then have "can_step ch l n h c" using w [OF 3(1,2)] unfolding can_step_def by blast
        then show ?thesis using 4 h(1) by auto
      next
        case False
        then have x: "q < n" "ProcLock q \<in> set (locks_at l q (swpc c q))" using own [of q] 4 3 ne by auto
        have "l \<notin> set (locks_at l q (swpc c q))" using only [OF x(1)] 3(2) by blast
        moreover have "pc_ok q (swpc c q)" using L x(1) by (simp add: locks_inv_def)
        ultimately have "swpc c q \<in> {Prep 2, Prep 3, Sched, Picked, Tail 0, Tail 1}"
          using x(2) ne by (cases "swpc c q") (auto split: if_splits simp: less_4 le_Suc_eq)
        then show ?thesis using free_steps [OF assms(1) x(1)] x(1) by auto
      qed
    next
      case p4: 4
      obtain d where "on_cpu h (wakeup_one q ch ! i) c = Some d"
        using can_some [of h "\<lambda>s. if pstate (procs s q) = SLEEPING \<and> pchan (procs s q) = ch
                 then set_proc q (\<lambda>x. x\<lparr>pstate := RUNNABLE\<rparr>) s else s" c] p4 by (auto simp: wakeup_one_def)
      then have "can_step ch l n h c" using w [OF p4(1,2)] unfolding can_step_def by blast
      then show ?thesis using \<open>swpc c h = Wake q i\<close> h(1) by auto
    next
      case 5
      have "ProcLock q \<in> set (locks_at l h (swpc c h))" using 4 5 by simp
      then obtain d where "on_cpu h (wakeup_one q ch ! i) c = Some d"
        using can_release [of c "ProcLock q" h] held_lock [OF L h(1)] 5 by (fastforce simp: wakeup_one_def)
      then have "can_step ch l n h c" using w [OF 5(1,2)] unfolding can_step_def by blast
      then show ?thesis using 4 h(1) by auto
    qed
  qed
qed

lemma someone_steps:
  assumes "sw_inv ch l n c" "\<forall>q. l \<noteq> ProcLock q" "n \<le> NPROC" "p < n" "swpc c p \<noteq> Parked"
  shows "\<exists>p < n. swpc c p \<noteq> Parked \<and> can_step ch l n p c"
proof (cases "slk c l")
  case None
  have L: "locks_inv l n c" using assms(1) by (simp add: sw_inv_def)
  have nl: "l \<notin> set (locks_at l p (swpc c p))" using held_lock [OF L assms(4)] None by auto
  have pc: "pc_ok p (swpc c p)" using L assms(4) by (simp add: locks_inv_def)
  have "swpc c p = Out \<or> swpc c p = Tail 2 \<or> swpc c p \<in> {Prep 2, Prep 3, Sched, Picked, Tail 0, Tail 1}"
    using nl pc assms(5) by (cases "swpc c p") (auto split: if_splits simp: less_4 le_Suc_eq)
  moreover have "can_step ch l n p c" if "swpc c p = Out"
    using enter [OF assms(4) that] can_acquire [OF None] by (fastforce simp: can_step_def)
  moreover have "can_step ch l n p c" if t: "swpc c p = Tail 2"
  proof -
    obtain d where "on_cpu p (sleep_tail p l ! 2) c = Some d" using can_acquire [OF None] by (fastforce simp: sleep_tail_def)
    then show ?thesis using tail [OF assms(4) t] by (auto simp: can_step_def)
  qed
  ultimately have "can_step ch l n p c" using free_steps [OF assms(1,4)] by auto
  then show ?thesis using assms(4,5) by blast
next
  case (Some h)
  then show ?thesis using holder_steps [OF assms(1) _ assms(2,3)] by blast
qed

section \<open>No lost wakeup\<close>

lemma sleeper_waits: "state_at ch pc x \<Longrightarrow> pstate x = SLEEPING \<Longrightarrow> waits pc x \<and> pchan x = ch"
  by (cases pc) auto

lemma pending_locks: "pending pc p \<Longrightarrow> l \<in> set (locks_at l w pc) \<and> (\<exists>q i. pc = Wake q i \<and> q \<le> p)"
  by (cases pc) auto

text \<open>C13: No wakeup is lost.  However the statements of \<open>sleep\<close>, of \<open>wakeup\<close> and of the scheduler
  interleave, while a process sleeps although the condition holds, another process holds the lock and
  is in a call of \<open>wakeup\<close> that has still to come to the sleeper; so when the lock is free and the
  condition holds, nobody sleeps.  And unless every process is switched out, one that is not
  can go on: no lock is waited for in a circle and \<open>acquire\<close>, \<open>release\<close> and \<open>sched\<close> do not panic.\<close>
theorem no_lost_wakeup:
  assumes "sw_reach ch l n c" "n \<le> NPROC" "\<forall>q. l \<noteq> ProcLock q"
  shows "(\<forall>p < n. ready c \<and> pstate (procs (shared c) p) = SLEEPING \<longrightarrow>
      (\<exists>w q i. w < n \<and> w \<noteq> p \<and> lk (shared c) l = Some w \<and> swpc c w = Wake q i \<and> (q < p \<or> q = p \<and> i \<le> 1))) \<and>
    (ready c \<and> lk (shared c) l = None \<longrightarrow> (\<forall>p < n. pstate (procs (shared c) p) \<noteq> SLEEPING)) \<and>
    ((\<forall>p < n. swpc c p = Parked) \<or> (\<exists>p d. p < n \<and> swpc c p \<noteq> Parked \<and> sw_step ch l n p c d))"
proof -
  have I: "sw_inv ch l n c" by (rule sw_inv_reach [OF assms])
  have A: "\<exists>w q i. w < n \<and> w \<noteq> p \<and> slk c l = Some w \<and> swpc c w = Wake q i \<and> (q < p \<or> q = p \<and> i \<le> 1)"
    if p: "p < n" "ready c" "pstate (sprocs c p) = SLEEPING" for p
  proof -
    have w: "waits (swpc c p) (sprocs c p)" using I p sleeper_waits [of ch "swpc c p"] by (auto simp: sw_inv_def states_inv_def)
    then obtain w where w': "w < n" "pending (swpc c w) p" using I p by (auto simp: sw_inv_def wake_inv_def)
    have "slk c l = Some w" using I w' pending_locks [OF w'(2)] by (simp add: sw_inv_def locks_inv_def)
    moreover have "w \<noteq> p" using w w'(2) by (cases "swpc c p") auto
    ultimately show ?thesis using w' by (cases "swpc c w") auto
  qed
  have "(\<forall>p < n. swpc c p = Parked) \<or> (\<exists>p d. p < n \<and> swpc c p \<noteq> Parked \<and> sw_step ch l n p c d)"
    using someone_steps [OF I assms(3,2)] by (auto simp: can_step_def)
  then show ?thesis using A by force
qed

definition monitor :: sw_sys where
  \<comment> \<open>all processes run, no lock is held and the condition is false\<close>
  "monitor = \<lparr>shared = (kproc.truncate machine)\<lparr>procs := \<lambda>_. zero_proc\<lparr>pstate := RUNNING\<rparr>\<rparr>, nofs = \<lambda>_. 0,
     ready = False, swpc = \<lambda>_. Out\<rparr>"

lemma monitor_start: "sw_start n monitor"
  by (simp add: sw_start_def monitor_def machine_def kproc.defs)

lemma sleep_prep_nth [simp]:
  "sleep_prep p ch l ! 0 = acquire (ProcLock p)" "sleep_prep p ch l ! 1 = release l" "sleep_prep p ch l ! Suc 0 = release l"
  "sleep_prep p ch l ! 2 = (\<lambda>s. Some (set_proc p (\<lambda>x. x\<lparr>pchan := ch\<rparr>) s))"
  "sleep_prep p ch l ! 3 = (\<lambda>s. Some (set_proc p (\<lambda>x. x\<lparr>pstate := SLEEPING\<rparr>) s))"
  by (simp_all add: sleep_prep_def)

lemma falls_asleep:
  \<comment> \<open>process \<open>p\<close> alone runs from the test of the condition to the scheduler\<close>
  assumes "sw_reach ch l n c" "n \<le> NPROC" "\<forall>q. l \<noteq> ProcLock q" "p < n" "swpc c p = Crit" "\<not> ready c"
    and "\<forall>x < n. x \<noteq> p \<longrightarrow> swpc c x = Out"
  shows "\<exists>d. sw_reach ch l n d \<and> swpc d = (swpc c)(p := Parked) \<and> \<not> ready d \<and> pstate (sprocs d p) = SLEEPING"
proof -
  have inv: "sw_inv ch l n e" if "sw_reach ch l n e" for e by (rule sw_inv_reach [OF that assms(2,3)])
  have H: "k \<in> set (locks_at l p (swpc e p)) \<Longrightarrow> slk e k = Some p \<and> 0 < nofs e p" if "sw_reach ch l n e" for e k
    using held_lock [of l n e p k] assms(4) inv [OF that] by (simp add: sw_inv_def)
  have free: "slk e (ProcLock p) = None" if "sw_reach ch l n e" "swpc e = (swpc c)(p := Prep 0)" for e
  proof (cases "slk e (ProcLock p)")
    case (Some x)
    then have "x < n" "ProcLock p \<in> set (locks_at l x (swpc e x))" using inv [OF that(1)] by (simp_all add: sw_inv_def locks_inv_def)
    then show ?thesis using that(2) assms(3,7) by (cases "x = p") (simp_all, metis)
  qed simp
  have r1: "sw_reach ch l n (goto p (Prep 0) c)" by (rule sw_more [OF assms(1) must_wait [OF assms(4-6)]])
  obtain e2 where e2: "on_cpu p (acquire (ProcLock p)) (goto p (Prep 0) c) = Some e2"
    using can_acquire [OF free [OF r1]] by auto
  note f2 = on_cpu_acquire [OF e2]
  have r2: "sw_reach ch l n (goto p (Prep 1) e2)"
    using sw_more [OF r1 prep [OF assms(4), of _ 0 ch l e2]] e2 by simp
  obtain e3 where e3: "on_cpu p (release l) (goto p (Prep 1) e2) = Some e3"
    using can_release [of "goto p (Prep 1) e2" l p] H [OF r2, of l] by auto
  note f3 = on_cpu_release [OF e3]
  have r3: "sw_reach ch l n (goto p (Prep 2) e3)"
    using sw_more [OF r2 prep [OF assms(4), of _ 1 ch l e3]] e3 by (simp add: numeral_2_eq_2)
  obtain e4 where e4: "on_cpu p (\<lambda>s. Some (set_proc p (\<lambda>x. x\<lparr>pchan := ch\<rparr>) s)) (goto p (Prep 2) e3) = Some e4"
    using can_some by blast
  note f4 = on_cpu_some [OF e4]
  have r4: "sw_reach ch l n (goto p (Prep 3) e4)"
    using sw_more [OF r3 prep [OF assms(4), of _ 2 ch l e4]] e4 by simp
  obtain e5 where e5: "on_cpu p (\<lambda>s. Some (set_proc p (\<lambda>x. x\<lparr>pstate := SLEEPING\<rparr>) s)) (goto p (Prep 3) e4) = Some e5"
    using can_some by blast
  note f5 = on_cpu_some [OF e5]
  have r5: "sw_reach ch l n (goto p Sched e5)"
    using sw_more [OF r4 prep [OF assms(4), of _ 3 ch l e5]] e5 by simp
  have s5: "pstate (sprocs e5 p) = SLEEPING" using f5 by simp
  have "nofs e5 p = 1" using inv [OF r5] assms(4) by (simp add: sw_inv_def locks_inv_def)
  then obtain e6 where e6: "on_cpu p (sched (release (ProcLock p))) (goto p Sched e5) = Some e6"
    using can_sched [of "goto p Sched e5" p] H [OF r5, of "ProcLock p"] s5 by auto
  note f6 = on_cpu_release [OF on_cpu_sched [OF e6]]
  have r6: "sw_reach ch l n (goto p Parked e6)"
    by (rule sw_more [OF r5 switch [OF assms(4) _ e6]]) simp
  have "swpc (goto p Parked e6) = (swpc c)(p := Parked)" "\<not> ready (goto p Parked e6)" "pstate (sprocs (goto p Parked e6) p) = SLEEPING"
    using f2 f3 f4 f5 f6 s5 assms(6) by (simp_all add: same_rest_def)
  then show ?thesis using r6 by blast
qed

text \<open>Process 0 sleeps; process 1 takes the lock, makes the condition true and is about to call \<open>wakeup\<close>.\<close>

lemma waker_arrives:
  "\<exists>c. sw_reach OnLog LogLock 2 c \<and> ready c \<and> pstate (procs (shared c) 0) = SLEEPING \<and> swpc c 1 = Wake 0 0"
proof -
  have n: "(2 :: nat) \<le> NPROC" by (simp add: NPROC_def)
  have r0: "sw_reach OnLog LogLock 2 monitor" by (rule sw_begin [OF monitor_start])
  have m: "slk monitor LogLock = None" "\<not> ready monitor" "swpc monitor = (\<lambda>_. Out)"
    by (simp_all add: monitor_def machine_def kproc.defs)
  obtain c1 where c1: "on_cpu 0 (acquire LogLock) monitor = Some c1" using can_acquire [OF m(1)] by blast
  note f1 = on_cpu_acquire [OF c1]
  have r1: "sw_reach OnLog LogLock 2 (goto 0 Crit c1)" by (rule sw_more [OF r0 enter [OF _ _ c1]]) (simp_all add: m)
  obtain c2 where c2: "sw_reach OnLog LogLock 2 c2" "swpc c2 = (swpc (goto 0 Crit c1))(0 := Parked)" "\<not> ready c2"
      "pstate (sprocs c2 0) = SLEEPING"
    using falls_asleep [OF r1 n, of 0] f1 m by (auto simp: same_rest_def)
  have pcs: "swpc c2 x = (if x = 0 then Parked else Out)" for x using c2(2) f1 m(3) by (simp add: same_rest_def)
  have "slk c2 LogLock = None"
  proof (cases "slk c2 LogLock")
    case (Some x)
    then have "LogLock \<in> set (locks_at LogLock x (swpc c2 x))"
      using sw_inv_reach [OF c2(1) n] by (simp add: sw_inv_def locks_inv_def)
    then show ?thesis by (simp add: pcs split: if_splits)
  qed simp
  then obtain c3 where c3: "on_cpu 1 (acquire LogLock) c2 = Some c3" using can_acquire by blast
  note f3 = on_cpu_acquire [OF c3]
  have r3: "sw_reach OnLog LogLock 2 (goto 1 Crit c3)" by (rule sw_more [OF c2(1) enter [OF _ _ c3]]) (simp_all add: pcs)
  have "sw_reach OnLog LogLock 2 (goto 1 (Wake 0 0) ((goto 1 Crit c3)\<lparr>ready := True\<rparr>))"
    by (rule sw_more [OF r3 produce]) simp_all
  then show ?thesis using f3 c2(4) by (intro exI [of _ "goto 1 (Wake 0 0) ((goto 1 Crit c3)\<lparr>ready := True\<rparr>)"]) simp
qed

theorem no_lost_wakeup_witness:
  "\<exists>c. sw_reach OnLog LogLock 2 c \<and> ready c \<and> pstate (procs (shared c) 0) = SLEEPING \<and>
     (\<exists>w q i. w \<noteq> 0 \<and> lk (shared c) LogLock = Some w \<and> swpc c w = Wake q i)"
proof -
  obtain c where c: "sw_reach OnLog LogLock 2 c" "ready c" "pstate (sprocs c 0) = SLEEPING" using waker_arrives by blast
  have "(0 :: nat) < 2" "(2 :: nat) \<le> NPROC" by (simp_all add: NPROC_def)
  then show ?thesis
    using no_lost_wakeup [OF c(1), THEN conjunct1, rule_format, of 0] c by blast
qed

end
