(* ===== verification/FdProps.thy ===== *)
theory FdProps
  imports SysFile Machine
begin

text \<open>
  The typing of descriptors: every descriptor of every process names an entry of the file table, and
  the reference count of an entry is the number of descriptors that name it.
\<close>

definition fd_refs :: "'a kfile_scheme \<Rightarrow> nat \<Rightarrow> (nat \<times> nat) set" where
  \<comment> \<open>the descriptors, by process, that name file \<open>f\<close>\<close>
  "fd_refs s f = {(p, fd). p < NPROC \<and> fd < NOFILE \<and> pofile (procs s p) fd = Some f}"

definition fd_typed :: "'a kfile_scheme \<Rightarrow> bool" where
  "fd_typed s \<longleftrightarrow> curp s < NPROC \<and> (\<forall>f < NFILE. f_ref (ftable s f) = int (card (fd_refs s f))) \<and>
     (\<forall>p < NPROC. \<forall>fd < NOFILE. \<forall>f. pofile (procs s p) fd = Some f \<longrightarrow> f < NFILE)"

lemma fd_refs_finite [simp]: "finite (fd_refs s f)"
  by (rule finite_subset [of _ "{..<NPROC} \<times> {..<NOFILE}"]) (auto simp: fd_refs_def)

lemma free_fd_lowest:
  "free_fd k fd F = Some x \<Longrightarrow> fd \<le> x \<and> x < fd + k \<and> F x = None \<and> (\<forall>j. fd \<le> j \<and> j < x \<longrightarrow> F j \<noteq> None)"
proof (induction k arbitrary: fd)
  case (Suc k)
  show ?case
  proof (cases "F fd")
    case (Some f)
    then have x: "Suc fd \<le> x" "x < fd + Suc k" "F x = None" "\<And>j. Suc fd \<le> j \<Longrightarrow> j < x \<Longrightarrow> F j \<noteq> None"
      using Suc.IH [of "Suc fd"] Suc.prems by auto
    have "F j \<noteq> None" if "fd \<le> j" "j < x" for j using Some x(4) [of j] that by (cases "j = fd") auto
    then show ?thesis using x by auto
  qed (use Suc.prems in auto)
qed simp

lemma free_fd_none: "free_fd k fd F = None \<Longrightarrow> \<forall>j < k. F (fd + j) \<noteq> None"
proof (induction k arbitrary: fd)
  case (Suc k)
  then have a: "F fd \<noteq> None" "free_fd k (Suc fd) F = None" by (auto split: if_splits)
  have "F (Suc fd + j) \<noteq> None" if "j < k" for j using Suc.IH [OF a(2)] that by blast
  then show ?case using a(1) by (auto simp: less_Suc_eq_0_disj)
qed simp

lemma fd_refs_set:
  assumes "curp s < NPROC" "fd < NOFILE"
  shows "fd_refs (set_ofile fd v s) f =
    (if v = Some f then insert (curp s, fd) (fd_refs s f) else fd_refs s f - {(curp s, fd)})"
  using assms by (auto simp: fd_refs_def set_ofile_def set_proc_def split: if_splits)

lemma argfd_some:
  "argfd 0 s = Some (Some (fd, f)) \<Longrightarrow> fd < NOFILE \<and> pofile (procs s (curp s)) fd = Some f"
  by (auto simp: argfd_def argint_def argraw_def split: if_splits)

lemma argfd_total: "\<exists>a. argfd 0 s = Some a"
  by (simp add: argfd_def argint_def argraw_def)

definition counted :: "nat \<Rightarrow> int \<Rightarrow> 'a kfile_scheme \<Rightarrow> 'a kfile_scheme" where
  "counted f d s = set_file f (\<lambda>x. x\<lparr>f_ref := f_ref x + d\<rparr>) s"

lemma filedup_eq:
  "lk s FtableLock = None \<Longrightarrow> 1 \<le> f_ref (ftable s f) \<Longrightarrow> filedup f s = Some (f, counted f 1 s)"
  by (simp add: filedup_def kernel_simps Let_def set_file_def counted_def fun_upd_idem)

lemma fileclose_eq:
  "lk s FtableLock = None \<Longrightarrow> 1 < f_ref (ftable s f) \<Longrightarrow> fileclose so f s = Some (counted f (- 1) s)"
  by (simp add: fileclose_def kernel_simps Let_def set_file_def counted_def fun_upd_idem)

lemma counted_simps [simp]:
  "fd_refs (counted f d s) g = fd_refs s g" "f_ref (ftable (counted f d s) g) = (if g = f then f_ref (ftable s f) + d else f_ref (ftable s g))"
  "procs (counted f d s) = procs s" "curp (counted f d s) = curp s"
  by (simp_all add: counted_def set_file_def fd_refs_def)

lemma set_ofile_simps [simp]:
  "ftable (set_ofile fd v s) = ftable s" "lk (set_ofile fd v s) = lk s" "curp (set_ofile fd v s) = curp s"
  "pofile (procs (set_ofile fd v s) (curp s)) = (pofile (procs s (curp s)))(fd := v)"
  by (simp_all add: set_ofile_def set_proc_def)

lemma fd_typed_update:
  assumes "fd_typed s" "n < NOFILE" "\<And>f. v = Some f \<Longrightarrow> f < NFILE" "f < NFILE"
    and "\<And>g. g < NFILE \<Longrightarrow> int (card (fd_refs (set_ofile n v s) g)) = int (card (fd_refs s g)) + (if g = f then d else 0)"
  shows "fd_typed (counted f d (set_ofile n v s))"
  unfolding fd_typed_def
proof (intro conjI allI impI)
  show "curp (counted f d (set_ofile n v s)) < NPROC" using assms(1) by (simp add: fd_typed_def)
  show "f_ref (ftable (counted f d (set_ofile n v s)) g) = int (card (fd_refs (counted f d (set_ofile n v s)) g))"
    if "g < NFILE" for g
    using assms(1,4) assms(5) [OF that] that by (simp add: fd_typed_def)
  show "g < NFILE" if "p < NPROC" "fd < NOFILE" "pofile (procs (counted f d (set_ofile n v s)) p) fd = Some g" for p fd g
    using assms(1,3) that by (auto simp: fd_typed_def set_ofile_def set_proc_def split: if_splits)
qed

lemma fd_typed_install:
  assumes "fd_typed s" "n < NOFILE" "pofile (procs s (curp s)) n = None" "f < NFILE"
  shows "fd_typed (counted f 1 (set_ofile n (Some f) s))"
proof (rule fd_typed_update [OF assms(1,2)])
  have "curp s < NPROC" using assms(1) by (simp add: fd_typed_def)
  note r = fd_refs_set [OF this assms(2)]
  fix g
  have "(curp s, n) \<notin> fd_refs s g" using assms(3) by (simp add: fd_refs_def)
  then show "int (card (fd_refs (set_ofile n (Some f) s) g)) = int (card (fd_refs s g)) + (if g = f then 1 else 0)"
    by (auto simp: r)
qed (use assms(4) in auto)

lemma fd_typed_remove:
  assumes "fd_typed s" "n < NOFILE" "pofile (procs s (curp s)) n = Some f"
  shows "fd_typed (counted f (- 1) (set_ofile n None s))"
proof (rule fd_typed_update [OF assms(1,2)])
  have P: "curp s < NPROC" using assms(1) by (simp add: fd_typed_def)
  note r = fd_refs_set [OF P assms(2)]
  show "f < NFILE" using assms P by (auto simp: fd_typed_def)
  fix g
  have m: "(curp s, n) \<in> fd_refs s f" using P assms by (simp add: fd_refs_def)
  then have "card (fd_refs s f) = Suc (card (fd_refs s f - {(curp s, n)}))" by (rule card.remove [OF fd_refs_finite])
  moreover have "g \<noteq> f \<Longrightarrow> (curp s, n) \<notin> fd_refs s g" using assms(3) by (simp add: fd_refs_def)
  ultimately show "int (card (fd_refs (set_ofile n None s) g)) = int (card (fd_refs s g)) + (if g = f then - 1 else 0)"
    by (auto simp: r)
qed auto

text \<open>C40: \<open>dup\<close> and \<open>close\<close> keep descriptors well typed: each names an entry of the file table, whose
  reference count is the number of descriptors that name it.  \<open>dup\<close> returns the lowest free descriptor
  of the process, which then names the same file, or -1 without a change; \<open>close\<close> frees its descriptor, here of
  a file that others still name.\<close>
theorem dup_close_keep_typing:
  assumes "fd_typed s" "lk s FtableLock = None" "argfd 0 s = Some (Some (n, f))"
  defines "F \<equiv> pofile (procs s (curp s))"
  shows "(sys_dup s = Some (-1, s) \<and> (\<forall>j < NOFILE. F j \<noteq> None) \<or>
      (\<exists>r t. sys_dup s = Some (int r, t) \<and> fd_typed t \<and> r < NOFILE \<and> F r = None \<and> (\<forall>j < r. F j \<noteq> None) \<and>
         pofile (procs t (curp s)) = F(r \<mapsto> f))) \<and>
    (1 < f_ref (ftable s f) \<longrightarrow>
      (\<exists>t. sys_close en s = Some (0, t) \<and> fd_typed t \<and> pofile (procs t (curp s)) = F(n := None)))"
proof
  have P: "curp s < NPROC" using assms(1) by (simp add: fd_typed_def)
  have n: "n < NOFILE" "pofile (procs s (curp s)) n = Some f" using argfd_some [OF assms(3)] by simp_all
  have f: "f < NFILE" using assms(1) P n by (auto simp: fd_typed_def)
  have "(curp s, n) \<in> fd_refs s f" using P n by (simp add: fd_refs_def)
  then have "1 \<le> card (fd_refs s f)" using card_gt_0_iff [of "fd_refs s f"] by (auto simp: Suc_le_eq)
  then have ref: "1 \<le> f_ref (ftable s f)" using assms(1) f by (simp add: fd_typed_def)
  show "sys_dup s = Some (-1, s) \<and> (\<forall>j < NOFILE. F j \<noteq> None) \<or>
      (\<exists>r t. sys_dup s = Some (int r, t) \<and> fd_typed t \<and> r < NOFILE \<and> F r = None \<and> (\<forall>j < r. F j \<noteq> None) \<and>
         pofile (procs t (curp s)) = F(r \<mapsto> f))"
  proof (cases "free_fd NOFILE 0 F")
    case None
    then show ?thesis
      using assms(3) free_fd_none [OF None] by (simp add: sys_dup_def fdalloc_def F_def)
  next
    case (Some r)
    then have "sys_dup s = Some (int r, counted f 1 (set_ofile r (Some f) s))"
      using assms(2,3) ref by (simp add: sys_dup_def fdalloc_def filedup_eq F_def)
    then show ?thesis
      using free_fd_lowest [OF Some] fd_typed_install [OF assms(1) _ _ f, of r] by (auto simp: F_def)
  qed
  show "1 < f_ref (ftable s f) \<longrightarrow>
      (\<exists>t. sys_close en s = Some (0, t) \<and> fd_typed t \<and> pofile (procs t (curp s)) = F(n := None))"
    using assms(2,3) fd_typed_remove [OF assms(1) n] by (auto simp: sys_close_def fileclose_eq F_def)
qed

definition shared_file :: kfile where
  \<comment> \<open>descriptors 0 and 2 of process 0 name file 5\<close>
  "shared_file = machine\<lparr>procs := (procs machine)(0 := (procs machine 0)\<lparr>pofile := (\<lambda>_. None)(0 \<mapsto> 5, 2 \<mapsto> 5)\<rparr>),
     ftable := (ftable machine)(5 := zero_file\<lparr>f_type := FD_INODE, f_ref := 2\<rparr>)\<rparr>"

theorem dup_close_keep_typing_witness:
  "(\<exists>t. sys_dup shared_file = Some (1, t) \<and> fd_typed t) \<and>
   (\<forall>en. \<exists>t. sys_close en shared_file = Some (0, t) \<and> fd_typed t \<and> pofile (procs t 0) 0 = None)"
proof -
  have s: "curp shared_file = 0" "lk shared_file = (\<lambda>_. None)"
      "pofile (procs shared_file p) fd = (if p = 0 \<and> (fd = 0 \<or> fd = 2) then Some 5 else None)"
      "ftable shared_file = (\<lambda>_. zero_file)(5 := zero_file\<lparr>f_type := FD_INODE, f_ref := 2\<rparr>)" for p fd
    by (auto simp: shared_file_def machine_def zero_proc_def)
  have r: "fd_refs shared_file g = (if g = 5 then {(0, 0), (0, 2)} else {})" for g
    by (auto simp: fd_refs_def s NPROC_def NOFILE_def)
  have "fd_typed shared_file"
    by (auto simp: fd_typed_def s r NPROC_def NFILE_def zero_file_def)
  moreover have "argfd 0 shared_file = Some (Some (0, 5))"
    by (simp add: argfd_def argint_def argraw_def s NOFILE_def) (simp add: shared_file_def machine_def zero_trapframe_def)
  moreover have "r = 1" if "pofile (procs shared_file 0) r = None" "\<forall>j < r. pofile (procs shared_file 0) j \<noteq> None" for r
  proof -
    have "\<not> 1 < r" using that(2) s(3) [of 0 1] by auto
    moreover have "r \<noteq> 0" using that(1) s(3) [of 0 0] by (cases r) auto
    ultimately show ?thesis by simp
  qed
  moreover have "\<not> (\<forall>j < NOFILE. pofile (procs shared_file 0) j \<noteq> None)"
    using s(3) [of 0 1] by (auto simp: NOFILE_def intro: exI [of _ 1])
  moreover have "1 < f_ref (ftable shared_file 5)" by (simp add: s)
  ultimately show ?thesis
    using dup_close_keep_typing [of shared_file 0 5] s(1,2) by (metis fun_upd_same of_nat_1)
qed

end
