(* ===== verification/Debugtbl.thy ===== *)
theory Debugtbl
  imports Virtio
begin

text \<open>
  \<open>kernel/debugtbl.c\<close>: the table of addresses and source lines that a back trace prints, read from
  the file \<open>/debugtbl\<close> at the first \<open>exec\<close>, and the binary search in it.  \<open>None\<close> is also an access
  outside the arrays.
\<close>

definition MAX_LINE_LENGTH :: nat where "MAX_LINE_LENGTH = 128"
definition MAX_ROW_LENGTH :: nat where "MAX_ROW_LENGTH = 8192"

record kdbg = kdisk +
  debugtbl_addr :: "nat \<Rightarrow> u32"
  debugtbl_info :: "nat \<Rightarrow> bytes"
  debugtbl_row :: nat
  dcache :: bytes
  cache_idx :: nat
  cache_cnt :: nat

section \<open>Reading the table\<close>

fun take_cached :: "nat \<Rightarrow> nat \<Rightarrow> bytes \<Rightarrow> 'a kdbg_scheme \<Rightarrow> bool \<times> nat \<times> bytes \<times> 'a kdbg_scheme" where
  \<comment> \<open>the inner loop of \<open>readline\<close>, with room for \<open>k\<close> more characters; \<open>True\<close>: the end of a line\<close>
  "take_cached 0 i buf s = (False, i, buf, s)"
| "take_cached (Suc k) i buf s =
     (if cache_cnt s > cache_idx s
      then let c = dcache s (of_nat (cache_idx s));
               s = s\<lparr>cache_idx := cache_idx s + 1\<rparr>
           in if c = 10 then (True, i, buf(of_nat i := 0), s)
              else take_cached k (i + 1) (buf(of_nat i := c)) s
      else (False, i, buf, s))"

partial_function (option) readline ::
  "nat \<Rightarrow> u32 \<Rightarrow> nat \<Rightarrow> bytes \<Rightarrow> 'a kdbg_scheme \<Rightarrow> (int \<times> u32 \<times> bytes \<times> 'a kdbg_scheme) option" where
  \<comment> \<open>from the state in which \<open>i\<close> characters are stored\<close>
  "readline ip off i buf s =
     (if i < MAX_LINE_LENGTH
      then let (eol, i, buf, s) = take_cached (MAX_LINE_LENGTH - i) i buf s in
        if eol then Some (int i, off, buf, s)
        else if i = MAX_LINE_LENGTH then panic ''line char overflow''
        else do {
          (n, c, s) \<leftarrow> read_local ip (dcache s) off (of_nat PGSIZE) s;
          let s = s\<lparr>dcache := c\<rparr>;
          (if n \<le> 0 then Some (int i, off, buf, s)
           else readline ip (off + of_int n) i buf (s\<lparr>cache_cnt := nat n, cache_idx := 0\<rparr>)) }
      else Some (int i, off, buf, s))"

definition hex_digit :: "u8 \<Rightarrow> u8 option" where
  "hex_digit c =
     (if c \<ge> 48 \<and> c \<le> 57 then Some (c - 48)
      else if c \<ge> 97 \<and> c \<le> 102 then Some (c - 97 + 10)
      else panic ''invalid address content'')"

fun parse_addr :: "nat \<Rightarrow> nat \<Rightarrow> bytes \<Rightarrow> u32 \<Rightarrow> u32 option" where
  "parse_addr 0 i buf addr = Some addr"
| "parse_addr (Suc k) i buf addr = do {
     c \<leftarrow> hex_digit (buf (of_nat i));
     parse_addr k (i + 1) buf (push_bit 4 addr OR ucast c) }"

partial_function (option) readfile ::
  "nat \<Rightarrow> u32 \<Rightarrow> bytes \<Rightarrow> 'a kdbg_scheme \<Rightarrow> (int \<times> 'a kdbg_scheme) option" where
  "readfile ip off buf s = do {
     (n, off, buf, s) \<leftarrow> readline ip off 0 buf s;
     (if n > 0
      then if n < 8 then panic ''debugtbl format error''
      else do {
        addr \<leftarrow> parse_addr 8 0 buf 0;
        let row = debugtbl_row s;
        (if row \<ge> MAX_ROW_LENGTH then None
         else readfile ip off buf
           (s\<lparr>debugtbl_addr := (debugtbl_addr s)(row := addr),
              debugtbl_info := (debugtbl_info s)(row := mem_copy 0 buf 9 (nat n) (debugtbl_info s row)),
              debugtbl_row := row + 1\<rparr>)) }
      else Some (if n < 0 then -1 else 0, s)) }"

definition initdebugtbl :: "(nat \<Rightarrow> ('a kdbg_scheme) devops) \<Rightarrow> bytes \<Rightarrow> 'a kdbg_scheme \<Rightarrow> (int \<times> 'a kdbg_scheme) option" where
  \<comment> \<open>\<open>stk\<close>: what the array \<open>buf\<close> on the stack holds\<close>
  "initdebugtbl dv stk s = do {
     s \<leftarrow> begin_op s;
     (ip, s) \<leftarrow> namei dv (asc ''/debugtbl'') s;
     (case ip of
        None \<Rightarrow> do { s \<leftarrow> end_op s; Some (-1, s) }
      | Some ip \<Rightarrow> do {
          s \<leftarrow> ilock ip s;
          (r, s) \<leftarrow> readfile ip 0 stk s;
          s \<leftarrow> iunlockput ip s;
          s \<leftarrow> end_op s;
          Some (if r < 0 then -1 else 0, s) }) }"

section \<open>Searching it\<close>

partial_function (option) debug_search :: "(nat \<Rightarrow> u32) \<Rightarrow> u64 \<Rightarrow> u32 \<Rightarrow> u32 \<Rightarrow> u32 option" where
  \<comment> \<open>the loop of \<open>get_debuginfo\<close>, to the final \<open>left\<close>\<close>
  "debug_search tbl address left right =
     (if left \<le> right
      then let mid = drop_bit 1 (left + right) in
        if unat mid \<ge> MAX_ROW_LENGTH then None
        else if address < ucast (tbl (unat mid)) then debug_search tbl address left (mid - 1)
        else debug_search tbl address (mid + 1) right
      else Some left)"

definition get_debuginfo :: "u64 \<Rightarrow> 'a kdbg_scheme \<Rightarrow> int option" where
  "get_debuginfo address s = do {
     left \<leftarrow> debug_search (debugtbl_addr s) address 0 (of_nat (debugtbl_row s) - 1);
     Some (sint (left - 1)) }"

fun info_chars :: "nat \<Rightarrow> nat \<Rightarrow> (nat \<Rightarrow> bytes) \<Rightarrow> u8 list option" where
  \<comment> \<open>the string at position \<open>i\<close> of the array \<open>debugtbl_info\<close>, of which \<open>k\<close> bytes are left\<close>
  "info_chars 0 i m = None"
| "info_chars (Suc k) i m =
     (let c = m (i div MAX_LINE_LENGTH) (of_nat (i mod MAX_LINE_LENGTH)) in
      if c = 0 then Some [] else map_option ((#) c) (info_chars k (i + 1) m))"

definition debug_line :: "nat \<Rightarrow> 'a kdbg_scheme \<Rightarrow> u8 list option" where
  "debug_line idx s =
     info_chars ((MAX_ROW_LENGTH - idx) * MAX_LINE_LENGTH) (idx * MAX_LINE_LENGTH) (debugtbl_info s)"

partial_function (option) backtrace_loop :: "u64 \<Rightarrow> u64 \<Rightarrow> 'a kdbg_scheme \<Rightarrow> 'a kdbg_scheme option" where
  "backtrace_loop fp i s =
     (if PGROUNDDOWN fp = PGROUNDDOWN i
      then do {
        let addr = ld64 (mem s) (i - 8);
        idx \<leftarrow> get_debuginfo addr s;
        s \<leftarrow> (if idx < 0 then printf (asc ''%p'' @ [10]) [VPtr addr] s
              else do {
                line \<leftarrow> debug_line (nat idx) s;
                printf (asc ''%p %s'' @ [10]) [VPtr addr, VStr (Some line)] s });
        backtrace_loop fp (ld64 (mem s) (i - 16)) s }
      else Some s)"

definition backtrace :: "u64 \<Rightarrow> 'a kdbg_scheme \<Rightarrow> 'a kdbg_scheme option" where
  \<comment> \<open>\<open>fp\<close>: the frame pointer\<close>
  "backtrace fp s = do {
     s \<leftarrow> printf (asc ''backtrace:'' @ [10]) [] s;
     backtrace_loop fp fp s }"

end
