(* ===== verification/Trap.thy ===== *)
theory Trap
  imports Debugtbl
begin

text \<open>
  System call dispatch (\<open>kernel/syscall.c\<close>), traps (\<open>kernel/trap.c\<close>) and the device switch that
  \<open>consoleinit\<close> and \<open>procfsinit\<close> fill.  What is not C is in the argument \<open>h\<close>: what runs during a
  context switch, the interrupt controller, the reaction of the disk, the \<open>float\<close> arithmetic of the
  load average, the bytes of fresh stack frames, the frame pointer and the addresses of the assembly
  routines.
\<close>

record 's hw =
  hw_world :: "'s \<Rightarrow> 's option"
  hw_stack :: bytes
  hw_claim :: "'s \<Rightarrow> int \<times> 's"          \<comment> \<open>the value that reading \<open>PLIC_SCLAIM\<close> returns\<close>
  hw_complete :: "int \<Rightarrow> 's \<Rightarrow> 's"
  hw_react :: reaction
  hw_avg :: "int \<Rightarrow> u32 \<Rightarrow> u32"
  hw_fp :: u64
  hw_uservec :: u64
  hw_userret :: u64
  hw_usertrap :: u64
  hw_kernelvec :: u64

definition CONSOLE :: nat where "CONSOLE = 1"

definition devsw :: "('a ksys_scheme) hw \<Rightarrow> nat \<Rightarrow> ('a ksys_scheme) devops" where
  "devsw h n =
     (if n = CONSOLE then console_dev (hw_world h)
      else if n = unat PROCFS then procfs_dev (hw_stack h)
      else \<lparr>dv_isdir = None, dv_iread = None, dv_read = None, dv_write = None\<rparr>)"

definition kernel_env :: "('a ksys_scheme) hw \<Rightarrow> ('a ksys_scheme) env" where
  "kernel_env h = \<lparr>en_world = hw_world h, en_dv = devsw h, en_so = sock_ops (hw_world h), en_stack = hw_stack h\<rparr>"

section \<open>System calls\<close>

definition int_ret :: "('s \<Rightarrow> (int \<times> 's) option) \<Rightarrow> 's \<Rightarrow> (u64 \<times> 's) option" where
  \<comment> \<open>an \<open>int\<close> result in the \<open>uint64\<close> that \<open>syscalls[num]()\<close> yields\<close>
  "int_ret f s = map_option (\<lambda>(r, s). (of_int r, s)) (f s)"

definition sys_testbacktrace :: "u64 \<Rightarrow> 'a kdbg_scheme \<Rightarrow> (u64 \<times> 'a kdbg_scheme) option" where
  "sys_testbacktrace fp s = do { s \<leftarrow> backtrace fp s; Some (0, s) }"

definition load_debugtbl :: "('a kdbg_scheme) hw \<Rightarrow> 'a kdbg_scheme \<Rightarrow> 'a kdbg_scheme option" where
  \<comment> \<open>\<open>initdebugtbl()\<close> in \<open>exec\<close>, which ignores the result\<close>
  "load_debugtbl h s = do { (r, s) \<leftarrow> initdebugtbl (devsw h) (hw_stack h) s; Some s }"

definition syscalls :: "('a kdbg_scheme) hw \<Rightarrow> ('a kdbg_scheme \<Rightarrow> (u64 \<times> 'a kdbg_scheme) option) list" where
  \<comment> \<open>from \<open>SYS_fork\<close>, which is 1\<close>
  "syscalls h =
     (let en = kernel_env h; world = hw_world h in
      [int_ret sys_fork, int_ret (sys_exit en), int_ret (sys_wait en), int_ret (sys_pipe en), int_ret (sys_read en),
       int_ret sys_kill, int_ret (sys_exec (load_debugtbl h) en), int_ret (sys_fstat en), int_ret (sys_chdir en),
       int_ret sys_dup, int_ret sys_getpid, sys_sbrk, int_ret (sys_sleep en),
       (\<lambda>s. map_option (\<lambda>(r, s). (ucast r, s)) (sys_uptime s)), int_ret (sys_open en), int_ret (sys_write en),
       int_ret (sys_mknod en), int_ret (sys_unlink en), int_ret (sys_link en), int_ret (sys_mkdir en), int_ret (sys_close en),
       sys_mmap, int_ret (sys_munmap en), int_ret sys_svprint, int_ret sys_trace, int_ret (sys_sysinfo en),
       sys_sbrknaive, int_ret sys_dirtypages, int_ret sys_vmprint, int_ret sys_pgaccess, int_ret sys_sigalarm,
       sys_sigreturn, sys_testbacktrace (hw_fp h), int_ret sys_clone, int_ret (sys_join en),
       int_ret (sys_connect world), int_ret (sys_recvfrom world), int_ret (sys_sendto world), int_ret (sys_accept world),
       int_ret (sys_symlink en), int_ret sys_sigsend, int_ret sys_signal, int_ret sys_sigprocmask])"

definition syscall_names :: "string list" where
  "syscall_names = ['''', ''fork'', ''exit'', ''wait'', ''pipe'', ''read'', ''kill'', ''exec'', ''fstat'', ''chdir'', ''dup'',
     ''getpid'', ''sbrk'', ''sleep'', ''uptime'', ''open'', ''write'', ''mknod'', ''unlink'', ''link'', ''mkdir'',
     ''close'', ''mmap'', ''munmap'', ''svprint'', ''trace'', ''sysinfo'', ''sbrknaive'', ''dirtypages'', ''vmprint'',
     ''pgaccess'', ''sigalarm'', ''sigreturn'', ''testbacktrace'', ''clone'', ''join'', ''connect'', ''recvfrom'',
     ''sendto'', ''accept'', ''symlink'', ''sigsend'', ''signal'', ''sigprocmask'']"

definition syscall_arg_counts :: "nat list" where
  "syscall_arg_counts = [0, 0, 1, 1, 1, 3, 1, 2, 2, 1, 1, 0, 1, 1, 0, 2, 3, 3, 1, 2, 1, 1, 6, 2, 0, 1, 0, 1, 0, 0, 3, 2,
     0, 0, 0, 0, 5, 3, 5, 1, 2, 2, 2, 1]"

definition cur_tf :: "'a kproc_scheme \<Rightarrow> trapframe" where
  "cur_tf s = trapframes s (ptrapframe (procs s (curp s)))"

definition set_cur_tf :: "(trapframe \<Rightarrow> trapframe) \<Rightarrow> 'a kproc_scheme \<Rightarrow> 'a kproc_scheme" where
  "set_cur_tf f s = set_tf (ptrapframe (procs s (curp s))) f s"

definition set_a0 :: "u64 \<Rightarrow> 'a kproc_scheme \<Rightarrow> 'a kproc_scheme" where
  "set_a0 v = set_cur_tf (\<lambda>t. t\<lparr>tf_a := (tf_a t)(0 := v)\<rparr>)"

definition traced :: "int \<Rightarrow> nat \<Rightarrow> bool" where
  \<comment> \<open>\<open>trace_arg & (1 << num)\<close> with RISC-V's 32-bit shift, which takes \<open>num\<close> modulo 32\<close>
  "traced m num \<longleftrightarrow> (of_int m :: u32) AND push_bit (num mod 32) 1 \<noteq> 0"

definition print_trace :: "nat \<Rightarrow> u64 \<Rightarrow> 'a kcons_scheme \<Rightarrow> 'a kcons_scheme option" where
  "print_trace num tmp s = do {
     let a = tf_a (cur_tf s);
     let cnt = syscall_arg_counts ! num;
     s \<leftarrow> printf (asc ''%d: syscall %s -> %d '')
            [VInt (of_int (ppid (procs s (curp s)))), VStr (Some (asc (syscall_names ! num))), VInt (ucast (a 0))] s;
     s \<leftarrow> (if cnt > 0 then printf (asc '',params: %d '') [VInt (ucast tmp)] s else Some s);
     s \<leftarrow> (if cnt > 1 then printf (asc ''%d '') [VInt (ucast (a 1))] s else Some s);
     s \<leftarrow> (if cnt > 2 then printf (asc ''%d '') [VInt (ucast (a 2))] s else Some s);
     printf [10] [] s }"

definition syscall :: "('a kdbg_scheme) hw \<Rightarrow> 'a kdbg_scheme \<Rightarrow> 'a kdbg_scheme option" where
  "syscall h s =
     (let p = curp s; num = sint (ucast (tf_a (cur_tf s) 7) :: u32) in
      if num > 0 \<and> num < 44
      then do {
        let tmp = tf_a (cur_tf s) 0;
        (r, s) \<leftarrow> (syscalls h ! (nat num - 1)) s;
        let s = set_a0 r s;
        (if traced (ptrace_arg (procs s p)) (nat num) then print_trace (nat num) tmp s else Some s) }
      else do {
        name \<leftarrow> c_string 16 (pname (procs s p));
        s \<leftarrow> printf (asc ''%d %s: unknown sys call %d'' @ [10])
               [VInt (of_int (ppid (procs s p))), VStr (Some name), VInt (of_int num)] s;
        Some (set_a0 (-1) s) })"

section \<open>Interrupts\<close>

definition SSTATUS_SPP :: u64 where "SSTATUS_SPP = 2 ^ 8"
definition SSTATUS_SPIE :: u64 where "SSTATUS_SPIE = 2 ^ 5"
definition SSTATUS_SIE :: u64 where "SSTATUS_SIE = 2 ^ 1"
definition UART0_IRQ :: int where "UART0_IRQ = 10"
definition VIRTIO0_IRQ :: int where "VIRTIO0_IRQ = 1"
definition E1000_IRQ :: int where "E1000_IRQ = 33"

definition intr_on :: "'a ksys_scheme \<Rightarrow> 'a ksys_scheme" where
  "intr_on s = s\<lparr>sstatus := sstatus s OR SSTATUS_SIE\<rparr>"

definition intr_off :: "'a ksys_scheme \<Rightarrow> 'a ksys_scheme" where
  "intr_off s = s\<lparr>sstatus := sstatus s AND NOT SSTATUS_SIE\<rparr>"

definition intr_get :: "'a ksys_scheme \<Rightarrow> bool" where
  "intr_get s \<longleftrightarrow> sstatus s AND SSTATUS_SIE \<noteq> 0"

definition MAKE_SATP :: "u64 \<Rightarrow> u64" where
  "MAKE_SATP pt = push_bit 60 8 OR drop_bit 12 pt"

definition trapinit :: "'a kcpu_scheme \<Rightarrow> 'a kcpu_scheme" where
  "trapinit s = s\<lparr>lk := (lk s)(TicksLock := None)\<rparr>"

definition trapinithart :: "('a ksys_scheme) hw \<Rightarrow> 'a ksys_scheme \<Rightarrow> 'a ksys_scheme" where
  "trapinithart h s = s\<lparr>stvec := hw_kernelvec h\<rparr>"

definition clockintr :: "(int \<Rightarrow> u32 \<Rightarrow> u32) \<Rightarrow> 'a ksys_scheme \<Rightarrow> 'a ksys_scheme option" where
  "clockintr avg s = do {
     s \<leftarrow> (if ticks s mod 10 = 0 then update_page_age s else Some s);
     s \<leftarrow> acquire TicksLock s;
     let s = s\<lparr>ticks := ticks s + 1\<rparr>;
     let s = (if ticks s mod 10 = 0 then calculate_load_1m avg s else s);
     s \<leftarrow> wakeup OnTicks s;
     release TicksLock s }"

definition device_irq :: "reaction \<Rightarrow> int \<Rightarrow> 'a kdisk_scheme \<Rightarrow> 'a kdisk_scheme option" where
  "device_irq react irq s =
     (if irq = UART0_IRQ then uartintr s
      else if irq = VIRTIO0_IRQ then virtio_disk_intr react s
      else if irq = E1000_IRQ then e1000_intr s
      else if irq \<noteq> 0 then printf (asc ''unexpected interrupt irq=%d'' @ [10]) [VInt (of_int irq)] s
      else Some s)"

definition devintr :: "('a kdisk_scheme) hw \<Rightarrow> 'a kdisk_scheme \<Rightarrow> (int \<times> 'a kdisk_scheme) option" where
  "devintr h s =
     (let cause = scause s in
      if cause AND 0x8000000000000000 \<noteq> 0 \<and> cause AND 0xff = 9
      then do {
        let (irq, s) = hw_claim h s;
        s \<leftarrow> device_irq (hw_react h) irq s;
        let s = (if irq \<noteq> 0 then hw_complete h irq s else s);
        Some (1, s) }
      else if cause = 0x8000000000000001
      then do {
        s \<leftarrow> (if cpuid s = 0 then clockintr (hw_avg h) s else Some s);
        Some (2, s\<lparr>sip := sip s AND NOT 2\<rparr>) }
      else Some (0, s))"

section \<open>Traps from user space\<close>

definition usertrapret :: "('a ksys_scheme) hw \<Rightarrow> 'a ksys_scheme \<Rightarrow> u64 \<times> u64 \<times> 'a ksys_scheme" where
  \<comment> \<open>the arguments of the jump to \<open>userret\<close>: the address of the trap frame and the user page table\<close>
  "usertrapret h s =
     (let p = procs s (curp s);
          s = intr_off s;
          s = s\<lparr>stvec := TRAMPOLINE + (hw_uservec h - trampoline s)\<rparr>;
          s = set_cur_tf (\<lambda>t. t\<lparr>tf_kernel_satp := satp s, tf_kernel_sp := pkstack p + of_nat PGSIZE,
                tf_kernel_trap := hw_usertrap h, tf_kernel_hartid := of_nat (cpuid s)\<rparr>) s;
          x = sstatus s;
          x = x AND NOT SSTATUS_SPP;
          x = x OR SSTATUS_SPIE;
          s = s\<lparr>sstatus := x\<rparr>;
          s = s\<lparr>sepc := tf_epc (cur_tf s)\<rparr>
      in (ptrap_va p, MAKE_SATP (ppagetable p), s))"

definition trap_err :: "'a ksys_scheme \<Rightarrow> 'a ksys_scheme option" where
  \<comment> \<open>from the label \<open>err\<close>\<close>
  "trap_err s = do {
     s \<leftarrow> printf (asc ''usertrap(): unexpected scause %p pid=%d'' @ [10])
            [VPtr (scause s), VInt (of_int (ppid (procs s (curp s))))] s;
     s \<leftarrow> printf (asc ''            sepc=%p stval=%p'' @ [10]) [VPtr (sepc s), VPtr (stval s)] s;
     setkilled (curp s) s }"

definition page_fault :: "int \<Rightarrow> 'a ksys_scheme \<Rightarrow> 'a ksys_scheme option" where
  \<comment> \<open>causes 12, 13 and 15\<close>
  "page_fault rscause s =
     (let p = curp s; va = stval s in
      if va \<ge> MAXVA then trap_err s
      else do {
        pte \<leftarrow> walk_get (ppagetable (procs s p)) va s;
        (if pte = 0 \<or> pte_at s pte AND PTE_V = 0
         then do {
           (r, s) \<leftarrow> vma_handle p va s;
           (if r < 0 then do { s \<leftarrow> printf (asc ''vma_handle fail'' @ [10]) [] s; trap_err s } else Some s) }
         else if rscause = 13 \<or> rscause = 12
         then do {
           s \<leftarrow> printf (asc ''read fail %p %d %d'' @ [10])
                  [VPtr (pte_at s pte), VInt (ucast (pte_at s pte AND PTE_R)), VInt (ucast (pte_at s pte AND PTE_U))] s;
           trap_err s }
         else do {
           (r, s) \<leftarrow> copyonwrite pte s;
           (if r \<noteq> 0
            then do {
              let e = pte_at s pte;
              s \<leftarrow> printf (asc ''cow fail %p %d %d %p'' @ [10])
                     [VPtr e, VInt (ucast (e AND PTE_W)), VInt (ucast (e AND PTE_U)), VPtr (PTE2PA e)] s;
              trap_err s }
            else Some s) }) })"

definition alarm_tick :: "int \<Rightarrow> 'a kproc_scheme \<Rightarrow> 'a kproc_scheme" where
  "alarm_tick which_dev s =
     (let p = curp s in
      if which_dev = 2 \<and> palarminterval (procs s p) \<noteq> 0
      then let s = set_proc p (\<lambda>x. x\<lparr>ptickspassed := ptickspassed x + 1\<rparr>) s in
        if ptickspassed (procs s p) \<ge> palarminterval (procs s p)
        then set_proc p (\<lambda>x. x\<lparr>ptickspassed := 0, ppending := ppending x OR sigbit SIGALARM\<rparr>) s
        else s
      else s)"

definition usertrap_cause :: "('a kdbg_scheme) hw \<Rightarrow> 'a kdbg_scheme \<Rightarrow> (int \<times> 'a kdbg_scheme) option" where
  \<comment> \<open>the branches on the cause; the result is \<open>which_dev\<close>\<close>
  "usertrap_cause h s =
     (let p = curp s; rscause = sint (ucast (scause s) :: u32) in
      if rscause = 8
      then do {
        (k, s) \<leftarrow> killed p s;
        (if k \<noteq> 0 then do { _ \<leftarrow> exit (hw_world h) (sock_ops (hw_world h)) (-1) s; None }
         else do {
           s \<leftarrow> syscall h (intr_on (set_cur_tf (\<lambda>t. t\<lparr>tf_epc := tf_epc t + 4\<rparr>) s));
           Some (0, s) }) }
      else do {
        (which_dev, s) \<leftarrow> devintr h s;
        (if which_dev \<noteq> 0 then Some (which_dev, alarm_tick which_dev s)
         else if rscause = 15 \<or> rscause = 13 \<or> rscause = 12
         then do { s \<leftarrow> page_fault rscause s; Some (0, s) }
         else do { s \<leftarrow> trap_err s; Some (0, s) }) })"

definition usertrap :: "('a kdbg_scheme) hw \<Rightarrow> 'a kdbg_scheme \<Rightarrow> (u64 \<times> u64 \<times> 'a kdbg_scheme) option" where
  "usertrap h s =
     (if sstatus s AND SSTATUS_SPP \<noteq> 0 then panic ''usertrap: not from user mode''
      else do {
        let p = curp s;
        let s = s\<lparr>stvec := hw_kernelvec h\<rparr>;
        let s = set_cur_tf (\<lambda>t. t\<lparr>tf_epc := sepc s\<rparr>) s;
        (which_dev, s) \<leftarrow> usertrap_cause h s;
        s \<leftarrow> signal_handle p s;
        (k, s) \<leftarrow> killed p s;
        (if k \<noteq> 0 then do { _ \<leftarrow> exit (hw_world h) (sock_ops (hw_world h)) (-1) s; None }
         else do {
           s \<leftarrow> (if which_dev = 2 then yield (hw_world h) s else Some s);
           Some (usertrapret h s) }) })"

section \<open>Traps from the kernel\<close>

definition kerneltrap :: "('a kdisk_scheme) hw \<Rightarrow> 'a kdisk_scheme \<Rightarrow> 'a kdisk_scheme option" where
  \<comment> \<open>a CPU always has a process here: the scheduler's own loop is not interrupted in the model\<close>
  "kerneltrap h s =
     (let epc = sepc s; status = sstatus s; cause = scause s in
      if status AND SSTATUS_SPP = 0 then panic ''kerneltrap: not from supervisor mode''
      else if intr_get s then panic ''kerneltrap: interrupts enabled''
      else do {
        (which_dev, s) \<leftarrow> devintr h s;
        (if which_dev = 0
         then do {
           s \<leftarrow> printf (asc ''scause %p'' @ [10]) [VPtr cause] s;
           s \<leftarrow> printf (asc ''sepc=%p stval=%p'' @ [10]) [VPtr (sepc s), VPtr (stval s)] s;
           panic ''kerneltrap'' }
         else do {
           s \<leftarrow> (if which_dev = 2 \<and> pstate (procs s (curp s)) = RUNNING then yield (hw_world h) s else Some s);
           Some (s\<lparr>sepc := epc, sstatus := status\<rparr>) }) })"

definition forkret_fn :: "('a ksys_scheme) hw \<Rightarrow> bool \<Rightarrow> 'a ksys_scheme \<Rightarrow> (bool \<times> u64 \<times> u64 \<times> 'a ksys_scheme) option" where
  \<comment> \<open>the static variable \<open>first\<close> goes in and comes out\<close>
  "forkret_fn h first s = do {
     s \<leftarrow> release (ProcLock (curp s)) s;
     s \<leftarrow> (if first then fsinit 1 s else Some s);
     Some (False, usertrapret h s) }"

end
