(* ===== verification/DebugProps.thy ===== *)
theory DebugProps
  imports Debugtbl SysMachine
begin

text \<open>
  The binary search of \<open>get_debuginfo\<close>: where it finds the line of an address, and where it leaves
  the table.
\<close>

definition table_sorted :: "nat \<Rightarrow> (nat \<Rightarrow> u32) \<Rightarrow> bool" where
  "table_sorted n tbl \<longleftrightarrow> (\<forall>i j. i < j \<longrightarrow> j < n \<longrightarrow> tbl i \<le> tbl j)"

definition addr_ge :: "u64 \<Rightarrow> u32 \<Rightarrow> bool" where
  "addr_ge address t \<longleftrightarrow> unat t \<le> unat address"

lemma take_unat32: "take_bit 64 (unat (t :: u32)) = unat t"
  using unat_bound [of t] by (intro take_bit_nat_eq_self) simp

lemma addr_less_ucast: "address < (ucast t :: u64) \<longleftrightarrow> \<not> addr_ge address t"
  by (simp add: addr_ge_def word_less_nat_alt unsigned_ucast_eq not_le take_unat32)

lemma addr_ge_mono: "addr_ge address t \<Longrightarrow> t' \<le> t \<Longrightarrow> addr_ge address t'"
  by (simp add: addr_ge_def word_le_nat_alt)

lemma half_sum:
  assumes "l < 2 ^ 31" "r < 2 ^ 31"
  shows "unat (drop_bit 1 (of_nat l + of_nat r :: u32)) = (l + r) div 2"
proof -
  have "unat (of_nat (l + r) :: u32) = l + r" using assms by (intro of_nat_lt_word) simp
  then have e: "unat (of_nat l + of_nat r :: u32) = l + r" by simp
  show ?thesis by (simp add: drop_bit_eq_div unat_div e)
qed

lemma debug_search_step:
  assumes "left \<le> right" "drop_bit 1 (left + right) = mid" "unat mid < MAX_ROW_LENGTH"
  shows "debug_search tbl address left right =
    (if addr_ge address (tbl (unat mid)) then debug_search tbl address (mid + 1) right
     else debug_search tbl address left (mid - 1))"
proof -
  have "debug_search tbl address left right =
    (let mid = drop_bit 1 (left + right) in
        if unat mid \<ge> MAX_ROW_LENGTH then None
        else if address < ucast (tbl (unat mid)) then debug_search tbl address left (mid - 1)
        else debug_search tbl address (mid + 1) right)"
    using assms(1) by (subst debug_search.simps) (simp only: if_True)
  then show ?thesis using assms(3) unfolding Let_def assms(2) by (simp only: addr_less_ucast not_le if_not_P if_P split: if_split) simp
qed

lemma debug_search_finds:
  assumes "table_sorted n tbl" "n \<le> MAX_ROW_LENGTH" "addr_ge address (tbl 0)"
    "l \<le> r + 1" "r < n" "\<forall>i < l. addr_ge address (tbl i)" "\<forall>i. r < i \<longrightarrow> i < n \<longrightarrow> \<not> addr_ge address (tbl i)"
  shows "\<exists>j. debug_search tbl address (of_nat l) (of_nat r) = Some (of_nat j) \<and> j \<le> n \<and>
    (\<forall>i < j. addr_ge address (tbl i)) \<and> (\<forall>i. j \<le> i \<longrightarrow> i < n \<longrightarrow> \<not> addr_ge address (tbl i))"
  using assms(4-)
proof (induction "r + 1 - l" arbitrary: l r rule: less_induct)
  case less
  have b: "l < 2 ^ 31" "r < 2 ^ 31" using less.prems assms(2) by (simp_all add: MAX_ROW_LENGTH_def)
  have le: "(of_nat l :: u32) \<le> of_nat r \<longleftrightarrow> l \<le> r" using b by (simp add: word_le_nat_alt)
  show ?case
  proof (cases "l \<le> r")
    case False
    then have "debug_search tbl address (of_nat l) (of_nat r) = Some (of_nat l)"
      by (subst debug_search.simps) (simp add: le)
    then show ?thesis using less.prems False by (intro exI [of _ l]) auto
  next
    case True
    define m where "m = (l + r) div 2"
    have m: "l \<le> m" "m \<le> r" using True by (simp_all add: m_def)
    let ?m = "drop_bit 1 (of_nat l + of_nat r :: u32)"
    have um: "unat ?m = m" using half_sum [OF b] by (simp add: m_def)
    then have em: "?m = of_nat m" by (metis word_unat_eq_iff of_nat_unat ucast_id)
    have mr: "m < n" "m < MAX_ROW_LENGTH" using m less.prems assms(2) by simp_all
    have um': "unat (of_nat m :: u32) = m" using um em by simp
    then have umm: "unat (of_nat m :: u32) < MAX_ROW_LENGTH" using mr(2) by simp
    show ?thesis
    proof (cases "addr_ge address (tbl m)")
      case False
      then have m0: "m \<noteq> 0" using assms(3) by (cases "m = 0") auto
      have e: "(of_nat m - 1 :: u32) = of_nat (m - 1)" using m0 by (simp add: of_nat_diff)
      have "debug_search tbl address (of_nat l) (of_nat r) = debug_search tbl address (of_nat l) (of_nat (m - 1))"
        unfolding e [symmetric] debug_search_step [OF le [THEN iffD2, OF True] em umm] um' using False by simp
      moreover have "\<forall>i. m - 1 < i \<longrightarrow> i < n \<longrightarrow> \<not> addr_ge address (tbl i)"
      proof (intro allI impI)
        fix i assume i: "m - 1 < i" "i < n"
        have "tbl m \<le> tbl i" using i assms(1) by (cases "i = m") (auto simp: table_sorted_def)
        then show "\<not> addr_ge address (tbl i)" using False addr_ge_mono by blast
      qed
      moreover have "m - 1 + 1 - l < r + 1 - l" "l \<le> m - 1 + 1" "m - 1 < n" using m m0 mr by simp_all
      ultimately show ?thesis using less.hyps [of "m - 1" l] less.prems by simp
    next
      case True': True
      have e: "(of_nat m + 1 :: u32) = of_nat (m + 1)" by simp
      have "debug_search tbl address (of_nat l) (of_nat r) = debug_search tbl address (of_nat (m + 1)) (of_nat r)"
        unfolding e [symmetric] debug_search_step [OF le [THEN iffD2, OF True] em umm] um' using True' by simp
      moreover have "\<forall>i < m + 1. addr_ge address (tbl i)"
      proof (intro allI impI)
        fix i assume "i < m + 1"
        then have "tbl i \<le> tbl m" using mr(1) assms(1) by (cases "i = m") (auto simp: table_sorted_def)
        then show "addr_ge address (tbl i)" using True' addr_ge_mono by blast
      qed
      moreover have "r + 1 - (m + 1) < r + 1 - l" "m + 1 \<le> r + 1" using m by simp_all
      ultimately show ?thesis using less.hyps [of r "m + 1"] less.prems by simp
    qed
  qed
qed

text \<open>C28: In a table of increasing addresses, \<open>get_debuginfo\<close> returns, for an address not below the first
  entry, the last row whose address does not exceed it: the row of the source line that contains
  it.\<close>
theorem get_debuginfo_finds_row:
  assumes "table_sorted (debugtbl_row s) (debugtbl_addr s)" "debugtbl_row s \<le> MAX_ROW_LENGTH" "0 < debugtbl_row s"
    "unat (debugtbl_addr s 0) \<le> unat address"
  shows "\<exists>j < debugtbl_row s. get_debuginfo address s = Some (int j) \<and> unat (debugtbl_addr s j) \<le> unat address \<and>
    (\<forall>i. j < i \<longrightarrow> i < debugtbl_row s \<longrightarrow> unat address < unat (debugtbl_addr s i))"
proof -
  let ?n = "debugtbl_row s"
  have r: "(of_nat ?n - 1 :: u32) = of_nat (?n - 1)" using assms(3) by (simp add: of_nat_diff)
  have a0: "addr_ge address (debugtbl_addr s 0)" using assms(4) by (simp add: addr_ge_def)
  have "\<exists>j. debug_search (debugtbl_addr s) address (of_nat 0) (of_nat (?n - 1)) = Some (of_nat j) \<and> j \<le> ?n \<and>
      (\<forall>i < j. addr_ge address (debugtbl_addr s i)) \<and> (\<forall>i. j \<le> i \<longrightarrow> i < ?n \<longrightarrow> \<not> addr_ge address (debugtbl_addr s i))"
    by (rule debug_search_finds [OF assms(1,2) a0]) (use assms(3) in auto)
  then obtain j where j: "debug_search (debugtbl_addr s) address (of_nat 0) (of_nat (?n - 1)) = Some (of_nat j)" "j \<le> ?n"
      "\<forall>i < j. addr_ge address (debugtbl_addr s i)" "\<forall>i. j \<le> i \<longrightarrow> i < ?n \<longrightarrow> \<not> addr_ge address (debugtbl_addr s i)"
    by blast
  have "j \<noteq> 0" using j(4) assms(3,4) by (metis addr_ge_def le0)
  then obtain k where k: "j = Suc k" by (cases j) auto
  have "(of_nat j - 1 :: u32) = of_nat k" using k by simp
  moreover have "k < 2 ^ 31" using k j(2) assms(2) by (simp add: MAX_ROW_LENGTH_def)
  then have "sint (of_nat k :: u32) = int k" by (simp add: signed_of_nat signed_take_bit_int_eq_self)
  ultimately have "get_debuginfo address s = Some (int k)" using j(1) r by (simp add: get_debuginfo_def)
  then show ?thesis using j k by (intro exI [of _ k]) (auto simp: addr_ge_def not_le)
qed

definition debug_machine :: kdbg where
  \<comment> \<open>three lines of \<open>start\<close> and \<open>main\<close>\<close>
  "debug_machine = kdisk.extend disk_machine
     (kdbg.fields (\<lambda>i. [0x80000000, 0x80000040, 0x80000052] ! i) (\<lambda>_ _. 0) 3 (\<lambda>_. 0) 0 0)"

lemma debug_machine_simps [simp]:
  "debugtbl_row debug_machine = 3" "debugtbl_addr debug_machine = (\<lambda>i. [0x80000000, 0x80000040, 0x80000052] ! i)"
  by (simp_all add: debug_machine_def kdisk.defs kdbg.defs)

theorem get_debuginfo_finds_row_witness: "get_debuginfo 0x80000051 debug_machine = Some 1"
proof -
  have "table_sorted (debugtbl_row debug_machine) (debugtbl_addr debug_machine)"
    by (auto simp: table_sorted_def less_Suc_eq numeral_3_eq_3)
  from get_debuginfo_finds_row [OF this, where address = "0x80000051"]
  obtain j where j: "j < 3" "get_debuginfo 0x80000051 debug_machine = Some (int j)"
      "unat ([0x80000000, 0x80000040, 0x80000052] ! j :: u32) \<le> 0x80000051"
      "\<forall>i. j < i \<longrightarrow> i < 3 \<longrightarrow> (0x80000051 :: nat) < unat ([0x80000000, 0x80000040, 0x80000052] ! i :: u32)"
    by (auto simp: MAX_ROW_LENGTH_def)
  have "j = 0 \<or> j = 1 \<or> j = 2" using j(1) by auto
  then have "j = 1" using j(3,4) spec [OF j(4), of 1] by auto
  then show ?thesis using j(2) by simp
qed

text \<open>C29: An address below the first entry, and every address as long as the table is empty, sends the
  search out of the table: \<open>right\<close> becomes -1, which an unsigned comparison takes for the largest
  index, and the next probe is at \<open>0x7fffffff\<close>.  A panic before the first \<open>exec\<close> therefore faults
  in its own back trace.\<close>
theorem get_debuginfo_leaves_table:
  assumes "table_sorted (debugtbl_row s) (debugtbl_addr s)" "debugtbl_row s \<le> MAX_ROW_LENGTH"
    "debugtbl_row s = 0 \<or> unat address < unat (debugtbl_addr s 0)"
  shows "get_debuginfo address s = None"
proof -
  let ?n = "debugtbl_row s"
  have out: "debug_search (debugtbl_addr s) address 0 (-1) = None"
    by (subst debug_search.simps) (simp add: MAX_ROW_LENGTH_def drop_bit_eq_div unat_div)
  have "debug_search (debugtbl_addr s) address 0 (of_nat r - 1) = None"
    if r: "r \<le> ?n" "\<forall>i < ?n. \<not> addr_ge address (debugtbl_addr s i)" for r
    using r
  proof (induction r rule: less_induct)
    case (less r)
    show ?case
    proof (cases "r = 0")
      case True
      then show ?thesis using out by simp
    next
      case False
      then have e: "(of_nat r - 1 :: u32) = of_nat (r - 1)" by (simp add: of_nat_diff)
      have b: "r - 1 < 2 ^ 31" using less.prems assms(2) by (simp add: MAX_ROW_LENGTH_def)
      define m where "m = (r - 1) div 2"
      have m: "m < r" "m < ?n" "m < MAX_ROW_LENGTH" using False less.prems assms(2) by (auto simp: m_def)
      have u: "unat (drop_bit 1 (of_nat (r - 1) :: u32)) = m"
        using half_sum [of 0 "r - 1"] b by (simp add: m_def)
      have em: "drop_bit 1 (of_nat (r - 1) :: u32) = of_nat m" using u by (metis of_nat_unat ucast_id)
      have um: "unat (of_nat m :: u32) = m" using u em by simp
      have "debug_search (debugtbl_addr s) address 0 (of_nat (r - 1)) =
          debug_search (debugtbl_addr s) address 0 (of_nat m - 1)"
      proof -
        have z: "(0 :: u32) \<le> of_nat (r - 1)" by simp
        have mid: "drop_bit 1 (0 + of_nat (r - 1) :: u32) = of_nat m" by (simp only: em add_0)
        have "unat (of_nat m :: u32) < MAX_ROW_LENGTH" using um m(3) by simp
        note debug_search_step [OF z mid this, of "debugtbl_addr s" address, unfolded um]
        then show ?thesis using less.prems(2) m(2) by (simp only: if_False simp_thms)
      qed
      moreover have "debug_search (debugtbl_addr s) address 0 (of_nat m - 1) = None"
        by (rule less.IH [OF m(1) _ less.prems(2)]) (use m(2) in simp)
      ultimately show ?thesis by (simp only: e)
    qed
  qed
  moreover have "\<forall>i < ?n. \<not> addr_ge address (debugtbl_addr s i)"
  proof (intro allI impI)
    fix i assume i: "i < ?n"
    have "debugtbl_addr s 0 \<le> debugtbl_addr s i" using assms(1) i by (cases i) (auto simp: table_sorted_def)
    then show "\<not> addr_ge address (debugtbl_addr s i)"
      using assms(3) i by (auto simp: addr_ge_def word_le_nat_alt)
  qed
  ultimately show ?thesis by (simp add: get_debuginfo_def)
qed

theorem get_debuginfo_leaves_table_witness: "get_debuginfo 0x80000000 (debug_machine\<lparr>debugtbl_row := 0\<rparr>) = None"
  using get_debuginfo_leaves_table [of "debug_machine\<lparr>debugtbl_row := 0\<rparr>"] by (simp add: table_sorted_def)

end
