(* ===== verification/TrapProps.thy ===== *)
theory TrapProps
  imports Trap DebugProps ProcProps
begin

text \<open>
  Properties of traps: the way back to user space, a system call from the \<open>ecall\<close> instruction to
  the instruction after it, the alarm, and the dispatch tables.
\<close>

section \<open>Trap frames\<close>

lemma cur_tf_upd [simp]:
  "cur_tf (s\<lparr>stvec := x\<rparr>) = cur_tf s" "cur_tf (s\<lparr>sstatus := x\<rparr>) = cur_tf s" "cur_tf (s\<lparr>sepc := x\<rparr>) = cur_tf s"
  by (simp_all add: cur_tf_def)

lemma set_cur_tf_simps [simp]:
  "cur_tf (set_cur_tf f s) = f (cur_tf s)" "procs (set_cur_tf f s) = procs s" "curp (set_cur_tf f s) = curp s"
  "lk (set_cur_tf f s) = lk s" "noff (set_cur_tf f s) = noff s" "cpuid (set_cur_tf f s) = cpuid s"
  "mem (set_cur_tf f s) = mem s" "trampoline (set_cur_tf f s) = trampoline s"
  by (simp_all add: set_cur_tf_def set_tf_def cur_tf_def)

lemma set_cur_tf_regs [simp]:
  "sstatus (set_cur_tf f s) = sstatus s" "sepc (set_cur_tf f s) = sepc s" "scause (set_cur_tf f s) = scause s"
  "satp (set_cur_tf f s) = satp s" "stvec (set_cur_tf f s) = stvec s"
  by (simp_all add: set_cur_tf_def set_tf_def)

lemma bit_sstatus: "bit SSTATUS_SPP n \<longleftrightarrow> n = 8" "bit SSTATUS_SPIE n \<longleftrightarrow> n = 5" "bit SSTATUS_SIE n \<longleftrightarrow> n = 1"
  unfolding SSTATUS_SPP_def SSTATUS_SPIE_def SSTATUS_SIE_def bit_exp_iff by auto

lemma sstatus_bits:
  "(x AND NOT SSTATUS_SPP OR SSTATUS_SPIE) AND SSTATUS_SPP = 0"
  "(x AND NOT SSTATUS_SPP OR SSTATUS_SPIE) AND SSTATUS_SPIE \<noteq> 0"
  "((x AND NOT SSTATUS_SIE) AND NOT SSTATUS_SPP OR SSTATUS_SPIE) AND SSTATUS_SIE = 0"
proof -
  show "(x AND NOT SSTATUS_SPP OR SSTATUS_SPIE) AND SSTATUS_SPP = 0"
    by (rule bit_eqI) (auto simp: bit_sstatus bit_and_iff bit_or_iff bit_not_iff)
  have "bit ((x AND NOT SSTATUS_SPP OR SSTATUS_SPIE) AND SSTATUS_SPIE) 5"
    by (simp add: bit_sstatus bit_and_iff bit_or_iff)
  then show "(x AND NOT SSTATUS_SPP OR SSTATUS_SPIE) AND SSTATUS_SPIE \<noteq> 0" by (metis bit_0_eq bot_apply bot_bool_def)
  show "((x AND NOT SSTATUS_SIE) AND NOT SSTATUS_SPP OR SSTATUS_SPIE) AND SSTATUS_SIE = 0"
    by (rule bit_eqI) (auto simp: bit_sstatus bit_and_iff bit_or_iff bit_not_iff)
qed

section \<open>The way back\<close>

text \<open>When \<open>usertrapret\<close> jumps to the trampoline, interrupts are off, \<open>sret\<close> will go to user mode with
  interrupts on, at the program counter saved in the trap frame; the next trap arrives at
  \<open>uservec\<close>, which finds the kernel's page table, this process's kernel stack and the address of
  \<open>usertrap\<close> in the frame; the user's registers and memory are untouched.\<close>
theorem usertrapret_resumes_user:
  shows "\<exists>t. usertrapret h s = (ptrap_va (procs s (curp s)), push_bit 60 8 OR drop_bit 12 (ppagetable (procs s (curp s))), t) \<and>
    \<not> intr_get t \<and> sstatus t AND SSTATUS_SPP = 0 \<and> sstatus t AND SSTATUS_SPIE \<noteq> 0 \<and>
    sepc t = tf_epc (cur_tf s) \<and> stvec t = TRAMPOLINE + (hw_uservec h - trampoline s) \<and>
    cur_tf t = (cur_tf s)\<lparr>tf_kernel_satp := satp s, tf_kernel_sp := pkstack (procs s (curp s)) + 4096,
       tf_kernel_trap := hw_usertrap h, tf_kernel_hartid := of_nat (cpuid s)\<rparr> \<and>
    mem t = mem s \<and> procs t = procs s"
  using sstatus_bits [of "sstatus s AND NOT SSTATUS_SIE"] sstatus_bits [of "sstatus s"]
  by (simp add: usertrapret_def intr_off_def intr_get_def Let_def MAKE_SATP_def PGSIZE_def)

section \<open>A system call\<close>

lemma signal_handle_none:
  assumes "\<forall>j < NUMSIG. \<not> deliverable (procs s p) j" shows "signal_handle p s = Some s"
  using signal_loop_skip_to [of 0 NUMSIG s p 0] assms by (simp add: signal_handle_def)

definition quiet :: "'a kproc_scheme \<Rightarrow> bool" where
  \<comment> \<open>the current process can be looked at, has not been killed and has no signal to take\<close>
  "quiet s \<longleftrightarrow> lk s (ProcLock (curp s)) = None \<and> pkilled (procs s (curp s)) = 0 \<and>
     (\<forall>j < NUMSIG. \<not> deliverable (procs s (curp s)) j)"

lemma quiet_killed: "quiet s \<Longrightarrow> killed (curp s) s = Some (0, s)"
  by (simp add: quiet_def killed_spec)

lemma quiet_cong: "lk t = lk s \<Longrightarrow> curp t = curp s \<Longrightarrow> procs t = procs s \<Longrightarrow> quiet t = quiet s"
  by (simp add: quiet_def)

definition entered :: "('a kdbg_scheme) hw \<Rightarrow> 'a kdbg_scheme \<Rightarrow> 'a kdbg_scheme" where
  \<comment> \<open>the state in which the trap hands over to the handler: interrupts on, the saved program counter
      moved past the \<open>ecall\<close>\<close>
  "entered h s = intr_on (set_cur_tf (\<lambda>t. t\<lparr>tf_epc := sepc s + 4\<rparr>) (s\<lparr>stvec := hw_kernelvec h\<rparr>))"

lemma entered_simps:
  "curp (entered h s) = curp s" "procs (entered h s) = procs s" "lk (entered h s) = lk s"
  "cur_tf (entered h s) = (cur_tf s)\<lparr>tf_epc := sepc s + 4\<rparr>" "mem (entered h s) = mem s"
  by (simp_all add: entered_def intr_on_def)

lemma usertrap_syscall:
  assumes "scause s = 8" "sstatus s AND SSTATUS_SPP = 0" "lk s (ProcLock (curp s)) = None" "pkilled (procs s (curp s)) = 0"
    and num: "tf_a (cur_tf s) 7 = of_nat num" "0 < num" "num < 44"
    and ret: "(syscalls h ! (num - 1)) (entered h s) = Some (v, u)" "curp u = curp s" "quiet u"
      "\<not> traced (ptrace_arg (procs u (curp s))) num"
  shows "usertrap h s = Some (usertrapret h (set_a0 v u))"
proof -
  let ?a = "set_cur_tf (\<lambda>t. t\<lparr>tf_epc := sepc s\<rparr>) (s\<lparr>stvec := hw_kernelvec h\<rparr>)"
  let ?b = "intr_on (set_cur_tf (\<lambda>t. t\<lparr>tf_epc := tf_epc t + 4\<rparr>) ?a)"
  have b: "?b = entered h s" by (simp add: set_cur_tf_def set_tf_def entered_def)
  have num': "sint (ucast (tf_a (cur_tf (entered h s)) 7) :: u32) = int num"
  proof -
    have "ucast (of_nat num :: u64) = (of_nat num :: u32)"
      using num(3) by (simp add: unsigned_of_nat take_bit_nat_eq_self)
    then show ?thesis using num(1,3) by (simp add: entered_simps signed_of_nat signed_take_bit_int_eq_self)
  qed
  have sc: "syscall h (entered h s) = Some (set_a0 v u)"
    unfolding syscall_def Let_def num' using num(2,3) ret(1,4) by (simp add: entered_simps set_a0_def)
  have q: "quiet (set_a0 v u)" "curp (set_a0 v u) = curp s" using ret(2,3) by (simp_all add: quiet_def set_a0_def)
  have k: "killed (curp s) ?a = Some (0, ?a)" using assms(3,4) by (simp add: killed_spec)
  have "usertrap_cause h ?a = Some (0, set_a0 v u)"
    unfolding usertrap_cause_def Let_def using assms(1) sc [folded b] k by simp
  then show ?thesis
    unfolding usertrap_def Let_def
    using assms(2) q quiet_killed [OF q(1)] signal_handle_none [of "set_a0 v u" "curp s"] by (simp add: quiet_def)
qed

text \<open>C27: A system call comes back to user mode with the result of the handler that the number in \<open>a7\<close>
  names.  The handler is called with the saved program counter behind the \<open>ecall\<close> instruction, and
  whatever it does to the process, its files and memory, its locks and the other processes, the process
  resumes with the registers, the program counter and the page table that the handler has left, with
  the result in \<open>a0\<close>; if it has left the trap frame alone, that is behind the \<open>ecall\<close> with all other
  registers as they were.  This holds for every handler that returns to the same process, unless the
  process is traced or has been killed or has a signal to take when the handler returns.\<close>
theorem syscall_returns_to_user:
  assumes "scause s = 8" "sstatus s AND SSTATUS_SPP = 0" "lk s (ProcLock (curp s)) = None" "pkilled (procs s (curp s)) = 0"
    and "tf_a (cur_tf s) 7 = of_nat num" "0 < num" "num < 44"
    and "(syscalls h ! (num - 1)) (entered h s) = Some (v, u)" "curp u = curp s" "quiet u"
      "\<not> traced (ptrace_arg (procs u (curp s))) num"
  shows "\<exists>t. usertrap h s = Some (ptrap_va (procs u (curp s)), MAKE_SATP (ppagetable (procs u (curp s))), t) \<and>
    sepc t = tf_epc (cur_tf u) \<and> tf_a (cur_tf t) = (tf_a (cur_tf u))(0 := v) \<and> tf_ra (cur_tf t) = tf_ra (cur_tf u) \<and>
    tf_sp (cur_tf t) = tf_sp (cur_tf u) \<and> tf_rest (cur_tf t) = tf_rest (cur_tf u) \<and>
    mem t = mem u \<and> procs t = procs u \<and>
    sstatus t AND SSTATUS_SPP = 0 \<and> sstatus t AND SSTATUS_SPIE \<noteq> 0 \<and> \<not> intr_get t \<and>
    (cur_tf u = cur_tf (entered h s) \<longrightarrow> sepc t = sepc s + 4 \<and> tf_a (cur_tf t) = (tf_a (cur_tf s))(0 := v) \<and>
       tf_ra (cur_tf t) = tf_ra (cur_tf s) \<and> tf_sp (cur_tf t) = tf_sp (cur_tf s) \<and> tf_rest (cur_tf t) = tf_rest (cur_tf s))"
  unfolding usertrap_syscall [OF assms] usertrapret_def Let_def
  using assms(9) sstatus_bits [of "sstatus u AND NOT SSTATUS_SIE"] sstatus_bits [of "sstatus u"]
  by (simp add: intr_off_def intr_get_def set_a0_def entered_simps)

definition idle_hw :: "kdbg hw" where
  \<comment> \<open>a machine on which nothing else runs\<close>
  "idle_hw = \<lparr>hw_world = Some, hw_stack = (\<lambda>_. 0), hw_claim = Pair 0, hw_complete = (\<lambda>_ s. s), hw_react = (\<lambda>_ _ r. r),
     hw_avg = (\<lambda>_ l. l), hw_fp = 0, hw_uservec = 0x80000000, hw_userret = 0x8000009c, hw_usertrap = 0x80002000,
     hw_kernelvec = 0x80003000\<rparr>"

definition ecall :: "nat \<Rightarrow> kdbg" where
  \<comment> \<open>process 1 has executed \<open>li a7, n; li a0, 1; ecall\<close> up to address \<open>0x100\<close>\<close>
  "ecall n = set_cur_tf (\<lambda>t. t\<lparr>tf_a := (tf_a t)(7 := of_nat n, 0 := 1)\<rparr>) (debug_machine\<lparr>scause := 8, sepc := 0x100, sstatus := 0\<rparr>)"

lemma ecall_simps:
  "scause (ecall n) = 8" "sepc (ecall n) = 0x100" "sstatus (ecall n) = 0" "lk (ecall n) = (\<lambda>_. None)"
  "curp (ecall n) = 0" "procs (ecall n) 0 = zero_proc\<lparr>pstate := RUNNING, ppid := 1, ppagetable := machine_pt\<rparr>"
  "tf_a (cur_tf (ecall n)) 7 = of_nat n" "tf_a (cur_tf (ecall n)) 0 = 1"
  by (simp_all add: ecall_def set_cur_tf_def set_tf_def cur_tf_def debug_machine_def machine_extends kdbg.defs)

lemma syscalls_nth: "syscalls h ! 10 = int_ret sys_getpid" "syscalls h ! 42 = int_ret sys_sigprocmask"
  by (simp_all add: syscalls_def Let_def)

lemma getpid_returns: "(syscalls h ! 10) (entered h (ecall 11)) = Some (1, entered h (ecall 11))"
  by (simp add: syscalls_nth int_ret_def sys_getpid_def entered_simps ecall_simps)

lemma sigprocmask_returns:
  "(syscalls h ! 42) (entered h (ecall 43)) =
     Some (0, set_proc 0 (\<lambda>x. x\<lparr>psa_mask := 1\<rparr>) (entered h (ecall 43)))"
proof -
  have "tf_a (cur_tf (entered h (ecall 43))) 0 = 1" by (simp add: entered_simps ecall_simps)
  then have "argint 0 (entered h (ecall 43)) = Some 1"
    by (simp add: argint_def argraw_def cur_tf_def)
  then show ?thesis
    by (simp add: syscalls_nth int_ret_def sys_sigprocmask_def entered_simps ecall_simps zero_proc_def)
qed

theorem syscall_returns_to_user_witness:
  "(\<exists>t va pt. usertrap idle_hw (ecall 11) = Some (va, pt, t) \<and> sepc t = 0x104 \<and> tf_a (cur_tf t) 0 = 1) \<and>
   (\<exists>t va pt. usertrap idle_hw (ecall 43) = Some (va, pt, t) \<and> sepc t = 0x104 \<and> tf_a (cur_tf t) 0 = 0 \<and>
      psa_mask (procs t 0) = 1)"
proof
  let ?u = "entered idle_hw (ecall 11)"
  have "quiet ?u" "\<not> traced (ptrace_arg (procs ?u (curp (ecall 11)))) 11"
    by (simp_all add: quiet_def entered_simps ecall_simps deliverable_def traced_def zero_proc_def)
  then show "\<exists>t va pt. usertrap idle_hw (ecall 11) = Some (va, pt, t) \<and> sepc t = 0x104 \<and> tf_a (cur_tf t) 0 = 1"
    using syscall_returns_to_user [of "ecall 11" 11 idle_hw 1 ?u] getpid_returns [of idle_hw]
    by (auto simp: ecall_simps entered_simps zero_proc_def)
next
  let ?u = "set_proc 0 (\<lambda>x. x\<lparr>psa_mask := 1\<rparr>) (entered idle_hw (ecall 43))"
  have c: "cur_tf ?u = cur_tf (entered idle_hw (ecall 43))"
    by (simp add: cur_tf_def set_proc_def entered_simps ecall_simps)
  have "quiet ?u" "\<not> traced (ptrace_arg (procs ?u (curp (ecall 43)))) 43"
    by (simp_all add: quiet_def entered_simps ecall_simps deliverable_def traced_def zero_proc_def)
  then have "\<exists>t. usertrap idle_hw (ecall 43) = Some (ptrap_va (procs ?u 0), MAKE_SATP (ppagetable (procs ?u 0)), t) \<and>
      sepc t = 0x104 \<and> tf_a (cur_tf t) = (tf_a (cur_tf (ecall 43)))(0 := 0) \<and> procs t = procs ?u"
    using syscall_returns_to_user [of "ecall 43" 43 idle_hw 0 ?u] sigprocmask_returns [of idle_hw] c
    by (auto simp: ecall_simps entered_simps zero_proc_def)
  then obtain t where t: "usertrap idle_hw (ecall 43) = Some (ptrap_va (procs ?u 0), MAKE_SATP (ppagetable (procs ?u 0)), t)"
      "sepc t = 0x104" "tf_a (cur_tf t) = (tf_a (cur_tf (ecall 43)))(0 := 0)" "procs t = procs ?u" by blast
  have "psa_mask (procs t 0) = 1" "tf_a (cur_tf t) 0 = 0" unfolding t(3,4) by simp_all
  then show "\<exists>t va pt. usertrap idle_hw (ecall 43) = Some (va, pt, t) \<and> sepc t = 0x104 \<and> tf_a (cur_tf t) 0 = 0 \<and>
      psa_mask (procs t 0) = 1" using t(1,2) by blast
qed

section \<open>The alarm\<close>

lemma alarm_tick_frame:
  "curp (alarm_tick d s) = curp s" "palarminterval (procs (alarm_tick d s) (curp s)) = palarminterval (procs s (curp s))"
  by (simp_all add: alarm_tick_def set_proc_def Let_def)

lemma alarm_ticks_frame:
  assumes "palarminterval (procs s (curp s)) = n"
  shows "curp ((alarm_tick 2 ^^ k) s) = curp s \<and> palarminterval (procs ((alarm_tick 2 ^^ k) s) (curp s)) = n"
proof (induction k)
  case (Suc k)
  then show ?case using alarm_tick_frame [of 2 "(alarm_tick 2 ^^ k) s"] by simp
qed (simp add: assms)

lemma bit_sigalarm: "bit (x OR sigbit SIGALARM) SIGALARM"
  by (simp add: sigbit_def SIGALARM_def bit_or_iff bit_push_bit_iff)

lemma alarm_tick_step:
  assumes "palarminterval (procs s (curp s)) = n" "0 < n"
  shows "ptickspassed (procs (alarm_tick 2 s) (curp s)) =
      (if ptickspassed (procs s (curp s)) + 1 \<ge> n then 0 else ptickspassed (procs s (curp s)) + 1) \<and>
    (bit (ppending (procs (alarm_tick 2 s) (curp s))) SIGALARM \<longleftrightarrow>
      bit (ppending (procs s (curp s))) SIGALARM \<or> ptickspassed (procs s (curp s)) + 1 \<ge> n)"
  using assms bit_sigalarm by (simp add: alarm_tick_def set_proc_def Let_def)

lemma mod_step:
  fixes n :: int assumes "0 < n"
  shows "(int k + 1) mod n = (if int k mod n + 1 \<ge> n then 0 else int k mod n + 1)"
proof -
  have b: "0 \<le> int k mod n" "int k mod n < n" using assms by simp_all
  have "(int k + 1) mod n = (int k mod n + 1) mod n" by (simp add: mod_add_left_eq)
  then show ?thesis
  proof (cases "int k mod n + 1 = n")
    case False
    then have "int k mod n + 1 < n" using b by simp
    then show ?thesis using \<open>(int k + 1) mod n = (int k mod n + 1) mod n\<close> b by (simp add: mod_pos_pos_trivial)
  qed simp
qed

text \<open>A process that has asked for an alarm every \<open>n\<close> ticks gets the signal after the \<open>n\<close>-th timer
  interrupt it takes, not earlier, and the count starts again then.\<close>
theorem alarm_after_n_ticks:
  assumes "palarminterval (procs s (curp s)) = n" "0 < n" "ptickspassed (procs s (curp s)) = 0"
  shows "ptickspassed (procs ((alarm_tick 2 ^^ k) s) (curp s)) = int k mod n \<and>
    (bit (ppending (procs ((alarm_tick 2 ^^ k) s) (curp s))) SIGALARM \<longleftrightarrow>
      bit (ppending (procs s (curp s))) SIGALARM \<or> n \<le> int k)"
proof (induction k)
  case 0
  then show ?case using assms by simp
next
  case (Suc k)
  let ?t = "(alarm_tick 2 ^^ k) s"
  have c: "curp ?t = curp s \<and> palarminterval (procs ?t (curp s)) = n"
    using assms(1) by (rule alarm_ticks_frame)
  have p: "0 \<le> int k mod n" "int k mod n < n" using assms(2) by simp_all
  have hit: "n \<le> int k mod n + 1 \<Longrightarrow> n \<le> int k + 1"
    using zmod_le_nonneg_dividend [of "int k" n] by simp
  have "n \<le> int k + 1 \<Longrightarrow> \<not> n \<le> int k \<Longrightarrow> n \<le> int k mod n + 1"
  proof -
    assume "n \<le> int k + 1" "\<not> n \<le> int k"
    then show ?thesis using mod_pos_pos_trivial [of "int k" n] by simp
  qed
  then show ?case
    using alarm_tick_step [of ?t n] c Suc.IH assms(2) mod_step [OF assms(2), of k] hit by (auto simp: add.commute)
qed


end
