(* ===== verification/UMalloc.thy ===== *)
theory UMalloc
  imports Riscv
begin

text \<open>
  The allocator of user programs, \<open>user/umalloc.c\<close>: Kernighan and Ritchie's ring of free blocks, with
  a variant that returns page-aligned blocks.  The state holds the headers by address and the two
  static variables; \<open>os\<close> is the system call \<open>sbrk\<close>.
\<close>

record uheap =
  h_ptr :: "u64 \<Rightarrow> u64"
  h_size :: "u64 \<Rightarrow> u32"
  freep :: u64
  hbase :: u64            \<comment> \<open>the address of \<open>base\<close>\<close>

type_synonym 's os_sbrk = "int \<Rightarrow> 's \<Rightarrow> (u64 \<times> 's) option"

definition HDR :: u64 where "HDR = 16"

definition hdr_add :: "u64 \<Rightarrow> u32 \<Rightarrow> u64" where
  \<comment> \<open>\<open>p + n\<close> for a pointer to a header\<close>
  "hdr_add p n = p + ucast n * HDR"

definition set_ptr :: "u64 \<Rightarrow> u64 \<Rightarrow> 'a uheap_scheme \<Rightarrow> 'a uheap_scheme" where
  "set_ptr p q s = s\<lparr>h_ptr := (h_ptr s)(p := q)\<rparr>"

definition set_size :: "u64 \<Rightarrow> u32 \<Rightarrow> 'a uheap_scheme \<Rightarrow> 'a uheap_scheme" where
  "set_size p n s = s\<lparr>h_size := (h_size s)(p := n)\<rparr>"

partial_function (option) find_place :: "u64 \<Rightarrow> u64 \<Rightarrow> 'a uheap_scheme \<Rightarrow> u64 option" where
  \<comment> \<open>the loop of \<open>free\<close>: the block after which \<open>bp\<close> belongs\<close>
  "find_place bp p s =
     (let q = h_ptr s p in
      if bp > p \<and> bp < q then Some p
      else if p \<ge> q \<and> (bp > p \<or> bp < q) then Some p
      else find_place bp q s)"

definition join_right :: "u64 \<Rightarrow> u64 \<Rightarrow> 'a uheap_scheme \<Rightarrow> 'a uheap_scheme" where
  "join_right bp p s =
     (let q = h_ptr s p in
      if hdr_add bp (h_size s bp) = q
      then set_ptr bp (h_ptr s q) (set_size bp (h_size s bp + h_size s q) s)
      else set_ptr bp q s)"

definition join_left :: "u64 \<Rightarrow> u64 \<Rightarrow> 'a uheap_scheme \<Rightarrow> 'a uheap_scheme" where
  "join_left bp p s =
     (if hdr_add p (h_size s p) = bp
      then set_ptr p (h_ptr s bp) (set_size p (h_size s p + h_size s bp) s)
      else set_ptr p bp s)"

definition ufree :: "u64 \<Rightarrow> 'a uheap_scheme \<Rightarrow> 'a uheap_scheme option" where
  "ufree ap s = do {
     let bp = ap - HDR;
     p \<leftarrow> find_place bp (freep s) s;
     let s = join_left bp p (join_right bp p s);
     Some (s\<lparr>freep := p\<rparr>) }"

definition morecore :: "('a uheap_scheme) os_sbrk \<Rightarrow> u32 \<Rightarrow> 'a uheap_scheme \<Rightarrow> (u64 \<times> 'a uheap_scheme) option" where
  "morecore os nu s = do {
     let nu = (if nu < 4096 then 4096 else nu);
     (p, s) \<leftarrow> os (sint (ucast (ucast nu * HDR) :: u32)) s;
     (if p = -1 then Some (0, s)
      else do {
        s \<leftarrow> ufree (p + HDR) (set_size p nu s);
        Some (freep s, s) }) }"

definition header_units :: "u32 \<Rightarrow> u32" where
  "header_units nbytes = ucast ((ucast nbytes + HDR - 1) div HDR + 1 :: u64)"

definition first_use :: "'a uheap_scheme \<Rightarrow> 'a uheap_scheme" where
  "first_use s =
     (if freep s = 0 then set_size (hbase s) 0 ((set_ptr (hbase s) (hbase s) s)\<lparr>freep := hbase s\<rparr>) else s)"

definition take_block :: "u32 \<Rightarrow> u64 \<Rightarrow> u64 \<Rightarrow> 'a uheap_scheme \<Rightarrow> u64 \<times> 'a uheap_scheme" where
  \<comment> \<open>the block \<open>p\<close> after \<open>prevp\<close> is large enough\<close>
  "take_block nunits prevp p s =
     (let (p, s) =
        (if h_size s p = nunits then (p, set_ptr prevp (h_ptr s p) s)
         else let n = h_size s p - nunits;
                  s = set_size p n s;
                  p = hdr_add p n
              in (p, set_size p nunits s))
      in (p + HDR, s\<lparr>freep := prevp\<rparr>))"

definition take_aligned :: "u32 \<Rightarrow> u64 \<Rightarrow> u64 \<Rightarrow> 'a uheap_scheme \<Rightarrow> u64 \<times> 'a uheap_scheme" where
  "take_aligned ounits prevp p s =
     (let align_addr = PGROUNDUP (p + HDR) - HDR;
          sz = ucast ((align_addr - p) div HDR);
          psz = h_size s p;
          ret = align_addr;
          s = set_size ret ounits s;
          right = hdr_add ret ounits;
          s = set_size right (psz - ounits - sz) s;
          s = (if sz = 0 then set_ptr right (h_ptr s p) s
               else set_size p sz (set_ptr right p s));
          s = set_ptr prevp right s
      in (ret + HDR, s\<lparr>freep := prevp\<rparr>))"

partial_function (option) alloc_loop ::
  "(u64 \<Rightarrow> u64 \<Rightarrow> 'a uheap_scheme \<Rightarrow> u64 \<times> 'a uheap_scheme) \<Rightarrow> ('a uheap_scheme) os_sbrk \<Rightarrow> u32 \<Rightarrow> u64 \<Rightarrow> u64 \<Rightarrow>
    'a uheap_scheme \<Rightarrow> (u64 \<times> 'a uheap_scheme) option" where
  \<comment> \<open>the loop that \<open>malloc\<close> and \<open>malloc_align\<close> share; \<open>take\<close> is its body on a block that fits\<close>
  "alloc_loop tk os nunits prevp p s =
     (if h_size s p \<ge> nunits then Some (tk prevp p s)
      else if p = freep s
      then do {
        (p, s) \<leftarrow> morecore os nunits s;
        (if p = 0 then Some (0, s) else alloc_loop tk os nunits p (h_ptr s p) s) }
      else alloc_loop tk os nunits p (h_ptr s p) s)"

definition malloc :: "('a uheap_scheme) os_sbrk \<Rightarrow> u32 \<Rightarrow> 'a uheap_scheme \<Rightarrow> (u64 \<times> 'a uheap_scheme) option" where
  "malloc os nbytes s =
     (let nunits = header_units nbytes;
          s = first_use s;
          prevp = freep s
      in alloc_loop (take_block nunits) os nunits prevp (h_ptr s prevp) s)"

definition malloc_align :: "('a uheap_scheme) os_sbrk \<Rightarrow> u32 \<Rightarrow> 'a uheap_scheme \<Rightarrow> (u64 \<times> 'a uheap_scheme) option" where
  "malloc_align os oribytes s =
     (let nbytes = oribytes + 4096;
          ounits = header_units oribytes;
          nunits = header_units nbytes;
          s = first_use s;
          prevp = freep s
      in alloc_loop (take_aligned ounits) os nunits prevp (h_ptr s prevp) s)"

end
