(* ===== verification/UMallocProps.thy ===== *)
theory UMallocProps
  imports UMalloc KallocProps
begin

text \<open>
  The free ring of \<open>user/umalloc.c\<close> refines a set of free bytes: \<open>free\<close> adds exactly the block it is
  given, \<open>malloc\<close> and \<open>malloc_align\<close> remove exactly the block they return.
\<close>

section \<open>Rings\<close>

fun chain :: "(u64 \<Rightarrow> u64) \<Rightarrow> u64 list \<Rightarrow> bool" where
  "chain f [] = True"
| "chain f [x] = True"
| "chain f (x # y # zs) = (f x = y \<and> chain f (y # zs))"

lemma chain_app: "chain f (xs @ y # ys) \<longleftrightarrow> chain f (xs @ [y]) \<and> chain f (y # ys)"
proof (induction xs)
  case Nil
  show ?case by simp
next
  case (Cons a xs)
  then show ?case by (cases xs) simp_all
qed

lemma ring_chain_cong: "chain f (xs @ [z]) \<Longrightarrow> (\<And>x. x \<in> set xs \<Longrightarrow> g x = f x) \<Longrightarrow> chain g (xs @ [z])"
proof (induction xs)
  case (Cons x xs)
  then show ?case by (cases xs) auto
qed simp

definition ring :: "(u64 \<Rightarrow> u64) \<Rightarrow> u64 list \<Rightarrow> bool" where
  "ring f xs \<longleftrightarrow> xs \<noteq> [] \<and> distinct xs \<and> chain f (xs @ [hd xs])"

lemma ring_rotate:
  assumes "ring f xs" "p \<in> set xs"
  shows "\<exists>r. ring f (p # r) \<and> set (p # r) = set xs"
proof -
  obtain as bs where xs: "xs = as @ p # bs" using assms(2) by (meson split_list)
  have c: "chain f (as @ p # bs @ [hd xs])" using assms(1) xs by (simp add: ring_def)
  have "chain f (p # bs @ as @ [p])"
  proof (cases as)
    case Nil
    then show ?thesis using c xs by simp
  next
    case (Cons a as')
    then have h: "hd xs = a" using xs by simp
    have "chain f (as @ [p])" "chain f (p # bs @ [a])" using c h chain_app [of f as p "bs @ [a]"] by auto
    then show ?thesis using chain_app [of f "p # bs" a "as' @ [p]"] Cons by simp
  qed
  then have "ring f (p # bs @ as)" using assms(1) xs by (auto simp: ring_def)
  moreover have "set (p # bs @ as) = set xs" using xs by auto
  ultimately show ?thesis by blast
qed

lemma ring_closed:
  assumes "ring f xs" "x \<in> set xs" "P x" "\<And>y. y \<in> set xs \<Longrightarrow> P y \<Longrightarrow> P (f y)"
  shows "\<forall>y \<in> set xs. P y"
proof -
  obtain r where r: "ring f (x # r)" "set (x # r) = set xs" using ring_rotate [OF assms(1,2)] by blast
  have along: "\<forall>y \<in> set ys. P y" if "chain f (ys @ [z])" "ys \<noteq> []" "P (hd ys)" "set ys \<subseteq> set xs" for ys z
    using that
  proof (induction ys)
    case (Cons y ys)
    show ?case
    proof (cases ys)
      case Nil
      then show ?thesis using Cons.prems(3) by simp
    next
      case (Cons w ws)
      have "f y = w" using Cons.prems(1) Cons by simp
      moreover have "P (f y)" using assms(4) [of y] Cons.prems(3,4) by simp
      ultimately have "P (hd ys)" using Cons by simp
      moreover have "chain f (ys @ [z])" using Cons.prems(1) Cons by simp
      ultimately show ?thesis using Cons.IH Cons.prems(3,4) Cons by simp
    qed
  qed simp
  have "chain f ((x # r) @ [x])" using r(1) by (simp add: ring_def)
  from along [OF this] show ?thesis using assms(3) unfolding r(2) by simp
qed

lemma ring_next: "ring f xs \<Longrightarrow> x \<in> set xs \<Longrightarrow> f x \<in> set xs"
proof -
  assume a: "ring f xs" "x \<in> set xs"
  then obtain r where "ring f (x # r)" "set (x # r) = set xs" using ring_rotate by blast
  then show ?thesis by (cases r) (auto simp: ring_def)
qed

section \<open>The place of a block\<close>

definition stops :: "u64 \<Rightarrow> (u64 \<Rightarrow> u64) \<Rightarrow> u64 \<Rightarrow> bool" where
  "stops bp f p \<longleftrightarrow> bp > p \<and> bp < f p \<or> p \<ge> f p \<and> (bp > p \<or> bp < f p)"

lemma find_place_simps: "find_place bp p s = (if stops bp (h_ptr s) p then Some p else find_place bp (h_ptr s p) s)"
  by (subst find_place.simps) (auto simp: stops_def Let_def)

lemma place_exists:
  assumes "ring f xs" "bp \<notin> set xs"
  shows "\<exists>p \<in> set xs. stops bp f p"
proof (rule ccontr)
  assume no: "\<not> (\<exists>p \<in> set xs. stops bp f p)"
  define m where "m = Max (set xs)"
  have ne: "set xs \<noteq> {}" using assms(1) by (simp add: ring_def)
  then have m: "m \<in> set xs" "\<And>x. x \<in> set xs \<Longrightarrow> x \<le> m" by (simp_all add: m_def)
  have fm: "f m \<in> set xs" using ring_next [OF assms(1) m(1)] .
  have "\<not> bp > m" "\<not> bp < f m" using no m(1) m(2) [OF fm] by (auto simp: stops_def)
  then have lt: "f m < bp" "bp < m" using assms(2) m(1) fm by (metis linorder_neqE order.not_eq_order_implies_strict not_le)+
  have "\<forall>y \<in> set xs. y < bp"
  proof (rule ring_closed [OF assms(1) fm, of "\<lambda>y. y < bp"], rule lt(1))
    fix y assume y: "y \<in> set xs" "y < bp"
    then have "\<not> bp < f y" using no by (auto simp: stops_def)
    moreover have "f y \<noteq> bp" using ring_next [OF assms(1) y(1)] assms(2) by blast
    ultimately show "f y < bp" by simp
  qed
  then show False using m(1) lt(2) by fastforce
qed

lemma find_place_chain:
  assumes "chain (h_ptr s) (ys @ [z])" "ys \<noteq> []" "\<exists>p \<in> set ys. stops bp (h_ptr s) p"
  shows "\<exists>p \<in> set ys. find_place bp (hd ys) s = Some p"
  using assms
proof (induction ys)
  case (Cons y ys)
  show ?case
  proof (cases "stops bp (h_ptr s) y")
    case True
    then show ?thesis by (simp add: find_place_simps [of bp y])
  next
    case False
    then have ne: "ys \<noteq> []" using Cons.prems(3) by auto
    have "h_ptr s y = hd ys" "chain (h_ptr s) (ys @ [z])" using Cons.prems(1) ne by (cases ys; simp)+
    moreover have "\<exists>p \<in> set ys. stops bp (h_ptr s) p" using Cons.prems(3) False by auto
    ultimately show ?thesis using Cons.IH [OF _ ne] False by (simp add: find_place_simps [of bp y])
  qed
qed simp

lemma find_place_returns:
  assumes "ring (h_ptr s) xs" "p \<in> set xs" "bp \<notin> set xs"
  shows "\<exists>q \<in> set xs. find_place bp p s = Some q"
proof -
  obtain r where r: "ring (h_ptr s) (p # r)" "set (p # r) = set xs" using ring_rotate [OF assms(1,2)] by blast
  have "\<exists>q \<in> set (p # r). find_place bp (hd (p # r)) s = Some q"
  proof (rule find_place_chain)
    show "chain (h_ptr s) ((p # r) @ [p])" using r(1) by (simp add: ring_def)
    show "\<exists>q \<in> set (p # r). stops bp (h_ptr s) q" using place_exists [OF r(1)] r(2) assms(3) by blast
  qed simp
  then show ?thesis unfolding r(2) by simp
qed

section \<open>The heap\<close>

definition area :: "'a uheap_scheme \<Rightarrow> u64 \<Rightarrow> nat set" where
  \<comment> \<open>the bytes of the block at \<open>p\<close>, its header included; \<open>base\<close> is a header without a block\<close>
  "area s p = {unat p ..< unat p + 16 * (if p = hbase s then 1 else unat (h_size s p))}"

definition block_ok :: "'a uheap_scheme \<Rightarrow> u64 \<Rightarrow> bool" where
  "block_ok s p \<longleftrightarrow> 0 < h_size s p \<and> unat p + 16 * unat (h_size s p) \<le> 2 ^ 36 \<and> unat (hbase s) + 16 \<le> unat p"

definition apart :: "'a uheap_scheme \<Rightarrow> u64 set \<Rightarrow> bool" where
  "apart s A \<longleftrightarrow> (\<forall>p \<in> A. \<forall>q \<in> A. p \<noteq> q \<longrightarrow> area s p \<inter> area s q = {})"

definition ring_ok :: "'a uheap_scheme \<Rightarrow> u64 list \<Rightarrow> bool" where
  "ring_ok s xs \<longleftrightarrow> ring (h_ptr s) xs \<and> hbase s \<in> set xs \<and> hbase s \<noteq> 0 \<and> h_size s (hbase s) = 0 \<and>
     (\<forall>p \<in> set xs. p \<noteq> hbase s \<longrightarrow> block_ok s p) \<and> apart s (set xs)"

definition heap_ok :: "'a uheap_scheme \<Rightarrow> u64 list \<Rightarrow> bool" where
  "heap_ok s xs \<longleftrightarrow> ring_ok s xs \<and> freep s \<in> set xs"

definition free_bytes :: "'a uheap_scheme \<Rightarrow> u64 list \<Rightarrow> nat set" where
  "free_bytes s xs = (\<Union>p \<in> set xs - {hbase s}. area s p)"

lemma upd_simps [simp]:
  "h_ptr (set_ptr p q s) = (h_ptr s)(p := q)" "h_size (set_ptr p q s) = h_size s"
  "h_ptr (set_size p n s) = h_ptr s" "h_size (set_size p n s) = (h_size s)(p := n)"
  "hbase (set_ptr p q s) = hbase s" "hbase (set_size p n s) = hbase s"
  "freep (set_ptr p q s) = freep s" "freep (set_size p n s) = freep s"
  by (simp_all add: set_ptr_def set_size_def)

lemma area_set_ptr [simp]: "area (set_ptr p q s) = area s" "block_ok (set_ptr p q s) = block_ok s"
    "apart (set_ptr p q s) = apart s" "free_bytes (set_ptr p q s) = free_bytes s"
  by (simp_all add: fun_eq_iff area_def block_ok_def apart_def free_bytes_def)

lemma area_freep [simp]: "area (s\<lparr>freep := f\<rparr>) = area s" "block_ok (s\<lparr>freep := f\<rparr>) = block_ok s"
    "apart (s\<lparr>freep := f\<rparr>) = apart s" "free_bytes (s\<lparr>freep := f\<rparr>) = free_bytes s" "ring_ok (s\<lparr>freep := f\<rparr>) = ring_ok s"
  by (simp_all add: fun_eq_iff area_def block_ok_def apart_def free_bytes_def ring_ok_def)

lemma hdr_add_unat: "unat p + 16 * unat n \<le> 2 ^ 36 \<Longrightarrow> unat (hdr_add p n) = unat p + 16 * unat n"
proof -
  assume a: "unat p + 16 * unat n \<le> 2 ^ 36"
  have "unat (ucast n * HDR :: u64) = unat n * 16"
    using a by (simp add: HDR_def unat_word_ariths unsigned_ucast_eq take_bit_nat_eq_self mod_less)
  then show ?thesis using a by (simp add: hdr_add_def unat_word_ariths mod_less)
qed

section \<open>Putting a block in\<close>

lemma block_ok_iff: "block_ok (set_size p n s) q \<longleftrightarrow>
    (if q = p then 0 < n \<and> unat p + 16 * unat n \<le> 2 ^ 36 \<and> unat (hbase s) + 16 \<le> unat p else block_ok s q)"
  by (simp add: block_ok_def)

lemma area_set_size: "area (set_size p n s) q =
    (if q = p \<and> p \<noteq> hbase s then {unat p ..< unat p + 16 * unat n} else area s q)"
  by (auto simp: area_def)

lemma own_byte: "p = hbase s \<or> block_ok s p \<Longrightarrow> unat p \<in> area s p"
  by (auto simp: area_def block_ok_def word_less_nat_alt)

lemma ring_insert:
  assumes "ring f (p # r)" "bp \<notin> set (p # r)"
  shows "ring (f(bp := f p, p := bp)) (p # bp # r)"
proof -
  have c: "chain f (p # r @ [p])" and d: "distinct (p # bp # r)" using assms by (auto simp: ring_def)
  have "chain (f(bp := f p, p := bp)) (bp # r @ [p])"
  proof (cases r)
    case Nil
    then show ?thesis using c assms(2) by simp
  next
    case (Cons q r')
    have "chain f ((q # r') @ [p])" using c Cons by simp
    then have "chain (f(bp := f p, p := bp)) ((q # r') @ [p])"
    proof (rule ring_chain_cong)
      fix x assume "x \<in> set (q # r')"
      then have "x \<noteq> p" "x \<noteq> bp" using d Cons by auto
      then show "(f(bp := f p, p := bp)) x = f x" by simp
    qed
    then show ?thesis using c d Cons by auto
  qed
  then show ?thesis using d by (simp add: ring_def)
qed

lemma apart_insert:
  "apart s A \<Longrightarrow> area s b \<inter> (\<Union>q \<in> A. area s q) = {} \<Longrightarrow> apart s (insert b A)"
  unfolding apart_def by blast

lemma ring_ok_insert:
  assumes "ring_ok s (p # r)" "block_ok s bp" "area s bp \<inter> (\<Union>q \<in> set (p # r). area s q) = {}"
  shows "ring_ok (set_ptr p bp (set_ptr bp (h_ptr s p) s)) (p # bp # r) \<and>
    free_bytes (set_ptr p bp (set_ptr bp (h_ptr s p) s)) (p # bp # r) = free_bytes s (p # r) \<union> area s bp"
proof -
  have nb: "bp \<noteq> hbase s" using assms(2) by (auto simp: block_ok_def)
  have fresh: "bp \<notin> set (p # r)" using own_byte [of bp s] assms(2,3) by blast
  have "apart s (set (p # bp # r))"
    using apart_insert [of s "set (p # r)" bp] assms(1,3) unfolding ring_ok_def by (simp add: insert_commute)
  moreover have "ring ((h_ptr s)(bp := h_ptr s p, p := bp)) (p # bp # r)"
    using assms(1) fresh by (intro ring_insert) (simp_all add: ring_ok_def)
  moreover have "\<forall>q \<in> set (p # bp # r). q \<noteq> hbase s \<longrightarrow> block_ok s q"
    using assms(1,2) unfolding ring_ok_def by simp
  moreover have "hbase s \<in> set (p # bp # r)" "hbase s \<noteq> 0" "h_size s (hbase s) = 0"
    using assms(1) by (auto simp: ring_ok_def)
  ultimately have "ring_ok (set_ptr p bp (set_ptr bp (h_ptr s p) s)) (p # bp # r)"
    unfolding ring_ok_def by (simp only: upd_simps area_set_ptr simp_thms)
  moreover have "free_bytes s (p # bp # r) = free_bytes s (p # r) \<union> area s bp"
    using nb unfolding free_bytes_def by auto
  ultimately show ?thesis by (simp only: area_set_ptr simp_thms)
qed

section \<open>Joining two blocks\<close>

lemma ring_drop:
  assumes "ring f (x # y # r)"
  shows "ring (f(x := f y)) (x # r)"
proof -
  have c: "chain f (y # r @ [x])" and d: "distinct (x # y # r)" using assms by (auto simp: ring_def)
  have "chain (f(x := f y)) (x # r @ [x])"
  proof (cases r)
    case Nil
    then show ?thesis using c by simp
  next
    case (Cons q r')
    have "chain f ((q # r') @ [x])" using c Cons by simp
    then have "chain (f(x := f y)) ((q # r') @ [x])"
    proof (rule ring_chain_cong)
      fix z assume "z \<in> set (q # r')"
      then have "z \<noteq> x" using d Cons by auto
      then show "(f(x := f y)) z = f z" by simp
    qed
    then show ?thesis using c Cons by simp
  qed
  then show ?thesis using d by (simp add: ring_def)
qed

lemma ring_ok_join:
  assumes "ring_ok s (x # y # r)" "hdr_add x (h_size s x) = y"
  shows "ring_ok (set_ptr x (h_ptr s y) (set_size x (h_size s x + h_size s y) s)) (x # r) \<and>
    free_bytes (set_ptr x (h_ptr s y) (set_size x (h_size s x + h_size s y) s)) (x # r) = free_bytes s (x # y # r)"
proof -
  let ?n = "h_size s x + h_size s y"
  let ?t = "set_ptr x (h_ptr s y) (set_size x ?n s)"
  have d: "x \<noteq> y" "x \<notin> set r" "y \<notin> set r" using assms(1) by (auto simp: ring_ok_def ring_def)
  have xb: "x \<noteq> hbase s"
    using assms d(1) by (auto simp: ring_ok_def hdr_add_def)
  then have bx: "block_ok s x" using assms(1) by (auto simp: ring_ok_def)
  have y: "unat y = unat x + 16 * unat (h_size s x)"
    using hdr_add_unat [of x "h_size s x"] bx assms(2) by (simp add: block_ok_def)
  then have yb: "y \<noteq> hbase s" using bx by (auto simp: block_ok_def)
  then have bby: "block_ok s y" using assms(1) by (auto simp: ring_ok_def)
  have "unat (h_size s x) + unat (h_size s y) < 2 ^ 32" using bx bby y by (simp add: block_ok_def)
  then have n: "unat ?n = unat (h_size s x) + unat (h_size s y)" by (simp add: unat_word_ariths mod_less)
  have ax: "area ?t x = area s x \<union> area s y"
    using xb yb y n by (auto simp: area_set_size area_def)
  have aq: "area ?t q = area s q" if "q \<noteq> x" for q using that by (simp add: area_set_size)
  have "block_ok ?t x" using bx bby y n by (simp add: block_ok_def word_less_nat_alt)
  moreover have "block_ok ?t q" if "q \<in> set r" "q \<noteq> hbase s" for q
    using that assms(1) d by (auto simp: ring_ok_def block_ok_iff)
  moreover have "apart ?t (set (x # r))"
    unfolding apart_def
  proof (intro ballI impI)
    fix p q assume pq: "p \<in> set (x # r)" "q \<in> set (x # r)" "p \<noteq> q"
    have a: "\<And>p q. p \<in> set (x # y # r) \<Longrightarrow> q \<in> set (x # y # r) \<Longrightarrow> p \<noteq> q \<Longrightarrow> area s p \<inter> area s q = {}"
      using assms(1) unfolding ring_ok_def apart_def by blast
    have r: "\<And>q. q \<in> set r \<Longrightarrow> area ?t q = area s q" using aq d(2) by (metis (no_types))
    show "area ?t p \<inter> area ?t q = {}"
    proof (cases "p = x")
      case True
      then have "q \<in> set r" using pq by simp
      then show ?thesis using True ax r a [of x q] a [of y q] d by auto
    next
      case False
      then have p: "p \<in> set r" using pq by simp
      show ?thesis
      proof (cases "q = x")
        case True
        then show ?thesis using p ax r a [of p x] a [of p y] d by auto
      next
        case False
        then show ?thesis using p pq r a [of p q] by simp
      qed
    qed
  qed
  moreover have "ring ((h_ptr s)(x := h_ptr s y)) (x # r)"
    using assms(1) by (intro ring_drop) (simp add: ring_ok_def)
  ultimately have "ring_ok ?t (x # r)"
    using assms(1) xb yb by (auto simp: ring_ok_def)
  moreover have "free_bytes ?t (x # r) = free_bytes s (x # y # r)"
  proof -
    have "set (x # r) - {hbase s} = insert x (set r - {hbase s})"
      "set (x # y # r) - {hbase s} = insert x (insert y (set r - {hbase s}))" using xb yb by auto
    moreover have "(\<Union>q \<in> set r - {hbase s}. area ?t q) = (\<Union>q \<in> set r - {hbase s}. area s q)"
    proof (rule SUP_cong [OF refl])
      fix q assume "q \<in> set r - {hbase s}"
      then show "area ?t q = area s q" using aq [of q] d(2) by auto
    qed
    ultimately show ?thesis using ax unfolding free_bytes_def by (simp add: Un_assoc)
  qed
  ultimately show ?thesis by blast
qed

lemma join_left_ok:
  assumes "ring_ok s (x # y # r)"
  defines "r' \<equiv> (if hdr_add x (h_size s x) = y then r else y # r)"
  shows "ring_ok (join_left y x s) (x # r') \<and> free_bytes (join_left y x s) (x # r') = free_bytes s (x # y # r)"
proof (cases "hdr_add x (h_size s x) = y")
  case True
  then show ?thesis using ring_ok_join [OF assms(1) True] by (simp add: join_left_def r'_def)
next
  case False
  have "h_ptr s x = y" using assms(1) by (simp add: ring_ok_def ring_def)
  then have "join_left y x s = s" using False by (simp add: join_left_def set_ptr_def fun_upd_idem)
  then show ?thesis using assms(1) False by (simp add: r'_def)
qed

lemma join_both:
  assumes "p \<noteq> bp" "h_ptr s p = q" "q \<noteq> bp" "q = p \<Longrightarrow> hdr_add bp (h_size s bp) \<noteq> p"
  shows "join_left bp p (join_right bp p s) = join_left bp p (join_left q bp (set_ptr p bp (set_ptr bp q s)))"
  using assms by (auto simp: join_left_def join_right_def set_ptr_def set_size_def Let_def fun_upd_twist)

lemma ring_ok_rotate:
  assumes "ring_ok s xs" "p \<in> set xs"
  shows "\<exists>r. ring_ok s (p # r) \<and> set (p # r) = set xs"
proof -
  obtain r where r: "ring (h_ptr s) (p # r)" "set (p # r) = set xs"
    using ring_rotate [OF _ assms(2)] assms(1) unfolding ring_ok_def by blast
  then have "ring_ok s (p # r)" using assms(1) unfolding ring_ok_def by simp
  then show ?thesis using r(2) by blast
qed

lemma ring_second:
  assumes "ring_ok s (p # r)" "h_ptr s p = y" "y \<noteq> p"
  shows "\<exists>r'. r = y # r'"
  using assms by (cases r) (auto simp: ring_ok_def ring_def)

lemma free_bytes_cong: "set xs = set ys \<Longrightarrow> free_bytes s xs = free_bytes s ys"
  by (simp add: free_bytes_def)

lemma ring_ok_put:
  assumes "ring_ok s xs" "p \<in> set xs" "block_ok s bp" "area s bp \<inter> (\<Union>q \<in> set xs. area s q) = {}"
  shows "\<exists>ys. ring_ok (join_left bp p (join_right bp p s)) (p # ys) \<and>
    free_bytes (join_left bp p (join_right bp p s)) (p # ys) = free_bytes s xs \<union> area s bp"
proof -
  have fresh: "bp \<notin> set xs" using own_byte [of bp s] assms(3,4) by blast
  obtain r where r: "ring_ok s (p # r)" "set (p # r) = set xs" using ring_ok_rotate [OF assms(1,2)] by blast
  define q where "q = h_ptr s p"
  have q: "q \<in> set xs" using ring_next [OF _ assms(2)] assms(1) by (simp add: ring_ok_def q_def)
  have ne: "p \<noteq> bp" "q \<noteq> bp" using fresh assms(2) q by auto
  have alone: "hdr_add bp (h_size s bp) \<noteq> p" if "q = p"
  proof -
    have "r = []" using r(1) that by (cases r) (auto simp: ring_ok_def ring_def q_def)
    then have "p = hbase s" using r(1) by (simp add: ring_ok_def)
    moreover have "unat (hdr_add bp (h_size s bp)) > unat (hbase s)"
      using hdr_add_unat [of bp "h_size s bp"] assms(3) by (simp add: block_ok_def)
    ultimately show ?thesis by auto
  qed
  have c: "area s bp \<inter> (\<Union>q \<in> set (p # r). area s q) = {}" using assms(4) unfolding r(2) .
  let ?s1 = "set_ptr p bp (set_ptr bp q s)"
  let ?s2 = "join_left q bp ?s1"
  have i: "ring_ok ?s1 (p # bp # r)" "free_bytes ?s1 (p # bp # r) = free_bytes s xs \<union> area s bp"
    using ring_ok_insert [OF r(1) assms(3) c] free_bytes_cong [OF r(2), of s] unfolding q_def by simp_all
  obtain r1 where r1: "ring_ok ?s1 (bp # r1)" "set (bp # r1) = set (p # bp # r)"
    using ring_ok_rotate [OF i(1), of bp] by auto
  obtain r2 where r2: "r1 = q # r2" using ring_second [OF r1(1), of q] ne by auto
  define r3 where "r3 = (if hdr_add bp (h_size s bp) = q then r2 else q # r2)"
  have j: "ring_ok ?s2 (bp # r3) \<and> free_bytes ?s2 (bp # r3) = free_bytes ?s1 (bp # q # r2)"
    using join_left_ok [of ?s1 bp q r2] r1(1) unfolding r2 r3_def by simp
  have "free_bytes ?s1 (bp # q # r2) = free_bytes ?s1 (p # bp # r)"
    using free_bytes_cong [OF r1(2), of ?s1] unfolding r2 .
  then have two: "ring_ok ?s2 (bp # r3)" "free_bytes ?s2 (bp # r3) = free_bytes s xs \<union> area s bp"
    using j i(2) by (simp_all only:)
  have "p \<in> set (bp # r3)"
    using r1(2) ne alone unfolding r2 r3_def by auto
  then obtain r4 where r4: "ring_ok ?s2 (p # r4)" "set (p # r4) = set (bp # r3)" using ring_ok_rotate [OF two(1)] by blast
  have "h_ptr ?s2 p = bp" using ne by (simp add: join_left_def)
  then obtain r5 where r5: "r4 = bp # r5" using ring_second [OF r4(1)] ne by auto
  have "join_left bp p (join_right bp p s) = join_left bp p ?s2"
    by (rule join_both) (use ne alone q_def in auto)
  then show ?thesis
    using join_left_ok [of ?s2 p bp r5] r4 r5 two(2) free_bytes_cong [OF r4(2)] by metis
qed

lemma joins_frame:
  assumes "x \<noteq> bp" "x \<noteq> p"
  shows "h_ptr (join_left bp p (join_right bp p s)) x = h_ptr s x \<and> h_size (join_left bp p (join_right bp p s)) x = h_size s x"
  using assms by (simp add: join_left_def join_right_def Let_def)

lemma joins_base [simp]: "hbase (join_left bp p (join_right bp p s)) = hbase s"
  by (simp add: join_left_def join_right_def Let_def)

text \<open>C30: \<open>free\<close> ends, in whatever order the ring is, and adds to the free bytes exactly those of the
  block it is given: the ring stays a ring of blocks that do not overlap, and of all headers only that
  of the block and that of one block of the ring change, so the header of every block that is still
  allocated keeps its size and its pointer.\<close>
theorem ufree_adds_block:
  assumes "heap_ok s xs" "block_ok s (ap - HDR)" "area s (ap - HDR) \<inter> (\<Union>q \<in> set xs. area s q) = {}"
  shows "\<exists>t ys. ufree ap s = Some t \<and> heap_ok t ys \<and> free_bytes t ys = free_bytes s xs \<union> area s (ap - HDR) \<and>
    hbase t = hbase s \<and>
    (\<exists>p \<in> set xs. \<forall>x. x \<noteq> ap - HDR \<and> x \<noteq> p \<longrightarrow> h_ptr t x = h_ptr s x \<and> h_size t x = h_size s x)"
proof -
  define bp where "bp = ap - HDR"
  have fresh: "bp \<notin> set xs" using own_byte [of bp s] assms(2,3) bp_def by blast
  have R: "ring_ok s xs" "freep s \<in> set xs" using assms(1) by (simp_all add: heap_ok_def)
  obtain p where p: "p \<in> set xs" "find_place bp (freep s) s = Some p"
    using find_place_returns [OF _ R(2) fresh] R(1) by (auto simp: ring_ok_def)
  obtain ys where ys: "ring_ok (join_left bp p (join_right bp p s)) (p # ys)"
      "free_bytes (join_left bp p (join_right bp p s)) (p # ys) = free_bytes s xs \<union> area s bp"
    using ring_ok_put [OF R(1) p(1)] assms(2,3) unfolding bp_def by blast
  let ?t = "(join_left bp p (join_right bp p s))\<lparr>freep := p\<rparr>"
  have "ufree ap s = Some ?t" using p(2) by (simp add: ufree_def Let_def bp_def)
  moreover have "heap_ok ?t (p # ys)" using ys(1) by (simp add: heap_ok_def)
  moreover have "hbase ?t = hbase s" by simp
  moreover have "\<forall>x. x \<noteq> bp \<and> x \<noteq> p \<longrightarrow> h_ptr ?t x = h_ptr s x \<and> h_size ?t x = h_size s x"
    using joins_frame [of _ bp p s] by simp
  ultimately show ?thesis using ys(2) p(1) unfolding bp_def [symmetric]
    by (intro exI [of _ ?t] exI [of _ "p # ys"]) auto
qed

section \<open>Taking a block out\<close>

lemma ring_ok_replace:
  assumes "ring_ok s xs" "p \<in> set xs" "p \<noteq> hbase s" "hbase t = hbase s" "ring (h_ptr t) ys"
    and "set ys = (set xs - {p}) \<union> N" "\<And>q. q \<in> set xs - {p} \<Longrightarrow> h_size t q = h_size s q"
    and "\<And>q. q \<in> N \<Longrightarrow> block_ok t q" "\<And>q. q \<in> N \<Longrightarrow> area t q \<subseteq> area s p" "apart t N"
  shows "ring_ok t ys \<and> free_bytes t ys = (free_bytes s xs - area s p) \<union> (\<Union>q \<in> N. area t q)"
proof -
  have nb: "q \<noteq> hbase s" if "q \<in> N" for q using assms(8) [OF that] assms(4) by (auto simp: block_ok_def)
  have old: "area t q = area s q" if "q \<in> set xs - {p}" for q using assms(7) [OF that] assms(4) by (simp add: area_def)
  have ap: "area s a \<inter> area s b = {}" if "a \<in> set xs" "b \<in> set xs" "a \<noteq> b" for a b
    using assms(1) that unfolding ring_ok_def apart_def by blast
  have "apart t (set ys)"
    unfolding apart_def assms(6)
  proof (intro ballI impI)
    fix a b assume ab: "a \<in> (set xs - {p}) \<union> N" "b \<in> (set xs - {p}) \<union> N" "a \<noteq> b"
    have N: "area t a \<inter> area t b = {}" if "a \<in> N" "b \<in> N" using assms(10) that ab(3) unfolding apart_def by blast
    have m: "area t a \<inter> area t b = {}" if "a \<in> set xs - {p}" "b \<in> N" for a b
      using old [OF that(1)] assms(9) [OF that(2)] ap [of a p] that(1) assms(2) by auto
    have o: "area t a \<inter> area t b = {}" if "a \<in> set xs - {p}" "b \<in> set xs - {p}"
      using old [OF that(1)] old [OF that(2)] ap [of a b] ab(3) that by auto
    show "area t a \<inter> area t b = {}" using ab(1,2) N m [of a b] m [of b a] o by blast
  qed
  moreover have "block_ok t q" if "q \<in> set ys" "q \<noteq> hbase t" for q
  proof (cases "q \<in> N")
    case False
    then have q: "q \<in> set xs - {p}" using that(1) assms(6) by blast
    then have "block_ok s q" using assms(1,4) that(2) by (simp add: ring_ok_def)
    then show ?thesis using assms(7) [OF q] by (simp add: block_ok_def assms(4))
  qed (rule assms(8))
  moreover have "hbase t \<in> set ys" "hbase t \<noteq> 0" "h_size t (hbase t) = 0"
    using assms(1,3,4,6,7) by (auto simp: ring_ok_def)
  ultimately have ok: "ring_ok t ys" using assms(5) unfolding ring_ok_def by blast
  have "set ys - {hbase t} = (set xs - {p} - {hbase s}) \<union> N" using assms(4,6) nb by auto
  then have f: "free_bytes t ys = (\<Union>q \<in> set xs - {p} - {hbase s}. area t q) \<union> (\<Union>q \<in> N. area t q)"
    unfolding free_bytes_def by simp
  have "(\<Union>q \<in> set xs - {p} - {hbase s}. area t q) = (\<Union>q \<in> set xs - {p} - {hbase s}. area s q)"
    by (rule SUP_cong) (use old in auto)
  also have "\<dots> = free_bytes s xs - area s p"
  proof -
    have "free_bytes s xs = (\<Union>q \<in> set xs - {p} - {hbase s}. area s q) \<union> area s p"
      unfolding free_bytes_def using assms(2,3) by auto
    moreover have "(\<Union>q \<in> set xs - {p} - {hbase s}. area s q) \<inter> area s p = {}"
      using ap assms(2) by blast
    ultimately show ?thesis by blast
  qed
  finally show ?thesis using ok f by simp
qed

definition taken :: "u32 \<Rightarrow> 'a uheap_scheme \<Rightarrow> u64 list \<Rightarrow> u64 \<times> 'a uheap_scheme \<Rightarrow> bool" where
  \<comment> \<open>the result is a block of \<open>n\<close> units whose bytes, and no others, were free and are not any more\<close>
  "taken n s xs r \<longleftrightarrow>
     (let (a, t) = r; b = a - HDR in
      \<exists>ys. heap_ok t ys \<and> h_size t b = n \<and> block_ok t b \<and> area t b \<subseteq> free_bytes s xs \<and>
        free_bytes t ys = free_bytes s xs - area t b)"

lemma takenI:
  assumes "ring_ok t ys" "q \<in> set ys" "h_size t b = n" "block_ok t b" "area t b \<subseteq> free_bytes s xs"
    "free_bytes t ys = free_bytes s xs - area t b"
  shows "taken n s xs (b + HDR, t\<lparr>freep := q\<rparr>)"
  using assms by (auto simp: taken_def Let_def heap_ok_def)

lemma area_free: "ring_ok s xs \<Longrightarrow> p \<in> set xs \<Longrightarrow> p \<noteq> hbase s \<Longrightarrow> area s p \<subseteq> free_bytes s xs"
  by (auto simp: free_bytes_def)

lemma inside_not_in_ring:
  assumes "ring_ok s xs" "p \<in> set xs" "unat x \<in> area s p" "x \<noteq> p" shows "x \<notin> set xs"
proof
  assume x: "x \<in> set xs"
  then have "unat x \<in> area s x" using own_byte [of x s] assms(1) unfolding ring_ok_def by blast
  then show False using assms x unfolding ring_ok_def apart_def by blast
qed

lemma take_block_taken:
  assumes "ring_ok s (q # p # r)" "p \<noteq> hbase s" "nunits \<le> h_size s p" "0 < nunits"
  shows "taken nunits s (q # p # r) (take_block nunits q p s)"
proof -
  let ?xs = "q # p # r"
  have bp: "block_ok s p" and d: "q \<noteq> p" using assms(1,2) by (auto simp: ring_ok_def ring_def)
  have ap: "area s p \<subseteq> free_bytes s ?xs" using area_free [OF assms(1) _ assms(2)] by simp
  show ?thesis
  proof (cases "h_size s p = nunits")
    case True
    let ?t = "set_ptr q (h_ptr s p) s"
    have "ring (h_ptr ?t) (q # r)" using assms(1) ring_drop [of "h_ptr s" q p r] by (simp add: ring_ok_def)
    then have R: "ring_ok ?t (q # r) \<and> free_bytes ?t (q # r) = (free_bytes s ?xs - area s p) \<union> (\<Union>x \<in> {}. area ?t x)"
      using assms(1,2) by (intro ring_ok_replace [of s ?xs p]) (auto simp: apart_def ring_ok_def ring_def)
    then show ?thesis
      using True ap bp by (auto simp: taken_def take_block_def heap_ok_def Let_def intro!: exI [of _ "q # r"])
  next
    case False
    define n where "n = h_size s p - nunits"
    define b where "b = hdr_add p n"
    have "nunits < h_size s p" using assms(3) False by simp
    then have lt: "unat nunits < unat (h_size s p)" by (simp add: word_less_nat_alt)
    have n: "unat n = unat (h_size s p) - unat nunits" "0 < n"
      using assms(3) lt by (simp_all add: n_def unat_sub word_less_nat_alt)
    have ub: "unat b = unat p + 16 * unat n"
    proof -
      have "unat n \<le> unat (h_size s p)" using n(1) by simp
      then have "unat p + 16 * unat n \<le> 2 ^ 36" using bp by (simp add: block_ok_def)
      then show ?thesis unfolding b_def by (rule hdr_add_unat)
    qed
    let ?t = "set_size b nunits (set_size p n s)"
    have bne: "b \<noteq> p" using ub n(2) by (auto simp: word_less_nat_alt)
    have "0 < unat nunits" using assms(4) by (simp add: word_less_nat_alt)
    then have inp: "unat b \<in> area s p" using ub n(1) lt assms(2) by (simp add: area_def)
    have nin: "b \<notin> set ?xs" by (rule inside_not_in_ring [OF assms(1) _ inp bne]) simp
    have bb: "b \<noteq> hbase s" using nin assms(1) unfolding ring_ok_def by metis
    have a: "area ?t p = {unat p ..< unat b}" "area ?t b = {unat b ..< unat p + 16 * unat (h_size s p)}"
      using assms(2) bne bb ub n lt by (auto simp: area_def)
    have sp: "area s p = area ?t p \<union> area ?t b" "area ?t p \<inter> area ?t b = {}"
      using assms(2) ub n lt unfolding a by (auto simp: area_def)
    have R: "ring_ok ?t ?xs \<and> free_bytes ?t ?xs = (free_bytes s ?xs - area s p) \<union> (\<Union>x \<in> {p}. area ?t x)"
    proof (rule ring_ok_replace [OF assms(1) _ assms(2)])
      show "ring (h_ptr ?t) ?xs" using assms(1) by (simp add: ring_ok_def)
      show "set ?xs = set ?xs - {p} \<union> {p}" by auto
      show "h_size ?t x = h_size s x" if "x \<in> set ?xs - {p}" for x using that nin by auto
      show "block_ok ?t x" if "x \<in> {p}" for x using that bp n bne ub lt by (auto simp: block_ok_def)
      show "area ?t x \<subseteq> area s p" if "x \<in> {p}" for x using that sp by auto
    qed (simp_all add: apart_def)
    have "block_ok ?t b" using bp n lt ub assms(4) by (auto simp: block_ok_def)
    moreover have "free_bytes ?t ?xs = free_bytes s ?xs - area ?t b" using R sp ap by auto
    moreover have "area ?t b \<subseteq> free_bytes s ?xs" using sp ap by auto
    moreover have "take_block nunits q p s = (b + HDR, ?t\<lparr>freep := q\<rparr>)"
      using False by (simp add: take_block_def n_def b_def Let_def)
    moreover have "heap_ok (?t\<lparr>freep := q\<rparr>) ?xs" using R by (simp add: heap_ok_def)
    ultimately show ?thesis by (simp add: taken_def) (metis area_freep(4))
  qed
qed

lemma alloc_loop_finds:
  assumes "chain (h_ptr s) (q # ys)" "freep s \<notin> set (butlast ys)" "\<exists>p \<in> set ys. nunits \<le> h_size s p"
  shows "\<exists>q' p'. alloc_loop tk os nunits q (hd ys) s = Some (tk q' p' s) \<and> q' \<in> set (q # ys) \<and> p' \<in> set ys \<and>
    h_ptr s q' = p' \<and> nunits \<le> h_size s p'"
  using assms
proof (induction ys arbitrary: q)
  case (Cons y ys)
  have f: "h_ptr s q = y" using Cons.prems(1) by simp
  show ?case
  proof (cases "nunits \<le> h_size s y")
    case True
    then have "alloc_loop tk os nunits q (hd (y # ys)) s = Some (tk q y s)" by (subst alloc_loop.simps) simp
    then show ?thesis using True f by (intro exI [of _ q] exI [of _ y]) simp
  next
    case False
    then have ne: "ys \<noteq> []" and ex: "\<exists>p \<in> set ys. nunits \<le> h_size s p" using Cons.prems(3) by auto
    have c: "chain (h_ptr s) (y # ys)" using Cons.prems(1) by simp
    have "h_ptr s y = hd ys" using c ne by (cases ys) auto
    moreover have "y \<noteq> freep s" "freep s \<notin> set (butlast ys)" using Cons.prems(2) ne by auto
    moreover have "alloc_loop tk os nunits q (hd (y # ys)) s = alloc_loop tk os nunits y (h_ptr s y) s"
      using False \<open>y \<noteq> freep s\<close> by (subst alloc_loop.simps) simp
    ultimately show ?thesis using Cons.IH [OF c _ ex] by auto
  qed
qed simp

lemma alloc_ring:
  assumes "heap_ok s xs" "p \<in> set xs" "nunits \<le> h_size s p" "0 < nunits"
  shows "\<exists>q p r. alloc_loop tk os nunits (freep s) (h_ptr s (freep s)) s = Some (tk q p s) \<and>
    ring_ok s (q # p # r) \<and> set (q # p # r) = set xs \<and> p \<noteq> hbase s \<and> nunits \<le> h_size s p"
proof -
  have R: "ring_ok s xs" "freep s \<in> set xs" using assms(1) by (simp_all add: heap_ok_def)
  obtain r where r: "ring_ok s (freep s # r)" "set (freep s # r) = set xs" using ring_ok_rotate [OF R] by blast
  have c: "chain (h_ptr s) (freep s # r @ [freep s])" and d: "freep s \<notin> set r" using r(1) by (auto simp: ring_ok_def ring_def)
  have h: "h_ptr s (freep s) = hd (r @ [freep s])" using c by (cases r) auto
  have "\<exists>p \<in> set (r @ [freep s]). nunits \<le> h_size s p" using assms(2,3) r(2) by auto
  then obtain q' p' where L: "alloc_loop tk os nunits (freep s) (h_ptr s (freep s)) s = Some (tk q' p' s)"
      "q' \<in> set (freep s # r @ [freep s])" "p' \<in> set (r @ [freep s])" "h_ptr s q' = p'" "nunits \<le> h_size s p'"
    using alloc_loop_finds [OF c, of nunits tk os] d unfolding h by auto
  have in_xs: "q' \<in> set xs" "p' \<in> set xs" using L(2,3) r(2) by auto
  have nb: "p' \<noteq> hbase s" using L(5) assms(4) R(1) by (auto simp: ring_ok_def)
  obtain r1 where r1: "ring_ok s (q' # r1)" "set (q' # r1) = set xs" using ring_ok_rotate [OF R(1) in_xs(1)] by blast
  have "p' \<noteq> q'"
  proof
    assume e: "p' = q'"
    then have "r1 = []" using r1(1) L(4) by (cases r1) (auto simp: ring_ok_def ring_def)
    then show False using r1(1) nb e by (simp add: ring_ok_def)
  qed
  then obtain r2 where "r1 = p' # r2" using ring_second [OF r1(1) L(4)] by blast
  then show ?thesis using L(1,5) r1 nb by blast
qed

lemma freep_nonzero: "heap_ok s xs \<Longrightarrow> first_use s = s"
proof -
  assume a: "heap_ok s xs"
  then have "freep s \<noteq> 0" by (auto simp: heap_ok_def ring_ok_def block_ok_def)
  then show ?thesis by (simp add: first_use_def)
qed

lemma header_units_val: "unat (header_units n) = (unat n + 15) div 16 + 1"
proof -
  have n: "unat n < 2 ^ 32" using unat_bound [of n] by simp
  have "unat (ucast n + HDR - 1 :: u64) = unat n + 15"
    using n by (simp add: HDR_def unat_word_ariths unsigned_ucast_eq take_bit_nat_eq_self mod_less)
  then have "unat ((ucast n + HDR - 1) div HDR + 1 :: u64) = (unat n + 15) div 16 + 1"
    using n by (simp add: HDR_def unat_word_ariths unat_div mod_less)
  then show ?thesis using n by (simp add: header_units_def unsigned_ucast_eq take_bit_nat_eq_self)
qed

lemma taken_cong: "set xs = set ys \<Longrightarrow> taken n s xs r = taken n s ys r"
  using free_bytes_cong [of xs ys s] by (simp add: taken_def)

text \<open>C31: Whenever some block of the ring is large enough, \<open>malloc\<close> returns, without asking the kernel for
  memory, a block of the needed number of units: the request rounded up and its header.  All its
  bytes were free, they alone have been removed from the free bytes, and the ring is still
  well-formed.\<close>
theorem malloc_takes_free_block:
  assumes "heap_ok s xs" "p \<in> set xs" "(unat nbytes + 15) div 16 + 1 \<le> unat (h_size s p)"
  shows "\<exists>r. malloc os nbytes s = Some r \<and> taken (header_units nbytes) s xs r"
proof -
  have n: "header_units nbytes \<le> h_size s p" "0 < header_units nbytes"
    using assms(3) by (simp_all add: word_le_nat_alt word_less_nat_alt header_units_val)
  obtain q p' r where L: "alloc_loop (take_block (header_units nbytes)) os (header_units nbytes) (freep s) (h_ptr s (freep s)) s =
      Some (take_block (header_units nbytes) q p' s)"
      "ring_ok s (q # p' # r)" "set (q # p' # r) = set xs" "p' \<noteq> hbase s" "header_units nbytes \<le> h_size s p'"
    using alloc_ring [OF assms(1,2) n] by blast
  have "malloc os nbytes s = Some (take_block (header_units nbytes) q p' s)"
    using L(1) freep_nonzero [OF assms(1)] by (simp add: malloc_def Let_def)
  then show ?thesis using take_block_taken [OF L(2,4,5) n(2)] taken_cong [OF L(3)] by blast
qed

section \<open>Aligned blocks\<close>

lemma ring_swap:
  assumes "ring f (q # p # r)" "x \<notin> set (q # p # r)"
  shows "ring (f(x := f p, q := x)) (q # x # r)"
proof -
  have "ring (f(q := f p)) (q # r)" using assms(1) by (rule ring_drop)
  then have "ring ((f(q := f p))(x := (f(q := f p)) q, q := x)) (q # x # r)"
    by (rule ring_insert) (use assms(2) in simp)
  moreover have "(f(q := f p))(x := (f(q := f p)) q, q := x) = f(x := f p, q := x)"
    using assms(2) by (auto simp: fun_eq_iff)
  ultimately show ?thesis by simp
qed

lemma set_cut: "A \<subseteq> F \<Longrightarrow> A = N \<union> R \<Longrightarrow> N \<inter> R = {} \<Longrightarrow> (F - A) \<union> N = F - R"
  by blast

lemma ucast_of_unat: "unat (x :: u64) = k \<Longrightarrow> ucast x = (of_nat k :: u32)"
  by (metis of_nat_unat)

lemma round_up_16:
  fixes n :: nat assumes "n mod 16 = 0"
  shows "n + 16 \<le> (n + 16 + 4095) div 4096 * 4096 \<and> (n + 16 + 4095) div 4096 * 4096 \<le> n + 16 + 4095 \<and>
    ((n + 16 + 4095) div 4096 * 4096 - 16 - n) mod 16 = 0"
proof -
  obtain j where j: "n = 16 * j" using assms by (metis mod_0_imp_dvd dvdE)
  define t where "t = (n + 16 + 4095) div 4096"
  have m: "t * 4096 + (n + 16 + 4095) mod 4096 = n + 16 + 4095" unfolding t_def by (rule div_mult_mod_eq)
  have "(n + 16 + 4095) mod 4096 \<le> 4095" by (simp add: less_Suc_eq_le [symmetric])
  then have "n + 16 \<le> t * 4096" "t * 4096 \<le> n + 16 + 4095" using m by linarith+
  moreover have "t * 4096 - 16 - n = 16 * (256 * t - 1 - j)" unfolding j by (simp add: diff_mult_distrib2)
  ultimately show ?thesis unfolding t_def by simp
qed

lemma aligned_offset:
  assumes "unat (p :: u64) mod 16 = 0" "unat p \<le> 2 ^ 36"
  defines "k \<equiv> (unat (PGROUNDUP (p + HDR)) - 16 - unat p) div 16"
  shows "k \<le> 255 \<and> unat (PGROUNDUP (p + HDR) - HDR) = unat p + 16 * k \<and>
    ucast ((PGROUNDUP (p + HDR) - HDR - p) div HDR) = (of_nat k :: u32) \<and> unat (PGROUNDUP (p + HDR)) mod 4096 = 0"
proof -
  let ?A = "(unat p + 16 + 4095) div 4096 * 4096"
  have p16: "unat (p + HDR) = unat p + 16" using assms(2) by (simp add: HDR_def unat_word_ariths mod_less)
  then have A: "unat (PGROUNDUP (p + HDR)) = ?A" using unat_PGROUNDUP [of "p + HDR"] assms(2) by simp
  have b: "unat p + 16 \<le> ?A" "?A \<le> unat p + 16 + 4095" "(?A - 16 - unat p) mod 16 = 0"
    using round_up_16 [OF assms(1)] by blast+
  have k: "16 * k = ?A - 16 - unat p" unfolding k_def A using b(3) by (simp add: minus_mod_eq_mult_div [symmetric])
  have "16 \<le> unat (PGROUNDUP (p + HDR))" using A b(1) by simp
  then have al: "unat (PGROUNDUP (p + HDR) - HDR) = ?A - 16"
    using A by (simp add: unat_sub word_le_nat_alt HDR_def)
  moreover have "unat (PGROUNDUP (p + HDR) - HDR - p) = 16 * k"
    using al b(1) k by (simp add: unat_sub word_le_nat_alt)
  then have "unat ((PGROUNDUP (p + HDR) - HDR - p) div HDR) = k" by (simp add: unat_div HDR_def)
  then have "ucast ((PGROUNDUP (p + HDR) - HDR - p) div HDR) = (of_nat k :: u32)"
    by (metis ucast_of_unat)
  ultimately show ?thesis using k b A by auto
qed

lemma take_aligned_taken:
  assumes "ring_ok s (q # p # r)" "p \<noteq> hbase s" "unat p mod 16 = 0" "0 < ounits" "unat ounits + 256 \<le> unat (h_size s p)"
  shows "taken ounits s (q # p # r) (take_aligned ounits q p s) \<and> unat (fst (take_aligned ounits q p s)) mod 4096 = 0"
proof -
  let ?xs = "q # p # r"
  have bp: "block_ok s p" and d: "q \<noteq> p" using assms(1,2) by (auto simp: ring_ok_def ring_def)
  have ap: "area s p \<subseteq> free_bytes s ?xs" using area_free [OF assms(1) _ assms(2)] by simp
  have pb: "unat p \<le> 2 ^ 36" using bp by (simp add: block_ok_def)
  define k where "k = (unat (PGROUNDUP (p + HDR)) - 16 - unat p) div 16"
  define ret where "ret = PGROUNDUP (p + HDR) - HDR"
  have K: "k \<le> 255" "unat ret = unat p + 16 * k" "ucast ((ret - p) div HDR) = (of_nat k :: u32)"
      "unat (PGROUNDUP (p + HDR)) mod 4096 = 0"
    using aligned_offset [OF assms(3) pb] unfolding k_def ret_def by auto
  define right where "right = hdr_add ret ounits"
  define rs where "rs = h_size s p - ounits - of_nat k"
  have rs: "unat rs = unat (h_size s p) - unat ounits - k" "0 < unat rs"
    using assms(5) K(1) by (simp_all add: rs_def unat_sub word_le_nat_alt)
  have size: "unat p + 16 * unat (h_size s p) \<le> 2 ^ 36" using bp by (simp add: block_ok_def)
  have right: "unat right = unat p + 16 * k + 16 * unat ounits"
    using hdr_add_unat [of ret ounits] K(1,2) assms(5) size by (simp add: right_def)
  have in_p: "unat right \<in> area s p" "unat ret \<in> area s p"
    using right K(1,2) assms(2,5) by (auto simp: area_def)
  have ne: "right \<noteq> p" "right \<noteq> ret"
    using right K(2) assms(4) by (auto simp: word_less_nat_alt)
  have nin: "right \<notin> set ?xs" by (rule inside_not_in_ring [OF assms(1) _ in_p(1) ne(1)]) simp
  have retin: "ret = p \<and> k = 0 \<or> ret \<notin> set ?xs \<and> k \<noteq> 0"
  proof (cases "k = 0")
    case True
    then show ?thesis using K(2) by (simp add: word_unat_eq_iff)
  next
    case False
    then have "ret \<noteq> p" using K(2) by auto
    then show ?thesis using inside_not_in_ring [OF assms(1) _ in_p(2)] False by simp
  qed
  have hb: "hbase s \<in> set ?xs" using assms(1) by (simp add: ring_ok_def)
  then have nb: "right \<noteq> hbase s" "ret \<noteq> hbase s" using nin retin assms(2) by auto
  let ?z = "set_size right rs (set_size ret ounits s)"
  let ?t = "set_ptr q right (if k = 0 then set_ptr right (h_ptr s p) ?z else set_size p (of_nat k) (set_ptr right p ?z))"
  let ?ys = "if k = 0 then q # right # r else q # right # p # r"
  let ?N = "if k = 0 then {right} else {right, p}"
  have hq: "h_ptr s q = p" using assms(1) by (simp add: ring_ok_def ring_def)
  have kz: "(of_nat k :: u32) = 0 \<longleftrightarrow> k = 0" "unat (of_nat k :: u32) = k" using K(1) by (simp_all add: unat_eq_0 [symmetric])
  have T: "take_aligned ounits q p s = (ret + HDR, ?t\<lparr>freep := q\<rparr>)"
    by (simp add: take_aligned_def Let_def ret_def [symmetric] K(3) right_def [symmetric] rs_def kz)
  have hs: "h_size ?t right = rs" "h_size ?t ret = ounits" "k \<noteq> 0 \<Longrightarrow> h_size ?t p = of_nat k"
    using ne retin by auto
  have a: "area ?t right = {unat right ..< unat p + 16 * unat (h_size s p)}" "area ?t ret = {unat ret ..< unat right}"
      "k \<noteq> 0 \<Longrightarrow> area ?t p = {unat p ..< unat ret}"
    using hs nb assms(2) rs right K(1,2) assms(5) kz by (auto simp: area_def)
  have sp: "area s p = {unat p ..< unat p + 16 * unat (h_size s p)}" using assms(2) by (simp add: area_def)
  have parts: "area s p = (\<Union>x \<in> ?N. area ?t x) \<union> area ?t ret" "(\<Union>x \<in> ?N. area ?t x) \<inter> area ?t ret = {}"
    using a right rs K(1,2) assms(5) unfolding sp by (auto split: if_splits)
  have R: "ring_ok ?t ?ys \<and> free_bytes ?t ?ys = (free_bytes s ?xs - area s p) \<union> (\<Union>x \<in> ?N. area ?t x)"
  proof (rule ring_ok_replace [OF assms(1) _ assms(2)])
    show "ring (h_ptr ?t) ?ys"
    proof (cases "k = 0")
      case True
      then show ?thesis using ring_swap [of "h_ptr s" q p r right] assms(1) nin by (simp add: ring_ok_def)
    next
      case False
      then show ?thesis using ring_insert [of "h_ptr s" q "p # r" right] assms(1) nin hq by (simp add: ring_ok_def)
    qed
    show "set ?ys = (set ?xs - {p}) \<union> ?N" using assms(1) d by (auto simp: ring_ok_def ring_def)
    show "h_size ?t x = h_size s x" if "x \<in> set ?xs - {p}" for x using that nin retin by auto
    show "block_ok ?t x" if "x \<in> ?N" for x
    proof -
      have hbt: "hbase ?t = hbase s" by simp
      have "unat (hbase s) + 16 \<le> unat p" using bp by (simp add: block_ok_def)
      moreover have "block_ok ?t right"
        unfolding block_ok_def hs(1) hbt using rs right size calculation by (simp add: word_less_nat_alt)
      moreover have "block_ok ?t p" if k: "k \<noteq> 0"
        unfolding block_ok_def hs(3) [OF k] hbt using kz k calculation(1) size K(1) assms(5)
        by (simp add: word_less_nat_alt)
      ultimately show ?thesis using that by (auto split: if_splits)
    qed
    show "area ?t x \<subseteq> area s p" if "x \<in> ?N" for x using that parts(1) by blast
    show "apart ?t ?N" using a right K(2) by (auto simp: apart_def)
  qed simp_all
  have hbt: "hbase ?t = hbase s" by simp
  have lo: "unat (hbase s) + 16 \<le> unat p + 16 * k" using bp by (simp add: block_ok_def)
  have "k + unat ounits \<le> unat (h_size s p)" using K(1) assms(5) by simp
  then have hi: "unat p + 16 * k + 16 * unat ounits \<le> 2 ^ 36" using size by simp
  have "block_ok ?t ret"
    unfolding block_ok_def hs(2) hbt K(2) using assms(4) lo hi by (intro conjI)
  moreover have "free_bytes ?t ?ys = free_bytes s ?xs - area ?t ret"
    unfolding conjunct2 [OF R] by (rule set_cut [OF ap parts])
  moreover have "area ?t ret \<subseteq> free_bytes s ?xs" using ap unfolding parts(1) by (rule Un_subset_iff [THEN iffD1, THEN conjunct2])
  ultimately have "taken ounits s ?xs (ret + HDR, ?t\<lparr>freep := q\<rparr>)"
  proof (intro takenI [of ?t ?ys])
    show "ring_ok ?t ?ys" using R by (rule conjunct1)
    show "q \<in> set ?ys" by (cases "k = 0") simp_all
  qed (rule hs(2))
  moreover have "unat (ret + HDR) mod 4096 = 0" using K(4) by (simp add: ret_def)
  ultimately show ?thesis unfolding T by simp
qed

text \<open>When a block of the ring is larger by a page than the request and all blocks are aligned to
  their headers, \<open>malloc_align\<close> returns an address at a page boundary in front of which lies a
  header of the needed units; again exactly the bytes of the block have left the free bytes, though
  the ring is no longer in the order of addresses.\<close>
theorem malloc_align_takes_aligned_block:
  assumes "heap_ok s xs" "p \<in> set xs" "unat nbytes < 2 ^ 31" "(unat nbytes + 4096 + 15) div 16 + 1 \<le> unat (h_size s p)"
    "\<forall>p \<in> set xs. unat p mod 16 = 0"
  shows "\<exists>a t. malloc_align os nbytes s = Some (a, t) \<and> unat a mod 4096 = 0 \<and> taken (header_units nbytes) s xs (a, t)"
proof -
  let ?n = "header_units (nbytes + 4096)" and ?o = "header_units nbytes"
  have v: "unat (nbytes + 4096) = unat nbytes + 4096" using assms(3) by (simp add: unat_word_ariths mod_less)
  have n: "?n \<le> h_size s p" "0 < ?n" "0 < ?o"
    using assms(4) by (simp_all add: word_le_nat_alt word_less_nat_alt header_units_val v)
  obtain q p' r where L: "alloc_loop (take_aligned ?o) os ?n (freep s) (h_ptr s (freep s)) s = Some (take_aligned ?o q p' s)"
      "ring_ok s (q # p' # r)" "set (q # p' # r) = set xs" "p' \<noteq> hbase s" "?n \<le> h_size s p'"
    using alloc_ring [OF assms(1,2) n(1,2)] by blast
  have "unat ?o + 256 = unat ?n" by (simp add: header_units_val v)
  then have big: "unat ?o + 256 \<le> unat (h_size s p')" using L(5) by (simp add: word_le_nat_alt)
  have "p' \<in> set xs" using L(3) by auto
  then have T: "taken ?o s (q # p' # r) (take_aligned ?o q p' s) \<and> unat (fst (take_aligned ?o q p' s)) mod 4096 = 0"
    using take_aligned_taken [OF L(2,4) bspec [OF assms(5)] n(3) big] by blast
  have "malloc_align os nbytes s = Some (take_aligned ?o q p' s)"
    using L(1) freep_nonzero [OF assms(1)] by (simp add: malloc_align_def Let_def)
  then show ?thesis using T taken_cong [OF L(3)] by (cases "take_aligned ?o q p' s") auto
qed

section \<open>A concrete heap\<close>

definition small_heap :: uheap where
  \<comment> \<open>\<open>base\<close> and one block of 4096 units\<close>
  "small_heap = \<lparr>h_ptr = (\<lambda>p. if p = 0x3000 then 0x4000 else 0x3000), h_size = (\<lambda>p. if p = 0x3000 then 0 else 4096),
     freep = 0x3000, hbase = 0x3000\<rparr>"

lemma small_heap_ok: "heap_ok small_heap [0x3000, 0x4000]"
  by (auto simp: heap_ok_def ring_ok_def ring_def small_heap_def block_ok_def apart_def area_def)

theorem ufree_adds_block_witness:
  "\<exists>t ys. ufree 0x14010 small_heap = Some t \<and> heap_ok t ys \<and>
    free_bytes t ys = free_bytes small_heap [0x3000, 0x4000] \<union> {0x14000 ..< 0x24000} \<and> h_size t 0x24000 = 4096"
proof -
  have a: "area small_heap 0x14000 = {0x14000 ..< 0x24000}" by (simp add: area_def small_heap_def)
  have "block_ok small_heap (0x14010 - HDR)" by (simp add: block_ok_def small_heap_def HDR_def)
  moreover have "area small_heap (0x14010 - HDR) \<inter> (\<Union>q \<in> set [0x3000, 0x4000]. area small_heap q) = {}"
    by (auto simp: area_def small_heap_def HDR_def)
  ultimately obtain t ys p where t: "ufree 0x14010 small_heap = Some t" "heap_ok t ys"
      "free_bytes t ys = free_bytes small_heap [0x3000, 0x4000] \<union> {0x14000 ..< 0x24000}" "p \<in> set [0x3000, 0x4000]"
      "\<forall>x. x \<noteq> 0x14000 \<and> x \<noteq> p \<longrightarrow> h_ptr t x = h_ptr small_heap x \<and> h_size t x = h_size small_heap x"
    using ufree_adds_block [OF small_heap_ok, of "0x14010"] by (auto simp: HDR_def a)
  have "p \<noteq> 0x24000" using t(4) by auto
  then have "h_size t 0x24000 = 4096" using t(5) by (simp add: small_heap_def)
  then show ?thesis using t(1-3) by blast
qed

theorem malloc_takes_free_block_witness:
  "\<exists>r. malloc (\<lambda>n s. None) 100 small_heap = Some r \<and> taken 8 small_heap [0x3000, 0x4000] r"
proof -
  have "header_units 100 = 8" by (simp add: header_units_def HDR_def)
  then show ?thesis
    using malloc_takes_free_block [OF small_heap_ok, of "0x4000" 100 "\<lambda>n s. None"] by (simp add: small_heap_def)
qed


end
