(* ===== verification/TicketLock.thy ===== *)
theory TicketLock
  imports Prelude
begin

text \<open>
  The ticket lock of \<open>user/ulib.c\<close> as a step relation: every access to the two shared words is a
  step of its own, so that any interleaving of the threads is a run.  \<open>fetch_and_add\<close> is one step,
  as the \<open>amoadd\<close> instruction is; \<open>lock_release\<close> is a load and a store.
\<close>

datatype tpc = Idle | Waiting u32 | Holding u32 | Releasing u32 u32

record tlock_sys =
  ticket :: u32
  turn :: u32
  tpcs :: "nat \<Rightarrow> tpc"

definition lock_init :: tlock_sys where
  "lock_init = \<lparr>ticket = 0, turn = 0, tpcs = (\<lambda>_. Idle)\<rparr>"

inductive ticket_step :: "nat \<Rightarrow> tlock_sys \<Rightarrow> tlock_sys \<Rightarrow> bool" for n where
  take_ticket: \<comment> \<open>\<open>myturn = fetch_and_add(&lock->ticket, 1)\<close>\<close>
    "i < n \<Longrightarrow> tpcs s i = Idle \<Longrightarrow>
     ticket_step n s (s\<lparr>ticket := ticket s + 1, tpcs := (tpcs s)(i := Waiting (ticket s))\<rparr>)"
| spin: \<comment> \<open>\<open>fetch_and_add(&lock->turn, 0) != myturn\<close>\<close>
    "i < n \<Longrightarrow> tpcs s i = Waiting x \<Longrightarrow> turn s \<noteq> x \<Longrightarrow> ticket_step n s s"
| enter:
    "i < n \<Longrightarrow> tpcs s i = Waiting x \<Longrightarrow> turn s = x \<Longrightarrow> ticket_step n s (s\<lparr>tpcs := (tpcs s)(i := Holding x)\<rparr>)"
| load_turn: \<comment> \<open>\<open>lock->turn = lock->turn + 1\<close>\<close>
    "i < n \<Longrightarrow> tpcs s i = Holding x \<Longrightarrow> ticket_step n s (s\<lparr>tpcs := (tpcs s)(i := Releasing x (turn s))\<rparr>)"
| store_turn:
    "i < n \<Longrightarrow> tpcs s i = Releasing x v \<Longrightarrow> ticket_step n s (s\<lparr>turn := v + 1, tpcs := (tpcs s)(i := Idle)\<rparr>)"

inductive_cases ticket_stepE: "ticket_step n s t"

fun ticket_of :: "tpc \<Rightarrow> u32 option" where
  "ticket_of Idle = None"
| "ticket_of (Waiting x) = Some x"
| "ticket_of (Holding x) = Some x"
| "ticket_of (Releasing x v) = Some x"

fun inside :: "tpc \<Rightarrow> bool" where
  "inside (Holding x) = True"
| "inside (Releasing x v) = True"
| "inside _ = False"

section \<open>The invariant\<close>

definition place :: "tlock_sys \<Rightarrow> nat \<Rightarrow> nat" where
  \<comment> \<open>the place of thread \<open>i\<close> in the queue\<close>
  "place s i = unat (the (ticket_of (tpcs s i)) - turn s)"

definition busy :: "nat \<Rightarrow> tlock_sys \<Rightarrow> nat set" where
  "busy n s = {i. i < n \<and> tpcs s i \<noteq> Idle}"

definition ticket_inv :: "nat \<Rightarrow> tlock_sys \<Rightarrow> bool" where
  "ticket_inv n s \<longleftrightarrow>
     unat (ticket s - turn s) = card (busy n s) \<and>
     (\<forall>i \<in> busy n s. place s i < card (busy n s)) \<and>
     inj_on (place s) (busy n s) \<and>
     (\<forall>i \<in> busy n s. inside (tpcs s i) \<longrightarrow> place s i = 0) \<and>
     (\<forall>i x v. i \<in> busy n s \<longrightarrow> tpcs s i = Releasing x v \<longrightarrow> v = turn s)"

lemma place_cong: "tpcs t i = tpcs s i \<Longrightarrow> turn t = turn s \<Longrightarrow> place t i = place s i"
  by (simp add: place_def)

lemma busy_finite [simp]: "finite (busy n s)" by (simp add: busy_def)

lemma card_busy: "card (busy n s) \<le> n"
  using card_mono [of "{..<n}" "busy n s"] by (auto simp: busy_def)

lemma inv_init: "ticket_inv n lock_init"
  by (simp add: ticket_inv_def lock_init_def busy_def)

lemma same_ticket_step:
  \<comment> \<open>a thread moves on with the ticket it has\<close>
  assumes "ticket_inv n s" "i \<in> busy n s" "ticket_of pc = ticket_of (tpcs s i)" "pc \<noteq> Idle"
    "inside pc \<Longrightarrow> place s i = 0" "\<And>x v. pc = Releasing x v \<Longrightarrow> v = turn s"
  shows "ticket_inv n (s\<lparr>tpcs := (tpcs s)(i := pc)\<rparr>)"
proof -
  let ?t = "s\<lparr>tpcs := (tpcs s)(i := pc)\<rparr>"
  have b: "busy n ?t = busy n s" using assms(2,4) by (auto simp: busy_def)
  have p: "place ?t = place s" using assms(3) by (auto simp: fun_eq_iff place_def)
  show ?thesis using assms unfolding ticket_inv_def b p by auto
qed

lemma take_ticket_inv:
  assumes "ticket_inv n s" "i < n" "tpcs s i = Idle" "n < 2 ^ 32"
  shows "ticket_inv n (s\<lparr>ticket := ticket s + 1, tpcs := (tpcs s)(i := Waiting (ticket s))\<rparr>)"
proof -
  let ?t = "s\<lparr>ticket := ticket s + 1, tpcs := (tpcs s)(i := Waiting (ticket s))\<rparr>"
  have i: "i \<notin> busy n s" using assms(3) by (simp add: busy_def)
  have b: "busy n ?t = insert i (busy n s)" using assms(2) by (auto simp: busy_def)
  have c: "card (busy n ?t) = Suc (card (busy n s))" using b i by simp
  have d: "unat (ticket s - turn s) = card (busy n s)" using assms(1) by (simp add: ticket_inv_def)
  have p: "place ?t j = place s j" if "j \<in> busy n s" for j using that i by (auto simp: place_def)
  have pi: "place ?t i = card (busy n s)" using d by (simp add: place_def)
  have "card (busy n ?t) < 2 ^ 32" using card_busy [of n ?t] assms(4) by linarith
  then have "unat ((ticket s - turn s) + 1) = Suc (card (busy n s))"
    using c d by (simp add: unat_word_ariths mod_less)
  then have "unat (ticket ?t - turn ?t) = card (busy n ?t)" unfolding c by (simp add: algebra_simps)
  moreover have "\<forall>j \<in> busy n ?t. place ?t j < card (busy n ?t)"
  proof
    fix j assume "j \<in> busy n ?t"
    then consider "j = i" | "j \<in> busy n s" unfolding b by blast
    then show "place ?t j < card (busy n ?t)"
    proof cases
      case 2
      then have "place s j < card (busy n s)" using assms(1) by (simp add: ticket_inv_def)
      then show ?thesis unfolding c p [OF 2] by simp
    qed (simp only: pi c lessI)
  qed
  moreover have "inj_on (place ?t) (busy n ?t)"
  proof -
    have "inj_on (place ?t) (busy n s)"
      using assms(1) p by (simp add: ticket_inv_def cong: inj_on_cong)
    moreover have "place ?t i \<notin> place ?t ` (busy n s)"
      using assms(1) p pi by (auto simp: ticket_inv_def)
    ultimately show ?thesis unfolding b using i by simp
  qed
  moreover have "\<forall>j \<in> busy n ?t. inside (tpcs ?t j) \<longrightarrow> place ?t j = 0"
    using assms(1) p i unfolding b by (auto simp: ticket_inv_def)
  moreover have "\<forall>j x v. j \<in> busy n ?t \<longrightarrow> tpcs ?t j = Releasing x v \<longrightarrow> v = turn ?t"
    using assms(1) i unfolding b by (auto simp: ticket_inv_def)
  ultimately show ?thesis unfolding ticket_inv_def by blast
qed

lemma store_turn_inv:
  assumes "ticket_inv n s" "i < n" "tpcs s i = Releasing x v"
  shows "ticket_inv n (s\<lparr>turn := v + 1, tpcs := (tpcs s)(i := Idle)\<rparr>)"
proof -
  let ?t = "s\<lparr>turn := v + 1, tpcs := (tpcs s)(i := Idle)\<rparr>"
  have i: "i \<in> busy n s" using assms(2,3) by (simp add: busy_def)
  have v: "v = turn s" "place s i = 0" using assms(1,3) i by (auto simp: ticket_inv_def)
  have b: "busy n ?t = busy n s - {i}" by (auto simp: busy_def)
  have inj: "inj_on (place s) (busy n s)" using assms(1) by (simp add: ticket_inv_def)
  have c: "card (busy n s) = Suc (card (busy n ?t))" unfolding b using card_Suc_Diff1 [OF busy_finite i] by simp
  have d: "unat (ticket s - turn s) = card (busy n s)" using assms(1) by (simp add: ticket_inv_def)
  have ne: "place s j \<noteq> 0" if "j \<in> busy n ?t" for j using that inj_onD [OF inj, of j i] i v(2) unfolding b by auto
  have p: "place s j = Suc (place ?t j)" if "j \<in> busy n ?t" for j
  proof -
    have "the (ticket_of (tpcs s j)) \<noteq> turn s" using ne [OF that] by (auto simp: place_def)
    moreover have "tpcs ?t j = tpcs s j" using that unfolding b by simp
    ultimately show ?thesis using unat_diff_Suc [of "the (ticket_of (tpcs s j))" "turn s"] v(1) by (simp add: place_def)
  qed
  have "ticket s \<noteq> turn s" using d c by auto
  then have "unat (ticket ?t - turn ?t) = card (busy n ?t)" using unat_diff_Suc [of "ticket s" "turn s"] d c v(1) by simp
  moreover have "\<forall>j \<in> busy n ?t. place ?t j < card (busy n ?t)"
    using assms(1) p c unfolding ticket_inv_def b by (metis DiffE Suc_less_eq)
  moreover have "inj_on (place ?t) (busy n ?t)"
    using inj p unfolding b inj_on_def by (metis DiffE)
  moreover have out: "\<not> inside (tpcs ?t j)" if "j \<in> busy n ?t" for j
  proof -
    have "tpcs ?t j = tpcs s j" "j \<in> busy n s" using that unfolding b by auto
    then show ?thesis using ne [OF that] assms(1) by (auto simp: ticket_inv_def)
  qed
  moreover have "v' = turn ?t" if "j \<in> busy n ?t" "tpcs ?t j = Releasing x' v'" for j x' v'
    using out [OF that(1)] that(2) by simp
  ultimately show ?thesis unfolding ticket_inv_def by blast
qed

lemma ticket_step_inv:
  assumes "ticket_step n s t" "ticket_inv n s" "n < 2 ^ 32"
  shows "ticket_inv n t"
  using assms(1)
proof cases
  case (take_ticket i)
  then show ?thesis using take_ticket_inv [OF assms(2)] assms(3) by simp
next
  case (spin i x)
  then show ?thesis using assms(2) by simp
next
  case (enter i x)
  then show ?thesis using same_ticket_step [OF assms(2), of i "Holding x"] by (simp add: busy_def place_def)
next
  case (load_turn i x)
  moreover have "place s i = 0" using assms(2) load_turn by (auto simp: ticket_inv_def busy_def)
  ultimately show ?thesis using same_ticket_step [OF assms(2), of i "Releasing x (turn s)"] by (simp add: busy_def)
next
  case (store_turn i x v)
  then show ?thesis using store_turn_inv [OF assms(2)] by simp
qed

lemma reachable_inv:
  assumes "(ticket_step n)\<^sup>*\<^sup>* lock_init s" "n < 2 ^ 32"
  shows "ticket_inv n s"
  using assms(1) by (induction rule: rtranclp_induct) (use assms(2) inv_init ticket_step_inv in blast)+

text \<open>C32: However the steps of up to \<open>2^32 - 1\<close> threads interleave, and whatever number of times the
  two 32-bit words have wrapped around, at most one thread is between \<open>lock_acquire\<close> and the end of
  \<open>lock_release\<close>; and as long as any thread waits or holds the lock, the one at the head of the
  queue can go on.\<close>
theorem ticket_lock_safe_and_live:
  assumes "(ticket_step n)\<^sup>*\<^sup>* lock_init s" "n < 2 ^ 32"
  shows "(\<forall>i < n. \<forall>j < n. inside (tpcs s i) \<longrightarrow> inside (tpcs s j) \<longrightarrow> i = j) \<and>
    (busy n s \<noteq> {} \<longrightarrow> (\<exists>i \<in> busy n s. \<exists>t. ticket_step n s t \<and> tpcs t i \<noteq> tpcs s i))"
proof -
  have I: "ticket_inv n s" by (rule reachable_inv [OF assms])
  have one: "i = j" if "i < n" "j < n" "inside (tpcs s i)" "inside (tpcs s j)" for i j
  proof -
    have "i \<in> busy n s" "j \<in> busy n s" using that by (auto simp: busy_def)
    then show ?thesis using I that(3,4) unfolding ticket_inv_def inj_on_def by metis
  qed
  have "\<exists>i \<in> busy n s. \<exists>t. ticket_step n s t \<and> tpcs t i \<noteq> tpcs s i" if ne: "busy n s \<noteq> {}"
  proof -
    have "place s ` busy n s \<subseteq> {..<card (busy n s)}" "inj_on (place s) (busy n s)"
      using I by (auto simp: ticket_inv_def)
    then have "place s ` busy n s = {..<card (busy n s)}" by (intro card_subset_eq) (simp_all add: card_image)
    moreover have "0 < card (busy n s)" using ne by (simp add: card_gt_0_iff)
    ultimately have "0 \<in> place s ` busy n s" by simp
    then obtain i where i: "i \<in> busy n s" "place s i = 0" by (metis imageE)
    then have lt: "i < n" by (simp add: busy_def)
    show ?thesis
    proof (cases "tpcs s i")
      case Idle
      then show ?thesis using i(1) by (simp add: busy_def)
    next
      case (Waiting x)
      then have "turn s = x" using i(2) by (simp add: place_def unat_eq_0)
      then have "ticket_step n s (s\<lparr>tpcs := (tpcs s)(i := Holding x)\<rparr>)" by (rule enter [OF lt Waiting])
      then show ?thesis using Waiting by (intro bexI [OF _ i(1)] exI conjI) (assumption, simp)
    next
      case (Holding x)
      show ?thesis by (intro bexI [OF _ i(1)] exI conjI, rule load_turn [OF lt Holding]) (simp add: Holding)
    next
      case (Releasing x v)
      show ?thesis by (intro bexI [OF _ i(1)] exI conjI, rule store_turn [OF lt Releasing]) (simp add: Releasing)
    qed
  qed
  then show ?thesis using one by blast
qed

theorem ticket_lock_safe_and_live_witness:
  "\<exists>s. (ticket_step 2)\<^sup>*\<^sup>* lock_init s \<and> tpcs s 0 = Holding 0 \<and> tpcs s 1 = Waiting 1 \<and>
    (\<forall>i < 2. \<forall>j < 2. inside (tpcs s i) \<longrightarrow> inside (tpcs s j) \<longrightarrow> i = j)"
proof -
  let ?a = "lock_init\<lparr>ticket := ticket lock_init + 1, tpcs := (tpcs lock_init)(0 := Waiting (ticket lock_init))\<rparr>"
  let ?b = "?a\<lparr>ticket := ticket ?a + 1, tpcs := (tpcs ?a)(1 := Waiting (ticket ?a))\<rparr>"
  let ?c = "?b\<lparr>tpcs := (tpcs ?b)(0 := Holding 0)\<rparr>"
  have "ticket_step 2 lock_init ?a" by (rule take_ticket) (simp_all add: lock_init_def)
  moreover have "ticket_step 2 ?a ?b" by (rule take_ticket) (simp_all add: lock_init_def)
  moreover have "ticket_step 2 ?b ?c" by (rule enter) (simp_all add: lock_init_def)
  ultimately have r: "(ticket_step 2)\<^sup>*\<^sup>* lock_init ?c" by (meson rtranclp.rtrancl_into_rtrancl rtranclp.rtrancl_refl)
  show ?thesis
  proof (intro exI conjI)
    show "(ticket_step 2)\<^sup>*\<^sup>* lock_init ?c" by (rule r)
    show "tpcs ?c 0 = Holding 0" "tpcs ?c 1 = Waiting 1" by (simp_all add: lock_init_def)
    have "(2 :: nat) < 2 ^ 32" by simp
    from ticket_lock_safe_and_live [OF r this]
    show "\<forall>i < 2. \<forall>j < 2. inside (tpcs ?c i) \<longrightarrow> inside (tpcs ?c j) \<longrightarrow> i = j" by (rule conjunct1)
  qed
qed

end
