(* ===== verification/Barrier.thy ===== *)
theory Barrier
  imports Prelude
begin

text \<open>
  The barrier of \<open>notxv6/barrier.c\<close> as a step relation in which \<open>n\<close> threads interleave.  A thread in
  round \<open>i\<close> of its loop, which has 20000 rounds, checks that the shared round is \<open>i\<close>, locks the mutex, and either waits on the
  condition variable or, as the last one, opens the next round and wakes the others.  A flag says
  whether the condition variable may wake a waiter for no reason, which POSIX permits.
\<close>

datatype bpc = Run nat | Lock nat | Inside nat | Waits nat | Woken nat | Leave nat | Failed nat

record barrier_sys =
  bmutex :: "nat option"
  arrived :: nat          \<comment> \<open>\<open>bstate.nthread\<close>\<close>
  bround :: nat
  bpcs :: "nat \<Rightarrow> bpc"

definition barrier_init :: barrier_sys where
  "barrier_init = \<lparr>bmutex = None, arrived = 0, bround = 0, bpcs = (\<lambda>_. Run 0)\<rparr>"

fun wake_waiter :: "bpc \<Rightarrow> bpc" where
  "wake_waiter (Waits i) = Woken i"
| "wake_waiter p = p"

definition rounds :: nat where \<comment> \<open>the bound of the loop in \<open>thread\<close>\<close>
  "rounds = 20000"

inductive barrier_step :: "bool \<Rightarrow> nat \<Rightarrow> barrier_sys \<Rightarrow> barrier_sys \<Rightarrow> bool" for spurious n where
  check_ok: \<comment> \<open>\<open>t = bstate.round; assert(i == t)\<close>\<close>
    "k < n \<Longrightarrow> bpcs s k = Run i \<Longrightarrow> i < rounds \<Longrightarrow> bround s = i \<Longrightarrow> barrier_step spurious n s (s\<lparr>bpcs := (bpcs s)(k := Lock i)\<rparr>)"
| check_fails:
    "k < n \<Longrightarrow> bpcs s k = Run i \<Longrightarrow> i < rounds \<Longrightarrow> bround s \<noteq> i \<Longrightarrow> barrier_step spurious n s (s\<lparr>bpcs := (bpcs s)(k := Failed i)\<rparr>)"
| mutex_lock:
    "k < n \<Longrightarrow> bpcs s k = Lock i \<Longrightarrow> bmutex s = None \<Longrightarrow>
     barrier_step spurious n s (s\<lparr>bmutex := Some k, bpcs := (bpcs s)(k := Inside i)\<rparr>)"
| last_arrives:
    "k < n \<Longrightarrow> bpcs s k = Inside i \<Longrightarrow> arrived s + 1 = n \<Longrightarrow>
     barrier_step spurious n s
       (s\<lparr>arrived := 0, bround := bround s + 1, bpcs := (\<lambda>j. wake_waiter (bpcs s j))(k := Leave i)\<rparr>)"
| waits: \<comment> \<open>\<open>pthread_cond_wait\<close> releases the mutex\<close>
    "k < n \<Longrightarrow> bpcs s k = Inside i \<Longrightarrow> arrived s + 1 \<noteq> n \<Longrightarrow>
     barrier_step spurious n s (s\<lparr>arrived := arrived s + 1, bmutex := None, bpcs := (bpcs s)(k := Waits i)\<rparr>)"
| wakes_spuriously:
    "spurious \<Longrightarrow> k < n \<Longrightarrow> bpcs s k = Waits i \<Longrightarrow> barrier_step spurious n s (s\<lparr>bpcs := (bpcs s)(k := Woken i)\<rparr>)"
| wait_returns: \<comment> \<open>with the mutex locked again\<close>
    "k < n \<Longrightarrow> bpcs s k = Woken i \<Longrightarrow> bmutex s = None \<Longrightarrow>
     barrier_step spurious n s (s\<lparr>bmutex := Some k, bpcs := (bpcs s)(k := Leave i)\<rparr>)"
| mutex_unlock:
    "k < n \<Longrightarrow> bpcs s k = Leave i \<Longrightarrow>
     barrier_step spurious n s (s\<lparr>bmutex := None, bpcs := (bpcs s)(k := Run (i + 1))\<rparr>)"

inductive_cases barrier_stepE: "barrier_step spurious n s t"

fun round_of :: "bpc \<Rightarrow> nat" where
  "round_of (Run i) = i"
| "round_of (Lock i) = i"
| "round_of (Inside i) = i"
| "round_of (Waits i) = i"
| "round_of (Woken i) = i + 1"
| "round_of (Leave i) = i + 1"
| "round_of (Failed i) = i"

fun holds_mutex :: "bpc \<Rightarrow> bool" where
  "holds_mutex (Inside i) = True"
| "holds_mutex (Leave i) = True"
| "holds_mutex _ = False"

fun is_waiting :: "bpc \<Rightarrow> bool" where
  "is_waiting (Waits i) = True"
| "is_waiting _ = False"

fun is_failed :: "bpc \<Rightarrow> bool" where
  "is_failed (Failed i) = True"
| "is_failed _ = False"

fun in_loop :: "bpc \<Rightarrow> bool" where
  "in_loop (Run i) = (i \<le> rounds)"
| "in_loop (Lock i) = (i < rounds)"
| "in_loop (Inside i) = (i < rounds)"
| "in_loop (Waits i) = (i < rounds)"
| "in_loop (Woken i) = (i < rounds)"
| "in_loop (Leave i) = (i < rounds)"
| "in_loop (Failed i) = (i < rounds)"

lemma in_loop_wake [simp]: "in_loop (wake_waiter p) = in_loop p"
  by (cases p) simp_all

definition barrier_inv :: "nat \<Rightarrow> barrier_sys \<Rightarrow> bool" where
  "barrier_inv n s \<longleftrightarrow>
     (\<forall>k < n. round_of (bpcs s k) = bround s \<and> \<not> is_failed (bpcs s k) \<and> in_loop (bpcs s k) \<and> (holds_mutex (bpcs s k) \<longleftrightarrow> bmutex s = Some k)) \<and>
     arrived s = card {k. k < n \<and> is_waiting (bpcs s k)} \<and> arrived s < n \<and> (\<forall>k. bmutex s = Some k \<longrightarrow> k < n)"

lemma barrier_inv_init: "0 < n \<Longrightarrow> barrier_inv n barrier_init"
  by (simp add: barrier_inv_def barrier_init_def)

lemma waiting_upd:
  "k < n \<Longrightarrow> {j. j < n \<and> is_waiting ((f(k := p)) j)} =
     (if is_waiting p then insert k {j. j < n \<and> is_waiting (f j)} else {j. j < n \<and> is_waiting (f j)} - {k})"
  by auto

lemma card_waiting_same:
  "k < n \<Longrightarrow> \<not> is_waiting (f k) \<Longrightarrow> \<not> is_waiting p \<Longrightarrow>
     card {j. j < n \<and> is_waiting ((f(k := p)) j)} = card {j. j < n \<and> is_waiting (f j)}"
  by (rule arg_cong [where f = card]) auto

lemma all_others_wait:
  assumes "card {j. j < n \<and> is_waiting (f j)} + 1 = n" "k < n" "\<not> is_waiting (f k)" "j < n" "j \<noteq> k"
  shows "is_waiting (f j)"
proof -
  let ?W = "{j. j < n \<and> is_waiting (f j)}"
  have "?W \<subseteq> {..<n} - {k}" using assms(3) by auto
  moreover have "card ({..<n} - {k}) = card ?W" using assms(1,2) by simp
  ultimately have "?W = {..<n} - {k}" by (intro card_subset_eq) simp_all
  then show ?thesis using assms(4,5) by blast
qed

lemma waiting_form: "is_waiting p \<Longrightarrow> \<exists>i. p = Waits i"
  by (cases p) auto

lemma barrier_inv_move:
  assumes "barrier_inv n s" "k < n" "\<not> is_waiting (bpcs s k)" "\<not> is_waiting p" "\<not> is_failed p" "in_loop p"
    and "round_of p = bround s" "holds_mutex p \<longleftrightarrow> m = Some k" "\<And>j. j \<noteq> k \<Longrightarrow> m = Some j \<longleftrightarrow> bmutex s = Some j"
    and "m = None \<or> m = Some k \<or> m = bmutex s" "arrived t = arrived s" "bround t = bround s" "bmutex t = m" "bpcs t = (bpcs s)(k := p)"
  shows "barrier_inv n t"
proof -
  have "arrived t = card {j. j < n \<and> is_waiting (bpcs t j)}"
    using assms(1,11) card_waiting_same [of k n "bpcs s" p] assms(2-4,14) by (simp add: barrier_inv_def)
  moreover have "round_of (bpcs t j) = bround t \<and> \<not> is_failed (bpcs t j) \<and> in_loop (bpcs t j) \<and> (holds_mutex (bpcs t j) \<longleftrightarrow> bmutex t = Some j)"
    if "j < n" for j
    using assms that by (cases "j = k") (simp_all add: barrier_inv_def)
  moreover have "\<forall>j. bmutex t = Some j \<longrightarrow> j < n" using assms(1,2,10,13) by (auto simp: barrier_inv_def)
  ultimately show ?thesis using assms(1,11) by (simp add: barrier_inv_def)
qed

lemma barrier_inv_step:
  assumes "barrier_step False n s t" "barrier_inv n s"
  shows "barrier_inv n t"
proof -
  have I: "\<And>k. k < n \<Longrightarrow> round_of (bpcs s k) = bround s \<and> \<not> is_failed (bpcs s k) \<and> in_loop (bpcs s k) \<and> (holds_mutex (bpcs s k) \<longleftrightarrow> bmutex s = Some k)"
      "arrived s = card {k. k < n \<and> is_waiting (bpcs s k)}" "arrived s < n"
      "\<And>k. bmutex s = Some k \<Longrightarrow> k < n"
    using assms(2) by (simp_all add: barrier_inv_def)
  have only: "bmutex s = None" if "k < n" "bmutex s = None \<or> bmutex s = Some k" "\<not> holds_mutex (bpcs s k)" for k
    using I(1) [OF that(1)] that by auto
  show ?thesis
    using assms(1)
  proof cases
    case (check_ok k i)
    show ?thesis
      by (rule barrier_inv_move [OF assms(2), of k "Lock i" "bmutex s"]) (use check_ok I(1) [of k] in auto)
  next
    case (check_fails k i)
    then show ?thesis using I(1) [of k] by simp
  next
    case (mutex_lock k i)
    show ?thesis
      by (rule barrier_inv_move [OF assms(2), of k "Inside i" "Some k"]) (use mutex_lock I(1) [of k] in auto)
  next
    case (last_arrives k i)
    have all: "\<exists>i. bpcs s j = Waits i" if "j < n" "j \<noteq> k" for j
      using all_others_wait [of n "bpcs s" k j] last_arrives that I(2) waiting_form by auto
    have "round_of (bpcs t j) = bround t \<and> \<not> is_failed (bpcs t j) \<and> in_loop (bpcs t j) \<and> (holds_mutex (bpcs t j) \<longleftrightarrow> bmutex t = Some j) \<and>
        \<not> is_waiting (bpcs t j)" if "j < n" for j
    proof (cases "j = k")
      case True
      then show ?thesis using last_arrives I(1) [of k] by simp
    next
      case False
      then obtain i' where w: "bpcs s j = Waits i'" using all \<open>j < n\<close> by blast
      then show ?thesis using last_arrives(1) False I(1) [OF \<open>j < n\<close>] by simp
    qed
    then show ?thesis using last_arrives(1,2) I(4) unfolding barrier_inv_def by auto
  next
    case (waits k i)
    have "k \<notin> {j. j < n \<and> is_waiting (bpcs s j)}" using waits(3) by simp
    then have "card {j. j < n \<and> is_waiting (bpcs t j)} = Suc (card {j. j < n \<and> is_waiting (bpcs s j)})"
      unfolding waits(1) using waits(2) by (simp add: waiting_upd del: fun_upd_apply)
    moreover have "round_of (bpcs t j) = bround t \<and> \<not> is_failed (bpcs t j) \<and> in_loop (bpcs t j) \<and> (holds_mutex (bpcs t j) \<longleftrightarrow> bmutex t = Some j)"
      if "j < n" for j
      using waits I(1) [OF that] I(1) [of k] by (cases "j = k") auto
    ultimately show ?thesis using waits(1,4) I(2,3) by (simp add: barrier_inv_def)
  next
    case (wait_returns k i)
    show ?thesis
      by (rule barrier_inv_move [OF assms(2), of k "Leave i" "Some k"]) (use wait_returns I(1) [of k] in auto)
  next
    case (mutex_unlock k i)
    show ?thesis
      by (rule barrier_inv_move [OF assms(2), of k "Run (i + 1)" None]) (use mutex_unlock I(1) [of k] in auto)
  qed simp
qed

lemma barrier_inv_reach: "(barrier_step False n)\<^sup>*\<^sup>* barrier_init s \<Longrightarrow> 0 < n \<Longrightarrow> barrier_inv n s"
  by (induction rule: rtranclp_induct) (auto intro: barrier_inv_init barrier_inv_step)

lemma barrier_progress:
  assumes "barrier_inv n s" shows "(\<exists>t. barrier_step False n s t) \<or> (\<forall>k < n. bpcs s k = Run rounds)"
proof (cases "bmutex s")
  case None
  have I: "round_of (bpcs s k) = bround s" "\<not> is_failed (bpcs s k)" "in_loop (bpcs s k)" "\<not> holds_mutex (bpcs s k)" if "k < n" for k
    using assms None that by (auto simp: barrier_inv_def)
  have "{k. k < n \<and> is_waiting (bpcs s k)} \<noteq> {..<n}"
    using assms by (auto simp: barrier_inv_def)
  then obtain k where k: "k < n" "\<not> is_waiting (bpcs s k)" by auto
  show ?thesis
  proof (cases "bpcs s k")
    case (Run i)
    show ?thesis
    proof (cases "i < rounds")
      case True
      have "bround s = i" using I(1) [OF k(1)] Run by simp
      then show ?thesis by (intro disjI1 exI) (rule check_ok [OF k(1) Run True])
    next
      case False
      then have r: "bround s = rounds" using I(1,3) [OF k(1)] Run by simp
      show ?thesis
      proof (cases "\<exists>j<n. \<exists>i. bpcs s j = Woken i")
        case True
        then obtain j i where "j < n" "bpcs s j = Woken i" by blast
        then show ?thesis by (intro disjI1 exI) (rule wait_returns [OF _ _ None])
      next
        case False
        have "bpcs s j = Run rounds" if "j < n" for j
          using I [OF that] r False that by (cases "bpcs s j") auto
        then show ?thesis by blast
      qed
    qed
  next
    case (Lock i)
    show ?thesis by (intro disjI1 exI) (rule mutex_lock [OF k(1) Lock None])
  next
    case (Woken i)
    show ?thesis by (intro disjI1 exI) (rule wait_returns [OF k(1) Woken None])
  qed (use k I(2,4) [OF k(1)] in simp_all)
next
  case (Some k)
  then have k: "k < n" "holds_mutex (bpcs s k)" using assms by (auto simp: barrier_inv_def)
  show ?thesis
  proof (cases "bpcs s k")
    case (Inside i)
    show ?thesis
    proof (cases "arrived s + 1 = n")
      case True
      show ?thesis by (intro disjI1 exI) (rule last_arrives [OF k(1) Inside True])
    next
      case False
      show ?thesis by (intro disjI1 exI) (rule waits [OF k(1) Inside False])
    qed
  next
    case (Leave i)
    show ?thesis by (intro disjI1 exI) (rule mutex_unlock [OF k(1) Leave])
  qed (use k in simp_all)
qed

lemma round_opens:
  assumes "barrier_inv n s" "barrier_step False n s t" "bround t \<noteq> bround s" "k < n"
  shows "bround t = bround s + 1 \<and> (bmutex s = Some k \<or> is_waiting (bpcs s k))"
  using assms(2)
proof cases
  case (last_arrives j i)
  have "bmutex s = Some j" using assms(1) last_arrives(2,3) by (auto simp: barrier_inv_def)
  then show ?thesis
    using last_arrives assms(1,4) all_others_wait [of n "bpcs s" j k] by (cases "k = j") (auto simp: barrier_inv_def)
qed (use assms(3) in auto)

lemma spurious_trace: "\<exists>s. (barrier_step True 2)\<^sup>*\<^sup>* barrier_init s \<and> bpcs s 0 = Failed 1"
proof -
  let ?st = "\<lambda>m a p. \<lparr>bmutex = m, arrived = a, bround = 0, bpcs = (\<lambda>_. Run 0)(0 := p)\<rparr>"
  have i: "barrier_init = ?st None 0 (Run 0)" by (simp add: barrier_init_def fun_upd_idem)
  have "barrier_step True 2 (?st None 0 (Run 0)) (?st None 0 (Lock 0))"
    using check_ok [of 0 2 "?st None 0 (Run 0)" 0 True] by (simp add: rounds_def)
  moreover have "barrier_step True 2 (?st None 0 (Lock 0)) (?st (Some 0) 0 (Inside 0))"
    using mutex_lock [of 0 2 "?st None 0 (Lock 0)" 0 True] by simp
  moreover have "barrier_step True 2 (?st (Some 0) 0 (Inside 0)) (?st None 1 (Waits 0))"
    using waits [of 0 2 "?st (Some 0) 0 (Inside 0)" 0 True] by simp
  moreover have "barrier_step True 2 (?st None 1 (Waits 0)) (?st None 1 (Woken 0))"
    using wakes_spuriously [of True 0 2 "?st None 1 (Waits 0)" 0] by simp
  moreover have "barrier_step True 2 (?st None 1 (Woken 0)) (?st (Some 0) 1 (Leave 0))"
    using wait_returns [of 0 2 "?st None 1 (Woken 0)" 0 True] by simp
  moreover have "barrier_step True 2 (?st (Some 0) 1 (Leave 0)) (?st None 1 (Run 1))"
    using mutex_unlock [of 0 2 "?st (Some 0) 1 (Leave 0)" 0 True] by simp
  moreover have "barrier_step True 2 (?st None 1 (Run 1)) (?st None 1 (Failed 1))"
    using check_fails [of 0 2 "?st None 1 (Run 1)" 1 True] by (simp add: rounds_def)
  ultimately have "(barrier_step True 2)\<^sup>*\<^sup>* (?st None 0 (Run 0)) (?st None 1 (Failed 1))"
    by (elim converse_rtranclp_into_rtranclp) simp
  then show ?thesis unfolding i by (intro exI [of _ "?st None 1 (Failed 1)"]) simp
qed

text \<open>C33: The barrier keeps \<open>n\<close> threads in step as long as the condition variable wakes only after a
  broadcast: in every reachable state all threads are in the shared round, so that the assertion in
  \<open>thread\<close> holds; some thread can go on unless all have run their loops to the end; and the round advances, by one, only when every
  thread has arrived.  A single spurious wakeup breaks this, since \<open>barrier\<close> waits without a loop: one of two threads then
  reaches round 1 alone and fails the assertion.\<close>
theorem barrier_keeps_in_step:
  assumes "(barrier_step False n)\<^sup>*\<^sup>* barrier_init s" "0 < n"
  shows "(\<forall>k < n. \<not> is_failed (bpcs s k) \<and> round_of (bpcs s k) = bround s) \<and> ((\<exists>t. barrier_step False n s t) \<or> (\<forall>k < n. bpcs s k = Run rounds)) \<and>
    (\<forall>t k. barrier_step False n s t \<and> bround t \<noteq> bround s \<and> k < n \<longrightarrow>
       bround t = bround s + 1 \<and> (bmutex s = Some k \<or> is_waiting (bpcs s k))) \<and>
    (\<exists>u. (barrier_step True 2)\<^sup>*\<^sup>* barrier_init u \<and> bpcs u 0 = Failed 1)"
proof -
  have inv: "barrier_inv n s" by (rule barrier_inv_reach [OF assms])
  show ?thesis
  proof (intro conjI)
    show "\<forall>k < n. \<not> is_failed (bpcs s k) \<and> round_of (bpcs s k) = bround s" using inv by (simp add: barrier_inv_def)
    show "(\<exists>t. barrier_step False n s t) \<or> (\<forall>k < n. bpcs s k = Run rounds)" by (rule barrier_progress [OF inv])
    show "\<forall>t k. barrier_step False n s t \<and> bround t \<noteq> bround s \<and> k < n \<longrightarrow>
       bround t = bround s + 1 \<and> (bmutex s = Some k \<or> is_waiting (bpcs s k))"
      using round_opens [OF inv] by blast
  qed (rule spurious_trace)
qed

theorem barrier_keeps_in_step_witness:
  "\<not> is_failed (bpcs (barrier_init\<lparr>bpcs := (\<lambda>_. Run 0)(1 := Lock 0)\<rparr>) 1)"
proof -
  have "barrier_step False 2 barrier_init (barrier_init\<lparr>bpcs := (\<lambda>_. Run 0)(1 := Lock 0)\<rparr>)"
    using check_ok [of 1 2 barrier_init 0 False] by (simp add: barrier_init_def rounds_def)
  then have "(barrier_step False 2)\<^sup>*\<^sup>* barrier_init (barrier_init\<lparr>bpcs := (\<lambda>_. Run 0)(1 := Lock 0)\<rparr>)" by blast
  from barrier_keeps_in_step [OF this, THEN conjunct1] show ?thesis by simp
qed

end
