(* ===== verification/ULib.thy ===== *)
theory ULib
  imports UMalloc Printf
begin

text \<open>
  The C library of user programs: \<open>user/ulib.c\<close> and \<open>user/printf.c\<close>.  The strings of \<open>strchr\<close>,
  \<open>strrchr\<close> and \<open>strncmp\<close> are in \<open>Grep\<close> and \<open>Sh\<close>, where they are used.  Output is the list of bytes
  that the calls of \<open>write\<close> send; the other system calls are arguments.
\<close>

section \<open>Strings and memory\<close>

partial_function (option) ustrcmp :: "bytes \<Rightarrow> u64 \<Rightarrow> u64 \<Rightarrow> int option" where
  "ustrcmp m p q =
     (if m p \<noteq> 0 \<and> m p = m q then ustrcmp m (p + 1) (q + 1) else Some (uint (m p) - uint (m q)))"

partial_function (option) ustrcpy_loop :: "u64 \<Rightarrow> u64 \<Rightarrow> bytes \<Rightarrow> bytes option" where
  "ustrcpy_loop s t m =
     (let c = m t; m = m(s := c) in if c \<noteq> 0 then ustrcpy_loop (s + 1) (t + 1) m else Some m)"

definition ustrcpy :: "u64 \<Rightarrow> u64 \<Rightarrow> bytes \<Rightarrow> (u64 \<times> bytes) option" where
  "ustrcpy s t m = map_option (Pair s) (ustrcpy_loop s t m)"

definition ustrncpy :: "u64 \<Rightarrow> u64 \<Rightarrow> int \<Rightarrow> bytes \<Rightarrow> u64 \<times> bytes" where
  "ustrncpy s t n m = (s, strncpy_loop s t (nat n) m)"

definition ustrlen :: "u64 \<Rightarrow> bytes \<Rightarrow> nat option" where
  "ustrlen s m = (if s = 0 then Some 0 else strlen_from m s 0)"

definition umemset :: "u64 \<Rightarrow> int \<Rightarrow> u32 \<Rightarrow> bytes \<Rightarrow> u64 \<times> bytes" where
  "umemset dst c n m = (dst, memset_loop dst (of_int c) 0 (unat n) m)"

definition umemmove :: "u64 \<Rightarrow> u64 \<Rightarrow> int \<Rightarrow> bytes \<Rightarrow> u64 \<times> bytes" where
  "umemmove vdst vsrc n m =
     (if vsrc > vdst then (vdst, copy_forward vdst vsrc (nat n) m)
      else (vdst, copy_backward (vdst + of_int n) (vsrc + of_int n) (nat n) m))"

definition umemcpy :: "u64 \<Rightarrow> u64 \<Rightarrow> u32 \<Rightarrow> bytes \<Rightarrow> u64 \<times> bytes" where
  "umemcpy dst src n m = umemmove dst src (sint n) m"

definition umemcmp :: "u64 \<Rightarrow> u64 \<Rightarrow> u32 \<Rightarrow> bytes \<Rightarrow> int" where
  "umemcmp s1 s2 n m = memcmp_loop m s1 s2 (unat n)"

partial_function (option) atoi_loop :: "bytes \<Rightarrow> u64 \<Rightarrow> int \<Rightarrow> int option" where
  \<comment> \<open>\<open>None\<close> also where \<open>n*10 + *s\<close> is more than an \<open>int\<close> holds, which C leaves undefined\<close>
  "atoi_loop m s n =
     (if 48 \<le> m s \<and> m s \<le> 57
      then (if n * 10 + uint (m s) > 2 ^ 31 - 1 then None else atoi_loop m (s + 1) (n * 10 + uint (m s) - 48))
      else Some n)"

definition atoi :: "bytes \<Rightarrow> u64 \<Rightarrow> int option" where
  "atoi m s = atoi_loop m s 0"

section \<open>Reading\<close>

fun ugets_loop :: "('s \<Rightarrow> (int \<times> u8 \<times> 's) option) \<Rightarrow> u64 \<Rightarrow> nat \<Rightarrow> nat \<Rightarrow> bytes \<Rightarrow> 's \<Rightarrow> (nat \<times> bytes \<times> 's) option" where
  \<comment> \<open>\<open>rd\<close> is \<open>read(0, &c, 1)\<close>; room for \<open>k\<close> more characters, \<open>i\<close> stored\<close>
  "ugets_loop rd buf 0 i m s = Some (i, m, s)"
| "ugets_loop rd buf (Suc k) i m s = do {
     (cc, c, s) \<leftarrow> rd s;
     (if cc < 1 then Some (i, m, s)
      else let m = m(buf + of_nat i := c) in
        if c = 10 \<or> c = 13 then Some (i + 1, m, s) else ugets_loop rd buf k (i + 1) m s) }"

definition ugets :: "('s \<Rightarrow> (int \<times> u8 \<times> 's) option) \<Rightarrow> u64 \<Rightarrow> int \<Rightarrow> bytes \<Rightarrow> 's \<Rightarrow> (u64 \<times> bytes \<times> 's) option" where
  "ugets rd buf mx m s = do {
     (i, m, s) \<leftarrow> ugets_loop rd buf (nat (mx - 1)) 0 m s;
     Some (buf, m(buf + of_nat i := 0), s) }"

definition ustat :: "('n \<Rightarrow> 's \<Rightarrow> (int \<times> 's) option) \<Rightarrow> (int \<Rightarrow> 'p \<Rightarrow> 's \<Rightarrow> (int \<times> 's) option) \<Rightarrow>
    (int \<Rightarrow> 's \<Rightarrow> (int \<times> 's) option) \<Rightarrow> 'n \<Rightarrow> 'p \<Rightarrow> 's \<Rightarrow> (int \<times> 's) option" where
  \<comment> \<open>\<open>open(n, O_RDONLY)\<close>, \<open>fstat\<close> and \<open>close\<close>\<close>
  "ustat opn fst_at cls n st s = do {
     (fd, s) \<leftarrow> opn n s;
     (if fd < 0 then Some (-1, s)
      else do {
        (r, s) \<leftarrow> fst_at fd st s;
        (_, s) \<leftarrow> cls fd s;
        Some (r, s) }) }"

section \<open>Threads\<close>

definition thread_create :: "('a uheap_scheme) os_sbrk \<Rightarrow> (u64 \<Rightarrow> u64 \<Rightarrow> u64 \<Rightarrow> u64 \<Rightarrow> 'a uheap_scheme \<Rightarrow> (int \<times> 'a uheap_scheme) option) \<Rightarrow>
    u64 \<Rightarrow> u64 \<Rightarrow> u64 \<Rightarrow> 'a uheap_scheme \<Rightarrow> (int \<times> 'a uheap_scheme) option" where
  \<comment> \<open>with the ticket lock of \<open>TicketLock\<close> held around the allocation\<close>
  "thread_create os clon start_routine arg1 arg2 s = do {
     (stack, s) \<leftarrow> malloc_align os 8192 s;
     clon start_routine arg1 arg2 stack s }"

definition thread_join :: "('a uheap_scheme \<Rightarrow> (int \<times> u64 \<times> 'a uheap_scheme) option) \<Rightarrow> 'a uheap_scheme \<Rightarrow>
    (int \<times> 'a uheap_scheme) option" where
  \<comment> \<open>\<open>jn\<close> is \<open>join(&stack)\<close>: its result and what \<open>stack\<close> holds afterwards\<close>
  "thread_join jn s = do {
     (pid, stack, s) \<leftarrow> jn s;
     s \<leftarrow> ufree stack s;
     Some (pid, s) }"

section \<open>Formatted output\<close>

definition udigits :: "u8 list" where
  "udigits = [48, 49, 50, 51, 52, 53, 54, 55, 56, 57, 65, 66, 67, 68, 69, 70]"

fun uput_digits :: "nat \<Rightarrow> u32 \<Rightarrow> u32 \<Rightarrow> u8 list option" where
  "uput_digits 0 base x = None"
| "uput_digits (Suc k) base x = do {
     let d = udigits ! unat (x mod base);
     (if x div base \<noteq> 0 then do { ds \<leftarrow> uput_digits k base (x div base); Some (d # ds) } else Some [d]) }"

definition uprintint :: "u32 \<Rightarrow> u32 \<Rightarrow> bool \<Rightarrow> u8 list option" where
  "uprintint xx base sgnd = do {
     let neg = (sgnd \<and> sint xx < 0);
     ds \<leftarrow> uput_digits 16 base (if neg then - xx else xx);
     (if neg \<and> length ds = 16 then None else Some (rev (if neg then ds @ [45] else ds))) }"

fun unibbles :: "nat \<Rightarrow> u64 \<Rightarrow> u8 list" where
  "unibbles 0 x = []"
| "unibbles (Suc k) x = (udigits ! unat (drop_bit 60 x)) # unibbles k (push_bit 4 x)"

definition uprintptr :: "u64 \<Rightarrow> u8 list" where
  "uprintptr x = [48, 120] @ unibbles 16 x"

definition uconv :: "u8 \<Rightarrow> varg list \<Rightarrow> (u8 list \<times> varg list) option" where
  \<comment> \<open>the branches in state \<open>'%'\<close>: the output and the arguments left\<close>
  "uconv c args =
     (if c = of_char CHR ''d'' then (case args of VInt x # as \<Rightarrow> map_option (\<lambda>o'. (o', as)) (uprintint x 10 True) | _ \<Rightarrow> None)
      else if c = of_char CHR ''l''
      then (case args of VPtr x # as \<Rightarrow> map_option (\<lambda>o'. (o', as)) (uprintint (ucast x) 10 False) | _ \<Rightarrow> None)
      else if c = of_char CHR ''x'' then (case args of VInt x # as \<Rightarrow> map_option (\<lambda>o'. (o', as)) (uprintint x 16 False) | _ \<Rightarrow> None)
      else if c = of_char CHR ''p'' then (case args of VPtr x # as \<Rightarrow> Some (uprintptr x, as) | _ \<Rightarrow> None)
      else if c = of_char CHR ''s'' then (case args of VStr p # as \<Rightarrow> Some (null_str p, as) | _ \<Rightarrow> None)
      else if c = of_char CHR ''c'' then (case args of VInt x # as \<Rightarrow> Some ([ucast x], as) | _ \<Rightarrow> None)
      else if c = of_char CHR ''%'' then Some ([c], args)
      else Some ([37, c], args))"

fun uvprintf_from :: "bool \<Rightarrow> u8 list \<Rightarrow> varg list \<Rightarrow> u8 list option" where
  \<comment> \<open>\<open>True\<close>: the state is \<open>'%'\<close>\<close>
  "uvprintf_from pct [] args = Some []"
| "uvprintf_from False (c # fmt) args =
     (if c = 37 then uvprintf_from True fmt args else map_option ((#) c) (uvprintf_from False fmt args))"
| "uvprintf_from True (c # fmt) args = do {
     (out, args) \<leftarrow> uconv c args;
     map_option ((@) out) (uvprintf_from False fmt args) }"

definition uvprintf :: "u8 list \<Rightarrow> varg list \<Rightarrow> u8 list option" where
  "uvprintf fmt args = uvprintf_from False fmt args"

end
