(* ===== verification/ULibProps.thy ===== *)
theory ULibProps
  imports ULib ConsoleProps
begin

text \<open>
  Properties of the user library: \<open>atoi\<close> reads back what \<open>printf\<close> prints, and \<open>memmove\<close> agrees with
  the kernel's.
\<close>

section \<open>atoi and printf\<close>

lemma udigits_low: "d < 10 \<Longrightarrow> udigits ! d = of_nat (48 + d)"
proof -
  have "\<forall>d \<in> set [0..<10]. udigits ! d = of_nat (48 + d)" by code_simp
  then show "d < 10 \<Longrightarrow> udigits ! d = of_nat (48 + d)" by simp
qed

definition decimal :: "u8 \<Rightarrow> bool" where "decimal c \<longleftrightarrow> 48 \<le> c \<and> c \<le> 57"

fun dec_val :: "u8 list \<Rightarrow> int \<Rightarrow> int" where
  "dec_val [] n = n"
| "dec_val (c # cs) n = dec_val cs (n * 10 + uint c - 48)"

fun atoi_list :: "u8 list \<Rightarrow> int \<Rightarrow> int option" where
  \<comment> \<open>\<open>atoi_loop\<close> on the characters it reads\<close>
  "atoi_list [] n = Some n"
| "atoi_list (c # cs) n =
     (if decimal c then (if n * 10 + uint c > 2 ^ 31 - 1 then None else atoi_list cs (n * 10 + uint c - 48)) else Some n)"

definition string_at :: "bytes \<Rightarrow> u64 \<Rightarrow> u8 list \<Rightarrow> bool" where
  "string_at m s cs \<longleftrightarrow> (\<forall>i < length cs. m (s + of_nat i) = cs ! i) \<and> m (s + of_nat (length cs)) = 0"

lemma string_at_Cons: "string_at m s (c # cs) \<Longrightarrow> m s = c \<and> string_at m (s + 1) cs"
proof -
  assume a: "string_at m s (c # cs)"
  then have "m (s + of_nat 0) = (c # cs) ! 0" unfolding string_at_def by blast
  moreover have "m (s + 1 + of_nat i) = cs ! i" if "i < length cs" for i
  proof -
    have "m (s + of_nat (Suc i)) = (c # cs) ! Suc i" using a that unfolding string_at_def by auto
    then show ?thesis by (simp add: add.assoc)
  qed
  ultimately show ?thesis using a by (simp add: string_at_def add.assoc)
qed

lemma atoi_loop_list: "string_at m s cs \<Longrightarrow> atoi_loop m s n = atoi_list cs n"
proof (induction cs arbitrary: s n)
  case Nil
  then show ?case by (subst atoi_loop.simps) (simp add: string_at_def)
next
  case (Cons c cs)
  then have c: "m s = c" "string_at m (s + 1) cs" using string_at_Cons by auto
  show ?case using Cons.IH [OF c(2)] c(1) by (subst atoi_loop.simps) (simp add: decimal_def)
qed

lemma dec_val_snoc: "dec_val (cs @ [c]) n = dec_val cs n * 10 + uint c - 48"
  by (induction cs arbitrary: n) simp_all

lemma atoi_list_snoc:
  "list_all decimal cs \<Longrightarrow> atoi_list (cs @ [c]) n = Option.bind (atoi_list cs n) (atoi_list [c])"
  by (induction cs arbitrary: n) simp_all

lemma atoi_list_decimal:
  assumes "list_all decimal cs"
  shows "0 \<le> dec_val cs 0 \<and> atoi_list cs 0 =
    (if cs = [] \<or> dec_val cs 0 + 48 \<le> 2 ^ 31 - 1 then Some (dec_val cs 0) else None)"
  using assms
proof (induction cs rule: rev_induct)
  case (snoc c cs)
  have d: "decimal c" "list_all decimal cs" using snoc.prems by simp_all
  have c: "48 \<le> uint c" using d(1) by (simp add: decimal_def word_le_def)
  have v: "dec_val (cs @ [c]) 0 = dec_val cs 0 * 10 + uint c - 48" by (rule dec_val_snoc)
  have ih: "0 \<le> dec_val cs 0" "atoi_list cs 0 = (if cs = [] \<or> dec_val cs 0 + 48 \<le> 2 ^ 31 - 1 then Some (dec_val cs 0) else None)"
    using snoc.IH [OF d(2)] by blast+
  show ?case
  proof (cases "cs = [] \<or> dec_val cs 0 + 48 \<le> 2 ^ 31 - 1")
    case True
    then show ?thesis using ih c d(1) unfolding v atoi_list_snoc [OF d(2)] by auto
  next
    case False
    then have "dec_val (cs @ [c]) 0 + 48 > 2 ^ 31 - 1" using ih(1) c unfolding v by auto
    then show ?thesis using False ih c unfolding v atoi_list_snoc [OF d(2)] by auto
  qed
qed simp

lemma decimal_digit: "d < 10 \<Longrightarrow> decimal (of_nat (48 + d)) \<and> uint (of_nat (48 + d) :: u8) - 48 = int d"
proof -
  have "\<forall>d \<in> set [0..<10]. decimal (of_nat (48 + d)) \<and> uint (of_nat (48 + d) :: u8) - 48 = int d" by code_simp
  then show "d < 10 \<Longrightarrow> decimal (of_nat (48 + d)) \<and> uint (of_nat (48 + d) :: u8) - 48 = int d" by simp
qed

lemma uput_digits_reads:
  assumes "unat x < 10 ^ k" "0 < k"
  shows "\<exists>ds. uput_digits (k + j) 10 x = Some ds \<and> list_all decimal (rev ds) \<and> dec_val (rev ds) 0 = int (unat x) \<and>
    ds \<noteq> [] \<and> length ds \<le> k"
  using assms
proof (induction k arbitrary: x)
  case (Suc k)
  have m: "unat (x mod 10) = unat x mod 10" "unat (x div 10) = unat x div 10" by (simp_all add: unat_mod unat_div)
  have d: "udigits ! unat (x mod 10) = of_nat (48 + unat x mod 10)" using udigits_low m by simp
  have r: "decimal (of_nat (48 + unat x mod 10))" "uint (of_nat (48 + unat x mod 10) :: u8) - 48 = int (unat x mod 10)"
    using decimal_digit [of "unat x mod 10"] by simp_all
  show ?case
  proof (cases "x div 10 = 0")
    case True
    then have "unat x div 10 = 0" using m(2) by simp
    then have "unat x mod 10 = unat x" by simp
    then show ?thesis using True d r by simp
  next
    case False
    then have "unat (x div 10) \<noteq> 0" by (simp add: unat_eq_0)
    then have k: "0 < k" using Suc.prems(1) m(2) by (cases k) auto
    have "unat (x div 10) < 10 ^ k" using Suc.prems(1) m(2) by (simp add: less_mult_imp_div_less mult.commute)
    then obtain ds where ds: "uput_digits (k + j) 10 (x div 10) = Some ds" "list_all decimal (rev ds)"
        "dec_val (rev ds) 0 = int (unat (x div 10))" "length ds \<le> k"
      using Suc.IH k by blast
    have "dec_val (rev ds @ [of_nat (48 + unat x mod 10)]) 0 = int (unat x div 10) * 10 + int (unat x mod 10)"
      unfolding dec_val_snoc ds(3) m(2) using r by simp
    also have "\<dots> = int (unat x)" using div_mult_mod_eq [of "int (unat x)" 10] by (simp only: zdiv_int zmod_int of_nat_numeral)
    finally show ?thesis using False d r ds by simp
  qed
qed simp

lemma printed_int:
  "\<exists>ds. uput_digits 16 10 x = Some ds \<and> list_all decimal (rev ds) \<and> dec_val (rev ds) 0 = int (unat x) \<and> ds \<noteq> [] \<and> length ds \<le> 10"
  using uput_digits_reads [of x 10 6] unat_bound [of x] by simp

text \<open>C34: The user library reads back what it prints.  For %d \<open>printf\<close> sends at most eleven characters,
  which fit its buffer of 16, for every \<open>int\<close>.  When they are stored as a string, \<open>atoi\<close> returns the
  number for every \<open>int\<close> from 0 to 2147483599 and 0 for a negative one; for the 48 largest values the
  intermediate \<open>n*10 + *s\<close> is more than an \<open>int\<close> holds, and what \<open>atoi\<close> returns is undefined.\<close>
theorem atoi_reads_printed:
  "\<exists>cs. uprintint x 10 True = Some cs \<and> length cs \<le> 11 \<and>
    (\<forall>m s. string_at m s cs \<longrightarrow>
      atoi m s = (if sint x < 0 then Some 0 else if sint x \<le> 2147483599 then Some (sint x) else None))"
proof (cases "sint x < 0")
  case True
  obtain ds where ds: "uput_digits 16 10 (- x) = Some ds" "length ds \<le> 10" using printed_int [of "- x"] by blast
  then have "uprintint x 10 True = Some (45 # rev ds)" using True by (simp add: uprintint_def)
  moreover have "atoi m s = Some 0" if "string_at m s (45 # rev ds)" for m s
    using atoi_loop_list [OF that] by (simp add: atoi_def decimal_def)
  ultimately show ?thesis using True ds(2) by simp
next
  case False
  obtain ds where ds: "uput_digits 16 10 x = Some ds" "list_all decimal (rev ds)" "dec_val (rev ds) 0 = int (unat x)"
      "ds \<noteq> []" "length ds \<le> 10"
    using printed_int [of x] by blast
  have v: "int (unat x) = sint x" using False uint_bounded [of x] by (auto simp: sint_32 split: if_splits)
  have "uprintint x 10 True = Some (rev ds)" using False ds(1) by (simp add: uprintint_def)
  moreover have "atoi m s = (if sint x \<le> 2147483599 then Some (sint x) else None)" if "string_at m s (rev ds)" for m s
  proof -
    have "atoi_list (rev ds) 0 = (if sint x + 48 \<le> 2 ^ 31 - 1 then Some (sint x) else None)"
      using atoi_list_decimal [OF ds(2)] ds(4) unfolding ds(3) v by simp
    then show ?thesis using atoi_loop_list [OF that] by (simp add: atoi_def)
  qed
  ultimately show ?thesis using False ds(5) by simp
qed

theorem atoi_reads_printed_witness: "atoi ((\<lambda>_. 0)(0x1000 := 50, 0x1001 := 48, 0x1002 := 50, 0x1003 := 51)) 0x1000 = Some 2023"
proof -
  let ?m = "(\<lambda>_. 0)(0x1000 := 50, 0x1001 := 48, 0x1002 := 50, 0x1003 := 51) :: bytes"
  have u: "uprintint 2023 10 True = Some [50, 48, 50, 51]" by code_simp
  have "string_at ?m 0x1000 [50, 48, 50, 51]"
    unfolding string_at_def by (simp add: all_less_Suc_shift)
  then show ?thesis using atoi_reads_printed [of 2023] u by auto
qed

section \<open>memmove\<close>

text \<open>The two implementations of \<open>memmove\<close> are the same function: the kernel's, which copies
  backwards only when the ranges overlap from below, and the library's, which decides by the order of
  the pointers.\<close>
theorem memmove_user_kernel_agree:
  assumes "unat src + unat n < 2 ^ 64" "unat dst + unat n < 2 ^ 64" "unat n < 2 ^ 31"
  shows "umemmove dst src (int (unat n)) m = memmove dst src n m"
proof -
  have k: "unat n < 2 ^ 64" by (rule unat_bound_32_64)
  have e: "(of_int (int (unat n)) :: u64) = of_nat (unat n)" by simp
  have "umemmove dst src (int (unat n)) m = (dst, mem_copy dst m src (unat n) m)"
  proof (cases "dst < src")
    case True
    have "dst + of_nat i \<noteq> src + of_nat j" if "i < j" "j < unat n" for i j
      using that True assms(1,2) unfolding word_less_nat_alt by (intro word_neq_by_unat) linarith+
    then have "copy_forward dst src (unat n) m = mem_copy dst m src (unat n) m" using k by (rule copy_forward_eq)
    then show ?thesis using True by (simp add: umemmove_def)
  next
    case False
    have "src + of_nat i \<noteq> dst + of_nat j" if "i < j" "j < unat n" for i j
      using that False assms(1,2) unfolding word_less_nat_alt by (intro word_neq_by_unat) linarith+
    then have "copy_backward (dst + of_nat (unat n)) (src + of_nat (unat n)) (unat n) m = mem_copy dst m src (unat n) m"
      using k by (rule copy_backward_eq)
    then show ?thesis using False by (simp only: umemmove_def e if_False nat_int)
  qed
  then show ?thesis using memmove_eq_mem_copy [OF assms(1,2)] by simp
qed


end
