(* ===== verification/Spec2Isabelle.thy ===== *)
theory Spec2Isabelle
  imports KallocProps BaseProps TxnProps PipeProps FsProps ShLine ExecLoad ConsoleProps VirtioProps ArpProps SleepWake FdProps TrapProps UMallocProps TicketLock Barrier ULibProps
begin

text \<open>
  A verification development for the kernel in \<open>src/xv6-all\<close>, an xv6 for RISC-V extended with
  copy-on-write, super pages, swapping, memory-mapped files, threads, signals, a lock-free buffer
  cache and a network stack.  The definitions translate the C; the theorems say what the parts
  promise each other.

  \<^bold>\<open>How C becomes HOL.\<close>  An unsigned integer is a word of its width, so it wraps as in C; an \<open>int\<close>
  whose overflow would be undefined is an \<open>int\<close>.  Memory is a function from 64-bit addresses to
  bytes (\<open>Cmem\<close>), with little-endian loads and stores; page tables, free lists and user memory lie
  in it.  A table of structures is a function from indices to records and a pointer into it is the
  index.  A routine is a function from the state to an \<open>option\<close> of its result and the new state:
  \<open>None\<close> is a panic, a wait that nobody ends, or behaviour that C leaves undefined where the code can
  reach it (the \<open>int\<close> of \<open>atoi\<close> and of \<open>add_arp\<close> that overflows), and a loop that need not end is a
  \<open>partial_function\<close> on \<open>option\<close>, so each theorem that a routine returns is a theorem about
  \<open>Some\<close>.  A loop over a table carries the number of rounds left, which the table's size gives, so
  no fuel is chosen there.  Fuel appears in few places: the depth 3 of a page table in \<open>freewalk\<close> and
  \<open>vmprint\<close>; the length of the line in the shell's parser (\<open>parser_terminates_within_line\<close>); 2 for
  \<open>net_tx_eth\<close>, which calls itself through ARP once (\<open>net_tx_eth_fuel_enough\<close>); and 16 digits for
  a printed number, the size of the code's buffer.  The state is one record that grows from layer to layer:
  \<open>kcpu\<close> (this CPU's locks), \<open>kmem\<close> (memory and its free lists), \<open>kproc\<close> (processes), \<open>bcache\<close>
  (buffers and disk), \<open>swapst\<close>, \<open>logst\<close>, \<open>fsst\<close> (super block, inodes), \<open>kfile\<close> (open files,
  pipes), \<open>kcons\<close> (serial port and console), \<open>knet\<close> (network), \<open>ksys\<close> (control registers, proc file
  system), \<open>kdisk\<close> (disk driver) and \<open>kdbg\<close> (debug table); a routine is typed over the scheme of its
  layer and so runs on every layer above.

  \<^bold>\<open>Concurrency.\<close>  Spin locks are treated twice: as a step relation in which CPUs interleave
  (\<open>lock_step\<close>), where mutual exclusion is proved, and as the operations of one CPU on the lock
  state, which every other theory uses; a lock that another CPU holds makes \<open>acquire\<close> not return.
  \<open>sleep\<close> and \<open>wakeup\<close> are treated twice as well, from the same lists of statements (\<open>sleep_prep\<close>,
  \<open>sleep_tail\<close>, \<open>wakeup_one\<close>): in \<open>SleepWake\<close> every statement is a step, the processes of a monitor and
  the scheduler interleave, and no wakeup is lost; elsewhere they are functions, where between \<open>sched\<close>
  and its return, and in \<open>swtch\<close>, the rest of the machine acts: it is the argument \<open>world\<close>, an
  arbitrary state transformer.  Interference at other points is not modelled, and \<open>releasesleep\<close> and
  \<open>end_op\<close> leave out the \<open>wakeup\<close> of processes that wait for the sleep lock or the log.

  \<^bold>\<open>The theories.\<close>
  \<^item> \<open>Prelude\<close>, \<open>Cmem\<close>, \<open>CString\<close> (\<open>string.c\<close>), \<open>Riscv\<close> (\<open>riscv.h\<close>, \<open>memlayout.h\<close>): words, memory,
    page table entries.  The loops of \<open>string.c\<close> are shown equal to their specification.
  \<^item> \<open>Spinlock\<close> (\<open>spinlock.c\<close>, \<open>sleeplock.c\<close>), \<open>BaseProps\<close>.
  \<^item> \<open>Kalloc\<close>, \<open>KallocProps\<close> (\<open>kalloc.c\<close>): per-CPU free lists with stealing, reference counts, the
    super pages.  The interface of an allocator is the locale \<open>page_allocator\<close>, interpreted by both
    page pools.
  \<^item> \<open>KProc\<close>, \<open>Proc\<close>, \<open>ProcLife\<close>, \<open>ProcProps\<close> (\<open>proc.c\<close>, \<open>proc.h\<close>, \<open>signal.c\<close>): the process table,
    sleep and wakeup, signals, fork, clone, exit, wait and join, the scheduler's round.  The delivery of
    a signal is described for every kind of handler.
  \<^item> \<open>SleepWake\<close>: the statements of \<open>sleep\<close>, \<open>wakeup\<close> and \<open>scheduler\<close> as a step relation, one CPU for each
    process; its invariant says who holds which lock and which sleeper a wakeup has still to reach.
  \<^item> \<open>Bio\<close>, \<open>BioInv\<close>, \<open>BlockCache\<close>, \<open>BioProps\<close> (\<open>bio.c\<close>): the buffer cache.  \<open>BlockCache\<close> states
    its contract as the locale \<open>block_cache\<close> and interprets it by the model.
  \<^item> \<open>Log\<close>, \<open>LogProps\<close>, \<open>Txn\<close>, \<open>TxnProps\<close> (\<open>log.c\<close>): the redo log, on the contract of the cache: a
    transaction reaches the disk completely or not at all, whichever write a crash cuts off.
  \<^item> \<open>PageTable\<close>, \<open>Swap\<close> (\<open>swap.c\<close>), \<open>Vm\<close> (\<open>vm.c\<close>), \<open>Mmap\<close> (\<open>mmap.c\<close>), \<open>UserMem\<close>, \<open>MemProps\<close>:
    page tables, user memory and the copies to and from it.
  \<^item> \<open>Fs\<close>, \<open>FsIo\<close>, \<open>FsDir\<close>, \<open>FsProps\<close> (\<open>fs.c\<close>): blocks, inodes, file contents, directories, paths;
    the block bitmap as a set, and an inode that survives being written and read again.
  \<^item> \<open>File\<close>, \<open>PipeProps\<close> (\<open>file.c\<close>, \<open>pipe.c\<close>): open files and pipes.  The ring buffer of a pipe is an
    instance of the locale \<open>byte_fifo\<close>.
  \<^item> \<open>SysFile\<close>, \<open>FdProps\<close> (\<open>sysfile.c\<close>), \<open>ExecLoad\<close> (\<open>exec.c\<close>), \<open>SysProc\<close> (\<open>sysproc.c\<close>, the load average
    of \<open>proc.c\<close>): the system calls; descriptors and reference counts stay consistent.
  \<^item> \<open>Uart\<close>, \<open>Printf\<close>, \<open>Console\<close>, \<open>ConsoleProps\<close> (\<open>uart.c\<close>, \<open>printf.c\<close>, \<open>sprintf.c\<close>, \<open>console.c\<close>): output
    through the serial port, formatted output, and the line discipline as an editor of two lists.
  \<^item> \<open>Mbuf\<close>, \<open>NetTx\<close>, \<open>NetRx\<close>, \<open>NetProps\<close> (\<open>net.c\<close>, \<open>icmp.c\<close>, \<open>rand.c\<close>, \<open>e1000.c\<close>): packet buffers, the
    layers in both directions, the rings of the card.  Queues of packets are an instance of the
    locale \<open>packet_queue\<close>; the address cache is a map.
  \<^item> \<open>ArpProps\<close>: what the handler of ARP packets learns, and its reply.
  \<^item> \<open>Socktab\<close>, \<open>Tcp\<close>, \<open>Sockets\<close>, \<open>TcpProps\<close> (\<open>sysnet.c\<close>, \<open>tcp.c\<close>, \<open>syssock.c\<close>): the socket table, TCP as
    functions on control blocks, the socket calls; a segment can be sent whenever a page is free, and
    a passive opening sends \<open>SYN|ACK\<close> and ends in \<open>ESTABLISHED\<close>.
  \<^item> \<open>Procfs\<close> (\<open>procfs.c\<close>): the device behind \<open>/proc\<close>.
  \<^item> \<open>Virtio\<close>, \<open>VirtioProps\<close> (\<open>virtio_disk.c\<close>): descriptors, requests and completions; a request is
    what the device reads from its chain, and descriptors are conserved.
  \<^item> \<open>Debugtbl\<close>, \<open>DebugProps\<close> (\<open>debugtbl.c\<close>): the table of code addresses and its binary search.
  \<^item> \<open>Trap\<close>, \<open>TrapProps\<close> (\<open>trap.c\<close>, \<open>syscall.c\<close>): interrupts, page faults, the table of system calls, the
    return to user mode; a system call as a whole, from the \<open>ecall\<close> to the instruction behind it, for
    every handler that returns to the process that called it.
  \<^item> \<open>Machine\<close>, \<open>SysMachine\<close>: concrete machines for the examples.
  \<^item> \<open>Grep\<close>, \<open>Sh\<close>, \<open>ShProps\<close>, \<open>ShLine\<close> (\<open>user/grep.c\<close>, \<open>user/sh.c\<close>): the matcher against the language it
    denotes; the shell's parser against a printer, its history, its command loop.
  \<^item> \<open>UMalloc\<close>, \<open>UMallocProps\<close> (\<open>user/umalloc.c\<close>): the allocator of user programs on a ring of blocks,
    against the set of free bytes.
  \<^item> \<open>TicketLock\<close>, \<open>ULib\<close>, \<open>ULibProps\<close> (\<open>user/ulib.c\<close>, \<open>user/printf.c\<close>): the ticket lock as a step
    relation, strings, numbers and formatted output.
  \<^item> \<open>Barrier\<close> (\<open>notxv6/barrier.c\<close>): the barrier of the thread exercise as a step relation; its threads stay in
    step, and go on, as long as no waiter wakes for no reason.

  \<^bold>\<open>Parameters.\<close>  \<open>world\<close> (other processes), \<open>fault\<close> (the page fault handler where it is defined
  later), \<open>dv\<close> and \<open>so\<close> (tables of function pointers: devices and sockets) are arguments of the
  definitions that use them.  The disk is the map \<open>disk\<close>, changed by completed block writes only.

  The registers of a device are part of the state, and how it reacts to a write is an argument
  (\<open>react\<close>); the bytes that the serial port delivers are a stream.  What traps need of the machine
  besides is the record \<open>hw\<close>.

  \<^bold>\<open>Not modelled.\<close>  Assembly, the boot sequence and the set-up of devices that only write registers
  (\<open>main.c\<close>, \<open>start.c\<close>, \<open>plic.c\<close>, \<open>pci.c\<close>, \<open>e1000_init\<close>), the lock statistics and the race detector
  (\<open>stats.c\<close>, \<open>kcsan.c\<close>), the small user programs, the host programs \<open>mkfs\<close> and \<open>notxv6/ph.c\<close>, the tests, and the
  earlier stages of the kernel in \<open>lab1\<close> to \<open>lab10\<close>.
\<close>

end
